(* ===== verification/P3_Base.thy ===== *)
theory P3_Base
  imports Main "HOL-Library.Word"
begin

text \<open>
  Prelude of the development.

  The C++ sources are translated into a state monad with three abnormal endings.  A
  computation of type \<open>('s, 'a) comp\<close> takes the state \<open>'s\<close> of a component (its static
  variables or the fields of its object) and ends as
  \<^item> \<open>Done a s\<close>: the function returned normally with value \<open>a\<close> (for a function that returns
    an \<open>int\<close> status and an out parameter: status 0 and the out parameter \<open>a\<close>);
  \<^item> \<open>Fail rc s\<close>: the function returned the status \<open>rc\<close>, which is not 0; the state \<open>s\<close>
    keeps every effect made before the return;
  \<^item> \<open>Exit n\<close>: the function called \<open>exit(n)\<close>;
  \<^item> \<open>Undef\<close>: the function has undefined behaviour (null dereference, an access outside an
    array, signed overflow, reading the wrong member of a union).
  The macro \<open>ASSERT\<close> expands to nothing in the build of the repository, so an \<open>ASSERT\<close> is
  never a check of the model.

  The predicate \<open>wp m Q E s\<close> is the weakest precondition: \<open>m\<close> started in \<open>s\<close> ends normally
  in a state that satisfies \<open>Q\<close>, or with a status that satisfies \<open>E\<close>; it never exits and is
  never undefined.  Its equations are simplification rules, so that straight-line code is
  verified by the simplifier.
\<close>

named_theorems wp_simps "weakest preconditions of the primitive computations"

section \<open>Computations\<close>

datatype ('s, 'a) outcome = Done 'a 's | Fail int 's | Exit int | Undef

type_synonym ('s, 'a) comp = "'s \<Rightarrow> ('s, 'a) outcome"

definition retM :: "'a \<Rightarrow> ('s, 'a) comp" where
  "retM a = (\<lambda>s. Done a s)"

definition failM :: "int \<Rightarrow> ('s, 'a) comp" where
  "failM rc = (\<lambda>s. Fail rc s)"

definition exitM :: "int \<Rightarrow> ('s, 'a) comp" where
  "exitM n = (\<lambda>s. Exit n)"

definition undefM :: "('s, 'a) comp" where
  "undefM = (\<lambda>s. Undef)"

definition bindM :: "('s, 'a) comp \<Rightarrow> ('a \<Rightarrow> ('s, 'b) comp) \<Rightarrow> ('s, 'b) comp" where
  "bindM m f = (\<lambda>s. case m s of
      Done a s' \<Rightarrow> f a s'
    | Fail rc s' \<Rightarrow> Fail rc s'
    | Exit n \<Rightarrow> Exit n
    | Undef \<Rightarrow> Undef)"

definition seqM :: "('s, 'a) comp \<Rightarrow> ('s, 'b) comp \<Rightarrow> ('s, 'b) comp" where
  "seqM m n = bindM m (\<lambda>_. n)"

definition readM :: "('s \<Rightarrow> 'a) \<Rightarrow> ('s, 'a) comp" where
  "readM f = (\<lambda>s. Done (f s) s)"

definition modM :: "('s \<Rightarrow> 's) \<Rightarrow> ('s, unit) comp" where
  "modM f = (\<lambda>s. Done () (f s))"

text \<open>\<open>ensureM b\<close>: the access that follows is defined only if \<open>b\<close>.\<close>

definition ensureM :: "bool \<Rightarrow> ('s, unit) comp" where
  "ensureM b = (if b then retM () else undefM)"

definition whenM :: "bool \<Rightarrow> ('s, unit) comp \<Rightarrow> ('s, unit) comp" where
  "whenM b m = (if b then m else retM ())"

text \<open>Dereference of a pointer that may be null.\<close>

definition derefM :: "'a option \<Rightarrow> ('s, 'a) comp" where
  "derefM p = (case p of None \<Rightarrow> undefM | Some x \<Rightarrow> retM x)"

text \<open>Read of element \<open>i\<close> of an array of which \<open>length xs\<close> elements are initialised.\<close>

definition nthM :: "'a list \<Rightarrow> nat \<Rightarrow> ('s, 'a) comp" where
  "nthM xs i = (if i < length xs then retM (xs ! i) else undefM)"

text \<open>A \<open>for\<close> loop over the elements of an array.\<close>

primrec forM :: "'a list \<Rightarrow> ('a \<Rightarrow> ('s, unit) comp) \<Rightarrow> ('s, unit) comp" where
  "forM [] f = retM ()"
| "forM (x # xs) f = seqM (f x) (forM xs f)"

text \<open>A loop that carries a local variable.\<close>

primrec foldM :: "('b \<Rightarrow> 'a \<Rightarrow> ('s, 'b) comp) \<Rightarrow> 'b \<Rightarrow> 'a list \<Rightarrow> ('s, 'b) comp" where
  "foldM f b [] = retM b"
| "foldM f b (x # xs) = bindM (f b x) (\<lambda>b'. foldM f b' xs)"

text \<open>A loop that fills an array with the result of each iteration.\<close>

primrec mapM :: "('a \<Rightarrow> ('s, 'b) comp) \<Rightarrow> 'a list \<Rightarrow> ('s, 'b list) comp" where
  "mapM f [] = retM []"
| "mapM f (x # xs) = bindM (f x) (\<lambda>y. bindM (mapM f xs) (\<lambda>ys. retM (y # ys)))"

lemmas comp_defs = retM_def failM_def exitM_def undefM_def bindM_def seqM_def readM_def
  modM_def ensureM_def whenM_def derefM_def nthM_def

lemma bindM_cong [fundef_cong]:
  assumes "m s = m' s" and "\<And>a s'. m' s = Done a s' \<Longrightarrow> f a s' = f' a s'"
  shows "bindM m f s = bindM m' f' s"
  using assms by (auto simp: bindM_def split: outcome.splits)

subsection \<open>Monad laws\<close>

lemma bindM_retM [simp]: "bindM (retM a) f = f a"
  by (simp add: bindM_def retM_def)

lemma bindM_retM_right [simp]: "bindM m retM = m"
  by (auto simp: bindM_def retM_def fun_eq_iff split: outcome.splits)

lemma bindM_assoc: "bindM (bindM m f) g = bindM m (\<lambda>a. bindM (f a) g)"
  by (auto simp: bindM_def fun_eq_iff split: outcome.splits)

lemma bindM_failM [simp]: "bindM (failM rc) f = failM rc"
  by (simp add: bindM_def failM_def)

lemma bindM_undefM [simp]: "bindM undefM f = undefM"
  by (simp add: bindM_def undefM_def)

lemma foldM_append:
  "foldM f b (xs @ ys) = bindM (foldM f b xs) (\<lambda>b'. foldM f b' ys)"
  by (induction xs arbitrary: b) (simp_all add: bindM_assoc)

section \<open>Weakest preconditions\<close>

definition wp :: "('s, 'a) comp \<Rightarrow> ('a \<Rightarrow> 's \<Rightarrow> bool) \<Rightarrow> (int \<Rightarrow> 's \<Rightarrow> bool) \<Rightarrow> 's \<Rightarrow> bool" where
  "wp m Q E s = (case m s of
      Done a s' \<Rightarrow> Q a s'
    | Fail rc s' \<Rightarrow> E rc s'
    | Exit n \<Rightarrow> False
    | Undef \<Rightarrow> False)"

lemma wp_retM [simp, wp_simps]: "wp (retM a) Q E s = Q a s"
  by (simp add: wp_def retM_def)

lemma wp_failM [simp, wp_simps]: "wp (failM rc) Q E s = E rc s"
  by (simp add: wp_def failM_def)

lemma wp_exitM [simp, wp_simps]: "wp (exitM n) Q E s = False"
  by (simp add: wp_def exitM_def)

lemma wp_undefM [simp, wp_simps]: "wp undefM Q E s = False"
  by (simp add: wp_def undefM_def)

lemma wp_bindM [simp, wp_simps]: "wp (bindM m f) Q E s = wp m (\<lambda>a s'. wp (f a) Q E s') E s"
  by (simp add: wp_def bindM_def split: outcome.splits)

lemma wp_seqM [simp, wp_simps]: "wp (seqM m n) Q E s = wp m (\<lambda>_ s'. wp n Q E s') E s"
  by (simp add: seqM_def)

lemma wp_readM [simp, wp_simps]: "wp (readM f) Q E s = Q (f s) s"
  by (simp add: wp_def readM_def)

lemma wp_modM [simp, wp_simps]: "wp (modM f) Q E s = Q () (f s)"
  by (simp add: wp_def modM_def)

lemma wp_ensureM [simp, wp_simps]: "wp (ensureM b) Q E s = (b \<and> Q () s)"
  by (simp add: ensureM_def)

lemma wp_whenM [simp, wp_simps]: "wp (whenM b m) Q E s = (if b then wp m Q E s else Q () s)"
  by (simp add: whenM_def)

lemma wp_derefM [simp, wp_simps]: "wp (derefM p) Q E s = (\<exists>x. p = Some x \<and> Q x s)"
  by (simp add: derefM_def split: option.splits)

lemma wp_nthM [simp, wp_simps]: "wp (nthM xs i) Q E s = (i < length xs \<and> Q (xs ! i) s)"
  by (simp add: nthM_def)

lemma wp_if [simp, wp_simps]:
  "wp (if b then m else n) Q E s = (if b then wp m Q E s else wp n Q E s)"
  by simp

lemma wp_case_option [wp_simps]:
  "wp (case x of None \<Rightarrow> m | Some y \<Rightarrow> f y) Q E s =
    (case x of None \<Rightarrow> wp m Q E s | Some y \<Rightarrow> wp (f y) Q E s)"
  by (simp split: option.splits)

lemma wp_case_prod [simp, wp_simps]:
  "wp (case p of (a, b) \<Rightarrow> f a b) Q E s = (case p of (a, b) \<Rightarrow> wp (f a b) Q E s)"
  by (simp split: prod.splits)

lemma wp_mono:
  assumes "wp m Q E s"
    and "\<And>a s'. Q a s' \<Longrightarrow> Q' a s'"
    and "\<And>rc s'. E rc s' \<Longrightarrow> E' rc s'"
  shows "wp m Q' E' s"
  using assms by (auto simp: wp_def split: outcome.splits)

text \<open>Sequencing with a specification of the first computation.\<close>

lemma wp_bindI:
  assumes "wp m R F s"
    and "\<And>a s'. R a s' \<Longrightarrow> wp (f a) Q E s'"
    and "\<And>rc s'. F rc s' \<Longrightarrow> E rc s'"
  shows "wp (bindM m f) Q E s"
  unfolding wp_bindM by (rule wp_mono [OF assms(1)]) (simp_all add: assms(2,3))

lemma wp_seqI:
  assumes "wp m R F s"
    and "\<And>a s'. R a s' \<Longrightarrow> wp n Q E s'"
    and "\<And>rc s'. F rc s' \<Longrightarrow> E rc s'"
  shows "wp (seqM m n) Q E s"
  using assms unfolding seqM_def by (rule wp_bindI)

lemma wp_conj:
  "wp m Q E s \<Longrightarrow> wp m Q' E' s \<Longrightarrow> wp m (\<lambda>a s. Q a s \<and> Q' a s) (\<lambda>rc s. E rc s \<and> E' rc s) s"
  by (auto simp: wp_def split: outcome.splits)

lemma wp_DoneD: "wp m Q E s \<Longrightarrow> m s = Done a s' \<Longrightarrow> Q a s'"
  by (simp add: wp_def)

lemma wp_FailD: "wp m Q E s \<Longrightarrow> m s = Fail rc s' \<Longrightarrow> E rc s'"
  by (simp add: wp_def)

lemma wp_DoneI: "m s = Done a s' \<Longrightarrow> Q a s' \<Longrightarrow> wp m Q E s"
  by (simp add: wp_def)

lemma wp_success: "wp m Q (\<lambda>_ _. False) s \<Longrightarrow> \<exists>a s'. m s = Done a s' \<and> Q a s'"
  by (auto simp: wp_def split: outcome.splits)

lemma wp_iff: "wp m Q E s \<longleftrightarrow>
   (\<exists>a s'. m s = Done a s' \<and> Q a s') \<or> (\<exists>rc s'. m s = Fail rc s' \<and> E rc s')"
  by (auto simp: wp_def split: outcome.splits)

subsection \<open>Loops\<close>

lemma wp_forM:
  assumes "I 0 s"
    and "\<And>i s. i < length xs \<Longrightarrow> I i s \<Longrightarrow> wp (f (xs ! i)) (\<lambda>_. I (Suc i)) E s"
    and "\<And>s. I (length xs) s \<Longrightarrow> Q () s"
  shows "wp (forM xs f) Q E s"
  using assms
proof (induction xs arbitrary: I s)
  case Nil
  then show ?case by simp
next
  case (Cons x xs)
  have "wp (f x) (\<lambda>_. I (Suc 0)) E s"
    using Cons.prems(2) [of 0 s] Cons.prems(1) by simp
  then have "wp (f x) (\<lambda>_ s'. wp (forM xs f) Q E s') E s"
  proof (rule wp_mono)
    fix a s' assume "I (Suc 0) s'"
    then show "wp (forM xs f) Q E s'"
      using Cons.prems(2,3) by (intro Cons.IH [of "\<lambda>i. I (Suc i)"]) force+
  qed simp
  then show ?case by simp
qed

lemma wp_foldM:
  assumes "I 0 b s"
    and "\<And>i b s. i < length xs \<Longrightarrow> I i b s \<Longrightarrow> wp (f b (xs ! i)) (\<lambda>b'. I (Suc i) b') E s"
    and "\<And>b s. I (length xs) b s \<Longrightarrow> Q b s"
  shows "wp (foldM f b xs) Q E s"
  using assms
proof (induction xs arbitrary: I b s)
  case Nil
  then show ?case by simp
next
  case (Cons x xs)
  have "wp (f b x) (\<lambda>b'. I (Suc 0) b') E s"
    using Cons.prems(2) [of 0 b s] Cons.prems(1) by simp
  then have "wp (f b x) (\<lambda>b' s'. wp (foldM f b' xs) Q E s') E s"
  proof (rule wp_mono)
    fix a s' assume "I (Suc 0) a s'"
    then show "wp (foldM f a xs) Q E s'"
      using Cons.prems(2,3) by (intro Cons.IH [of "\<lambda>i. I (Suc i)"]) force+
  qed simp
  then show ?case by simp
qed

section \<open>Linear search\<close>

text \<open>
  The loop \<open>for (i = 0; i < n; i++) if (P(xs[i])) return i;\<close> that the sources use for every
  lookup: the position of the first element that satisfies \<open>P\<close>.
\<close>

primrec find_first :: "('a \<Rightarrow> bool) \<Rightarrow> 'a list \<Rightarrow> nat option" where
  "find_first P [] = None"
| "find_first P (x # xs) = (if P x then Some 0 else map_option Suc (find_first P xs))"

lemma find_first_None: "find_first P xs = None \<longleftrightarrow> (\<forall>x\<in>set xs. \<not> P x)"
  by (induction xs) auto

lemma find_first_Some:
  "find_first P xs = Some i \<longleftrightarrow> i < length xs \<and> P (xs ! i) \<and> (\<forall>j<i. \<not> P (xs ! j))"
proof (induction xs arbitrary: i)
  case Nil
  then show ?case by simp
next
  case (Cons x xs)
  show ?case
  proof (cases i)
    case 0
    then show ?thesis by auto
  next
    case (Suc k)
    then show ?thesis using Cons.IH [of k] by (auto simp: less_Suc_eq_0_disj nth_Cons split: nat.splits)
  qed
qed

lemma find_first_bound: "find_first P xs = Some i \<Longrightarrow> i < length xs"
  by (simp add: find_first_Some)

lemma find_first_sat: "find_first P xs = Some i \<Longrightarrow> P (xs ! i)"
  by (simp add: find_first_Some)

lemma find_first_unique:
  "i < length xs \<Longrightarrow> P (xs ! i) \<Longrightarrow> (\<And>j. j < length xs \<Longrightarrow> P (xs ! j) \<Longrightarrow> j = i) \<Longrightarrow>
   find_first P xs = Some i"
  unfolding find_first_Some by (metis less_imp_neq order.strict_trans)

section \<open>Pools\<close>

text \<open>
  Every component allocates its nodes from a fixed array with a counter, returns a null pointer
  once the counter has reached the capacity, and gives everything back at once by resetting
  the counter.  The locale states this contract; its lemmas are what a client uses: a run of
  allocations that fits succeeds and returns fresh consecutive positions, the allocation
  after the last one returns null, and a reset makes the whole capacity available again.
\<close>

locale bump_pool =
  fixes used :: "'s \<Rightarrow> nat" and capacity :: nat
    and alloc :: "'k \<Rightarrow> ('s, 'p option) comp" and reset :: "('s, unit) comp"
    and pos :: "'k \<Rightarrow> nat \<Rightarrow> 'p"
  assumes alloc_free: "used s < capacity \<Longrightarrow>
      \<exists>s'. alloc k s = Done (Some (pos k (used s))) s' \<and> used s' = Suc (used s)"
    and alloc_full: "used s = capacity \<Longrightarrow> alloc k s = Done None s"
    and reset_used: "\<exists>s'. reset s = Done () s' \<and> used s' = 0"
begin

lemma alloc_many:
  assumes "used s + length ks \<le> capacity"
  shows "\<exists>s'. mapM alloc ks s =
      Done (map2 (\<lambda>k i. Some (pos k i)) ks [used s ..< used s + length ks]) s' \<and>
    used s' = used s + length ks"
  using assms
proof (induction ks arbitrary: s)
  case Nil
  then show ?case by (simp add: retM_def)
next
  case (Cons k ks)
  from Cons.prems obtain s1 where s1: "alloc k s = Done (Some (pos k (used s))) s1"
      "used s1 = Suc (used s)"
    using alloc_free [of s k] by auto
  with Cons.prems obtain s2 where
    "mapM alloc ks s1 = Done (map2 (\<lambda>k i. Some (pos k i)) ks [used s1 ..< used s1 + length ks]) s2"
    "used s2 = used s1 + length ks"
    using Cons.IH [of s1] by auto
  moreover have "[used s ..< used s + length (k # ks)] =
      used s # [used s1 ..< used s1 + length ks]"
    using s1(2) by (subst upt_conv_Cons) simp_all
  ultimately show ?case
    using s1 by (simp add: bindM_def retM_def del: upt_Suc)
qed

text \<open>After a reset exactly \<open>capacity\<close> allocations succeed.\<close>

lemma pool_cycle:
  assumes "length ks = capacity"
  shows "\<exists>s'. seqM reset (mapM alloc ks) s =
      Done (map2 (\<lambda>k i. Some (pos k i)) ks [0 ..< capacity]) s' \<and> alloc k s' = Done None s'"
proof -
  obtain s0 where s0: "reset s = Done () s0" "used s0 = 0" using reset_used by blast
  then obtain s1 where "mapM alloc ks s0 = Done (map2 (\<lambda>k i. Some (pos k i)) ks [0 ..< capacity]) s1"
      "used s1 = capacity"
    using alloc_many [of s0 ks] assms by auto
  then show ?thesis using s0 alloc_full [of s1 k] by (simp add: seqM_def bindM_def)
qed

lemma alloc_never_undef: "used s \<le> capacity \<Longrightarrow> alloc k s \<noteq> Undef"
  using alloc_free [of s k] alloc_full [of s k] by (cases "used s < capacity") auto

end

end
