(* ===== verification/P3_Types.thy ===== *)
theory P3_Types
  imports P3_Base
begin

text \<open>
  The shared declarations of \<open>include/common\<close>: data types, aggregation functions, arithmetic
  and comparison operators, windows, the limits of \<open>constants.h\<close>, the status codes of
  \<open>include/interface/error.h\<close> and the schema of the system stream.

  Enumerators that clash with symbols of the logic carry a prefix (\<open>T_INT\<close> for \<open>INT\<close>,
  \<open>F_MAX\<close> for \<open>MAX\<close>, \<open>W_NOW\<close> for \<open>NOW\<close>).  A \<open>float\<close> is its binary32 bit pattern.
\<close>

section \<open>Data types and operators\<close>

datatype ctype = T_INT | T_FLOAT | T_BYTE | T_CHAR

definition INT_SIZE :: nat where "INT_SIZE = 4"
definition FLOAT_SIZE :: nat where "FLOAT_SIZE = 4"
definition BYTE_SIZE :: nat where "BYTE_SIZE = 1"
definition TIMESTAMP_SIZE :: nat where "TIMESTAMP_SIZE = 4"

datatype aggr_fn = F_COUNT | F_SUM | F_AVG | F_MAX | F_MIN

definition getOutputType :: "aggr_fn \<Rightarrow> ctype \<Rightarrow> ctype" where
  "getOutputType fn inputType = (if fn = F_AVG then T_FLOAT else inputType)"

datatype arith_op = O_ADD | O_SUB | O_MUL | O_DIV

datatype comp_op = C_LT | C_LE | C_GT | C_GE | C_EQ | C_NE

datatype win_type = W_ROW | W_RANGE | W_NOW | W_UNBOUNDED | W_PARTITION

section \<open>Limits\<close>

definition MAX_TABLES :: nat where "MAX_TABLES = 1000"
definition MAX_QUERIES :: nat where "MAX_QUERIES = 1000"
definition MAX_ATTRS :: nat where "MAX_ATTRS = 10"
definition MAX_OUT_BRANCHING :: nat where "MAX_OUT_BRANCHING = 10"

lemmas limit_defs = MAX_TABLES_def MAX_QUERIES_def MAX_ATTRS_def MAX_OUT_BRANCHING_def

section \<open>Status codes\<close>

definition PARSE_ERR :: int where "PARSE_ERR = 101"
definition DUPLICATE_TABLE_ERR :: int where "DUPLICATE_TABLE_ERR = 102"
definition DUPLICATE_ATTR_ERR :: int where "DUPLICATE_ATTR_ERR = 103"
definition UNKNOWN_TABLE_ERR :: int where "UNKNOWN_TABLE_ERR = 104"
definition UNKNOWN_VAR_ERR :: int where "UNKNOWN_VAR_ERR = 105"
definition AMBIGUOUS_ATTR_ERR :: int where "AMBIGUOUS_ATTR_ERR = 106"
definition UNKNOWN_ATTR_ERR :: int where "UNKNOWN_ATTR_ERR = 107"
definition WINDOW_OVER_REL_ERR :: int where "WINDOW_OVER_REL_ERR = 108"
definition TYPE_ERR :: int where "TYPE_ERR = 109"
definition SCHEMA_MISMATCH_ERR :: int where "SCHEMA_MISMATCH_ERR = 110"
definition AMBIGUOUS_TABLE_ERR :: int where "AMBIGUOUS_TABLE_ERR = 111"
definition INVALID_USE_ERR :: int where "INVALID_USE_ERR = 100"
definition INVALID_PARAM_ERR :: int where "INVALID_PARAM_ERR = 101"
definition INTERNAL_ERR :: int where "INTERNAL_ERR = 102"

lemmas error_defs = PARSE_ERR_def DUPLICATE_TABLE_ERR_def DUPLICATE_ATTR_ERR_def
  UNKNOWN_TABLE_ERR_def UNKNOWN_VAR_ERR_def AMBIGUOUS_ATTR_ERR_def UNKNOWN_ATTR_ERR_def
  WINDOW_OVER_REL_ERR_def TYPE_ERR_def SCHEMA_MISMATCH_ERR_def AMBIGUOUS_TABLE_ERR_def
  INVALID_USE_ERR_def INVALID_PARAM_ERR_def INTERNAL_ERR_def

section \<open>The system stream\<close>

definition SYS_STREAM :: string where "SYS_STREAM = ''SysStream''"
definition SS_ID :: nat where "SS_ID = 0"

definition SS_ATTRS :: "string list" where
  "SS_ATTRS = [''Type'', ''Id'', ''Property'', ''Ival'', ''Fval'']"

definition SS_ATTR_TYPES :: "ctype list" where
  "SS_ATTR_TYPES = [T_INT, T_INT, T_INT, T_INT, T_FLOAT]"

definition SS_ATTR_LEN :: "nat list" where
  "SS_ATTR_LEN = [INT_SIZE, INT_SIZE, INT_SIZE, INT_SIZE, FLOAT_SIZE]"

section \<open>Constants of queries\<close>

type_synonym cfloat = "32 word"

text \<open>
  Equality \<open>==\<close> of two \<open>float\<close> values on their bit patterns: a NaN (exponent all ones,
  fraction not 0) equals nothing, the two zeros are equal.
\<close>

definition float_nan :: "cfloat \<Rightarrow> bool" where
  "float_nan x = (uint x mod 2 ^ 31 > 255 * 2 ^ 23)"

definition float_eq :: "cfloat \<Rightarrow> cfloat \<Rightarrow> bool" where
  "float_eq x y = (\<not> float_nan x \<and> \<not> float_nan y \<and>
     (x = y \<or> (uint x mod 2 ^ 31 = 0 \<and> uint y mod 2 ^ 31 = 0)))"

text \<open>The members of the constant union of an expression, tagged by the data type.\<close>

datatype cval = IVal int | FVal cfloat | SVal string | BVal char

fun cval_type :: "cval \<Rightarrow> ctype" where
  "cval_type (IVal _) = T_INT"
| "cval_type (FVal _) = T_FLOAT"
| "cval_type (SVal _) = T_CHAR"
| "cval_type (BVal _) = T_BYTE"

lemma getOutputType_AVG [simp]: "getOutputType F_AVG t = T_FLOAT"
  by (simp add: getOutputType_def)

lemma getOutputType_other: "fn \<noteq> F_AVG \<Longrightarrow> getOutputType fn t = t"
  by (simp add: getOutputType_def)

lemma float_eq_sym: "float_eq x y = float_eq y x"
  by (auto simp: float_eq_def)

lemma float_eq_refl: "float_eq x x = (\<not> float_nan x)"
  by (auto simp: float_eq_def)

end
