(* ===== verification/Table_Manager.thy ===== *)
theory Table_Manager
  imports P3_Types
begin

text \<open>
  \<open>src/metadata/table_mgr.cc\<close>: the registry of streams and relations.

  The array \<open>tableList\<close> with its counter \<open>numTables\<close> is the list of its initialised elements,
  and so is \<open>attrList\<close> with \<open>numAttrs\<close> in every table.  A table is identified by its position
  in the list, an attribute by its position in the table.  The lookups are methods on a
  constant object: they are computations over any state, given the table manager.
\<close>

section \<open>State\<close>

record attribute =
  attrName :: string
  attrType :: ctype
  attrLen :: nat

record tbl =
  tableName :: string
  tblIsStream :: bool
  attrList :: "attribute list"

record table_manager =
  tableList :: "tbl list"

definition numTables :: "table_manager \<Rightarrow> nat" where
  "numTables tm = length (tableList tm)"

definition empty_table_manager :: table_manager where
  "empty_table_manager = \<lparr>tableList = []\<rparr>"

section \<open>Registration\<close>

definition registerStream :: "string \<Rightarrow> (table_manager, nat) comp" where
  "registerStream streamName =
    bindM (readM tableList) (\<lambda>ts.
    if length ts = MAX_TABLES then failM (- 1)
    else if \<exists>t\<in>set ts. tableName t = streamName then failM DUPLICATE_TABLE_ERR
    else seqM (modM (tableList_update (\<lambda>ts. ts @
                 [\<lparr>tableName = streamName, tblIsStream = True, attrList = []\<rparr>])))
              (retM (length ts)))"

definition registerRelation :: "string \<Rightarrow> (table_manager, nat) comp" where
  "registerRelation relName =
    bindM (readM tableList) (\<lambda>ts.
    if length ts = MAX_TABLES then failM (- 1)
    else if \<exists>t\<in>set ts. tableName t = relName then failM DUPLICATE_TABLE_ERR
    else seqM (modM (tableList_update (\<lambda>ts. ts @
                 [\<lparr>tableName = relName, tblIsStream = False, attrList = []\<rparr>])))
              (retM (length ts)))"

text \<open>
  The argument of \<open>unregisterTable\<close> is only checked by an \<open>ASSERT\<close>: the last table goes,
  whatever the argument.  With no table the unsigned counter would wrap around.
\<close>

definition unregisterTable :: "nat \<Rightarrow> (table_manager, unit) comp" where
  "unregisterTable tableId =
    bindM (readM tableList) (\<lambda>ts.
    seqM (ensureM (ts \<noteq> [])) (modM (tableList_update butlast)))"

definition addTableAttribute ::
    "nat \<Rightarrow> string \<Rightarrow> ctype \<Rightarrow> nat \<Rightarrow> (table_manager, unit) comp" where
  "addTableAttribute tableId aName aType aLen =
    bindM (readM tableList) (\<lambda>ts.
    bindM (nthM ts tableId) (\<lambda>table.
    if length (attrList table) = MAX_ATTRS then failM (- 1)
    else if \<exists>a\<in>set (attrList table). attrName a = aName then failM DUPLICATE_ATTR_ERR
    else modM (tableList_update (\<lambda>ts. ts[tableId :=
           table\<lparr>attrList := attrList table @
             [\<lparr>attrName = aName, attrType = aType, attrLen = aLen\<rparr>]\<rparr>]))))"

section \<open>Lookup\<close>

definition getTableId :: "table_manager \<Rightarrow> string \<Rightarrow> nat option" where
  "getTableId tm name = find_first (\<lambda>t. tableName t = name) (tableList tm)"

definition getNumAttrs :: "table_manager \<Rightarrow> nat \<Rightarrow> ('s, nat) comp" where
  "getNumAttrs tm tableId =
    bindM (nthM (tableList tm) tableId) (\<lambda>t. retM (length (attrList t)))"

definition getAttrId :: "table_manager \<Rightarrow> nat \<Rightarrow> string \<Rightarrow> ('s, nat option) comp" where
  "getAttrId tm tableId name =
    bindM (nthM (tableList tm) tableId) (\<lambda>t.
    retM (find_first (\<lambda>a. attrName a = name) (attrList t)))"

definition getAttrType :: "table_manager \<Rightarrow> nat \<Rightarrow> nat \<Rightarrow> ('s, ctype) comp" where
  "getAttrType tm tableId attrId =
    bindM (nthM (tableList tm) tableId) (\<lambda>t.
    bindM (nthM (attrList t) attrId) (\<lambda>a. retM (attrType a)))"

definition getAttrLen :: "table_manager \<Rightarrow> nat \<Rightarrow> nat \<Rightarrow> ('s, nat) comp" where
  "getAttrLen tm tableId attrId =
    bindM (nthM (tableList tm) tableId) (\<lambda>t.
    bindM (nthM (attrList t) attrId) (\<lambda>a. retM (attrLen a)))"

definition isStream :: "table_manager \<Rightarrow> nat \<Rightarrow> ('s, bool) comp" where
  "isStream tm tableId =
    bindM (nthM (tableList tm) tableId) (\<lambda>t. retM (tblIsStream t))"

definition getTableName :: "table_manager \<Rightarrow> nat \<Rightarrow> ('s, string) comp" where
  "getTableName tm tableId =
    bindM (nthM (tableList tm) tableId) (\<lambda>t. retM (tableName t))"

section \<open>Invariant\<close>

definition tbl_ok :: "tbl \<Rightarrow> bool" where
  "tbl_ok t \<longleftrightarrow> length (attrList t) \<le> MAX_ATTRS \<and> distinct (map attrName (attrList t))"

definition tm_ok :: "table_manager \<Rightarrow> bool" where
  "tm_ok tm \<longleftrightarrow> length (tableList tm) \<le> MAX_TABLES \<and>
     distinct (map tableName (tableList tm)) \<and> (\<forall>t\<in>set (tableList tm). tbl_ok t)"

text \<open>The registry as a map: table name to identifier.\<close>

definition attr_valid :: "table_manager \<Rightarrow> nat \<Rightarrow> nat \<Rightarrow> bool" where
  "attr_valid tm t a \<longleftrightarrow> t < length (tableList tm) \<and> a < length (attrList (tableList tm ! t))"

lemma tm_ok_empty [simp]: "tm_ok empty_table_manager"
  by (simp add: tm_ok_def empty_table_manager_def)

lemma tm_ok_tbl: "tm_ok tm \<Longrightarrow> i < length (tableList tm) \<Longrightarrow> tbl_ok (tableList tm ! i)"
  by (simp add: tm_ok_def)

lemma distinct_map_snoc:
  "distinct (map f xs) \<Longrightarrow> f x \<notin> f ` set xs \<Longrightarrow> distinct (map f (xs @ [x]))"
  by simp

lemma distinct_map_update:
  "i < length xs \<Longrightarrow> f x = f (xs ! i) \<Longrightarrow> map f (xs[i := x]) = map f xs"
  by (metis list_update_id map_update)

lemma registerStream_wp:
  assumes "tm_ok tm"
  shows "wp (registerStream n)
    (\<lambda>i tm'. tm_ok tm' \<and> i = length (tableList tm) \<and> getTableId tm n = None \<and>
       tableList tm' = tableList tm @ [\<lparr>tableName = n, tblIsStream = True, attrList = []\<rparr>])
    (\<lambda>rc tm'. tm' = tm \<and> (rc = - 1 \<and> length (tableList tm) = MAX_TABLES \<or>
       rc = DUPLICATE_TABLE_ERR \<and> getTableId tm n \<noteq> None)) tm"
  using assms unfolding registerStream_def
  by (auto simp: tm_ok_def tbl_ok_def getTableId_def MAX_ATTRS_def find_first_None)

lemma registerRelation_wp:
  assumes "tm_ok tm"
  shows "wp (registerRelation n)
    (\<lambda>i tm'. tm_ok tm' \<and> i = length (tableList tm) \<and> getTableId tm n = None \<and>
       tableList tm' = tableList tm @ [\<lparr>tableName = n, tblIsStream = False, attrList = []\<rparr>])
    (\<lambda>rc tm'. tm' = tm \<and> (rc = - 1 \<and> length (tableList tm) = MAX_TABLES \<or>
       rc = DUPLICATE_TABLE_ERR \<and> getTableId tm n \<noteq> None)) tm"
  using assms unfolding registerRelation_def
  by (auto simp: tm_ok_def tbl_ok_def getTableId_def MAX_ATTRS_def find_first_None)

lemma addTableAttribute_wp:
  assumes "tm_ok tm" and "i < length (tableList tm)"
  shows "wp (addTableAttribute i n ty len)
    (\<lambda>_ tm'. tm_ok tm' \<and> (\<forall>a\<in>set (attrList (tableList tm ! i)). attrName a \<noteq> n) \<and>
       tableList tm' = (tableList tm)[i := (tableList tm ! i)\<lparr>attrList :=
         attrList (tableList tm ! i) @ [\<lparr>attrName = n, attrType = ty, attrLen = len\<rparr>]\<rparr>])
    (\<lambda>rc tm'. tm' = tm \<and> (rc = - 1 \<and> length (attrList (tableList tm ! i)) = MAX_ATTRS \<or>
       rc = DUPLICATE_ATTR_ERR \<and> (\<exists>a\<in>set (attrList (tableList tm ! i)). attrName a = n))) tm"
proof -
  let ?t = "tableList tm ! i"
  let ?t' = "?t\<lparr>attrList := attrList ?t @ [\<lparr>attrName = n, attrType = ty, attrLen = len\<rparr>]\<rparr>"
  have ok: "tbl_ok ?t" using assms by (rule tm_ok_tbl)
  have "tm_ok (tableList_update (\<lambda>ts. ts[i := ?t']) tm)"
    if "length (attrList ?t) \<noteq> MAX_ATTRS" "\<forall>a\<in>set (attrList ?t). attrName a \<noteq> n"
  proof -
    have "tbl_ok ?t'" using ok that by (auto simp: tbl_ok_def)
    moreover have "map tableName ((tableList tm)[i := ?t']) = map tableName (tableList tm)"
      using assms(2) by (intro distinct_map_update) auto
    ultimately show ?thesis
      using assms by (auto simp: tm_ok_def dest: subsetD [OF set_update_subset_insert])
  qed
  then show ?thesis using assms(2) unfolding addTableAttribute_def by auto
qed

lemma getNumAttrs_wp [wp_simps, simp]:
  "wp (getNumAttrs tm t) Q E s \<longleftrightarrow>
     t < length (tableList tm) \<and> Q (length (attrList (tableList tm ! t))) s"
  by (simp add: getNumAttrs_def)

lemma getAttrId_wp [wp_simps, simp]:
  "wp (getAttrId tm t n) Q E s \<longleftrightarrow>
     t < length (tableList tm) \<and>
     Q (find_first (\<lambda>a. attrName a = n) (attrList (tableList tm ! t))) s"
  by (simp add: getAttrId_def)

lemma getAttrType_wp [wp_simps, simp]:
  "wp (getAttrType tm t a) Q E s \<longleftrightarrow>
     attr_valid tm t a \<and> Q (attrType (attrList (tableList tm ! t) ! a)) s"
  by (auto simp: getAttrType_def attr_valid_def)

lemma getAttrLen_wp [wp_simps, simp]:
  "wp (getAttrLen tm t a) Q E s \<longleftrightarrow>
     attr_valid tm t a \<and> Q (attrLen (attrList (tableList tm ! t) ! a)) s"
  by (auto simp: getAttrLen_def attr_valid_def)

lemma isStream_wp [wp_simps, simp]:
  "wp (isStream tm t) Q E s \<longleftrightarrow> t < length (tableList tm) \<and> Q (tblIsStream (tableList tm ! t)) s"
  by (simp add: isStream_def)

lemma getTableId_bound: "getTableId tm n = Some i \<Longrightarrow> i < length (tableList tm)"
  by (simp add: getTableId_def find_first_bound)

lemma getTableId_nth:
  assumes "tm_ok tm" and "i < length (tableList tm)"
  shows "getTableId tm (tableName (tableList tm ! i)) = Some i"
  using assms unfolding getTableId_def tm_ok_def
  by (intro find_first_unique) (auto simp: distinct_conv_nth)

end
