(* ===== verification/Query_Manager.thy ===== *)
theory Query_Manager
  imports P3_Types
begin

text \<open>
  \<open>src/metadata/query_mgr.cc\<close>: the query strings.  All strings live in one buffer of
  \<open>QRY_BUF_LEN\<close> characters; \<open>queries\<close> holds the offset of each string and \<open>nextFree\<close> is the
  offset of the first free character (the pointer \<open>next\<close>).
\<close>

definition QRY_BUF_LEN :: nat where "QRY_BUF_LEN = 40906"

record query_manager =
  queryBuffer :: "nat \<Rightarrow> char"
  queries :: "nat list"
  nextFree :: nat

definition nul :: char where "nul = CHR 0x00"

definition init_query_manager :: "(nat \<Rightarrow> char) \<Rightarrow> query_manager" where
  "init_query_manager garbage = \<lparr>queryBuffer = garbage, queries = [], nextFree = 0\<rparr>"

text \<open>\<open>strncpy(buf + p, s, n)\<close>: copies up to \<open>n\<close> characters and pads with NUL.\<close>

definition strncpy :: "(nat \<Rightarrow> char) \<Rightarrow> nat \<Rightarrow> string \<Rightarrow> nat \<Rightarrow> (nat \<Rightarrow> char)" where
  "strncpy buf p s n =
     (\<lambda>i. if p \<le> i \<and> i < p + n then (if i - p < length s then s ! (i - p) else nul) else buf i)"

definition registerQueryStr :: "string \<Rightarrow> nat \<Rightarrow> (query_manager, nat) comp" where
  "registerQueryStr qryStr qryStrLen =
    bindM (readM nextFree) (\<lambda>nxt.
    bindM (readM queries) (\<lambda>qs.
    if nxt + qryStrLen \<ge> QRY_BUF_LEN then failM (- 1)
    else if length qs \<ge> MAX_QUERIES then failM (- 1)
    else seqM (modM (\<lambda>m. m\<lparr>queries := qs @ [nxt],
                            queryBuffer := strncpy (queryBuffer m) nxt qryStr (qryStrLen + 1),
                            nextFree := nxt + (qryStrLen + 1)\<rparr>))
              (retM (length qs))))"

section \<open>Stored strings\<close>

text \<open>The NUL-terminated string at offset \<open>p\<close> is \<open>s\<close>.\<close>

definition cstr_at :: "(nat \<Rightarrow> char) \<Rightarrow> nat \<Rightarrow> string \<Rightarrow> bool" where
  "cstr_at buf p s \<longleftrightarrow> (\<forall>i<length s. buf (p + i) = s ! i \<and> s ! i \<noteq> nul) \<and> buf (p + length s) = nul"

text \<open>The manager stores exactly the strings \<open>ss\<close>, in the order of their identifiers.\<close>

definition qm_stores :: "query_manager \<Rightarrow> string list \<Rightarrow> bool" where
  "qm_stores m ss \<longleftrightarrow> length (queries m) = length ss \<and> length ss \<le> MAX_QUERIES \<and>
     nextFree m \<le> QRY_BUF_LEN \<and>
     (\<forall>q<length ss. cstr_at (queryBuffer m) (queries m ! q) (ss ! q) \<and>
        queries m ! q + length (ss ! q) < nextFree m)"

lemma qm_stores_init: "qm_stores (init_query_manager g) []"
  by (simp add: qm_stores_def init_query_manager_def)

lemma cstr_at_strncpy:
  "nul \<notin> set s \<Longrightarrow> cstr_at (strncpy buf p s (length s + 1)) p s"
  by (auto simp: cstr_at_def strncpy_def in_set_conv_nth)

lemma cstr_at_frame:
  "cstr_at buf p s \<Longrightarrow> p + length s < q \<Longrightarrow> cstr_at (strncpy buf q t n) p s"
  by (auto simp: cstr_at_def strncpy_def)

lemma registerQueryStr_wp:
  assumes "qm_stores m ss" and "nul \<notin> set s"
  shows "wp (registerQueryStr s (length s))
     (\<lambda>q m'. q = length ss \<and> qm_stores m' (ss @ [s]))
     (\<lambda>rc m'. rc = - 1 \<and> m' = m \<and>
        (nextFree m + length s \<ge> QRY_BUF_LEN \<or> length ss = MAX_QUERIES)) m"
  using assms unfolding registerQueryStr_def
  by (auto simp: qm_stores_def nth_append cstr_at_strncpy [simplified] cstr_at_frame
      less_Suc_eq intro: less_trans)

end
