(* ===== verification/Catalog_Spec.thy ===== *)
theory Catalog_Spec
  imports Table_Manager Query_Manager
begin

text \<open>
  What the two registries promise.  The table manager and the query manager share one contract:
  a registration either fails and changes nothing, or hands out the next identifier, under
  which the entry is found from then on.  The locale \<open>registry\<close> states it; its lemmas speak of
  sequences of registrations.
\<close>

section \<open>Loops with an invariant\<close>

lemma wp_forM_inv:
  assumes "I s" and "\<And>x s. x \<in> set xs \<Longrightarrow> I s \<Longrightarrow> wp (f x) (\<lambda>_. I) E s"
  shows "wp (forM xs f) (\<lambda>_. I) E s"
  using assms by (intro wp_forM [where I = "\<lambda>_. I"]) auto

section \<open>The contract of a registry\<close>

text \<open>
  \<open>entry s i n\<close>: the registry \<open>s\<close> holds the entry \<open>n\<close> under the identifier \<open>i\<close>; \<open>valid k\<close>
  is what a request \<open>k\<close> must satisfy, \<open>key k\<close> is its entry.
\<close>

locale registry =
  fixes inv :: "'s \<Rightarrow> bool" and count :: "'s \<Rightarrow> nat" and entry :: "'s \<Rightarrow> nat \<Rightarrow> 'n \<Rightarrow> bool"
    and valid :: "'k \<Rightarrow> bool" and key :: "'k \<Rightarrow> 'n" and reg :: "'k \<Rightarrow> ('s, nat) comp"
  assumes reg_wp: "inv s \<Longrightarrow> valid k \<Longrightarrow> wp (reg k)
      (\<lambda>i s'. inv s' \<and> i = count s \<and> count s' = Suc (count s) \<and> entry s' i (key k) \<and>
         (\<forall>j n. j < count s \<longrightarrow> entry s j n \<longrightarrow> entry s' j n))
      (\<lambda>rc s'. s' = s) s"
begin

text \<open>A sequence of registrations numbers its entries consecutively and keeps the old ones.\<close>

lemma reg_many:
  assumes "inv s" and "\<forall>k\<in>set ks. valid k"
  shows "wp (mapM reg ks)
    (\<lambda>is s'. inv s' \<and> is = [count s ..< count s + length ks] \<and> count s' = count s + length ks \<and>
       (\<forall>j<length ks. entry s' (count s + j) (key (ks ! j))) \<and>
       (\<forall>j n. j < count s \<longrightarrow> entry s j n \<longrightarrow> entry s' j n))
    (\<lambda>rc s'. inv s') s"
  using assms
proof (induction ks arbitrary: s)
  case Nil
  then show ?case by simp
next
  case (Cons k ks)
  have k: "inv s" "valid k" and ks: "\<forall>k\<in>set ks. valid k" using Cons.prems by simp_all
  show ?case
    unfolding mapM.simps
  proof (rule wp_bindI [OF reg_wp [OF k]])
    fix i s1
    assume r: "inv s1 \<and> i = count s \<and> count s1 = Suc (count s) \<and> entry s1 i (key k) \<and>
      (\<forall>j n. j < count s \<longrightarrow> entry s j n \<longrightarrow> entry s1 j n)"
    then have "inv s1" by simp
    from Cons.IH [OF this ks] show "wp (bindM (mapM reg ks) (\<lambda>ys. retM (i # ys)))
      (\<lambda>is s'. inv s' \<and> is = [count s ..< count s + length (k # ks)] \<and>
         count s' = count s + length (k # ks) \<and>
         (\<forall>j<length (k # ks). entry s' (count s + j) (key ((k # ks) ! j))) \<and>
         (\<forall>j n. j < count s \<longrightarrow> entry s j n \<longrightarrow> entry s' j n))
      (\<lambda>rc s'. inv s') s1"
    proof (rule wp_bindI)
      fix "is" s2
      assume s2: "inv s2 \<and> is = [count s1 ..< count s1 + length ks] \<and>
        count s2 = count s1 + length ks \<and>
        (\<forall>j<length ks. entry s2 (count s1 + j) (key (ks ! j))) \<and>
        (\<forall>j n. j < count s1 \<longrightarrow> entry s1 j n \<longrightarrow> entry s2 j n)"
      have "entry s2 (count s + j) (key ((k # ks) ! j))" if "j < length (k # ks)" for j
        using that r s2 by (cases j) auto
      moreover have "i # is = [count s ..< count s + length (k # ks)]"
        using r s2 by (simp add: upt_conv_Cons del: upt_Suc)
      ultimately show "wp (retM (i # is)) (\<lambda>is s'. inv s' \<and>
          is = [count s ..< count s + length (k # ks)] \<and>
          count s' = count s + length (k # ks) \<and>
          (\<forall>j<length (k # ks). entry s' (count s + j) (key ((k # ks) ! j))) \<and>
          (\<forall>j n. j < count s \<longrightarrow> entry s j n \<longrightarrow> entry s' j n)) (\<lambda>rc s'. inv s') s2"
        using r s2 by simp
    qed simp
  qed (use k in simp)
qed

lemma registered:
  assumes "inv s" and "\<forall>k\<in>set ks. valid k" and "mapM reg ks s = Done is s'"
  shows "inv s'" and "is = [count s ..< count s + length ks]"
    and "\<And>j. j < length ks \<Longrightarrow> entry s' (is ! j) (key (ks ! j))"
    and "\<And>j n. j < count s \<Longrightarrow> entry s j n \<Longrightarrow> entry s' j n"
  using wp_DoneD [OF reg_many [OF assms(1,2)] assms(3)] by auto

end

section \<open>Tables\<close>

text \<open>A request to register a table: whether it is a stream, and its name.\<close>

definition registerTable :: "bool \<times> string \<Rightarrow> (table_manager, nat) comp" where
  "registerTable k = (if fst k then registerStream (snd k) else registerRelation (snd k))"

definition table_entry :: "table_manager \<Rightarrow> nat \<Rightarrow> bool \<times> string \<Rightarrow> bool" where
  "table_entry tm i k \<longleftrightarrow> i < length (tableList tm) \<and> getTableId tm (snd k) = Some i \<and>
     tblIsStream (tableList tm ! i) = fst k"

lemma table_entry_snoc:
  assumes "tm_ok tm'" and "tableList tm' = tableList tm @ [t]"
  shows "table_entry tm' (length (tableList tm)) (tblIsStream t, tableName t)"
    and "table_entry tm j k \<Longrightarrow> table_entry tm' j k"
proof -
  show "table_entry tm' (length (tableList tm)) (tblIsStream t, tableName t)"
    using getTableId_nth [OF assms(1), of "length (tableList tm)"] assms(2)
    by (simp add: table_entry_def)
  assume e: "table_entry tm j k"
  then have "tableName (tableList tm ! j) = snd k"
    by (auto simp: table_entry_def getTableId_def dest: find_first_sat)
  then show "table_entry tm' j k"
    using e getTableId_nth [OF assms(1), of j] assms(2) by (auto simp: table_entry_def nth_append)
qed

lemma registerTable_wp:
  assumes "tm_ok tm"
  shows "wp (registerTable k)
    (\<lambda>i tm'. tm_ok tm' \<and> i = length (tableList tm) \<and> tableList tm' = tableList tm @
       [\<lparr>tableName = snd k, tblIsStream = fst k, attrList = []\<rparr>])
    (\<lambda>rc tm'. tm' = tm) tm"
  using wp_mono [OF registerStream_wp [OF assms]] wp_mono [OF registerRelation_wp [OF assms]]
  by (cases "fst k") (simp_all add: registerTable_def)

interpretation tables: registry tm_ok numTables table_entry "\<lambda>_. True" "\<lambda>k. k" registerTable
proof
  fix tm k assume ok: "tm_ok tm"
  show "wp (registerTable k)
      (\<lambda>i tm'. tm_ok tm' \<and> i = numTables tm \<and> numTables tm' = Suc (numTables tm) \<and>
         table_entry tm' i k \<and> (\<forall>j n. j < numTables tm \<longrightarrow> table_entry tm j n \<longrightarrow> table_entry tm' j n))
      (\<lambda>rc tm'. tm' = tm) tm"
  proof (rule wp_mono [OF registerTable_wp [OF ok]])
    fix i tm'
    assume r: "tm_ok tm' \<and> i = length (tableList tm) \<and> tableList tm' = tableList tm @
       [\<lparr>tableName = snd k, tblIsStream = fst k, attrList = []\<rparr>]"
    then have e: "tm_ok tm'" "tableList tm' = tableList tm @
       [\<lparr>tableName = snd k, tblIsStream = fst k, attrList = []\<rparr>]" by simp_all
    show "tm_ok tm' \<and> i = numTables tm \<and> numTables tm' = Suc (numTables tm) \<and> table_entry tm' i k \<and>
        (\<forall>j n. j < numTables tm \<longrightarrow> table_entry tm j n \<longrightarrow> table_entry tm' j n)"
      using r table_entry_snoc(1) [OF e] table_entry_snoc(2) [OF e] by (simp add: numTables_def)
  qed
qed

section \<open>Query strings\<close>

definition query_entry :: "query_manager \<Rightarrow> nat \<Rightarrow> string \<Rightarrow> bool" where
  "query_entry m i s \<longleftrightarrow> i < length (queries m) \<and> cstr_at (queryBuffer m) (queries m ! i) s"

definition qm_inv :: "query_manager \<Rightarrow> bool" where
  "qm_inv m \<longleftrightarrow> (\<exists>ss. qm_stores m ss)"

text \<open>The string at an offset is unique: a C string ends at its first NUL.\<close>

lemma cstr_at_prefix:
  assumes "cstr_at b p s" and "cstr_at b p t"
  shows "length s \<le> length t"
proof (rule ccontr)
  assume "\<not> ?thesis"
  then have "s ! length t = nul" "s ! length t \<noteq> nul"
    using assms by (force simp: cstr_at_def)+
  then show False by simp
qed

lemma cstr_at_unique: "cstr_at b p s \<Longrightarrow> cstr_at b p t \<Longrightarrow> s = t"
  using cstr_at_prefix [of b p s t] cstr_at_prefix [of b p t s]
  by (intro nth_equalityI) (auto simp: cstr_at_def)

lemma query_entry_iff:
  "qm_stores m ss \<Longrightarrow> query_entry m i s \<longleftrightarrow> i < length ss \<and> ss ! i = s"
  by (auto simp: query_entry_def qm_stores_def dest: cstr_at_unique)

interpretation query_strings: registry qm_inv "\<lambda>m. length (queries m)" query_entry
  "\<lambda>s. nul \<notin> set s" "\<lambda>s. s" "\<lambda>s. registerQueryStr s (length s)"
proof
  fix m s assume "qm_inv m" and s: "nul \<notin> set s"
  then obtain ss where ss: "qm_stores m ss" by (auto simp: qm_inv_def)
  then have n: "length (queries m) = length ss" by (simp add: qm_stores_def)
  show "wp (registerQueryStr s (length s))
      (\<lambda>i m'. qm_inv m' \<and> i = length (queries m) \<and> length (queries m') = Suc (length (queries m)) \<and>
         query_entry m' i s \<and>
         (\<forall>j n. j < length (queries m) \<longrightarrow> query_entry m j n \<longrightarrow> query_entry m' j n))
      (\<lambda>rc m'. m' = m) m"
  proof (rule wp_mono [OF registerQueryStr_wp [OF ss s]])
    fix i m' assume r: "i = length ss \<and> qm_stores m' (ss @ [s])"
    then have "length (queries m') = Suc (length ss)" by (simp add: qm_stores_def)
    then show "qm_inv m' \<and> i = length (queries m) \<and> length (queries m') = Suc (length (queries m)) \<and>
         query_entry m' i s \<and>
         (\<forall>j n. j < length (queries m) \<longrightarrow> query_entry m j n \<longrightarrow> query_entry m' j n)"
      using r n ss by (auto simp: qm_inv_def query_entry_iff nth_append)
  qed simp
qed

section \<open>Properties\<close>

text \<open>C9: Any sequence of successful registrations of streams and relations gives them
  consecutive identifiers and accepts no name twice; afterwards the lookup of each name returns
  the identifier it was given, the kind of each table is the declared one, and every name that was
  known before still has its identifier.\<close>
theorem registered_tables_found:
  assumes "tm_ok tm" and "mapM registerTable ks tm = Done ids tm'"
  shows "tm_ok tm' \<and> ids = [numTables tm ..< numTables tm + length ks] \<and> distinct (map snd ks) \<and>
    (\<forall>j<length ks. getTableId tm' (snd (ks ! j)) = Some (ids ! j) \<and>
       tblIsStream (tableList tm' ! (ids ! j)) = fst (ks ! j)) \<and>
    (\<forall>n i. getTableId tm n = Some i \<longrightarrow> getTableId tm' n = Some i)"
proof (intro conjI)
  note r = tables.registered [OF assms(1) _ assms(2), simplified]
  show "tm_ok tm'" and ids: "ids = [numTables tm ..< numTables tm + length ks]" by (fact r)+
  show new: "\<forall>j<length ks. getTableId tm' (snd (ks ! j)) = Some (ids ! j) \<and>
       tblIsStream (tableList tm' ! (ids ! j)) = fst (ks ! j)"
    using r(3) by (simp add: table_entry_def)
  have "j = j'" if "j < length ks" "j' < length ks" "snd (ks ! j) = snd (ks ! j')" for j j'
    using that new ids by (metis distinct_upt length_upt add_diff_cancel_left' nth_eq_iff_index_eq
        option.inject)
  then show "distinct (map snd ks)" by (auto simp: distinct_conv_nth)
  show "\<forall>n i. getTableId tm n = Some i \<longrightarrow> getTableId tm' n = Some i"
  proof (intro allI impI)
    fix n i assume "getTableId tm n = Some i"
    then have "i < numTables tm" "table_entry tm i (tblIsStream (tableList tm ! i), n)"
      by (simp_all add: numTables_def table_entry_def getTableId_bound)
    then show "getTableId tm' n = Some i" using r(4) by (auto simp: table_entry_def)
  qed
qed

theorem registered_tables_found_witness:
  "getTableId \<lparr>tableList = [\<lparr>tableName = ''S'', tblIsStream = True, attrList = []\<rparr>,
     \<lparr>tableName = ''R'', tblIsStream = False, attrList = []\<rparr>]\<rparr> ''R'' = Some 1"
proof -
  have "mapM registerTable [(True, ''S''), (False, ''R'')] empty_table_manager =
     Done [0, 1] \<lparr>tableList = [\<lparr>tableName = ''S'', tblIsStream = True, attrList = []\<rparr>,
       \<lparr>tableName = ''R'', tblIsStream = False, attrList = []\<rparr>]\<rparr>"
    by (simp add: registerTable_def registerStream_def registerRelation_def comp_defs
        empty_table_manager_def MAX_TABLES_def)
  from registered_tables_found [OF tm_ok_empty this] show ?thesis by (auto simp: nth_Cons')
qed

text \<open>C11: A table that is being declared can be taken back: after a registration and any
  declarations of its attributes, successful or cut short by an error, \<open>unregisterTable\<close>
  restores the table manager as it was before.\<close>
theorem unregister_restores:
  assumes "registerTable k tm = Done i tm1"
    and "forM as (\<lambda>(n, ty, len). addTableAttribute i n ty len) tm1 \<in> {Done () tm2, Fail rc tm2}"
  shows "unregisterTable i tm2 = Done () tm"
proof -
  let ?I = "\<lambda>tm'. \<exists>t. tableList tm' = tableList tm @ [t]"
  have tm1: "?I tm1" and i: "i = length (tableList tm)"
    using assms(1) by (auto simp: registerTable_def registerStream_def registerRelation_def comp_defs
        split: if_splits)
  have add: "wp (addTableAttribute i n ty len) (\<lambda>_. ?I) (\<lambda>_. ?I) tm'" if "?I tm'" for n ty len tm'
    using that i by (auto simp: addTableAttribute_def)
  have "wp (forM as (\<lambda>(n, ty, len). addTableAttribute i n ty len)) (\<lambda>_. ?I) (\<lambda>_. ?I) tm1"
    using tm1 add by (intro wp_forM_inv) (auto split: prod.splits)
  then have "?I tm2" using assms(2) by (auto dest: wp_DoneD wp_FailD)
  then show ?thesis by (auto simp: unregisterTable_def comp_defs)
qed

theorem unregister_restores_witness:
  "unregisterTable 0 \<lparr>tableList = [\<lparr>tableName = ''S'', tblIsStream = True,
     attrList = [\<lparr>attrName = ''a'', attrType = T_INT, attrLen = 4\<rparr>]\<rparr>]\<rparr> = Done () empty_table_manager"
  by (rule unregister_restores [of "(True, ''S'')" empty_table_manager 0
      "\<lparr>tableList = [\<lparr>tableName = ''S'', tblIsStream = True, attrList = []\<rparr>]\<rparr>"
      "[(''a'', T_INT, 4), (''a'', T_FLOAT, 4)]" _ DUPLICATE_ATTR_ERR])
    (simp_all add: registerTable_def registerStream_def addTableAttribute_def comp_defs
      empty_table_manager_def limit_defs)

text \<open>C10: Declaring an attribute keeps the invariant of the table manager and every identifier it
  has handed out: the new attribute is found by its name with its type and length, the attributes
  declared before keep their identifiers in every table, and so do the tables.\<close>
theorem addTableAttribute_extends:
  assumes "tm_ok tm" and "i < numTables tm" and "addTableAttribute i n ty len tm = Done () tm'"
  shows "tm_ok tm' \<and> (\<exists>a. getNumAttrs tm i s = Done a s \<and> getNumAttrs tm' i s = Done (a + 1) s \<and>
      getAttrId tm' i n s = Done (Some a) s \<and> getAttrType tm' i a s = Done ty s \<and>
      getAttrLen tm' i a s = Done len s) \<and>
    (\<forall>j m b. getAttrId tm j m s = Done (Some b) s \<longrightarrow> getAttrId tm' j m s = Done (Some b) s) \<and>
    getTableId tm' = getTableId tm"
proof -
  let ?t = "tableList tm ! i" and ?a = "\<lparr>attrName = n, attrType = ty, attrLen = len\<rparr>"
  let ?t' = "?t\<lparr>attrList := attrList ?t @ [?a]\<rparr>"
  have i: "i < length (tableList tm)" using assms(2) by (simp add: numTables_def)
  note r = wp_DoneD [OF addTableAttribute_wp [OF assms(1) i] assms(3)]
  have tl: "tableList tm' = (tableList tm)[i := ?t']"
    and new: "\<forall>a\<in>set (attrList ?t). attrName a \<noteq> n" and ok: "tm_ok tm'" using r by simp_all
  have found: "find_first (\<lambda>a. attrName a = n) (attrList ?t @ [?a]) = Some (length (attrList ?t))"
    using new by (simp add: find_first_Some nth_append)
  have old: "find_first (\<lambda>a. attrName a = m) (attrList ?t @ [?a]) = Some b"
    if "find_first (\<lambda>a. attrName a = m) (attrList ?t) = Some b" for m b
    using that by (auto simp: find_first_Some nth_append)
  have names: "getTableId tm' m = getTableId tm m" for m
  proof -
    have "find_first P xs = find_first (\<lambda>x. x) (map P xs)" for P :: "tbl \<Rightarrow> bool" and xs
      by (induction xs) auto
    moreover have "map (\<lambda>t. tableName t = m) ((tableList tm)[i := ?t']) = map (\<lambda>t. tableName t = m) (tableList tm)"
      using i by (intro distinct_map_update) simp_all
    ultimately show ?thesis using tl unfolding getTableId_def by metis
  qed
  show ?thesis
  proof (intro conjI allI impI exI [of _ "length (attrList ?t)"] ext names ok)
    fix j m b assume "getAttrId tm j m s = Done (Some b) s"
    then show "getAttrId tm' j m s = Done (Some b) s"
      using i tl old by (cases "j = i") (auto simp: getAttrId_def comp_defs split: if_splits)
  qed (use i tl found in \<open>simp_all add: getNumAttrs_def getAttrId_def getAttrType_def getAttrLen_def comp_defs\<close>)
qed

theorem addTableAttribute_extends_witness:
  "getAttrId \<lparr>tableList = [\<lparr>tableName = ''S'', tblIsStream = True,
     attrList = [\<lparr>attrName = ''a'', attrType = T_INT, attrLen = 4\<rparr>]\<rparr>]\<rparr> 0 ''a'' () = Done (Some 0) ()"
proof -
  have "tm_ok \<lparr>tableList = [\<lparr>tableName = ''S'', tblIsStream = True, attrList = []\<rparr>]\<rparr>"
    by (simp add: tm_ok_def tbl_ok_def limit_defs)
  from addTableAttribute_extends [OF this, of 0 "''a''" T_INT 4 _ "()"] show ?thesis
    by (auto simp: addTableAttribute_def comp_defs numTables_def limit_defs getNumAttrs_def)
qed

text \<open>C12: The strings of all queries that were registered, in any number and of any length, are in
  the buffer under the identifiers that were returned, each terminated by its NUL.\<close>
theorem query_strings_kept:
  assumes "\<forall>s\<in>set ss. nul \<notin> set s"
    and "mapM (\<lambda>s. registerQueryStr s (length s)) ss (init_query_manager g) = Done ids m"
  shows "ids = [0 ..< length ss] \<and> (\<forall>q<length ss. cstr_at (queryBuffer m) (queries m ! q) (ss ! q))"
proof -
  have "qm_inv (init_query_manager g)" using qm_stores_init by (auto simp: qm_inv_def)
  note r = query_strings.registered [OF this assms]
  have "queries (init_query_manager g) = []" by (simp add: init_query_manager_def)
  then show ?thesis using r(2,3) by (simp add: query_entry_def)
qed

theorem query_strings_kept_witness:
  "\<exists>m. mapM (\<lambda>s. registerQueryStr s (length s)) [''ab'', ''c''] (init_query_manager (\<lambda>_. nul)) = Done [0, 1] m \<and>
     cstr_at (queryBuffer m) (queries m ! 1) ''c''"
proof -
  obtain ids m where m: "mapM (\<lambda>s. registerQueryStr s (length s)) [''ab'', ''c'']
      (init_query_manager (\<lambda>_. nul)) = Done ids m"
    by (simp add: registerQueryStr_def init_query_manager_def comp_defs QRY_BUF_LEN_def limit_defs)
  from query_strings_kept [OF _ this] show ?thesis
    using m by (auto simp: nul_def upt_rec)
qed

text \<open>C13: A registration of a query never writes outside the buffer, whatever the length: either it
  fails and nothing changes, or the bytes before the free space and the bytes behind the buffer keep
  their values and the free space stays inside the buffer.\<close>
theorem query_buffer_bounds:
  assumes "nextFree m \<le> QRY_BUF_LEN"
  shows "wp (registerQueryStr s n)
    (\<lambda>q m'. nextFree m < nextFree m' \<and> nextFree m' \<le> QRY_BUF_LEN \<and>
       (\<forall>i. i < nextFree m \<or> QRY_BUF_LEN \<le> i \<longrightarrow> queryBuffer m' i = queryBuffer m i))
    (\<lambda>rc m'. rc = - 1 \<and> m' = m) m"
  using assms by (auto simp: registerQueryStr_def strncpy_def)

theorem query_buffer_bounds_witness:
  "wp (registerQueryStr ''a'' 1) (\<lambda>q m'. 0 < nextFree m') (\<lambda>_ _. False)
     (init_query_manager (\<lambda>_. nul))"
proof -
  let ?m = "init_query_manager (\<lambda>_. nul)"
  have "wp (registerQueryStr ''a'' 1) (\<lambda>q m'. 0 < nextFree m') (\<lambda>rc m'. rc = - 1 \<and> m' = ?m) ?m"
    by (rule wp_mono [OF query_buffer_bounds]) (auto simp: init_query_manager_def)
  moreover have "wp (registerQueryStr ''a'' 1) (\<lambda>_ _. True) (\<lambda>_ _. False) ?m"
    by (simp add: registerQueryStr_def init_query_manager_def QRY_BUF_LEN_def limit_defs)
  ultimately show ?thesis by (auto simp: wp_def split: outcome.splits)
qed

end
