(* ===== verification/Sem_Query.thy ===== *)
theory Sem_Query
  imports P3_Types
begin

text \<open>
  \<open>include/querygen/query.h\<close>: the semantic representation of a query.  An expression is a tree
  tagged by its expression type; \<open>SE_ATTR\<close>, \<open>SE_AGGR\<close> and \<open>SE_COMP\<close> carry the data type that
  the interpreter stored in the member \<open>type\<close>, a constant has the type of its union member.
  An array with its counter is a list.
\<close>

record sem_attr =
  sVarId :: nat
  sAttrId :: nat

definition MAX_PARTN_ATTRS :: nat where "MAX_PARTN_ATTRS = 10"
definition MAX_PRED :: nat where "MAX_PRED = 10"
definition MAX_PROJ :: nat where "MAX_PROJ = 50"
definition MAX_GROUP_ATTRS :: nat where "MAX_GROUP_ATTRS = 10"

lemmas query_limits = MAX_PARTN_ATTRS_def MAX_PRED_def MAX_PROJ_def MAX_GROUP_ATTRS_def

datatype win_spec =
    WS_RANGE nat
  | WS_ROW nat
  | WS_PARTITION nat "sem_attr list"   \<comment> \<open>\<open>numRows\<close>, \<open>attrs\<close>\<close>
  | WS_NOW
  | WS_UNBOUNDED

datatype sem_expr =
    SE_CONST cval
  | SE_ATTR ctype sem_attr
  | SE_AGGR ctype aggr_fn sem_attr
  | SE_COMP ctype arith_op sem_expr sem_expr

fun sem_type :: "sem_expr \<Rightarrow> ctype" where
  "sem_type (SE_CONST c) = cval_type c"
| "sem_type (SE_ATTR t _) = t"
| "sem_type (SE_AGGR t _ _) = t"
| "sem_type (SE_COMP t _ _ _) = t"

record sem_bexpr =
  sOp :: comp_op
  sLeft :: sem_expr
  sRight :: sem_expr

datatype query_type = SFW_QUERY | BINARY_OP

datatype r2s_op = R_ISTREAM | R_DSTREAM | R_RSTREAM

datatype binary_op = B_UNION | B_EXCEPT

text \<open>
  A member that is only set for some queries is an \<open>option\<close>; the window of a relation in the
  FROM clause is whatever the local variable of the interpreter held, \<open>None\<close> if nothing.
\<close>

record query =
  qKind :: query_type
  refTables :: "nat list"
  fromClauseTables :: "nat list"
  winSpec :: "win_spec option list"
  preds :: "sem_bexpr list"
  projExprs :: "sem_expr list"
  bDistinct :: bool
  gbyAttrs :: "sem_attr list"
  bRelToStr :: bool
  r2sOp :: "r2s_op option"
  binOp :: "binary_op option"
  leftTable :: nat
  rightTable :: nat

definition blank_query :: query where
  "blank_query = \<lparr>qKind = SFW_QUERY, refTables = [], fromClauseTables = [], winSpec = [],
     preds = [], projExprs = [], bDistinct = False, gbyAttrs = [], bRelToStr = False,
     r2sOp = None, binOp = None, leftTable = 0, rightTable = 0\<rparr>"

end
