(* ===== verification/Parse_Nodes.thy ===== *)
theory Parse_Nodes
  imports P3_Types
begin

text \<open>
  \<open>include/parser/nodes.h\<close> and \<open>src/parser/nodes.cc\<close>: the parse tree.

  A \<open>NODE\<close> is a kind and a union; the datatype below has one constructor per kind with the
  members of that kind.  A member that the parser may leave null is an \<open>option\<close>.  Nodes are
  never changed once built, so a pointer to a node is the tree below it.  The state of
  \<open>nodes.cc\<close> is the counter \<open>nodeptr\<close> of the node pool; \<open>newnode\<close> ends the process with
  \<open>exit(1)\<close> when the pool is used up.  The state of \<open>scanhelp.cc\<close>, the counter \<open>charptr\<close> of
  the string pool, is kept beside it.
\<close>

section \<open>Nodes\<close>

datatype rel2str_op = PX_ISTREAM | PX_DSTREAM | PX_RSTREAM

datatype time_unit = NOTIMEUNIT | SECOND | MINUTE | HOUR | DAY

datatype node =
    N_LIST node "node option"                             \<comment> \<open>\<open>curr\<close>, \<open>next\<close>\<close>
  | N_CONT_QUERY "node option" "node option" "node option"
      \<comment> \<open>\<open>sfw_block\<close>, \<open>bin_op\<close>, \<open>reltostr_op\<close>\<close>
  | N_XSTREAM rel2str_op
  | N_SFW_BLOCK node node "node option" "node option"
      \<comment> \<open>\<open>select_clause\<close>, \<open>rel_list\<close>, \<open>condition_list\<close>, \<open>group_list\<close>\<close>
  | N_SELECT_CLAUSE bool "node option"                    \<comment> \<open>\<open>b_distinct\<close>, \<open>proj_term_list\<close>\<close>
  | N_REL_VAR string "string option" "node option"
      \<comment> \<open>\<open>rel_name\<close>, \<open>var_name\<close>, \<open>window_spec\<close>\<close>
  | N_ATTR_REF "string option" string                     \<comment> \<open>\<open>rel_var_name\<close>, \<open>attr_name\<close>\<close>
  | N_CONST_VAL cval
  | N_ARITH_EXPR arith_op node node
  | N_AGGR_EXPR aggr_fn "node option"
  | N_CONDN comp_op node node
  | N_WINDOW_SPEC win_type int "node option" "node option"
      \<comment> \<open>\<open>type\<close>, \<open>num_rows\<close>, \<open>time_spec\<close>, \<open>part_win_attr_list\<close>\<close>
  | N_TIME_SPEC time_unit int
  | N_REL_SPEC string node
  | N_STR_SPEC string node
  | N_ATTR_SPEC string ctype nat
  | N_UNION string string
  | N_EXCEPT string string

section \<open>The node pool\<close>

definition MAXNODE :: nat where "MAXNODE = 100"

record parser_state =
  nodeptr :: nat
  charptr :: nat

definition init_parser :: "(parser_state, unit) comp" where
  "init_parser = modM (\<lambda>p. p\<lparr>nodeptr := 0, charptr := 0\<rparr>)"

definition newnode :: "(parser_state, unit) comp" where
  "newnode =
    bindM (readM nodeptr) (\<lambda>n.
    if n = MAXNODE then exitM 1 else modM (\<lambda>p. p\<lparr>nodeptr := n + 1\<rparr>))"

text \<open>All constructors allocate one node and fill in its members.\<close>

definition mk_node :: "node \<Rightarrow> (parser_state, node) comp" where
  "mk_node n = seqM newnode (retM n)"

definition list_node :: "node \<Rightarrow> (parser_state, node) comp" where
  "list_node n = mk_node (N_LIST n None)"

definition prepend :: "node \<Rightarrow> node \<Rightarrow> (parser_state, node) comp" where
  "prepend n list = mk_node (N_LIST n (Some list))"

definition sfw_cont_query_node :: "node \<Rightarrow> node option \<Rightarrow> (parser_state, node) comp" where
  "sfw_cont_query_node sfw r2s = mk_node (N_CONT_QUERY (Some sfw) None r2s)"

definition bin_cont_query_node :: "node \<Rightarrow> node option \<Rightarrow> (parser_state, node) comp" where
  "bin_cont_query_node bin r2s = mk_node (N_CONT_QUERY None (Some bin) r2s)"

definition istream_node :: "(parser_state, node) comp" where
  "istream_node = mk_node (N_XSTREAM PX_ISTREAM)"

definition dstream_node :: "(parser_state, node) comp" where
  "dstream_node = mk_node (N_XSTREAM PX_DSTREAM)"

definition rstream_node :: "(parser_state, node) comp" where
  "rstream_node = mk_node (N_XSTREAM PX_RSTREAM)"

definition sfw_block_node ::
    "node \<Rightarrow> node \<Rightarrow> node option \<Rightarrow> node option \<Rightarrow> (parser_state, node) comp" where
  "sfw_block_node sel rels conds groups = mk_node (N_SFW_BLOCK sel rels conds groups)"

definition select_clause_node :: "bool \<Rightarrow> node option \<Rightarrow> (parser_state, node) comp" where
  "select_clause_node dist terms = mk_node (N_SELECT_CLAUSE dist terms)"

definition rel_var_node ::
    "string \<Rightarrow> string option \<Rightarrow> node option \<Rightarrow> (parser_state, node) comp" where
  "rel_var_node rel var win = mk_node (N_REL_VAR rel var win)"

definition attr_ref_node :: "string option \<Rightarrow> string \<Rightarrow> (parser_state, node) comp" where
  "attr_ref_node rel attr = mk_node (N_ATTR_REF rel attr)"

definition int_val_node :: "int \<Rightarrow> (parser_state, node) comp" where
  "int_val_node i = mk_node (N_CONST_VAL (IVal i))"

definition flt_val_node :: "cfloat \<Rightarrow> (parser_state, node) comp" where
  "flt_val_node f = mk_node (N_CONST_VAL (FVal f))"

definition str_val_node :: "string \<Rightarrow> (parser_state, node) comp" where
  "str_val_node s = mk_node (N_CONST_VAL (SVal s))"

definition arith_expr_node :: "arith_op \<Rightarrow> node \<Rightarrow> node \<Rightarrow> (parser_state, node) comp" where
  "arith_expr_node op l r = mk_node (N_ARITH_EXPR op l r)"

definition aggr_expr_node :: "aggr_fn \<Rightarrow> node option \<Rightarrow> (parser_state, node) comp" where
  "aggr_expr_node fn attr = mk_node (N_AGGR_EXPR fn attr)"

definition condn_node :: "comp_op \<Rightarrow> node \<Rightarrow> node \<Rightarrow> (parser_state, node) comp" where
  "condn_node op l r = mk_node (N_CONDN op l r)"

definition time_win_node :: "node \<Rightarrow> (parser_state, node) comp" where
  "time_win_node ts = mk_node (N_WINDOW_SPEC W_RANGE 0 (Some ts) None)"

definition row_win_node :: "int \<Rightarrow> (parser_state, node) comp" where
  "row_win_node n = mk_node (N_WINDOW_SPEC W_ROW n None None)"

definition part_win_node :: "node \<Rightarrow> int \<Rightarrow> (parser_state, node) comp" where
  "part_win_node attrs n = mk_node (N_WINDOW_SPEC W_PARTITION n None (Some attrs))"

definition now_win_node :: "(parser_state, node) comp" where
  "now_win_node = mk_node (N_WINDOW_SPEC W_NOW 0 None None)"

definition unbounded_win_node :: "(parser_state, node) comp" where
  "unbounded_win_node = mk_node (N_WINDOW_SPEC W_UNBOUNDED 0 None None)"

definition time_spec_node :: "time_unit \<Rightarrow> int \<Rightarrow> (parser_state, node) comp" where
  "time_spec_node unit len = mk_node (N_TIME_SPEC unit len)"

definition rel_spec_node :: "string \<Rightarrow> node \<Rightarrow> (parser_state, node) comp" where
  "rel_spec_node rel attrs = mk_node (N_REL_SPEC rel attrs)"

definition str_spec_node :: "string \<Rightarrow> node \<Rightarrow> (parser_state, node) comp" where
  "str_spec_node str attrs = mk_node (N_STR_SPEC str attrs)"

definition int_attr_spec_node :: "string \<Rightarrow> (parser_state, node) comp" where
  "int_attr_spec_node a = mk_node (N_ATTR_SPEC a T_INT 0)"

definition float_attr_spec_node :: "string \<Rightarrow> (parser_state, node) comp" where
  "float_attr_spec_node a = mk_node (N_ATTR_SPEC a T_FLOAT 0)"

definition byte_attr_spec_node :: "string \<Rightarrow> (parser_state, node) comp" where
  "byte_attr_spec_node a = mk_node (N_ATTR_SPEC a T_BYTE 0)"

text \<open>The \<open>int\<close> length of a string attribute is stored in an \<open>unsigned int\<close>.\<close>

definition uint_of :: "int \<Rightarrow> nat" where
  "uint_of i = nat (i mod 2 ^ 32)"

definition char_attr_spec_node :: "string \<Rightarrow> int \<Rightarrow> (parser_state, node) comp" where
  "char_attr_spec_node a len = mk_node (N_ATTR_SPEC a T_CHAR (uint_of len))"

definition union_node :: "string \<Rightarrow> string \<Rightarrow> (parser_state, node) comp" where
  "union_node l r = mk_node (N_UNION l r)"

definition except_node :: "string \<Rightarrow> string \<Rightarrow> (parser_state, node) comp" where
  "except_node l r = mk_node (N_EXCEPT l r)"

section \<open>Lists and sizes\<close>

text \<open>The elements of a chain of \<open>N_LIST\<close> nodes, and whether a node is such a chain.\<close>

fun list_elems :: "node option \<Rightarrow> node list" where
  "list_elems (Some (N_LIST c nxt)) = c # list_elems nxt"
| "list_elems _ = []"

fun is_list :: "node option \<Rightarrow> bool" where
  "is_list None = True"
| "is_list (Some (N_LIST c nxt)) = is_list nxt"
| "is_list _ = False"

text \<open>Number of nodes of a tree.\<close>

fun node_count :: "node \<Rightarrow> nat"
  and node_count_opt :: "node option \<Rightarrow> nat" where
  "node_count (N_LIST c nxt) = 1 + node_count c + node_count_opt nxt"
| "node_count (N_CONT_QUERY a b c) = 1 + node_count_opt a + node_count_opt b + node_count_opt c"
| "node_count (N_SFW_BLOCK a b c d) =
     1 + node_count a + node_count b + node_count_opt c + node_count_opt d"
| "node_count (N_SELECT_CLAUSE d ts) = 1 + node_count_opt ts"
| "node_count (N_REL_VAR r v w) = 1 + node_count_opt w"
| "node_count (N_ARITH_EXPR op l r) = 1 + node_count l + node_count r"
| "node_count (N_AGGR_EXPR f a) = 1 + node_count_opt a"
| "node_count (N_CONDN op l r) = 1 + node_count l + node_count r"
| "node_count (N_WINDOW_SPEC t n ts al) = 1 + node_count_opt ts + node_count_opt al"
| "node_count (N_REL_SPEC s a) = 1 + node_count a"
| "node_count (N_STR_SPEC s a) = 1 + node_count a"
| "node_count _ = 1"
| "node_count_opt None = 0"
| "node_count_opt (Some n) = node_count n"

lemma node_count_pos: "0 < node_count n"
  by (cases n) auto

lemma sum_list_elems_le:
  "sum_list (map node_count (list_elems l)) + length (list_elems l) \<le> node_count_opt l"
  by (induction l rule: list_elems.induct) auto

lemma mk_node_wp [wp_simps, simp]:
  "nodeptr p < MAXNODE \<Longrightarrow> wp (mk_node n) Q E p = Q n (p\<lparr>nodeptr := Suc (nodeptr p)\<rparr>)"
  by (simp add: mk_node_def newnode_def)

lemma mk_node_full: "nodeptr p = MAXNODE \<Longrightarrow> mk_node n p = Exit 1"
  by (simp add: mk_node_def newnode_def comp_defs)

end
