(* ===== verification/Sem_Interp.thy ===== *)
theory Sem_Interp
  imports Sem_Query Table_Manager Parse_Nodes
begin

text \<open>
  \<open>src/querygen/sem_interp.cc\<close>: the semantic interpreter, from the parse tree to the query.

  The state holds the static variables of the file (symbol table, counter of the expression
  pool) and the query that the interpreter fills in through its reference parameter.
  Reading a member of the wrong kind of node is undefined.
\<close>

section \<open>State\<close>

record sem_state =
  symbolTable :: "(string \<times> nat) list"
  semNumExprs :: nat
  qry :: query

definition MAX_SYMBOLS :: nat where "MAX_SYMBOLS = MAX_TABLES"
definition NUM_EXPRS :: nat where "NUM_EXPRS = 1000"

definition resetSymbolTable :: "(sem_state, unit) comp" where
  "resetSymbolTable = modM (\<lambda>s. s\<lparr>symbolTable := []\<rparr>)"

definition resetExprs :: "(sem_state, unit) comp" where
  "resetExprs = modM (\<lambda>s. s\<lparr>semNumExprs := 0\<rparr>)"

text \<open>\<open>newExpr\<close> returns the index of the new element of the pool, or null.\<close>

definition newExpr :: "(sem_state, nat option) comp" where
  "newExpr =
    bindM (readM semNumExprs) (\<lambda>n.
    if n = NUM_EXPRS then retM None
    else seqM (modM (\<lambda>s. s\<lparr>semNumExprs := n + 1\<rparr>)) (retM (Some n)))"

text \<open>Writing the members of the new expression: undefined if the pool was exhausted.\<close>

definition storeExpr :: "nat option \<Rightarrow> sem_expr \<Rightarrow> (sem_state, sem_expr) comp" where
  "storeExpr p e = bindM (derefM p) (\<lambda>_. retM e)"

abbreviation setQ :: "(query \<Rightarrow> query) \<Rightarrow> (sem_state, unit) comp" where
  "setQ f \<equiv> modM (\<lambda>s. s\<lparr>qry := f (qry s)\<rparr>)"

section \<open>Symbol table\<close>

definition addSymbolTableEntry ::
    "table_manager \<Rightarrow> string \<Rightarrow> string \<Rightarrow> (sem_state, unit) comp" where
  "addSymbolTableEntry tm tblName varName =
    (case getTableId tm tblName of
      None \<Rightarrow> failM UNKNOWN_TABLE_ERR
    | Some tableId \<Rightarrow>
      bindM (readM symbolTable) (\<lambda>st.
      if \<exists>e\<in>set st. fst e = varName then failM AMBIGUOUS_TABLE_ERR
      else if length st = MAX_SYMBOLS then failM (- 1)
      else modM (\<lambda>s. s\<lparr>symbolTable := st @ [(varName, tableId)]\<rparr>)))"

fun addRelVars :: "table_manager \<Rightarrow> node option \<Rightarrow> (sem_state, unit) comp" where
  "addRelVars tm None = retM ()"
| "addRelVars tm (Some (N_LIST table nxt)) =
    (case table of
      N_REL_VAR tblName var win \<Rightarrow>
        seqM (addSymbolTableEntry tm tblName (case var of Some v \<Rightarrow> v | None \<Rightarrow> tblName))
          (addRelVars tm nxt)
    | _ \<Rightarrow> undefM)"
| "addRelVars tm _ = undefM"

definition getSFWReferencedTables :: "table_manager \<Rightarrow> node \<Rightarrow> (sem_state, unit) comp" where
  "getSFWReferencedTables tm sfw =
    (case sfw of
      N_SFW_BLOCK sel rels conds groups \<Rightarrow>
        seqM (addRelVars tm (Some rels))
        (bindM (readM symbolTable) (\<lambda>st.
         setQ (\<lambda>q. q\<lparr>refTables := map snd st\<rparr>)))
    | _ \<Rightarrow> undefM)"

definition getBinOpReferencedTables :: "table_manager \<Rightarrow> node \<Rightarrow> (sem_state, unit) comp" where
  "getBinOpReferencedTables tm bin =
    (let go = (\<lambda>left right.
       case getTableId tm left of
         None \<Rightarrow> failM UNKNOWN_TABLE_ERR
       | Some leftId \<Rightarrow>
         (case getTableId tm right of
           None \<Rightarrow> failM UNKNOWN_TABLE_ERR
         | Some rightId \<Rightarrow> setQ (\<lambda>q. q\<lparr>refTables := [leftId, rightId]\<rparr>)))
     in case bin of
       N_UNION l r \<Rightarrow> go l r
     | N_EXCEPT l r \<Rightarrow> go l r
     | _ \<Rightarrow> undefM)"

definition getReferencedTables :: "table_manager \<Rightarrow> node \<Rightarrow> (sem_state, unit) comp" where
  "getReferencedTables tm parseTree =
    (case parseTree of
      N_CONT_QUERY sfw bin r2s \<Rightarrow>
        (case sfw of
          Some b \<Rightarrow> getSFWReferencedTables tm b
        | None \<Rightarrow> bindM (derefM bin) (getBinOpReferencedTables tm))
    | _ \<Rightarrow> undefM)"

definition interpretVarName :: "string \<Rightarrow> (sem_state, nat) comp" where
  "interpretVarName varName =
    bindM (readM symbolTable) (\<lambda>st.
    case find_first (\<lambda>e. varName = fst e) st of
      Some varId \<Rightarrow> retM varId
    | None \<Rightarrow> failM UNKNOWN_VAR_ERR)"

text \<open>\<open>symbolTable[varId].tableId\<close>\<close>

definition varTable :: "nat \<Rightarrow> (sem_state, nat) comp" where
  "varTable v = bindM (readM symbolTable) (\<lambda>st. bindM (nthM st v) (\<lambda>e. retM (snd e)))"

section \<open>Attributes\<close>

text \<open>The loop over the variables for an attribute without variable name.\<close>

fun searchVars :: "table_manager \<Rightarrow> string \<Rightarrow> (string \<times> nat) list \<Rightarrow> nat \<Rightarrow> sem_attr option \<Rightarrow>
    (sem_state, sem_attr option) comp" where
  "searchVars tm a [] v found = retM found"
| "searchVars tm a (e # es) v found =
    bindM (getAttrId tm (snd e) a) (\<lambda>i.
    case i of
      None \<Rightarrow> searchVars tm a es (v + 1) found
    | Some attrId \<Rightarrow>
        (if found \<noteq> None then failM AMBIGUOUS_ATTR_ERR
         else searchVars tm a es (v + 1) (Some \<lparr>sVarId = v, sAttrId = attrId\<rparr>)))"

definition interpretAttr :: "table_manager \<Rightarrow> node \<Rightarrow> (sem_state, sem_attr) comp" where
  "interpretAttr tm synAttr =
    (case synAttr of
      N_ATTR_REF (Some varName) aName \<Rightarrow>
        bindM (interpretVarName varName) (\<lambda>varId.
        bindM (varTable varId) (\<lambda>tableId.
        bindM (getAttrId tm tableId aName) (\<lambda>i.
        case i of
          None \<Rightarrow> failM UNKNOWN_ATTR_ERR
        | Some attrId \<Rightarrow> retM \<lparr>sVarId = varId, sAttrId = attrId\<rparr>)))
    | N_ATTR_REF None aName \<Rightarrow>
        bindM (readM symbolTable) (\<lambda>st.
        bindM (searchVars tm aName st 0 None) (\<lambda>found.
        case found of
          None \<Rightarrow> failM UNKNOWN_ATTR_ERR
        | Some semAttr \<Rightarrow> retM semAttr))
    | _ \<Rightarrow> undefM)"

definition semAttrType :: "table_manager \<Rightarrow> sem_attr \<Rightarrow> (sem_state, ctype) comp" where
  "semAttrType tm a = bindM (varTable (sVarId a)) (\<lambda>t. getAttrType tm t (sAttrId a))"

section \<open>Expressions and conditions\<close>

fun interpretExpr :: "table_manager \<Rightarrow> node \<Rightarrow> (sem_state, sem_expr) comp" where
  "interpretExpr tm (N_ARITH_EXPR op l r) =
    bindM newExpr (\<lambda>p.
    bindM (interpretExpr tm l) (\<lambda>left.
    bindM (interpretExpr tm r) (\<lambda>right.
    if sem_type left \<noteq> sem_type right then failM TYPE_ERR
    else storeExpr p (SE_COMP (sem_type left) op left right))))"
| "interpretExpr tm (N_AGGR_EXPR fn attr) =
    bindM newExpr (\<lambda>p.
    bindM (if fn = F_COUNT then retM \<lparr>sVarId = 0, sAttrId = 0\<rparr>
           else bindM (derefM attr) (interpretAttr tm)) (\<lambda>semAttr.
    bindM (semAttrType tm semAttr) (\<lambda>t.
    storeExpr p (SE_AGGR (getOutputType fn t) fn semAttr))))"
| "interpretExpr tm (N_CONST_VAL c) = bindM newExpr (\<lambda>p. storeExpr p (SE_CONST c))"
| "interpretExpr tm (N_ATTR_REF v a) =
    bindM newExpr (\<lambda>p.
    bindM (interpretAttr tm (N_ATTR_REF v a)) (\<lambda>semAttr.
    bindM (semAttrType tm semAttr) (\<lambda>t.
    storeExpr p (SE_ATTR t semAttr))))"
| "interpretExpr tm _ = failM (- 1)"

definition interpretCondn :: "table_manager \<Rightarrow> node \<Rightarrow> (sem_state, sem_bexpr) comp" where
  "interpretCondn tm condn =
    (case condn of
      N_CONDN op l r \<Rightarrow>
        bindM (interpretExpr tm l) (\<lambda>left.
        bindM (interpretExpr tm r) (\<lambda>right.
        if sem_type left \<noteq> sem_type right then failM TYPE_ERR
        else retM \<lparr>sOp = op, sLeft = left, sRight = right\<rparr>))
    | _ \<Rightarrow> undefM)"

section \<open>Windows\<close>

text \<open>
  The length is multiplied in \<open>int\<close> arithmetic, left to right; a product outside the range of
  \<open>int\<close> is undefined.  The result is converted to \<open>unsigned int\<close>.
\<close>

definition int_mul :: "int \<Rightarrow> int \<Rightarrow> ('s, int) comp" where
  "int_mul a b = seqM (ensureM (- (2 ^ 31) \<le> a * b \<and> a * b < 2 ^ 31)) (retM (a * b))"

definition interpretRangeWin :: "node option \<Rightarrow> (sem_state, win_spec) comp" where
  "interpretRangeWin timeSpec =
    (case timeSpec of
      Some (N_TIME_SPEC unit len) \<Rightarrow>
        bindM (case unit of
            NOTIMEUNIT \<Rightarrow> retM len
          | SECOND \<Rightarrow> retM len
          | MINUTE \<Rightarrow> int_mul len 60
          | HOUR \<Rightarrow> bindM (int_mul len 60) (\<lambda>x. int_mul x 60)
          | DAY \<Rightarrow> bindM (int_mul len 60) (\<lambda>x. bindM (int_mul x 60) (\<lambda>y. int_mul y 24)))
          (\<lambda>numSeconds. retM (WS_RANGE (uint_of numSeconds)))
    | _ \<Rightarrow> undefM)"

definition interpretRowWin :: "int \<Rightarrow> (sem_state, win_spec) comp" where
  "interpretRowWin rows = retM (WS_ROW (uint_of rows))"

fun interpretPartnAttrs ::
    "table_manager \<Rightarrow> node option \<Rightarrow> sem_attr list \<Rightarrow> (sem_state, sem_attr list) comp" where
  "interpretPartnAttrs tm None acc = retM acc"
| "interpretPartnAttrs tm (Some (N_LIST a nxt)) acc =
    bindM (interpretAttr tm a) (\<lambda>semAttr.
    if length acc \<ge> MAX_PARTN_ATTRS then failM (- 1)
    else interpretPartnAttrs tm nxt (acc @ [semAttr]))"
| "interpretPartnAttrs tm _ acc = undefM"

definition interpretPartnWin ::
    "table_manager \<Rightarrow> int \<Rightarrow> node option \<Rightarrow> (sem_state, win_spec) comp" where
  "interpretPartnWin tm rows attrs =
    bindM (interpretPartnAttrs tm attrs []) (\<lambda>as. retM (WS_PARTITION (uint_of rows) as))"

definition interpretWin :: "table_manager \<Rightarrow> node option \<Rightarrow> (sem_state, win_spec) comp" where
  "interpretWin tm synWin =
    (case synWin of
      None \<Rightarrow> retM WS_UNBOUNDED
    | Some (N_WINDOW_SPEC type rows timeSpec attrs) \<Rightarrow>
        (case type of
          W_ROW \<Rightarrow> interpretRowWin rows
        | W_RANGE \<Rightarrow> interpretRangeWin timeSpec
        | W_NOW \<Rightarrow> retM WS_NOW
        | W_PARTITION \<Rightarrow> interpretPartnWin tm rows attrs
        | W_UNBOUNDED \<Rightarrow> retM WS_UNBOUNDED)
    | _ \<Rightarrow> undefM)"

section \<open>Clauses\<close>

definition interpretR2SOp :: "node option \<Rightarrow> (sem_state, unit) comp" where
  "interpretR2SOp r2snode =
    (case r2snode of
      Some (N_XSTREAM op) \<Rightarrow>
        setQ (\<lambda>q. q\<lparr>bRelToStr := True, r2sOp := Some (case op of
            PX_ISTREAM \<Rightarrow> R_ISTREAM | PX_DSTREAM \<Rightarrow> R_DSTREAM | PX_RSTREAM \<Rightarrow> R_RSTREAM)\<rparr>)
    | Some _ \<Rightarrow> undefM
    | None \<Rightarrow> setQ (\<lambda>q. q\<lparr>bRelToStr := False\<rparr>))"

fun interpretFromList ::
    "table_manager \<Rightarrow> node option \<Rightarrow> win_spec option \<Rightarrow> (sem_state, unit) comp" where
  "interpretFromList tm None semWin = retM ()"
| "interpretFromList tm (Some (N_LIST relExpr nxt)) semWin =
    (case relExpr of
      N_REL_VAR rel var synWin \<Rightarrow>
        bindM (interpretVarName (case var of Some v \<Rightarrow> v | None \<Rightarrow> rel)) (\<lambda>varId.
        bindM (varTable varId) (\<lambda>tableId.
        bindM (isStream tm tableId) (\<lambda>str.
        bindM (if str then bindM (interpretWin tm synWin) (\<lambda>w. retM (Some w))
               else if synWin \<noteq> None then failM WINDOW_OVER_REL_ERR
               else retM semWin) (\<lambda>win.
        bindM (readM qry) (\<lambda>q.
        if length (fromClauseTables q) = MAX_TABLES then failM (- 1)
        else seqM (setQ (\<lambda>q. q\<lparr>fromClauseTables := fromClauseTables q @ [varId],
                               winSpec := winSpec q @ [win]\<rparr>))
          (interpretFromList tm nxt win))))))
    | _ \<Rightarrow> undefM)"
| "interpretFromList tm _ semWin = undefM"

definition interpretFromClause :: "table_manager \<Rightarrow> node option \<Rightarrow> (sem_state, unit) comp" where
  "interpretFromClause tm fromClause =
    seqM (setQ (\<lambda>q. q\<lparr>fromClauseTables := [], winSpec := []\<rparr>))
      (interpretFromList tm fromClause None)"

fun interpretCondList :: "table_manager \<Rightarrow> node option \<Rightarrow> (sem_state, unit) comp" where
  "interpretCondList tm None = retM ()"
| "interpretCondList tm (Some (N_LIST c nxt)) =
    bindM (interpretCondn tm c) (\<lambda>b.
    bindM (readM qry) (\<lambda>q.
    if length (preds q) \<ge> MAX_PRED then failM (- 1)
    else seqM (setQ (\<lambda>q. q\<lparr>preds := preds q @ [b]\<rparr>)) (interpretCondList tm nxt)))"
| "interpretCondList tm _ = undefM"

definition interpretWhereClause :: "table_manager \<Rightarrow> node option \<Rightarrow> (sem_state, unit) comp" where
  "interpretWhereClause tm whereClause =
    seqM (setQ (\<lambda>q. q\<lparr>preds := []\<rparr>)) (interpretCondList tm whereClause)"

fun interpretGbyList :: "table_manager \<Rightarrow> node option \<Rightarrow> (sem_state, unit) comp" where
  "interpretGbyList tm None = retM ()"
| "interpretGbyList tm (Some (N_LIST a nxt)) =
    bindM (interpretAttr tm a) (\<lambda>semAttr.
    bindM (readM qry) (\<lambda>q.
    if length (gbyAttrs q) \<ge> MAX_GROUP_ATTRS then failM (- 1)
    else seqM (setQ (\<lambda>q. q\<lparr>gbyAttrs := gbyAttrs q @ [semAttr]\<rparr>)) (interpretGbyList tm nxt)))"
| "interpretGbyList tm _ = undefM"

definition interpretGroupByClause :: "table_manager \<Rightarrow> node option \<Rightarrow> (sem_state, unit) comp" where
  "interpretGroupByClause tm gbyClause =
    seqM (setQ (\<lambda>q. q\<lparr>gbyAttrs := []\<rparr>)) (interpretGbyList tm gbyClause)"

text \<open>\<open>SELECT *\<close>: all attributes of the tables of the FROM clause, in order.\<close>

definition starAttr :: "table_manager \<Rightarrow> nat \<Rightarrow> nat \<Rightarrow> sem_expr list \<Rightarrow> nat \<Rightarrow>
    (sem_state, sem_expr list) comp" where
  "starAttr tm varId tableId acc attrId =
    (if length acc \<ge> MAX_PROJ then failM (- 1)
     else
      bindM (getAttrType tm tableId attrId) (\<lambda>t.
      bindM newExpr (\<lambda>p.
      bindM (storeExpr p (SE_ATTR t \<lparr>sVarId = varId, sAttrId = attrId\<rparr>)) (\<lambda>e.
      retM (acc @ [e])))))"

definition starTable :: "table_manager \<Rightarrow> sem_expr list \<Rightarrow> nat \<Rightarrow> (sem_state, sem_expr list) comp" where
  "starTable tm acc varId =
    bindM (readM qry) (\<lambda>q.
    bindM (nthM (refTables q) varId) (\<lambda>tableId.
    bindM (getNumAttrs tm tableId) (\<lambda>numAttrs.
    foldM (starAttr tm varId tableId) acc [0 ..< numAttrs])))"

definition interpretStarInSelect :: "table_manager \<Rightarrow> (sem_state, unit) comp" where
  "interpretStarInSelect tm =
    bindM (readM qry) (\<lambda>q.
    bindM (foldM (starTable tm) [] (fromClauseTables q)) (\<lambda>es.
    setQ (\<lambda>q. q\<lparr>projExprs := es\<rparr>)))"

fun interpretProjList ::
    "table_manager \<Rightarrow> node option \<Rightarrow> sem_expr list \<Rightarrow> (sem_state, sem_expr list) comp" where
  "interpretProjList tm None acc = retM acc"
| "interpretProjList tm (Some (N_LIST p nxt)) acc =
    bindM (interpretExpr tm p) (\<lambda>e.
    if length acc \<ge> MAX_PROJ then failM (- 1)
    else interpretProjList tm nxt (acc @ [e]))"
| "interpretProjList tm _ acc = undefM"

definition interpretSelectClause :: "table_manager \<Rightarrow> node \<Rightarrow> (sem_state, unit) comp" where
  "interpretSelectClause tm selectClause =
    (case selectClause of
      N_SELECT_CLAUSE dist terms \<Rightarrow>
        seqM (setQ (\<lambda>q. q\<lparr>bDistinct := dist\<rparr>))
        (if terms = None then interpretStarInSelect tm
         else bindM (interpretProjList tm terms []) (\<lambda>es. setQ (\<lambda>q. q\<lparr>projExprs := es\<rparr>)))
    | _ \<Rightarrow> undefM)"

section \<open>Queries\<close>

definition schemaCompatible :: "table_manager \<Rightarrow> nat \<Rightarrow> nat \<Rightarrow> (sem_state, bool) comp" where
  "schemaCompatible tm table1 table2 =
    bindM (getNumAttrs tm table1) (\<lambda>n1.
    bindM (getNumAttrs tm table2) (\<lambda>n2.
    if n1 \<noteq> n2 then retM False
    else foldM (\<lambda>same a.
           if \<not> same then retM False
           else bindM (getAttrType tm table1 a) (\<lambda>t1.
                bindM (getAttrType tm table2 a) (\<lambda>t2. retM (t1 = t2)))) True [0 ..< n1]))"

definition interpretSFW :: "table_manager \<Rightarrow> node \<Rightarrow> (sem_state, unit) comp" where
  "interpretSFW tm sfw =
    (case sfw of
      N_SFW_BLOCK sel rels conds groups \<Rightarrow>
        seqM (interpretFromClause tm (Some rels))
        (seqM (interpretWhereClause tm conds)
        (seqM (interpretGroupByClause tm groups)
        (interpretSelectClause tm sel)))
    | _ \<Rightarrow> undefM)"

definition interpretBinOp :: "table_manager \<Rightarrow> node \<Rightarrow> (sem_state, unit) comp" where
  "interpretBinOp tm bin =
    seqM (setQ (\<lambda>q. q\<lparr>leftTable := 0, rightTable := 1,
       binOp := Some (case bin of N_UNION _ _ \<Rightarrow> B_UNION | _ \<Rightarrow> B_EXCEPT)\<rparr>))
    (bindM (readM qry) (\<lambda>q.
     bindM (nthM (refTables q) 0) (\<lambda>t1.
     bindM (nthM (refTables q) 1) (\<lambda>t2.
     bindM (schemaCompatible tm t1 t2) (\<lambda>ok.
     if ok then retM () else failM SCHEMA_MISMATCH_ERR)))))"

definition interpretQuery :: "table_manager \<Rightarrow> node \<Rightarrow> (sem_state, unit) comp" where
  "interpretQuery tm parseTree =
    seqM resetExprs
    (seqM resetSymbolTable
    (seqM (getReferencedTables tm parseTree)
    (case parseTree of
      N_CONT_QUERY sfw bin r2s \<Rightarrow>
        seqM (setQ (\<lambda>q. q\<lparr>qKind := (if sfw \<noteq> None then SFW_QUERY else BINARY_OP)\<rparr>))
        (seqM (interpretR2SOp r2s)
        (case sfw of
          Some b \<Rightarrow> interpretSFW tm b
        | None \<Rightarrow> bindM (derefM bin) (interpretBinOp tm)))
    | _ \<Rightarrow> undefM)))"

end
