(* ===== verification/Sem_Facts.thy ===== *)
theory Sem_Facts
  imports Sem_Interp
begin

text \<open>
  Facts about the semantic interpreter: the resolution of names, the typing of the expressions
  it builds, and the well-formedness of the query it returns for every parse tree that the
  grammar can produce.
\<close>

section \<open>Well-formedness\<close>

definition tm_nonempty :: "table_manager \<Rightarrow> bool" where
  "tm_nonempty tm \<longleftrightarrow> (\<forall>t\<in>set (tableList tm). attrList t \<noteq> [])"

definition sym_ok :: "table_manager \<Rightarrow> (string \<times> nat) list \<Rightarrow> bool" where
  "sym_ok tm st \<longleftrightarrow> distinct (map fst st) \<and> (\<forall>e\<in>set st. snd e < length (tableList tm))"

definition sattr_ok :: "table_manager \<Rightarrow> nat list \<Rightarrow> sem_attr \<Rightarrow> bool" where
  "sattr_ok tm refs a \<longleftrightarrow> sVarId a < length refs \<and> attr_valid tm (refs ! sVarId a) (sAttrId a)"

definition sattr_type :: "table_manager \<Rightarrow> nat list \<Rightarrow> sem_attr \<Rightarrow> ctype" where
  "sattr_type tm refs a = attrType (attrList (tableList tm ! (refs ! sVarId a)) ! sAttrId a)"

text \<open>The type stored in every node of an expression is the type of the expression.\<close>

fun sem_wt :: "table_manager \<Rightarrow> nat list \<Rightarrow> sem_expr \<Rightarrow> bool" where
  "sem_wt tm refs (SE_CONST c) = True"
| "sem_wt tm refs (SE_ATTR t a) = (sattr_ok tm refs a \<and> t = sattr_type tm refs a)"
| "sem_wt tm refs (SE_AGGR t fn a) =
     (sattr_ok tm refs a \<and> t = getOutputType fn (sattr_type tm refs a))"
| "sem_wt tm refs (SE_COMP t op l r) =
     (sem_wt tm refs l \<and> sem_wt tm refs r \<and> sem_type l = t \<and> sem_type r = t)"

definition bexpr_wt :: "table_manager \<Rightarrow> nat list \<Rightarrow> sem_bexpr \<Rightarrow> bool" where
  "bexpr_wt tm refs b \<longleftrightarrow> sem_wt tm refs (sLeft b) \<and> sem_wt tm refs (sRight b) \<and>
     sem_type (sLeft b) = sem_type (sRight b)"

fun win_ok :: "table_manager \<Rightarrow> nat list \<Rightarrow> win_spec \<Rightarrow> bool" where
  "win_ok tm refs (WS_PARTITION n as) \<longleftrightarrow>
     length as \<le> MAX_PARTN_ATTRS \<and> (\<forall>a\<in>set as. sattr_ok tm refs a)"
| "win_ok tm refs _ \<longleftrightarrow> True"

definition refs_ok :: "table_manager \<Rightarrow> nat list \<Rightarrow> bool" where
  "refs_ok tm refs \<longleftrightarrow> (\<forall>t\<in>set refs. t < length (tableList tm))"

definition from_ok :: "table_manager \<Rightarrow> query \<Rightarrow> bool" where
  "from_ok tm q \<longleftrightarrow> length (winSpec q) = length (fromClauseTables q) \<and>
     (\<forall>i<length (fromClauseTables q). fromClauseTables q ! i < length (refTables q) \<and>
        (tblIsStream (tableList tm ! (refTables q ! (fromClauseTables q ! i))) \<longrightarrow>
           (\<exists>w. winSpec q ! i = Some w \<and> win_ok tm (refTables q) w)))"

text \<open>Number of nodes of the expressions of a query.\<close>

primrec sem_size :: "sem_expr \<Rightarrow> nat" where
  "sem_size (SE_CONST c) = 1"
| "sem_size (SE_ATTR t a) = 1"
| "sem_size (SE_AGGR t fn a) = 1"
| "sem_size (SE_COMP t op l r) = 1 + sem_size l + sem_size r"

definition bexpr_size :: "sem_bexpr \<Rightarrow> nat" where
  "bexpr_size b = sem_size (sLeft b) + sem_size (sRight b)"

definition query_size :: "query \<Rightarrow> nat" where
  "query_size q = sum_list (map bexpr_size (preds q)) + sum_list (map sem_size (projExprs q))"

definition query_ok :: "table_manager \<Rightarrow> query \<Rightarrow> bool" where
  "query_ok tm q \<longleftrightarrow> refs_ok tm (refTables q) \<and>
     (bRelToStr q \<longrightarrow> r2sOp q \<noteq> None) \<and>
     (qKind q = SFW_QUERY \<longrightarrow>
        fromClauseTables q \<noteq> [] \<and> from_ok tm q \<and>
        length (preds q) \<le> MAX_PRED \<and> (\<forall>b\<in>set (preds q). bexpr_wt tm (refTables q) b) \<and>
        length (gbyAttrs q) \<le> MAX_GROUP_ATTRS \<and>
        (\<forall>a\<in>set (gbyAttrs q). sattr_ok tm (refTables q) a) \<and>
        length (projExprs q) \<le> MAX_PROJ \<and>
        (\<forall>e\<in>set (projExprs q). sem_wt tm (refTables q) e) \<and>
        query_size q \<le> MAXNODE + MAX_PROJ) \<and>
     (qKind q = BINARY_OP \<longrightarrow> binOp q \<noteq> None \<and> (\<exists>t1 t2. refTables q = [t1, t2] \<and>
        map attrType (attrList (tableList tm ! t1)) =
        map attrType (attrList (tableList tm ! t2))))"

subsection \<open>The parse trees of the grammar\<close>

fun wf_attr :: "node \<Rightarrow> bool" where
  "wf_attr (N_ATTR_REF v a) = True"
| "wf_attr _ = False"

fun wf_expr :: "node \<Rightarrow> bool" where
  "wf_expr (N_ARITH_EXPR op l r) = (wf_expr l \<and> wf_expr r)"
| "wf_expr (N_AGGR_EXPR fn attr) =
     (case attr of None \<Rightarrow> fn = F_COUNT | Some a \<Rightarrow> wf_attr a)"
| "wf_expr (N_CONST_VAL c) = True"
| "wf_expr (N_ATTR_REF v a) = True"
| "wf_expr _ = False"

fun wf_cond :: "node \<Rightarrow> bool" where
  "wf_cond (N_CONDN op l r) = (wf_expr l \<and> wf_expr r)"
| "wf_cond _ = False"

definition unit_seconds :: "time_unit \<Rightarrow> int" where
  "unit_seconds u = (case u of NOTIMEUNIT \<Rightarrow> 1 | SECOND \<Rightarrow> 1 | MINUTE \<Rightarrow> 60 | HOUR \<Rightarrow> 3600
     | DAY \<Rightarrow> 86400)"

text \<open>A time specification whose length in seconds fits into an \<open>int\<close>.\<close>

fun wf_time :: "node \<Rightarrow> bool" where
  "wf_time (N_TIME_SPEC u len) = (0 \<le> len \<and> len * unit_seconds u < 2 ^ 31)"
| "wf_time _ = False"

fun wf_win :: "node \<Rightarrow> bool" where
  "wf_win (N_WINDOW_SPEC type rows ts attrs) =
     ((type = W_RANGE \<longrightarrow> (\<exists>t. ts = Some t \<and> wf_time t)) \<and>
      (type = W_PARTITION \<longrightarrow> is_list attrs \<and> list_all wf_attr (list_elems attrs)))"
| "wf_win _ = False"

fun wf_rel :: "node \<Rightarrow> bool" where
  "wf_rel (N_REL_VAR rel var win) = (case win of None \<Rightarrow> True | Some w \<Rightarrow> wf_win w)"
| "wf_rel _ = False"

fun wf_select :: "node \<Rightarrow> bool" where
  "wf_select (N_SELECT_CLAUSE d ts) = (is_list ts \<and> list_all wf_expr (list_elems ts))"
| "wf_select _ = False"

fun wf_sfw :: "node \<Rightarrow> bool" where
  "wf_sfw (N_SFW_BLOCK sel rels conds groups) =
     (wf_select sel \<and>
      is_list (Some rels) \<and> list_all wf_rel (list_elems (Some rels)) \<and>
      is_list conds \<and> list_all wf_cond (list_elems conds) \<and>
      is_list groups \<and> list_all wf_attr (list_elems groups))"
| "wf_sfw _ = False"

fun wf_r2s :: "node option \<Rightarrow> bool" where
  "wf_r2s None = True"
| "wf_r2s (Some (N_XSTREAM op)) = True"
| "wf_r2s _ = False"

fun wf_query :: "node \<Rightarrow> bool" where
  "wf_query (N_CONT_QUERY (Some sfw) None r2s) = (wf_sfw sfw \<and> wf_r2s r2s)"
| "wf_query (N_CONT_QUERY None (Some (N_UNION l r)) r2s) = wf_r2s r2s"
| "wf_query (N_CONT_QUERY None (Some (N_EXCEPT l r)) r2s) = wf_r2s r2s"
| "wf_query _ = False"

section \<open>Frames\<close>

text \<open>Only the counter of the expression pool has changed, by at most \<open>d\<close>.\<close>

definition exprs_only :: "nat \<Rightarrow> sem_state \<Rightarrow> sem_state \<Rightarrow> bool" where
  "exprs_only d s s' \<longleftrightarrow> symbolTable s' = symbolTable s \<and> qry s' = qry s \<and>
     semNumExprs s \<le> semNumExprs s' \<and> semNumExprs s' \<le> semNumExprs s + d"

lemma exprs_only_refl [simp]: "exprs_only d s s"
  by (simp add: exprs_only_def)

lemma exprs_only_trans:
  "exprs_only d s s' \<Longrightarrow> exprs_only d' s' s'' \<Longrightarrow> d + d' \<le> e \<Longrightarrow> exprs_only e s s''"
  by (auto simp: exprs_only_def)

lemma newExpr_wp:
  "wp newExpr Q E s = (if semNumExprs s = NUM_EXPRS then Q None s
     else Q (Some (semNumExprs s)) (s\<lparr>semNumExprs := semNumExprs s + 1\<rparr>))"
  by (simp add: newExpr_def)

lemma storeExpr_wp [wp_simps, simp]: "wp (storeExpr p e) Q E s \<longleftrightarrow> p \<noteq> None \<and> Q e s"
  by (auto simp: storeExpr_def)

lemma newExpr_free:
  "semNumExprs s < NUM_EXPRS \<Longrightarrow> wp newExpr (\<lambda>p s'. p \<noteq> None \<and> exprs_only 1 s s' \<and>
     semNumExprs s' = semNumExprs s + 1) (\<lambda>_ _. False) s"
  by (auto simp: newExpr_wp exprs_only_def)

section \<open>Name resolution\<close>

lemma interpretVarName_wp [wp_simps, simp]:
  "wp (interpretVarName v) Q E s =
    (case find_first (\<lambda>e. v = fst e) (symbolTable s) of
      Some i \<Rightarrow> Q i s | None \<Rightarrow> E UNKNOWN_VAR_ERR s)"
  by (simp add: interpretVarName_def split: option.splits)

lemma varTable_wp [wp_simps, simp]:
  "wp (varTable v) Q E s \<longleftrightarrow> v < length (symbolTable s) \<and> Q (snd (symbolTable s ! v)) s"
  by (simp add: varTable_def)

text \<open>\<open>attr_named tm st a x\<close>: \<open>x\<close> denotes an attribute of the name \<open>a\<close>.\<close>

definition attr_named ::
    "table_manager \<Rightarrow> (string \<times> nat) list \<Rightarrow> string \<Rightarrow> sem_attr \<Rightarrow> bool" where
  "attr_named tm st a x \<longleftrightarrow> sVarId x < length st \<and>
     sAttrId x < length (attrList (tableList tm ! snd (st ! sVarId x))) \<and>
     attrName (attrList (tableList tm ! snd (st ! sVarId x)) ! sAttrId x) = a"

fun var_hits :: "table_manager \<Rightarrow> string \<Rightarrow> (string \<times> nat) list \<Rightarrow> nat \<Rightarrow> sem_attr list" where
  "var_hits tm a [] v = []"
| "var_hits tm a (e # es) v =
    (case find_first (\<lambda>x. attrName x = a) (attrList (tableList tm ! snd e)) of
      None \<Rightarrow> var_hits tm a es (v + 1)
    | Some k \<Rightarrow> \<lparr>sVarId = v, sAttrId = k\<rparr> # var_hits tm a es (v + 1))"

lemma getAttrId_Done:
  "t < length (tableList tm) \<Longrightarrow> getAttrId tm t a s =
    Done (find_first (\<lambda>x. attrName x = a) (attrList (tableList tm ! t))) s"
  by (simp add: getAttrId_def comp_defs)

lemma searchVars_eq:
  assumes "\<forall>e\<in>set es. snd e < length (tableList tm)"
  shows "searchVars tm a es v found s =
    (case (case found of None \<Rightarrow> [] | Some x \<Rightarrow> [x]) @ var_hits tm a es v of
      [] \<Rightarrow> Done None s
    | [x] \<Rightarrow> Done (Some x) s
    | _ \<Rightarrow> Fail AMBIGUOUS_ATTR_ERR s)"
  using assms
proof (induction es arbitrary: v found)
  case Nil
  then show ?case by (simp add: retM_def split: option.splits)
next
  case (Cons e es)
  then have t: "snd e < length (tableList tm)" by simp
  note IH = Cons.IH [of "Suc v"]
  show ?case
  proof (cases "find_first (\<lambda>x. attrName x = a) (attrList (tableList tm ! snd e))")
    case None
    with IH [of found] Cons.prems show ?thesis
      by (simp add: bindM_def getAttrId_Done [OF t])
  next
    case (Some k)
    show ?thesis
    proof (cases found)
      case None
      with Some IH [of "Some \<lparr>sVarId = v, sAttrId = k\<rparr>"] Cons.prems show ?thesis
        by (simp add: bindM_def getAttrId_Done [OF t])
    next
      case (Some x)
      then show ?thesis
        using \<open>_ = Some k\<close> by (simp add: bindM_def getAttrId_Done [OF t] failM_def)
    qed
  qed
qed

lemma var_hits_mem:
  assumes "\<forall>e\<in>set es. \<exists>i<length (tableList tm). snd e = i \<and> tbl_ok (tableList tm ! i)"
  shows "x \<in> set (var_hits tm a es v) \<longleftrightarrow>
    v \<le> sVarId x \<and> attr_named tm es a (x\<lparr>sVarId := sVarId x - v\<rparr>)"
  using assms
proof (induction es arbitrary: v)
  case Nil
  then show ?case by (simp add: attr_named_def)
next
  case (Cons e es)
  let ?as = "attrList (tableList tm ! snd e)"
  have dist: "distinct (map attrName ?as)"
    using Cons.prems by (auto simp: tbl_ok_def)
  have hd: "find_first (\<lambda>x. attrName x = a) ?as = Some k \<longleftrightarrow> k < length ?as \<and> attrName (?as ! k) = a" for k
  proof
    assume "find_first (\<lambda>x. attrName x = a) ?as = Some k"
    then show "k < length ?as \<and> attrName (?as ! k) = a" by (simp add: find_first_Some)
  next
    assume "k < length ?as \<and> attrName (?as ! k) = a"
    then show "find_first (\<lambda>x. attrName x = a) ?as = Some k"
      using dist by (intro find_first_unique) (auto simp: distinct_conv_nth)
  qed
  have shift: "attr_named tm (e # es) a (x\<lparr>sVarId := sVarId x - v\<rparr>) \<longleftrightarrow>
      attr_named tm es a (x\<lparr>sVarId := sVarId x - (v + 1)\<rparr>)" if "v < sVarId x"
  proof -
    have "sVarId x - v = Suc (sVarId x - (v + 1))" using that by simp
    then show ?thesis unfolding attr_named_def by (simp del: diff_Suc_Suc)
  qed
  have IH: "x \<in> set (var_hits tm a es (v + 1)) \<longleftrightarrow>
      v + 1 \<le> sVarId x \<and> attr_named tm es a (x\<lparr>sVarId := sVarId x - (v + 1)\<rparr>)"
    using Cons by simp
  have eqx: "x = \<lparr>sVarId = v, sAttrId = k\<rparr> \<longleftrightarrow> sVarId x = v \<and> sAttrId x = k" for k
    by (cases x) auto
  have here: "attr_named tm (e # es) a (x\<lparr>sVarId := sVarId x - v\<rparr>) \<longleftrightarrow>
      sAttrId x < length ?as \<and> attrName (?as ! sAttrId x) = a" if "sVarId x = v"
    using that by (simp add: attr_named_def)
  consider "sVarId x < v" | "sVarId x = v" | "v < sVarId x" by linarith
  then show ?case
  proof cases
    case 1
    then show ?thesis using IH by (auto simp: eqx split: option.splits)
  next
    case 2
    have "x \<in> set (var_hits tm a (e # es) v) \<longleftrightarrow>
        find_first (\<lambda>x. attrName x = a) ?as = Some (sAttrId x)"
      using IH 2 by (auto simp: eqx split: option.splits)
    then show ?thesis using here [OF 2] 2 hd [of "sAttrId x"] by simp
  next
    case 3
    then show ?thesis using IH shift by (auto simp: eqx split: option.splits)
  qed
qed

lemma var_hits_distinct: "distinct (map sVarId (var_hits tm a es v)) \<and>
    (\<forall>x\<in>set (var_hits tm a es v). v \<le> sVarId x)"
proof (induction es arbitrary: v)
  case Nil
  then show ?case by simp
next
  case (Cons e es)
  have "x \<in> set (var_hits tm a es (v + 1)) \<Longrightarrow> v < sVarId x" for x
    using Cons.IH [of "v + 1"] by force
  then show ?case
    using Cons.IH [of "v + 1"] by (auto split: option.splits simp: less_imp_le)
qed

lemma sym_ok_tbl:
  "tm_ok tm \<Longrightarrow> sym_ok tm st \<Longrightarrow>
   \<forall>e\<in>set st. \<exists>i<length (tableList tm). snd e = i \<and> tbl_ok (tableList tm ! i)"
  by (auto simp: sym_ok_def intro: tm_ok_tbl)

lemma var_hits_all:
  assumes "tm_ok tm" and "sym_ok tm st"
  shows "set (var_hits tm a st 0) = {x. attr_named tm st a x}"
  using var_hits_mem [OF sym_ok_tbl [OF assms], of _ a 0] by auto

lemma unqualified_eq:
  assumes "sym_ok tm (symbolTable s)"
  shows "interpretAttr tm (N_ATTR_REF None a) s =
    (case var_hits tm a (symbolTable s) 0 of
      [] \<Rightarrow> Fail UNKNOWN_ATTR_ERR s
    | [x] \<Rightarrow> Done x s
    | _ \<Rightarrow> Fail AMBIGUOUS_ATTR_ERR s)"
  using assms
  by (auto simp: interpretAttr_def sym_ok_def searchVars_eq bindM_def readM_def retM_def failM_def
      split: list.splits)


text \<open>The status codes with which the interpreter rejects a query.\<close>

definition sem_errs :: "int set" where
  "sem_errs = {- 1, UNKNOWN_TABLE_ERR, UNKNOWN_VAR_ERR, AMBIGUOUS_ATTR_ERR, UNKNOWN_ATTR_ERR,
     WINDOW_OVER_REL_ERR, TYPE_ERR, SCHEMA_MISMATCH_ERR, AMBIGUOUS_TABLE_ERR}"

lemma sem_errs_mem [simp]:
  "- 1 \<in> sem_errs" "UNKNOWN_TABLE_ERR \<in> sem_errs" "UNKNOWN_VAR_ERR \<in> sem_errs"
  "AMBIGUOUS_ATTR_ERR \<in> sem_errs" "UNKNOWN_ATTR_ERR \<in> sem_errs"
  "WINDOW_OVER_REL_ERR \<in> sem_errs" "TYPE_ERR \<in> sem_errs" "SCHEMA_MISMATCH_ERR \<in> sem_errs"
  "AMBIGUOUS_TABLE_ERR \<in> sem_errs"
  by (simp_all add: sem_errs_def)

lemma sem_errs_nonzero: "rc \<in> sem_errs \<Longrightarrow> rc \<noteq> 0"
  by (auto simp: sem_errs_def error_defs)

text \<open>The tables of the variables of the current query.\<close>

abbreviation sym_tables :: "sem_state \<Rightarrow> nat list" where
  "sym_tables s \<equiv> map snd (symbolTable s)"

lemma attr_named_sattr_ok:
  "sym_ok tm st \<Longrightarrow> attr_named tm st a x \<Longrightarrow> sattr_ok tm (map snd st) x"
  by (auto simp: sym_ok_def attr_named_def sattr_ok_def attr_valid_def)

lemma interpretAttr_wp:
  assumes "tm_ok tm" and "sym_ok tm (symbolTable s)" and "wf_attr n"
  shows "wp (interpretAttr tm n)
    (\<lambda>x s'. s' = s \<and> (\<exists>v a. n = N_ATTR_REF v a \<and> attr_named tm (symbolTable s) a x \<and>
       (\<forall>w. v = Some w \<longrightarrow> fst (symbolTable s ! sVarId x) = w)))
    (\<lambda>rc s'. s' = s \<and> rc \<in> sem_errs) s"
proof -
  obtain v a where n: "n = N_ATTR_REF v a"
    using assms(3) by (cases n) auto
  show ?thesis
  proof (cases v)
    case (Some w)
    then show ?thesis
      using n assms(2)
      by (auto simp: interpretAttr_def wp_case_option sym_ok_def attr_named_def find_first_Some
          split: option.splits)
  next
    case None
    have "x \<in> set (var_hits tm a (symbolTable s) 0) \<longleftrightarrow> attr_named tm (symbolTable s) a x" for x
      using var_hits_all [OF assms(1,2)] by simp
    then show ?thesis
      using n None unqualified_eq [OF assms(2), of a] by (auto simp: wp_def split: list.splits)
  qed
qed

lemma interpretAttr_ok:
  assumes "tm_ok tm" and "sym_ok tm (symbolTable s)" and "wf_attr n"
    and "\<And>x. sattr_ok tm (sym_tables s) x \<Longrightarrow> Q x s"
    and "\<And>rc. rc \<in> sem_errs \<Longrightarrow> E rc s"
  shows "wp (interpretAttr tm n) Q E s"
  using interpretAttr_wp [OF assms(1-3)]
  by (rule wp_mono) (auto dest: attr_named_sattr_ok [OF assms(2)] intro: assms(4,5))

lemma semAttrType_wp:
  assumes "sattr_ok tm (sym_tables s) a"
  shows "wp (semAttrType tm a) Q E s \<longleftrightarrow> Q (sattr_type tm (sym_tables s) a) s"
  using assms by (auto simp: semAttrType_def sattr_ok_def sattr_type_def)

section \<open>Expressions\<close>

lemma interpretExpr_wp:
  assumes "tm_ok tm" and "tm_nonempty tm" and "sym_ok tm (symbolTable s)" and "symbolTable s \<noteq> []"
    and "wf_expr n" and "semNumExprs s + node_count n \<le> NUM_EXPRS"
  shows "wp (interpretExpr tm n)
    (\<lambda>e s'. sem_wt tm (sym_tables s) e \<and> exprs_only (node_count n) s s' \<and>
       semNumExprs s' = semNumExprs s + sem_size e)
    (\<lambda>rc s'. rc \<in> sem_errs) s"
  using assms
proof (induction n arbitrary: s rule: wf_expr.induct)
  case (1 op l r)
  have free: "semNumExprs s < NUM_EXPRS" using "1.prems"(6) by simp
  show ?case unfolding interpretExpr.simps
  proof (rule wp_bindI [OF newExpr_free [OF free]])
    fix p :: "nat option" and s1 assume p: "p \<noteq> None \<and> exprs_only 1 s s1 \<and> semNumExprs s1 = semNumExprs s + 1"
    show "wp (bindM (interpretExpr tm l) (\<lambda>left. bindM (interpretExpr tm r) (\<lambda>right.
        if sem_type left \<noteq> sem_type right then failM TYPE_ERR
        else storeExpr p (SE_COMP (sem_type left) op left right))))
      (\<lambda>e s'. sem_wt tm (sym_tables s) e \<and> exprs_only (node_count (N_ARITH_EXPR op l r)) s s' \<and>
         semNumExprs s' = semNumExprs s + sem_size e)
      (\<lambda>rc s'. rc \<in> sem_errs) s1"
    proof (rule wp_bindI [OF "1.IH"(1) [of s1]])
      fix left s2 assume l: "sem_wt tm (sym_tables s1) left \<and> exprs_only (node_count l) s1 s2 \<and>
        semNumExprs s2 = semNumExprs s1 + sem_size left"
      show "wp (bindM (interpretExpr tm r) (\<lambda>right.
          if sem_type left \<noteq> sem_type right then failM TYPE_ERR
          else storeExpr p (SE_COMP (sem_type left) op left right)))
        (\<lambda>e s'. sem_wt tm (sym_tables s) e \<and> exprs_only (node_count (N_ARITH_EXPR op l r)) s s' \<and>
         semNumExprs s' = semNumExprs s + sem_size e)
        (\<lambda>rc s'. rc \<in> sem_errs) s2"
        by (rule wp_bindI [OF "1.IH"(2) [of s2]])
          (use "1.prems" p l in \<open>auto simp: exprs_only_def\<close>)
    qed (use "1.prems" p in \<open>auto simp: exprs_only_def\<close>)
  qed simp
next
  case (2 fn attr)
  have free: "semNumExprs s < NUM_EXPRS"
    using "2.prems"(6) by simp
  have first: "sattr_ok tm (sym_tables s) \<lparr>sVarId = 0, sAttrId = 0\<rparr>"
    using "2.prems" by (auto simp: sattr_ok_def sym_ok_def attr_valid_def tm_nonempty_def neq_Nil_conv)
  show ?case unfolding interpretExpr.simps
  proof (rule wp_bindI [OF newExpr_free [OF free]])
    fix p :: "nat option" and s1 assume p: "p \<noteq> None \<and> exprs_only 1 s s1 \<and> semNumExprs s1 = semNumExprs s + 1"
    have st: "symbolTable s1 = symbolTable s" using p by (simp add: exprs_only_def)
    have e1: "exprs_only (node_count (N_AGGR_EXPR fn attr)) s s1"
      using p by (auto simp: exprs_only_def)
    have arg: "wp (if fn = F_COUNT then retM \<lparr>sVarId = 0, sAttrId = 0\<rparr>
        else bindM (derefM attr) (interpretAttr tm))
      (\<lambda>x s'. s' = s1 \<and> sattr_ok tm (sym_tables s) x) (\<lambda>rc s'. rc \<in> sem_errs) s1"
    proof (cases "fn = F_COUNT")
      case False
      then obtain a where a: "attr = Some a" "wf_attr a"
        using "2.prems"(5) by (auto split: option.splits)
      then show ?thesis
        using False "2.prems" st by (auto intro!: interpretAttr_ok)
    qed (use first in simp)
    show "wp (bindM (if fn = F_COUNT then retM \<lparr>sVarId = 0, sAttrId = 0\<rparr>
          else bindM (derefM attr) (interpretAttr tm))
        (\<lambda>x. bindM (semAttrType tm x) (\<lambda>t. storeExpr p (SE_AGGR (getOutputType fn t) fn x))))
      (\<lambda>e s'. sem_wt tm (sym_tables s) e \<and> exprs_only (node_count (N_AGGR_EXPR fn attr)) s s' \<and>
         semNumExprs s' = semNumExprs s + sem_size e)
      (\<lambda>rc s'. rc \<in> sem_errs) s1"
      by (rule wp_bindI [OF arg]) (use p st e1 in \<open>auto simp: semAttrType_wp\<close>)
  qed simp
next
  case (3 c)
  then show ?case by (auto simp: newExpr_wp exprs_only_def)
next
  case (4 v a)
  have free: "semNumExprs s < NUM_EXPRS"
    using "4.prems"(6) by simp
  show ?case unfolding interpretExpr.simps
  proof (rule wp_bindI [OF newExpr_free [OF free]])
    fix p :: "nat option" and s1 assume p: "p \<noteq> None \<and> exprs_only 1 s s1 \<and> semNumExprs s1 = semNumExprs s + 1"
    then have st: "symbolTable s1 = symbolTable s" by (simp add: exprs_only_def)
    show "wp (bindM (interpretAttr tm (N_ATTR_REF v a)) (\<lambda>x. bindM (semAttrType tm x) (\<lambda>t.
        storeExpr p (SE_ATTR t x))))
      (\<lambda>e s'. sem_wt tm (sym_tables s) e \<and> exprs_only (node_count (N_ATTR_REF v a)) s s' \<and>
         semNumExprs s' = semNumExprs s + sem_size e)
      (\<lambda>rc s'. rc \<in> sem_errs) s1"
      unfolding wp_bindM
      using "4.prems" p st by (intro interpretAttr_ok) (auto simp: semAttrType_wp)
  qed simp
qed auto

lemma interpretCondn_wp:
  assumes "tm_ok tm" and "tm_nonempty tm" and "sym_ok tm (symbolTable s)" and "symbolTable s \<noteq> []"
    and "wf_cond n" and "semNumExprs s + node_count n \<le> NUM_EXPRS"
  shows "wp (interpretCondn tm n)
    (\<lambda>b s'. bexpr_wt tm (sym_tables s) b \<and> exprs_only (node_count n) s s' \<and>
       semNumExprs s' = semNumExprs s + bexpr_size b)
    (\<lambda>rc s'. rc \<in> sem_errs) s"
proof -
  obtain op l r where n: "n = N_CONDN op l r" "wf_expr l" "wf_expr r"
    using assms(5) by (cases n) auto
  have "wp (bindM (interpretExpr tm l) (\<lambda>left. bindM (interpretExpr tm r)
      (\<lambda>right. if sem_type left \<noteq> sem_type right then failM TYPE_ERR
        else retM \<lparr>sOp = op, sLeft = left, sRight = right\<rparr>)))
      (\<lambda>b s'. bexpr_wt tm (sym_tables s) b \<and> exprs_only (node_count n) s s' \<and>
       semNumExprs s' = semNumExprs s + bexpr_size b)
      (\<lambda>rc s'. rc \<in> sem_errs) s"
  proof (rule wp_bindI [OF interpretExpr_wp])
    fix left s1 assume l: "sem_wt tm (sym_tables s) left \<and> exprs_only (node_count l) s s1 \<and>
      semNumExprs s1 = semNumExprs s + sem_size left"
    show "wp (bindM (interpretExpr tm r)
        (\<lambda>right. if sem_type left \<noteq> sem_type right then failM TYPE_ERR
          else retM \<lparr>sOp = op, sLeft = left, sRight = right\<rparr>))
      (\<lambda>b s'. bexpr_wt tm (sym_tables s) b \<and> exprs_only (node_count n) s s' \<and>
       semNumExprs s' = semNumExprs s + bexpr_size b)
      (\<lambda>rc s'. rc \<in> sem_errs) s1"
      by (rule wp_bindI [OF interpretExpr_wp])
        (use assms n l in \<open>auto simp: exprs_only_def bexpr_wt_def bexpr_size_def\<close>)
  qed (use assms n in auto)
  then show ?thesis using n by (simp add: interpretCondn_def)
qed

section \<open>Windows\<close>

lemma interpretRangeWin_wp:
  assumes "0 \<le> len" and "len < 2 ^ 31"
  shows "wp (interpretRangeWin (Some (N_TIME_SPEC u len))) Q E s \<longleftrightarrow>
    len * unit_seconds u < 2 ^ 31 \<and> Q (WS_RANGE (nat (len * unit_seconds u))) s"
  using assms
  by (cases u) (auto simp: interpretRangeWin_def int_mul_def unit_seconds_def uint_of_def
      mult.commute)

lemma interpretPartnAttrs_wp:
  assumes "tm_ok tm" and "sym_ok tm (symbolTable s)"
    and "is_list l" and "list_all wf_attr (list_elems l)"
    and "length acc \<le> MAX_PARTN_ATTRS" and "\<forall>a\<in>set acc. sattr_ok tm (sym_tables s) a"
  shows "wp (interpretPartnAttrs tm l acc)
    (\<lambda>as s'. s' = s \<and> length as \<le> MAX_PARTN_ATTRS \<and> (\<forall>a\<in>set as. sattr_ok tm (sym_tables s) a))
    (\<lambda>rc s'. rc \<in> sem_errs) s"
  using assms
proof (induction tm l acc rule: interpretPartnAttrs.induct)
  case (2 tm a nxt acc)
  then show ?case
    unfolding interpretPartnAttrs.simps wp_bindM by (intro interpretAttr_ok) auto
qed auto

lemma interpretWin_wp:
  assumes "tm_ok tm" and "sym_ok tm (symbolTable s)" and "\<forall>n. w = Some n \<longrightarrow> wf_win n"
  shows "wp (interpretWin tm w) (\<lambda>w s'. s' = s \<and> win_ok tm (sym_tables s) w)
    (\<lambda>rc s'. rc \<in> sem_errs) s"
proof (cases w)
  case None
  then show ?thesis by (simp add: interpretWin_def)
next
  case (Some n)
  then obtain t k ts as where n: "n = N_WINDOW_SPEC t k ts as"
    using assms(3) by (cases n) auto
  show ?thesis
  proof (cases t)
    case W_PARTITION
    then have "is_list as \<and> list_all wf_attr (list_elems as)"
      using Some n assms(3) by simp
    then have "wp (interpretPartnWin tm k as) (\<lambda>w s'. s' = s \<and> win_ok tm (sym_tables s) w)
        (\<lambda>rc s'. rc \<in> sem_errs) s"
      unfolding interpretPartnWin_def using assms(1,2)
      by (intro wp_bindI [OF interpretPartnAttrs_wp]) auto
    then show ?thesis using Some n W_PARTITION by (simp add: interpretWin_def)
  next
    case W_RANGE
    then obtain u len where "ts = Some (N_TIME_SPEC u len)"
        and len: "0 \<le> len" "len * unit_seconds u < 2 ^ 31"
      using Some n assms(3) by (auto elim!: wf_time.elims)
    moreover have "len < 2 ^ 31"
      using len by (cases u) (auto simp: unit_seconds_def)
    ultimately show ?thesis
      using Some n W_RANGE by (simp add: interpretWin_def interpretRangeWin_wp)
  qed (use Some n in \<open>auto simp: interpretWin_def interpretRowWin_def\<close>)
qed

section \<open>Symbol table\<close>

lemma addSymbolTableEntry_wp:
  assumes "sym_ok tm (symbolTable s)"
  shows "wp (addSymbolTableEntry tm t v)
    (\<lambda>_ s'. \<exists>i. getTableId tm t = Some i \<and> v \<notin> fst ` set (symbolTable s) \<and>
       s' = s\<lparr>symbolTable := symbolTable s @ [(v, i)]\<rparr> \<and> sym_ok tm (symbolTable s'))
    (\<lambda>rc s'. s' = s \<and> rc \<in> sem_errs) s"
  using assms
  by (auto simp: addSymbolTableEntry_def wp_case_option sym_ok_def getTableId_bound
      split: option.splits)

lemma addRelVars_wp:
  assumes "sym_ok tm (symbolTable s)" and "is_list l" and "list_all wf_rel (list_elems l)"
  shows "wp (addRelVars tm l)
    (\<lambda>_ s'. sym_ok tm (symbolTable s') \<and> s' = s\<lparr>symbolTable := symbolTable s'\<rparr> \<and>
       length (symbolTable s') = length (symbolTable s) + length (list_elems l))
    (\<lambda>rc s'. rc \<in> sem_errs) s"
  using assms
proof (induction tm l arbitrary: s rule: addRelVars.induct)
  case (2 tm table nxt)
  then obtain rel var win where t: "table = N_REL_VAR rel var win"
    by (cases table) auto
  show ?case unfolding t addRelVars.simps node.case
  proof (rule wp_seqI [OF addSymbolTableEntry_wp])
    fix u s1
    assume a: "\<exists>i. getTableId tm rel = Some i \<and>
      (case var of Some v \<Rightarrow> v | None \<Rightarrow> rel) \<notin> fst ` set (symbolTable s) \<and>
      s1 = s\<lparr>symbolTable := symbolTable s @ [(case var of Some v \<Rightarrow> v | None \<Rightarrow> rel, i)]\<rparr> \<and>
      sym_ok tm (symbolTable s1)"
    have "wp (addRelVars tm nxt)
      (\<lambda>_ s'. sym_ok tm (symbolTable s') \<and> s' = s1\<lparr>symbolTable := symbolTable s'\<rparr> \<and>
         length (symbolTable s') = length (symbolTable s1) + length (list_elems nxt))
      (\<lambda>rc s'. rc \<in> sem_errs) s1"
      using "2.IH" [OF t] "2.prems" a by auto
    then show "wp (addRelVars tm nxt)
      (\<lambda>_ s'. sym_ok tm (symbolTable s') \<and> s' = s\<lparr>symbolTable := symbolTable s'\<rparr> \<and>
         length (symbolTable s') = length (symbolTable s) +
           length (list_elems (Some (N_LIST (N_REL_VAR rel var win) nxt))))
      (\<lambda>rc s'. rc \<in> sem_errs) s1"
      by (rule wp_mono) (use a in auto)
  qed (use "2.prems" in auto)
qed auto

section \<open>Clauses\<close>

text \<open>The state during the interpretation of a SELECT-FROM-WHERE block.\<close>

definition sfw_state :: "table_manager \<Rightarrow> sem_state \<Rightarrow> bool" where
  "sfw_state tm s \<longleftrightarrow> sym_ok tm (symbolTable s) \<and> refTables (qry s) = sym_tables s"

lemma from_ok_snoc:
  assumes "from_ok tm q" and "v < length (refTables q)"
    and "tblIsStream (tableList tm ! (refTables q ! v)) \<Longrightarrow>
      \<exists>w'. w = Some w' \<and> win_ok tm (refTables q) w'"
  shows "from_ok tm (q\<lparr>fromClauseTables := fromClauseTables q @ [v],
    winSpec := winSpec q @ [w]\<rparr>)"
  using assms by (auto simp: from_ok_def nth_append less_Suc_eq)

lemma interpretFromList_wp:
  assumes "tm_ok tm" and "sfw_state tm s" and "from_ok tm (qry s)"
    and "is_list l" and "list_all wf_rel (list_elems l)"
  shows "wp (interpretFromList tm l sw)
    (\<lambda>_ s'. \<exists>fs ws. s' = s\<lparr>qry := (qry s)\<lparr>fromClauseTables := fs, winSpec := ws\<rparr>\<rparr> \<and>
       from_ok tm (qry s') \<and>
       length fs = length (fromClauseTables (qry s)) + length (list_elems l))
    (\<lambda>rc s'. rc \<in> sem_errs) s"
  using assms
proof (induction tm l sw arbitrary: s rule: interpretFromList.induct)
  case (1 tm sw)
  show ?case unfolding interpretFromList.simps wp_retM
    by (rule exI [of _ "fromClauseTables (qry s)"], rule exI [of _ "winSpec (qry s)"])
      (use 1 in simp)
next
  case (2 tm rel nxt sw)
  then obtain r var win where t: "rel = N_REL_VAR r var win" and wf: "\<forall>w. win = Some w \<longrightarrow> wf_win w"
    by (cases rel) (auto split: option.splits)
  let ?v = "case var of Some v \<Rightarrow> v | None \<Rightarrow> r"
  show ?case
  proof (cases "find_first (\<lambda>e. ?v = fst e) (symbolTable s)")
    case None
    then show ?thesis by (simp add: t)
  next
    case (Some v)
    let ?t = "snd (symbolTable s ! v)"
    have v: "v < length (symbolTable s)" using Some by (rule find_first_bound)
    have tb: "?t < length (tableList tm)"
      using v "2.prems"(2) by (auto simp: sfw_state_def sym_ok_def)
    have win: "wp (if tblIsStream (tableList tm ! ?t)
        then bindM (interpretWin tm win) (\<lambda>w. retM (Some w))
        else if win \<noteq> None then failM WINDOW_OVER_REL_ERR else retM sw)
      (\<lambda>w s'. s' = s \<and> (tblIsStream (tableList tm ! ?t) \<longrightarrow>
         (\<exists>w'. w = Some w' \<and> win_ok tm (sym_tables s) w')))
      (\<lambda>rc s'. rc \<in> sem_errs) s"
      using "2.prems" wf
      by (auto simp: sfw_state_def intro!: wp_mono [OF interpretWin_wp])
    have go: "wp (interpretFromList tm nxt w)
      (\<lambda>_ s'. \<exists>fs ws. s' = s\<lparr>qry := (qry s)\<lparr>fromClauseTables := fs, winSpec := ws\<rparr>\<rparr> \<and>
         from_ok tm (qry s') \<and> length fs = length (fromClauseTables (qry s)) +
           length (list_elems (Some (N_LIST rel nxt))))
      (\<lambda>rc s'. rc \<in> sem_errs)
      (s\<lparr>qry := (qry s)\<lparr>fromClauseTables := fromClauseTables (qry s) @ [v],
         winSpec := winSpec (qry s) @ [w]\<rparr>\<rparr>)"
      if "tblIsStream (tableList tm ! ?t) \<longrightarrow> (\<exists>w'. w = Some w' \<and> win_ok tm (sym_tables s) w')"
        and "length (fromClauseTables (qry s)) \<noteq> MAX_TABLES" for w
    proof -
      let ?s = "s\<lparr>qry := (qry s)\<lparr>fromClauseTables := fromClauseTables (qry s) @ [v],
         winSpec := winSpec (qry s) @ [w]\<rparr>\<rparr>"
      have ok: "from_ok tm (qry ?s)"
        using "2.prems"(2,3) that v by (auto simp: sfw_state_def intro!: from_ok_snoc)
      have "wp (interpretFromList tm nxt w)
        (\<lambda>_ s'. \<exists>fs ws. s' = ?s\<lparr>qry := (qry ?s)\<lparr>fromClauseTables := fs, winSpec := ws\<rparr>\<rparr> \<and>
           from_ok tm (qry s') \<and>
           length fs = length (fromClauseTables (qry ?s)) + length (list_elems nxt))
        (\<lambda>rc s'. rc \<in> sem_errs) ?s"
        by (rule "2.IH" [OF t that(2)]) (use "2.prems" ok in \<open>auto simp: sfw_state_def\<close>)
      then show ?thesis by (rule wp_mono) auto
    qed
    show ?thesis
      unfolding t interpretFromList.simps node.case wp_bindM interpretVarName_wp Some option.case
        varTable_wp isStream_wp
      by (intro conjI v tb wp_mono [OF win]) (use go [unfolded t] in simp_all)
  qed
qed auto

text \<open>Only the counter of the pool and the member set by \<open>f\<close> have changed.\<close>

definition clause_frame :: "nat \<Rightarrow> sem_state \<Rightarrow> sem_state \<Rightarrow> query \<Rightarrow> bool" where
  "clause_frame d s s' q \<longleftrightarrow> symbolTable s' = symbolTable s \<and> qry s' = q \<and>
     semNumExprs s' \<le> semNumExprs s + d"

lemma interpretCondList_wp:
  assumes "tm_ok tm" and "tm_nonempty tm" and "sfw_state tm s" and "symbolTable s \<noteq> []"
    and "is_list l" and "list_all wf_cond (list_elems l)"
    and "semNumExprs s + node_count_opt l \<le> NUM_EXPRS"
    and "length (preds (qry s)) \<le> MAX_PRED" and "\<forall>b\<in>set (preds (qry s)). bexpr_wt tm (sym_tables s) b"
    and "sum_list (map bexpr_size (preds (qry s))) \<le> semNumExprs s"
  shows "wp (interpretCondList tm l)
    (\<lambda>_ s'. \<exists>ps. clause_frame (node_count_opt l) s s' ((qry s)\<lparr>preds := ps\<rparr>) \<and>
       length ps \<le> MAX_PRED \<and> (\<forall>b\<in>set ps. bexpr_wt tm (sym_tables s) b) \<and>
       sum_list (map bexpr_size ps) \<le> semNumExprs s')
    (\<lambda>rc s'. rc \<in> sem_errs) s"
  using assms
proof (induction tm l arbitrary: s rule: interpretCondList.induct)
  case (1 tm)
  show ?case unfolding interpretCondList.simps wp_retM
    by (rule exI [of _ "preds (qry s)"]) (use 1 in \<open>simp add: clause_frame_def\<close>)
next
  case (2 tm c nxt)
  show ?case unfolding interpretCondList.simps
  proof (rule wp_bindI [OF interpretCondn_wp])
    fix b s1 assume b: "bexpr_wt tm (sym_tables s) b \<and> exprs_only (node_count c) s s1 \<and>
      semNumExprs s1 = semNumExprs s + bexpr_size b"
    let ?s = "s1\<lparr>qry := (qry s1)\<lparr>preds := preds (qry s1) @ [b]\<rparr>\<rparr>"
    have "wp (interpretCondList tm nxt)
      (\<lambda>_ s'. \<exists>ps. clause_frame (node_count_opt nxt) ?s s' ((qry ?s)\<lparr>preds := ps\<rparr>) \<and>
         length ps \<le> MAX_PRED \<and> (\<forall>b\<in>set ps. bexpr_wt tm (sym_tables ?s) b) \<and>
         sum_list (map bexpr_size ps) \<le> semNumExprs s')
      (\<lambda>rc s'. rc \<in> sem_errs) ?s" if small: "\<not> MAX_PRED \<le> length (preds (qry s))"
      by (rule "2.IH" [OF small])
        (use "2.prems" b small in \<open>auto simp: sfw_state_def exprs_only_def\<close>)
    then show "wp (bindM (readM qry) (\<lambda>q. if length (preds q) \<ge> MAX_PRED then failM (- 1)
        else seqM (setQ (\<lambda>q. q\<lparr>preds := preds q @ [b]\<rparr>)) (interpretCondList tm nxt)))
      (\<lambda>_ s'. \<exists>ps. clause_frame (node_count_opt (Some (N_LIST c nxt))) s s' ((qry s)\<lparr>preds := ps\<rparr>) \<and>
         length ps \<le> MAX_PRED \<and> (\<forall>b\<in>set ps. bexpr_wt tm (sym_tables s) b) \<and>
       sum_list (map bexpr_size ps) \<le> semNumExprs s')
      (\<lambda>rc s'. rc \<in> sem_errs) s1"
      using b
      by (auto simp: exprs_only_def elim!: wp_mono)
        (auto simp: clause_frame_def exprs_only_def)
  qed (use "2.prems" in \<open>auto simp: sfw_state_def\<close>)
qed auto

lemma interpretGbyList_wp:
  assumes "tm_ok tm" and "sfw_state tm s"
    and "is_list l" and "list_all wf_attr (list_elems l)"
    and "length (gbyAttrs (qry s)) \<le> MAX_GROUP_ATTRS"
    and "\<forall>a\<in>set (gbyAttrs (qry s)). sattr_ok tm (sym_tables s) a"
  shows "wp (interpretGbyList tm l)
    (\<lambda>_ s'. \<exists>as. s' = s\<lparr>qry := (qry s)\<lparr>gbyAttrs := as\<rparr>\<rparr> \<and>
       length as \<le> MAX_GROUP_ATTRS \<and> (\<forall>a\<in>set as. sattr_ok tm (sym_tables s) a))
    (\<lambda>rc s'. rc \<in> sem_errs) s"
  using assms
proof (induction tm l arbitrary: s rule: interpretGbyList.induct)
  case (1 tm)
  show ?case unfolding interpretGbyList.simps wp_retM
    by (rule exI [of _ "gbyAttrs (qry s)"]) (use 1 in simp)
next
  case (2 tm a nxt)
  show ?case unfolding interpretGbyList.simps wp_bindM
  proof (rule interpretAttr_ok)
    fix x assume x: "sattr_ok tm (sym_tables s) x"
    let ?s = "s\<lparr>qry := (qry s)\<lparr>gbyAttrs := gbyAttrs (qry s) @ [x]\<rparr>\<rparr>"
    have "wp (interpretGbyList tm nxt)
      (\<lambda>_ s'. \<exists>as. s' = ?s\<lparr>qry := (qry ?s)\<lparr>gbyAttrs := as\<rparr>\<rparr> \<and>
         length as \<le> MAX_GROUP_ATTRS \<and> (\<forall>a\<in>set as. sattr_ok tm (sym_tables ?s) a))
      (\<lambda>rc s'. rc \<in> sem_errs) ?s" if small: "\<not> MAX_GROUP_ATTRS \<le> length (gbyAttrs (qry s))"
      by (rule "2.IH" [OF small])
        (use "2.prems" x small in \<open>auto simp: sfw_state_def\<close>)
    then show "wp (readM qry) (\<lambda>q. wp (if MAX_GROUP_ATTRS \<le> length (gbyAttrs q) then failM (- 1)
        else seqM (setQ (\<lambda>q. q\<lparr>gbyAttrs := gbyAttrs q @ [x]\<rparr>)) (interpretGbyList tm nxt))
      (\<lambda>_ s'. \<exists>as. s' = s\<lparr>qry := (qry s)\<lparr>gbyAttrs := as\<rparr>\<rparr> \<and>
         length as \<le> MAX_GROUP_ATTRS \<and> (\<forall>a\<in>set as. sattr_ok tm (sym_tables s) a))
      (\<lambda>rc s'. rc \<in> sem_errs)) (\<lambda>rc s'. rc \<in> sem_errs) s"
      by auto
  qed (use "2.prems" in \<open>auto simp: sfw_state_def\<close>)
qed auto

lemma starAttr_wp:
  assumes "attr_valid tm t a" and "v < length (refTables (qry s))" and "refTables (qry s) ! v = t"
    and "length acc \<le> MAX_PROJ" and "\<forall>e\<in>set acc. sem_wt tm (refTables (qry s)) e"
    and "semNumExprs s + (MAX_PROJ - length acc) \<le> NUM_EXPRS"
  shows "wp (starAttr tm v t acc a)
    (\<lambda>es s'. symbolTable s' = symbolTable s \<and> qry s' = qry s \<and> length es \<le> MAX_PROJ \<and>
       (\<forall>e\<in>set es. sem_wt tm (refTables (qry s)) e) \<and>
       semNumExprs s' + (MAX_PROJ - length es) \<le> NUM_EXPRS \<and>
       semNumExprs s' = semNumExprs s + 1 \<and> length es = length acc + 1 \<and>
       sum_list (map sem_size es) = sum_list (map sem_size acc) + 1)
    (\<lambda>rc s'. rc \<in> sem_errs) s"
  using assms by (auto simp: starAttr_def newExpr_wp sattr_ok_def sattr_type_def)

text \<open>What the loops of \<open>SELECT *\<close> keep.\<close>

definition star_inv ::
    "table_manager \<Rightarrow> sem_state \<Rightarrow> sem_expr list \<Rightarrow> sem_state \<Rightarrow> bool" where
  "star_inv tm s es s' \<longleftrightarrow> symbolTable s' = symbolTable s \<and> qry s' = qry s \<and>
     length es \<le> MAX_PROJ \<and> (\<forall>e\<in>set es. sem_wt tm (refTables (qry s)) e) \<and>
     semNumExprs s' + (MAX_PROJ - length es) \<le> NUM_EXPRS \<and>
     semNumExprs s' = semNumExprs s + sum_list (map sem_size es) \<and>
     sum_list (map sem_size es) = length es"

lemma starTable_wp:
  assumes "refs_ok tm (refTables (qry s))" and "v < length (refTables (qry s))"
    and "star_inv tm s acc s'"
  shows "wp (starTable tm acc v) (star_inv tm s) (\<lambda>rc s'. rc \<in> sem_errs) s'"
proof -
  let ?t = "refTables (qry s) ! v"
  have t: "?t < length (tableList tm)" using assms(1,2) by (auto simp: refs_ok_def)
  have "wp (foldM (starAttr tm v ?t) acc [0 ..< length (attrList (tableList tm ! ?t))])
      (star_inv tm s) (\<lambda>rc s'. rc \<in> sem_errs) s'"
  proof (rule wp_foldM [where I = "\<lambda>_. star_inv tm s"])
    fix i es s1
    assume i: "i < length [0 ..< length (attrList (tableList tm ! ?t))]" and I: "star_inv tm s es s1"
    show "wp (starAttr tm v ?t es ([0 ..< length (attrList (tableList tm ! ?t))] ! i))
        (star_inv tm s) (\<lambda>rc s'. rc \<in> sem_errs) s1"
      by (rule wp_mono [OF starAttr_wp])
        (use i I t assms(2) in \<open>auto simp: star_inv_def attr_valid_def\<close>)
  qed (use assms(3) in auto)
  then show ?thesis using assms(2,3) t by (simp add: starTable_def star_inv_def)
qed

lemma interpretProjList_wp:
  assumes "tm_ok tm" and "tm_nonempty tm" and "sym_ok tm (symbolTable s)" and "symbolTable s \<noteq> []"
    and "is_list l" and "list_all wf_expr (list_elems l)"
    and "semNumExprs s + node_count_opt l \<le> NUM_EXPRS"
    and "length acc \<le> MAX_PROJ" and "\<forall>e\<in>set acc. sem_wt tm (sym_tables s) e"
  shows "wp (interpretProjList tm l acc)
    (\<lambda>es s'. exprs_only (node_count_opt l) s s' \<and> length es \<le> MAX_PROJ \<and>
       (\<forall>e\<in>set es. sem_wt tm (sym_tables s) e) \<and>
       semNumExprs s' + sum_list (map sem_size acc) = semNumExprs s + sum_list (map sem_size es))
    (\<lambda>rc s'. rc \<in> sem_errs) s"
  using assms
proof (induction tm l acc arbitrary: s rule: interpretProjList.induct)
  case (2 tm p nxt acc)
  show ?case unfolding interpretProjList.simps
  proof (rule wp_bindI [OF interpretExpr_wp])
    fix e s1 assume e: "sem_wt tm (sym_tables s) e \<and> exprs_only (node_count p) s s1 \<and>
      semNumExprs s1 = semNumExprs s + sem_size e"
    have "wp (interpretProjList tm nxt (acc @ [e]))
      (\<lambda>es s'. exprs_only (node_count_opt nxt) s1 s' \<and> length es \<le> MAX_PROJ \<and>
         (\<forall>e\<in>set es. sem_wt tm (sym_tables s1) e) \<and>
         semNumExprs s' + sum_list (map sem_size (acc @ [e])) = semNumExprs s1 + sum_list (map sem_size es))
      (\<lambda>rc s'. rc \<in> sem_errs) s1" if "\<not> MAX_PROJ \<le> length acc"
      by (rule "2.IH") (use "2.prems" e that in \<open>auto simp: exprs_only_def\<close>)
    then show "wp (if MAX_PROJ \<le> length acc then failM (- 1) else interpretProjList tm nxt (acc @ [e]))
      (\<lambda>es s'. exprs_only (node_count_opt (Some (N_LIST p nxt))) s s' \<and> length es \<le> MAX_PROJ \<and>
         (\<forall>e\<in>set es. sem_wt tm (sym_tables s) e) \<and>
       semNumExprs s' + sum_list (map sem_size acc) = semNumExprs s + sum_list (map sem_size es))
      (\<lambda>rc s'. rc \<in> sem_errs) s1"
      using e by (auto elim!: wp_mono) (auto simp: exprs_only_def)
  qed (use "2.prems" in auto)
qed auto

lemma interpretStarInSelect_wp:
  assumes "refs_ok tm (refTables (qry s))" and "from_ok tm (qry s)"
    and "semNumExprs s + MAX_PROJ \<le> NUM_EXPRS" and "MAX_PROJ \<le> D"
  shows "wp (interpretStarInSelect tm)
    (\<lambda>_ s'. \<exists>es. qry s' = (qry s)\<lparr>projExprs := es\<rparr> \<and> length es \<le> MAX_PROJ \<and>
       (\<forall>e\<in>set es. sem_wt tm (refTables (qry s)) e) \<and>
       sum_list (map sem_size es) \<le> D)
    (\<lambda>rc s'. rc \<in> sem_errs) s"
proof -
  have "wp (foldM (starTable tm) [] (fromClauseTables (qry s))) (star_inv tm s)
      (\<lambda>rc s'. rc \<in> sem_errs) s"
  proof (rule wp_foldM [where I = "\<lambda>_. star_inv tm s"])
    fix i es s1
    assume "i < length (fromClauseTables (qry s))" and I: "star_inv tm s es s1"
    then have "fromClauseTables (qry s) ! i < length (refTables (qry s))"
      using assms(2) by (simp add: from_ok_def)
    then show "wp (starTable tm es (fromClauseTables (qry s) ! i)) (star_inv tm s)
        (\<lambda>rc s'. rc \<in> sem_errs) s1"
      using assms(1) I by (intro starTable_wp) auto
  qed (use assms in \<open>auto simp: star_inv_def\<close>)
  then have "wp (foldM (starTable tm) [] (fromClauseTables (qry s)))
      (\<lambda>es s'. wp (setQ (\<lambda>q. q\<lparr>projExprs := es\<rparr>))
        (\<lambda>_ s'. \<exists>es. qry s' = (qry s)\<lparr>projExprs := es\<rparr> \<and> length es \<le> MAX_PROJ \<and>
           (\<forall>e\<in>set es. sem_wt tm (refTables (qry s)) e) \<and>
       sum_list (map sem_size es) \<le> D)
        (\<lambda>rc s'. rc \<in> sem_errs) s')
      (\<lambda>rc s'. rc \<in> sem_errs) s"
    by (rule wp_mono) (use assms(4) in \<open>auto simp: star_inv_def\<close>)
  then show ?thesis by (simp add: interpretStarInSelect_def)
qed

lemma interpretSelectClause_wp:
  assumes "tm_ok tm" and "tm_nonempty tm" and "sfw_state tm s" and "symbolTable s \<noteq> []"
    and "from_ok tm (qry s)" and "wf_select n"
    and "semNumExprs s + node_count n + MAX_PROJ \<le> NUM_EXPRS" and "node_count n + MAX_PROJ \<le> D"
  shows "wp (interpretSelectClause tm n)
    (\<lambda>_ s'. \<exists>d es. qry s' = (qry s)\<lparr>bDistinct := d, projExprs := es\<rparr> \<and> length es \<le> MAX_PROJ \<and>
       (\<forall>e\<in>set es. sem_wt tm (refTables (qry s)) e) \<and>
       sum_list (map sem_size es) \<le> D)
    (\<lambda>rc s'. rc \<in> sem_errs) s"
proof -
  obtain d ts where n: "n = N_SELECT_CLAUSE d ts" "is_list ts" "list_all wf_expr (list_elems ts)"
    using assms(6) by (cases n) auto
  have st: "refTables (qry s) = sym_tables s" "sym_ok tm (symbolTable s)"
    using assms(3) by (auto simp: sfw_state_def)
  let ?s = "s\<lparr>qry := (qry s)\<lparr>bDistinct := d\<rparr>\<rparr>"
  have f: "from_ok tm (qry ?s)" using assms(5) by (simp add: from_ok_def)
  have r: "refs_ok tm (refTables (qry ?s))"
    using st by (auto simp: refs_ok_def sym_ok_def)
  show ?thesis
  proof (cases ts)
    case None
    have "wp (interpretStarInSelect tm)
      (\<lambda>_ s'. \<exists>es. qry s' = (qry ?s)\<lparr>projExprs := es\<rparr> \<and> length es \<le> MAX_PROJ \<and>
         (\<forall>e\<in>set es. sem_wt tm (refTables (qry ?s)) e) \<and>
         sum_list (map sem_size es) \<le> D)
      (\<lambda>rc s'. rc \<in> sem_errs) ?s"
      using f r assms(7,8) by (intro interpretStarInSelect_wp) auto
    then show ?thesis
      using n None by (auto simp: interpretSelectClause_def elim!: wp_mono)
  next
    case (Some l)
    have "wp (interpretProjList tm ts [])
      (\<lambda>es s'. exprs_only (node_count_opt ts) ?s s' \<and> length es \<le> MAX_PROJ \<and>
         (\<forall>e\<in>set es. sem_wt tm (sym_tables ?s) e) \<and>
         semNumExprs s' + sum_list (map sem_size []) = semNumExprs ?s + sum_list (map sem_size es))
      (\<lambda>rc s'. rc \<in> sem_errs) ?s"
      using n assms st by (intro interpretProjList_wp) auto
    then show ?thesis
      using n Some st assms(8)
      by (auto simp: interpretSelectClause_def exprs_only_def elim!: wp_mono intro!: exI [of _ d])
  qed
qed

lemma interpretSFW_wp:
  assumes "tm_ok tm" and "tm_nonempty tm" and "sfw_state tm s" and "symbolTable s \<noteq> []"
    and "wf_sfw n" and "semNumExprs s + node_count n + MAX_PROJ \<le> NUM_EXPRS"
    and "bRelToStr (qry s) \<longrightarrow> r2sOp (qry s) \<noteq> None" and "qKind (qry s) = SFW_QUERY"
    and "semNumExprs s = 0" and "node_count n \<le> MAXNODE"
  shows "wp (interpretSFW tm n) (\<lambda>_ s'. query_ok tm (qry s')) (\<lambda>rc s'. rc \<in> sem_errs) s"
proof -
  obtain sel rels conds groups where n: "n = N_SFW_BLOCK sel rels conds groups"
    and wf: "wf_select sel" "is_list (Some rels)" "list_all wf_rel (list_elems (Some rels))"
      "is_list conds" "list_all wf_cond (list_elems conds)"
      "is_list groups" "list_all wf_attr (list_elems groups)"
    using assms(5) by (cases n) auto
  have rels: "list_elems (Some rels) \<noteq> []" using wf(2) by (cases rels) auto
  let ?s1 = "s\<lparr>qry := (qry s)\<lparr>fromClauseTables := [], winSpec := []\<rparr>\<rparr>"
  have s1: "sfw_state tm ?s1" "from_ok tm (qry ?s1)"
    using assms(3) by (auto simp: sfw_state_def from_ok_def)
  have "wp (seqM (interpretFromList tm (Some rels) None)
      (seqM (interpretWhereClause tm conds)
      (seqM (interpretGroupByClause tm groups) (interpretSelectClause tm sel))))
    (\<lambda>_ s'. query_ok tm (qry s')) (\<lambda>rc s'. rc \<in> sem_errs) ?s1"
  proof (rule wp_seqI [OF interpretFromList_wp [OF assms(1) s1 wf(2,3)]])
    fix u s2
    assume "\<exists>fs ws. s2 = ?s1\<lparr>qry := (qry ?s1)\<lparr>fromClauseTables := fs, winSpec := ws\<rparr>\<rparr> \<and>
       from_ok tm (qry s2) \<and>
       length fs = length (fromClauseTables (qry ?s1)) + length (list_elems (Some rels))"
    then obtain fs ws where
      a: "s2 = ?s1\<lparr>qry := (qry ?s1)\<lparr>fromClauseTables := fs, winSpec := ws\<rparr>\<rparr> \<and> from_ok tm (qry s2) \<and>
        length fs = length (fromClauseTables (qry ?s1)) + length (list_elems (Some rels))"
      by (elim exE)
    have s2: "s2 = s\<lparr>qry := (qry s)\<lparr>fromClauseTables := fs, winSpec := ws\<rparr>\<rparr>"
      and f2: "from_ok tm (qry s2)" and fs: "fs \<noteq> []"
      using a rels by auto
    let ?s3 = "s2\<lparr>qry := (qry s2)\<lparr>preds := []\<rparr>\<rparr>"
    have c: "wp (interpretCondList tm conds)
      (\<lambda>_ s'. \<exists>ps. clause_frame (node_count_opt conds) ?s3 s' ((qry ?s3)\<lparr>preds := ps\<rparr>) \<and>
         length ps \<le> MAX_PRED \<and> (\<forall>b\<in>set ps. bexpr_wt tm (sym_tables ?s3) b) \<and>
         sum_list (map bexpr_size ps) \<le> semNumExprs s')
      (\<lambda>rc s'. rc \<in> sem_errs) ?s3"
      using assms wf n s2 by (intro interpretCondList_wp) (auto simp: sfw_state_def)
    have "wp (seqM (interpretCondList tm conds)
        (seqM (interpretGroupByClause tm groups) (interpretSelectClause tm sel)))
      (\<lambda>_ s'. query_ok tm (qry s')) (\<lambda>rc s'. rc \<in> sem_errs) ?s3"
    proof (rule wp_seqI [OF c])
      fix u s4
      assume "\<exists>ps. clause_frame (node_count_opt conds) ?s3 s4 ((qry ?s3)\<lparr>preds := ps\<rparr>) \<and>
         length ps \<le> MAX_PRED \<and> (\<forall>b\<in>set ps. bexpr_wt tm (sym_tables ?s3) b) \<and>
         sum_list (map bexpr_size ps) \<le> semNumExprs s4"
      then obtain ps where s4: "clause_frame (node_count_opt conds) ?s3 s4 ((qry ?s3)\<lparr>preds := ps\<rparr>)"
        and ps: "length ps \<le> MAX_PRED" "\<forall>b\<in>set ps. bexpr_wt tm (sym_tables s) b"
          "sum_list (map bexpr_size ps) \<le> semNumExprs s4"
        using s2 by auto
      let ?s5 = "s4\<lparr>qry := (qry s4)\<lparr>gbyAttrs := []\<rparr>\<rparr>"
      have st5: "sfw_state tm ?s5" using assms(3) s4 s2 by (simp add: sfw_state_def clause_frame_def)
      have g: "wp (interpretGbyList tm groups)
        (\<lambda>_ s'. \<exists>as. s' = ?s5\<lparr>qry := (qry ?s5)\<lparr>gbyAttrs := as\<rparr>\<rparr> \<and>
           length as \<le> MAX_GROUP_ATTRS \<and> (\<forall>a\<in>set as. sattr_ok tm (sym_tables ?s5) a))
        (\<lambda>rc s'. rc \<in> sem_errs) ?s5"
        using assms(1) wf st5 by (intro interpretGbyList_wp) auto
      have "wp (seqM (interpretGbyList tm groups) (interpretSelectClause tm sel))
        (\<lambda>_ s'. query_ok tm (qry s')) (\<lambda>rc s'. rc \<in> sem_errs) ?s5"
      proof (rule wp_seqI [OF g])
        fix u s6
        assume "\<exists>as. s6 = ?s5\<lparr>qry := (qry ?s5)\<lparr>gbyAttrs := as\<rparr>\<rparr> \<and>
           length as \<le> MAX_GROUP_ATTRS \<and> (\<forall>a\<in>set as. sattr_ok tm (sym_tables ?s5) a)"
        then obtain as where s6: "s6 = ?s5\<lparr>qry := (qry ?s5)\<lparr>gbyAttrs := as\<rparr>\<rparr>"
          and as: "length as \<le> MAX_GROUP_ATTRS" "\<forall>a\<in>set as. sattr_ok tm (sym_tables s) a"
          using s4 s2 by (auto simp: clause_frame_def)
        have q6: "qry s6 = (qry s)\<lparr>fromClauseTables := fs, winSpec := ws, preds := ps, gbyAttrs := as\<rparr>"
          and st6: "symbolTable s6 = symbolTable s"
          using s6 s4 s2 by (simp_all add: clause_frame_def)
        have "from_ok tm (qry s6)" using f2 q6 s2 by (simp add: from_ok_def)
        moreover have "sum_list (map bexpr_size ps) + (node_count sel + MAX_PROJ) \<le> MAXNODE + MAX_PROJ"
          using ps(3) s4 s2 assms(9,10) n by (simp add: clause_frame_def)
        ultimately show "wp (interpretSelectClause tm sel) (\<lambda>_ s'. query_ok tm (qry s'))
            (\<lambda>rc s'. rc \<in> sem_errs) s6"
          by (intro wp_mono [OF interpretSelectClause_wp [where D = "node_count sel + MAX_PROJ"]])
            (use assms(3,7,8) in \<open>auto simp: q6 st6 query_ok_def sfw_state_def refs_ok_def sym_ok_def
              fs ps as from_ok_def query_size_def\<close>,
             use assms(1-4,6) wf n s6 s4 s2 in \<open>auto simp: clause_frame_def\<close>)
      qed auto
      then show "wp (seqM (interpretGroupByClause tm groups) (interpretSelectClause tm sel))
        (\<lambda>_ s'. query_ok tm (qry s')) (\<lambda>rc s'. rc \<in> sem_errs) s4"
        by (simp add: interpretGroupByClause_def)
    qed auto
    then show "wp (seqM (interpretWhereClause tm conds)
        (seqM (interpretGroupByClause tm groups) (interpretSelectClause tm sel)))
      (\<lambda>_ s'. query_ok tm (qry s')) (\<lambda>rc s'. rc \<in> sem_errs) s2"
      by (simp add: interpretWhereClause_def)
  qed auto
  then show ?thesis using n by (simp add: interpretSFW_def interpretFromClause_def)
qed

section \<open>Queries\<close>

lemma schemaCompatible_wp:
  assumes "t1 < length (tableList tm)" and "t2 < length (tableList tm)"
  shows "wp (schemaCompatible tm t1 t2) Q E s \<longleftrightarrow>
    Q (map attrType (attrList (tableList tm ! t1)) = map attrType (attrList (tableList tm ! t2))) s"
proof -
  let ?a = "map attrType (attrList (tableList tm ! t1))"
  let ?b = "map attrType (attrList (tableList tm ! t2))"
  define f :: "bool \<Rightarrow> nat \<Rightarrow> (sem_state, bool) comp" where
    "f = (\<lambda>same a. if \<not> same then retM False
           else bindM (getAttrType tm t1 a) (\<lambda>x. bindM (getAttrType tm t2 a) (\<lambda>y. retM (x = y))))"
  have step: "f b i s = Done (b \<and> ?a ! i = ?b ! i) s" if "i < length ?a" "length ?a = length ?b" for b i s
    using assms that by (simp add: f_def getAttrType_def comp_defs)
  have loop: "foldM f b is s = Done (b \<and> (\<forall>i\<in>set is. ?a ! i = ?b ! i)) s"
    if "\<forall>i\<in>set is. i < length ?a" "length ?a = length ?b" for b "is" s
    using that
  proof (induction "is" arbitrary: b)
    case Nil
    then show ?case by (simp add: retM_def)
  next
    case (Cons i js)
    have "f b i s = Done (b \<and> ?a ! i = ?b ! i) s" using Cons.prems by (intro step) auto
    then show ?case using Cons by (simp add: bindM_def conj_assoc)
  qed
  show ?thesis
  proof (cases "length ?a = length ?b")
    case True
    have "foldM f True [0 ..< length ?a] s = Done (?a = ?b) s"
      using loop [of "[0 ..< length ?a]" True s] True by (simp add: list_eq_iff_nth_eq [of ?a ?b] Ball_def)
    then have "wp (foldM f True [0 ..< length ?a]) Q E s \<longleftrightarrow> Q (?a = ?b) s"
      by (simp add: wp_def)
    then show ?thesis using assms True by (simp add: schemaCompatible_def f_def [symmetric])
  next
    case False
    then have "?a \<noteq> ?b" using arg_cong [of ?a ?b length] by blast
    then show ?thesis using assms False by (simp add: schemaCompatible_def)
  qed
qed

lemma interpretR2SOp_wp:
  "wf_r2s r2s \<Longrightarrow> wp (interpretR2SOp r2s)
    (\<lambda>_ s'. s' = s\<lparr>qry := (qry s)\<lparr>bRelToStr := bRelToStr (qry s'), r2sOp := r2sOp (qry s')\<rparr>\<rparr> \<and>
       (bRelToStr (qry s') \<longrightarrow> r2sOp (qry s') \<noteq> None)) (\<lambda>rc s'. False) s"
  by (cases r2s rule: wf_r2s.cases) (auto simp: interpretR2SOp_def)

lemma interpretQuery_bin_wp:
  assumes "wf_r2s r2s" and "bin = N_UNION l r \<or> bin = N_EXCEPT l r"
  shows "wp (interpretQuery tm (N_CONT_QUERY None (Some bin) r2s))
    (\<lambda>_ s'. query_ok tm (qry s')) (\<lambda>rc s'. rc \<in> sem_errs) s"
proof (cases "getTableId tm l")
  case None
  then show ?thesis
    using assms(2) by (auto simp: interpretQuery_def getReferencedTables_def
      getBinOpReferencedTables_def resetExprs_def resetSymbolTable_def)
next
  case (Some t1)
  show ?thesis
  proof (cases "getTableId tm r")
    case None
    then show ?thesis
      using assms(2) Some by (auto simp: interpretQuery_def getReferencedTables_def
        getBinOpReferencedTables_def resetExprs_def resetSymbolTable_def)
  next
    case (Some t2)
    have t: "t1 < length (tableList tm)" "t2 < length (tableList tm)"
      using \<open>getTableId tm l = Some t1\<close> Some by (auto dest: getTableId_bound)
    let ?s = "s\<lparr>semNumExprs := 0, symbolTable := [],
      qry := (qry s)\<lparr>refTables := [t1, t2], qKind := BINARY_OP\<rparr>\<rparr>"
    have "wp (seqM (interpretR2SOp r2s) (interpretBinOp tm bin))
      (\<lambda>_ s'. query_ok tm (qry s')) (\<lambda>rc s'. rc \<in> sem_errs) ?s"
    proof (rule wp_seqI [OF interpretR2SOp_wp [OF assms(1)]])
      fix u s1
      assume "s1 = ?s\<lparr>qry := (qry ?s)\<lparr>bRelToStr := bRelToStr (qry s1), r2sOp := r2sOp (qry s1)\<rparr>\<rparr> \<and>
        (bRelToStr (qry s1) \<longrightarrow> r2sOp (qry s1) \<noteq> None)"
      then obtain b r where
        "s1 = ?s\<lparr>qry := (qry ?s)\<lparr>bRelToStr := b, r2sOp := r\<rparr>\<rparr>" and "b \<longrightarrow> r \<noteq> None"
        by blast
      then show "wp (interpretBinOp tm bin) (\<lambda>_ s'. query_ok tm (qry s')) (\<lambda>rc s'. rc \<in> sem_errs) s1"
        using t by (simp add: interpretBinOp_def schemaCompatible_wp query_ok_def refs_ok_def)
    qed simp
    then show ?thesis
      using assms(2) Some \<open>getTableId tm l = Some t1\<close>
      by (auto simp: interpretQuery_def getReferencedTables_def
        getBinOpReferencedTables_def resetExprs_def resetSymbolTable_def)
  qed
qed

lemma interpretQuery_wp:
  assumes "tm_ok tm" and "tm_nonempty tm" and "wf_query t" and "node_count t \<le> MAXNODE"
  shows "wp (interpretQuery tm t) (\<lambda>_ s'. query_ok tm (qry s')) (\<lambda>rc s'. rc \<in> sem_errs) s"
  using assms(3)
proof (cases t rule: wf_query.cases)
  case (1 sfw r2s)
  then have wf: "wf_sfw sfw" "wf_r2s r2s" using assms(3) by auto
  then obtain sel rels conds groups where sfw: "sfw = N_SFW_BLOCK sel rels conds groups"
    by (cases sfw) auto
  let ?s = "s\<lparr>semNumExprs := 0, symbolTable := []\<rparr>"
  have rels: "list_elems (Some rels) \<noteq> []" "is_list (Some rels)" "list_all wf_rel (list_elems (Some rels))"
    using wf sfw by (cases rels; simp)+
  have "wp (seqM (addRelVars tm (Some rels))
      (seqM (bindM (readM symbolTable) (\<lambda>st. setQ (\<lambda>q. q\<lparr>refTables := map snd st\<rparr>)))
      (seqM (setQ (\<lambda>q. q\<lparr>qKind := SFW_QUERY\<rparr>))
      (seqM (interpretR2SOp r2s) (interpretSFW tm sfw)))))
    (\<lambda>_ s'. query_ok tm (qry s')) (\<lambda>rc s'. rc \<in> sem_errs) ?s"
  proof (rule wp_seqI [OF addRelVars_wp])
    fix u s1
    assume s1: "sym_ok tm (symbolTable s1) \<and> s1 = ?s\<lparr>symbolTable := symbolTable s1\<rparr> \<and>
      length (symbolTable s1) = length (symbolTable ?s) + length (list_elems (Some rels))"
    have ne: "symbolTable s1 \<noteq> []" using s1 rels(1) by force
    have n1: "semNumExprs s1 = 0" using s1 by (metis sem_state.select_convs(2) sem_state.surjective
          sem_state.update_convs(1,2))
    let ?s2 = "s1\<lparr>qry := (qry s1)\<lparr>refTables := sym_tables s1, qKind := SFW_QUERY\<rparr>\<rparr>"
    have "wp (seqM (interpretR2SOp r2s) (interpretSFW tm sfw))
      (\<lambda>_ s'. query_ok tm (qry s')) (\<lambda>rc s'. rc \<in> sem_errs) ?s2"
    proof (rule wp_seqI [OF interpretR2SOp_wp [OF wf(2)]])
      fix u s3
      assume "s3 = ?s2\<lparr>qry := (qry ?s2)\<lparr>bRelToStr := bRelToStr (qry s3), r2sOp := r2sOp (qry s3)\<rparr>\<rparr> \<and>
        (bRelToStr (qry s3) \<longrightarrow> r2sOp (qry s3) \<noteq> None)"
      then obtain b r where s3: "s3 = ?s2\<lparr>qry := (qry ?s2)\<lparr>bRelToStr := b, r2sOp := r\<rparr>\<rparr>"
        and b: "b \<longrightarrow> r \<noteq> None"
        by blast
      show "wp (interpretSFW tm sfw) (\<lambda>_ s'. query_ok tm (qry s')) (\<lambda>rc s'. rc \<in> sem_errs) s3"
      proof (rule interpretSFW_wp)
        show "semNumExprs s3 + node_count sfw + MAX_PROJ \<le> NUM_EXPRS"
          using assms(4) 1 n1 s3 by (simp add: MAXNODE_def NUM_EXPRS_def MAX_PROJ_def)
        show "node_count sfw \<le> MAXNODE"
          using assms(4) 1 by simp
      qed (use assms s1 ne s3 b wf n1 in \<open>auto simp: sfw_state_def\<close>)
    qed auto
    then show "wp (seqM (bindM (readM symbolTable) (\<lambda>st. setQ (\<lambda>q. q\<lparr>refTables := map snd st\<rparr>)))
      (seqM (setQ (\<lambda>q. q\<lparr>qKind := SFW_QUERY\<rparr>))
      (seqM (interpretR2SOp r2s) (interpretSFW tm sfw))))
      (\<lambda>_ s'. query_ok tm (qry s')) (\<lambda>rc s'. rc \<in> sem_errs) s1"
      by simp
  qed (use rels in \<open>auto simp: sym_ok_def\<close>)
  then show ?thesis
    using 1 sfw by (simp add: interpretQuery_def getReferencedTables_def getSFWReferencedTables_def
      resetExprs_def resetSymbolTable_def)
next
  case (2 l r r2s)
  then show ?thesis using assms(3) by (simp add: interpretQuery_bin_wp)
next
  case (3 l r r2s)
  then show ?thesis using assms(3) by (simp add: interpretQuery_bin_wp)
qed auto

end
