(* ===== verification/Scan_Help.thy ===== *)
theory Scan_Help
  imports Parse_Nodes
begin

text \<open>
  \<open>src/parser/scanhelp.cc\<close>: reserved words and string space of the scanner.  The characters
  of a string live in \<open>charpool\<close>; since nothing changes a string once it is copied there, the
  model keeps the string as a value and the pool as its counter \<open>charptr\<close>.
\<close>

definition MAXCHAR :: nat where "MAXCHAR = 5000"
definition MAXSTRINGLEN :: nat where "MAXSTRINGLEN = 256"

datatype token =
    RW_REGISTER | RW_STREAM | RW_RELATION | RW_INTEGER | RW_FLOAT | RW_CHAR | RW_BYTE
  | RW_ISTREAM | RW_DSTREAM | RW_RSTREAM | RW_SELECT | RW_DISTINCT | RW_FROM | RW_WHERE
  | RW_GROUP | RW_BY | RW_AND | RW_AS | RW_UNION | RW_EXCEPT
  | RW_AVG | RW_MIN | RW_MAX | RW_COUNT | RW_SUM
  | RW_ROWS | RW_RANGE | RW_NOW | RW_PARTITION | RW_UNBOUNDED
  | RW_SECOND | RW_MINUTE | RW_HOUR | RW_DAY
  | NOTOKEN | T_STRING string

definition string_alloc :: "nat \<Rightarrow> (parser_state, nat) comp" where
  "string_alloc len =
    bindM (readM charptr) (\<lambda>c.
    if c + len > MAXCHAR then exitM 1
    else seqM (modM (\<lambda>p. p\<lparr>charptr := c + len\<rparr>)) (retM c))"

definition reset_charptr :: "(parser_state, unit) comp" where
  "reset_charptr = modM (\<lambda>p. p\<lparr>charptr := 0\<rparr>)"

text \<open>\<open>mk_string(s, len)\<close> copies the first \<open>len + 1\<close> characters of \<open>s\<close>, its NUL included.\<close>

definition mk_string :: "string \<Rightarrow> nat \<Rightarrow> (parser_state, string) comp" where
  "mk_string s len = seqM (string_alloc (len + 1)) (retM (take (len + 1) s))"

definition lower_char :: "char \<Rightarrow> char" where
  "lower_char c = (if 65 \<le> (of_char c :: nat) \<and> (of_char c :: nat) \<le> 90
     then char_of (of_char c + 32 :: nat) else c)"

text \<open>
  \<open>lower(dst, src, lim)\<close> on a destination of \<open>cap\<close> characters: it converts at most \<open>lim\<close>
  characters and then stores the NUL behind them, without a check.
\<close>

definition lower :: "nat \<Rightarrow> string \<Rightarrow> nat \<Rightarrow> ('s, string) comp" where
  "lower cap src lim =
    (let dst = map lower_char (take lim src)
     in seqM (ensureM (length dst < cap)) (retM dst))"

text \<open>The reserved words in the order in which \<open>get_id\<close> compares them.\<close>

definition reserved_words :: "(string \<times> token) list" where
  "reserved_words = [
    (''register'', RW_REGISTER), (''stream'', RW_STREAM), (''relation'', RW_RELATION),
    (''integer'', RW_INTEGER), (''int'', RW_INTEGER), (''float'', RW_FLOAT), (''real'', RW_FLOAT),
    (''char'', RW_CHAR), (''byte'', RW_BYTE),
    (''istream'', RW_ISTREAM), (''dstream'', RW_DSTREAM), (''rstream'', RW_RSTREAM),
    (''select'', RW_SELECT), (''distinct'', RW_DISTINCT), (''from'', RW_FROM),
    (''where'', RW_WHERE), (''group'', RW_GROUP), (''by'', RW_BY), (''and'', RW_AND),
    (''as'', RW_AS), (''union'', RW_UNION), (''except'', RW_EXCEPT),
    (''avg'', RW_AVG), (''min'', RW_MIN), (''max'', RW_MAX), (''count'', RW_COUNT),
    (''sum'', RW_SUM),
    (''rows'', RW_ROWS), (''range'', RW_RANGE), (''now'', RW_NOW),
    (''partition'', RW_PARTITION), (''unbounded'', RW_UNBOUNDED),
    (''second'', RW_SECOND), (''seconds'', RW_SECOND), (''minute'', RW_MINUTE),
    (''minutes'', RW_MINUTE), (''hour'', RW_HOUR), (''hours'', RW_HOUR),
    (''day'', RW_DAY), (''days'', RW_DAY)]"

definition get_id :: "string \<Rightarrow> (parser_state, token) comp" where
  "get_id s =
    bindM (lower MAXSTRINGLEN s MAXSTRINGLEN) (\<lambda>str.
    if length str = MAXSTRINGLEN then retM NOTOKEN
    else case map_of reserved_words str of
      Some tok \<Rightarrow> retM tok
    | None \<Rightarrow> bindM (mk_string s (length str)) (\<lambda>v. retM (T_STRING v)))"

text \<open>\<open>get_qstring(qstring, len)\<close>: the characters between the quotes, doubled quotes as they are.\<close>

definition get_qstring :: "string \<Rightarrow> nat \<Rightarrow> (parser_state, string) comp" where
  "get_qstring qstring len =
    seqM (ensureM (2 \<le> len \<and> len \<le> length qstring))
      (mk_string (tl (take (len - 1) qstring)) (len - 2))"

lemma length_lower: "length (map lower_char (take n s)) = min n (length s)"
  by simp

lemma get_id_short:
  assumes "length s < MAXSTRINGLEN" and "charptr p + length s + 1 \<le> MAXCHAR"
  shows "get_id s p = (case map_of reserved_words (map lower_char s) of
      Some tok \<Rightarrow> Done tok p
    | None \<Rightarrow> Done (T_STRING s) (p\<lparr>charptr := charptr p + length s + 1\<rparr>))"
  using assms
  by (simp add: get_id_def lower_def mk_string_def string_alloc_def comp_defs Let_def
      split: option.splits)

lemma get_id_long: "length s \<ge> MAXSTRINGLEN \<Longrightarrow> get_id s p = Undef"
  by (simp add: get_id_def lower_def comp_defs Let_def)

end
