(* ===== verification/Grammar.thy ===== *)
theory Grammar
  imports Sem_Facts Scan_Help
begin

text \<open>
  \<open>src/parser/parse.yy\<close>: the commands of the query language and the actions that build their
  parse trees.  A datatype per nonterminal holds what the productions derive; the functions
  \<open>build_*\<close> run the semantic actions in the order of the reductions of the LALR parser (the
  symbols of a right-hand side from left to right, then the action).  The automaton itself is
  generated and is not modelled.
\<close>

section \<open>Syntax\<close>

datatype g_attr = GAttr "string option" string

datatype g_expr =
    GE_ATTR g_attr
  | GE_CONST cval
  | GE_ARITH arith_op g_expr g_expr

datatype g_projterm =
    GP_EXPR g_expr
  | GP_AGGR aggr_fn g_attr
  | GP_COUNT_STAR

datatype g_window =
    GW_RANGE time_unit int
  | GW_NOW
  | GW_ROWS int
  | GW_UNBOUNDED
  | GW_PARTITION "g_attr list" int

datatype g_relvar = GRelVar string "g_window option" "string option"

datatype g_cond = GCond comp_op g_expr g_expr

text \<open>The projection list \<open>[]\<close> stands for \<open>*\<close>, empty conditions and groups for no clause.\<close>

record g_sfw =
  gDistinct :: bool
  gProj :: "g_projterm list"
  gRels :: "g_relvar list"
  gConds :: "g_cond list"
  gGroups :: "g_attr list"

datatype g_binary = GB_UNION string string | GB_EXCEPT string string

datatype g_query =
    GQ_SFW "rel2str_op option" g_sfw
  | GQ_BIN "rel2str_op option" g_binary

datatype g_attrspec = GAttrSpec string ctype int

datatype g_command =
    GC_QUERY g_query
  | GC_STREAM string "g_attrspec list"
  | GC_RELATION string "g_attrspec list"

section \<open>Semantic actions\<close>

text \<open>The right-recursive lists: \<open>x ',' list { prepend($1, $3) } | x { list_node($1) }\<close>.\<close>

fun build_list :: "('a \<Rightarrow> (parser_state, node) comp) \<Rightarrow> 'a list \<Rightarrow> (parser_state, node) comp" where
  "build_list f [] = undefM"
| "build_list f [x] = bindM (f x) list_node"
| "build_list f (x # y # ys) =
    bindM (f x) (\<lambda>n. bindM (build_list f (y # ys)) (\<lambda>l. prepend n l))"

text \<open>A clause that may be absent.\<close>

definition build_opt :: "('a \<Rightarrow> (parser_state, node) comp) \<Rightarrow> 'a list \<Rightarrow> (parser_state, node option) comp" where
  "build_opt f xs =
    (if xs = [] then retM None else bindM (build_list f xs) (\<lambda>l. retM (Some l)))"

fun build_attr :: "g_attr \<Rightarrow> (parser_state, node) comp" where
  "build_attr (GAttr v a) = attr_ref_node v a"

fun build_const :: "cval \<Rightarrow> (parser_state, node) comp" where
  "build_const (SVal s) = str_val_node s"
| "build_const (IVal i) = int_val_node i"
| "build_const (FVal f) = flt_val_node f"
| "build_const (BVal b) = undefM"

fun build_expr :: "g_expr \<Rightarrow> (parser_state, node) comp" where
  "build_expr (GE_ATTR a) = build_attr a"
| "build_expr (GE_CONST c) = build_const c"
| "build_expr (GE_ARITH op l r) =
    bindM (build_expr l) (\<lambda>nl. bindM (build_expr r) (\<lambda>nr. arith_expr_node op nl nr))"

fun build_projterm :: "g_projterm \<Rightarrow> (parser_state, node) comp" where
  "build_projterm (GP_EXPR e) = build_expr e"
| "build_projterm (GP_AGGR fn a) = bindM (build_attr a) (\<lambda>n. aggr_expr_node fn (Some n))"
| "build_projterm GP_COUNT_STAR = aggr_expr_node F_COUNT None"

fun build_window :: "g_window \<Rightarrow> (parser_state, node) comp" where
  "build_window (GW_RANGE u len) = bindM (time_spec_node u len) time_win_node"
| "build_window GW_NOW = now_win_node"
| "build_window (GW_ROWS n) = row_win_node n"
| "build_window GW_UNBOUNDED = unbounded_win_node"
| "build_window (GW_PARTITION as n) = bindM (build_list build_attr as) (\<lambda>l. part_win_node l n)"

fun build_relvar :: "g_relvar \<Rightarrow> (parser_state, node) comp" where
  "build_relvar (GRelVar rel None var) = rel_var_node rel var None"
| "build_relvar (GRelVar rel (Some w) var) =
    bindM (build_window w) (\<lambda>n. rel_var_node rel var (Some n))"

fun build_cond :: "g_cond \<Rightarrow> (parser_state, node) comp" where
  "build_cond (GCond op l r) =
    bindM (build_expr l) (\<lambda>nl. bindM (build_expr r) (\<lambda>nr. condn_node op nl nr))"

definition build_sfw :: "g_sfw \<Rightarrow> (parser_state, node) comp" where
  "build_sfw g =
    bindM (build_opt build_projterm (gProj g)) (\<lambda>terms.
    bindM (select_clause_node (gDistinct g) terms) (\<lambda>sel.
    bindM (build_list build_relvar (gRels g)) (\<lambda>rels.
    bindM (build_opt build_cond (gConds g)) (\<lambda>conds.
    bindM (build_opt build_attr (gGroups g)) (\<lambda>groups.
    sfw_block_node sel rels conds groups)))))"

fun build_binary :: "g_binary \<Rightarrow> (parser_state, node) comp" where
  "build_binary (GB_UNION l r) = union_node l r"
| "build_binary (GB_EXCEPT l r) = except_node l r"

fun build_xstream :: "rel2str_op option \<Rightarrow> (parser_state, node option) comp" where
  "build_xstream None = retM None"
| "build_xstream (Some PX_ISTREAM) = bindM istream_node (\<lambda>n. retM (Some n))"
| "build_xstream (Some PX_DSTREAM) = bindM dstream_node (\<lambda>n. retM (Some n))"
| "build_xstream (Some PX_RSTREAM) = bindM rstream_node (\<lambda>n. retM (Some n))"

fun build_query :: "g_query \<Rightarrow> (parser_state, node) comp" where
  "build_query (GQ_SFW x g) =
    bindM (build_xstream x) (\<lambda>r2s. bindM (build_sfw g) (\<lambda>n. sfw_cont_query_node n r2s))"
| "build_query (GQ_BIN x b) =
    bindM (build_xstream x) (\<lambda>r2s. bindM (build_binary b) (\<lambda>n. bin_cont_query_node n r2s))"

fun build_attrspec :: "g_attrspec \<Rightarrow> (parser_state, node) comp" where
  "build_attrspec (GAttrSpec a T_INT len) = int_attr_spec_node a"
| "build_attrspec (GAttrSpec a T_FLOAT len) = float_attr_spec_node a"
| "build_attrspec (GAttrSpec a T_BYTE len) = byte_attr_spec_node a"
| "build_attrspec (GAttrSpec a T_CHAR len) = char_attr_spec_node a len"

fun build_command :: "g_command \<Rightarrow> (parser_state, node) comp" where
  "build_command (GC_QUERY q) = build_query q"
| "build_command (GC_STREAM s as) = bindM (build_list build_attrspec as) (str_spec_node s)"
| "build_command (GC_RELATION r as) = bindM (build_list build_attrspec as) (rel_spec_node r)"

text \<open>\<open>parseCommand\<close> on a text that derives from \<open>c\<close>.\<close>

definition parseCommand :: "g_command \<Rightarrow> (parser_state, node) comp" where
  "parseCommand c = seqM reset_charptr (seqM init_parser (build_command c))"

section \<open>Derivable commands\<close>

text \<open>
  What the productions and the scanner guarantee: the lists of the productions that need an element
  are not empty, there is no byte constant, and a number is not negative.
\<close>

fun g_expr_ok :: "g_expr \<Rightarrow> bool" where
  "g_expr_ok (GE_CONST (BVal b)) = False"
| "g_expr_ok (GE_ARITH op l r) = (g_expr_ok l \<and> g_expr_ok r)"
| "g_expr_ok _ = True"

fun g_projterm_ok :: "g_projterm \<Rightarrow> bool" where
  "g_projterm_ok (GP_EXPR e) = g_expr_ok e"
| "g_projterm_ok _ = True"

fun g_window_ok :: "g_window \<Rightarrow> bool" where
  "g_window_ok (GW_RANGE u len) = (0 \<le> len)"
| "g_window_ok (GW_PARTITION as n) = (as \<noteq> [])"
| "g_window_ok _ = True"

fun g_relvar_ok :: "g_relvar \<Rightarrow> bool" where
  "g_relvar_ok (GRelVar rel w var) = (case w of None \<Rightarrow> True | Some w \<Rightarrow> g_window_ok w)"

fun g_cond_ok :: "g_cond \<Rightarrow> bool" where
  "g_cond_ok (GCond op l r) = (g_expr_ok l \<and> g_expr_ok r)"

definition g_sfw_ok :: "g_sfw \<Rightarrow> bool" where
  "g_sfw_ok g \<longleftrightarrow> list_all g_projterm_ok (gProj g) \<and> gRels g \<noteq> [] \<and>
     list_all g_relvar_ok (gRels g) \<and> list_all g_cond_ok (gConds g)"

fun g_query_ok :: "g_query \<Rightarrow> bool" where
  "g_query_ok (GQ_SFW x g) = g_sfw_ok g"
| "g_query_ok (GQ_BIN x b) = True"

fun g_command_ok :: "g_command \<Rightarrow> bool" where
  "g_command_ok (GC_QUERY q) = g_query_ok q"
| "g_command_ok (GC_STREAM s as) = (as \<noteq> [])"
| "g_command_ok (GC_RELATION r as) = (as \<noteq> [])"

text \<open>
  What the grammar does not guarantee: that the length of every range window, in seconds, fits into
  an \<open>int\<close>.
\<close>

fun range_fits :: "g_window \<Rightarrow> bool" where
  "range_fits (GW_RANGE u len) = (len * unit_seconds u < 2 ^ 31)"
| "range_fits _ = True"

fun relvar_fits :: "g_relvar \<Rightarrow> bool" where
  "relvar_fits (GRelVar rel w var) = (case w of None \<Rightarrow> True | Some w \<Rightarrow> range_fits w)"

fun ranges_fit :: "g_query \<Rightarrow> bool" where
  "ranges_fit (GQ_SFW x g) = list_all relvar_fits (gRels g)"
| "ranges_fit (GQ_BIN x b) = True"

fun command_fits :: "g_command \<Rightarrow> bool" where
  "command_fits (GC_QUERY q) = ranges_fit q"
| "command_fits _ = True"

section \<open>Trees\<close>

text \<open>The tree of a derivation, as a function of it; a list is a chain of \<open>N_LIST\<close> nodes.\<close>

definition chain :: "node list \<Rightarrow> node option" where
  "chain ns = foldr (\<lambda>n l. Some (N_LIST n l)) ns None"

lemma chain_simps [simp]: "chain [] = None" "chain (n # ns) = Some (N_LIST n (chain ns))"
  by (simp_all add: chain_def)

lemma chain_list [simp]:
  "list_elems (chain ns) = ns" "is_list (chain ns)"
  "node_count_opt (chain ns) = sum_list (map node_count ns) + length ns"
  by (induction ns) simp_all

lemma chain_some: "ns \<noteq> [] \<Longrightarrow> Some (the (chain ns)) = chain ns"
  by (cases ns) simp_all

lemma chain_the: "ns \<noteq> [] \<Longrightarrow> node_count (the (chain ns)) = sum_list (map node_count ns) + length ns"
  by (cases ns) simp_all

fun tree_attr :: "g_attr \<Rightarrow> node" where
  "tree_attr (GAttr v a) = N_ATTR_REF v a"

fun tree_expr :: "g_expr \<Rightarrow> node" where
  "tree_expr (GE_ATTR a) = tree_attr a"
| "tree_expr (GE_CONST c) = N_CONST_VAL c"
| "tree_expr (GE_ARITH op l r) = N_ARITH_EXPR op (tree_expr l) (tree_expr r)"

fun tree_projterm :: "g_projterm \<Rightarrow> node" where
  "tree_projterm (GP_EXPR e) = tree_expr e"
| "tree_projterm (GP_AGGR fn a) = N_AGGR_EXPR fn (Some (tree_attr a))"
| "tree_projterm GP_COUNT_STAR = N_AGGR_EXPR F_COUNT None"

fun tree_window :: "g_window \<Rightarrow> node" where
  "tree_window (GW_RANGE u len) = N_WINDOW_SPEC W_RANGE 0 (Some (N_TIME_SPEC u len)) None"
| "tree_window GW_NOW = N_WINDOW_SPEC W_NOW 0 None None"
| "tree_window (GW_ROWS n) = N_WINDOW_SPEC W_ROW n None None"
| "tree_window GW_UNBOUNDED = N_WINDOW_SPEC W_UNBOUNDED 0 None None"
| "tree_window (GW_PARTITION as n) = N_WINDOW_SPEC W_PARTITION n None (chain (map tree_attr as))"

fun tree_relvar :: "g_relvar \<Rightarrow> node" where
  "tree_relvar (GRelVar rel w var) = N_REL_VAR rel var (map_option tree_window w)"

fun tree_cond :: "g_cond \<Rightarrow> node" where
  "tree_cond (GCond op l r) = N_CONDN op (tree_expr l) (tree_expr r)"

definition tree_sfw :: "g_sfw \<Rightarrow> node" where
  "tree_sfw g = N_SFW_BLOCK (N_SELECT_CLAUSE (gDistinct g) (chain (map tree_projterm (gProj g))))
     (the (chain (map tree_relvar (gRels g)))) (chain (map tree_cond (gConds g)))
     (chain (map tree_attr (gGroups g)))"

fun tree_binary :: "g_binary \<Rightarrow> node" where
  "tree_binary (GB_UNION l r) = N_UNION l r"
| "tree_binary (GB_EXCEPT l r) = N_EXCEPT l r"

fun tree_query :: "g_query \<Rightarrow> node" where
  "tree_query (GQ_SFW x g) = N_CONT_QUERY (Some (tree_sfw g)) None (map_option N_XSTREAM x)"
| "tree_query (GQ_BIN x b) = N_CONT_QUERY None (Some (tree_binary b)) (map_option N_XSTREAM x)"

fun tree_attrspec :: "g_attrspec \<Rightarrow> node" where
  "tree_attrspec (GAttrSpec a t len) = N_ATTR_SPEC a t (if t = T_CHAR then uint_of len else 0)"

fun tree_command :: "g_command \<Rightarrow> node" where
  "tree_command (GC_QUERY q) = tree_query q"
| "tree_command (GC_STREAM s as) = N_STR_SPEC s (the (chain (map tree_attrspec as)))"
| "tree_command (GC_RELATION r as) = N_REL_SPEC r (the (chain (map tree_attrspec as)))"

section \<open>Allocation\<close>

text \<open>
  \<open>builds c P m\<close>: \<open>m\<close> allocates \<open>c\<close> nodes for a value with \<open>P\<close>, and ends the process if the
  pool has fewer.
\<close>

definition builds :: "nat \<Rightarrow> ('a \<Rightarrow> bool) \<Rightarrow> (parser_state, 'a) comp \<Rightarrow> bool" where
  "builds c P m \<longleftrightarrow> (\<forall>p. nodeptr p \<le> MAXNODE \<longrightarrow>
     (if nodeptr p + c \<le> MAXNODE then \<exists>n. m p = Done n (p\<lparr>nodeptr := nodeptr p + c\<rparr>) \<and> P n
      else m p = Exit 1))"

lemma builds_node: "P n \<Longrightarrow> builds 1 P (mk_node n)"
  by (auto simp: builds_def mk_node_def newnode_def comp_defs)

lemma builds_ret: "P n \<Longrightarrow> builds 0 P (retM n)"
  by (auto simp: builds_def retM_def)

lemma builds_bind:
  assumes "builds c P m" and "\<And>n. P n \<Longrightarrow> builds d R (f n)" and "e = c + d"
  shows "builds e R (bindM m f)"
  unfolding builds_def
proof (intro allI impI)
  fix p :: parser_state assume p: "nodeptr p \<le> MAXNODE"
  show "if nodeptr p + e \<le> MAXNODE
      then \<exists>n. bindM m f p = Done n (p\<lparr>nodeptr := nodeptr p + e\<rparr>) \<and> R n
      else bindM m f p = Exit 1"
  proof (cases "nodeptr p + c \<le> MAXNODE")
    case True
    let ?p = "p\<lparr>nodeptr := nodeptr p + c\<rparr>"
    obtain n where n: "m p = Done n ?p" "P n"
      using assms(1) [unfolded builds_def, rule_format, OF p] True by auto
    then have "if nodeptr ?p + d \<le> MAXNODE
        then \<exists>x. f n ?p = Done x (?p\<lparr>nodeptr := nodeptr ?p + d\<rparr>) \<and> R x else f n ?p = Exit 1"
      using assms(2) [OF n(2), unfolded builds_def, rule_format, of ?p] True by simp
    then show ?thesis using n(1) assms(3) by (auto simp: bindM_def add.assoc split: if_split_asm)
  next
    case False
    then have "m p = Exit 1" using assms(1) [unfolded builds_def, rule_format, OF p] by simp
    then show ?thesis using False assms(3) by (simp add: bindM_def)
  qed
qed

section \<open>What the actions build\<close>

text \<open>\<open>m\<close> builds the tree \<open>t\<close>, a node of the pool for each of its nodes.\<close>

abbreviation makes :: "node \<Rightarrow> (parser_state, node) comp \<Rightarrow> bool" where
  "makes t \<equiv> builds (node_count t) (\<lambda>n. n = t)"

abbreviation makes_opt :: "node option \<Rightarrow> (parser_state, node option) comp \<Rightarrow> bool" where
  "makes_opt l \<equiv> builds (node_count_opt l) (\<lambda>n. n = l)"

lemma makes_one: "builds (Suc 0) (\<lambda>n. n = t) (mk_node t)"
  using builds_node [of "\<lambda>n. n = t" t] by simp

lemma makes_node: "node_count t = 1 \<Longrightarrow> makes t (mk_node t)"
  by (simp add: makes_one)

lemma makes_bind:
  assumes "builds c (\<lambda>x. x = l) m" and "builds d (\<lambda>n. n = t) (f l)" and "e = c + d"
  shows "builds e (\<lambda>n. n = t) (bindM m f)"
  by (rule builds_bind [OF assms(1) _ assms(3)]) (simp add: assms(2))

lemma makes_some: "makes t m \<Longrightarrow> makes_opt (Some t) (bindM m (\<lambda>n. retM (Some n)))"
  by (rule makes_bind [OF _ builds_ret]) simp_all

lemma build_list_makes:
  assumes "xs \<noteq> []" and "\<And>x. x \<in> set xs \<Longrightarrow> makes (g x) (f x)"
  shows "makes (the (chain (map g xs))) (build_list f xs)"
  using assms
proof (induction f xs rule: build_list.induct)
  case (2 f x)
  then show ?case by (auto simp: list_node_def intro!: makes_bind [where l = "g x"] makes_one)
next
  case (3 f x y ys)
  let ?l = "the (chain (map g (y # ys)))"
  have x: "makes (g x) (f x)" using 3(3) by simp
  have l: "makes ?l (build_list f (y # ys))" using 3(3) by (intro 3(1)) auto
  show ?case
    unfolding build_list.simps prepend_def
    by (rule makes_bind [OF x], rule makes_bind [OF l]) (simp_all add: makes_one)
qed simp

lemma build_opt_makes:
  assumes "\<And>x. x \<in> set xs \<Longrightarrow> makes (g x) (f x)"
  shows "makes_opt (chain (map g xs)) (build_opt f xs)"
proof (cases "xs = []")
  case False
  then have "makes_opt (Some (the (chain (map g xs)))) (build_opt f xs)"
    using makes_some [OF build_list_makes [OF False assms]] by (simp add: build_opt_def)
  then show ?thesis using False by (simp add: chain_some)
qed (simp add: build_opt_def builds_ret)

lemma build_attr_makes: "makes (tree_attr a) (build_attr a)"
  by (cases a) (simp add: attr_ref_node_def makes_one)

lemma build_expr_makes: "g_expr_ok e \<Longrightarrow> makes (tree_expr e) (build_expr e)"
proof (induction e)
  case (GE_CONST c)
  then show ?case
    by (cases c) (simp_all add: int_val_node_def flt_val_node_def str_val_node_def makes_one)
next
  case (GE_ARITH op l r)
  then show ?case
    by (auto simp: arith_expr_node_def intro!: makes_bind [OF GE_ARITH.IH(1)] makes_bind [OF GE_ARITH.IH(2)] makes_one)
qed (simp add: build_attr_makes)

lemma build_projterm_makes: "g_projterm_ok e \<Longrightarrow> makes (tree_projterm e) (build_projterm e)"
  by (induction e rule: build_projterm.induct)
    (auto simp: build_expr_makes aggr_expr_node_def intro!: makes_bind [OF build_attr_makes] makes_one)

lemma build_window_makes: "g_window_ok w \<Longrightarrow> makes (tree_window w) (build_window w)"
proof (induction w rule: build_window.induct)
  case (1 u len)
  then show ?case
    by (auto simp: time_spec_node_def time_win_node_def intro!: makes_bind [OF makes_node] makes_one)
next
  case (5 as n)
  then have "makes (the (chain (map tree_attr as))) (build_list build_attr as)"
    by (intro build_list_makes build_attr_makes) simp
  then have "builds (node_count (the (chain (map tree_attr as))) + Suc 0) (\<lambda>t. t = tree_window (GW_PARTITION as n))
      (build_window (GW_PARTITION as n))"
    unfolding build_window.simps
    by (rule makes_bind) (use 5 in \<open>simp_all add: part_win_node_def chain_some makes_one\<close>)
  then show ?case using 5 by (simp add: chain_the)
qed (auto simp: now_win_node_def row_win_node_def unbounded_win_node_def intro!: makes_one)

lemma build_relvar_makes: "g_relvar_ok r \<Longrightarrow> makes (tree_relvar r) (build_relvar r)"
  by (induction r rule: build_relvar.induct)
    (auto simp: rel_var_node_def intro!: makes_bind [OF build_window_makes] makes_one)

lemma build_cond_makes: "g_cond_ok b \<Longrightarrow> makes (tree_cond b) (build_cond b)"
  by (induction b rule: build_cond.induct)
    (auto simp: condn_node_def intro!: makes_bind [OF build_expr_makes] makes_one)

lemma build_sfw_makes:
  assumes "g_sfw_ok g"
  shows "makes (tree_sfw g) (build_sfw g)"
proof -
  have ok: "\<And>x. x \<in> set (gProj g) \<Longrightarrow> g_projterm_ok x" "gRels g \<noteq> []"
      "\<And>x. x \<in> set (gRels g) \<Longrightarrow> g_relvar_ok x" "\<And>x. x \<in> set (gConds g) \<Longrightarrow> g_cond_ok x"
    using assms by (auto simp: g_sfw_ok_def list_all_iff)
  show ?thesis
    unfolding build_sfw_def select_clause_node_def
    by (rule makes_bind [OF build_opt_makes [OF build_projterm_makes [OF ok(1)]]], assumption,
        rule makes_bind [OF builds_node [OF refl]],
        rule makes_bind [OF build_list_makes [OF ok(2) build_relvar_makes [OF ok(3)]]], assumption,
        rule makes_bind [OF build_opt_makes [OF build_cond_makes [OF ok(4)]]], assumption,
        rule makes_bind [OF build_opt_makes [OF build_attr_makes]])
      (auto simp: sfw_block_node_def tree_sfw_def intro!: makes_one)
qed

lemma build_xstream_makes: "makes_opt (map_option N_XSTREAM x) (build_xstream x)"
  by (cases x rule: build_xstream.cases)
    (auto simp: istream_node_def dstream_node_def rstream_node_def builds_ret
      intro!: makes_bind [OF makes_node builds_ret])

lemma build_query_makes:
  assumes "g_query_ok q"
  shows "makes (tree_query q) (build_query q)"
proof (cases q)
  case (GQ_SFW x g)
  then show ?thesis
    using assms by (auto simp: sfw_cont_query_node_def
      intro!: makes_bind [OF build_xstream_makes] makes_bind [OF build_sfw_makes] makes_one)
next
  case (GQ_BIN x b)
  have "makes (tree_binary b) (build_binary b)"
    by (cases b) (simp_all add: union_node_def except_node_def makes_one)
  then show ?thesis
    using GQ_BIN by (auto simp: bin_cont_query_node_def
      intro!: makes_bind [OF build_xstream_makes] makes_bind [where l = "tree_binary b"] makes_one)
qed

lemma build_attrspec_makes: "makes (tree_attrspec a) (build_attrspec a)"
  by (cases a rule: build_attrspec.cases)
    (auto simp: int_attr_spec_node_def float_attr_spec_node_def byte_attr_spec_node_def
      char_attr_spec_node_def intro!: makes_one)

lemma build_command_makes:
  assumes "g_command_ok c"
  shows "makes (tree_command c) (build_command c)"
  using assms
  by (cases c) (auto simp: build_query_makes str_spec_node_def rel_spec_node_def
    intro!: makes_bind [OF build_list_makes [OF _ build_attrspec_makes]] makes_one)

lemma parseCommand_makes:
  assumes "g_command_ok c"
  shows "parseCommand c p = (if node_count (tree_command c) \<le> MAXNODE
    then Done (tree_command c) (p\<lparr>nodeptr := node_count (tree_command c), charptr := 0\<rparr>) else Exit 1)"
proof -
  have "parseCommand c p = build_command c (p\<lparr>nodeptr := 0, charptr := 0\<rparr>)"
    by (simp add: parseCommand_def reset_charptr_def init_parser_def comp_defs)
  moreover have "p\<lparr>nodeptr := 0, charptr := 0, nodeptr := k\<rparr> = p\<lparr>nodeptr := k, charptr := 0\<rparr>" for k
    by (cases p) simp
  ultimately show ?thesis
    using build_command_makes [OF assms, unfolded builds_def, rule_format,
        of "p\<lparr>nodeptr := 0, charptr := 0\<rparr>"]
    by (auto split: if_split_asm)
qed

section \<open>The shape of the trees\<close>

text \<open>The tree of a declaration: a name and a list of attribute specifications.\<close>

fun is_attrspec :: "node \<Rightarrow> bool" where
  "is_attrspec (N_ATTR_SPEC a t l) = True"
| "is_attrspec _ = False"

fun wf_command :: "node \<Rightarrow> bool" where
  "wf_command (N_STR_SPEC s l) = (is_list (Some l) \<and> list_all is_attrspec (list_elems (Some l)))"
| "wf_command (N_REL_SPEC s l) = (is_list (Some l) \<and> list_all is_attrspec (list_elems (Some l)))"
| "wf_command n = wf_query n"

lemma wf_query_command: "wf_query n \<Longrightarrow> wf_command n"
  by (cases n) auto

lemma tree_attr_wf: "wf_attr (tree_attr a)"
  by (cases a) simp

lemma tree_expr_wf: "wf_expr (tree_expr e)"
proof (induction e)
  case (GE_ATTR a)
  then show ?case by (cases a) simp
qed simp_all

lemma tree_projterm_wf: "wf_expr (tree_projterm e)"
  by (cases e) (simp_all add: tree_expr_wf tree_attr_wf)

lemma tree_window_wf: "g_window_ok w \<Longrightarrow> wf_win (tree_window w) = range_fits w"
  by (cases w) (simp_all add: tree_attr_wf list_all_iff)

lemma tree_relvar_wf: "g_relvar_ok r \<Longrightarrow> wf_rel (tree_relvar r) = relvar_fits r"
  by (cases r) (simp add: tree_window_wf split: option.splits)

lemma tree_cond_wf: "wf_cond (tree_cond b)"
  by (cases b) (simp add: tree_expr_wf)

lemma tree_sfw_wf: "g_sfw_ok g \<Longrightarrow> wf_sfw (tree_sfw g) = list_all relvar_fits (gRels g)"
  by (auto simp: tree_sfw_def g_sfw_ok_def chain_some list_all_iff tree_projterm_wf tree_cond_wf tree_attr_wf
    tree_relvar_wf)

lemma tree_query_wf:
  assumes "g_query_ok q"
  shows "wf_query (tree_query q) = ranges_fit q"
proof (cases q)
  case (GQ_BIN x b)
  then show ?thesis by (cases b; cases x) simp_all
next
  case (GQ_SFW x g)
  then show ?thesis using assms by (cases x) (simp_all add: tree_sfw_wf)
qed

lemma tree_command_wf:
  assumes "g_command_ok c"
  shows "wf_command (tree_command c) = command_fits c"
proof (cases c)
  case (GC_QUERY q)
  then have "wf_command (tree_command c) = wf_query (tree_query q)" by (cases q) simp_all
  then show ?thesis using assms GC_QUERY by (simp add: tree_query_wf)
next
  case (GC_STREAM s as)
  moreover have "is_attrspec (tree_attrspec a)" for a by (cases a) simp
  ultimately show ?thesis using assms by (simp add: chain_some list_all_iff)
next
  case (GC_RELATION s as)
  moreover have "is_attrspec (tree_attrspec a)" for a by (cases a) simp
  ultimately show ?thesis using assms by (simp add: chain_some list_all_iff)
qed

text \<open>What every reader of a parse relies on.\<close>

lemma parseCommand_wf:
  assumes "g_command_ok c" and "parseCommand c p = Done t p'"
  shows "wf_command t = command_fits c \<and> node_count t \<le> MAXNODE"
  using assms by (auto simp: parseCommand_makes tree_command_wf split: if_split_asm)

lemma parseQuery_wf:
  assumes "g_query_ok g" and "ranges_fit g" and "parseCommand (GC_QUERY g) p = Done t p'"
  shows "wf_query t \<and> node_count t \<le> MAXNODE"
proof -
  have "g_command_ok (GC_QUERY g)" using assms(1) by simp
  then show ?thesis
    using assms by (auto simp: parseCommand_makes [of "GC_QUERY g"] tree_query_wf split: if_split_asm)
qed

end
