(* ===== verification/Parser_Spec.thy ===== *)
theory Parser_Spec
  imports Grammar
begin

text \<open>
  What the scanner's helpers and the actions of the grammar promise: reserved words whatever
  their case, and for every derivable command its parse tree, whose size is the number of nodes
  taken from the pool.
\<close>

section \<open>Scanner\<close>

text \<open>Identifiers are classified without regard to case: of two short identifiers that differ
  only in case, one is a reserved word iff the other is, and then both yield the same token; any
  other identifier yields a string token with its own spelling.\<close>
theorem get_id_ignores_case:
  assumes "length s < MAXSTRINGLEN" and "map lower_char s = map lower_char s'"
    and "get_id s p = Done tok q" and "charptr p + length s' + 1 \<le> MAXCHAR"
  shows "if tok = T_STRING s then get_id s' p = Done (T_STRING s') q
    else get_id s' p = Done tok q \<and> q = p \<and> (map lower_char s, tok) \<in> set reserved_words"
proof -
  have len: "length s = length s'" using assms(2) by (metis length_map)
  then have "get_id s p = (case map_of reserved_words (map lower_char s) of
      Some tok \<Rightarrow> Done tok p
    | None \<Rightarrow> Done (T_STRING s) (p\<lparr>charptr := charptr p + length s' + 1\<rparr>))"
    and "get_id s' p = (case map_of reserved_words (map lower_char s) of
      Some tok \<Rightarrow> Done tok p
    | None \<Rightarrow> Done (T_STRING s') (p\<lparr>charptr := charptr p + length s' + 1\<rparr>))"
    using assms(1,2,4) get_id_short [of s p, unfolded len] get_id_short [of s' p] len by simp_all
  moreover have "(w, T_STRING x) \<notin> set reserved_words" for w x
    by (simp add: reserved_words_def)
  ultimately show ?thesis
    using assms(3) by (auto split: option.splits dest: map_of_SomeD)
qed

theorem get_id_ignores_case_witness:
  "get_id ''SELECT'' \<lparr>nodeptr = 0, charptr = 0\<rparr> = Done RW_SELECT \<lparr>nodeptr = 0, charptr = 0\<rparr>"
proof -
  have "get_id ''Select'' \<lparr>nodeptr = 0, charptr = 0\<rparr> = Done RW_SELECT \<lparr>nodeptr = 0, charptr = 0\<rparr>"
    by code_simp
  moreover have "map lower_char ''Select'' = map lower_char ''SELECT''" by code_simp
  ultimately show ?thesis
    using get_id_ignores_case [of "''Select''" "''SELECT''" "\<lparr>nodeptr = 0, charptr = 0\<rparr>"]
    by (simp add: MAXSTRINGLEN_def MAXCHAR_def)
qed

text \<open>C19: An identifier of \<open>MAXSTRINGLEN\<close> characters or more is not answered with \<open>NOTOKEN\<close>, as the
  comment of \<open>get_id\<close> says: \<open>lower\<close> stores its NUL behind the end of the static buffer first.\<close>
theorem get_id_overflows:
  assumes "MAXSTRINGLEN \<le> length s"
  shows "get_id s p = Undef"
  using assms by (rule get_id_long)

theorem get_id_overflows_witness:
  "get_id (replicate 256 (CHR ''a'')) \<lparr>nodeptr = 0, charptr = 0\<rparr> = Undef"
  by (rule get_id_overflows) (simp add: MAXSTRINGLEN_def)

section \<open>Parse trees\<close>

text \<open>C8: Whatever the state in which an earlier parse left the pools, the parse of a command that the
  grammar derives builds exactly the tree of its derivation and takes as many nodes from the pool
  as the tree has; a command that needs more than \<open>MAXNODE\<close> nodes ends the process (the comment of
  \<open>newnode\<close> announces a null pointer).  The tree has the shape that the interpreter relies on
  iff the length of every range window of the command, in seconds, fits into an \<open>int\<close>: the
  parser does not check that.\<close>
theorem parse_builds_tree:
  assumes "g_command_ok c"
  shows "parseCommand c p =
      (if node_count (tree_command c) \<le> MAXNODE
       then Done (tree_command c) (p\<lparr>nodeptr := node_count (tree_command c), charptr := 0\<rparr>) else Exit 1) \<and>
    wf_command (tree_command c) = command_fits c"
  by (intro conjI parseCommand_makes tree_command_wf assms)

text \<open>A query with as many tables as the pool allows, one with a table more, and a window of 30000 days.\<close>

theorem parse_builds_tree_witness:
  "let sel = (\<lambda>n w. GC_QUERY (GQ_SFW None \<lparr>gDistinct = False, gProj = [],
       gRels = replicate n (GRelVar ''S'' w None), gConds = [], gGroups = []\<rparr>));
     p = \<lparr>nodeptr = 3, charptr = 9\<rparr>
   in parseCommand (sel 48 None) p = Done (tree_command (sel 48 None)) \<lparr>nodeptr = 99, charptr = 0\<rparr> \<and>
      parseCommand (sel 49 None) p = Exit 1 \<and>
      (\<exists>t q. parseCommand (sel 1 (Some (GW_RANGE DAY 30000))) p = Done t q \<and> \<not> wf_command t)"
proof -
  let ?s = "\<lambda>n w. GC_QUERY (GQ_SFW None \<lparr>gDistinct = False, gProj = [],
       gRels = replicate n (GRelVar ''S'' w None), gConds = [], gGroups = []\<rparr>)"
  let ?p = "\<lparr>nodeptr = 3, charptr = 9\<rparr>"
  have n: "node_count (tree_command (?s n None)) = 2 * n + 3" if "0 < n" for n
    using that by (simp add: tree_sfw_def chain_the sum_list_replicate)
  have ok: "g_command_ok (?s n w)" if "0 < n" "\<forall>x. w = Some x \<longrightarrow> g_window_ok x" for n w
    using that by (simp add: g_sfw_ok_def list_all_iff split: option.split)
  have "node_count (tree_command (?s 1 (Some (GW_RANGE DAY 30000)))) = 7" by (simp add: tree_sfw_def)
  moreover have "\<not> command_fits (?s 1 (Some (GW_RANGE DAY 30000)))" by (simp add: unit_seconds_def)
  ultimately show ?thesis
    unfolding Let_def
    using parse_builds_tree [OF ok, of 48 None ?p] parse_builds_tree [OF ok, of 49 None ?p]
      parse_builds_tree [OF ok, of 1 "Some (GW_RANGE DAY 30000)" ?p] n [of 48] n [of 49]
    by (simp add: MAXNODE_def del: tree_command.simps command_fits.simps g_command_ok.simps)
qed

end
