(* ===== verification/Script_Reader.thy ===== *)
theory Script_Reader
  imports P3_Base
begin

text \<open>
  \<open>src/script_file_reader.cc\<close>: the reader of script files, which returns the commands of a script
  one after another.

  The file stream of the standard library is modelled by the characters that are still to be read
  and the flags \<open>eofbit\<close> and \<open>failbit\<close>; \<open>isspace\<close> and \<open>isalpha\<close> are those of the C locale, false for
  all characters beyond ASCII.  The line buffer is kept as the C string that it holds: it ends at the first NUL.
\<close>

section \<open>Characters\<close>

definition isspace :: "char \<Rightarrow> bool" where
  "isspace c \<longleftrightarrow> c = CHR '' '' \<or> 9 \<le> (of_char c :: nat) \<and> (of_char c :: nat) \<le> 13"

definition isalpha :: "char \<Rightarrow> bool" where
  "isalpha c \<longleftrightarrow> 65 \<le> (of_char c :: nat) \<and> (of_char c :: nat) \<le> 90 \<or> 97 \<le> (of_char c :: nat) \<and> (of_char c :: nat) \<le> 122"

definition isdigit :: "char \<Rightarrow> bool" where
  "isdigit c \<longleftrightarrow> 48 \<le> (of_char c :: nat) \<and> (of_char c :: nat) \<le> 57"

definition NUL :: char where "NUL = CHR 0x00"
definition NEWLINE :: char where "NEWLINE = CHR 0x0A"

definition cstring :: "string \<Rightarrow> string" where
  "cstring xs = takeWhile (\<lambda>c. c \<noteq> NUL) xs"

text \<open>\<open>strncmp(s, t, n) == 0\<close>.\<close>

fun strncmp_eq :: "string \<Rightarrow> string \<Rightarrow> nat \<Rightarrow> bool" where
  "strncmp_eq s t 0 \<longleftrightarrow> True"
| "strncmp_eq [] [] (Suc n) \<longleftrightarrow> True"
| "strncmp_eq (c # s) (d # t) (Suc n) \<longleftrightarrow> c = d \<and> strncmp_eq s t n"
| "strncmp_eq s t (Suc n) \<longleftrightarrow> False"

text \<open>\<open>atoi\<close>: undefined when the value is not an \<open>int\<close>.\<close>

definition digits_value :: "string \<Rightarrow> int" where
  "digits_value ds = foldl (\<lambda>v d. 10 * v + (of_char d - 48)) 0 ds"

definition atoi :: "string \<Rightarrow> ('s, int) comp" where
  "atoi s =
    (let t = dropWhile isspace s;
         u = (if t \<noteq> [] \<and> (hd t = CHR ''-'' \<or> hd t = CHR ''+'') then tl t else t);
         v = digits_value (takeWhile isdigit u);
         r = (if t \<noteq> [] \<and> hd t = CHR ''-'' then - v else v)
     in seqM (ensureM (- (2 ^ 31) \<le> r \<and> r < 2 ^ 31)) (retM r))"

section \<open>State\<close>

definition LINE_BUFFER_SIZE :: nat where "LINE_BUFFER_SIZE = 8192"

datatype command_type = CT_TABLE | CT_SOURCE | CT_QUERY | CT_DEST | CT_VQUERY | CT_VTABLE | CT_QCLASS

text \<open>A command; its length is the length of \<open>cmdDesc\<close>.\<close>

record script_command =
  cmdLineNo :: "32 word"
  cmdType :: command_type
  cmdDesc :: string

record script_reader =
  rdInput :: string                 \<comment> \<open>what is left of the file\<close>
  rdEof :: bool
  rdFail :: bool
  rdLineNo :: "32 word"
  lineBuffer :: string

text \<open>The constructor: \<open>None\<close> is a file that cannot be opened.\<close>

definition openScript :: "string option \<Rightarrow> script_reader" where
  "openScript file = \<lparr>rdInput = (case file of None \<Rightarrow> [] | Some t \<Rightarrow> t), rdEof = False, rdFail = (file = None),
     rdLineNo = 0, lineBuffer = []\<rparr>"

definition rdGood :: "script_reader \<Rightarrow> bool" where
  "rdGood r \<longleftrightarrow> \<not> rdEof r \<and> \<not> rdFail r"

section \<open>Lines\<close>

text \<open>
  \<open>istream::getline(buf, k + 1)\<close>: the characters stored, those left, and whether the end of the
  file was met or the buffer was full before the line ended.
\<close>

fun take_line :: "nat \<Rightarrow> string \<Rightarrow> string \<times> string \<times> bool \<times> bool" where
  "take_line k [] = ([], [], True, False)"
| "take_line k (c # cs) =
    (if c = NEWLINE then ([], cs, False, False)
     else if k = 0 then ([], c # cs, False, True)
     else let (line, rest, eof, full) = take_line (k - 1) cs in (c # line, rest, eof, full))"

definition getline :: "nat \<Rightarrow> (script_reader, unit) comp" where
  "getline n = modM (\<lambda>r.
     let (line, rest, eof, full) = take_line (n - 1) (rdInput r)
     in r\<lparr>rdInput := rest, rdEof := eof, rdFail := full \<or> (eof \<and> line = []), lineBuffer := cstring line\<rparr>)"

definition isEmptyLine :: "string \<Rightarrow> bool" where
  "isEmptyLine line \<longleftrightarrow> list_all isspace line"

definition isCommentLine :: "string \<Rightarrow> bool" where
  "isCommentLine line \<longleftrightarrow> line \<noteq> [] \<and> hd line = CHR ''#''"

section \<open>Commands\<close>

definition TABLE_COMMAND :: string where "TABLE_COMMAND = ''table''"
definition SOURCE_COMMAND :: string where "SOURCE_COMMAND = ''source''"
definition QUERY_COMMAND :: string where "QUERY_COMMAND = ''query''"
definition DEST_COMMAND :: string where "DEST_COMMAND = ''dest''"
definition VQUERY_COMMAND :: string where "VQUERY_COMMAND = ''vquery''"
definition VTABLE_COMMAND :: string where "VTABLE_COMMAND = ''vtable''"
definition Q_CLASSES_COMMAND :: string where "Q_CLASSES_COMMAND = ''qclass''"

lemmas command_words = TABLE_COMMAND_def SOURCE_COMMAND_def QUERY_COMMAND_def DEST_COMMAND_def
  VQUERY_COMMAND_def VTABLE_COMMAND_def Q_CLASSES_COMMAND_def

definition parseLine :: "string \<Rightarrow> (script_reader, script_command) comp" where
  "parseLine line =
    (let begin_ptr = dropWhile isspace line;
         n = length (takeWhile isalpha begin_ptr);
         ptr = drop n begin_ptr
     in
     if n = 0 then failM (- 1)
     else
       bindM
         (if strncmp_eq begin_ptr TABLE_COMMAND n then retM CT_TABLE
          else if strncmp_eq begin_ptr SOURCE_COMMAND n then retM CT_SOURCE
          else if strncmp_eq begin_ptr QUERY_COMMAND n then retM CT_QUERY
          else if strncmp_eq begin_ptr VQUERY_COMMAND n then retM CT_VQUERY
          else if strncmp_eq begin_ptr VTABLE_COMMAND n then retM CT_VTABLE
          else if strncmp_eq begin_ptr DEST_COMMAND n then retM CT_DEST
          else if strncmp_eq begin_ptr Q_CLASSES_COMMAND n then retM CT_QCLASS
          else failM (- 1)) (\<lambda>ty.
       let ptr = dropWhile isspace ptr in
       if ptr = [] \<or> hd ptr \<noteq> CHR '':'' then failM (- 1)
       else
         bindM (readM rdLineNo) (\<lambda>lineNo.
         retM \<lparr>cmdLineNo = lineNo, cmdType = ty, cmdDesc = dropWhile isspace (tl ptr)\<rparr>)))"

text \<open>
  The loop over the lines, with fuel: a line that is read while the stream is good takes at least
  one character or meets the end of the file.  At the end the command is null: \<open>None\<close>.
\<close>

primrec readLoop :: "nat \<Rightarrow> (script_reader, script_command option) comp" where
  "readLoop 0 = undefM"
| "readLoop (Suc fuel) =
    bindM (readM rdGood) (\<lambda>good.
    if good then
      seqM (getline LINE_BUFFER_SIZE)
      (seqM (modM (\<lambda>r. r\<lparr>rdLineNo := rdLineNo r + 1\<rparr>))
      (bindM (readM lineBuffer) (\<lambda>line.
       if isEmptyLine line \<or> isCommentLine line then readLoop fuel
       else bindM (parseLine line) (\<lambda>c. retM (Some c)))))
    else
      bindM (readM rdEof) (\<lambda>eof.
      if eof then retM None else failM (- 10)))"

definition getNextCommand :: "(script_reader, script_command option) comp" where
  "getNextCommand = bindM (readM (\<lambda>r. length (rdInput r))) (\<lambda>n. readLoop (n + 2))"

end
