(* ===== verification/Decimal_Text.thy ===== *)
theory Decimal_Text
  imports Script_Reader
begin

text \<open>
  Numbers as text: how the streams of the standard library print an integer in decimal, and that
  \<open>atoi\<close> and \<open>strtol\<close> read it back; lower case letters.
\<close>

text \<open>Decimal digits, as the stream prints an \<open>int\<close>.\<close>

fun digits :: "nat \<Rightarrow> string" where
  "digits n = (if n < 10 then [char_of (48 + n)] else digits (n div 10) @ [char_of (48 + n mod 10)])"

definition decimal :: "int \<Rightarrow> string" where
  "decimal i = (if i < 0 then ''-'' @ digits (nat (- i)) else digits (nat i))"

definition lower_char :: "char \<Rightarrow> char" where
  "lower_char c = (if 65 \<le> (of_char c :: nat) \<and> (of_char c :: nat) \<le> 90 then char_of (of_char c + 32 :: nat) else c)"

definition sign_len :: "string \<Rightarrow> nat" where
  "sign_len s = (if s \<noteq> [] \<and> (hd s = CHR ''-'' \<or> hd s = CHR ''+'') then 1 else 0)"

text \<open>\<open>strtol(s, &p, 10)\<close>: a \<open>long\<close> has 64 bits, a value outside it is replaced by the nearest one in it.\<close>

definition strtol :: "string \<Rightarrow> int \<times> string" where
  "strtol s =
    (let t = dropWhile isspace s; n = sign_len t; ds = takeWhile isdigit (drop n t);
         v = (if n = 1 \<and> hd t = CHR ''-'' then - digits_value ds else digits_value ds) in
     if ds = [] then (0, s) else (max (- (2 ^ 63)) (min (2 ^ 63 - 1) v), drop (n + length ds) t))"

text \<open>The conversion from \<open>long\<close> to \<open>int\<close>.\<close>

definition int_of_long :: "int \<Rightarrow> int" where
  "int_of_long v = sint (word_of_int v :: 32 word)"

lemma strtol_length: "length (snd (strtol s)) \<le> length s"
  by (simp add: strtol_def Let_def le_diff_conv trans_le_add1 length_dropWhile_le)

declare digits.simps [simp del]

section \<open>Digits\<close>

lemma digit_chars:
  assumes "isdigit c"
  shows "\<not> isspace c" "lower_char c = c" "c \<noteq> CHR ''-''" "c \<noteq> CHR ''+''" "c \<noteq> CHR '',''" "c \<noteq> CHR ''.''"
    "c \<noteq> CHR ''i''" "c \<noteq> CHR ''n''" "c \<noteq> CHR ''x''" "c \<noteq> CHR ''E''" "c \<noteq> NUL"
  using assms by (auto simp: isdigit_def isspace_def lower_char_def NUL_def)

lemma takeWhile_stop: "list_all P xs \<Longrightarrow> \<not> P c \<Longrightarrow> takeWhile P (xs @ c # ys) = xs"
  by (induction xs) auto

lemma dropWhile_stop: "list_all P xs \<Longrightarrow> \<not> P c \<Longrightarrow> dropWhile P (xs @ c # ys) = c # ys"
  by (induction xs) auto

lemma digit_char: "k < 10 \<Longrightarrow> isdigit (char_of (48 + k)) \<and> (of_char (char_of (48 + k :: nat)) :: int) = 48 + int k"
  using of_nat_of_char [where 'a = int, of "char_of (48 + k)", symmetric] by (simp add: isdigit_def)

lemma digits_only [simp]: "list_all isdigit (digits n)"
proof (induction n rule: digits.induct)
  case (1 n)
  then show ?case using digit_char [of n] digit_char [of "n mod 10"] by (subst digits.simps) auto
qed

lemma digits_nonempty [simp]: "digits n \<noteq> []"
  by (subst digits.simps) simp

lemma digits_value_snoc: "digits_value (ds @ [d]) = 10 * digits_value ds + (of_char d - 48)"
  by (simp add: digits_value_def)

lemma digits_value_digits: "digits_value (digits n) = int n"
proof (induction n rule: digits.induct)
  case (1 n)
  show ?case
  proof (cases "n < 10")
    case True
    then show ?thesis using digit_char [of n] by (subst digits.simps) (simp add: digits_value_def)
  next
    case False
    have "10 * int (n div 10) + int (n mod 10) = int n" by presburger
    then show ?thesis using False 1 digit_char [of "n mod 10"] by (subst digits.simps) (simp add: digits_value_snoc)
  qed
qed

lemma decimal_head:
  obtains c ds where "decimal v = c # ds" and "c = CHR ''-'' \<or> isdigit c" and "\<not> isspace c"
proof (cases "v < 0")
  case True
  then show ?thesis using that [of "CHR ''-''" "digits (nat (- v))"] by (simp add: decimal_def isspace_def)
next
  case False
  obtain c ds where c: "digits (nat v) = c # ds" "isdigit c"
    using digits_only [of "nat v"] by (cases "digits (nat v)") auto
  then show ?thesis using that [of c ds] False digit_chars(1) [OF c(2)] by (simp add: decimal_def)
qed

lemma decimal_chars: "c \<in> set (decimal v) \<Longrightarrow> c = CHR ''-'' \<or> isdigit c"
  using digits_only by (auto simp: decimal_def list_all_iff split: if_splits)

lemma takeWhile_digits [simp]: "takeWhile isdigit (digits n) = digits n"
  using digits_only [of n] by (simp add: list_all_iff)

lemma atoi_decimal:
  assumes "- (2 ^ 31) \<le> v" and "v < 2 ^ 31"
  shows "atoi (decimal v) = retM v"
proof (cases "v < 0")
  case True
  then show ?thesis using assms
    by (simp add: atoi_def decimal_def isspace_def digits_value_digits Let_def seqM_def ensureM_def)
next
  case False
  obtain c ds where c: "digits (nat v) = c # ds" "isdigit c"
    using digits_only [of "nat v"] by (cases "digits (nat v)") auto
  have t: "takeWhile isdigit ds = ds" using takeWhile_digits [of "nat v"] c by (simp del: takeWhile_digits)
  have "digits_value (c # ds) = v" using digits_value_digits [of "nat v"] False c by simp
  then show ?thesis using False assms c digit_chars [OF c(2)]
    by (simp add: t atoi_def decimal_def Let_def seqM_def ensureM_def)
qed

lemma strtol_decimal:
  assumes "- (2 ^ 31) \<le> q" and "q < 2 ^ 31"
  shows "strtol (decimal q @ CHR '','' # rest) = (q, CHR '','' # rest)"
proof -
  let ?n = "nat \<bar>q\<bar>"
  have nd: "\<not> isdigit (CHR '','')" by (simp add: isdigit_def)
  obtain c y where c: "digits ?n = c # y" "isdigit c" using digits_only [of ?n] by (cases "digits ?n") auto
  have tw: "takeWhile isdigit (digits ?n @ CHR '','' # rest) = digits ?n" by (rule takeWhile_stop [where P = isdigit, OF _ nd]) simp
  show ?thesis
  proof (cases "q < 0")
    case True
    then have q: "decimal q = CHR ''-'' # digits ?n" by (simp add: decimal_def)
    have "digits_value (digits ?n) = - q" using True by (simp add: digits_value_digits)
    then show ?thesis using assms True tw c
      by (simp add: strtol_def q sign_len_def isspace_def Let_def)
  next
    case False
    then have q: "decimal q = digits ?n" by (simp add: decimal_def)
    have "digits_value (digits ?n) = q" using False by (simp add: digits_value_digits)
    then show ?thesis using assms False tw c digit_chars [OF c(2)]
      by (simp add: strtol_def q sign_len_def Let_def)
  qed
qed

lemma int_of_long_small: "- (2 ^ 31) \<le> q \<Longrightarrow> q < 2 ^ 31 \<Longrightarrow> int_of_long q = q"
  by (simp add: int_of_long_def int_word_sint del: signed_of_int)

end
