(* ===== verification/Scanner.thy ===== *)
theory Scanner
  imports Scan_Help Decimal_Text
begin

text \<open>
  \<open>src/parser/scan.ll\<close>: the lexical rules of the query language and their actions.

  The automaton that flex generates from the rules is modelled by what it decides: at every position
  the rule with the longest match, and among those the first one.  The value of a text as a \<open>float\<close> is
  the parameter \<open>atof\<close>.
\<close>

datatype lex_token =
    LT_INT int
  | LT_REAL "32 word"
  | LT_QSTRING string
  | LT_WORD token                  \<comment> \<open>what \<open>get_id\<close> returns\<close>
  | LT_COMP comp_op                \<comment> \<open>\<open>T_LT\<close> to \<open>T_NE\<close>\<close>
  | LT_CHAR char

datatype lex_rule =
    L_SPACE | L_INT | L_REAL | L_EXP | L_QSTRING | L_BROKEN | L_ID
  | L_LT | L_LE | L_GT | L_GE | L_EQ | L_NE | L_LTGT | L_PUNCT | L_LBRACKET | L_RBRACKET | L_DOLLAR | L_OTHER

definition lex_rules :: "lex_rule list" where
  "lex_rules = [L_SPACE, L_INT, L_REAL, L_EXP, L_QSTRING, L_BROKEN, L_ID,
     L_LT, L_LE, L_GT, L_GE, L_EQ, L_NE, L_LTGT, L_PUNCT, L_LBRACKET, L_RBRACKET, L_DOLLAR, L_OTHER]"

section \<open>Matches\<close>

definition is_word :: "char \<Rightarrow> bool" where
  "is_word c \<longleftrightarrow> isalpha c \<or> isdigit c \<or> c = CHR ''_''"

definition digits_len :: "string \<Rightarrow> nat" where
  "digits_len s = length (takeWhile isdigit s)"

text \<open>\<open>{num}\.{num}\<close>; a length of 0 stands for no match.\<close>

definition real_len :: "string \<Rightarrow> nat" where
  "real_len s =
    (let n = digits_len s; r = drop n s in
     if n = 0 \<or> r = [] \<or> hd r \<noteq> CHR ''.'' then 0
     else let m = digits_len (tl r) in if m = 0 then 0 else n + 1 + m)"

definition exp_len :: "string \<Rightarrow> nat" where
  "exp_len s =
    (let n = real_len s; r = drop n s in
     if n = 0 \<or> r = [] \<or> hd r \<notin> {CHR ''e'', CHR ''E''} then 0
     else let m = digits_len (tl r) in if m = 0 then 0 else n + 1 + m)"

text \<open>The longest string constant, after its opening quote; a doubled quote belongs to it if another one closes it.\<close>

fun quoted_len :: "string \<Rightarrow> nat option" where
  "quoted_len [] = None"
| "quoted_len (c # s) =
    (if c = CHR 0x22 then
       (case s of
          [] \<Rightarrow> Some 1
        | d # t \<Rightarrow>
            if d = CHR 0x22 then
              (case quoted_len t of None \<Rightarrow> Some 1 | Some n \<Rightarrow> Some (n + 2))
            else Some 1)
     else if c = NEWLINE then None
     else map_option Suc (quoted_len s))"

text \<open>A string constant that is broken by the end of the line.\<close>

fun broken_len :: "string \<Rightarrow> nat option" where
  "broken_len [] = None"
| "broken_len (c # s) =
    (if c = NEWLINE then Some 1
     else if c = CHR 0x22 then
       (case s of [] \<Rightarrow> None | d # t \<Rightarrow> if d = CHR 0x22 then map_option (\<lambda>n. n + 2) (broken_len t) else None)
     else map_option Suc (broken_len s))"

definition starts :: "string \<Rightarrow> string \<Rightarrow> nat" where
  "starts w s = (if take (length w) s = w then length w else 0)"

definition after_quote :: "(string \<Rightarrow> nat option) \<Rightarrow> string \<Rightarrow> nat" where
  "after_quote f s = (if s \<noteq> [] \<and> hd s = CHR 0x22 then (case f (tl s) of None \<Rightarrow> 0 | Some n \<Rightarrow> n + 1) else 0)"

definition one_of :: "string \<Rightarrow> string \<Rightarrow> nat" where
  "one_of cs s = (if s \<noteq> [] \<and> hd s \<in> set cs then 1 else 0)"

definition match_len :: "lex_rule \<Rightarrow> string \<Rightarrow> nat" where
  "match_len r s =
    (case r of
       L_SPACE \<Rightarrow> one_of [CHR '' '', NEWLINE, CHR 0x09] s
     | L_INT \<Rightarrow> digits_len s
     | L_REAL \<Rightarrow> real_len s
     | L_EXP \<Rightarrow> exp_len s
     | L_QSTRING \<Rightarrow> after_quote quoted_len s
     | L_BROKEN \<Rightarrow> after_quote broken_len s
     | L_ID \<Rightarrow> (if s \<noteq> [] \<and> isalpha (hd s) then length (takeWhile is_word s) else 0)
     | L_LT \<Rightarrow> starts ''<'' s
     | L_LE \<Rightarrow> starts ''<='' s
     | L_GT \<Rightarrow> starts ''>'' s
     | L_GE \<Rightarrow> starts ''>='' s
     | L_EQ \<Rightarrow> starts ''='' s
     | L_NE \<Rightarrow> starts ''!='' s
     | L_LTGT \<Rightarrow> starts ''<>'' s
     | L_PUNCT \<Rightarrow> one_of (''*/+-=<>:;,.|&()'' @ [CHR 0x27]) s
     | L_LBRACKET \<Rightarrow> one_of ''['' s
     | L_RBRACKET \<Rightarrow> one_of '']'' s
     | L_DOLLAR \<Rightarrow> one_of ''$'' s
     | L_OTHER \<Rightarrow> (if s \<noteq> [] \<and> hd s \<noteq> NEWLINE then 1 else 0))"

text \<open>The longest match, and the first rule among several.\<close>

definition longer :: "string \<Rightarrow> lex_rule \<times> nat \<Rightarrow> lex_rule \<Rightarrow> lex_rule \<times> nat" where
  "longer s best r = (if match_len r s > snd best then (r, match_len r s) else best)"

definition longest :: "string \<Rightarrow> lex_rule \<times> nat" where
  "longest s = foldl (longer s) (L_SPACE, 0) lex_rules"

lemma longer_mono: "snd best \<le> snd (foldl (longer s) best rs)"
proof (induction rs arbitrary: best)
  case (Cons r rs)
  have "snd best \<le> snd (longer s best r)" by (simp add: longer_def)
  then show ?case using Cons.IH [of "longer s best r"] by simp
qed simp

lemma longer_all: "r \<in> set rs \<Longrightarrow> match_len r s \<le> snd (foldl (longer s) best rs)"
proof (induction rs arbitrary: best)
  case (Cons q rs)
  have "match_len q s \<le> snd (longer s best q)" by (simp add: longer_def)
  then show ?case
    using Cons.prems Cons.IH [of "longer s best q"] longer_mono [of "longer s best q" s rs] by (cases "r = q") auto
qed simp

lemma longest_upper: "match_len r s \<le> snd (longest s)"
  unfolding longest_def by (rule longer_all) (cases r; simp add: lex_rules_def)

lemma longest_pos:
  assumes "s \<noteq> []"
  shows "0 < snd (longest s)"
  using longest_upper [of L_SPACE s] longest_upper [of L_OTHER s] assms
  by (cases "hd s = NEWLINE") (auto simp: match_len_def one_of_def)

section \<open>Actions\<close>

text \<open>
  \<open>sscanf\<close> with \<open>%d\<close> is undefined when the value is not an \<open>int\<close>.  Spaces, broken strings and illegal
  characters give no token; the latter two only print a message.
\<close>

definition lex_action :: "(string \<Rightarrow> 32 word) \<Rightarrow> lex_rule \<Rightarrow> string \<Rightarrow> (parser_state, lex_token option) comp" where
  "lex_action atof r yytext =
    (case r of
       L_SPACE \<Rightarrow> retM None
     | L_INT \<Rightarrow> bindM (atoi yytext) (\<lambda>v. retM (Some (LT_INT v)))
     | L_REAL \<Rightarrow> retM (Some (LT_REAL (atof yytext)))
     | L_EXP \<Rightarrow> retM (Some (LT_REAL (atof yytext)))
     | L_QSTRING \<Rightarrow> bindM (get_qstring yytext (length yytext)) (\<lambda>v. retM (Some (LT_QSTRING v)))
     | L_BROKEN \<Rightarrow> retM None
     | L_ID \<Rightarrow> bindM (get_id yytext) (\<lambda>t. retM (Some (LT_WORD t)))
     | L_LT \<Rightarrow> retM (Some (LT_COMP C_LT))
     | L_LE \<Rightarrow> retM (Some (LT_COMP C_LE))
     | L_GT \<Rightarrow> retM (Some (LT_COMP C_GT))
     | L_GE \<Rightarrow> retM (Some (LT_COMP C_GE))
     | L_EQ \<Rightarrow> retM (Some (LT_COMP C_EQ))
     | L_NE \<Rightarrow> retM (Some (LT_COMP C_NE))
     | L_LTGT \<Rightarrow> retM (Some (LT_COMP C_NE))
     | L_OTHER \<Rightarrow> retM None
     | _ \<Rightarrow> retM (Some (LT_CHAR (hd yytext))))"

text \<open>All tokens of a text, one call of \<open>yylex\<close> after the other.\<close>

function scan_text :: "(string \<Rightarrow> 32 word) \<Rightarrow> string \<Rightarrow> (parser_state, lex_token list) comp" where
  "scan_text atof s =
    (if s = [] then retM []
     else
       case longest s of (r, n) \<Rightarrow>
       bindM (lex_action atof r (take n s)) (\<lambda>t.
       bindM (scan_text atof (drop n s)) (\<lambda>ts.
       retM (case t of None \<Rightarrow> ts | Some x \<Rightarrow> x # ts))))"
  by auto

termination
proof (relation "measure (length \<circ> snd)", simp, goal_cases)
  case (1 atof s r n)
  then have "0 < n" using longest_pos [of s] by (metis snd_conv)
  then show ?case using 1 by simp
qed

text \<open>\<open>init_scanner\<close> and the input of the scanner: it reads the buffer from its beginning to its end.\<close>

definition init_scanner :: "(string \<Rightarrow> 32 word) \<Rightarrow> string \<Rightarrow> (parser_state, lex_token list) comp" where
  "init_scanner atof scanBuf = seqM reset_charptr (scan_text atof scanBuf)"

end
