(* ===== verification/Scanner_Spec.thy ===== *)
theory Scanner_Spec
  imports Scanner
begin

text \<open>
  What the scanner makes of a text that is written with a space after every word, number, string and
  symbol, and of any text: its lexemes, their tokens and the string space that they need.
\<close>

declare scan_text.simps [simp del]

definition real_text :: "string \<Rightarrow> bool" where
  "real_text x \<longleftrightarrow>
    (let i = takeWhile isdigit x; r = dropWhile isdigit x in
     i \<noteq> [] \<and> r \<noteq> [] \<and> hd r = CHR ''.'' \<and> tl r \<noteq> [] \<and> list_all isdigit (tl r))"

definition exp_text :: "string \<Rightarrow> bool" where
  "exp_text x \<longleftrightarrow>
    (let y = takeWhile (\<lambda>c. isdigit c \<or> c = CHR ''.'') x; r = dropWhile (\<lambda>c. isdigit c \<or> c = CHR ''.'') x in
     real_text y \<and> r \<noteq> [] \<and> (hd r = CHR ''e'' \<or> hd r = CHR ''E'') \<and> tl r \<noteq> [] \<and> list_all isdigit (tl r))"

text \<open>The lexemes of the language, each with the rule that is meant for it.\<close>

definition lexeme :: "lex_rule \<times> string \<Rightarrow> bool" where
  "lexeme l \<longleftrightarrow>
    (case l of (r, x) \<Rightarrow>
     case r of
       L_INT \<Rightarrow> x \<noteq> [] \<and> list_all isdigit x
     | L_REAL \<Rightarrow> real_text x
     | L_EXP \<Rightarrow> exp_text x
     | L_QSTRING \<Rightarrow> 2 \<le> length x \<and> hd x = CHR 0x22 \<and> last x = CHR 0x22 \<and>
         CHR 0x22 \<notin> set (butlast (tl x)) \<and> NEWLINE \<notin> set x
     | L_ID \<Rightarrow> x \<noteq> [] \<and> isalpha (hd x) \<and> list_all is_word x
     | L_LT \<Rightarrow> x = ''<''
     | L_LE \<Rightarrow> x = ''<=''
     | L_GT \<Rightarrow> x = ''>''
     | L_GE \<Rightarrow> x = ''>=''
     | L_EQ \<Rightarrow> x = ''=''
     | L_NE \<Rightarrow> x = ''!=''
     | L_LTGT \<Rightarrow> x = ''<>''
     | L_PUNCT \<Rightarrow> length x = 1 \<and> hd x \<in> set (''*/+-:;,.|&()'' @ [CHR 0x27])
     | L_LBRACKET \<Rightarrow> x = ''[''
     | L_RBRACKET \<Rightarrow> x = '']''
     | L_DOLLAR \<Rightarrow> x = ''$''
     | _ \<Rightarrow> False)"

section \<open>Matches\<close>

lemma word_classes:
  "isalpha c \<Longrightarrow> \<not> isdigit c" "isalpha c \<Longrightarrow> is_word c" "isalpha c \<Longrightarrow> c \<noteq> CHR 0x22"
  "isalpha c \<Longrightarrow> c \<notin> set ([CHR '' '', NEWLINE, CHR 0x09] @ ''<>=!*/+-:;,.|&()[]$'' @ [CHR 0x27])"
  "isdigit c \<Longrightarrow> \<not> isalpha c" "isdigit c \<Longrightarrow> c \<noteq> CHR 0x22"
  "isdigit c \<Longrightarrow> c \<notin> set ([CHR '' '', NEWLINE, CHR 0x09] @ ''<>=!*/+-:;,.|&()[]$'' @ [CHR 0x27])"
  "\<not> isdigit (CHR '' '')" "\<not> isdigit (CHR ''.'')" "\<not> isdigit (CHR ''e'')" "\<not> isdigit (CHR ''E'')"
  "\<not> isdigit (CHR 0x22)" "\<not> isalpha (CHR 0x22)" "\<not> is_word (CHR '' '')"
  by (auto simp: isalpha_def isdigit_def is_word_def NEWLINE_def)

lemma starts_head: "s \<noteq> [] \<Longrightarrow> hd s \<noteq> c \<Longrightarrow> starts (c # w) s = 0"
  by (cases s) (auto simp: starts_def)

lemma digits_len_stop: "list_all isdigit x \<Longrightarrow> \<not> isdigit c \<Longrightarrow> digits_len (x @ c # rest) = length x"
  by (simp add: digits_len_def takeWhile_stop)

lemma digits_len_none: "s \<noteq> [] \<Longrightarrow> \<not> isdigit (hd s) \<Longrightarrow> digits_len s = 0"
  by (cases s) (simp_all add: digits_len_def)

lemma no_digit:
  assumes "s \<noteq> []" and "\<not> isdigit (hd s)"
  shows "digits_len s = 0" "real_len s = 0" "exp_len s = 0"
  using digits_len_none [OF assms] by (simp_all add: real_len_def exp_len_def Let_def)

lemma real_parts:
  assumes "real_text x"
  obtains i f where "x = i @ CHR ''.'' # f" and "i \<noteq> []" and "list_all isdigit i" and "f \<noteq> []" and "list_all isdigit f"
proof -
  let ?i = "takeWhile isdigit x" and ?r = "dropWhile isdigit x"
  have r: "?i \<noteq> []" "?r \<noteq> []" "hd ?r = CHR ''.''" "tl ?r \<noteq> []" "list_all isdigit (tl ?r)"
    using assms by (simp_all add: real_text_def Let_def)
  have "x = ?i @ CHR ''.'' # tl ?r" using takeWhile_dropWhile_id [of isdigit x] r(2,3) by (metis list.collapse)
  moreover have "list_all isdigit ?i" by (auto simp: list_all_iff dest: set_takeWhileD)
  ultimately show thesis using that r by blast
qed

lemma real_len_parts:
  assumes "i \<noteq> []" and "list_all isdigit i" and "f \<noteq> []" and "list_all isdigit f" and "\<not> isdigit c"
  shows "real_len (i @ CHR ''.'' # f @ c # rest) = length i + 1 + length f"
  using assms digits_len_stop [OF assms(2) word_classes(9), of "f @ c # rest"] digits_len_stop [OF assms(4,5), of rest]
  by (simp add: real_len_def Let_def)

lemma exp_parts:
  assumes "exp_text x"
  obtains y c e where "x = y @ c # e" and "real_text y" and "c = CHR ''e'' \<or> c = CHR ''E''" and "e \<noteq> []" and "list_all isdigit e"
proof -
  let ?P = "\<lambda>c. isdigit c \<or> c = CHR ''.''"
  let ?r = "dropWhile ?P x"
  have r: "?r \<noteq> []" using assms by (simp add: exp_text_def Let_def)
  have "x = takeWhile ?P x @ hd ?r # tl ?r" using takeWhile_dropWhile_id [of ?P x] r by (metis list.collapse)
  moreover note assms [unfolded exp_text_def Let_def]
  ultimately show thesis using that by blast
qed

lemma quoted_len_at:
  "CHR 0x22 \<notin> set y \<Longrightarrow> NEWLINE \<notin> set y \<Longrightarrow> quoted_len (y @ CHR 0x22 # CHR '' '' # rest) = Some (length y + 1)"
  by (induction y) auto

lemma broken_len_at:
  "CHR 0x22 \<notin> set y \<Longrightarrow> NEWLINE \<notin> set y \<Longrightarrow> broken_len (y @ CHR 0x22 # CHR '' '' # rest) = None"
  by (induction y) (auto simp: NEWLINE_def)

section \<open>The rule of a lexeme\<close>

lemma longest_int:
  assumes "x \<noteq> []" and "list_all isdigit x"
  shows "longest (x @ CHR '' '' # rest) = (L_INT, length x)"
proof -
  let ?s = "x @ CHR '' '' # rest"
  obtain c y where c: "x = c # y" "isdigit c" using assms by (cases x) auto
  have d: "digits_len ?s = length x" by (rule digits_len_stop [OF assms(2) word_classes(8)])
  have r: "real_len ?s = 0" "exp_len ?s = 0" using d by (simp_all add: real_len_def exp_len_def)
  show ?thesis using c d r word_classes(5-7) [OF c(2)]
    by (simp add: longest_def lex_rules_def longer_def match_len_def one_of_def starts_def after_quote_def)
qed

lemma longest_real:
  assumes "real_text x"
  shows "longest (x @ CHR '' '' # rest) = (L_REAL, length x)"
proof -
  let ?s = "x @ CHR '' '' # rest"
  obtain i f where x: "x = i @ CHR ''.'' # f" "i \<noteq> []" "list_all isdigit i" "f \<noteq> []" "list_all isdigit f"
    using real_parts [OF assms] .
  obtain c y where c: "i = c # y" "isdigit c" using x by (cases i) auto
  have d: "digits_len ?s = length i" using digits_len_stop [OF x(3) word_classes(9)] x(1) by simp
  have r: "real_len ?s = length x" using real_len_parts [OF x(2-5) word_classes(8)] x(1) by simp
  have e: "exp_len ?s = 0" using r by (simp add: exp_len_def)
  show ?thesis using c d r e x(1) word_classes(5-7) [OF c(2)]
    by (simp add: longest_def lex_rules_def longer_def match_len_def one_of_def starts_def after_quote_def)
qed

lemma longest_exp:
  assumes "exp_text x"
  shows "longest (x @ CHR '' '' # rest) = (L_EXP, length x)"
proof -
  let ?s = "x @ CHR '' '' # rest"
  obtain z b e where z: "x = z @ b # e" "real_text z" "b = CHR ''e'' \<or> b = CHR ''E''" "e \<noteq> []" "list_all isdigit e"
    using exp_parts [OF assms] .
  obtain i f where x: "z = i @ CHR ''.'' # f" "i \<noteq> []" "list_all isdigit i" "f \<noteq> []" "list_all isdigit f"
    using real_parts [OF z(2)] .
  obtain c y where c: "i = c # y" "isdigit c" using x by (cases i) auto
  have b: "\<not> isdigit b" using z(3) word_classes(10,11) by auto
  have d: "digits_len ?s = length i" using digits_len_stop [OF x(3) word_classes(9)] x(1) z(1) by simp
  have r: "real_len ?s = length z" using real_len_parts [OF x(2-5) b] x(1) z(1) by simp
  have e: "exp_len ?s = length x"
    using r digits_len_stop [OF z(5) word_classes(8), of rest] z x(2) by (auto simp: exp_len_def Let_def x(1))
  show ?thesis using c d r e x(1) z(1) word_classes(5-7) [OF c(2)]
    by (simp add: longest_def lex_rules_def longer_def match_len_def one_of_def starts_def after_quote_def)
qed

lemma longest_id:
  assumes "x \<noteq> []" and "isalpha (hd x)" and "list_all is_word x"
  shows "longest (x @ CHR '' '' # rest) = (L_ID, length x)"
proof -
  let ?s = "x @ CHR '' '' # rest"
  obtain c y where c: "x = c # y" "isalpha c" using assms(1,2) by (cases x) auto
  have n: "digits_len ?s = 0" "real_len ?s = 0" "exp_len ?s = 0"
    by (rule no_digit; use c word_classes(1) [OF c(2)] in simp)+
  have w: "takeWhile is_word ?s = x" by (rule takeWhile_stop [OF assms(3) word_classes(14)])
  show ?thesis using c n w word_classes(3,4) [OF c(2)]
    by (simp add: longest_def lex_rules_def longer_def match_len_def one_of_def starts_def after_quote_def)
qed

lemma longest_quoted:
  assumes "2 \<le> length x" and "hd x = CHR 0x22" and "last x = CHR 0x22" and "CHR 0x22 \<notin> set (butlast (tl x))"
    and "NEWLINE \<notin> set x"
  shows "longest (x @ CHR '' '' # rest) = (L_QSTRING, length x)"
proof -
  let ?y = "butlast (tl x)"
  have "tl x \<noteq> []" using assms(1) by (cases x) auto
  then have x: "x = CHR 0x22 # ?y @ [CHR 0x22]"
    using assms(2,3) by (metis append_butlast_last_id last_tl list.collapse tl_Nil)
  have y: "NEWLINE \<notin> set ?y" using assms(5) by (metis in_set_butlastD list.set_sel(2) tl_Nil)
  let ?s = "CHR 0x22 # ?y @ CHR 0x22 # CHR '' '' # rest"
  have q: "quoted_len (tl ?s) = Some (length ?y + 1)" "broken_len (tl ?s) = None"
    using quoted_len_at [OF assms(4) y] broken_len_at [OF assms(4) y] by simp_all
  have n: "digits_len ?s = 0" "real_len ?s = 0" "exp_len ?s = 0"
    by (rule no_digit; simp add: word_classes(12))+
  have m: "match_len r ?s = (if r = L_QSTRING then length ?y + 2 else if r = L_OTHER then 1 else 0)" for r
    by (cases r) (use q n in \<open>simp_all add: match_len_def one_of_def starts_def after_quote_def word_classes(13) NEWLINE_def\<close>)
  have "longest ?s = (L_QSTRING, length ?y + 2)"
    by (simp add: longest_def lex_rules_def longer_def m del: append.simps)
  moreover have "x @ CHR '' '' # rest = ?s" by (subst x) simp
  moreover have "length x = length ?y + 2" by (subst x) simp
  ultimately show ?thesis by (simp only:)
qed

lemma longest_punct:
  assumes "c \<in> set (''*/+-:;,.|&()'' @ [CHR 0x27])"
  shows "longest (c # CHR '' '' # rest) = (L_PUNCT, 1)"
proof -
  let ?s = "c # CHR '' '' # rest"
  have c: "\<not> isdigit c" "\<not> isalpha c" "c \<noteq> CHR 0x22" "c \<noteq> NEWLINE"
      "c \<notin> {CHR '' '', CHR 0x09, CHR ''<'', CHR ''>'', CHR ''='', CHR ''!'', CHR ''['', CHR '']'', CHR ''$''}"
    using assms by (auto simp: isdigit_def isalpha_def NEWLINE_def)
  have n: "digits_len ?s = 0" "real_len ?s = 0" "exp_len ?s = 0"
    by (rule no_digit; use c in simp)+
  have p: "one_of (''*/+-=<>:;,.|&()'' @ [CHR 0x27]) ?s = 1" using assms by (auto simp: one_of_def)
  have "match_len r ?s = (if r = L_PUNCT \<or> r = L_OTHER then 1 else 0)" for r
    by (cases r) (use c n p in \<open>simp_all add: match_len_def one_of_def starts_def after_quote_def\<close>)
  then show ?thesis by (simp add: longest_def lex_rules_def longer_def)
qed

lemma longest_symbol:
  assumes "(r, x) \<in> {(L_LT, ''<''), (L_LE, ''<=''), (L_GT, ''>''), (L_GE, ''>=''), (L_EQ, ''=''), (L_NE, ''!=''),
    (L_LTGT, ''<>''), (L_LBRACKET, ''[''), (L_RBRACKET, '']''), (L_DOLLAR, ''$'')}"
  shows "longest (x @ CHR '' '' # rest) = (r, length x)"
proof -
  have c: "x \<noteq> []" "\<not> isdigit (hd x)" "\<not> isalpha (hd x)" using assms by (auto simp: isdigit_def isalpha_def)
  let ?s = "x @ CHR '' '' # rest"
  have n: "digits_len ?s = 0" "real_len ?s = 0" "exp_len ?s = 0"
    by (rule no_digit; use c in simp)+
  have i: "match_len L_ID ?s = 0" using c by (simp add: match_len_def)
  have q: "after_quote f ?s = 0" for f using assms by (auto simp: after_quote_def)
  have d: "match_len L_INT ?s = 0" "match_len L_REAL ?s = 0" "match_len L_EXP ?s = 0" "match_len L_QSTRING ?s = 0"
      "match_len L_BROKEN ?s = 0"
    using n q by (simp_all add: match_len_def)
  note rest = match_len_def [of L_SPACE] match_len_def [of L_LT] match_len_def [of L_LE] match_len_def [of L_GT]
    match_len_def [of L_GE] match_len_def [of L_EQ] match_len_def [of L_NE] match_len_def [of L_LTGT] match_len_def [of L_PUNCT]
    match_len_def [of L_LBRACKET] match_len_def [of L_RBRACKET] match_len_def [of L_DOLLAR] match_len_def [of L_OTHER]
  have "longest ?s = foldl (longer ?s) (L_SPACE, 0) [L_SPACE, L_LT, L_LE, L_GT, L_GE, L_EQ, L_NE, L_LTGT, L_PUNCT,
      L_LBRACKET, L_RBRACKET, L_DOLLAR, L_OTHER]"
    by (simp add: longest_def lex_rules_def longer_def [of _ _ L_INT] longer_def [of _ _ L_REAL] longer_def [of _ _ L_EXP]
        longer_def [of _ _ L_QSTRING] longer_def [of _ _ L_BROKEN] longer_def [of _ _ L_ID] d i del: append.simps)
  also have "\<dots> = (r, length x)"
    using assms by (elim insertE emptyE; simp add: longer_def rest one_of_def starts_def NEWLINE_def)
  finally show ?thesis .
qed

lemma longest_lexeme:
  assumes "lexeme (r, x)"
  shows "longest (x @ CHR '' '' # rest) = (r, length x)"
proof (cases r)
  case L_QSTRING
  then show ?thesis using longest_quoted [of x rest] assms by (simp add: lexeme_def)
next
  case L_PUNCT
  then have "length x = 1 \<and> hd x \<in> set (''*/+-:;,.|&()'' @ [CHR 0x27])"
    using assms by (simp only: lexeme_def prod.case lex_rule.case)
  then obtain c where "x = [c]" "c \<in> set (''*/+-:;,.|&()'' @ [CHR 0x27])" by (cases x) auto
  then show ?thesis using longest_punct [of c rest] L_PUNCT by simp
qed (use assms longest_int [of x rest] longest_real [of x rest] longest_exp [of x rest] longest_id [of x rest]
    longest_symbol [of r x rest] in \<open>simp_all add: lexeme_def\<close>)

section \<open>Texts\<close>

lemma lexeme_nonempty: "lexeme (r, x) \<Longrightarrow> x \<noteq> []"
  by (cases r) (auto simp: lexeme_def real_text_def exp_text_def)

definition spaced :: "(lex_rule \<times> string) list \<Rightarrow> string" where
  "spaced ls = concat (map (\<lambda>l. snd l @ [CHR '' '']) ls)"

lemma scan_space: "scan_text atof (CHR '' '' # s) = scan_text atof s"
proof -
  have n: "digits_len (CHR '' '' # s) = 0" "real_len (CHR '' '' # s) = 0" "exp_len (CHR '' '' # s) = 0"
    by (rule no_digit; simp add: word_classes(8))+
  have "match_len r (CHR '' '' # s) = (if r = L_SPACE \<or> r = L_OTHER then 1 else 0)" for r
    by (cases r) (use n in \<open>simp_all add: match_len_def one_of_def starts_def after_quote_def NEWLINE_def isalpha_def\<close>)
  then have "longest (CHR '' '' # s) = (L_SPACE, 1)" by (simp add: longest_def lex_rules_def longer_def)
  then show ?thesis by (subst scan_text.simps) (simp add: lex_action_def)
qed

section \<open>Tokens\<close>

text \<open>The token of a lexeme, the characters of the string space that it takes, and the lexemes that have a value.\<close>

definition token_of :: "(string \<Rightarrow> 32 word) \<Rightarrow> lex_rule \<times> string \<Rightarrow> lex_token" where
  "token_of atof l =
    (case l of (r, x) \<Rightarrow>
     case r of
       L_INT \<Rightarrow> LT_INT (digits_value x)
     | L_REAL \<Rightarrow> LT_REAL (atof x)
     | L_EXP \<Rightarrow> LT_REAL (atof x)
     | L_QSTRING \<Rightarrow> LT_QSTRING (butlast (tl x))
     | L_ID \<Rightarrow> LT_WORD (case map_of reserved_words (map Scan_Help.lower_char x) of Some t \<Rightarrow> t | None \<Rightarrow> T_STRING x)
     | L_LT \<Rightarrow> LT_COMP C_LT
     | L_LE \<Rightarrow> LT_COMP C_LE
     | L_GT \<Rightarrow> LT_COMP C_GT
     | L_GE \<Rightarrow> LT_COMP C_GE
     | L_EQ \<Rightarrow> LT_COMP C_EQ
     | L_NE \<Rightarrow> LT_COMP C_NE
     | L_LTGT \<Rightarrow> LT_COMP C_NE
     | _ \<Rightarrow> LT_CHAR (hd x))"

definition token_space :: "lex_rule \<times> string \<Rightarrow> nat" where
  "token_space l =
    (case l of (r, x) \<Rightarrow>
     case r of
       L_QSTRING \<Rightarrow> length x - 1
     | L_ID \<Rightarrow> if map_of reserved_words (map Scan_Help.lower_char x) = None then length x + 1 else 0
     | _ \<Rightarrow> 0)"

definition lexeme_fits :: "lex_rule \<times> string \<Rightarrow> bool" where
  "lexeme_fits l =
    (case l of (r, x) \<Rightarrow>
     case r of
       L_INT \<Rightarrow> digits_value x < 2 ^ 31
     | L_ID \<Rightarrow> length x < MAXSTRINGLEN
     | _ \<Rightarrow> True)"

lemma digits_value_nonneg: "list_all isdigit x \<Longrightarrow> 0 \<le> digits_value x"
proof (induction x rule: rev_induct)
  case (snoc d x)
  then have "48 \<le> (of_char d :: nat)" by (simp add: isdigit_def)
  then have "(48 :: int) \<le> of_char d" using of_nat_of_char [where 'a = int, of d, symmetric] by simp
  then show ?case using snoc by (simp add: digits_value_snoc)
qed (simp add: digits_value_def)

lemma atoi_digits:
  assumes "list_all isdigit x" and "x \<noteq> []" and "digits_value x < 2 ^ 31"
  shows "atoi x = retM (digits_value x)"
proof -
  obtain c y where c: "x = c # y" "isdigit c" using assms by (cases x) auto
  then have n: "\<not> isspace c" "c \<noteq> CHR ''-''" "c \<noteq> CHR ''+''" by (auto simp: isspace_def isdigit_def)
  have t: "takeWhile isdigit x = x" using assms(1) by (simp add: takeWhile_eq_all_conv list_all_iff)
  have d: "dropWhile isspace x = x" "hd x = c" using c n by simp_all
  show ?thesis using assms(3) digits_value_nonneg [OF assms(1)]
    by (simp add: atoi_def Let_def seqM_def ensureM_def n d t)
qed

text \<open>The token of a lexeme; spaces, broken strings and illegal characters have none.\<close>

definition lexeme_token :: "(string \<Rightarrow> 32 word) \<Rightarrow> lex_rule \<times> string \<Rightarrow> lex_token option" where
  "lexeme_token atof l = (if fst l \<in> {L_SPACE, L_BROKEN, L_OTHER} then None else Some (token_of atof l))"

lemma get_id_word:
  assumes "length x < MAXSTRINGLEN" and "charptr p \<le> MAXCHAR"
  shows "bindM (get_id x) (\<lambda>t. retM (Some (LT_WORD t))) p =
    (if charptr p + token_space (L_ID, x) \<le> MAXCHAR
     then Done (Some (token_of atof (L_ID, x))) (p\<lparr>charptr := charptr p + token_space (L_ID, x)\<rparr>) else Exit 1)"
  using assms
  by (simp add: get_id_def lower_def mk_string_def string_alloc_def comp_defs Let_def token_of_def token_space_def
      split: option.splits)

lemma get_qstring_quoted:
  assumes "2 \<le> length x"
  shows "get_qstring x (length x) p =
    (if charptr p + (length x - 1) \<le> MAXCHAR
     then Done (butlast (tl x)) (p\<lparr>charptr := charptr p + (length x - 1)\<rparr>) else Exit 1)"
proof -
  have "tl (take (length x - 1) x) = butlast (tl x)" using assms(1) by (simp add: butlast_conv_take tl_take)
  moreover have "take (Suc (length x - 2)) (butlast (tl x)) = butlast (tl x)" by simp
  moreover have "Suc (length x - 2) = length x - 1" using assms(1) by simp
  ultimately show ?thesis using assms
    by (simp add: get_qstring_def mk_string_def string_alloc_def comp_defs)
qed

lemma lexeme_action:
  assumes "r = L_INT \<Longrightarrow> x \<noteq> [] \<and> list_all isdigit x" and "r = L_QSTRING \<Longrightarrow> 2 \<le> length x"
    and "lexeme_fits (r, x)" and "charptr p \<le> MAXCHAR"
  shows "lex_action atof r x p =
    (if charptr p + token_space (r, x) \<le> MAXCHAR
     then Done (lexeme_token atof (r, x)) (p\<lparr>charptr := charptr p + token_space (r, x)\<rparr>) else Exit 1)"
proof (cases r)
  case L_INT
  then show ?thesis using assms
    by (simp add: atoi_digits lex_action_def lexeme_fits_def lexeme_token_def token_of_def token_space_def bindM_def retM_def)
next
  case L_ID
  then show ?thesis using assms get_id_word [of x p atof]
    by (simp add: lex_action_def lexeme_fits_def lexeme_token_def)
next
  case L_QSTRING
  then show ?thesis using assms get_qstring_quoted [of x p]
    by (simp add: lex_action_def lexeme_token_def token_of_def token_space_def bindM_def retM_def)
qed (use assms(4) in \<open>simp_all add: lex_action_def lexeme_token_def token_of_def token_space_def retM_def\<close>)

lemma scan_lexemes:
  assumes "list_all lexeme ls" and "list_all lexeme_fits ls" and "charptr p + sum_list (map token_space ls) \<le> MAXCHAR"
  shows "scan_text atof (spaced ls) p =
    Done (map (token_of atof) ls) (p\<lparr>charptr := charptr p + sum_list (map token_space ls)\<rparr>)"
  using assms
proof (induction ls arbitrary: p)
  case Nil
  then show ?case by (subst scan_text.simps) (simp add: spaced_def retM_def)
next
  case (Cons l ls)
  obtain r x where l: "l = (r, x)" by (cases l)
  let ?q = "p\<lparr>charptr := charptr p + token_space (r, x)\<rparr>"
  have s: "spaced (l # ls) = x @ CHR '' '' # spaced ls" by (simp add: spaced_def l)
  have x: "lexeme (r, x)" "lexeme_fits (r, x)" using Cons.prems l by simp_all
  then have a: "lex_action atof r x p = Done (Some (token_of atof (r, x))) ?q"
    using Cons.prems l by (subst lexeme_action) (auto simp: lexeme_def lexeme_token_def)
  have i: "scan_text atof (spaced ls) ?q =
      Done (map (token_of atof) ls) (?q\<lparr>charptr := charptr ?q + sum_list (map token_space ls)\<rparr>)"
    using Cons.prems l by (intro Cons.IH) (auto simp: add.assoc)
  have "longest (x @ CHR '' '' # spaced ls) = (r, length x)" using Cons.prems l by (intro longest_lexeme) simp
  then show ?case unfolding s
    by (subst scan_text.simps) (simp add: scan_space bindM_def a i retM_def l add.assoc)
qed

text \<open>C14: The scanner gives back the lexemes of a text.  If words, numbers, string constants and symbols are
  written one after the other with a space behind each, every word is shorter than the static
  buffer, every integer is an \<open>int\<close> and the words that are not reserved and the string constants fit into the
  string space, then the scanner delivers exactly the tokens of these lexemes, in their
  order, and has taken exactly their characters from the string space.\<close>
theorem scan_round_trip:
  assumes "list_all lexeme ls" and "list_all lexeme_fits ls" and "sum_list (map token_space ls) \<le> MAXCHAR"
  shows "init_scanner atof (spaced ls) p =
    Done (map (token_of atof) ls) (p\<lparr>charptr := sum_list (map token_space ls)\<rparr>)"
  using scan_lexemes [of ls "p\<lparr>charptr := 0\<rparr>" atof] assms
  by (simp add: init_scanner_def reset_charptr_def modM_def seqM_def bindM_def)

theorem scan_round_trip_witness:
  "init_scanner (\<lambda>x. 0) ''Select x <> 12 '' \<lparr>nodeptr = 0, charptr = 7\<rparr> =
    Done [LT_WORD RW_SELECT, LT_WORD (T_STRING ''x''), LT_COMP C_NE, LT_INT 12] \<lparr>nodeptr = 0, charptr = 2\<rparr>"
proof -
  let ?ls = "[(L_ID, ''Select''), (L_ID, ''x''), (L_LTGT, ''<>''), (L_INT, ''12'')]"
  have "list_all lexeme ?ls" by code_simp
  moreover have "list_all lexeme_fits ?ls" by code_simp
  moreover have "sum_list (map token_space ?ls) = 2" by code_simp
  moreover have "map (token_of (\<lambda>x. 0)) ?ls = [LT_WORD RW_SELECT, LT_WORD (T_STRING ''x''), LT_COMP C_NE, LT_INT 12]"
    by code_simp
  ultimately show ?thesis
    using scan_round_trip [of ?ls "\<lambda>x. 0" "\<lparr>nodeptr = 0, charptr = 7\<rparr>"] by (simp add: spaced_def MAXCHAR_def)
qed

section \<open>Any text\<close>

text \<open>The lexemes into which the rules divide a text.\<close>

function lexemes :: "string \<Rightarrow> (lex_rule \<times> string) list" where
  "lexemes s = (if s = [] then [] else case longest s of (r, n) \<Rightarrow> (r, take n s) # lexemes (drop n s))"
  by auto

termination
proof (relation "measure length", simp, goal_cases)
  case (1 s r n)
  then have "0 < n" using longest_pos [of s] by (metis snd_conv)
  then show ?case using 1 by simp
qed

declare lexemes.simps [simp del]

lemma lexemes_nil [simp]: "lexemes [] = []"
  by (simp add: lexemes.simps)

lemma lexemes_longest: "longest s = (r, n) \<Longrightarrow> s \<noteq> [] \<Longrightarrow> lexemes s = (r, take n s) # lexemes (drop n s)"
  by (simp add: lexemes.simps [of s])

lemma longest_match:
  assumes "longest s = (r, n)" and "s \<noteq> []"
  shows "0 < n \<and> n = match_len r s"
proof -
  have "snd (foldl (longer s) b rs) = snd b \<and> fst (foldl (longer s) b rs) = fst b \<or>
      snd (foldl (longer s) b rs) = match_len (fst (foldl (longer s) b rs)) s" for b rs
  proof (induction rs arbitrary: b)
    case (Cons q rs)
    from Cons.IH [of "longer s b q"] show ?case by (auto simp: longer_def)
  qed simp
  from this [of "(L_SPACE, 0)" lex_rules] longest_pos [OF assms(2)] assms(1) show ?thesis
    by (simp add: longest_def)
qed

lemma quoted_len_bounds: "quoted_len s = Some n \<Longrightarrow> 0 < n \<and> n \<le> length s"
  by (induction s arbitrary: n rule: quoted_len.induct) (fastforce split: if_splits list.splits option.splits)+

text \<open>What the first lexeme of a text is made of; an identifier extends as far as it can.\<close>

lemma first_lexeme:
  assumes "longest s = (r, n)" and "s \<noteq> []"
  shows "r = L_INT \<Longrightarrow> take n s \<noteq> [] \<and> list_all isdigit (take n s)"
    and "r = L_QSTRING \<Longrightarrow> 2 \<le> length (take n s)"
    and "r = L_ID \<Longrightarrow> drop n s = dropWhile is_word s"
    and "is_word (hd s) \<or> r \<noteq> L_ID"
    and "0 < n"
proof -
  have n: "0 < n" "n = match_len r s" using longest_match [OF assms] by simp_all
  show "0 < n" by (rule n(1))
  show "take n s \<noteq> [] \<and> list_all isdigit (take n s)" if "r = L_INT"
  proof -
    have "take n s = takeWhile isdigit s"
      using n(2) that by (simp add: match_len_def digits_len_def takeWhile_eq_take [symmetric])
    then show ?thesis using n(1) assms(2) by (auto simp: list_all_iff dest: set_takeWhileD)
  qed
  show "2 \<le> length (take n s)" if "r = L_QSTRING"
  proof -
    have "n = after_quote quoted_len s" using n(2) that by (simp add: match_len_def)
    then obtain c t m where t: "s = c # t" "quoted_len t = Some m" "n = m + 1"
      using n(1) by (cases s) (auto simp: after_quote_def split: option.splits if_splits)
    then show ?thesis using quoted_len_bounds [OF t(2)] by simp
  qed
  show "drop n s = dropWhile is_word s" if "r = L_ID"
    using n that by (simp add: match_len_def dropWhile_eq_drop [symmetric] split: if_splits)
  show "is_word (hd s) \<or> r \<noteq> L_ID"
    using n word_classes(2) by (auto simp: match_len_def split: if_splits)
qed

lemma lexemes_text: "concat (map snd (lexemes s)) = s"
proof (induction s rule: lexemes.induct)
  case (1 s)
  show ?case
  proof (cases "s = []")
    case False
    obtain r n where l: "longest s = (r, n)" by fastforce
    then show ?thesis using 1 [OF False l [symmetric]] False by (simp add: lexemes_longest)
  qed simp
qed

text \<open>
  Two identifiers are never adjacent, so the NUL of one is paid for by the character between it and
  the next; only the last one may need a character more than the text has.
\<close>

definition string_space :: "string \<Rightarrow> nat" where
  "string_space s = sum_list (map token_space (lexemes s))"

lemma token_space_le:
  "token_space (r, x) \<le> length x + 1"
  "r \<noteq> L_ID \<Longrightarrow> x \<noteq> [] \<Longrightarrow> token_space (r, x) \<le> length x - 1"
  by (cases r; simp add: token_space_def)+

lemma string_space_le:
  "string_space s \<le> length s + 1 \<and> (s = [] \<or> \<not> is_word (hd s) \<longrightarrow> string_space s \<le> length s)"
proof (induction s rule: lexemes.induct)
  case (1 s)
  show ?case
  proof (cases "s = []")
    case True
    then show ?thesis by (simp add: string_space_def)
  next
    case False
    obtain r n where l: "longest s = (r, n)" by fastforce
    let ?x = "take n s" and ?t = "drop n s"
    have s: "string_space s = token_space (r, ?x) + string_space ?t"
      using lexemes_longest [OF l False] by (simp add: string_space_def)
    have len: "length s = length ?x + length ?t" by simp
    note IH = 1 [OF False l [symmetric]]
    show ?thesis
    proof (cases "r = L_ID")
      case True
      then have "?t = [] \<or> \<not> is_word (hd ?t)"
        using first_lexeme(3) [OF l False] hd_dropWhile [of is_word s] by auto
      then have "string_space s \<le> length s + 1" using IH s token_space_le(1) [of r ?x] len by linarith
      then show ?thesis using first_lexeme(4) [OF l False] True False by simp
    next
      case r: False
      have x: "?x \<noteq> []" using first_lexeme(5) [OF l False] False by simp
      have "1 \<le> length ?x" using x by (metis One_nat_def Suc_leI length_greater_0_conv)
      moreover have "token_space (r, ?x) \<le> length ?x - 1" by (rule token_space_le(2) [OF r x])
      moreover have "string_space ?t \<le> length ?t + 1" using IH by (rule conjunct1)
      ultimately have "string_space s \<le> length s" using s len by linarith
      then show ?thesis by simp
    qed
  qed
qed

lemma scan_any:
  assumes "list_all lexeme_fits (lexemes s)" and "charptr p \<le> MAXCHAR"
  shows "scan_text atof s p =
    (if charptr p + string_space s \<le> MAXCHAR
     then Done (List.map_filter (lexeme_token atof) (lexemes s)) (p\<lparr>charptr := charptr p + string_space s\<rparr>)
     else Exit 1)"
  using assms
proof (induction s arbitrary: p rule: lexemes.induct)
  case (1 s)
  show ?case
  proof (cases "s = []")
    case True
    then show ?thesis using 1(3)
      by (subst scan_text.simps) (simp add: string_space_def retM_def map_filter_simps)
  next
    case False
    obtain r n where l: "longest s = (r, n)" by fastforce
    let ?x = "take n s" and ?t = "drop n s"
    have ls: "lexemes s = (r, ?x) # lexemes ?t" by (rule lexemes_longest [OF l False])
    have s: "string_space s = token_space (r, ?x) + string_space ?t" using ls by (simp add: string_space_def)
    have fits: "lexeme_fits (r, ?x)" "list_all lexeme_fits (lexemes ?t)" using 1(2) ls by simp_all
    have a: "lex_action atof r ?x p = (if charptr p + token_space (r, ?x) \<le> MAXCHAR
       then Done (lexeme_token atof (r, ?x)) (p\<lparr>charptr := charptr p + token_space (r, ?x)\<rparr>) else Exit 1)"
      by (rule lexeme_action [OF first_lexeme(1,2) [OF l False] fits(1) 1(3)])
    note IH = 1(1) [OF False l [symmetric] fits(2)]
    show ?thesis
    proof (cases "charptr p + token_space (r, ?x) \<le> MAXCHAR")
      case True
      then show ?thesis
        using IH [of "p\<lparr>charptr := charptr p + token_space (r, ?x)\<rparr>"] False l a s ls
        by (subst scan_text.simps) (simp add: bindM_def retM_def map_filter_simps add.assoc split: option.split)
    next
      case False
      then show ?thesis using \<open>s \<noteq> []\<close> l a s by (subst scan_text.simps) (simp add: bindM_def)
    qed
  qed
qed

text \<open>C18: The scanner on any text.  The lexemes divide the whole text, and the string space that they need
  exceeds the length of the text by at most one, so that a text of fewer than \<open>MAXCHAR\<close> characters never
  exhausts it.  If no word reaches the size of the static buffer and no integer exceeds an \<open>int\<close>, the scanner delivers
  the tokens of the lexemes in their order, without spaces, broken strings and illegal characters, and has taken
  exactly that space; a text that needs more than \<open>MAXCHAR\<close> ends the process.\<close>
theorem scanner_space_suffices:
  assumes "list_all lexeme_fits (lexemes s)"
  shows "concat (map snd (lexemes s)) = s \<and> string_space s \<le> length s + 1 \<and>
    init_scanner atof s p =
      (if string_space s \<le> MAXCHAR
       then Done (List.map_filter (lexeme_token atof) (lexemes s)) (p\<lparr>charptr := string_space s\<rparr>)
       else Exit 1)"
  using scan_any [OF assms, of "p\<lparr>charptr := 0\<rparr>" atof] lexemes_text [of s] string_space_le [of s]
  by (simp add: init_scanner_def reset_charptr_def modM_def seqM_def bindM_def)

lemma longest_letter: "longest (CHR ''a'' # CHR '','' # s) = (L_ID, 1)"
  by (simp add: longest_def lex_rules_def longer_def match_len_def one_of_def starts_def after_quote_def
      digits_len_def real_len_def exp_len_def isalpha_def isdigit_def is_word_def NEWLINE_def)

lemma longest_comma: "longest (CHR '','' # s) = (L_PUNCT, 1)"
  by (simp add: longest_def lex_rules_def longer_def match_len_def one_of_def starts_def after_quote_def
      digits_len_def real_len_def exp_len_def isalpha_def isdigit_def is_word_def NEWLINE_def)

lemma lexemes_listed: "lexemes (CHR ''a'' # CHR '','' # s) = (L_ID, ''a'') # (L_PUNCT, '','') # lexemes s"
  by (simp add: lexemes_longest [OF longest_letter] lexemes_longest [OF longest_comma])

text \<open>A text of 5000 characters that needs 5001, and a short one with an illegal character.\<close>

theorem scanner_space_suffices_witness:
  "(\<exists>s. length s = MAXCHAR \<and> string_space s = MAXCHAR + 1 \<and> init_scanner (\<lambda>x. 0) s \<lparr>nodeptr = 0, charptr = 0\<rparr> = Exit 1) \<and>
   init_scanner (\<lambda>x. 0) ''a=5#b'' \<lparr>nodeptr = 0, charptr = 7\<rparr> =
    Done [LT_WORD (T_STRING ''a''), LT_COMP C_EQ, LT_INT 5, LT_WORD (T_STRING ''b'')] \<lparr>nodeptr = 0, charptr = 4\<rparr>"
proof
  let ?s = "concat (replicate 2499 ''a,'') @ ''bc''"
  have last: "lexemes ''bc'' = [(L_ID, ''bc'')]" by code_simp
  have ls: "lexemes (concat (replicate n ''a,'') @ ''bc'') = concat (replicate n [(L_ID, ''a''), (L_PUNCT, '','')]) @ [(L_ID, ''bc'')]" for n
    by (induction n) (simp_all add: last lexemes_listed)
  have t: "token_space (L_ID, ''a'') = 2" "token_space (L_PUNCT, '','') = 0" "token_space (L_ID, ''bc'') = 3" by code_simp+
  have f: "lexeme_fits (L_ID, ''a'')" "lexeme_fits (L_PUNCT, '','')" "lexeme_fits (L_ID, ''bc'')" by code_simp+
  have fits: "list_all lexeme_fits (lexemes ?s)" unfolding ls by (simp add: list_all_iff f)
  have len: "length ?s = MAXCHAR" by (simp add: length_concat sum_list_replicate MAXCHAR_def)
  have "string_space (concat (replicate n ''a,'') @ ''bc'') = 2 * n + 3" for n
    unfolding string_space_def ls by (induction n) (simp_all add: t)
  from this [of 2499] have sp: "string_space ?s = MAXCHAR + 1" by (simp add: MAXCHAR_def)
  show "\<exists>s. length s = MAXCHAR \<and> string_space s = MAXCHAR + 1 \<and> init_scanner (\<lambda>x. 0) s \<lparr>nodeptr = 0, charptr = 0\<rparr> = Exit 1"
    using scanner_space_suffices [OF fits, of "\<lambda>x. 0" "\<lparr>nodeptr = 0, charptr = 0\<rparr>"] len sp
    by (intro exI [of _ ?s]) simp
  have l: "lexemes ''a=5#b'' = [(L_ID, ''a''), (L_EQ, ''=''), (L_INT, ''5''), (L_OTHER, ''#''), (L_ID, ''b'')]" by code_simp
  have "list_all lexeme_fits (lexemes ''a=5#b'')" unfolding l by code_simp
  moreover have "string_space ''a=5#b'' = 4" unfolding string_space_def l by code_simp
  moreover have "List.map_filter (lexeme_token (\<lambda>x. 0)) (lexemes ''a=5#b'') =
      [LT_WORD (T_STRING ''a''), LT_COMP C_EQ, LT_INT 5, LT_WORD (T_STRING ''b'')]" unfolding l by code_simp
  ultimately show "init_scanner (\<lambda>x. 0) ''a=5#b'' \<lparr>nodeptr = 0, charptr = 7\<rparr> =
    Done [LT_WORD (T_STRING ''a''), LT_COMP C_EQ, LT_INT 5, LT_WORD (T_STRING ''b'')] \<lparr>nodeptr = 0, charptr = 4\<rparr>"
    using scanner_space_suffices [of "''a=5#b''" "\<lambda>x. 0" "\<lparr>nodeptr = 0, charptr = 7\<rparr>"] by (simp add: MAXCHAR_def)
qed

end
