(* ===== verification/Sem_Spec.thy ===== *)
theory Sem_Spec
  imports Sem_Facts
begin

text \<open>
  What the semantic interpreter promises, operation by operation: how names are resolved, what
  \<open>SELECT *\<close> stands for, which range windows have a defined length and when two tables can be
  combined.
\<close>

section \<open>Names\<close>

lemma var_hits_card:
  assumes "tm_ok tm" and "sym_ok tm st"
  shows "var_hits tm a st 0 = [] \<longleftrightarrow> {x. attr_named tm st a x} = {}"
    and "(\<exists>x. var_hits tm a st 0 = [x] \<and> x = y) \<longleftrightarrow> {x. attr_named tm st a x} = {y}"
proof -
  note set = var_hits_all [OF assms, of a]
  show "var_hits tm a st 0 = [] \<longleftrightarrow> {x. attr_named tm st a x} = {}"
    using set by (metis set_empty)
  have "distinct (var_hits tm a st 0)"
    using var_hits_distinct [of tm a st 0] by (simp add: distinct_map)
  then show "(\<exists>x. var_hits tm a st 0 = [x] \<and> x = y) \<longleftrightarrow> {x. attr_named tm st a x} = {y}"
    unfolding set [symmetric]
    by (cases "var_hits tm a st 0") (auto simp: subset_singleton_iff)
qed

text \<open>C7: An attribute without variable is resolved iff exactly one attribute of that name occurs in
  the tables of the query, and then to that one; it is unknown iff there is none, and ambiguous iff
  there are several.  No attribute that comes first in the FROM clause wins.\<close>
theorem unqualified_resolution:
  assumes "tm_ok tm" and "sym_ok tm (symbolTable s)"
  shows "(interpretAttr tm (N_ATTR_REF None a) s = Done x s \<longleftrightarrow>
      {y. attr_named tm (symbolTable s) a y} = {x}) \<and>
    (interpretAttr tm (N_ATTR_REF None a) s = Fail UNKNOWN_ATTR_ERR s \<longleftrightarrow>
      {y. attr_named tm (symbolTable s) a y} = {}) \<and>
    (interpretAttr tm (N_ATTR_REF None a) s = Fail AMBIGUOUS_ATTR_ERR s \<longleftrightarrow>
      (\<exists>y z. y \<noteq> z \<and> attr_named tm (symbolTable s) a y \<and> attr_named tm (symbolTable s) a z))"
proof -
  let ?N = "{y. attr_named tm (symbolTable s) a y}"
  note eq = unqualified_eq [OF assms(2), of a] and hits = var_hits_card [OF assms, of a]
  have "(\<exists>y z. y \<noteq> z \<and> attr_named tm (symbolTable s) a y \<and> attr_named tm (symbolTable s) a z) \<longleftrightarrow>
      ?N \<noteq> {} \<and> (\<forall>y. ?N \<noteq> {y})" unfolding set_eq_iff by (simp, metis)
  then show ?thesis
    unfolding hits(1) [symmetric] hits(2) [symmetric] eq
    by (auto simp: error_defs split: list.splits)
qed

text \<open>Two streams with a common attribute name.\<close>

definition demo_tables :: table_manager where
  "demo_tables = \<lparr>tableList = [
     \<lparr>tableName = ''S'', tblIsStream = True,
      attrList = [\<lparr>attrName = ''a'', attrType = T_INT, attrLen = 4\<rparr>,
                  \<lparr>attrName = ''b'', attrType = T_FLOAT, attrLen = 4\<rparr>]\<rparr>,
     \<lparr>tableName = ''T'', tblIsStream = True,
      attrList = [\<lparr>attrName = ''a'', attrType = T_INT, attrLen = 4\<rparr>,
                  \<lparr>attrName = ''c'', attrType = T_FLOAT, attrLen = 4\<rparr>]\<rparr>]\<rparr>"

definition demo_state :: sem_state where
  "demo_state = \<lparr>symbolTable = [(''S'', 0), (''T'', 1)], semNumExprs = 0, qry = blank_query\<rparr>"

lemma demo_ok: "tm_ok demo_tables" "sym_ok demo_tables (symbolTable demo_state)" "tm_nonempty demo_tables"
  by (simp_all add: tm_ok_def tbl_ok_def sym_ok_def demo_tables_def demo_state_def limit_defs
      tm_nonempty_def)

theorem unqualified_resolution_witness:
  "interpretAttr demo_tables (N_ATTR_REF None ''c'') demo_state = Done \<lparr>sVarId = 1, sAttrId = 1\<rparr> demo_state \<and>
   interpretAttr demo_tables (N_ATTR_REF None ''a'') demo_state = Fail AMBIGUOUS_ATTR_ERR demo_state"
proof -
  have "attr_named demo_tables (symbolTable demo_state) ''c'' y \<longleftrightarrow> y = \<lparr>sVarId = 1, sAttrId = 1\<rparr>" for y
    by (cases y) (auto simp: attr_named_def demo_tables_def demo_state_def less_Suc_eq numeral_2_eq_2)
  moreover have "attr_named demo_tables (symbolTable demo_state) ''a'' \<lparr>sVarId = v, sAttrId = 0\<rparr>"
    if "v < 2" for v
    using that by (auto simp: attr_named_def demo_tables_def demo_state_def less_Suc_eq numeral_2_eq_2)
  from this [of 0] this [of 1] have "\<exists>y z. y \<noteq> z \<and> attr_named demo_tables (symbolTable demo_state) ''a'' y \<and>
      attr_named demo_tables (symbolTable demo_state) ''a'' z"
    by (intro exI [of _ "\<lparr>sVarId = 0, sAttrId = 0\<rparr>"] exI [of _ "\<lparr>sVarId = 1, sAttrId = 0\<rparr>"]) simp
  ultimately show ?thesis
    using unqualified_resolution [OF demo_ok(1,2), of "''c''" "\<lparr>sVarId = 1, sAttrId = 1\<rparr>"]
      unqualified_resolution [OF demo_ok(1,2), of "''a''" "\<lparr>sVarId = 1, sAttrId = 1\<rparr>"]
    by simp
qed

text \<open>An attribute with a variable is resolved to the attribute of that name in the table of that
  variable; an undeclared variable and an unknown attribute are the only errors, in this order.\<close>
theorem qualified_resolution:
  assumes "tm_ok tm" and "sym_ok tm (symbolTable s)"
  shows "(interpretAttr tm (N_ATTR_REF (Some v) a) s = Done x s \<longleftrightarrow>
      attr_named tm (symbolTable s) a x \<and> fst (symbolTable s ! sVarId x) = v) \<and>
    (v \<notin> fst ` set (symbolTable s) \<longrightarrow>
      interpretAttr tm (N_ATTR_REF (Some v) a) s = Fail UNKNOWN_VAR_ERR s) \<and>
    (v \<in> fst ` set (symbolTable s) \<longrightarrow>
      (\<nexists>x. attr_named tm (symbolTable s) a x \<and> fst (symbolTable s ! sVarId x) = v) \<longrightarrow>
      interpretAttr tm (N_ATTR_REF (Some v) a) s = Fail UNKNOWN_ATTR_ERR s)"
proof (cases "v \<in> fst ` set (symbolTable s)")
  case False
  then have "find_first (\<lambda>e. v = fst e) (symbolTable s) = None" by (force simp: find_first_None)
  then have "interpretAttr tm (N_ATTR_REF (Some v) a) s = Fail UNKNOWN_VAR_ERR s"
    by (simp add: interpretAttr_def interpretVarName_def comp_defs)
  then show ?thesis using False by (force simp: attr_named_def)
next
  case True
  then obtain i where i: "i < length (symbolTable s)" "fst (symbolTable s ! i) = v"
    by (auto simp: in_set_conv_nth)
  have uniq: "j = i" if "j < length (symbolTable s)" "fst (symbolTable s ! j) = v" for j
    using that i nth_eq_iff_index_eq [of "map fst (symbolTable s)" j i] assms(2) by (simp add: sym_ok_def)
  have ff: "find_first (\<lambda>e. v = fst e) (symbolTable s) = Some i"
    using i(1) by (rule find_first_unique) (use i(2) uniq in \<open>simp_all add: eq_commute [of v]\<close>)
  let ?t = "snd (symbolTable s ! i)"
  let ?as = "attrList (tableList tm ! ?t)"
  have t: "?t < length (tableList tm)" using assms(2) i(1) by (simp add: sym_ok_def)
  then have as: "distinct (map attrName ?as)"
    using tm_ok_tbl [OF assms(1)] by (simp add: tbl_ok_def)
  have found: "find_first (\<lambda>e. attrName e = a) ?as = Some k \<longleftrightarrow> k < length ?as \<and> attrName (?as ! k) = a" for k
  proof
    assume k: "k < length ?as \<and> attrName (?as ! k) = a"
    have "j = k" if "j < length ?as" "attrName (?as ! j) = a" for j
      using nth_eq_iff_index_eq [OF as, of j k] k that by simp
    then show "find_first (\<lambda>e. attrName e = a) ?as = Some k"
      using k by (intro find_first_unique) simp_all
  qed (simp add: find_first_Some)
  have eq: "interpretAttr tm (N_ATTR_REF (Some v) a) s =
      (case find_first (\<lambda>e. attrName e = a) ?as of None \<Rightarrow> Fail UNKNOWN_ATTR_ERR s
       | Some k \<Rightarrow> Done \<lparr>sVarId = i, sAttrId = k\<rparr> s)"
    using ff i t by (simp add: interpretAttr_def interpretVarName_def varTable_def getAttrId_def comp_defs
        split: option.split)
  have named: "attr_named tm (symbolTable s) a x \<and> fst (symbolTable s ! sVarId x) = v \<longleftrightarrow>
      sVarId x = i \<and> find_first (\<lambda>e. attrName e = a) ?as = Some (sAttrId x)" for x
  proof (cases "sVarId x = i")
    case True
    then show ?thesis using i unfolding attr_named_def found by simp
  next
    case False
    then show ?thesis using uniq [of "sVarId x"] unfolding attr_named_def by blast
  qed
  show ?thesis
  proof (cases "find_first (\<lambda>e. attrName e = a) ?as")
    case None
    then show ?thesis using True unfolding named eq by simp
  next
    case (Some k)
    have "x = \<lparr>sVarId = i, sAttrId = k\<rparr> \<longleftrightarrow> sVarId x = i \<and> sAttrId x = k" by (cases x) auto
    moreover have "\<exists>x :: sem_attr. sVarId x = i \<and> find_first (\<lambda>e. attrName e = a) ?as = Some (sAttrId x)"
      using Some by (intro exI [of _ "\<lparr>sVarId = i, sAttrId = k\<rparr>"]) simp
    ultimately show ?thesis using True Some unfolding named eq by auto
  qed
qed

theorem qualified_resolution_witness:
  "interpretAttr demo_tables (N_ATTR_REF (Some ''T'') ''a'') demo_state = Done \<lparr>sVarId = 1, sAttrId = 0\<rparr> demo_state"
  using qualified_resolution [OF demo_ok(1,2), of "''T''" "''a''" "\<lparr>sVarId = 1, sAttrId = 0\<rparr>"]
  by (simp add: attr_named_def demo_tables_def demo_state_def)

section \<open>Select star\<close>

text \<open>All attributes of the tables of the FROM clause.\<close>

definition table_exprs :: "table_manager \<Rightarrow> nat list \<Rightarrow> nat \<Rightarrow> sem_expr list" where
  "table_exprs tm refs v = map (\<lambda>a. SE_ATTR (attrType (attrList (tableList tm ! (refs ! v)) ! a))
     \<lparr>sVarId = v, sAttrId = a\<rparr>) [0 ..< length (attrList (tableList tm ! (refs ! v)))]"

definition star_exprs :: "table_manager \<Rightarrow> query \<Rightarrow> sem_expr list" where
  "star_exprs tm q = concat (map (table_exprs tm (refTables q)) (fromClauseTables q))"

text \<open>\<open>collects s acc new r\<close>: the loop has appended \<open>new\<close> to \<open>acc\<close>, or there were too many.\<close>

definition collects :: "sem_state \<Rightarrow> sem_expr list \<Rightarrow> sem_expr list \<Rightarrow> (sem_state, sem_expr list) comp \<Rightarrow> bool" where
  "collects s acc new m \<longleftrightarrow> wp m
     (\<lambda>es s'. es = acc @ new \<and> length es \<le> MAX_PROJ \<and> s' = s\<lparr>semNumExprs := semNumExprs s + length new\<rparr>)
     (\<lambda>rc s'. rc = - 1 \<and> MAX_PROJ < length (acc @ new)) s"

lemma foldM_collects:
  assumes "length acc \<le> MAX_PROJ" and "semNumExprs s + (MAX_PROJ - length acc) \<le> NUM_EXPRS"
    and "\<And>acc s' x. x \<in> set xs \<Longrightarrow> length acc \<le> MAX_PROJ \<Longrightarrow> qry s' = qry s \<Longrightarrow>
      semNumExprs s' + (MAX_PROJ - length acc) \<le> NUM_EXPRS \<Longrightarrow> collects s' acc (g x) (f acc x)"
  shows "collects s acc (concat (map g xs)) (foldM f acc xs)"
  using assms
proof (induction xs arbitrary: acc s)
  case Nil
  then show ?case by (simp add: collects_def)
next
  case (Cons x xs)
  have "collects s acc (g x) (f acc x)" using Cons.prems by simp
  then show ?case
    unfolding foldM.simps collects_def
  proof (rule wp_bindI)
    fix es s'
    assume es: "es = acc @ g x \<and> length es \<le> MAX_PROJ \<and>
      s' = s\<lparr>semNumExprs := semNumExprs s + length (g x)\<rparr>"
    then have "collects s' es (concat (map g xs)) (foldM f es xs)"
      using Cons.prems by (intro Cons.IH) auto
    then show "wp (foldM f es xs) (\<lambda>es s'. es = acc @ concat (map g (x # xs)) \<and> length es \<le> MAX_PROJ \<and>
        s' = s\<lparr>semNumExprs := semNumExprs s + length (concat (map g (x # xs)))\<rparr>)
      (\<lambda>rc s'. rc = - 1 \<and> MAX_PROJ < length (acc @ concat (map g (x # xs)))) s'"
      unfolding collects_def by (rule wp_mono) (use es in \<open>auto simp: add.assoc\<close>)
  qed auto
qed

lemma starAttr_collects:
  assumes "attr_valid tm t a" and "length acc \<le> MAX_PROJ"
    and "semNumExprs s + (MAX_PROJ - length acc) \<le> NUM_EXPRS"
  shows "collects s acc [SE_ATTR (attrType (attrList (tableList tm ! t) ! a)) \<lparr>sVarId = v, sAttrId = a\<rparr>]
    (starAttr tm v t acc a)"
  using assms by (auto simp: collects_def starAttr_def newExpr_wp)

lemma starTable_collects:
  assumes "v < length (refTables (qry s))" and "refs_ok tm (refTables (qry s))"
    and "length acc \<le> MAX_PROJ" and "semNumExprs s + (MAX_PROJ - length acc) \<le> NUM_EXPRS"
  shows "collects s acc (table_exprs tm (refTables (qry s)) v) (starTable tm acc v)"
proof -
  let ?t = "refTables (qry s) ! v"
  have t: "?t < length (tableList tm)" using assms(1,2) by (auto simp: refs_ok_def)
  let ?e = "\<lambda>a. SE_ATTR (attrType (attrList (tableList tm ! ?t) ! a)) \<lparr>sVarId = v, sAttrId = a\<rparr>"
  have "collects s acc (concat (map (\<lambda>a. [?e a]) [0 ..< length (attrList (tableList tm ! ?t))]))
      (foldM (starAttr tm v ?t) acc [0 ..< length (attrList (tableList tm ! ?t))])"
    using assms(3,4) t by (intro foldM_collects starAttr_collects) (auto simp: attr_valid_def)
  then have "collects s acc (table_exprs tm (refTables (qry s)) v)
      (foldM (starAttr tm v ?t) acc [0 ..< length (attrList (tableList tm ! ?t))])"
    by (simp add: table_exprs_def)
  then show ?thesis using assms(1) t by (simp add: starTable_def collects_def)
qed

text \<open>\<open>SELECT *\<close> stands for all attributes of all tables of the FROM clause, in order, each with
  its type and its variable, also when a table occurs twice; it fails exactly when these are more than
  \<open>MAX_PROJ\<close>.\<close>
theorem select_star:
  assumes "refs_ok tm (refTables (qry s))" and "from_ok tm (qry s)"
    and "semNumExprs s + MAX_PROJ \<le> NUM_EXPRS"
  shows "wp (interpretStarInSelect tm)
    (\<lambda>_ s'. length (star_exprs tm (qry s)) \<le> MAX_PROJ \<and>
       s' = s\<lparr>semNumExprs := semNumExprs s + length (star_exprs tm (qry s)),
              qry := (qry s)\<lparr>projExprs := star_exprs tm (qry s)\<rparr>\<rparr>)
    (\<lambda>rc s'. rc = - 1 \<and> MAX_PROJ < length (star_exprs tm (qry s))) s"
proof -
  have "collects s [] (star_exprs tm (qry s)) (foldM (starTable tm) [] (fromClauseTables (qry s)))"
    unfolding star_exprs_def
  proof (rule foldM_collects)
    fix acc :: "sem_expr list" and v and s' :: sem_state
    assume v: "v \<in> set (fromClauseTables (qry s))" and s': "qry s' = qry s"
      and l: "length acc \<le> MAX_PROJ" "semNumExprs s' + (MAX_PROJ - length acc) \<le> NUM_EXPRS"
    have "v < length (refTables (qry s))" using v assms(2) by (auto simp: from_ok_def in_set_conv_nth)
    then show "collects s' acc (table_exprs tm (refTables (qry s)) v) (starTable tm acc v)"
      using starTable_collects [of v s' tm acc] assms(1) l s' by simp
  qed (use assms in auto)
  then have "wp (bindM (foldM (starTable tm) [] (fromClauseTables (qry s)))
      (\<lambda>es. setQ (\<lambda>q. q\<lparr>projExprs := es\<rparr>)))
    (\<lambda>_ s'. length (star_exprs tm (qry s)) \<le> MAX_PROJ \<and>
       s' = s\<lparr>semNumExprs := semNumExprs s + length (star_exprs tm (qry s)),
              qry := (qry s)\<lparr>projExprs := star_exprs tm (qry s)\<rparr>\<rparr>)
    (\<lambda>rc s'. rc = - 1 \<and> MAX_PROJ < length (star_exprs tm (qry s))) s"
    unfolding collects_def by (rule wp_bindI) auto
  then show ?thesis by (simp add: interpretStarInSelect_def)
qed

theorem select_star_witness:
  "let s = demo_state\<lparr>qry := blank_query\<lparr>refTables := [0, 1], fromClauseTables := [0, 1],
      winSpec := [Some WS_UNBOUNDED, Some WS_UNBOUNDED]\<rparr>\<rparr>
   in wp (interpretStarInSelect demo_tables) (\<lambda>_ s'. projExprs (qry s') =
     [SE_ATTR T_INT \<lparr>sVarId = 0, sAttrId = 0\<rparr>, SE_ATTR T_FLOAT \<lparr>sVarId = 0, sAttrId = 1\<rparr>,
      SE_ATTR T_INT \<lparr>sVarId = 1, sAttrId = 0\<rparr>, SE_ATTR T_FLOAT \<lparr>sVarId = 1, sAttrId = 1\<rparr>])
     (\<lambda>_ _. False) s"
proof -
  let ?s = "demo_state\<lparr>qry := blank_query\<lparr>refTables := [0, 1], fromClauseTables := [0, 1],
      winSpec := [Some WS_UNBOUNDED, Some WS_UNBOUNDED]\<rparr>\<rparr>"
  have "star_exprs demo_tables (qry ?s) =
     [SE_ATTR T_INT \<lparr>sVarId = 0, sAttrId = 0\<rparr>, SE_ATTR T_FLOAT \<lparr>sVarId = 0, sAttrId = 1\<rparr>,
      SE_ATTR T_INT \<lparr>sVarId = 1, sAttrId = 0\<rparr>, SE_ATTR T_FLOAT \<lparr>sVarId = 1, sAttrId = 1\<rparr>]"
    by (simp add: star_exprs_def table_exprs_def demo_tables_def upt_rec)
  moreover have "refs_ok demo_tables (refTables (qry ?s))" "from_ok demo_tables (qry ?s)"
      "semNumExprs ?s + MAX_PROJ \<le> NUM_EXPRS"
    by (auto simp: refs_ok_def from_ok_def demo_tables_def demo_state_def less_Suc_eq MAX_PROJ_def
        NUM_EXPRS_def)
  note select_star [OF this]
  ultimately show ?thesis
    unfolding Let_def by (elim wp_mono) (auto simp: MAX_PROJ_def)
qed

section \<open>Windows and binary operators\<close>

text \<open>C15: A range window of a length that the scanner can produce is interpreted without undefined
  behaviour iff its length in seconds fits into an \<open>int\<close>, and then the window has that length; for
  longer ones (68 years, that is 24856 DAYS) the multiplication overflows.\<close>
theorem range_window_length:
  assumes "0 \<le> len" and "len < 2 ^ 31"
  shows "interpretRangeWin (Some (N_TIME_SPEC u len)) s =
    (if len * unit_seconds u < 2 ^ 31 then Done (WS_RANGE (nat (len * unit_seconds u))) s else Undef)"
proof -
  note w = interpretRangeWin_wp [OF assms, of u]
  show ?thesis
  proof (cases "len * unit_seconds u < 2 ^ 31")
    case True
    then have "wp (interpretRangeWin (Some (N_TIME_SPEC u len)))
        (\<lambda>w s'. w = WS_RANGE (nat (len * unit_seconds u)) \<and> s' = s) (\<lambda>_ _. False) s"
      by (simp add: w)
    then show ?thesis using True by (auto dest: wp_success)
  next
    case False
    then have "\<not> wp (interpretRangeWin (Some (N_TIME_SPEC u len))) (\<lambda>_ _. True) (\<lambda>_ _. True) s"
      by (simp add: w)
    moreover have "interpretRangeWin (Some (N_TIME_SPEC u len)) s \<noteq> Exit n" for n
      by (cases u) (simp_all add: interpretRangeWin_def int_mul_def comp_defs)
    ultimately show ?thesis using False by (auto simp: wp_def split: outcome.splits)
  qed
qed

theorem range_window_length_witness:
  "interpretRangeWin (Some (N_TIME_SPEC DAY 24855)) demo_state = Done (WS_RANGE 2147472000) demo_state \<and>
   interpretRangeWin (Some (N_TIME_SPEC DAY 24856)) demo_state = Undef"
  using range_window_length [of 24855 DAY demo_state] range_window_length [of 24856 DAY demo_state]
  by (simp add: unit_seconds_def)

text \<open>\<open>schemaCompatible\<close> accepts two tables iff they have the same number of attributes and
  position by position the same types; it looks at no attribute beyond the schema.\<close>
theorem schemaCompatible_iff:
  assumes "t1 < numTables tm" and "t2 < numTables tm"
  shows "schemaCompatible tm t1 t2 s =
    Done (map attrType (attrList (tableList tm ! t1)) = map attrType (attrList (tableList tm ! t2))) s"
proof -
  have "wp (schemaCompatible tm t1 t2)
     (\<lambda>b s'. b = (map attrType (attrList (tableList tm ! t1)) = map attrType (attrList (tableList tm ! t2))) \<and>
        s' = s) (\<lambda>_ _. False) s"
    using assms by (simp add: schemaCompatible_wp numTables_def)
  then show ?thesis by (auto dest: wp_success)
qed

theorem schemaCompatible_iff_witness: "schemaCompatible demo_tables 0 1 demo_state = Done True demo_state"
  using schemaCompatible_iff [of 0 demo_tables 1 demo_state] by (simp add: demo_tables_def numTables_def)

end
