(* ===== verification/Log_Op.thy ===== *)
theory Log_Op
  imports Table_Manager
begin

text \<open>
  \<open>include/querygen/logop.h\<close>, \<open>src/querygen/logop.cc\<close> and \<open>src/querygen/logexpr.cc\<close>: logical
  operators and expressions.

  The operators live in a pool and point at each other (\<open>inputs\<close> down, \<open>output\<close> up), and the
  transformations change them in place: the model keeps the pool as a heap from addresses
  \<open>0 \<dots> MAXOPERATOR - 1\<close> to records.  The kind of an operator and the member of its union
  that belongs to the kind form one datatype.  An array with its counter is a list, so
  \<open>numOutAttrs\<close> is the length of \<open>outAttrs\<close> and \<open>numInputs\<close> that of \<open>inputs\<close>.

  Expressions are never changed once built: a pointer to one is the tree below it, a null
  pointer is \<open>None\<close>, and the pool of expressions is its counter \<open>expr_ptr\<close>.
\<close>

section \<open>Attributes and expressions\<close>

datatype lattr =
    A_NAMED nat nat nat             \<comment> \<open>\<open>varId\<close>, \<open>tableId\<close>, \<open>attrId\<close>\<close>
  | A_AGGR nat nat nat aggr_fn      \<comment> \<open>\<open>varId\<close>, \<open>tableId\<close>, \<open>attrId\<close>, \<open>fn\<close>\<close>
  | A_UNNAMED ctype

text \<open>
  \<open>operator ==\<close> on attributes (the same function in \<open>logop.cc\<close>, \<open>log_naive_plan_gen.cc\<close> and
  \<open>log_plan_gen.cc\<close>): an unnamed attribute is not equal to anything, itself included.
\<close>

fun attr_eq :: "lattr \<Rightarrow> lattr \<Rightarrow> bool" where
  "attr_eq (A_NAMED v t a) (A_NAMED v' t' a') = (v = v' \<and> t = t' \<and> a = a')"
| "attr_eq (A_AGGR v t a f) (A_AGGR v' t' a' f') = (v = v' \<and> t = t' \<and> a = a' \<and> f = f')"
| "attr_eq _ _ = False"

datatype lexpr =
    LE_CONST cval
  | LE_ATTR ctype lattr
  | LE_COMP ctype arith_op lexpr lexpr

fun lexpr_type :: "lexpr \<Rightarrow> ctype" where
  "lexpr_type (LE_CONST c) = cval_type c"
| "lexpr_type (LE_ATTR t _) = t"
| "lexpr_type (LE_COMP t _ _ _) = t"

record lbexpr =
  lbOp :: comp_op
  lbLeft :: "lexpr option"
  lbRight :: "lexpr option"

section \<open>Operators\<close>

definition MAX_INPUT_OPS :: nat where "MAX_INPUT_OPS = 10"
definition LOP_GROUP_ATTRS :: nat where "LOP_GROUP_ATTRS = 10"
definition MAX_AGGR_ATTRS :: nat where "MAX_AGGR_ATTRS = 10"
definition MAXOPERATOR :: nat where "MAXOPERATOR = 500"
definition MAXEXPR :: nat where "MAXEXPR = 500"

lemmas lop_limits = MAX_INPUT_OPS_def LOP_GROUP_ATTRS_def MAX_AGGR_ATTRS_def

datatype lkind =
    LO_STREAM_SOURCE nat nat                  \<comment> \<open>\<open>varId\<close>, \<open>strId\<close>\<close>
  | LO_RELN_SOURCE nat nat                    \<comment> \<open>\<open>varId\<close>, \<open>relId\<close>\<close>
  | LO_ROW_WIN nat
  | LO_RANGE_WIN nat
  | LO_NOW_WIN
  | LO_PARTN_WIN "lattr list" nat             \<comment> \<open>\<open>partnAttrs\<close>, \<open>numRows\<close>\<close>
  | LO_SELECT lbexpr
  | LO_PROJECT "lexpr list"
  | LO_CROSS
  | LO_GROUP_AGGR "lattr list" "(lattr \<times> aggr_fn) list"
  | LO_DISTINCT
  | LO_ISTREAM
  | LO_DSTREAM
  | LO_RSTREAM
  | LO_STREAM_CROSS
  | LO_UNION
  | LO_EXCEPT

text \<open>The members of an operator that are not pointers, and the operator.\<close>

record linfo =
  lkind :: lkind
  outAttrs :: "lattr list"
  bStream :: bool

record lop = linfo +
  loutput :: "nat option"
  linputs :: "nat list"

record lstate =
  opHeap :: "nat \<Rightarrow> lop"
  operator_ptr :: nat
  expr_ptr :: nat

definition reset_op_pool :: "(lstate, unit) comp" where
  "reset_op_pool = modM (\<lambda>s. s\<lparr>operator_ptr := 0\<rparr>)"

definition reset_expr_pool :: "(lstate, unit) comp" where
  "reset_expr_pool = modM (\<lambda>s. s\<lparr>expr_ptr := 0\<rparr>)"

text \<open>Reads and writes through an operator pointer.\<close>

definition getOp :: "nat \<Rightarrow> (lstate, lop) comp" where
  "getOp p = readM (\<lambda>s. opHeap s p)"

definition setOp :: "nat \<Rightarrow> (lop \<Rightarrow> lop) \<Rightarrow> (lstate, unit) comp" where
  "setOp p f = modM (\<lambda>s. s\<lparr>opHeap := (opHeap s)(p := f (opHeap s p))\<rparr>)"

text \<open>\<open>op -> inputs [i]\<close> and \<open>op -> inputs [i] = q\<close>\<close>

definition inputAt :: "nat \<Rightarrow> nat \<Rightarrow> (lstate, nat) comp" where
  "inputAt p i = bindM (getOp p) (\<lambda>op. nthM (linputs op) i)"

definition setInput :: "nat \<Rightarrow> nat \<Rightarrow> nat \<Rightarrow> (lstate, unit) comp" where
  "setInput p i q =
    bindM (getOp p) (\<lambda>op.
    seqM (ensureM (i < length (linputs op)))
      (setOp p (\<lambda>op. op\<lparr>linputs := (linputs op)[i := q]\<rparr>)))"

definition setOutput :: "nat \<Rightarrow> nat option \<Rightarrow> (lstate, unit) comp" where
  "setOutput p q = setOp p (\<lambda>op. op\<lparr>loutput := q\<rparr>)"

text \<open>
  \<open>newop\<close> sets the kind and clears \<open>output\<close>; every other member keeps what the element of
  the pool held before.
\<close>

definition newop :: "lkind \<Rightarrow> (lstate, nat option) comp" where
  "newop k =
    bindM (readM operator_ptr) (\<lambda>n.
    if n = MAXOPERATOR then retM None
    else seqM (modM (\<lambda>s. s\<lparr>operator_ptr := n + 1\<rparr>))
        (seqM (setOp n (\<lambda>op. op\<lparr>lkind := k, loutput := None\<rparr>)) (retM (Some n))))"

text \<open>The pattern \<open>if (!op) return 0; ...\<close> of all constructors.\<close>

definition withNew :: "lkind \<Rightarrow> (nat \<Rightarrow> (lstate, unit) comp) \<Rightarrow> (lstate, nat option) comp" where
  "withNew k body =
    bindM (newop k) (\<lambda>r.
    case r of None \<Rightarrow> retM None | Some op \<Rightarrow> seqM (body op) (retM (Some op)))"

subsection \<open>Schemas\<close>

definition append_schema :: "nat \<Rightarrow> nat \<Rightarrow> (lstate, bool) comp" where
  "append_schema dest src =
    bindM (getOp dest) (\<lambda>d.
    bindM (getOp src) (\<lambda>s.
    if length (outAttrs d) + length (outAttrs s) > MAX_ATTRS then retM False
    else seqM (setOp dest (\<lambda>op. op\<lparr>outAttrs := outAttrs d @ outAttrs s\<rparr>)) (retM True)))"

definition copy_schema :: "nat \<Rightarrow> nat \<Rightarrow> (lstate, unit) comp" where
  "copy_schema dest src =
    bindM (getOp src) (\<lambda>s. setOp dest (\<lambda>op. op\<lparr>outAttrs := outAttrs s\<rparr>))"

section \<open>Constructors\<close>

definition source_attrs :: "nat \<Rightarrow> nat \<Rightarrow> nat \<Rightarrow> lattr list" where
  "source_attrs varId tableId n = map (A_NAMED varId tableId) [0 ..< n]"

definition mk_stream_source ::
    "table_manager \<Rightarrow> nat \<Rightarrow> nat \<Rightarrow> (lstate, nat option) comp" where
  "mk_stream_source tm varId strId =
    withNew (LO_STREAM_SOURCE varId strId) (\<lambda>op.
      bindM (getNumAttrs tm strId) (\<lambda>n.
      seqM (ensureM (n \<le> MAX_ATTRS))
      (setOp op (\<lambda>x. x\<lparr>outAttrs := source_attrs varId strId n,
                       bStream := True, linputs := []\<rparr>))))"

definition mk_reln_source ::
    "table_manager \<Rightarrow> nat \<Rightarrow> nat \<Rightarrow> (lstate, nat option) comp" where
  "mk_reln_source tm varId relnId =
    withNew (LO_RELN_SOURCE varId relnId) (\<lambda>op.
      bindM (getNumAttrs tm relnId) (\<lambda>n.
      seqM (ensureM (n \<le> MAX_ATTRS))
      (setOp op (\<lambda>x. x\<lparr>outAttrs := source_attrs varId relnId n,
                       bStream := False, linputs := []\<rparr>))))"

text \<open>
  The body shared by the constructors that copy the schema of one input: \<open>stream\<close> is the new
  \<open>bStream\<close>, computed from the input.
\<close>

definition unary :: "nat \<Rightarrow> (lop \<Rightarrow> bool) \<Rightarrow> nat \<Rightarrow> (lstate, unit) comp" where
  "unary inp stream op =
    seqM (copy_schema op inp)
    (bindM (getOp inp) (\<lambda>i.
     seqM (setOp op (\<lambda>x. x\<lparr>linputs := [inp], bStream := stream i\<rparr>))
     (setOutput inp (Some op))))"

definition mk_range_window :: "nat \<Rightarrow> nat \<Rightarrow> (lstate, nat option) comp" where
  "mk_range_window inp timeUnits = withNew (LO_RANGE_WIN timeUnits) (unary inp (\<lambda>_. False))"

definition mk_row_window :: "nat \<Rightarrow> nat \<Rightarrow> (lstate, nat option) comp" where
  "mk_row_window inp numRows = withNew (LO_ROW_WIN numRows) (unary inp (\<lambda>_. False))"

definition mk_now_window :: "nat \<Rightarrow> (lstate, nat option) comp" where
  "mk_now_window inp = withNew LO_NOW_WIN (unary inp (\<lambda>_. False))"

definition mk_partn_window :: "nat \<Rightarrow> nat \<Rightarrow> (lstate, nat option) comp" where
  "mk_partn_window inp numRows = withNew (LO_PARTN_WIN [] numRows) (unary inp (\<lambda>_. False))"

definition partn_window_add_attr :: "nat \<Rightarrow> lattr \<Rightarrow> (lstate, nat option) comp" where
  "partn_window_add_attr pwin attr =
    bindM (getOp pwin) (\<lambda>op.
    case lkind op of
      LO_PARTN_WIN as n \<Rightarrow>
        if length as = LOP_GROUP_ATTRS then retM None
        else seqM (setOp pwin (\<lambda>x. x\<lparr>lkind := LO_PARTN_WIN (as @ [attr]) n\<rparr>)) (retM (Some pwin))
    | _ \<Rightarrow> undefM)"

definition mk_select :: "nat \<Rightarrow> lbexpr \<Rightarrow> (lstate, nat option) comp" where
  "mk_select inp bexpr = withNew (LO_SELECT bexpr) (unary inp bStream)"

definition mk_project :: "nat \<Rightarrow> (lstate, nat option) comp" where
  "mk_project inp =
    withNew (LO_PROJECT []) (\<lambda>op.
      bindM (getOp inp) (\<lambda>i.
      seqM (setOp op (\<lambda>x. x\<lparr>outAttrs := [], bStream := bStream i, linputs := [inp]\<rparr>))
      (setOutput inp (Some op))))"

text \<open>The output attribute of a projection expression.\<close>

fun project_attr :: "lexpr \<Rightarrow> lattr" where
  "project_attr (LE_ATTR t a) = a"
| "project_attr e = A_UNNAMED (lexpr_type e)"

text \<open>
  The counter of \<open>projExprs\<close> is \<open>numOutAttrs\<close>: the two arrays grow together from the moment
  \<open>mk_project\<close> sets the counter to 0.
\<close>

definition add_project_expr :: "nat \<Rightarrow> lexpr option \<Rightarrow> (lstate, nat option) comp" where
  "add_project_expr proj expr =
    bindM (getOp proj) (\<lambda>op.
    if length (outAttrs op) = MAX_ATTRS then retM None
    else
      bindM (derefM expr) (\<lambda>e.
      case lkind op of
        LO_PROJECT es \<Rightarrow>
          seqM (setOp proj (\<lambda>x. x\<lparr>lkind := LO_PROJECT (es @ [e]),
                                  outAttrs := outAttrs op @ [project_attr e]\<rparr>))
            (retM (Some proj))
      | _ \<Rightarrow> undefM))"

definition mk_cross :: "(lstate, nat option) comp" where
  "mk_cross = withNew LO_CROSS (\<lambda>op.
     setOp op (\<lambda>x. x\<lparr>outAttrs := [], bStream := True, linputs := []\<rparr>))"

definition cross_add_input :: "nat \<Rightarrow> nat \<Rightarrow> (lstate, nat option) comp" where
  "cross_add_input cross inp =
    bindM (getOp cross) (\<lambda>c.
    bindM (getOp inp) (\<lambda>i.
    if length (outAttrs c) + length (outAttrs i) > MAX_ATTRS then retM None
    else if length (linputs c) = MAX_INPUT_OPS then retM None
    else
      seqM (setOp cross (\<lambda>x. x\<lparr>linputs := linputs c @ [inp],
                               outAttrs := outAttrs c @ outAttrs i,
                               bStream := (if bStream i then bStream c else False)\<rparr>))
      (seqM (setOutput inp (Some cross)) (retM (Some cross)))))"

definition mk_group_aggr :: "nat \<Rightarrow> (lstate, nat option) comp" where
  "mk_group_aggr inp =
    withNew (LO_GROUP_AGGR [] []) (\<lambda>op.
      seqM (setOp op (\<lambda>x. x\<lparr>outAttrs := [], bStream := False, linputs := [inp]\<rparr>))
      (setOutput inp (Some op)))"

text \<open>
  The two functions check their own array, but the write to \<open>outAttrs\<close>, which holds the group
  attributes and the aggregations together, is not checked.
\<close>

definition add_group_attr :: "nat \<Rightarrow> lattr \<Rightarrow> (lstate, nat option) comp" where
  "add_group_attr gop attr =
    bindM (getOp gop) (\<lambda>op.
    case lkind op of
      LO_GROUP_AGGR gs as \<Rightarrow>
        if length gs = LOP_GROUP_ATTRS then retM None
        else seqM (ensureM (length (outAttrs op) < MAX_ATTRS))
            (seqM (setOp gop (\<lambda>x. x\<lparr>lkind := LO_GROUP_AGGR (gs @ [attr]) as,
                                    outAttrs := outAttrs op @ [attr]\<rparr>))
              (retM (Some gop)))
    | _ \<Rightarrow> undefM)"

text \<open>For an aggregated attribute that is not named, only one that is unnamed has a type.\<close>

definition aggr_out_attr :: "aggr_fn \<Rightarrow> lattr \<Rightarrow> ('s, lattr) comp" where
  "aggr_out_attr fn attr =
    (case attr of
      A_NAMED v t a \<Rightarrow> retM (A_AGGR v t a fn)
    | A_UNNAMED ty \<Rightarrow> retM (A_UNNAMED (getOutputType fn ty))
    | A_AGGR v t a f \<Rightarrow> undefM)"

definition add_aggr :: "nat \<Rightarrow> aggr_fn \<Rightarrow> lattr \<Rightarrow> (lstate, nat option) comp" where
  "add_aggr gop fn attr =
    bindM (getOp gop) (\<lambda>op.
    case lkind op of
      LO_GROUP_AGGR gs as \<Rightarrow>
        if length as = MAX_AGGR_ATTRS then retM None
        else seqM (ensureM (length (outAttrs op) < MAX_ATTRS))
            (bindM (aggr_out_attr fn attr) (\<lambda>new.
             seqM (setOp gop (\<lambda>x. x\<lparr>lkind := LO_GROUP_AGGR gs (as @ [(attr, fn)]),
                                     outAttrs := outAttrs op @ [new]\<rparr>))
               (retM (Some gop))))
    | _ \<Rightarrow> undefM)"

definition mk_distinct :: "nat \<Rightarrow> (lstate, nat option) comp" where
  "mk_distinct inp = withNew LO_DISTINCT (unary inp bStream)"

definition mk_istream :: "nat \<Rightarrow> (lstate, nat option) comp" where
  "mk_istream inp = withNew LO_ISTREAM (unary inp (\<lambda>_. True))"

definition mk_dstream :: "nat \<Rightarrow> (lstate, nat option) comp" where
  "mk_dstream inp = withNew LO_DSTREAM (unary inp (\<lambda>_. True))"

definition mk_rstream :: "nat \<Rightarrow> (lstate, nat option) comp" where
  "mk_rstream inp = withNew LO_RSTREAM (unary inp (\<lambda>_. True))"

definition mk_stream_cross :: "nat \<Rightarrow> (lstate, nat option) comp" where
  "mk_stream_cross inp = withNew LO_STREAM_CROSS (unary inp (\<lambda>_. True))"

text \<open>The input is linked in before the number of attributes is checked.\<close>

definition stream_cross_add_input :: "nat \<Rightarrow> nat \<Rightarrow> (lstate, nat option) comp" where
  "stream_cross_add_input op inp =
    bindM (getOp op) (\<lambda>c.
    if length (linputs c) = MAX_INPUT_OPS then retM None
    else
      seqM (setOp op (\<lambda>x. x\<lparr>linputs := linputs c @ [inp]\<rparr>))
      (seqM (setOutput inp (Some op))
      (bindM (getOp op) (\<lambda>c.
       bindM (getOp inp) (\<lambda>i.
       if length (outAttrs c) + length (outAttrs i) > MAX_ATTRS then retM None
       else seqM (setOp op (\<lambda>x. x\<lparr>outAttrs := outAttrs c @ outAttrs i\<rparr>)) (retM (Some op)))))))"

subsection \<open>Binary operators\<close>

definition logAttrType :: "table_manager \<Rightarrow> lattr \<Rightarrow> ('s, ctype) comp" where
  "logAttrType tm attr =
    (case attr of
      A_NAMED v t a \<Rightarrow> getAttrType tm t a
    | A_AGGR v t a fn \<Rightarrow> bindM (getAttrType tm t a) (\<lambda>ty. retM (getOutputType fn ty))
    | A_UNNAMED ty \<Rightarrow> retM ty)"

definition binary_op ::
    "table_manager \<Rightarrow> nat \<Rightarrow> nat \<Rightarrow> (bool \<Rightarrow> bool \<Rightarrow> bool) \<Rightarrow> nat \<Rightarrow> (lstate, unit) comp" where
  "binary_op tm left right stream op =
    bindM (getOp left) (\<lambda>l.
    bindM (getOp right) (\<lambda>r.
    bindM (mapM (logAttrType tm) (outAttrs l)) (\<lambda>types.
    seqM (setOp op (\<lambda>x. x\<lparr>outAttrs := map A_UNNAMED types,
                          bStream := stream (bStream l) (bStream r),
                          linputs := [left, right], loutput := None\<rparr>))
    (seqM (setOutput left (Some op)) (setOutput right (Some op))))))"

definition mk_union :: "table_manager \<Rightarrow> nat \<Rightarrow> nat \<Rightarrow> (lstate, nat option) comp" where
  "mk_union tm left right = withNew LO_UNION (binary_op tm left right (\<and>))"

definition mk_except :: "table_manager \<Rightarrow> nat \<Rightarrow> nat \<Rightarrow> (lstate, nat option) comp" where
  "mk_except tm left right = withNew LO_EXCEPT (binary_op tm left right (\<lambda>_ _. False))"

section \<open>Updates that propagate to the root\<close>

text \<open>
  The loops follow \<open>output\<close>.  Which operator comes next depends on kinds and pointers only,
  which the loops do not change: a run of more than \<open>MAXOPERATOR\<close> steps has met an operator
  twice and never ends.  The fuel is \<open>MAXOPERATOR\<close> steps, and running out of it is
  undefined.
\<close>

fun schema_stop :: "lkind \<Rightarrow> bool" where
  "schema_stop (LO_PROJECT _) = True"
| "schema_stop (LO_GROUP_AGGR _ _) = True"
| "schema_stop (LO_STREAM_SOURCE _ _) = True"
| "schema_stop (LO_RELN_SOURCE _ _) = True"
| "schema_stop _ = False"

fun append_schemas :: "nat \<Rightarrow> nat list \<Rightarrow> (lstate, unit) comp" where
  "append_schemas op [] = retM ()"
| "append_schemas op (i # is) = bindM (append_schema op i) (\<lambda>_. append_schemas op is)"

fun update_schema_loop :: "nat \<Rightarrow> nat option \<Rightarrow> (lstate, unit) comp" where
  "update_schema_loop fuel None = retM ()"
| "update_schema_loop 0 (Some op) = undefM"
| "update_schema_loop (Suc fuel) (Some op) =
    bindM (getOp op) (\<lambda>ob.
    if schema_stop (lkind ob) then retM ()
    else if lkind ob = LO_UNION \<or> lkind ob = LO_EXCEPT then failM (- 1)
    else
      seqM (setOp op (\<lambda>x. x\<lparr>outAttrs := []\<rparr>))
      (seqM (append_schemas op (linputs ob))
      (update_schema_loop fuel (loutput ob))))"

definition update_schema_recursive :: "nat option \<Rightarrow> (lstate, unit) comp" where
  "update_schema_recursive op = update_schema_loop MAXOPERATOR op"

text \<open>The new \<open>bStream\<close> of an operator, \<open>None\<close> where the loop ends.\<close>

fun copies_stream :: "lkind \<Rightarrow> bool" where
  "copies_stream (LO_PROJECT _) = True"
| "copies_stream (LO_SELECT _) = True"
| "copies_stream LO_DISTINCT = True"
| "copies_stream _ = False"

fun update_stream_loop :: "nat \<Rightarrow> nat option \<Rightarrow> (lstate, unit) comp" where
  "update_stream_loop fuel None = retM ()"
| "update_stream_loop 0 (Some op) = undefM"
| "update_stream_loop (Suc fuel) (Some op) =
    bindM (getOp op) (\<lambda>ob.
    if copies_stream (lkind ob) then
      bindM (inputAt op 0) (\<lambda>i.
      bindM (getOp i) (\<lambda>io.
      seqM (setOp op (\<lambda>x. x\<lparr>bStream := bStream io\<rparr>)) (update_stream_loop fuel (loutput ob))))
    else if lkind ob = LO_CROSS then
      bindM (readM opHeap) (\<lambda>h.
      seqM (setOp op (\<lambda>x. x\<lparr>bStream := list_all (\<lambda>i. bStream (h i)) (linputs ob)\<rparr>))
        (update_stream_loop fuel (loutput ob)))
    else if lkind ob = LO_UNION then
      bindM (inputAt op 0) (\<lambda>l.
      bindM (inputAt op 1) (\<lambda>r.
      bindM (readM opHeap) (\<lambda>h.
      seqM (setOp op (\<lambda>x. x\<lparr>bStream := (bStream (h l) \<and> bStream (h r))\<rparr>))
        (update_stream_loop fuel (loutput ob)))))
    else retM ())"

definition update_stream_property_recursive :: "nat option \<Rightarrow> (lstate, unit) comp" where
  "update_stream_property_recursive op = update_stream_loop MAXOPERATOR op"

section \<open>References\<close>

definition check_attr_reference :: "lattr \<Rightarrow> lop \<Rightarrow> bool" where
  "check_attr_reference attr op = list_ex (attr_eq attr) (outAttrs op)"

fun check_reference :: "lexpr \<Rightarrow> lop \<Rightarrow> bool" where
  "check_reference (LE_CONST c) op = True"
| "check_reference (LE_ATTR t a) op = check_attr_reference a op"
| "check_reference (LE_COMP t f l r) op = (check_reference l op \<and> check_reference r op)"

section \<open>Expression constructors\<close>

definition new_expr :: "lexpr \<Rightarrow> (lstate, lexpr option) comp" where
  "new_expr e =
    bindM (readM expr_ptr) (\<lambda>n.
    if n = MAXEXPR then retM None
    else seqM (modM (\<lambda>s. s\<lparr>expr_ptr := n + 1\<rparr>)) (retM (Some e)))"

definition mk_const_int_expr :: "int \<Rightarrow> (lstate, lexpr option) comp" where
  "mk_const_int_expr i = new_expr (LE_CONST (IVal i))"

definition mk_const_float_expr :: "cfloat \<Rightarrow> (lstate, lexpr option) comp" where
  "mk_const_float_expr f = new_expr (LE_CONST (FVal f))"

definition mk_const_byte_expr :: "char \<Rightarrow> (lstate, lexpr option) comp" where
  "mk_const_byte_expr b = new_expr (LE_CONST (BVal b))"

definition mk_const_char_expr :: "string \<Rightarrow> (lstate, lexpr option) comp" where
  "mk_const_char_expr s = new_expr (LE_CONST (SVal s))"

definition mk_attr_expr :: "lattr \<Rightarrow> ctype \<Rightarrow> (lstate, lexpr option) comp" where
  "mk_attr_expr a t = new_expr (LE_ATTR t a)"

text \<open>With space in the pool the type is read from \<open>left\<close>; both operands are then in use.\<close>

definition mk_comp_expr ::
    "arith_op \<Rightarrow> lexpr option \<Rightarrow> lexpr option \<Rightarrow> (lstate, lexpr option) comp" where
  "mk_comp_expr op left right =
    bindM (readM expr_ptr) (\<lambda>n.
    if n = MAXEXPR then retM None
    else
      bindM (derefM left) (\<lambda>l.
      bindM (derefM right) (\<lambda>r.
      new_expr (LE_COMP (lexpr_type l) op l r))))"

end
