(* ===== verification/Naive_Plan.thy ===== *)
theory Naive_Plan
  imports Log_Op Sem_Query
begin

text \<open>
  \<open>src/querygen/log_naive_plan_gen.cc\<close>: the naive logical plan of a query.

  The static pointers \<open>l_tableMgr\<close> and \<open>l_Query\<close> are the parameters \<open>tm\<close> and \<open>q\<close>.  A pointer
  to an operator that can be null is a \<open>nat option\<close>.  A function that returns a status and
  assigns an out parameter returns the out parameter.
\<close>

text \<open>
  A constructor applied to a pointer that can be null: it first allocates, and the null
  pointer is dereferenced only if that succeeded.
\<close>

definition ptrArg :: "nat option \<Rightarrow> (nat \<Rightarrow> (lstate, nat option) comp) \<Rightarrow> (lstate, nat option) comp" where
  "ptrArg p mk =
    (case p of
      Some x \<Rightarrow> mk x
    | None \<Rightarrow> bindM (readM operator_ptr) (\<lambda>n. if n = MAXOPERATOR then retM None else undefM))"

text \<open>\<open>return (p)? 0 : -1\<close>\<close>

definition nonNull :: "nat option \<Rightarrow> (lstate, nat) comp" where
  "nonNull p = (case p of Some x \<Rightarrow> retM x | None \<Rightarrow> failM (- 1))"

section \<open>Attributes and expressions\<close>

definition transformAttr :: "query \<Rightarrow> sem_attr \<Rightarrow> (lstate, lattr) comp" where
  "transformAttr q a =
    bindM (nthM (refTables q) (sVarId a)) (\<lambda>t. retM (A_NAMED (sVarId a) t (sAttrId a)))"

definition transformAggrAttr :: "query \<Rightarrow> sem_attr \<Rightarrow> aggr_fn \<Rightarrow> (lstate, lattr) comp" where
  "transformAggrAttr q a fn =
    bindM (nthM (refTables q) (sVarId a)) (\<lambda>t. retM (A_AGGR (sVarId a) t (sAttrId a) fn))"

definition transformConstVal :: "cval \<Rightarrow> (lstate, lexpr option) comp" where
  "transformConstVal c =
    (case c of
      IVal i \<Rightarrow> mk_const_int_expr i
    | FVal f \<Rightarrow> mk_const_float_expr f
    | BVal b \<Rightarrow> mk_const_byte_expr b
    | SVal s \<Rightarrow> mk_const_char_expr s)"

primrec transformExpr :: "query \<Rightarrow> sem_expr \<Rightarrow> (lstate, lexpr option) comp" where
  "transformExpr q (SE_CONST c) = transformConstVal c"
| "transformExpr q (SE_ATTR t a) = bindM (transformAttr q a) (\<lambda>la. mk_attr_expr la t)"
| "transformExpr q (SE_AGGR t fn a) = bindM (transformAggrAttr q a fn) (\<lambda>la. mk_attr_expr la t)"
| "transformExpr q (SE_COMP t op l r) =
    bindM (transformExpr q l) (\<lambda>left.
    bindM (transformExpr q r) (\<lambda>right.
    mk_comp_expr op left right))"

definition transformBExpr :: "query \<Rightarrow> sem_bexpr \<Rightarrow> (lstate, lbexpr) comp" where
  "transformBExpr q b =
    bindM (transformExpr q (sLeft b)) (\<lambda>l.
    bindM (transformExpr q (sRight b)) (\<lambda>r.
    retM \<lparr>lbOp = sOp b, lbLeft = l, lbRight = r\<rparr>))"

section \<open>Sources and windows\<close>

definition getSource_n :: "table_manager \<Rightarrow> nat \<Rightarrow> nat \<Rightarrow> (lstate, nat) comp" where
  "getSource_n tm varId tableId =
    bindM (isStream tm tableId) (\<lambda>str.
    bindM (if str then mk_stream_source tm varId tableId else mk_reln_source tm varId tableId)
    nonNull)"

definition applyWindow_n :: "query \<Rightarrow> win_spec \<Rightarrow> nat \<Rightarrow> (lstate, nat option) comp" where
  "applyWindow_n q win inputStr =
    (case win of
      WS_RANGE timeUnits \<Rightarrow> mk_range_window inputStr timeUnits
    | WS_ROW numRows \<Rightarrow> mk_row_window inputStr numRows
    | WS_PARTITION numRows as \<Rightarrow>
        bindM (mk_partn_window inputStr numRows) (\<lambda>winOp.
        seqM (forM as (\<lambda>a.
          bindM (transformAttr q a) (\<lambda>partnAttr.
          bindM (derefM winOp) (\<lambda>w.
          bindM (partn_window_add_attr w partnAttr) (\<lambda>_. retM ())))))
        (retM winOp))
    | WS_NOW \<Rightarrow> mk_now_window inputStr
    | WS_UNBOUNDED \<Rightarrow> retM (Some inputStr))"

text \<open>The plan of the \<open>t\<close>-th table of the FROM clause.\<close>

definition tablePlan_n :: "table_manager \<Rightarrow> query \<Rightarrow> nat \<Rightarrow> (lstate, nat option) comp" where
  "tablePlan_n tm q t =
    bindM (nthM (fromClauseTables q) t) (\<lambda>varId.
    bindM (nthM (refTables q) varId) (\<lambda>tableId.
    bindM (getSource_n tm varId tableId) (\<lambda>tableSource.
    bindM (isStream tm tableId) (\<lambda>str.
    if str then
      bindM (nthM (winSpec q) t) (\<lambda>w.
      bindM (derefM w) (\<lambda>win. applyWindow_n q win tableSource))
    else retM (Some tableSource)))))"

definition joinTables_n :: "table_manager \<Rightarrow> query \<Rightarrow> (lstate, nat option) comp" where
  "joinTables_n tm q =
    (if length (fromClauseTables q) > 1 then
       bindM mk_cross (\<lambda>c0.
       bindM (nonNull c0) (\<lambda>c0.
       bindM (foldM (\<lambda>cross t.
           bindM (tablePlan_n tm q t) (\<lambda>tablePlan.
           bindM (derefM tablePlan) (\<lambda>p.
           bindM (cross_add_input cross p) nonNull)))
         c0 [0 ..< length (fromClauseTables q)]) (\<lambda>cross.
       retM (Some cross))))
     else tablePlan_n tm q 0)"

section \<open>Predicates, aggregation, projection\<close>

definition applyPreds_n :: "query \<Rightarrow> nat option \<Rightarrow> (lstate, nat option) comp" where
  "applyPreds_n q inputPlan =
    foldM (\<lambda>plan p.
      bindM (transformBExpr q p) (\<lambda>bExpr.
      bindM (ptrArg plan (\<lambda>x. mk_select x bExpr)) (\<lambda>r.
      bindM (nonNull r) (\<lambda>x. retM (Some x))))) inputPlan (preds q)"

text \<open>
  The arrays \<open>aggrAttrs\<close> and \<open>aggrFns\<close> with their common counter are one list of pairs.
\<close>

primrec collectAggrs ::
    "query \<Rightarrow> sem_expr \<Rightarrow> (lattr \<times> aggr_fn) list \<Rightarrow> (lstate, (lattr \<times> aggr_fn) list) comp" where
  "collectAggrs q (SE_CONST c) aggrs = retM aggrs"
| "collectAggrs q (SE_ATTR t a) aggrs = retM aggrs"
| "collectAggrs q (SE_AGGR t fn a) aggrs =
    bindM (transformAttr q a) (\<lambda>newAggrAttr.
    if \<exists>x\<in>set aggrs. attr_eq (fst x) newAggrAttr \<and> snd x = fn then retM aggrs
    else if length aggrs = MAX_AGGR_ATTRS then failM (- 1)
    else retM (aggrs @ [(newAggrAttr, fn)]))"
| "collectAggrs q (SE_COMP t op l r) aggrs =
    bindM (collectAggrs q l aggrs) (collectAggrs q r)"

definition applyAggr_n :: "query \<Rightarrow> nat option \<Rightarrow> (lstate, nat option) comp" where
  "applyAggr_n q inputPlan =
    bindM (foldM (\<lambda>aggrs e. collectAggrs q e aggrs) [] (projExprs q)) (\<lambda>aggrs.
    if aggrs = [] \<and> gbyAttrs q = [] then retM inputPlan
    else
      bindM (ptrArg inputPlan mk_group_aggr) (\<lambda>r.
      bindM (nonNull r) (\<lambda>a0.
      bindM (foldM (\<lambda>aggrOp a.
          bindM (transformAttr q a) (\<lambda>groupAttr.
          bindM (derefM aggrOp) (\<lambda>p. add_group_attr p groupAttr))) (Some a0) (gbyAttrs q)) (\<lambda>aggrOp.
      foldM (\<lambda>aggrOp (attr, fn).
          bindM (derefM aggrOp) (\<lambda>p. add_aggr p fn attr)) aggrOp aggrs))))"

definition doProjs_n :: "query \<Rightarrow> nat option \<Rightarrow> (lstate, nat option) comp" where
  "doProjs_n q inputPlan =
    bindM (ptrArg inputPlan mk_project) (\<lambda>r.
    bindM (nonNull r) (\<lambda>p0.
    foldM (\<lambda>project e.
      bindM (transformExpr q e) (\<lambda>projExpr.
      bindM (derefM project) (\<lambda>p. add_project_expr p projExpr))) (Some p0) (projExprs q)))"

definition applyDistinct_n :: "query \<Rightarrow> nat option \<Rightarrow> (lstate, nat) comp" where
  "applyDistinct_n q inputPlan =
    (if bDistinct q then bindM (ptrArg inputPlan mk_distinct) nonNull else nonNull inputPlan)"

definition applyR2SOps_n :: "query \<Rightarrow> nat option \<Rightarrow> (lstate, nat option) comp" where
  "applyR2SOps_n q inputPlan =
    (if \<not> bRelToStr q then retM inputPlan
     else
       bindM (derefM (r2sOp q)) (\<lambda>op.
       bindM (ptrArg inputPlan
          (case op of R_ISTREAM \<Rightarrow> mk_istream | R_DSTREAM \<Rightarrow> mk_dstream | R_RSTREAM \<Rightarrow> mk_rstream)) (\<lambda>r.
       bindM (nonNull r) (\<lambda>x. retM (Some x)))))"

section \<open>Plans\<close>

definition genSFWPlan_n :: "table_manager \<Rightarrow> query \<Rightarrow> (lstate, nat option) comp" where
  "genSFWPlan_n tm q =
    bindM (joinTables_n tm q) (\<lambda>join.
    bindM (applyPreds_n q join) (\<lambda>select.
    bindM (applyAggr_n q select) (\<lambda>aggr.
    bindM (doProjs_n q aggr) (\<lambda>project.
    bindM (applyDistinct_n q project) (\<lambda>dist.
    applyR2SOps_n q (Some dist))))))"

text \<open>Both sources get the variable identifier 0.\<close>

definition genBinOpPlan_n :: "table_manager \<Rightarrow> query \<Rightarrow> (lstate, nat option) comp" where
  "genBinOpPlan_n tm q =
    bindM (nthM (refTables q) 0) (\<lambda>t0.
    bindM (getSource_n tm 0 t0) (\<lambda>leftSource.
    bindM (nthM (refTables q) 1) (\<lambda>t1.
    bindM (getSource_n tm 0 t1) (\<lambda>rightSource.
    bindM (derefM (binOp q)) (\<lambda>bop.
    bindM (case bop of
        B_UNION \<Rightarrow> mk_union tm leftSource rightSource
      | B_EXCEPT \<Rightarrow> mk_except tm leftSource rightSource) (\<lambda>binOp.
    applyR2SOps_n q binOp))))))"

definition genPlan_n :: "table_manager \<Rightarrow> query \<Rightarrow> (lstate, nat option) comp" where
  "genPlan_n tm q =
    seqM reset_op_pool
    (seqM reset_expr_pool
    (if qKind q = SFW_QUERY then genSFWPlan_n tm q else genBinOpPlan_n tm q))"

end
