(* ===== verification/Log_Facts.thy ===== *)
theory Log_Facts
  imports Log_Op
begin

text \<open>
  Facts about logical operators: the plan that a heap of operators represents, contexts in a
  plan, and what the constructors do to the represented plans.
\<close>

section \<open>Primitive accesses\<close>

lemma getOp_wp [wp_simps, simp]: "wp (getOp p) Q E s = Q (opHeap s p) s"
  by (simp add: getOp_def)

lemma setOp_wp [wp_simps, simp]:
  "wp (setOp p f) Q E s = Q () (s\<lparr>opHeap := (opHeap s)(p := f (opHeap s p))\<rparr>)"
  by (simp add: setOp_def)

lemma inputAt_wp [wp_simps, simp]:
  "wp (inputAt p i) Q E s \<longleftrightarrow> i < length (linputs (opHeap s p)) \<and> Q (linputs (opHeap s p) ! i) s"
  by (simp add: inputAt_def)

lemma setInput_wp [wp_simps, simp]:
  "wp (setInput p i q) Q E s \<longleftrightarrow> i < length (linputs (opHeap s p)) \<and>
    Q () (s\<lparr>opHeap := (opHeap s)(p := (opHeap s p)\<lparr>linputs := (linputs (opHeap s p))[i := q]\<rparr>)\<rparr>)"
  by (simp add: setInput_def)

lemma setOutput_wp [wp_simps, simp]:
  "wp (setOutput p q) Q E s =
    Q () (s\<lparr>opHeap := (opHeap s)(p := (opHeap s p)\<lparr>loutput := q\<rparr>)\<rparr>)"
  by (simp add: setOutput_def)

lemma newop_wp:
  "wp (newop k) Q E s =
    (if operator_ptr s = MAXOPERATOR then Q None s
     else Q (Some (operator_ptr s)) (s\<lparr>operator_ptr := operator_ptr s + 1,
       opHeap := (opHeap s)(operator_ptr s :=
         (opHeap s (operator_ptr s))\<lparr>lkind := k, loutput := None\<rparr>)\<rparr>))"
  by (simp add: newop_def)

lemma withNew_wp:
  "wp (withNew k body) Q E s =
    (if operator_ptr s = MAXOPERATOR then Q None s
     else wp (body (operator_ptr s)) (\<lambda>_. Q (Some (operator_ptr s))) E
       (s\<lparr>operator_ptr := operator_ptr s + 1,
          opHeap := (opHeap s)(operator_ptr s :=
            (opHeap s (operator_ptr s))\<lparr>lkind := k, loutput := None\<rparr>)\<rparr>))"
  by (simp add: withNew_def newop_wp)

interpretation op_pool: bump_pool operator_ptr MAXOPERATOR newop reset_op_pool "\<lambda>_ n. n"
  by unfold_locales (auto simp: newop_def reset_op_pool_def setOp_def comp_defs)

interpretation lexpr_pool: bump_pool expr_ptr MAXEXPR new_expr reset_expr_pool "\<lambda>e _. e"
  by unfold_locales (auto simp: new_expr_def reset_expr_pool_def comp_defs)

section \<open>Plans\<close>

text \<open>A plan without addresses, and a plan together with the addresses of its operators.\<close>

datatype lplan = LP (lroot: linfo) (lsubs: "lplan list")

datatype ptree = PT (paddr: nat) (pinfo: linfo) (psubs: "ptree list")

fun addrs :: "ptree \<Rightarrow> nat list" where
  "addrs (PT a i ts) = a # concat (map addrs ts)"

fun shape :: "ptree \<Rightarrow> lplan" where
  "shape (PT a i ts) = LP i (map shape ts)"

definition info_of :: "lop \<Rightarrow> linfo" where
  "info_of op = \<lparr>lkind = lkind op, outAttrs = outAttrs op, bStream = bStream op\<rparr>"

lemma info_of_sel [simp]:
  "lkind (info_of op) = lkind op" "outAttrs (info_of op) = outAttrs op"
  "bStream (info_of op) = bStream op"
  by (simp_all add: info_of_def)

lemma info_of_upd [simp]:
  "info_of (op\<lparr>loutput := q\<rparr>) = info_of op" "info_of (op\<lparr>linputs := is\<rparr>) = info_of op"
  "info_of (op\<lparr>lkind := k\<rparr>) = (info_of op)\<lparr>lkind := k\<rparr>"
  "info_of (op\<lparr>outAttrs := as\<rparr>) = (info_of op)\<lparr>outAttrs := as\<rparr>"
  "info_of (op\<lparr>bStream := b\<rparr>) = (info_of op)\<lparr>bStream := b\<rparr>"
  by (simp_all add: info_of_def)

text \<open>
  \<open>rep h p t\<close>: in the heap \<open>h\<close> the operators of \<open>t\<close> are linked as the tree \<open>t\<close>, and the
  output pointer of its root is \<open>p\<close>.
\<close>

fun rep :: "(nat \<Rightarrow> lop) \<Rightarrow> nat option \<Rightarrow> ptree \<Rightarrow> bool" where
  "rep h p (PT a i ts) \<longleftrightarrow> info_of (h a) = i \<and> loutput (h a) = p \<and>
     linputs (h a) = map paddr ts \<and> (\<forall>t\<in>set ts. rep h (Some a) t)"

lemma paddr_in_addrs [simp]: "paddr t \<in> set (addrs t)"
  by (cases t) simp

lemma addrs_nonempty [simp]: "addrs t \<noteq> []"
  by (cases t) simp

lemma rep_cong:
  "(\<And>a. a \<in> set (addrs t) \<Longrightarrow> h a = h' a) \<Longrightarrow> rep h p t = rep h' p t"
proof (induction t arbitrary: p)
  case (PT a i ts)
  have "rep h (Some a) t = rep h' (Some a) t" if "t \<in> set ts" for t
    using that PT.prems by (intro PT.IH) auto
  then show ?case using PT.prems by simp
qed

lemma rep_frame [simp]: "a \<notin> set (addrs t) \<Longrightarrow> rep (h(a := x)) p t = rep h p t"
  by (rule rep_cong) auto

lemma rep_root:
  "rep h p t \<Longrightarrow> info_of (h (paddr t)) = pinfo t \<and> loutput (h (paddr t)) = p \<and>
    linputs (h (paddr t)) = map paddr (psubs t)"
  by (cases t) simp

lemma rep_attrs:
  "rep h p t \<Longrightarrow> outAttrs (h (paddr t)) = outAttrs (pinfo t)"
  "rep h p t \<Longrightarrow> bStream (h (paddr t)) = bStream (pinfo t)"
  "rep h p t \<Longrightarrow> lkind (h (paddr t)) = lkind (pinfo t)"
  using rep_root [of h p t] by (metis info_of_sel)+

text \<open>Changing the output pointer of the root.\<close>

lemma rep_set_output:
  assumes "rep h p t" and "distinct (addrs t)"
  shows "rep (h(paddr t := (h (paddr t))\<lparr>loutput := q\<rparr>)) q t"
proof (cases t)
  case (PT a i ts)
  have "a \<notin> set (addrs u)" if "u \<in> set ts" for u
    using assms(2) that PT by auto
  then show ?thesis using assms PT by auto
qed

text \<open>
  The tree \<open>t\<close> is in the pool, with the root \<open>p\<close> and the output pointer \<open>q\<close> at its root; a plan
  is a tree whose root has no output.
\<close>

definition placed :: "lstate \<Rightarrow> nat option \<Rightarrow> nat \<Rightarrow> ptree \<Rightarrow> bool" where
  "placed s q p t \<longleftrightarrow> p = paddr t \<and> rep (opHeap s) q t \<and> distinct (addrs t) \<and>
     (\<forall>a\<in>set (addrs t). a < operator_ptr s)"

abbreviation plan_at :: "lstate \<Rightarrow> nat \<Rightarrow> ptree \<Rightarrow> bool" where
  "plan_at s p t \<equiv> placed s None p t"

text \<open>Nothing below the old counter has changed, \<open>A\<close> apart.\<close>

definition only_changes :: "nat set \<Rightarrow> lstate \<Rightarrow> lstate \<Rightarrow> bool" where
  "only_changes A s s' \<longleftrightarrow> operator_ptr s \<le> operator_ptr s' \<and>
     (\<forall>a<operator_ptr s. a \<notin> A \<longrightarrow> opHeap s' a = opHeap s a)"

lemma only_changes_refl [simp]: "only_changes A s s"
  by (simp add: only_changes_def)

lemma only_changes_trans:
  "only_changes A s s' \<Longrightarrow> only_changes B s' s'' \<Longrightarrow>
   (\<And>b. b \<in> B \<Longrightarrow> b < operator_ptr s \<Longrightarrow> b \<in> C) \<Longrightarrow> A \<subseteq> C \<Longrightarrow> only_changes C s s''"
  by (auto simp: only_changes_def) (metis dual_order.strict_trans1 subsetD)

lemma plan_at_frame:
  assumes "placed s q p t" and "only_changes A s s'" and "set (addrs t) \<inter> A = {}"
  shows "placed s' q p t"
proof -
  have "rep (opHeap s) q t = rep (opHeap s') q t"
    using assms by (intro rep_cong) (auto simp: placed_def only_changes_def)
  then show ?thesis using assms by (force simp: placed_def only_changes_def)
qed

section \<open>Constructors\<close>

definition lp_unary :: "lkind \<Rightarrow> (bool \<Rightarrow> bool) \<Rightarrow> lplan \<Rightarrow> lplan" where
  "lp_unary k f t = LP \<lparr>lkind = k, outAttrs = outAttrs (lroot t), bStream = f (bStream (lroot t))\<rparr> [t]"

text \<open>
  \<open>grown A s l p s'\<close>: from \<open>s\<close> to \<open>s'\<close> a plan of shape \<open>l\<close> with the root \<open>p\<close> was built from
  the operators of \<open>A\<close> and new ones; no other operator changed.
\<close>

definition grown :: "nat set \<Rightarrow> lstate \<Rightarrow> lplan \<Rightarrow> nat \<Rightarrow> lstate \<Rightarrow> bool" where
  "grown A s l p s' \<longleftrightarrow> only_changes A s s' \<and>
     (\<exists>t. plan_at s' p t \<and> shape t = l \<and> (\<forall>a\<in>set (addrs t). a \<in> A \<or> operator_ptr s \<le> a))"

lemma grown_step:
  assumes c: "only_changes A s s1" and t: "\<forall>a\<in>B. a \<in> A \<or> operator_ptr s \<le> a"
    and g: "grown B s1 l' p' s2"
  shows "grown A s l' p' s2"
proof -
  obtain t' where t': "plan_at s2 p' t'" "shape t' = l'"
      "\<forall>a\<in>set (addrs t'). a \<in> B \<or> operator_ptr s1 \<le> a"
    using g by (auto simp: grown_def)
  have "only_changes A s s2"
  proof (rule only_changes_trans [OF c])
    show "only_changes B s1 s2" using g by (simp add: grown_def)
    show "b \<in> A" if "b \<in> B" "b < operator_ptr s" for b
      using t that by (meson not_le)
    show "A \<subseteq> A" by simp
  qed
  moreover have "\<forall>a\<in>set (addrs t'). a \<in> A \<or> operator_ptr s \<le> a"
    using t t'(3) c by (auto simp: only_changes_def)
  ultimately show ?thesis using t' by (auto simp: grown_def)
qed

lemma grown_frame:
  assumes "grown A s l p s'" and "placed s q' q t" and "set (addrs t) \<inter> A = {}"
  shows "placed s' q' q t"
  using assms plan_at_frame by (auto simp: grown_def)

text \<open>A constructor returns null if the pool is used up, else the new root.\<close>

definition built :: "nat set \<Rightarrow> lstate \<Rightarrow> lplan \<Rightarrow> nat option \<Rightarrow> lstate \<Rightarrow> bool" where
  "built A s l r s' \<longleftrightarrow>
     (case r of
       None \<Rightarrow> operator_ptr s = MAXOPERATOR \<and> s' = s
     | Some p \<Rightarrow> expr_ptr s' = expr_ptr s \<and> operator_ptr s' = operator_ptr s + 1 \<and> grown A s l p s')"

lemma grown_over:
  assumes "placed s q p t" and n: "n = operator_ptr s"
    and "opHeap s' = (opHeap s)(n := x, p := (opHeap s p)\<lparr>loutput := Some n\<rparr>)"
    and "operator_ptr s' = Suc n" and "linputs x = [p]" and "loutput x = None" and "info_of x = i"
  shows "grown (set (addrs t)) s (LP i [shape t]) n s'"
proof -
  have t: "p = paddr t" "rep (opHeap s) q t" "distinct (addrs t)"
    and n1: "n \<notin> set (addrs t)" "p \<noteq> n"
    using assms(1,2) paddr_in_addrs [of t] by (auto simp: placed_def simp del: paddr_in_addrs)
  let ?h = "(opHeap s)(paddr t := (opHeap s (paddr t))\<lparr>loutput := Some n\<rparr>)"
  have "rep ?h (Some n) t" using t by (intro rep_set_output)
  moreover have "rep (opHeap s') (Some n) t = rep ?h (Some n) t"
    using n1 t(1) assms(3) by (intro rep_cong) auto
  ultimately have "rep (opHeap s') None (PT n i [t])"
    using n1 t(1) assms(3,5-7) by simp
  then have "plan_at s' n (PT n i [t])"
    using n1 t assms by (auto simp: placed_def)
  moreover have "only_changes (set (addrs t)) s s'"
    using t(1) assms(2-4) by (auto simp: only_changes_def)
  ultimately show ?thesis
    unfolding grown_def by (intro conjI exI [of _ "PT n i [t]"]) (auto simp: n)
qed

lemma plan_at_root_ne: "placed s q p t \<Longrightarrow> p \<noteq> operator_ptr s"
  by (cases t) (auto simp: placed_def)

lemma plan_at_kind: "placed s q p t \<Longrightarrow> lkind (opHeap s p) = lkind (lroot (shape t))"
  by (cases t) (auto simp: placed_def)

lemma plan_at_attrs: "placed s q p t \<Longrightarrow> outAttrs (opHeap s p) = outAttrs (lroot (shape t))"
  by (cases t) (auto simp: placed_def)

lemma plan_at_stream: "placed s q p t \<Longrightarrow> bStream (opHeap s p) = bStream (lroot (shape t))"
  by (cases t) (auto simp: placed_def)

lemma plan_at_out: "placed s q p t \<Longrightarrow> loutput (opHeap s p) = q"
  by (cases t) (auto simp: placed_def)

lemmas plan_at_sel = plan_at_kind plan_at_attrs plan_at_stream plan_at_out

lemma unary_wp:
  assumes "placed s q p t" and "\<And>op. f op = g (bStream op)"
  shows "wp (withNew k (unary p f)) (built (set (addrs t)) s (lp_unary k g (shape t))) E s"
  using plan_at_root_ne [OF assms(1)] plan_at_sel [OF assms(1)] assms(2)
  by (auto simp: withNew_wp built_def unary_def copy_schema_def lp_unary_def info_of_def
      fun_upd_twist intro!: grown_over [OF assms(1)])

lemmas constructor_defs = mk_range_window_def mk_row_window_def mk_now_window_def
  mk_partn_window_def mk_select_def mk_distinct_def mk_istream_def mk_dstream_def
  mk_rstream_def mk_stream_cross_def

lemma unary_constructors_wp:
  assumes "placed s q p t"
  shows "wp (mk_range_window p n) (built (set (addrs t)) s (lp_unary (LO_RANGE_WIN n) (\<lambda>_. False) (shape t))) E s"
    and "wp (mk_row_window p n) (built (set (addrs t)) s (lp_unary (LO_ROW_WIN n) (\<lambda>_. False) (shape t))) E s"
    and "wp (mk_now_window p) (built (set (addrs t)) s (lp_unary LO_NOW_WIN (\<lambda>_. False) (shape t))) E s"
    and "wp (mk_partn_window p n) (built (set (addrs t)) s (lp_unary (LO_PARTN_WIN [] n) (\<lambda>_. False) (shape t))) E s"
    and "wp (mk_select p b) (built (set (addrs t)) s (lp_unary (LO_SELECT b) (\<lambda>x. x) (shape t))) E s"
    and "wp (mk_distinct p) (built (set (addrs t)) s (lp_unary LO_DISTINCT (\<lambda>x. x) (shape t))) E s"
    and "wp (mk_istream p) (built (set (addrs t)) s (lp_unary LO_ISTREAM (\<lambda>_. True) (shape t))) E s"
    and "wp (mk_dstream p) (built (set (addrs t)) s (lp_unary LO_DSTREAM (\<lambda>_. True) (shape t))) E s"
    and "wp (mk_rstream p) (built (set (addrs t)) s (lp_unary LO_RSTREAM (\<lambda>_. True) (shape t))) E s"
    and "wp (mk_stream_cross p) (built (set (addrs t)) s (lp_unary LO_STREAM_CROSS (\<lambda>_. True) (shape t))) E s"
  unfolding constructor_defs by (rule unary_wp [OF assms], simp)+

text \<open>Sources.\<close>

definition lp_source :: "table_manager \<Rightarrow> nat \<Rightarrow> nat \<Rightarrow> lplan" where
  "lp_source tm v t =
    (let str = tblIsStream (tableList tm ! t)
     in LP \<lparr>lkind = (if str then LO_STREAM_SOURCE v t else LO_RELN_SOURCE v t),
            outAttrs = source_attrs v t (length (attrList (tableList tm ! t))),
            bStream = str\<rparr> [])"

lemma grown_leaf:
  assumes "operator_ptr s = n" and "operator_ptr s' = n + 1" and "info_of (opHeap s' n) = i"
    and "linputs (opHeap s' n) = []" and "loutput (opHeap s' n) = None"
    and "\<forall>a<n. opHeap s' a = opHeap s a"
  shows "grown A s (LP i []) n s'"
  using assms
  by (auto simp: grown_def only_changes_def placed_def intro!: exI [of _ "PT n i []"])

lemma mk_source_wp:
  assumes "tm_ok tm" and "t < length (tableList tm)" and "tblIsStream (tableList tm ! t) = str"
  shows "wp ((if str then mk_stream_source else mk_reln_source) tm v t)
    (built A s (lp_source tm v t)) E s"
proof -
  have "length (attrList (tableList tm ! t)) \<le> MAX_ATTRS"
    using tm_ok_tbl [OF assms(1,2)] by (simp add: tbl_ok_def)
  then show ?thesis
    using assms
    by (auto simp: mk_stream_source_def mk_reln_source_def withNew_wp built_def lp_source_def
      info_of_def intro!: grown_leaf)
qed

section \<open>Updates of the root\<close>

lemma grown_root:
  assumes "plan_at s p t" and "s' = s\<lparr>opHeap := (opHeap s)(p := x)\<rparr>"
    and "loutput x = None" and "linputs x = linputs (opHeap s p)"
  shows "grown (set (addrs t)) s (LP (info_of x) (lsubs (shape t))) p s'"
proof (cases t)
  case (PT a i ts)
  have "a \<notin> set (addrs u)" if "u \<in> set ts" for u
    using assms(1) that PT by (auto simp: placed_def)
  then have "plan_at s' p (PT a (info_of x) ts)"
    using assms PT by (auto simp: placed_def)
  then show ?thesis
    using assms PT
    by (auto simp: grown_def only_changes_def placed_def intro!: exI [of _ "PT a (info_of x) ts"])
qed

text \<open>
  A change of the root that keeps its pointers: \<open>changed\<close> is what the functions that extend an
  operator return.
\<close>

definition changed :: "nat set \<Rightarrow> lstate \<Rightarrow> lplan \<Rightarrow> nat \<Rightarrow> lstate \<Rightarrow> bool" where
  "changed A s l p s' \<longleftrightarrow> expr_ptr s' = expr_ptr s \<and> operator_ptr s' = operator_ptr s \<and> grown A s l p s'"

lemma changed_root:
  assumes "plan_at s p t" and "s' = s\<lparr>opHeap := (opHeap s)(p := x)\<rparr>"
    and "loutput x = None" and "linputs x = linputs (opHeap s p)"
  shows "changed (set (addrs t)) s (LP (info_of x) (lsubs (shape t))) p s'"
  using grown_root [OF assms] assms(2) by (simp add: changed_def)

fun lp_add_partn :: "lattr \<Rightarrow> lplan \<Rightarrow> lplan" where
  "lp_add_partn a (LP i ts) =
    (case lkind i of LO_PARTN_WIN as n \<Rightarrow> LP (i\<lparr>lkind := LO_PARTN_WIN (as @ [a]) n\<rparr>) ts
     | _ \<Rightarrow> LP i ts)"

lemma partn_window_add_attr_wp:
  assumes "plan_at s p t" and "lkind (lroot (shape t)) = LO_PARTN_WIN as n"
  shows "wp (partn_window_add_attr p a)
    (\<lambda>r s'. if length as = LOP_GROUP_ATTRS then r = None \<and> s' = s
       else r = Some p \<and> changed (set (addrs t)) s (lp_add_partn a (shape t)) p s') E s"
proof -
  have "LP (info_of ((opHeap s p)\<lparr>lkind := LO_PARTN_WIN (as @ [a]) n\<rparr>)) (lsubs (shape t)) =
      lp_add_partn a (shape t)"
    using assms by (cases t) (auto simp: placed_def)
  then show ?thesis
    using assms plan_at_sel [OF assms(1)] changed_root [OF assms(1) refl,
        of "(opHeap s p)\<lparr>lkind := LO_PARTN_WIN (as @ [a]) n\<rparr>"]
    by (simp add: partn_window_add_attr_def)
qed

subsection \<open>Project\<close>

lemma mk_project_wp:
  assumes "placed s q p t"
  shows "wp (mk_project p) (built (set (addrs t)) s
    (LP \<lparr>lkind = LO_PROJECT [], outAttrs = [], bStream = bStream (lroot (shape t))\<rparr> [shape t])) E s"
  using plan_at_root_ne [OF assms] plan_at_sel [OF assms]
  by (auto simp: mk_project_def withNew_wp built_def info_of_def fun_upd_twist
      intro!: grown_over [OF assms])

fun lp_add_proj :: "lexpr \<Rightarrow> lplan \<Rightarrow> lplan" where
  "lp_add_proj e (LP i ts) =
    (case lkind i of LO_PROJECT es \<Rightarrow>
       LP (i\<lparr>lkind := LO_PROJECT (es @ [e]), outAttrs := outAttrs i @ [project_attr e]\<rparr>) ts
     | _ \<Rightarrow> LP i ts)"

lemma add_project_expr_wp:
  assumes "plan_at s p t" and "lkind (lroot (shape t)) = LO_PROJECT es"
  shows "wp (add_project_expr p (Some e))
    (\<lambda>r s'. if length (outAttrs (lroot (shape t))) = MAX_ATTRS then r = None \<and> s' = s
       else r = Some p \<and> changed (set (addrs t)) s (lp_add_proj e (shape t)) p s') E s"
proof -
  let ?x = "(opHeap s p)\<lparr>lkind := LO_PROJECT (es @ [e]),
      outAttrs := outAttrs (opHeap s p) @ [project_attr e]\<rparr>"
  have "LP (info_of ?x) (lsubs (shape t)) = lp_add_proj e (shape t)"
    using assms by (cases t) (auto simp: placed_def)
  then show ?thesis
    using assms plan_at_sel [OF assms(1)] changed_root [OF assms(1) refl, of ?x]
    by (simp add: add_project_expr_def)
qed

subsection \<open>Aggregation\<close>

lemma mk_group_aggr_wp:
  assumes "placed s q p t"
  shows "wp (mk_group_aggr p) (built (set (addrs t)) s
    (LP \<lparr>lkind = LO_GROUP_AGGR [] [], outAttrs = [], bStream = False\<rparr> [shape t])) E s"
  using plan_at_root_ne [OF assms] plan_at_sel [OF assms]
  by (auto simp: mk_group_aggr_def withNew_wp built_def info_of_def fun_upd_twist
      intro!: grown_over [OF assms])

fun lp_add_group :: "lattr \<Rightarrow> lplan \<Rightarrow> lplan" where
  "lp_add_group a (LP i ts) =
    (case lkind i of LO_GROUP_AGGR gs as \<Rightarrow>
       LP (i\<lparr>lkind := LO_GROUP_AGGR (gs @ [a]) as, outAttrs := outAttrs i @ [a]\<rparr>) ts
     | _ \<Rightarrow> LP i ts)"

fun aggr_attr :: "aggr_fn \<Rightarrow> lattr \<Rightarrow> lattr" where
  "aggr_attr fn (A_NAMED v t a) = A_AGGR v t a fn"
| "aggr_attr fn (A_UNNAMED ty) = A_UNNAMED (getOutputType fn ty)"
| "aggr_attr fn a = a"

fun lp_add_aggr :: "aggr_fn \<Rightarrow> lattr \<Rightarrow> lplan \<Rightarrow> lplan" where
  "lp_add_aggr fn a (LP i ts) =
    (case lkind i of LO_GROUP_AGGR gs as \<Rightarrow>
       LP (i\<lparr>lkind := LO_GROUP_AGGR gs (as @ [(a, fn)]), outAttrs := outAttrs i @ [aggr_attr fn a]\<rparr>) ts
     | _ \<Rightarrow> LP i ts)"

lemma add_group_attr_wp:
  assumes "plan_at s p t" and "lkind (lroot (shape t)) = LO_GROUP_AGGR gs as"
    and "length (outAttrs (lroot (shape t))) < MAX_ATTRS" and "length gs < LOP_GROUP_ATTRS"
  shows "wp (add_group_attr p a)
    (\<lambda>r s'. r = Some p \<and> changed (set (addrs t)) s (lp_add_group a (shape t)) p s') E s"
proof -
  let ?x = "(opHeap s p)\<lparr>lkind := LO_GROUP_AGGR (gs @ [a]) as,
      outAttrs := outAttrs (opHeap s p) @ [a]\<rparr>"
  have "LP (info_of ?x) (lsubs (shape t)) = lp_add_group a (shape t)"
    using assms by (cases t) (auto simp: placed_def)
  then show ?thesis
    using assms plan_at_sel [OF assms(1)] changed_root [OF assms(1) refl, of ?x]
    by (simp add: add_group_attr_def)
qed

lemma add_aggr_wp:
  assumes "plan_at s p t" and "lkind (lroot (shape t)) = LO_GROUP_AGGR gs as"
    and "length (outAttrs (lroot (shape t))) < MAX_ATTRS" and "length as < MAX_AGGR_ATTRS"
    and "a = A_NAMED v tb k"
  shows "wp (add_aggr p fn a)
    (\<lambda>r s'. r = Some p \<and> changed (set (addrs t)) s (lp_add_aggr fn a (shape t)) p s') E s"
proof -
  let ?x = "(opHeap s p)\<lparr>lkind := LO_GROUP_AGGR gs (as @ [(a, fn)]),
      outAttrs := outAttrs (opHeap s p) @ [aggr_attr fn a]\<rparr>"
  have "LP (info_of ?x) (lsubs (shape t)) = lp_add_aggr fn a (shape t)"
    using assms by (cases t) (auto simp: placed_def)
  then show ?thesis
    using assms plan_at_sel [OF assms(1)] changed_root [OF assms(1) refl, of ?x]
    by (simp add: add_aggr_def aggr_out_attr_def)
qed

subsection \<open>Cross products\<close>

definition lp_cross :: lplan where
  "lp_cross = LP \<lparr>lkind = LO_CROSS, outAttrs = [], bStream = True\<rparr> []"

fun lp_cross_add :: "lplan \<Rightarrow> lplan \<Rightarrow> lplan" where
  "lp_cross_add (LP i ts) t =
    LP (i\<lparr>outAttrs := outAttrs i @ outAttrs (lroot t),
          bStream := (bStream i \<and> bStream (lroot t))\<rparr>) (ts @ [t])"

fun lp_stream_add :: "lplan \<Rightarrow> lplan \<Rightarrow> lplan" where
  "lp_stream_add (LP i ts) t = LP (i\<lparr>outAttrs := outAttrs i @ outAttrs (lroot t)\<rparr>) (ts @ [t])"

lemma mk_cross_wp: "wp mk_cross (built A s lp_cross) E s"
  by (auto simp: mk_cross_def withNew_wp built_def lp_cross_def info_of_def intro!: grown_leaf)

lemma grown_join:
  assumes "plan_at s c tc" and "placed s q p t" and "set (addrs tc) \<inter> set (addrs t) = {}"
    and "opHeap s' = (opHeap s)(c := x, p := (opHeap s p)\<lparr>loutput := Some c\<rparr>)"
    and "operator_ptr s' = operator_ptr s"
    and "linputs x = linputs (opHeap s c) @ [p]" and "loutput x = None" and "info_of x = i"
  shows "grown (set (addrs tc) \<union> set (addrs t)) s (LP i (lsubs (shape tc) @ [shape t])) c s'"
proof -
  obtain i0 ts where tc: "tc = PT c i0 ts" using assms(1) by (cases tc) (simp add: placed_def)
  have t: "p = paddr t" "rep (opHeap s) q t" "distinct (addrs t)" "p \<in> set (addrs t)"
    and d: "distinct (addrs tc)" and r: "rep (opHeap s) None tc"
    using assms(1,2) by (auto simp: placed_def)
  let ?h = "(opHeap s)(paddr t := (opHeap s (paddr t))\<lparr>loutput := Some c\<rparr>)"
  have cn: "c \<notin> set (addrs t)" "p \<notin> set (addrs tc)" using assms(3) tc t(4) by auto
  have "rep ?h (Some c) t" using t by (intro rep_set_output)
  moreover have "rep (opHeap s') (Some c) t = rep ?h (Some c) t"
    using cn t(1) assms(4) by (intro rep_cong) auto
  moreover have "rep (opHeap s') (Some c) u" if "u \<in> set ts" for u
  proof -
    have "c \<notin> set (addrs u)" "p \<notin> set (addrs u)" using d cn that tc by auto
    then have "rep (opHeap s') (Some c) u = rep (opHeap s) (Some c) u"
      using assms(4) by (intro rep_cong) auto
    then show ?thesis using r that tc by simp
  qed
  moreover have "c \<noteq> p" using cn t(4) by auto
  ultimately have "rep (opHeap s') None (PT c i (ts @ [t]))"
    using assms(4,6-8) r tc t(1) by auto
  moreover have "distinct (addrs (PT c i (ts @ [t])))"
    using d t(3) assms(3) tc by auto
  ultimately have "plan_at s' c (PT c i (ts @ [t]))"
    using assms(1,2,5) tc by (auto simp: placed_def)
  moreover have "only_changes (set (addrs tc) \<union> set (addrs t)) s s'"
    using t(4) assms(4,5) tc by (auto simp: only_changes_def)
  ultimately show ?thesis
    unfolding grown_def using tc by (intro conjI exI [of _ "PT c i (ts @ [t])"]) auto
qed

lemma plan_at_ne:
  "placed s q c tc \<Longrightarrow> placed s q' p t \<Longrightarrow> set (addrs tc) \<inter> set (addrs t) = {} \<Longrightarrow> c \<noteq> p"
  by (metis IntI empty_iff paddr_in_addrs placed_def)

lemma plan_at_inputs: "placed s q c tc \<Longrightarrow> length (linputs (opHeap s c)) = length (lsubs (shape tc))"
  by (cases tc) (auto simp: placed_def)

lemma plan_at_info: "placed s q c tc \<Longrightarrow> info_of (opHeap s c) = lroot (shape tc)"
  by (cases tc) (auto simp: placed_def)

lemma cross_add_input_wp:
  assumes "plan_at s c tc" and "placed s q p t" and "set (addrs tc) \<inter> set (addrs t) = {}"
  shows "wp (cross_add_input c p)
    (\<lambda>r s'. if length (outAttrs (lroot (shape tc))) + length (outAttrs (lroot (shape t))) > MAX_ATTRS \<or>
               length (lsubs (shape tc)) = MAX_INPUT_OPS
       then r = None \<and> s' = s
       else r = Some c \<and> changed (set (addrs tc) \<union> set (addrs t)) s (lp_cross_add (shape tc) (shape t)) c s')
    E s"
proof -
  have "length (linputs (opHeap s c)) = length (lsubs (shape tc))"
    using assms(1) by (cases tc) (auto simp: placed_def)
  moreover have "lp_cross_add (shape tc) (shape t) = LP (info_of ((opHeap s c)\<lparr>
      linputs := linputs (opHeap s c) @ [p],
      outAttrs := outAttrs (opHeap s c) @ outAttrs (opHeap s p),
      bStream := (if bStream (opHeap s p) then bStream (opHeap s c) else False)\<rparr>))
     (lsubs (shape tc) @ [shape t])"
    using assms(1) plan_at_sel [OF assms(2)] by (cases tc) (auto simp: placed_def)
  moreover have "c \<noteq> p" by (rule plan_at_ne [OF assms])
  ultimately show ?thesis
    using plan_at_sel [OF assms(1)] plan_at_sel [OF assms(2)]
    by (auto simp: cross_add_input_def changed_def intro!: grown_join [OF assms])
qed

lemma stream_cross_add_input_wp:
  assumes "plan_at s c tc" and "placed s q p t" and "set (addrs tc) \<inter> set (addrs t) = {}"
    and "length (lsubs (shape tc)) < MAX_INPUT_OPS"
    and "length (outAttrs (lroot (shape tc))) + length (outAttrs (lroot (shape t))) \<le> MAX_ATTRS"
  shows "wp (stream_cross_add_input c p)
    (\<lambda>r s'. r = Some c \<and>
       changed (set (addrs tc) \<union> set (addrs t)) s (lp_stream_add (shape tc) (shape t)) c s')
    E s"
proof -
  have "lp_stream_add (shape tc) (shape t) = LP (info_of ((opHeap s c)\<lparr>
      linputs := linputs (opHeap s c) @ [p],
      outAttrs := outAttrs (opHeap s c) @ outAttrs (opHeap s p)\<rparr>))
     (lsubs (shape tc) @ [shape t])"
    using plan_at_info [OF assms(1)] plan_at_sel [OF assms(2)] plan_at_sel [OF assms(1)]
    by (cases "shape tc") simp
  moreover have "c \<noteq> p" by (rule plan_at_ne [OF assms(1-3)])
  ultimately show ?thesis
    using plan_at_sel [OF assms(1)] plan_at_sel [OF assms(2)] plan_at_inputs [OF assms(1)] assms(4,5)
    by (auto simp: stream_cross_add_input_def changed_def fun_upd_twist
        intro!: grown_join [OF assms(1-3)])
qed

subsection \<open>Binary operators\<close>

fun attr_type :: "table_manager \<Rightarrow> lattr \<Rightarrow> ctype" where
  "attr_type tm (A_NAMED v t a) = attrType (attrList (tableList tm ! t) ! a)"
| "attr_type tm (A_AGGR v t a fn) = getOutputType fn (attrType (attrList (tableList tm ! t) ! a))"
| "attr_type tm (A_UNNAMED ty) = ty"

fun lattr_ok :: "table_manager \<Rightarrow> lattr \<Rightarrow> bool" where
  "lattr_ok tm (A_NAMED v t a) = attr_valid tm t a"
| "lattr_ok tm (A_AGGR v t a fn) = attr_valid tm t a"
| "lattr_ok tm (A_UNNAMED ty) = True"

definition lp_binary ::
    "table_manager \<Rightarrow> lkind \<Rightarrow> (bool \<Rightarrow> bool \<Rightarrow> bool) \<Rightarrow> lplan \<Rightarrow> lplan \<Rightarrow> lplan" where
  "lp_binary tm k f l r =
    LP \<lparr>lkind = k, outAttrs = map (A_UNNAMED \<circ> attr_type tm) (outAttrs (lroot l)),
        bStream = f (bStream (lroot l)) (bStream (lroot r))\<rparr> [l, r]"

lemma logAttrType_wp [wp_simps, simp]:
  "wp (logAttrType tm a) Q E s \<longleftrightarrow> lattr_ok tm a \<and> Q (attr_type tm a) s"
  by (cases a) (auto simp: logAttrType_def)

lemma mapM_logAttrType:
  "\<forall>a\<in>set as. lattr_ok tm a \<Longrightarrow>
    wp (mapM (logAttrType tm) as) Q E s = Q (map (attr_type tm) as) s"
  by (induction as arbitrary: Q) auto

lemma binary_op_wp:
  assumes "plan_at s p l" and "plan_at s q r" and "set (addrs l) \<inter> set (addrs r) = {}"
    and "\<forall>a\<in>set (outAttrs (lroot (shape l))). lattr_ok tm a"
  shows "wp (withNew k (binary_op tm p q f))
    (built (set (addrs l) \<union> set (addrs r)) s (lp_binary tm k f (shape l) (shape r))) E s"
proof (cases "operator_ptr s = MAXOPERATOR")
  case True
  then show ?thesis by (simp add: withNew_wp built_def)
next
  case False
  let ?n = "operator_ptr s"
  define i where "i = lroot (lp_binary tm k f (shape l) (shape r))"
  define x where "x = (opHeap s ?n)\<lparr>lkind := k, loutput := None, outAttrs := outAttrs i,
      bStream := bStream i, linputs := [p, q], loutput := None\<rparr>"
  define s' where "s' = s\<lparr>operator_ptr := Suc ?n, opHeap := (opHeap s)(?n := x,
      p := (opHeap s p)\<lparr>loutput := Some ?n\<rparr>, q := (opHeap s q)\<lparr>loutput := Some ?n\<rparr>)\<rparr>"
  have ne: "p \<noteq> q" "p \<noteq> ?n" "q \<noteq> ?n"
    using plan_at_ne [OF assms(1-3)] plan_at_root_ne assms(1,2) by auto
  have L: "p = paddr l" "rep (opHeap s) None l" "distinct (addrs l)"
      "\<forall>a\<in>set (addrs l). a < ?n" "p \<in> set (addrs l)"
    and R: "q = paddr r" "rep (opHeap s) None r" "distinct (addrs r)"
      "\<forall>a\<in>set (addrs r). a < ?n" "q \<in> set (addrs r)"
    using assms(1,2) by (auto simp: placed_def)
  have n: "?n \<notin> set (addrs l)" "?n \<notin> set (addrs r)" "q \<notin> set (addrs l)" "p \<notin> set (addrs r)"
    using L(4,5) R(4,5) assms(3) by (metis disjoint_iff less_irrefl)+
  have "rep ((opHeap s)(paddr l := (opHeap s (paddr l))\<lparr>loutput := Some ?n\<rparr>)) (Some ?n) l"
    using L by (intro rep_set_output)
  moreover have "rep (opHeap s') (Some ?n) l =
      rep ((opHeap s)(paddr l := (opHeap s (paddr l))\<lparr>loutput := Some ?n\<rparr>)) (Some ?n) l"
    using n L(1) ne by (intro rep_cong) (auto simp: s'_def)
  moreover have "rep ((opHeap s)(paddr r := (opHeap s (paddr r))\<lparr>loutput := Some ?n\<rparr>)) (Some ?n) r"
    using R by (intro rep_set_output)
  moreover have "rep (opHeap s') (Some ?n) r =
      rep ((opHeap s)(paddr r := (opHeap s (paddr r))\<lparr>loutput := Some ?n\<rparr>)) (Some ?n) r"
    using n R(1) ne by (intro rep_cong) (auto simp: s'_def)
  moreover have "info_of x = i"
    by (simp add: x_def info_of_def i_def lp_binary_def)
  ultimately have "rep (opHeap s') None (PT ?n i [l, r])"
    using ne L(1) R(1) by (auto simp: s'_def x_def)
  moreover have "distinct (addrs (PT ?n i [l, r]))"
    using n L(3) R(3) assms(3) by auto
  ultimately have "plan_at s' ?n (PT ?n i [l, r])"
    using L(4) R(4) by (auto simp: placed_def s'_def)
  moreover have "only_changes (set (addrs l) \<union> set (addrs r)) s s'"
    using L(5) R(5) by (auto simp: only_changes_def s'_def)
  ultimately have "grown (set (addrs l) \<union> set (addrs r)) s (LP i [shape l, shape r]) ?n s'"
    unfolding grown_def by (intro conjI exI [of _ "PT ?n i [l, r]"]) auto
  moreover have "LP i [shape l, shape r] = lp_binary tm k f (shape l) (shape r)"
    by (simp add: i_def lp_binary_def)
  ultimately have b: "built (set (addrs l) \<union> set (addrs r)) s
      (lp_binary tm k f (shape l) (shape r)) (Some ?n) s'"
    by (simp add: built_def s'_def)
  have "s' = s\<lparr>operator_ptr := Suc ?n, opHeap := (opHeap s)(?n := (opHeap s ?n)\<lparr>lkind := k,
      loutput := None, outAttrs := map A_UNNAMED (map (attr_type tm) (outAttrs (opHeap s p))),
      bStream := f (bStream (opHeap s p)) (bStream (opHeap s q)), linputs := [p, q], loutput := None\<rparr>,
      p := (opHeap s p)\<lparr>loutput := Some ?n\<rparr>, q := (opHeap s q)\<lparr>loutput := Some ?n\<rparr>)\<rparr>"
    using plan_at_sel [OF assms(1)] plan_at_sel [OF assms(2)]
    by (simp add: s'_def x_def i_def lp_binary_def)
  then show ?thesis
    using False ne b assms(4) plan_at_attrs [OF assms(1)]
    by (simp add: withNew_wp binary_op_def mapM_logAttrType fun_upd_twist)
qed

end
