(* ===== verification/Naive_Facts.thy ===== *)
theory Naive_Facts
  imports Naive_Plan Log_Facts Sem_Facts
begin

text \<open>
  The naive plan of a query as a pure function of the query (\<open>naive_plan\<close>), and the proof that
  the code builds it in the pool of operators.
\<close>

section \<open>The naive plan\<close>

definition nattr :: "query \<Rightarrow> sem_attr \<Rightarrow> lattr" where
  "nattr q a = A_NAMED (sVarId a) (refTables q ! sVarId a) (sAttrId a)"

primrec np_expr :: "query \<Rightarrow> sem_expr \<Rightarrow> lexpr" where
  "np_expr q (SE_CONST c) = LE_CONST c"
| "np_expr q (SE_ATTR t a) = LE_ATTR t (nattr q a)"
| "np_expr q (SE_AGGR t fn a) = LE_ATTR t (aggr_attr fn (nattr q a))"
| "np_expr q (SE_COMP t op l r) = LE_COMP (lexpr_type (np_expr q l)) op (np_expr q l) (np_expr q r)"

definition np_bexpr :: "query \<Rightarrow> sem_bexpr \<Rightarrow> lbexpr" where
  "np_bexpr q b = \<lparr>lbOp = sOp b, lbLeft = Some (np_expr q (sLeft b)), lbRight = Some (np_expr q (sRight b))\<rparr>"

fun np_window :: "query \<Rightarrow> win_spec \<Rightarrow> lplan \<Rightarrow> lplan" where
  "np_window q (WS_RANGE n) p = lp_unary (LO_RANGE_WIN n) (\<lambda>_. False) p"
| "np_window q (WS_ROW n) p = lp_unary (LO_ROW_WIN n) (\<lambda>_. False) p"
| "np_window q (WS_PARTITION n as) p = lp_unary (LO_PARTN_WIN (map (nattr q) as) n) (\<lambda>_. False) p"
| "np_window q WS_NOW p = lp_unary LO_NOW_WIN (\<lambda>_. False) p"
| "np_window q WS_UNBOUNDED p = p"

definition np_table :: "table_manager \<Rightarrow> query \<Rightarrow> nat \<Rightarrow> lplan" where
  "np_table tm q t =
    (let v = fromClauseTables q ! t; id = refTables q ! v; src = lp_source tm v id
     in if tblIsStream (tableList tm ! id)
        then (case winSpec q ! t of Some w \<Rightarrow> np_window q w src | None \<Rightarrow> src)
        else src)"

definition np_join :: "table_manager \<Rightarrow> query \<Rightarrow> lplan" where
  "np_join tm q =
    (let n = length (fromClauseTables q)
     in if n > 1 then foldl lp_cross_add lp_cross (map (np_table tm q) [0 ..< n]) else np_table tm q 0)"

definition np_preds :: "query \<Rightarrow> lplan \<Rightarrow> lplan" where
  "np_preds q p = foldl (\<lambda>p b. lp_unary (LO_SELECT (np_bexpr q b)) (\<lambda>x. x) p) p (preds q)"

primrec np_collect :: "query \<Rightarrow> sem_expr \<Rightarrow> (lattr \<times> aggr_fn) list \<Rightarrow> (lattr \<times> aggr_fn) list" where
  "np_collect q (SE_CONST c) acc = acc"
| "np_collect q (SE_ATTR t a) acc = acc"
| "np_collect q (SE_AGGR t fn a) acc =
    (if (nattr q a, fn) \<in> set acc then acc else acc @ [(nattr q a, fn)])"
| "np_collect q (SE_COMP t op l r) acc = np_collect q r (np_collect q l acc)"

definition np_aggrs :: "query \<Rightarrow> (lattr \<times> aggr_fn) list" where
  "np_aggrs q = fold (np_collect q) (projExprs q) []"

definition np_aggr :: "query \<Rightarrow> lplan \<Rightarrow> lplan" where
  "np_aggr q p =
    (if np_aggrs q = [] \<and> gbyAttrs q = [] then p
     else LP \<lparr>lkind = LO_GROUP_AGGR (map (nattr q) (gbyAttrs q)) (np_aggrs q),
              outAttrs = map (nattr q) (gbyAttrs q) @ map (\<lambda>(a, fn). aggr_attr fn a) (np_aggrs q),
              bStream = False\<rparr> [p])"

definition np_project :: "query \<Rightarrow> lplan \<Rightarrow> lplan" where
  "np_project q p = LP \<lparr>lkind = LO_PROJECT (map (np_expr q) (projExprs q)),
     outAttrs = map (project_attr \<circ> np_expr q) (projExprs q), bStream = bStream (lroot p)\<rparr> [p]"

definition np_distinct :: "query \<Rightarrow> lplan \<Rightarrow> lplan" where
  "np_distinct q p = (if bDistinct q then lp_unary LO_DISTINCT (\<lambda>x. x) p else p)"

definition np_r2s :: "query \<Rightarrow> lplan \<Rightarrow> lplan" where
  "np_r2s q p =
    (if bRelToStr q then
       (case r2sOp q of
         Some R_ISTREAM \<Rightarrow> lp_unary LO_ISTREAM (\<lambda>_. True) p
       | Some R_DSTREAM \<Rightarrow> lp_unary LO_DSTREAM (\<lambda>_. True) p
       | _ \<Rightarrow> lp_unary LO_RSTREAM (\<lambda>_. True) p)
     else p)"

definition np_binop :: "table_manager \<Rightarrow> query \<Rightarrow> lplan" where
  "np_binop tm q =
    (let l = lp_source tm 0 (refTables q ! 0); r = lp_source tm 0 (refTables q ! 1)
     in case binOp q of
       Some B_UNION \<Rightarrow> lp_binary tm LO_UNION (\<and>) l r
     | _ \<Rightarrow> lp_binary tm LO_EXCEPT (\<lambda>_ _. False) l r)"

definition naive_plan :: "table_manager \<Rightarrow> query \<Rightarrow> lplan" where
  "naive_plan tm q =
    np_r2s q (if qKind q = SFW_QUERY
      then np_distinct q (np_project q (np_aggr q (np_preds q (np_join tm q))))
      else np_binop tm q)"

subsection \<open>Limits\<close>

text \<open>Number of attributes of the join of all tables.\<close>

definition table_width :: "table_manager \<Rightarrow> query \<Rightarrow> nat \<Rightarrow> nat" where
  "table_width tm q t = length (attrList (tableList tm ! (refTables q ! (fromClauseTables q ! t))))"

definition join_width :: "table_manager \<Rightarrow> query \<Rightarrow> nat" where
  "join_width tm q = sum_list (map (table_width tm q) [0 ..< length (fromClauseTables q)])"

text \<open>
  What the arrays of the operators can hold: the code checks the number of attributes of a
  join, but neither that of a projection nor that of an aggregation.
\<close>

definition plan_fits :: "query \<Rightarrow> bool" where
  "plan_fits q \<longleftrightarrow> length (projExprs q) \<le> MAX_ATTRS \<and>
     length (gbyAttrs q) + length (np_aggrs q) \<le> MAX_ATTRS"

section \<open>Expressions\<close>

lemma new_expr_wp [wp_simps, simp]:
  "expr_ptr s < MAXEXPR \<Longrightarrow> wp (new_expr e) Q E s = Q (Some e) (s\<lparr>expr_ptr := Suc (expr_ptr s)\<rparr>)"
  by (simp add: new_expr_def)

lemma transformAttr_wp [wp_simps, simp]:
  "wp (transformAttr q a) Q E s \<longleftrightarrow> sVarId a < length (refTables q) \<and> Q (nattr q a) s"
  by (simp add: transformAttr_def nattr_def)

lemma transformAggrAttr_wp [wp_simps, simp]:
  "wp (transformAggrAttr q a fn) Q E s \<longleftrightarrow>
     sVarId a < length (refTables q) \<and> Q (aggr_attr fn (nattr q a)) s"
  by (simp add: transformAggrAttr_def nattr_def)

lemmas const_expr_defs = mk_const_int_expr_def mk_const_float_expr_def mk_const_byte_expr_def
  mk_const_char_expr_def

lemma transformConstVal_eq: "transformConstVal c = new_expr (LE_CONST c)"
  by (cases c) (simp_all add: transformConstVal_def const_expr_defs)

lemma sem_size_pos: "0 < sem_size e"
  by (cases e) auto

lemma transformExpr_wp:
  assumes "sem_wt tm (refTables q) e" and "expr_ptr s + sem_size e \<le> MAXEXPR"
  shows "wp (transformExpr q e) Q E s = Q (Some (np_expr q e)) (s\<lparr>expr_ptr := expr_ptr s + sem_size e\<rparr>)"
  using assms
proof (induction e arbitrary: s Q)
  case (SE_COMP t op l r)
  then show ?case by (simp add: mk_comp_expr_def add.assoc)
qed (auto simp: transformConstVal_eq mk_attr_expr_def sattr_ok_def)

lemma transformBExpr_wp:
  assumes "bexpr_wt tm (refTables q) b" and "expr_ptr s + bexpr_size b \<le> MAXEXPR"
  shows "wp (transformBExpr q b) Q E s = Q (np_bexpr q b) (s\<lparr>expr_ptr := expr_ptr s + bexpr_size b\<rparr>)"
  using assms by (simp add: transformBExpr_def transformExpr_wp [where tm = tm] bexpr_wt_def
    bexpr_size_def np_bexpr_def add.assoc)

section \<open>Steps\<close>

text \<open>
  \<open>step d e A s l r s'\<close>: the pointer \<open>r\<close> is not null and points to a plan of shape \<open>l\<close>, built
  with at most \<open>d\<close> new operators and exactly \<open>e\<close> new expressions.
\<close>

definition step :: "nat \<Rightarrow> nat \<Rightarrow> nat set \<Rightarrow> lstate \<Rightarrow> lplan \<Rightarrow> nat option \<Rightarrow> lstate \<Rightarrow> bool" where
  "step d e A s l r s' \<longleftrightarrow> (\<exists>p. r = Some p \<and> grown A s l p s') \<and>
     operator_ptr s' \<le> operator_ptr s + d \<and> expr_ptr s' = expr_ptr s + e"

lemma step_built:
  "built A s l r s' \<Longrightarrow> operator_ptr s < MAXOPERATOR \<Longrightarrow> step 1 0 A s l r s'"
  by (auto simp: step_def built_def split: option.splits)

lemma step_changed: "changed A s l p s' \<Longrightarrow> step 0 0 A s l (Some p) s'"
  by (simp add: step_def changed_def)

lemma step_same: "plan_at s p t \<Longrightarrow> step 0 0 (set (addrs t)) s (shape t) (Some p) s"
  by (auto simp: step_def grown_def)

lemma step_expr:
  "step d e A (s\<lparr>expr_ptr := x\<rparr>) l r s' \<Longrightarrow> x = expr_ptr s + e0 \<Longrightarrow> e1 = e0 + e \<Longrightarrow>
   step d e1 A s l r s'"
  by (auto simp: step_def grown_def only_changes_def placed_def)

lemma plan_at_expr [simp]: "plan_at (s\<lparr>expr_ptr := x\<rparr>) p t = plan_at s p t"
  by (simp add: placed_def)

lemma step_trans:
  assumes "step d e A s l r s1"
    and "\<And>t p. r = Some p \<Longrightarrow> plan_at s1 p t \<Longrightarrow> shape t = l \<Longrightarrow> operator_ptr s1 \<le> operator_ptr s + d \<Longrightarrow>
      expr_ptr s1 = expr_ptr s + e \<Longrightarrow> wp m (step d' e' (set (addrs t)) s1 l') E s1"
  shows "wp m (step (d + d') (e + e') A s l') E s1"
proof -
  obtain p where r: "r = Some p" and g: "grown A s l p s1"
    and c: "operator_ptr s1 \<le> operator_ptr s + d" "expr_ptr s1 = expr_ptr s + e"
    using assms(1) by (auto simp: step_def)
  obtain t where t: "plan_at s1 p t" "shape t = l" "\<forall>a\<in>set (addrs t). a \<in> A \<or> operator_ptr s \<le> a"
    using g by (auto simp: grown_def)
  have "wp m (step d' e' (set (addrs t)) s1 l') E s1"
    using r t c by (intro assms(2)) auto
  then show ?thesis
  proof (rule wp_mono)
    fix r' s2 assume a: "step d' e' (set (addrs t)) s1 l' r' s2"
    then obtain p' where p': "r' = Some p'" "grown (set (addrs t)) s1 l' p' s2"
      by (auto simp: step_def)
    have "grown A s l' p' s2"
      using g t(3) p'(2) by (intro grown_step [of A s s1 "set (addrs t)"]) (auto simp: grown_def)
    then show "step (d + d') (e + e') A s l' r' s2"
      using a p' c by (auto simp: step_def)
  qed
qed

lemma step_update:
  assumes "step d e A s l r s1"
    and "\<And>t p. r = Some p \<Longrightarrow> plan_at s1 p t \<Longrightarrow> shape t = l \<Longrightarrow>
      wp m (\<lambda>r s'. r = Some p \<and> changed (set (addrs t)) s1 l' p s') E s1"
  shows "wp m (\<lambda>r' s'. r' = r \<and> step d e A s l' r s') E s1"
proof -
  obtain p t where r: "r = Some p" "plan_at s1 p t" "shape t = l"
    using assms(1) by (auto simp: step_def grown_def)
  have "wp m (step (d + 0) (e + 0) A s l') E s1"
    using assms(1)
  proof (rule step_trans)
    fix t p assume "r = Some p" "plan_at s1 p t" "shape t = l"
    then have "wp m (\<lambda>r s'. r = Some p \<and> changed (set (addrs t)) s1 l' p s') E s1"
      by (rule assms(2))
    then show "wp m (step 0 0 (set (addrs t)) s1 l') E s1"
      by (rule wp_mono) (auto intro: step_changed)
  qed
  from wp_conj [OF this assms(2) [OF r]] show ?thesis
    by (rule wp_mono) (auto simp: r)
qed

lemma step_weaken: "step d e A s l r s' \<Longrightarrow> d \<le> d' \<Longrightarrow> step d' e A s l r s'"
  by (auto simp: step_def)

section \<open>Sources and windows\<close>

lemma getSource_n_wp:
  assumes "tm_ok tm" and "t < length (tableList tm)" and "operator_ptr s < MAXOPERATOR"
  shows "wp (getSource_n tm v t) (\<lambda>p. step 1 0 A s (lp_source tm v t) (Some p)) E s"
proof -
  have "wp ((if tblIsStream (tableList tm ! t) then mk_stream_source else mk_reln_source) tm v t)
      (built A s (lp_source tm v t)) E s"
    using assms by (intro mk_source_wp) auto
  then have "wp ((if tblIsStream (tableList tm ! t) then mk_stream_source else mk_reln_source) tm v t)
      (\<lambda>r s'. wp (nonNull r) (\<lambda>p. step 1 0 A s (lp_source tm v t) (Some p)) E s') E s"
    by (rule wp_mono)
      (use assms(3) in \<open>auto simp: nonNull_def built_def step_def split: option.splits\<close>)
  then show ?thesis using assms(2) by (auto simp: getSource_n_def split: if_splits)
qed

lemma applyWindow_n_wp:
  assumes "plan_at s p t" and "operator_ptr s < MAXOPERATOR"
    and "win_ok tm (refTables q) w"
  shows "wp (applyWindow_n q w p) (step 1 0 (set (addrs t)) s (np_window q w (shape t))) E s"
proof -
  have b: "wp m (built (set (addrs t)) s l) E s \<Longrightarrow> wp m (step 1 0 (set (addrs t)) s l) E s" for m l
    by (erule wp_mono, erule step_built [OF _ assms(2)], assumption)
  show ?thesis
  proof (cases w)
    case (WS_PARTITION n as)
    let ?l = "\<lambda>i. lp_unary (LO_PARTN_WIN (map (nattr q) (take i as)) n) (\<lambda>_. False) (shape t)"
    have as: "length as \<le> MAX_PARTN_ATTRS" "\<forall>a\<in>set as. sVarId a < length (refTables q)"
      using assms(3) WS_PARTITION by (auto simp: sattr_ok_def)
    show ?thesis
      unfolding WS_PARTITION applyWindow_n_def win_spec.case
    proof (rule wp_bindI [OF b [OF unary_constructors_wp(4) [OF assms(1)]]])
      fix r s1
      assume r: "step 1 0 (set (addrs t)) s (lp_unary (LO_PARTN_WIN [] n) (\<lambda>_. False) (shape t)) r s1"
      have "wp (forM as (\<lambda>a. bindM (transformAttr q a) (\<lambda>partnAttr. bindM (derefM r) (\<lambda>w.
            bindM (partn_window_add_attr w partnAttr) (\<lambda>_. retM ())))))
          (\<lambda>_. step 1 0 (set (addrs t)) s (?l (length as)) r) E s1"
      proof (rule wp_forM [where I = "\<lambda>i. step 1 0 (set (addrs t)) s (?l i) r"])
        fix i s2
        assume i: "i < length as" and I: "step 1 0 (set (addrs t)) s (?l i) r s2"
        obtain x where x: "r = Some x" using I by (auto simp: step_def)
        have "wp (partn_window_add_attr x (nattr q (as ! i)))
            (\<lambda>r' s'. r' = r \<and> step 1 0 (set (addrs t)) s (?l (Suc i)) r s') E s2"
        proof (rule step_update [OF I])
          fix t' y assume y: "r = Some y" "plan_at s2 y t'" "shape t' = ?l i"
          then show "wp (partn_window_add_attr x (nattr q (as ! i)))
              (\<lambda>r s'. r = Some y \<and> changed (set (addrs t')) s2 (?l (Suc i)) y s') E s2"
            using partn_window_add_attr_wp [OF y(2), of "map (nattr q) (take i as)" n "nattr q (as ! i)" E]
              x i as(1)
            by (simp add: lp_unary_def LOP_GROUP_ATTRS_def MAX_PARTN_ATTRS_def take_Suc_conv_app_nth)
        qed
        then have "wp (partn_window_add_attr x (nattr q (as ! i)))
            (\<lambda>_. step 1 0 (set (addrs t)) s (?l (Suc i)) r) E s2"
          by (rule wp_mono) auto
        then show "wp (bindM (transformAttr q (as ! i)) (\<lambda>partnAttr. bindM (derefM r) (\<lambda>w.
            bindM (partn_window_add_attr w partnAttr) (\<lambda>_. retM ()))))
            (\<lambda>_. step 1 0 (set (addrs t)) s (?l (Suc i)) r) E s2"
          using x as(2) i by simp
      qed (use r in simp_all)
      then show "wp (seqM (forM as (\<lambda>a. bindM (transformAttr q a) (\<lambda>partnAttr. bindM (derefM r) (\<lambda>w.
            bindM (partn_window_add_attr w partnAttr) (\<lambda>_. retM ()))))) (retM r))
          (step 1 0 (set (addrs t)) s (np_window q (WS_PARTITION n as) (shape t))) E s1"
        by simp
    qed simp
  next
    case WS_UNBOUNDED
    then show ?thesis
      using step_same [OF assms(1)] by (auto simp: applyWindow_n_def intro: step_weaken)
  qed (auto simp: applyWindow_n_def simp del: One_nat_def intro!: b unary_constructors_wp [OF assms(1)])
qed

section \<open>Joins\<close>

lemma tablePlan_n_wp:
  assumes "tm_ok tm" and "refs_ok tm (refTables q)" and "from_ok tm q"
    and "i < length (fromClauseTables q)" and "operator_ptr s + 2 \<le> MAXOPERATOR"
  shows "wp (tablePlan_n tm q i) (step 2 0 {} s (np_table tm q i)) E s"
proof -
  let ?v = "fromClauseTables q ! i" and ?t = "refTables q ! (fromClauseTables q ! i)"
  have v: "?v < length (refTables q)" using assms(3,4) by (simp add: from_ok_def)
  have t: "?t < length (tableList tm)" using assms(2) v by (simp add: refs_ok_def)
  have "wp (bindM (getSource_n tm ?v ?t) (\<lambda>tableSource. bindM (isStream tm ?t) (\<lambda>str.
      if str then bindM (nthM (winSpec q) i) (\<lambda>w. bindM (derefM w) (\<lambda>win. applyWindow_n q win tableSource))
      else retM (Some tableSource)))) (step 2 0 {} s (np_table tm q i)) E s"
  proof (rule wp_bindI [OF getSource_n_wp [OF assms(1) t]])
    fix p s1 assume src: "step 1 0 {} s (lp_source tm ?v ?t) (Some p) s1"
    show "wp (bindM (isStream tm ?t) (\<lambda>str.
      if str then bindM (nthM (winSpec q) i) (\<lambda>w. bindM (derefM w) (\<lambda>win. applyWindow_n q win p))
      else retM (Some p))) (step 2 0 {} s (np_table tm q i)) E s1"
    proof (cases "tblIsStream (tableList tm ! ?t)")
      case True
      then obtain w where w: "winSpec q ! i = Some w" "win_ok tm (refTables q) w"
          "i < length (winSpec q)"
        using assms(3,4) by (auto simp: from_ok_def)
      have "wp (applyWindow_n q w p) (step (1 + 1) (0 + 0) {} s (np_table tm q i)) E s1"
      proof (rule step_trans [OF src])
        fix u y assume "Some p = Some y" "plan_at s1 y u" "shape u = lp_source tm ?v ?t"
          "operator_ptr s1 \<le> operator_ptr s + 1"
        then show "wp (applyWindow_n q w p) (step 1 0 (set (addrs u)) s1 (np_table tm q i)) E s1"
          using applyWindow_n_wp [of s1 p u tm q w E] assms(5) w True
          by (simp add: np_table_def Let_def)
      qed
      then show ?thesis using True w t by (simp add: numeral_2_eq_2)
    next
      case False
      then show ?thesis
        using src t by (auto simp: np_table_def Let_def intro: step_weaken)
    qed
  qed (use assms(5) in auto)
  then show ?thesis using v t assms(4) by (simp add: tablePlan_n_def)
qed

lemma np_window_attrs [simp]: "outAttrs (lroot (np_window q w p)) = outAttrs (lroot p)"
  by (cases w) (simp_all add: lp_unary_def)

lemma np_table_attrs:
  "outAttrs (lroot (np_table tm q i)) =
    source_attrs (fromClauseTables q ! i) (refTables q ! (fromClauseTables q ! i)) (table_width tm q i)"
  by (auto simp: np_table_def Let_def lp_source_def table_width_def split: option.splits)

lemma lp_cross_add_sel [simp]:
  "lkind (lroot (lp_cross_add c p)) = lkind (lroot c)"
  "outAttrs (lroot (lp_cross_add c p)) = outAttrs (lroot c) @ outAttrs (lroot p)"
  "bStream (lroot (lp_cross_add c p)) \<longleftrightarrow> bStream (lroot c) \<and> bStream (lroot p)"
  "lsubs (lp_cross_add c p) = lsubs c @ [p]"
  by (cases c; simp)+

lemma foldl_cross_add:
  "outAttrs (lroot (foldl lp_cross_add c ps)) = outAttrs (lroot c) @ concat (map (outAttrs \<circ> lroot) ps)"
  "lkind (lroot (foldl lp_cross_add c ps)) = lkind (lroot c)"
  "bStream (lroot (foldl lp_cross_add c ps)) \<longleftrightarrow> bStream (lroot c) \<and> list_all (bStream \<circ> lroot) ps"
  "lsubs (foldl lp_cross_add c ps) = lsubs c @ ps"
  by (induction ps arbitrary: c) simp_all

lemma foldl_cross_width:
  "length (outAttrs (lroot (foldl lp_cross_add lp_cross (map (np_table tm q) is)))) =
    sum_list (map (table_width tm q) is)"
  by (simp add: foldl_cross_add lp_cross_def length_concat comp_def np_table_attrs source_attrs_def)

lemma sum_list_prefix:
  fixes f :: "nat \<Rightarrow> nat"
  shows "i \<le> n \<Longrightarrow> sum_list (map f [0 ..< i]) \<le> sum_list (map f [0 ..< n])"
  by (induction n) (auto simp: le_Suc_eq)

lemma sum_list_ones:
  fixes f :: "nat \<Rightarrow> nat"
  shows "\<forall>i<n. 0 < f i \<Longrightarrow> n \<le> sum_list (map f [0 ..< n])"
proof (induction n)
  case (Suc n)
  then have "n \<le> sum_list (map f [0 ..< n])" "0 < f n" by simp_all
  then show ?case by simp
qed simp

lemma joinTables_n_width_wp:
  assumes "tm_ok tm" and "tm_nonempty tm" and "refs_ok tm (refTables q)" and "from_ok tm q"
    and "fromClauseTables q \<noteq> []" and "operator_ptr s = 0"
  shows "wp (joinTables_n tm q) (\<lambda>r s'. join_width tm q \<le> MAX_ATTRS \<and> step 23 0 {} s (np_join tm q) r s')
    (\<lambda>rc _. rc = - 1 \<and> MAX_ATTRS < join_width tm q) s"
proof (cases "length (fromClauseTables q) > 1")
  case False
  then have n: "length (fromClauseTables q) = 1" using assms(5) by (cases "fromClauseTables q") auto
  have "wp (tablePlan_n tm q 0) (step 2 0 {} s (np_table tm q 0))
      (\<lambda>rc _. rc = - 1 \<and> MAX_ATTRS < join_width tm q) s"
    using assms n by (intro tablePlan_n_wp) (auto simp: MAXOPERATOR_def)
  moreover have "join_width tm q \<le> MAX_ATTRS"
  proof -
    have "refTables q ! (fromClauseTables q ! 0) < length (tableList tm)"
      using assms(3,4) n by (auto simp: from_ok_def refs_ok_def)
    then show ?thesis
      using tm_ok_tbl [OF assms(1)] n by (simp add: join_width_def table_width_def tbl_ok_def)
  qed
  ultimately show ?thesis
    using n by (auto simp: joinTables_n_def np_join_def elim!: wp_mono intro: step_weaken)
next
  case True
  let ?n = "length (fromClauseTables q)"
  let ?E = "\<lambda>rc _. rc = - 1 \<and> MAX_ATTRS < join_width tm q"
  let ?l = "\<lambda>i. foldl lp_cross_add lp_cross (map (np_table tm q) [0 ..< i])"
  have width: "0 < table_width tm q i" if "i < ?n" for i
    using assms(2-4) that
    by (auto simp: table_width_def tm_nonempty_def from_ok_def refs_ok_def)
  show ?thesis unfolding joinTables_n_def if_P [OF True]
  proof (rule wp_bindI [OF mk_cross_wp [of "{}"]])
    fix r s1 assume r: "built {} s lp_cross r s1"
    then have "step 1 0 {} s lp_cross r s1"
      using assms(6) by (intro step_built) (auto simp: MAXOPERATOR_def)
    then obtain c where c: "r = Some c" "step 1 0 {} s lp_cross (Some c) s1"
      by (auto simp: step_def)
    have "wp (foldM (\<lambda>cross t. bindM (tablePlan_n tm q t) (\<lambda>tablePlan. bindM (derefM tablePlan) (\<lambda>p.
        bindM (cross_add_input cross p) nonNull))) c [0 ..< ?n])
      (\<lambda>cross s'. join_width tm q \<le> MAX_ATTRS \<and> step 23 0 {} s (?l ?n) (Some cross) s') ?E s1"
    proof (rule wp_foldM [where I = "\<lambda>i x s'. i \<le> MAX_INPUT_OPS \<and> sum_list (map (table_width tm q) [0 ..< i]) \<le> MAX_ATTRS \<and>
          step (1 + 2 * i) 0 {} s (?l i) (Some x) s'"])
      fix i x s2
      assume "i < length [0 ..< ?n]" and
        I: "i \<le> MAX_INPUT_OPS \<and> sum_list (map (table_width tm q) [0 ..< i]) \<le> MAX_ATTRS \<and> step (1 + 2 * i) 0 {} s (?l i) (Some x) s2"
      then have i: "i < ?n" "i \<le> 10" by (simp_all add: MAX_INPUT_OPS_def)
      obtain tc where tc: "plan_at s2 x tc" "shape tc = ?l i"
          "\<forall>a\<in>set (addrs tc). operator_ptr s \<le> a" and ptr: "operator_ptr s2 \<le> 1 + 2 * i"
        using I assms(6) by (auto simp: step_def grown_def)
      have tp: "wp (tablePlan_n tm q i) (step 2 0 {} s2 (np_table tm q i)) ?E s2"
        using assms i ptr by (intro tablePlan_n_wp) (auto simp: MAXOPERATOR_def)
      have "wp (bindM (tablePlan_n tm q i) (\<lambda>tablePlan. bindM (derefM tablePlan) (\<lambda>p.
          bindM (cross_add_input x p) nonNull)))
        (\<lambda>x s'. Suc i \<le> MAX_INPUT_OPS \<and> sum_list (map (table_width tm q) [0 ..< Suc i]) \<le> MAX_ATTRS \<and> step (1 + 2 * Suc i) 0 {} s (?l (Suc i)) (Some x) s') ?E s2"
      proof (rule wp_bindI [OF tp])
        fix r' s3 assume r': "step 2 0 {} s2 (np_table tm q i) r' s3"
        then obtain p u where p: "r' = Some p" "plan_at s3 p u" "shape u = np_table tm q i"
            "\<forall>a\<in>set (addrs u). operator_ptr s2 \<le> a" and f: "only_changes {} s2 s3"
          by (auto simp: step_def grown_def)
        have tc3: "plan_at s3 x tc" using tc(1) f by (rule plan_at_frame) simp
        have disj: "set (addrs tc) \<inter> set (addrs u) = {}"
          using tc(1) p(4) by (force simp: placed_def)
        have w: "length (outAttrs (lroot (?l i))) + length (outAttrs (lroot (np_table tm q i))) =
            sum_list (map (table_width tm q) [0 ..< Suc i])"
          by (simp add: foldl_cross_width np_table_attrs source_attrs_def)
        have le: "sum_list (map (table_width tm q) [0 ..< Suc i]) \<le> join_width tm q"
          unfolding join_width_def using i(1) by (intro sum_list_prefix) simp
        have ge: "Suc i \<le> sum_list (map (table_width tm q) [0 ..< Suc i])"
          using width i(1) by (intro sum_list_ones) auto
        have len: "length (lsubs (?l i)) = i"
          by (simp add: foldl_cross_add lp_cross_def)
        have "wp (cross_add_input x p)
          (\<lambda>r. wp (nonNull r) (\<lambda>x s'. Suc i \<le> MAX_INPUT_OPS \<and> sum_list (map (table_width tm q) [0 ..< Suc i]) \<le> MAX_ATTRS \<and>
             step (1 + 2 * Suc i) 0 {} s (?l (Suc i)) (Some x) s') ?E) ?E s3"
        proof (rule wp_mono [OF cross_add_input_wp [OF tc3 p(2) disj]])
          fix r'' s4
          assume a: "if length (outAttrs (lroot (shape tc))) + length (outAttrs (lroot (shape u))) > MAX_ATTRS \<or>
               length (lsubs (shape tc)) = MAX_INPUT_OPS
            then r'' = None \<and> s4 = s3
            else r'' = Some x \<and> changed (set (addrs tc) \<union> set (addrs u)) s3
              (lp_cross_add (shape tc) (shape u)) x s4"
          show "wp (nonNull r'') (\<lambda>x s'. Suc i \<le> MAX_INPUT_OPS \<and> sum_list (map (table_width tm q) [0 ..< Suc i]) \<le> MAX_ATTRS \<and>
             step (1 + 2 * Suc i) 0 {} s (?l (Suc i)) (Some x) s') ?E s4"
          proof (cases "sum_list (map (table_width tm q) [0 ..< Suc i]) > MAX_ATTRS \<or> i = MAX_INPUT_OPS")
            case True
            then have "r'' = None" using a w len tc(2) p(3) by (auto split: if_splits)
            moreover have "MAX_ATTRS < join_width tm q"
              using True le ge by (auto simp: MAX_INPUT_OPS_def MAX_ATTRS_def)
            ultimately show ?thesis by (simp add: nonNull_def)
          next
            case False
            then have x: "r'' = Some x" "changed (set (addrs tc) \<union> set (addrs u)) s3
                (lp_cross_add (?l i) (np_table tm q i)) x s4"
              using a w len tc(2) p(3) by (auto split: if_splits)
            have "only_changes {} s s3"
              using I f by (intro only_changes_trans [of "{}" s s2 "{}" s3]) (auto simp: step_def grown_def)
            moreover have "\<forall>a\<in>set (addrs tc) \<union> set (addrs u). a \<in> {} \<or> operator_ptr s \<le> a"
              using tc(3) p(4) I by (auto simp: assms(6))
            ultimately have "grown {} s (?l (Suc i)) x s4"
            proof (rule grown_step)
              show "grown (set (addrs tc) \<union> set (addrs u)) s3 (?l (Suc i)) x s4"
                using x(2) by (simp add: changed_def)
            qed
            then have "step (1 + 2 * Suc i) 0 {} s (?l (Suc i)) (Some x) s4"
              using x(2) I r' by (auto simp: step_def changed_def)
            then show ?thesis using x(1) False I by (simp add: nonNull_def)
          qed
        qed simp
        then show "wp (bindM (derefM r') (\<lambda>p. bindM (cross_add_input x p) nonNull))
          (\<lambda>x s'. Suc i \<le> MAX_INPUT_OPS \<and> sum_list (map (table_width tm q) [0 ..< Suc i]) \<le> MAX_ATTRS \<and> step (1 + 2 * Suc i) 0 {} s (?l (Suc i)) (Some x) s') ?E s3"
          using p(1) by simp
      qed simp
      then show "wp (bindM (tablePlan_n tm q ([0 ..< ?n] ! i)) (\<lambda>tablePlan. bindM (derefM tablePlan) (\<lambda>p.
          bindM (cross_add_input x p) nonNull)))
        (\<lambda>x s'. Suc i \<le> MAX_INPUT_OPS \<and> sum_list (map (table_width tm q) [0 ..< Suc i]) \<le> MAX_ATTRS \<and> step (1 + 2 * Suc i) 0 {} s (?l (Suc i)) (Some x) s') ?E s2"
        using i by simp
    qed (use c in \<open>auto simp: MAX_INPUT_OPS_def MAX_ATTRS_def join_width_def intro: step_weaken\<close>)
    then show "wp (bindM (nonNull r) (\<lambda>c0. bindM (foldM (\<lambda>cross t. bindM (tablePlan_n tm q t)
        (\<lambda>tablePlan. bindM (derefM tablePlan) (\<lambda>p. bindM (cross_add_input cross p) nonNull))) c0
        [0 ..< ?n]) (\<lambda>cross. retM (Some cross))))
        (\<lambda>r s'. join_width tm q \<le> MAX_ATTRS \<and> step 23 0 {} s (np_join tm q) r s') ?E s1"
      using c True by (simp add: nonNull_def np_join_def)
  qed simp
qed

lemma joinTables_n_wp:
  assumes "tm_ok tm" and "tm_nonempty tm" and "refs_ok tm (refTables q)" and "from_ok tm q"
    and "fromClauseTables q \<noteq> []" and "operator_ptr s = 0"
  shows "wp (joinTables_n tm q) (step 23 0 {} s (np_join tm q))
    (\<lambda>rc _. rc = - 1 \<and> MAX_ATTRS < join_width tm q) s"
  by (rule wp_mono [OF joinTables_n_width_wp [OF assms]]) simp_all

section \<open>Predicates\<close>

lemma step_expr_shift:
  assumes "wp m (step d e A (s\<lparr>expr_ptr := expr_ptr s + e0\<rparr>) l) E s'"
  shows "wp m (step d (e0 + e) A s l) E s'"
  using assms by (rule wp_mono) (auto intro: step_expr)

lemma ptrArg_Some [simp]: "ptrArg (Some x) f = f x"
  by (simp add: ptrArg_def)

lemma nonNull_step: "step d e A s l r s' \<Longrightarrow> wp (nonNull r) (\<lambda>x s''. s'' = s' \<and> r = Some x) E s'"
  by (auto simp: step_def nonNull_def)

lemma step_nonNull:
  assumes "step d e A s l r s'"
  shows "wp (bindM (nonNull r) (\<lambda>x. retM (Some x))) (step d e A s l) E s'"
  using assms by (auto simp: step_def nonNull_def)

lemma applyPreds_n_wp:
  assumes "\<forall>b\<in>set bs. bexpr_wt tm (refTables q) b" and "plan_at s p t"
    and "operator_ptr s + length bs \<le> MAXOPERATOR"
    and "expr_ptr s + sum_list (map bexpr_size bs) \<le> MAXEXPR"
  shows "wp (foldM (\<lambda>plan p. bindM (transformBExpr q p) (\<lambda>bExpr.
        bindM (ptrArg plan (\<lambda>x. mk_select x bExpr)) (\<lambda>r.
        bindM (nonNull r) (\<lambda>x. retM (Some x))))) (Some p) bs)
    (step (length bs) (sum_list (map bexpr_size bs)) (set (addrs t)) s
      (foldl (\<lambda>p b. lp_unary (LO_SELECT (np_bexpr q b)) (\<lambda>x. x) p) (shape t) bs)) E s"
  using assms
proof (induction bs arbitrary: s p t)
  case Nil
  then show ?case using step_same by simp
next
  case (Cons b bs)
  let ?s = "s\<lparr>expr_ptr := expr_ptr s + bexpr_size b\<rparr>"
  let ?f = "\<lambda>plan p. bindM (transformBExpr q p) (\<lambda>bExpr. bindM (ptrArg plan (\<lambda>x. mk_select x bExpr)) (\<lambda>r.
        bindM (nonNull r) (\<lambda>x. retM (Some x))))"
  let ?l = "lp_unary (LO_SELECT (np_bexpr q b)) (\<lambda>x. x) (shape t)"
  have "wp (bindM (mk_select p (np_bexpr q b)) (\<lambda>r. bindM (bindM (nonNull r) (\<lambda>x. retM (Some x)))
        (\<lambda>plan. foldM ?f plan bs)))
      (step (1 + length bs) (0 + sum_list (map bexpr_size bs)) (set (addrs t)) ?s
        (foldl (\<lambda>p b. lp_unary (LO_SELECT (np_bexpr q b)) (\<lambda>x. x) p) ?l bs)) E ?s"
  proof (rule wp_bindI [OF unary_constructors_wp(5)])
    show "plan_at ?s p t" using Cons.prems by simp
    fix r s1 assume "built (set (addrs t)) ?s ?l r s1"
    then have st: "step 1 0 (set (addrs t)) ?s ?l r s1"
      using Cons.prems by (intro step_built) auto
    then obtain x where x: "r = Some x" by (auto simp: step_def)
    have "wp (foldM ?f r bs)
      (step (1 + length bs) (0 + sum_list (map bexpr_size bs)) (set (addrs t)) ?s
        (foldl (\<lambda>p b. lp_unary (LO_SELECT (np_bexpr q b)) (\<lambda>x. x) p) ?l bs)) E s1"
    proof (rule step_trans [OF st])
      fix u y assume "r = Some y" "plan_at s1 y u" "shape u = ?l"
        "operator_ptr s1 \<le> operator_ptr ?s + 1" "expr_ptr s1 = expr_ptr ?s + 0"
      then show "wp (foldM ?f r bs) (step (length bs) (sum_list (map bexpr_size bs)) (set (addrs u)) s1
        (foldl (\<lambda>p b. lp_unary (LO_SELECT (np_bexpr q b)) (\<lambda>x. x) p) ?l bs)) E s1"
        using Cons.IH [of s1 y u] Cons.prems by simp
    qed
    then show "wp (bindM (bindM (nonNull r) (\<lambda>x. retM (Some x))) (\<lambda>plan. foldM ?f plan bs))
      (step (1 + length bs) (0 + sum_list (map bexpr_size bs)) (set (addrs t)) ?s
        (foldl (\<lambda>p b. lp_unary (LO_SELECT (np_bexpr q b)) (\<lambda>x. x) p) ?l bs)) E s1"
      using x by (simp add: nonNull_def)
  qed simp
  from step_expr_shift [OF this] show ?case
    using Cons.prems by (simp add: transformBExpr_wp [where tm = tm])
qed

section \<open>Aggregation\<close>

lemma attr_eq_nattr: "attr_eq x (nattr q a) \<longleftrightarrow> x = nattr q a"
  by (cases x) (auto simp: nattr_def)

lemma np_collect_length: "length acc \<le> length (np_collect q e acc)"
proof (induction e arbitrary: acc)
  case (SE_COMP t op l r)
  then show ?case using le_trans by fastforce
qed auto

lemma collectAggrs_wp:
  assumes "sem_wt tm (refTables q) e" and "length acc \<le> MAX_AGGR_ATTRS"
  shows "wp (collectAggrs q e acc)
    (\<lambda>r s'. s' = s \<and> r = np_collect q e acc \<and> length r \<le> MAX_AGGR_ATTRS)
    (\<lambda>rc s'. rc = - 1 \<and> MAX_AGGR_ATTRS < length (np_collect q e acc)) s"
  using assms
proof (induction e arbitrary: acc)
  case (SE_AGGR t fn a)
  have "(\<exists>x\<in>set acc. attr_eq (fst x) (nattr q a) \<and> snd x = fn) \<longleftrightarrow> (nattr q a, fn) \<in> set acc"
    by (force simp: attr_eq_nattr)
  then show ?case using SE_AGGR by (auto simp: sattr_ok_def)
next
  case (SE_COMP t op l r)
  have "wp (collectAggrs q l acc)
      (\<lambda>x s'. s' = s \<and> x = np_collect q l acc \<and> length x \<le> MAX_AGGR_ATTRS)
      (\<lambda>rc s'. rc = - 1 \<and> MAX_AGGR_ATTRS < length (np_collect q l acc)) s"
    using SE_COMP by simp
  then show ?case unfolding collectAggrs.simps
    by (rule wp_bindI)
      (use SE_COMP np_collect_length [of "np_collect q l acc" q r] in \<open>auto simp del: wp_bindM\<close>)
qed auto

lemma collect_all_wp:
  assumes "\<forall>e\<in>set es. sem_wt tm (refTables q) e" and "length acc \<le> MAX_AGGR_ATTRS"
  shows "wp (foldM (\<lambda>aggrs e. collectAggrs q e aggrs) acc es)
    (\<lambda>r s'. s' = s \<and> r = fold (np_collect q) es acc)
    (\<lambda>rc s'. rc = - 1 \<and> MAX_AGGR_ATTRS < length (fold (np_collect q) es acc)) s"
  using assms
proof (induction es arbitrary: acc)
  case (Cons e es)
  have grow: "length acc \<le> length (fold (np_collect q) es acc)" for acc
    by (induction es arbitrary: acc) (auto intro: le_trans [OF np_collect_length])
  have "wp (collectAggrs q e acc)
      (\<lambda>x s'. s' = s \<and> x = np_collect q e acc \<and> length x \<le> MAX_AGGR_ATTRS)
      (\<lambda>rc s'. rc = - 1 \<and> MAX_AGGR_ATTRS < length (np_collect q e acc)) s"
    using Cons.prems by (intro collectAggrs_wp) auto
  then show ?case
    using Cons.IH Cons.prems(1) grow [of "np_collect q e acc"]
    by (auto elim!: wp_mono intro: less_le_trans)
qed simp

lemma np_collect_named:
  "\<forall>x\<in>set acc. P (fst x) \<Longrightarrow> (\<And>a. P (nattr q a)) \<Longrightarrow> \<forall>x\<in>set (np_collect q e acc). P (fst x)"
proof (induction e arbitrary: acc)
  case (SE_COMP t op l r)
  then have "\<forall>x\<in>set (np_collect q l acc). P (fst x)" by blast
  then show ?case using SE_COMP unfolding np_collect.simps by blast
qed simp_all

lemma fold_collect_named:
  assumes "\<And>a. P (nattr q a)"
  shows "\<forall>x\<in>set acc. P (fst x) \<Longrightarrow> \<forall>x\<in>set (fold (np_collect q) es acc). P (fst x)"
proof (induction es arbitrary: acc)
  case (Cons e es)
  then have "\<forall>x\<in>set (np_collect q e acc). P (fst x)"
    using assms by (intro np_collect_named) auto
  then show ?case using Cons.IH by simp
qed simp

lemma np_aggrs_named: "x \<in> set (np_aggrs q) \<Longrightarrow> \<exists>a. fst x = nattr q a"
  using fold_collect_named [of "\<lambda>x. \<exists>a. x = nattr q a" q "[]" "projExprs q"]
  by (auto simp: np_aggrs_def)

text \<open>The aggregation with the first attributes and aggregations of its arrays.\<close>

definition lp_aggr :: "lattr list \<Rightarrow> (lattr \<times> aggr_fn) list \<Rightarrow> lplan \<Rightarrow> lplan" where
  "lp_aggr gs as p = LP \<lparr>lkind = LO_GROUP_AGGR gs as,
     outAttrs = gs @ map (\<lambda>(a, fn). aggr_attr fn a) as, bStream = False\<rparr> [p]"

lemma lp_aggr_root [simp]:
  "lkind (lroot (lp_aggr gs as p)) = LO_GROUP_AGGR gs as"
  "length (outAttrs (lroot (lp_aggr gs as p))) = length gs + length as"
  by (simp_all add: lp_aggr_def)

lemma lp_aggr_add [simp]:
  "lp_add_group a (lp_aggr gs [] p) = lp_aggr (gs @ [a]) [] p"
  "lp_add_aggr fn a (lp_aggr gs as p) = lp_aggr gs (as @ [(a, fn)]) p"
  by (simp_all add: lp_aggr_def)

lemma add_groups_wp:
  assumes "step 1 0 A s (lp_aggr [] [] p) r s1" and "\<forall>a\<in>set gs. sVarId a < length (refTables q)"
    and "length gs \<le> MAX_ATTRS"
  shows "wp (foldM (\<lambda>aggrOp a. bindM (transformAttr q a) (\<lambda>groupAttr.
      bindM (derefM aggrOp) (\<lambda>p. add_group_attr p groupAttr))) r gs)
    (step 1 0 A s (lp_aggr (map (nattr q) gs) [] p)) E s1"
proof (rule wp_foldM [where I = "\<lambda>i. step 1 0 A s (lp_aggr (map (nattr q) (take i gs)) [] p)"])
  fix i r s2 assume i: "i < length gs" and I: "step 1 0 A s (lp_aggr (map (nattr q) (take i gs)) [] p) r s2"
  obtain x where x: "r = Some x" using I by (auto simp: step_def)
  have "wp (add_group_attr x (nattr q (gs ! i)))
      (\<lambda>r' s'. r' = r \<and> step 1 0 A s (lp_aggr (map (nattr q) (take (Suc i) gs)) [] p) r s') E s2"
  proof (rule step_update [OF I])
    fix t y assume y: "r = Some y" "plan_at s2 y t" "shape t = lp_aggr (map (nattr q) (take i gs)) [] p"
    show "wp (add_group_attr x (nattr q (gs ! i))) (\<lambda>r s'. r = Some y \<and> changed (set (addrs t)) s2
        (lp_aggr (map (nattr q) (take (Suc i) gs)) [] p) y s') E s2"
      using add_group_attr_wp [OF y(2), of "map (nattr q) (take i gs)" "[]" "nattr q (gs ! i)" E] x y i assms(3)
      by (simp add: take_Suc_conv_app_nth LOP_GROUP_ATTRS_def MAX_ATTRS_def)
  qed
  then show "wp (bindM (transformAttr q (gs ! i)) (\<lambda>groupAttr. bindM (derefM r) (\<lambda>p. add_group_attr p groupAttr)))
      (step 1 0 A s (lp_aggr (map (nattr q) (take (Suc i) gs)) [] p)) E s2"
    using x assms(2) i by (auto elim!: wp_mono)
qed (use assms(1) in auto)

lemma add_aggrs_wp:
  assumes "step 1 0 A s (lp_aggr gs [] p) r s1" and "\<forall>x\<in>set as. \<exists>a. fst x = nattr q a"
    and "length gs + length as \<le> MAX_ATTRS"
  shows "wp (foldM (\<lambda>aggrOp (attr, fn). bindM (derefM aggrOp) (\<lambda>p. add_aggr p fn attr)) r as)
    (step 1 0 A s (lp_aggr gs as p)) E s1"
proof (rule wp_foldM [where I = "\<lambda>i. step 1 0 A s (lp_aggr gs (take i as) p)"])
  fix i r s2 assume i: "i < length as" and I: "step 1 0 A s (lp_aggr gs (take i as) p) r s2"
  obtain x where x: "r = Some x" using I by (auto simp: step_def)
  obtain a fn where a: "as ! i = (a, fn)" by (cases "as ! i")
  obtain v tb k where nm: "a = A_NAMED v tb k"
    using assms(2) i a nth_mem [OF i] by (auto simp: nattr_def)
  have "wp (add_aggr x fn a)
      (\<lambda>r' s'. r' = r \<and> step 1 0 A s (lp_aggr gs (take (Suc i) as) p) r s') E s2"
  proof (rule step_update [OF I])
    fix t y assume y: "r = Some y" "plan_at s2 y t" "shape t = lp_aggr gs (take i as) p"
    show "wp (add_aggr x fn a) (\<lambda>r s'. r = Some y \<and> changed (set (addrs t)) s2
        (lp_aggr gs (take (Suc i) as) p) y s') E s2"
      using add_aggr_wp [OF y(2), of gs "take i as" a v tb k fn E] x y i a nm assms(3)
      by (simp add: take_Suc_conv_app_nth MAX_AGGR_ATTRS_def MAX_ATTRS_def)
  qed
  then show "wp (case as ! i of (attr, fn) \<Rightarrow> bindM (derefM r) (\<lambda>p. add_aggr p fn attr))
      (step 1 0 A s (lp_aggr gs (take (Suc i) as) p)) E s2"
    using x a by (auto elim!: wp_mono)
qed (use assms(1) in auto)

lemma applyAggr_n_wp:
  assumes "\<forall>e\<in>set (projExprs q). sem_wt tm (refTables q) e"
    and "\<forall>a\<in>set (gbyAttrs q). sattr_ok tm (refTables q) a" and "plan_fits q"
    and "plan_at s p t" and "operator_ptr s < MAXOPERATOR"
  shows "wp (applyAggr_n q (Some p)) (step 1 0 (set (addrs t)) s (np_aggr q (shape t))) E s"
proof -
  have small: "length (np_aggrs q) \<le> MAX_AGGR_ATTRS"
    using assms(3) by (simp add: plan_fits_def MAX_AGGR_ATTRS_def MAX_ATTRS_def)
  have collect: "wp (foldM (\<lambda>aggrs e. collectAggrs q e aggrs) [] (projExprs q))
      (\<lambda>r s'. s' = s \<and> r = np_aggrs q) E s"
    using collect_all_wp [OF assms(1), of "[]" s] small
    by (auto simp: np_aggrs_def elim!: wp_mono)
  show ?thesis unfolding applyAggr_n_def
  proof (rule wp_bindI [OF collect])
    fix as s1 assume as: "s1 = s \<and> as = np_aggrs q"
    show "wp (if as = [] \<and> gbyAttrs q = [] then retM (Some p) else
        bindM (ptrArg (Some p) mk_group_aggr) (\<lambda>r. bindM (nonNull r) (\<lambda>a0.
        bindM (foldM (\<lambda>aggrOp a. bindM (transformAttr q a) (\<lambda>groupAttr.
          bindM (derefM aggrOp) (\<lambda>p. add_group_attr p groupAttr))) (Some a0) (gbyAttrs q)) (\<lambda>aggrOp.
        foldM (\<lambda>aggrOp (attr, fn). bindM (derefM aggrOp) (\<lambda>p. add_aggr p fn attr)) aggrOp as))))
      (step 1 0 (set (addrs t)) s (np_aggr q (shape t))) E s1"
    proof (cases "as = [] \<and> gbyAttrs q = []")
      case True
      then show ?thesis
        using as step_same [OF assms(4)] by (auto simp: np_aggr_def intro: step_weaken)
    next
      case False
      have "wp (bindM (mk_group_aggr p) (\<lambda>r. bindM (nonNull r) (\<lambda>a0.
        bindM (foldM (\<lambda>aggrOp a. bindM (transformAttr q a) (\<lambda>groupAttr.
          bindM (derefM aggrOp) (\<lambda>p. add_group_attr p groupAttr))) (Some a0) (gbyAttrs q)) (\<lambda>aggrOp.
        foldM (\<lambda>aggrOp (attr, fn). bindM (derefM aggrOp) (\<lambda>p. add_aggr p fn attr)) aggrOp (np_aggrs q)))))
        (step 1 0 (set (addrs t)) s (lp_aggr (map (nattr q) (gbyAttrs q)) (np_aggrs q) (shape t))) E s"
      proof (rule wp_bindI [OF mk_group_aggr_wp [OF assms(4)]])
        fix r s2 assume "built (set (addrs t)) s
          (LP \<lparr>lkind = LO_GROUP_AGGR [] [], outAttrs = [], bStream = False\<rparr> [shape t]) r s2"
        then have st: "step 1 0 (set (addrs t)) s (lp_aggr [] [] (shape t)) r s2"
          using assms(5) by (intro step_built) (simp_all add: lp_aggr_def)
        then obtain x where x: "r = Some x" by (auto simp: step_def)
        have gs: "wp (foldM (\<lambda>aggrOp a. bindM (transformAttr q a) (\<lambda>groupAttr.
            bindM (derefM aggrOp) (\<lambda>p. add_group_attr p groupAttr))) r (gbyAttrs q))
          (step 1 0 (set (addrs t)) s (lp_aggr (map (nattr q) (gbyAttrs q)) [] (shape t))) E s2"
          using st assms(2,3) by (intro add_groups_wp) (auto simp: sattr_ok_def plan_fits_def)
        have "wp (bindM (foldM (\<lambda>aggrOp a. bindM (transformAttr q a) (\<lambda>groupAttr.
            bindM (derefM aggrOp) (\<lambda>p. add_group_attr p groupAttr))) r (gbyAttrs q)) (\<lambda>aggrOp.
          foldM (\<lambda>aggrOp (attr, fn). bindM (derefM aggrOp) (\<lambda>p. add_aggr p fn attr)) aggrOp (np_aggrs q)))
          (step 1 0 (set (addrs t)) s (lp_aggr (map (nattr q) (gbyAttrs q)) (np_aggrs q) (shape t))) E s2"
          by (rule wp_bindI [OF gs], rule add_aggrs_wp)
            (use assms(3) np_aggrs_named in \<open>auto simp: plan_fits_def\<close>)
        then show "wp (bindM (nonNull r) (\<lambda>a0.
          bindM (foldM (\<lambda>aggrOp a. bindM (transformAttr q a) (\<lambda>groupAttr.
            bindM (derefM aggrOp) (\<lambda>p. add_group_attr p groupAttr))) (Some a0) (gbyAttrs q)) (\<lambda>aggrOp.
          foldM (\<lambda>aggrOp (attr, fn). bindM (derefM aggrOp) (\<lambda>p. add_aggr p fn attr)) aggrOp (np_aggrs q))))
          (step 1 0 (set (addrs t)) s (lp_aggr (map (nattr q) (gbyAttrs q)) (np_aggrs q) (shape t))) E s2"
          using x by (simp add: nonNull_def)
      qed simp
      then show ?thesis using False as by (auto simp: np_aggr_def lp_aggr_def)
    qed
  qed simp
qed

section \<open>Projection\<close>

definition lp_proj :: "lexpr list \<Rightarrow> lplan \<Rightarrow> lplan" where
  "lp_proj es p = LP \<lparr>lkind = LO_PROJECT es, outAttrs = map project_attr es,
     bStream = bStream (lroot p)\<rparr> [p]"

lemma lp_proj_root [simp]:
  "lkind (lroot (lp_proj es p)) = LO_PROJECT es"
  "outAttrs (lroot (lp_proj es p)) = map project_attr es"
  by (simp_all add: lp_proj_def)

lemma lp_proj_add [simp]: "lp_add_proj e (lp_proj es p) = lp_proj (es @ [e]) p"
  by (simp add: lp_proj_def)

lemma step_add_exprs:
  "step d e A s l r s1 \<Longrightarrow> step d (e + k) A s l r (s1\<lparr>expr_ptr := expr_ptr s1 + k\<rparr>)"
  by (auto simp: step_def grown_def only_changes_def)

lemma doProjs_n_wp:
  assumes "\<forall>e\<in>set (projExprs q). sem_wt tm (refTables q) e" and "length (projExprs q) \<le> MAX_ATTRS"
    and "plan_at s p t" and "operator_ptr s < MAXOPERATOR"
    and "expr_ptr s + sum_list (map sem_size (projExprs q)) \<le> MAXEXPR"
  shows "wp (doProjs_n q (Some p))
    (step 1 (sum_list (map sem_size (projExprs q))) (set (addrs t)) s (np_project q (shape t))) E s"
proof -
  let ?es = "projExprs q" and ?A = "set (addrs t)"
  let ?l = "\<lambda>i. lp_proj (map (np_expr q) (take i ?es)) (shape t)"
  have "wp (bindM (mk_project p) (\<lambda>r. bindM (nonNull r) (\<lambda>p0. foldM (\<lambda>project e.
      bindM (transformExpr q e) (\<lambda>projExpr. bindM (derefM project) (\<lambda>p. add_project_expr p projExpr)))
      (Some p0) ?es)))
    (step 1 (sum_list (map sem_size ?es)) ?A s (?l (length ?es))) E s"
  proof (rule wp_bindI [OF mk_project_wp [OF assms(3)]])
    fix r s1 assume "built ?A s (LP \<lparr>lkind = LO_PROJECT [], outAttrs = [],
      bStream = bStream (lroot (shape t))\<rparr> [shape t]) r s1"
    then have st: "step 1 0 ?A s (?l 0) r s1"
      using assms(4) by (intro step_built) (simp_all add: lp_proj_def)
    then obtain x where x: "r = Some x" by (auto simp: step_def)
    have "wp (foldM (\<lambda>project e. bindM (transformExpr q e) (\<lambda>projExpr.
        bindM (derefM project) (\<lambda>p. add_project_expr p projExpr))) r ?es)
      (step 1 (sum_list (map sem_size ?es)) ?A s (?l (length ?es))) E s1"
    proof (rule wp_foldM [where I = "\<lambda>i. step 1 (sum_list (map sem_size (take i ?es))) ?A s (?l i)"])
      fix i r s2 assume i: "i < length ?es"
        and I: "step 1 (sum_list (map sem_size (take i ?es))) ?A s (?l i) r s2"
      obtain x where x: "r = Some x" using I by (auto simp: step_def)
      let ?e = "?es ! i"
      let ?s = "s2\<lparr>expr_ptr := expr_ptr s2 + sem_size ?e\<rparr>"
      have split: "sum_list (map sem_size ?es) = sum_list (map sem_size (take (Suc i) ?es)) +
          sum_list (map sem_size (drop (Suc i) ?es))"
        by (metis append_take_drop_id map_append sum_list_append)
      have sz: "sum_list (map sem_size (take (Suc i) ?es)) =
          sum_list (map sem_size (take i ?es)) + sem_size ?e"
        using i by (simp add: take_Suc_conv_app_nth)
      have I': "step 1 (sum_list (map sem_size (take (Suc i) ?es))) ?A s (?l i) r ?s"
        unfolding sz using I by (rule step_add_exprs)
      have "wp (add_project_expr x (Some (np_expr q ?e)))
        (\<lambda>r' s'. r' = r \<and> step 1 (sum_list (map sem_size (take (Suc i) ?es))) ?A s (?l (Suc i)) r s') E ?s"
      proof (rule step_update [OF I'])
        fix u y assume y: "r = Some y" "plan_at ?s y u" "shape u = ?l i"
        show "wp (add_project_expr x (Some (np_expr q ?e)))
          (\<lambda>r s'. r = Some y \<and> changed (set (addrs u)) ?s (?l (Suc i)) y s') E ?s"
          using add_project_expr_wp [OF y(2), of "map (np_expr q) (take i ?es)" "np_expr q ?e" E] x y i
            assms(2)
          by (simp add: take_Suc_conv_app_nth)
      qed
      moreover have "expr_ptr s2 + sem_size ?e \<le> MAXEXPR"
        using I assms(5) split sz by (simp add: step_def)
      ultimately show "wp (bindM (transformExpr q ?e) (\<lambda>projExpr.
          bindM (derefM r) (\<lambda>p. add_project_expr p projExpr)))
        (step 1 (sum_list (map sem_size (take (Suc i) ?es))) ?A s (?l (Suc i))) E s2"
        using assms(1) i x by (auto simp: transformExpr_wp [where tm = tm] elim!: wp_mono)
    qed (use st in auto)
    then show "wp (bindM (nonNull r) (\<lambda>p0. foldM (\<lambda>project e. bindM (transformExpr q e)
        (\<lambda>projExpr. bindM (derefM project) (\<lambda>p. add_project_expr p projExpr))) (Some p0) ?es))
      (step 1 (sum_list (map sem_size ?es)) ?A s (?l (length ?es))) E s1"
      using x by (simp add: nonNull_def)
  qed simp
  moreover have "?l (length ?es) = np_project q (shape t)"
    by (simp add: np_project_def lp_proj_def)
  ultimately show ?thesis by (simp add: doProjs_n_def)
qed

section \<open>The whole plan\<close>

lemma applyDistinct_n_wp:
  assumes "plan_at s p t" and "operator_ptr s < MAXOPERATOR"
  shows "wp (applyDistinct_n q (Some p))
    (\<lambda>x. step 1 0 (set (addrs t)) s (np_distinct q (shape t)) (Some x)) E s"
proof (cases "bDistinct q")
  case True
  have "wp (bindM (mk_distinct p) nonNull)
      (\<lambda>x. step 1 0 (set (addrs t)) s (lp_unary LO_DISTINCT (\<lambda>x. x) (shape t)) (Some x)) E s"
  proof (rule wp_bindI [OF unary_constructors_wp(6) [OF assms(1)]])
    fix r s1 assume "built (set (addrs t)) s (lp_unary LO_DISTINCT (\<lambda>x. x) (shape t)) r s1"
    then have "step 1 0 (set (addrs t)) s (lp_unary LO_DISTINCT (\<lambda>x. x) (shape t)) r s1"
      using assms(2) by (rule step_built)
    then show "wp (nonNull r)
        (\<lambda>x. step 1 0 (set (addrs t)) s (lp_unary LO_DISTINCT (\<lambda>x. x) (shape t)) (Some x)) E s1"
      by (auto simp: step_def nonNull_def)
  qed simp
  then show ?thesis using True by (simp add: applyDistinct_n_def np_distinct_def)
next
  case False
  then show ?thesis
    using step_same [OF assms(1)]
    by (auto simp: applyDistinct_n_def np_distinct_def nonNull_def intro: step_weaken)
qed

lemma applyR2SOps_n_wp:
  assumes "plan_at s p t" and "operator_ptr s < MAXOPERATOR"
    and "bRelToStr q \<longrightarrow> r2sOp q \<noteq> None"
  shows "wp (applyR2SOps_n q (Some p)) (step 1 0 (set (addrs t)) s (np_r2s q (shape t))) E s"
proof (cases "bRelToStr q")
  case True
  then obtain op where op: "r2sOp q = Some op" using assms(3) by blast
  have b: "wp (bindM m (\<lambda>r. bindM (nonNull r) (\<lambda>x. retM (Some x)))) (step 1 0 (set (addrs t)) s l) E s"
    if "wp m (built (set (addrs t)) s l) E s" for m l
    using that by (rule wp_bindI) (rule step_nonNull [OF step_built [OF _ assms(2)]])
  show ?thesis
    using True op
    by (cases op) (simp_all add: applyR2SOps_n_def np_r2s_def derefM_def b unary_constructors_wp [OF assms(1)] del: wp_bindM One_nat_def)
next
  case False
  then show ?thesis
    using step_same [OF assms(1)] by (auto simp: applyR2SOps_n_def np_r2s_def intro: step_weaken)
qed

lemma np_table_attr_ok:
  assumes "refs_ok tm (refTables q)" and "t < length (tableList tm)"
  shows "\<forall>a\<in>set (outAttrs (lroot (lp_source tm v t))). lattr_ok tm a"
  using assms by (auto simp: lp_source_def Let_def source_attrs_def attr_valid_def)

lemma genSFWPlan_n_wp:
  assumes "tm_ok tm" and "tm_nonempty tm" and "query_ok tm q" and "qKind q = SFW_QUERY"
    and "plan_fits q" and "operator_ptr s = 0" and "expr_ptr s = 0"
  shows "wp (genSFWPlan_n tm q)
    (step (27 + length (preds q)) (query_size q) {} s (naive_plan tm q))
    (\<lambda>rc _. rc = - 1 \<and> MAX_ATTRS < join_width tm q) s"
proof -
  let ?E = "\<lambda>rc _. rc = - 1 \<and> MAX_ATTRS < join_width tm q"
  let ?np = "length (preds q)" and ?bs = "sum_list (map bexpr_size (preds q))"
    and ?es = "sum_list (map sem_size (projExprs q))"
  have q: "refs_ok tm (refTables q)" "from_ok tm q" "fromClauseTables q \<noteq> []"
      "length (preds q) \<le> 10" "\<forall>b\<in>set (preds q). bexpr_wt tm (refTables q) b"
      "\<forall>e\<in>set (projExprs q). sem_wt tm (refTables q) e"
      "\<forall>a\<in>set (gbyAttrs q). sattr_ok tm (refTables q) a" "bRelToStr q \<longrightarrow> r2sOp q \<noteq> None"
    using assms(3,4) by (auto simp: query_ok_def MAX_PRED_def)
  have size: "?bs + ?es \<le> MAXEXPR" using assms(3,4) by (simp add: query_ok_def query_size_def MAXNODE_def MAX_PROJ_def MAXEXPR_def)
  let ?J = "np_join tm q"
  show ?thesis unfolding genSFWPlan_n_def
  proof (rule wp_bindI [OF joinTables_n_wp [OF assms(1,2) q(1-3) assms(6)]])
    fix r1 s1 assume s1: "step 23 0 {} s ?J r1 s1"
    have "wp (applyPreds_n q r1) (step (23 + ?np) (0 + ?bs) {} s (np_preds q ?J)) ?E s1"
    proof (rule step_trans [OF s1])
      fix t p assume "r1 = Some p" "plan_at s1 p t" "shape t = ?J"
        "operator_ptr s1 \<le> operator_ptr s + 23" "expr_ptr s1 = expr_ptr s + 0"
      then show "wp (applyPreds_n q r1) (step ?np ?bs (set (addrs t)) s1 (np_preds q ?J)) ?E s1"
        using applyPreds_n_wp [OF q(5), of s1 p t ?E] q(4) assms(6,7) size
        by (simp add: applyPreds_n_def np_preds_def MAXOPERATOR_def)
    qed
    then show "wp (bindM (applyPreds_n q r1) (\<lambda>select. bindM (applyAggr_n q select) (\<lambda>aggr.
        bindM (doProjs_n q aggr) (\<lambda>project. bindM (applyDistinct_n q project) (\<lambda>dist.
        applyR2SOps_n q (Some dist)))))) (step (27 + ?np) (query_size q) {} s (naive_plan tm q)) ?E s1"
    proof (rule wp_bindI)
      fix r2 s2 assume s2: "step (23 + ?np) (0 + ?bs) {} s (np_preds q ?J) r2 s2"
      have "wp (applyAggr_n q r2) (step (23 + ?np + 1) (0 + ?bs + 0) {} s (np_aggr q (np_preds q ?J))) ?E s2"
      proof (rule step_trans [OF s2])
        fix t p assume "r2 = Some p" "plan_at s2 p t" "shape t = np_preds q ?J"
          "operator_ptr s2 \<le> operator_ptr s + (23 + ?np)"
        then show "wp (applyAggr_n q r2) (step 1 0 (set (addrs t)) s2 (np_aggr q (np_preds q ?J))) ?E s2"
          using applyAggr_n_wp [OF q(6,7) assms(5), of s2 p t ?E] q(4) assms(6)
          by (simp add: MAXOPERATOR_def)
      qed
      then show "wp (bindM (applyAggr_n q r2) (\<lambda>aggr.
          bindM (doProjs_n q aggr) (\<lambda>project. bindM (applyDistinct_n q project) (\<lambda>dist.
          applyR2SOps_n q (Some dist))))) (step (27 + ?np) (query_size q) {} s (naive_plan tm q)) ?E s2"
      proof (rule wp_bindI)
        fix r3 s3
        assume s3: "step (23 + ?np + 1) (0 + ?bs + 0) {} s (np_aggr q (np_preds q ?J)) r3 s3"
        have "wp (doProjs_n q r3) (step (23 + ?np + 1 + 1) (0 + ?bs + 0 + ?es) {} s
            (np_project q (np_aggr q (np_preds q ?J)))) ?E s3"
        proof (rule step_trans [OF s3])
          fix t p assume "r3 = Some p" "plan_at s3 p t" "shape t = np_aggr q (np_preds q ?J)"
            "operator_ptr s3 \<le> operator_ptr s + (23 + ?np + 1)" "expr_ptr s3 = expr_ptr s + (0 + ?bs + 0)"
          then show "wp (doProjs_n q r3) (step 1 ?es (set (addrs t)) s3
              (np_project q (np_aggr q (np_preds q ?J)))) ?E s3"
            using doProjs_n_wp [OF q(6) assms(5) [unfolded plan_fits_def, THEN conjunct1], of s3 p t ?E] q(4) assms(6,7) size
            by (simp add: MAXOPERATOR_def)
        qed
        then show "wp (bindM (doProjs_n q r3) (\<lambda>project. bindM (applyDistinct_n q project) (\<lambda>dist.
            applyR2SOps_n q (Some dist)))) (step (27 + ?np) (query_size q) {} s (naive_plan tm q)) ?E s3"
        proof (rule wp_bindI)
          fix r4 s4
          assume s4: "step (23 + ?np + 1 + 1) (0 + ?bs + 0 + ?es) {} s
            (np_project q (np_aggr q (np_preds q ?J))) r4 s4"
          let ?D = "np_distinct q (np_project q (np_aggr q (np_preds q ?J)))"
          have "wp (bindM (applyDistinct_n q r4) (\<lambda>x. retM (Some x)))
            (step (23 + ?np + 1 + 1 + 1) (0 + ?bs + 0 + ?es + 0) {} s ?D) ?E s4"
          proof (rule step_trans [OF s4])
            fix t p assume "r4 = Some p" "plan_at s4 p t"
              "shape t = np_project q (np_aggr q (np_preds q ?J))"
              "operator_ptr s4 \<le> operator_ptr s + (23 + ?np + 1 + 1)"
            then show "wp (bindM (applyDistinct_n q r4) (\<lambda>x. retM (Some x)))
                (step 1 0 (set (addrs t)) s4 ?D) ?E s4"
              using applyDistinct_n_wp [of s4 p t q ?E] q(4) assms(6) by (simp add: MAXOPERATOR_def)
          qed
          then have "wp (applyDistinct_n q r4) (\<lambda>x. step (23 + ?np + 1 + 1 + 1) (0 + ?bs + 0 + ?es + 0) {} s ?D
              (Some x)) ?E s4"
            by simp
          then show "wp (bindM (applyDistinct_n q r4) (\<lambda>dist. applyR2SOps_n q (Some dist)))
            (step (27 + ?np) (query_size q) {} s (naive_plan tm q)) ?E s4"
          proof (rule wp_bindI)
            fix x s5
            assume s5: "step (23 + ?np + 1 + 1 + 1) (0 + ?bs + 0 + ?es + 0) {} s ?D (Some x) s5"
            have "wp (applyR2SOps_n q (Some x)) (step (23 + ?np + 1 + 1 + 1 + 1) (0 + ?bs + 0 + ?es + 0 + 0) {} s
              (np_r2s q ?D)) ?E s5"
            proof (rule step_trans [OF s5])
              fix t p assume "Some x = Some p" "plan_at s5 p t" "shape t = ?D"
                "operator_ptr s5 \<le> operator_ptr s + (23 + ?np + 1 + 1 + 1)"
              then show "wp (applyR2SOps_n q (Some x)) (step 1 0 (set (addrs t)) s5 (np_r2s q ?D)) ?E s5"
                using applyR2SOps_n_wp [of s5 p t q ?E] q(4,8) assms(6) by (simp add: MAXOPERATOR_def)
            qed
            then show "wp (applyR2SOps_n q (Some x)) (step (27 + ?np) (query_size q) {} s (naive_plan tm q)) ?E s5"
              using assms(4) by (simp add: naive_plan_def query_size_def add.commute add.assoc)
          qed simp
        qed simp
      qed simp
    qed simp
  qed simp
qed

lemma genBinOpPlan_n_wp:
  assumes "tm_ok tm" and "query_ok tm q" and "qKind q = BINARY_OP" and "operator_ptr s = 0"
  shows "wp (genBinOpPlan_n tm q) (step 4 0 {} s (naive_plan tm q)) E s"
proof -
  obtain t0 t1 bop where q: "refTables q = [t0, t1]" "binOp q = Some bop"
    and t: "t0 < length (tableList tm)" "t1 < length (tableList tm)"
    and r2s: "bRelToStr q \<longrightarrow> r2sOp q \<noteq> None"
    using assms(2,3) by (auto simp: query_ok_def refs_ok_def)
  have kind: "qKind q \<noteq> SFW_QUERY" using assms(3) by simp
  define mk where "mk = (\<lambda>l r. case bop of B_UNION \<Rightarrow> mk_union tm l r | B_EXCEPT \<Rightarrow> mk_except tm l r)"
  have "wp (bindM (getSource_n tm 0 t0) (\<lambda>l. bindM (getSource_n tm 0 t1) (\<lambda>r.
      bindM (mk l r) (applyR2SOps_n q)))) (step 4 0 {} s (naive_plan tm q)) E s"
  proof (rule wp_bindI [OF getSource_n_wp [OF assms(1) t(1), where A = "{}"]])
    fix l s1 assume "step 1 0 {} s (lp_source tm 0 t0) (Some l) s1"
    then obtain tl where tl: "plan_at s1 l tl" "shape tl = lp_source tm 0 t0"
        "\<forall>a\<in>set (addrs tl). operator_ptr s \<le> a"
      and s1: "operator_ptr s1 \<le> 1" "expr_ptr s1 = expr_ptr s" "only_changes {} s s1"
      using assms(4) by (auto simp: step_def grown_def)
    show "wp (bindM (getSource_n tm 0 t1) (\<lambda>r. bindM (mk l r) (applyR2SOps_n q)))
      (step 4 0 {} s (naive_plan tm q)) E s1"
    proof (rule wp_bindI [OF getSource_n_wp [OF assms(1) t(2), where A = "{}"]])
      fix r s2 assume "step 1 0 {} s1 (lp_source tm 0 t1) (Some r) s2"
      then obtain tr where tr: "plan_at s2 r tr" "shape tr = lp_source tm 0 t1"
          "\<forall>a\<in>set (addrs tr). operator_ptr s1 \<le> a"
        and s2: "operator_ptr s2 \<le> 2" "expr_ptr s2 = expr_ptr s" "only_changes {} s1 s2"
        using s1 by (auto simp: step_def grown_def)
      have tl2: "plan_at s2 l tl" using tl(1) s2(3) by (rule plan_at_frame) simp
      have disj: "set (addrs tl) \<inter> set (addrs tr) = {}"
        using tl(1) tr(3) by (force simp: placed_def)
      have attrs: "\<forall>a\<in>set (outAttrs (lroot (shape tl))). lattr_ok tm a"
        using np_table_attr_ok [of tm q t0 0] tl(2) t(1) assms(2) by (simp add: query_ok_def)
      let ?P = "np_binop tm q"
      have "wp (mk l r) (built (set (addrs tl) \<union> set (addrs tr)) s2 ?P) E s2"
      proof (cases bop)
        case B_UNION
        then show ?thesis
          using binary_op_wp [OF tl2 tr(1) disj attrs, of LO_UNION "(\<and>)" E] q tl(2) tr(2)
          by (simp add: mk_def mk_union_def np_binop_def Let_def)
      next
        case B_EXCEPT
        then show ?thesis
          using binary_op_wp [OF tl2 tr(1) disj attrs, of LO_EXCEPT "\<lambda>_ _. False" E] q tl(2) tr(2)
          by (simp add: mk_def mk_except_def np_binop_def Let_def)
      qed
      then show "wp (bindM (mk l r) (applyR2SOps_n q)) (step 4 0 {} s (naive_plan tm q)) E s2"
      proof (rule wp_bindI)
        fix x s3 assume b: "built (set (addrs tl) \<union> set (addrs tr)) s2 ?P x s3"
        then have x: "step 1 0 (set (addrs tl) \<union> set (addrs tr)) s2 ?P x s3"
          using s2 by (intro step_built) (auto simp: MAXOPERATOR_def)
        have "only_changes {} s s2"
          using s1(3) s2(3) by (rule only_changes_trans) auto
        moreover have "\<forall>a\<in>set (addrs tl) \<union> set (addrs tr). a \<in> {} \<or> operator_ptr s \<le> a"
          by (simp add: assms(4))
        ultimately have "grown {} s ?P (the x) s3"
        proof (rule grown_step)
          show "grown (set (addrs tl) \<union> set (addrs tr)) s2 ?P (the x) s3"
            using x by (auto simp: step_def)
        qed
        then have st: "step 3 0 {} s ?P x s3"
          using x s2 assms(4) by (auto simp: step_def)
        have "wp (applyR2SOps_n q x) (step (3 + 1) (0 + 0) {} s (np_r2s q ?P)) E s3"
        proof (rule step_trans [OF st])
          fix t p assume "x = Some p" "plan_at s3 p t" "shape t = ?P" "operator_ptr s3 \<le> operator_ptr s + 3"
          then show "wp (applyR2SOps_n q x) (step 1 0 (set (addrs t)) s3 (np_r2s q ?P)) E s3"
            using applyR2SOps_n_wp [of s3 p t q E] r2s assms(4) by (simp add: MAXOPERATOR_def)
        qed
        then show "wp (applyR2SOps_n q x) (step 4 0 {} s (naive_plan tm q)) E s3"
          using kind by (simp add: naive_plan_def)
      qed simp
    qed (use s1 in \<open>auto simp: MAXOPERATOR_def\<close>)
  qed (use assms(4) in \<open>auto simp: MAXOPERATOR_def\<close>)
  then show ?thesis
    using q by (simp add: genBinOpPlan_n_def mk_def)
qed

text \<open>
  \<open>genPlan_n\<close> builds the naive plan of the query, or fails because the join has too many
  attributes.
\<close>

lemma wp_bind_also:
  assumes "wp (bindM m f) Q E s" and "wp m (\<lambda>_ _. W) E' s"
  shows "wp (bindM m f) (\<lambda>a s'. Q a s' \<and> W) E s"
  using assms by (auto simp: wp_def bindM_def split: outcome.splits)

lemma genSFWPlan_n_width_wp:
  assumes "tm_ok tm" and "tm_nonempty tm" and "query_ok tm q" and "qKind q = SFW_QUERY"
    and "plan_fits q" and "operator_ptr s = 0" and "expr_ptr s = 0"
  shows "wp (genSFWPlan_n tm q)
    (\<lambda>r s'. step (27 + length (preds q)) (query_size q) {} s (naive_plan tm q) r s' \<and>
       join_width tm q \<le> MAX_ATTRS)
    (\<lambda>rc _. rc = - 1 \<and> MAX_ATTRS < join_width tm q) s"
  unfolding genSFWPlan_n_def
proof (rule wp_bind_also)
  show "wp (joinTables_n tm q) (\<lambda>_ _. join_width tm q \<le> MAX_ATTRS) (\<lambda>_ _. True) s"
    by (rule wp_mono [OF joinTables_n_width_wp]) (use assms in \<open>auto simp: query_ok_def\<close>)
qed (fact genSFWPlan_n_wp [OF assms, unfolded genSFWPlan_n_def])

lemma genPlan_n_wp:
  assumes "tm_ok tm" and "tm_nonempty tm" and "query_ok tm q"
    and "qKind q = SFW_QUERY \<longrightarrow> plan_fits q"
  shows "wp (genPlan_n tm q)
    (\<lambda>r s'. \<exists>p t. r = Some p \<and> plan_at s' p t \<and> shape t = naive_plan tm q \<and>
       operator_ptr s' \<le> 37 \<and> expr_ptr s' \<le> MAXNODE + MAX_PROJ \<and>
       (qKind q = SFW_QUERY \<longrightarrow> join_width tm q \<le> MAX_ATTRS))
    (\<lambda>rc s'. rc = - 1 \<and> qKind q = SFW_QUERY \<and> MAX_ATTRS < join_width tm q) s"
proof -
  let ?s = "s\<lparr>operator_ptr := 0, expr_ptr := 0\<rparr>"
  have fin: "\<exists>p t. r = Some p \<and> plan_at s' p t \<and> shape t = naive_plan tm q \<and>
       operator_ptr s' \<le> 37 \<and> expr_ptr s' \<le> MAXNODE + MAX_PROJ"
    if "step d e {} ?s (naive_plan tm q) r s'" "d \<le> 37" "e \<le> MAXNODE + MAX_PROJ" for d e r s'
    using that by (auto simp: step_def grown_def)
  show ?thesis
  proof (cases "qKind q = SFW_QUERY")
    case True
    have "wp (genSFWPlan_n tm q)
      (\<lambda>r s'. step (27 + length (preds q)) (query_size q) {} ?s (naive_plan tm q) r s' \<and>
         join_width tm q \<le> MAX_ATTRS)
      (\<lambda>rc _. rc = - 1 \<and> MAX_ATTRS < join_width tm q) ?s"
      using assms True by (intro genSFWPlan_n_width_wp) auto
    then show ?thesis
      using True assms(3)
      by (auto simp: genPlan_n_def reset_op_pool_def reset_expr_pool_def query_ok_def MAX_PRED_def
          elim!: wp_mono intro!: fin [simplified])
  next
    case False
    then have k: "qKind q = BINARY_OP" by (cases "qKind q") auto
    have "wp (genBinOpPlan_n tm q) (step 4 0 {} ?s (naive_plan tm q))
      (\<lambda>rc s'. rc = - 1 \<and> qKind q = SFW_QUERY \<and> MAX_ATTRS < join_width tm q) ?s"
      using assms k by (intro genBinOpPlan_n_wp) auto
    then show ?thesis
      using k by (auto simp: genPlan_n_def reset_op_pool_def reset_expr_pool_def
          elim!: wp_mono intro!: fin [simplified])
  qed
qed

end
