(* ===== verification/Naive_Spec.thy ===== *)
theory Naive_Spec
  imports Naive_Facts Sem_Spec
begin

text \<open>
  What the generator of the naive plan promises: for every query of the semantic interpreter that
  keeps to the attribute limits it builds the plan that \<open>naive_plan\<close> describes, and a join that
  is too wide is the only reason to fail.  Queries with too many projections are a defect.
\<close>

text \<open>C3: For a query that the semantic interpreter has built, with at most \<open>MAX_ATTRS\<close> projections
  and at most \<open>MAX_ATTRS\<close> grouping and aggregated attributes, the pool contains afterwards, at the
  returned root, exactly the operator tree \<open>naive_plan\<close>: schemas, stream flags, kinds, inputs and
  back pointers.  It needs at most 37 operators.  The only failure is a join of more than
  \<open>MAX_ATTRS\<close> attributes.\<close>
theorem genPlan_refines:
  assumes "tm_ok tm" and "tm_nonempty tm" and "query_ok tm q"
    and "qKind q = SFW_QUERY \<longrightarrow> plan_fits q"
  shows "wp (genPlan_n tm q)
    (\<lambda>r s'. \<exists>p t. r = Some p \<and> plan_at s' p t \<and> shape t = naive_plan tm q \<and> operator_ptr s' \<le> 37)
    (\<lambda>rc s'. rc = - 1 \<and> qKind q = SFW_QUERY \<and> MAX_ATTRS < join_width tm q) s"
  by (rule wp_mono [OF genPlan_n_wp [OF assms]]) blast+

definition demo_query :: query where
  "demo_query = blank_query\<lparr>qKind := SFW_QUERY, refTables := [0], fromClauseTables := [0],
     winSpec := [Some WS_NOW], projExprs := [SE_ATTR T_INT \<lparr>sVarId = 0, sAttrId = 0\<rparr>],
     bRelToStr := True, r2sOp := Some R_RSTREAM\<rparr>"

lemma demo_query_ok: "query_ok demo_tables demo_query" "plan_fits demo_query"
  by (simp_all add: query_ok_def plan_fits_def demo_query_def blank_query_def refs_ok_def from_ok_def
      sattr_ok_def sattr_type_def attr_valid_def query_size_def demo_tables_def MAX_PRED_def
      MAX_GROUP_ATTRS_def MAX_PROJ_def MAXNODE_def MAX_ATTRS_def np_aggrs_def)

definition empty_pool :: lstate where
  "empty_pool = \<lparr>opHeap = (\<lambda>_. \<lparr>lkind = LO_CROSS, outAttrs = [], bStream = False, loutput = None,
     linputs = []\<rparr>), operator_ptr = 0, expr_ptr = 0\<rparr>"

theorem genPlan_refines_witness:
  "wp (genPlan_n demo_tables demo_query)
    (\<lambda>r s'. \<exists>p t. r = Some p \<and> plan_at s' p t \<and> shape t = naive_plan demo_tables demo_query)
    (\<lambda>_ _. False) empty_pool"
proof -
  have "join_width demo_tables demo_query = 2"
    by (simp add: join_width_def table_width_def demo_query_def demo_tables_def)
  then show ?thesis
    using genPlan_refines [OF demo_ok(1,3) demo_query_ok(1), of empty_pool] demo_query_ok(2)
    by (auto simp: MAX_ATTRS_def elim!: wp_mono)
qed

text \<open>C16: A query may have up to \<open>MAX_PROJ\<close> = 50 projections for the semantic interpreter, but with
  more than \<open>MAX_ATTRS\<close> + 1 = 11 of them \<open>doProjs_n\<close> dereferences a null pointer: it checks the
  result of \<open>add_project_expr\<close> nowhere.\<close>
theorem too_many_projections:
  assumes "\<forall>e\<in>set (projExprs q). sem_wt tm (refTables q) e" and "plan_at s p t"
    and "operator_ptr s < MAXOPERATOR"
    and "expr_ptr s + sum_list (map sem_size (projExprs q)) \<le> MAXEXPR"
    and "MAX_ATTRS + 2 \<le> length (projExprs q)"
  shows "doProjs_n q (Some p) s = Undef"
proof -
  let ?es = "projExprs q" and ?n = MAX_ATTRS
  let ?body = "\<lambda>project e. bindM (transformExpr q e) (\<lambda>projExpr.
      bindM (derefM project) (\<lambda>p. add_project_expr p projExpr))"
  define q' where "q' = q\<lparr>projExprs := take ?n ?es\<rparr>"
  define x y zs where "x = ?es ! ?n" and "y = ?es ! Suc ?n" and "zs = drop (Suc (Suc ?n)) ?es"
  have es: "?es = take ?n ?es @ x # y # zs"
    using assms(5) by (simp add: x_def y_def zs_def Cons_nth_drop_Suc)
  have mem: "x \<in> set ?es" "y \<in> set ?es" using assms(5) by (simp_all add: x_def y_def)
  have sz: "sum_list (map sem_size ?es) = sum_list (map sem_size (take ?n ?es)) + sem_size x +
      sem_size y + sum_list (map sem_size zs)"
    by (subst es) simp
  have tr: "transformExpr q' e = transformExpr q e" for e
    by (induction e) (simp_all add: q'_def transformAttr_def transformAggrAttr_def)
  have "wp (doProjs_n q' (Some p)) (step 1 (sum_list (map sem_size (projExprs q'))) (set (addrs t)) s
      (np_project q' (shape t))) (\<lambda>_ _. False) s"
  proof (rule doProjs_n_wp [where tm = tm])
    show "\<forall>e\<in>set (projExprs q'). sem_wt tm (refTables q') e"
      using assms(1) by (auto simp: q'_def dest: in_set_takeD)
    show "length (projExprs q') \<le> MAX_ATTRS" by (simp add: q'_def)
    show "expr_ptr s + sum_list (map sem_size (projExprs q')) \<le> MAXEXPR"
      using assms(4) sz by (simp add: q'_def)
  qed (use assms in simp_all)
  then obtain r s1 where r: "doProjs_n q' (Some p) s = Done (Some r) s1"
    and st: "step 1 (sum_list (map sem_size (take ?n ?es))) (set (addrs t)) s (np_project q' (shape t)) (Some r) s1"
    by (auto dest!: wp_success simp: q'_def step_def)
  obtain u where u: "plan_at s1 r u" "shape u = np_project q' (shape t)"
    using st by (auto simp: step_def grown_def)
  have px: "expr_ptr s1 = expr_ptr s + sum_list (map sem_size (take ?n ?es))"
    using st by (simp add: step_def)
  let ?s2 = "s1\<lparr>expr_ptr := expr_ptr s1 + sem_size x\<rparr>"
  have "wp (transformExpr q x) (\<lambda>a s'. a = Some (np_expr q x) \<and> s' = ?s2) (\<lambda>_ _. False) s1"
    using assms(1,4) mem px sz by (subst transformExpr_wp [where tm = tm]) auto
  then have tx: "transformExpr q x s1 = Done (Some (np_expr q x)) ?s2" by (auto dest: wp_success)
  have "wp (transformExpr q y) (\<lambda>_ _. True) (\<lambda>_ _. False) ?s2"
    using assms(1,4) mem px sz by (subst transformExpr_wp [where tm = tm]) auto
  then obtain b s3 where ty: "transformExpr q y ?s2 = Done b s3" by (auto dest: wp_success)
  have u2: "plan_at ?s2 r u" using u(1) by simp
  have "wp (add_project_expr r (Some (np_expr q x))) (\<lambda>a s'. a = None \<and> s' = ?s2) (\<lambda>_ _. False) ?s2"
    by (rule wp_mono [OF add_project_expr_wp [OF u2]])
      (use u(2) assms(5) in \<open>auto simp: np_project_def q'_def\<close>)
  then have ax: "add_project_expr r (Some (np_expr q x)) ?s2 = Done None ?s2" by (auto dest: wp_success)
  have "doProjs_n q (Some p) s = (case doProjs_n q' (Some p) s of
      Done a s' \<Rightarrow> foldM ?body a (x # y # zs) s' | Fail rc s' \<Rightarrow> Fail rc s' | Exit n \<Rightarrow> Exit n | Undef \<Rightarrow> Undef)"
    unfolding doProjs_n_def tr
    by (subst es, simp only: foldM_append q'_def query.simps)
      (auto simp: bindM_def split: outcome.splits)
  then show ?thesis using r tx ax ty by (simp add: bindM_def derefM_def undefM_def retM_def)
qed

theorem too_many_projections_witness:
  "doProjs_n (demo_query\<lparr>projExprs := replicate 12 (SE_CONST (IVal 1))\<rparr>) (Some 0)
    (empty_pool\<lparr>operator_ptr := 1\<rparr>) = Undef"
proof (rule too_many_projections)
  show "plan_at (empty_pool\<lparr>operator_ptr := 1\<rparr>) 0
      (PT 0 \<lparr>lkind = LO_CROSS, outAttrs = [], bStream = False\<rparr> [])"
    by (simp add: placed_def empty_pool_def info_of_def)
qed (simp_all add: empty_pool_def MAXOPERATOR_def MAXEXPR_def MAX_ATTRS_def sum_list_replicate)

end
