(* ===== verification/Log_Trans.thy ===== *)
theory Log_Trans
  imports Naive_Plan
begin

text \<open>
  \<open>src/querygen/log_plan_gen.cc\<close>: the transformations of the logical plan, and \<open>genLogPlan\<close>.

  The reference parameter \<open>plan\<close> of a transformation is its argument and its result.  Loops
  that follow \<open>inputs [0]\<close> or \<open>output\<close> carry a fuel of \<open>MAXOPERATOR\<close> steps: a longer run
  would visit an operator of the pool twice and never end, and it is undefined.
\<close>

section \<open>Kinds\<close>

fun is_select :: "lkind \<Rightarrow> bool" where
  "is_select (LO_SELECT _) = True"
| "is_select _ = False"

fun is_project :: "lkind \<Rightarrow> bool" where
  "is_project (LO_PROJECT _) = True"
| "is_project _ = False"

fun is_group_aggr :: "lkind \<Rightarrow> bool" where
  "is_group_aggr (LO_GROUP_AGGR _ _) = True"
| "is_group_aggr _ = False"

definition is_xstream :: "lkind \<Rightarrow> bool" where
  "is_xstream k \<longleftrightarrow> k = LO_ISTREAM \<or> k = LO_DSTREAM \<or> k = LO_RSTREAM"

text \<open>
  The loop that walks down the plan: it stops at an operator of the kind \<open>target\<close> (the
  result), passes operators of the kinds \<open>pass\<close> and gives up at any other operator.
\<close>

fun walkDown ::
    "nat \<Rightarrow> (lkind \<Rightarrow> bool) \<Rightarrow> (lkind \<Rightarrow> bool) \<Rightarrow> nat \<Rightarrow> (lstate, nat option) comp" where
  "walkDown 0 target pass op = undefM"
| "walkDown (Suc fuel) target pass op =
    bindM (getOp op) (\<lambda>ob.
    if target (lkind ob) then retM (Some op)
    else if pass (lkind ob) then bindM (inputAt op 0) (walkDown fuel target pass)
    else retM None)"

section \<open>Rstream over a now window\<close>

text \<open>\<open>while (op) { op -> bStream = true; op = op -> output; }\<close>\<close>

fun streamUp :: "nat \<Rightarrow> nat option \<Rightarrow> (lstate, unit) comp" where
  "streamUp fuel None = retM ()"
| "streamUp 0 (Some op) = undefM"
| "streamUp (Suc fuel) (Some op) =
    seqM (setOp op (\<lambda>x. x\<lparr>bStream := True\<rparr>))
    (bindM (getOp op) (\<lambda>ob. streamUp fuel (loutput ob)))"

definition t_rstreamNow :: "nat \<Rightarrow> (lstate, nat) comp" where
  "t_rstreamNow plan =
    bindM (getOp plan) (\<lambda>rstream.
    if lkind rstream \<noteq> LO_RSTREAM then retM plan
    else
      bindM (inputAt plan 0) (\<lambda>op.
      bindM (walkDown MAXOPERATOR (\<lambda>k. k = LO_NOW_WIN)
          (\<lambda>k. is_select k \<or> is_project k \<or> k = LO_DISTINCT) op) (\<lambda>r.
      case r of
        None \<Rightarrow> retM plan
      | Some now \<Rightarrow>
        bindM (inputAt plan 0) (\<lambda>newPlan.
        seqM (setOutput newPlan None)
        (bindM (getOp now) (\<lambda>n.
         bindM (inputAt now 0) (\<lambda>source.
         seqM (setOutput source (loutput n))
         (case loutput n of
            None \<Rightarrow> retM source
          | Some out \<Rightarrow>
              seqM (setInput out 0 source)
              (seqM (streamUp MAXOPERATOR (Some out)) (retM newPlan))))))))))"

section \<open>Redundant projections\<close>

definition isUselessProject :: "nat \<Rightarrow> (lstate, bool) comp" where
  "isUselessProject project =
    bindM (getOp project) (\<lambda>p.
    bindM (inputAt project 0) (\<lambda>i.
    bindM (getOp i) (\<lambda>inp.
    retM (list_all2 attr_eq (outAttrs p) (outAttrs inp)))))"

text \<open>
  Replacing the operator \<open>op\<close> of a plan by \<open>new\<close>, below the same output: the shared end of the
  transformations.
\<close>

definition replaceOp :: "nat \<Rightarrow> nat option \<Rightarrow> nat \<Rightarrow> (lstate, nat) comp" where
  "replaceOp plan out new =
    (case out of
      None \<Rightarrow> retM new
    | Some p \<Rightarrow> seqM (setInput p 0 new) (retM plan))"

definition t_removeProject :: "nat \<Rightarrow> (lstate, nat) comp" where
  "t_removeProject plan =
    bindM (walkDown MAXOPERATOR is_project
        (\<lambda>k. is_select k \<or> k = LO_DISTINCT \<or> is_xstream k) plan) (\<lambda>r.
    case r of
      None \<Rightarrow> retM plan
    | Some project \<Rightarrow>
      bindM (isUselessProject project) (\<lambda>useless.
      if useless then
        bindM (getOp project) (\<lambda>p.
        bindM (inputAt project 0) (\<lambda>i.
        seqM (setOutput i (loutput p)) (replaceOp plan (loutput p) i)))
      else retM plan))"

definition t_removeIstream :: "nat \<Rightarrow> (lstate, nat) comp" where
  "t_removeIstream plan =
    bindM (getOp plan) (\<lambda>p.
    if lkind p = LO_ISTREAM then
      bindM (inputAt plan 0) (\<lambda>i.
      bindM (getOp i) (\<lambda>inp.
      if bStream inp then seqM (setOutput i None) (retM i) else retM plan))
    else retM plan)"

section \<open>Stream cross products\<close>

definition t_streamCross :: "nat \<Rightarrow> (lstate, nat) comp" where
  "t_streamCross plan =
    bindM (getOp plan) (\<lambda>rstream.
    if lkind rstream \<noteq> LO_RSTREAM then retM plan
    else
      bindM (inputAt plan 0) (\<lambda>op.
      bindM (walkDown MAXOPERATOR (\<lambda>k. k = LO_CROSS)
          (\<lambda>k. is_project k \<or> k = LO_DISTINCT \<or> is_group_aggr k \<or> is_select k) op) (\<lambda>r.
      case r of
        None \<Rightarrow> retM plan
      | Some cross \<Rightarrow>
        bindM (getOp cross) (\<lambda>c.
        bindM (readM opHeap) (\<lambda>h.
        case find_first (\<lambda>i. lkind (h i) = LO_NOW_WIN) (linputs c) of
          None \<Rightarrow> retM plan
        | Some nowIndex \<Rightarrow>
          bindM (inputAt cross nowIndex) (\<lambda>now.
          bindM (inputAt now 0) (\<lambda>streamSource.
          bindM (mk_stream_cross streamSource) (\<lambda>sc.
          bindM (nonNull sc) (\<lambda>sc.
          bindM (foldM (\<lambda>sc i.
              if i = nowIndex then retM sc
              else bindM (inputAt cross i) (\<lambda>inp.
                   bindM (stream_cross_add_input sc inp) nonNull))
            sc [0 ..< length (linputs c)]) (\<lambda>sc.
          bindM (getOp cross) (\<lambda>c.
          seqM (setOutput sc (loutput c))
          (bindM (derefM (loutput c)) (\<lambda>out.
           seqM (setInput out 0 sc)
           (seqM (update_schema_recursive (Some out))
           (seqM (update_stream_property_recursive (Some out))
           (bindM (inputAt plan 0) (\<lambda>newPlan.
            seqM (setOutput newPlan None) (retM newPlan))))))))))))))))))"

section \<open>Binary cross products\<close>

text \<open>The kinds between the root and a cross product in both transformations.\<close>

definition above_cross :: "lkind \<Rightarrow> bool" where
  "above_cross k \<longleftrightarrow> is_select k \<or> is_project k \<or> is_group_aggr k \<or> k = LO_DISTINCT \<or> is_xstream k"

definition t_makeCrossBinary :: "nat \<Rightarrow> (lstate, nat) comp" where
  "t_makeCrossBinary plan =
    bindM (walkDown MAXOPERATOR (\<lambda>k. k = LO_CROSS) above_cross plan) (\<lambda>r.
    case r of
      None \<Rightarrow> retM plan
    | Some cross \<Rightarrow>
      bindM (getOp cross) (\<lambda>c.
      if length (linputs c) = 2 then retM plan
      else
        bindM mk_cross (\<lambda>b.
        bindM (nonNull b) (\<lambda>b.
        bindM (inputAt cross 0) (\<lambda>i0.
        bindM (cross_add_input b i0) (\<lambda>b.
        bindM (nonNull b) (\<lambda>b.
        bindM (inputAt cross 1) (\<lambda>i1.
        bindM (cross_add_input b i1) (\<lambda>b.
        bindM (nonNull b) (\<lambda>b.
        bindM (foldM (\<lambda>binCross i.
            bindM mk_cross (\<lambda>parent.
            bindM (nonNull parent) (\<lambda>parent.
            bindM (cross_add_input parent binCross) (\<lambda>parent.
            bindM (nonNull parent) (\<lambda>parent.
            bindM (inputAt cross i) (\<lambda>inp.
            bindM (cross_add_input parent inp) nonNull))))))
          b [2 ..< length (linputs c)]) (\<lambda>binCross.
        bindM (getOp cross) (\<lambda>c.
        seqM (setOutput binCross (loutput c))
          (replaceOp plan (loutput c) binCross)))))))))))))"

definition t_makeStreamCrossBinary :: "nat \<Rightarrow> (lstate, nat) comp" where
  "t_makeStreamCrossBinary plan =
    bindM (walkDown MAXOPERATOR (\<lambda>k. k = LO_STREAM_CROSS) above_cross plan) (\<lambda>r.
    case r of
      None \<Rightarrow> retM plan
    | Some cross \<Rightarrow>
      bindM (getOp cross) (\<lambda>c.
      if length (linputs c) = 2 then retM plan
      else
        bindM (inputAt cross 0) (\<lambda>i0.
        bindM (mk_stream_cross i0) (\<lambda>b.
        bindM (nonNull b) (\<lambda>b.
        bindM (inputAt cross 1) (\<lambda>i1.
        bindM (stream_cross_add_input b i1) (\<lambda>b.
        bindM (nonNull b) (\<lambda>b.
        bindM (foldM (\<lambda>binCross i.
            bindM (mk_stream_cross binCross) (\<lambda>parent.
            bindM (nonNull parent) (\<lambda>parent.
            bindM (inputAt cross i) (\<lambda>inp.
            bindM (stream_cross_add_input parent inp) nonNull))))
          b [2 ..< length (linputs c)]) (\<lambda>binCross.
        bindM (getOp cross) (\<lambda>c.
        seqM (setOutput binCross (loutput c))
          (replaceOp plan (loutput c) binCross)))))))))))"

section \<open>Pushing selections\<close>

definition checkRef :: "lexpr option \<Rightarrow> nat \<Rightarrow> (lstate, bool) comp" where
  "checkRef e i = bindM (derefM e) (\<lambda>x. bindM (getOp i) (\<lambda>ob. retM (check_reference x ob)))"

text \<open>The first input with all attributes that the two expressions refer to.\<close>

fun findChild :: "lexpr option \<Rightarrow> lexpr option \<Rightarrow> nat list \<Rightarrow> nat \<Rightarrow> (lstate, nat option) comp" where
  "findChild l r [] pos = retM None"
| "findChild l r (i # is) pos =
    bindM (checkRef l i) (\<lambda>bl.
    if \<not> bl then findChild l r is (pos + 1)
    else bindM (checkRef r i) (\<lambda>br.
         if br then retM (Some pos) else findChild l r is (pos + 1)))"

definition selectExpr :: "nat \<Rightarrow> (lstate, lbexpr) comp" where
  "selectExpr select =
    bindM (getOp select) (\<lambda>s. case lkind s of LO_SELECT b \<Rightarrow> retM b | _ \<Rightarrow> undefM)"

definition canBePushed :: "nat \<Rightarrow> nat \<Rightarrow> (lstate, nat option) comp" where
  "canBePushed select op =
    bindM (getOp op) (\<lambda>ob.
    if is_select (lkind ob) then retM (Some 0)
    else if lkind ob = LO_CROSS \<or> lkind ob = LO_STREAM_CROSS then
      bindM (selectExpr select) (\<lambda>b. findChild (lbLeft b) (lbRight b) (linputs ob) 0)
    else retM None)"

fun pushLoop :: "nat \<Rightarrow> nat \<Rightarrow> nat \<Rightarrow> nat \<Rightarrow> bool \<Rightarrow> (lstate, nat \<times> nat \<times> bool) comp" where
  "pushLoop 0 select op siblingPos useful = undefM"
| "pushLoop (Suc fuel) select op siblingPos useful =
    bindM (canBePushed select op) (\<lambda>c.
    case c of
      None \<Rightarrow> retM (op, siblingPos, useful)
    | Some childPos \<Rightarrow>
        bindM (getOp op) (\<lambda>ob.
        bindM (inputAt op childPos) (\<lambda>child.
        pushLoop fuel select child childPos (if is_select (lkind ob) then useful else True))))"

definition pushSelect :: "nat \<Rightarrow> (lstate, bool) comp" where
  "pushSelect select =
    bindM (inputAt select 0) (\<lambda>op.
    bindM (pushLoop MAXOPERATOR select op 0 False) (\<lambda>(op, siblingPos, useful).
    if useful then
      bindM (getOp op) (\<lambda>ob.
      bindM (selectExpr select) (\<lambda>b.
      bindM (mk_select op b) (\<lambda>p.
      bindM (derefM (loutput ob)) (\<lambda>op_parent.
      bindM (derefM p) (\<lambda>pushedSelect.
      seqM (setInput op_parent siblingPos pushedSelect)
      (seqM (setOutput pushedSelect (Some op_parent)) (retM True)))))))
    else retM False))"

fun pushAll :: "nat \<Rightarrow> nat \<Rightarrow> nat \<Rightarrow> (lstate, nat) comp" where
  "pushAll 0 plan select = undefM"
| "pushAll (Suc fuel) plan select =
    bindM (pushSelect select) (\<lambda>pushed.
    bindM (if pushed then
             bindM (getOp select) (\<lambda>s.
             bindM (inputAt select 0) (\<lambda>i.
             seqM (setOutput i (loutput s)) (replaceOp plan (loutput s) i)))
           else retM plan) (\<lambda>newPlan.
    bindM (inputAt select 0) (\<lambda>next.
    bindM (getOp next) (\<lambda>n.
    if is_select (lkind n) then pushAll fuel newPlan next else retM newPlan))))"

definition t_pushSelect :: "nat \<Rightarrow> (lstate, nat) comp" where
  "t_pushSelect plan =
    bindM (walkDown MAXOPERATOR is_select
        (\<lambda>k. is_xstream k \<or> is_project k \<or> k = LO_DISTINCT \<or> is_group_aggr k) plan) (\<lambda>r.
    case r of
      None \<Rightarrow> retM plan
    | Some select \<Rightarrow> pushAll MAXOPERATOR plan select)"

section \<open>The logical plan of a query\<close>

definition genLogPlan :: "table_manager \<Rightarrow> query \<Rightarrow> (lstate, nat) comp" where
  "genLogPlan tm q =
    bindM (genPlan_n tm q) (\<lambda>p.
    bindM (derefM p) (\<lambda>p.
    bindM (t_rstreamNow p) (\<lambda>p.
    bindM (t_streamCross p) (\<lambda>p.
    bindM (t_removeProject p) (\<lambda>p.
    bindM (t_makeCrossBinary p) (\<lambda>p.
    bindM (t_makeStreamCrossBinary p) t_pushSelect))))))"

end
