(* ===== verification/Log_Ctx.thy ===== *)
theory Log_Ctx
  imports Log_Trans Log_Facts "HOL-Library.Multiset"
begin

text \<open>
  Contexts: the part of a represented plan above one of its operators.  A transformation
  replaces the operator at the hole of a context; the lemmas below separate what it does to
  the hole from what it leaves alone.
\<close>

section \<open>Contexts\<close>

text \<open>
  An element of a context is an operator on the path from the root to the hole, with the
  inputs to the left and to the right of the path.
\<close>

type_synonym ctx = "(nat \<times> linfo \<times> ptree list \<times> ptree list) list"

fun plug :: "ctx \<Rightarrow> ptree \<Rightarrow> ptree" where
  "plug [] t = t"
| "plug ((a, i, ls, rs) # c) t = PT a i (ls @ plug c t # rs)"

fun caddrs :: "ctx \<Rightarrow> nat list" where
  "caddrs [] = []"
| "caddrs ((a, i, ls, rs) # c) = a # concat (map addrs ls) @ concat (map addrs rs) @ caddrs c"

text \<open>The output pointer of the hole, and the root of the whole.\<close>

fun ctx_out :: "nat option \<Rightarrow> ctx \<Rightarrow> nat option" where
  "ctx_out p [] = p"
| "ctx_out p ((a, i, ls, rs) # c) = ctx_out (Some a) c"

fun ctx_root :: "ctx \<Rightarrow> nat \<Rightarrow> nat" where
  "ctx_root [] x = x"
| "ctx_root ((a, i, ls, rs) # c) x = a"

fun ctx_rep :: "(nat \<Rightarrow> lop) \<Rightarrow> nat option \<Rightarrow> ctx \<Rightarrow> nat \<Rightarrow> bool" where
  "ctx_rep h p [] x \<longleftrightarrow> True"
| "ctx_rep h p ((a, i, ls, rs) # c) x \<longleftrightarrow> info_of (h a) = i \<and> loutput (h a) = p \<and>
     linputs (h a) = map paddr ls @ ctx_root c x # map paddr rs \<and>
     (\<forall>t\<in>set ls \<union> set rs. rep h (Some a) t) \<and> ctx_rep h (Some a) c x"

lemma paddr_plug [simp]: "paddr (plug c t) = ctx_root c (paddr t)"
  by (cases c) auto

lemma rep_plug: "rep h p (plug c t) \<longleftrightarrow> ctx_rep h p c (paddr t) \<and> rep h (ctx_out p c) t"
  by (induction c t arbitrary: p rule: plug.induct) auto

lemma addrs_plug: "mset (addrs (plug c t)) = mset (caddrs c) + mset (addrs t)"
  by (induction c t rule: plug.induct) auto

lemma set_addrs_plug: "set (addrs (plug c t)) = set (caddrs c) \<union> set (addrs t)"
  using addrs_plug [where c = c and t = t] by (metis set_mset_mset set_mset_union)

lemma distinct_plug: "distinct (addrs (plug c t)) \<longleftrightarrow>
   distinct (caddrs c) \<and> distinct (addrs t) \<and> set (caddrs c) \<inter> set (addrs t) = {}"
proof -
  have "distinct (addrs (plug c t)) = distinct (caddrs c @ addrs t)"
    by (intro mset_eq_imp_distinct_iff) (simp add: addrs_plug)
  then show ?thesis by simp
qed

lemma ctx_rep_cong:
  "(\<And>a. a \<in> set (caddrs c) \<Longrightarrow> h a = h' a) \<Longrightarrow> ctx_rep h p c x = ctx_rep h' p c x"
proof (induction h p c x rule: ctx_rep.induct)
  case (2 h p a i ls rs c x)
  have "rep h (Some a) t = rep h' (Some a) t" if "t \<in> set ls \<union> set rs" for t
    using that 2(2) by (intro rep_cong) auto
  then show ?case using 2 by simp
qed simp

text \<open>The operator above the hole.\<close>

lemma ctx_out_last: "c \<noteq> [] \<Longrightarrow> ctx_out p c = Some (fst (last c))"
  by (induction p c rule: ctx_out.induct) auto

lemma ctx_out_in: "ctx_out None c = Some a \<Longrightarrow> a \<in> set (caddrs c)"
proof -
  have "ctx_out p c = Some a \<Longrightarrow> p = Some a \<or> a \<in> set (caddrs c)" for p
    by (induction p c rule: ctx_out.induct) auto
  then show "ctx_out None c = Some a \<Longrightarrow> ?thesis" by auto
qed

lemma ctx_out_None: "ctx_out None c = None \<longleftrightarrow> c = []"
  by (cases c) (auto simp: ctx_out_last)

text \<open>Linking a new operator into the hole.\<close>

lemma ctx_rep_link:
  assumes "ctx_rep h p c x" and "c \<noteq> []" and "distinct (caddrs c)"
    and "last c = (a, i, ls, rs)"
    and "\<And>b. b \<in> set (caddrs c) \<Longrightarrow> b \<noteq> a \<Longrightarrow> h' b = h b"
    and "h' a = (h a)\<lparr>linputs := (linputs (h a))[length ls := y]\<rparr>"
  shows "ctx_rep h' p c y"
  using assms
proof (induction h p c x rule: ctx_rep.induct)
  case (2 h p b j ls' rs' c x)
  have sib: "rep h' (Some b) t" if t: "t \<in> set ls' \<union> set rs'" for t
  proof -
    have "a \<notin> set (addrs t)"
    proof (cases "c = []")
      case True
      then show ?thesis using 2(5,4) t by auto
    next
      case False
      then have "a \<in> set (caddrs c)"
        using 2(5) ctx_out_last [OF False, of None] ctx_out_in [of c a] by auto
      then show ?thesis using 2(4) t by auto
    qed
    then have "rep h' (Some b) t = rep h (Some b) t"
      using t 2(6) by (intro rep_cong) auto
    then show ?thesis using 2(2) t by auto
  qed
  show ?case
  proof (cases "c = []")
    case True
    then have "(b, j, ls', rs') = (a, i, ls, rs)" using 2(5) by simp
    then show ?thesis using True 2(2,7) sib by (auto simp: list_update_append)
  next
    case False
    have a: "a \<in> set (caddrs c)"
      using 2(5) False ctx_out_last [OF False, of None] ctx_out_in [of c a] by auto
    then have "b \<noteq> a" using 2(4) by auto
    then have "h' b = h b" using 2(6) by simp
    moreover have "ctx_root c y = ctx_root c x"
      using False by (cases c) auto
    moreover have "ctx_rep h' (Some b) c y"
      using 2(1) False 2(2-7) by auto
    ultimately show ?thesis using 2(2) sib by auto
  qed
qed simp

section \<open>Well-formed plans\<close>

text \<open>Number of inputs of an operator.\<close>

fun arity_ok :: "lkind \<Rightarrow> nat \<Rightarrow> bool" where
  "arity_ok (LO_STREAM_SOURCE _ _) n = (n = 0)"
| "arity_ok (LO_RELN_SOURCE _ _) n = (n = 0)"
| "arity_ok LO_CROSS n = (2 \<le> n \<and> n \<le> MAX_INPUT_OPS)"
| "arity_ok LO_STREAM_CROSS n = (2 \<le> n \<and> n \<le> MAX_INPUT_OPS)"
| "arity_ok LO_UNION n = (n = 2)"
| "arity_ok LO_EXCEPT n = (n = 2)"
| "arity_ok _ n = (n = 1)"

fun lp_arity :: "lplan \<Rightarrow> bool" where
  "lp_arity (LP i ts) \<longleftrightarrow> arity_ok (lkind i) (length ts) \<and> (\<forall>t\<in>set ts. lp_arity t)"

text \<open>Kinds with exactly one input.\<close>

definition one_input :: "(lkind \<Rightarrow> bool) \<Rightarrow> bool" where
  "one_input P \<longleftrightarrow> (\<forall>k n. P k \<longrightarrow> arity_ok k n \<longrightarrow> n = 1)"

lemma is_kind_cases:
  "is_select k \<longleftrightarrow> (\<exists>b. k = LO_SELECT b)" "is_project k \<longleftrightarrow> (\<exists>es. k = LO_PROJECT es)"
  "is_group_aggr k \<longleftrightarrow> (\<exists>gs as. k = LO_GROUP_AGGR gs as)"
  by (cases k; simp)+

lemma one_input_kinds [simp]:
  "one_input (\<lambda>k. is_select k \<or> is_project k \<or> k = LO_DISTINCT)"
  "one_input (\<lambda>k. is_select k \<or> k = LO_DISTINCT \<or> is_xstream k)"
  "one_input (\<lambda>k. is_project k \<or> k = LO_DISTINCT \<or> is_group_aggr k \<or> is_select k)"
  "one_input above_cross"
  "one_input (\<lambda>k. is_xstream k \<or> is_project k \<or> k = LO_DISTINCT \<or> is_group_aggr k)"
  by (auto simp: one_input_def above_cross_def is_xstream_def is_kind_cases)

section \<open>Walking down\<close>

text \<open>The context and the subtree at which \<open>walkDown\<close> stops.\<close>

fun find_chain :: "(lkind \<Rightarrow> bool) \<Rightarrow> (lkind \<Rightarrow> bool) \<Rightarrow> ptree \<Rightarrow> (ctx \<times> ptree) option" where
  "find_chain tg ps (PT a i ts) =
    (if tg (lkind i) then Some ([], PT a i ts)
     else if ps (lkind i) then
       (case ts of
          [] \<Rightarrow> None
        | t # us \<Rightarrow> map_option (\<lambda>(c, u). ((a, i, [], us) # c, u)) (find_chain tg ps t))
     else None)"

text \<open>A context of operators with one input.\<close>

definition chain :: "(lkind \<Rightarrow> bool) \<Rightarrow> ctx \<Rightarrow> bool" where
  "chain ps c \<longleftrightarrow> (\<forall>(a, i, ls, rs)\<in>set c. ls = [] \<and> rs = [] \<and> ps (lkind i))"

lemma chain_Nil [simp]: "chain ps []"
  by (simp add: chain_def)

lemma chain_Cons [simp]:
  "chain ps ((a, i, ls, rs) # c) \<longleftrightarrow> ls = [] \<and> rs = [] \<and> ps (lkind i) \<and> chain ps c"
  by (auto simp: chain_def)

lemma find_chain_Some:
  assumes "find_chain tg ps t = Some (c, u)" and "one_input ps" and "lp_arity (shape t)"
  shows "t = plug c u \<and> chain (\<lambda>k. ps k \<and> \<not> tg k) c \<and> tg (lkind (pinfo u))"
  using assms
proof (induction tg ps t arbitrary: c u rule: find_chain.induct)
  case (1 tg ps a i ts)
  show ?case
  proof (cases "tg (lkind i)")
    case False
    then obtain t us c' where ps: "ps (lkind i)" and ts: "ts = t # us"
        and c: "find_chain tg ps t = Some (c', u)" "c = (a, i, [], us) # c'"
      using "1.prems"(1) by (auto split: if_splits list.splits)
    have "us = []"
      using "1.prems"(2,3) ps ts by (auto simp: one_input_def)
    moreover have "t = plug c' u \<and> chain (\<lambda>k. ps k \<and> \<not> tg k) c' \<and> tg (lkind (pinfo u))"
      using "1.IH" [OF False ps ts c(1) "1.prems"(2)] "1.prems"(3) ts by simp
    ultimately show ?thesis using False ps ts c by simp
  qed (use "1.prems" in auto)
qed

fun depth :: "ptree \<Rightarrow> nat" where
  "depth (PT a i ts) = Suc (foldr (\<lambda>u. max (depth u)) ts 0)"

lemma foldr_max_le: "t \<in> set ts \<Longrightarrow> depth t \<le> foldr (\<lambda>u. max (depth u)) ts 0"
  by (induction ts) auto

lemma foldr_max_bound: "(\<And>t. t \<in> set ts \<Longrightarrow> depth t \<le> length (addrs t)) \<Longrightarrow>
   foldr (\<lambda>u. max (depth u)) ts 0 \<le> length (concat (map addrs ts))"
proof (induction ts)
  case (Cons t ts)
  then have "depth t \<le> length (addrs t)"
    and "foldr (\<lambda>u. max (depth u)) ts 0 \<le> length (concat (map addrs ts))" by simp_all
  then show ?case by simp
qed simp

lemma depth_le_addrs: "depth t \<le> length (addrs t)"
proof (induction t)
  case (PT a i ts)
  then show ?case using foldr_max_bound [of ts] by simp
qed

lemma placed_depth:
  assumes "placed s q p t" and "operator_ptr s \<le> MAXOPERATOR"
  shows "depth t \<le> MAXOPERATOR"
proof -
  have "length (addrs t) = card (set (addrs t))"
    using assms(1) by (simp add: placed_def distinct_card)
  also have "\<dots> \<le> card {..<operator_ptr s}"
    using assms(1) by (intro card_mono) (auto simp: placed_def)
  finally show ?thesis using depth_le_addrs [of t] assms(2) by simp
qed

lemma walkDown_wp:
  assumes "rep (opHeap s) q t" and "lp_arity (shape t)" and "one_input ps" and "depth t \<le> fuel"
  shows "wp (walkDown fuel tg ps (paddr t)) Q E s \<longleftrightarrow>
    Q (map_option (paddr \<circ> snd) (find_chain tg ps t)) s"
  using assms
proof (induction fuel arbitrary: t q Q)
  case 0
  then show ?case by (cases t) simp
next
  case (Suc fuel)
  obtain a i ts where t: "t = PT a i ts" by (cases t)
  have k: "lkind (opHeap s a) = lkind i" "linputs (opHeap s a) = map paddr ts"
    using Suc.prems(1) t by auto
  show ?case
  proof (cases "tg (lkind i)")
    case False
    show ?thesis
    proof (cases "ps (lkind i)")
      case True
      then have "length ts = 1"
        using Suc.prems(2,3) t unfolding one_input_def by (metis length_map lp_arity.simps shape.simps)
      then obtain u where ts: "ts = [u]" by (cases ts) auto
      have "wp (walkDown fuel tg ps (paddr u)) Q E s \<longleftrightarrow>
          Q (map_option (paddr \<circ> snd) (find_chain tg ps u)) s"
        using Suc.prems t ts by (intro Suc.IH [of "Some a"]) auto
      then show ?thesis
        using False True t k ts by (cases "find_chain tg ps u") auto
    qed (use False t k in simp)
  qed (use t k in simp)
qed

text \<open>The same walk on plans without addresses: \<open>f\<close> changes the operator that is found.\<close>

fun lp_at :: "(lkind \<Rightarrow> bool) \<Rightarrow> (lkind \<Rightarrow> bool) \<Rightarrow> (lplan \<Rightarrow> lplan) \<Rightarrow> lplan \<Rightarrow> lplan" where
  "lp_at tg ps f (LP i ts) =
    (if tg (lkind i) then f (LP i ts)
     else if ps (lkind i) then
       (case ts of [] \<Rightarrow> LP i [] | t # us \<Rightarrow> LP i (lp_at tg ps f t # us))
     else LP i ts)"

lemma lp_at_Some:
  assumes "find_chain tg ps t = Some (c, u)" and "shape u' = f (shape u)"
  shows "shape (plug c u') = lp_at tg ps f (shape t)"
  using assms
proof (induction tg ps t arbitrary: c u rule: find_chain.induct)
  case (1 tg ps a i ts)
  show ?case
  proof (cases "tg (lkind i)")
    case False
    then obtain t us c' where ps: "ps (lkind i)" and ts: "ts = t # us"
        and c: "find_chain tg ps t = Some (c', u)" "c = (a, i, [], us) # c'"
      using "1.prems"(1) by (auto split: if_splits list.splits)
    then show ?thesis using "1.IH" [OF False ps ts c(1)] "1.prems"(2) False ps ts c by simp
  qed (use "1.prems" in auto)
qed

lemma lp_at_None:
  "find_chain tg ps t = None \<Longrightarrow> lp_at tg ps f (shape t) = shape t"
proof (induction tg ps t rule: find_chain.induct)
  case (1 tg ps a i ts)
  then show ?case by (cases ts) (auto split: if_splits)
qed

section \<open>Replacing the hole\<close>

text \<open>
  \<open>ctx_ready s c x t\<close>: the context \<open>c\<close> still points at \<open>x\<close>, and the tree \<open>t\<close> that is to take
  its place has the right output pointer.
\<close>

definition ctx_ready :: "lstate \<Rightarrow> ctx \<Rightarrow> nat \<Rightarrow> ptree \<Rightarrow> bool" where
  "ctx_ready s c x t \<longleftrightarrow> ctx_rep (opHeap s) None c x \<and> distinct (caddrs c) \<and>
     (\<forall>a\<in>set (caddrs c). a < operator_ptr s) \<and> placed s (ctx_out None c) (paddr t) t \<and>
     set (caddrs c) \<inter> set (addrs t) = {}"

text \<open>Writing the input pointer at the hole.\<close>

lemma link_hole:
  assumes "ctx_ready s c x t" and "c \<noteq> []" and "last c = (a, i, ls, rs)"
  shows "plan_at (s\<lparr>opHeap := (opHeap s)(a := (opHeap s a)\<lparr>linputs :=
      (linputs (opHeap s a))[length ls := paddr t]\<rparr>)\<rparr>) (ctx_root c x) (plug c t)"
proof -
  let ?h = "(opHeap s)(a := (opHeap s a)\<lparr>linputs := (linputs (opHeap s a))[length ls := paddr t]\<rparr>)"
  have a: "a \<in> set (caddrs c)"
    using assms(2,3) ctx_out_last [OF assms(2), of None] by (intro ctx_out_in) simp
  then have "a \<notin> set (addrs t)" using assms(1) by (auto simp: ctx_ready_def)
  then have "rep ?h (ctx_out None c) t"
    using assms(1) by (simp add: ctx_ready_def placed_def)
  moreover have "ctx_rep ?h None c (paddr t)"
    using assms by (intro ctx_rep_link [of "opHeap s" None c x a i ls rs ?h "paddr t"])
      (auto simp: ctx_ready_def)
  moreover have "ctx_root c (paddr t) = ctx_root c x"
    using assms(2) by (cases c) auto
  ultimately show ?thesis
    using assms(1) by (auto simp: ctx_ready_def placed_def rep_plug distinct_plug set_addrs_plug)
qed

lemma last_input:
  assumes "ctx_rep h p c x" and "c \<noteq> []" and "last c = (a, i, ls, rs)"
  shows "linputs (h a) = map paddr ls @ x # map paddr rs"
  using assms by (induction h p c x rule: ctx_rep.induct) (auto split: if_splits)

lemma replaceOp_wp:
  assumes "ctx_ready s c x t" and "chain ps c" and "\<And>s'. plan_at s' p' (plug c t) \<Longrightarrow>
      operator_ptr s' = operator_ptr s \<Longrightarrow> expr_ptr s' = expr_ptr s \<Longrightarrow>
      \<forall>a. a \<notin> set (caddrs c) \<longrightarrow> opHeap s' a = opHeap s a \<Longrightarrow> Q p' s'"
    and "plan = ctx_root c x" and "p' = ctx_root c (paddr t)"
  shows "wp (replaceOp plan (ctx_out None c) (paddr t)) Q E s"
proof (cases "c = []")
  case True
  then show ?thesis
    using assms by (simp add: replaceOp_def ctx_ready_def)
next
  case False
  obtain a i ls rs where l: "last c = (a, i, ls, rs)" by (cases "last c")
  have "ls = []"
    using assms(2) l last_in_set [OF False] unfolding chain_def by fastforce
  then have "0 < length (linputs (opHeap s a))"
    using last_input [of "opHeap s" None c x, OF _ False l] assms(1) by (auto simp: ctx_ready_def)
  moreover have "ctx_root c (paddr t) = ctx_root c x"
    using False by (cases c) auto
  moreover have "a \<in> set (caddrs c)"
    using l ctx_out_last [OF False, of None] by (intro ctx_out_in) simp
  ultimately show ?thesis
    using link_hole [OF assms(1) False l] l \<open>ls = []\<close> assms(3-5)
    by (simp add: replaceOp_def ctx_out_last [OF False])
qed

end
