(* ===== verification/Log_Kplan.thy ===== *)
theory Log_Kplan
  imports Log_Ctx Naive_Facts
begin

text \<open>
  Plans by the kinds of their operators alone.  The schema and the stream flag of an operator
  follow from its kind and its inputs (\<open>annot\<close>), and every transformation keeps it so: a plan
  in the pool is described by a \<open>kplan\<close>.
\<close>

datatype kplan = KP (kroot: lkind) (ksubs: "kplan list")

section \<open>Schemas and stream flags\<close>

text \<open>The schema of an operator from the schemas of its inputs.\<close>

fun out_attrs :: "table_manager \<Rightarrow> lkind \<Rightarrow> lattr list list \<Rightarrow> lattr list" where
  "out_attrs tm (LO_STREAM_SOURCE v t) as = source_attrs v t (length (attrList (tableList tm ! t)))"
| "out_attrs tm (LO_RELN_SOURCE v t) as = source_attrs v t (length (attrList (tableList tm ! t)))"
| "out_attrs tm (LO_PROJECT es) as = map project_attr es"
| "out_attrs tm (LO_GROUP_AGGR gs ags) as = gs @ map (\<lambda>(a, fn). aggr_attr fn a) ags"
| "out_attrs tm LO_UNION as = map (A_UNNAMED \<circ> attr_type tm) (hd as)"
| "out_attrs tm LO_EXCEPT as = map (A_UNNAMED \<circ> attr_type tm) (hd as)"
| "out_attrs tm k as = concat as"

text \<open>Whether an operator produces a stream, from its inputs.\<close>

fun out_stream :: "lkind \<Rightarrow> bool list \<Rightarrow> bool" where
  "out_stream (LO_STREAM_SOURCE v t) bs = True"
| "out_stream (LO_RELN_SOURCE v t) bs = False"
| "out_stream (LO_SELECT b) bs = hd bs"
| "out_stream (LO_PROJECT es) bs = hd bs"
| "out_stream LO_DISTINCT bs = hd bs"
| "out_stream LO_CROSS bs = list_all (\<lambda>b. b) bs"
| "out_stream LO_ISTREAM bs = True"
| "out_stream LO_DSTREAM bs = True"
| "out_stream LO_RSTREAM bs = True"
| "out_stream LO_STREAM_CROSS bs = True"
| "out_stream LO_UNION bs = list_all (\<lambda>b. b) bs"
| "out_stream _ bs = False"

definition node_info :: "table_manager \<Rightarrow> lkind \<Rightarrow> linfo list \<Rightarrow> linfo" where
  "node_info tm k is = \<lparr>lkind = k, outAttrs = out_attrs tm k (map outAttrs is),
     bStream = out_stream k (map bStream is)\<rparr>"

fun annot :: "table_manager \<Rightarrow> kplan \<Rightarrow> lplan" where
  "annot tm (KP k ts) = LP (node_info tm k (map (lroot \<circ> annot tm) ts)) (map (annot tm) ts)"

definition kattrs :: "table_manager \<Rightarrow> kplan \<Rightarrow> lattr list" where
  "kattrs tm t = outAttrs (lroot (annot tm t))"

definition kstream :: "kplan \<Rightarrow> bool" where
  "kstream t = bStream (lroot (annot undefined t))"

lemma node_info_sel [simp]:
  "lkind (node_info tm k is) = k"
  "outAttrs (node_info tm k is) = out_attrs tm k (map outAttrs is)"
  "bStream (node_info tm k is) = out_stream k (map bStream is)"
  by (simp_all add: node_info_def)

lemma lroot_annot [simp]: "lkind (lroot (annot tm t)) = kroot t"
  by (cases t) simp

lemma kattrs_KP [simp]: "kattrs tm (KP k ts) = out_attrs tm k (map (kattrs tm) ts)"
  by (simp add: kattrs_def comp_def) (simp add: kattrs_def [abs_def])

lemma bStream_annot: "bStream (lroot (annot tm t)) = bStream (lroot (annot tm' t))"
proof (induction t)
  case (KP k ts)
  have "map (bStream \<circ> (lroot \<circ> annot tm)) ts = map (bStream \<circ> (lroot \<circ> annot tm')) ts"
    using KP by simp
  then show ?case by (simp del: map_eq_conv)
qed

lemma kstream_KP [simp]: "kstream (KP k ts) = out_stream k (map kstream ts)"
  by (simp add: kstream_def comp_def) (simp add: kstream_def [abs_def])

lemma bStream_kstream [simp]: "bStream (lroot (annot tm t)) = kstream t"
  unfolding kstream_def by (rule bStream_annot)

lemma outAttrs_kattrs [simp]: "outAttrs (lroot (annot tm t)) = kattrs tm t"
  by (simp add: kattrs_def)

fun karity :: "kplan \<Rightarrow> bool" where
  "karity (KP k ts) \<longleftrightarrow> arity_ok k (length ts) \<and> (\<forall>t\<in>set ts. karity t)"

lemma karity_annot [simp]: "lp_arity (annot tm t) = karity t"
  by (induction t) auto

section \<open>The naive plan\<close>

definition kp_source :: "table_manager \<Rightarrow> nat \<Rightarrow> nat \<Rightarrow> kplan" where
  "kp_source tm v t =
    KP (if tblIsStream (tableList tm ! t) then LO_STREAM_SOURCE v t else LO_RELN_SOURCE v t) []"

fun kp_window :: "query \<Rightarrow> win_spec \<Rightarrow> kplan \<Rightarrow> kplan" where
  "kp_window q (WS_RANGE n) p = KP (LO_RANGE_WIN n) [p]"
| "kp_window q (WS_ROW n) p = KP (LO_ROW_WIN n) [p]"
| "kp_window q (WS_PARTITION n as) p = KP (LO_PARTN_WIN (map (nattr q) as) n) [p]"
| "kp_window q WS_NOW p = KP LO_NOW_WIN [p]"
| "kp_window q WS_UNBOUNDED p = p"

definition kp_table :: "table_manager \<Rightarrow> query \<Rightarrow> nat \<Rightarrow> kplan" where
  "kp_table tm q t =
    (let v = fromClauseTables q ! t; id = refTables q ! v; src = kp_source tm v id
     in if tblIsStream (tableList tm ! id)
        then (case winSpec q ! t of Some w \<Rightarrow> kp_window q w src | None \<Rightarrow> src)
        else src)"

definition kp_join :: "table_manager \<Rightarrow> query \<Rightarrow> kplan" where
  "kp_join tm q =
    (let n = length (fromClauseTables q)
     in if n > 1 then KP LO_CROSS (map (kp_table tm q) [0 ..< n]) else kp_table tm q 0)"

definition kp_selects :: "lbexpr list \<Rightarrow> kplan \<Rightarrow> kplan" where
  "kp_selects bs p = foldl (\<lambda>p b. KP (LO_SELECT b) [p]) p bs"

definition kp_aggr :: "query \<Rightarrow> kplan \<Rightarrow> kplan" where
  "kp_aggr q p =
    (if np_aggrs q = [] \<and> gbyAttrs q = [] then p
     else KP (LO_GROUP_AGGR (map (nattr q) (gbyAttrs q)) (np_aggrs q)) [p])"

definition kp_distinct :: "query \<Rightarrow> kplan \<Rightarrow> kplan" where
  "kp_distinct q p = (if bDistinct q then KP LO_DISTINCT [p] else p)"

definition kp_r2s :: "query \<Rightarrow> kplan \<Rightarrow> kplan" where
  "kp_r2s q p =
    (if bRelToStr q then
       KP (case r2sOp q of Some R_ISTREAM \<Rightarrow> LO_ISTREAM | Some R_DSTREAM \<Rightarrow> LO_DSTREAM
             | _ \<Rightarrow> LO_RSTREAM) [p]
     else p)"

definition kp_binop :: "table_manager \<Rightarrow> query \<Rightarrow> kplan" where
  "kp_binop tm q =
    KP (case binOp q of Some B_UNION \<Rightarrow> LO_UNION | _ \<Rightarrow> LO_EXCEPT)
      [kp_source tm 0 (refTables q ! 0), kp_source tm 0 (refTables q ! 1)]"

definition kp_sfw :: "table_manager \<Rightarrow> query \<Rightarrow> kplan" where
  "kp_sfw tm q = kp_distinct q (KP (LO_PROJECT (map (np_expr q) (projExprs q)))
     [kp_aggr q (kp_selects (map (np_bexpr q) (preds q)) (kp_join tm q))])"

definition naive_kplan :: "table_manager \<Rightarrow> query \<Rightarrow> kplan" where
  "naive_kplan tm q = kp_r2s q (if qKind q = SFW_QUERY then kp_sfw tm q else kp_binop tm q)"

lemma lp_unary_annot:
  assumes "out_attrs tm k [kattrs tm t] = kattrs tm t" and "out_stream k [kstream t] = f (kstream t)"
  shows "lp_unary k f (annot tm t) = annot tm (KP k [t])"
  using assms by (simp add: lp_unary_def node_info_def)

lemma lp_source_annot: "lp_source tm v t = annot tm (kp_source tm v t)"
  by (simp add: lp_source_def kp_source_def node_info_def Let_def)

lemma np_window_annot: "np_window q w (annot tm t) = annot tm (kp_window q w t)"
  by (cases w) (simp_all add: lp_unary_annot)

lemma np_table_annot: "np_table tm q i = annot tm (kp_table tm q i)"
  by (auto simp: np_table_def kp_table_def Let_def lp_source_annot np_window_annot split: option.splits)

lemma foldl_cross_annot:
  "foldl lp_cross_add lp_cross (map (annot tm) ts) = annot tm (KP LO_CROSS ts)"
proof -
  let ?f = "foldl lp_cross_add lp_cross (map (annot tm) ts)"
  have "outAttrs (lroot ?f) = concat (map (kattrs tm) ts)"
    by (simp add: foldl_cross_add lp_cross_def comp_def)
  moreover have "bStream (lroot ?f) = list_all kstream ts"
    by (simp add: foldl_cross_add lp_cross_def comp_def list_all_iff)
  moreover have "lkind (lroot ?f) = LO_CROSS" "lsubs ?f = map (annot tm) ts"
    by (simp_all add: foldl_cross_add lp_cross_def)
  ultimately have "lroot ?f = lroot (annot tm (KP LO_CROSS ts))" "lsubs ?f = lsubs (annot tm (KP LO_CROSS ts))"
    by (simp_all add: linfo.equality comp_def list_all_iff)
  then show ?thesis by (metis lplan.collapse)
qed

lemma np_join_annot: "np_join tm q = annot tm (kp_join tm q)"
proof -
  have "map (np_table tm q) is = map (annot tm) (map (kp_table tm q) is)" for "is"
    by (simp add: np_table_annot)
  then show ?thesis
    by (simp add: np_join_def kp_join_def Let_def np_table_annot foldl_cross_annot del: annot.simps map_map)
qed

lemma np_preds_annot: "np_preds q (annot tm t) = annot tm (kp_selects (map (np_bexpr q) (preds q)) t)"
proof -
  have "foldl (\<lambda>p b. lp_unary (LO_SELECT (np_bexpr q b)) (\<lambda>x. x) p) (annot tm t) bs =
      annot tm (kp_selects (map (np_bexpr q) bs) t)" for bs
    by (induction bs arbitrary: t) (simp_all add: kp_selects_def lp_unary_annot del: annot.simps)
  then show ?thesis by (simp add: np_preds_def)
qed

lemma np_aggr_annot: "np_aggr q (annot tm t) = annot tm (kp_aggr q t)"
  by (auto simp: np_aggr_def kp_aggr_def node_info_def)

lemma np_project_annot:
  "np_project q (annot tm t) = annot tm (KP (LO_PROJECT (map (np_expr q) (projExprs q))) [t])"
  by (simp add: np_project_def node_info_def)

lemma np_distinct_annot: "np_distinct q (annot tm t) = annot tm (kp_distinct q t)"
  by (simp add: np_distinct_def kp_distinct_def lp_unary_annot del: annot.simps)

lemma np_r2s_annot: "np_r2s q (annot tm t) = annot tm (kp_r2s q t)"
  by (auto simp: np_r2s_def kp_r2s_def lp_unary_annot simp del: annot.simps
      split: option.splits r2s_op.splits)

lemma np_binop_annot: "np_binop tm q = annot tm (kp_binop tm q)"
  by (auto simp: np_binop_def kp_binop_def Let_def lp_binary_def lp_source_annot node_info_def
      split: option.splits binary_op.splits)

lemma naive_plan_annot: "naive_plan tm q = annot tm (naive_kplan tm q)"
  by (simp add: naive_plan_def naive_kplan_def kp_sfw_def np_join_annot np_preds_annot np_aggr_annot
      np_project_annot np_distinct_annot np_r2s_annot np_binop_annot del: annot.simps)

section \<open>Coherent plans\<close>

fun skel :: "lplan \<Rightarrow> kplan" where
  "skel (LP i ts) = KP (lkind i) (map skel ts)"

fun coherent :: "table_manager \<Rightarrow> lplan \<Rightarrow> bool" where
  "coherent tm (LP i ts) \<longleftrightarrow> i = node_info tm (lkind i) (map lroot ts) \<and> (\<forall>t\<in>set ts. coherent tm t)"

lemma skel_annot [simp]: "skel (annot tm t) = t"
  by (induction t) (auto simp: map_idI)

lemma annot_skel: "coherent tm t \<Longrightarrow> annot tm (skel t) = t"
proof (induction t)
  case (LP i ts)
  then have "\<forall>t\<in>set ts. annot tm (skel t) = t" by simp
  then have "map (annot tm) (map skel ts) = ts"
    and "map (lroot \<circ> annot tm) (map skel ts) = map lroot ts" by (simp_all add: map_idI)
  moreover have "i = node_info tm (lkind i) (map lroot ts)" using LP.prems by simp
  ultimately show ?case by (simp only: skel.simps annot.simps)
qed

lemma coherent_annot [simp]: "coherent tm (annot tm t)"
proof (induction t)
  case (KP k ts)
  then show ?case by (simp add: comp_def)
qed

lemma coherent_iff: "coherent tm t \<longleftrightarrow> t = annot tm (skel t)"
  by (metis annot_skel coherent_annot)

lemma lp_arity_skel: "lp_arity t = karity (skel t)"
  by (induction t) auto

lemma coherent_attrs: "coherent tm t \<Longrightarrow> outAttrs (lroot t) = kattrs tm (skel t)"
  by (metis annot_skel outAttrs_kattrs)

lemma coherent_stream: "coherent tm t \<Longrightarrow> bStream (lroot t) = kstream (skel t)"
  by (metis annot_skel bStream_kstream)

abbreviation kp :: "ptree \<Rightarrow> kplan" where
  "kp t \<equiv> skel (shape t)"

subsection \<open>Contexts of coherent plans\<close>

type_synonym kctx = "(lkind \<times> kplan list \<times> kplan list) list"

fun kplug :: "kctx \<Rightarrow> kplan \<Rightarrow> kplan" where
  "kplug [] t = t"
| "kplug ((k, ls, rs) # c) t = KP k (ls @ kplug c t # rs)"

definition kctx_of :: "ctx \<Rightarrow> kctx" where
  "kctx_of c = map (\<lambda>(a, i, ls, rs). (lkind i, map kp ls, map kp rs)) c"

lemma kctx_of_simps [simp]:
  "kctx_of [] = []"
  "kctx_of ((a, i, ls, rs) # c) = (lkind i, map kp ls, map kp rs) # kctx_of c"
  by (simp_all add: kctx_of_def)

lemma kp_plug: "kp (plug c u) = kplug (kctx_of c) (kp u)"
  by (induction c u rule: plug.induct) auto

lemma coherent_hole: "coherent tm (shape (plug c u)) \<Longrightarrow> coherent tm (shape u)"
  by (induction c u rule: plug.induct) auto

lemma coherent_plug:
  assumes "coherent tm (shape (plug c u))" and "coherent tm (shape u')"
    and "outAttrs (lroot (shape u')) = outAttrs (lroot (shape u))"
    and "bStream (lroot (shape u')) = bStream (lroot (shape u))"
  shows "coherent tm (shape (plug c u')) \<and>
    outAttrs (lroot (shape (plug c u'))) = outAttrs (lroot (shape (plug c u))) \<and>
    bStream (lroot (shape (plug c u'))) = bStream (lroot (shape (plug c u)))"
  using assms
proof (induction c u rule: plug.induct)
  case (2 a i ls rs c u)
  have IH: "coherent tm (shape (plug c u')) \<and>
      outAttrs (lroot (shape (plug c u'))) = outAttrs (lroot (shape (plug c u))) \<and>
      bStream (lroot (shape (plug c u'))) = bStream (lroot (shape (plug c u)))"
    using 2 by simp
  have "node_info tm (lkind i) (map lroot (map shape ls @ shape (plug c u') # map shape rs)) =
      node_info tm (lkind i) (map lroot (map shape ls @ shape (plug c u) # map shape rs))"
    using IH by (simp add: node_info_def)
  moreover have "i = node_info tm (lkind i) (map lroot (map shape ls @ shape (plug c u) # map shape rs))"
    using 2(2) by simp
  ultimately have "i = node_info tm (lkind i) (map lroot (map shape ls @ shape (plug c u') # map shape rs))"
    by (rule trans [OF _ sym, rotated])
  then show ?case using 2(2) IH by auto
qed simp

lemma karity_kplug_replace:
  "karity (kplug c t) \<Longrightarrow> karity t' \<Longrightarrow> karity (kplug c t')"
  by (induction c t rule: kplug.induct) auto

lemma karity_hole: "karity (kplug c t) \<Longrightarrow> karity t"
  by (induction c t rule: kplug.induct) auto

text \<open>The walk down a plan of kinds.\<close>

fun kp_at :: "(lkind \<Rightarrow> bool) \<Rightarrow> (lkind \<Rightarrow> bool) \<Rightarrow> (kplan \<Rightarrow> kplan) \<Rightarrow> kplan \<Rightarrow> kplan" where
  "kp_at tg ps f (KP k ts) =
    (if tg k then f (KP k ts)
     else if ps k then (case ts of [] \<Rightarrow> KP k [] | t # us \<Rightarrow> KP k (kp_at tg ps f t # us))
     else KP k ts)"

lemma kroot_skel [simp]: "kroot (skel t) = lkind (lroot t)"
  by (cases t) simp

lemma lroot_shape [simp]: "lroot (shape t) = pinfo t"
  by (cases t) simp

lemma kp_at_Some:
  "find_chain tg ps t = Some (c, u) \<Longrightarrow> kp_at tg ps f (kp t) = kplug (kctx_of c) (f (kp u))"
proof (induction tg ps t arbitrary: c u rule: find_chain.induct)
  case (1 tg ps a i ts)
  show ?case
  proof (cases "tg (lkind i)")
    case False
    then obtain t us c' where ps: "ps (lkind i)" and ts: "ts = t # us"
        and c: "find_chain tg ps t = Some (c', u)" "c = (a, i, [], us) # c'"
      using "1.prems"(1) by (auto split: if_splits list.splits)
    then show ?thesis using "1.IH" [OF False ps ts c(1)] False ps ts c by simp
  qed (use "1.prems" in auto)
qed

lemma kp_at_None: "find_chain tg ps t = None \<Longrightarrow> kp_at tg ps f (kp t) = kp t"
proof (induction tg ps t rule: find_chain.induct)
  case (1 tg ps a i ts)
  then show ?case by (cases ts) (auto split: if_splits)
qed

section \<open>Plans in the pool\<close>

text \<open>At \<open>p\<close> there is a plan of the kinds \<open>k\<close>, with the schemas and flags that follow.\<close>

definition kplan_at :: "table_manager \<Rightarrow> lstate \<Rightarrow> nat \<Rightarrow> kplan \<Rightarrow> bool" where
  "kplan_at tm s p k \<longleftrightarrow> (\<exists>t. plan_at s p t \<and> shape t = annot tm k)"

lemma kplan_atI: "plan_at s p t \<Longrightarrow> coherent tm (shape t) \<Longrightarrow> kp t = k \<Longrightarrow> kplan_at tm s p k"
  unfolding kplan_at_def by (metis annot_skel)

lemma kplan_atE:
  assumes "kplan_at tm s p k"
  obtains t where "plan_at s p t" and "coherent tm (shape t)" and "kp t = k"
  using assms unfolding kplan_at_def by (metis coherent_annot skel_annot)

end
