(* ===== verification/Log_Rewrite.thy ===== *)
theory Log_Rewrite
  imports Log_Kplan
begin

text \<open>
  The transformations of \<open>log_plan_gen.cc\<close> as functions on plans of kinds: what each pass does
  to the plan, without pointers.  The theory \<open>Log_Trans_Facts\<close> shows that the code does it.
\<close>

section \<open>Plans that the passes accept\<close>

fun is_window :: "lkind \<Rightarrow> bool" where
  "is_window (LO_RANGE_WIN _) = True"
| "is_window (LO_ROW_WIN _) = True"
| "is_window LO_NOW_WIN = True"
| "is_window (LO_PARTN_WIN _ _) = True"
| "is_window _ = False"

fun select_ok :: "lkind \<Rightarrow> bool" where
  "select_ok (LO_SELECT b) \<longleftrightarrow> lbLeft b \<noteq> None \<and> lbRight b \<noteq> None"
| "select_ok _ \<longleftrightarrow> True"

text \<open>
  Every operator has its number of inputs, at most \<open>MAX_ATTRS\<close> attributes, a stream below each
  window and two expressions in each selection.
\<close>

fun kplan_ok :: "table_manager \<Rightarrow> kplan \<Rightarrow> bool" where
  "kplan_ok tm (KP k ts) \<longleftrightarrow> arity_ok k (length ts) \<and>
     length (out_attrs tm k (map (kattrs tm) ts)) \<le> MAX_ATTRS \<and>
     (is_window k \<longrightarrow> kstream (hd ts)) \<and> select_ok k \<and> (\<forall>t\<in>set ts. kplan_ok tm t)"

lemma kplan_ok_arity: "kplan_ok tm t \<Longrightarrow> karity t"
  by (induction t) auto

lemma kplan_ok_width: "kplan_ok tm t \<Longrightarrow> length (kattrs tm t) \<le> MAX_ATTRS"
  by (cases t) auto

lemma arity_ok_one:
  "arity_ok k n \<Longrightarrow> one_input P \<Longrightarrow> P k \<Longrightarrow> n = 1"
  by (auto simp: one_input_def)

section \<open>The passes\<close>

text \<open>Whether the walk down finds an operator.\<close>

fun kp_find :: "(lkind \<Rightarrow> bool) \<Rightarrow> (lkind \<Rightarrow> bool) \<Rightarrow> kplan \<Rightarrow> bool" where
  "kp_find tg ps (KP k ts) =
    (if tg k then True else if ps k then (case ts of [] \<Rightarrow> False | t # us \<Rightarrow> kp_find tg ps t) else False)"

definition below :: "kplan \<Rightarrow> kplan" where
  "below t = hd (ksubs t)"

definition is_now :: "lkind \<Rightarrow> bool" where
  "is_now k \<longleftrightarrow> k = LO_NOW_WIN"

definition pass_now :: "lkind \<Rightarrow> bool" where
  "pass_now k \<longleftrightarrow> is_select k \<or> is_project k \<or> k = LO_DISTINCT"

definition kp_rstreamNow :: "kplan \<Rightarrow> kplan" where
  "kp_rstreamNow K =
    (if kroot K = LO_RSTREAM \<and> kp_find is_now pass_now (below K)
     then kp_at is_now pass_now below (below K) else K)"

definition pass_project :: "lkind \<Rightarrow> bool" where
  "pass_project k \<longleftrightarrow> is_select k \<or> k = LO_DISTINCT \<or> is_xstream k"

definition drop_useless :: "table_manager \<Rightarrow> kplan \<Rightarrow> kplan" where
  "drop_useless tm t = (if list_all2 attr_eq (kattrs tm t) (kattrs tm (below t)) then below t else t)"

definition kp_removeProject :: "table_manager \<Rightarrow> kplan \<Rightarrow> kplan" where
  "kp_removeProject tm = kp_at is_project pass_project (drop_useless tm)"

definition kp_removeIstream :: "kplan \<Rightarrow> kplan" where
  "kp_removeIstream K = (if kroot K = LO_ISTREAM \<and> kstream (below K) then below K else K)"

text \<open>A cross product of many inputs as nested cross products of two.\<close>

fun nest :: "kplan \<Rightarrow> kplan" where
  "nest (KP k (t # u # us)) = foldl (\<lambda>acc x. KP k [acc, x]) (KP k [t, u]) us"
| "nest t = t"

definition is_cross :: "lkind \<Rightarrow> bool" where
  "is_cross k \<longleftrightarrow> k = LO_CROSS"

definition is_scross :: "lkind \<Rightarrow> bool" where
  "is_scross k \<longleftrightarrow> k = LO_STREAM_CROSS"

definition kp_crossBinary :: "kplan \<Rightarrow> kplan" where
  "kp_crossBinary = kp_at is_cross above_cross nest"

definition kp_streamCrossBinary :: "kplan \<Rightarrow> kplan" where
  "kp_streamCrossBinary = kp_at is_scross above_cross nest"

text \<open>The first now window among the inputs becomes the stream of a stream cross product.\<close>

definition pass_scross :: "lkind \<Rightarrow> bool" where
  "pass_scross k \<longleftrightarrow> is_project k \<or> k = LO_DISTINCT \<or> is_group_aggr k \<or> is_select k"

definition now_index :: "kplan \<Rightarrow> nat option" where
  "now_index t = find_first (\<lambda>u. kroot u = LO_NOW_WIN) (ksubs t)"

definition to_scross :: "kplan \<Rightarrow> kplan" where
  "to_scross t = (case now_index t of
      None \<Rightarrow> t
    | Some n \<Rightarrow> KP LO_STREAM_CROSS (below (ksubs t ! n) # take n (ksubs t) @ drop (Suc n) (ksubs t)))"

text \<open>Whether the walk finds a cross product with a now window.\<close>

fun has_now_cross :: "kplan \<Rightarrow> bool" where
  "has_now_cross (KP k ts) =
    (if is_cross k then now_index (KP k ts) \<noteq> None
     else if pass_scross k then (case ts of [] \<Rightarrow> False | t # us \<Rightarrow> has_now_cross t) else False)"

definition kp_streamCross :: "kplan \<Rightarrow> kplan" where
  "kp_streamCross K =
    (if kroot K = LO_RSTREAM \<and> has_now_cross (below K)
     then kp_at is_cross pass_scross to_scross (below K) else K)"

subsection \<open>Pushing selections\<close>

fun refs_in :: "lattr list \<Rightarrow> lexpr \<Rightarrow> bool" where
  "refs_in as (LE_CONST c) = True"
| "refs_in as (LE_ATTR t a) = list_ex (attr_eq a) as"
| "refs_in as (LE_COMP t op l r) = (refs_in as l \<and> refs_in as r)"

definition brefs_in :: "lattr list \<Rightarrow> lbexpr \<Rightarrow> bool" where
  "brefs_in as b \<longleftrightarrow> (\<forall>e. lbLeft b = Some e \<longrightarrow> refs_in as e) \<and> (\<forall>e. lbRight b = Some e \<longrightarrow> refs_in as e)"

text \<open>
  \<open>kp_push tm b t\<close>: \<open>b\<close> goes down from the root of \<open>t\<close>, below selections and below the input of a
  cross product that has all its attributes.  The flag says whether it passed a cross product.
\<close>

lemma size_sub: "i < length ts \<Longrightarrow> size (ts ! i) \<le> size_list size ts"
  by (rule size_list_estimation' [OF nth_mem order_refl])

fun kp_push :: "table_manager \<Rightarrow> lbexpr \<Rightarrow> kplan \<Rightarrow> kplan"
  and kp_push_at :: "table_manager \<Rightarrow> lbexpr \<Rightarrow> kplan list \<Rightarrow> kplan list" where
  "kp_push tm b (KP k ts) =
    (if is_select k then
       (case ts of [] \<Rightarrow> KP (LO_SELECT b) [KP k ts] | t # us \<Rightarrow> KP k (kp_push tm b t # us))
     else if (k = LO_CROSS \<or> k = LO_STREAM_CROSS) \<and> (\<exists>t\<in>set ts. brefs_in (kattrs tm t) b) then
       KP k (kp_push_at tm b ts)
     else KP (LO_SELECT b) [KP k ts])"
| "kp_push_at tm b [] = []"
| "kp_push_at tm b (t # ts) =
    (if brefs_in (kattrs tm t) b then kp_push tm b t # ts else t # kp_push_at tm b ts)"

fun passes_cross :: "table_manager \<Rightarrow> lbexpr \<Rightarrow> kplan \<Rightarrow> bool" where
  "passes_cross tm b (KP k ts) =
    (if is_select k then (case ts of [] \<Rightarrow> False | t # us \<Rightarrow> passes_cross tm b t)
     else (k = LO_CROSS \<or> k = LO_STREAM_CROSS) \<and> (\<exists>t\<in>set ts. brefs_in (kattrs tm t) b))"

text \<open>The selections at the top are taken one after the other; one that cannot pass a cross
  product stays where it is.\<close>

fun lead :: "kplan \<Rightarrow> nat" where
  "lead (KP k ts) = (if is_select k then (case ts of [] \<Rightarrow> 1 | t # us \<Rightarrow> Suc (lead t)) else 0)"

lemma lead_push: "passes_cross tm b t \<Longrightarrow> lead (kp_push tm b t) = lead t"
proof (induction tm b t rule: passes_cross.induct)
  case (1 tm b k ts)
  then show ?case by (cases ts) (auto split: if_splits)
qed

fun sel_expr :: "lkind \<Rightarrow> lbexpr" where
  "sel_expr (LO_SELECT b) = b"
| "sel_expr k = undefined"

function kp_pushAll :: "table_manager \<Rightarrow> kplan \<Rightarrow> kplan" where
  "kp_pushAll tm (KP k ts) =
    (if is_select k then
       (case ts of
          [] \<Rightarrow> KP k []
        | t # us \<Rightarrow>
           (if passes_cross tm (sel_expr k) t then kp_pushAll tm (kp_push tm (sel_expr k) t)
            else KP k (kp_pushAll tm t # us)))
     else KP k ts)"
  by pat_completeness auto
termination
  by (relation "measure (\<lambda>(tm, t). lead t)") (auto simp: lead_push)

definition pass_push :: "lkind \<Rightarrow> bool" where
  "pass_push k \<longleftrightarrow> is_xstream k \<or> is_project k \<or> k = LO_DISTINCT \<or> is_group_aggr k"

definition kp_pushSelect :: "table_manager \<Rightarrow> kplan \<Rightarrow> kplan" where
  "kp_pushSelect tm = kp_at is_select pass_push (kp_pushAll tm)"

section \<open>The logical plan\<close>

definition logical_kplan :: "table_manager \<Rightarrow> query \<Rightarrow> kplan" where
  "logical_kplan tm q =
    kp_pushSelect tm (kp_streamCrossBinary (kp_crossBinary (kp_removeProject tm
      (kp_streamCross (kp_rstreamNow (naive_kplan tm q))))))"

end
