(* ===== verification/Log_Trans_Facts.thy ===== *)
theory Log_Trans_Facts
  imports Log_Rewrite
begin

text \<open>
  The transformations of \<open>log_plan_gen.cc\<close> do to the operators of the pool what the functions of
  \<open>Log_Rewrite\<close> do to plans of kinds.
\<close>

section \<open>Replacing a part of a plan\<close>

lemma kplug_same:
  assumes "kattrs tm t' = kattrs tm t" and "kstream t' = kstream t"
  shows "kattrs tm (kplug c t') = kattrs tm (kplug c t) \<and> kstream (kplug c t') = kstream (kplug c t)"
  using assms by (induction c t rule: kplug.induct) auto

lemma kplan_ok_hole: "kplan_ok tm (kplug c t) \<Longrightarrow> kplan_ok tm t"
  by (induction c t rule: kplug.induct) auto

lemma kplan_ok_kplug:
  assumes "kplan_ok tm (kplug c t)" and "kplan_ok tm t'"
    and "kattrs tm t' = kattrs tm t" and "kstream t' = kstream t"
  shows "kplan_ok tm (kplug c t')"
  using assms
proof (induction c t rule: kplug.induct)
  case (2 k ls rs c t)
  have "kattrs tm (kplug c t') = kattrs tm (kplug c t)" "kstream (kplug c t') = kstream (kplug c t)"
    using kplug_same 2(4,5) by blast+
  moreover have "kstream (hd (ls @ kplug c t' # rs)) = kstream (hd (ls @ kplug c t # rs))"
    using calculation by (cases ls) auto
  ultimately show ?case using 2 by simp
qed simp

text \<open>A pass that keeps schema and stream flag of what it changes keeps the plan well-formed.\<close>

definition keeps :: "table_manager \<Rightarrow> kplan \<Rightarrow> kplan \<Rightarrow> bool" where
  "keeps tm t t' \<longleftrightarrow> kplan_ok tm t' \<and> kattrs tm t' = kattrs tm t \<and> kstream t' = kstream t"

lemma kp_at_keeps:
  assumes "\<And>t. kplan_ok tm t \<Longrightarrow> tg (kroot t) \<Longrightarrow> keeps tm t (f t)" and "kplan_ok tm K"
  shows "keeps tm K (kp_at tg ps f K)"
  using assms
proof (induction tg ps f K rule: kp_at.induct)
  case (1 tg ps f k ts)
  show ?case
  proof (cases "tg k \<or> \<not> ps k \<or> ts = []")
    case True
    then show ?thesis using 1(2) [of "KP k ts"] 1(3) by (auto simp: keeps_def)
  next
    case False
    then obtain t us where ts: "ts = t # us" by (cases ts) auto
    then have "keeps tm t (kp_at tg ps f t)" using 1 False by auto
    then show ?thesis using 1(3) False ts by (simp add: keeps_def)
  qed
qed

lemma kp_at_kplug:
  assumes "chain (\<lambda>k. ps k \<and> \<not> tg k) c" and "tg (kroot t)"
  shows "kp_at tg ps f (kplug (kctx_of c) t) = kplug (kctx_of c) (f t)"
  using assms
proof (induction c)
  case Nil
  then show ?case by (cases t) simp
next
  case (Cons x c)
  then show ?case by (cases x) auto
qed

lemma find_chain_find: "find_chain tg ps t = None \<longleftrightarrow> \<not> kp_find tg ps (kp t)"
proof (induction tg ps t rule: find_chain.induct)
  case (1 tg ps a i ts)
  then show ?case by (cases ts) auto
qed

text \<open>The loop that walks down, on a plan in the pool: it finds nothing, or the plan splits.\<close>

lemma walk_cases:
  assumes "placed s q p t" and "kplan_ok tm (kp t)" and "one_input ps"
    and "operator_ptr s \<le> MAXOPERATOR"
  obtains (none) "\<And>Q E. wp (walkDown MAXOPERATOR tg ps p) Q E s = Q None s"
      and "\<not> kp_find tg ps (kp t)" and "\<And>f. kp_at tg ps f (kp t) = kp t"
    | (found) c u where "t = plug c u" and "chain (\<lambda>k. ps k \<and> \<not> tg k) c" and "tg (lkind (pinfo u))"
      and "\<And>Q E. wp (walkDown MAXOPERATOR tg ps p) Q E s = Q (Some (paddr u)) s"
      and "kp_find tg ps (kp t)" and "\<And>f. kp_at tg ps f (kp t) = kplug (kctx_of c) (f (kp u))"
proof -
  have ar: "lp_arity (shape t)" using kplan_ok_arity [OF assms(2)] by (simp add: lp_arity_skel)
  have p: "p = paddr t" and r: "rep (opHeap s) q t" using assms(1) by (simp_all add: placed_def)
  note w = walkDown_wp [OF r ar assms(3) placed_depth [OF assms(1,4)], folded p]
  show thesis
  proof (cases "find_chain tg ps t")
    case None
    then show ?thesis
      using none w [of tg] find_chain_find [of tg ps t] kp_at_None [OF None] by simp
  next
    case (Some x)
    obtain c u where x: "find_chain tg ps t = Some (c, u)" using Some by (cases x) simp
    then show ?thesis
      using found [of c u] w [of tg] find_chain_find [of tg ps t] kp_at_Some [OF x]
        find_chain_Some [OF x assms(3) ar] by simp
  qed
qed

text \<open>The input of the operator at the hole takes its place.\<close>

lemma placed_plugD:
  assumes "placed s q p (plug c u)"
  shows "ctx_rep (opHeap s) q c (paddr u)" and "rep (opHeap s) (ctx_out q c) u"
    and "p = ctx_root c (paddr u)" and "distinct (caddrs c)" and "distinct (addrs u)"
    and "set (caddrs c) \<inter> set (addrs u) = {}"
    and "\<And>a. a \<in> set (caddrs c) \<or> a \<in> set (addrs u) \<Longrightarrow> a < operator_ptr s"
  using assms by (auto simp: placed_def rep_plug distinct_plug set_addrs_plug)

lemma ctx_ready_child:
  assumes "plan_at s p (plug c (PT a i [v]))"
  shows "ctx_ready (s\<lparr>opHeap := (opHeap s)(paddr v := (opHeap s (paddr v))\<lparr>loutput := ctx_out None c\<rparr>)\<rparr>) c a v"
proof -
  note d = placed_plugD [OF assms]
  let ?h = "(opHeap s)(paddr v := (opHeap s (paddr v))\<lparr>loutput := ctx_out None c\<rparr>)"
  have v: "paddr v \<in> set (addrs (PT a i [v]))" by simp
  then have "paddr v \<notin> set (caddrs c)" using d(6) by blast
  then have "ctx_rep ?h None c a"
    using d(1) by (subst ctx_rep_cong [of c ?h "opHeap s"]) auto
  moreover have "rep ?h (ctx_out None c) v"
    using d(2,5) by (intro rep_set_output) auto
  ultimately show ?thesis using d by (auto simp: ctx_ready_def placed_def)
qed

lemma coherent_hole_input:
  assumes "coherent tm (shape (plug c (PT a i [v])))"
  shows "coherent tm (shape v)" and "i = node_info tm (lkind i) [pinfo v]"
  using coherent_hole [OF assms] by auto

section \<open>Redundant projections\<close>

lemma attr_eq_eq: "attr_eq a b \<Longrightarrow> a = b"
  by (cases a; cases b) auto

lemma list_all2_attr_eq: "list_all2 attr_eq as bs \<Longrightarrow> as = bs"
  by (induction rule: list_all2_induct) (auto dest: attr_eq_eq)

lemma below_KP [simp]: "below (KP k (t # us)) = t"
  by (simp add: below_def)

lemma t_removeProject_wp:
  assumes "kplan_at tm s p K" and "kplan_ok tm K" and "operator_ptr s \<le> MAXOPERATOR"
  shows "wp (t_removeProject p) (\<lambda>p' s'. kplan_at tm s' p' (kp_removeProject tm K) \<and>
      operator_ptr s' = operator_ptr s \<and> expr_ptr s' = expr_ptr s) E s"
proof -
  obtain t where t: "plan_at s p t" "coherent tm (shape t)" "kp t = K"
    using assms(1) by (rule kplan_atE)
  have one: "one_input pass_project" by (simp add: pass_project_def [abs_def])
  from t(1) assms(2) [folded t(3)] one assms(3) show ?thesis
  proof (cases rule: walk_cases [where tg = is_project])
    case none
    then show ?thesis
      using t assms(1)
      by (simp add: t_removeProject_def pass_project_def [abs_def] kp_removeProject_def)
  next
    case (found c u)
    note pl = t(1) [unfolded found(1)] and co = t(2) [unfolded found(1)]
    note d = placed_plugD [OF pl]
    obtain a i ts where u: "u = PT a i ts" by (cases u)
    have "kplan_ok tm (kp u)"
      using assms(2) t(3) found(1) by (metis kp_plug kplan_ok_hole)
    moreover have proj: "is_project (lkind i)" using found(3) u by simp
    ultimately have "length ts = 1" using u by (auto simp: is_kind_cases)
    then obtain v where v: "ts = [v]" by (cases ts) auto
    have h: "linputs (opHeap s a) = [paddr v]" "outAttrs (opHeap s a) = outAttrs i"
        "loutput (opHeap s a) = ctx_out None c" "outAttrs (opHeap s (paddr v)) = outAttrs (pinfo v)"
      using d(2) u v by (cases v; auto)+
    note ci = coherent_hole_input [OF co [unfolded u v]]
    have at: "outAttrs i = kattrs tm (kp u)" "outAttrs (pinfo v) = kattrs tm (kp v)"
      using coherent_attrs [OF coherent_hole [OF co]] coherent_attrs [OF ci(1)] u by simp_all
    show ?thesis
    proof (cases "list_all2 attr_eq (outAttrs i) (outAttrs (pinfo v))")
      case False
      then have "kp_removeProject tm K = K"
        using found(6) [of "drop_useless tm"] t(3) found(1) at u v
        by (simp add: kp_removeProject_def drop_useless_def kp_plug)
      then show ?thesis
        using False found(4) h u v assms(1)
        by (simp add: t_removeProject_def pass_project_def [abs_def] isUselessProject_def)
    next
      case True
      let ?s = "s\<lparr>opHeap := (opHeap s)(paddr v := (opHeap s (paddr v))\<lparr>loutput := ctx_out None c\<rparr>)\<rparr>"
      have new: "kp_removeProject tm K = kplug (kctx_of c) (kp v)"
        using found(6) [of "drop_useless tm"] t(3) True at u v
        by (simp add: kp_removeProject_def drop_useless_def)
      have "outAttrs (pinfo v) = outAttrs i" using list_all2_attr_eq [OF True] by simp
      moreover have "bStream (pinfo v) = bStream i"
        using ci(2) proj by (auto simp: is_kind_cases node_info_def dest: arg_cong [of _ _ bStream])
      ultimately have "coherent tm (shape (plug c v))"
        using coherent_plug [OF co ci(1)] u by simp
      then have "wp (replaceOp p (ctx_out None c) (paddr v)) (\<lambda>p' s'. kplan_at tm s' p' (kp_removeProject tm K) \<and>
          operator_ptr s' = operator_ptr s \<and> expr_ptr s' = expr_ptr s) E ?s"
        using ctx_ready_child [OF pl [unfolded u v]] found(2) d(3) u
        by (intro replaceOp_wp [where p' = "ctx_root c (paddr v)"])
          (auto simp: new kp_plug intro: kplan_atI)
      then show ?thesis
        using True found(4) h u v
        by (simp add: t_removeProject_def pass_project_def [abs_def] isUselessProject_def)
    qed
  qed
qed

lemma drop_useless_ok:
  assumes "kplan_ok tm t" and "is_project (kroot t)"
  shows "keeps tm t (drop_useless tm t)"
proof -
  obtain es ts where t: "t = KP (LO_PROJECT es) ts" using assms(2) by (cases t) (auto simp: is_kind_cases)
  then obtain u where u: "ts = [u]" using assms(1) by (cases ts) auto
  then show ?thesis
    using assms(1) t list_all2_attr_eq
    by (auto simp: drop_useless_def keeps_def below_def dest!: list_all2_attr_eq)
qed

lemma kp_removeProject_ok: "kplan_ok tm K \<Longrightarrow> keeps tm K (kp_removeProject tm K)"
  unfolding kp_removeProject_def by (rule kp_at_keeps) (rule drop_useless_ok)

section \<open>Istream over a stream\<close>

lemma plan_at_child:
  assumes "placed s q p (PT a i [v])"
  shows "plan_at (s\<lparr>opHeap := (opHeap s)(paddr v := (opHeap s (paddr v))\<lparr>loutput := None\<rparr>)\<rparr>) (paddr v) v"
  using assms by (auto simp: placed_def intro!: rep_set_output)

lemma root_one_input:
  assumes "plan_at s p t" and "kplan_ok tm (kp t)" and "one_input (\<lambda>k. k = lkind (pinfo t))"
  obtains i v where "t = PT p i [v]" and "opHeap s p = (opHeap s p)\<lparr>lkind := lkind i, linputs := [paddr v]\<rparr>"
    and "bStream (opHeap s (paddr v)) = bStream (pinfo v)"
proof -
  obtain a i ts where t: "t = PT a i ts" by (cases t)
  then have "length ts = 1" using assms(2,3) by (auto simp: one_input_def)
  then obtain v where v: "ts = [v]" by (cases ts) auto
  have "lkind (opHeap s p) = lkind i" "linputs (opHeap s p) = [paddr v]" "p = a"
      "bStream (opHeap s (paddr v)) = bStream (pinfo v)"
    using assms(1) t v by (cases v; auto simp: placed_def)+
  then show ?thesis using that [of i v] t v by (simp add: lop.equality)
qed

lemma t_removeIstream_wp:
  assumes "kplan_at tm s p K" and "kplan_ok tm K"
  shows "wp (t_removeIstream p) (\<lambda>p' s'. kplan_at tm s' p' (kp_removeIstream K) \<and>
      operator_ptr s' = operator_ptr s \<and> expr_ptr s' = expr_ptr s) E s"
proof -
  obtain t where t: "plan_at s p t" "coherent tm (shape t)" "kp t = K"
    using assms(1) by (rule kplan_atE)
  have k: "lkind (opHeap s p) = kroot K" using plan_at_kind [OF t(1)] t(3) by auto
  show ?thesis
  proof (cases "kroot K = LO_ISTREAM")
    case True
    then have "one_input (\<lambda>k. k = lkind (pinfo t))" using t(3) by (auto simp: one_input_def)
    then obtain i v where v: "t = PT p i [v]" "opHeap s p = (opHeap s p)\<lparr>lkind := lkind i, linputs := [paddr v]\<rparr>"
        "bStream (opHeap s (paddr v)) = bStream (pinfo v)"
      using root_one_input [OF t(1)] assms(2) t(3) by metis
    have li: "linputs (opHeap s p) = [paddr v]" by (subst v(2)) simp
    have cv: "coherent tm (shape v)" using t(2) v(1) by simp
    have b: "below K = kp v" using t(3) v(1) by auto
    have "kplan_at tm (s\<lparr>opHeap := (opHeap s)(paddr v := (opHeap s (paddr v))\<lparr>loutput := None\<rparr>)\<rparr>)
        (paddr v) (kp v)"
      using plan_at_child [of s None p p i v] t(1) v(1) cv by (intro kplan_atI) auto
    then show ?thesis
      using True k li v(3) b coherent_stream [OF cv] assms(1)
      by (simp add: t_removeIstream_def kp_removeIstream_def)
  qed (use assms(1) k in \<open>simp add: t_removeIstream_def kp_removeIstream_def\<close>)
qed

lemma kp_removeIstream_ok: "kplan_ok tm K \<Longrightarrow> keeps tm K (kp_removeIstream K)"
proof (cases K)
  case (KP k ts)
  assume ok: "kplan_ok tm K"
  show ?thesis
  proof (cases "k = LO_ISTREAM")
    case True
    then obtain t where "ts = [t]" using ok KP by (cases ts) auto
    then show ?thesis using ok KP True by (simp add: kp_removeIstream_def keeps_def)
  qed (use ok KP in \<open>simp add: kp_removeIstream_def keeps_def\<close>)
qed

section \<open>Chains\<close>

lemma plug_append: "plug (c @ d) t = plug c (plug d t)"
  by (induction c "plug d t" rule: plug.induct) auto

lemma ctx_out_append: "ctx_out p (c @ d) = ctx_out (ctx_out p c) d"
  by (induction p c rule: ctx_out.induct) auto

lemma ctx_root_append: "ctx_root (c @ d) x = ctx_root c (ctx_root d x)"
  by (cases c) auto

lemma caddrs_append: "caddrs (c @ d) = caddrs c @ caddrs d"
  by (induction c rule: caddrs.induct) auto

lemma ctx_rep_append:
  "ctx_rep h p (c @ d) x \<longleftrightarrow> ctx_rep h p c (ctx_root d x) \<and> ctx_rep h (ctx_out p c) d x"
  by (induction h p c "ctx_root d x" rule: ctx_rep.induct) (auto simp: ctx_root_append)

lemma chain_append [simp]: "chain ps (c @ d) \<longleftrightarrow> chain ps c \<and> chain ps d"
  by (simp add: chain_def ball_Un)

lemma chain_mono: "chain ps c \<Longrightarrow> (\<And>k. ps k \<Longrightarrow> qs k) \<Longrightarrow> chain qs c"
  by (auto simp: chain_def)

text \<open>Schema and stream flag at the top of a chain, from those below it.\<close>

fun attrs_up :: "table_manager \<Rightarrow> lattr list \<Rightarrow> ctx \<Rightarrow> lattr list" where
  "attrs_up tm A [] = A"
| "attrs_up tm A ((a, i, ls, rs) # c) = out_attrs tm (lkind i) [attrs_up tm A c]"

fun stream_up :: "bool \<Rightarrow> ctx \<Rightarrow> bool" where
  "stream_up b [] = b"
| "stream_up b ((a, i, ls, rs) # c) = out_stream (lkind i) [stream_up b c]"

text \<open>The chain with the schemas, and with the flags, that follow.\<close>

fun re_attrs :: "table_manager \<Rightarrow> lattr list \<Rightarrow> ctx \<Rightarrow> ctx" where
  "re_attrs tm A [] = []"
| "re_attrs tm A ((a, i, ls, rs) # c) =
    (a, i\<lparr>outAttrs := out_attrs tm (lkind i) [attrs_up tm A c]\<rparr>, ls, rs) # re_attrs tm A c"

fun re_stream :: "bool \<Rightarrow> ctx \<Rightarrow> ctx" where
  "re_stream b [] = []"
| "re_stream b ((a, i, ls, rs) # c) =
    (a, i\<lparr>bStream := out_stream (lkind i) [stream_up b c]\<rparr>, ls, rs) # re_stream b c"

lemma re_addrs [simp]:
  "caddrs (re_attrs tm A c) = caddrs c" "caddrs (re_stream b c) = caddrs c"
  "ctx_out p (re_attrs tm A c) = ctx_out p c" "ctx_out p (re_stream b c) = ctx_out p c"
  "ctx_root (re_attrs tm A c) x = ctx_root c x" "ctx_root (re_stream b c) x = ctx_root c x"
  "kctx_of (re_attrs tm A c) = kctx_of c" "kctx_of (re_stream b c) = kctx_of c"
  "chain ps (re_attrs tm A c) = chain ps c" "chain ps (re_stream b c) = chain ps c"
  "attrs_up tm A' (re_stream b c) = attrs_up tm A' c" "stream_up b' (re_attrs tm A c) = stream_up b' c"
proof -
  show "caddrs (re_attrs tm A c) = caddrs c" by (induction c rule: caddrs.induct) auto
  show "caddrs (re_stream b c) = caddrs c" by (induction c rule: caddrs.induct) auto
  show "ctx_out p (re_attrs tm A c) = ctx_out p c" by (induction p c rule: ctx_out.induct) auto
  show "ctx_out p (re_stream b c) = ctx_out p c" by (induction p c rule: ctx_out.induct) auto
  show "ctx_root (re_attrs tm A c) x = ctx_root c x" by (cases c) auto
  show "ctx_root (re_stream b c) x = ctx_root c x" by (cases c) auto
  show "kctx_of (re_attrs tm A c) = kctx_of c" by (induction c rule: caddrs.induct) auto
  show "kctx_of (re_stream b c) = kctx_of c" by (induction c rule: caddrs.induct) auto
  show "chain ps (re_attrs tm A c) = chain ps c" by (induction c rule: caddrs.induct) auto
  show "chain ps (re_stream b c) = chain ps c" by (induction c rule: caddrs.induct) auto
  show "attrs_up tm A' (re_stream b c) = attrs_up tm A' c" by (induction c rule: caddrs.induct) auto
  show "stream_up b' (re_attrs tm A c) = stream_up b' c" by (induction c rule: caddrs.induct) auto
qed

lemma re_snoc:
  "re_attrs tm A (c @ [(a, i, ls, rs)]) =
    re_attrs tm (out_attrs tm (lkind i) [A]) c @ [(a, i\<lparr>outAttrs := out_attrs tm (lkind i) [A]\<rparr>, ls, rs)]"
  "re_stream b (c @ [(a, i, ls, rs)]) =
    re_stream (out_stream (lkind i) [b]) c @ [(a, i\<lparr>bStream := out_stream (lkind i) [b]\<rparr>, ls, rs)]"
proof -
  have up: "attrs_up tm A (c @ [(a, i, ls, rs)]) = attrs_up tm (out_attrs tm (lkind i) [A]) c"
      "stream_up b (c @ [(a, i, ls, rs)]) = stream_up (out_stream (lkind i) [b]) c" for c
    by (induction c rule: caddrs.induct) auto
  show "re_attrs tm A (c @ [(a, i, ls, rs)]) =
    re_attrs tm (out_attrs tm (lkind i) [A]) c @ [(a, i\<lparr>outAttrs := out_attrs tm (lkind i) [A]\<rparr>, ls, rs)]"
    by (induction c rule: caddrs.induct) (auto simp: up)
  show "re_stream b (c @ [(a, i, ls, rs)]) =
    re_stream (out_stream (lkind i) [b]) c @ [(a, i\<lparr>bStream := out_stream (lkind i) [b]\<rparr>, ls, rs)]"
    by (induction c rule: caddrs.induct) (auto simp: up)
qed

text \<open>The schemas and flags of a coherent plan are those that follow, and conversely.\<close>

lemma coherent_chain:
  assumes "coherent tm (shape (plug c u))" and "chain ps c"
  shows "re_attrs tm (outAttrs (pinfo u)) c = c" and "re_stream (bStream (pinfo u)) c = c"
    and "outAttrs (pinfo (plug c u)) = attrs_up tm (outAttrs (pinfo u)) c"
    and "bStream (pinfo (plug c u)) = stream_up (bStream (pinfo u)) c"
proof -
  have "re_attrs tm (outAttrs (pinfo u)) c = c \<and> re_stream (bStream (pinfo u)) c = c \<and>
    outAttrs (pinfo (plug c u)) = attrs_up tm (outAttrs (pinfo u)) c \<and>
    bStream (pinfo (plug c u)) = stream_up (bStream (pinfo u)) c"
    using assms
  proof (induction c u rule: plug.induct)
    case (2 a i ls rs c u)
    have i: "i = node_info tm (lkind i) [pinfo (plug c u)]" using 2(2,3) by simp
    have "outAttrs i = out_attrs tm (lkind i) [outAttrs (pinfo (plug c u))]"
        "bStream i = out_stream (lkind i) [bStream (pinfo (plug c u))]"
      by (subst i, simp)+
    then show ?case using 2 by (auto intro!: linfo.equality)
  qed simp
  then show "re_attrs tm (outAttrs (pinfo u)) c = c" "re_stream (bStream (pinfo u)) c = c"
    "outAttrs (pinfo (plug c u)) = attrs_up tm (outAttrs (pinfo u)) c"
    "bStream (pinfo (plug c u)) = stream_up (bStream (pinfo u)) c" by simp_all
qed

lemma chain_coherent:
  assumes "chain ps c" and "coherent tm (shape u)"
  shows "coherent tm (shape (plug (re_stream (bStream (pinfo u)) (re_attrs tm (outAttrs (pinfo u)) c)) u)) \<and>
    outAttrs (pinfo (plug (re_stream (bStream (pinfo u)) (re_attrs tm (outAttrs (pinfo u)) c)) u)) =
      attrs_up tm (outAttrs (pinfo u)) c \<and>
    bStream (pinfo (plug (re_stream (bStream (pinfo u)) (re_attrs tm (outAttrs (pinfo u)) c)) u)) =
      stream_up (bStream (pinfo u)) c"
  using assms by (induction c rule: caddrs.induct) (auto simp: node_info_def intro!: linfo.equality)

section \<open>Rstream over a now window\<close>

lemma chain_len:
  assumes "ctx_rep h q c x" and "distinct (caddrs c)" and "\<forall>a\<in>set (caddrs c). a < n"
  shows "length c \<le> n"
proof -
  have "length c \<le> length (caddrs c)" by (induction c rule: caddrs.induct) auto
  also have "\<dots> = card (set (caddrs c))" using assms(2) by (simp add: distinct_card)
  also have "\<dots> \<le> card {..<n}" using assms(3) by (intro card_mono) auto
  finally show ?thesis by simp
qed

text \<open>The operators of a chain after an update of some of their fields.\<close>

lemma ctx_rep_snoc:
  "ctx_rep h None (c @ [(a, i, [], [])]) x \<longleftrightarrow> ctx_rep h None c a \<and>
    info_of (h a) = i \<and> loutput (h a) = ctx_out None c \<and> linputs (h a) = [x]"
  by (auto simp: ctx_rep_append)

lemma chain_snocE:
  assumes "chain ps (c @ [z])"
  obtains a i where "z = (a, i, [], [])" and "ps (lkind i)"
  using assms by (cases z) auto

lemma streamUp_wp:
  assumes "ctx_rep (opHeap s) None c x" and "chain pass_now c" and "distinct (caddrs c)"
    and "length c \<le> fuel"
    and "\<And>s' :: lstate. ctx_rep (opHeap s') None (re_stream True c) x \<Longrightarrow>
      \<forall>a. a \<notin> set (caddrs c) \<longrightarrow> opHeap s' a = opHeap s a \<Longrightarrow>
      operator_ptr s' = operator_ptr s \<Longrightarrow> expr_ptr s' = expr_ptr s \<Longrightarrow> Q () s'"
  shows "wp (streamUp fuel (ctx_out None c)) Q E s"
  using assms
proof (induction c arbitrary: s x fuel rule: rev_induct)
  case Nil
  then show ?case by simp
next
  case (snoc z c)
  obtain a i where z: "z = (a, i, [], [])" and k: "pass_now (lkind i)"
    using snoc.prems(2) by (rule chain_snocE)
  obtain fuel' where f: "fuel = Suc fuel'" "length c \<le> fuel'" using snoc.prems(4) by (cases fuel) auto
  have rep: "ctx_rep (opHeap s) None c a" "info_of (opHeap s a) = i" "loutput (opHeap s a) = ctx_out None c"
      "linputs (opHeap s a) = [x]"
    using snoc.prems(1) unfolding z ctx_rep_snoc by auto
  have dist: "distinct (caddrs c)" "a \<notin> set (caddrs c)"
    using snoc.prems(3) by (auto simp: z caddrs_append)
  let ?h = "(opHeap s)(a := (opHeap s a)\<lparr>bStream := True\<rparr>)"
  let ?s = "s\<lparr>opHeap := ?h\<rparr>"
  have r1: "ctx_rep (opHeap ?s) None c a"
    using rep(1) dist(2) by (subst ctx_rep_cong [of c _ "opHeap s"]) auto
  have "wp (streamUp fuel' (ctx_out None c)) Q E ?s"
  proof (rule snoc.IH [OF r1 _ dist(1) f(2)])
    show "chain pass_now c" using snoc.prems(2) by simp
    fix s' :: lstate
    assume s': "ctx_rep (opHeap s') None (re_stream True c) a"
      "\<forall>b. b \<notin> set (caddrs c) \<longrightarrow> opHeap s' b = opHeap ?s b"
      "operator_ptr s' = operator_ptr ?s" "expr_ptr s' = expr_ptr ?s"
    have "out_stream (lkind i) [True]" using k by (auto simp: pass_now_def is_kind_cases)
    then have "re_stream True (c @ [z]) = re_stream True c @ [(a, i\<lparr>bStream := True\<rparr>, [], [])]"
      by (simp add: z re_snoc)
    moreover have "opHeap s' a = (opHeap s a)\<lparr>bStream := True\<rparr>" using s'(2) dist(2) by simp
    ultimately have "ctx_rep (opHeap s') None (re_stream True (c @ [z])) x"
      using s'(1) rep(2-4) by (simp add: ctx_rep_snoc)
    then show "Q () s'"
      using s' by (intro snoc.prems(5)) (auto simp: z caddrs_append)
  qed
  then show ?case using rep(3) f(1) by (simp add: z ctx_out_append)
qed

lemma re_stream_placed:
  assumes "plan_at s p (plug c v)" and "ctx_rep (opHeap s') None c' (paddr v)"
    and "caddrs c' = caddrs c" and "ctx_out None c' = ctx_out None c" and "ctx_root c' (paddr v) = ctx_root c (paddr v)"
    and "\<forall>a. a \<notin> set (caddrs c) \<longrightarrow> opHeap s' a = opHeap s a" and "operator_ptr s' = operator_ptr s"
  shows "plan_at s' p (plug c' v)"
proof -
  note d = placed_plugD [OF assms(1)]
  have "rep (opHeap s') (ctx_out None c) v = rep (opHeap s) (ctx_out None c) v"
    using d(6) assms(6) by (intro rep_cong) auto
  then show ?thesis
    using d assms by (auto simp: placed_def rep_plug distinct_plug set_addrs_plug)
qed

lemma link_and_mark:
  assumes r: "ctx_ready s c n v" and c: "chain pass_now c" "c \<noteq> []" and o: "ctx_out None c = Some out"
    and f: "operator_ptr s \<le> MAXOPERATOR"
    and Q: "\<And>s' :: lstate. plan_at s' (ctx_root c n) (plug (re_stream True c) v) \<Longrightarrow>
      operator_ptr s' = operator_ptr s \<Longrightarrow> expr_ptr s' = expr_ptr s \<Longrightarrow> Q () s'"
  shows "wp (seqM (setInput out 0 (paddr v)) (streamUp MAXOPERATOR (Some out))) Q E s"
proof -
  obtain a i ls rs where l: "last c = (a, i, ls, rs)" by (cases "last c")
  have a: "out = a" using o l ctx_out_last [OF c(2), of None] by simp
  have ls: "ls = []"
    using c(1) l last_in_set [OF c(2)] unfolding chain_def by fastforce
  have "linputs (opHeap s a) = map paddr ls @ n # map paddr rs"
    using last_input [OF _ c(2) l] r by (auto simp: ctx_ready_def)
  then have len: "0 < length (linputs (opHeap s a))" by simp
  let ?s = "s\<lparr>opHeap := (opHeap s)(a := (opHeap s a)\<lparr>linputs := (linputs (opHeap s a))[0 := paddr v]\<rparr>)\<rparr>"
  have pl: "plan_at ?s (ctx_root c n) (plug c v)"
    using link_hole [OF r c(2) l] ls by simp
  note d = placed_plugD [OF pl]
  have "wp (streamUp MAXOPERATOR (ctx_out None c)) Q E ?s"
  proof (rule streamUp_wp [OF d(1) c(1) d(4)])
    show "length c \<le> MAXOPERATOR"
      using chain_len [OF d(1,4), of "operator_ptr ?s"] d(7) f by force
    fix s' :: lstate
    assume "ctx_rep (opHeap s') None (re_stream True c) (paddr v)"
      "\<forall>a. a \<notin> set (caddrs c) \<longrightarrow> opHeap s' a = opHeap ?s a"
      "operator_ptr s' = operator_ptr ?s" "expr_ptr s' = expr_ptr ?s"
    then show "Q () s'" by (intro Q re_stream_placed [OF pl]) auto
  qed
  then show ?thesis using a len o by simp
qed

lemma t_rstreamNow_wp:
  assumes "kplan_at tm s p K" and "kplan_ok tm K" and "operator_ptr s \<le> MAXOPERATOR"
  shows "wp (t_rstreamNow p) (\<lambda>p' s'. kplan_at tm s' p' (kp_rstreamNow K) \<and>
      operator_ptr s' = operator_ptr s \<and> expr_ptr s' = expr_ptr s) E s"
proof -
  obtain t where t: "plan_at s p t" "coherent tm (shape t)" "kp t = K"
    using assms(1) by (rule kplan_atE)
  have k: "lkind (opHeap s p) = kroot K" using plan_at_kind [OF t(1)] t(3) by auto
  show ?thesis
  proof (cases "kroot K = LO_RSTREAM")
    case True
    then have "one_input (\<lambda>k. k = lkind (pinfo t))" using t(3) by (auto simp: one_input_def)
    then obtain ri t1 where t1: "t = PT p ri [t1]" "opHeap s p = (opHeap s p)\<lparr>lkind := lkind ri, linputs := [paddr t1]\<rparr>"
      using root_one_input [OF t(1)] assms(2) t(3) by metis
    have li: "linputs (opHeap s p) = [paddr t1]" by (subst t1(2)) simp
    have K: "below K = kp t1" and co1: "coherent tm (shape t1)" and ok1: "kplan_ok tm (kp t1)"
      using t assms(2) t1(1) by auto
    have pl1: "placed s (Some p) (paddr t1) t1" using t(1) t1(1) by (auto simp: placed_def)
    have one: "one_input pass_now" by (simp add: pass_now_def [abs_def])
    note unf = t_rstreamNow_def is_now_def [abs_def, symmetric] pass_now_def [abs_def, symmetric]
    from pl1 ok1 one assms(3) show ?thesis
    proof (cases rule: walk_cases [where tg = is_now])
      case none
      then show ?thesis using True k li assms(1) K by (simp add: unf kp_rstreamNow_def)
    next
      case (found c u)
      obtain n i ts where u: "u = PT n i ts" by (cases u)
      have okc: "kplan_ok tm (kplug (kctx_of c) (kp u))" using ok1 found(1) by (simp add: kp_plug)
      then have oku: "kplan_ok tm (kp u)" by (rule kplan_ok_hole)
      have now: "lkind i = LO_NOW_WIN" using found(3) u by (simp add: is_now_def)
      then have "length ts = 1" using oku u by simp
      then obtain v where v: "ts = [v]" by (cases ts) auto
      note uv = u [unfolded v]
      have ch: "chain pass_now c" using found(2) by (rule chain_mono) simp
      let ?s1 = "s\<lparr>opHeap := (opHeap s)(paddr t1 := (opHeap s (paddr t1))\<lparr>loutput := None\<rparr>)\<rparr>"
      have pl: "plan_at ?s1 (paddr t1) (plug c (PT n i [v]))"
        using plan_at_child [of s None p p ri t1] t(1) t1(1) found(1) uv by simp
      note d = placed_plugD [OF pl]
      have h: "linputs (opHeap ?s1 n) = [paddr v]" "loutput (opHeap ?s1 n) = ctx_out None c"
        using d(2) by auto
      note rd = ctx_ready_child [OF pl]
      note co = co1 [unfolded found(1) uv]
      note ci = coherent_hole_input [OF co]
      have at: "outAttrs (pinfo v) = outAttrs i" using ci(2) now by (metis node_info_sel(2) out_attrs.simps(9)
            concat.simps list.simps(8,9) append_Nil2)
      have st: "bStream (pinfo v)" using coherent_stream [OF ci(1)] oku uv now by simp
      have root: "paddr t1 = ctx_root c n" using d(3) by simp
      have K': "kp_rstreamNow K = kplug (kctx_of c) (kp v)"
        using True K found(5,6) uv by (simp add: kp_rstreamNow_def)
      show ?thesis
      proof (cases "c = []")
        case [simp]: True
        then show ?thesis
          using \<open>kroot K = LO_RSTREAM\<close> k li found(4) h K' rd ci(1) uv root found(1)
          by (auto simp: unf ctx_ready_def intro: kplan_atI)
      next
        case False
        then obtain out where out: "ctx_out None c = Some out" using ctx_out_last by blast
        let ?s2 = "?s1\<lparr>opHeap := (opHeap ?s1)(paddr v := (opHeap ?s1 (paddr v))\<lparr>loutput := ctx_out None c\<rparr>)\<rparr>"
        have "wp (seqM (setInput out 0 (paddr v)) (streamUp MAXOPERATOR (Some out)))
          (\<lambda>_ s'. kplan_at tm s' (paddr t1) (kp_rstreamNow K) \<and>
            operator_ptr s' = operator_ptr s \<and> expr_ptr s' = expr_ptr s) E ?s2"
        proof (rule link_and_mark [OF rd ch False out])
          fix s' :: lstate
          assume s': "plan_at s' (ctx_root c n) (plug (re_stream True c) v)"
            "operator_ptr s' = operator_ptr ?s2" "expr_ptr s' = expr_ptr ?s2"
          have "re_attrs tm (outAttrs (pinfo v)) c = c"
            using coherent_chain(1) [OF co ch] at by simp
          then have "coherent tm (shape (plug (re_stream True c) v))"
            using chain_coherent [OF ch ci(1)] st by simp
          then show "kplan_at tm s' (paddr t1) (kp_rstreamNow K) \<and>
            operator_ptr s' = operator_ptr s \<and> expr_ptr s' = expr_ptr s"
            using s' root K' by (auto simp: kp_plug intro: kplan_atI)
        qed (use assms(3) in simp)
        then show ?thesis
          using \<open>kroot K = LO_RSTREAM\<close> k li found(4) h out uv
          by (simp add: unf wp_case_option del: fun_upd_apply)
      qed
    qed
  qed (use assms(1) k in \<open>simp add: t_rstreamNow_def kp_rstreamNow_def\<close>)
qed

lemma kp_rstreamNow_ok:
  assumes "kplan_ok tm K"
  shows "keeps tm K (kp_rstreamNow K)"
proof -
  have "kp_find is_now pass_now t \<Longrightarrow> kplan_ok tm t \<Longrightarrow>
    kplan_ok tm (kp_at is_now pass_now below t) \<and>
    kattrs tm (kp_at is_now pass_now below t) = kattrs tm t \<and> kstream (kp_at is_now pass_now below t)" for t
  proof (induction is_now pass_now t rule: kp_find.induct)
    case (1 k ts)
    show ?case
    proof (cases "is_now k")
      case True
      then obtain t where "ts = [t]" using 1(3) by (cases ts) (auto simp: is_now_def)
      then show ?thesis using 1(3) True by (simp add: is_now_def)
    next
      case False
      then obtain t us where ts: "ts = t # us" and k: "pass_now k"
        using 1(2) by (auto split: if_splits list.splits)
      then have "us = []" using 1(3) by (auto simp: pass_now_def is_kind_cases)
      then show ?thesis
        using 1 False ts k by (auto simp: pass_now_def is_kind_cases)
    qed
  qed
  moreover obtain k ts where K: "K = KP k ts" by (cases K)
  moreover have "k = LO_RSTREAM \<Longrightarrow> \<exists>t. ts = [t]" using assms K by (cases ts) auto
  ultimately show ?thesis
    using assms by (auto simp: kp_rstreamNow_def keeps_def)
qed

section \<open>Propagation to the root\<close>

text \<open>The kinds between a stream cross product and the root.\<close>

definition pass_up :: "lkind \<Rightarrow> bool" where
  "pass_up k \<longleftrightarrow> pass_scross k \<or> k = LO_RSTREAM"

lemma pass_up_cases:
  assumes "pass_up k"
  obtains (stop) "schema_stop k" "\<And>A B. out_attrs tm k [A] = out_attrs tm k [B]"
    | (copy) "\<not> schema_stop k" "k \<noteq> LO_UNION" "k \<noteq> LO_EXCEPT" "\<And>A. out_attrs tm k [A] = A"
  using assms that by (auto simp: pass_up_def pass_scross_def is_kind_cases)

lemma update_schema_wp:
  assumes "ctx_rep (opHeap s) None c x" and "chain pass_up c" and "distinct (caddrs c)"
    and "length c \<le> fuel" and "re_attrs tm A0 c = c" and "outAttrs (opHeap s x) = A"
    and "x \<notin> set (caddrs c)" and "length A \<le> MAX_ATTRS"
    and "\<And>s' :: lstate. ctx_rep (opHeap s') None (re_attrs tm A c) x \<Longrightarrow>
      \<forall>a. a \<notin> set (caddrs c) \<longrightarrow> opHeap s' a = opHeap s a \<Longrightarrow>
      operator_ptr s' = operator_ptr s \<Longrightarrow> expr_ptr s' = expr_ptr s \<Longrightarrow> Q () s'"
  shows "wp (update_schema_loop fuel (ctx_out None c)) Q E s"
  using assms
proof (induction c arbitrary: s x fuel A0 rule: rev_induct)
  case Nil
  then show ?case by simp
next
  case (snoc z c)
  obtain a i where z: "z = (a, i, [], [])" and k: "pass_up (lkind i)"
    using snoc.prems(2) by (rule chain_snocE)
  obtain fuel' where f: "fuel = Suc fuel'" "length c \<le> fuel'" using snoc.prems(4) by (cases fuel) auto
  have rep: "ctx_rep (opHeap s) None c a" "info_of (opHeap s a) = i" "loutput (opHeap s a) = ctx_out None c"
      "linputs (opHeap s a) = [x]"
    using snoc.prems(1) unfolding z ctx_rep_snoc by auto
  have dist: "distinct (caddrs c)" "a \<notin> set (caddrs c)" "x \<noteq> a" "x \<notin> set (caddrs c)"
    using snoc.prems(3,7) by (auto simp: z caddrs_append)
  have old: "re_attrs tm (out_attrs tm (lkind i) [A0]) c = c" "i\<lparr>outAttrs := out_attrs tm (lkind i) [A0]\<rparr> = i"
    using snoc.prems(5) by (simp_all add: z re_snoc)
  have ki: "lkind (opHeap s a) = lkind i" using rep(2) by auto
  from k show ?case
  proof (cases rule: pass_up_cases [where tm = tm])
    case stop
    have "out_attrs tm (lkind i) [A] = out_attrs tm (lkind i) [A0]" by (rule stop(2))
    then have "re_attrs tm A (c @ [z]) = c @ [z]"
      using snoc.prems(5) by (simp only: z re_snoc)
    then show ?thesis
      using snoc.prems(1,9) stop(1) ki f(1) by (simp add: z ctx_out_append)
  next
    case copy
    let ?h = "(opHeap s)(a := (opHeap s a)\<lparr>outAttrs := A\<rparr>)"
    let ?s = "s\<lparr>opHeap := ?h\<rparr>"
    have r1: "ctx_rep (opHeap ?s) None c a"
      using rep(1) dist(2) by (subst ctx_rep_cong [of c _ "opHeap s"]) auto
    have "wp (update_schema_loop fuel' (ctx_out None c)) Q E ?s"
    proof (rule snoc.IH [OF r1 _ dist(1) f(2) old(1)])
      show "chain pass_up c" using snoc.prems(2) by simp
      fix s' :: lstate
      assume s': "ctx_rep (opHeap s') None (re_attrs tm A c) a"
        "\<forall>b. b \<notin> set (caddrs c) \<longrightarrow> opHeap s' b = opHeap ?s b"
        "operator_ptr s' = operator_ptr ?s" "expr_ptr s' = expr_ptr ?s"
      have "re_attrs tm A (c @ [z]) = re_attrs tm A c @ [(a, i\<lparr>outAttrs := A\<rparr>, [], [])]"
        using copy(4) by (simp add: z re_snoc)
      moreover have "opHeap s' a = (opHeap s a)\<lparr>outAttrs := A\<rparr>" using s'(2) dist(2) by simp
      ultimately have "ctx_rep (opHeap s') None (re_attrs tm A (c @ [z])) x"
        using s'(1) rep(2-4) by (simp add: ctx_rep_snoc)
      then show "Q () s'"
        using s' by (intro snoc.prems(9)) (auto simp: z caddrs_append)
    qed (use dist snoc.prems(8) in auto)
    moreover have "wp (append_schemas a [x]) (\<lambda>_ s'. s' = ?s) E
        (s\<lparr>opHeap := (opHeap s)(a := (opHeap s a)\<lparr>outAttrs := []\<rparr>)\<rparr>)"
      using dist(3) snoc.prems(6,8) by (simp add: append_schema_def)
    ultimately show ?thesis
      using copy(1-3) ki rep(3,4) f(1) by (auto simp: z ctx_out_append elim!: wp_mono)
  qed
qed

lemma pass_up_stream:
  assumes "pass_up k"
  obtains (stop) "\<not> copies_stream k" "k \<noteq> LO_CROSS" "k \<noteq> LO_UNION" "\<And>b b'. out_stream k [b] = out_stream k [b']"
    | (copy) "copies_stream k" "\<And>b. out_stream k [b] = b"
  using assms that by (auto simp: pass_up_def pass_scross_def is_kind_cases)

lemma update_stream_wp:
  assumes "ctx_rep (opHeap s) None c x" and "chain pass_up c" and "distinct (caddrs c)"
    and "length c \<le> fuel" and "re_stream b0 c = c" and "bStream (opHeap s x) = b"
    and "x \<notin> set (caddrs c)"
    and "\<And>s' :: lstate. ctx_rep (opHeap s') None (re_stream b c) x \<Longrightarrow>
      \<forall>a. a \<notin> set (caddrs c) \<longrightarrow> opHeap s' a = opHeap s a \<Longrightarrow>
      operator_ptr s' = operator_ptr s \<Longrightarrow> expr_ptr s' = expr_ptr s \<Longrightarrow> Q () s'"
  shows "wp (update_stream_loop fuel (ctx_out None c)) Q E s"
  using assms
proof (induction c arbitrary: s x fuel b0 rule: rev_induct)
  case Nil
  then show ?case by simp
next
  case (snoc z c)
  obtain a i where z: "z = (a, i, [], [])" and k: "pass_up (lkind i)"
    using snoc.prems(2) by (rule chain_snocE)
  obtain fuel' where f: "fuel = Suc fuel'" "length c \<le> fuel'" using snoc.prems(4) by (cases fuel) auto
  have rep: "ctx_rep (opHeap s) None c a" "info_of (opHeap s a) = i" "loutput (opHeap s a) = ctx_out None c"
      "linputs (opHeap s a) = [x]"
    using snoc.prems(1) unfolding z ctx_rep_snoc by auto
  have dist: "distinct (caddrs c)" "a \<notin> set (caddrs c)" "x \<noteq> a" "x \<notin> set (caddrs c)"
    using snoc.prems(3,7) by (auto simp: z caddrs_append)
  have old: "re_stream (out_stream (lkind i) [b0]) c = c"
    using snoc.prems(5) by (simp_all add: z re_snoc)
  have ki: "lkind (opHeap s a) = lkind i" using rep(2) by auto
  from k show ?case
  proof (cases rule: pass_up_stream)
    case stop
    have "out_stream (lkind i) [b] = out_stream (lkind i) [b0]" by (rule stop(4))
    then have "re_stream b (c @ [z]) = c @ [z]"
      using snoc.prems(5) by (simp only: z re_snoc)
    then show ?thesis
      using snoc.prems(1,8) stop(1-3) ki f(1) by (simp add: z ctx_out_append)
  next
    case copy
    let ?s = "s\<lparr>opHeap := (opHeap s)(a := (opHeap s a)\<lparr>bStream := b\<rparr>)\<rparr>"
    have r1: "ctx_rep (opHeap ?s) None c a"
      using rep(1) dist(2) by (subst ctx_rep_cong [of c _ "opHeap s"]) auto
    have "wp (update_stream_loop fuel' (ctx_out None c)) Q E ?s"
    proof (rule snoc.IH [OF r1 _ dist(1) f(2) old(1)])
      show "chain pass_up c" using snoc.prems(2) by simp
      fix s' :: lstate
      assume s': "ctx_rep (opHeap s') None (re_stream b c) a"
        "\<forall>b. b \<notin> set (caddrs c) \<longrightarrow> opHeap s' b = opHeap ?s b"
        "operator_ptr s' = operator_ptr ?s" "expr_ptr s' = expr_ptr ?s"
      have "re_stream b (c @ [z]) = re_stream b c @ [(a, i\<lparr>bStream := b\<rparr>, [], [])]"
        using copy(2) by (simp add: z re_snoc)
      moreover have "opHeap s' a = (opHeap s a)\<lparr>bStream := b\<rparr>" using s'(2) dist(2) by simp
      ultimately have "ctx_rep (opHeap s') None (re_stream b (c @ [z])) x"
        using s'(1) rep(2-4) by (simp add: ctx_rep_snoc)
      then show "Q () s'"
        using s' by (intro snoc.prems(8)) (auto simp: z caddrs_append)
    qed (use dist in auto)
    then show ?thesis
      using copy(1) ki rep(3,4) f(1) snoc.prems(6) by (simp add: z ctx_out_append)
  qed
qed

end
