(* ===== verification/Log_Join.thy ===== *)
theory Log_Join
  imports Log_Trans_Facts
begin

text \<open>
  Nested cross products.  The transformations of cross products and of stream cross products run
  the same loop with different constructors: the locale \<open>joiner\<close> is the contract of its body.
\<close>

section \<open>The contract of a join\<close>

text \<open>
  \<open>join x i a\<close> joins the plan at \<open>a\<close> with input \<open>i\<close> of the operator \<open>x\<close>.
\<close>

locale joiner =
  fixes kind :: lkind and join :: "nat \<Rightarrow> nat \<Rightarrow> nat \<Rightarrow> (lstate, nat) comp"
  assumes join_wp: "placed s qa a ta \<Longrightarrow> placed s qb b tb \<Longrightarrow> set (addrs ta) \<inter> set (addrs tb) = {} \<Longrightarrow>
      coherent tm (shape ta) \<Longrightarrow> coherent tm (shape tb) \<Longrightarrow>
      length (kattrs tm (kp ta)) + length (kattrs tm (kp tb)) \<le> MAX_ATTRS \<Longrightarrow>
      operator_ptr s < MAXOPERATOR \<Longrightarrow> x < operator_ptr s \<Longrightarrow> x \<notin> set (addrs ta) \<union> set (addrs tb) \<Longrightarrow>
      i < length (linputs (opHeap s x)) \<Longrightarrow> linputs (opHeap s x) ! i = b \<Longrightarrow>
      wp (join x i a) (\<lambda>r s'. grown (set (addrs ta) \<union> set (addrs tb)) s (annot tm (KP kind [kp ta, kp tb])) r s' \<and>
        operator_ptr s' = operator_ptr s + 1 \<and> expr_ptr s' = expr_ptr s) E s"
    and kind_attrs: "out_attrs tm kind as = concat as"
    and kind_stream: "out_stream kind [out_stream kind bs, c] = out_stream kind (bs @ [c])"
    and kind_ok: "arity_ok kind m \<longleftrightarrow> 2 \<le> m \<and> m \<le> MAX_INPUT_OPS" "\<not> is_window kind" "select_ok kind"
begin

text \<open>The first \<open>i\<close> inputs, nested.\<close>

definition nested :: "kplan list \<Rightarrow> nat \<Rightarrow> kplan" where
  "nested ks i = nest (KP kind (take i ks))"

lemma nested_Suc:
  assumes "2 \<le> i" and "i < length ks"
  shows "nested ks (Suc i) = KP kind [nested ks i, ks ! i]"
proof -
  obtain x y zs where "take i ks = x # y # zs"
    using assms by (cases ks; cases "tl ks"; cases i; cases "i - 1") auto
  then show ?thesis using assms by (simp add: nested_def take_Suc_conv_app_nth)
qed

lemma nested_attrs:
  assumes "2 \<le> i" and "i \<le> length ks"
  shows "kattrs tm (nested ks i) = concat (map (kattrs tm) (take i ks))"
  using assms
proof (induction i rule: dec_induct)
  case base
  then obtain x y zs where "ks = x # y # zs" by (cases ks; cases "tl ks") auto
  then show ?case by (simp add: nested_def kind_attrs numeral_2_eq_2)
next
  case (step i)
  then show ?case by (simp add: nested_Suc kind_attrs take_Suc_conv_app_nth)
qed

text \<open>The addresses of the first \<open>i\<close> inputs.\<close>

definition used :: "ptree list \<Rightarrow> nat \<Rightarrow> nat set" where
  "used ts i = set (concat (map addrs (take i ts)))"

lemma used_Suc: "i < length ts \<Longrightarrow> used ts (Suc i) = used ts i \<union> set (addrs (ts ! i))"
  by (simp add: used_def take_Suc_conv_app_nth)

lemma used_disjoint:
  assumes "distinct (concat (map addrs ts))" and "i < length ts"
  shows "used ts i \<inter> set (addrs (ts ! i)) = {}"
proof -
  have "concat (map addrs ts) = concat (map addrs (take i ts)) @ addrs (ts ! i) @ concat (map addrs (drop (Suc i) ts))"
    by (metis assms(2) concat.simps(2) concat_append id_take_nth_drop list.simps(9) map_append)
  then show ?thesis using assms(1) by (auto simp: used_def)
qed

lemma used_subset: "used ts i \<subseteq> set (concat (map addrs ts))"
  unfolding used_def by (auto dest: in_set_takeD)

lemma nest_wp:
  assumes ts: "\<forall>t\<in>set ts. placed s (Some x) (paddr t) t" "distinct (concat (map addrs ts))"
      "linputs (opHeap s x) = map paddr ts" "x < operator_ptr s" "x \<notin> set (concat (map addrs ts))"
    and co: "\<forall>t\<in>set ts. coherent tm (shape t)"
    and width: "length (concat (map (kattrs tm \<circ> kp) ts)) \<le> MAX_ATTRS"
    and n: "2 \<le> length ts" "operator_ptr s + length ts \<le> MAXOPERATOR"
    and start: "grown (used ts 2) s (annot tm (nested (map kp ts) 2)) a s1"
      "operator_ptr s1 = operator_ptr s + 1" "expr_ptr s1 = expr_ptr s"
  shows "wp (foldM (\<lambda>acc i. join x i acc) a [2 ..< length ts])
    (\<lambda>r s'. grown (set (concat (map addrs ts))) s (annot tm (nest (KP kind (map kp ts)))) r s' \<and>
       operator_ptr s' + 1 = operator_ptr s + length ts \<and> expr_ptr s' = expr_ptr s) E s1"
proof (rule wp_foldM [where I = "\<lambda>j r s'. grown (used ts (j + 2)) s (annot tm (nested (map kp ts) (j + 2))) r s' \<and>
       operator_ptr s' = operator_ptr s + j + 1 \<and> expr_ptr s' = expr_ptr s"])
  fix j r s2
  assume j: "j < length [2 ..< length ts]"
    and I: "grown (used ts (j + 2)) s (annot tm (nested (map kp ts) (j + 2))) r s2 \<and>
       operator_ptr s2 = operator_ptr s + j + 1 \<and> expr_ptr s2 = expr_ptr s"
  let ?i = "j + 2"
  have i: "?i < length ts" "[2 ..< length ts] ! j = ?i" using j by auto
  have oc: "only_changes (used ts ?i) s s2" using I by (simp add: grown_def)
  obtain t where t: "plan_at s2 r t" "shape t = annot tm (nested (map kp ts) ?i)"
      "\<forall>a\<in>set (addrs t). a \<in> used ts ?i \<or> operator_ptr s \<le> a"
    using I by (auto simp: grown_def)
  let ?b = "ts ! ?i"
  have b: "placed s (Some x) (paddr ?b) ?b" "coherent tm (shape ?b)" using ts(1) co i by auto
  have disj: "used ts ?i \<inter> set (addrs ?b) = {}" using ts(2) i(1) by (rule used_disjoint)
  then have b2: "placed s2 (Some x) (paddr ?b) ?b"
    using plan_at_frame [OF b(1) oc] by (simp add: Int_commute)
  have xb: "x \<notin> set (addrs ?b)" "x \<notin> used ts ?i"
    using ts(5) i(1) used_subset [of ts ?i] by auto
  have hx: "opHeap s2 x = opHeap s x" using oc xb(2) ts(4) by (simp add: only_changes_def)
  have kt: "kp t = nested (map kp ts) ?i" by (simp add: t(2))
  have "concat (map (kattrs tm \<circ> kp) ts) = concat (map (kattrs tm \<circ> kp) (take ?i ts)) @
      kattrs tm (kp ?b) @ concat (map (kattrs tm \<circ> kp) (drop (Suc ?i) ts))"
    by (metis (no_types, lifting) i(1) comp_apply concat.simps(2) concat_append id_take_nth_drop list.simps(9) map_append)
  then have w: "length (kattrs tm (kp t)) + length (kattrs tm (kp ?b)) \<le> MAX_ATTRS"
    using width i(1) by (simp add: kt nested_attrs take_map)
  have "wp (join x ?i r) (\<lambda>r' s'. grown (set (addrs t) \<union> set (addrs ?b)) s2 (annot tm (KP kind [kp t, kp ?b])) r' s' \<and>
        operator_ptr s' = operator_ptr s2 + 1 \<and> expr_ptr s' = expr_ptr s2) E s2"
  proof (rule join_wp [OF t(1) b2 _ _ b(2) w])
    show "set (addrs t) \<inter> set (addrs ?b) = {}"
      using t(3) disj b(1) by (force simp: placed_def)
    show "coherent tm (shape t)" by (simp add: t(2))
    show "x \<notin> set (addrs t) \<union> set (addrs ?b)" using t(3) xb ts(4) by force
  qed (use I n i ts hx in auto)
  then have "wp (join x ?i r) (\<lambda>r' s'. grown (used ts (Suc ?i)) s (annot tm (nested (map kp ts) (Suc ?i))) r' s' \<and>
        operator_ptr s' = operator_ptr s + Suc j + 1 \<and> expr_ptr s' = expr_ptr s) E s2"
  proof (rule wp_mono)
    fix r' s'
    assume g: "grown (set (addrs t) \<union> set (addrs ?b)) s2 (annot tm (KP kind [kp t, kp ?b])) r' s' \<and>
        operator_ptr s' = operator_ptr s2 + 1 \<and> expr_ptr s' = expr_ptr s2"
    have "grown (used ts (Suc ?i)) s (annot tm (KP kind [kp t, kp ?b])) r' s'"
    proof (rule grown_step)
      show "only_changes (used ts (Suc ?i)) s s2"
        using oc i(1) by (auto simp: only_changes_def used_Suc)
      show "grown (set (addrs t) \<union> set (addrs ?b)) s2 (annot tm (KP kind [kp t, kp ?b])) r' s'" using g by simp
      show "\<forall>a\<in>set (addrs t) \<union> set (addrs ?b). a \<in> used ts (Suc ?i) \<or> operator_ptr s \<le> a"
        using t(3) i(1) by (auto simp: used_Suc)
    qed
    moreover have "nested (map kp ts) (Suc ?i) = KP kind [kp t, kp ?b]"
      using i(1) by (simp add: nested_Suc kt)
    ultimately show "grown (used ts (Suc ?i)) s (annot tm (nested (map kp ts) (Suc ?i))) r' s' \<and>
        operator_ptr s' = operator_ptr s + Suc j + 1 \<and> expr_ptr s' = expr_ptr s"
      using g I by simp
  qed simp
  then show "wp (join x ([2 ..< length ts] ! j) r)
      (\<lambda>r' s'. grown (used ts (Suc j + 2)) s (annot tm (nested (map kp ts) (Suc j + 2))) r' s' \<and>
        operator_ptr s' = operator_ptr s + Suc j + 1 \<and> expr_ptr s' = expr_ptr s) E s2"
    using i(2) by simp
next
  show "grown (used ts (0 + 2)) s (annot tm (nested (map kp ts) (0 + 2))) a s1 \<and>
       operator_ptr s1 = operator_ptr s + 0 + 1 \<and> expr_ptr s1 = expr_ptr s"
    using start by (simp only: add_0 add_0_right simp_thms)
next
  fix r s'
  assume "grown (used ts (length [2 ..< length ts] + 2)) s
       (annot tm (nested (map kp ts) (length [2 ..< length ts] + 2))) r s' \<and>
       operator_ptr s' = operator_ptr s + length [2 ..< length ts] + 1 \<and> expr_ptr s' = expr_ptr s"
  moreover have "length [2 ..< length ts] + 2 = length ts" using n(1) by simp
  moreover have "used ts (length ts) = set (concat (map addrs ts))"
    "nested (map kp ts) (length ts) = nest (KP kind (map kp ts))"
    by (simp_all add: used_def nested_def)
  ultimately show "grown (set (concat (map addrs ts))) s (annot tm (nest (KP kind (map kp ts)))) r s' \<and>
       operator_ptr s' + 1 = operator_ptr s + length ts \<and> expr_ptr s' = expr_ptr s"
    using n(1) by simp
qed

text \<open>Nesting keeps the schema, the stream flag and the well-formedness.\<close>

lemma nested_keeps:
  assumes "2 \<le> i" and "i \<le> length ks" and "kplan_ok tm (KP kind ks)"
  shows "kplan_ok tm (nested ks i) \<and> kstream (nested ks i) = out_stream kind (map kstream (take i ks))"
  using assms(1,2)
proof (induction i rule: dec_induct)
  case base
  then obtain x y zs where ks: "ks = x # y # zs" by (cases ks; cases "tl ks") auto
  have two: "2 \<le> MAX_INPUT_OPS" by (simp add: MAX_INPUT_OPS_def)
  then show ?case
    using assms(3) by (simp add: ks nested_def kind_attrs kind_ok numeral_2_eq_2 split del: if_split)
next
  case (step i)
  have "concat (map (kattrs tm) ks) = concat (map (kattrs tm) (take (Suc i) ks)) @ concat (map (kattrs tm) (drop (Suc i) ks))"
    by (metis append_take_drop_id concat_append map_append)
  then have "length (concat (map (kattrs tm) (take (Suc i) ks))) \<le> MAX_ATTRS"
    using assms(3) by (simp add: kind_attrs)
  moreover have "kattrs tm (nested ks (Suc i)) = concat (map (kattrs tm) (take (Suc i) ks))"
    using step by (intro nested_attrs) auto
  moreover have "kplan_ok tm (ks ! i)" using assms(3) step by simp
  moreover have "2 \<le> MAX_INPUT_OPS" by (simp add: MAX_INPUT_OPS_def)
  ultimately show ?case
    using step kind_stream [of "map kstream (take i ks)" "kstream (ks ! i)"]
    by (simp add: nested_Suc kind_attrs kind_ok take_Suc_conv_app_nth)
qed

lemma nest_keeps:
  assumes "kplan_ok tm (KP kind ks)"
  shows "keeps tm (KP kind ks) (nest (KP kind ks))"
proof -
  have n: "2 \<le> length ks" using assms by (simp add: kind_ok)
  have "nest (KP kind ks) = nested ks (length ks)" by (simp add: nested_def)
  then show ?thesis
    using nested_keeps [OF n order_refl assms] nested_attrs [OF n order_refl]
    by (simp add: keeps_def kind_attrs)
qed

end

text \<open>A plan grown from operators of the hole is ready to take its place.\<close>

lemma grown_ready:
  assumes pl: "plan_at s p (plug c u)" and g: "grown A s l r s'" and A: "A \<subseteq> set (addrs u)"
  obtains t' where "shape t' = l" and "paddr t' = r"
    and "\<And>a. a < operator_ptr s \<Longrightarrow> a \<notin> A \<Longrightarrow> opHeap s' a = opHeap s a"
    and "ctx_ready (s'\<lparr>opHeap := (opHeap s')(r := (opHeap s' r)\<lparr>loutput := ctx_out None c\<rparr>)\<rparr>) c (paddr u) t'"
proof -
  note d = placed_plugD [OF pl]
  obtain t' where t': "plan_at s' r t'" "shape t' = l" "\<forall>b\<in>set (addrs t'). b \<in> A \<or> operator_ptr s \<le> b"
    and oc: "only_changes A s s'"
    using g by (auto simp: grown_def)
  let ?h = "(opHeap s')(r := (opHeap s' r)\<lparr>loutput := ctx_out None c\<rparr>)"
  have c: "b < operator_ptr s" "b \<notin> A" "b \<notin> set (addrs t')" if "b \<in> set (caddrs c)" for b
  proof -
    show lt: "b < operator_ptr s" using that d(7) [of b] by auto
    show nin: "b \<notin> A" using that d(6) A by auto
    show "b \<notin> set (addrs t')" using t'(3) lt nin by force
  qed
  have r: "r = paddr t'" using t'(1) by (simp add: placed_def)
  have h: "opHeap s' b = opHeap s b" if "b < operator_ptr s" "b \<notin> A" for b
    using oc that by (simp add: only_changes_def)
  have "r \<notin> set (caddrs c)" using r c(3) by (metis paddr_in_addrs)
  then have "ctx_rep ?h None c (paddr u)"
    using d(1) h c by (subst ctx_rep_cong [of c ?h "opHeap s"]) auto
  moreover have "rep ?h (ctx_out None c) t'"
    using t'(1) r by (auto simp: placed_def intro!: rep_set_output)
  ultimately have "ctx_ready (s'\<lparr>opHeap := ?h\<rparr>) c (paddr u) t'"
    using d(4) c t'(1) oc by (fastforce simp: ctx_ready_def placed_def only_changes_def)
  then show thesis using that t'(2) r h by blast
qed

context joiner
begin

lemma binary_wp:
  assumes pl: "plan_at s p (plug c (PT x i ts))" and co: "coherent tm (shape (plug c (PT x i ts)))"
    and k: "lkind i = kind" and ch: "chain ps c" and ok: "kplan_ok tm (KP kind (map kp ts))"
    and n: "operator_ptr s + MAX_INPUT_OPS \<le> MAXOPERATOR"
    and first: "wp first (\<lambda>r s'. grown (set (addrs (ts ! 0)) \<union> set (addrs (ts ! 1))) s
        (annot tm (KP kind [kp (ts ! 0), kp (ts ! 1)])) r s' \<and>
        operator_ptr s' = operator_ptr s + 1 \<and> expr_ptr s' = expr_ptr s) E s"
  shows "wp (bindM first (\<lambda>b. bindM (foldM (\<lambda>acc i. join x i acc) b [2 ..< length ts])
      (\<lambda>bc. bindM (getOp x) (\<lambda>ob. seqM (setOutput bc (loutput ob)) (replaceOp p (loutput ob) bc)))))
    (\<lambda>p' s'. kplan_at tm s' p' (kplug (kctx_of c) (nest (KP kind (map kp ts)))) \<and>
       operator_ptr s' \<le> operator_ptr s + MAX_INPUT_OPS \<and> expr_ptr s' = expr_ptr s) E s"
proof (rule wp_bindI [OF first])
  note d = placed_plugD [OF pl]
  have len: "2 \<le> length ts" "length ts \<le> MAX_INPUT_OPS" using ok by (simp_all add: kind_ok)
  obtain t0 t1 ts' where ts: "ts = t0 # t1 # ts'" using len(1) by (cases ts; cases "tl ts") auto
  have kps: "map (kattrs tm) (map kp ts) = map (kattrs tm \<circ> kp) ts" by simp
  fix b s1
  assume s1: "grown (set (addrs (ts ! 0)) \<union> set (addrs (ts ! 1))) s
        (annot tm (KP kind [kp (ts ! 0), kp (ts ! 1)])) b s1 \<and>
        operator_ptr s1 = operator_ptr s + 1 \<and> expr_ptr s1 = expr_ptr s"
  have "wp (foldM (\<lambda>acc i. join x i acc) b [2 ..< length ts])
    (\<lambda>r s'. grown (set (concat (map addrs ts))) s (annot tm (nest (KP kind (map kp ts)))) r s' \<and>
       operator_ptr s' + 1 = operator_ptr s + length ts \<and> expr_ptr s' = expr_ptr s) E s1"
  proof (rule nest_wp)
    show "\<forall>t\<in>set ts. placed s (Some x) (paddr t) t"
      using d(2,5,7) by (auto simp: placed_def distinct_concat_iff)
    show "distinct (concat (map addrs ts))" "x \<notin> set (concat (map addrs ts))" using d(5) by auto
    show "linputs (opHeap s x) = map paddr ts" using d(2) by simp
    show "x < operator_ptr s" using d(7) by simp
    show "\<forall>t\<in>set ts. coherent tm (shape t)" using coherent_hole [OF co] by simp
    show "length (concat (map (kattrs tm \<circ> kp) ts)) \<le> MAX_ATTRS"
      using ok by (simp add: kind_attrs)
    show "2 \<le> length ts" "operator_ptr s + length ts \<le> MAXOPERATOR" using len n by simp_all
    show "grown (used ts 2) s (annot tm (nested (map kp ts) 2)) b s1"
      using s1 by (simp add: ts used_def nested_def numeral_2_eq_2 del: annot.simps)
  qed (use s1 in auto)
  then have "wp (foldM (\<lambda>acc i. join x i acc) b [2 ..< length ts])
    (\<lambda>bc s'. wp (bindM (getOp x) (\<lambda>ob. seqM (setOutput bc (loutput ob)) (replaceOp p (loutput ob) bc)))
      (\<lambda>p' s'. kplan_at tm s' p' (kplug (kctx_of c) (nest (KP kind (map kp ts)))) \<and>
       operator_ptr s' \<le> operator_ptr s + MAX_INPUT_OPS \<and> expr_ptr s' = expr_ptr s) E s') E s1"
  proof (rule wp_mono)
    fix bc s2
    assume s2: "grown (set (concat (map addrs ts))) s (annot tm (nest (KP kind (map kp ts)))) bc s2 \<and>
       operator_ptr s2 + 1 = operator_ptr s + length ts \<and> expr_ptr s2 = expr_ptr s"
    obtain t' where t': "shape t' = annot tm (nest (KP kind (map kp ts)))" "paddr t' = bc" "opHeap s2 x = opHeap s x"
        "ctx_ready (s2\<lparr>opHeap := (opHeap s2)(bc := (opHeap s2 bc)\<lparr>loutput := ctx_out None c\<rparr>)\<rparr>) c x t'"
    proof (rule grown_ready [OF pl conjunct1 [OF s2]])
      show "set (concat (map addrs ts)) \<subseteq> set (addrs (PT x i ts))" by auto
      fix t'
      assume "shape t' = annot tm (nest (KP kind (map kp ts)))" "paddr t' = bc"
        and h: "\<And>a. a < operator_ptr s \<Longrightarrow> a \<notin> set (concat (map addrs ts)) \<Longrightarrow> opHeap s2 a = opHeap s a"
        and "ctx_ready (s2\<lparr>opHeap := (opHeap s2)(bc := (opHeap s2 bc)\<lparr>loutput := ctx_out None c\<rparr>)\<rparr>) c (paddr (PT x i ts)) t'"
      then show thesis using that d(5,7) by simp
    qed
    have "keeps tm (KP kind (map kp ts)) (nest (KP kind (map kp ts)))" by (rule nest_keeps [OF ok])
    then have same: "outAttrs (lroot (shape t')) = outAttrs (lroot (shape (PT x i ts)))"
        "bStream (lroot (shape t')) = bStream (lroot (shape (PT x i ts)))"
      using coherent_attrs [OF coherent_hole [OF co]] coherent_stream [OF coherent_hole [OF co]] k
      by (simp_all add: t'(1) keeps_def comp_def)
    have "coherent tm (shape t')" by (simp add: t'(1))
    then have "coherent tm (shape (plug c t'))"
      using coherent_plug [OF co _ same] by blast
    moreover have "loutput (opHeap s x) = ctx_out None c" using d(2) by simp
    moreover have "wp (replaceOp p (ctx_out None c) (paddr t'))
      (\<lambda>p' s'. kplan_at tm s' p' (kplug (kctx_of c) (nest (KP kind (map kp ts)))) \<and>
       operator_ptr s' \<le> operator_ptr s + MAX_INPUT_OPS \<and> expr_ptr s' = expr_ptr s) E
      (s2\<lparr>opHeap := (opHeap s2)(bc := (opHeap s2 bc)\<lparr>loutput := ctx_out None c\<rparr>)\<rparr>)"
      if "coherent tm (shape (plug c t'))"
    proof (rule replaceOp_wp [OF t'(4) ch])
      show "p = ctx_root c x" using d(3) by simp
    qed (use that s2 len in \<open>auto simp: t'(1) kp_plug intro: kplan_atI\<close>)
    ultimately show "wp (bindM (getOp x) (\<lambda>ob. seqM (setOutput bc (loutput ob)) (replaceOp p (loutput ob) bc)))
      (\<lambda>p' s'. kplan_at tm s' p' (kplug (kctx_of c) (nest (KP kind (map kp ts)))) \<and>
       operator_ptr s' \<le> operator_ptr s + MAX_INPUT_OPS \<and> expr_ptr s' = expr_ptr s) E s2"
      using t'(2,3) by simp
  qed simp
  then show "wp (bindM (foldM (\<lambda>acc i. join x i acc) b [2 ..< length ts])
      (\<lambda>bc. bindM (getOp x) (\<lambda>ob. seqM (setOutput bc (loutput ob)) (replaceOp p (loutput ob) bc))))
    (\<lambda>p' s'. kplan_at tm s' p' (kplug (kctx_of c) (nest (KP kind (map kp ts)))) \<and>
       operator_ptr s' \<le> operator_ptr s + MAX_INPUT_OPS \<and> expr_ptr s' = expr_ptr s) E s1"
    by simp
qed simp

end

section \<open>Cross products\<close>

lemma nonNull_Some [simp]: "nonNull (Some p) = retM p"
  by (simp add: nonNull_def)

text \<open>The next input of a join under construction.\<close>

lemma grown_next:
  assumes "grown A s l c s1" and "placed s q p t" and "A \<inter> set (addrs t) = {}"
  obtains tc where "plan_at s1 c tc" and "shape tc = l" and "placed s1 q p t"
    and "set (addrs tc) \<inter> set (addrs t) = {}"
    and "\<And>l' c' s'. grown (set (addrs tc) \<union> set (addrs t)) s1 l' c' s' \<Longrightarrow> grown (A \<union> set (addrs t)) s l' c' s'"
proof -
  obtain tc where tc: "plan_at s1 c tc" "shape tc = l" "\<forall>a\<in>set (addrs tc). a \<in> A \<or> operator_ptr s \<le> a"
    and oc: "only_changes A s s1"
    using assms(1) by (auto simp: grown_def)
  show thesis
  proof (rule that [OF tc(1,2)])
    show "placed s1 q p t" using grown_frame [OF assms(1,2)] assms(3) by blast
    show "set (addrs tc) \<inter> set (addrs t) = {}"
      using tc(3) assms(2,3) by (fastforce simp: placed_def)
    fix l' c' s' assume g: "grown (set (addrs tc) \<union> set (addrs t)) s1 l' c' s'"
    have "only_changes (A \<union> set (addrs t)) s s1" using oc by (auto simp: only_changes_def)
    then show "grown (A \<union> set (addrs t)) s l' c' s'"
      by (rule grown_step [OF _ _ g]) (use tc(3) in auto)
  qed
qed

lemma cross_next_wp:
  assumes "grown A s l c s1" and "placed s q p t" and "A \<inter> set (addrs t) = {}"
    and "length (outAttrs (lroot l)) + length (outAttrs (lroot (shape t))) \<le> MAX_ATTRS"
    and "length (lsubs l) < MAX_INPUT_OPS"
  shows "wp (cross_add_input c p) (\<lambda>r s'. r = Some c \<and>
      grown (A \<union> set (addrs t)) s (lp_cross_add l (shape t)) c s' \<and>
      operator_ptr s' = operator_ptr s1 \<and> expr_ptr s' = expr_ptr s1) E s1"
proof -
  obtain tc where tc: "plan_at s1 c tc" "shape tc = l" "placed s1 q p t"
      "set (addrs tc) \<inter> set (addrs t) = {}"
      "\<And>l' c' s'. grown (set (addrs tc) \<union> set (addrs t)) s1 l' c' s' \<Longrightarrow> grown (A \<union> set (addrs t)) s l' c' s'"
    using assms(1-3) by (rule grown_next) blast
  show ?thesis
    by (rule wp_mono [OF cross_add_input_wp [OF tc(1,3,4)]])
      (use assms(4,5) tc(2,5) in \<open>auto simp: changed_def\<close>)
qed

lemma stream_next_wp:
  assumes "grown A s l c s1" and "placed s q p t" and "A \<inter> set (addrs t) = {}"
    and "length (outAttrs (lroot l)) + length (outAttrs (lroot (shape t))) \<le> MAX_ATTRS"
    and "length (lsubs l) < MAX_INPUT_OPS"
  shows "wp (stream_cross_add_input c p) (\<lambda>r s'. r = Some c \<and>
      grown (A \<union> set (addrs t)) s (lp_stream_add l (shape t)) c s' \<and>
      operator_ptr s' = operator_ptr s1 \<and> expr_ptr s' = expr_ptr s1) E s1"
proof -
  obtain tc where tc: "plan_at s1 c tc" "shape tc = l" "placed s1 q p t"
      "set (addrs tc) \<inter> set (addrs t) = {}"
      "\<And>l' c' s'. grown (set (addrs tc) \<union> set (addrs t)) s1 l' c' s' \<Longrightarrow> grown (A \<union> set (addrs t)) s l' c' s'"
    using assms(1-3) by (rule grown_next) blast
  show ?thesis
    by (rule wp_mono [OF stream_cross_add_input_wp [OF tc(1,3,4)]])
      (use assms(4,5) tc(2,5) in \<open>auto simp: changed_def\<close>)
qed

text \<open>The first two inputs; \<open>G\<close> is the expression that yields the left one.\<close>

definition cross_pair :: "(lstate, nat) comp \<Rightarrow> nat \<Rightarrow> nat \<Rightarrow> (lstate, nat) comp" where
  "cross_pair G x i =
    bindM mk_cross (\<lambda>p. bindM (nonNull p) (\<lambda>p. bindM G (\<lambda>a.
    bindM (cross_add_input p a) (\<lambda>p. bindM (nonNull p) (\<lambda>p.
    bindM (inputAt x i) (\<lambda>b. bindM (cross_add_input p b) nonNull))))))"

definition stream_pair :: "nat \<Rightarrow> nat \<Rightarrow> nat \<Rightarrow> (lstate, nat) comp" where
  "stream_pair x i a =
    bindM (mk_stream_cross a) (\<lambda>p. bindM (nonNull p) (\<lambda>p.
    bindM (inputAt x i) (\<lambda>b. bindM (stream_cross_add_input p b) nonNull)))"

lemma cross_pair_wp:
  assumes "placed s qa a ta" and "placed s qb b tb" and "set (addrs ta) \<inter> set (addrs tb) = {}"
    and co: "coherent tm (shape ta)" "coherent tm (shape tb)"
    and w: "length (kattrs tm (kp ta)) + length (kattrs tm (kp tb)) \<le> MAX_ATTRS"
    and n: "operator_ptr s < MAXOPERATOR" "x < operator_ptr s" "x \<notin> set (addrs ta) \<union> set (addrs tb)"
    and i: "i < length (linputs (opHeap s x))" "linputs (opHeap s x) ! i = b"
    and G: "\<And>s' Q. only_changes {} s s' \<Longrightarrow> wp G Q E s' = Q a s'"
  shows "wp (cross_pair G x i) (\<lambda>r s'. grown (set (addrs ta) \<union> set (addrs tb)) s (annot tm (KP LO_CROSS [kp ta, kp tb])) r s' \<and>
        operator_ptr s' = operator_ptr s + 1 \<and> expr_ptr s' = expr_ptr s) E s"
  unfolding cross_pair_def
proof (rule wp_bindI [OF mk_cross_wp [where A = "{}"]])
  fix r s1 assume "built {} s lp_cross r s1"
  then obtain c where c: "r = Some c" "grown {} s lp_cross c s1" "operator_ptr s1 = operator_ptr s + 1"
      "expr_ptr s1 = expr_ptr s"
    using n(1) by (auto simp: built_def split: option.splits)
  have g1: "wp G Q E s1 = Q a s1" for Q using c(2) by (intro G) (simp add: grown_def)
  have at: "outAttrs (lroot (shape ta)) = kattrs tm (kp ta)" "outAttrs (lroot (shape tb)) = kattrs tm (kp tb)"
    using coherent_attrs co by blast+
  have "lp_cross_add (lp_cross_add lp_cross (shape ta)) (shape tb) = annot tm (KP LO_CROSS [kp ta, kp tb])"
    using foldl_cross_annot [of tm "[kp ta, kp tb]"] co by (simp add: annot_skel)
  note annot2 = this
  have "wp (cross_add_input c a) (\<lambda>r s2. wp (nonNull r) (\<lambda>p s2. wp (inputAt x i) (\<lambda>b s2. wp (cross_add_input p b)
      (\<lambda>r s3. wp (nonNull r) (\<lambda>r s'. grown (set (addrs ta) \<union> set (addrs tb)) s (annot tm (KP LO_CROSS [kp ta, kp tb])) r s' \<and>
        operator_ptr s' = operator_ptr s + 1 \<and> expr_ptr s' = expr_ptr s) E s3) E s2) E s2) E s2) E s1"
  proof (rule wp_mono [OF cross_next_wp [OF c(2) assms(1)]])
    fix r s2
    assume s2: "r = Some c \<and> grown ({} \<union> set (addrs ta)) s (lp_cross_add lp_cross (shape ta)) c s2 \<and>
      operator_ptr s2 = operator_ptr s1 \<and> expr_ptr s2 = expr_ptr s1"
    then have g2: "grown (set (addrs ta)) s (lp_cross_add lp_cross (shape ta)) c s2" by simp
    have hx: "opHeap s2 x = opHeap s x" using g2 n by (simp add: grown_def only_changes_def)
    have "wp (cross_add_input c b)
      (\<lambda>r s3. wp (nonNull r) (\<lambda>r s'. grown (set (addrs ta) \<union> set (addrs tb)) s (annot tm (KP LO_CROSS [kp ta, kp tb])) r s' \<and>
        operator_ptr s' = operator_ptr s + 1 \<and> expr_ptr s' = expr_ptr s) E s3) E s2"
      by (rule wp_mono [OF cross_next_wp [OF g2 assms(2,3)]])
        (use w at annot2 s2 c in \<open>auto simp: lp_cross_def MAX_INPUT_OPS_def\<close>)
    then show "wp (nonNull r) (\<lambda>p s2. wp (inputAt x i) (\<lambda>b s2. wp (cross_add_input p b)
      (\<lambda>r s3. wp (nonNull r) (\<lambda>r s'. grown (set (addrs ta) \<union> set (addrs tb)) s (annot tm (KP LO_CROSS [kp ta, kp tb])) r s' \<and>
        operator_ptr s' = operator_ptr s + 1 \<and> expr_ptr s' = expr_ptr s) E s3) E s2) E s2) E s2"
      using s2 hx i by simp
  qed (use w at in \<open>auto simp: lp_cross_def MAX_INPUT_OPS_def\<close>)
  then show "wp (bindM (nonNull r) (\<lambda>p. bindM G (\<lambda>a. bindM (cross_add_input p a) (\<lambda>p. bindM (nonNull p) (\<lambda>p.
    bindM (inputAt x i) (\<lambda>b. bindM (cross_add_input p b) nonNull))))))
     (\<lambda>r s'. grown (set (addrs ta) \<union> set (addrs tb)) s (annot tm (KP LO_CROSS [kp ta, kp tb])) r s' \<and>
        operator_ptr s' = operator_ptr s + 1 \<and> expr_ptr s' = expr_ptr s) E s1"
    using c(1) g1 by simp
qed simp

lemma stream_add_annot:
  assumes "coherent tm l" and "lkind (lroot l) = LO_STREAM_CROSS" and "coherent tm t"
  shows "lp_stream_add l t = annot tm (KP LO_STREAM_CROSS (ksubs (skel l) @ [skel t]))"
proof (cases l)
  case (LP j ts)
  have at: "map (kattrs tm \<circ> skel) ts = map (outAttrs \<circ> lroot) ts"
    using assms(1) LP coherent_attrs by auto
  have j: "j = node_info tm LO_STREAM_CROSS (map lroot ts)" using assms(1,2) LP by simp
  have "j\<lparr>outAttrs := outAttrs j @ outAttrs (lroot t)\<rparr> = node_info tm LO_STREAM_CROSS (map lroot (ts @ [t]))"
    using arg_cong [OF j, of lkind] arg_cong [OF j, of outAttrs] arg_cong [OF j, of bStream]
    by (intro linfo.equality) simp_all
  then have "coherent tm (lp_stream_add l t)"
    using assms LP by simp
  then have "lp_stream_add l t = annot tm (skel (lp_stream_add l t))"
    by (rule annot_skel [symmetric])
  then show ?thesis using LP assms(2) by simp
qed

lemma stream_pair_wp:
  assumes "placed s qa a ta" and "placed s qb b tb" and "set (addrs ta) \<inter> set (addrs tb) = {}"
    and co: "coherent tm (shape ta)" "coherent tm (shape tb)"
    and w: "length (kattrs tm (kp ta)) + length (kattrs tm (kp tb)) \<le> MAX_ATTRS"
    and n: "operator_ptr s < MAXOPERATOR" "x < operator_ptr s" "x \<notin> set (addrs ta) \<union> set (addrs tb)"
    and i: "i < length (linputs (opHeap s x))" "linputs (opHeap s x) ! i = b"
  shows "wp (stream_pair x i a) (\<lambda>r s'. grown (set (addrs ta) \<union> set (addrs tb)) s (annot tm (KP LO_STREAM_CROSS [kp ta, kp tb])) r s' \<and>
        operator_ptr s' = operator_ptr s + 1 \<and> expr_ptr s' = expr_ptr s) E s"
  unfolding stream_pair_def
proof (rule wp_bindI [OF unary_constructors_wp(10) [OF assms(1)]])
  let ?l = "lp_unary LO_STREAM_CROSS (\<lambda>_. True) (shape ta)"
  fix r s1 assume "built (set (addrs ta)) s ?l r s1"
  then obtain c where c: "r = Some c" "grown (set (addrs ta)) s ?l c s1" "operator_ptr s1 = operator_ptr s + 1"
      "expr_ptr s1 = expr_ptr s"
    using n(1) by (auto simp: built_def split: option.splits)
  have l: "?l = annot tm (KP LO_STREAM_CROSS [kp ta])"
    using lp_unary_annot [of tm LO_STREAM_CROSS "kp ta" "\<lambda>_. True"] co(1) by (simp add: annot_skel)
  have hx: "opHeap s1 x = opHeap s x" using c(2) n by (simp add: grown_def only_changes_def)
  have at: "outAttrs (lroot (shape tb)) = kattrs tm (kp tb)"
    using coherent_attrs co by blast
  have annot2: "lp_stream_add ?l (shape tb) = annot tm (KP LO_STREAM_CROSS [kp ta, kp tb])"
    using stream_add_annot [OF _ _ co(2), of ?l] by (simp add: l del: annot.simps)
  have la: "outAttrs (lroot ?l) = kattrs tm (kp ta)" "length (lsubs ?l) = 1"
    by (simp_all add: l del: annot.simps) simp
  have "wp (stream_cross_add_input c b)
      (\<lambda>r s3. wp (nonNull r) (\<lambda>r s'. grown (set (addrs ta) \<union> set (addrs tb)) s (annot tm (KP LO_STREAM_CROSS [kp ta, kp tb])) r s' \<and>
        operator_ptr s' = operator_ptr s + 1 \<and> expr_ptr s' = expr_ptr s) E s3) E s1"
  proof (rule wp_mono [OF stream_next_wp [OF c(2) assms(2,3)]])
    show "length (outAttrs (lroot ?l)) + length (outAttrs (lroot (shape tb))) \<le> MAX_ATTRS"
      by (simp only: la at w)
    show "length (lsubs ?l) < MAX_INPUT_OPS" by (simp only: la MAX_INPUT_OPS_def)
    fix r' s'
    assume "r' = Some c \<and> grown (set (addrs ta) \<union> set (addrs tb)) s (lp_stream_add ?l (shape tb)) c s' \<and>
        operator_ptr s' = operator_ptr s1 \<and> expr_ptr s' = expr_ptr s1"
    then show "wp (nonNull r') (\<lambda>r s'. grown (set (addrs ta) \<union> set (addrs tb)) s (annot tm (KP LO_STREAM_CROSS [kp ta, kp tb])) r s' \<and>
        operator_ptr s' = operator_ptr s + 1 \<and> expr_ptr s' = expr_ptr s) E s'"
      using c(3,4) by (simp only: annot2 nonNull_Some wp_retM conj_assoc simp_thms)
  qed simp
  then show "wp (bindM (nonNull r) (\<lambda>p. bindM (inputAt x i) (\<lambda>b. bindM (stream_cross_add_input p b) nonNull)))
     (\<lambda>r s'. grown (set (addrs ta) \<union> set (addrs tb)) s (annot tm (KP LO_STREAM_CROSS [kp ta, kp tb])) r s' \<and>
        operator_ptr s' = operator_ptr s + 1 \<and> expr_ptr s' = expr_ptr s) E s1"
    using c(1) hx i by simp
qed simp

interpretation cross_join: joiner LO_CROSS "\<lambda>x i a. cross_pair (retM a) x i"
  by unfold_locales (rule cross_pair_wp, simp_all)


interpretation stream_join: joiner LO_STREAM_CROSS stream_pair
  by unfold_locales (rule stream_pair_wp, simp_all)

section \<open>The transformations\<close>

lemma is_cross_abs: "is_cross = (\<lambda>k. k = LO_CROSS)" "is_scross = (\<lambda>k. k = LO_STREAM_CROSS)"
  by (simp_all add: is_cross_def [abs_def] is_scross_def [abs_def])

lemma nest_two: "length ts = 2 \<Longrightarrow> nest (KP k ts) = KP k ts"
  by (cases ts; cases "tl ts") auto

text \<open>The inputs of an operator of a plan in the pool.\<close>

lemma plug_inputs:
  assumes "plan_at s p (plug c (PT x i ts))" and "coherent tm (shape (plug c (PT x i ts)))"
    and "a < length ts" and "b < length ts" and "a \<noteq> b"
  shows "placed s (Some x) (paddr (ts ! a)) (ts ! a)" and "coherent tm (shape (ts ! a))"
    and "set (addrs (ts ! a)) \<inter> set (addrs (ts ! b)) = {}" and "x < operator_ptr s" and "x \<notin> set (addrs (ts ! a))"
    and "linputs (opHeap s x) = map paddr ts"
proof -
  note d = placed_plugD [OF assms(1)]
  have "\<forall>t\<in>set ts. placed s (Some x) (paddr t) t"
    using d(2,5,7) by (auto simp: placed_def distinct_concat_iff)
  then show "placed s (Some x) (paddr (ts ! a)) (ts ! a)" using assms(3) by simp
  show "coherent tm (shape (ts ! a))" using coherent_hole [OF assms(2)] assms(3) by simp
  show "x < operator_ptr s" "x \<notin> set (addrs (ts ! a))" "linputs (opHeap s x) = map paddr ts"
    using d(2,5,7) assms(3) by auto
  have "removeAll [] (map addrs ts) = map addrs ts" by (intro removeAll_id) (metis addrs_nonempty imageE list.set_map)
  moreover have "distinct (concat (map addrs ts))" using d(5) by simp
  ultimately have dd: "distinct (map addrs ts)"
    "\<forall>xs ys. xs \<in> set (map addrs ts) \<and> ys \<in> set (map addrs ts) \<and> xs \<noteq> ys \<longrightarrow> set xs \<inter> set ys = {}"
    unfolding distinct_concat_iff by simp_all
  have "map addrs ts ! a \<noteq> map addrs ts ! b"
    using assms(3-5) dd(1) by (simp only: nth_eq_iff_index_eq length_map) simp
  then show "set (addrs (ts ! a)) \<inter> set (addrs (ts ! b)) = {}"
    using assms(3,4) dd(2) by simp
qed

lemma t_makeCrossBinary_wp:
  assumes "kplan_at tm s p K" and "kplan_ok tm K" and "operator_ptr s + MAX_INPUT_OPS \<le> MAXOPERATOR"
  shows "wp (t_makeCrossBinary p) (\<lambda>p' s'. kplan_at tm s' p' (kp_crossBinary K) \<and>
      operator_ptr s' \<le> operator_ptr s + MAX_INPUT_OPS \<and> expr_ptr s' = expr_ptr s) E s"
proof -
  obtain t where t: "plan_at s p t" "coherent tm (shape t)" "kp t = K"
    using assms(1) by (rule kplan_atE)
  have "operator_ptr s \<le> MAXOPERATOR" using assms(3) by simp
  with t(1) assms(2) [folded t(3)] one_input_kinds(4) show ?thesis
  proof (cases rule: walk_cases [where tg = is_cross])
    case none
    then show ?thesis
      using t assms(1) by (simp add: t_makeCrossBinary_def is_cross_abs kp_crossBinary_def)
  next
    case (found c u)
    obtain x i ts where u: "u = PT x i ts" by (cases u)
    note pl = t(1) [unfolded found(1) u] and co = t(2) [unfolded found(1) u]
    have k: "lkind i = LO_CROSS" using found(3) u by (simp add: is_cross_abs)
    have new: "kp_crossBinary K = kplug (kctx_of c) (nest (KP LO_CROSS (map kp ts)))"
      using found(6) t(3) u k by (simp add: kp_crossBinary_def comp_def)
    have ok: "kplan_ok tm (KP LO_CROSS (map kp ts))"
      using assms(2) t(3) found(1) u k kplan_ok_hole [of tm "kctx_of c" "kp u"] by (simp add: kp_plug comp_def)
    then have len: "0 < length ts" "1 < length ts" by auto
    have w: "length (kattrs tm (kp (ts ! 0))) + length (kattrs tm (kp (ts ! 1))) \<le> MAX_ATTRS"
      using ok len by (cases ts; cases "tl ts") auto
    note in0 = plug_inputs [OF pl co len zero_neq_one] and in1 = plug_inputs [OF pl co len(2,1) one_neq_zero]
    show ?thesis
    proof (cases "length ts = 2")
      case True
      then have "kp_crossBinary K = K" using new nest_two [of "map kp ts" LO_CROSS] t(3) found(1) u k
        by (simp add: kp_plug comp_def)
      then show ?thesis
        using True found(4) in0(6) assms(1) u by (simp add: t_makeCrossBinary_def is_cross_abs)
    next
      case False
      have "wp (cross_pair (inputAt x 0) x 1) (\<lambda>r s'. grown (set (addrs (ts ! 0)) \<union> set (addrs (ts ! 1))) s
          (annot tm (KP LO_CROSS [kp (ts ! 0), kp (ts ! 1)])) r s' \<and>
          operator_ptr s' = operator_ptr s + 1 \<and> expr_ptr s' = expr_ptr s) E s"
      proof (rule cross_pair_wp [OF in0(1) in1(1) in0(3) in0(2) in1(2) w _ in0(4)])
        show "wp (inputAt x 0) Q E s' = Q (paddr (ts ! 0)) s'" if "only_changes {} s s'" for s' Q
          using that in0(4,6) len by (simp add: only_changes_def)
      qed (use in0 in1 len assms(3) in \<open>auto simp: MAX_INPUT_OPS_def\<close>)
      note w2 = cross_join.binary_wp [OF pl co k found(2) ok assms(3) this]
      show ?thesis
        unfolding t_makeCrossBinary_def new
        using w2 False found(4) in0(6) u
        by (simp add: cross_pair_def is_cross_abs bindM_assoc)
    qed
  qed
qed

lemma t_makeStreamCrossBinary_wp:
  assumes "kplan_at tm s p K" and "kplan_ok tm K" and "operator_ptr s + MAX_INPUT_OPS \<le> MAXOPERATOR"
  shows "wp (t_makeStreamCrossBinary p) (\<lambda>p' s'. kplan_at tm s' p' (kp_streamCrossBinary K) \<and>
      operator_ptr s' \<le> operator_ptr s + MAX_INPUT_OPS \<and> expr_ptr s' = expr_ptr s) E s"
proof -
  obtain t where t: "plan_at s p t" "coherent tm (shape t)" "kp t = K"
    using assms(1) by (rule kplan_atE)
  have "operator_ptr s \<le> MAXOPERATOR" using assms(3) by simp
  with t(1) assms(2) [folded t(3)] one_input_kinds(4) show ?thesis
  proof (cases rule: walk_cases [where tg = is_scross])
    case none
    then show ?thesis
      using t assms(1) by (simp add: t_makeStreamCrossBinary_def is_cross_abs kp_streamCrossBinary_def)
  next
    case (found c u)
    obtain x i ts where u: "u = PT x i ts" by (cases u)
    note pl = t(1) [unfolded found(1) u] and co = t(2) [unfolded found(1) u]
    have k: "lkind i = LO_STREAM_CROSS" using found(3) u by (simp add: is_cross_abs)
    have new: "kp_streamCrossBinary K = kplug (kctx_of c) (nest (KP LO_STREAM_CROSS (map kp ts)))"
      using found(6) t(3) u k by (simp add: kp_streamCrossBinary_def comp_def)
    have ok: "kplan_ok tm (KP LO_STREAM_CROSS (map kp ts))"
      using assms(2) t(3) found(1) u k kplan_ok_hole [of tm "kctx_of c" "kp u"] by (simp add: kp_plug comp_def)
    then have len: "0 < length ts" "1 < length ts" by auto
    have w: "length (kattrs tm (kp (ts ! 0))) + length (kattrs tm (kp (ts ! 1))) \<le> MAX_ATTRS"
      using ok len by (cases ts; cases "tl ts") auto
    note in0 = plug_inputs [OF pl co len zero_neq_one] and in1 = plug_inputs [OF pl co len(2,1) one_neq_zero]
    show ?thesis
    proof (cases "length ts = 2")
      case True
      then have "kp_streamCrossBinary K = K" using new nest_two [of "map kp ts" LO_STREAM_CROSS] t(3) found(1) u k
        by (simp add: kp_plug comp_def)
      then show ?thesis
        using True found(4) in0(6) assms(1) u by (simp add: t_makeStreamCrossBinary_def is_cross_abs)
    next
      case False
      have first: "wp (stream_pair x 1 (paddr (ts ! 0))) (\<lambda>r s'. grown (set (addrs (ts ! 0)) \<union> set (addrs (ts ! 1))) s
          (annot tm (KP LO_STREAM_CROSS [kp (ts ! 0), kp (ts ! 1)])) r s' \<and>
          operator_ptr s' = operator_ptr s + 1 \<and> expr_ptr s' = expr_ptr s) E s"
        by (rule stream_pair_wp [OF in0(1) in1(1) in0(3) in0(2) in1(2) w _ in0(4)])
          (use in0 in1 len assms(3) in \<open>auto simp: MAX_INPUT_OPS_def\<close>)
      note w2 = stream_join.binary_wp [OF pl co k found(2) ok assms(3) first]
      show ?thesis
        unfolding t_makeStreamCrossBinary_def new
        using w2 False found(4) in0(6) u len
        by (simp add: stream_pair_def is_cross_abs bindM_assoc)
    qed
  qed
qed

section \<open>The nested plans are well-formed\<close>

lemma kp_crossBinary_ok: "kplan_ok tm K \<Longrightarrow> keeps tm K (kp_crossBinary K)"
  unfolding kp_crossBinary_def
proof (rule kp_at_keeps)
  fix t assume "kplan_ok tm t" and "is_cross (kroot t)"
  then show "keeps tm t (nest t)"
    using cross_join.nest_keeps by (cases t) (simp add: is_cross_def del: nest.simps)
qed

lemma kp_streamCrossBinary_ok: "kplan_ok tm K \<Longrightarrow> keeps tm K (kp_streamCrossBinary K)"
  unfolding kp_streamCrossBinary_def
proof (rule kp_at_keeps)
  fix t assume "kplan_ok tm t" and "is_scross (kroot t)"
  then show "keeps tm t (nest t)"
    using stream_join.nest_keeps by (cases t) (simp add: is_scross_def del: nest.simps)
qed

end
