(* ===== verification/Log_Stream.thy ===== *)
theory Log_Stream
  imports Log_Join
begin

text \<open>
  \<open>t_streamCross\<close>: an Rstream over a cross product with a now window becomes a stream cross
  product, and schemas and stream flags are propagated from it to the root.
\<close>

section \<open>The operator\<close>

text \<open>The inputs before position \<open>j\<close>, without input \<open>n\<close>.\<close>

definition others :: "'a list \<Rightarrow> nat \<Rightarrow> nat \<Rightarrow> 'a list" where
  "others xs n j = map ((!) xs) (filter (\<lambda>i. i \<noteq> n) [0 ..< j])"

lemma others_0 [simp]: "others xs n 0 = []"
  by (simp add: others_def)

lemma others_Suc: "others xs n (Suc j) = others xs n j @ (if j = n then [] else [xs ! j])"
  by (simp add: others_def)

lemma others_all:
  assumes "n < length xs"
  shows "others xs n (length xs) = take n xs @ drop (Suc n) xs"
proof -
  have "[0 ..< length xs] = [0 ..< n] @ n # [Suc n ..< length xs]"
    using assms by (metis le0 less_imp_le_nat upt_add_eq_append upt_conv_Cons le_add_diff_inverse add_0)
  then have "filter (\<lambda>i. i \<noteq> n) [0 ..< length xs] = [0 ..< n] @ [Suc n ..< length xs]"
    by (simp add: filter_id_conv)
  moreover have "map ((!) xs) [0 ..< n] = take n xs" "map ((!) xs) [Suc n ..< length xs] = drop (Suc n) xs"
    using assms by (auto intro!: nth_equalityI)
  ultimately show ?thesis by (simp add: others_def)
qed

lemma others_map: "j \<le> length xs \<Longrightarrow> others (map f xs) n j = map f (others xs n j)"
  by (auto simp: others_def)

lemma others_in: "j \<le> length xs \<Longrightarrow> x \<in> set (others xs n j) \<Longrightarrow> \<exists>i<j. i \<noteq> n \<and> x = xs ! i"
  by (auto simp: others_def)

lemma others_length: "n < length xs \<Longrightarrow> j < length xs \<Longrightarrow> j \<noteq> n \<Longrightarrow> length (others xs n j) + 2 \<le> length xs"
proof -
  assume n: "n < length xs" and j: "j < length xs" "j \<noteq> n"
  have "length (others xs n j) = card ({0 ..< j} - {n})"
    by (simp add: others_def distinct_length_filter set_diff_eq Collect_conj_eq Int_commute
        Diff_eq Compl_eq distinct_card [symmetric])
  also have "\<dots> \<le> card ({0 ..< length xs} - {j, n})"
    using j by (intro card_mono) auto
  finally show ?thesis using n j by simp
qed

lemma others_width:
  fixes f :: "'a \<Rightarrow> nat"
  assumes "n < length xs" and "j \<le> length xs"
  shows "f (xs ! n) + sum_list (map f (others xs n j)) \<le> sum_list (map f xs)"
proof -
  have split: "xs = take n xs @ xs ! n # drop (Suc n) xs" using assms(1) by (rule id_take_nth_drop)
  have "sum_list (map f xs) = f (xs ! n) + sum_list (map f (others xs n (length xs)))"
    by (subst (1) split) (simp add: others_all [OF assms(1)])
  moreover have "sum_list (map f (others xs n j)) \<le> sum_list (map f (others xs n (length xs)))"
    using assms(2) by (induction rule: inc_induct) (auto simp: others_Suc)
  ultimately show ?thesis by simp
qed

lemma grown_mono:
  assumes "grown A s l r s'" and "A \<subseteq> B"
  shows "grown B s l r s'"
  using assms by (fastforce simp: grown_def only_changes_def)

lemma stream_fold_wp:
  assumes pl: "plan_at s p (plug c (PT x i ts))" and co: "coherent tm (shape (plug c (PT x i ts)))"
    and n: "n < length ts" "ts ! n = PT aw iw [v]" "length (kattrs tm (kp v)) = length (kattrs tm (kp (ts ! n)))"
    and ok: "kplan_ok tm (KP LO_CROSS (map kp ts))"
    and start: "grown (set (addrs v)) s (annot tm (KP LO_STREAM_CROSS [kp v])) b s1"
      "operator_ptr s1 = operator_ptr s + 1" "expr_ptr s1 = expr_ptr s"
  shows "wp (foldM (\<lambda>sc i. if i = n then retM sc
        else bindM (inputAt x i) (\<lambda>inp. bindM (stream_cross_add_input sc inp) nonNull)) b [0 ..< length ts])
    (\<lambda>r s'. grown (set (concat (map addrs ts))) s
         (annot tm (KP LO_STREAM_CROSS (kp v # map kp (take n ts @ drop (Suc n) ts)))) r s' \<and>
       operator_ptr s' = operator_ptr s + 1 \<and> expr_ptr s' = expr_ptr s) E s1"
proof -
  define U where "U j = set (addrs v) \<union> set (concat (map addrs (others ts n j)))" for j
  define L where "L j = annot tm (KP LO_STREAM_CROSS (kp v # map kp (others ts n j)))" for j
  let ?I = "\<lambda>j r s'. grown (U j) s (L j) r s' \<and> operator_ptr s' = operator_ptr s + 1 \<and> expr_ptr s' = expr_ptr s"
  have vin: "set (addrs v) \<subseteq> set (addrs (ts ! n))" by (auto simp: n(2))
  show ?thesis
  proof (rule wp_foldM [where I = ?I])
    show "?I 0 b s1" using start by (simp add: U_def L_def)
  next
    fix j r s2 assume j0: "j < length [0 ..< length ts]" and I: "?I j r s2"
    then have j: "j < length ts" "[0 ..< length ts] ! j = j" by simp_all
    show "wp (if [0 ..< length ts] ! j = n then retM r else bindM (inputAt x ([0 ..< length ts] ! j))
        (\<lambda>inp. bindM (stream_cross_add_input r inp) nonNull)) (?I (Suc j)) E s2"
    proof (cases "j = n")
      case True
      then show ?thesis using I j by (simp add: U_def L_def others_Suc)
    next
      case False
      note inj = plug_inputs [OF pl co j(1) n(1) False]
      have disj: "set (addrs (ts ! a)) \<inter> set (addrs (ts ! j)) = {}" if "a < length ts" "a \<noteq> j" for a
        using plug_inputs(3) [OF pl co that(1) j(1) that(2)] .
      have xts: "x \<notin> set (addrs (ts ! a))" if "a < length ts" for a
        using placed_plugD(5) [OF pl] that by auto
      have U: "\<exists>a<length ts. a \<noteq> j \<and> y \<in> set (addrs (ts ! a))" if y: "y \<in> U j" for y
      proof (cases "y \<in> set (addrs v)")
        case True
        then show ?thesis using vin n(1) False by blast
      next
        case nv: False
        then obtain t where "t \<in> set (others ts n j)" "y \<in> set (addrs t)" using y by (auto simp: U_def)
        then show ?thesis using others_in [of j ts t n] j(1) by (metis less_imp_le_nat less_trans nat_neq_iff)
      qed
      have xU: "x \<notin> U j" using U xts by blast
      have Uj: "U j \<inter> set (addrs (ts ! j)) = {}" using U disj by blast
      have hx: "opHeap s2 x = opHeap s x"
        using I inj(4) xU by (simp add: grown_def only_changes_def)
      have len: "length (lsubs (L j)) < MAX_INPUT_OPS"
        using others_length [OF n(1) j(1) False] ok by (simp add: L_def)
      have at: "outAttrs (lroot (L j)) = kattrs tm (kp v) @ concat (map (kattrs tm \<circ> kp) (others ts n j))"
        by (simp add: L_def comp_def)
      have "length (kattrs tm (kp v)) + sum_list (map (length \<circ> kattrs tm \<circ> kp) (others ts n (Suc j))) \<le> MAX_ATTRS"
        using others_width [OF n(1), of "Suc j" "length \<circ> kattrs tm \<circ> kp"] n(3) ok j(1)
        by (simp add: length_concat comp_def)
      then have w: "length (outAttrs (lroot (L j))) + length (outAttrs (lroot (shape (ts ! j)))) \<le> MAX_ATTRS"
        using coherent_attrs [OF inj(2)] False
        by (simp add: at length_concat others_Suc comp_def del: kattrs_KP)
      have "lp_stream_add (L j) (shape (ts ! j)) = L (Suc j)"
        using stream_add_annot [OF _ _ inj(2), of "L j"] False by (simp add: L_def others_Suc del: annot.simps)
      note add = this
      have g: "grown (U j) s (L j) r s2" using I by simp
      have "wp (stream_cross_add_input r (paddr (ts ! j)))
          (\<lambda>r s'. wp (nonNull r) (?I (Suc j)) E s') E s2"
        by (rule wp_mono [OF stream_next_wp [OF g inj(1) Uj w len]])
          (use I False add in \<open>auto simp: U_def others_Suc Un_assoc\<close>)
      then show ?thesis using False j hx inj(6) by simp
    qed
  next
    fix r s' assume "?I (length [0 ..< length ts]) r s'"
    moreover have "U (length ts) \<subseteq> set (concat (map addrs ts))"
      using vin n(1) by (fastforce simp: U_def others_def)
    ultimately show "grown (set (concat (map addrs ts))) s
         (annot tm (KP LO_STREAM_CROSS (kp v # map kp (take n ts @ drop (Suc n) ts)))) r s' \<and>
       operator_ptr s' = operator_ptr s + 1 \<and> expr_ptr s' = expr_ptr s"
      using others_all [OF n(1)] by (auto simp: L_def intro: grown_mono simp del: annot.simps)
  qed
qed

section \<open>Propagation\<close>

lemma re_commute: "re_stream b (re_attrs tm A c) = re_attrs tm A (re_stream b c)"
  by (induction c rule: caddrs.induct) auto

lemma re_length [simp]: "length (re_attrs tm A c) = length c"
  by (induction c rule: caddrs.induct) auto

lemma propagate_wp:
  assumes rd: "ctx_ready s c x t" and ch: "chain pass_up c" "c \<noteq> []" "ctx_out None c = Some out"
    and inv: "re_attrs tm A0 c = c" "re_stream b0 c = c"
    and f: "operator_ptr s \<le> MAXOPERATOR" and w: "length (outAttrs (pinfo t)) \<le> MAX_ATTRS"
    and Q: "\<And>s' :: lstate. plan_at s' (ctx_root c x)
        (plug (re_stream (bStream (pinfo t)) (re_attrs tm (outAttrs (pinfo t)) c)) t) \<Longrightarrow>
      operator_ptr s' = operator_ptr s \<Longrightarrow> expr_ptr s' = expr_ptr s \<Longrightarrow> Q () s'"
  shows "wp (seqM (setInput out 0 (paddr t)) (seqM (update_schema_recursive (Some out))
    (update_stream_property_recursive (Some out)))) Q E s"
proof -
  obtain a i ls rs where l: "last c = (a, i, ls, rs)" by (cases "last c")
  have a: "out = a" using ch(3) l ctx_out_last [OF ch(2), of None] by simp
  have ls: "ls = []"
    using ch(1) l last_in_set [OF ch(2)] unfolding chain_def by fastforce
  have "linputs (opHeap s a) = map paddr ls @ x # map paddr rs"
    using last_input [OF _ ch(2) l] rd by (auto simp: ctx_ready_def)
  then have len: "0 < length (linputs (opHeap s a))" by simp
  define s1 where "s1 = s\<lparr>opHeap := (opHeap s)(a := (opHeap s a)\<lparr>linputs := (linputs (opHeap s a))[0 := paddr t]\<rparr>)\<rparr>"
  have pl: "plan_at s1 (ctx_root c x) (plug c t)"
    using link_hole [OF rd ch(2) l] ls by (simp add: s1_def)
  note d = placed_plugD [OF pl]
  have eq: "operator_ptr s1 = operator_ptr s" "expr_ptr s1 = expr_ptr s" by (simp_all add: s1_def)
  have fuel: "length c \<le> MAXOPERATOR"
    using chain_len [OF d(1,4), of "operator_ptr s1"] d(7) f eq by auto
  have t: "paddr t \<notin> set (caddrs c)" using d(6) by auto
  have at: "outAttrs (opHeap s1 (paddr t)) = outAttrs (pinfo t)" "bStream (opHeap s1 (paddr t)) = bStream (pinfo t)"
    using rep_attrs [OF d(2)] by simp_all
  have "wp (update_schema_loop MAXOPERATOR (ctx_out None c))
    (\<lambda>_ s2. wp (update_stream_loop MAXOPERATOR (ctx_out None c)) Q E s2) E s1"
  proof (rule update_schema_wp [OF d(1) ch(1) d(4) fuel inv(1) at(1) t w])
    fix s2 :: lstate
    assume s2: "ctx_rep (opHeap s2) None (re_attrs tm (outAttrs (pinfo t)) c) (paddr t)"
      "\<forall>a. a \<notin> set (caddrs c) \<longrightarrow> opHeap s2 a = opHeap s1 a"
      "operator_ptr s2 = operator_ptr s1" "expr_ptr s2 = expr_ptr s1"
    let ?c = "re_attrs tm (outAttrs (pinfo t)) c"
    have st: "bStream (opHeap s2 (paddr t)) = bStream (pinfo t)" using s2(2) t at(2) by simp
    have fx: "re_stream b0 ?c = ?c" by (simp add: re_commute inv(2))
    have "wp (update_stream_loop MAXOPERATOR (ctx_out None ?c)) Q E s2"
    proof (rule update_stream_wp [OF s2(1) _ _ _ fx st])
      fix s3 :: lstate
      assume s3: "ctx_rep (opHeap s3) None (re_stream (bStream (pinfo t)) ?c) (paddr t)"
        "\<forall>a. a \<notin> set (caddrs ?c) \<longrightarrow> opHeap s3 a = opHeap s2 a"
        "operator_ptr s3 = operator_ptr s2" "expr_ptr s3 = expr_ptr s2"
      have "plan_at s3 (ctx_root c x) (plug (re_stream (bStream (pinfo t)) ?c) t)"
        using s3 s2 by (intro re_stream_placed [OF pl]) auto
      then show "Q () s3" using s3 s2 eq by (intro Q) auto
    qed (use ch d t fuel in auto)
    then show "wp (update_stream_loop MAXOPERATOR (ctx_out None c)) Q E s2" by simp
  qed
  then show ?thesis
    using len a ch(3)
    by (simp add: update_schema_recursive_def update_stream_property_recursive_def s1_def)
qed

section \<open>The transformation\<close>

lemma now_cross_none:
  "\<not> kp_find is_cross pass_scross t \<Longrightarrow> \<not> has_now_cross t"
proof (induction is_cross pass_scross t rule: kp_find.induct)
  case (1 k ts)
  then show ?case by (cases ts) (auto split: if_splits)
qed

lemma now_cross_found:
  assumes "chain (\<lambda>k. pass_scross k \<and> \<not> is_cross k) c" and "is_cross (kroot t)"
  shows "has_now_cross (kplug (kctx_of c) t) \<longleftrightarrow> now_index t \<noteq> None"
  using assms
proof (induction c)
  case Nil
  then show ?case by (cases t) simp
next
  case (Cons z c)
  then show ?case by (cases z) auto
qed

lemma find_first_map: "find_first P (map f xs) = find_first (P \<circ> f) xs"
  by (induction xs) auto

lemma find_first_cong: "(\<And>x. x \<in> set xs \<Longrightarrow> P x = Q x) \<Longrightarrow> find_first P xs = find_first Q xs"
  by (induction xs) auto

text \<open>The end of the transformation: the new operator \<open>sc\<close> takes the place of the cross product
  \<open>x\<close>, its schema and flag go up, and the Rstream \<open>p\<close> is dropped.\<close>

abbreviation stream_finish :: "nat \<Rightarrow> nat \<Rightarrow> nat \<Rightarrow> (lstate, nat) comp" where
  "stream_finish x p sc \<equiv> bindM (getOp x) (\<lambda>ob. seqM (setOutput sc (loutput ob))
    (bindM (derefM (loutput ob)) (\<lambda>out. seqM (setInput out 0 sc)
    (seqM (update_schema_recursive (Some out)) (seqM (update_stream_property_recursive (Some out))
    (bindM (inputAt p 0) (\<lambda>newPlan. seqM (setOutput newPlan None) (retM newPlan))))))))"

abbreviation finished :: "table_manager \<Rightarrow> lstate \<Rightarrow> kplan \<Rightarrow> nat \<Rightarrow> lstate \<Rightarrow> bool" where
  "finished tm s K' p' s' \<equiv> kplan_at tm s' p' K' \<and>
      operator_ptr s' \<le> operator_ptr s + 1 \<and> expr_ptr s' = expr_ptr s"

lemma stream_finish_wp:
  assumes pl: "plan_at s p (plug ((p, ri, [], []) # c) (PT x i ts))" (is "plan_at s p (plug ?c _)")
    and co: "coherent tm (shape (plug ((p, ri, [], []) # c) (PT x i ts)))"
    and ch: "chain pass_up ((p, ri, [], []) # c)"
    and g: "grown (set (concat (map addrs ts))) s (annot tm K2) sc s2"
    and eq: "operator_ptr s2 = operator_ptr s + 1" "expr_ptr s2 = expr_ptr s"
    and w: "length (kattrs tm K2) \<le> MAX_ATTRS" and n: "operator_ptr s < MAXOPERATOR"
  shows "wp (stream_finish x p sc) (finished tm s (kplug (kctx_of c) K2)) E s2"
proof -
  obtain t where t: "shape t = annot tm K2" "paddr t = sc" "opHeap s2 x = opHeap s x"
      "ctx_ready (s2\<lparr>opHeap := (opHeap s2)(sc := (opHeap s2 sc)\<lparr>loutput := ctx_out None ?c\<rparr>)\<rparr>) ?c x t"
  proof (rule grown_ready [OF pl g])
    show "set (concat (map addrs ts)) \<subseteq> set (addrs (PT x i ts))" by auto
    fix t
    assume "shape t = annot tm K2" "paddr t = sc"
      and "\<And>a. a < operator_ptr s \<Longrightarrow> a \<notin> set (concat (map addrs ts)) \<Longrightarrow> opHeap s2 a = opHeap s a"
      and "ctx_ready (s2\<lparr>opHeap := (opHeap s2)(sc := (opHeap s2 sc)\<lparr>loutput := ctx_out None ?c\<rparr>)\<rparr>) ?c (paddr (PT x i ts)) t"
    then show thesis using that placed_plugD(5,7) [OF pl] by simp
  qed
  obtain out where out: "ctx_out None ?c = Some out" using ctx_out_last by blast
  have hx: "loutput (opHeap s x) = ctx_out None ?c" using placed_plugD(2) [OF pl] by simp
  have st: "bStream (pinfo t) = kstream K2" "outAttrs (pinfo t) = kattrs tm K2" "kp t = K2"
    using arg_cong [OF t(1), of "bStream \<circ> lroot"] arg_cong [OF t(1), of "outAttrs \<circ> lroot"]
      arg_cong [OF t(1), of skel] by (simp_all del: annot.simps)
  have ct: "coherent tm (shape t)" unfolding t(1) by (rule coherent_annot)
  let ?s = "s2\<lparr>opHeap := (opHeap s2)(sc := (opHeap s2 sc)\<lparr>loutput := ctx_out None ?c\<rparr>)\<rparr>"
  let ?Q = "finished tm s (kplug (kctx_of c) K2)"
  let ?Q2 = "\<lambda>_ s'. wp (bindM (inputAt p 0) (\<lambda>newPlan. seqM (setOutput newPlan None) (retM newPlan))) ?Q E s'"
  have "wp (seqM (setInput out 0 (paddr t)) (seqM (update_schema_recursive (Some out))
      (update_stream_property_recursive (Some out)))) ?Q2 E ?s"
  proof (rule propagate_wp [OF t(4) ch _ out coherent_chain(1,2) [OF co ch]])
    fix s' :: lstate
    let ?re = "\<lambda>c. re_stream (bStream (pinfo t)) (re_attrs tm (outAttrs (pinfo t)) c)"
    assume s': "plan_at s' (ctx_root ?c x) (plug (?re ?c) t)"
      "operator_ptr s' = operator_ptr ?s" "expr_ptr s' = expr_ptr ?s"
    obtain ri' where re: "plug (?re ?c) t = PT p ri' [plug (?re c) t]" by simp
    have "coherent tm (shape (plug (?re ?c) t))" using chain_coherent [OF ch ct] by blast
    then have cre: "coherent tm (shape (plug (?re c) t))" by (simp add: re)
    have "kp (plug (?re c) t) = kplug (kctx_of c) K2" by (simp add: kp_plug st(3) del: shape.simps)
    moreover have "linputs (opHeap s' p) = [paddr (plug (?re c) t)]"
      using s'(1) unfolding re by (auto simp: placed_def)
    ultimately show "?Q2 () s'"
      using plan_at_child [of s' None p p ri' "plug (?re c) t"] s' eq cre unfolding re
      by (auto intro: kplan_atI)
  qed (use w st eq n in auto)
  then show ?thesis using t(2,3) hx out by (simp del: fun_upd_apply)
qed

lemma stream_build_wp:
  assumes pl: "plan_at s p (plug c (PT x i ts))" and co: "coherent tm (shape (plug c (PT x i ts)))"
    and n: "m < length ts" "ts ! m = PT aw iw [v]" "length (kattrs tm (kp v)) = length (kattrs tm (kp (ts ! m)))"
    and ok: "kplan_ok tm (KP LO_CROSS (map kp ts))" and f: "operator_ptr s < MAXOPERATOR"
    and fin: "\<And>sc s2. grown (set (concat (map addrs ts))) s
        (annot tm (KP LO_STREAM_CROSS (kp v # map kp (take m ts @ drop (Suc m) ts)))) sc s2 \<Longrightarrow>
      operator_ptr s2 = operator_ptr s + 1 \<Longrightarrow> expr_ptr s2 = expr_ptr s \<Longrightarrow> wp (finish sc) Q E s2"
  shows "wp (bindM (mk_stream_cross (paddr v)) (\<lambda>sc. bindM (nonNull sc) (\<lambda>sc.
      bindM (foldM (\<lambda>sc i. if i = m then retM sc
          else bindM (inputAt x i) (\<lambda>inp. bindM (stream_cross_add_input sc inp) nonNull)) sc [0 ..< length ts]) finish))) Q E s"
proof (rule wp_bindI [OF unary_constructors_wp(10)])
  have cm: "coherent tm (shape (ts ! m))" using coherent_hole [OF co] n(1) by simp
  have d: "\<forall>u\<in>set ts. placed s (Some x) (paddr u) u"
    using placed_plugD(2,5,7) [OF pl] by (auto simp: placed_def distinct_concat_iff)
  then have "placed s (Some x) (paddr (ts ! m)) (ts ! m)" using n(1) by simp
  then show "placed s (Some aw) (paddr v) v" by (auto simp: placed_def n(2))
  fix r s1 assume "built (set (addrs v)) s (lp_unary LO_STREAM_CROSS (\<lambda>_. True) (shape v)) r s1"
  then obtain b where b: "r = Some b" "grown (set (addrs v)) s (lp_unary LO_STREAM_CROSS (\<lambda>_. True) (shape v)) b s1"
      "operator_ptr s1 = operator_ptr s + 1" "expr_ptr s1 = expr_ptr s"
    using f by (auto simp: built_def split: option.splits)
  have "lp_unary LO_STREAM_CROSS (\<lambda>_. True) (shape v) = annot tm (KP LO_STREAM_CROSS [kp v])"
    using lp_unary_annot [of tm LO_STREAM_CROSS "kp v" "\<lambda>_. True"] cm by (simp add: annot_skel n(2))
  note g = b(2) [unfolded this]
  show "wp (bindM (nonNull r) (\<lambda>sc. bindM (foldM (\<lambda>sc i. if i = m then retM sc
          else bindM (inputAt x i) (\<lambda>inp. bindM (stream_cross_add_input sc inp) nonNull)) sc [0 ..< length ts]) finish)) Q E s1"
    unfolding b(1) nonNull_Some bindM_retM
  proof (rule wp_bindI [OF stream_fold_wp [OF pl co n ok g b(3,4)]])
    fix sc s2
    assume "grown (set (concat (map addrs ts))) s
        (annot tm (KP LO_STREAM_CROSS (kp v # map kp (take m ts @ drop (Suc m) ts)))) sc s2 \<and>
      operator_ptr s2 = operator_ptr s + 1 \<and> expr_ptr s2 = expr_ptr s"
    then show "wp (finish sc) Q E s2" by (elim conjE) (rule fin)
  qed simp
qed simp

lemma stream_cross_width:
  assumes "kplan_ok tm (KP LO_CROSS ks)" and "m < length ks" and "length (kattrs tm v) = length (kattrs tm (ks ! m))"
  shows "length (kattrs tm (KP LO_STREAM_CROSS (v # take m ks @ drop (Suc m) ks))) = length (kattrs tm (KP LO_CROSS ks))"
proof -
  have "length (concat (map (kattrs tm) ks)) =
      length (concat (map (kattrs tm) (take m ks @ ks ! m # drop (Suc m) ks)))"
    using id_take_nth_drop [OF assms(2)] by simp
  then show ?thesis using assms(3) by simp
qed

lemma t_streamCross_wp:
  assumes "kplan_at tm s p K" and "kplan_ok tm K" and "operator_ptr s < MAXOPERATOR"
  shows "wp (t_streamCross p) (\<lambda>p' s'. kplan_at tm s' p' (kp_streamCross K) \<and>
      operator_ptr s' \<le> operator_ptr s + 1 \<and> expr_ptr s' = expr_ptr s) E s"
proof -
  obtain t where t: "plan_at s p t" "coherent tm (shape t)" "kp t = K"
    using assms(1) by (rule kplan_atE)
  have k: "lkind (opHeap s p) = kroot K" using plan_at_kind [OF t(1)] t(3) by auto
  show ?thesis
  proof (cases "kroot K = LO_RSTREAM")
    case True
    then have "one_input (\<lambda>k. k = lkind (pinfo t))" using t(3) by (auto simp: one_input_def)
    then obtain ri t1 where t1: "t = PT p ri [t1]" "opHeap s p = (opHeap s p)\<lparr>lkind := lkind ri, linputs := [paddr t1]\<rparr>"
      using root_one_input [OF t(1)] assms(2) t(3) by metis
    have li: "linputs (opHeap s p) = [paddr t1]" by (subst t1(2)) simp
    have K: "below K = kp t1" and co1: "coherent tm (shape t1)" and ok1: "kplan_ok tm (kp t1)"
      and ri: "lkind ri = LO_RSTREAM"
      using t assms(2) t1(1) True by auto
    have pl1: "placed s (Some p) (paddr t1) t1" using t(1) t1(1) by (auto simp: placed_def)
    have one: "one_input pass_scross" by (simp add: pass_scross_def [abs_def])
    have n: "operator_ptr s \<le> MAXOPERATOR" using assms(3) by simp
    note unf = t_streamCross_def is_cross_abs(1) [symmetric] pass_scross_def [abs_def, symmetric]
    from pl1 ok1 one n show ?thesis
    proof (cases rule: walk_cases [where tg = is_cross])
      case none
      then show ?thesis using True k li assms(1) K now_cross_none [of "kp t1"] by (simp add: unf kp_streamCross_def)
    next
      case (found c u)
      obtain x i ts where u: "u = PT x i ts" by (cases u)
      have ix: "lkind i = LO_CROSS" using found(3) u by (simp add: is_cross_def)
      have okc: "kplan_ok tm (kplug (kctx_of c) (kp u))" using ok1 found(1) by (simp add: kp_plug)
      then have oku: "kplan_ok tm (KP LO_CROSS (map kp ts))"
        using kplan_ok_hole [OF okc] u ix by (simp add: comp_def)
      have ku: "kp u = KP LO_CROSS (map kp ts)" using u ix by simp
      let ?c = "(p, ri, [], []) # c"
      have tc: "t = plug ?c (PT x i ts)" using t1(1) found(1) u by simp
      note pl = t(1) [unfolded tc] and co = t(2) [unfolded tc]
      note d = placed_plugD [OF pl]
      have hx: "linputs (opHeap s x) = map paddr ts" "loutput (opHeap s x) = ctx_out (Some p) c"
        using d(2) by auto
      have inp: "\<forall>u\<in>set ts. placed s (Some x) (paddr u) u"
        using d(2,5,7) by (auto simp: placed_def distinct_concat_iff)
      have "find_first (\<lambda>i. lkind (opHeap s i) = LO_NOW_WIN) (map paddr ts) =
          find_first (\<lambda>u. kroot (kp u) = LO_NOW_WIN) ts"
        unfolding find_first_map
        by (rule find_first_cong) (use inp plan_at_kind in fastforce)
      also have "\<dots> = now_index (kp u)"
        by (simp add: ku now_index_def find_first_map comp_def)
      finally have find: "find_first (\<lambda>i. lkind (opHeap s i) = LO_NOW_WIN) (map paddr ts) = now_index (kp u)" .
      have hn: "has_now_cross (kp t1) \<longleftrightarrow> now_index (kp u) \<noteq> None"
        using now_cross_found [OF found(2), of "kp u"] found(1,3) by (simp add: kp_plug)
      show ?thesis
      proof (cases "now_index (kp u)")
        case None
        then show ?thesis
          using True k li assms(1) K hn found(4) u hx find by (simp add: unf kp_streamCross_def)
      next
        case (Some m)
        have m: "m < length ts" "lkind (pinfo (ts ! m)) = LO_NOW_WIN"
          using Some by (auto simp: now_index_def ku find_first_Some)
        obtain aw iw vs where w0: "ts ! m = PT aw iw vs" by (cases "ts ! m")
        have okm: "kplan_ok tm (kp (ts ! m))" using oku m(1) by simp
        then have "length vs = 1" using m(2) w0 by simp
        then obtain v where vs: "vs = [v]" by (cases vs) auto
        note tw = w0 [unfolded vs]
        have pm: "placed s (Some x) (paddr (ts ! m)) (ts ! m)" using inp m(1) by simp
        then have hw: "linputs (opHeap s aw) = [paddr v]" and pv: "placed s (Some aw) (paddr v) v"
          by (auto simp: placed_def tw)
        have cm: "coherent tm (shape (ts ! m))" using coherent_hole [OF co] m(1) by simp
        then have cv: "coherent tm (shape v)" by (simp add: tw)
        have kv: "kattrs tm (kp v) = kattrs tm (kp (ts ! m))" using m(2) by (simp add: tw)
        let ?K2 = "KP LO_STREAM_CROSS (kp v # map kp (take m ts @ drop (Suc m) ts))"
        have K2: "to_scross (kp u) = ?K2"
          using Some m(1) by (simp add: to_scross_def ku tw take_map drop_map)
        have new: "kp_streamCross K = kplug (kctx_of c) ?K2"
          using True K hn Some found(6) K2 by (simp add: kp_streamCross_def)
        have ch: "chain pass_up ?c"
          using found(2) ri by (auto simp: pass_up_def intro: chain_mono)
        have w: "length (kattrs tm ?K2) \<le> MAX_ATTRS"
          using stream_cross_width [OF oku, of m "kp v"] kplan_ok_width [OF oku] m(1) kv
          by (simp add: take_map drop_map)
        note main = stream_build_wp [OF pl co m(1) tw arg_cong [OF kv, of length] oku assms(3),
            OF stream_finish_wp [OF pl co ch _ _ _ w assms(3)], folded new]
        show ?thesis
          using main True k li found(4) u hx find Some m(1) tw hw
          by (simp add: unf wp_case_option del: fun_upd_apply)
      qed
    qed
  qed (use assms(1) k in \<open>simp add: t_streamCross_def kp_streamCross_def\<close>)
qed

section \<open>The plan is well-formed\<close>

lemma to_scross_ok:
  assumes ok: "kplan_ok tm (KP LO_CROSS ks)" and m: "now_index (KP LO_CROSS ks) = Some m"
  shows "kplan_ok tm (to_scross (KP LO_CROSS ks))"
    and "length (kattrs tm (to_scross (KP LO_CROSS ks))) = length (kattrs tm (KP LO_CROSS ks))"
    and "kstream (to_scross (KP LO_CROSS ks))"
proof -
  have lt: "m < length ks" and now: "kroot (ks ! m) = LO_NOW_WIN"
    using m by (auto simp: now_index_def find_first_Some)
  have okm: "kplan_ok tm (ks ! m)" using ok lt by simp
  obtain ws where w: "ks ! m = KP LO_NOW_WIN ws" using now by (cases "ks ! m") auto
  then obtain v where v: "ks ! m = KP LO_NOW_WIN [v]" using okm by (cases ws) auto
  have to: "to_scross (KP LO_CROSS ks) = KP LO_STREAM_CROSS (v # take m ks @ drop (Suc m) ks)"
    using m v by (simp add: to_scross_def)
  have len: "length (kattrs tm (KP LO_STREAM_CROSS (v # take m ks @ drop (Suc m) ks))) = length (kattrs tm (KP LO_CROSS ks))"
    using stream_cross_width [OF ok lt, of v] v by simp
  then show "length (kattrs tm (to_scross (KP LO_CROSS ks))) = length (kattrs tm (KP LO_CROSS ks))"
    by (simp only: to)
  show "kstream (to_scross (KP LO_CROSS ks))" by (simp add: to)
  have "Suc (min (length ks) m + (length ks - Suc m)) = length ks" using lt by simp
  then show "kplan_ok tm (to_scross (KP LO_CROSS ks))"
    using len kplan_ok_width [OF ok] ok okm v
    by (auto simp: to dest: in_set_takeD in_set_dropD)
qed

lemma kp_streamCross_at_ok:
  assumes "has_now_cross t" and "kplan_ok tm t"
  shows "kplan_ok tm (kp_at is_cross pass_scross to_scross t) \<and>
    length (kattrs tm (kp_at is_cross pass_scross to_scross t)) = length (kattrs tm t)"
  using assms
proof (induction t rule: has_now_cross.induct)
  case (1 k ts)
  show ?case
  proof (cases "is_cross k")
    case True
    then show ?thesis using 1(2,3) to_scross_ok [of tm ts] by (auto simp: is_cross_def)
  next
    case False
    then obtain t us where ts: "ts = t # us" and k: "pass_scross k"
      using 1(2) by (auto split: if_splits list.splits)
    then have "us = []" using 1(3) by (auto simp: pass_scross_def is_kind_cases)
    then show ?thesis
      using 1 False ts k by (auto simp: pass_scross_def is_kind_cases)
  qed
qed

lemma kp_streamCross_ok: "kplan_ok tm K \<Longrightarrow> kplan_ok tm (kp_streamCross K)"
proof (cases K)
  case (KP k ts)
  assume ok: "kplan_ok tm K"
  then have "k = LO_RSTREAM \<Longrightarrow> \<exists>t. ts = [t]" using KP by (cases ts) auto
  then show ?thesis
    using ok KP kp_streamCross_at_ok by (auto simp: kp_streamCross_def)
qed

end
