(* ===== verification/Log_Push.thy ===== *)
theory Log_Push
  imports Log_Stream
begin

text \<open>
  \<open>t_pushSelect\<close>: selections go down past other selections and into the input of a cross product
  that has all attributes they refer to.
\<close>

section \<open>The way down\<close>

lemma check_reference_refs: "check_reference e op = refs_in (outAttrs op) e"
  by (induction e) (auto simp: check_attr_reference_def)

lemma findChild_wp:
  "wp (findChild (Some l) (Some r) is pos) Q E s =
    Q (map_option ((+) pos) (find_first (\<lambda>i. refs_in (outAttrs (opHeap s i)) l \<and> refs_in (outAttrs (opHeap s i)) r) is)) s"
proof (induction "is" arbitrary: pos)
  case (Cons i "is")
  then show ?case
    by (auto simp: checkRef_def check_reference_refs option.map_comp comp_def)
qed simp

text \<open>The context and the subtree at which the loop stops.\<close>

definition has_refs :: "lbexpr \<Rightarrow> ptree \<Rightarrow> bool" where
  "has_refs b t \<longleftrightarrow> brefs_in (outAttrs (pinfo t)) b"

function push_path :: "lbexpr \<Rightarrow> ptree \<Rightarrow> ctx \<times> ptree" where
  "push_path b (PT a i ts) =
    (if is_select (lkind i) then
       (case ts of [] \<Rightarrow> ([], PT a i ts)
        | t # us \<Rightarrow> (case push_path b t of (c, u) \<Rightarrow> ((a, i, [], us) # c, u)))
     else if lkind i = LO_CROSS \<or> lkind i = LO_STREAM_CROSS then
       (case find_first (has_refs b) ts of None \<Rightarrow> ([], PT a i ts)
        | Some n \<Rightarrow> (case push_path b (ts ! n) of (c, u) \<Rightarrow> ((a, i, take n ts, drop (Suc n) ts) # c, u)))
     else ([], PT a i ts))"
  by pat_completeness auto
termination
  by (relation "measure (\<lambda>(b, t). size t)")
    (auto simp: less_Suc_eq_le trans_le_add1 dest: find_first_bound
      intro!: size_list_estimation' [OF nth_mem order_refl])

lemma push_path_plug: "push_path b t = (c, u) \<Longrightarrow> plug c u = t"
proof (induction b t arbitrary: c u rule: push_path.induct)
  case (1 b a i ts)
  show ?case
  proof (cases "is_select (lkind i)")
    case True
    then show ?thesis using 1(1,3) by (cases ts) (auto split: prod.splits)
  next
    case False
    show ?thesis
    proof (cases "\<exists>n. (lkind i = LO_CROSS \<or> lkind i = LO_STREAM_CROSS) \<and> find_first (has_refs b) ts = Some n")
      case True
      then obtain n where n: "lkind i = LO_CROSS \<or> lkind i = LO_STREAM_CROSS" "find_first (has_refs b) ts = Some n"
        by blast
      obtain c' u' where p: "push_path b (ts ! n) = (c', u')" by fastforce
      then have "plug c' u' = ts ! n" using 1(2) False n by blast
      moreover have "(a, i, take n ts, drop (Suc n) ts) # c' = c" "u' = u"
        using 1(3) False n p by auto
      ultimately show ?thesis
        using find_first_bound [OF n(2)] by (auto simp: id_take_nth_drop [symmetric])
    next
      case nothing: False
      then have "push_path b (PT a i ts) = ([], PT a i ts)"
        using False by (auto split: option.splits)
      then show ?thesis using 1(3) by simp
    qed
  qed
qed

lemma kp_push_at_find:
  "find_first (\<lambda>t. brefs_in (kattrs tm t) b) ts = Some n \<Longrightarrow>
   kp_push_at tm b ts = take n ts @ kp_push tm b (ts ! n) # drop (Suc n) ts"
proof (induction ts arbitrary: n)
  case (Cons t ts)
  then show ?case by (auto split: if_splits)
qed simp

definition crossing :: "ctx \<Rightarrow> bool" where
  "crossing c \<longleftrightarrow> (\<exists>(a, i, ls, rs)\<in>set c. \<not> is_select (lkind i))"

lemma crossing_simps [simp]:
  "\<not> crossing []" "crossing ((a, i, ls, rs) # c) \<longleftrightarrow> \<not> is_select (lkind i) \<or> crossing c"
  by (auto simp: crossing_def)

lemma find_refs:
  assumes "\<forall>t\<in>set ts. coherent tm (shape t)"
  shows "find_first (has_refs b) ts = find_first (\<lambda>t. brefs_in (kattrs tm t) b) (map kp ts)"
  unfolding find_first_map
  by (rule find_first_cong) (use assms coherent_attrs in \<open>fastforce simp: has_refs_def\<close>)

lemma push_path_kp:
  assumes "coherent tm (shape t)" and "push_path b t = (c, u)"
  shows "kp_push tm b (kp t) = kplug (kctx_of c) (KP (LO_SELECT b) [kp u]) \<and>
    (passes_cross tm b (kp t) \<longleftrightarrow> crossing c)"
  using assms
proof (induction b t arbitrary: c u rule: push_path.induct)
  case (1 b a i ts)
  show ?case
  proof (cases "is_select (lkind i)")
    case True
    then show ?thesis using 1(1,3,4) by (cases ts) (auto split: prod.splits)
  next
    case False
    have ff: "find_first (has_refs b) ts = find_first (\<lambda>t. brefs_in (kattrs tm t) b) (map kp ts)"
      using 1(3) by (intro find_refs) simp
    show ?thesis
    proof (cases "\<exists>n. (lkind i = LO_CROSS \<or> lkind i = LO_STREAM_CROSS) \<and> find_first (has_refs b) ts = Some n")
      case True
      then obtain n where n: "lkind i = LO_CROSS \<or> lkind i = LO_STREAM_CROSS" "find_first (has_refs b) ts = Some n"
        by blast
      note lt = find_first_bound [OF n(2)]
      obtain c' u' where p: "push_path b (ts ! n) = (c', u')" by fastforce
      have "kp_push tm b (kp (ts ! n)) = kplug (kctx_of c') (KP (LO_SELECT b) [kp u'])"
        using 1(2) [OF False n(1,2)] 1(3) p lt by simp
      moreover have "(a, i, take n ts, drop (Suc n) ts) # c' = c" "u' = u"
        using 1(4) False n p by auto
      moreover have "\<exists>t\<in>set (map kp ts). brefs_in (kattrs tm t) b"
        using find_first_None [of "\<lambda>t. brefs_in (kattrs tm t) b" "map kp ts"] n(2) ff by auto
      moreover have "kp_push_at tm b (map kp ts) =
          take n (map kp ts) @ kp_push tm b (map kp ts ! n) # drop (Suc n) (map kp ts)"
        using n(2) ff by (intro kp_push_at_find) simp
      ultimately show ?thesis
        using n(1) False lt by (auto simp: take_map drop_map comp_def)
    next
      case nothing: False
      then have none: "lkind i = LO_CROSS \<or> lkind i = LO_STREAM_CROSS \<Longrightarrow> find_first (has_refs b) ts = None"
        by (meson option.exhaust)
      then have "push_path b (PT a i ts) = ([], PT a i ts)"
        using False by auto
      moreover have "\<not> ((lkind i = LO_CROSS \<or> lkind i = LO_STREAM_CROSS) \<and> (\<exists>t\<in>set (map kp ts). brefs_in (kattrs tm t) b))"
        using none ff find_first_None [of "\<lambda>t. brefs_in (kattrs tm t) b" "map kp ts"] by fastforce
      ultimately show ?thesis using 1(4) False by auto
    qed
  qed
qed

text \<open>The slot of the hole among the inputs of its parent.\<close>

fun slot :: "ctx \<Rightarrow> nat \<Rightarrow> nat" where
  "slot [] pos = pos"
| "slot ((a, i, ls, rs) # c) pos = slot c (length ls)"

lemma slot_last: "c \<noteq> [] \<Longrightarrow> last c = (a, i, ls, rs) \<Longrightarrow> slot c pos = length ls"
  by (induction c pos rule: slot.induct) (auto split: if_splits)

lemma pushLoop_wp:
  assumes "rep (opHeap s) q t" and "karity (kp t)" and "depth t \<le> fuel"
    and "lkind (opHeap s sel) = LO_SELECT b" and "lbLeft b = Some l" and "lbRight b = Some r"
    and "push_path b t = (c, u)"
  shows "wp (pushLoop fuel sel (paddr t) pos useful) Q E s =
    Q (paddr u, slot c pos, useful \<or> crossing c) s"
  using assms
proof (induction fuel arbitrary: t q c u pos useful)
  case 0
  then show ?case by (cases t) simp
next
  case (Suc fuel)
  obtain a i ts where t: "t = PT a i ts" by (cases t)
  have k: "lkind (opHeap s a) = lkind i" "linputs (opHeap s a) = map paddr ts"
    and rt: "\<forall>t\<in>set ts. rep (opHeap s) (Some a) t"
    using Suc.prems(1) t by auto
  have dp: "depth v \<le> fuel" if "v \<in> set ts" for v
    using Suc.prems(3) t foldr_max_le [OF that] by simp
  have ka: "karity (kp v)" if "v \<in> set ts" for v using Suc.prems(2) t that by simp
  have rep_at: "find_first (\<lambda>i. refs_in (outAttrs (opHeap s i)) l \<and> refs_in (outAttrs (opHeap s i)) r) (map paddr ts) =
      find_first (has_refs b) ts"
    unfolding find_first_map
    by (rule find_first_cong) (use rt rep_attrs(1) Suc.prems(5,6) in \<open>fastforce simp: has_refs_def brefs_in_def\<close>)
  show ?case
  proof (cases "is_select (lkind i)")
    case True
    then obtain v where v: "ts = [v]"
      using Suc.prems(2) t by (auto simp: is_kind_cases length_Suc_conv)
    obtain c' u' where p: "push_path b v = (c', u')" by fastforce
    then have c: "c = (a, i, [], []) # c'" "u = u'" using Suc.prems(7) t v True by auto
    show ?thesis
      using Suc.IH [OF _ ka dp Suc.prems(4-6) p, of "Some a"] rt v k True
      by (simp add: canBePushed_def t c)
  next
    case False
    show ?thesis
    proof (cases "\<exists>n. (lkind i = LO_CROSS \<or> lkind i = LO_STREAM_CROSS) \<and> find_first (has_refs b) ts = Some n")
      case True
      then obtain n where n: "lkind i = LO_CROSS \<or> lkind i = LO_STREAM_CROSS" "find_first (has_refs b) ts = Some n"
        by blast
      note lt = find_first_bound [OF n(2)]
      obtain c' u' where p: "push_path b (ts ! n) = (c', u')" by fastforce
      then have c: "c = (a, i, take n ts, drop (Suc n) ts) # c'" "u = u'"
        using Suc.prems(7) t n False by auto
      have "wp (pushLoop fuel sel (paddr (ts ! n)) n True) Q E s =
          Q (paddr u', slot c' n, True \<or> crossing c') s"
        by (rule Suc.IH [OF _ ka dp Suc.prems(4-6) p, of "Some a"]) (use rt lt in auto)
      then show ?thesis
        using False n k lt rep_at Suc.prems(4-6)
        by (simp add: canBePushed_def selectExpr_def findChild_wp wp_case_option t c)
    next
      case nothing: False
      then have none: "lkind i = LO_CROSS \<or> lkind i = LO_STREAM_CROSS \<Longrightarrow> find_first (has_refs b) ts = None"
        by (meson option.exhaust)
      then have "push_path b (PT a i ts) = ([], PT a i ts)"
        using False by auto
      then have c: "c = []" "u = t"
        using Suc.prems(7) by (simp_all only: t prod.inject)
      show ?thesis
      proof (cases "lkind i = LO_CROSS \<or> lkind i = LO_STREAM_CROSS")
        case True
        then have "find_first (has_refs b) ts = None" by (rule none)
        then show ?thesis
          using False k True rep_at Suc.prems(4-6)
          by (simp add: canBePushed_def selectExpr_def findChild_wp wp_case_option t c)
      qed (use False k in \<open>simp add: canBePushed_def t c\<close>)
    qed
  qed
qed

section \<open>One selection\<close>

text \<open>Hanging a new selection over the operator at the hole.\<close>

lemma push_here_wp:
  assumes pl: "plan_at s p (plug c u)" and co: "coherent tm (shape (plug c u))" and c: "c \<noteq> []"
    and n: "operator_ptr s < MAXOPERATOR"
    and Q: "\<And>t s' :: lstate. plan_at s' p (plug c t) \<Longrightarrow> coherent tm (shape (plug c t)) \<Longrightarrow>
      kp t = KP (LO_SELECT b) [kp u] \<Longrightarrow> operator_ptr s' = operator_ptr s + 1 \<Longrightarrow>
      expr_ptr s' = expr_ptr s \<Longrightarrow> Q s'"
  shows "wp (bindM (mk_select (paddr u) b) (\<lambda>r. bindM (derefM (loutput (opHeap s (paddr u)))) (\<lambda>out.
      bindM (derefM r) (\<lambda>new. seqM (setInput out (slot c pos) new)
      (seqM (setOutput new (Some out)) (retM True)))))) (\<lambda>r s'. r \<and> Q s') E s"
proof (rule wp_bindI [OF unary_constructors_wp(5)])
  note d = placed_plugD [OF pl]
  show "placed s (ctx_out None c) (paddr u) u" using d by (auto simp: placed_def)
  obtain a i ls rs where l: "last c = (a, i, ls, rs)" by (cases "last c")
  have out: "loutput (opHeap s (paddr u)) = Some a" "ctx_out None c = Some a"
    using d(2) l ctx_out_last [OF c, of None] by (auto dest: rep_root)
  let ?l = "lp_unary (LO_SELECT b) (\<lambda>x. x) (shape u)"
  have cu: "coherent tm (shape u)" using co by (rule coherent_hole)
  have lk: "?l = annot tm (KP (LO_SELECT b) [kp u])"
    using lp_unary_annot [of tm "LO_SELECT b" "kp u" "\<lambda>x. x"] cu by (simp add: annot_skel)
  fix r s1 assume "built (set (addrs u)) s ?l r s1"
  then obtain new where b: "r = Some new" "grown (set (addrs u)) s ?l new s1"
      "operator_ptr s1 = operator_ptr s + 1" "expr_ptr s1 = expr_ptr s"
    using n by (auto simp: built_def split: option.splits)
  let ?s1 = "s1\<lparr>opHeap := (opHeap s1)(new := (opHeap s1 new)\<lparr>loutput := ctx_out None c\<rparr>)\<rparr>"
  obtain t where t: "shape t = ?l" "paddr t = new" "ctx_ready ?s1 c (paddr u) t"
    using grown_ready [OF pl b(2) order_refl] by blast
  have a: "a \<in> set (caddrs c)" using out(2) by (rule ctx_out_in)
  then have an: "a \<noteq> new" using t(2,3) by (metis IntI ctx_ready_def empty_iff paddr_in_addrs)
  have "linputs (opHeap ?s1 a) = map paddr ls @ paddr u # map paddr rs"
    by (rule last_input [OF _ c l]) (use t(3) ctx_ready_def in blast)
  then have len: "length ls < length (linputs (opHeap s1 a))" using an by simp
  have link: "plan_at (?s1\<lparr>opHeap := (opHeap ?s1)(a := (opHeap ?s1 a)\<lparr>linputs :=
      (linputs (opHeap ?s1 a))[length ls := paddr t]\<rparr>)\<rparr>) p (plug c t)"
    using link_hole [OF t(3) c l] d(3) by simp
  have ct: "coherent tm (shape t)" unfolding t(1) lk by (rule coherent_annot)
  have "outAttrs (lroot (shape t)) = outAttrs (lroot (shape u))"
    "bStream (lroot (shape t)) = bStream (lroot (shape u))"
    unfolding t(1) by (simp_all add: lp_unary_def)
  then have cp: "coherent tm (shape (plug c t))" using coherent_plug [OF co ct] by blast
  have kt: "kp t = KP (LO_SELECT b) [kp u]" unfolding t(1) lk by (rule skel_annot)
  show "wp (bindM (derefM (loutput (opHeap s (paddr u)))) (\<lambda>out. bindM (derefM r) (\<lambda>new.
      seqM (setInput out (slot c pos) new) (seqM (setOutput new (Some out)) (retM True))))) (\<lambda>r s'. r \<and> Q s') E s1"
    using Q [OF link cp kt] b an len out t(2) slot_last [OF c l, of pos]
    by (simp add: fun_upd_twist)
qed simp

text \<open>What \<open>pushSelect\<close> does to the selection at the hole.\<close>

definition pushed :: "table_manager \<Rightarrow> lbexpr \<Rightarrow> lstate \<Rightarrow> nat \<Rightarrow> ctx \<Rightarrow> nat \<Rightarrow> linfo \<Rightarrow> ptree \<Rightarrow> bool \<Rightarrow> lstate \<Rightarrow> bool" where
  "pushed tm b s p c sel si t r s' \<longleftrightarrow>
    (if passes_cross tm b (kp t)
     then r \<and> operator_ptr s' = operator_ptr s + 1 \<and> expr_ptr s' = expr_ptr s \<and>
       (\<exists>t'. plan_at s' p (plug c (PT sel si [t'])) \<and> coherent tm (shape (plug c (PT sel si [t']))) \<and>
          kp t' = kp_push tm b (kp t))
     else \<not> r \<and> s' = s)"

lemma pushSelect_wp:
  assumes pl: "plan_at s p (plug c (PT sel si [t]))" and co: "coherent tm (shape (plug c (PT sel si [t])))"
    and ok: "kplan_ok tm (kp (PT sel si [t]))" and si: "lkind si = LO_SELECT b"
    and n: "operator_ptr s < MAXOPERATOR"
  shows "wp (pushSelect sel) (pushed tm b s p c sel si t) E s"
proof -
  note d = placed_plugD [OF pl]
  obtain l r where lr: "lbLeft b = Some l" "lbRight b = Some r" using ok si by auto
  obtain e u where p: "push_path b t = (e, u)" by fastforce
  have ct: "coherent tm (shape t)" using coherent_hole [OF co] by simp
  note path = push_path_plug [OF p] push_path_kp [OF ct p]
  let ?C = "c @ (sel, si, [], []) # e"
  have C: "plug ?C v = plug c (PT sel si [plug e v])" for v by (simp add: plug_append)
  have rt: "rep (opHeap s) (Some sel) t" and hs: "linputs (opHeap s sel) = [paddr t]" "lkind (opHeap s sel) = LO_SELECT b"
    using d(2) si by auto
  have pt: "placed s (Some sel) (paddr t) t" using d rt by (auto simp: placed_def)
  have kt: "karity (kp t)" using ok kplan_ok_arity [of tm "kp t"] by simp
  have dp: "depth t \<le> MAXOPERATOR" using placed_depth [OF pt] n by simp
  note loop = pushLoop_wp [OF rt kt dp hs(2) lr p, of 0 False]
  show ?thesis
  proof (cases "crossing e")
    case False
    then show ?thesis
      using path(2) hs loop by (simp add: pushSelect_def pushed_def)
  next
    case True
    have plC: "plan_at s p (plug ?C u)" and coC: "coherent tm (shape (plug ?C u))"
      using pl co path(1) by (simp_all only: C)
    let ?k = "\<lambda>s2. bindM (mk_select (paddr u) b) (\<lambda>r. bindM (derefM (loutput (opHeap s2 (paddr u)))) (\<lambda>out.
      bindM (derefM r) (\<lambda>new. seqM (setInput out (slot ?C 0) new)
      (seqM (setOutput new (Some out)) (retM True)))))"
    have "wp (?k s) (\<lambda>r s'. r \<and> pushed tm b s p c sel si t True s') E s"
    proof (rule push_here_wp [OF plC coC _ n])
      fix v and s' :: lstate
      assume v: "plan_at s' p (plug ?C v)" "coherent tm (shape (plug ?C v))" "kp v = KP (LO_SELECT b) [kp u]"
        "operator_ptr s' = operator_ptr s + 1" "expr_ptr s' = expr_ptr s"
      have "kp (plug e v) = kp_push tm b (kp t)" using path(2) by (simp add: kp_plug v(3) del: shape.simps)
      then show "pushed tm b s p c sel si t True s'"
        using v path(2) True unfolding C pushed_def by auto
    qed simp
    then have "wp (?k s) (pushed tm b s p c sel si t) E s"
      by (rule wp_mono) auto
    moreover have "slot ?C 0 = slot e 0"
      using True slot_last [of e] slot_last [of ?C] by (cases e rule: rev_cases) auto
    ultimately show ?thesis
      using True hs loop by (simp add: pushSelect_def selectExpr_def)
  qed
qed

section \<open>Pushing keeps plans well-formed\<close>

lemma keeps_trans: "keeps tm a b \<Longrightarrow> keeps tm b c \<Longrightarrow> keeps tm a c"
  by (simp add: keeps_def)

lemma keeps_refl: "kplan_ok tm t \<Longrightarrow> keeps tm t t"
  by (simp add: keeps_def)

lemma kp_push_keeps:
  "kplan_ok tm t \<Longrightarrow> select_ok (LO_SELECT b) \<Longrightarrow> keeps tm t (kp_push tm b t)"
  "\<forall>t\<in>set ts. kplan_ok tm t \<Longrightarrow> select_ok (LO_SELECT b) \<Longrightarrow> list_all2 (keeps tm) ts (kp_push_at tm b ts)"
proof (induction tm b t and tm b ts rule: kp_push_kp_push_at.induct)
  case (1 tm b k ts)
  have attrs: "list_all2 (keeps tm) ts us \<Longrightarrow> length us = length ts \<and> map (kattrs tm) us = map (kattrs tm) ts \<and>
      map kstream us = map kstream ts \<and> (\<forall>u\<in>set us. kplan_ok tm u)" for us
    by (induction rule: list_all2_induct) (auto simp: keeps_def)
  have sel: "keeps tm (KP k ts) (KP (LO_SELECT b) [KP k ts])"
    using 1(3,4) by (simp add: keeps_def del: kplan_ok.simps) simp
  show ?case
  proof (cases "is_select k")
    case True
    then obtain t where t: "ts = [t]" using 1(3) by (auto simp: is_kind_cases length_Suc_conv)
    then have "keeps tm t (kp_push tm b t)" using 1(1) [OF True, of t "[]"] 1(3,4) by auto
    then show ?thesis using 1(3) True t by (auto simp: keeps_def is_kind_cases)
  next
    case False
    then show ?thesis
    proof (cases "(k = LO_CROSS \<or> k = LO_STREAM_CROSS) \<and> (\<exists>t\<in>set ts. brefs_in (kattrs tm t) b)")
      case True
      then have "list_all2 (keeps tm) ts (kp_push_at tm b ts)" using 1(2-4) False by auto
      from attrs [OF this] show ?thesis using 1(3) False True by (auto simp: keeps_def)
    qed (use sel False in auto)
  qed
next
  case (3 tm b t ts)
  have "list_all2 (keeps tm) ts ts" using 3(3) by (simp add: list_all2_same keeps_def)
  then show ?case using 3 keeps_refl by (cases "brefs_in (kattrs tm t) b") auto
qed simp

lemma kp_pushAll_keeps: "kplan_ok tm K \<Longrightarrow> keeps tm K (kp_pushAll tm K)"
proof (induction tm K rule: kp_pushAll.induct)
  case (1 tm k ts)
  show ?case
  proof (cases "is_select k")
    case True
    then obtain b t where k: "k = LO_SELECT b" and t: "ts = [t]"
      using 1(3) by (auto simp: is_kind_cases length_Suc_conv)
    have okt: "kplan_ok tm t" and b: "select_ok (LO_SELECT b)" using 1(3) k t by auto
    have top: "keeps tm (KP k ts) u \<longleftrightarrow> keeps tm t u" for u
      using k t by (simp add: keeps_def)
    show ?thesis
    proof (cases "passes_cross tm b t")
      case True
      have kt: "keeps tm t (kp_push tm b t)" using kp_push_keeps(1) [OF okt b] .
      then have "keeps tm (kp_push tm b t) (kp_pushAll tm (kp_push tm b t))"
        using 1(1) [OF \<open>is_select k\<close> t] k True by (simp add: keeps_def)
      then show ?thesis using True k t top kt by (simp add: keeps_trans del: kp_pushAll.simps) (auto intro: keeps_trans)
    next
      case False
      then have "keeps tm t (kp_pushAll tm t)" using 1(2) [OF \<open>is_select k\<close> t] k okt by simp
      then show ?thesis using False 1(3) k t by (simp add: keeps_def)
    qed
  qed (use 1(3) in \<open>simp add: keeps_refl\<close>)
qed

lemma kp_pushSelect_ok: "kplan_ok tm K \<Longrightarrow> keeps tm K (kp_pushSelect tm K)"
  unfolding kp_pushSelect_def by (rule kp_at_keeps) (rule kp_pushAll_keeps)

section \<open>All selections\<close>

lemma pushAll_wp:
  assumes "plan_at s p (plug c t)" and "coherent tm (shape (plug c t))" and "kplan_ok tm (kp t)"
    and "chain ps c" and "is_select (kroot (kp t))" and "lead (kp t) \<le> fuel"
    and "operator_ptr s + lead (kp t) \<le> MAXOPERATOR"
  shows "wp (pushAll fuel p (paddr t)) (\<lambda>p' s'. kplan_at tm s' p' (kplug (kctx_of c) (kp_pushAll tm (kp t))) \<and>
    operator_ptr s' \<le> operator_ptr s + lead (kp t) \<and> expr_ptr s' = expr_ptr s) E s"
  using assms
proof (induction fuel arbitrary: s p c t ps)
  case 0
  then show ?case by (cases t) (auto split: list.splits)
next
  case (Suc fuel)
  obtain sel si ts where t0: "t = PT sel si ts" by (cases t)
  obtain b where si: "lkind si = LO_SELECT b" using Suc.prems(5) t0 by (auto simp: is_kind_cases)
  obtain v where v: "ts = [v]" using Suc.prems(3) t0 si by (auto simp: length_Suc_conv)
  note t = t0 [unfolded v]
  note pl = Suc.prems(1) [unfolded t] and co = Suc.prems(2) [unfolded t]
  have okv: "kplan_ok tm (kp v)" and sb: "select_ok (LO_SELECT b)" using Suc.prems(3) t si by auto
  have lead: "lead (kp t) = Suc (lead (kp v))" using t si by simp
  have n: "operator_ptr s < MAXOPERATOR" using Suc.prems(7) lead by simp
  let ?G = "\<lambda>p' s'. kplan_at tm s' p' (kplug (kctx_of c) (kp_pushAll tm (kp t))) \<and>
    operator_ptr s' \<le> operator_ptr s + lead (kp t) \<and> expr_ptr s' = expr_ptr s"
  let ?next = "\<lambda>newPlan. bindM (inputAt sel 0) (\<lambda>next. bindM (getOp next) (\<lambda>n.
      if is_select (lkind n) then pushAll fuel newPlan next else retM newPlan))"
  have step: "wp (?next p2) ?G E s2"
    if w: "plan_at s2 p2 (plug c2 w)" "coherent tm (shape (plug c2 w))" "kplan_ok tm (kp w)" "chain qs c2"
      and h: "linputs (opHeap s2 sel) = [paddr w]"
      and lw: "lead (kp w) = lead (kp v)" and eq: "operator_ptr s2 \<le> operator_ptr s + 1" "expr_ptr s2 = expr_ptr s"
      and res: "kplug (kctx_of c2) (kp_pushAll tm (kp w)) = kplug (kctx_of c) (kp_pushAll tm (kp t))"
    for p2 s2 c2 w qs
  proof -
    have k: "lkind (opHeap s2 (paddr w)) = kroot (kp w)"
      using rep_attrs(3) [OF placed_plugD(2) [OF w(1)]] by simp
    show ?thesis
    proof (cases "is_select (kroot (kp w))")
      case True
      have "wp (pushAll fuel p2 (paddr w)) (\<lambda>p' s'. kplan_at tm s' p' (kplug (kctx_of c2) (kp_pushAll tm (kp w))) \<and>
          operator_ptr s' \<le> operator_ptr s2 + lead (kp w) \<and> expr_ptr s' = expr_ptr s2) E s2"
        using Suc.prems(6,7) lead lw eq by (intro Suc.IH [OF w(1-4) True]) auto
      then have "wp (pushAll fuel p2 (paddr w)) ?G E s2"
        by (rule wp_mono) (use res eq lw lead in auto)
      then show ?thesis using True k h by simp
    next
      case False
      then have "kp_pushAll tm (kp w) = kp w" by (cases "kp w") simp
      then have "kplan_at tm s2 p2 (kplug (kctx_of c) (kp_pushAll tm (kp t)))"
        using w res by (metis kp_plug kplan_atI)
      then show ?thesis using False k h eq lead by simp
    qed
  qed
  have pt: "paddr t = sel" using t by simp
  have ps: "wp (pushSelect sel) (pushed tm b s p c sel si v) E s"
    by (rule pushSelect_wp [OF pl co _ si n]) (use Suc.prems(3) t in simp)
  show ?case
    unfolding pushAll.simps pt
  proof (rule wp_bindI [OF ps])
    fix r s1 assume r: "pushed tm b s p c sel si v r s1"
    show "wp (bindM (if r then bindM (getOp sel) (\<lambda>s. bindM (inputAt sel 0) (\<lambda>i.
        seqM (setOutput i (loutput s)) (replaceOp p (loutput s) i))) else retM p) ?next) ?G E s1"
    proof (cases "passes_cross tm b (kp v)")
      case True
      then obtain w where w: "r" "plan_at s1 p (plug c (PT sel si [w]))" "coherent tm (shape (plug c (PT sel si [w])))"
          "kp w = kp_push tm b (kp v)" "operator_ptr s1 = operator_ptr s + 1" "expr_ptr s1 = expr_ptr s"
        using r by (auto simp: pushed_def)
      note d = placed_plugD [OF w(2)]
      have h: "linputs (opHeap s1 sel) = [paddr w]" "loutput (opHeap s1 sel) = ctx_out None c" using d(2) by auto
      have keep: "keeps tm (kp v) (kp w)" using kp_push_keeps(1) [OF okv sb] w(4) by simp
      note ci = coherent_hole_input [OF w(3)]
      have "outAttrs (pinfo w) = outAttrs si" "bStream (pinfo w) = bStream si"
        using arg_cong [OF ci(2), of outAttrs] arg_cong [OF ci(2), of bStream] si by simp_all
      then have cw: "coherent tm (shape (plug c w))" using coherent_plug [OF w(3) ci(1)] by simp
      let ?s1 = "s1\<lparr>opHeap := (opHeap s1)(paddr w := (opHeap s1 (paddr w))\<lparr>loutput := ctx_out None c\<rparr>)\<rparr>"
      have "wp (replaceOp p (ctx_out None c) (paddr w)) (\<lambda>p2 s2. wp (?next p2) ?G E s2) E ?s1"
      proof (rule replaceOp_wp [OF ctx_ready_child [OF w(2)] Suc.prems(4)])
        fix s2 :: lstate
        assume s2: "plan_at s2 (ctx_root c (paddr w)) (plug c w)" "operator_ptr s2 = operator_ptr ?s1"
          "expr_ptr s2 = expr_ptr ?s1" "\<forall>a. a \<notin> set (caddrs c) \<longrightarrow> opHeap s2 a = opHeap ?s1 a"
        show "wp (?next (ctx_root c (paddr w))) ?G E s2"
        proof (rule step [OF s2(1) cw _ Suc.prems(4)])
          have "sel \<notin> set (caddrs c)" using d(6) by auto
          moreover have "sel \<noteq> paddr w" using d(5) by auto
          ultimately show "linputs (opHeap s2 sel) = [paddr w]" using s2(4) h(1) by simp
          show "lead (kp w) = lead (kp v)" using lead_push [OF True] w(4) by simp
          show "kplug (kctx_of c) (kp_pushAll tm (kp w)) = kplug (kctx_of c) (kp_pushAll tm (kp t))"
            using True t si w(4) by simp
        qed (use keep s2 w in \<open>auto simp: keeps_def\<close>)
      qed (use d(3) in auto)
      then show ?thesis using w(1) h by simp
    next
      case False
      then have r: "\<not> r" "s1 = s" using r by (auto simp: pushed_def)
      have "wp (?next p) ?G E s"
      proof (rule step [of s p "c @ [(sel, si, [], [])]" v "\<lambda>k. ps k \<or> is_select k"])
        show "plan_at s p (plug (c @ [(sel, si, [], [])]) v)" "coherent tm (shape (plug (c @ [(sel, si, [], [])]) v))"
          using pl co by (simp_all add: plug_append)
        show "chain (\<lambda>k. ps k \<or> is_select k) (c @ [(sel, si, [], [])])"
          using chain_mono [OF Suc.prems(4)] si by auto
        show "linputs (opHeap s sel) = [paddr v]" using placed_plugD(2) [OF pl] by simp
        have "kplug (k @ [(LO_SELECT b, [], [])]) x = kplug k (KP (LO_SELECT b) [x])" for k x
          by (induction k x rule: kplug.induct) auto
        moreover have "kctx_of (c @ [(sel, si, [], [])]) = kctx_of c @ [(LO_SELECT b, [], [])]"
          by (simp add: kctx_of_def si)
        ultimately show "kplug (kctx_of (c @ [(sel, si, [], [])])) (kp_pushAll tm (kp v)) =
            kplug (kctx_of c) (kp_pushAll tm (kp t))"
          using False t si by simp
      qed (use okv in auto)
      then show ?thesis using r by (simp only: if_False bindM_retM simp_thms)
    qed
  qed simp
qed

lemma lead_depth: "lead (kp t) \<le> depth t"
proof (induction t)
  case (PT a i ts)
  then show ?case by (cases ts) (auto simp: le_max_iff_disj)
qed

text \<open>The number of selections at the place where the pass starts.\<close>

fun push_lead :: "kplan \<Rightarrow> nat" where
  "push_lead (KP k ts) =
    (if is_select k then lead (KP k ts)
     else if pass_push k then (case ts of [] \<Rightarrow> 0 | t # us \<Rightarrow> push_lead t) else 0)"

lemma push_lead_kplug:
  assumes "chain (\<lambda>k. pass_push k \<and> \<not> is_select k) c" and "is_select (kroot t)"
  shows "push_lead (kplug (kctx_of c) t) = lead t"
  using assms
proof (induction c)
  case Nil
  then show ?case by (cases t) simp
next
  case (Cons x c)
  then show ?case by (cases x) auto
qed

lemma t_pushSelect_wp:
  assumes "kplan_at tm s p K" and "kplan_ok tm K" and "operator_ptr s + push_lead K \<le> MAXOPERATOR"
  shows "wp (t_pushSelect p) (\<lambda>p' s'. kplan_at tm s' p' (kp_pushSelect tm K) \<and>
      operator_ptr s' \<le> operator_ptr s + push_lead K \<and> expr_ptr s' = expr_ptr s) E s"
proof -
  obtain t where t: "plan_at s p t" "coherent tm (shape t)" "kp t = K"
    using assms(1) by (rule kplan_atE)
  have one: "one_input pass_push" by (simp add: pass_push_def [abs_def])
  have n: "operator_ptr s \<le> MAXOPERATOR" using assms(3) by simp
  from t(1) assms(2) [folded t(3)] one n show ?thesis
  proof (cases rule: walk_cases [where tg = is_select])
    case none
    then show ?thesis
      using t assms(1) by (simp add: t_pushSelect_def pass_push_def [abs_def] kp_pushSelect_def)
  next
    case (found c u)
    note pl = t(1) [unfolded found(1)] and co = t(2) [unfolded found(1)]
    have sel: "is_select (kroot (kp u))" using found(3) by simp
    have ok: "kplan_ok tm (kp u)"
      using assms(2) t(3) found(1) by (metis kp_plug kplan_ok_hole)
    have pk: "push_lead K = lead (kp u)"
      using push_lead_kplug [OF found(2) sel] t(3) found(1) by (simp add: kp_plug)
    note d = placed_plugD [OF pl]
    have "placed s (ctx_out None c) (paddr u) u" using d by (auto simp: placed_def)
    then have "lead (kp u) \<le> MAXOPERATOR"
      using lead_depth [of u] placed_depth n by (meson le_trans)
    then have "wp (pushAll MAXOPERATOR p (paddr u)) (\<lambda>p' s'. kplan_at tm s' p' (kplug (kctx_of c) (kp_pushAll tm (kp u))) \<and>
        operator_ptr s' \<le> operator_ptr s + lead (kp u) \<and> expr_ptr s' = expr_ptr s) E s"
      using assms(3) pk by (intro pushAll_wp [OF pl co ok found(2) sel]) auto
    moreover have "kp_pushSelect tm K = kplug (kctx_of c) (kp_pushAll tm (kp u))"
      using found(6) t(3) by (simp add: kp_pushSelect_def)
    ultimately show ?thesis
      using found(4) pk by (simp add: t_pushSelect_def pass_push_def [abs_def])
  qed
qed

end
