(* ===== verification/Log_Gen.thy ===== *)
theory Log_Gen
  imports Log_Push
begin

text \<open>
  \<open>genLogPlan\<close>: the naive plan is well-formed, the passes run one after the other, and what they
  build together is \<open>logical_kplan\<close>.
\<close>

section \<open>The naive plan is well-formed\<close>

lemma root_below:
  assumes "kplan_ok tm K" and "one_input (\<lambda>k. k = kroot K)"
  shows "K = KP (kroot K) [below K]"
  using assms by (cases K; cases "ksubs K") (auto simp: one_input_def)

lemma kp_source_ok:
  assumes "tm_ok tm" and "t < length (tableList tm)"
  shows "kplan_ok tm (kp_source tm v t)" and "kstream (kp_source tm v t) = tblIsStream (tableList tm ! t)"
    and "length (kattrs tm (kp_source tm v t)) = length (attrList (tableList tm ! t))"
  using tm_ok_tbl [OF assms] by (simp_all add: kp_source_def tbl_ok_def source_attrs_def)

lemma kp_window_ok:
  assumes "kplan_ok tm t" and "kstream t"
  shows "kplan_ok tm (kp_window q w t) \<and> kattrs tm (kp_window q w t) = kattrs tm t"
  using assms kplan_ok_width [OF assms(1)] by (cases w) simp_all

lemma kp_table_ok:
  assumes "tm_ok tm" and "refs_ok tm (refTables q)" and "from_ok tm q" and "i < length (fromClauseTables q)"
  shows "kplan_ok tm (kp_table tm q i) \<and> length (kattrs tm (kp_table tm q i)) = table_width tm q i"
proof -
  have t: "refTables q ! (fromClauseTables q ! i) < length (tableList tm)"
    using assms(2-4) by (simp add: refs_ok_def from_ok_def)
  note src = kp_source_ok [OF assms(1) t]
  show ?thesis
    using src kp_window_ok [of tm "kp_source tm (fromClauseTables q ! i) (refTables q ! (fromClauseTables q ! i))" q]
    by (auto simp: kp_table_def Let_def table_width_def split: option.splits)
qed

lemma kp_join_ok:
  assumes "tm_ok tm" and "tm_nonempty tm" and "refs_ok tm (refTables q)" and "from_ok tm q"
    and "fromClauseTables q \<noteq> []" and "join_width tm q \<le> MAX_ATTRS"
  shows "kplan_ok tm (kp_join tm q)"
proof -
  let ?n = "length (fromClauseTables q)"
  note tab = kp_table_ok [OF assms(1,3,4)]
  have "1 \<le> table_width tm q i" if "i < ?n" for i
    using assms(2-4) that 
    by (auto simp: table_width_def tm_nonempty_def from_ok_def refs_ok_def Suc_le_eq)
  then have "sum_list (map (\<lambda>_. 1) [0 ..< ?n]) \<le> join_width tm q"
    unfolding join_width_def by (intro sum_list_mono) auto
  then have n: "?n \<le> MAX_INPUT_OPS"
    using assms(6) by (simp add: sum_list_triv MAX_ATTRS_def MAX_INPUT_OPS_def)
  have "map length (map (kattrs tm) (map (kp_table tm q) [0 ..< ?n])) = map (table_width tm q) [0 ..< ?n]"
    using tab by simp
  then have "length (concat (map (kattrs tm) (map (kp_table tm q) [0 ..< ?n]))) = join_width tm q"
    unfolding length_concat join_width_def by (rule arg_cong)
  then show ?thesis
    using tab assms(5,6) n by (auto simp: kp_join_def Let_def)
qed

lemma kp_selects_ok:
  assumes "kplan_ok tm t" and "\<forall>b\<in>set bs. select_ok (LO_SELECT b)"
  shows "kplan_ok tm (kp_selects bs t) \<and> kattrs tm (kp_selects bs t) = kattrs tm t"
  using assms
proof (induction bs arbitrary: t)
  case (Cons b bs)
  have "kplan_ok tm (KP (LO_SELECT b) [t])" using Cons.prems kplan_ok_width by simp
  then show ?case using Cons.IH [of "KP (LO_SELECT b) [t]"] Cons.prems(2) by (simp add: kp_selects_def)
qed (simp add: kp_selects_def)

lemma naive_kplan_ok:
  assumes "tm_ok tm" and "tm_nonempty tm" and "query_ok tm q"
    and "qKind q = SFW_QUERY \<longrightarrow> plan_fits q \<and> join_width tm q \<le> MAX_ATTRS"
  shows "kplan_ok tm (naive_kplan tm q)"
proof -
  have "kplan_ok tm (if qKind q = SFW_QUERY then kp_sfw tm q else kp_binop tm q)"
  proof (cases "qKind q = SFW_QUERY")
    case True
    have "kplan_ok tm (kp_join tm q)"
      using assms True by (intro kp_join_ok) (auto simp: query_ok_def)
    then have sel: "kplan_ok tm (kp_selects (map (np_bexpr q) (preds q)) (kp_join tm q))"
      using kp_selects_ok by (auto simp: np_bexpr_def)
    then have "kplan_ok tm (kp_aggr q (kp_selects (map (np_bexpr q) (preds q)) (kp_join tm q)))"
      using assms(4) True by (auto simp: kp_aggr_def plan_fits_def)
    then show ?thesis
      using assms(4) True by (auto simp: kp_sfw_def kp_distinct_def plan_fits_def)
  next
    case False
    then have "qKind q = BINARY_OP" by (cases "qKind q") auto
    then obtain t1 t2 where r: "refTables q = [t1, t2]" "t1 < length (tableList tm)" "t2 < length (tableList tm)"
      using assms(3) by (auto simp: query_ok_def refs_ok_def)
    then show ?thesis
      using False kp_source_ok [OF assms(1) r(2)] kp_source_ok [OF assms(1) r(3)]
        tm_ok_tbl [OF assms(1) r(2)]
      by (auto simp: kp_binop_def tbl_ok_def split: option.splits binary_op.splits)
  qed
  then show ?thesis
    using kplan_ok_width by (auto simp: naive_kplan_def kp_r2s_def split: option.splits r2s_op.splits)
qed

section \<open>The number of selections\<close>

fun selects :: "kplan \<Rightarrow> nat" where
  "selects (KP k ts) = (if is_select k then 1 else 0) + sum_list (map selects ts)"

lemma lead_selects: "lead t \<le> selects t"
proof (induction t)
  case (KP k ts)
  then show ?case by (cases ts) (auto intro: trans_le_add1)
qed

lemma push_lead_selects: "push_lead t \<le> selects t"
proof (induction t)
  case (KP k ts)
  then show ?case using lead_selects [of "KP k ts"] by (cases ts) (auto intro: trans_le_add1)
qed

text \<open>A change that does not add selections; the plan is well-formed.\<close>

definition no_more :: "table_manager \<Rightarrow> (kplan \<Rightarrow> kplan) \<Rightarrow> kplan \<Rightarrow> bool" where
  "no_more tm f t \<longleftrightarrow> (kplan_ok tm t \<longrightarrow> selects (f t) \<le> selects t)"

lemma no_more_kp_at:
  assumes "\<And>t. tg (kroot t) \<Longrightarrow> no_more tm f t"
  shows "no_more tm (kp_at tg ps f) K"
  using assms
proof (induction tg ps f K rule: kp_at.induct)
  case (1 tg ps f k ts)
  then show ?case
  proof (cases "tg k")
    case True
    then show ?thesis using 1(2) [of "KP k ts"] by (simp add: no_more_def)
  next
    case False
    then show ?thesis using 1 by (cases ts) (auto simp: no_more_def)
  qed
qed

lemma no_more_below: "one_input (\<lambda>k. k = kroot t) \<Longrightarrow> no_more tm below t"
  by (cases t; cases "ksubs t") (auto simp: no_more_def below_def one_input_def)

lemma selects_nest:
  assumes "\<not> is_select (kroot t)"
  shows "no_more tm nest t"
proof (cases t)
  case (KP k ts)
  then have "selects (foldl (\<lambda>acc x. KP k [acc, x]) a us) = selects a + sum_list (map selects us)" for a us
    using assms by (induction us arbitrary: a) simp_all
  then show ?thesis
    using KP assms by (cases ts; cases "tl ts") (auto simp: no_more_def)
qed

lemma no_more_rstreamNow: "no_more tm kp_rstreamNow K"
proof (cases "kroot K = LO_RSTREAM")
  case True
  then have b: "no_more tm below K" by (intro no_more_below) (auto simp: one_input_def)
  have "no_more tm (kp_at is_now pass_now below) (below K)"
    by (rule no_more_kp_at, rule no_more_below) (auto simp: is_now_def one_input_def)
  moreover have "kplan_ok tm K \<Longrightarrow> kplan_ok tm (below K)"
    using True by (cases K; cases "ksubs K") auto
  ultimately show ?thesis using b by (auto simp: kp_rstreamNow_def no_more_def)
qed (simp add: kp_rstreamNow_def no_more_def)

lemma no_more_removeProject: "no_more tm (kp_removeProject tm) K"
  unfolding kp_removeProject_def
proof (rule no_more_kp_at)
  fix t assume "is_project (kroot t)"
  then have "no_more tm below t" by (intro no_more_below) (auto simp: one_input_def is_kind_cases)
  then show "no_more tm (drop_useless tm) t" by (simp add: no_more_def drop_useless_def)
qed

lemma selects_to_scross:
  assumes "is_cross (kroot t)"
  shows "no_more tm to_scross t"
proof (cases "now_index t")
  case (Some n)
  obtain ks where t: "t = KP LO_CROSS ks" using assms by (cases t) (simp add: is_cross_def)
  have n: "n < length ks" "kroot (ks ! n) = LO_NOW_WIN"
    using Some t by (auto simp: now_index_def find_first_Some)
  have b: "no_more tm below (ks ! n)" using n(2) by (intro no_more_below) (auto simp: one_input_def)
  have "sum_list (map selects ks) = sum_list (map selects (take n ks @ ks ! n # drop (Suc n) ks))"
    using id_take_nth_drop [OF n(1)] by simp
  then show ?thesis using Some t b n(1) by (auto simp: no_more_def to_scross_def)
qed (simp add: to_scross_def no_more_def)

lemma no_more_streamCross: "no_more tm kp_streamCross K"
proof (cases "kroot K = LO_RSTREAM")
  case True
  then have b: "no_more tm below K" by (intro no_more_below) (auto simp: one_input_def)
  have "no_more tm (kp_at is_cross pass_scross to_scross) (below K)"
    by (rule no_more_kp_at, rule selects_to_scross)
  moreover have "kplan_ok tm K \<Longrightarrow> kplan_ok tm (below K)"
    using True by (cases K; cases "ksubs K") auto
  ultimately show ?thesis using b by (auto simp: kp_streamCross_def no_more_def)
qed (simp add: kp_streamCross_def no_more_def)

lemma no_more_binary: "no_more tm kp_crossBinary K" "no_more tm kp_streamCrossBinary K"
  unfolding kp_crossBinary_def kp_streamCrossBinary_def
  by (rule no_more_kp_at, rule selects_nest, simp add: is_cross_def is_scross_def)+

lemma selects_push:
  "selects (kp_push tm b t) = Suc (selects t)"
  "\<exists>t\<in>set ts. brefs_in (kattrs tm t) b \<Longrightarrow>
    sum_list (map selects (kp_push_at tm b ts)) = Suc (sum_list (map selects ts))"
proof (induction tm b t and tm b ts rule: kp_push_kp_push_at.induct)
  case (1 tm b k ts)
  then show ?case by (cases ts) auto
qed auto

lemma selects_pushAll: "selects (kp_pushAll tm K) \<le> selects K"
proof (induction tm K rule: kp_pushAll.induct)
  case (1 tm k ts)
  show ?case
  proof (cases "is_select k")
    case True
    then obtain b where k: "k = LO_SELECT b" by (auto simp: is_kind_cases)
    show ?thesis
    proof (cases ts)
      case (Cons t us)
      show ?thesis
        using 1(1) [OF True Cons] 1(2) [OF True Cons] k Cons
        by (cases "passes_cross tm b t") (auto simp: selects_push)
    qed (use True in simp)
  qed simp
qed

lemma selects_naive: "qKind q = SFW_QUERY \<longrightarrow> length (preds q) \<le> n \<Longrightarrow> selects (naive_kplan tm q) \<le> n"
proof -
  have src: "selects (kp_source tm v t) = 0" for v t by (simp add: kp_source_def)
  have win: "selects (kp_window q w t) = selects t" for w t by (cases w) simp_all
  have tab: "selects (kp_table tm q i) = 0" for i
    by (auto simp: kp_table_def Let_def src win split: option.splits)
  have join: "selects (kp_join tm q) = 0"
    by (simp add: kp_join_def Let_def tab comp_def)
  have sel: "selects (kp_selects bs t) = length bs + selects t" for bs t
    by (induction bs arbitrary: t) (simp_all add: kp_selects_def)
  have "selects (kp_sfw tm q) = length (preds q)"
    by (simp add: kp_sfw_def kp_distinct_def kp_aggr_def sel join)
  moreover have "selects (kp_binop tm q) = 0"
    by (auto simp: kp_binop_def src split: option.splits binary_op.splits)
  moreover have "selects (kp_r2s q t) = selects t" for t
    by (auto simp: kp_r2s_def split: option.splits r2s_op.splits)
  ultimately show "qKind q = SFW_QUERY \<longrightarrow> length (preds q) \<le> n \<Longrightarrow> selects (naive_kplan tm q) \<le> n"
    by (simp add: naive_kplan_def)
qed

section \<open>Passes\<close>

text \<open>
  The contract of a pass: on a well-formed plan with at most \<open>MAX_PRED\<close> selections, with room for
  \<open>cost\<close> operators in the pool, the procedure \<open>t\<close> replaces the plan by what \<open>f\<close> says, which is
  well-formed again.
\<close>

locale pass =
  fixes tm :: table_manager and t :: "nat \<Rightarrow> (lstate, nat) comp" and f :: "kplan \<Rightarrow> kplan" and cost :: nat
  assumes pass_wp: "kplan_at tm s p K \<Longrightarrow> kplan_ok tm K \<Longrightarrow> selects K \<le> MAX_PRED \<Longrightarrow>
      operator_ptr s + cost \<le> MAXOPERATOR \<Longrightarrow>
      wp (t p) (\<lambda>p' s'. kplan_at tm s' p' (f K) \<and> operator_ptr s' \<le> operator_ptr s + cost \<and>
        expr_ptr s' = expr_ptr s) E s"
    and pass_ok: "kplan_ok tm K \<Longrightarrow> kplan_ok tm (f K)"
    and pass_selects: "no_more tm f K"

text \<open>Two passes, one after the other.\<close>

locale two_passes = fst: pass tm t f cost + snd: pass tm t' f' cost'
  for tm t f cost t' f' cost'
begin

lemma both_wp:
  assumes "kplan_at tm s p K" and "kplan_ok tm K" and "selects K \<le> MAX_PRED"
    and "operator_ptr s + (cost + cost') \<le> MAXOPERATOR"
  shows "wp (bindM (t p) t') (\<lambda>p' s'. kplan_at tm s' p' (f' (f K)) \<and>
    operator_ptr s' \<le> operator_ptr s + (cost + cost') \<and> expr_ptr s' = expr_ptr s) E s"
proof (rule wp_bindI [OF fst.pass_wp [OF assms(1-3)]])
  have sel: "selects (f K) \<le> MAX_PRED"
    using fst.pass_selects [of K] assms(2,3) by (simp add: no_more_def)
  fix p1 s1
  assume s1: "kplan_at tm s1 p1 (f K) \<and> operator_ptr s1 \<le> operator_ptr s + cost \<and> expr_ptr s1 = expr_ptr s"
  show "wp (t' p1) (\<lambda>p' s'. kplan_at tm s' p' (f' (f K)) \<and>
    operator_ptr s' \<le> operator_ptr s + (cost + cost') \<and> expr_ptr s' = expr_ptr s) E s1"
    by (rule wp_mono [OF snd.pass_wp [OF _ fst.pass_ok [OF assms(2)] sel]]) (use s1 assms(4) in auto)
qed (use assms(4) in auto)

end

sublocale two_passes \<subseteq> both: pass tm "\<lambda>p. bindM (t p) t'" "\<lambda>K. f' (f K)" "cost + cost'"
proof unfold_locales
  show "no_more tm (\<lambda>K. f' (f K)) K" for K
    using fst.pass_selects [of K] snd.pass_selects [of "f K"] fst.pass_ok [of K]
    by (auto simp: no_more_def)
qed (rule both_wp fst.pass_ok snd.pass_ok; assumption?)+

interpretation rstreamNow: pass tm t_rstreamNow kp_rstreamNow 0 for tm
proof unfold_locales
  show "wp (t_rstreamNow p) (\<lambda>p' s'. kplan_at tm s' p' (kp_rstreamNow K) \<and>
      operator_ptr s' \<le> operator_ptr s + 0 \<and> expr_ptr s' = expr_ptr s) E s"
    if "kplan_at tm s p K" "kplan_ok tm K" "operator_ptr s + 0 \<le> MAXOPERATOR" for s p K E
    by (rule wp_mono [OF t_rstreamNow_wp]) (use that in auto)
qed (use kp_rstreamNow_ok no_more_rstreamNow in \<open>auto simp: keeps_def\<close>)

interpretation streamCross: pass tm t_streamCross kp_streamCross 1 for tm
  by unfold_locales (use t_streamCross_wp kp_streamCross_ok no_more_streamCross in auto)

interpretation removeProject: pass tm t_removeProject "kp_removeProject tm" 0 for tm
proof unfold_locales
  show "wp (t_removeProject p) (\<lambda>p' s'. kplan_at tm s' p' (kp_removeProject tm K) \<and>
      operator_ptr s' \<le> operator_ptr s + 0 \<and> expr_ptr s' = expr_ptr s) E s"
    if "kplan_at tm s p K" "kplan_ok tm K" "operator_ptr s + 0 \<le> MAXOPERATOR" for s p K E
    by (rule wp_mono [OF t_removeProject_wp]) (use that in auto)
qed (use kp_removeProject_ok no_more_removeProject in \<open>auto simp: keeps_def\<close>)

interpretation crossBinary: pass tm t_makeCrossBinary kp_crossBinary MAX_INPUT_OPS for tm
  by unfold_locales (use t_makeCrossBinary_wp kp_crossBinary_ok no_more_binary in \<open>auto simp: keeps_def\<close>)

interpretation streamCrossBinary: pass tm t_makeStreamCrossBinary kp_streamCrossBinary MAX_INPUT_OPS for tm
  by unfold_locales
    (use t_makeStreamCrossBinary_wp kp_streamCrossBinary_ok no_more_binary in \<open>auto simp: keeps_def\<close>)

text \<open>The last pass starts with at most \<open>MAX_PRED\<close> selections.\<close>

interpretation pushSelect: pass tm t_pushSelect "kp_pushSelect tm" MAX_PRED for tm
proof unfold_locales
  show "wp (t_pushSelect p) (\<lambda>p' s'. kplan_at tm s' p' (kp_pushSelect tm K) \<and>
      operator_ptr s' \<le> operator_ptr s + MAX_PRED \<and> expr_ptr s' = expr_ptr s) E s"
    if "kplan_at tm s p K" "kplan_ok tm K" "selects K \<le> MAX_PRED" "operator_ptr s + MAX_PRED \<le> MAXOPERATOR" for s p K E
    by (rule wp_mono [OF t_pushSelect_wp]) (use that push_lead_selects [of K] in auto)
  show "no_more tm (kp_pushSelect tm) K" for K
    unfolding kp_pushSelect_def by (rule no_more_kp_at) (simp add: no_more_def selects_pushAll)
qed (use kp_pushSelect_ok in \<open>auto simp: keeps_def\<close>)

section \<open>The logical plan\<close>

interpretation step1: two_passes tm t_rstreamNow kp_rstreamNow 0 t_streamCross kp_streamCross 1 for tm
  by unfold_locales

interpretation step2: two_passes tm "\<lambda>p. bindM (t_rstreamNow p) t_streamCross"
    "\<lambda>K. kp_streamCross (kp_rstreamNow K)" "0 + 1" t_removeProject "kp_removeProject tm" 0 for tm
  by unfold_locales

interpretation step3: two_passes tm "\<lambda>p. bindM (bindM (t_rstreamNow p) t_streamCross) t_removeProject"
    "\<lambda>K. kp_removeProject tm (kp_streamCross (kp_rstreamNow K))" "0 + 1 + 0"
    t_makeCrossBinary kp_crossBinary MAX_INPUT_OPS for tm
  by unfold_locales

interpretation step4: two_passes tm
    "\<lambda>p. bindM (bindM (bindM (t_rstreamNow p) t_streamCross) t_removeProject) t_makeCrossBinary"
    "\<lambda>K. kp_crossBinary (kp_removeProject tm (kp_streamCross (kp_rstreamNow K)))" "0 + 1 + 0 + MAX_INPUT_OPS"
    t_makeStreamCrossBinary kp_streamCrossBinary MAX_INPUT_OPS for tm
  by unfold_locales

interpretation step5: two_passes tm
    "\<lambda>p. bindM (bindM (bindM (bindM (t_rstreamNow p) t_streamCross) t_removeProject) t_makeCrossBinary) t_makeStreamCrossBinary"
    "\<lambda>K. kp_streamCrossBinary (kp_crossBinary (kp_removeProject tm (kp_streamCross (kp_rstreamNow K))))"
    "0 + 1 + 0 + MAX_INPUT_OPS + MAX_INPUT_OPS"
    t_pushSelect "kp_pushSelect tm" MAX_PRED for tm
  by unfold_locales

lemma logical_kplan_ok: "kplan_ok tm (naive_kplan tm q) \<Longrightarrow> kplan_ok tm (logical_kplan tm q)"
  unfolding logical_kplan_def by (rule step5.both.pass_ok)

lemma genLogPlan_wp:
  assumes "tm_ok tm" and "tm_nonempty tm" and "query_ok tm q"
    and "qKind q = SFW_QUERY \<longrightarrow> plan_fits q"
  shows "wp (genLogPlan tm q)
    (\<lambda>p s'. kplan_at tm s' p (logical_kplan tm q) \<and> kplan_ok tm (logical_kplan tm q) \<and> operator_ptr s' \<le> 68 \<and>
       (qKind q = SFW_QUERY \<longrightarrow> join_width tm q \<le> MAX_ATTRS))
    (\<lambda>rc s'. rc = - 1 \<and> qKind q = SFW_QUERY \<and> MAX_ATTRS < join_width tm q) s"
  unfolding genLogPlan_def
proof (rule wp_bindI [OF genPlan_n_wp [OF assms]])
  let ?E = "\<lambda>rc s'. rc = - 1 \<and> qKind q = SFW_QUERY \<and> MAX_ATTRS < join_width tm q"
  let ?passes = "\<lambda>p. bindM (t_rstreamNow p) (\<lambda>p. bindM (t_streamCross p) (\<lambda>p. bindM (t_removeProject p)
      (\<lambda>p. bindM (t_makeCrossBinary p) (\<lambda>p. bindM (t_makeStreamCrossBinary p) t_pushSelect))))"
  fix r s1
  assume "\<exists>p t. r = Some p \<and> plan_at s1 p t \<and> shape t = naive_plan tm q \<and>
       operator_ptr s1 \<le> 37 \<and> expr_ptr s1 \<le> MAXNODE + MAX_PROJ \<and>
       (qKind q = SFW_QUERY \<longrightarrow> join_width tm q \<le> MAX_ATTRS)"
  then obtain p t where p: "r = Some p" "plan_at s1 p t" "shape t = naive_plan tm q" "operator_ptr s1 \<le> 37"
      "qKind q = SFW_QUERY \<longrightarrow> join_width tm q \<le> MAX_ATTRS" by blast
  have ok: "kplan_ok tm (naive_kplan tm q)"
    using naive_kplan_ok assms p(5) by blast
  have at: "kplan_at tm s1 p (naive_kplan tm q)"
    using p(2,3) by (auto simp: kplan_at_def naive_plan_annot)
  have "selects (naive_kplan tm q) \<le> MAX_PRED"
    using assms(3) by (intro selects_naive) (auto simp: query_ok_def)
  then have "wp (?passes p) (\<lambda>p' s'. kplan_at tm s' p' (logical_kplan tm q) \<and>
      operator_ptr s' \<le> operator_ptr s1 + (0 + 1 + 0 + MAX_INPUT_OPS + MAX_INPUT_OPS + MAX_PRED) \<and>
      expr_ptr s' = expr_ptr s1) ?E s1"
    unfolding logical_kplan_def bindM_assoc [symmetric]
    using p(4) by (intro step5.both.pass_wp [OF at ok]) (simp_all add: MAX_INPUT_OPS_def MAX_PRED_def MAXOPERATOR_def)
  then have "wp (?passes p) (\<lambda>p s'. kplan_at tm s' p (logical_kplan tm q) \<and>
      kplan_ok tm (logical_kplan tm q) \<and> operator_ptr s' \<le> 68 \<and>
       (qKind q = SFW_QUERY \<longrightarrow> join_width tm q \<le> MAX_ATTRS)) ?E s1"
    by (rule wp_mono) (use p(4,5) logical_kplan_ok [OF ok] in \<open>auto simp: MAX_INPUT_OPS_def MAX_PRED_def\<close>)
  then show "wp (bindM (derefM r) ?passes) (\<lambda>p s'. kplan_at tm s' p (logical_kplan tm q) \<and>
      kplan_ok tm (logical_kplan tm q) \<and> operator_ptr s' \<le> 68 \<and>
       (qKind q = SFW_QUERY \<longrightarrow> join_width tm q \<le> MAX_ATTRS)) ?E s1"
    using p(1) by (simp add: derefM_def)
qed simp

end
