(* ===== verification/Log_Spec.thy ===== *)
theory Log_Spec
  imports Log_Gen Naive_Spec
begin

text \<open>
  What the generator of the logical plan promises: each transformation does to the operators of
  the pool what the corresponding function does to plans, and \<open>genLogPlan\<close> as a whole returns the
  plan that the transformations make of the naive plan, without undefined behaviour.
\<close>

section \<open>Example plans\<close>

definition demo_join :: query where
  "demo_join = blank_query\<lparr>qKind := SFW_QUERY, refTables := [0, 1, 0], fromClauseTables := [0, 1, 2],
     winSpec := [Some (WS_RANGE 5), Some WS_NOW, Some (WS_ROW 3)],
     preds := [\<lparr>sOp = C_GT, sLeft = SE_ATTR T_INT \<lparr>sVarId = 1, sAttrId = 0\<rparr>, sRight = SE_CONST (IVal 5)\<rparr>],
     projExprs := [SE_ATTR T_INT \<lparr>sVarId = 0, sAttrId = 0\<rparr>, SE_ATTR T_FLOAT \<lparr>sVarId = 2, sAttrId = 1\<rparr>],
     bRelToStr := True, r2sOp := Some R_RSTREAM\<rparr>"

lemma demo_join_ok: "query_ok demo_tables demo_join" "plan_fits demo_join"
    "join_width demo_tables demo_join = 6"
  by (simp_all add: query_ok_def plan_fits_def demo_join_def blank_query_def refs_ok_def from_ok_def
      sattr_ok_def sattr_type_def attr_valid_def query_size_def demo_tables_def MAX_PRED_def bexpr_size_def
      MAX_GROUP_ATTRS_def MAX_PROJ_def MAXNODE_def MAX_ATTRS_def np_aggrs_def bexpr_wt_def less_Suc_eq
      join_width_def table_width_def upt_conv_Cons All_less_Suc numeral_2_eq_2 numeral_3_eq_3)

definition demo_aggr :: query where
  "demo_aggr = demo_join\<lparr>preds := [], projExprs := [SE_AGGR T_INT F_MAX \<lparr>sVarId = 0, sAttrId = 0\<rparr>]\<rparr>"

lemma demo_plans:
  assumes "query_ok demo_tables q" and "plan_fits q" and "join_width demo_tables q \<le> MAX_ATTRS"
  obtains s p where "kplan_at demo_tables s p (naive_kplan demo_tables q)" and "operator_ptr s \<le> 37"
    and "kplan_ok demo_tables (naive_kplan demo_tables q)"
proof -
  have "wp (genPlan_n demo_tables q)
    (\<lambda>r s'. \<exists>p t. r = Some p \<and> plan_at s' p t \<and> shape t = naive_plan demo_tables q \<and> operator_ptr s' \<le> 37)
    (\<lambda>_ _. False) empty_pool"
    by (rule wp_mono [OF genPlan_n_wp [OF demo_ok(1,3) assms(1)]]) (use assms(2,3) in auto)
  then obtain p s where "kplan_at demo_tables s p (naive_kplan demo_tables q)" "operator_ptr s \<le> 37"
    by (auto dest!: wp_success simp: kplan_at_def naive_plan_annot)
  then show thesis
    using that naive_kplan_ok [OF demo_ok(1,3) assms(1)] assms(2,3) by blast
qed

section \<open>Each transformation\<close>

text \<open>\<open>t_rstreamNow\<close> takes away the now window and the Rstream of a plan Rstream (\<dots> (Now (S)) \<dots>)
  whose operators between the two are selections, projections and duplicate eliminations, and
  nothing else: schemas, flags and both directions of the pointers fit the new plan.\<close>
theorem t_rstreamNow_rewrites:
  assumes "kplan_at tm s p K" and "kplan_ok tm K" and "operator_ptr s \<le> MAXOPERATOR"
  shows "wp (t_rstreamNow p) (\<lambda>p' s'. kplan_at tm s' p' (kp_rstreamNow K) \<and> kplan_ok tm (kp_rstreamNow K) \<and>
    operator_ptr s' = operator_ptr s) (\<lambda>_ _. False) s"
  by (rule wp_mono [OF t_rstreamNow_wp [OF assms]])
    (use kp_rstreamNow_ok [OF assms(2)] in \<open>auto simp: keeps_def\<close>)

theorem t_rstreamNow_rewrites_witness:
  "\<exists>s p. wp (t_rstreamNow p) (\<lambda>p' s'. kplan_at demo_tables s' p'
     (KP (LO_PROJECT [LE_ATTR T_INT (A_NAMED 0 0 0)]) [KP (LO_STREAM_SOURCE 0 0) []])) (\<lambda>_ _. False) s"
proof -
  have "join_width demo_tables demo_query \<le> MAX_ATTRS"
    by (simp add: join_width_def table_width_def demo_query_def demo_tables_def MAX_ATTRS_def)
  then obtain s p where sp: "kplan_at demo_tables s p (naive_kplan demo_tables demo_query)" "operator_ptr s \<le> 37"
    "kplan_ok demo_tables (naive_kplan demo_tables demo_query)"
    using demo_plans demo_query_ok by blast
  have "kp_rstreamNow (naive_kplan demo_tables demo_query) =
     KP (LO_PROJECT [LE_ATTR T_INT (A_NAMED 0 0 0)]) [KP (LO_STREAM_SOURCE 0 0) []]"
    by (simp add: naive_kplan_def kp_r2s_def kp_sfw_def kp_distinct_def kp_aggr_def kp_selects_def kp_join_def
        kp_table_def kp_source_def demo_query_def demo_tables_def blank_query_def np_aggrs_def nattr_def
        kp_rstreamNow_def is_now_def pass_now_def below_def Let_def)
  then show ?thesis
    using wp_mono [OF t_rstreamNow_rewrites [OF sp(1,3)]] sp(2) by (fastforce simp: MAXOPERATOR_def)
qed

text \<open>\<open>t_removeProject\<close> takes away a projection onto exactly the attributes of its input.\<close>
theorem t_removeProject_rewrites:
  assumes "kplan_at tm s p K" and "kplan_ok tm K" and "operator_ptr s \<le> MAXOPERATOR"
  shows "wp (t_removeProject p) (\<lambda>p' s'. kplan_at tm s' p' (kp_removeProject tm K) \<and>
    kplan_ok tm (kp_removeProject tm K) \<and> operator_ptr s' = operator_ptr s) (\<lambda>_ _. False) s"
  by (rule wp_mono [OF t_removeProject_wp [OF assms]])
    (use kp_removeProject_ok [OF assms(2)] in \<open>auto simp: keeps_def\<close>)

theorem t_removeProject_rewrites_witness:
  "\<exists>s p. wp (t_removeProject p) (\<lambda>p' s'. kplan_at demo_tables s' p'
     (kp_removeProject demo_tables (naive_kplan demo_tables demo_join))) (\<lambda>_ _. False) s"
proof -
  obtain s p where sp: "kplan_at demo_tables s p (naive_kplan demo_tables demo_join)" "operator_ptr s \<le> 37"
    "kplan_ok demo_tables (naive_kplan demo_tables demo_join)"
    using demo_plans [OF demo_join_ok(1,2)] demo_join_ok(3) by (auto simp: MAX_ATTRS_def)
  show ?thesis
    using wp_mono [OF t_removeProject_rewrites [OF sp(1,3)]] sp(2) by (fastforce simp: MAXOPERATOR_def)
qed

text \<open>C5: \<open>t_streamCross\<close> makes, of an Rstream over a cross product with a now window, a stream cross
  product of the stream below the window with the other inputs, in their order; it propagates the
  new schema and flag to the root, and takes one new operator.\<close>
theorem t_streamCross_rewrites:
  assumes "kplan_at tm s p K" and "kplan_ok tm K" and "operator_ptr s < MAXOPERATOR"
  shows "wp (t_streamCross p) (\<lambda>p' s'. kplan_at tm s' p' (kp_streamCross K) \<and> kplan_ok tm (kp_streamCross K) \<and>
    operator_ptr s' \<le> operator_ptr s + 1) (\<lambda>_ _. False) s"
  by (rule wp_mono [OF t_streamCross_wp [OF assms]]) (use kp_streamCross_ok [OF assms(2)] in auto)

lemma demo_join_plan:
  "naive_kplan demo_tables demo_join = KP LO_RSTREAM [KP (LO_PROJECT [LE_ATTR T_INT (A_NAMED 0 0 0), LE_ATTR T_FLOAT (A_NAMED 2 0 1)])
     [KP (LO_SELECT \<lparr>lbOp = C_GT, lbLeft = Some (LE_ATTR T_INT (A_NAMED 1 1 0)), lbRight = Some (LE_CONST (IVal 5))\<rparr>)
       [KP LO_CROSS [KP (LO_RANGE_WIN 5) [KP (LO_STREAM_SOURCE 0 0) []],
          KP LO_NOW_WIN [KP (LO_STREAM_SOURCE 1 1) []], KP (LO_ROW_WIN 3) [KP (LO_STREAM_SOURCE 2 0) []]]]]]"
  by (simp add: naive_kplan_def kp_r2s_def kp_sfw_def kp_distinct_def kp_aggr_def kp_selects_def kp_join_def
      kp_table_def kp_source_def demo_join_def demo_tables_def blank_query_def np_aggrs_def nattr_def np_bexpr_def
      Let_def upt_conv_Cons)

theorem t_streamCross_rewrites_witness:
  "\<exists>s p. wp (t_streamCross p) (\<lambda>p' s'. kplan_at demo_tables s' p'
     (KP (LO_PROJECT [LE_ATTR T_INT (A_NAMED 0 0 0), LE_ATTR T_FLOAT (A_NAMED 2 0 1)])
      [KP (LO_SELECT \<lparr>lbOp = C_GT, lbLeft = Some (LE_ATTR T_INT (A_NAMED 1 1 0)), lbRight = Some (LE_CONST (IVal 5))\<rparr>)
       [KP LO_STREAM_CROSS [KP (LO_STREAM_SOURCE 1 1) [], KP (LO_RANGE_WIN 5) [KP (LO_STREAM_SOURCE 0 0) []],
          KP (LO_ROW_WIN 3) [KP (LO_STREAM_SOURCE 2 0) []]]]])) (\<lambda>_ _. False) s"
proof -
  obtain s p where sp: "kplan_at demo_tables s p (naive_kplan demo_tables demo_join)" "operator_ptr s \<le> 37"
    "kplan_ok demo_tables (naive_kplan demo_tables demo_join)"
    using demo_plans [OF demo_join_ok(1,2)] demo_join_ok(3) by (auto simp: MAX_ATTRS_def)
  have "kp_streamCross (naive_kplan demo_tables demo_join) =
     KP (LO_PROJECT [LE_ATTR T_INT (A_NAMED 0 0 0), LE_ATTR T_FLOAT (A_NAMED 2 0 1)])
      [KP (LO_SELECT \<lparr>lbOp = C_GT, lbLeft = Some (LE_ATTR T_INT (A_NAMED 1 1 0)), lbRight = Some (LE_CONST (IVal 5))\<rparr>)
       [KP LO_STREAM_CROSS [KP (LO_STREAM_SOURCE 1 1) [], KP (LO_RANGE_WIN 5) [KP (LO_STREAM_SOURCE 0 0) []],
          KP (LO_ROW_WIN 3) [KP (LO_STREAM_SOURCE 2 0) []]]]]"
    by (simp add: demo_join_plan kp_streamCross_def below_def is_cross_def pass_scross_def now_index_def to_scross_def)
  then show ?thesis
    using wp_mono [OF t_streamCross_rewrites [OF sp(1,3)]] sp(2) by (fastforce simp: MAXOPERATOR_def)
qed

text \<open>C6: \<open>t_makeCrossBinary\<close> replaces a cross product of more than two inputs by nested cross products
  of two, left to right; schema and stream flag stay.\<close>
theorem t_makeCrossBinary_rewrites:
  assumes "kplan_at tm s p K" and "kplan_ok tm K" and "operator_ptr s + MAX_INPUT_OPS \<le> MAXOPERATOR"
  shows "wp (t_makeCrossBinary p) (\<lambda>p' s'. kplan_at tm s' p' (kp_crossBinary K) \<and> keeps tm K (kp_crossBinary K) \<and>
    operator_ptr s' \<le> operator_ptr s + MAX_INPUT_OPS) (\<lambda>_ _. False) s"
  by (rule wp_mono [OF t_makeCrossBinary_wp [OF assms]]) (use kp_crossBinary_ok [OF assms(2)] in auto)

theorem t_makeCrossBinary_rewrites_witness:
  "\<exists>s p. wp (t_makeCrossBinary p) (\<lambda>p' s'. kplan_at demo_tables s' p'
     (KP LO_RSTREAM [KP (LO_PROJECT [LE_ATTR T_INT (A_NAMED 0 0 0), LE_ATTR T_FLOAT (A_NAMED 2 0 1)])
     [KP (LO_SELECT \<lparr>lbOp = C_GT, lbLeft = Some (LE_ATTR T_INT (A_NAMED 1 1 0)), lbRight = Some (LE_CONST (IVal 5))\<rparr>)
       [KP LO_CROSS [KP LO_CROSS [KP (LO_RANGE_WIN 5) [KP (LO_STREAM_SOURCE 0 0) []],
          KP LO_NOW_WIN [KP (LO_STREAM_SOURCE 1 1) []]], KP (LO_ROW_WIN 3) [KP (LO_STREAM_SOURCE 2 0) []]]]]])) (\<lambda>_ _. False) s"
proof -
  obtain s p where sp: "kplan_at demo_tables s p (naive_kplan demo_tables demo_join)" "operator_ptr s \<le> 37"
    "kplan_ok demo_tables (naive_kplan demo_tables demo_join)"
    using demo_plans [OF demo_join_ok(1,2)] demo_join_ok(3) by (auto simp: MAX_ATTRS_def)
  have "kp_crossBinary (naive_kplan demo_tables demo_join) =
     KP LO_RSTREAM [KP (LO_PROJECT [LE_ATTR T_INT (A_NAMED 0 0 0), LE_ATTR T_FLOAT (A_NAMED 2 0 1)])
     [KP (LO_SELECT \<lparr>lbOp = C_GT, lbLeft = Some (LE_ATTR T_INT (A_NAMED 1 1 0)), lbRight = Some (LE_CONST (IVal 5))\<rparr>)
       [KP LO_CROSS [KP LO_CROSS [KP (LO_RANGE_WIN 5) [KP (LO_STREAM_SOURCE 0 0) []],
          KP LO_NOW_WIN [KP (LO_STREAM_SOURCE 1 1) []]], KP (LO_ROW_WIN 3) [KP (LO_STREAM_SOURCE 2 0) []]]]]]"
    by (simp add: demo_join_plan kp_crossBinary_def is_cross_def above_cross_def is_xstream_def)
  then show ?thesis
    using wp_mono [OF t_makeCrossBinary_rewrites [OF sp(1,3)]] sp(2)
    by (fastforce simp: MAXOPERATOR_def MAX_INPUT_OPS_def)
qed

text \<open>C4: \<open>t_pushSelect\<close> moves every selection at the top of the join to the deepest place that has all
  the attributes it refers to, past other selections, and leaves a selection that cannot pass a
  cross product where it is; schema and stream flag of the plan stay.\<close>
theorem t_pushSelect_rewrites:
  assumes "kplan_at tm s p K" and "kplan_ok tm K" and "operator_ptr s + push_lead K \<le> MAXOPERATOR"
  shows "wp (t_pushSelect p) (\<lambda>p' s'. kplan_at tm s' p' (kp_pushSelect tm K) \<and> keeps tm K (kp_pushSelect tm K) \<and>
    operator_ptr s' \<le> operator_ptr s + push_lead K) (\<lambda>_ _. False) s"
  by (rule wp_mono [OF t_pushSelect_wp [OF assms]]) (use kp_pushSelect_ok [OF assms(2)] in auto)

theorem t_pushSelect_rewrites_witness:
  "\<exists>s p. wp (t_pushSelect p) (\<lambda>p' s'. kplan_at demo_tables s' p'
     (KP LO_RSTREAM [KP (LO_PROJECT [LE_ATTR T_INT (A_NAMED 0 0 0), LE_ATTR T_FLOAT (A_NAMED 2 0 1)])
       [KP LO_CROSS [KP (LO_RANGE_WIN 5) [KP (LO_STREAM_SOURCE 0 0) []],
          KP (LO_SELECT \<lparr>lbOp = C_GT, lbLeft = Some (LE_ATTR T_INT (A_NAMED 1 1 0)), lbRight = Some (LE_CONST (IVal 5))\<rparr>)
            [KP LO_NOW_WIN [KP (LO_STREAM_SOURCE 1 1) []]], KP (LO_ROW_WIN 3) [KP (LO_STREAM_SOURCE 2 0) []]]]])) (\<lambda>_ _. False) s"
proof -
  obtain s p where sp: "kplan_at demo_tables s p (naive_kplan demo_tables demo_join)" "operator_ptr s \<le> 37"
    "kplan_ok demo_tables (naive_kplan demo_tables demo_join)"
    using demo_plans [OF demo_join_ok(1,2)] demo_join_ok(3) by (auto simp: MAX_ATTRS_def)
  have "kp_pushSelect demo_tables (naive_kplan demo_tables demo_join) =
     KP LO_RSTREAM [KP (LO_PROJECT [LE_ATTR T_INT (A_NAMED 0 0 0), LE_ATTR T_FLOAT (A_NAMED 2 0 1)])
       [KP LO_CROSS [KP (LO_RANGE_WIN 5) [KP (LO_STREAM_SOURCE 0 0) []],
          KP (LO_SELECT \<lparr>lbOp = C_GT, lbLeft = Some (LE_ATTR T_INT (A_NAMED 1 1 0)), lbRight = Some (LE_CONST (IVal 5))\<rparr>)
            [KP LO_NOW_WIN [KP (LO_STREAM_SOURCE 1 1) []]], KP (LO_ROW_WIN 3) [KP (LO_STREAM_SOURCE 2 0) []]]]]"
    unfolding demo_join_plan
    by (simp add: kp_pushSelect_def pass_push_def is_xstream_def brefs_in_def source_attrs_def
        demo_tables_def upt_conv_Cons)
  moreover have "push_lead (naive_kplan demo_tables demo_join) = 1"
    by (simp add: demo_join_plan pass_push_def is_xstream_def)
  ultimately show ?thesis
    using wp_mono [OF t_pushSelect_rewrites [OF sp(1,3)]] sp(2) by (fastforce simp: MAXOPERATOR_def)
qed

section \<open>A flag that is lost\<close>

text \<open>An aggregation on the way down to the cross product.\<close>

fun aggregates :: "kplan \<Rightarrow> bool" where
  "aggregates (KP k ts) \<longleftrightarrow> is_group_aggr k \<or>
     copies_stream k \<and> (case ts of [] \<Rightarrow> False | t # us \<Rightarrow> aggregates t)"

lemma aggregates_flag:
  "aggregates t \<Longrightarrow> has_now_cross t \<Longrightarrow> kplan_ok tm t \<Longrightarrow> \<not> kstream (kp_at is_cross pass_scross to_scross t)"
proof (induction t rule: aggregates.induct)
  case (1 k ts)
  show ?case
  proof (cases "is_group_aggr k")
    case True
    then show ?thesis using 1(3) by (auto simp: is_cross_def is_kind_cases split: list.splits if_splits)
  next
    case False
    then obtain t us where ts: "ts = t # us" "copies_stream k" "aggregates t"
      using 1(2) by (auto split: list.splits)
    then have "us = []" using 1(4) by (cases k) auto
    then show ?thesis using 1 False ts by (cases k) (auto simp: is_cross_def pass_scross_def)
  qed
qed

text \<open>C17: In a plan Rstream (\<dots> Group-Aggr (\<dots> Cross (\<dots> Now (S) \<dots>))) \<open>t_streamCross\<close> passes the
  aggregation on its way down although its comment speaks of projections and selections only, and
  removes the Rstream: the root, which was a stream, is marked as a relation afterwards.\<close>
theorem t_streamCross_loses_stream:
  assumes "kplan_at tm s p K" and "kplan_ok tm K" and "operator_ptr s < MAXOPERATOR"
    and "kroot K = LO_RSTREAM" and "has_now_cross (below K)" and "aggregates (below K)"
  shows "bStream (opHeap s p) \<and> wp (t_streamCross p) (\<lambda>p' s'. \<not> bStream (opHeap s' p')) (\<lambda>_ _. False) s"
proof
  have flag: "bStream (opHeap s' p') = kstream K'" if "kplan_at tm s' p' K'" for s' p' K'
    using that by (auto simp: kplan_at_def dest: plan_at_stream)
  have K: "K = KP LO_RSTREAM [below K]" using root_below [OF assms(2)] assms(4) by (simp add: one_input_def)
  have "kstream K" by (subst K) simp
  then show "bStream (opHeap s p)" using flag [OF assms(1)] by simp
  have "kplan_ok tm (below K)" using assms(2) by (metis K kplan_ok.simps list.set_intros(1))
  then have "\<not> kstream (kp_streamCross K)"
    using aggregates_flag assms(4-6) by (simp add: kp_streamCross_def)
  then show "wp (t_streamCross p) (\<lambda>p' s'. \<not> bStream (opHeap s' p')) (\<lambda>_ _. False) s"
    using flag by (intro wp_mono [OF t_streamCross_wp [OF assms(1-3)]]) auto
qed

theorem t_streamCross_loses_stream_witness:
  "\<exists>s p. kplan_at demo_tables s p (naive_kplan demo_tables demo_aggr) \<and> bStream (opHeap s p) \<and>
     wp (t_streamCross p) (\<lambda>p' s'. \<not> bStream (opHeap s' p')) (\<lambda>_ _. False) s"
proof -
  have ok: "query_ok demo_tables demo_aggr" "plan_fits demo_aggr" "join_width demo_tables demo_aggr \<le> MAX_ATTRS"
    by (simp_all add: query_ok_def plan_fits_def demo_join_def demo_aggr_def blank_query_def refs_ok_def from_ok_def
      sattr_ok_def sattr_type_def attr_valid_def query_size_def demo_tables_def MAX_PRED_def bexpr_size_def
      MAX_GROUP_ATTRS_def MAX_PROJ_def MAXNODE_def MAX_ATTRS_def np_aggrs_def bexpr_wt_def less_Suc_eq
      getOutputType_def join_width_def table_width_def upt_conv_Cons All_less_Suc numeral_2_eq_2 numeral_3_eq_3)
  obtain s p where sp: "kplan_at demo_tables s p (naive_kplan demo_tables demo_aggr)" "operator_ptr s \<le> 37"
    "kplan_ok demo_tables (naive_kplan demo_tables demo_aggr)"
    using demo_plans [OF ok] by blast
  have "kroot (naive_kplan demo_tables demo_aggr) = LO_RSTREAM \<and>
      has_now_cross (below (naive_kplan demo_tables demo_aggr)) \<and> aggregates (below (naive_kplan demo_tables demo_aggr))"
    by (simp add: naive_kplan_def kp_r2s_def kp_sfw_def kp_distinct_def kp_aggr_def kp_selects_def kp_join_def
      kp_table_def kp_source_def demo_join_def demo_aggr_def demo_tables_def blank_query_def np_aggrs_def nattr_def
      Let_def upt_conv_Cons is_cross_def pass_scross_def now_index_def)
  then show ?thesis
    using t_streamCross_loses_stream [OF sp(1,3)] sp(1,2) by (fastforce simp: MAXOPERATOR_def)
qed

section \<open>The logical plan\<close>

text \<open>C2: For every query of the semantic interpreter that keeps to the attribute limits, \<open>genLogPlan\<close>
  returns the root of the plan \<open>logical_kplan\<close>, a well-formed plan linked correctly in both
  directions, in a pool of at most 68 operators; or it fails with status -1, and only for a join of
  more than \<open>MAX_ATTRS\<close> attributes.  It never dereferences a null pointer, overflows an array or
  loops.\<close>
theorem genLogPlan_refines:
  assumes "tm_ok tm" and "tm_nonempty tm" and "query_ok tm q"
    and "qKind q = SFW_QUERY \<longrightarrow> plan_fits q"
  shows "wp (genLogPlan tm q)
    (\<lambda>p s'. kplan_at tm s' p (logical_kplan tm q) \<and> kplan_ok tm (logical_kplan tm q) \<and> operator_ptr s' \<le> 68)
    (\<lambda>rc s'. rc = - 1 \<and> qKind q = SFW_QUERY \<and> MAX_ATTRS < join_width tm q) s"
  by (rule wp_mono [OF genLogPlan_wp [OF assms]]) auto

lemma demo_logical_plan:
  "logical_kplan demo_tables demo_join = KP (LO_PROJECT [LE_ATTR T_INT (A_NAMED 0 0 0), LE_ATTR T_FLOAT (A_NAMED 2 0 1)])
     [KP LO_STREAM_CROSS [KP LO_STREAM_CROSS [
         KP (LO_SELECT \<lparr>lbOp = C_GT, lbLeft = Some (LE_ATTR T_INT (A_NAMED 1 1 0)), lbRight = Some (LE_CONST (IVal 5))\<rparr>)
           [KP (LO_STREAM_SOURCE 1 1) []],
         KP (LO_RANGE_WIN 5) [KP (LO_STREAM_SOURCE 0 0) []]],
       KP (LO_ROW_WIN 3) [KP (LO_STREAM_SOURCE 2 0) []]]]"
  unfolding logical_kplan_def demo_join_plan
  by (simp add: kp_rstreamNow_def below_def is_now_def pass_now_def kp_streamCross_def is_cross_def pass_scross_def
      now_index_def to_scross_def kp_removeProject_def pass_project_def drop_useless_def is_xstream_def
      kp_crossBinary_def above_cross_def kp_streamCrossBinary_def is_scross_def kp_pushSelect_def pass_push_def
      brefs_in_def source_attrs_def demo_tables_def upt_conv_Cons)

theorem genLogPlan_refines_witness:
  "wp (genLogPlan demo_tables demo_join) (\<lambda>p s'. kplan_at demo_tables s' p
     (KP (LO_PROJECT [LE_ATTR T_INT (A_NAMED 0 0 0), LE_ATTR T_FLOAT (A_NAMED 2 0 1)])
     [KP LO_STREAM_CROSS [KP LO_STREAM_CROSS [
         KP (LO_SELECT \<lparr>lbOp = C_GT, lbLeft = Some (LE_ATTR T_INT (A_NAMED 1 1 0)), lbRight = Some (LE_CONST (IVal 5))\<rparr>)
           [KP (LO_STREAM_SOURCE 1 1) []],
         KP (LO_RANGE_WIN 5) [KP (LO_STREAM_SOURCE 0 0) []]],
       KP (LO_ROW_WIN 3) [KP (LO_STREAM_SOURCE 2 0) []]]])) (\<lambda>_ _. False) empty_pool"
  by (rule wp_mono [OF genLogPlan_refines [OF demo_ok(1,3) demo_join_ok(1)]])
    (use demo_join_ok demo_logical_plan in \<open>auto simp: MAX_ATTRS_def\<close>)

end
