(* ===== verification/Phy_Op.thy ===== *)
theory Phy_Op
  imports Log_Op
begin

text \<open>
  \<open>include/metadata/phy_op.h\<close>, the state of \<open>include/metadata/plan_mgr_impl.h\<close> and the
  resource management at the end of \<open>src/metadata/gen_phy_plan.cc\<close>: physical operators, the
  pool they are taken from and given back to, and the pools of expressions.

  An operator is identified by its position in the array \<open>ops\<close>.  The members \<open>next\<close> and \<open>prev\<close>,
  which serve the lists of the pool only, are kept apart from the operator as two heaps of their
  own, so that an update of the lists visibly leaves the operators alone.  As for logical
  operators, an array with its counter is a list, and the union is a datatype whose constructor
  says which member was written last; \<open>U_NONE\<close> is the union of an operator fresh from the pool.

  The memory of a new plan manager is not cleared: the constructor works on an arbitrary state.
\<close>

section \<open>Attributes and expressions\<close>

record pattr =
  attrInput :: nat
  attrPos :: nat

datatype pexpr =
    PE_CONST cval
  | PE_ATTR ctype pattr
  | PE_COMP ctype arith_op pexpr pexpr

fun pexpr_type :: "pexpr \<Rightarrow> ctype" where
  "pexpr_type (PE_CONST c) = cval_type c"
| "pexpr_type (PE_ATTR t _) = t"
| "pexpr_type (PE_COMP t _ _ _) = t"

text \<open>A conjunction, linked by \<open>next\<close> in the code, is the list of its atomic predicates.\<close>

record pbexpr =
  pbOp :: comp_op
  pbLeft :: pexpr
  pbRight :: pexpr

section \<open>Operators\<close>

datatype pkind =
    PO_SELECT | PO_PROJECT | PO_JOIN | PO_STR_JOIN | PO_JOIN_PROJECT | PO_STR_JOIN_PROJECT
  | PO_GROUP_AGGR | PO_DISTINCT | PO_ROW_WIN | PO_RANGE_WIN | PO_PARTN_WIN
  | PO_ISTREAM | PO_DSTREAM | PO_RSTREAM | PO_UNION | PO_EXCEPT
  | PO_STREAM_SOURCE | PO_RELN_SOURCE | PO_QUERY_SOURCE | PO_OUTPUT | PO_SINK | PO_SS_GEN
  | PO_DROP | PO_LWDROP | PO_HWDROP

datatype punion =
    U_NONE
  | U_STREAM_SOURCE nat nat                 \<comment> \<open>\<open>strId\<close>, \<open>srcId\<close>\<close>
  | U_RELN_SOURCE nat nat                   \<comment> \<open>\<open>relId\<close>, \<open>srcId\<close>\<close>
  | U_OUTPUT nat nat                        \<comment> \<open>\<open>outputId\<close>, \<open>queryId\<close>\<close>
  | U_SELECT "pbexpr list"
  | U_PROJECT "pexpr list"
  | U_JOIN nat nat "pbexpr list"            \<comment> \<open>\<open>numOuterAttrs\<close>, \<open>numInnerAttrs\<close>, \<open>pred\<close>\<close>
  | U_STR_JOIN nat nat "pbexpr list"
  | U_JOIN_PROJECT "pexpr list" "pbexpr list"
  | U_STR_JOIN_PROJECT "pexpr list" "pbexpr list"
  | U_GROUP_AGGR "pattr list" "(pattr \<times> aggr_fn) list"
  | U_ROW_WIN nat
  | U_RANGE_WIN nat
  | U_PARTN_WIN "pattr list" nat            \<comment> \<open>\<open>partnAttrs\<close>, \<open>numRows\<close>\<close>
  | U_SS_GEN nat
  | U_DROP nat

text \<open>
  A column of a schema: its type and its length, \<open>None\<close> for a length that the code leaves as it
  found it.
\<close>

type_synonym pcolumn = "ctype \<times> nat option"

record phyop =
  pid :: nat
  query_class_id :: int
  pkind :: pkind
  pschema :: "pcolumn list"
  pbStream :: bool
  poutputs :: "nat list"
  pinputs :: "nat list"
  pu :: punion

definition P_MAX_OPS :: nat where "P_MAX_OPS = 5000"
definition P_MAX_OUTPUT :: nat where "P_MAX_OUTPUT = 1000"
definition P_MAX_EXPRS :: nat where "P_MAX_EXPRS = 5000"

text \<open>
  The plan manager.  \<open>baseTableSources\<close> and \<open>queryOutputs\<close> hold pointers to interface objects,
  here numbers; their lengths are \<open>numBaseTables\<close> and \<open>numOutputs\<close>, and those of \<open>sourceOps\<close> and
  \<open>queryOutOps\<close> are \<open>numTables\<close> and \<open>numQueries\<close>.
\<close>

record plan_manager =
  ops :: "nat \<Rightarrow> phyop"
  opNext :: "nat \<Rightarrow> nat option"
  opPrev :: "nat \<Rightarrow> nat option"
  freeOps :: "nat option"
  usedOps :: "nat option"
  numExprs :: nat
  numBExprs :: nat
  baseTableSources :: "nat list"
  queryOutputs :: "nat list"
  sourceOps :: "(nat \<times> nat) list"          \<comment> \<open>\<open>tableId\<close>, \<open>opId\<close>\<close>
  queryOutOps :: "(nat \<times> nat) list"        \<comment> \<open>\<open>queryId\<close>, \<open>opId\<close>\<close>
  current_query_class :: int
  sharingAmongClasses :: bool

text \<open>Reads and writes through an operator pointer.\<close>

definition pget :: "nat \<Rightarrow> (plan_manager, phyop) comp" where
  "pget p = readM (\<lambda>s. ops s p)"

definition pset :: "nat \<Rightarrow> (phyop \<Rightarrow> phyop) \<Rightarrow> (plan_manager, unit) comp" where
  "pset p f = modM (\<lambda>s. s\<lparr>ops := (ops s)(p := f (ops s p))\<rparr>)"

definition setNext :: "nat \<Rightarrow> nat option \<Rightarrow> (plan_manager, unit) comp" where
  "setNext p q = modM (\<lambda>s. s\<lparr>opNext := (opNext s)(p := q)\<rparr>)"

definition setPrev :: "nat \<Rightarrow> nat option \<Rightarrow> (plan_manager, unit) comp" where
  "setPrev p q = modM (\<lambda>s. s\<lparr>opPrev := (opPrev s)(p := q)\<rparr>)"

section \<open>The pool of operators\<close>

definition init_ops :: "(plan_manager, unit) comp" where
  "init_ops =
    seqM (modM (\<lambda>s. s\<lparr>usedOps := None, freeOps := Some 0\<rparr>))
    (seqM (forM [1 ..< P_MAX_OPS] (\<lambda>n.
       seqM (setPrev n (Some (n - 1)))
       (seqM (setNext (n - 1) (Some n))
       (pset n (\<lambda>x. x\<lparr>pid := n\<rparr>)))))
    (seqM (setNext (P_MAX_OPS - 1) None)
    (seqM (setPrev 0 None)
    (pset 0 (\<lambda>x. x\<lparr>pid := 0\<rparr>)))))"

text \<open>
  The second element of the list of free operators is written to without a check: with one
  operator left the pointer is null.
\<close>

definition new_op :: "pkind \<Rightarrow> (plan_manager, nat option) comp" where
  "new_op k =
    bindM (readM freeOps) (\<lambda>f.
    case f of
      None \<Rightarrow> retM None
    | Some op \<Rightarrow>
        seqM (modM (\<lambda>s. s\<lparr>freeOps := opNext s op\<rparr>))
        (bindM (readM freeOps) (\<lambda>f'.
         bindM (derefM f') (\<lambda>q.
         seqM (setPrev q None)
        (bindM (readM usedOps) (\<lambda>u.
         seqM (setNext op u)
        (seqM (case u of None \<Rightarrow> retM () | Some q \<Rightarrow> setPrev q (Some op))
        (seqM (modM (\<lambda>s. s\<lparr>usedOps := Some op\<rparr>))
        (seqM (pset op (\<lambda>x. x\<lparr>pkind := k, pschema := [], poutputs := [], pinputs := [], pu := U_NONE\<rparr>))
         (retM (Some op)))))))))))"

definition free_op :: "nat \<Rightarrow> (plan_manager, unit) comp" where
  "free_op op =
    bindM (readM (\<lambda>s. opPrev s op)) (\<lambda>prev.
    bindM (readM (\<lambda>s. opNext s op)) (\<lambda>nxt.
    seqM (case prev of
            Some p \<Rightarrow> setNext p nxt
          | None \<Rightarrow> modM (\<lambda>s. s\<lparr>usedOps := nxt\<rparr>))
    (seqM (case nxt of Some n \<Rightarrow> setPrev n prev | None \<Rightarrow> retM ())
    (bindM (readM freeOps) (\<lambda>f.
     seqM (setNext op f)
    (seqM (setPrev op None)
    (seqM (case f of Some n \<Rightarrow> setPrev n (Some op) | None \<Rightarrow> retM ())
     (modM (\<lambda>s. s\<lparr>freeOps := Some op\<rparr>)))))))))"

section \<open>The pools of expressions\<close>

definition new_pexpr :: "(plan_manager, nat option) comp" where
  "new_pexpr =
    bindM (readM numExprs) (\<lambda>n.
    if n \<ge> P_MAX_EXPRS then retM None
    else seqM (modM (\<lambda>s. s\<lparr>numExprs := n + 1\<rparr>)) (retM (Some n)))"

definition new_pbexpr :: "(plan_manager, nat option) comp" where
  "new_pbexpr =
    bindM (readM numBExprs) (\<lambda>n.
    if n \<ge> P_MAX_EXPRS then retM None
    else seqM (modM (\<lambda>s. s\<lparr>numBExprs := n + 1\<rparr>)) (retM (Some n)))"

section \<open>Helpers of the constructors\<close>

definition phy_copy_schema :: "nat \<Rightarrow> nat \<Rightarrow> (plan_manager, unit) comp" where
  "phy_copy_schema dest src =
    bindM (pget src) (\<lambda>s. pset dest (\<lambda>x. x\<lparr>pschema := pschema s\<rparr>))"

text \<open>The bound of the arrays is only asserted: one column too many is written past them.\<close>

definition phy_append_schema :: "nat \<Rightarrow> nat \<Rightarrow> (plan_manager, unit) comp" where
  "phy_append_schema dest src =
    bindM (pget src) (\<lambda>s.
    bindM (pget dest) (\<lambda>d.
    seqM (ensureM (length (pschema d) + length (pschema s) \<le> MAX_ATTRS))
    (pset dest (\<lambda>x. x\<lparr>pschema := pschema d @ pschema s\<rparr>))))"

definition addOutput :: "nat \<Rightarrow> nat \<Rightarrow> (plan_manager, unit) comp" where
  "addOutput child parent =
    bindM (pget child) (\<lambda>c.
    if length (poutputs c) \<ge> MAX_OUT_BRANCHING then failM (- 1)
    else pset child (\<lambda>x. x\<lparr>poutputs := poutputs c @ [parent]\<rparr>))"

definition phyAttrType :: "pattr \<Rightarrow> nat \<Rightarrow> (plan_manager, ctype) comp" where
  "phyAttrType attr child =
    bindM (pget child) (\<lambda>c. bindM (nthM (pschema c) (attrPos attr)) (\<lambda>col. retM (fst col)))"

definition phyAttrLen :: "pattr \<Rightarrow> nat \<Rightarrow> (plan_manager, nat option) comp" where
  "phyAttrLen attr child =
    bindM (pget child) (\<lambda>c. bindM (nthM (pschema c) (attrPos attr)) (\<lambda>col. retM (snd col)))"

section \<open>From logical to physical expressions\<close>

text \<open>
  An attribute becomes the position of the first equal attribute in the schemas of the inputs of
  the logical operator.  If there is none the code returns a structure it has not initialised.
\<close>

fun find_attr :: "lattr \<Rightarrow> lattr list list \<Rightarrow> nat \<Rightarrow> pattr option" where
  "find_attr x [] i = None"
| "find_attr x (as # ass) i =
    (case find_first (attr_eq x) as of
      Some a \<Rightarrow> Some \<lparr>attrInput = i, attrPos = a\<rparr>
    | None \<Rightarrow> find_attr x ass (Suc i))"

definition phyTransformAttr :: "(nat \<Rightarrow> lop) \<Rightarrow> nat \<Rightarrow> lattr \<Rightarrow> ('s, pattr) comp" where
  "phyTransformAttr h l x = derefM (find_attr x (map (\<lambda>i. outAttrs (h i)) (linputs (h l))) 0)"

primrec phyTransformExpr ::
    "(nat \<Rightarrow> lop) \<Rightarrow> nat \<Rightarrow> lexpr \<Rightarrow> (plan_manager, pexpr option) comp" where
  "phyTransformExpr h l (LE_CONST c) =
    bindM new_pexpr (\<lambda>r. case r of None \<Rightarrow> retM None | Some _ \<Rightarrow> retM (Some (PE_CONST c)))"
| "phyTransformExpr h l (LE_ATTR t a) =
    bindM new_pexpr (\<lambda>r. case r of None \<Rightarrow> retM None | Some _ \<Rightarrow>
      bindM (phyTransformAttr h l a) (\<lambda>pa. retM (Some (PE_ATTR t pa))))"
| "phyTransformExpr h l (LE_COMP t op left right) =
    bindM new_pexpr (\<lambda>r. case r of None \<Rightarrow> retM None | Some _ \<Rightarrow>
      bindM (phyTransformExpr h l left) (\<lambda>lp.
      bindM (phyTransformExpr h l right) (\<lambda>rp.
      retM (case (lp, rp) of (Some x, Some y) \<Rightarrow> Some (PE_COMP t op x y) | _ \<Rightarrow> None))))"

text \<open>The same through a pointer: the expression is read once there is a node for its copy.\<close>

definition phyTransformExprPtr ::
    "(nat \<Rightarrow> lop) \<Rightarrow> nat \<Rightarrow> lexpr option \<Rightarrow> (plan_manager, pexpr option) comp" where
  "phyTransformExprPtr h l e =
    (case e of
      Some x \<Rightarrow> phyTransformExpr h l x
    | None \<Rightarrow> bindM new_pexpr (\<lambda>r. case r of None \<Rightarrow> retM None | Some _ \<Rightarrow> undefM))"

definition phyTransformBExpr ::
    "(nat \<Rightarrow> lop) \<Rightarrow> nat \<Rightarrow> lbexpr \<Rightarrow> (plan_manager, pbexpr option) comp" where
  "phyTransformBExpr h l b =
    bindM (phyTransformExprPtr h l (lbLeft b)) (\<lambda>lp.
    bindM (phyTransformExprPtr h l (lbRight b)) (\<lambda>rp.
    case (lp, rp) of
      (Some x, Some y) \<Rightarrow>
        bindM new_pbexpr (\<lambda>r. case r of None \<Rightarrow> retM None
          | Some _ \<Rightarrow> retM (Some \<lparr>pbOp = lbOp b, pbLeft = x, pbRight = y\<rparr>))
    | _ \<Rightarrow> retM None))"

end
