(* ===== verification/Phy_Gen.thy ===== *)
theory Phy_Gen
  imports Phy_Op
begin

text \<open>
  \<open>src/metadata/gen_phy_plan.cc\<close>: from a logical plan to physical operators.  The functions that
  build the physical operator for the root of a logical plan take the heap of the logical
  operators, the logical operator and the physical plans of its inputs.  Functions whose name a
  logical constructor has already are prefixed with \<open>phy_\<close>.
\<close>

section \<open>One operator\<close>

text \<open>The pattern \<open>op = new_op (kind); if (!op) return -1; \<dots>; phyPlan = op; return 0;\<close>\<close>

definition withOp :: "pkind \<Rightarrow> (nat \<Rightarrow> (plan_manager, unit) comp) \<Rightarrow> (plan_manager, nat) comp" where
  "withOp k body =
    bindM (new_op k) (\<lambda>r.
    case r of None \<Rightarrow> failM (- 1) | Some op \<Rightarrow> seqM (body op) (retM op))"

text \<open>Linking an operator to its inputs: \<open>bStream\<close>, \<open>numOutputs\<close>, \<open>inputs\<close>, then \<open>addOutput\<close> for each.\<close>

definition link :: "nat \<Rightarrow> bool \<Rightarrow> nat list \<Rightarrow> (plan_manager, unit) comp" where
  "link op stream children =
    seqM (pset op (\<lambda>x. x\<lparr>pbStream := stream, poutputs := [], pinputs := children\<rparr>))
    (forM children (\<lambda>c. addOutput c op))"

text \<open>The operators with the schema of their only input.\<close>

definition phy_unary ::
    "pkind \<Rightarrow> nat \<Rightarrow> (phyop \<Rightarrow> bool) \<Rightarrow> (nat \<Rightarrow> (plan_manager, unit) comp) \<Rightarrow> (plan_manager, nat) comp" where
  "phy_unary k child stream fill =
    withOp k (\<lambda>op.
      seqM (phy_copy_schema op child)
      (bindM (pget child) (\<lambda>c.
       seqM (link op (stream c) [child])
       (fill op))))"

definition setUnion :: "punion \<Rightarrow> nat \<Rightarrow> (plan_manager, unit) comp" where
  "setUnion u op = pset op (\<lambda>x. x\<lparr>pu := u\<rparr>)"

section \<open>Sources\<close>

text \<open>
  The first entry for the table in \<open>sourceOps\<close>.  That there is one is only asserted: without it the
  operator at position 0 is taken.
\<close>

definition find_source :: "nat \<Rightarrow> (nat \<times> nat) list \<Rightarrow> nat" where
  "find_source t srcs =
    (case find_first (\<lambda>e. fst e = t) srcs of Some n \<Rightarrow> snd (srcs ! n) | None \<Rightarrow> 0)"

definition phy_mk_stream_source :: "nat \<Rightarrow> (plan_manager, nat) comp" where
  "phy_mk_stream_source strId = readM (\<lambda>s. find_source strId (sourceOps s))"

definition phy_mk_reln_source :: "nat \<Rightarrow> (plan_manager, nat) comp" where
  "phy_mk_reln_source relId = readM (\<lambda>s. find_source relId (sourceOps s))"

section \<open>Windows\<close>

definition mk_row_win :: "nat \<Rightarrow> nat \<Rightarrow> (plan_manager, nat) comp" where
  "mk_row_win numRows child = phy_unary PO_ROW_WIN child (\<lambda>_. False) (setUnion (U_ROW_WIN numRows))"

definition mk_range_win :: "nat \<Rightarrow> nat \<Rightarrow> (plan_manager, nat) comp" where
  "mk_range_win timeUnits child =
    phy_unary PO_RANGE_WIN child (\<lambda>_. False) (setUnion (U_RANGE_WIN timeUnits))"

definition mk_now_win :: "nat \<Rightarrow> (plan_manager, nat) comp" where
  "mk_now_win child = phy_unary PO_RANGE_WIN child (\<lambda>_. False) (setUnion (U_RANGE_WIN 1))"

definition mk_partn_win ::
    "(nat \<Rightarrow> lop) \<Rightarrow> nat \<Rightarrow> lattr list \<Rightarrow> nat \<Rightarrow> nat \<Rightarrow> (plan_manager, nat) comp" where
  "mk_partn_win h l as numRows child =
    phy_unary PO_PARTN_WIN child (\<lambda>_. False) (\<lambda>op.
      seqM (ensureM (length as \<le> LOP_GROUP_ATTRS))
      (bindM (mapM (phyTransformAttr h l) as) (\<lambda>pas.
       setUnion (U_PARTN_WIN pas numRows) op)))"

section \<open>Selection and projection\<close>

text \<open>
  A selection over a physical selection becomes one more atomic predicate of it, put in front of
  the others.
\<close>

definition phy_mk_select ::
    "(nat \<Rightarrow> lop) \<Rightarrow> nat \<Rightarrow> lbexpr \<Rightarrow> nat \<Rightarrow> (plan_manager, nat) comp" where
  "phy_mk_select h l b child =
    bindM (phyTransformBExpr h l b) (\<lambda>r.
    case r of
      None \<Rightarrow> failM (- 1)
    | Some pred \<Rightarrow>
        bindM (pget child) (\<lambda>c.
        if pkind c = PO_SELECT then
          (case pu c of
            U_SELECT preds \<Rightarrow> seqM (setUnion (U_SELECT (pred # preds)) child) (retM child)
          | _ \<Rightarrow> undefM)
        else phy_unary PO_SELECT child pbStream (setUnion (U_SELECT [pred]))))"

text \<open>\<open>project -> u.PROJECT.projs [p] = e\<close> for the next \<open>p\<close>\<close>

definition addProj :: "nat \<Rightarrow> pexpr \<Rightarrow> (plan_manager, unit) comp" where
  "addProj op e =
    bindM (pget op) (\<lambda>x.
    case pu x of
      U_PROJECT es \<Rightarrow>
        seqM (ensureM (length es < MAX_ATTRS)) (setUnion (U_PROJECT (es @ [e])) op)
    | _ \<Rightarrow> undefM)"

definition mk_dummy_project :: "nat \<Rightarrow> (plan_manager, nat) comp" where
  "mk_dummy_project child =
    phy_unary PO_PROJECT child pbStream (\<lambda>op.
      seqM (setUnion (U_PROJECT []) op)
      (bindM (pget op) (\<lambda>x.
       forM [0 ..< length (pschema x)] (\<lambda>a.
         bindM new_pexpr (\<lambda>r.
         case r of None \<Rightarrow> failM (- 1)
         | Some _ \<Rightarrow> addProj op (PE_ATTR (fst (pschema x ! a)) \<lparr>attrInput = 0, attrPos = a\<rparr>))))))"

text \<open>The column of a projection expression: an expression over characters is an attribute.\<close>

definition proj_column :: "pcolumn list \<Rightarrow> pexpr \<Rightarrow> ('s, pcolumn) comp" where
  "proj_column child e =
    (case pexpr_type e of
      T_INT \<Rightarrow> retM (T_INT, Some INT_SIZE)
    | T_FLOAT \<Rightarrow> retM (T_FLOAT, Some FLOAT_SIZE)
    | T_BYTE \<Rightarrow> retM (T_BYTE, Some BYTE_SIZE)
    | T_CHAR \<Rightarrow>
        (case e of
          PE_ATTR t a \<Rightarrow> bindM (nthM child (attrPos a)) (\<lambda>c. retM (T_CHAR, snd c))
        | _ \<Rightarrow> undefM))"

definition phy_mk_project ::
    "(nat \<Rightarrow> lop) \<Rightarrow> nat \<Rightarrow> lexpr list \<Rightarrow> nat \<Rightarrow> (plan_manager, nat) comp" where
  "phy_mk_project h l es child =
    withOp PO_PROJECT (\<lambda>op.
      seqM (setUnion (U_PROJECT []) op)
      (seqM (forM [0 ..< length (outAttrs (h l))] (\<lambda>p.
         bindM (nthM es p) (\<lambda>e.
         bindM (phyTransformExpr h l e) (\<lambda>r.
         case r of None \<Rightarrow> failM (- 1) | Some pe \<Rightarrow> addProj op pe))))
      (bindM (pget op) (\<lambda>x.
       bindM (pget child) (\<lambda>c.
       case pu x of
         U_PROJECT pes \<Rightarrow>
           bindM (mapM (proj_column (pschema c)) pes) (\<lambda>cols.
           seqM (pset op (\<lambda>x. x\<lparr>pschema := cols\<rparr>))
           (link op (pbStream c) [child]))
       | _ \<Rightarrow> undefM)))))"

section \<open>Joins\<close>

text \<open>
  The two counters of the union are written before the operator is linked and its null predicate
  after that; nothing reads the union in between, so the model writes it once.
\<close>

definition phy_join ::
    "pkind \<Rightarrow> (bool \<Rightarrow> bool \<Rightarrow> bool) \<Rightarrow> (nat \<Rightarrow> nat \<Rightarrow> punion) \<Rightarrow> nat \<Rightarrow> nat \<Rightarrow> (plan_manager, nat) comp" where
  "phy_join k stream u left right =
    withOp k (\<lambda>op.
      seqM (phy_append_schema op left)
      (seqM (phy_append_schema op right)
      (bindM (pget left) (\<lambda>lo.
       bindM (pget right) (\<lambda>ro.
       seqM (link op (stream (pbStream lo) (pbStream ro)) [left, right])
       (setUnion (u (length (pschema lo)) (length (pschema ro))) op))))))"

definition mk_join :: "nat \<Rightarrow> nat \<Rightarrow> (plan_manager, nat) comp" where
  "mk_join left right = phy_join PO_JOIN (\<and>) (\<lambda>m n. U_JOIN m n []) left right"

definition mk_str_join :: "nat \<Rightarrow> nat \<Rightarrow> (plan_manager, nat) comp" where
  "mk_str_join left right = phy_join PO_STR_JOIN (\<lambda>_ _. True) (\<lambda>m n. U_STR_JOIN m n []) left right"

section \<open>Aggregation\<close>

definition aggr_attr_pos ::
    "(nat \<Rightarrow> lop) \<Rightarrow> nat \<Rightarrow> lattr \<times> aggr_fn \<Rightarrow> (plan_manager, pattr \<times> aggr_fn) comp" where
  "aggr_attr_pos h l af =
    (if snd af \<noteq> F_COUNT
     then bindM (phyTransformAttr h l (fst af)) (\<lambda>pa. retM (pa, snd af))
     else retM (\<lparr>attrInput = 0, attrPos = 0\<rparr>, snd af))"

text \<open>No branch sets the length of an aggregation that yields characters.\<close>

definition aggr_column :: "nat \<Rightarrow> pattr \<times> aggr_fn \<Rightarrow> (plan_manager, pcolumn) comp" where
  "aggr_column child af =
    bindM (phyAttrType (fst af) child) (\<lambda>ty.
    retM (case getOutputType (snd af) ty of
        T_INT \<Rightarrow> (T_INT, Some INT_SIZE)
      | T_FLOAT \<Rightarrow> (T_FLOAT, Some FLOAT_SIZE)
      | T_BYTE \<Rightarrow> (T_BYTE, Some BYTE_SIZE)
      | T_CHAR \<Rightarrow> (T_CHAR, None)))"

definition phy_mk_group_aggr ::
    "(nat \<Rightarrow> lop) \<Rightarrow> nat \<Rightarrow> lattr list \<Rightarrow> (lattr \<times> aggr_fn) list \<Rightarrow> nat \<Rightarrow> (plan_manager, nat) comp" where
  "phy_mk_group_aggr h l gs as child =
    withOp PO_GROUP_AGGR (\<lambda>op.
      seqM (ensureM (length gs \<le> LOP_GROUP_ATTRS \<and> length as \<le> MAX_AGGR_ATTRS))
      (bindM (mapM (phyTransformAttr h l) gs) (\<lambda>pgs.
       bindM (mapM (aggr_attr_pos h l) as) (\<lambda>pas.
       seqM (setUnion (U_GROUP_AGGR pgs pas) op)
      (seqM (ensureM (length gs + length as \<le> MAX_ATTRS))
      (bindM (mapM (\<lambda>g. bindM (phyAttrType g child) (\<lambda>ty.
                        bindM (phyAttrLen g child) (\<lambda>len. retM (ty, len)))) pgs) (\<lambda>gcols.
       bindM (mapM (aggr_column child) pas) (\<lambda>acols.
       seqM (pset op (\<lambda>x. x\<lparr>pschema := gcols @ acols\<rparr>))
       (link op False [child])))))))))"

section \<open>Duplicates and streams\<close>

definition phy_mk_distinct :: "nat \<Rightarrow> (plan_manager, nat) comp" where
  "phy_mk_distinct child = phy_unary PO_DISTINCT child pbStream (\<lambda>_. retM ())"

definition phy_mk_istream :: "nat \<Rightarrow> (plan_manager, nat) comp" where
  "phy_mk_istream child = phy_unary PO_ISTREAM child (\<lambda>_. True) (\<lambda>_. retM ())"

definition phy_mk_dstream :: "nat \<Rightarrow> (plan_manager, nat) comp" where
  "phy_mk_dstream child = phy_unary PO_DSTREAM child (\<lambda>_. True) (\<lambda>_. retM ())"

definition phy_mk_rstream :: "nat \<Rightarrow> (plan_manager, nat) comp" where
  "phy_mk_rstream child = phy_unary PO_RSTREAM child (\<lambda>_. True) (\<lambda>_. retM ())"

section \<open>Union and difference\<close>

text \<open>The longer of two lengths; one that was never set makes the choice unknown.\<close>

definition longer :: "nat option \<Rightarrow> nat option \<Rightarrow> nat option" where
  "longer m n = (case (m, n) of (Some x, Some y) \<Rightarrow> Some (if x > y then x else y) | _ \<Rightarrow> None)"

definition binary_column :: "pcolumn list \<Rightarrow> nat \<Rightarrow> pcolumn \<Rightarrow> ('s, pcolumn) comp" where
  "binary_column right a col =
    (if fst col = T_CHAR then bindM (nthM right a) (\<lambda>r. retM (T_CHAR, longer (snd col) (snd r)))
     else retM col)"

definition phy_binary :: "pkind \<Rightarrow> (bool \<Rightarrow> bool \<Rightarrow> bool) \<Rightarrow> nat \<Rightarrow> nat \<Rightarrow> (plan_manager, nat) comp" where
  "phy_binary k stream left right =
    withOp k (\<lambda>op.
      bindM (pget left) (\<lambda>lo.
      bindM (pget right) (\<lambda>ro.
      bindM (mapM (\<lambda>a. binary_column (pschema ro) a (pschema lo ! a)) [0 ..< length (pschema lo)]) (\<lambda>cols.
      seqM (pset op (\<lambda>x. x\<lparr>pschema := cols\<rparr>))
      (link op (stream (pbStream lo) (pbStream ro)) [left, right])))))"

definition phy_mk_union :: "nat \<Rightarrow> nat \<Rightarrow> (plan_manager, nat) comp" where
  "phy_mk_union left right = phy_binary PO_UNION (\<and>) left right"

definition phy_mk_except :: "nat \<Rightarrow> nat \<Rightarrow> (plan_manager, nat) comp" where
  "phy_mk_except left right = phy_binary PO_EXCEPT (\<lambda>_ _. False) left right"

section \<open>The ends of a query\<close>

definition mk_qry_src :: "nat \<Rightarrow> (plan_manager, nat) comp" where
  "mk_qry_src phyPlan = phy_unary PO_QUERY_SOURCE phyPlan pbStream (\<lambda>_. retM ())"

definition mk_output :: "nat \<Rightarrow> (plan_manager, nat) comp" where
  "mk_output phyPlan = phy_unary PO_OUTPUT phyPlan pbStream (\<lambda>_. retM ())"

definition mk_sink :: "nat \<Rightarrow> (plan_manager, nat) comp" where
  "mk_sink op = phy_unary PO_SINK op pbStream (\<lambda>_. retM ())"

definition mk_drop :: "nat \<Rightarrow> (plan_manager, nat) comp" where
  "mk_drop child = phy_unary PO_DROP child (\<lambda>_. True) (setUnion (U_DROP 0))"

section \<open>Plans\<close>

text \<open>
  \<open>phyChildPlans [i]\<close>: the array has an entry for every input of the logical operator.
\<close>

definition phy_root ::
    "(nat \<Rightarrow> lop) \<Rightarrow> nat \<Rightarrow> nat list \<Rightarrow> (plan_manager, nat) comp" where
  "phy_root h l cs =
    (case lkind (h l) of
      LO_STREAM_SOURCE v t \<Rightarrow> phy_mk_stream_source t
    | LO_RELN_SOURCE v t \<Rightarrow> phy_mk_reln_source t
    | LO_ROW_WIN n \<Rightarrow> bindM (nthM cs 0) (mk_row_win n)
    | LO_RANGE_WIN n \<Rightarrow> bindM (nthM cs 0) (mk_range_win n)
    | LO_NOW_WIN \<Rightarrow> bindM (nthM cs 0) mk_now_win
    | LO_PARTN_WIN as n \<Rightarrow> bindM (nthM cs 0) (mk_partn_win h l as n)
    | LO_SELECT b \<Rightarrow> bindM (nthM cs 0) (phy_mk_select h l b)
    | LO_PROJECT es \<Rightarrow> bindM (nthM cs 0) (phy_mk_project h l es)
    | LO_CROSS \<Rightarrow>
        if length cs \<noteq> 2 then failM (- 1)
        else bindM (nthM cs 0) (\<lambda>c. bindM (nthM cs 1) (mk_join c))
    | LO_STREAM_CROSS \<Rightarrow>
        if length cs \<noteq> 2 then failM (- 1)
        else bindM (nthM cs 0) (\<lambda>c. bindM (nthM cs 1) (mk_str_join c))
    | LO_GROUP_AGGR gs as \<Rightarrow> bindM (nthM cs 0) (phy_mk_group_aggr h l gs as)
    | LO_DISTINCT \<Rightarrow> bindM (nthM cs 0) phy_mk_distinct
    | LO_ISTREAM \<Rightarrow> bindM (nthM cs 0) phy_mk_istream
    | LO_DSTREAM \<Rightarrow> bindM (nthM cs 0) phy_mk_dstream
    | LO_RSTREAM \<Rightarrow> bindM (nthM cs 0) phy_mk_rstream
    | LO_UNION \<Rightarrow> bindM (nthM cs 0) (\<lambda>c. bindM (nthM cs 1) (phy_mk_union c))
    | LO_EXCEPT \<Rightarrow> bindM (nthM cs 0) (\<lambda>c. bindM (nthM cs 1) (phy_mk_except c)))"

text \<open>
  The recursion goes down the logical plan: one that is deeper than the pool of logical operators
  is large has met an operator twice and never ends.
\<close>

primrec genPhysical :: "nat \<Rightarrow> (nat \<Rightarrow> lop) \<Rightarrow> nat \<Rightarrow> (plan_manager, nat) comp" where
  "genPhysical 0 h l = undefM"
| "genPhysical (Suc fuel) h l =
    bindM (mapM (genPhysical fuel h) (linputs (h l))) (phy_root h l)"

definition genPhysicalPlan :: "(nat \<Rightarrow> lop) \<Rightarrow> nat \<Rightarrow> (plan_manager, nat) comp" where
  "genPhysicalPlan h logPlan = genPhysical MAXOPERATOR h logPlan"

end
