(* ===== verification/Plan_Trans.thy ===== *)
theory Plan_Trans
  imports Phy_Gen
begin

text \<open>
  \<open>src/metadata/plan_trans.cc\<close>: the transformations of the global physical plan, and the search for
  operators that compute the same.
\<close>

section \<open>Links between operators\<close>

text \<open>A position that is not found is 0 in both functions.\<close>

definition getOutputIndex :: "phyop \<Rightarrow> nat \<Rightarrow> nat" where
  "getOutputIndex child parent =
    (case find_first (\<lambda>q. q = parent) (poutputs child) of Some n \<Rightarrow> n | None \<Rightarrow> 0)"

definition getInputIndex :: "phyop \<Rightarrow> nat \<Rightarrow> nat" where
  "getInputIndex parent child =
    (case find_first (\<lambda>q. q = child) (pinputs parent) of Some n \<Rightarrow> n | None \<Rightarrow> 0)"

text \<open>The outputs of \<open>op\<close> are first all added to those of its input, then \<open>op\<close> is taken out.\<close>

definition shortCircuitInputOutput :: "nat \<Rightarrow> (plan_manager, unit) comp" where
  "shortCircuitInputOutput op =
    bindM (pget op) (\<lambda>x.
    bindM (nthM (pinputs x) 0) (\<lambda>inOp.
    bindM (pget inOp) (\<lambda>i.
    seqM (forM (poutputs x) (\<lambda>q.
      seqM (pset q (\<lambda>y. y\<lparr>pinputs := (pinputs y)[getInputIndex y op := inOp]\<rparr>))
      (addOutput inOp q)))
    (bindM (pget inOp) (\<lambda>i'.
     seqM (ensureM (poutputs i' \<noteq> []))
     (pset inOp (\<lambda>y. y\<lparr>poutputs :=
        butlast ((poutputs i')[getOutputIndex i op := last (poutputs i')])\<rparr>)))))))"

text \<open>
  A loop over the list of used operators that takes out the operators for which the test succeeds.
  The list has at most \<open>P_MAX_OPS\<close> elements; a walk that is longer never ends.
\<close>

fun removeLoop :: "(nat \<Rightarrow> (plan_manager, bool) comp) \<Rightarrow> nat \<Rightarrow> nat option \<Rightarrow> (plan_manager, unit) comp" where
  "removeLoop test fuel None = retM ()"
| "removeLoop test 0 (Some op) = undefM"
| "removeLoop test (Suc fuel) (Some op) =
    bindM (test op) (\<lambda>b.
    if b then
      seqM (shortCircuitInputOutput op)
      (bindM (readM (\<lambda>s. opNext s op)) (\<lambda>nextOp.
       seqM (free_op op) (removeLoop test fuel nextOp)))
    else bindM (readM (\<lambda>s. opNext s op)) (removeLoop test fuel))"

definition removeOps :: "(nat \<Rightarrow> (plan_manager, bool) comp) \<Rightarrow> (plan_manager, unit) comp" where
  "removeOps test = bindM (readM usedOps) (removeLoop test P_MAX_OPS)"

definition removeQuerySources :: "(plan_manager, unit) comp" where
  "removeQuerySources = removeOps (\<lambda>op. bindM (pget op) (\<lambda>x. retM (pkind x = PO_QUERY_SOURCE)))"

fun addSinksLoop :: "nat \<Rightarrow> nat option \<Rightarrow> (plan_manager, unit) comp" where
  "addSinksLoop fuel None = retM ()"
| "addSinksLoop 0 (Some op) = undefM"
| "addSinksLoop (Suc fuel) (Some op) =
    bindM (pget op) (\<lambda>x.
    seqM (if poutputs x = [] \<and> pkind x \<noteq> PO_OUTPUT \<and> pkind x \<noteq> PO_SS_GEN
          then bindM (mk_sink op) (\<lambda>_. retM ()) else retM ())
    (bindM (readM (\<lambda>s. opNext s op)) (addSinksLoop fuel)))"

definition addSinks :: "(plan_manager, unit) comp" where
  "addSinks = bindM (readM usedOps) (addSinksLoop P_MAX_OPS)"

section \<open>Merging selections and projections into joins\<close>

text \<open>\<open>n\<close> is \<open>numOuterAttrs\<close> of the join.\<close>

definition transToJoinAttr :: "nat \<Rightarrow> pattr \<Rightarrow> pattr" where
  "transToJoinAttr n a =
    (if n \<le> attrPos a then \<lparr>attrInput = 1, attrPos = attrPos a - n\<rparr> else a)"

primrec transToJoinExpr :: "nat \<Rightarrow> pexpr \<Rightarrow> pexpr" where
  "transToJoinExpr n (PE_CONST c) = PE_CONST c"
| "transToJoinExpr n (PE_ATTR t a) = PE_ATTR t (transToJoinAttr n a)"
| "transToJoinExpr n (PE_COMP t op l r) = PE_COMP t op (transToJoinExpr n l) (transToJoinExpr n r)"

definition transToJoinPred :: "nat \<Rightarrow> pbexpr list \<Rightarrow> pbexpr list" where
  "transToJoinPred n bs = map (\<lambda>b. b\<lparr>pbLeft := transToJoinExpr n (pbLeft b),
                                    pbRight := transToJoinExpr n (pbRight b)\<rparr>) bs"

definition selectPred :: "nat \<Rightarrow> (plan_manager, pbexpr list) comp" where
  "selectPred op = bindM (pget op) (\<lambda>x. case pu x of U_SELECT bs \<Rightarrow> retM bs | _ \<Rightarrow> undefM)"

text \<open>The predicate of the selection is transformed in place, then appended to that of its input.\<close>

definition mergeSelect :: "nat \<Rightarrow> (plan_manager, bool) comp" where
  "mergeSelect op =
    bindM (pget op) (\<lambda>x.
    bindM (nthM (pinputs x) 0) (\<lambda>inOp.
    bindM (pget inOp) (\<lambda>i.
    if length (poutputs i) \<noteq> 1 then retM False
    else if pkind i = PO_SELECT then
      bindM (selectPred inOp) (\<lambda>cs.
      bindM (selectPred op) (\<lambda>bs.
      seqM (setUnion (U_SELECT (cs @ bs)) inOp) (retM True)))
    else if pkind i = PO_JOIN then
      bindM (selectPred op) (\<lambda>bs.
      case pu i of
        U_JOIN n m cs \<Rightarrow>
          seqM (setUnion (U_SELECT (transToJoinPred n bs)) op)
          (seqM (setUnion (U_JOIN n m (cs @ transToJoinPred n bs)) inOp) (retM True))
      | _ \<Rightarrow> undefM)
    else if pkind i = PO_STR_JOIN then
      bindM (selectPred op) (\<lambda>bs.
      case pu i of
        U_STR_JOIN n m cs \<Rightarrow>
          seqM (setUnion (U_SELECT (transToJoinPred n bs)) op)
          (seqM (setUnion (U_STR_JOIN n m (cs @ transToJoinPred n bs)) inOp) (retM True))
      | _ \<Rightarrow> undefM)
    else retM False)))"

definition mergeSelects :: "(plan_manager, unit) comp" where
  "mergeSelects = removeOps (\<lambda>op.
     bindM (pget op) (\<lambda>x. if pkind x = PO_SELECT then mergeSelect op else retM False))"

definition projectExprs :: "nat \<Rightarrow> (plan_manager, pexpr list) comp" where
  "projectExprs op = bindM (pget op) (\<lambda>x.
     case pu x of
       U_PROJECT es \<Rightarrow>
         seqM (ensureM (length (pschema x) \<le> length es)) (retM (take (length (pschema x)) es))
     | _ \<Rightarrow> undefM)"

definition mergeProject :: "nat \<Rightarrow> (plan_manager, bool) comp" where
  "mergeProject project =
    bindM (pget project) (\<lambda>x.
    bindM (nthM (pinputs x) 0) (\<lambda>inOp.
    bindM (pget inOp) (\<lambda>i.
    if length (poutputs i) > 1 then retM False
    else if pkind i = PO_JOIN then
      (case pu i of
        U_JOIN n m pred \<Rightarrow>
          bindM (projectExprs project) (\<lambda>es.
          seqM (setUnion (U_PROJECT (map (transToJoinExpr n) es)) project)
          (seqM (pset inOp (\<lambda>y. y\<lparr>pkind := PO_JOIN_PROJECT, pschema := pschema x,
             pu := U_JOIN_PROJECT (map (transToJoinExpr n) es) pred\<rparr>))
          (retM True)))
      | _ \<Rightarrow> undefM)
    else if pkind i = PO_STR_JOIN then
      (case pu i of
        U_STR_JOIN n m pred \<Rightarrow>
          bindM (projectExprs project) (\<lambda>es.
          seqM (setUnion (U_PROJECT (map (transToJoinExpr n) es)) project)
          (seqM (pset inOp (\<lambda>y. y\<lparr>pkind := PO_STR_JOIN_PROJECT, pschema := pschema x,
             pu := U_STR_JOIN_PROJECT (map (transToJoinExpr n) es) pred\<rparr>))
          (retM True)))
      | _ \<Rightarrow> undefM)
    else retM False)))"

definition mergeProjectsToJoin :: "(plan_manager, unit) comp" where
  "mergeProjectsToJoin = removeOps (\<lambda>op.
     bindM (pget op) (\<lambda>x. if pkind x = PO_PROJECT then mergeProject op else retM False))"

section \<open>Internal aggregations\<close>

definition aggrsOf :: "nat \<Rightarrow> (plan_manager, pattr list \<times> (pattr \<times> aggr_fn) list) comp" where
  "aggrsOf op = bindM (pget op) (\<lambda>x. case pu x of U_GROUP_AGGR gs as \<Rightarrow> retM (gs, as) | _ \<Rightarrow> undefM)"

definition existsCount :: "(pattr \<times> aggr_fn) list \<Rightarrow> bool" where
  "existsCount as = list_ex (\<lambda>a. snd a = F_COUNT) as"

definition existsSum :: "(pattr \<times> aggr_fn) list \<Rightarrow> pattr \<Rightarrow> bool" where
  "existsSum as attr = list_ex (\<lambda>a. fst a = attr \<and> snd a = F_SUM) as"

text \<open>The aggregation stays when there is no space for its column.\<close>

definition addAggr :: "nat \<Rightarrow> pattr \<times> aggr_fn \<Rightarrow> (plan_manager, pcolumn) comp \<Rightarrow> (plan_manager, unit) comp" where
  "addAggr op a column =
    bindM (aggrsOf op) (\<lambda>(gs, as).
    if length as \<ge> MAX_AGGR_ATTRS then failM (- 1)
    else
      seqM (setUnion (U_GROUP_AGGR gs (as @ [a])) op)
      (bindM (pget op) (\<lambda>x.
       if length (pschema x) \<ge> MAX_ATTRS then failM (- 1)
       else bindM column (\<lambda>col. pset op (\<lambda>y. y\<lparr>pschema := pschema x @ [col]\<rparr>)))))"

definition addCount :: "nat \<Rightarrow> (plan_manager, unit) comp" where
  "addCount op = addAggr op (\<lparr>attrInput = 0, attrPos = 0\<rparr>, F_COUNT) (retM (T_INT, Some INT_SIZE))"

definition addSum :: "nat \<Rightarrow> pattr \<Rightarrow> (plan_manager, unit) comp" where
  "addSum op attr = addAggr op (attr, F_SUM)
    (bindM (pget op) (\<lambda>x. bindM (nthM (pinputs x) 0) (\<lambda>i.
     bindM (pget i) (\<lambda>y. nthM (pschema y) (attrPos attr)))))"

definition addIntAggrsGby :: "nat \<Rightarrow> (plan_manager, unit) comp" where
  "addIntAggrsGby op =
    bindM (aggrsOf op) (\<lambda>(gs, as).
    bindM (pget op) (\<lambda>x.
    bindM (nthM (pinputs x) 0) (\<lambda>inp.
    bindM (pget inp) (\<lambda>i.
    seqM (if \<not> pbStream i \<and> \<not> existsCount as then addCount op else retM ())
    (forM as (\<lambda>a.
      if snd a \<noteq> F_AVG then retM ()
      else
        bindM (aggrsOf op) (\<lambda>(gs, as').
        seqM (if \<not> existsCount as' then addCount op else retM ())
        (bindM (aggrsOf op) (\<lambda>(gs, as'').
         if \<not> existsSum as'' (fst a) then addSum op (fst a) else retM ()))))))))) "

text \<open>A duplicate elimination has no aggregations: its union is read as if it had.\<close>

definition addIntAggrsDistinct :: "nat \<Rightarrow> (plan_manager, unit) comp" where
  "addIntAggrsDistinct op =
    bindM (pget op) (\<lambda>x.
    bindM (nthM (pinputs x) 0) (\<lambda>inp.
    bindM (pget inp) (\<lambda>i. if \<not> pbStream i then addCount op else retM ())))"

fun addIntAggrsLoop :: "nat \<Rightarrow> nat option \<Rightarrow> (plan_manager, unit) comp" where
  "addIntAggrsLoop fuel None = retM ()"
| "addIntAggrsLoop 0 (Some op) = undefM"
| "addIntAggrsLoop (Suc fuel) (Some op) =
    bindM (pget op) (\<lambda>x.
    seqM (if pkind x = PO_GROUP_AGGR then addIntAggrsGby op
          else if pkind x = PO_DISTINCT then addIntAggrsDistinct op else retM ())
    (bindM (readM (\<lambda>s. opNext s op)) (addIntAggrsLoop fuel)))"

definition addIntAggrs :: "(plan_manager, unit) comp" where
  "addIntAggrs = bindM (readM usedOps) (addIntAggrsLoop P_MAX_OPS)"

section \<open>Comparing operators\<close>

text \<open>\<open>operator ==\<close> on expressions: the types of attributes and complex expressions are not compared.\<close>

fun pexpr_eq :: "pexpr \<Rightarrow> pexpr \<Rightarrow> bool" where
  "pexpr_eq (PE_CONST (IVal x)) (PE_CONST (IVal y)) = (x = y)"
| "pexpr_eq (PE_CONST (FVal x)) (PE_CONST (FVal y)) = float_eq x y"
| "pexpr_eq (PE_CONST (BVal x)) (PE_CONST (BVal y)) = (x = y)"
| "pexpr_eq (PE_CONST (SVal x)) (PE_CONST (SVal y)) = (x = y)"
| "pexpr_eq (PE_COMP t op l r) (PE_COMP t' op' l' r') = (op = op' \<and> pexpr_eq l l' \<and> pexpr_eq r r')"
| "pexpr_eq (PE_ATTR t a) (PE_ATTR t' a') = (a = a')"
| "pexpr_eq _ _ = False"

fun preds_eq :: "pbexpr list \<Rightarrow> pbexpr list \<Rightarrow> bool" where
  "preds_eq [] [] = True"
| "preds_eq (b # bs) (c # cs) =
    (pbOp b = pbOp c \<and> pexpr_eq (pbLeft b) (pbLeft c) \<and> pexpr_eq (pbRight b) (pbRight c) \<and> preds_eq bs cs)"
| "preds_eq _ _ = False"

text \<open>Predicates are compared through pointers; that of a join without a predicate is null.\<close>

definition comparePreds :: "pbexpr list \<Rightarrow> pbexpr list \<Rightarrow> ('s, bool) comp" where
  "comparePreds bs cs = seqM (ensureM (bs \<noteq> [] \<and> cs \<noteq> [])) (retM (preds_eq bs cs))"

text \<open>A loop that returns \<open>false\<close> at the first difference.\<close>

primrec allM :: "('a \<Rightarrow> ('s, bool) comp) \<Rightarrow> 'a list \<Rightarrow> ('s, bool) comp" where
  "allM f [] = retM True"
| "allM f (x # xs) = bindM (f x) (\<lambda>b. if b then allM f xs else retM False)"

definition compareExprs :: "nat \<Rightarrow> pexpr list \<Rightarrow> pexpr list \<Rightarrow> ('s, bool) comp" where
  "compareExprs n es fs =
    allM (\<lambda>a. bindM (nthM es a) (\<lambda>e. bindM (nthM fs a) (\<lambda>f. retM (pexpr_eq e f)))) [0 ..< n]"

definition compareGroupAggrs ::
    "pattr list \<Rightarrow> (pattr \<times> aggr_fn) list \<Rightarrow> pattr list \<Rightarrow> (pattr \<times> aggr_fn) list \<Rightarrow> bool" where
  "compareGroupAggrs gs as gs' as' \<longleftrightarrow>
     length gs = length gs' \<and> length as = length as' \<and> as = as' \<and> gs = gs'"

definition comparePartnWins :: "pattr list \<Rightarrow> nat \<Rightarrow> pattr list \<Rightarrow> nat \<Rightarrow> bool" where
  "comparePartnWins as n as' n' \<longleftrightarrow> length as = length as' \<and> n = n' \<and> as = as'"

definition compareJoins ::
    "nat \<Rightarrow> nat \<Rightarrow> pbexpr list \<Rightarrow> nat \<Rightarrow> nat \<Rightarrow> pbexpr list \<Rightarrow> ('s, bool) comp" where
  "compareJoins n m bs n' m' cs =
    (if n \<noteq> n' then retM False else if m \<noteq> m' then retM False else comparePreds bs cs)"

definition compareJoinProjs ::
    "nat \<Rightarrow> pexpr list \<Rightarrow> pbexpr list \<Rightarrow> pexpr list \<Rightarrow> pbexpr list \<Rightarrow> ('s, bool) comp" where
  "compareJoinProjs k es bs fs cs =
    bindM (comparePreds bs cs) (\<lambda>b. if b then compareExprs k es fs else retM False)"

text \<open>The \<open>switch\<close> over the kind, which the two operators share.\<close>

definition compareUnions :: "phyop \<Rightarrow> phyop \<Rightarrow> ('s, bool) comp" where
  "compareUnions x y =
    (case pkind x of
      PO_SELECT \<Rightarrow> (case (pu x, pu y) of
          (U_SELECT bs, U_SELECT cs) \<Rightarrow> comparePreds bs cs | _ \<Rightarrow> undefM)
    | PO_PROJECT \<Rightarrow> (case (pu x, pu y) of
          (U_PROJECT es, U_PROJECT fs) \<Rightarrow> compareExprs (length (pschema x)) es fs | _ \<Rightarrow> undefM)
    | PO_JOIN \<Rightarrow> (case (pu x, pu y) of
          (U_JOIN n m bs, U_JOIN n' m' cs) \<Rightarrow> compareJoins n m bs n' m' cs | _ \<Rightarrow> undefM)
    | PO_STR_JOIN \<Rightarrow> (case (pu x, pu y) of
          (U_STR_JOIN n m bs, U_STR_JOIN n' m' cs) \<Rightarrow> compareJoins n m bs n' m' cs | _ \<Rightarrow> undefM)
    | PO_JOIN_PROJECT \<Rightarrow> (case (pu x, pu y) of
          (U_JOIN_PROJECT es bs, U_JOIN_PROJECT fs cs) \<Rightarrow>
            compareJoinProjs (length (pschema x)) es bs fs cs | _ \<Rightarrow> undefM)
    | PO_STR_JOIN_PROJECT \<Rightarrow> (case (pu x, pu y) of
          (U_STR_JOIN_PROJECT es bs, U_STR_JOIN_PROJECT fs cs) \<Rightarrow>
            compareJoinProjs (length (pschema x)) es bs fs cs | _ \<Rightarrow> undefM)
    | PO_GROUP_AGGR \<Rightarrow> (case (pu x, pu y) of
          (U_GROUP_AGGR gs as, U_GROUP_AGGR gs' as') \<Rightarrow> retM (compareGroupAggrs gs as gs' as')
        | _ \<Rightarrow> undefM)
    | PO_DISTINCT \<Rightarrow> retM True
    | PO_ROW_WIN \<Rightarrow> (case (pu x, pu y) of (U_ROW_WIN n, U_ROW_WIN m) \<Rightarrow> retM (n = m) | _ \<Rightarrow> undefM)
    | PO_RANGE_WIN \<Rightarrow> (case (pu x, pu y) of
          (U_RANGE_WIN n, U_RANGE_WIN m) \<Rightarrow> retM (n = m) | _ \<Rightarrow> undefM)
    | PO_PARTN_WIN \<Rightarrow> (case (pu x, pu y) of
          (U_PARTN_WIN as n, U_PARTN_WIN as' n') \<Rightarrow> retM (comparePartnWins as n as' n') | _ \<Rightarrow> undefM)
    | PO_ISTREAM \<Rightarrow> retM True
    | PO_DSTREAM \<Rightarrow> retM True
    | PO_RSTREAM \<Rightarrow> retM True
    | PO_UNION \<Rightarrow> retM True
    | PO_EXCEPT \<Rightarrow> retM True
    | _ \<Rightarrow> retM False)"

text \<open>The types and lengths of two schemas of the same length.\<close>

definition compareSchemas :: "pcolumn list \<Rightarrow> pcolumn list \<Rightarrow> ('s, bool) comp" where
  "compareSchemas xs ys = allM (\<lambda>(c, d).
     if fst c \<noteq> fst d then retM False
     else bindM (derefM (snd c)) (\<lambda>m. bindM (derefM (snd d)) (\<lambda>n. retM (m = n)))) (zip xs ys)"

primrec compareOps :: "nat \<Rightarrow> nat \<Rightarrow> nat \<Rightarrow> (plan_manager, bool) comp" where
  "compareOps 0 p q = undefM"
| "compareOps (Suc fuel) p q =
    bindM (pget p) (\<lambda>x.
    bindM (pget q) (\<lambda>y.
    if pid x = pid y then retM True
    else if pkind x \<noteq> pkind y then retM False
    else if length (pschema x) \<noteq> length (pschema y) then retM False
    else if pbStream x \<noteq> pbStream y then retM False
    else if length (pinputs x) \<noteq> length (pinputs y) then retM False
    else
      bindM (compareSchemas (pschema x) (pschema y)) (\<lambda>b.
      if \<not> b then retM False
      else
        bindM (allM (\<lambda>(i, j). compareOps fuel i j) (zip (pinputs x) (pinputs y))) (\<lambda>b.
        if \<not> b then retM False else compareUnions x y))))"

definition compareOperators :: "nat \<Rightarrow> nat \<Rightarrow> (plan_manager, bool) comp" where
  "compareOperators p q = compareOps P_MAX_OPS p q"

section \<open>Sharing operators\<close>

text \<open>The last position of \<open>p\<close>; the search does not stop at a hit.\<close>

definition last_index :: "nat \<Rightarrow> nat list \<Rightarrow> nat option" where
  "last_index p qs = map_option (\<lambda>k. length qs - 1 - k) (find_first (\<lambda>q. q = p) (rev qs))"

text \<open>
  The outputs of \<open>op2\<close> are written behind those of \<open>op1\<close> without a check; the counter of \<open>op1\<close>
  follows once all are there.
\<close>

fun moveOutputs :: "nat \<Rightarrow> nat \<Rightarrow> nat \<Rightarrow> nat list \<Rightarrow> (plan_manager, bool) comp" where
  "moveOutputs op1 op2 i [] = retM True"
| "moveOutputs op1 op2 i (q # qs) =
    seqM (ensureM (i < MAX_OUT_BRANCHING))
    (bindM (pget q) (\<lambda>y.
     case last_index op2 (pinputs y) of
       None \<Rightarrow> retM False
     | Some n \<Rightarrow>
         seqM (pset q (\<lambda>y. y\<lparr>pinputs := (pinputs y)[n := op1]\<rparr>)) (moveOutputs op1 op2 (Suc i) qs)))"

fun dropOutput :: "nat \<Rightarrow> nat list \<Rightarrow> (plan_manager, bool) comp" where
  "dropOutput op2 [] = retM True"
| "dropOutput op2 (i # is) =
    bindM (pget i) (\<lambda>y.
    case last_index op2 (poutputs y) of
      None \<Rightarrow> retM False
    | Some n \<Rightarrow>
        seqM (pset i (\<lambda>y. y\<lparr>poutputs := take n (poutputs y) @ drop (Suc n) (poutputs y)\<rparr>))
        (dropOutput op2 is))"

definition unlinkUsed :: "nat \<Rightarrow> (plan_manager, unit) comp" where
  "unlinkUsed op2 =
    bindM (readM (\<lambda>s. opNext s op2)) (\<lambda>nxt.
    bindM (readM (\<lambda>s. opPrev s op2)) (\<lambda>prev.
    bindM (derefM prev) (\<lambda>p.
    seqM (setNext p nxt)
    (bindM (derefM nxt) (\<lambda>n. setPrev n prev)))))"

definition mergeOperators :: "nat \<Rightarrow> nat \<Rightarrow> bool \<Rightarrow> (plan_manager, bool) comp" where
  "mergeOperators op1 op2 sharing_among_class =
    bindM (pget op1) (\<lambda>x.
    bindM (pget op2) (\<lambda>y.
    if query_class_id x \<noteq> query_class_id y \<and> \<not> sharing_among_class then retM False
    else
      seqM (if query_class_id y < query_class_id x
            then pset op1 (\<lambda>x. x\<lparr>query_class_id := query_class_id y\<rparr>) else retM ())
      (bindM (moveOutputs op1 op2 (length (poutputs x)) (poutputs y)) (\<lambda>ok.
       if \<not> ok then retM False
       else
         seqM (pset op1 (\<lambda>z. z\<lparr>poutputs := poutputs x @ poutputs y\<rparr>))
         (bindM (pget op2) (\<lambda>y.
          bindM (dropOutput op2 (pinputs y)) (\<lambda>ok.
          if \<not> ok then retM False
          else seqM (unlinkUsed op2) (retM True))))))))"

text \<open>The inner loop: every later operator that is equal to \<open>op1\<close> leaves the vector, merged or not.\<close>

fun mergeInto :: "nat \<Rightarrow> nat list \<Rightarrow> (plan_manager, nat list) comp" where
  "mergeInto op1 [] = retM []"
| "mergeInto op1 (op2 # rest) =
    bindM (compareOperators op1 op2) (\<lambda>b.
    if b then
      bindM (readM sharingAmongClasses) (\<lambda>sh.
      bindM (mergeOperators op1 op2 sh) (\<lambda>_. mergeInto op1 rest))
    else bindM (mergeInto op1 rest) (\<lambda>kept. retM (op2 # kept)))"

text \<open>The outer loop: the vector only gets shorter.\<close>

fun shareLevel :: "nat \<Rightarrow> nat list \<Rightarrow> (plan_manager, nat list) comp" where
  "shareLevel fuel [] = retM []"
| "shareLevel 0 (op # rest) = undefM"
| "shareLevel (Suc fuel) (op # rest) =
    bindM (mergeInto op rest) (\<lambda>kept.
    bindM (pget op) (\<lambda>x.
    bindM (shareLevel fuel kept) (\<lambda>next_ops. retM (poutputs x @ next_ops))))"

definition findInVector :: "(nat \<Rightarrow> phyop) \<Rightarrow> nat list \<Rightarrow> nat \<Rightarrow> bool" where
  "findInVector h vec op = list_ex (\<lambda>v. pid (h v) = pid (h op)) vec"

definition nextLevel :: "(nat \<Rightarrow> phyop) \<Rightarrow> nat list \<Rightarrow> nat list" where
  "nextLevel h qs = foldl (\<lambda>vec q. if findInVector h vec q then vec else vec @ [q]) [] qs"

fun collectSources :: "nat \<Rightarrow> nat option \<Rightarrow> (plan_manager, nat list) comp" where
  "collectSources fuel None = retM []"
| "collectSources 0 (Some op) = undefM"
| "collectSources (Suc fuel) (Some op) =
    bindM (pget op) (\<lambda>x.
    bindM (readM (\<lambda>s. opNext s op)) (\<lambda>n.
    bindM (collectSources fuel n) (\<lambda>rest.
    retM (if pkind x = PO_STREAM_SOURCE \<or> pkind x = PO_RELN_SOURCE then op # rest else rest))))"

fun shareLoop :: "nat \<Rightarrow> nat list \<Rightarrow> (plan_manager, unit) comp" where
  "shareLoop fuel [] = retM ()"
| "shareLoop 0 (op # rest) = undefM"
| "shareLoop (Suc fuel) (op # rest) =
    bindM (shareLevel (Suc (length rest)) (op # rest)) (\<lambda>next_ops.
    bindM (readM ops) (\<lambda>h. shareLoop fuel (nextLevel h next_ops)))"

definition findSharedOps :: "(plan_manager, unit) comp" where
  "findSharedOps =
    bindM (readM usedOps) (\<lambda>u.
    bindM (collectSources P_MAX_OPS u) (\<lambda>current_ops. shareLoop (Suc P_MAX_OPS) current_ops))"

section \<open>All passes\<close>

definition optimize_plan :: "(plan_manager, unit) comp" where
  "optimize_plan =
    seqM removeQuerySources
    (seqM addSinks
    (seqM mergeSelects
    (seqM findSharedOps
     mergeProjectsToJoin)))"

end
