(* ===== verification/Plan_Manager.thy ===== *)
theory Plan_Manager
  imports Plan_Trans
begin

text \<open>
  \<open>src/metadata/plan_mgr_impl.cc\<close>: the plan manager.  It keeps, for every table, the operator that
  produces its tuples and, for every query, the query source operator on top of its plan.
\<close>

section \<open>Construction\<close>

definition createSSGen :: "(plan_manager, unit) comp" where
  "createSSGen =
    bindM (new_op PO_SS_GEN) (\<lambda>r.
    bindM (derefM r) (\<lambda>op.
    seqM (pset op (\<lambda>x. x\<lparr>pschema := zip SS_ATTR_TYPES (map Some SS_ATTR_LEN), pbStream := True,
                         pu := U_SS_GEN 0, query_class_id := 1\<rparr>))
    (bindM (pget op) (\<lambda>x.
     bindM (readM sourceOps) (\<lambda>srcs.
     seqM (ensureM (length srcs < MAX_TABLES))
     (modM (\<lambda>s. s\<lparr>sourceOps := srcs @ [(SS_ID, pid x)]\<rparr>)))))))"

definition newPlanManagerImpl :: "(plan_manager, unit) comp" where
  "newPlanManagerImpl =
    seqM (modM (\<lambda>s. s\<lparr>freeOps := None, usedOps := None, numExprs := 0, numBExprs := 0,
       baseTableSources := [], queryOutputs := [], sourceOps := [], queryOutOps := []\<rparr>))
    (seqM init_ops
    (seqM (modM (\<lambda>s. s\<lparr>current_query_class := 1\<rparr>))
     createSSGen))"

section \<open>Tables\<close>

definition tableColumn :: "table_manager \<Rightarrow> nat \<Rightarrow> nat \<Rightarrow> ('s, pcolumn) comp" where
  "tableColumn tm t a =
    bindM (getAttrType tm t a) (\<lambda>ty. bindM (getAttrLen tm t a) (\<lambda>len. retM (ty, Some len)))"

definition addBaseTable :: "table_manager \<Rightarrow> nat \<Rightarrow> nat \<Rightarrow> (plan_manager, unit) comp" where
  "addBaseTable tm tableId src =
    bindM (isStream tm tableId) (\<lambda>stream.
    bindM (new_op (if stream then PO_STREAM_SOURCE else PO_RELN_SOURCE)) (\<lambda>r.
    case r of
      None \<Rightarrow> failM (- 1)
    | Some op \<Rightarrow>
        bindM (readM baseTableSources) (\<lambda>srcs.
        seqM (pset op (\<lambda>x. x\<lparr>
          pu := (if stream then U_STREAM_SOURCE tableId (length srcs)
                 else U_RELN_SOURCE tableId (length srcs)),
          pbStream := stream\<rparr>))
        (bindM (getNumAttrs tm tableId) (\<lambda>n.
         if n > MAX_ATTRS then failM (- 1)
         else
           bindM (mapM (tableColumn tm tableId) [0 ..< n]) (\<lambda>cols.
           seqM (pset op (\<lambda>x. x\<lparr>pschema := cols\<rparr>))
           (if length srcs \<ge> MAX_TABLES then failM (- 1)
            else
              seqM (modM (\<lambda>s. s\<lparr>baseTableSources := srcs @ [src]\<rparr>))
              (bindM (readM sourceOps) (\<lambda>tabs.
               if length tabs \<ge> MAX_TABLES then failM (- 1)
               else
                 bindM (pget op) (\<lambda>x.
                 modM (\<lambda>s. s\<lparr>sourceOps := tabs @ [(tableId, pid x)]\<rparr>)))))))))))"

section \<open>Query classes\<close>

text \<open>
  An operator that has the class already was visited with all operators below it.  The plan
  below an operator is acyclic: a path has at most \<open>P_MAX_OPS\<close> operators.
\<close>

primrec addQueryClasses :: "nat \<Rightarrow> nat \<Rightarrow> (plan_manager, unit) comp" where
  "addQueryClasses 0 op = undefM"
| "addQueryClasses (Suc fuel) op =
    bindM (pget op) (\<lambda>x.
    bindM (readM current_query_class) (\<lambda>c.
    if query_class_id x = 0 \<or> query_class_id x > c then
      seqM (pset op (\<lambda>x. x\<lparr>query_class_id := c\<rparr>))
      (forM (pinputs x) (addQueryClasses fuel))
    else retM ()))"

section \<open>Queries\<close>

text \<open>\<open>output\<close> is the interface object for the answers, null for a query that only feeds others.\<close>

definition addLogicalQueryPlan ::
    "nat \<Rightarrow> (nat \<Rightarrow> lop) \<Rightarrow> nat \<Rightarrow> nat option \<Rightarrow> (plan_manager, unit) comp" where
  "addLogicalQueryPlan queryId h logPlan output =
    bindM (genPhysicalPlan h logPlan) (\<lambda>phyPlan.
    bindM (mk_qry_src phyPlan) (\<lambda>querySource.
    bindM (readM queryOutOps) (\<lambda>qs.
    if length qs \<ge> MAX_QUERIES then failM (- 1)
    else
      bindM (pget querySource) (\<lambda>x.
      seqM (modM (\<lambda>s. s\<lparr>queryOutOps := qs @ [(queryId, pid x)]\<rparr>))
      (case output of
        None \<Rightarrow> retM ()
      | Some out \<Rightarrow>
          bindM (readM queryOutputs) (\<lambda>outs.
          if length outs \<ge> P_MAX_OUTPUT then failM (- 1)
          else
            bindM (mk_output phyPlan) (\<lambda>outputOp.
            seqM (modM (\<lambda>s. s\<lparr>queryOutputs := outs @ [out]\<rparr>))
            (seqM (setUnion (U_OUTPUT (length outs) queryId) outputOp)
             (addQueryClasses P_MAX_OPS outputOp)))))))))"

text \<open>
  \<open>map\<close>: the answer of a query becomes a table.  A length of the query that was never set is
  unknown to the comparison.
\<close>

definition mapColumn :: "table_manager \<Rightarrow> nat \<Rightarrow> pcolumn list \<Rightarrow> nat \<Rightarrow> (plan_manager, unit) comp" where
  "mapColumn tm tableId cols a =
    bindM (getAttrType tm tableId a) (\<lambda>ty.
    bindM (nthM cols a) (\<lambda>col.
    if ty \<noteq> fst col then failM (- 1)
    else
      bindM (getAttrLen tm tableId a) (\<lambda>len.
      bindM (derefM (snd col)) (\<lambda>len'.
      if len \<noteq> len' then failM (- 1) else retM ()))))"

definition mapQuery :: "table_manager \<Rightarrow> nat \<Rightarrow> nat \<Rightarrow> (plan_manager, unit) comp" where
  "mapQuery tm queryId tableId =
    bindM (readM queryOutOps) (\<lambda>qs.
    case find_first (\<lambda>e. fst e = queryId) qs of
      None \<Rightarrow> failM (- 1)
    | Some q \<Rightarrow>
        bindM (pget (snd (qs ! q))) (\<lambda>x.
        bindM (getNumAttrs tm tableId) (\<lambda>n.
        if n \<noteq> length (pschema x) then failM (- 1)
        else
          seqM (forM [0 ..< n] (mapColumn tm tableId (pschema x)))
          (bindM (readM sourceOps) (\<lambda>tabs.
           if length tabs \<ge> MAX_TABLES then failM (- 1)
           else modM (\<lambda>s. s\<lparr>sourceOps := tabs @ [(tableId, pid x)]\<rparr>))))))"

definition getPlan :: "plan_manager \<Rightarrow> nat option" where
  "getPlan = usedOps"

end
