(* ===== verification/Phy_Pool.thy ===== *)
theory Phy_Pool
  imports Phy_Gen
begin

text \<open>
  The pool of physical operators as two lists: the free operators and the used ones.
\<close>

section \<open>Primitive accesses\<close>

lemma pget_wp [wp_simps, simp]: "wp (pget p) Q E s = Q (ops s p) s"
  by (simp add: pget_def)

lemma pset_wp [wp_simps, simp]:
  "wp (pset p f) Q E s = Q () (s\<lparr>ops := (ops s)(p := f (ops s p))\<rparr>)"
  by (simp add: pset_def)

lemma setNext_wp [wp_simps, simp]: "wp (setNext p q) Q E s = Q () (s\<lparr>opNext := (opNext s)(p := q)\<rparr>)"
  by (simp add: setNext_def)

lemma setPrev_wp [wp_simps, simp]: "wp (setPrev p q) Q E s = Q () (s\<lparr>opPrev := (opPrev s)(p := q)\<rparr>)"
  by (simp add: setPrev_def)

lemma setUnion_wp [wp_simps, simp]:
  "wp (setUnion u p) Q E s = Q () (s\<lparr>ops := (ops s)(p := (ops s p)\<lparr>pu := u\<rparr>)\<rparr>)"
  by (simp add: setUnion_def)

section \<open>Doubly linked lists\<close>

text \<open>\<open>dll nx pv p q as\<close>: from \<open>q\<close> on the operators are linked as \<open>as\<close>; the first has \<open>prev = p\<close>.\<close>

fun dll :: "(nat \<Rightarrow> nat option) \<Rightarrow> (nat \<Rightarrow> nat option) \<Rightarrow> nat option \<Rightarrow> nat option \<Rightarrow> nat list \<Rightarrow> bool" where
  "dll nx pv p q [] \<longleftrightarrow> q = None"
| "dll nx pv p q (a # as) \<longleftrightarrow> q = Some a \<and> pv a = p \<and> dll nx pv (Some a) (nx a) as"

lemma dll_frame [simp]:
  "a \<notin> set as \<Longrightarrow> dll (nx(a := x)) pv p q as = dll nx pv p q as"
  "a \<notin> set as \<Longrightarrow> dll nx (pv(a := x)) p q as = dll nx pv p q as"
  by (induction as arbitrary: p q) auto

lemma dll_head: "dll nx pv p q as \<Longrightarrow> q = (case as of [] \<Rightarrow> None | a # _ \<Rightarrow> Some a)"
  by (cases as) auto

text \<open>The pointer to the element before a part of a list, and the one to the part itself.\<close>

definition last_of :: "nat option \<Rightarrow> nat list \<Rightarrow> nat option" where
  "last_of p as = (if as = [] then p else Some (last as))"

definition next_of :: "(nat \<Rightarrow> nat option) \<Rightarrow> nat option \<Rightarrow> nat list \<Rightarrow> nat option" where
  "next_of nx q as = (if as = [] then q else nx (last as))"

lemma last_of_simps [simp]: "last_of p [] = p" "last_of p (a # as) = last_of (Some a) as"
  by (simp_all add: last_of_def)

lemma next_of_simps [simp]: "next_of nx q [] = q" "next_of nx q (a # as) = next_of nx (nx a) as"
  by (simp_all add: next_of_def)

text \<open>The first part of a list.\<close>

fun dseg :: "(nat \<Rightarrow> nat option) \<Rightarrow> (nat \<Rightarrow> nat option) \<Rightarrow> nat option \<Rightarrow> nat option \<Rightarrow> nat list \<Rightarrow> bool" where
  "dseg nx pv p q [] \<longleftrightarrow> True"
| "dseg nx pv p q (a # as) \<longleftrightarrow> q = Some a \<and> pv a = p \<and> dseg nx pv (Some a) (nx a) as"

lemma dseg_frame [simp]:
  "a \<notin> set as \<Longrightarrow> dseg (nx(a := x)) pv p q as = dseg nx pv p q as"
  "a \<notin> set as \<Longrightarrow> dseg nx (pv(a := x)) p q as = dseg nx pv p q as"
  by (induction as arbitrary: p q) auto

lemma dseg_snoc:
  "dseg nx pv p q (as @ [a]) \<longleftrightarrow> dseg nx pv p q as \<and> next_of nx q as = Some a \<and> pv a = last_of p as"
  by (induction as arbitrary: p q) auto

lemma dll_append:
  "dll nx pv p q (as @ bs) \<longleftrightarrow> dseg nx pv p q as \<and> dll nx pv (last_of p as) (next_of nx q as) bs"
  by (induction as arbitrary: p q) auto

text \<open>Taking an element out of a list.\<close>

lemma dll_remove:
  assumes "dll nx pv None q (as @ a # bs)" and "distinct (as @ a # bs)"
  shows "pv a = last_of None as" and "nx a = (case bs of [] \<Rightarrow> None | b # _ \<Rightarrow> Some b)"
    and "dll (case pv a of Some b \<Rightarrow> nx(b := nx a) | None \<Rightarrow> nx)
          (case nx a of Some b \<Rightarrow> pv(b := pv a) | None \<Rightarrow> pv) None (if as = [] then nx a else q) (as @ bs)"
proof -
  have as: "dseg nx pv None q as" and pa: "pv a = last_of None as" and tail: "dll nx pv (Some a) (nx a) bs"
    using assms(1) by (simp_all add: dll_append)
  show "pv a = last_of None as" by (fact pa)
  show na: "nx a = (case bs of [] \<Rightarrow> None | b # _ \<Rightarrow> Some b)" using dll_head [OF tail] .
  let ?pv = "case nx a of Some b \<Rightarrow> pv(b := pv a) | None \<Rightarrow> pv"
  have bs': "dll nx ?pv (last_of None as) (nx a) bs"
    using tail assms(2) pa by (cases bs) auto
  have as': "dseg nx ?pv None q as"
    using as assms(2) na by (cases bs) auto
  show "dll (case pv a of Some b \<Rightarrow> nx(b := nx a) | None \<Rightarrow> nx) ?pv None (if as = [] then nx a else q) (as @ bs)"
  proof (cases as rule: rev_cases)
    case Nil
    then show ?thesis using bs' pa by simp
  next
    case (snoc cs c)
    have "pv a = Some c" using pa snoc by (simp add: last_of_def)
    moreover have "c \<notin> set cs" "c \<notin> set bs" using assms(2) snoc by auto
    ultimately show ?thesis
      using as' bs' snoc by (auto simp: dll_append dseg_snoc last_of_def next_of_def)
  qed
qed

section \<open>The pool\<close>

text \<open>
  \<open>pool s fs us\<close>: \<open>fs\<close> are the free operators and \<open>us\<close> the used ones; together they are the whole
  array, and every operator knows its position.
\<close>

definition pool :: "plan_manager \<Rightarrow> nat list \<Rightarrow> nat list \<Rightarrow> bool" where
  "pool s fs us \<longleftrightarrow>
     dll (opNext s) (opPrev s) None (freeOps s) fs \<and> dll (opNext s) (opPrev s) None (usedOps s) us \<and>
     distinct (fs @ us) \<and> set (fs @ us) = {..<P_MAX_OPS} \<and> (\<forall>a<P_MAX_OPS. pid (ops s a) = a)"

lemma pool_lt: "pool s fs us \<Longrightarrow> a \<in> set us \<or> a \<in> set fs \<Longrightarrow> a < P_MAX_OPS"
  by (auto simp: pool_def)

lemma pool_pid: "pool s fs us \<Longrightarrow> a \<in> set us \<or> a \<in> set fs \<Longrightarrow> pid (ops s a) = a"
  by (auto simp: pool_def)

text \<open>Updates that leave the lists and the identifiers alone.\<close>

lemma pool_update:
  assumes "opNext s' = opNext s" and "opPrev s' = opPrev s" and "freeOps s' = freeOps s"
    and "usedOps s' = usedOps s" and "\<And>a. pid (ops s' a) = pid (ops s a)"
  shows "pool s' fs us = pool s fs us"
  using assms by (simp add: pool_def)

lemma pool_length: "pool s fs us \<Longrightarrow> length fs + length us = P_MAX_OPS"
  by (metis card_lessThan distinct_card length_append pool_def)

text \<open>A cleared operator of a new kind.\<close>

definition blank_op :: "pkind \<Rightarrow> phyop \<Rightarrow> phyop" where
  "blank_op k x = x\<lparr>pkind := k, pschema := [], poutputs := [], pinputs := [], pu := U_NONE\<rparr>"

lemma blank_op_sel [simp]:
  "pid (blank_op k x) = pid x" "query_class_id (blank_op k x) = query_class_id x"
  "pkind (blank_op k x) = k" "pschema (blank_op k x) = []" "pbStream (blank_op k x) = pbStream x"
  "poutputs (blank_op k x) = []" "pinputs (blank_op k x) = []" "pu (blank_op k x) = U_NONE"
  by (simp_all add: blank_op_def)

text \<open>\<open>linked s s'\<close>: only the lists of the pool differ.\<close>

definition linked :: "plan_manager \<Rightarrow> plan_manager \<Rightarrow> bool" where
  "linked s s' \<longleftrightarrow> (\<exists>nx pv f u. s' = s\<lparr>opNext := nx, opPrev := pv, freeOps := f, usedOps := u\<rparr>)"

lemma linked_sel:
  assumes "linked s s'"
  shows "ops s' = ops s" "numExprs s' = numExprs s" "numBExprs s' = numBExprs s"
    "baseTableSources s' = baseTableSources s" "queryOutputs s' = queryOutputs s"
    "sourceOps s' = sourceOps s" "queryOutOps s' = queryOutOps s"
    "current_query_class s' = current_query_class s" "sharingAmongClasses s' = sharingAmongClasses s"
  using assms by (auto simp: linked_def)

lemma new_op_wp:
  assumes "pool s (a # b # fs) us"
  shows "wp (new_op k) (\<lambda>r s'. r = Some a \<and> pool s' (b # fs) (a # us) \<and>
    linked (s\<lparr>ops := (ops s)(a := blank_op k (ops s a))\<rparr>) s') (\<lambda>_ _. False) s"
proof -
  note d = assms [unfolded pool_def]
  have f: "freeOps s = Some a" "opNext s a = Some b" "opPrev s b = Some a" "opPrev s a = None"
    using d by auto
  have u: "usedOps s = (case us of [] \<Rightarrow> None | c # _ \<Rightarrow> Some c)" using d dll_head by blast
  have dis: "distinct (a # b # fs @ us)" and set: "set (a # b # fs @ us) = {..<P_MAX_OPS}" using d by auto
  define s' where "s' = s\<lparr>ops := (ops s)(a := blank_op k (ops s a)), opNext := (opNext s)(a := usedOps s),
      opPrev := (case usedOps s of Some c \<Rightarrow> ((opPrev s)(b := None))(c := Some a) | None \<Rightarrow> (opPrev s)(b := None)),
      freeOps := Some b, usedOps := Some a\<rparr>"
  have "dll (opNext s') (opPrev s') None (Some b) (b # fs)"
    using d dis u by (cases us) (auto simp: s'_def)
  moreover have "dll (opNext s') (opPrev s') None (Some a) (a # us)"
    using d f dis u by (cases us) (auto simp: s'_def)
  ultimately have "pool s' (b # fs) (a # us)"
    unfolding pool_def using d set dis by (auto simp: s'_def)
  moreover have "linked (s\<lparr>ops := (ops s)(a := blank_op k (ops s a))\<rparr>) s'"
    unfolding linked_def s'_def by (intro exI plan_manager.equality) simp_all
  moreover have "wp (new_op k) Q E s = Q (Some a) s'" for Q E
    using f u
    by (auto simp: new_op_def s'_def blank_op_def split: list.splits
        elim!: back_subst [where P = "Q (Some a)"] intro!: plan_manager.equality)
  ultimately show ?thesis by simp
qed

text \<open>With a single free operator left its successor is a null pointer, and \<open>new_op\<close> writes to it.\<close>

lemma new_op_last: "pool s [a] us \<Longrightarrow> new_op k s = Undef"
  by (simp add: new_op_def pool_def comp_defs)

lemma free_op_wp:
  assumes "pool s fs (us @ a # vs)"
  shows "wp (free_op a) (\<lambda>_ s'. pool s' (a # fs) (us @ vs) \<and> linked s s') (\<lambda>_ _. False) s"
proof -
  note d = assms [unfolded pool_def]
  have dis: "distinct (us @ a # vs)" "a \<notin> set fs" "set fs \<inter> set (us @ vs) = {}" "distinct fs"
    using d by auto
  note rm = dll_remove [OF conjunct1 [OF conjunct2 [OF d]] dis(1)]
  define nx pv u where nx: "nx = (case opPrev s a of Some b \<Rightarrow> (opNext s)(b := opNext s a) | None \<Rightarrow> opNext s)"
    and pv: "pv = (case opNext s a of Some b \<Rightarrow> (opPrev s)(b := opPrev s a) | None \<Rightarrow> opPrev s)"
    and u: "u = (if us = [] then opNext s a else usedOps s)"
  have hd: "freeOps s = (case fs of [] \<Rightarrow> None | f # _ \<Rightarrow> Some f)"
    using d dll_head by blast
  have fl: "dll nx pv None (freeOps s) fs"
    using d dis(3) rm(1,2) unfolding nx pv
    by (cases vs; cases us rule: rev_cases) (auto simp: last_of_def)
  have ul: "dll nx pv None u (us @ vs)" using rm(3) by (simp add: nx pv u)
  define s' where "s' = s\<lparr>opNext := nx(a := freeOps s),
      opPrev := (case freeOps s of Some n \<Rightarrow> (pv(a := None))(n := Some a) | None \<Rightarrow> pv(a := None)),
      usedOps := u, freeOps := Some a\<rparr>"
  have "pool s' (a # fs) (us @ vs)"
  proof -
    have set: "set (a # fs @ us @ vs) = {..<P_MAX_OPS}" "distinct (a # fs @ us @ vs)"
      using d by auto
    have "dll (opNext s') (opPrev s') None (Some a) (a # fs)"
      using fl dis(2,4) hd by (cases fs) (auto simp: s'_def)
    moreover have "dll (opNext s') (opPrev s') None u (us @ vs)"
      using ul set(2) hd by (cases fs) (auto simp: s'_def)
    ultimately show ?thesis
      unfolding pool_def using d set by (simp add: s'_def)
  qed
  moreover have "linked s s'" unfolding linked_def s'_def
    by (intro exI plan_manager.equality) simp_all
  moreover have "wp (free_op a) Q E s = Q () s'" for Q E
    using rm(1,2) hd
    by (auto simp: free_op_def s'_def nx pv u last_of_def split: list.splits
        elim!: back_subst [where P = "Q ()"] intro!: plan_manager.equality)
  ultimately show ?thesis by simp
qed

section \<open>The contract of the pool\<close>

text \<open>
  What a client of a pool with two lists relies on: an allocation takes the first free element, and
  releasing a used element makes it the first free one.  An allocation is only safe while two
  elements are free.
\<close>

locale free_list_pool =
  fixes alloc :: "'k \<Rightarrow> ('s, nat option) comp" and release :: "nat \<Rightarrow> ('s, unit) comp"
    and lists :: "'s \<Rightarrow> nat list \<Rightarrow> nat list \<Rightarrow> bool"
  assumes alloc_first: "lists s (a # b # fs) us \<Longrightarrow>
      wp (alloc k) (\<lambda>r s'. r = Some a \<and> lists s' (b # fs) (a # us)) (\<lambda>_ _. False) s"
    and release_used: "lists s fs (us @ a # vs) \<Longrightarrow>
      wp (release a) (\<lambda>_ s'. lists s' (a # fs) (us @ vs)) (\<lambda>_ _. False) s"
begin

lemma alloc_list:
  assumes "lists s (as @ fs) us" and "length ks = length as" and "fs \<noteq> []"
  shows "wp (mapM alloc ks) (\<lambda>rs s'. rs = map Some as \<and> lists s' fs (rev as @ us)) (\<lambda>_ _. False) s"
  using assms
proof (induction ks arbitrary: as us s)
  case (Cons k ks)
  then obtain a as' where as: "as = a # as'" by (cases as) auto
  obtain b gs where b: "as' @ fs = b # gs" using Cons.prems(3) by (cases "as' @ fs") auto
  have "wp (alloc k) (\<lambda>r s'. r = Some a \<and> lists s' (as' @ fs) (a # us)) (\<lambda>_ _. False) s"
    using alloc_first [of s a b gs us k] Cons.prems(1) as b by simp
  then have "wp (bindM (alloc k) (\<lambda>y. bindM (mapM alloc ks) (\<lambda>ys. retM (y # ys))))
      (\<lambda>rs s'. rs = map Some as \<and> lists s' fs (rev as @ us)) (\<lambda>_ _. False) s"
  proof (rule wp_bindI)
    fix r s1
    assume r: "r = Some a \<and> lists s1 (as' @ fs) (a # us)"
    have "wp (mapM alloc ks) (\<lambda>rs s'. rs = map Some as' \<and> lists s' fs (rev as' @ a # us)) (\<lambda>_ _. False) s1"
      using r Cons.prems(2,3) as by (intro Cons.IH) auto
    then show "wp (bindM (mapM alloc ks) (\<lambda>ys. retM (r # ys)))
        (\<lambda>rs s'. rs = map Some as \<and> lists s' fs (rev as @ us)) (\<lambda>_ _. False) s1"
      by (rule wp_bindI) (use r as in auto)
  qed simp
  then show ?case by simp
qed simp

lemma alloc_release:
  assumes "lists s (a # b # fs) us"
  shows "wp (bindM (alloc k) (\<lambda>r. bindM (derefM r) release)) (\<lambda>_ s'. lists s' (a # b # fs) us) (\<lambda>_ _. False) s"
proof (rule wp_bindI [OF alloc_first [OF assms]])
  fix r s1
  assume "r = Some a \<and> lists s1 (b # fs) (a # us)"
  then show "wp (bindM (derefM r) release) (\<lambda>_ s'. lists s' (a # b # fs) us) (\<lambda>_ _. False) s1"
    using release_used [of s1 "b # fs" "[]" a us] by simp
qed simp

end

interpretation ops: free_list_pool new_op free_op pool
proof unfold_locales
  fix s a b fs us k
  assume "pool s (a # b # fs) us"
  then show "wp (new_op k) (\<lambda>r s'. r = Some a \<and> pool s' (b # fs) (a # us)) (\<lambda>_ _. False) s"
    by (rule wp_mono [OF new_op_wp]) auto
next
  fix s fs us a vs
  assume "pool s fs (us @ a # vs)"
  then show "wp (free_op a) (\<lambda>_ s'. pool s' (a # fs) (us @ vs)) (\<lambda>_ _. False) s"
    by (rule wp_mono [OF free_op_wp]) auto
qed

section \<open>The initial pool\<close>

lemma dll_upt:
  assumes "\<And>a. k \<le> a \<Longrightarrow> a < n \<Longrightarrow> pv a = (if a = k then p else Some (a - 1)) \<and>
      nx a = (if Suc a < n then Some (Suc a) else None)"
  shows "dll nx pv p (if k < n then Some k else None) [k ..< n]"
  using assms
proof (induction "n - k" arbitrary: k p)
  case (Suc d)
  then have k: "k < n" by simp
  have "dll nx pv (Some k) (if Suc k < n then Some (Suc k) else None) [Suc k ..< n]"
    using Suc.hyps(2) Suc.prems by (intro Suc.hyps(1)) auto
  then show ?case using k Suc.prems [of k] by (simp add: upt_conv_Cons)
qed simp

lemma init_ops_wp:
  "wp init_ops (\<lambda>_ s'. pool s' [0 ..< P_MAX_OPS] [] \<and>
     (\<exists>h nx pv f. s' = s\<lparr>ops := h, opNext := nx, opPrev := pv, freeOps := f, usedOps := None\<rparr>)) E s"
proof -
  define I where "I = (\<lambda>i (s' :: plan_manager).
    (\<forall>n. 1 \<le> n \<longrightarrow> n < Suc i \<longrightarrow> opPrev s' n = Some (n - 1) \<and> opNext s' (n - 1) = Some n \<and> pid (ops s' n) = n) \<and>
    (\<exists>h nx pv. s' = s\<lparr>ops := h, opNext := nx, opPrev := pv, freeOps := Some 0, usedOps := None\<rparr>))"
  have N: "0 < P_MAX_OPS" by (simp add: P_MAX_OPS_def)
  have "wp (forM [1 ..< P_MAX_OPS] (\<lambda>n.
       seqM (setPrev n (Some (n - 1))) (seqM (setNext (n - 1) (Some n)) (pset n (\<lambda>x. x\<lparr>pid := n\<rparr>)))))
     (\<lambda>_. I (P_MAX_OPS - 1)) E (s\<lparr>usedOps := None, freeOps := Some 0\<rparr>)"
  proof (rule wp_forM [where I = I])
    show "I 0 (s\<lparr>usedOps := None, freeOps := Some 0\<rparr>)"
      unfolding I_def by (intro conjI exI plan_manager.equality) simp_all
  next
    fix i s'
    assume i: "i < length [1 ..< P_MAX_OPS]" and "I i s'"
    then obtain h nx pv where s': "s' = s\<lparr>ops := h, opNext := nx, opPrev := pv, freeOps := Some 0, usedOps := None\<rparr>"
      and l: "\<forall>n. 1 \<le> n \<longrightarrow> n < Suc i \<longrightarrow> pv n = Some (n - 1) \<and> nx (n - 1) = Some n \<and> pid (h n) = n"
      by (auto simp: I_def)
    have e: "[1 ..< P_MAX_OPS] ! i = Suc i" using i by simp
    show "wp (seqM (setPrev ([1 ..< P_MAX_OPS] ! i) (Some ([1 ..< P_MAX_OPS] ! i - 1)))
        (seqM (setNext ([1 ..< P_MAX_OPS] ! i - 1) (Some ([1 ..< P_MAX_OPS] ! i)))
          (pset ([1 ..< P_MAX_OPS] ! i) (\<lambda>x. x\<lparr>pid := [1 ..< P_MAX_OPS] ! i\<rparr>)))) (\<lambda>_. I (Suc i)) E s'"
      unfolding e s' wp_simps I_def
      by (intro conjI exI plan_manager.equality) (use l in \<open>auto simp: less_Suc_eq\<close>)
  qed simp
  moreover have "pool s2 [0 ..< P_MAX_OPS] [] \<and>
     (\<exists>h nx pv f. s2 = s\<lparr>ops := h, opNext := nx, opPrev := pv, freeOps := f, usedOps := None\<rparr>)"
    if s1: "I (P_MAX_OPS - 1) s1" and s2: "s2 = s1\<lparr>opNext := (opNext s1)(P_MAX_OPS - 1 := None),
        opPrev := (opPrev s1)(0 := None), ops := (ops s1)(0 := (ops s1 0)\<lparr>pid := 0\<rparr>)\<rparr>" for s1 s2
  proof
    have l: "opPrev s1 n = Some (n - 1) \<and> opNext s1 (n - 1) = Some n \<and> pid (ops s1 n) = n"
      if "1 \<le> n" "n < P_MAX_OPS" for n
      using s1 N that unfolding I_def by simp
    obtain h nx pv where e: "s1 = s\<lparr>ops := h, opNext := nx, opPrev := pv, freeOps := Some 0, usedOps := None\<rparr>"
      using s1 unfolding I_def by blast
    have nx: "opNext s1 a = Some (Suc a)" if "Suc a < P_MAX_OPS" for a
      using l [of "Suc a"] that by simp
    have "dll (opNext s2) (opPrev s2) None (if 0 < P_MAX_OPS then Some 0 else None) [0 ..< P_MAX_OPS]"
    proof (rule dll_upt)
      fix a assume "a < P_MAX_OPS"
      then show "opPrev s2 a = (if a = 0 then None else Some (a - 1)) \<and>
          opNext s2 a = (if Suc a < P_MAX_OPS then Some (Suc a) else None)"
        using l [of a] nx [of a] s2 N by (auto simp: less_Suc_eq)
    qed
    then show "pool s2 [0 ..< P_MAX_OPS] []"
      using N l s2 e by (auto simp: pool_def)
    show "\<exists>h nx pv f. s2 = s\<lparr>ops := h, opNext := nx, opPrev := pv, freeOps := f, usedOps := None\<rparr>"
      unfolding s2 e by (intro exI plan_manager.equality) simp_all
  qed
  ultimately show ?thesis
    unfolding init_ops_def by (simp add: wp_mono)
qed

end
