(* ===== verification/Phy_Facts.thy ===== *)
theory Phy_Facts
  imports Phy_Pool Log_Rewrite
begin

text \<open>
  The physical plan of a logical plan as a function, physical plans in the pool, and what the
  constructors of physical operators do to them.
\<close>

section \<open>Expressions\<close>

definition pos :: "lattr list list \<Rightarrow> lattr \<Rightarrow> pattr" where
  "pos ass x = the (find_attr x ass 0)"

fun pe :: "lattr list list \<Rightarrow> lexpr \<Rightarrow> pexpr" where
  "pe ass (LE_CONST c) = PE_CONST c"
| "pe ass (LE_ATTR t a) = PE_ATTR t (pos ass a)"
| "pe ass (LE_COMP t op l r) = PE_COMP t op (pe ass l) (pe ass r)"

definition pb :: "lattr list list \<Rightarrow> lbexpr \<Rightarrow> pbexpr" where
  "pb ass b = \<lparr>pbOp = lbOp b, pbLeft = pe ass (the (lbLeft b)), pbRight = pe ass (the (lbRight b))\<rparr>"

fun esize :: "lexpr \<Rightarrow> nat" where
  "esize (LE_COMP t op l r) = Suc (esize l + esize r)"
| "esize _ = 1"

definition bsize :: "lbexpr \<Rightarrow> nat" where
  "bsize b = esize (the (lbLeft b)) + esize (the (lbRight b))"

lemma pexpr_type_pe [simp]: "pexpr_type (pe ass e) = lexpr_type e"
  by (cases e) simp_all

lemma find_attr_None: "find_attr x ass i = None \<longleftrightarrow> \<not> list_ex (attr_eq x) (concat ass)"
proof (induction ass arbitrary: i)
  case (Cons as ass)
  show ?case
  proof (cases "find_first (attr_eq x) as")
    case (Some a)
    then show ?thesis using find_first_bound [OF Some] find_first_sat [OF Some]
      by (auto simp: list_ex_iff intro: bexI [of _ "as ! a"])
  next
    case None
    then have "\<not> list_ex (attr_eq x) as" by (simp add: find_first_None list_ex_iff)
    then show ?thesis using Cons None by simp
  qed
qed simp

lemma find_attr_Some:
  "find_attr x ass i = Some p \<Longrightarrow> \<exists>n<length ass. attrInput p = i + n \<and> attrPos p < length (ass ! n) \<and>
     attr_eq x (ass ! n ! attrPos p)"
proof (induction ass arbitrary: i)
  case (Cons as ass)
  show ?case
  proof (cases "find_first (attr_eq x) as")
    case None
    then obtain n where "n < length ass" "attrInput p = Suc i + n" "attrPos p < length (ass ! n)"
        "attr_eq x (ass ! n ! attrPos p)"
      using Cons.IH [of "Suc i"] Cons.prems by auto
    then show ?thesis by (intro exI [of _ "Suc n"]) simp
  next
    case (Some a)
    then show ?thesis using Cons.prems find_first_bound [OF Some] find_first_sat [OF Some]
      by (intro exI [of _ 0]) auto
  qed
qed simp

lemma find_attr_pos: "list_ex (attr_eq x) (concat ass) \<Longrightarrow> find_attr x ass 0 = Some (pos ass x)"
  using find_attr_None [of x ass 0] by (auto simp: pos_def)

lemma pos_single: "list_ex (attr_eq x) as \<Longrightarrow> attrInput (pos [as] x) = 0 \<and> attrPos (pos [as] x) < length as"
  using find_attr_Some [OF find_attr_pos [of x "[as]"]] by simp

abbreviation in_schemas :: "(nat \<Rightarrow> lop) \<Rightarrow> nat \<Rightarrow> lattr list list" where
  "in_schemas h l \<equiv> map (\<lambda>i. outAttrs (h i)) (linputs (h l))"

lemma phyTransformAttr_wp [wp_simps, simp]:
  "wp (phyTransformAttr h l x) Q E s \<longleftrightarrow>
     list_ex (attr_eq x) (concat (in_schemas h l)) \<and> Q (pos (in_schemas h l) x) s"
proof (cases "find_attr x (in_schemas h l) 0")
  case None
  then have "\<not> list_ex (attr_eq x) (concat (in_schemas h l))"
    using find_attr_None [of x "in_schemas h l" 0] by metis
  then show ?thesis using None by (simp add: phyTransformAttr_def)
next
  case (Some p)
  then have "list_ex (attr_eq x) (concat (in_schemas h l))"
    using find_attr_None [of x "in_schemas h l" 0] by (metis option.distinct(1))
  then show ?thesis using Some by (simp add: phyTransformAttr_def pos_def)
qed

text \<open>\<open>exprs_used n s s'\<close>: at most \<open>n\<close> expressions were taken from the pool, and nothing else changed.\<close>

definition exprs_used :: "nat \<Rightarrow> plan_manager \<Rightarrow> plan_manager \<Rightarrow> bool" where
  "exprs_used n s s' \<longleftrightarrow> numExprs s' \<le> numExprs s + n \<and> s' = s\<lparr>numExprs := numExprs s'\<rparr>"

lemma exprs_used_refl [simp]: "exprs_used n s s"
  by (simp add: exprs_used_def)

lemma exprs_used_trans: "exprs_used m s s' \<Longrightarrow> exprs_used n s' s'' \<Longrightarrow> m + n \<le> k \<Longrightarrow> exprs_used k s s''"
proof -
  assume a: "exprs_used m s s'" "exprs_used n s' s''" "m + n \<le> k"
  have "s'' = s'\<lparr>numExprs := numExprs s''\<rparr>" using a(2) by (simp add: exprs_used_def)
  also have "\<dots> = (s\<lparr>numExprs := numExprs s'\<rparr>)\<lparr>numExprs := numExprs s''\<rparr>" using a(1) by (simp add: exprs_used_def)
  finally have "s'' = s\<lparr>numExprs := numExprs s''\<rparr>" by simp
  then show ?thesis using a by (simp add: exprs_used_def)
qed

lemma new_pexpr_wp [wp_simps]:
  "wp new_pexpr Q E s = (if numExprs s \<ge> P_MAX_EXPRS then Q None s
     else Q (Some (numExprs s)) (s\<lparr>numExprs := numExprs s + 1\<rparr>))"
  by (simp add: new_pexpr_def)

lemma new_pbexpr_wp [wp_simps]:
  "wp new_pbexpr Q E s = (if numBExprs s \<ge> P_MAX_EXPRS then Q None s
     else Q (Some (numBExprs s)) (s\<lparr>numBExprs := numBExprs s + 1\<rparr>))"
  by (simp add: new_pbexpr_def)

text \<open>The two pools hand out consecutive positions up to their capacity.\<close>

interpretation pexpr_pool: bump_pool numExprs P_MAX_EXPRS "\<lambda>_ :: unit. new_pexpr"
    "modM (\<lambda>s. s\<lparr>numExprs := 0\<rparr>)" "\<lambda>_ n. n"
  by unfold_locales (auto simp: new_pexpr_def comp_defs)

interpretation pbexpr_pool: bump_pool numBExprs P_MAX_EXPRS "\<lambda>_ :: unit. new_pbexpr"
    "modM (\<lambda>s. s\<lparr>numBExprs := 0\<rparr>)" "\<lambda>_ n. n"
  by unfold_locales (auto simp: new_pbexpr_def comp_defs)

definition expr_result :: "nat \<Rightarrow> 'a \<Rightarrow> plan_manager \<Rightarrow> 'a option \<Rightarrow> plan_manager \<Rightarrow> bool" where
  "expr_result n x s r s' \<longleftrightarrow> exprs_used n s s' \<and>
     (r = Some x \<or> r = None \<and> P_MAX_EXPRS < numExprs s + n)"

lemma phyTransformExpr_wp:
  assumes "refs_in (concat (in_schemas h l)) e"
  shows "wp (phyTransformExpr h l e) (expr_result (esize e) (pe (in_schemas h l) e) s) E s"
  using assms
proof (induction e arbitrary: s)
  case (LE_COMP t op e1 e2)
  let ?s = "s\<lparr>numExprs := Suc (numExprs s)\<rparr>"
  let ?ass = "in_schemas h l"
  show ?case
  proof (cases "numExprs s \<ge> P_MAX_EXPRS")
    case True
    then show ?thesis by (simp add: new_pexpr_wp expr_result_def)
  next
    case False
    have s: "exprs_used 1 s ?s" by (simp add: exprs_used_def)
    have "wp (bindM (phyTransformExpr h l e1) (\<lambda>lp. bindM (phyTransformExpr h l e2) (\<lambda>rp.
        retM (case (lp, rp) of (Some x, Some y) \<Rightarrow> Some (PE_COMP t op x y) | _ \<Rightarrow> None))))
        (expr_result (esize (LE_COMP t op e1 e2)) (pe ?ass (LE_COMP t op e1 e2)) s) E ?s"
    proof (rule wp_bindI [OF LE_COMP.IH(1)])
      fix lp s1 assume lp: "expr_result (esize e1) (pe ?ass e1) ?s lp s1"
      show "wp (bindM (phyTransformExpr h l e2) (\<lambda>rp.
        retM (case (lp, rp) of (Some x, Some y) \<Rightarrow> Some (PE_COMP t op x y) | _ \<Rightarrow> None)))
        (expr_result (esize (LE_COMP t op e1 e2)) (pe ?ass (LE_COMP t op e1 e2)) s) E s1"
      proof (rule wp_bindI [OF LE_COMP.IH(2)])
        fix rp s2 assume rp: "expr_result (esize e2) (pe ?ass e2) s1 rp s2"
        have "exprs_used (esize e1 + esize e2) ?s s2"
          using lp rp by (auto simp: expr_result_def intro: exprs_used_trans)
        from exprs_used_trans [OF s this] have u: "exprs_used (esize (LE_COMP t op e1 e2)) s s2" by simp
        have n: "numExprs s1 \<le> Suc (numExprs s) + esize e1"
          using lp by (auto simp: expr_result_def exprs_used_def)
        show "wp (retM (case (lp, rp) of (Some x, Some y) \<Rightarrow> Some (PE_COMP t op x y) | _ \<Rightarrow> None))
          (expr_result (esize (LE_COMP t op e1 e2)) (pe ?ass (LE_COMP t op e1 e2)) s) E s2"
          using u n lp rp unfolding expr_result_def by (auto split: option.splits)
      qed (use LE_COMP.prems in simp_all)
    qed (use LE_COMP.prems in simp_all)
    then show ?thesis using False by (simp add: new_pexpr_wp)
  qed
qed (auto simp: new_pexpr_wp expr_result_def exprs_used_def)

definition bexpr_ok :: "lattr list list \<Rightarrow> lbexpr \<Rightarrow> bool" where
  "bexpr_ok ass b \<longleftrightarrow> (\<exists>l r. lbLeft b = Some l \<and> lbRight b = Some r \<and>
     refs_in (concat ass) l \<and> refs_in (concat ass) r)"

lemma phyTransformBExpr_wp:
  assumes "bexpr_ok (in_schemas h l) b"
  shows "wp (phyTransformBExpr h l b) (\<lambda>r s'.
    (\<exists>n m. s' = s\<lparr>numExprs := n, numBExprs := m\<rparr> \<and> n \<le> numExprs s + bsize b \<and> m \<le> numBExprs s + 1) \<and>
    (r = Some (pb (in_schemas h l) b) \<or>
     r = None \<and> (P_MAX_EXPRS < numExprs s + bsize b \<or> P_MAX_EXPRS < numBExprs s + 1))) E s"
proof -
  obtain x y where b: "lbLeft b = Some x" "lbRight b = Some y"
      "refs_in (concat (in_schemas h l)) x" "refs_in (concat (in_schemas h l)) y"
    using assms by (auto simp: bexpr_ok_def)
  show ?thesis
    unfolding phyTransformBExpr_def phyTransformExprPtr_def b option.case
  proof (rule wp_bindI [OF phyTransformExpr_wp [OF b(3)]])
    fix lp s1 assume lp: "expr_result (esize x) (pe (in_schemas h l) x) s lp s1"
    show "wp (bindM (phyTransformExpr h l y) (\<lambda>rp. case (lp, rp) of
      (Some x, Some y) \<Rightarrow>
        bindM new_pbexpr (\<lambda>r. case r of None \<Rightarrow> retM None
          | Some _ \<Rightarrow> retM (Some \<lparr>pbOp = lbOp b, pbLeft = x, pbRight = y\<rparr>))
    | _ \<Rightarrow> retM None)) (\<lambda>r s'.
    (\<exists>n m. s' = s\<lparr>numExprs := n, numBExprs := m\<rparr> \<and> n \<le> numExprs s + bsize b \<and> m \<le> numBExprs s + 1) \<and>
    (r = Some (pb (in_schemas h l) b) \<or>
     r = None \<and> (P_MAX_EXPRS < numExprs s + bsize b \<or> P_MAX_EXPRS < numBExprs s + 1))) E s1"
    proof (rule wp_bindI [OF phyTransformExpr_wp [OF b(4)]])
      fix rp s2 assume rp: "expr_result (esize y) (pe (in_schemas h l) y) s1 rp s2"
      have "exprs_used (bsize b) s s2"
        using lp rp b by (auto simp: expr_result_def bsize_def intro: exprs_used_trans)
      then obtain m where m: "s2 = s\<lparr>numExprs := m\<rparr>" and u: "numExprs s2 \<le> numExprs s + bsize b"
        by (auto simp: exprs_used_def)
      have n: "numExprs s1 \<le> numExprs s + esize x" using lp by (auto simp: expr_result_def exprs_used_def)
      show "wp (case (lp, rp) of
      (Some x, Some y) \<Rightarrow>
        bindM new_pbexpr (\<lambda>r. case r of None \<Rightarrow> retM None
          | Some _ \<Rightarrow> retM (Some \<lparr>pbOp = lbOp b, pbLeft = x, pbRight = y\<rparr>))
    | _ \<Rightarrow> retM None) (\<lambda>r s'.
    (\<exists>n m. s' = s\<lparr>numExprs := n, numBExprs := m\<rparr> \<and> n \<le> numExprs s + bsize b \<and> m \<le> numBExprs s + 1) \<and>
    (r = Some (pb (in_schemas h l) b) \<or>
     r = None \<and> (P_MAX_EXPRS < numExprs s + bsize b \<or> P_MAX_EXPRS < numBExprs s + 1))) E s2"
      proof (cases "lp = None \<or> rp = None \<or> P_MAX_EXPRS \<le> numBExprs s")
        case True
        have "P_MAX_EXPRS < numExprs s + bsize b" if "lp = None \<or> rp = None"
          using that lp rp n b by (auto simp: expr_result_def bsize_def)
        moreover have "\<exists>n k. s2 = s\<lparr>numExprs := n, numBExprs := k\<rparr> \<and> n \<le> numExprs s + bsize b \<and> k \<le> numBExprs s + 1"
          by (rule exI [of _ m], rule exI [of _ "numBExprs s"]) (use m u in simp)
        ultimately show ?thesis
          using True m by (auto simp: new_pbexpr_wp split: option.splits)
      next
        case False
        then have "lp = Some (pe (in_schemas h l) x)" "rp = Some (pe (in_schemas h l) y)"
          using lp rp by (auto simp: expr_result_def)
        moreover have "\<exists>n k. s2\<lparr>numBExprs := numBExprs s2 + 1\<rparr> = s\<lparr>numExprs := n, numBExprs := k\<rparr> \<and>
            n \<le> numExprs s + bsize b \<and> k \<le> numBExprs s + 1"
          by (rule exI [of _ m], rule exI [of _ "numBExprs s + 1"]) (use m u in simp)
        ultimately show ?thesis
          using False m b by (simp add: new_pbexpr_wp pb_def)
      qed
    qed simp
  qed simp
qed

end
