(* ===== verification/Phy_Tree.thy ===== *)
theory Phy_Tree
  imports Phy_Facts
begin

text \<open>
  Physical plans: the plan of a logical plan as a function (\<open>phy_of\<close>), and the operators of the
  pool that represent a physical plan (\<open>tree_at\<close>).
\<close>

section \<open>Physical plans without addresses\<close>

record pnode =
  nkind :: pkind
  nunion :: punion
  ncols :: "pcolumn list"
  nstream :: bool

text \<open>A source is an operator that was there before: its address, schema and stream flag.\<close>

datatype pplan = PSrc nat "pcolumn list" bool | POp pnode "pplan list"

fun pcols :: "pplan \<Rightarrow> pcolumn list" where
  "pcols (PSrc a cs b) = cs" | "pcols (POp i ps) = ncols i"

fun pstream :: "pplan \<Rightarrow> bool" where
  "pstream (PSrc a cs b) = b" | "pstream (POp i ps) = nstream i"

definition p_unary :: "pkind \<Rightarrow> punion \<Rightarrow> (bool \<Rightarrow> bool) \<Rightarrow> pplan \<Rightarrow> pplan" where
  "p_unary k u st p = POp \<lparr>nkind = k, nunion = u, ncols = pcols p, nstream = st (pstream p)\<rparr> [p]"

fun preds_of :: "punion \<Rightarrow> pbexpr list" where
  "preds_of (U_SELECT bs) = bs" | "preds_of _ = []"

fun p_select :: "pbexpr \<Rightarrow> pplan \<Rightarrow> pplan" where
  "p_select b (PSrc a cs st) = p_unary PO_SELECT (U_SELECT [b]) (\<lambda>x. x) (PSrc a cs st)"
| "p_select b (POp i ps) =
    (if nkind i = PO_SELECT then POp (i\<lparr>nunion := U_SELECT (b # preds_of (nunion i))\<rparr>) ps
     else p_unary PO_SELECT (U_SELECT [b]) (\<lambda>x. x) (POp i ps))"

fun type_len :: "ctype \<Rightarrow> nat option" where
  "type_len T_INT = Some INT_SIZE" | "type_len T_FLOAT = Some FLOAT_SIZE"
| "type_len T_BYTE = Some BYTE_SIZE" | "type_len T_CHAR = None"

fun proj_col :: "pcolumn list \<Rightarrow> pexpr \<Rightarrow> pcolumn" where
  "proj_col cs (PE_ATTR t a) = (t, if t = T_CHAR then snd (cs ! attrPos a) else type_len t)"
| "proj_col cs e = (pexpr_type e, type_len (pexpr_type e))"

definition aggr_col :: "pcolumn list \<Rightarrow> pattr \<times> aggr_fn \<Rightarrow> pcolumn" where
  "aggr_col cs af = (let t = getOutputType (snd af) (fst (cs ! attrPos (fst af))) in (t, type_len t))"

definition aggr_pos :: "lattr list list \<Rightarrow> lattr \<times> aggr_fn \<Rightarrow> pattr \<times> aggr_fn" where
  "aggr_pos ass af =
    (if snd af = F_COUNT then (\<lparr>attrInput = 0, attrPos = 0\<rparr>, snd af) else (pos ass (fst af), snd af))"

definition binary_cols :: "pcolumn list \<Rightarrow> pcolumn list \<Rightarrow> pcolumn list" where
  "binary_cols cs ds = map2 (\<lambda>c d. if fst c = T_CHAR then (T_CHAR, longer (snd c) (snd d)) else c) cs ds"

definition p_binary :: "pkind \<Rightarrow> (bool \<Rightarrow> bool \<Rightarrow> bool) \<Rightarrow> pplan list \<Rightarrow> pplan" where
  "p_binary k st ps = POp \<lparr>nkind = k, nunion = U_NONE, ncols = binary_cols (pcols (ps ! 0)) (pcols (ps ! 1)),
     nstream = st (pstream (ps ! 0)) (pstream (ps ! 1))\<rparr> ps"

definition p_join :: "pkind \<Rightarrow> (nat \<Rightarrow> nat \<Rightarrow> punion) \<Rightarrow> (bool \<Rightarrow> bool \<Rightarrow> bool) \<Rightarrow> pplan list \<Rightarrow> pplan" where
  "p_join k u st ps = POp \<lparr>nkind = k, nunion = u (length (pcols (ps ! 0))) (length (pcols (ps ! 1))),
     ncols = pcols (ps ! 0) @ pcols (ps ! 1), nstream = st (pstream (ps ! 0)) (pstream (ps ! 1))\<rparr> ps"

fun phy_node :: "lkind \<Rightarrow> lattr list list \<Rightarrow> pplan list \<Rightarrow> pplan" where
  "phy_node (LO_ROW_WIN n) ass ps = p_unary PO_ROW_WIN (U_ROW_WIN n) (\<lambda>_. False) (hd ps)"
| "phy_node (LO_RANGE_WIN n) ass ps = p_unary PO_RANGE_WIN (U_RANGE_WIN n) (\<lambda>_. False) (hd ps)"
| "phy_node LO_NOW_WIN ass ps = p_unary PO_RANGE_WIN (U_RANGE_WIN 1) (\<lambda>_. False) (hd ps)"
| "phy_node (LO_PARTN_WIN as n) ass ps =
    p_unary PO_PARTN_WIN (U_PARTN_WIN (map (pos ass) as) n) (\<lambda>_. False) (hd ps)"
| "phy_node (LO_SELECT b) ass ps = p_select (pb ass b) (hd ps)"
| "phy_node (LO_PROJECT es) ass ps =
    POp \<lparr>nkind = PO_PROJECT, nunion = U_PROJECT (map (pe ass) es),
      ncols = map (proj_col (pcols (hd ps)) \<circ> pe ass) es, nstream = pstream (hd ps)\<rparr> ps"
| "phy_node LO_CROSS ass ps = p_join PO_JOIN (\<lambda>m n. U_JOIN m n []) (\<and>) ps"
| "phy_node LO_STREAM_CROSS ass ps = p_join PO_STR_JOIN (\<lambda>m n. U_STR_JOIN m n []) (\<lambda>_ _. True) ps"
| "phy_node (LO_GROUP_AGGR gs as) ass ps =
    POp \<lparr>nkind = PO_GROUP_AGGR, nunion = U_GROUP_AGGR (map (pos ass) gs) (map (aggr_pos ass) as),
      ncols = map (\<lambda>g. pcols (hd ps) ! attrPos (pos ass g)) gs @ map (aggr_col (pcols (hd ps)) \<circ> aggr_pos ass) as,
      nstream = False\<rparr> ps"
| "phy_node LO_DISTINCT ass ps = p_unary PO_DISTINCT U_NONE (\<lambda>x. x) (hd ps)"
| "phy_node LO_ISTREAM ass ps = p_unary PO_ISTREAM U_NONE (\<lambda>_. True) (hd ps)"
| "phy_node LO_DSTREAM ass ps = p_unary PO_DSTREAM U_NONE (\<lambda>_. True) (hd ps)"
| "phy_node LO_RSTREAM ass ps = p_unary PO_RSTREAM U_NONE (\<lambda>_. True) (hd ps)"
| "phy_node LO_UNION ass ps = p_binary PO_UNION (\<and>) ps"
| "phy_node LO_EXCEPT ass ps = p_binary PO_EXCEPT (\<lambda>_ _. False) ps"
| "phy_node k ass ps = undefined"

fun is_source :: "lkind \<Rightarrow> bool" where
  "is_source (LO_STREAM_SOURCE v t) = True"
| "is_source (LO_RELN_SOURCE v t) = True"
| "is_source _ = False"

fun table_of :: "lkind \<Rightarrow> nat" where
  "table_of (LO_STREAM_SOURCE v t) = t"
| "table_of (LO_RELN_SOURCE v t) = t"
| "table_of _ = 0"

definition table_cols :: "table_manager \<Rightarrow> nat \<Rightarrow> pcolumn list" where
  "table_cols tm t = map (\<lambda>a. (attrType a, Some (attrLen a))) (attrList (tableList tm ! t))"

text \<open>\<open>src t\<close>: the operator that produces the tuples of table \<open>t\<close> and whether it is a stream.\<close>

fun phy_of :: "table_manager \<Rightarrow> (nat \<Rightarrow> nat \<times> bool) \<Rightarrow> kplan \<Rightarrow> pplan" where
  "phy_of tm src (KP k ts) =
    (if is_source k then PSrc (fst (src (table_of k))) (table_cols tm (table_of k)) (snd (src (table_of k)))
     else phy_node k (map (kattrs tm) ts) (map (phy_of tm src) ts))"

section \<open>Plans that have a physical plan\<close>

text \<open>
  Every attribute occurs in an input, a projected expression over characters is an attribute, joins
  are binary, and the inputs of a binary operator have the same number of attributes.
\<close>

definition char_ok :: "lexpr \<Rightarrow> bool" where
  "char_ok e \<longleftrightarrow> (lexpr_type e = T_CHAR \<longrightarrow> (\<exists>a. e = LE_ATTR T_CHAR a))"

definition attr_in :: "lattr list list \<Rightarrow> lattr \<Rightarrow> bool" where
  "attr_in ass a \<longleftrightarrow> list_ex (attr_eq a) (concat ass)"

fun node_ok :: "lkind \<Rightarrow> lattr list list \<Rightarrow> bool" where
  "node_ok (LO_PARTN_WIN as n) ass \<longleftrightarrow> length as \<le> LOP_GROUP_ATTRS \<and> (\<forall>a\<in>set as. attr_in ass a)"
| "node_ok (LO_SELECT b) ass \<longleftrightarrow> bexpr_ok ass b"
| "node_ok (LO_PROJECT es) ass \<longleftrightarrow> (\<forall>e\<in>set es. refs_in (concat ass) e \<and> char_ok e)"
| "node_ok (LO_GROUP_AGGR gs as) ass \<longleftrightarrow> length gs \<le> LOP_GROUP_ATTRS \<and> length as \<le> MAX_AGGR_ATTRS \<and>
     (\<forall>a\<in>set gs. attr_in ass a) \<and> (\<forall>af\<in>set as. if snd af = F_COUNT then hd ass \<noteq> [] else attr_in ass (fst af))"
| "node_ok LO_CROSS ass \<longleftrightarrow> length ass = 2"
| "node_ok LO_STREAM_CROSS ass \<longleftrightarrow> length ass = 2"
| "node_ok LO_UNION ass \<longleftrightarrow> length (ass ! 0) = length (ass ! 1)"
| "node_ok LO_EXCEPT ass \<longleftrightarrow> length (ass ! 0) = length (ass ! 1)"
| "node_ok _ ass \<longleftrightarrow> True"

fun phys_ok :: "table_manager \<Rightarrow> kplan \<Rightarrow> bool" where
  "phys_ok tm (KP k ts) \<longleftrightarrow> node_ok k (map (kattrs tm) ts) \<and> (\<forall>t\<in>set ts. phys_ok tm t)"

text \<open>What a plan takes from the pools: operators, expressions, and links to the sources.\<close>

fun nodes :: "kplan \<Rightarrow> nat" where
  "nodes (KP k ts) = (if is_source k then 0 else Suc (sum_list (map nodes ts)))"

fun kexprs :: "lkind \<Rightarrow> nat" where
  "kexprs (LO_SELECT b) = bsize b"
| "kexprs (LO_PROJECT es) = sum_list (map esize es)"
| "kexprs _ = 0"

fun exprs :: "kplan \<Rightarrow> nat" where
  "exprs (KP k ts) = kexprs k + sum_list (map exprs ts)"

fun bexprs :: "kplan \<Rightarrow> nat" where
  "bexprs (KP k ts) = (if is_select k then 1 else 0) + sum_list (map bexprs ts)"

fun tables :: "kplan \<Rightarrow> nat list" where
  "tables (KP k ts) = (if is_source k then [table_of k] else concat (map tables ts))"

definition leaves :: "(nat \<Rightarrow> nat \<times> bool) \<Rightarrow> kplan \<Rightarrow> nat list" where
  "leaves src t = map (fst \<circ> src) (tables t)"

lemma leaves_KP: "leaves src (KP k ts) =
    (if is_source k then [fst (src (table_of k))] else concat (map (leaves src) ts))"
  by (simp add: leaves_def [abs_def] map_concat comp_def)

subsection \<open>Widths\<close>

lemma pcols_p_select [simp]: "pcols (p_select b p) = pcols p"
  by (cases p) (simp_all add: p_unary_def)

lemma phy_width:
  assumes "kplan_ok tm t" and "phys_ok tm t"
  shows "length (pcols (phy_of tm src t)) = length (kattrs tm t)"
  using assms
proof (induction t)
  case (KP k ts)
  have IH: "length (pcols (phy_of tm src t)) = length (kattrs tm t)" if "t \<in> set ts" for t
    using KP that by simp
  show ?case
  proof (cases "is_source k")
    case True
    then show ?thesis by (cases k) (auto simp: table_cols_def source_attrs_def)
  next
    case False
    show ?thesis
    proof (cases "length ts = 1")
      case True
      then obtain t where "ts = [t]" by (cases ts) auto
      then show ?thesis using False IH KP.prems by (cases k) (auto simp: p_unary_def)
    next
      case n1: False
      then have "length ts = 2" and k: "k = LO_CROSS \<or> k = LO_STREAM_CROSS \<or> k = LO_UNION \<or> k = LO_EXCEPT"
        using KP.prems False by (cases k; auto)+
      then obtain t u where "ts = [t, u]" by (auto simp: length_Suc_conv numeral_2_eq_2)
      moreover from this have "length (pcols (phy_of tm src t)) = length (kattrs tm t)"
          "length (pcols (phy_of tm src u)) = length (kattrs tm u)" using IH by simp_all
      ultimately show ?thesis using k KP.prems
        by (elim disjE) (simp_all add: p_join_def p_binary_def binary_cols_def)
    qed
  qed
qed

text \<open>The union of a physical selection holds predicates.\<close>

lemma phy_node_op:
  assumes "\<not> is_source k"
  shows "\<exists>i qs. phy_node k ass ps = POp i qs \<and> (nkind i = PO_SELECT \<longrightarrow> (\<exists>bs. nunion i = U_SELECT bs))"
proof (cases "is_select k")
  case True
  then obtain b where "k = LO_SELECT b" by (auto simp: is_kind_cases)
  then show ?thesis by (cases "hd ps") (simp_all add: p_unary_def)
next
  case False
  then show ?thesis using assms by (cases k) (simp_all add: p_unary_def p_join_def p_binary_def)
qed

lemma phy_of_op:
  assumes "\<not> is_source (kroot t)"
  shows "\<exists>i qs. phy_of tm src t = POp i qs \<and> (nkind i = PO_SELECT \<longrightarrow> (\<exists>bs. nunion i = U_SELECT bs))"
  using assms phy_node_op by (cases t) simp

section \<open>Plans in the pool\<close>

datatype ptr = TSrc nat "pcolumn list" bool | TOp nat pnode "ptr list"

fun troot :: "ptr \<Rightarrow> nat" where
  "troot (TSrc a cs b) = a" | "troot (TOp a i ts) = a"

fun own :: "ptr \<Rightarrow> nat list" where
  "own (TSrc a cs b) = []" | "own (TOp a i ts) = a # concat (map own ts)"

fun srcs :: "ptr \<Rightarrow> nat list" where
  "srcs (TSrc a cs b) = [a]" | "srcs (TOp a i ts) = concat (map srcs ts)"

text \<open>The order in which the operators of a plan are made: the inputs first.\<close>

fun post :: "ptr \<Rightarrow> nat list" where
  "post (TSrc a cs b) = []" | "post (TOp a i ts) = concat (map post ts) @ [a]"

fun erase :: "ptr \<Rightarrow> pplan" where
  "erase (TSrc a cs b) = PSrc a cs b" | "erase (TOp a i ts) = POp i (map erase ts)"

definition node_of :: "phyop \<Rightarrow> pnode" where
  "node_of x = \<lparr>nkind = pkind x, nunion = pu x, ncols = pschema x, nstream = pbStream x\<rparr>"

lemma node_of_sel [simp]:
  "nkind (node_of x) = pkind x" "nunion (node_of x) = pu x"
  "ncols (node_of x) = pschema x" "nstream (node_of x) = pbStream x"
  by (simp_all add: node_of_def)

lemma node_of_upd [simp]:
  "node_of (x\<lparr>poutputs := qs\<rparr>) = node_of x" "node_of (x\<lparr>pinputs := qs\<rparr>) = node_of x"
  "node_of (x\<lparr>query_class_id := c\<rparr>) = node_of x"
  by (simp_all add: node_of_def)

text \<open>
  \<open>tree_at h outs t\<close>: the operators of \<open>t\<close> are linked as \<open>t\<close>, in both directions, and exactly \<open>outs\<close>
  read from its root; from a source other operators may read as well.
\<close>

fun tree_at :: "(nat \<Rightarrow> phyop) \<Rightarrow> nat list \<Rightarrow> ptr \<Rightarrow> bool" where
  "tree_at h outs (TSrc a cs b) \<longleftrightarrow> pschema (h a) = cs \<and> pbStream (h a) = b \<and> pkind (h a) \<noteq> PO_SELECT \<and>
     set outs \<subseteq> set (poutputs (h a))"
| "tree_at h outs (TOp a i ts) \<longleftrightarrow> node_of (h a) = i \<and> pinputs (h a) = map troot ts \<and>
     poutputs (h a) = outs \<and> (\<forall>t\<in>set ts. tree_at h [a] t)"

lemma tree_at_cols: "tree_at h outs t \<Longrightarrow> pschema (h (troot t)) = pcols (erase t)"
  by (cases t) auto

lemma tree_at_stream: "tree_at h outs t \<Longrightarrow> pbStream (h (troot t)) = pstream (erase t)"
  by (cases t) auto

text \<open>Only the outputs of the sources grow.\<close>

definition same_src :: "phyop \<Rightarrow> phyop \<Rightarrow> bool" where
  "same_src x y \<longleftrightarrow> (\<exists>qs. y = x\<lparr>poutputs := poutputs x @ qs\<rparr>)"

lemma same_src_refl [simp]: "same_src x x"
  unfolding same_src_def by (rule exI [of _ "[]"]) simp

lemma tree_at_frame:
  assumes "tree_at h outs t" and "\<And>a. a \<in> set (own t) \<Longrightarrow> h' a = h a"
    and "\<And>a. a \<in> set (srcs t) \<Longrightarrow> same_src (h a) (h' a)"
  shows "tree_at h' outs t"
  using assms
proof (induction t arbitrary: outs)
  case (TSrc a cs b)
  have "same_src (h a) (h' a)" using TSrc.prems(3) by simp
  then show ?case using TSrc.prems(1) by (auto simp: same_src_def)
next
  case (TOp a i ts)
  have "tree_at h' [a] t" if t: "t \<in> set ts" for t
    using TOp.prems t by (intro TOp.IH [OF t]) auto
  then show ?case using TOp.prems(1,2) by simp
qed

section \<open>Linking a new operator\<close>

definition addOuts :: "nat \<Rightarrow> nat list \<Rightarrow> (nat \<Rightarrow> phyop) \<Rightarrow> nat \<Rightarrow> phyop" where
  "addOuts op cs h = (\<lambda>x. (h x)\<lparr>poutputs := poutputs (h x) @ replicate (count_list cs x) op\<rparr>)"

lemma addOuts_Nil [simp]: "addOuts op [] h = h"
  by (simp add: addOuts_def)

lemma addOuts_sel [simp]:
  "pid (addOuts op cs h x) = pid (h x)" "pkind (addOuts op cs h x) = pkind (h x)"
  "pschema (addOuts op cs h x) = pschema (h x)" "pbStream (addOuts op cs h x) = pbStream (h x)"
  "pinputs (addOuts op cs h x) = pinputs (h x)" "pu (addOuts op cs h x) = pu (h x)"
  "query_class_id (addOuts op cs h x) = query_class_id (h x)" "node_of (addOuts op cs h x) = node_of (h x)"
  "poutputs (addOuts op cs h x) = poutputs (h x) @ replicate (count_list cs x) op"
  by (simp_all add: addOuts_def)

lemma addOuts_other: "x \<notin> set cs \<Longrightarrow> addOuts op cs h x = h x"
  by (simp add: addOuts_def count_notin)

lemma addOuts_Cons:
  "addOuts op cs (h(c := (h c)\<lparr>poutputs := poutputs (h c) @ [op]\<rparr>)) = addOuts op (c # cs) h"
  by (auto simp: addOuts_def fun_eq_iff replicate_app_Cons_same)

lemma same_src_addOuts [simp]: "same_src (h x) (addOuts op cs h x)"
  by (auto simp: same_src_def addOuts_def)

lemma forM_addOutput_wp:
  "wp (forM cs (\<lambda>c. addOutput c op)) (\<lambda>_ s'. s' = s\<lparr>ops := addOuts op cs (ops s)\<rparr>)
    (\<lambda>rc s'. rc = - 1 \<and> (\<exists>ds. s' = s\<lparr>ops := addOuts op ds (ops s)\<rparr> \<and> (\<forall>x. count_list ds x \<le> count_list cs x)) \<and>
      (\<exists>c\<in>set cs. MAX_OUT_BRANCHING < length (poutputs (ops s c)) + count_list cs c)) s"
proof (induction cs arbitrary: s)
  case (Cons c cs)
  show ?case
  proof (cases "length (poutputs (ops s c)) \<ge> MAX_OUT_BRANCHING")
    case True
    then show ?thesis by (auto simp: addOutput_def intro: exI [of _ "[]"])
  next
    case False
    let ?s = "s\<lparr>ops := (ops s)(c := (ops s c)\<lparr>poutputs := poutputs (ops s c) @ [op]\<rparr>)\<rparr>"
    have "wp (forM cs (\<lambda>c. addOutput c op)) (\<lambda>_ s'. s' = s\<lparr>ops := addOuts op (c # cs) (ops s)\<rparr>)
    (\<lambda>rc s'. rc = - 1 \<and> (\<exists>ds. s' = s\<lparr>ops := addOuts op ds (ops s)\<rparr> \<and> (\<forall>x. count_list ds x \<le> count_list (c # cs) x)) \<and>
      (\<exists>d\<in>set (c # cs). MAX_OUT_BRANCHING < length (poutputs (ops s d)) + count_list (c # cs) d)) ?s"
    proof (rule wp_mono [OF Cons.IH])
      fix rc s'
      assume e: "rc = - 1 \<and> (\<exists>ds. s' = ?s\<lparr>ops := addOuts op ds (ops ?s)\<rparr> \<and> (\<forall>x. count_list ds x \<le> count_list cs x)) \<and>
        (\<exists>d\<in>set cs. MAX_OUT_BRANCHING < length (poutputs (ops ?s d)) + count_list cs d)"
      then obtain ds where ds: "s' = s\<lparr>ops := addOuts op (c # ds) (ops s)\<rparr>" "\<forall>x. count_list ds x \<le> count_list cs x"
        by (auto simp: addOuts_Cons simp del: fun_upd_apply)
      have "\<exists>ds. s' = s\<lparr>ops := addOuts op ds (ops s)\<rparr> \<and> (\<forall>x. count_list ds x \<le> count_list (c # cs) x)"
        using ds by (intro exI [of _ "c # ds"]) auto
      moreover have "\<exists>d\<in>set (c # cs). MAX_OUT_BRANCHING < length (poutputs (ops s d)) + count_list (c # cs) d"
        using e by (auto split: if_splits)
      ultimately show "rc = - 1 \<and> (\<exists>ds. s' = s\<lparr>ops := addOuts op ds (ops s)\<rparr> \<and> (\<forall>x. count_list ds x \<le> count_list (c # cs) x)) \<and>
      (\<exists>d\<in>set (c # cs). MAX_OUT_BRANCHING < length (poutputs (ops s d)) + count_list (c # cs) d)"
        using e by blast
    qed (simp add: addOuts_Cons del: fun_upd_apply)
    then show ?thesis using False by (simp add: addOutput_def)
  qed
qed simp

end
