(* ===== verification/Phy_Build.thy ===== *)
theory Phy_Build
  imports Phy_Tree
begin

text \<open>
  The constructors of physical operators: each takes the first operator of the free list, fills it in
  and links it to its inputs, or fails with status -1 because a pool or an array is full.
\<close>

section \<open>One new operator\<close>

definition keeps_rest :: "plan_manager \<Rightarrow> plan_manager \<Rightarrow> bool" where
  "keeps_rest s s' \<longleftrightarrow> baseTableSources s' = baseTableSources s \<and> queryOutputs s' = queryOutputs s \<and>
     sourceOps s' = sourceOps s \<and> queryOutOps s' = queryOutOps s \<and>
     current_query_class s' = current_query_class s \<and> sharingAmongClasses s' = sharingAmongClasses s"

lemma keeps_rest_refl [simp]: "keeps_rest s s"
  by (simp add: keeps_rest_def)

lemma keeps_rest_trans: "keeps_rest s s' \<Longrightarrow> keeps_rest s' s'' \<Longrightarrow> keeps_rest s s''"
  by (simp add: keeps_rest_def)

text \<open>
  \<open>made s a fs us X cs s'\<close>: from \<open>s\<close> to \<open>s'\<close> the operator \<open>a\<close> went to the front of the used ones and
  became \<open>X\<close>, and \<open>cs\<close> got it as an output.
\<close>

definition made ::
    "plan_manager \<Rightarrow> nat \<Rightarrow> nat list \<Rightarrow> nat list \<Rightarrow> phyop \<Rightarrow> nat list \<Rightarrow> plan_manager \<Rightarrow> bool" where
  "made s a fs us X cs s' \<longleftrightarrow> pool s' fs (a # us) \<and> ops s' = addOuts a cs ((ops s)(a := X)) \<and>
     pid X = pid (ops s a) \<and> query_class_id X = query_class_id (ops s a) \<and> keeps_rest s s'"

text \<open>The constructor has succeeded with the node \<open>i\<close> over the inputs \<open>cs\<close>, or has failed.\<close>

definition node_done ::
    "nat \<Rightarrow> plan_manager \<Rightarrow> nat \<Rightarrow> nat list \<Rightarrow> nat list \<Rightarrow> pnode \<Rightarrow> nat list \<Rightarrow> nat \<Rightarrow> plan_manager \<Rightarrow> bool" where
  "node_done e s a fs us i cs p s' \<longleftrightarrow> p = a \<and>
     (\<exists>X. made s a fs us X cs s' \<and> node_of X = i \<and> pinputs X = cs \<and> poutputs X = []) \<and>
     numExprs s' \<le> numExprs s + e \<and> numBExprs s' = numBExprs s"

definition node_fails ::
    "nat \<Rightarrow> plan_manager \<Rightarrow> nat \<Rightarrow> nat list \<Rightarrow> nat list \<Rightarrow> nat list \<Rightarrow> int \<Rightarrow> plan_manager \<Rightarrow> bool" where
  "node_fails e s a fs us cs rc s' \<longleftrightarrow> rc = - 1 \<and>
     (\<exists>X ds. made s a fs us X ds s' \<and> (\<forall>x. count_list ds x \<le> count_list cs x)) \<and>
     numExprs s' \<le> numExprs s + e \<and> numBExprs s' = numBExprs s \<and>
     (P_MAX_EXPRS < numExprs s + e \<or>
      (\<exists>c\<in>set cs. MAX_OUT_BRANCHING < length (poutputs (ops s c)) + count_list cs c))"

text \<open>The body of a constructor runs with the new operator \<open>a\<close> at the front of the used ones.\<close>

definition fresh :: "plan_manager \<Rightarrow> nat \<Rightarrow> nat list \<Rightarrow> nat list \<Rightarrow> pkind \<Rightarrow> plan_manager \<Rightarrow> bool" where
  "fresh s a fs us k s' \<longleftrightarrow> pool s' fs (a # us) \<and> ops s' = (ops s)(a := blank_op k (ops s a)) \<and>
     keeps_rest s s' \<and> numExprs s' = numExprs s \<and> numBExprs s' = numBExprs s"

lemma withOp_wp:
  assumes "pool s (a # b # fs) us"
    and "\<And>s'. fresh s a (b # fs) us k s' \<Longrightarrow> wp (body a) (\<lambda>_. Q a) E s'"
  shows "wp (withOp k body) Q E s"
  unfolding withOp_def
proof (rule wp_bindI [OF new_op_wp [OF assms(1)]])
  fix r s'
  assume r: "r = Some a \<and> pool s' (b # fs) (a # us) \<and> linked (s\<lparr>ops := (ops s)(a := blank_op k (ops s a))\<rparr>) s'"
  then have "linked (s\<lparr>ops := (ops s)(a := blank_op k (ops s a))\<rparr>) s'" by blast
  from linked_sel [OF this] have "fresh s a (b # fs) us k s'" using r by (simp add: fresh_def keeps_rest_def)
  then show "wp (case r of None \<Rightarrow> failM (- 1) | Some op \<Rightarrow> seqM (body op) (retM op)) Q E s'"
    using assms(2) r by simp
qed simp

lemma pool_ops: "(\<And>x. pid (h x) = pid (ops s x)) \<Longrightarrow> pool (s\<lparr>ops := h\<rparr>) fs us = pool s fs us"
  by (rule pool_update) auto

text \<open>
  \<open>filled e s a fs us Y s'\<close>: the new operator has become \<open>Y\<close> and is not linked yet.
\<close>

definition filled ::
    "nat \<Rightarrow> plan_manager \<Rightarrow> nat \<Rightarrow> nat list \<Rightarrow> nat list \<Rightarrow> phyop \<Rightarrow> plan_manager \<Rightarrow> bool" where
  "filled e s a fs us Y s' \<longleftrightarrow> pool s' fs (a # us) \<and> ops s' = (ops s)(a := Y) \<and>
     pid Y = pid (ops s a) \<and> query_class_id Y = query_class_id (ops s a) \<and> keeps_rest s s' \<and>
     numExprs s' \<le> numExprs s + e \<and> numBExprs s' = numBExprs s"

lemma fresh_filled: "fresh s a fs us k s' \<Longrightarrow> filled e s a fs us (blank_op k (ops s a)) s'"
  by (simp add: fresh_def filled_def)

lemma filled_set:
  assumes "filled e s a fs us Y s'" and "pid (f Y) = pid Y" and "query_class_id (f Y) = query_class_id Y"
  shows "filled e s a fs us (f Y) (s'\<lparr>ops := (ops s')(a := f (ops s' a))\<rparr>)"
  using assms by (auto simp: filled_def pool_ops keeps_rest_def)

lemma filled_exprs:
  assumes "filled e s a fs us Y s'" and "exprs_used d s' s''"
  shows "filled (e + d) s a fs us Y s''"
proof -
  obtain n where n: "s'' = s'\<lparr>numExprs := n\<rparr>" "n \<le> numExprs s' + d"
    using assms(2) by (auto simp: exprs_used_def)
  have "pool s'' fs (a # us)" using assms(1) pool_update [of s'' s'] n by (simp add: filled_def)
  then show ?thesis using assms(1) n by (simp add: filled_def keeps_rest_def)
qed

lemma filled_mono: "filled e s a fs us Y s' \<Longrightarrow> e \<le> e' \<Longrightarrow> filled e' s a fs us Y s'"
  by (simp add: filled_def)

text \<open>A failure before the operator is linked.\<close>

lemma filled_fails:
  "filled e s a fs us Y s' \<Longrightarrow> P_MAX_EXPRS < numExprs s + e' \<Longrightarrow> e \<le> e' \<Longrightarrow> node_fails e' s a fs us cs (- 1) s'"
  unfolding node_fails_def filled_def made_def by (auto intro!: exI [of _ Y] exI [of _ "[]"])

text \<open>What follows a link writes to the new operator only.\<close>

lemma addOuts_set:
  assumes "a \<notin> set cs"
  shows "(addOuts a cs (h(a := x)))(a := f (addOuts a cs (h(a := x)) a)) = addOuts a cs (h(a := f x))"
  using assms by (auto simp: fun_eq_iff addOuts_other) 

text \<open>The last step of every constructor.\<close>

lemma link_done:
  assumes f: "filled e s a fs us Y s1" and cs: "a \<notin> set cs"
    and fill: "\<And>s1. pu (ops s1 a) = pu Y \<Longrightarrow>
      wp (fill a) (\<lambda>_ s2. s2 = s1\<lparr>ops := (ops s1)(a := (ops s1 a)\<lparr>pu := u\<rparr>)\<rparr>) (\<lambda>_ _. False) s1"
  shows "wp (seqM (link a st cs) (fill a))
    (\<lambda>_. node_done e s a fs us \<lparr>nkind = pkind Y, nunion = u, ncols = pschema Y, nstream = st\<rparr> cs a)
    (node_fails e s a fs us cs) s1"
proof -
  let ?X = "Y\<lparr>pbStream := st, poutputs := [], pinputs := cs\<rparr>"
  let ?s = "s1\<lparr>ops := (ops s)(a := ?X)\<rparr>"
  have o: "ops s1 = (ops s)(a := Y)" using f by (simp add: filled_def)
  have made: "made s a fs us X ds (s1\<lparr>ops := addOuts a ds ((ops s)(a := X))\<rparr>)"
    if "pid X = pid Y" "query_class_id X = query_class_id Y" for X ds
    using f that by (auto simp: filled_def made_def pool_ops keeps_rest_def)
  have n: "numExprs s1 \<le> numExprs s + e" "numBExprs s1 = numBExprs s" using f by (simp_all add: filled_def)
  have "wp (seqM (forM cs (\<lambda>c. addOutput c a)) (fill a))
    (\<lambda>_. node_done e s a fs us \<lparr>nkind = pkind Y, nunion = u, ncols = pschema Y, nstream = st\<rparr> cs a)
    (node_fails e s a fs us cs) ?s"
  proof (rule wp_seqI [OF forM_addOutput_wp])
    fix x s2
    assume s2: "s2 = ?s\<lparr>ops := addOuts a cs (ops ?s)\<rparr>"
    have "pu (ops s2 a) = pu Y" using cs by (simp add: s2)
    then show "wp (fill a) (\<lambda>_. node_done e s a fs us \<lparr>nkind = pkind Y, nunion = u, ncols = pschema Y, nstream = st\<rparr> cs a)
      (node_fails e s a fs us cs) s2"
    proof (rule wp_mono [OF fill])
      fix y s3
      assume "s3 = s2\<lparr>ops := (ops s2)(a := (ops s2 a)\<lparr>pu := u\<rparr>)\<rparr>"
      then have "s3 = s1\<lparr>ops := addOuts a cs ((ops s)(a := ?X\<lparr>pu := u\<rparr>))\<rparr>"
        using addOuts_set [of a cs "ops s" ?X "\<lambda>x. x\<lparr>pu := u\<rparr>"] cs by (simp add: s2)
      then show "node_done e s a fs us \<lparr>nkind = pkind Y, nunion = u, ncols = pschema Y, nstream = st\<rparr> cs a s3"
        unfolding node_done_def using made [of "?X\<lparr>pu := u\<rparr>" cs] n
        by (auto simp: node_of_def intro!: exI [of _ "?X\<lparr>pu := u\<rparr>"])
    qed simp
  next
    fix rc :: int and s2
    assume e: "rc = - 1 \<and> (\<exists>ds. s2 = ?s\<lparr>ops := addOuts a ds (ops ?s)\<rparr> \<and> (\<forall>x. count_list ds x \<le> count_list cs x)) \<and>
      (\<exists>c\<in>set cs. MAX_OUT_BRANCHING < length (poutputs (ops ?s c)) + count_list cs c)"
    then obtain ds where ds: "s2 = s1\<lparr>ops := addOuts a ds ((ops s)(a := ?X))\<rparr>" "\<forall>x. count_list ds x \<le> count_list cs x"
      by auto
    moreover have "\<exists>c\<in>set cs. MAX_OUT_BRANCHING < length (poutputs (ops s c)) + count_list cs c"
      using e cs by (auto split: if_splits)
    ultimately show "node_fails e s a fs us cs rc s2"
      unfolding node_fails_def using made [of ?X ds] e n by auto
  qed
  then show ?thesis
    by (simp add: link_def o)
qed

lemma link_done_plain:
  assumes f: "filled e s a fs us Y s1" and cs: "a \<notin> set cs"
  shows "wp (link a st cs)
    (\<lambda>_. node_done e s a fs us \<lparr>nkind = pkind Y, nunion = pu Y, ncols = pschema Y, nstream = st\<rparr> cs a)
    (node_fails e s a fs us cs) s1"
proof -
  have "wp (seqM (link a st cs) ((\<lambda>_. retM ()) a))
    (\<lambda>_. node_done e s a fs us \<lparr>nkind = pkind Y, nunion = pu Y, ncols = pschema Y, nstream = st\<rparr> cs a)
    (node_fails e s a fs us cs) s1"
    by (rule link_done [OF assms]) (simp, metis fun_upd_triv phyop.surjective phyop.update_convs(8)
        plan_manager.surjective plan_manager.update_convs(1))
  then show ?thesis by simp
qed

section \<open>The constructors\<close>

lemma phy_unary_wp:
  assumes pool: "pool s (a # b # fs) us" and c: "c \<noteq> a"
    and fill: "\<And>s1. pu (ops s1 a) = U_NONE \<Longrightarrow>
      wp (fill a) (\<lambda>_ s2. s2 = s1\<lparr>ops := (ops s1)(a := (ops s1 a)\<lparr>pu := u\<rparr>)\<rparr>) (\<lambda>_ _. False) s1"
  shows "wp (phy_unary k c st fill)
    (node_done 0 s a (b # fs) us \<lparr>nkind = k, nunion = u, ncols = pschema (ops s c), nstream = st (ops s c)\<rparr> [c])
    (node_fails 0 s a (b # fs) us [c]) s"
  unfolding phy_unary_def
proof (rule withOp_wp [OF pool])
  fix s1
  assume f: "fresh s a (b # fs) us k s1"
  let ?Y = "(blank_op k (ops s a))\<lparr>pschema := pschema (ops s c)\<rparr>"
  have o: "ops s1 c = ops s c" using f c by (simp add: fresh_def)
  have "filled 0 s a (b # fs) us ?Y (s1\<lparr>ops := (ops s1)(a := (ops s1 a)\<lparr>pschema := pschema (ops s c)\<rparr>)\<rparr>)"
    using filled_set [OF fresh_filled [OF f], of "\<lambda>x. x\<lparr>pschema := pschema (ops s c)\<rparr>"] by simp
  from link_done [OF this, of "[c]" fill u "st (ops s c)"] fill
  show "wp (seqM (phy_copy_schema a c) (bindM (pget c) (\<lambda>co. seqM (link a (st co) [c]) (fill a))))
     (\<lambda>_. node_done 0 s a (b # fs) us \<lparr>nkind = k, nunion = u, ncols = pschema (ops s c), nstream = st (ops s c)\<rparr> [c] a)
     (node_fails 0 s a (b # fs) us [c]) s1"
    using o c by (simp add: phy_copy_schema_def)
qed

lemma fill_none: "pu (ops s1 a) = U_NONE \<Longrightarrow>
   wp (retM ()) (\<lambda>_ s2. s2 = s1\<lparr>ops := (ops s1)(a := (ops s1 a)\<lparr>pu := U_NONE\<rparr>)\<rparr>) E s1"
  by simp (metis (no_types, lifting) fun_upd_triv phyop.surjective phyop.update_convs(8) plan_manager.surjective plan_manager.update_convs(1))

lemma phy_join_wp:
  assumes pool: "pool s (a # b # fs) us" and lr: "l \<noteq> a" "r \<noteq> a"
    and width: "length (pschema (ops s l)) + length (pschema (ops s r)) \<le> MAX_ATTRS"
  shows "wp (phy_join k st u l r)
    (node_done 0 s a (b # fs) us \<lparr>nkind = k, nunion = u (length (pschema (ops s l))) (length (pschema (ops s r))),
       ncols = pschema (ops s l) @ pschema (ops s r), nstream = st (pbStream (ops s l)) (pbStream (ops s r))\<rparr> [l, r])
    (node_fails 0 s a (b # fs) us [l, r]) s"
  unfolding phy_join_def
proof (rule withOp_wp [OF pool])
  fix s1
  assume f: "fresh s a (b # fs) us k s1"
  let ?sch = "pschema (ops s l) @ pschema (ops s r)"
  let ?s2 = "s1\<lparr>ops := (ops s1)(a := (ops s1 a)\<lparr>pschema := pschema (ops s l)\<rparr>)\<rparr>"
  let ?s3 = "?s2\<lparr>ops := (ops ?s2)(a := (ops ?s2 a)\<lparr>pschema := ?sch\<rparr>)\<rparr>"
  have o: "ops s1 l = ops s l" "ops s1 r = ops s r" "pschema (ops s1 a) = []"
    using f lr by (simp_all add: fresh_def)
  have "filled 0 s a (b # fs) us ((blank_op k (ops s a))\<lparr>pschema := pschema (ops s l)\<rparr>) ?s2"
    using filled_set [OF fresh_filled [OF f], of "\<lambda>x. x\<lparr>pschema := pschema (ops s l)\<rparr>"] by simp
  from filled_set [OF this, of "\<lambda>x. x\<lparr>pschema := ?sch\<rparr>"]
  have "filled 0 s a (b # fs) us ((blank_op k (ops s a))\<lparr>pschema := ?sch\<rparr>) ?s3" by simp
  from link_done [OF this, of "[l, r]" "setUnion (u (length (pschema (ops s l))) (length (pschema (ops s r))))"]
  show "wp (seqM (phy_append_schema a l) (seqM (phy_append_schema a r)
      (bindM (pget l) (\<lambda>lo. bindM (pget r) (\<lambda>ro.
       seqM (link a (st (pbStream lo) (pbStream ro)) [l, r])
       (setUnion (u (length (pschema lo)) (length (pschema ro))) a))))))
     (\<lambda>_. node_done 0 s a (b # fs) us \<lparr>nkind = k, nunion = u (length (pschema (ops s l))) (length (pschema (ops s r))),
       ncols = ?sch, nstream = st (pbStream (ops s l)) (pbStream (ops s r))\<rparr> [l, r] a)
     (node_fails 0 s a (b # fs) us [l, r]) s1"
    using o lr width by (simp add: phy_append_schema_def)
qed

lemma mapM_wp:
  assumes "\<And>x. x \<in> set xs \<Longrightarrow> wp (f x) (\<lambda>y s'. y = g x \<and> s' = s) (\<lambda>_ _. False) s"
  shows "wp (mapM f xs) (\<lambda>ys s'. ys = map g xs \<and> s' = s) (\<lambda>_ _. False) s"
  using assms
proof (induction xs)
  case (Cons x xs)
  have "wp (f x) (\<lambda>y s'. y = g x \<and> s' = s) (\<lambda>_ _. False) s" using Cons.prems by simp
  then show ?case
    unfolding mapM.simps
  proof (rule wp_bindI)
    fix y s' assume y: "y = g x \<and> s' = s"
    have "wp (mapM f xs) (\<lambda>ys s'. ys = map g xs \<and> s' = s) (\<lambda>_ _. False) s"
      using Cons.prems by (intro Cons.IH) simp
    from wp_mono [OF this] y
    show "wp (bindM (mapM f xs) (\<lambda>ys. retM (y # ys))) (\<lambda>ys s'. ys = map g (x # xs) \<and> s' = s) (\<lambda>_ _. False) s'"
      by simp
  qed simp
qed simp

lemma phy_binary_wp:
  assumes pool: "pool s (a # b # fs) us" and lr: "l \<noteq> a" "r \<noteq> a"
    and width: "length (pschema (ops s l)) = length (pschema (ops s r))"
  shows "wp (phy_binary k st l r)
    (node_done 0 s a (b # fs) us \<lparr>nkind = k, nunion = U_NONE,
       ncols = binary_cols (pschema (ops s l)) (pschema (ops s r)),
       nstream = st (pbStream (ops s l)) (pbStream (ops s r))\<rparr> [l, r])
    (node_fails 0 s a (b # fs) us [l, r]) s"
  unfolding phy_binary_def
proof (rule withOp_wp [OF pool])
  fix s1
  assume f: "fresh s a (b # fs) us k s1"
  let ?l = "pschema (ops s l)" and ?r = "pschema (ops s r)"
  have o: "ops s1 l = ops s l" "ops s1 r = ops s r" using f lr by (simp_all add: fresh_def)
  let ?s2 = "s1\<lparr>ops := (ops s1)(a := (ops s1 a)\<lparr>pschema := binary_cols ?l ?r\<rparr>)\<rparr>"
  have "filled 0 s a (b # fs) us ((blank_op k (ops s a))\<lparr>pschema := binary_cols ?l ?r\<rparr>) ?s2"
    using filled_set [OF fresh_filled [OF f], of "\<lambda>x. x\<lparr>pschema := binary_cols ?l ?r\<rparr>"] by simp
  note link = link_done_plain [OF this, of "[l, r]"]
  have cols: "map (\<lambda>i. if fst (?l ! i) = T_CHAR then (T_CHAR, longer (snd (?l ! i)) (snd (?r ! i))) else ?l ! i)
      [0 ..< length ?l] = binary_cols ?l ?r"
    using width by (intro nth_equalityI) (auto simp: binary_cols_def)
  have "wp (mapM (\<lambda>i. binary_column ?r i (?l ! i)) [0 ..< length ?l])
     (\<lambda>ys s'. ys = binary_cols ?l ?r \<and> s' = s1) (\<lambda>_ _. False) s1"
    unfolding cols [symmetric]
    by (rule mapM_wp) (use width in \<open>auto simp: binary_column_def\<close>)
  then have "wp (bindM (mapM (\<lambda>i. binary_column ?r i (?l ! i)) [0 ..< length ?l]) (\<lambda>cols.
      seqM (pset a (\<lambda>x. x\<lparr>pschema := cols\<rparr>)) (link a (st (pbStream (ops s l)) (pbStream (ops s r))) [l, r])))
     (\<lambda>_. node_done 0 s a (b # fs) us \<lparr>nkind = k, nunion = U_NONE, ncols = binary_cols ?l ?r,
       nstream = st (pbStream (ops s l)) (pbStream (ops s r))\<rparr> [l, r] a)
     (node_fails 0 s a (b # fs) us [l, r]) s1"
    by (rule wp_bindI) (use link lr in auto)
  then show "wp (bindM (pget l) (\<lambda>lo. bindM (pget r) (\<lambda>ro.
      bindM (mapM (\<lambda>a. binary_column (pschema ro) a (pschema lo ! a)) [0 ..< length (pschema lo)]) (\<lambda>cols.
      seqM (pset a (\<lambda>x. x\<lparr>pschema := cols\<rparr>))
      (link a (st (pbStream lo) (pbStream ro)) [l, r])))))
     (\<lambda>_. node_done 0 s a (b # fs) us \<lparr>nkind = k, nunion = U_NONE, ncols = binary_cols ?l ?r,
       nstream = st (pbStream (ops s l)) (pbStream (ops s r))\<rparr> [l, r] a)
     (node_fails 0 s a (b # fs) us [l, r]) s1"
    using o by simp
qed

subsection \<open>Projection\<close>

lemma proj_column_wp:
  assumes "char_ok e" and "refs_in as e" and "length cs = length as"
  shows "wp (proj_column cs (pe [as] e)) (\<lambda>c s'. c = proj_col cs (pe [as] e) \<and> s' = s) (\<lambda>_ _. False) s"
proof (cases "lexpr_type e = T_CHAR")
  case True
  then obtain x where e: "e = LE_ATTR T_CHAR x" using assms(1) by (auto simp: char_ok_def)
  then show ?thesis using pos_single assms(2,3) by (simp add: proj_column_def)
next
  case False
  then have "wp (proj_column cs (pe [as] e)) (\<lambda>c s'. c = (lexpr_type e, type_len (lexpr_type e)) \<and> s' = s) (\<lambda>_ _. False) s"
    by (cases "lexpr_type e") (simp_all add: proj_column_def)
  moreover have "proj_col cs (pe [as] e) = (lexpr_type e, type_len (lexpr_type e))"
    using False by (cases e) auto
  ultimately show ?thesis by simp
qed

lemma phy_mk_project_wp:
  assumes pool: "pool s (a # b # fs) us" and c: "c \<noteq> a"
    and ass: "in_schemas h l = [as]" and out: "length (outAttrs (h l)) = length es" "length es \<le> MAX_ATTRS"
    and es: "\<forall>e\<in>set es. refs_in as e \<and> char_ok e" and cols: "length (pschema (ops s c)) = length as"
  shows "wp (phy_mk_project h l es c)
    (node_done (sum_list (map esize es)) s a (b # fs) us \<lparr>nkind = PO_PROJECT, nunion = U_PROJECT (map (pe [as]) es),
       ncols = map (proj_col (pschema (ops s c)) \<circ> pe [as]) es, nstream = pbStream (ops s c)\<rparr> [c])
    (node_fails (sum_list (map esize es)) s a (b # fs) us [c]) s"
  unfolding phy_mk_project_def
proof (rule withOp_wp [OF pool])
  fix s1
  assume f: "fresh s a (b # fs) us PO_PROJECT s1"
  let ?E = "sum_list (map esize es)"
  let ?Y = "\<lambda>i. (blank_op PO_PROJECT (ops s a))\<lparr>pu := U_PROJECT (map (pe [as]) (take i es))\<rparr>"
  let ?done = "node_done ?E s a (b # fs) us \<lparr>nkind = PO_PROJECT, nunion = U_PROJECT (map (pe [as]) es),
       ncols = map (proj_col (pschema (ops s c)) \<circ> pe [as]) es, nstream = pbStream (ops s c)\<rparr> [c] a"
  let ?fails = "node_fails ?E s a (b # fs) us [c]"
  define I where "I = (\<lambda>i s'. filled (sum_list (map esize (take i es))) s a (b # fs) us (?Y i) s')"
  have le: "sum_list (map esize (take i es)) + sum_list (map esize (drop i es)) = ?E" for i
    by (metis append_take_drop_id map_append sum_list_append)
  let ?s2 = "s1\<lparr>ops := (ops s1)(a := (ops s1 a)\<lparr>pu := U_PROJECT []\<rparr>)\<rparr>"
  have "I 0 ?s2"
    using filled_set [OF fresh_filled [OF f, of 0], of "\<lambda>x. x\<lparr>pu := U_PROJECT []\<rparr>"] by (simp add: I_def)
  moreover have "wp (bindM (nthM es i) (\<lambda>e. bindM (phyTransformExpr h l e) (\<lambda>r.
         case r of None \<Rightarrow> failM (- 1) | Some y \<Rightarrow> addProj a y))) (\<lambda>_. I (Suc i)) ?fails s'"
    if i: "i < length es" and I: "I i s'" for i s'
  proof -
    have "es ! i \<in> set es" using i by simp
    then have ref: "refs_in (concat (in_schemas h l)) (es ! i)" using es ass by simp
    have "wp (bindM (phyTransformExpr h l (es ! i)) (\<lambda>r. case r of None \<Rightarrow> failM (- 1) | Some y \<Rightarrow> addProj a y))
        (\<lambda>_. I (Suc i)) ?fails s'"
    proof (rule wp_bindI [OF phyTransformExpr_wp [OF ref]])
      fix r s2
      assume r: "expr_result (esize (es ! i)) (pe (in_schemas h l) (es ! i)) s' r s2"
      have "filled (sum_list (map esize (take i es)) + esize (es ! i)) s a (b # fs) us (?Y i) s2"
        using filled_exprs [OF I [unfolded I_def]] r by (simp add: expr_result_def)
      then have f2: "filled (sum_list (map esize (take (Suc i) es))) s a (b # fs) us (?Y i) s2"
        using i by (simp add: take_Suc_conv_app_nth)
      show "wp (case r of None \<Rightarrow> failM (- 1) | Some y \<Rightarrow> addProj a y) (\<lambda>_. I (Suc i)) ?fails s2"
      proof (cases r)
        case None
        then have "P_MAX_EXPRS < numExprs s' + esize (es ! i)" using r by (auto simp: expr_result_def)
        moreover have "numExprs s' \<le> numExprs s + sum_list (map esize (take i es))"
          using I by (simp add: I_def filled_def)
        moreover have "sum_list (map esize (take (Suc i) es)) = sum_list (map esize (take i es)) + esize (es ! i)"
          using i by (simp add: take_Suc_conv_app_nth)
        ultimately have "P_MAX_EXPRS < numExprs s + ?E" using le [of "Suc i"] by simp
        then show ?thesis using None filled_fails [OF f2, of ?E] le [of "Suc i"] by simp
      next
        case (Some x)
        then have x: "x = pe [as] (es ! i)" using r ass by (auto simp: expr_result_def)
        have "pu (ops s2 a) = U_PROJECT (map (pe [as]) (take i es))" using f2 by (simp add: filled_def)
        moreover have "filled (sum_list (map esize (take (Suc i) es))) s a (b # fs) us (?Y (Suc i))
           (s2\<lparr>ops := (ops s2)(a := (ops s2 a)\<lparr>pu := U_PROJECT (map (pe [as]) (take (Suc i) es))\<rparr>)\<rparr>)"
          using filled_set [OF f2, of "\<lambda>y. y\<lparr>pu := U_PROJECT (map (pe [as]) (take (Suc i) es))\<rparr>"] by simp
        ultimately show ?thesis
          using Some x i out(2) by (simp add: addProj_def I_def take_Suc_conv_app_nth)
      qed
    qed simp
    then show ?thesis using i by (simp add: nthM_def)
  qed
  ultimately have loop: "wp (forM [0 ..< length (outAttrs (h l))] (\<lambda>p. bindM (nthM es p) (\<lambda>e.
         bindM (phyTransformExpr h l e) (\<lambda>r. case r of None \<Rightarrow> failM (- 1) | Some y \<Rightarrow> addProj a y))))
      (\<lambda>_. I (length es)) ?fails ?s2"
    by (intro wp_forM [where I = I]) (simp_all add: out)
  have fin: "wp (bindM (pget a) (\<lambda>x. bindM (pget c) (\<lambda>co. case pu x of
         U_PROJECT pes \<Rightarrow> bindM (mapM (proj_column (pschema co)) pes) (\<lambda>cols.
           seqM (pset a (\<lambda>x. x\<lparr>pschema := cols\<rparr>)) (link a (pbStream co) [c]))
       | _ \<Rightarrow> undefM))) (\<lambda>_. ?done) ?fails s2" if I: "I (length es) s2" for s2
  proof -
    let ?cs = "pschema (ops s c)"
    have f2: "filled ?E s a (b # fs) us (?Y (length es)) s2" using I by (simp add: I_def)
    then have u: "pu (ops s2 a) = U_PROJECT (map (pe [as]) es)" "ops s2 c = ops s c" using c by (simp_all add: filled_def)
    let ?X = "(?Y (length es))\<lparr>pschema := map (proj_col ?cs) (map (pe [as]) es)\<rparr>"
    let ?s3 = "s2\<lparr>ops := (ops s2)(a := (ops s2 a)\<lparr>pschema := map (proj_col ?cs) (map (pe [as]) es)\<rparr>)\<rparr>"
    have "filled ?E s a (b # fs) us ?X ?s3" by (rule filled_set [OF f2]) simp_all
    note link = link_done_plain [OF this, of "[c]" "pbStream (ops s c)"]
    have "wp (mapM (proj_column ?cs) (map (pe [as]) es))
        (\<lambda>ys s'. ys = map (proj_col ?cs) (map (pe [as]) es) \<and> s' = s2) (\<lambda>_ _. False) s2"
      by (rule mapM_wp) (use es cols in \<open>auto intro!: proj_column_wp\<close>)
    then have "wp (bindM (mapM (proj_column ?cs) (map (pe [as]) es)) (\<lambda>cols.
           seqM (pset a (\<lambda>x. x\<lparr>pschema := cols\<rparr>)) (link a (pbStream (ops s c)) [c]))) (\<lambda>_. ?done) ?fails s2"
    proof (rule wp_bindI)
      fix ys s'
      assume "ys = map (proj_col ?cs) (map (pe [as]) es) \<and> s' = s2"
      then show "wp (seqM (pset a (\<lambda>x. x\<lparr>pschema := ys\<rparr>)) (link a (pbStream (ops s c)) [c])) (\<lambda>_. ?done) ?fails s'"
        using link c by simp
    qed simp
    then show ?thesis using u by simp
  qed
  show "wp (seqM (setUnion (U_PROJECT []) a)
      (seqM (forM [0 ..< length (outAttrs (h l))] (\<lambda>p.
         bindM (nthM es p) (\<lambda>e. bindM (phyTransformExpr h l e) (\<lambda>r.
         case r of None \<Rightarrow> failM (- 1) | Some y \<Rightarrow> addProj a y))))
      (bindM (pget a) (\<lambda>x. bindM (pget c) (\<lambda>c'. case pu x of
         U_PROJECT pes \<Rightarrow> bindM (mapM (proj_column (pschema c')) pes) (\<lambda>cols.
           seqM (pset a (\<lambda>x. x\<lparr>pschema := cols\<rparr>)) (link a (pbStream c') [c]))
       | _ \<Rightarrow> undefM))))) (\<lambda>_. ?done) ?fails s1"
    unfolding wp_seqM setUnion_wp by (rule wp_mono [OF loop]) (use fin in simp_all)
qed

subsection \<open>Aggregation\<close>

lemma phy_mk_group_aggr_wp:
  assumes pool: "pool s (a # b # fs) us" and c: "c \<noteq> a"
    and ass: "in_schemas h l = [as]" and ok: "node_ok (LO_GROUP_AGGR gs ags) [as]"
    and width: "length gs + length ags \<le> MAX_ATTRS" and cols: "length (pschema (ops s c)) = length as"
  shows "wp (phy_mk_group_aggr h l gs ags c)
    (node_done 0 s a (b # fs) us \<lparr>nkind = PO_GROUP_AGGR,
       nunion = U_GROUP_AGGR (map (pos [as]) gs) (map (aggr_pos [as]) ags),
       ncols = map (\<lambda>g. pschema (ops s c) ! attrPos (pos [as] g)) gs @ map (aggr_col (pschema (ops s c)) \<circ> aggr_pos [as]) ags,
       nstream = False\<rparr> [c])
    (node_fails 0 s a (b # fs) us [c]) s"
  unfolding phy_mk_group_aggr_def
proof (rule withOp_wp [OF pool])
  fix s1
  assume f: "fresh s a (b # fs) us PO_GROUP_AGGR s1"
  let ?cs = "pschema (ops s c)"
  let ?u = "U_GROUP_AGGR (map (pos [as]) gs) (map (aggr_pos [as]) ags)"
  let ?gc = "map (\<lambda>g. ?cs ! attrPos g) (map (pos [as]) gs)"
  let ?ac = "map (aggr_col ?cs) (map (aggr_pos [as]) ags)"
  let ?s2 = "s1\<lparr>ops := (ops s1)(a := (ops s1 a)\<lparr>pu := ?u\<rparr>)\<rparr>"
  let ?s3 = "?s2\<lparr>ops := (ops ?s2)(a := (ops ?s2 a)\<lparr>pschema := ?gc @ ?ac\<rparr>)\<rparr>"
  let ?done = "node_done 0 s a (b # fs) us \<lparr>nkind = PO_GROUP_AGGR, nunion = ?u, ncols = ?gc @ ?ac, nstream = False\<rparr> [c] a"
  let ?fails = "node_fails 0 s a (b # fs) us [c]"
  have gs: "list_ex (attr_eq g) as" if "g \<in> set gs" for g
    using ok that by (simp add: attr_in_def)
  have ags: "attrPos (fst (aggr_pos [as] x)) < length as" if "x \<in> set ags" for x
    using ok that pos_single [of "fst x" as] by (auto simp: aggr_pos_def attr_in_def)
  have oc: "ops s1 c = ops s c" using f c by (simp add: fresh_def)
  have "filled 0 s a (b # fs) us ((blank_op PO_GROUP_AGGR (ops s a))\<lparr>pu := ?u\<rparr>) ?s2"
    using filled_set [OF fresh_filled [OF f], of "\<lambda>x. x\<lparr>pu := ?u\<rparr>"] by simp
  from filled_set [OF this, of "\<lambda>x. x\<lparr>pschema := ?gc @ ?ac\<rparr>"]
  have "filled 0 s a (b # fs) us ((blank_op PO_GROUP_AGGR (ops s a))\<lparr>pu := ?u, pschema := ?gc @ ?ac\<rparr>) ?s3" by simp
  note link = link_done_plain [OF this, of "[c]" False]
  have m1: "wp (mapM (phyTransformAttr h l) gs) (\<lambda>ys s'. ys = map (pos [as]) gs \<and> s' = s1) (\<lambda>_ _. False) s1"
    by (rule mapM_wp) (use ass gs in simp)
  have m2: "wp (mapM (aggr_attr_pos h l) ags) (\<lambda>ys s'. ys = map (aggr_pos [as]) ags \<and> s' = s1) (\<lambda>_ _. False) s1"
    by (rule mapM_wp) (use ass ok in \<open>auto simp: aggr_attr_pos_def aggr_pos_def attr_in_def\<close>)
  have m3: "wp (mapM (\<lambda>g. bindM (phyAttrType g c) (\<lambda>ty. bindM (phyAttrLen g c) (\<lambda>len. retM (ty, len)))) (map (pos [as]) gs))
      (\<lambda>ys s'. ys = ?gc \<and> s' = ?s2) (\<lambda>_ _. False) ?s2"
    by (rule mapM_wp) (use pos_single gs cols oc c in \<open>auto simp: phyAttrType_def phyAttrLen_def\<close>)
  have m4: "wp (mapM (aggr_column c) (map (aggr_pos [as]) ags)) (\<lambda>ys s'. ys = ?ac \<and> s' = ?s2) (\<lambda>_ _. False) ?s2"
    by (rule mapM_wp)
      (use ags cols oc c in \<open>auto simp: aggr_column_def phyAttrType_def aggr_col_def Let_def split: ctype.splits\<close>)
  have len: "length gs \<le> LOP_GROUP_ATTRS \<and> length ags \<le> MAX_AGGR_ATTRS" using ok by simp
  have lk: "wp (link a False [c]) (\<lambda>_. ?done) ?fails ?s3" using link c by simp
  have k4: "wp (bindM (mapM (aggr_column c) (map (aggr_pos [as]) ags)) (\<lambda>acols.
       seqM (pset a (\<lambda>x. x\<lparr>pschema := ?gc @ acols\<rparr>)) (link a False [c]))) (\<lambda>_. ?done) ?fails ?s2"
    by (rule wp_bindI [OF m4]) (use lk in auto)
  have k3: "wp (bindM (mapM (\<lambda>g. bindM (phyAttrType g c) (\<lambda>ty. bindM (phyAttrLen g c) (\<lambda>len. retM (ty, len))))
       (map (pos [as]) gs)) (\<lambda>gcols. bindM (mapM (aggr_column c) (map (aggr_pos [as]) ags)) (\<lambda>acols.
       seqM (pset a (\<lambda>x. x\<lparr>pschema := gcols @ acols\<rparr>)) (link a False [c])))) (\<lambda>_. ?done) ?fails ?s2"
    by (rule wp_bindI [OF m3]) (use k4 in auto)
  have k2: "wp (bindM (mapM (aggr_attr_pos h l) ags) (\<lambda>pas. seqM (setUnion (U_GROUP_AGGR (map (pos [as]) gs) pas) a)
      (seqM (ensureM (length gs + length ags \<le> MAX_ATTRS))
      (bindM (mapM (\<lambda>g. bindM (phyAttrType g c) (\<lambda>ty. bindM (phyAttrLen g c) (\<lambda>len. retM (ty, len)))) (map (pos [as]) gs))
       (\<lambda>gcols. bindM (mapM (aggr_column c) pas) (\<lambda>acols.
       seqM (pset a (\<lambda>x. x\<lparr>pschema := gcols @ acols\<rparr>)) (link a False [c]))))))) (\<lambda>_. ?done) ?fails s1"
    by (rule wp_bindI [OF m2]) (use k3 width in auto)
  have k1: "wp (bindM (mapM (phyTransformAttr h l) gs) (\<lambda>pgs. bindM (mapM (aggr_attr_pos h l) ags) (\<lambda>pas.
      seqM (setUnion (U_GROUP_AGGR pgs pas) a)
      (seqM (ensureM (length gs + length ags \<le> MAX_ATTRS))
      (bindM (mapM (\<lambda>g. bindM (phyAttrType g c) (\<lambda>ty. bindM (phyAttrLen g c) (\<lambda>len. retM (ty, len)))) pgs)
       (\<lambda>gcols. bindM (mapM (aggr_column c) pas) (\<lambda>acols.
       seqM (pset a (\<lambda>x. x\<lparr>pschema := gcols @ acols\<rparr>)) (link a False [c])))))))) (\<lambda>_. ?done) ?fails s1"
    by (rule wp_bindI [OF m1]) (use k2 in auto)
  then show "wp (seqM (ensureM (length gs \<le> LOP_GROUP_ATTRS \<and> length ags \<le> MAX_AGGR_ATTRS))
      (bindM (mapM (phyTransformAttr h l) gs) (\<lambda>pgs. bindM (mapM (aggr_attr_pos h l) ags) (\<lambda>pas.
      seqM (setUnion (U_GROUP_AGGR pgs pas) a)
      (seqM (ensureM (length gs + length ags \<le> MAX_ATTRS))
      (bindM (mapM (\<lambda>g. bindM (phyAttrType g c) (\<lambda>ty. bindM (phyAttrLen g c) (\<lambda>len. retM (ty, len)))) pgs)
       (\<lambda>gcols. bindM (mapM (aggr_column c) pas) (\<lambda>acols.
       seqM (pset a (\<lambda>x. x\<lparr>pschema := gcols @ acols\<rparr>)) (link a False [c]))))))))) 
     (\<lambda>_. node_done 0 s a (b # fs) us \<lparr>nkind = PO_GROUP_AGGR, nunion = ?u,
       ncols = map (\<lambda>g. ?cs ! attrPos (pos [as] g)) gs @ map (aggr_col ?cs \<circ> aggr_pos [as]) ags,
       nstream = False\<rparr> [c] a) ?fails s1"
    using len by (simp add: comp_def)
qed

end
