(* ===== verification/Phy_Plan.thy ===== *)
theory Phy_Plan
  imports Phy_Build
begin

text \<open>
  The generator of physical plans builds the plan \<open>phy_of\<close> out of new operators on top of the
  sources, or fails because a pool or the outputs of a source are full.
\<close>

section \<open>Growth of the plan\<close>

text \<open>
  \<open>grows fs us s s' new L\<close>: the operators \<open>new\<close> went from the free to the used ones, and an operator
  that was there before got at most as many new outputs as it occurs in \<open>L\<close>.
\<close>

definition grows ::
    "nat list \<Rightarrow> nat list \<Rightarrow> plan_manager \<Rightarrow> plan_manager \<Rightarrow> nat list \<Rightarrow> nat list \<Rightarrow> bool" where
  "grows fs us s s' new L \<longleftrightarrow> pool s (new @ fs) us \<and> pool s' fs (rev new @ us) \<and> keeps_rest s s' \<and>
     (\<forall>a. query_class_id (ops s' a) = query_class_id (ops s a)) \<and>
     (\<forall>a. a \<notin> set new \<longrightarrow> (\<exists>qs. ops s' a = (ops s a)\<lparr>poutputs := poutputs (ops s a) @ qs\<rparr> \<and>
        length qs \<le> count_list L a \<and> set qs \<subseteq> set new))"

lemma grows_refl [simp]: "grows fs us s s [] L = pool s fs us"
proof -
  have "\<exists>qs. ops s a = (ops s a)\<lparr>poutputs := poutputs (ops s a) @ qs\<rparr> \<and> length qs \<le> count_list L a \<and> qs = []" for a
    by simp
  then show ?thesis by (auto simp: grows_def)
qed

lemma grows_old:
  assumes "grows fs us s s' new L" and "a \<notin> set new"
  obtains qs where "ops s' a = (ops s a)\<lparr>poutputs := poutputs (ops s a) @ qs\<rparr>"
    "length qs \<le> count_list L a" "set qs \<subseteq> set new"
  using assms unfolding grows_def by blast

lemma grows_mono:
  assumes "grows fs us s s' new L" and "\<And>a. a \<notin> set new \<Longrightarrow> count_list L a \<le> count_list L' a"
  shows "grows fs us s s' new L'"
  using assms unfolding grows_def by (meson le_trans)

lemma grows_trans:
  assumes "grows (n2 @ fs) us s s1 n1 L1" and "grows fs (rev n1 @ us) s1 s2 n2 L2"
  shows "grows fs us s s2 (n1 @ n2) (L1 @ L2)"
proof -
  have "\<exists>qs. ops s2 a = (ops s a)\<lparr>poutputs := poutputs (ops s a) @ qs\<rparr> \<and>
        length qs \<le> count_list (L1 @ L2) a \<and> set qs \<subseteq> set (n1 @ n2)" if a: "a \<notin> set (n1 @ n2)" for a
  proof -
    obtain q1 where q1: "ops s1 a = (ops s a)\<lparr>poutputs := poutputs (ops s a) @ q1\<rparr>"
        "length q1 \<le> count_list L1 a" "set q1 \<subseteq> set n1"
      using grows_old [OF assms(1), of a] a by auto
    obtain q2 where q2: "ops s2 a = (ops s1 a)\<lparr>poutputs := poutputs (ops s1 a) @ q2\<rparr>"
        "length q2 \<le> count_list L2 a" "set q2 \<subseteq> set n2"
      using grows_old [OF assms(2), of a] a by auto
    show ?thesis by (rule exI [of _ "q1 @ q2"]) (use q1 q2 in auto)
  qed
  then show ?thesis
    using assms keeps_rest_trans unfolding grows_def by (auto simp del: set_append)
qed

lemma grows_made:
  assumes "made s a fs us X cs s'" and "pool s (a # fs) us"
  shows "grows fs us s s' [a] cs"
proof -
  have "\<exists>qs. ops s' x = (ops s x)\<lparr>poutputs := poutputs (ops s x) @ qs\<rparr> \<and>
        length qs \<le> count_list cs x \<and> set qs \<subseteq> {a}" if "x \<noteq> a" for x
    by (rule exI [of _ "replicate (count_list cs x) a"]) (use assms that in \<open>auto simp: made_def addOuts_def\<close>)
  then show ?thesis using assms by (auto simp: grows_def made_def)
qed

lemma grows_disjoint: "grows fs us s s' new L \<Longrightarrow> set new \<inter> set us = {} \<and> distinct new"
  by (auto simp: grows_def pool_def)

text \<open>A plan that is there already stays.\<close>

lemma grows_tree:
  assumes "grows fs us s s' new L" and "tree_at (ops s) [] t"
    and "set (own t) \<inter> set new = {}" and "set (own t) \<inter> set L = {}" and "set (srcs t) \<subseteq> set us"
  shows "tree_at (ops s') [] t"
proof (rule tree_at_frame [OF assms(2)])
  fix a assume "a \<in> set (own t)"
  then have "a \<notin> set new" "count_list L a = 0" using assms(3,4) by (auto simp: count_list_0_iff)
  then show "ops s' a = ops s a" using grows_old [OF assms(1), of a] by auto
next
  fix a assume "a \<in> set (srcs t)"
  then have "a \<notin> set new" using assms(5) grows_disjoint [OF assms(1)] by auto
  then show "same_src (ops s a) (ops s' a)"
    using grows_old [OF assms(1), of a] by (auto simp: same_src_def)
qed

section \<open>Adding a root\<close>

lemma roots_in: "t \<in> set ts \<Longrightarrow> troot t \<in> set (concat (map own ts)) \<union> set (concat (map srcs ts))"
  by (cases t) force+

lemma count_root:
  assumes "t \<in> set ts" and "distinct (concat (map own ts))" and "t = TOp c i us"
    and "set (concat (map own ts)) \<inter> set (concat (map srcs ts)) = {}"
  shows "count_list (map troot ts) c = 1"
  using assms
proof (induction ts)
  case (Cons u ts)
  have in_ts: "c \<in> set (concat (map own ts))" if "t \<in> set ts" using that Cons.prems(3) by force
  show ?case
  proof (cases "u = t")
    case True
    then have "c \<notin> set (concat (map own ts))" "c \<notin> set (concat (map srcs ts))"
      using Cons.prems(2-4) by auto
    then have "c \<notin> troot ` set ts" using roots_in [of _ ts] by blast
    then have "count_list (map troot ts) c = 0" by (simp add: count_list_0_iff)
    then show ?thesis using True Cons.prems(3) by simp
  next
    case False
    then have "t \<in> set ts" using Cons.prems(1) by simp
    moreover have "troot u \<noteq> c"
      using in_ts [OF calculation] Cons.prems(2,4) by (cases u) auto
    ultimately show ?thesis using Cons by auto
  qed
qed simp

lemma own_once:
  assumes "distinct (concat (map own ts))" and "t \<in> set ts" and "u \<in> set ts"
    and "a \<in> set (own t)" and "a \<in> set (own u)"
  shows "t = u"
  using assms by (induction ts) fastforce+

lemma own_notin_roots:
  assumes "t \<in> set ts" and "distinct (concat (map own ts))" and "t = TOp c i us" and "a \<in> set (concat (map own us))"
    and "set (concat (map own ts)) \<inter> set (concat (map srcs ts)) = {}"
  shows "a \<notin> troot ` set ts"
proof
  assume "a \<in> troot ` set ts"
  then obtain u where u: "u \<in> set ts" "troot u = a" by auto
  have "distinct (own t)" using assms(1,2) by (induction ts) auto
  then have a: "a \<in> set (own t)" "a \<noteq> c" using assms(3,4) by auto
  show False
  proof (cases u)
    case (TSrc b cs st)
    then have "a \<in> set (concat (map srcs ts))" using u by force
    then show False using a(1) assms(1,5) by fastforce
  next
    case (TOp b j vs)
    then have "t = u" using own_once [OF assms(2,1) u(1) a(1)] u(2) by simp
    then show False using TOp u a(2) assms(3) by auto
  qed
qed

section \<open>The operator for the root of a plan\<close>

definition input_ok :: "(nat \<Rightarrow> phyop) \<Rightarrow> nat \<Rightarrow> nat \<Rightarrow> pplan \<Rightarrow> bool" where
  "input_ok h a c p \<longleftrightarrow> c \<noteq> a \<and> pschema (h c) = pcols p \<and> pbStream (h c) = pstream p"

abbreviation node_wp ::
    "(plan_manager, nat) comp \<Rightarrow> nat \<Rightarrow> plan_manager \<Rightarrow> nat \<Rightarrow> nat list \<Rightarrow> nat list \<Rightarrow> pnode \<Rightarrow> nat list \<Rightarrow> bool" where
  "node_wp m e s a fs us i cs \<equiv> wp m (node_done e s a fs us i cs) (node_fails e s a fs us cs) s"

lemma unary_node:
  assumes "pool s (a # b # fs) us" and "input_ok (ops s) a c p"
    and "\<And>s1. pu (ops s1 a) = U_NONE \<Longrightarrow>
      wp (fill a) (\<lambda>_ s2. s2 = s1\<lparr>ops := (ops s1)(a := (ops s1 a)\<lparr>pu := u\<rparr>)\<rparr>) (\<lambda>_ _. False) s1"
    and "g (ops s c) = st"
  shows "node_wp (phy_unary k c g fill) 0 s a (b # fs) us \<lparr>nkind = k, nunion = u, ncols = pcols p, nstream = st\<rparr> [c]"
proof -
  have "c \<noteq> a" using assms(2) by (simp add: input_ok_def)
  have "node_wp (phy_unary k c g fill) 0 s a (b # fs) us
      \<lparr>nkind = k, nunion = u, ncols = pschema (ops s c), nstream = g (ops s c)\<rparr> [c]"
    by (rule phy_unary_wp [OF assms(1) \<open>c \<noteq> a\<close>]) (rule assms(3))
  then show ?thesis using assms(2,4) by (auto simp: input_ok_def)
qed

lemma unary_set_node:
  assumes "pool s (a # b # fs) us" and "input_ok (ops s) a c p" and "g (ops s c) = st"
  shows "node_wp (phy_unary k c g (setUnion u)) 0 s a (b # fs) us
    \<lparr>nkind = k, nunion = u, ncols = pcols p, nstream = st\<rparr> [c]"
  by (rule unary_node [where st = st, OF assms(1,2)]) (simp_all add: assms(3))

lemma unary_plain_node:
  assumes "pool s (a # b # fs) us" and "input_ok (ops s) a c p" and "g (ops s c) = st"
  shows "node_wp (phy_unary k c g (\<lambda>_. retM ())) 0 s a (b # fs) us
    \<lparr>nkind = k, nunion = U_NONE, ncols = pcols p, nstream = st\<rparr> [c]"
  by (rule unary_node [where st = st, OF assms(1,2)]) (rule fill_none, simp_all add: assms(3))

lemma join_node:
  assumes "pool s (a # b # fs) us" and "input_ok (ops s) a c p" and "input_ok (ops s) a d q"
    and "length (pcols p) + length (pcols q) \<le> MAX_ATTRS" and "p_join k u st [p, q] = POp i [p, q]"
  shows "node_wp (phy_join k st u c d) 0 s a (b # fs) us i [c, d]"
proof -
  have "c \<noteq> a" "d \<noteq> a" "length (pschema (ops s c)) + length (pschema (ops s d)) \<le> MAX_ATTRS"
    using assms(2,3,4) by (simp_all add: input_ok_def)
  from phy_join_wp [OF assms(1) this] show ?thesis
    using assms(2,3,5) by (auto simp: input_ok_def p_join_def)
qed

lemma binary_node:
  assumes "pool s (a # b # fs) us" and "input_ok (ops s) a c p" and "input_ok (ops s) a d q"
    and "length (pcols p) = length (pcols q)" and "p_binary k st [p, q] = POp i [p, q]"
  shows "node_wp (phy_binary k st c d) 0 s a (b # fs) us i [c, d]"
proof -
  have "c \<noteq> a" "d \<noteq> a" "length (pschema (ops s c)) = length (pschema (ops s d))"
    using assms(2,3,4) by (simp_all add: input_ok_def)
  from phy_binary_wp [OF assms(1) this] show ?thesis
    using assms(2,3,5) by (auto simp: input_ok_def p_binary_def)
qed

lemma fill_partn:
  assumes "in_schemas h l = ass" and "length as \<le> LOP_GROUP_ATTRS" and "\<forall>x\<in>set as. attr_in ass x"
  shows "wp (seqM (ensureM (length as \<le> LOP_GROUP_ATTRS)) (bindM (mapM (phyTransformAttr h l) as)
      (\<lambda>pas. setUnion (U_PARTN_WIN pas n) a)))
    (\<lambda>_ s2. s2 = s1\<lparr>ops := (ops s1)(a := (ops s1 a)\<lparr>pu := U_PARTN_WIN (map (pos ass) as) n\<rparr>)\<rparr>) (\<lambda>_ _. False) s1"
proof -
  have "wp (mapM (phyTransformAttr h l) as) (\<lambda>ys s'. ys = map (pos ass) as \<and> s' = s1) (\<lambda>_ _. False) s1"
    by (rule mapM_wp) (use assms in \<open>auto simp: attr_in_def\<close>)
  then have "wp (bindM (mapM (phyTransformAttr h l) as) (\<lambda>pas. setUnion (U_PARTN_WIN pas n) a))
    (\<lambda>_ s2. s2 = s1\<lparr>ops := (ops s1)(a := (ops s1 a)\<lparr>pu := U_PARTN_WIN (map (pos ass) as) n\<rparr>)\<rparr>) (\<lambda>_ _. False) s1"
    by (rule wp_bindI) auto
  then show ?thesis using assms(2) by simp
qed

text \<open>An operator other than a source or a selection is a new one over the plans of its inputs.\<close>

lemma phy_root_unary:
  assumes pool: "pool s (a # b # fs) us"
    and k: "lkind (h l) = k" "\<not> is_source k" "\<not> is_select k" "arity_ok k 1"
    and ins: "in_schemas h l = [as]"
    and out: "length (outAttrs (h l)) = length (out_attrs tm k [as])" "length (outAttrs (h l)) \<le> MAX_ATTRS"
    and ok: "node_ok k [as]" and c: "input_ok (ops s) a c p" and w: "length (pcols p) = length as"
  shows "\<exists>i. phy_node k [as] [p] = POp i [p] \<and> node_wp (phy_root h l [c]) (kexprs k) s a (b # fs) us i [c]"
proof (cases k)
  case (LO_PROJECT es)
  have "c \<noteq> a" "length (pschema (ops s c)) = length as" using c w by (simp_all add: input_ok_def)
  note phy_mk_project_wp [OF pool this(1) ins _ _ _ this(2), of es]
  then show ?thesis using LO_PROJECT k(1) out ok c by (simp add: phy_root_def input_ok_def)
next
  case (LO_GROUP_AGGR gs ags)
  have "c \<noteq> a" "length (pschema (ops s c)) = length as" using c w by (simp_all add: input_ok_def)
  moreover have "node_ok (LO_GROUP_AGGR gs ags) [as]" "length gs + length ags \<le> MAX_ATTRS"
    using LO_GROUP_AGGR ok out by auto
  ultimately have "node_wp (phy_mk_group_aggr h l gs ags c) 0 s a (b # fs) us
     \<lparr>nkind = PO_GROUP_AGGR, nunion = U_GROUP_AGGR (map (pos [as]) gs) (map (aggr_pos [as]) ags),
       ncols = map (\<lambda>g. pschema (ops s c) ! attrPos (pos [as] g)) gs @ map (aggr_col (pschema (ops s c)) \<circ> aggr_pos [as]) ags,
       nstream = False\<rparr> [c]"
    by (intro phy_mk_group_aggr_wp [OF pool _ ins])
  then show ?thesis using LO_GROUP_AGGR k(1) c by (simp add: phy_root_def input_ok_def)
next
  case (LO_PARTN_WIN as' n)
  have "length as' \<le> LOP_GROUP_ATTRS" "\<forall>x\<in>set as'. attr_in [as] x" using LO_PARTN_WIN ok by simp_all
  note fill = fill_partn [OF ins this]
  have "node_wp (mk_partn_win h l as' n c) 0 s a (b # fs) us
      \<lparr>nkind = PO_PARTN_WIN, nunion = U_PARTN_WIN (map (pos [as]) as') n, ncols = pcols p, nstream = False\<rparr> [c]"
    unfolding mk_partn_win_def by (rule unary_node [OF pool c]) (use fill in simp_all)
  then show ?thesis using LO_PARTN_WIN k(1) by (simp add: phy_root_def p_unary_def)
qed (use k c in \<open>simp_all add: phy_root_def mk_row_win_def mk_range_win_def mk_now_win_def phy_mk_distinct_def
    phy_mk_istream_def phy_mk_dstream_def phy_mk_rstream_def p_unary_def input_ok_def [of "ops s"]
    unary_set_node [OF pool c] unary_plain_node [OF pool c]\<close>)

lemma phy_root_binary:
  assumes pool: "pool s (a # b # fs) us"
    and k: "lkind (h l) = k" "\<not> is_source k" "\<not> arity_ok k 1"
    and ok: "arity_ok k 2" "node_ok k [as, bs]" "length (out_attrs tm k [as, bs]) \<le> MAX_ATTRS"
    and cd: "input_ok (ops s) a c p" "input_ok (ops s) a d q"
    and w: "length (pcols p) = length as" "length (pcols q) = length bs"
  shows "\<exists>i. phy_node k [as, bs] [p, q] = POp i [p, q] \<and>
    node_wp (phy_root h l [c, d]) (kexprs k) s a (b # fs) us i [c, d]"
proof -
  have j: "length as + length bs \<le> MAX_ATTRS" if "k = LO_CROSS \<or> k = LO_STREAM_CROSS"
    using that ok(3) by auto
  show ?thesis
    using k ok(1,2) w
    by (cases k) (auto simp: phy_root_def mk_join_def mk_str_join_def phy_mk_union_def phy_mk_except_def
      p_join_def p_binary_def
      intro!: join_node [OF pool cd] binary_node [OF pool cd] j)
qed

section \<open>Building a list of plans\<close>

text \<open>
  There is room for \<open>E\<close> expressions, \<open>B\<close> predicates and one output of each source in \<open>L\<close>.
\<close>

definition room :: "nat \<Rightarrow> nat \<Rightarrow> nat list \<Rightarrow> plan_manager \<Rightarrow> bool" where
  "room E B L s \<longleftrightarrow> numExprs s + E \<le> P_MAX_EXPRS \<and> numBExprs s + B \<le> P_MAX_EXPRS \<and>
     (\<forall>a\<in>set L. length (poutputs (ops s a)) + count_list L a \<le> MAX_OUT_BRANCHING)"

definition gen_done ::
    "nat \<Rightarrow> nat \<Rightarrow> nat list \<Rightarrow> nat list \<Rightarrow> nat list \<Rightarrow> nat list \<Rightarrow> plan_manager \<Rightarrow> ptr list \<Rightarrow> plan_manager \<Rightarrow> bool" where
  "gen_done E B L new fs us s ts s' \<longleftrightarrow> grows fs us s s' new L \<and>
     numExprs s' \<le> numExprs s + E \<and> numBExprs s' \<le> numBExprs s + B \<and>
     (\<forall>t\<in>set ts. tree_at (ops s') [] t) \<and> set (concat (map own ts)) = set new \<and>
     distinct (concat (map own ts)) \<and> set (concat (map srcs ts)) \<subseteq> set us \<and> concat (map post ts) = new"

definition gen_fails ::
    "nat \<Rightarrow> nat \<Rightarrow> nat list \<Rightarrow> nat list \<Rightarrow> nat list \<Rightarrow> plan_manager \<Rightarrow> int \<Rightarrow> plan_manager \<Rightarrow> bool" where
  "gen_fails E B L fs us s rc s' \<longleftrightarrow> rc = - 1 \<and>
     (\<exists>new fs'. fs = new @ fs' \<and> grows fs' us s s' new L) \<and>
     numExprs s' \<le> numExprs s + E \<and> numBExprs s' \<le> numBExprs s + B \<and> \<not> room E B L s"

lemma grows_outputs:
  assumes "grows fs us s s' new L" and "a \<in> set us"
  shows "length (poutputs (ops s' a)) \<le> length (poutputs (ops s a)) + count_list L a"
proof -
  have "a \<notin> set new" using grows_disjoint [OF assms(1)] assms(2) by auto
  from grows_old [OF assms(1) this] obtain qs where
    "ops s' a = (ops s a)\<lparr>poutputs := poutputs (ops s a) @ qs\<rparr>" "length qs \<le> count_list L a" by metis
  then show ?thesis by simp
qed

lemma room_grows:
  assumes "room (E1 + E2) (B1 + B2) (L1 @ L2) s" and "gen_done E1 B1 L1 new fs us s ts s'" and "set L2 \<subseteq> set us"
  shows "room E2 B2 L2 s'"
proof -
  have "length (poutputs (ops s' a)) + count_list L2 a \<le> MAX_OUT_BRANCHING" if a: "a \<in> set L2" for a
  proof -
    have "length (poutputs (ops s' a)) \<le> length (poutputs (ops s a)) + count_list L1 a"
      using grows_outputs assms(2,3) a unfolding gen_done_def by blast
    moreover have "length (poutputs (ops s a)) + count_list (L1 @ L2) a \<le> MAX_OUT_BRANCHING"
      using assms(1) a by (simp add: room_def)
    ultimately show ?thesis by simp
  qed
  then show ?thesis using assms(1,2) by (simp add: room_def gen_done_def)
qed

lemma gen_done_Nil [simp]: "gen_done 0 0 [] [] fs us s [] s = pool s fs us"
  by (simp add: gen_done_def)

lemma gen_done_append:
  assumes d1: "gen_done E1 B1 L1 n1 (n2 @ fs) us s ts1 s1" and d2: "gen_done E2 B2 L2 n2 fs (rev n1 @ us) s1 ts2 s2"
    and us: "set L2 \<subseteq> set us" "set (concat (map srcs ts2)) \<subseteq> set us"
  shows "gen_done (E1 + E2) (B1 + B2) (L1 @ L2) (n1 @ n2) fs us s (ts1 @ ts2) s2"
proof -
  have g1: "grows (n2 @ fs) us s s1 n1 L1" and g2: "grows fs (rev n1 @ us) s1 s2 n2 L2"
    using d1 d2 by (simp_all add: gen_done_def)
  have dis: "set n2 \<inter> set n1 = {}" "set n1 \<inter> set us = {}" "set n2 \<inter> set us = {}"
    using grows_disjoint [OF g1] grows_disjoint [OF g2] by auto
  have "tree_at (ops s2) [] t" if t: "t \<in> set ts1" for t
  proof (rule grows_tree [OF g2])
    show "tree_at (ops s1) [] t" using d1 t by (simp add: gen_done_def)
    have "set (own t) \<subseteq> set n1" using d1 t by (auto simp: gen_done_def)
    then show "set (own t) \<inter> set n2 = {}" "set (own t) \<inter> set L2 = {}" using dis us by auto
    have "set (srcs t) \<subseteq> set us" using d1 t by (auto simp: gen_done_def)
    then show "set (srcs t) \<subseteq> set (rev n1 @ us)" by auto
  qed
  moreover have "\<forall>t\<in>set ts2. tree_at (ops s2) [] t" using d2 by (simp add: gen_done_def)
  ultimately have tr: "\<forall>t\<in>set (ts1 @ ts2). tree_at (ops s2) [] t" by auto
  have o1: "set (concat (map own ts1)) = set n1" "distinct (concat (map own ts1))" "set (concat (map srcs ts1)) \<subseteq> set us"
    using d1 unfolding gen_done_def by blast+
  have o2: "set (concat (map own ts2)) = set n2" "distinct (concat (map own ts2))"
    using d2 unfolding gen_done_def by blast+
  have "distinct (concat (map own (ts1 @ ts2)))" "set (concat (map own (ts1 @ ts2))) = set (n1 @ n2)"
    using o1 o2 dis by (simp_all del: set_concat) blast
  moreover have "set (concat (map srcs (ts1 @ ts2))) \<subseteq> set us"
    using o1(3) us(2) by (simp del: set_concat)
  moreover have "numExprs s2 \<le> numExprs s + (E1 + E2)" "numBExprs s2 \<le> numBExprs s + (B1 + B2)"
    using d1 d2 by (simp_all add: gen_done_def)
  moreover have "concat (map post (ts1 @ ts2)) = n1 @ n2" using d1 d2 by (simp add: gen_done_def)
  ultimately show ?thesis
    using tr grows_trans [OF g1 g2] unfolding gen_done_def by blast
qed

lemma gen_fails_mono:
  assumes "gen_fails E B L fs us s rc s'" and "\<And>x. count_list L x \<le> count_list L' x"
  shows "gen_fails (E + e) (B + b) L' fs us s rc s'"
proof -
  obtain new fs' where n: "fs = new @ fs'" "grows fs' us s s' new L" using assms(1) by (auto simp: gen_fails_def)
  have "grows fs' us s s' new L'" by (rule grows_mono [OF n(2) assms(2)])
  moreover have "room E B L s" if r: "room (E + e) (B + b) L' s"
  proof -
    have "length (poutputs (ops s a)) + count_list L a \<le> MAX_OUT_BRANCHING" if a: "a \<in> set L" for a
    proof -
      have "count_list L a \<noteq> 0" using a by (simp add: count_list_0_iff)
      then have "a \<in> set L'" using assms(2) [of a] by (metis count_list_0_iff le_zero_eq)
      then have "length (poutputs (ops s a)) + count_list L' a \<le> MAX_OUT_BRANCHING" using r by (simp add: room_def)
      then show ?thesis using assms(2) [of a] by simp
    qed
    then show ?thesis using r by (simp add: room_def)
  qed
  ultimately show ?thesis using assms(1) n(1) by (auto simp: gen_fails_def)
qed

lemma gen_fails_first:
  assumes "gen_fails E1 B1 L1 fs us s rc s'"
  shows "gen_fails (E1 + E2) (B1 + B2) (L1 @ L2) fs us s rc s'"
  by (rule gen_fails_mono [OF assms]) simp

lemma gen_fails_next:
  assumes d: "gen_done E1 B1 L1 n1 fs us s ts s1" and f: "gen_fails E2 B2 L2 fs (rev n1 @ us) s1 rc s2"
    and L2: "set L2 \<subseteq> set us"
  shows "gen_fails (E1 + E2) (B1 + B2) (L1 @ L2) (n1 @ fs) us s rc s2"
proof -
  obtain n2 fs' where n: "fs = n2 @ fs'" "grows fs' (rev n1 @ us) s1 s2 n2 L2" using f by (auto simp: gen_fails_def)
  have "grows (n2 @ fs') us s s1 n1 L1" using d n by (simp add: gen_done_def)
  from grows_trans [OF this n(2)] have "\<exists>new fs''. n1 @ fs = new @ fs'' \<and> grows fs'' us s s2 new (L1 @ L2)"
    using n(1) by (metis append_assoc)
  moreover have "\<not> room (E1 + E2) (B1 + B2) (L1 @ L2) s"
    using room_grows [OF _ d L2] f by (auto simp: gen_fails_def)
  ultimately show ?thesis using d f by (simp add: gen_fails_def gen_done_def)
qed

section \<open>Putting an operator on top\<close>

lemma tree_at_link:
  assumes "tree_at h [] t" and t: "t \<in> set ts" and dis: "distinct (concat (map own ts))"
    and apart: "set (concat (map own ts)) \<inter> set (concat (map srcs ts)) = {}"
    and a: "a \<notin> set (concat (map own ts))" "a \<notin> set (concat (map srcs ts))"
  shows "tree_at (addOuts a (map troot ts) (h(a := X))) [a] t"
proof (cases t)
  case (TSrc b cs st)
  have "b \<noteq> a" using a(2) t TSrc by force
  moreover have "b \<in> set (map troot ts)" using t TSrc by force
  then have "count_list (map troot ts) b > 0" by (metis count_list_0_iff gr0I)
  ultimately show ?thesis using assms(1) TSrc by (simp add: set_replicate_conv_if)
next
  case (TOp c i us)
  have "c \<noteq> a" using a(1) t TOp by force
  moreover have "count_list (map troot ts) c = 1" by (rule count_root [OF t dis TOp apart])
  moreover have "tree_at (addOuts a (map troot ts) (h(a := X))) [c] u" if u: "u \<in> set us" for u
  proof (rule tree_at_frame [of h])
    show "tree_at h [c] u" using assms(1) TOp u by simp
  next
    fix x assume "x \<in> set (own u)"
    then have x: "x \<in> set (concat (map own us))" using u by auto
    then have "x \<noteq> a" using a(1) t TOp by force
    moreover have "x \<notin> set (map troot ts)" using own_notin_roots [OF t dis TOp x apart] by simp
    ultimately show "addOuts a (map troot ts) (h(a := X)) x = h x" by (simp add: addOuts_other)
  next
    fix x assume "x \<in> set (srcs u)"
    then have "x \<in> set (srcs t)" using u TOp by auto
    then have "x \<noteq> a" using a(2) t by auto
    then show "same_src (h x) (addOuts a (map troot ts) (h(a := X)) x)"
      using same_src_addOuts [of "h(a := X)" x a "map troot ts"] by simp
  qed
  ultimately show ?thesis using assms(1) TOp by simp
qed

lemma gen_done_apart:
  assumes "gen_done E B L new fs us s ts s1" and "pool s1 (a # fs') (rev new @ us)"
  shows "distinct (concat (map own ts))" "set (concat (map own ts)) \<inter> set (concat (map srcs ts)) = {}"
    "a \<notin> set (concat (map own ts))" "a \<notin> set (concat (map srcs ts))" "a \<notin> troot ` set ts"
proof -
  have d: "set (concat (map own ts)) = set new" "distinct (concat (map own ts))" "set (concat (map srcs ts)) \<subseteq> set us"
      "set new \<inter> set us = {}"
    using assms(1) grows_disjoint unfolding gen_done_def by blast+
  have a: "a \<notin> set new" "a \<notin> set us" using assms(2) by (auto simp: pool_def)
  show "distinct (concat (map own ts))" "set (concat (map own ts)) \<inter> set (concat (map srcs ts)) = {}"
    using d by blast+
  show n: "a \<notin> set (concat (map own ts))" "a \<notin> set (concat (map srcs ts))" using d a by blast+
  show "a \<notin> troot ` set ts" using roots_in n by blast
qed

lemma node_finish:
  assumes d: "gen_done E B L new (a # fs) us s ts s1"
    and n: "node_done e s1 a fs (rev new @ us) i (map troot ts) p s2"
    and L': "\<And>x. x \<notin> set (new @ [a]) \<Longrightarrow> count_list (L @ map troot ts) x \<le> count_list L' x"
  shows "p = a \<and> gen_done (E + e) B L' (new @ [a]) fs us s [TOp a i ts] s2"
proof -
  obtain X where m: "made s1 a fs (rev new @ us) X (map troot ts) s2"
      and X: "node_of X = i" "pinputs X = map troot ts" "poutputs X = []"
    using n by (auto simp: node_done_def)
  have g: "grows (a # fs) us s s1 new L" using d by (simp add: gen_done_def)
  have pool: "pool s1 (a # fs) (rev new @ us)" using g by (simp add: grows_def)
  note apart = gen_done_apart [OF d pool]
  have "grows fs (rev new @ us) s1 s2 [a] (map troot ts)" by (rule grows_made [OF m pool])
  with g have "grows fs us s s2 (new @ [a]) (L @ map troot ts)" by (intro grows_trans) simp_all
  then have G: "grows fs us s s2 (new @ [a]) L'" using L' by (rule grows_mono)
  have o: "ops s2 = addOuts a (map troot ts) ((ops s1)(a := X))" using m by (simp add: made_def)
  have "tree_at (ops s2) [a] t" if t: "t \<in> set ts" for t
    unfolding o using d t apart(1-4) by (intro tree_at_link) (simp_all add: gen_done_def)
  moreover have "ops s2 a = X" using apart(5) by (simp add: o addOuts_other)
  ultimately have "tree_at (ops s2) [] (TOp a i ts)" using X by simp
  moreover have "set (concat (map own ts)) = set new" "set (concat (map srcs ts)) \<subseteq> set us"
    using d unfolding gen_done_def by blast+
  ultimately show ?thesis
    using G n d apart(1,3) by (simp add: gen_done_def node_done_def del: set_concat)
qed

lemma node_fail_finish:
  assumes d: "gen_done E B L new (a # fs) us s ts s1"
    and f: "node_fails e s1 a fs (rev new @ us) (map troot ts) rc s2"
    and L': "\<And>x. x \<notin> set (new @ [a]) \<Longrightarrow> count_list (L @ map troot ts) x \<le> count_list L' x"
  shows "gen_fails (E + e) B L' (new @ a # fs) us s rc s2"
proof -
  obtain X ds where m: "made s1 a fs (rev new @ us) X ds s2" and ds: "\<And>x. count_list ds x \<le> count_list (map troot ts) x"
    using f by (auto simp: node_fails_def)
  have g: "grows (a # fs) us s s1 new L" using d by (simp add: gen_done_def)
  have pool: "pool s1 (a # fs) (rev new @ us)" using g by (simp add: grows_def)
  note apart = gen_done_apart [OF d pool]
  have "grows fs (rev new @ us) s1 s2 [a] ds" by (rule grows_made [OF m pool])
  with g have "grows fs us s s2 (new @ [a]) (L @ ds)" by (intro grows_trans) simp_all
  then have G: "grows fs us s s2 (new @ [a]) L'"
  proof (rule grows_mono)
    fix x assume "x \<notin> set (new @ [a])"
    then show "count_list (L @ ds) x \<le> count_list L' x" using L' [of x] ds [of x] by simp
  qed
  have "\<not> room (E + e) B L' s"
  proof
    assume r: "room (E + e) B L' s"
    have "numExprs s1 \<le> numExprs s + E" using d by (simp add: gen_done_def)
    then have "\<not> P_MAX_EXPRS < numExprs s1 + e" using r by (simp add: room_def)
    then obtain t where t: "t \<in> set ts"
        and big: "MAX_OUT_BRANCHING < length (poutputs (ops s1 (troot t))) + count_list (map troot ts) (troot t)"
      using f by (auto simp: node_fails_def)
    have tr: "tree_at (ops s1) [] t" using d t by (simp add: gen_done_def)
    show False
    proof (cases t)
      case (TOp c i us)
      then have "poutputs (ops s1 c) = []" using tr by simp
      then show False using big count_root [OF t apart(1) TOp apart(2)] TOp by (simp add: MAX_OUT_BRANCHING_def)
    next
      case (TSrc c cs st)
      then have c: "c \<in> set us" using d t unfolding gen_done_def by force
      then have "c \<notin> set (new @ [a])" using pool by (auto simp: pool_def)
      then have L'c: "count_list L c + count_list (map troot ts) c \<le> count_list L' c" using L' by fastforce
      have "c \<in> set (map troot ts)" using t TSrc by force
      then have "c \<in> set L'" using L'c by (metis add_is_0 count_list_0_iff le_0_eq)
      then have "length (poutputs (ops s c)) + count_list L' c \<le> MAX_OUT_BRANCHING" using r by (simp add: room_def)
      then show False using big TSrc L'c grows_outputs [OF g c] by simp
    qed
  qed
  moreover have "new @ a # fs = (new @ [a]) @ fs" by simp
  moreover have "numExprs s2 \<le> numExprs s + (E + e)" "numBExprs s2 \<le> numBExprs s + B"
    using f d by (simp_all add: node_fails_def gen_done_def)
  ultimately show ?thesis
    using f G unfolding gen_fails_def by (metis node_fails_def)
qed

section \<open>Plans in the pool and the plans they come from\<close>

definition served :: "table_manager \<Rightarrow> plan_manager \<Rightarrow> nat list \<Rightarrow> (nat \<Rightarrow> nat \<times> bool) \<Rightarrow> nat \<Rightarrow> bool" where
  "served tm s us src t \<longleftrightarrow> fst (src t) = find_source t (sourceOps s) \<and> fst (src t) \<in> set us \<and>
     pschema (ops s (fst (src t))) = table_cols tm t \<and> pbStream (ops s (fst (src t))) = snd (src t) \<and>
     pkind (ops s (fst (src t))) \<noteq> PO_SELECT"

lemma served_grows:
  assumes "grows fs us s s' new L" and "served tm s us src t"
  shows "served tm s' (rev new @ us) src t"
proof -
  have "fst (src t) \<notin> set new" using grows_disjoint [OF assms(1)] assms(2) by (auto simp: served_def)
  from grows_old [OF assms(1) this] obtain qs where
    "ops s' (fst (src t)) = (ops s (fst (src t)))\<lparr>poutputs := poutputs (ops s (fst (src t))) @ qs\<rparr>" by metis
  moreover have "sourceOps s' = sourceOps s" using assms(1) by (simp add: grows_def keeps_rest_def)
  ultimately show ?thesis using assms(2) unfolding served_def by (elim conjE) simp
qed

text \<open>The links to sources that a plan makes by itself: a source alone makes none.\<close>

definition pend :: "(nat \<Rightarrow> nat \<times> bool) \<Rightarrow> kplan \<Rightarrow> nat list" where
  "pend src K = (if is_source (kroot K) then [] else leaves src K)"

abbreviation sums :: "('a \<Rightarrow> nat) \<Rightarrow> 'a list \<Rightarrow> nat" where
  "sums f xs \<equiv> sum_list (map f xs)"

definition built ::
    "table_manager \<Rightarrow> (nat \<Rightarrow> nat \<times> bool) \<Rightarrow> kplan list \<Rightarrow> nat list \<Rightarrow> nat list \<Rightarrow> plan_manager \<Rightarrow> nat list \<Rightarrow> plan_manager \<Rightarrow> bool" where
  "built tm src Ks fs us s ps s' \<longleftrightarrow> (\<exists>new fs' ts. fs = new @ fs' \<and> length new \<le> sums nodes Ks \<and>
     gen_done (sums exprs Ks) (sums bexprs Ks) (concat (map (pend src) Ks)) new fs' us s ts s' \<and>
     ps = map troot ts \<and> map erase ts = map (phy_of tm src) Ks \<and> map srcs ts = map (leaves src) Ks)"

definition gen_spec ::
    "table_manager \<Rightarrow> (nat \<Rightarrow> nat \<times> bool) \<Rightarrow> (plan_manager, nat) comp \<Rightarrow> kplan \<Rightarrow> bool" where
  "gen_spec tm src m K \<longleftrightarrow> (\<forall>s fs us. pool s fs us \<longrightarrow> nodes K < length fs \<longrightarrow>
     (\<forall>t\<in>set (tables K). served tm s us src t) \<longrightarrow>
     wp m (\<lambda>p. built tm src [K] fs us s [p]) (gen_fails (exprs K) (bexprs K) (pend src K) fs us s) s)"

lemma pend_used: "\<forall>t\<in>set (tables K). served tm s us src t \<Longrightarrow> set (pend src K) \<subseteq> set us"
  by (auto simp: pend_def leaves_def served_def)

lemma leaves_used: "\<forall>t\<in>set (tables K). served tm s us src t \<Longrightarrow> set (leaves src K) \<subseteq> set us"
  by (auto simp: leaves_def served_def)

lemma mapM_built:
  assumes "list_all2 (\<lambda>x K. gen_spec tm src (f x) K) xs Ks" and "pool s fs us"
    and "sums nodes Ks < length fs" and "\<forall>t\<in>set (concat (map tables Ks)). served tm s us src t"
  shows "wp (mapM f xs) (built tm src Ks fs us s)
    (gen_fails (sums exprs Ks) (sums bexprs Ks) (concat (map (pend src) Ks)) fs us s) s"
  using assms
proof (induction arbitrary: s fs us rule: list_all2_induct)
  case Nil
  then show ?case by (auto simp: built_def intro!: exI [of _ "[]"])
next
  case (Cons x xs K Ks)
  let ?L = "concat (map (pend src) Ks)"
  have sK: "\<forall>t\<in>set (tables K). served tm s us src t" and sKs: "\<forall>t\<in>set (concat (map tables Ks)). served tm s us src t"
    using Cons.prems(3) by auto
  have L: "set ?L \<subseteq> set us" "\<forall>K\<in>set Ks. set (leaves src K) \<subseteq> set us"
    using sKs pend_used [of _ tm s us src] leaves_used [of _ tm s us src] by (auto simp: subset_iff)
  have "wp (f x) (\<lambda>p. built tm src [K] fs us s [p]) (gen_fails (exprs K) (bexprs K) (pend src K) fs us s) s"
    using Cons.hyps(1) Cons.prems(1,2) sK by (simp add: gen_spec_def)
  then show ?case
    unfolding mapM.simps
  proof (rule wp_bindI)
    fix p s1 assume "built tm src [K] fs us s [p] s1"
    then obtain n1 fs1 t where 1: "fs = n1 @ fs1" "length n1 \<le> nodes K"
        "gen_done (exprs K) (bexprs K) (pend src K) n1 fs1 us s [t] s1"
        "p = troot t" "erase t = phy_of tm src K" "srcs t = leaves src K"
      by (auto simp: built_def)
    have g1: "grows fs1 us s s1 n1 (pend src K)" using 1(3) by (simp add: gen_done_def)
    have "wp (mapM f xs) (built tm src Ks fs1 (rev n1 @ us) s1)
       (gen_fails (sums exprs Ks) (sums bexprs Ks) ?L fs1 (rev n1 @ us) s1) s1"
    proof (rule Cons.IH)
      show "pool s1 fs1 (rev n1 @ us)" using g1 by (simp add: grows_def)
      show "sums nodes Ks < length fs1" using Cons.prems(2) 1(1,2) by simp
      show "\<forall>t\<in>set (concat (map tables Ks)). served tm s1 (rev n1 @ us) src t"
        using served_grows [OF g1] sKs by blast
    qed
    then show "wp (bindM (mapM f xs) (\<lambda>ys. retM (p # ys))) (built tm src (K # Ks) fs us s)
      (gen_fails (sums exprs (K # Ks)) (sums bexprs (K # Ks)) (concat (map (pend src) (K # Ks))) fs us s) s1"
    proof (rule wp_bindI)
      fix ys s2 assume "built tm src Ks fs1 (rev n1 @ us) s1 ys s2"
      then obtain n2 fs2 ts where 2: "fs1 = n2 @ fs2" "length n2 \<le> sums nodes Ks"
          "gen_done (sums exprs Ks) (sums bexprs Ks) ?L n2 fs2 (rev n1 @ us) s1 ts s2"
          "ys = map troot ts" "map erase ts = map (phy_of tm src) Ks" "map srcs ts = map (leaves src) Ks"
        by (auto simp: built_def)
      have "set (concat (map srcs ts)) \<subseteq> set us" using L(2) 2(6) by auto
      from gen_done_append [OF _ 2(3) L(1) this] 1(3) 2(1)
      have "gen_done (exprs K + sums exprs Ks) (bexprs K + sums bexprs Ks) (pend src K @ ?L) (n1 @ n2) fs2 us s ([t] @ ts) s2"
        by blast
      then show "wp (retM (p # ys)) (built tm src (K # Ks) fs us s)
        (gen_fails (sums exprs (K # Ks)) (sums bexprs (K # Ks)) (concat (map (pend src) (K # Ks))) fs us s) s2"
        unfolding built_def wp_retM using 1 2
        by (intro exI [of _ "n1 @ n2"] exI [of _ fs2] exI [of _ "t # ts"]) simp
    next
      fix rc s2 assume "gen_fails (sums exprs Ks) (sums bexprs Ks) ?L fs1 (rev n1 @ us) s1 rc s2"
      from gen_fails_next [OF 1(3) this L(1)] 1(1)
      show "gen_fails (sums exprs (K # Ks)) (sums bexprs (K # Ks)) (concat (map (pend src) (K # Ks))) fs us s rc s2"
        by simp
    qed
  next
    fix rc s1 assume "gen_fails (exprs K) (bexprs K) (pend src K) fs us s rc s1"
    from gen_fails_first [OF this, of "sums exprs Ks" "sums bexprs Ks" ?L]
    show "gen_fails (sums exprs (K # Ks)) (sums bexprs (K # Ks)) (concat (map (pend src) (K # Ks))) fs us s rc s1"
      by simp
  qed
qed

text \<open>With an operator on top every source has one output for each place where it is read.\<close>

lemma erase_source: "erase t = phy_of tm src K \<Longrightarrow> is_source (kroot K) \<Longrightarrow> \<exists>c cs st. t = TSrc c cs st"
  by (cases K; cases t) auto

lemma erase_op: "erase t = phy_of tm src K \<Longrightarrow> \<not> is_source (kroot K) \<Longrightarrow> \<exists>c i us. t = TOp c i us"
  using phy_of_op [of K tm src] by (cases t) auto

lemma count_pend:
  assumes "map erase ts = map (phy_of tm src) Ks" and "map srcs ts = map (leaves src) Ks"
    and "x \<notin> set (concat (map own ts))"
  shows "count_list (concat (map (pend src) Ks) @ map troot ts) x = count_list (concat (map (leaves src) Ks)) x"
  using assms
proof (induction ts arbitrary: Ks)
  case (Cons t ts)
  then obtain K Ks' where K: "Ks = K # Ks'" "erase t = phy_of tm src K" "srcs t = leaves src K" by (cases Ks) auto
  have IH: "count_list (concat (map (pend src) Ks') @ map troot ts) x = count_list (concat (map (leaves src) Ks')) x"
    using Cons K(1) by simp
  show ?case
  proof (cases "is_source (kroot K)")
    case True
    then obtain c cs st where "t = TSrc c cs st" using erase_source K(2) by blast
    moreover have "pend src K = []" using True by (simp add: pend_def)
    ultimately show ?thesis using IH K(1) by (simp flip: K(3))
  next
    case False
    then obtain c i us where "t = TOp c i us" using erase_op K(2) by blast
    then have "troot t \<noteq> x" using Cons.prems(3) by simp
    moreover have "pend src K = leaves src K" using False by (simp add: pend_def)
    ultimately show ?thesis using IH K(1) by simp
  qed
qed simp

section \<open>One step of the generator\<close>

lemma not_source_leaves: "\<not> is_source k \<Longrightarrow> leaves src (KP k ts) = concat (map (leaves src) ts)"
  by (simp add: leaves_KP)

lemma built_top:
  assumes "gen_done (E + e) B (concat (map (leaves src) ts)) (new @ [a]) fs us s [TOp a i trs] s2"
    and "\<not> is_source k" and "length new \<le> sums nodes ts"
    and "E = sums exprs ts" and "e = kexprs k" and "B = bexprs (KP k ts)"
    and "POp i (map erase trs) = phy_of tm src (KP k ts)" and "map srcs trs = map (leaves src) ts"
  shows "built tm src [KP k ts] (new @ a # fs) us s [a] s2"
  unfolding built_def using assms
  by (intro exI [of _ "new @ [a]"] exI [of _ fs] exI [of _ "[TOp a i trs]"])
    (simp add: pend_def not_source_leaves add.commute)

lemma children_input:
  assumes "gen_done E B L new (a # fs) us s trs s1" and "t \<in> set trs"
  shows "input_ok (ops s1) a (troot t) (erase t)"
proof -
  have "pool s1 (a # fs) (rev new @ us)" using assms(1) by (simp add: gen_done_def grows_def)
  from gen_done_apart(5) [OF assms(1) this] have "troot t \<noteq> a" using assms(2) by auto
  then show ?thesis
    using assms tree_at_cols tree_at_stream unfolding input_ok_def gen_done_def by blast
qed

lemma phy_root_node:
  assumes pool: "pool s (a # b # fs) us"
    and k: "lkind (h l) = k" "\<not> is_source k" "\<not> is_select k"
    and ok: "kplan_ok tm (KP k ts)" "phys_ok tm (KP k ts)"
    and ins: "in_schemas h l = map (kattrs tm) ts" and out: "outAttrs (h l) = kattrs tm (KP k ts)"
    and trs: "\<And>t. t \<in> set trs \<Longrightarrow> input_ok (ops s) a (troot t) (erase t)"
    and er: "map erase trs = map (phy_of tm src) ts"
  shows "\<exists>i. phy_of tm src (KP k ts) = POp i (map erase trs) \<and>
    node_wp (phy_root h l (map troot trs)) (kexprs k) s a (b # fs) us i (map troot trs)"
proof -
  have w: "length (pcols (phy_of tm src t)) = length (kattrs tm t)" if "t \<in> set ts" for t
    using that ok phy_width by simp
  have node: "node_ok k (map (kattrs tm) ts)" "length (out_attrs tm k (map (kattrs tm) ts)) \<le> MAX_ATTRS"
      "arity_ok k (length ts)" using ok by simp_all
  show ?thesis
  proof (cases "arity_ok k 1")
    case True
    then have "length ts = 1" using node(1,3) k(2) by (cases k) (auto simp: MAX_INPUT_OPS_def)
    then obtain u where u: "ts = [u]" by (auto simp: length_Suc_conv)
    then obtain t where t: "trs = [t]" "erase t = phy_of tm src u" using er by auto
    from phy_root_unary [where h = h and l = l, OF pool k True, where as = "kattrs tm u" and c = "troot t" and p = "erase t"] show ?thesis
      using node ins out trs u t w k(2) by (simp del: phy_of.simps add: phy_of.simps [of tm src k])
  next
    case False
    then have 2: "length ts = 2" "arity_ok k 2" using node(1,3) k(2) by (cases k; auto)+
    then obtain u v where u: "ts = [u, v]" by (auto simp: length_Suc_conv numeral_2_eq_2)
    then obtain t t' where t: "trs = [t, t']" "erase t = phy_of tm src u" "erase t' = phy_of tm src v"
      using er by auto
    from phy_root_binary [where h = h and l = l, OF pool k(1,2) False 2(2), where as = "kattrs tm u" and bs = "kattrs tm v"
      and tm = tm and c = "troot t" and p = "erase t" and d = "troot t'" and q = "erase t'"]
    moreover have "input_ok (ops s) a (troot t) (erase t)" "input_ok (ops s) a (troot t') (erase t')"
      using trs t(1) by simp_all
    ultimately show ?thesis
      using node ins u t w k(2) by simp
  qed
qed

lemma phy_root_built:
  assumes b: "built tm src ts fs us s cs s1" and n: "nodes (KP k ts) < length fs"
    and k: "lkind (h l) = k" "\<not> is_source k" "\<not> is_select k"
    and ok: "kplan_ok tm (KP k ts)" "phys_ok tm (KP k ts)"
    and ins: "in_schemas h l = map (kattrs tm) ts" and out: "outAttrs (h l) = kattrs tm (KP k ts)"
  shows "wp (phy_root h l cs) (\<lambda>p. built tm src [KP k ts] fs us s [p])
    (gen_fails (exprs (KP k ts)) (bexprs (KP k ts)) (leaves src (KP k ts)) fs us s) s1"
proof -
  obtain new fs' trs where 1: "fs = new @ fs'" "length new \<le> sums nodes ts"
      "gen_done (sums exprs ts) (sums bexprs ts) (concat (map (pend src) ts)) new fs' us s trs s1"
      "cs = map troot trs" "map erase trs = map (phy_of tm src) ts" "map srcs trs = map (leaves src) ts"
    using b unfolding built_def by blast
  obtain a fs1 where "fs' = a # fs1" using n 1(1,2) k(2) by (cases fs') auto
  moreover obtain b' fs2 where "fs1 = b' # fs2" using n 1(1,2) k(2) calculation by (cases fs1) auto
  ultimately have fs': "fs' = a # b' # fs2" by simp
  note d = 1(3) [unfolded fs']
  have pool: "pool s1 (a # b' # fs2) (rev new @ us)" using d by (simp add: gen_done_def grows_def)
  obtain i where i: "phy_of tm src (KP k ts) = POp i (map erase trs)"
      and wp: "node_wp (phy_root h l (map troot trs)) (kexprs k) s1 a (b' # fs2) (rev new @ us) i (map troot trs)"
    using phy_root_node [OF pool k ok ins out children_input [OF d] 1(5)] by blast
  have own: "set (concat (map own trs)) = set new" using d by (simp add: gen_done_def del: set_concat)
  have L': "count_list (concat (map (pend src) ts) @ map troot trs) x \<le> count_list (concat (map (leaves src) ts)) x"
    if "x \<notin> set (new @ [a])" for x
  proof -
    have "x \<notin> set (concat (map own trs))" unfolding own using that by simp
    from count_pend [OF 1(5,6) this] show ?thesis by simp
  qed
  have B: "sums bexprs ts = bexprs (KP k ts)" using k(3) by simp
  show ?thesis
    unfolding 1(4)
  proof (rule wp_mono [OF wp])
    fix p s2 assume "node_done (kexprs k) s1 a (b' # fs2) (rev new @ us) i (map troot trs) p s2"
    note f = node_finish [OF d this L']
    have "built tm src [KP k ts] (new @ a # b' # fs2) us s [a] s2"
      by (rule built_top [OF conjunct2 [OF f] k(2) 1(2) refl refl B i [symmetric] 1(6)])
    then show "built tm src [KP k ts] fs us s [p] s2" using conjunct1 [OF f] 1(1) fs' by simp
  next
    fix rc s2 assume "node_fails (kexprs k) s1 a (b' # fs2) (rev new @ us) (map troot trs) rc s2"
    have "exprs (KP k ts) = sums exprs ts + kexprs k" by simp
    then show "gen_fails (exprs (KP k ts)) (bexprs (KP k ts)) (leaves src (KP k ts)) fs us s rc s2"
      using node_fail_finish [OF d \<open>node_fails _ _ _ _ _ _ _ _\<close> L'] 1(1) fs' B not_source_leaves [OF k(2)] by metis
  qed
qed

subsection \<open>Selections\<close>

lemma gen_done_exprs:
  assumes "gen_done E B L new fs us s ts s1" and "s2 = s1\<lparr>numExprs := n, numBExprs := m\<rparr>"
    and "n \<le> numExprs s1 + e" and "m \<le> numBExprs s1 + b"
  shows "gen_done (E + e) (B + b) L new fs us s ts s2"
proof -
  have "pool s2 fs' us' = pool s1 fs' us'" for fs' us' unfolding assms(2) by (rule pool_update) simp_all
  then show ?thesis using assms by (simp add: gen_done_def grows_def keeps_rest_def)
qed

lemma gen_fails_exprs:
  assumes "gen_done E B L new fs us s ts s1" and "s2 = s1\<lparr>numExprs := n, numBExprs := m\<rparr>"
    and "n \<le> numExprs s1 + e" and "m \<le> numBExprs s1 + b"
    and "P_MAX_EXPRS < numExprs s1 + e \<or> P_MAX_EXPRS < numBExprs s1 + b"
    and "\<And>x. count_list L x \<le> count_list L' x"
  shows "gen_fails (E + e) (B + b) L' (new @ fs) us s (- 1) s2"
proof -
  have d: "gen_done (E + e) (B + b) L new fs us s ts s2" by (rule gen_done_exprs [OF assms(1-4)])
  then have "grows fs us s s2 new L" by (simp add: gen_done_def)
  then have "grows fs us s s2 new L'" using assms(6) by (rule grows_mono)
  moreover have "\<not> room (E + e) (B + b) L' s" using assms(1,5) by (auto simp: room_def gen_done_def)
  ultimately show ?thesis using d by (auto simp: gen_fails_def gen_done_def)
qed

text \<open>The predicate of a selection right below goes to that selection.\<close>

lemma gen_done_union:
  assumes d: "gen_done E B L new fs us s [TOp c i ts] s1"
  shows "gen_done E B L new fs us s [TOp c (i\<lparr>nunion := u\<rparr>) ts] (s1\<lparr>ops := (ops s1)(c := (ops s1 c)\<lparr>pu := u\<rparr>)\<rparr>)"
    (is "gen_done _ _ _ _ _ _ _ _ ?s")
proof -
  have own: "set (own (TOp c i ts)) = set new" "distinct (own (TOp c i ts))" "set (srcs (TOp c i ts)) \<subseteq> set us"
    and g: "grows fs us s s1 new L" and tr: "tree_at (ops s1) [] (TOp c i ts)"
    using d by (simp_all add: gen_done_def)
  have c: "c \<in> set new" "c \<notin> set us" using own(1) grows_disjoint [OF g] by auto
  have "pool ?s fs (rev new @ us) = pool s1 fs (rev new @ us)" by (rule pool_update) simp_all
  then have "grows fs us s ?s new L" using g c by (auto simp: grows_def keeps_rest_def)
  moreover have "tree_at (ops ?s) [c] t" if t: "t \<in> set ts" for t
  proof (rule tree_at_frame [of "ops s1"])
    show "tree_at (ops s1) [c] t" using tr t by simp
    show "ops ?s a = ops s1 a" if "a \<in> set (own t)" for a using that own(2) t by auto
    show "same_src (ops s1 a) (ops ?s a)" if "a \<in> set (srcs t)" for a
      using that own(3) t c(2) by auto
  qed
  then have "tree_at (ops ?s) [] (TOp c (i\<lparr>nunion := u\<rparr>) ts)" using tr by (auto simp: node_of_def)
  ultimately show ?thesis using d by (simp add: gen_done_def)
qed

lemma phy_select_built:
  assumes b: "built tm src [K] fs us s [c] s1" and n: "nodes (KP (LO_SELECT e) [K]) < length fs"
    and k: "lkind (h l) = LO_SELECT e"
    and ok: "phys_ok tm (KP (LO_SELECT e) [K])" and ins: "in_schemas h l = [kattrs tm K]"
  shows "wp (phy_mk_select h l e c) (\<lambda>p. built tm src [KP (LO_SELECT e) [K]] fs us s [p])
    (gen_fails (exprs (KP (LO_SELECT e) [K])) (bexprs (KP (LO_SELECT e) [K])) (leaves src (KP (LO_SELECT e) [K])) fs us s) s1"
    (is "wp _ ?Q ?E s1")
proof -
  let ?K = "KP (LO_SELECT e) [K]" and ?p = "pb [kattrs tm K] e"
  obtain new fs' t where 1: "fs = new @ fs'" "length new \<le> nodes K"
      "gen_done (exprs K) (bexprs K) (pend src K) new fs' us s [t] s1"
      "c = troot t" "erase t = phy_of tm src K" "srcs t = leaves src K"
    using b by (auto simp: built_def)
  have cnt: "count_list (pend src K) x \<le> count_list (leaves src ?K) x" for x by (simp add: pend_def leaves_KP)
  have ex: "exprs ?K = exprs K + bsize e" "bexprs ?K = bexprs K + 1" by simp_all
  have "bexpr_ok (in_schemas h l) e" using ok ins by simp
  from phyTransformBExpr_wp [OF this, of s1 ?E] show ?thesis
    unfolding phy_mk_select_def ins
  proof (rule wp_bindI)
    fix r s2
    assume r: "(\<exists>n m. s2 = s1\<lparr>numExprs := n, numBExprs := m\<rparr> \<and> n \<le> numExprs s1 + bsize e \<and> m \<le> numBExprs s1 + 1) \<and>
      (r = Some ?p \<or> r = None \<and> (P_MAX_EXPRS < numExprs s1 + bsize e \<or> P_MAX_EXPRS < numBExprs s1 + 1))"
    then obtain n m where s2: "s2 = s1\<lparr>numExprs := n, numBExprs := m\<rparr>" "n \<le> numExprs s1 + bsize e" "m \<le> numBExprs s1 + 1"
      by blast
    have d: "gen_done (exprs ?K) (bexprs ?K) (pend src K) new fs' us s [t] s2"
      unfolding ex by (rule gen_done_exprs [OF 1(3) s2])
    show "wp (case r of None \<Rightarrow> failM (- 1) | Some pred \<Rightarrow> bindM (pget c) (\<lambda>co.
        if pkind co = PO_SELECT then
          (case pu co of U_SELECT qs \<Rightarrow> seqM (setUnion (U_SELECT (pred # qs)) c) (retM c) | _ \<Rightarrow> undefM)
        else phy_unary PO_SELECT c pbStream (setUnion (U_SELECT [pred])))) ?Q ?E s2"
    proof (cases r)
      case None
      then show ?thesis using gen_fails_exprs [OF 1(3) s2 _ cnt] r 1(1) ex by (simp add: add.commute)
    next
      case (Some x)
      then have x: "x = ?p" using r by simp
      have tr: "tree_at (ops s2) [] t" using d by (simp add: gen_done_def)
      show ?thesis
      proof (cases "pkind (ops s2 c) = PO_SELECT")
        case True
        then obtain i us' where t: "t = TOp c i us'" using tr 1(4) by (cases t) auto
        then have i: "nkind i = PO_SELECT" "nunion i = pu (ops s2 c)" using tr True by auto
        have src: "\<not> is_source (kroot K)" using erase_source [OF 1(5)] t by auto
        obtain bs where bs: "nunion i = U_SELECT bs"
          using phy_of_op [OF src, of tm src] 1(5) t i(1) by auto
        have "phy_of tm src ?K = POp (i\<lparr>nunion := U_SELECT (x # bs)\<rparr>) (map erase us')"
          using 1(5) t i(1) bs x by (simp flip: 1(5))
        moreover have "pend src K = leaves src ?K" using src by (simp add: pend_def leaves_KP)
        ultimately have "built tm src [?K] fs us s [c]
            (s2\<lparr>ops := (ops s2)(c := (ops s2 c)\<lparr>pu := U_SELECT (x # bs)\<rparr>)\<rparr>)"
          unfolding built_def using 1(1,2,6) t gen_done_union [OF d [unfolded t], of "U_SELECT (x # bs)"]
          by (intro exI [of _ new] exI [of _ fs'] exI [of _ "[TOp c (i\<lparr>nunion := U_SELECT (x # bs)\<rparr>) us']"])
            (simp add: pend_def leaves_KP)
        moreover have "pu (ops s2 c) = U_SELECT bs" using i(2) bs by simp
        ultimately show ?thesis using Some True by simp
      next
        case False
        obtain a fs1 where "fs' = a # fs1" using n 1(1,2) by (cases fs') auto
        moreover obtain b' fs2 where "fs1 = b' # fs2" using n 1(1,2) calculation by (cases fs1) auto
        ultimately have fs': "fs' = a # b' # fs2" by simp
        note d' = d [unfolded fs']
        have pool: "pool s2 (a # b' # fs2) (rev new @ us)" using d' by (simp add: gen_done_def grows_def)
        let ?i = "\<lparr>nkind = PO_SELECT, nunion = U_SELECT [x], ncols = pcols (erase t), nstream = pstream (erase t)\<rparr>"
        have inp: "input_ok (ops s2) a c (erase t)" using children_input [OF d'] 1(4) by simp
        have wp: "node_wp (phy_unary PO_SELECT c pbStream (setUnion (U_SELECT [x]))) 0 s2 a (b' # fs2) (rev new @ us) ?i (map troot [t])"
          using unary_set_node [OF pool inp] inp 1(4) by (simp add: input_ok_def)
        have L': "count_list (pend src K @ map troot [t]) y \<le> count_list (concat (map (leaves src) [K])) y"
          if "y \<notin> set (new @ [a])" for y
        proof -
          have "y \<notin> set (concat (map own [t]))" using that d by (simp add: gen_done_def)
          from count_pend [of "[t]" tm src "[K]", OF _ _ this] 1(5,6) show ?thesis by simp
        qed
        have "phy_of tm src ?K = POp ?i (map erase [t])"
        proof (cases t)
          case (TOp c' i us')
          then have "nkind i \<noteq> PO_SELECT" using tr False 1(4) by auto
          then show ?thesis using TOp x by (simp add: p_unary_def flip: 1(5))
        qed (simp add: x p_unary_def flip: 1(5))
        note top = built_top [OF _ _ _ refl refl refl this [symmetric]]
        have "wp (phy_unary PO_SELECT c pbStream (setUnion (U_SELECT [x]))) ?Q ?E s2"
        proof (rule wp_mono [OF wp])
          fix p s3 assume "node_done 0 s2 a (b' # fs2) (rev new @ us) ?i (map troot [t]) p s3"
          from node_finish [OF d' this L'] ex have f: "p = a"
            "gen_done (exprs K + bsize e) (bexprs ?K) (concat (map (leaves src) [K])) (new @ [a]) (b' # fs2) us s [TOp a ?i [t]] s3"
            by (simp_all add: add.commute)
          then have "built tm src [?K] (new @ a # b' # fs2) us s [a] s3"
            using 1(2,6) by (intro top) simp_all
          then show "?Q p s3" using f(1) 1(1) fs' by simp
        next
          fix rc s3 assume "node_fails 0 s2 a (b' # fs2) (rev new @ us) (map troot [t]) rc s3"
          from node_fail_finish [OF d' this L'] show "?E rc s3"
            using 1(1) fs' by (simp add: leaves_KP)
        qed
        then show ?thesis using Some False by simp
      qed
    qed
  qed simp
qed

section \<open>The generator\<close>

lemma source_built:
  assumes "pool s fs us" and "is_source k" and "served tm s us src (table_of k)"
  shows "built tm src [KP k []] fs us s [find_source (table_of k) (sourceOps s)] s"
proof -
  let ?t = "TSrc (fst (src (table_of k))) (table_cols tm (table_of k)) (snd (src (table_of k)))"
  have "gen_done 0 0 [] [] fs us s [?t] s" using assms unfolding served_def by (elim conjE) (simp add: gen_done_def)
  moreover have "kexprs k = 0" "\<not> is_select k" using assms(2) by (cases k; simp)+
  ultimately show ?thesis unfolding built_def using assms(2,3)
    by (intro exI [of _ "[]"] exI [of _ fs] exI [of _ "[?t]"]) (simp add: pend_def leaves_KP served_def)
qed

lemma genPhysical_spec:
  assumes "rep h q T" and "shape T = annot tm K" and "kplan_ok tm K" and "phys_ok tm K" and "depth T \<le> fuel"
  shows "gen_spec tm src (genPhysical fuel h (paddr T)) K"
  using assms
proof (induction fuel arbitrary: q T K)
  case 0
  then show ?case by (cases T) simp
next
  case (Suc fuel)
  obtain a i Ts where T: "T = PT a i Ts" by (cases T)
  obtain k ts where K: "K = KP k ts" by (cases K)
  have sh: "map shape Ts = map (annot tm) ts" and i: "i = node_info tm k (map (lroot \<circ> annot tm) ts)"
    using Suc.prems(2) T K by simp_all
  have rep: "info_of (h a) = i" "linputs (h a) = map paddr Ts" "\<forall>t\<in>set Ts. rep h (Some a) t"
    using Suc.prems(1) T by simp_all
  have kind: "lkind (h a) = k" "outAttrs (h a) = kattrs tm K"
  proof -
    have "lkind (h a) = lkind i" "outAttrs (h a) = outAttrs i" by (simp_all add: info_of_def flip: rep(1))
    then show "lkind (h a) = k" "outAttrs (h a) = kattrs tm K" using i K by (simp_all add: comp_def)
  qed
  have ins: "in_schemas h a = map (kattrs tm) ts"
  proof -
    have "outAttrs (h (paddr t)) = outAttrs (lroot (shape t))" if "t \<in> set Ts" for t
    proof (cases t)
      case (PT b j us)
      then have "info_of (h b) = j" using rep(3) that by fastforce
      then have "outAttrs j = outAttrs (h b)" by (simp flip: \<open>info_of (h b) = j\<close>)
      then show ?thesis using PT by simp
    qed
    then have "in_schemas h a = map (\<lambda>p. outAttrs (lroot p)) (map shape Ts)"
      using rep(2) by simp
    also have "\<dots> = map (kattrs tm) ts" unfolding sh by simp
    finally show ?thesis .
  qed
  have sub: "list_all2 (\<lambda>x K. gen_spec tm src (genPhysical fuel h x) K) (map paddr Ts) ts"
  proof -
    have "length Ts = length ts" using sh by (metis length_map)
    moreover have "gen_spec tm src (genPhysical fuel h (paddr (Ts ! n))) (ts ! n)" if n: "n < length ts" for n
    proof (rule Suc.IH)
      have n': "Ts ! n \<in> set Ts" "ts ! n \<in> set ts" using n calculation by simp_all
      show "rep h (Some a) (Ts ! n)" using rep(3) n' by simp
      show "shape (Ts ! n) = annot tm (ts ! n)" using sh n calculation by (metis nth_map)
      show "kplan_ok tm (ts ! n)" "phys_ok tm (ts ! n)" using Suc.prems(3,4) K n' by simp_all
      show "depth (Ts ! n) \<le> fuel" using Suc.prems(5) T foldr_max_le [OF n'(1)] by simp
    qed
    ultimately show ?thesis by (simp add: list_all2_conv_all_nth)
  qed
  show ?case
    unfolding gen_spec_def
  proof (intro allI impI)
    fix s fs us
    assume pool: "pool s fs us" and n: "nodes K < length fs" and srv: "\<forall>t\<in>set (tables K). served tm s us src t"
    show "wp (genPhysical (Suc fuel) h (paddr T)) (\<lambda>p. built tm src [K] fs us s [p])
        (gen_fails (exprs K) (bexprs K) (pend src K) fs us s) s"
    proof (cases "is_source k")
      case True
      then have "ts = []" using Suc.prems(3) K by (cases k) auto
      then have "Ts = []" using sh by simp
      moreover have "served tm s us src (table_of k)" using srv K True by simp
      from source_built [OF pool True this] have
        "built tm src [K] fs us s [find_source (table_of k) (sourceOps s)] s" using K \<open>ts = []\<close> by simp
      ultimately show ?thesis
        using T kind(1) rep(2) True
        by (cases k) (simp_all add: phy_root_def phy_mk_stream_source_def phy_mk_reln_source_def)
    next
      case src: False
      have nn: "sums nodes ts < length fs" "\<forall>t\<in>set (concat (map tables ts)). served tm s us src t"
        using n srv K src by simp_all
      have L: "pend src K = leaves src K" using src K by (simp add: pend_def)
      have cnt: "count_list (concat (map (pend src) ts)) x \<le> count_list (concat (map (leaves src) ts)) x" for x
        by (induction ts) (auto simp: pend_def)
      have "wp (bindM (mapM (genPhysical fuel h) (map paddr Ts)) (phy_root h a))
        (\<lambda>p. built tm src [K] fs us s [p]) (gen_fails (exprs K) (bexprs K) (leaves src K) fs us s) s"
      proof (rule wp_bindI [OF mapM_built [OF sub pool nn]])
        fix cs s1 assume b: "built tm src ts fs us s cs s1"
        show "wp (phy_root h a cs) (\<lambda>p. built tm src [K] fs us s [p])
          (gen_fails (exprs K) (bexprs K) (leaves src K) fs us s) s1"
        proof (cases "is_select k")
          case True
          then obtain e where e: "k = LO_SELECT e" by (auto simp: is_kind_cases)
          then obtain u where u: "ts = [u]" using Suc.prems(3) K by (auto simp: length_Suc_conv)
          obtain c where c: "cs = [c]" using b u unfolding built_def by auto
          show ?thesis
            using phy_select_built [of tm src u fs us s c s1 e h a] b n kind(1) Suc.prems(4) ins e u c K
            by (simp add: phy_root_def del: exprs.simps bexprs.simps nodes.simps phys_ok.simps)
        next
          case False
          from phy_root_built [where h = h and l = a, OF b _ kind(1) src False] show ?thesis
            using n Suc.prems(3,4) ins kind(2) K by blast
        qed
      next
        fix rc s1
        assume f: "gen_fails (sums exprs ts) (sums bexprs ts) (concat (map (pend src) ts)) fs us s rc s1"
        obtain rest where r: "exprs K = sums exprs ts + kexprs k" "bexprs K = sums bexprs ts + rest"
          using K by (metis add.commute exprs.simps bexprs.simps)
        have "gen_fails (sums exprs ts + kexprs k) (sums bexprs ts + rest) (concat (map (leaves src) ts)) fs us s rc s1"
          by (rule gen_fails_mono [OF f cnt])
        then show "gen_fails (exprs K) (bexprs K) (leaves src K) fs us s rc s1"
          unfolding r unfolding K not_source_leaves [OF src] .
      qed
      then show ?thesis using T rep(2) L by simp
    qed
  qed
qed

end
