(* ===== verification/Plan_Facts.thy ===== *)
theory Plan_Facts
  imports Plan_Manager Phy_Plan
begin

text \<open>
  The plan manager: what a new one is like, and how tables, queries and views are added to it.
\<close>

section \<open>A new plan manager\<close>

definition ss_columns :: "pcolumn list" where
  "ss_columns = zip SS_ATTR_TYPES (map Some SS_ATTR_LEN)"

definition new_manager :: "plan_manager \<Rightarrow> bool" where
  "new_manager s \<longleftrightarrow> pool s [1 ..< P_MAX_OPS] [0] \<and> pkind (ops s 0) = PO_SS_GEN \<and>
     pschema (ops s 0) = ss_columns \<and> pbStream (ops s 0) \<and> poutputs (ops s 0) = [] \<and> pinputs (ops s 0) = [] \<and>
     query_class_id (ops s 0) = 1 \<and> sourceOps s = [(SS_ID, 0)] \<and> queryOutOps s = [] \<and>
     baseTableSources s = [] \<and> queryOutputs s = [] \<and> numExprs s = 0 \<and> numBExprs s = 0 \<and>
     current_query_class s = 1"

lemma pool_positions:
  "[0 ..< P_MAX_OPS] = 0 # [1 ..< P_MAX_OPS]" "[1 ..< P_MAX_OPS] = 1 # [2 ..< P_MAX_OPS]"
proof -
  have "0 < P_MAX_OPS" "1 < P_MAX_OPS" by (simp_all add: P_MAX_OPS_def)
  from this [THEN upt_conv_Cons] show "[0 ..< P_MAX_OPS] = 0 # [1 ..< P_MAX_OPS]" "[1 ..< P_MAX_OPS] = 1 # [2 ..< P_MAX_OPS]"
    by (simp_all only: One_nat_def numeral_2_eq_2)
qed

lemma newPlanManagerImpl_wp: "wp newPlanManagerImpl (\<lambda>_. new_manager) (\<lambda>_ _. False) s"
proof -
  let ?s = "s\<lparr>freeOps := None, usedOps := None, numExprs := 0, numBExprs := 0,
       baseTableSources := [], queryOutputs := [], sourceOps := [], queryOutOps := []\<rparr>"
  have "wp (seqM init_ops (seqM (modM (\<lambda>s. s\<lparr>current_query_class := 1\<rparr>)) createSSGen))
      (\<lambda>_. new_manager) (\<lambda>_ _. False) ?s"
  proof (rule wp_seqI [OF init_ops_wp])
    fix x s1
    assume "pool s1 [0 ..< P_MAX_OPS] [] \<and>
      (\<exists>h nx pv f. s1 = ?s\<lparr>ops := h, opNext := nx, opPrev := pv, freeOps := f, usedOps := None\<rparr>)"
    then obtain h nx pv f where pool: "pool s1 [0 ..< P_MAX_OPS] []"
        and s1: "s1 = ?s\<lparr>ops := h, opNext := nx, opPrev := pv, freeOps := f, usedOps := None\<rparr>" by blast
    let ?s1 = "s1\<lparr>current_query_class := 1\<rparr>"
    have "[0 ..< P_MAX_OPS] = 0 # 1 # [2 ..< P_MAX_OPS]" by (simp only: pool_positions)
    moreover have "pool ?s1 [0 ..< P_MAX_OPS] []" using pool pool_update [of ?s1 s1] by simp
    ultimately have p1: "pool ?s1 (0 # 1 # [2 ..< P_MAX_OPS]) []" by simp
    have "wp createSSGen (\<lambda>_. new_manager) (\<lambda>_ _. False) ?s1"
      unfolding createSSGen_def
    proof (rule wp_bindI [OF new_op_wp [OF p1]])
      fix r :: "nat option" and s2
      assume r: "r = Some 0 \<and> pool s2 (1 # [2 ..< P_MAX_OPS]) [0] \<and>
        linked (?s1\<lparr>ops := (ops ?s1)(0 := blank_op PO_SS_GEN (ops ?s1 0))\<rparr>) s2"
      then have "linked (?s1\<lparr>ops := (ops ?s1)(0 := blank_op PO_SS_GEN (ops ?s1 0))\<rparr>) s2" by blast
      note l = linked_sel [OF this]
      let ?X = "(ops s2 0)\<lparr>pschema := ss_columns, pbStream := True, pu := U_SS_GEN 0, query_class_id := 1\<rparr>"
      have pid: "pid (ops s2 0) = 0" using r pool_pid by force
      have "pool (s2\<lparr>ops := (ops s2)(0 := ?X), sourceOps := [(SS_ID, 0)]\<rparr>) [1 ..< P_MAX_OPS] [0]"
        using r pool_positions(2) pool_update [of "s2\<lparr>ops := (ops s2)(0 := ?X), sourceOps := [(SS_ID, 0)]\<rparr>" s2] by simp
      then have "new_manager (s2\<lparr>ops := (ops s2)(0 := ?X), sourceOps := [(SS_ID, 0)]\<rparr>)"
        unfolding new_manager_def using l s1 by simp
      then show "wp (bindM (derefM r) (\<lambda>op.
          seqM (pset op (\<lambda>x. x\<lparr>pschema := zip SS_ATTR_TYPES (map Some SS_ATTR_LEN), pbStream := True,
                         pu := U_SS_GEN 0, query_class_id := 1\<rparr>))
          (bindM (pget op) (\<lambda>x. bindM (readM sourceOps) (\<lambda>tabs.
           seqM (ensureM (length tabs < MAX_TABLES))
           (modM (\<lambda>s. s\<lparr>sourceOps := tabs @ [(SS_ID, pid x)]\<rparr>))))))) (\<lambda>_. new_manager) (\<lambda>_ _. False) s2"
        using r l s1 pid by (simp add: ss_columns_def MAX_TABLES_def)
    qed simp
    then show "wp (seqM (modM (\<lambda>s. s\<lparr>current_query_class := 1\<rparr>)) createSSGen) (\<lambda>_. new_manager) (\<lambda>_ _. False) s1"
      by simp
  qed simp
  then show ?thesis by (simp add: newPlanManagerImpl_def)
qed

section \<open>Sources\<close>

lemma find_source_Cons:
  "find_source t (x # tabs) =
     (if fst x = t then snd x else if t \<in> fst ` set tabs then find_source t tabs else 0)"
proof (cases "fst x = t \<or> find_first (\<lambda>e. fst e = t) tabs \<noteq> None")
  case True
  then have "fst x \<noteq> t \<Longrightarrow> t \<in> fst ` set tabs" by (auto simp: find_first_None image_iff)
  then show ?thesis using True by (auto simp: find_source_def split: option.splits)
next
  case False
  then have "t \<notin> fst ` set tabs" by (auto simp: find_first_None)
  then show ?thesis using False by (auto simp: find_source_def)
qed

lemma find_source_append: "t \<in> fst ` set tabs \<Longrightarrow> find_source t (tabs @ xs) = find_source t tabs"
  by (induction tabs) (auto simp: find_source_Cons)

lemma find_source_new: "t \<notin> fst ` set tabs \<Longrightarrow> find_source t (tabs @ [(t, p)]) = p"
  by (induction tabs) (auto simp: find_source_Cons)

text \<open>The operator that serves a table, and whether it produces a stream.\<close>

definition src_of :: "plan_manager \<Rightarrow> nat \<Rightarrow> nat \<times> bool" where
  "src_of s t = (find_source t (sourceOps s), pbStream (ops s (find_source t (sourceOps s))))"

lemma src_of_sel [simp]: "fst (src_of s t) = find_source t (sourceOps s)"
    "snd (src_of s t) = pbStream (ops s (find_source t (sourceOps s)))"
  by (simp_all add: src_of_def)

abbreviation serves :: "table_manager \<Rightarrow> plan_manager \<Rightarrow> nat list \<Rightarrow> nat \<Rightarrow> bool" where
  "serves tm s us t \<equiv> served tm s us (src_of s) t"

lemma addBaseTable_wp:
  assumes pool: "pool s (a # b # fs) us" and tm: "tm_ok tm" "t < length (tableList tm)"
  shows "wp (addBaseTable tm t src)
    (\<lambda>_ s'. pool s' (b # fs) (a # us) \<and> sourceOps s' = sourceOps s @ [(t, a)] \<and>
       (\<forall>x. x \<noteq> a \<longrightarrow> ops s' x = ops s x) \<and> pschema (ops s' a) = table_cols tm t \<and>
       pbStream (ops s' a) = tblIsStream (tableList tm ! t) \<and>
       pkind (ops s' a) = (if tblIsStream (tableList tm ! t) then PO_STREAM_SOURCE else PO_RELN_SOURCE) \<and>
       pu (ops s' a) = (if tblIsStream (tableList tm ! t) then U_STREAM_SOURCE t (length (baseTableSources s))
         else U_RELN_SOURCE t (length (baseTableSources s))) \<and>
       pinputs (ops s' a) = [] \<and> poutputs (ops s' a) = [] \<and> query_class_id (ops s' a) = query_class_id (ops s a) \<and>
       baseTableSources s' = baseTableSources s @ [src] \<and> queryOutOps s' = queryOutOps s \<and>
       queryOutputs s' = queryOutputs s \<and> numExprs s' = numExprs s \<and> numBExprs s' = numBExprs s \<and>
       current_query_class s' = current_query_class s \<and> sharingAmongClasses s' = sharingAmongClasses s)
    (\<lambda>rc s'. rc = - 1 \<and> pool s' (b # fs) (a # us) \<and> (\<forall>x. x \<noteq> a \<longrightarrow> ops s' x = ops s x) \<and>
       sourceOps s' = sourceOps s \<and> queryOutOps s' = queryOutOps s \<and>
       (length (baseTableSources s) \<ge> MAX_TABLES \<or> length (sourceOps s) \<ge> MAX_TABLES)) s"
    (is "wp _ ?Q ?E s")
proof -
  let ?st = "tblIsStream (tableList tm ! t)" and ?k = "length (attrList (tableList tm ! t))"
  let ?u = "if ?st then U_STREAM_SOURCE t (length (baseTableSources s)) else U_RELN_SOURCE t (length (baseTableSources s))"
  have w: "?k \<le> MAX_ATTRS" using tm_ok_tbl [OF tm] by (simp add: tbl_ok_def)
  have cols: "mapM (tableColumn tm t) [0 ..< ?k] = (retM (table_cols tm t) :: (plan_manager, pcolumn list) comp)"
  proof (rule ext)
    fix s2 :: plan_manager
    have "map (\<lambda>j. (attrType (attrList (tableList tm ! t) ! j), Some (attrLen (attrList (tableList tm ! t) ! j)))) [0 ..< ?k]
        = table_cols tm t" by (rule nth_equalityI) (simp_all add: table_cols_def)
    then have "wp (mapM (tableColumn tm t) [0 ..< ?k]) (\<lambda>ys s'. ys = table_cols tm t \<and> s' = s2) (\<lambda>_ _. False) s2"
      by (rule subst) (rule mapM_wp, use tm in \<open>simp add: tableColumn_def attr_valid_def\<close>)
    then show "mapM (tableColumn tm t) [0 ..< ?k] s2 = retM (table_cols tm t) s2"
      by (auto dest!: wp_success simp: retM_def)
  qed
  show ?thesis
    unfolding addBaseTable_def isStream_wp wp_bindM
  proof (intro conjI tm(2), unfold wp_bindM [symmetric], rule wp_bindI [OF new_op_wp [OF pool]])
    fix r s1
    assume r: "r = Some a \<and> pool s1 (b # fs) (a # us) \<and>
      linked (s\<lparr>ops := (ops s)(a := blank_op (if ?st then PO_STREAM_SOURCE else PO_RELN_SOURCE) (ops s a))\<rparr>) s1"
    then have "linked (s\<lparr>ops := (ops s)(a := blank_op (if ?st then PO_STREAM_SOURCE else PO_RELN_SOURCE) (ops s a))\<rparr>) s1"
      by blast
    note l = linked_sel [OF this]
    let ?X = "(ops s1 a)\<lparr>pu := ?u, pbStream := ?st\<rparr>"
    let ?s2 = "s1\<lparr>ops := (ops s1)(a := ?X)\<rparr>" and ?s3 = "s1\<lparr>ops := (ops s1)(a := ?X\<lparr>pschema := table_cols tm t\<rparr>)\<rparr>"
    have pid: "pid (ops s1 a) = a" using r pool_pid by force
    have p: "pool ?s3 (b # fs) (a # us)"
      "pool (?s3\<lparr>baseTableSources := baseTableSources s1 @ [src]\<rparr>) (b # fs) (a # us)"
      "pool (?s3\<lparr>baseTableSources := baseTableSources s1 @ [src], sourceOps := sourceOps s1 @ [(t, a)]\<rparr>) (b # fs) (a # us)"
      using r pool_update [of ?s3 s1] pool_update [of "?s3\<lparr>baseTableSources := baseTableSources s1 @ [src]\<rparr>" s1]
        pool_update [of "?s3\<lparr>baseTableSources := baseTableSources s1 @ [src], sourceOps := sourceOps s1 @ [(t, a)]\<rparr>" s1]
      by simp_all
    show "wp (case r of None \<Rightarrow> failM (- 1) | Some op \<Rightarrow>
        bindM (readM baseTableSources) (\<lambda>srcs.
        seqM (pset op (\<lambda>x. x\<lparr>
          pu := (if ?st then U_STREAM_SOURCE t (length srcs) else U_RELN_SOURCE t (length srcs)), pbStream := ?st\<rparr>))
        (bindM (getNumAttrs tm t) (\<lambda>n.
         if n > MAX_ATTRS then failM (- 1)
         else
           bindM (mapM (tableColumn tm t) [0 ..< n]) (\<lambda>cols.
           seqM (pset op (\<lambda>x. x\<lparr>pschema := cols\<rparr>))
           (if length srcs \<ge> MAX_TABLES then failM (- 1)
            else
              seqM (modM (\<lambda>s. s\<lparr>baseTableSources := srcs @ [src]\<rparr>))
              (bindM (readM sourceOps) (\<lambda>tabs.
               if length tabs \<ge> MAX_TABLES then failM (- 1)
               else
                 bindM (pget op) (\<lambda>x.
                 modM (\<lambda>s. s\<lparr>sourceOps := tabs @ [(t, pid x)]\<rparr>)))))))))) ?Q ?E s1"
      by (cases ?st) (use r p pid l w tm(2) cols in simp_all)
  qed simp
qed

end
