(* ===== verification/P3_Partial.thy ===== *)
theory P3_Partial
  imports P3_Base
begin

text \<open>
  Partial correctness.  \<open>wlp m Q E s\<close> is the weakest liberal precondition: if \<open>m\<close> started in \<open>s\<close>
  ends normally, in a state that satisfies \<open>Q\<close>, and if it ends with a status, in one that satisfies
  \<open>E\<close>; it may have undefined behaviour or end the process.  It serves for invariants that every
  call keeps, whatever its arguments; \<open>wp\<close> remains the measure of what a call achieves.
\<close>

definition wlp :: "('s, 'a) comp \<Rightarrow> ('a \<Rightarrow> 's \<Rightarrow> bool) \<Rightarrow> (int \<Rightarrow> 's \<Rightarrow> bool) \<Rightarrow> 's \<Rightarrow> bool" where
  "wlp m Q E s = (case m s of
      Done a s' \<Rightarrow> Q a s'
    | Fail rc s' \<Rightarrow> E rc s'
    | Exit n \<Rightarrow> True
    | Undef \<Rightarrow> True)"

lemma wp_wlp: "wp m Q E s \<Longrightarrow> wlp m Q E s"
  by (simp add: wp_def wlp_def split: outcome.splits)

lemma wlp_retM [simp]: "wlp (retM a) Q E s = Q a s"
  by (simp add: wlp_def retM_def)

lemma wlp_failM [simp]: "wlp (failM rc) Q E s = E rc s"
  by (simp add: wlp_def failM_def)

lemma wlp_exitM [simp]: "wlp (exitM n) Q E s"
  by (simp add: wlp_def exitM_def)

lemma wlp_undefM [simp]: "wlp undefM Q E s"
  by (simp add: wlp_def undefM_def)

lemma wlp_bindM [simp]: "wlp (bindM m f) Q E s = wlp m (\<lambda>a s'. wlp (f a) Q E s') E s"
  by (simp add: wlp_def bindM_def split: outcome.splits)

lemma wlp_seqM [simp]: "wlp (seqM m n) Q E s = wlp m (\<lambda>_ s'. wlp n Q E s') E s"
  by (simp add: seqM_def)

lemma wlp_readM [simp]: "wlp (readM f) Q E s = Q (f s) s"
  by (simp add: wlp_def readM_def)

lemma wlp_modM [simp]: "wlp (modM f) Q E s = Q () (f s)"
  by (simp add: wlp_def modM_def)

lemma wlp_ensureM [simp]: "wlp (ensureM b) Q E s = (b \<longrightarrow> Q () s)"
  by (simp add: ensureM_def)

lemma wlp_derefM [simp]: "wlp (derefM p) Q E s = (\<forall>x. p = Some x \<longrightarrow> Q x s)"
  by (simp add: derefM_def split: option.splits)

lemma wlp_nthM [simp]: "wlp (nthM xs i) Q E s = (i < length xs \<longrightarrow> Q (xs ! i) s)"
  by (simp add: nthM_def)

lemma wlp_mono:
  assumes "wlp m Q E s"
    and "\<And>a s'. Q a s' \<Longrightarrow> Q' a s'"
    and "\<And>rc s'. E rc s' \<Longrightarrow> E' rc s'"
  shows "wlp m Q' E' s"
  using assms by (auto simp: wlp_def split: outcome.splits)

lemma wlp_bindI:
  assumes "wlp m R F s"
    and "\<And>a s'. R a s' \<Longrightarrow> wlp (f a) Q E s'"
    and "\<And>rc s'. F rc s' \<Longrightarrow> E rc s'"
  shows "wlp (bindM m f) Q E s"
  unfolding wlp_bindM by (rule wlp_mono [OF assms(1)]) (simp_all add: assms(2,3))

lemma wlp_seqI:
  assumes "wlp m R F s"
    and "\<And>a s'. R a s' \<Longrightarrow> wlp n Q E s'"
    and "\<And>rc s'. F rc s' \<Longrightarrow> E rc s'"
  shows "wlp (seqM m n) Q E s"
  using assms unfolding seqM_def by (rule wlp_bindI)

text \<open>An invariant of all runs adds to what a run achieves.\<close>

lemma wp_wlp_conj:
  "wp m Q E s \<Longrightarrow> wlp m Q' E' s \<Longrightarrow> wp m (\<lambda>a s. Q a s \<and> Q' a s) (\<lambda>rc s. E rc s \<and> E' rc s) s"
  by (auto simp: wp_def wlp_def split: outcome.splits)

lemma wlp_conj:
  "wlp m Q E s \<Longrightarrow> wlp m Q' E' s \<Longrightarrow> wlp m (\<lambda>a s. Q a s \<and> Q' a s) (\<lambda>rc s. E rc s \<and> E' rc s) s"
  by (auto simp: wlp_def split: outcome.splits)

lemma wlp_DoneD: "wlp m Q E s \<Longrightarrow> m s = Done a s' \<Longrightarrow> Q a s'"
  by (simp add: wlp_def)

lemma wlp_FailD: "wlp m Q E s \<Longrightarrow> m s = Fail rc s' \<Longrightarrow> E rc s'"
  by (simp add: wlp_def)

section \<open>Relations that every run keeps\<close>

text \<open>
  \<open>within R m\<close>: every end of \<open>m\<close> is related to its start.  For a reflexive and transitive relation
  this goes through all constructs; \<open>steps\<close> collects the rules.
\<close>

named_theorems steps "computations that stay within a relation"

definition within :: "('s \<Rightarrow> 's \<Rightarrow> bool) \<Rightarrow> ('s, 'a) comp \<Rightarrow> bool" where
  "within R m \<longleftrightarrow> (\<forall>s. wlp m (\<lambda>_ s'. R s s') (\<lambda>_ s'. R s s') s)"

lemma withinI: "(\<And>s. wlp m (\<lambda>_ s'. R s s') (\<lambda>_ s'. R s s') s) \<Longrightarrow> within R m"
  by (simp add: within_def)

lemma within_wlp:
  assumes "within R m" and "\<And>a s'. R s s' \<Longrightarrow> Q a s'" and "\<And>rc s'. R s s' \<Longrightarrow> E rc s'"
  shows "wlp m Q E s"
proof -
  have "wlp m (\<lambda>_ s'. R s s') (\<lambda>_ s'. R s s') s" using assms(1) by (simp add: within_def)
  then show ?thesis by (rule wlp_mono) (fact assms(2,3))+
qed

locale step_relation =
  fixes R :: "'s \<Rightarrow> 's \<Rightarrow> bool"
  assumes step_refl: "R s s" and step_trans: "R s s' \<Longrightarrow> R s' s'' \<Longrightarrow> R s s''"
begin

lemma within_pure [steps]:
  "within R (retM a)" "within R (failM rc)" "within R (exitM n)" "within R undefM" "within R (readM f)"
  "within R (ensureM b)" "within R (derefM p)" "within R (nthM xs i)"
  by (simp_all add: within_def step_refl)

lemma within_bindM [steps]:
  assumes "within R m" and "\<And>a. within R (f a)"
  shows "within R (bindM m f)"
proof (rule withinI)
  fix s
  show "wlp (bindM m f) (\<lambda>_ s'. R s s') (\<lambda>_ s'. R s s') s"
    unfolding wlp_bindM
    by (rule within_wlp [OF assms(1)], rule within_wlp [OF assms(2)]) (auto intro: step_trans)
qed

lemma within_seqM [steps]: "within R m \<Longrightarrow> within R n \<Longrightarrow> within R (seqM m n)"
  unfolding seqM_def by (rule within_bindM)

lemma within_if [steps]: "within R m \<Longrightarrow> within R n \<Longrightarrow> within R (if b then m else n)"
  by simp

lemma within_option [steps]:
  "within R m \<Longrightarrow> (\<And>x. within R (f x)) \<Longrightarrow> within R (case p of None \<Rightarrow> m | Some x \<Rightarrow> f x)"
  by (simp split: option.splits)

lemma within_prod [steps]: "(\<And>x y. within R (f x y)) \<Longrightarrow> within R (case p of (x, y) \<Rightarrow> f x y)"
  by (simp split: prod.splits)

lemma within_forM [steps]: "(\<And>x. within R (f x)) \<Longrightarrow> within R (forM xs f)"
  by (induction xs) (simp_all add: within_pure within_seqM)

lemma within_mapM [steps]: "(\<And>x. within R (f x)) \<Longrightarrow> within R (mapM f xs)"
  by (induction xs) (simp_all add: within_pure within_bindM)

end

end
