(* ===== verification/Sem_From.thy ===== *)
theory Sem_From
  imports Sem_Facts P3_Partial
begin

text \<open>
  What the interpreter guarantees beyond the types: every variable of a query belongs to a table of
  its FROM clause, because the symbol table and the clause come from the same list, and the
  predicates have no aggregations, because the grammar has none there.
\<close>

section \<open>Parts that stay\<close>

definition same_part :: "(query \<Rightarrow> 'a) \<Rightarrow> sem_state \<Rightarrow> sem_state \<Rightarrow> bool" where
  "same_part f s s' \<longleftrightarrow> symbolTable s' = symbolTable s \<and> f (qry s') = f (qry s)"

interpretation part: step_relation "same_part f" for f :: "query \<Rightarrow> 'a"
  by unfold_locales (auto simp: same_part_def)

lemma part_modM: "(\<And>s. symbolTable (g s) = symbolTable s) \<Longrightarrow> (\<And>s. f (qry (g s)) = f (qry s)) \<Longrightarrow> within (same_part f) (modM g)"
  by (rule withinI) (simp add: same_part_def)

lemma part_if: "(b \<Longrightarrow> within (same_part f) m) \<Longrightarrow> (\<not> b \<Longrightarrow> within (same_part f) n) \<Longrightarrow> within (same_part f) (if b then m else n)"
  by simp

lemmas part_list = part.within_bindM part.within_seqM part_if part.within_pure part_modM

lemma part_foldM: "(\<And>b x. within (same_part f) (g b x)) \<Longrightarrow> within (same_part f) (foldM g b xs)"
  by (induction xs arbitrary: b) (auto intro: steps)

lemma part_tables [steps]:
  "within (same_part f) (getAttrId tm t a)" "within (same_part f) (getAttrType tm t i)"
  "within (same_part f) (getNumAttrs tm t)" "within (same_part f) (isStream tm t)"
  by (simp_all add: getAttrId_def getAttrType_def getNumAttrs_def isStream_def steps)

lemma part_pool [steps]: "within (same_part f) newExpr" "within (same_part f) (storeExpr p e)"
  by (auto simp: newExpr_def storeExpr_def intro!: steps part_modM)

lemma part_searchVars: "within (same_part f) (searchVars tm a es v found)"
  by (induction es arbitrary: v found) (auto intro!: steps)

lemma part_attr [steps]: "within (same_part f) (interpretAttr tm n)" "within (same_part f) (semAttrType tm a)"
  by (auto simp: interpretAttr_def interpretVarName_def varTable_def semAttrType_def
      intro!: steps part_searchVars split: node.split option.split)

lemma part_expr [steps]: "within (same_part f) (interpretExpr tm n)"
  by (induction n rule: interpretExpr.induct) (auto intro!: steps)

lemma part_condn [steps]: "within (same_part f) (interpretCondn tm n)"
  by (cases n) (auto simp: interpretCondn_def intro!: steps)

lemma part_int_mul [steps]: "within (same_part f) (int_mul a b)"
  by (auto simp: int_mul_def intro!: steps)

lemma part_partn [steps]: "within (same_part f) (interpretPartnAttrs tm l acc)"
  by (induction l acc rule: interpretPartnAttrs.induct) (auto intro!: part_list part_attr)

lemma part_win [steps]: "within (same_part f) (interpretWin tm w)"
  by (auto simp: interpretWin_def interpretRowWin_def interpretRangeWin_def interpretPartnWin_def
      intro!: steps split: option.split node.split win_type.split time_unit.split)

lemma part_condList [steps]:
  "(\<And>q ps. f (q\<lparr>preds := ps\<rparr>) = f q) \<Longrightarrow> within (same_part f) (interpretCondList tm l)"
  by (induction l rule: interpretCondList.induct) (auto intro!: part_list part_condn)

lemma part_gbyList [steps]:
  "(\<And>q as. f (q\<lparr>gbyAttrs := as\<rparr>) = f q) \<Longrightarrow> within (same_part f) (interpretGbyList tm l)"
  by (induction l rule: interpretGbyList.induct) (auto intro!: part_list part_attr)

lemma part_projList [steps]: "within (same_part f) (interpretProjList tm l acc)"
  by (induction l acc rule: interpretProjList.induct) (auto intro!: part_list part_expr)

lemma part_select [steps]:
  "(\<And>q b. f (q\<lparr>bDistinct := b\<rparr>) = f q) \<Longrightarrow> (\<And>q es. f (q\<lparr>projExprs := es\<rparr>) = f q) \<Longrightarrow>
   within (same_part f) (interpretSelectClause tm sel)"
  by (auto simp: interpretSelectClause_def interpretStarInSelect_def starTable_def starAttr_def
      intro!: steps part_modM part_foldM split: node.split)

lemma part_r2s [steps]:
  "(\<And>q b r. f (q\<lparr>bRelToStr := b, r2sOp := r\<rparr>) = f q) \<Longrightarrow> (\<And>q b. f (q\<lparr>bRelToStr := b\<rparr>) = f q) \<Longrightarrow>
   within (same_part f) (interpretR2SOp n)"
  by (auto simp: interpretR2SOp_def intro!: steps part_modM split: option.split node.split)

lemma part_schema [steps]: "within (same_part f) (schemaCompatible tm t u)"
  unfolding schemaCompatible_def by (intro steps part_foldM)

lemma part_binop [steps]:
  "(\<And>q l r b. f (q\<lparr>leftTable := l, rightTable := r, binOp := b\<rparr>) = f q) \<Longrightarrow> within (same_part f) (interpretBinOp tm n)"
  unfolding interpretBinOp_def by (intro steps part_modM) simp_all

section \<open>The tables of the FROM clause\<close>

text \<open>The names of the variables in the clause.\<close>

fun rel_name :: "node \<Rightarrow> string" where
  "rel_name (N_REL_VAR rel var win) = (case var of Some v \<Rightarrow> v | None \<Rightarrow> rel)"
| "rel_name n = []"

abbreviation rel_names :: "node option \<Rightarrow> string list" where
  "rel_names l \<equiv> map rel_name (list_elems l)"

lemma addRelVars_names:
  "wlp (addRelVars tm l) (\<lambda>_ s'. map fst (symbolTable s') = map fst (symbolTable s) @ rel_names l \<and>
     (distinct (map fst (symbolTable s)) \<longrightarrow> distinct (map fst (symbolTable s')))) (\<lambda>_ _. True) s"
proof (induction tm l arbitrary: s rule: addRelVars.induct)
  case (2 tm table nxt)
  show ?case
  proof (cases table)
    case (N_REL_VAR rel var win)
    let ?v = "case var of Some v \<Rightarrow> v | None \<Rightarrow> rel"
    have "wlp (addSymbolTableEntry tm rel ?v) (\<lambda>_ s'. \<exists>i. symbolTable s' = symbolTable s @ [(?v, i)] \<and>
        ?v \<notin> fst ` set (symbolTable s)) (\<lambda>_ _. True) s"
      by (auto simp: addSymbolTableEntry_def split: option.split)
    then show ?thesis
      unfolding N_REL_VAR addRelVars.simps node.case
    proof (rule wlp_seqI)
      fix u :: unit and s1 :: sem_state
      assume "\<exists>i. symbolTable s1 = symbolTable s @ [(?v, i)] \<and> ?v \<notin> fst ` set (symbolTable s)"
      then have m: "map fst (symbolTable s1) = map fst (symbolTable s) @ [?v]"
        and d: "distinct (map fst (symbolTable s)) \<longrightarrow> distinct (map fst (symbolTable s1))" by auto
      show "wlp (addRelVars tm nxt) (\<lambda>_ s'. map fst (symbolTable s') =
          map fst (symbolTable s) @ rel_names (Some (N_LIST (N_REL_VAR rel var win) nxt)) \<and>
          (distinct (map fst (symbolTable s)) \<longrightarrow> distinct (map fst (symbolTable s')))) (\<lambda>_ _. True) s1"
      proof (rule wlp_mono [OF 2(1) [OF N_REL_VAR]], rule conjI, goal_cases)
        case (1 u s')
        then show ?case using m by simp
      next
        case (2 u s')
        then show ?case using d by blast
      qed simp
    qed simp
  qed simp_all
qed simp_all

text \<open>The variables that the clause refers to.\<close>

abbreviation var_of :: "sem_state \<Rightarrow> string \<Rightarrow> nat option" where
  "var_of s v \<equiv> find_first (\<lambda>e. v = fst e) (symbolTable s)"

abbreviation rest_part :: "query \<Rightarrow> nat list \<times> query_type" where
  "rest_part q \<equiv> (refTables q, qKind q)"

lemma interpretFromList_vars:
  "wlp (interpretFromList tm l sw) (\<lambda>_ s'. same_part rest_part s s' \<and>
     (\<exists>vs. fromClauseTables (qry s') = fromClauseTables (qry s) @ vs \<and> map Some vs = map (var_of s) (rel_names l)))
   (\<lambda>_ _. True) s"
proof (induction tm l sw arbitrary: s rule: interpretFromList.induct)
  case (2 tm relExpr nxt sw)
  let ?all = "\<lambda>q. (rest_part q, fromClauseTables q)"
  show ?case
  proof (cases relExpr)
    case (N_REL_VAR rel var synWin)
    let ?v = "case var of Some v \<Rightarrow> v | None \<Rightarrow> rel"
    let ?win = "\<lambda>str. if str then bindM (interpretWin tm synWin) (\<lambda>w. retM (Some w))
        else if synWin \<noteq> None then failM WINDOW_OVER_REL_ERR else retM sw"
    have w: "within (same_part ?all) (?win str)" for str by (intro steps)
    show ?thesis
    proof (cases "var_of s ?v")
      case None
      then show ?thesis by (simp add: N_REL_VAR interpretVarName_def)
    next
      case (Some v)
      have "wlp (bindM (?win str) (\<lambda>win. bindM (readM qry) (\<lambda>q.
          if length (fromClauseTables q) = MAX_TABLES then failM (- 1)
          else seqM (setQ (\<lambda>q. q\<lparr>fromClauseTables := fromClauseTables q @ [v], winSpec := winSpec q @ [win]\<rparr>))
            (interpretFromList tm nxt win)))) (\<lambda>_ s'. same_part rest_part s s' \<and>
     (\<exists>vs. fromClauseTables (qry s') = fromClauseTables (qry s) @ vs \<and>
        map Some vs = map (var_of s) (rel_names (Some (N_LIST relExpr nxt))))) (\<lambda>_ _. True) s" for str
      proof (rule wlp_bindI [OF within_wlp [OF w]])
        fix win and s1 :: sem_state assume s1: "same_part ?all s s1"
        have "wlp (interpretFromList tm nxt win) (\<lambda>_ s'. same_part rest_part s s' \<and>
         (\<exists>vs. fromClauseTables (qry s') = fromClauseTables (qry s) @ vs \<and>
            map Some vs = map (var_of s) (rel_names (Some (N_LIST relExpr nxt))))) (\<lambda>_ _. True)
          (s1\<lparr>qry := (qry s1)\<lparr>fromClauseTables := fromClauseTables (qry s1) @ [v], winSpec := winSpec (qry s1) @ [win]\<rparr>\<rparr>)"
          if "length (fromClauseTables (qry s1)) \<noteq> MAX_TABLES"
        proof (rule wlp_mono [OF 2(1) [OF N_REL_VAR that]])
          fix u :: unit and s' :: sem_state
          assume "same_part rest_part (s1\<lparr>qry := (qry s1)\<lparr>fromClauseTables := fromClauseTables (qry s1) @ [v],
              winSpec := winSpec (qry s1) @ [win]\<rparr>\<rparr>) s' \<and>
            (\<exists>vs. fromClauseTables (qry s') = fromClauseTables (qry (s1\<lparr>qry := (qry s1)\<lparr>fromClauseTables :=
                fromClauseTables (qry s1) @ [v], winSpec := winSpec (qry s1) @ [win]\<rparr>\<rparr>)) @ vs \<and>
              map Some vs = map (var_of (s1\<lparr>qry := (qry s1)\<lparr>fromClauseTables := fromClauseTables (qry s1) @ [v],
                winSpec := winSpec (qry s1) @ [win]\<rparr>\<rparr>)) (rel_names nxt))"
          then obtain vs where "same_part rest_part s s'"
              "fromClauseTables (qry s') = fromClauseTables (qry s) @ v # vs" "map Some vs = map (var_of s) (rel_names nxt)"
            using s1 by (auto simp: same_part_def)
          then show "same_part rest_part s s' \<and> (\<exists>vs. fromClauseTables (qry s') = fromClauseTables (qry s) @ vs \<and>
              map Some vs = map (var_of s) (rel_names (Some (N_LIST relExpr nxt))))"
            using Some N_REL_VAR by (intro conjI exI [of _ "v # vs"]) simp_all
        qed simp
        then show "wlp (bindM (readM qry) (\<lambda>q.
          if length (fromClauseTables q) = MAX_TABLES then failM (- 1)
          else seqM (setQ (\<lambda>q. q\<lparr>fromClauseTables := fromClauseTables q @ [v], winSpec := winSpec q @ [win]\<rparr>))
            (interpretFromList tm nxt win))) (\<lambda>_ s'. same_part rest_part s s' \<and>
         (\<exists>vs. fromClauseTables (qry s') = fromClauseTables (qry s) @ vs \<and>
            map Some vs = map (var_of s) (rel_names (Some (N_LIST relExpr nxt))))) (\<lambda>_ _. True) s1" by simp
      qed simp_all
      then show ?thesis using Some
        by (simp add: N_REL_VAR interpretVarName_def varTable_def isStream_def del: wlp_bindM [of "if _ then _ else _"])
    qed
  qed simp_all
qed (simp_all add: part.step_refl)

text \<open>Each variable is found at its own place.\<close>

lemma vars_in_order:
  assumes "distinct (map fst st)" and "map Some vs = map (\<lambda>n. find_first (\<lambda>e. n = fst e) st) (map fst st)"
  shows "vs = [0 ..< length st]"
proof -
  have "find_first (\<lambda>e. fst (st ! i) = fst e) st = Some i" if "i < length st" for i
    using that assms(1) unfolding find_first_Some by (auto simp: distinct_conv_nth)
  then have "map (\<lambda>n. find_first (\<lambda>e. n = fst e) st) (map fst st) = map Some [0 ..< length st]"
    by (intro nth_equalityI) simp_all
  then have "map Some vs = map Some [0 ..< length st]" using assms(2) by simp
  then show ?thesis by (simp add: inj_map_eq_map)
qed

section \<open>The predicates\<close>

fun aggr_free :: "sem_expr \<Rightarrow> bool" where
  "aggr_free (SE_AGGR t fn a) = False"
| "aggr_free (SE_COMP t op l r) = (aggr_free l \<and> aggr_free r)"
| "aggr_free _ = True"

definition free_preds :: "query \<Rightarrow> bool" where
  "free_preds q \<longleftrightarrow> (\<forall>b\<in>set (preds q). aggr_free (sLeft b) \<and> aggr_free (sRight b))"

text \<open>Conditions as the grammar derives them.\<close>

fun plain_node :: "node \<Rightarrow> bool" where
  "plain_node (N_ARITH_EXPR op l r) = (plain_node l \<and> plain_node r)"
| "plain_node (N_AGGR_EXPR fn a) = False"
| "plain_node _ = True"

fun plain_cond :: "node \<Rightarrow> bool" where
  "plain_cond (N_CONDN op l r) = (plain_node l \<and> plain_node r)"
| "plain_cond _ = True"

fun plain_query :: "node \<Rightarrow> bool" where
  "plain_query (N_CONT_QUERY (Some (N_SFW_BLOCK sel rels conds groups)) bin r2s) = list_all plain_cond (list_elems conds)"
| "plain_query _ = True"

lemma wlp_any [simp]: "wlp m (\<lambda>_ _. True) (\<lambda>_ _. True) s"
  by (simp add: wlp_def split: outcome.split)

lemma wlp_last: "(\<And>a s'. wlp (f a) Q (\<lambda>_ _. True) s') \<Longrightarrow> wlp (bindM m f) Q (\<lambda>_ _. True) s"
  by (rule wlp_bindI [OF wlp_any])

lemma interpretExpr_free:
  "plain_node n \<Longrightarrow> wlp (interpretExpr tm n) (\<lambda>e _. aggr_free e) (\<lambda>_ _. True) s"
proof (induction n arbitrary: s rule: interpretExpr.induct)
  case (1 tm op l r)
  have r: "wlp (bindM (interpretExpr tm r) (\<lambda>right. if sem_type left \<noteq> sem_type right then failM TYPE_ERR
      else storeExpr p (SE_COMP (sem_type left) op left right))) (\<lambda>e _. aggr_free e) (\<lambda>_ _. True) s"
    if "aggr_free left" for left p s
    by (rule wlp_bindI [OF 1(2)]) (use that 1(3) in \<open>auto simp: storeExpr_def\<close>)
  show ?case
    unfolding interpretExpr.simps
    by (rule wlp_last, rule wlp_bindI [OF 1(1)]) (use 1(3) r in auto)
next
  case (4 tm v a)
  show ?case unfolding interpretExpr.simps by (intro wlp_last) (simp add: storeExpr_def)
qed (auto simp: storeExpr_def intro!: wlp_last)

lemma interpretCondList_free:
  assumes "list_all plain_cond (list_elems l)" and "free_preds (qry s)"
  shows "wlp (interpretCondList tm l) (\<lambda>_ s'. free_preds (qry s')) (\<lambda>_ _. True) s"
  using assms
proof (induction tm l arbitrary: s rule: interpretCondList.induct)
  case (2 tm c nxt)
  have c: "wlp (interpretCondn tm c) (\<lambda>b s'. aggr_free (sLeft b) \<and> aggr_free (sRight b)) (\<lambda>_ _. True) s" for s
  proof (cases c)
    case (N_CONDN op l r)
    then have p: "plain_node l" "plain_node r" using 2(2) by simp_all
    have "wlp (bindM (interpretExpr tm r) (\<lambda>right. if sem_type left \<noteq> sem_type right then failM TYPE_ERR
        else retM \<lparr>sOp = op, sLeft = left, sRight = right\<rparr>))
        (\<lambda>b s'. aggr_free (sLeft b) \<and> aggr_free (sRight b)) (\<lambda>_ _. True) s" if "aggr_free left" for left s
      by (rule wlp_bindI [OF interpretExpr_free [OF p(2)]]) (use that in auto)
    then show ?thesis
      unfolding N_CONDN interpretCondn_def node.case
      by (intro wlp_bindI [OF interpretExpr_free [OF p(1)]]) auto
  qed (simp_all add: interpretCondn_def)
  have keeps: "wlp (interpretCondn tm c) (\<lambda>b s'. preds (qry s') = preds (qry s)) (\<lambda>_ _. True) s" for s
    by (rule within_wlp [OF part_condn [where f = preds]]) (simp_all add: same_part_def)
  show ?case unfolding interpretCondList.simps
  proof (rule wlp_bindI [OF wlp_conj [OF c keeps]])
    fix b :: sem_bexpr and s1 :: sem_state
    assume b: "(aggr_free (sLeft b) \<and> aggr_free (sRight b)) \<and> preds (qry s1) = preds (qry s)"
    have "wlp (interpretCondList tm nxt) (\<lambda>_ s'. free_preds (qry s')) (\<lambda>_ _. True)
        (s1\<lparr>qry := (qry s1)\<lparr>preds := preds (qry s1) @ [b]\<rparr>\<rparr>)" if "\<not> MAX_PRED \<le> length (preds (qry s1))"
      by (rule 2(1) [OF that]) (use 2(2,3) b in \<open>auto simp: free_preds_def\<close>)
    then show "wlp (bindM (readM qry) (\<lambda>q. if MAX_PRED \<le> length (preds q) then failM (- 1)
        else seqM (setQ (\<lambda>q. q\<lparr>preds := preds q @ [b]\<rparr>)) (interpretCondList tm nxt)))
        (\<lambda>_ s'. free_preds (qry s')) (\<lambda>_ _. True) s1" by simp
  qed simp
qed simp_all

section \<open>Queries\<close>

definition from_all :: "query \<Rightarrow> bool" where
  "from_all q \<longleftrightarrow> (qKind q = SFW_QUERY \<longrightarrow> {..<length (refTables q)} \<subseteq> set (fromClauseTables q) \<and> free_preds q)"

lemma interpretSFW_from:
  assumes "plain_query (N_CONT_QUERY (Some (N_SFW_BLOCK sel rels conds groups)) bin r2s)"
    and "distinct (map fst (symbolTable s))" and "map fst (symbolTable s) = rel_names (Some rels)"
    and "refTables (qry s) = map snd (symbolTable s)"
  shows "wlp (interpretSFW tm (N_SFW_BLOCK sel rels conds groups)) (\<lambda>_ s'. from_all (qry s')) (\<lambda>_ _. True) s"
proof -
  let ?s = "s\<lparr>qry := (qry s)\<lparr>fromClauseTables := [], winSpec := []\<rparr>\<rparr>"
  let ?rest = "\<lambda>q. (refTables q, fromClauseTables q)"
  let ?all = "\<lambda>q. {..<length (refTables q)} \<subseteq> set (fromClauseTables q)"
  have tail: "wlp (seqM (interpretGroupByClause tm groups) (interpretSelectClause tm sel)) (\<lambda>_ s'. from_all (qry s')) (\<lambda>_ _. True) s"
    if "?all (qry s)" "free_preds (qry s)" for s
  proof -
    have "within (same_part (\<lambda>q. (?rest q, preds q))) (seqM (interpretGroupByClause tm groups) (interpretSelectClause tm sel))"
      unfolding interpretGroupByClause_def by (intro steps part_modM) simp_all
    then show ?thesis
      by (rule within_wlp) (use that in \<open>simp_all add: same_part_def from_all_def free_preds_def\<close>)
  qed
  have cond: "wlp (interpretWhereClause tm conds) (\<lambda>_ s'. ?all (qry s') \<and> free_preds (qry s')) (\<lambda>_ _. True) s"
    if "?all (qry s)" for s
  proof -
    have "within (same_part ?rest) (interpretWhereClause tm conds)"
      unfolding interpretWhereClause_def by (intro steps part_modM) simp_all
    then have "wlp (interpretWhereClause tm conds) (\<lambda>_ s'. ?all (qry s')) (\<lambda>_ _. True) s"
      by (rule within_wlp) (use that in \<open>simp_all add: same_part_def\<close>)
    moreover have "wlp (interpretWhereClause tm conds) (\<lambda>_ s'. free_preds (qry s')) (\<lambda>_ _. True) s"
      using assms(1) unfolding interpretWhereClause_def
      by (simp, intro interpretCondList_free) (simp_all add: free_preds_def)
    ultimately show ?thesis by (rule wlp_mono [OF wlp_conj]) simp_all
  qed
  have "wlp (interpretFromList tm (Some rels) None) (\<lambda>_ s'. ?all (qry s')) (\<lambda>_ _. True) ?s"
  proof (rule wlp_mono [OF interpretFromList_vars])
    fix u :: unit and s' :: sem_state
    assume a: "same_part rest_part ?s s' \<and> (\<exists>vs. fromClauseTables (qry s') = fromClauseTables (qry ?s) @ vs \<and>
        map Some vs = map (var_of ?s) (rel_names (Some rels)))"
    then obtain vs where vs: "fromClauseTables (qry s') = vs" "map Some vs = map (var_of s) (map fst (symbolTable s))"
      using assms(3) by auto
    have "vs = [0 ..< length (symbolTable s)]" by (rule vars_in_order [OF assms(2) vs(2)])
    moreover have "refTables (qry s') = refTables (qry s)" using a by (simp add: same_part_def)
    ultimately show "?all (qry s')" using vs(1) assms(4) by (simp add: lessThan_atLeast0)
  qed simp
  then have "wlp (interpretFromClause tm (Some rels)) (\<lambda>_ s'. ?all (qry s')) (\<lambda>_ _. True) s"
    by (simp add: interpretFromClause_def)
  then show ?thesis
    unfolding interpretSFW_def node.case
    by (rule wlp_seqI, intro wlp_seqI [OF cond tail]) auto
qed

lemma interpretBin_from:
  "wlp (interpretQuery tm (N_CONT_QUERY None (Some b) r2s)) (\<lambda>_ s'. from_all (qry s')) (\<lambda>_ _. True) s"
proof -
  have "within (same_part qKind) (seqM (interpretR2SOp r2s) (interpretBinOp tm b))"
    by (intro steps) simp_all
  then have k: "wlp (seqM (interpretR2SOp r2s) (interpretBinOp tm b)) (\<lambda>_ s'. from_all (qry s')) (\<lambda>_ _. True) s"
    if "qKind (qry s) = BINARY_OP" for s
    by (rule within_wlp) (use that in \<open>simp_all add: same_part_def from_all_def\<close>)
  have "wlp (getReferencedTables tm (N_CONT_QUERY None (Some b) r2s)) (\<lambda>_ s'.
      wlp (seqM (interpretR2SOp r2s) (interpretBinOp tm b)) (\<lambda>_ s'. from_all (qry s')) (\<lambda>_ _. True)
      (s'\<lparr>qry := (qry s')\<lparr>qKind := BINARY_OP\<rparr>\<rparr>)) (\<lambda>_ _. True) s" for s
    by (rule wlp_mono [OF wlp_any]) (auto intro: k simp del: wlp_seqM)
  then show ?thesis
    by (simp add: interpretQuery_def resetExprs_def resetSymbolTable_def)
qed

text \<open>A query of a parse tree of the grammar.\<close>

lemma interpretQuery_from:
  assumes "wf_query t" and "plain_query t"
  shows "wlp (interpretQuery tm t) (\<lambda>_ s'. from_all (qry s')) (\<lambda>_ _. True) s"
proof (cases t rule: wf_query.cases)
  case (1 sfw r2s)
  then obtain sel rels conds groups where sfw: "sfw = N_SFW_BLOCK sel rels conds groups" using assms(1) by (cases sfw) auto
  let ?s = "s\<lparr>semNumExprs := 0, symbolTable := []\<rparr>"
  have tail: "wlp (seqM (interpretR2SOp r2s) (interpretSFW tm sfw)) (\<lambda>_ s'. from_all (qry s')) (\<lambda>_ _. True) s"
    if "distinct (map fst (symbolTable s)) \<and> map fst (symbolTable s) = rel_names (Some rels) \<and>
      refTables (qry s) = map snd (symbolTable s)" for s
  proof -
    have "within (same_part refTables) (interpretR2SOp r2s)" by (intro steps) simp_all
    then have "wlp (interpretR2SOp r2s) (\<lambda>_ s'. same_part refTables s s') (\<lambda>_ _. True) s"
      by (rule within_wlp) simp_all
    then show ?thesis unfolding sfw
      by (rule wlp_seqI, intro interpretSFW_from) (use that assms(2) 1 sfw in \<open>auto simp: same_part_def\<close>)
  qed
  have "wlp (addRelVars tm (Some rels)) (\<lambda>_ s'. wlp (seqM (interpretR2SOp r2s) (interpretSFW tm sfw))
      (\<lambda>_ s'. from_all (qry s')) (\<lambda>_ _. True)
      (s'\<lparr>qry := (qry s')\<lparr>refTables := map snd (symbolTable s'), qKind := SFW_QUERY\<rparr>\<rparr>)) (\<lambda>_ _. True) ?s"
    by (rule wlp_mono [OF addRelVars_names]) (auto intro!: tail simp del: wlp_seqM)
  then show ?thesis
    using 1 sfw by (simp add: interpretQuery_def getReferencedTables_def getSFWReferencedTables_def
      resetExprs_def resetSymbolTable_def)
next
  case (2 l r r2s)
  then show ?thesis using interpretBin_from by blast
next
  case (3 l r r2s)
  then show ?thesis using interpretBin_from by blast
qed (use assms in simp_all)

end
