(* ===== verification/Phy_Refs.thy ===== *)
theory Phy_Refs
  imports Phy_Tree Log_Gen Sem_From
begin

text \<open>
  Which queries have a physical plan: from conditions on the query itself (\<open>grounded\<close>) it follows
  that in the optimised logical plan every attribute occurs in an input of its operator and every
  cross product has two inputs (\<open>phys_ok\<close>).  The interpreter does not check these conditions.
\<close>

section \<open>The same columns\<close>

text \<open>Two schemas with the same attributes, in whatever order.\<close>

definition same_cols :: "lattr list \<Rightarrow> lattr list \<Rightarrow> bool" where
  "same_cols as bs \<longleftrightarrow> set as = set bs \<and> length as = length bs"

lemma same_cols_refl [simp]: "same_cols as as"
  by (simp add: same_cols_def)

lemma same_cols_trans: "same_cols as bs \<Longrightarrow> same_cols bs cs \<Longrightarrow> same_cols as cs"
  by (simp add: same_cols_def)

lemma same_cols_concat: "list_all2 same_cols ass bss \<Longrightarrow> same_cols (concat ass) (concat bss)"
  by (induction rule: list_all2_induct) (auto simp: same_cols_def)

lemma attr_in_set: "attr_in ass a \<longleftrightarrow> (\<exists>b\<in>set (concat ass). attr_eq a b)"
  by (auto simp: attr_in_def list_ex_iff)

lemma refs_in_set: "set as \<subseteq> set bs \<Longrightarrow> refs_in as e \<Longrightarrow> refs_in bs e"
  by (induction e) (auto simp: list_ex_iff)

lemma refs_in_cong: "set as = set bs \<Longrightarrow> refs_in as e = refs_in bs e"
  using refs_in_set [of as bs e] refs_in_set [of bs as e] by auto

lemma node_ok_cong:
  assumes "list_all2 same_cols ass bss" and "arity_ok k (length ass)"
  shows "node_ok k ass \<Longrightarrow> node_ok k bss"
proof -
  have set: "set (concat ass) = set (concat bss)"
    using same_cols_concat [OF assms(1)] by (simp only: same_cols_def)
  then have attr: "attr_in ass a = attr_in bss a" and ref: "refs_in (concat ass) e = refs_in (concat bss) e" for a e
    by (simp_all only: attr_in_set refs_in_cong [OF set])
  have len: "length ass = length bss" using assms(1) by (rule list_all2_lengthD)
  have nth: "length (ass ! i) = length (bss ! i)" if "i < length ass" for i
    using list_all2_nthD [OF assms(1) that] by (simp add: same_cols_def)
  show "node_ok k bss" if "node_ok k ass"
  proof (cases k)
    case (LO_GROUP_AGGR gs as)
    have "(hd ass = []) = (hd bss = [])"
      using nth [of 0] len by (cases ass; cases bss) auto
    then show ?thesis using that LO_GROUP_AGGR attr by (auto split: if_splits)
  next
    case (LO_SELECT b)
    then show ?thesis using that ref by (simp add: bexpr_ok_def)
  qed (use that attr ref len nth assms(2) in \<open>auto simp del: concat.simps\<close>)
qed

lemma out_attrs_cong:
  assumes "list_all2 same_cols ass bss"
  shows "same_cols (out_attrs tm k ass) (out_attrs tm k bss)"
proof -
  have c: "same_cols (concat ass) (concat bss)" by (rule same_cols_concat [OF assms])
  have h: "same_cols (map f (hd ass)) (map f (hd bss))" for f :: "lattr \<Rightarrow> lattr"
    using assms by (cases ass; cases bss) (auto simp: same_cols_def)
  show ?thesis using c h by (cases k) simp_all
qed

section \<open>All operators but the cross products\<close>

text \<open>
  \<open>open_at C tm t\<close>: all operators of \<open>t\<close> are as they should be, except for a cross product of a kind in
  \<open>C\<close>, on the way that the passes go down, which may have any number of inputs.
\<close>

fun open_at :: "lkind set \<Rightarrow> table_manager \<Rightarrow> kplan \<Rightarrow> bool" where
  "open_at C tm (KP k ts) \<longleftrightarrow>
    (if k \<in> C then \<forall>t\<in>set ts. phys_ok tm t
     else node_ok k (map (kattrs tm) ts) \<and>
       (if above_cross k then \<forall>t\<in>set ts. open_at C tm t else \<forall>t\<in>set ts. phys_ok tm t))"

lemma open_at_phys: "phys_ok tm t \<Longrightarrow> open_at C tm t"
  by (induction t) simp

lemma open_at_none: "open_at {} tm t \<Longrightarrow> phys_ok tm t"
proof (induction t)
  case (KP k ts)
  then show ?case by (cases "above_cross k") simp_all
qed

text \<open>A change at one place that keeps the columns and what holds there.\<close>

definition mends :: "lkind set \<Rightarrow> lkind set \<Rightarrow> table_manager \<Rightarrow> (kplan \<Rightarrow> kplan) \<Rightarrow> kplan \<Rightarrow> bool" where
  "mends C D tm f t \<longleftrightarrow> (kplan_ok tm t \<longrightarrow> open_at C tm t \<longrightarrow>
     open_at D tm (f t) \<and> same_cols (kattrs tm t) (kattrs tm (f t)))"

lemma mends_kp_at:
  assumes "\<And>t. tg (kroot t) \<Longrightarrow> mends C D tm f t"
    and "\<And>k. ps k \<Longrightarrow> above_cross k" and "\<And>k. k \<in> C \<Longrightarrow> k \<in> D \<or> tg k" and "D \<subseteq> C"
    and "\<And>k. k \<in> C \<Longrightarrow> \<not> above_cross k"
    and "\<And>k. above_cross k \<Longrightarrow> \<not> ps k \<Longrightarrow> \<not> tg k \<Longrightarrow> C = D"
  shows "mends C D tm (kp_at tg ps f) t"
proof (induction t)
  case (KP k ts)
  show ?case
  proof (cases "tg k")
    case True
    then show ?thesis using assms(1) [of "KP k ts"] by (simp add: mends_def)
  next
    case tg: False
    show ?thesis
    proof (cases "ps k")
      case False
      have "open_at D tm (KP k ts)" if "open_at C tm (KP k ts)"
      proof (cases "above_cross k")
        case True
        then have "C = D" by (rule assms(6) [OF _ False tg])
        then show ?thesis using that by simp
      next
        case no: False
        show ?thesis
        proof (cases "k \<in> C")
          case True
          then have "k \<in> D" using assms(3) tg by blast
          then show ?thesis using that True by simp
        next
          case False
          then have "k \<notin> D" using assms(4) by blast
          then show ?thesis using that False no by simp
        qed
      qed
      then show ?thesis using tg False by (simp add: mends_def del: open_at.simps kattrs_KP kplan_ok.simps)
    next
      case True
      then have k: "above_cross k" "k \<notin> C" "k \<notin> D" using assms(2,4,5) by blast+
      show ?thesis
      proof (cases ts)
        case Nil
        then show ?thesis using tg True k by (simp add: mends_def)
      next
        case (Cons t us)
        have IH: "mends C D tm (kp_at tg ps f) t" using KP Cons by simp
        have us: "us = []" "arity_ok k 1" if "kplan_ok tm (KP k ts)"
          using that Cons arity_ok_one [OF _ one_input_kinds(4) k(1), of "length ts"] by auto
        have "node_ok k [kattrs tm t']" if "node_ok k [kattrs tm t]" "same_cols (kattrs tm t) (kattrs tm t')" "arity_ok k 1" for t'
          using node_ok_cong [of "[kattrs tm t]" "[kattrs tm t']" k] that by simp
        moreover have "same_cols (kattrs tm (KP k [t])) (kattrs tm (KP k [t']))" if "same_cols (kattrs tm t) (kattrs tm t')" for t'
          using out_attrs_cong [of "[kattrs tm t]" "[kattrs tm t']" tm k] that by simp
        ultimately show ?thesis using tg True k Cons IH us by (auto simp: mends_def)
      qed
    qed
  qed
qed

lemma mends_trans: "mends A B tm f t \<Longrightarrow> (kplan_ok tm t \<Longrightarrow> kplan_ok tm (f t)) \<Longrightarrow> mends B C tm g (f t) \<Longrightarrow>
    mends A C tm (\<lambda>t. g (f t)) t"
  unfolding mends_def by (blast intro: same_cols_trans)

abbreviation crosses :: "lkind set" where
  "crosses \<equiv> {LO_CROSS, LO_STREAM_CROSS}"

lemma not_above_cross: "k \<in> crosses \<Longrightarrow> \<not> above_cross k"
  by (auto simp: above_cross_def is_xstream_def)

text \<open>What is below an operator that does not change the columns.\<close>

lemma mends_below:
  assumes "one_input (\<lambda>k. k = kroot t)" and "kplan_ok tm t \<Longrightarrow> same_cols (kattrs tm t) (kattrs tm (below t))"
    and "kroot t \<notin> C"
  shows "mends C C tm below t"
  unfolding mends_def
proof (intro impI)
  assume t: "kplan_ok tm t" "open_at C tm t"
  have "open_at C tm (KP (kroot t) [below t])"
    using t(2) unfolding root_below [OF t(1) assms(1), symmetric] .
  then have "open_at C tm (below t)" using assms(3) open_at_phys by (auto split: if_split_asm)
  then show "open_at C tm (below t) \<and> same_cols (kattrs tm t) (kattrs tm (below t))" using assms(2) t(1) by simp
qed

lemma attrs_below:
  assumes "kplan_ok tm t" and "one_input (\<lambda>k. k = kroot t)" and "\<And>as. out_attrs tm (kroot t) [as] = as"
  shows "kattrs tm (below t) = kattrs tm t"
proof -
  have "kattrs tm t = kattrs tm (KP (kroot t) [below t])" by (rule arg_cong [OF root_below [OF assms(1,2)]])
  also have "\<dots> = kattrs tm (below t)" using assms(3) by simp
  finally show ?thesis by (rule sym)
qed

section \<open>The passes\<close>

lemma mends_rstreamNow: "mends crosses crosses tm kp_rstreamNow K"
proof (cases "kroot K = LO_RSTREAM \<and> kp_find is_now pass_now (below K)")
  case True
  have one: "mends crosses crosses tm below t" if root: "kroot t = LO_NOW_WIN \<or> kroot t = LO_RSTREAM" for t
  proof (rule mends_below)
    show o: "one_input (\<lambda>k. k = kroot t)" using root by (auto simp: one_input_def)
    show "same_cols (kattrs tm t) (kattrs tm (below t))" if ok: "kplan_ok tm t"
    proof -
      have "kattrs tm (below t) = kattrs tm t" by (rule attrs_below [OF ok o]) (use root in auto)
      then show ?thesis by simp
    qed
  qed (use root in auto)
  have "mends crosses crosses tm (kp_at is_now pass_now below) (below K)"
    by (rule mends_kp_at) (use one not_above_cross in \<open>auto simp: is_now_def pass_now_def above_cross_def\<close>)
  moreover have "kplan_ok tm K \<Longrightarrow> kplan_ok tm (below K)"
    using True by (cases K; cases "ksubs K") auto
  ultimately have "mends crosses crosses tm (\<lambda>K. kp_at is_now pass_now below (below K)) K"
    using mends_trans [OF one [of K], of crosses "kp_at is_now pass_now below"] True by blast
  moreover have "kp_rstreamNow K = kp_at is_now pass_now below (below K)" using True by (simp add: kp_rstreamNow_def)
  ultimately show ?thesis unfolding mends_def by presburger
qed (auto simp: mends_def kp_rstreamNow_def)

lemma mends_removeProject: "mends crosses crosses tm (kp_removeProject tm) K"
  unfolding kp_removeProject_def
proof (rule mends_kp_at)
  fix t assume p: "is_project (kroot t)"
  have eq: "as = bs" if "list_all2 attr_eq as bs" for as bs
    using that
  proof (induction rule: list_all2_induct)
    case (Cons a as b bs)
    then show ?case by (cases a; cases b) auto
  qed simp
  have "mends crosses crosses tm below t" if "list_all2 attr_eq (kattrs tm t) (kattrs tm (below t))"
    using p eq [OF that] by (intro mends_below) (auto simp: one_input_def is_kind_cases)
  then show "mends crosses crosses tm (drop_useless tm) t" by (simp add: mends_def drop_useless_def)
qed (use not_above_cross in \<open>auto simp: pass_project_def above_cross_def\<close>)

lemma mends_to_scross:
  assumes "is_cross (kroot t)"
  shows "mends crosses crosses tm to_scross t"
  unfolding mends_def
proof (intro impI)
  assume ok: "kplan_ok tm t" "open_at crosses tm t"
  show "open_at crosses tm (to_scross t) \<and> same_cols (kattrs tm t) (kattrs tm (to_scross t))"
  proof (cases "now_index t")
    case None
    then show ?thesis using ok by (simp add: to_scross_def)
  next
    case (Some n)
    obtain ks where t: "t = KP LO_CROSS ks" using assms by (cases t) (simp add: is_cross_def)
    have n: "n < length ks" "kroot (ks ! n) = LO_NOW_WIN"
      using Some t by (auto simp: now_index_def find_first_Some)
    have okn: "kplan_ok tm (ks ! n)" "phys_ok tm (ks ! n)" using ok t n by auto
    have o: "one_input (\<lambda>k. k = kroot (ks ! n))" using n(2) by (simp add: one_input_def)
    have "phys_ok tm (KP LO_NOW_WIN [below (ks ! n)])"
      using okn(2) unfolding n(2) [symmetric] root_below [OF okn(1) o, symmetric] .
    then have phys: "phys_ok tm (below (ks ! n))" by simp
    have now: "kattrs tm (below (ks ! n)) = kattrs tm (ks ! n)" by (rule attrs_below [OF okn(1) o]) (simp add: n(2))
    have "kattrs tm t = concat (map (kattrs tm) (take n ks @ ks ! n # drop (Suc n) ks))"
      unfolding t id_take_nth_drop [OF n(1), symmetric] by simp
    then have "same_cols (kattrs tm t) (kattrs tm (to_scross t))"
      using Some t now by (simp add: to_scross_def same_cols_def Un_ac)
    moreover have "open_at crosses tm (to_scross t)"
      using ok(2) Some t phys by (auto simp: to_scross_def dest: in_set_takeD in_set_dropD)
    ultimately show ?thesis by simp
  qed
qed

lemma mends_streamCross: "mends crosses crosses tm kp_streamCross K"
proof (cases "kroot K = LO_RSTREAM \<and> has_now_cross (below K)")
  case True
  have one: "mends crosses crosses tm below K"
  proof (rule mends_below)
    show o: "one_input (\<lambda>k. k = kroot K)" using True by (simp add: one_input_def)
    show "same_cols (kattrs tm K) (kattrs tm (below K))" if ok: "kplan_ok tm K"
    proof -
      have "kattrs tm (below K) = kattrs tm K" by (rule attrs_below [OF ok o]) (simp add: True)
      then show ?thesis by simp
    qed
  qed (simp add: True)
  have "mends crosses crosses tm (kp_at is_cross pass_scross to_scross) (below K)"
    by (rule mends_kp_at) (use mends_to_scross not_above_cross in \<open>auto simp: pass_scross_def above_cross_def\<close>)
  moreover have "kplan_ok tm K \<Longrightarrow> kplan_ok tm (below K)"
    using True by (cases K; cases "ksubs K") auto
  ultimately have "mends crosses crosses tm (\<lambda>K. kp_at is_cross pass_scross to_scross (below K)) K"
    using mends_trans [OF one, of crosses "kp_at is_cross pass_scross to_scross"] by blast
  moreover have "kp_streamCross K = kp_at is_cross pass_scross to_scross (below K)"
    using True by (simp add: kp_streamCross_def)
  ultimately show ?thesis unfolding mends_def by presburger
qed (auto simp: mends_def kp_streamCross_def)

text \<open>Nested cross products have two inputs each.\<close>

lemma nest_phys:
  assumes "k \<in> crosses" and "2 \<le> length ts" and "\<forall>t\<in>set ts. phys_ok tm t"
  shows "phys_ok tm (nest (KP k ts)) \<and> kattrs tm (nest (KP k ts)) = kattrs tm (KP k ts)"
proof -
  have out: "out_attrs tm k ass = concat ass" for ass using assms(1) by auto
  obtain t u us where ts: "ts = t # u # us" using assms(2) by (cases ts; cases "tl ts") auto
  have "phys_ok tm (foldl (\<lambda>acc x. KP k [acc, x]) a us) \<and>
      kattrs tm (foldl (\<lambda>acc x. KP k [acc, x]) a us) = kattrs tm a @ concat (map (kattrs tm) us)"
    if "phys_ok tm a" "\<forall>t\<in>set us. phys_ok tm t" for a us
    using that
  proof (induction us arbitrary: a)
    case (Cons x us)
    have "phys_ok tm (KP k [a, x])" using Cons.prems assms(1) by auto
    then show ?case using Cons.IH [of "KP k [a, x]"] Cons.prems(2) out by simp
  qed simp
  moreover have "phys_ok tm (KP k [t, u])" using assms(1,3) ts by auto
  ultimately show ?thesis using assms(3) ts out by simp
qed

lemma mends_nest:
  assumes "kroot t \<in> crosses" and "kroot t \<in> C"
  shows "mends C D tm nest t"
proof (cases t)
  case (KP k ts)
  have "phys_ok tm (nest t) \<and> kattrs tm (nest t) = kattrs tm t" if "kplan_ok tm t" "open_at C tm t"
    unfolding KP by (rule nest_phys) (use that assms KP in auto)
  then show ?thesis using open_at_phys by (auto simp: mends_def)
qed

lemma mends_crossBinary: "mends crosses {LO_STREAM_CROSS} tm kp_crossBinary K"
  unfolding kp_crossBinary_def
  by (rule mends_kp_at) (use mends_nest not_above_cross in \<open>auto simp: is_cross_def\<close>)

lemma mends_streamCrossBinary: "mends {LO_STREAM_CROSS} {} tm kp_streamCrossBinary K"
  unfolding kp_streamCrossBinary_def
  by (rule mends_kp_at) (use mends_nest not_above_cross in \<open>auto simp: is_scross_def\<close>)

subsection \<open>Selections\<close>

lemma select_node_ok: "node_ok (LO_SELECT b) [as] \<longleftrightarrow> lbLeft b \<noteq> None \<and> lbRight b \<noteq> None \<and> brefs_in as b"
  by (auto simp: bexpr_ok_def brefs_in_def)

lemma kp_push_phys:
  "kplan_ok tm t \<Longrightarrow> phys_ok tm t \<Longrightarrow> lbLeft b \<noteq> None \<Longrightarrow> lbRight b \<noteq> None \<Longrightarrow> brefs_in (kattrs tm t) b \<Longrightarrow>
    phys_ok tm (kp_push tm b t)"
  "\<forall>t\<in>set ts. kplan_ok tm t \<and> phys_ok tm t \<Longrightarrow> lbLeft b \<noteq> None \<Longrightarrow> lbRight b \<noteq> None \<Longrightarrow>
    \<forall>t\<in>set (kp_push_at tm b ts). phys_ok tm t"
proof (induction tm b t and tm b ts rule: kp_push_kp_push_at.induct)
  case (1 tm b k ts)
  have sel: "select_ok (LO_SELECT b)" using 1 by simp
  have here: "phys_ok tm (KP (LO_SELECT b) [KP k ts])"
    using 1 by (simp add: select_node_ok del: node_ok.simps kattrs_KP)
  show ?case
  proof (cases "is_select k")
    case True
    then obtain c where k: "k = LO_SELECT c" by (auto simp: is_kind_cases)
    then obtain t where ts: "ts = [t]" using "1.prems"(1) by (cases ts) auto
    have a: "kattrs tm (kp_push tm b t) = kattrs tm t"
      using kp_push_keeps(1) [OF _ sel, of tm t] "1.prems"(1) ts by (simp add: keeps_def)
    have "phys_ok tm (kp_push tm b t)" using 1 True k ts by simp
    then show ?thesis using "1.prems"(2) k ts a by simp
  next
    case False
    show ?thesis
    proof (cases "(k = LO_CROSS \<or> k = LO_STREAM_CROSS) \<and> (\<exists>t\<in>set ts. brefs_in (kattrs tm t) b)")
      case True
      have "list_all2 (keeps tm) ts (kp_push_at tm b ts)"
        using kp_push_keeps(2) [OF _ sel, of ts tm] "1.prems"(1) by simp
      then have l: "length (kp_push_at tm b ts) = length ts" by (metis list_all2_lengthD)
      have ps: "\<forall>t\<in>set ts. kplan_ok tm t \<and> phys_ok tm t" using "1.prems"(1,2) by simp
      have "\<forall>t\<in>set (kp_push_at tm b ts). phys_ok tm t"
        by (rule "1.IH"(2) [OF False True ps "1.prems"(3,4)])
      moreover have "kp_push tm b (KP k ts) = KP k (kp_push_at tm b ts)"
        unfolding kp_push.simps if_not_P [OF False] if_P [OF True] ..
      moreover have "node_ok k (map (kattrs tm) (kp_push_at tm b ts))" using "1.prems"(2) True l by auto
      ultimately show ?thesis by simp
    next
      case no: False
      have "kp_push tm b (KP k ts) = KP (LO_SELECT b) [KP k ts]"
        unfolding kp_push.simps if_not_P [OF False] if_not_P [OF no] ..
      then show ?thesis using here by simp
    qed
  qed
qed auto

lemma kp_pushAll_phys: "kplan_ok tm t \<Longrightarrow> phys_ok tm t \<Longrightarrow> phys_ok tm (kp_pushAll tm t)"
proof (induction tm t rule: kp_pushAll.induct)
  case (1 tm k ts)
  show ?case
  proof (cases "is_select k")
    case True
    then obtain b where k: "k = LO_SELECT b" by (auto simp: is_kind_cases)
    then obtain t where ts: "ts = [t]" using 1(3) by (cases ts) auto
    have t: "kplan_ok tm t" "phys_ok tm t" using 1(3,4) ts by simp_all
    have b: "lbLeft b \<noteq> None" "lbRight b \<noteq> None" "brefs_in (kattrs tm t) b"
      using 1(4) select_node_ok [of b "kattrs tm t"] by (simp_all add: k ts del: node_ok.simps)
    show ?thesis
    proof (cases "passes_cross tm b t")
      case True
      have "kplan_ok tm (kp_push tm b t)" using kp_push_keeps(1) [OF t(1)] b(1,2) by (simp add: keeps_def)
      then show ?thesis using 1(1) kp_push_phys(1) [OF t b] True k ts by simp
    next
      case False
      have "kattrs tm (kp_pushAll tm t) = kattrs tm t" using kp_pushAll_keeps [OF t(1)] by (simp add: keeps_def)
      then show ?thesis using 1(2,4) t False k ts by simp
    qed
  qed (use 1 in simp)
qed

lemma kp_pushSelect_phys: 
  assumes "kplan_ok tm t" and "phys_ok tm t"
  shows "phys_ok tm (kp_pushSelect tm t)"
proof -
  have "mends {} {} tm (kp_at is_select pass_push (kp_pushAll tm)) t"
  proof (rule mends_kp_at)
    fix t show "mends {} {} tm (kp_pushAll tm) t"
      using kp_pushAll_phys kp_pushAll_keeps [of tm t] open_at_none open_at_phys by (auto simp: mends_def keeps_def)
  qed (auto simp: pass_push_def above_cross_def)
  then show ?thesis
    using assms open_at_none open_at_phys by (auto simp: mends_def kp_pushSelect_def)
qed

text \<open>All passes, one after the other.\<close>

lemma logical_phys:
  assumes "kplan_ok tm (naive_kplan tm q)" and "open_at crosses tm (naive_kplan tm q)"
  shows "phys_ok tm (logical_kplan tm q)"
proof -
  let ?K1 = "kp_rstreamNow (naive_kplan tm q)"
  let ?K2 = "kp_streamCross ?K1"
  let ?K3 = "kp_removeProject tm ?K2"
  let ?K4 = "kp_crossBinary ?K3"
  let ?K5 = "kp_streamCrossBinary ?K4"
  have ok1: "kplan_ok tm ?K1" using kp_rstreamNow_ok [OF assms(1)] by (simp add: keeps_def)
  have ok2: "kplan_ok tm ?K2" by (rule kp_streamCross_ok [OF ok1])
  have ok3: "kplan_ok tm ?K3" using kp_removeProject_ok [OF ok2] by (simp add: keeps_def)
  have ok4: "kplan_ok tm ?K4" using kp_crossBinary_ok [OF ok3] by (simp add: keeps_def)
  have ok5: "kplan_ok tm ?K5" using kp_streamCrossBinary_ok [OF ok4] by (simp add: keeps_def)
  have "open_at crosses tm ?K1" using mends_rstreamNow assms unfolding mends_def by blast
  then have "open_at crosses tm ?K2" using mends_streamCross ok1 unfolding mends_def by blast
  then have "open_at crosses tm ?K3" using mends_removeProject ok2 unfolding mends_def by blast
  then have "open_at {LO_STREAM_CROSS} tm ?K4" using mends_crossBinary ok3 unfolding mends_def by blast
  then have "open_at {} tm ?K5" using mends_streamCrossBinary ok4 unfolding mends_def by blast
  then show ?thesis
    unfolding logical_kplan_def by (intro kp_pushSelect_phys ok5 open_at_none)
qed

section \<open>The naive plan\<close>

text \<open>The attributes of an expression outside aggregations.\<close>

fun plain_attrs :: "sem_expr \<Rightarrow> sem_attr list" where
  "plain_attrs (SE_ATTR t a) = [a]"
| "plain_attrs (SE_COMP t op l r) = plain_attrs l @ plain_attrs r"
| "plain_attrs _ = []"

fun single_attr :: "sem_expr \<Rightarrow> bool" where
  "single_attr (SE_ATTR t a) = True"
| "single_attr (SE_AGGR t fn a) = True"
| "single_attr _ = False"

text \<open>
  The queries that have a physical plan: a window is partitioned by attributes of its own stream; if
  there are aggregations or groups, then every attribute that is projected outside an aggregation
  is a group attribute; a projected string is an attribute or an aggregation.
\<close>

definition grounded :: "query \<Rightarrow> bool" where
  "grounded q \<longleftrightarrow> (qKind q = SFW_QUERY \<longrightarrow>
     (\<forall>i<length (fromClauseTables q). \<forall>n as. winSpec q ! i = Some (WS_PARTITION n as) \<longrightarrow>
        (\<forall>a\<in>set as. sVarId a = fromClauseTables q ! i)) \<and>
     (np_aggrs q \<noteq> [] \<or> gbyAttrs q \<noteq> [] \<longrightarrow>
        (\<forall>e\<in>set (projExprs q). set (plain_attrs e) \<subseteq> set (gbyAttrs q))) \<and>
     (\<forall>e\<in>set (projExprs q). sem_type e = T_CHAR \<longrightarrow> single_attr e))"

text \<open>The attributes of a table and of the join.\<close>

lemma kp_table_cols: "kattrs tm (kp_table tm q i) = source_attrs (fromClauseTables q ! i)
     (refTables q ! (fromClauseTables q ! i)) (table_width tm q i)"
proof -
  have "kattrs tm (kp_window q w t) = kattrs tm t" for w t by (cases w) simp_all
  then show ?thesis
    by (auto simp: kp_table_def Let_def kp_source_def table_width_def split: option.splits)
qed

lemma attr_eq_named: "attr_eq (nattr q a) b \<longleftrightarrow> b = nattr q a"
  by (cases b) (auto simp: nattr_def)

lemma attr_eq_aggr: "attr_eq (aggr_attr fn (nattr q a)) b \<longleftrightarrow> b = aggr_attr fn (nattr q a)"
  by (cases b) (auto simp: nattr_def)

lemma table_has:
  assumes "sattr_ok tm (refTables q) a" and "sVarId a = fromClauseTables q ! i"
  shows "nattr q a \<in> set (kattrs tm (kp_table tm q i))"
  using assms by (auto simp: kp_table_cols source_attrs_def nattr_def table_width_def sattr_ok_def attr_valid_def)

lemma kp_join_cols:
  assumes "fromClauseTables q \<noteq> []"
  shows "kattrs tm (kp_join tm q) = concat (map (\<lambda>i. kattrs tm (kp_table tm q i)) [0 ..< length (fromClauseTables q)])"
proof (cases "length (fromClauseTables q) > 1")
  case False
  then have "length (fromClauseTables q) = 1" using assms by (cases "fromClauseTables q") auto
  then show ?thesis by (simp add: kp_join_def)
qed (simp add: kp_join_def Let_def comp_def)

lemma join_has:
  assumes "sattr_ok tm (refTables q) a" and "{..<length (refTables q)} \<subseteq> set (fromClauseTables q)"
    and "fromClauseTables q \<noteq> []"
  shows "nattr q a \<in> set (kattrs tm (kp_join tm q))"
proof -
  have "sVarId a \<in> set (fromClauseTables q)" using assms(1,2) by (auto simp: sattr_ok_def)
  then obtain i where i: "i < length (fromClauseTables q)" "sVarId a = fromClauseTables q ! i"
    by (metis in_set_conv_nth)
  then show ?thesis using table_has [OF assms(1) i(2)] by (auto simp: kp_join_cols [OF assms(3)])
qed

lemma kp_table_phys:
  assumes "from_ok tm q" and "i < length (fromClauseTables q)"
    and "\<forall>n as. winSpec q ! i = Some (WS_PARTITION n as) \<longrightarrow> (\<forall>a\<in>set as. sVarId a = fromClauseTables q ! i)"
  shows "phys_ok tm (kp_table tm q i)"
proof -
  let ?s = "kp_source tm (fromClauseTables q ! i) (refTables q ! (fromClauseTables q ! i))"
  have src: "phys_ok tm ?s" by (simp add: kp_source_def)
  have cols: "kattrs tm ?s = kattrs tm (kp_table tm q i)"
    by (simp add: kp_table_cols) (simp add: kp_source_def table_width_def)
  have "phys_ok tm (kp_window q w ?s)"
    if w: "winSpec q ! i = Some w" "tblIsStream (tableList tm ! (refTables q ! (fromClauseTables q ! i)))" for w
  proof (cases w)
    case (WS_PARTITION n as)
    have "win_ok tm (refTables q) w" using assms(1,2) w by (auto simp: from_ok_def)
    then have "length as \<le> MAX_PARTN_ATTRS" "\<forall>a\<in>set as. nattr q a \<in> set (kattrs tm ?s)"
      using WS_PARTITION assms(3) w(1) table_has [of tm q _ i] unfolding cols by auto
    then show ?thesis
      using src WS_PARTITION
      by (auto simp: attr_in_set attr_eq_named MAX_PARTN_ATTRS_def LOP_GROUP_ATTRS_def)
  qed (use src in simp_all)
  then show ?thesis using src by (auto simp: kp_table_def Let_def split: option.splits)
qed

lemma kp_selects_cols [simp]: "kattrs tm (kp_selects bs t) = kattrs tm t"
  by (induction bs arbitrary: t) (simp_all add: kp_selects_def)

lemma kp_selects_open:
  "open_at crosses tm t \<Longrightarrow> \<forall>b\<in>set bs. node_ok (LO_SELECT b) [kattrs tm t] \<Longrightarrow> open_at crosses tm (kp_selects bs t)"
proof (induction bs arbitrary: t)
  case (Cons b bs)
  have "above_cross (LO_SELECT b)" by (simp add: above_cross_def)
  then have "open_at crosses tm (KP (LO_SELECT b) [t])" using Cons.prems by simp
  then show ?case using Cons.IH [of "KP (LO_SELECT b) [t]"] Cons.prems(2) by (simp add: kp_selects_def)
qed (simp add: kp_selects_def)

text \<open>Expressions without aggregations, and expressions over the result of an aggregation.\<close>

lemma refs_plain:
  assumes "sem_wt tm (refTables q) e" and "aggr_free e"
    and "\<And>a. sattr_ok tm (refTables q) a \<Longrightarrow> nattr q a \<in> set as"
  shows "refs_in as (np_expr q e)"
  using assms by (induction e) (auto simp: list_ex_iff attr_eq_named)

lemma np_collect_set: "set (np_collect q e acc) = set acc \<union> set (np_collect q e [])"
proof (induction e arbitrary: acc)
  case (SE_COMP t op l r)
  have "set (np_collect q r (np_collect q l acc)) = set acc \<union> set (np_collect q l []) \<union> set (np_collect q r [])" for acc
    using SE_COMP(1) [of acc] SE_COMP(2) [of "np_collect q l acc"] by blast
  from this [of acc] this [of "[]"] show ?case by (simp add: Un_assoc)
qed auto

lemma np_aggrs_set: "set (np_aggrs q) = (\<Union>e\<in>set (projExprs q). set (np_collect q e []))"
proof -
  have "set (fold (np_collect q) es acc) = set acc \<union> (\<Union>e\<in>set es. set (np_collect q e []))" for es acc
  proof (induction es arbitrary: acc)
    case (Cons e es)
    then show ?case using np_collect_set [of q e acc] by auto
  qed simp
  then show ?thesis by (simp add: np_aggrs_def)
qed

lemma refs_grouped:
  assumes "set (plain_attrs e) \<subseteq> set (gbyAttrs q)" and "set (np_collect q e []) \<subseteq> set ags"
    and "as = map (nattr q) (gbyAttrs q) @ map (\<lambda>(a, fn). aggr_attr fn a) ags"
  shows "refs_in as (np_expr q e)"
  using assms(1,2)
proof (induction e)
  case (SE_COMP t op l r)
  then show ?case using np_collect_set [of q r "np_collect q l []"] by simp
qed (use assms(3) in \<open>auto simp: list_ex_iff attr_eq_named attr_eq_aggr\<close>)

lemma collect_attrs:
  assumes "sem_wt tm (refTables q) e"
  shows "(a, fn) \<in> set (np_collect q e []) \<Longrightarrow> \<exists>x. a = nattr q x \<and> sattr_ok tm (refTables q) x"
  using assms
proof (induction e)
  case (SE_COMP t op l r)
  then show ?case using np_collect_set [of q r "np_collect q l []"] by auto
qed auto

lemma collect_none: "np_collect q e [] = [] \<longleftrightarrow> aggr_free e"
proof (induction e)
  case (SE_COMP t op l r)
  have "(np_collect q r (np_collect q l []) = []) = (set (np_collect q r (np_collect q l [])) = {})" by simp
  then show ?case using SE_COMP np_collect_set [of q r "np_collect q l []"] by simp
qed auto

lemma np_expr_char:
  assumes "sem_wt tm refs e" and "sem_type e = T_CHAR \<longrightarrow> single_attr e"
  shows "char_ok (np_expr q e)"
proof (cases e)
  case (SE_COMP t op l r)
  have "lexpr_type (np_expr q e) = sem_type e" if "sem_wt tm refs e" for e
    using that by (induction e) auto
  then show ?thesis using assms SE_COMP by (auto simp: char_ok_def)
next
  case (SE_CONST c)
  then show ?thesis using assms by (cases c) (simp_all add: char_ok_def)
qed (use assms in \<open>auto simp: char_ok_def\<close>)

lemma kp_sfw_open:
  assumes "tm_nonempty tm" and "query_ok tm q" and "qKind q = SFW_QUERY" and "grounded q" and "plan_fits q" and "from_all q"
  shows "open_at crosses tm (kp_sfw tm q)"
proof -
  note q = assms(2) [unfolded query_ok_def]
  note g = assms(4) [unfolded grounded_def, rule_format, OF assms(3)]
    and f = assms(6) [unfolded from_all_def, rule_format, OF assms(3)]
  let ?J = "kp_join tm q" and ?S = "kp_selects (map (np_bexpr q) (preds q)) (kp_join tm q)"
  have frm: "from_ok tm q" "fromClauseTables q \<noteq> []" "refs_ok tm (refTables q)" using q assms(3) by simp_all
  have tab: "phys_ok tm (kp_table tm q i)" if "i < length (fromClauseTables q)" for i
    using g that by (intro kp_table_phys frm) auto
  then have J: "open_at crosses tm ?J"
    using frm(2) by (auto simp: kp_join_def Let_def intro!: open_at_phys)
  have has: "nattr q a \<in> set (kattrs tm ?J)" if "sattr_ok tm (refTables q) a" for a
    using f that frm by (intro join_has) auto
  have "node_ok (LO_SELECT (np_bexpr q b)) [kattrs tm ?J]" if "b \<in> set (preds q)" for b
    using that q f assms(3) has by (auto simp: free_preds_def np_bexpr_def bexpr_ok_def bexpr_wt_def intro!: refs_plain)
  then have S: "open_at crosses tm ?S" using kp_selects_open [OF J] by simp
  have wt: "\<forall>e\<in>set (projExprs q). sem_wt tm (refTables q) e" using q assms(3) by simp
  have A: "open_at crosses tm (kp_aggr q ?S) \<and>
      (\<forall>e\<in>set (projExprs q). refs_in (kattrs tm (kp_aggr q ?S)) (np_expr q e))"
  proof (cases "np_aggrs q = [] \<and> gbyAttrs q = []")
    case True
    then have "aggr_free e" if "e \<in> set (projExprs q)" for e
      using that np_aggrs_set [of q] collect_none [of q e] by auto
    then show ?thesis using True S wt has by (auto simp: kp_aggr_def intro!: refs_plain)
  next
    case False
    have ne: "kattrs tm ?J \<noteq> []"
    proof -
      have "0 < length (fromClauseTables q)" using frm(2) by simp
      then have "refTables q ! (fromClauseTables q ! 0) < length (tableList tm)"
        using frm(1,3) by (simp add: from_ok_def refs_ok_def)
      then have "0 < table_width tm q 0" using assms(1) by (simp add: table_width_def tm_nonempty_def)
      then have "kattrs tm (kp_table tm q 0) \<noteq> []" by (simp add: kp_table_cols source_attrs_def)
      then show ?thesis using frm(2) by (force simp: kp_join_cols)
    qed
    have small: "length (np_aggrs q) \<le> MAX_AGGR_ATTRS" "length (gbyAttrs q) \<le> LOP_GROUP_ATTRS"
      using assms(5) by (simp_all add: plan_fits_def MAX_AGGR_ATTRS_def LOP_GROUP_ATTRS_def MAX_ATTRS_def)
    have "nattr q a \<in> set (kattrs tm ?S)" if "a \<in> set (gbyAttrs q)" for a
      using that q assms(3) has by simp
    moreover have "a \<in> set (kattrs tm ?S) \<and> (\<exists>x. a = nattr q x)" if af: "(a, fn) \<in> set (np_aggrs q)" for a fn
    proof -
      obtain e where "e \<in> set (projExprs q)" "(a, fn) \<in> set (np_collect q e [])" using af by (auto simp: np_aggrs_set)
      then obtain x where "a = nattr q x" "sattr_ok tm (refTables q) x" using wt collect_attrs by blast
      then show ?thesis using has by auto
    qed
    ultimately have "node_ok (LO_GROUP_AGGR (map (nattr q) (gbyAttrs q)) (np_aggrs q)) [kattrs tm ?S]"
      using small ne by (fastforce simp: attr_in_set attr_eq_named)
    moreover have "refs_in (kattrs tm (kp_aggr q ?S)) (np_expr q e)" if "e \<in> set (projExprs q)" for e
    proof (rule refs_grouped)
      show "set (plain_attrs e) \<subseteq> set (gbyAttrs q)" using g False that by blast
      show "set (np_collect q e []) \<subseteq> set (np_aggrs q)" using that by (auto simp: np_aggrs_set)
      show "kattrs tm (kp_aggr q ?S) = map (nattr q) (gbyAttrs q) @ map (\<lambda>(a, fn). aggr_attr fn a) (np_aggrs q)"
        using False by (auto simp: kp_aggr_def)
    qed
    ultimately show ?thesis using False S by (auto simp: kp_aggr_def above_cross_def)
  qed
  have "char_ok (np_expr q e)" if "e \<in> set (projExprs q)" for e
    using g that wt by (intro np_expr_char) auto
  then show ?thesis using A by (auto simp: kp_sfw_def kp_distinct_def above_cross_def)
qed

lemma naive_open:
  assumes "tm_nonempty tm" and "query_ok tm q" and "grounded q" and "from_all q" and "qKind q = SFW_QUERY \<longrightarrow> plan_fits q"
  shows "open_at crosses tm (naive_kplan tm q)"
proof -
  have "open_at crosses tm (if qKind q = SFW_QUERY then kp_sfw tm q else kp_binop tm q)"
  proof (cases "qKind q = SFW_QUERY")
    case True
    then show ?thesis using kp_sfw_open assms by simp
  next
    case False
    then have "qKind q = BINARY_OP" by (cases "qKind q") auto
    then obtain t1 t2 where r: "refTables q = [t1, t2]"
      "map attrType (attrList (tableList tm ! t1)) = map attrType (attrList (tableList tm ! t2))"
      using assms(2) by (auto simp: query_ok_def)
    have "length (attrList (tableList tm ! t1)) = length (attrList (tableList tm ! t2))"
      using r(2) by (metis length_map)
    moreover have "kattrs tm (kp_source tm v t) = source_attrs v t (length (attrList (tableList tm ! t)))"
        "phys_ok tm (kp_source tm v t)" for v t by (simp_all add: kp_source_def)
    ultimately show ?thesis
      using False r(1) by (auto simp: kp_binop_def source_attrs_def split: option.splits binary_op.splits intro!: open_at_phys)
  qed
  then show ?thesis
    by (auto simp: naive_kplan_def kp_r2s_def above_cross_def is_xstream_def split: option.splits r2s_op.splits)
qed

text \<open>A grounded query has a physical plan.\<close>

lemma grounded_phys:
  assumes "tm_ok tm" and "tm_nonempty tm" and "query_ok tm q" and "grounded q" and "from_all q"
    and "qKind q = SFW_QUERY \<longrightarrow> plan_fits q \<and> join_width tm q \<le> MAX_ATTRS"
  shows "phys_ok tm (logical_kplan tm q)"
  using assms by (intro logical_phys naive_kplan_ok naive_open) auto

end
