(* ===== verification/Phy_Spec.thy ===== *)
theory Phy_Spec
  imports Plan_Facts Log_Spec Phy_Refs
begin

text \<open>
  What the plan manager promises: the pool of operators is a pair of lists, and the generator of
  physical plans builds the plan that \<open>phy_of\<close> computes, or fails because something is full.
\<close>

section \<open>The pool of operators\<close>

text \<open>Whatever the memory holds when a plan manager is created, afterwards the pool is in order:
  operator 0 is the generator of the system stream, all others are free, in the order of their
  positions, and every pool and table of the manager is empty.\<close>
theorem newPlanManagerImpl_initialises:
  "wp newPlanManagerImpl (\<lambda>_. new_manager) (\<lambda>_ _. False) s"
  by (rule newPlanManagerImpl_wp)

text \<open>An operator that is taken from the pool and given back leaves the lists of free and of used
  operators as they were; taking operators one after the other yields them in the order of the
  list, as long as one remains free.\<close>
theorem ops_round_trip:
  assumes "pool s (a # b # fs) us"
  shows "wp (bindM (new_op k) (\<lambda>r. bindM (derefM r) free_op)) (\<lambda>_ s'. pool s' (a # b # fs) us) (\<lambda>_ _. False) s \<and>
    (\<forall>ks. length ks = Suc (length fs) \<longrightarrow> wp (mapM new_op ks)
       (\<lambda>rs s'. rs = map Some (a # butlast (b # fs)) \<and> pool s' [last (b # fs)] (rev (a # butlast (b # fs)) @ us)) (\<lambda>_ _. False) s)"
proof (intro conjI allI impI)
  show "wp (bindM (new_op k) (\<lambda>r. bindM (derefM r) free_op)) (\<lambda>_ s'. pool s' (a # b # fs) us) (\<lambda>_ _. False) s"
    by (rule ops.alloc_release [OF assms])
  fix ks :: "pkind list"
  assume "length ks = Suc (length fs)"
  then show "wp (mapM new_op ks)
       (\<lambda>rs s'. rs = map Some (a # butlast (b # fs)) \<and> pool s' [last (b # fs)] (rev (a # butlast (b # fs)) @ us)) (\<lambda>_ _. False) s"
    using assms by (intro ops.alloc_list) (simp_all del: butlast.simps last.simps)
qed

text \<open>A state with the operators of a new manager.\<close>

lemma new_manager_exists: "\<exists>s. new_manager s"
  using wp_success [OF newPlanManagerImpl_wp] by blast

theorem ops_round_trip_witness:
  "\<exists>s. new_manager s \<and>
     wp (bindM (new_op PO_SINK) (\<lambda>r. bindM (derefM r) free_op)) (\<lambda>_ s'. pool s' [1 ..< P_MAX_OPS] [0]) (\<lambda>_ _. False) s"
proof -
  obtain s where s: "new_manager s" using new_manager_exists by blast
  have "1 < P_MAX_OPS" "2 < P_MAX_OPS" by (simp_all add: P_MAX_OPS_def)
  then have up: "[1 ..< P_MAX_OPS] = 1 # 2 # [3 ..< P_MAX_OPS]"
    by (simp add: upt_conv_Cons numeral_2_eq_2 numeral_3_eq_3)
  then have "pool s (1 # 2 # [3 ..< P_MAX_OPS]) [0]" using s by (simp add: new_manager_def)
  from ops_round_trip [OF this, of PO_SINK] show ?thesis using s up by metis
qed

text \<open>C21: With one free operator left, \<open>new_op\<close> has undefined behaviour: it takes the operator and
  writes to its successor in the list, which does not exist.  The 5000th operator is never
  returned, and the check for an empty list, on which every caller relies, comes too late.\<close>
theorem new_op_at_capacity:
  assumes "pool s [a] us"
  shows "new_op k s = Undef"
  by (rule new_op_last [OF assms])

theorem new_op_at_capacity_witness:
  "\<exists>s us. pool s [P_MAX_OPS - 1] us \<and> new_op PO_SINK s = Undef"
proof -
  obtain s where "new_manager s" using new_manager_exists by blast
  moreover have "1 < P_MAX_OPS" "1 < P_MAX_OPS - 1" by (simp_all add: P_MAX_OPS_def)
  then have "[1 ..< P_MAX_OPS] = [1 ..< P_MAX_OPS - 1] @ [P_MAX_OPS - 1]"
    by (metis One_nat_def Suc_pred' less_imp_le_nat less_trans upt_Suc_append zero_less_one)
  ultimately have "pool s ([1 ..< P_MAX_OPS - 1] @ [P_MAX_OPS - 1]) [0]" by (simp add: new_manager_def)
  from wp_success [OF ops.alloc_list [OF this, of "replicate (P_MAX_OPS - 2) PO_SINK"]]
  obtain s' us where "pool s' [P_MAX_OPS - 1] us" by fastforce
  then show ?thesis using new_op_at_capacity by blast
qed

section \<open>Base tables\<close>

text \<open>Adding a base table makes a new source operator with the columns and the stream flag of the
  table, at the end of the list of sources: unless its identifier is in that list already, the
  table is found there from then on, and all other tables still find their operators.\<close>
theorem addBaseTable_serves:
  assumes "pool s (a # b # fs) us" and "tm_ok tm" and "t < length (tableList tm)"
    and "t \<notin> fst ` set (sourceOps s)"
  shows "wp (addBaseTable tm t src)
    (\<lambda>_ s'. pool s' (b # fs) (a # us) \<and> serves tm s' (a # us) t \<and> src_of s' t = (a, tblIsStream (tableList tm ! t)) \<and>
       (\<forall>u. u \<in> fst ` set (sourceOps s) \<longrightarrow> serves tm s us u \<longrightarrow> serves tm s' (a # us) u))
    (\<lambda>rc s'. rc = - 1 \<and> pool s' (b # fs) (a # us) \<and>
       (length (baseTableSources s) \<ge> MAX_TABLES \<or> length (sourceOps s) \<ge> MAX_TABLES)) s"
proof (rule wp_mono [OF addBaseTable_wp [OF assms(1-3)]])
  fix x s'
  have a: "a \<notin> set us" using assms(1) by (simp add: pool_def)
  note new = find_source_new [OF assms(4), of a] and old = find_source_append [where xs = "[(t, a)]" and tabs = "sourceOps s"]
  assume s': "pool s' (b # fs) (a # us) \<and> sourceOps s' = sourceOps s @ [(t, a)] \<and>
       (\<forall>x. x \<noteq> a \<longrightarrow> ops s' x = ops s x) \<and> pschema (ops s' a) = table_cols tm t \<and>
       pbStream (ops s' a) = tblIsStream (tableList tm ! t) \<and>
       pkind (ops s' a) = (if tblIsStream (tableList tm ! t) then PO_STREAM_SOURCE else PO_RELN_SOURCE) \<and>
       pu (ops s' a) = (if tblIsStream (tableList tm ! t) then U_STREAM_SOURCE t (length (baseTableSources s))
         else U_RELN_SOURCE t (length (baseTableSources s))) \<and>
       pinputs (ops s' a) = [] \<and> poutputs (ops s' a) = [] \<and> query_class_id (ops s' a) = query_class_id (ops s a) \<and>
       baseTableSources s' = baseTableSources s @ [src] \<and> queryOutOps s' = queryOutOps s \<and>
       queryOutputs s' = queryOutputs s \<and> numExprs s' = numExprs s \<and> numBExprs s' = numBExprs s \<and>
       current_query_class s' = current_query_class s \<and> sharingAmongClasses s' = sharingAmongClasses s"
  then have "serves tm s' (a # us) t" "src_of s' t = (a, tblIsStream (tableList tm ! t))"
    by (simp_all add: served_def src_of_def new)
  moreover have "serves tm s' (a # us) u" if u: "u \<in> fst ` set (sourceOps s)" "serves tm s us u" for u
  proof -
    have "find_source u (sourceOps s) \<noteq> a" using u(2) a by (auto simp: served_def)
    then show ?thesis using u s' by (simp add: served_def old)
  qed
  ultimately show "pool s' (b # fs) (a # us) \<and> serves tm s' (a # us) t \<and> src_of s' t = (a, tblIsStream (tableList tm ! t)) \<and>
       (\<forall>u. u \<in> fst ` set (sourceOps s) \<longrightarrow> serves tm s us u \<longrightarrow> serves tm s' (a # us) u)"
    using s' by blast
qed blast

text \<open>A manager with one base table.\<close>

lemma demo_manager:
  obtains s where "pool s [2 ..< P_MAX_OPS] [1, 0]" and "serves demo_tables s [1, 0] 1" and "src_of s 1 = (1, True)"
    and "numExprs s = 0" and "numBExprs s = 0" and "poutputs (ops s 1) = []" and "sourceOps s = [(0, 0), (1, 1)]"
proof -
  obtain s0 where s0: "new_manager s0" using new_manager_exists by blast
  have "2 < P_MAX_OPS" by (simp add: P_MAX_OPS_def)
  then have up: "[2 ..< P_MAX_OPS] = 2 # [3 ..< P_MAX_OPS]" by (simp add: upt_conv_Cons numeral_3_eq_3)
  have "pool s0 (1 # 2 # [3 ..< P_MAX_OPS]) [0]" using s0 pool_positions(2) up by (simp add: new_manager_def)
  note p = this and so = s0 [unfolded new_manager_def]
  have t: "1 < length (tableList demo_tables)" "length (baseTableSources s0) < MAX_TABLES" "length (sourceOps s0) < MAX_TABLES"
    using so by (simp_all add: demo_tables_def MAX_TABLES_def)
  obtain s x where s: "addBaseTable demo_tables 1 5 s0 = Done x s"
    using addBaseTable_wp [OF p demo_ok(1) t(1), of 5] t(2,3) unfolding wp_iff
    by (cases "addBaseTable demo_tables 1 5 s0") auto
  note w = wp_DoneD [OF addBaseTable_wp [OF p demo_ok(1) t(1), of 5] s]
  have "find_source 1 (sourceOps s) = 1" using w so by (simp add: SS_ID_def find_source_Cons)
  then have "serves demo_tables s [1, 0] 1" "src_of s 1 = (1, True)"
    using w by (simp_all add: served_def src_of_def demo_tables_def)
  moreover have "pool s [2 ..< P_MAX_OPS] [1, 0]" "numExprs s = 0" "numBExprs s = 0" "poutputs (ops s 1) = []"
      "sourceOps s = [(0, 0), (1, 1)]" using w so unfolding up by (simp_all add: SS_ID_def)
  ultimately show thesis using that by blast
qed

text \<open>C22: The first table that is registered has identifier 0, the identifier under which a new plan
  manager has filed the generator of the system stream.  When it is added as a base table, it gets
  a source operator of its own, but a query that reads it is connected to the generator of the
  system stream, whatever the columns of the table are.\<close>
theorem first_table_shadowed:
  assumes "new_manager s" and "tm_ok tm" and "tableList tm \<noteq> []"
  shows "wp (seqM (addBaseTable tm 0 src) (phy_mk_stream_source 0))
    (\<lambda>p s'. p = 0 \<and> pkind (ops s' p) = PO_SS_GEN \<and> pschema (ops s' p) = ss_columns \<and>
       pkind (ops s' 1) \<in> {PO_STREAM_SOURCE, PO_RELN_SOURCE} \<and> pschema (ops s' 1) = table_cols tm 0) (\<lambda>_ _. False) s"
proof -
  have "2 < P_MAX_OPS" by (simp add: P_MAX_OPS_def)
  then have "[2 ..< P_MAX_OPS] = 2 # [3 ..< P_MAX_OPS]" by (simp add: upt_conv_Cons numeral_3_eq_3)
  then have pool: "pool s (1 # 2 # [3 ..< P_MAX_OPS]) [0]" using assms(1) pool_positions(2) by (simp add: new_manager_def)
  have "0 < length (tableList tm)" using assms(3) by simp
  from addBaseTable_wp [OF pool assms(2) this, of src] show ?thesis
  proof (rule wp_seqI)
    fix rc s'
    assume "rc = - 1 \<and> pool s' (2 # [3 ..< P_MAX_OPS]) [1, 0] \<and> (\<forall>x. x \<noteq> 1 \<longrightarrow> ops s' x = ops s x) \<and>
       sourceOps s' = sourceOps s \<and> queryOutOps s' = queryOutOps s \<and>
       (length (baseTableSources s) \<ge> MAX_TABLES \<or> length (sourceOps s) \<ge> MAX_TABLES)"
    then show False using assms(1) by (simp add: new_manager_def MAX_TABLES_def)
  qed (use assms(1) in \<open>auto simp: new_manager_def phy_mk_stream_source_def SS_ID_def find_source_Cons\<close>)
qed

theorem first_table_shadowed_witness:
  "\<exists>s. wp (seqM (addBaseTable demo_tables 0 5) (phy_mk_stream_source 0))
    (\<lambda>p s'. pkind (ops s' p) = PO_SS_GEN \<and> pschema (ops s' p) \<noteq> table_cols demo_tables 0) (\<lambda>_ _. False) s"
proof -
  obtain s where s: "new_manager s" using new_manager_exists by blast
  have "tableList demo_tables \<noteq> []" "ss_columns \<noteq> table_cols demo_tables 0"
    by (simp_all add: demo_tables_def ss_columns_def table_cols_def SS_ATTR_TYPES_def SS_ATTR_LEN_def)
  then show ?thesis
    by (intro exI [of _ s] wp_mono [OF first_table_shadowed [OF s demo_ok(1)]]) simp_all
qed

theorem addBaseTable_serves_witness:
  "\<exists>s s'. new_manager s \<and> addBaseTable demo_tables 1 5 s = Done () s' \<and>
     serves demo_tables s' [1, 0] 1 \<and> src_of s' 1 = (1, True)"
proof -
  obtain s where s: "new_manager s" using new_manager_exists by blast
  have "2 < P_MAX_OPS" by (simp add: P_MAX_OPS_def)
  then have "[2 ..< P_MAX_OPS] = 2 # [3 ..< P_MAX_OPS]" by (simp add: upt_conv_Cons numeral_3_eq_3)
  then have pool: "pool s (1 # 2 # [3 ..< P_MAX_OPS]) [0]" using s pool_positions(2) by (simp add: new_manager_def)
  have "1 < length (tableList demo_tables)" "1 \<notin> fst ` set (sourceOps s)"
    using s by (simp_all add: demo_tables_def new_manager_def SS_ID_def)
  note w = addBaseTable_serves [OF pool demo_ok(1) this, of 5]
  obtain s' where s': "addBaseTable demo_tables 1 5 s = Done () s'"
    using w s unfolding wp_iff by (auto simp: new_manager_def MAX_TABLES_def)
  have "tblIsStream (tableList demo_tables ! 1)" by (simp add: demo_tables_def)
  then show ?thesis using s s' wp_DoneD [OF w s'] by auto
qed

section \<open>Physical plans\<close>

text \<open>C20: For every well-formed logical plan whose attributes occur in the inputs of the operators that
  use them and whose tables are served, the generator makes, from the first free operators, exactly
  the plan \<open>phy_of\<close>, linked in both directions, with the source operators as its leaves and each of
  them with one more output per place where it is read; all other operators are left alone.  It
  fails only with -1 and only when the expressions, the predicates or the outputs of a source do not fit,
  and the pool is then still in order.\<close>
theorem genPhysicalPlan_refines:
  assumes "kplan_at tm ls l K" and "kplan_ok tm K" and "phys_ok tm K" and "operator_ptr ls \<le> MAXOPERATOR"
    and "pool s fs us" and "nodes K < length fs" and "\<forall>t\<in>set (tables K). serves tm s us t"
  shows "wp (genPhysicalPlan (opHeap ls) l)
    (\<lambda>p s'. \<exists>new rest t. fs = new @ rest \<and> length new \<le> nodes K \<and> grows rest us s s' new (leaves (src_of s) K) \<and>
       tree_at (ops s') [] t \<and> troot t = p \<and> erase t = phy_of tm (src_of s) K \<and> post t = new \<and>
       srcs t = leaves (src_of s) K)
    (\<lambda>rc s'. rc = - 1 \<and> \<not> room (exprs K) (bexprs K) (leaves (src_of s) K) s \<and>
       (\<exists>new rest. fs = new @ rest \<and> pool s' rest (rev new @ us))) s"
proof -
  obtain T where T: "plan_at ls l T" "shape T = annot tm K" using assms(1) by (auto simp: kplan_at_def)
  have "gen_spec tm (src_of s) (genPhysical MAXOPERATOR (opHeap ls) (paddr T)) K"
    using T assms(2-4) placed_depth [OF T(1)] by (intro genPhysical_spec) (auto simp: placed_def)
  then have "wp (genPhysicalPlan (opHeap ls) l) (\<lambda>p. built tm (src_of s) [K] fs us s [p])
      (gen_fails (exprs K) (bexprs K) (pend (src_of s) K) fs us s) s"
    using T(1) assms(5-7) by (simp add: genPhysicalPlan_def gen_spec_def placed_def)
  moreover have le: "count_list (pend (src_of s) K) a \<le> count_list (leaves (src_of s) K) a" for a
    by (simp add: pend_def)
  ultimately show ?thesis
  proof (elim wp_mono)
    fix p s' assume "built tm (src_of s) [K] fs us s [p] s'"
    then obtain new rest t where b: "fs = new @ rest" "length new \<le> nodes K"
        "gen_done (exprs K) (bexprs K) (pend (src_of s) K) new rest us s [t] s'" "p = troot t"
        "erase t = phy_of tm (src_of s) K" "srcs t = leaves (src_of s) K" by (auto simp: built_def)
    then have "grows rest us s s' new (pend (src_of s) K)" "tree_at (ops s') [] t" "post t = new"
      by (simp_all add: gen_done_def)
    with b show "\<exists>new rest t. fs = new @ rest \<and> length new \<le> nodes K \<and> grows rest us s s' new (leaves (src_of s) K) \<and>
       tree_at (ops s') [] t \<and> troot t = p \<and> erase t = phy_of tm (src_of s) K \<and> post t = new \<and>
       srcs t = leaves (src_of s) K" using grows_mono [OF _ le] by blast
  next
    fix rc s' assume f: "gen_fails (exprs K) (bexprs K) (pend (src_of s) K) fs us s rc s'"
    have "gen_fails (exprs K + 0) (bexprs K + 0) (leaves (src_of s) K) fs us s rc s'"
      by (rule gen_fails_mono [OF f le])
    then show "rc = - 1 \<and> \<not> room (exprs K) (bexprs K) (leaves (src_of s) K) s \<and>
       (\<exists>new rest. fs = new @ rest \<and> pool s' rest (rev new @ us))" by (auto simp: gen_fails_def grows_def)
  qed
qed

text \<open>A projection of an attribute that its input does not have.\<close>

lemma project_undefined:
  assumes "kplan_at tm ls l (KP (LO_PROJECT (LE_ATTR ty x # es)) [K])" and "kplan_ok tm K" and "phys_ok tm K"
    and "operator_ptr ls \<le> MAXOPERATOR" and "pool s fs us" and "nodes K + 1 < length fs"
    and "\<forall>t\<in>set (tables K). serves tm s us t" and "room (exprs K + 1) (bexprs K) (pend (src_of s) K) s"
    and "\<not> list_ex (attr_eq x) (kattrs tm K)"
  shows "genPhysicalPlan (opHeap ls) l s = Undef"
proof -
  let ?h = "opHeap ls"
  obtain T where T: "plan_at ls l T" "shape T = annot tm (KP (LO_PROJECT (LE_ATTR ty x # es)) [K])"
    using assms(1) by (auto simp: kplan_at_def)
  obtain t i where T1: "T = PT l i [t]" "shape t = annot tm K" "i = node_info tm (LO_PROJECT (LE_ATTR ty x # es)) [lroot (annot tm K)]"
    using T by (cases T) (auto simp: placed_def)
  have rep: "info_of (?h l) = i" "linputs (?h l) = [paddr t]" "rep ?h (Some l) t"
    using T(1) T1(1) by (simp_all add: placed_def)
  have l: "lkind (?h l) = LO_PROJECT (LE_ATTR ty x # es)" "length (outAttrs (?h l)) = Suc (length es)"
    using rep(1) T1(3) by (simp_all add: info_of_def node_info_def)
  obtain b j ts where t: "t = PT b j ts" by (cases t)
  have "info_of (?h b) = j" using rep(3) t by simp
  then have "outAttrs (?h (paddr t)) = outAttrs (lroot (shape t))" using t by (simp add: info_of_def flip: \<open>info_of (?h b) = j\<close>)
  then have ins: "in_schemas ?h l = [kattrs tm K]" using rep(2) T1(2) by simp
  obtain m where m: "MAXOPERATOR = Suc m" by (simp add: MAXOPERATOR_def)
  have "depth t \<le> m" using placed_depth [OF T(1) assms(4)] T1(1) m by simp
  then have "gen_spec tm (src_of s) (genPhysical m ?h (paddr t)) K" using genPhysical_spec [OF rep(3) T1(2) assms(2,3)] by blast
  then have "wp (genPhysical m ?h (paddr t)) (\<lambda>p. built tm (src_of s) [K] fs us s [p])
      (gen_fails (exprs K) (bexprs K) (pend (src_of s) K) fs us s) s"
    using assms(5-7) by (simp add: gen_spec_def)
  then have "wp (genPhysical m ?h (paddr t)) (\<lambda>p. built tm (src_of s) [K] fs us s [p]) (\<lambda>_ _. False) s"
    by (rule wp_mono) (use assms(8) in \<open>auto simp: gen_fails_def room_def\<close>)
  then obtain c s1 where c: "genPhysical m ?h (paddr t) s = Done c s1" "built tm (src_of s) [K] fs us s [c] s1"
    by (auto dest!: wp_success)
  then obtain new rest where new: "fs = new @ rest" "length new \<le> nodes K" "pool s1 rest (rev new @ us)"
      "numExprs s1 \<le> numExprs s + exprs K" by (auto simp: built_def gen_done_def grows_def)
  then have "Suc 0 < length rest" using assms(6) by simp
  then obtain a b fs' where "rest = a # b # fs'" by (metis Suc_less_eq length_Cons list.exhaust list.size(3) not_less_zero)
  with new(3) new_op_wp [of s1 a b fs' "rev new @ us" PO_PROJECT] obtain s2 where
      s2: "new_op PO_PROJECT s1 = Done (Some a) s2" "linked (s1\<lparr>ops := (ops s1)(a := blank_op PO_PROJECT (ops s1 a))\<rparr>) s2"
    by (auto dest!: wp_success)
  have "numExprs s2 = numExprs s1" using linked_sel [OF s2(2)] by simp
  then have n: "\<not> P_MAX_EXPRS \<le> numExprs s2" using new(4) assms(8) by (simp add: room_def)
  have x: "phyTransformAttr ?h l x s' = Undef" for s' :: plan_manager
    using assms(9) ins find_attr_None [of x "[kattrs tm K]" 0] by (simp add: phyTransformAttr_def comp_defs)
  have "phy_mk_project ?h l (LE_ATTR ty x # es) c s1 = Undef"
    unfolding phy_mk_project_def withOp_def using s2(1) l(2) n x
    by (simp add: comp_defs setUnion_def pset_def new_pexpr_def upt_conv_Cons del: upt_Suc)
  then show ?thesis
    using c(1) rep(2) l(1) unfolding genPhysicalPlan_def m by (simp add: phy_root_def comp_defs)
qed

definition demo_select :: query where
  "demo_select = blank_query\<lparr>qKind := SFW_QUERY, refTables := [1], fromClauseTables := [0], winSpec := [Some (WS_ROW 3)],
     preds := [\<lparr>sOp = C_GT, sLeft = SE_ATTR T_INT \<lparr>sVarId = 0, sAttrId = 0\<rparr>, sRight = SE_CONST (IVal 5)\<rparr>],
     projExprs := [SE_ATTR T_FLOAT \<lparr>sVarId = 0, sAttrId = 1\<rparr>]\<rparr>"

abbreviation demo_select_kplan :: kplan where
  "demo_select_kplan \<equiv> KP (LO_PROJECT [LE_ATTR T_FLOAT (A_NAMED 0 1 1)])
     [KP (LO_SELECT \<lparr>lbOp = C_GT, lbLeft = Some (LE_ATTR T_INT (A_NAMED 0 1 0)), lbRight = Some (LE_CONST (IVal 5))\<rparr>)
       [KP (LO_ROW_WIN 3) [KP (LO_STREAM_SOURCE 0 1) []]]]"

lemma demo_select_plan: "naive_kplan demo_tables demo_select = demo_select_kplan"
  by (simp add: naive_kplan_def kp_r2s_def kp_sfw_def kp_distinct_def kp_aggr_def kp_selects_def kp_join_def
      kp_table_def kp_source_def demo_select_def demo_tables_def blank_query_def np_aggrs_def nattr_def np_bexpr_def
      Let_def)

lemma demo_select_logical: "logical_kplan demo_tables demo_select = demo_select_kplan"
  unfolding logical_kplan_def demo_select_plan
  by (simp add: kp_rstreamNow_def below_def is_now_def pass_now_def kp_streamCross_def is_cross_def pass_scross_def
      now_index_def to_scross_def kp_removeProject_def pass_project_def drop_useless_def is_xstream_def
      kp_crossBinary_def above_cross_def kp_streamCrossBinary_def is_scross_def kp_pushSelect_def pass_push_def
      brefs_in_def source_attrs_def demo_tables_def upt_conv_Cons)

lemma demo_select_ok: "query_ok demo_tables demo_select" "plan_fits demo_select"
    "join_width demo_tables demo_select \<le> MAX_ATTRS"
  by (simp_all add: query_ok_def plan_fits_def demo_select_def blank_query_def refs_ok_def from_ok_def
      sattr_ok_def sattr_type_def attr_valid_def query_size_def demo_tables_def MAX_PRED_def bexpr_size_def
      MAX_GROUP_ATTRS_def MAX_PROJ_def MAXNODE_def MAX_ATTRS_def np_aggrs_def bexpr_wt_def
      join_width_def table_width_def)

lemma demo_select_grounded: "grounded demo_select" "from_all demo_select"
  by (simp_all add: grounded_def from_all_def free_preds_def demo_select_def blank_query_def np_aggrs_def lessThan_Suc)

lemma demo_select_phys: "phys_ok demo_tables demo_select_kplan" "nodes demo_select_kplan = 3"
    "tables demo_select_kplan = [1]" "leaves src demo_select_kplan = [fst (src 1)]"
    "exprs demo_select_kplan = 3" "bexprs demo_select_kplan = 1"
  by (simp_all add: bexpr_ok_def char_ok_def source_attrs_def demo_tables_def leaves_def bsize_def)

theorem genPhysicalPlan_refines_witness:
  "\<exists>(ls :: lstate) l s. wp (genPhysicalPlan (opHeap ls) l) (\<lambda>p s'. \<exists>t. tree_at (ops s') [] t \<and> troot t = p \<and>
     erase t = POp \<lparr>nkind = PO_PROJECT, nunion = U_PROJECT [PE_ATTR T_FLOAT \<lparr>attrInput = 0, attrPos = 1\<rparr>],
         ncols = [(T_FLOAT, Some 4)], nstream = False\<rparr>
       [POp \<lparr>nkind = PO_SELECT, nunion = U_SELECT [\<lparr>pbOp = C_GT, pbLeft = PE_ATTR T_INT \<lparr>attrInput = 0, attrPos = 0\<rparr>,
           pbRight = PE_CONST (IVal 5)\<rparr>], ncols = [(T_INT, Some 4), (T_FLOAT, Some 4)], nstream = False\<rparr>
         [POp \<lparr>nkind = PO_ROW_WIN, nunion = U_ROW_WIN 3, ncols = [(T_INT, Some 4), (T_FLOAT, Some 4)], nstream = False\<rparr>
           [PSrc 1 [(T_INT, Some 4), (T_FLOAT, Some 4)] True]]]) (\<lambda>_ _. False) s"
proof -
  obtain ls l where ls: "kplan_at demo_tables ls l demo_select_kplan" "operator_ptr ls \<le> 37"
    "kplan_ok demo_tables demo_select_kplan"
    using demo_plans [OF demo_select_ok] unfolding demo_select_plan by blast
  obtain s where s: "pool s [2 ..< P_MAX_OPS] [1, 0]" "serves demo_tables s [1, 0] 1" "src_of s 1 = (1, True)"
      "numExprs s = 0" "numBExprs s = 0" "poutputs (ops s 1) = []" using demo_manager by metis
  have "nodes demo_select_kplan < length [2 ..< P_MAX_OPS]" "\<forall>t\<in>set (tables demo_select_kplan). serves demo_tables s [1, 0] t"
    "operator_ptr ls \<le> MAXOPERATOR"
    using s(2) ls(2) demo_select_phys by (simp_all add: P_MAX_OPS_def MAXOPERATOR_def)
  note g = genPhysicalPlan_refines [OF ls(1,3) demo_select_phys(1) this(3) s(1) this(1,2)]
  have room: "room (exprs demo_select_kplan) (bexprs demo_select_kplan) (leaves (src_of s) demo_select_kplan) s"
    unfolding room_def demo_select_phys using s(3-6) by (simp add: P_MAX_EXPRS_def MAX_OUT_BRANCHING_def)
  have e: "phy_of demo_tables (src_of s) demo_select_kplan = POp \<lparr>nkind = PO_PROJECT, nunion = U_PROJECT [PE_ATTR T_FLOAT \<lparr>attrInput = 0, attrPos = 1\<rparr>],
         ncols = [(T_FLOAT, Some 4)], nstream = False\<rparr>
       [POp \<lparr>nkind = PO_SELECT, nunion = U_SELECT [\<lparr>pbOp = C_GT, pbLeft = PE_ATTR T_INT \<lparr>attrInput = 0, attrPos = 0\<rparr>,
           pbRight = PE_CONST (IVal 5)\<rparr>], ncols = [(T_INT, Some 4), (T_FLOAT, Some 4)], nstream = False\<rparr>
         [POp \<lparr>nkind = PO_ROW_WIN, nunion = U_ROW_WIN 3, ncols = [(T_INT, Some 4), (T_FLOAT, Some 4)], nstream = False\<rparr>
           [PSrc 1 [(T_INT, Some 4), (T_FLOAT, Some 4)] True]]]"
    using s(3) by (simp add: p_unary_def pb_def pos_def source_attrs_def demo_tables_def table_cols_def FLOAT_SIZE_def)
  show ?thesis
    by (rule exI [of _ ls], rule exI [of _ l], rule exI [of _ s], rule wp_mono [OF g]) (use e room in auto)
qed

end
