(* ===== verification/Phy_Graph.thy ===== *)
theory Phy_Graph
  imports Phy_Build P3_Partial "HOL-Library.Sublist"
begin

text \<open>
  The graph of physical operators: an invariant that every call of the plan manager keeps while the
  application is being specified, also a call that fails half-way.
\<close>

section \<open>The invariant\<close>

text \<open>
  The list of used operators, latest first, is an order of the graph: an operator reads older
  operators only, so that the graph has no cycle.
\<close>

fun layered :: "(nat \<Rightarrow> phyop) \<Rightarrow> nat list \<Rightarrow> bool" where
  "layered h [] \<longleftrightarrow> True"
| "layered h (p # ps) \<longleftrightarrow> set (pinputs (h p)) \<subseteq> set ps \<and> layered h ps"

definition backed :: "(nat \<Rightarrow> phyop) \<Rightarrow> nat list \<Rightarrow> bool" where
  "backed h us \<longleftrightarrow> (\<forall>p\<in>set us. length (poutputs (h p)) \<le> MAX_OUT_BRANCHING \<and>
     (\<forall>q\<in>set (poutputs (h p)). q \<in> set us \<and> p \<in> set (pinputs (h q))))"

definition plan_inv :: "nat list \<Rightarrow> plan_manager \<Rightarrow> bool" where
  "plan_inv us s \<longleftrightarrow> (\<exists>fs. pool s fs us) \<and> layered (ops s) us \<and> backed (ops s) us \<and> 0 \<in> set us \<and>
     snd ` set (sourceOps s) \<subseteq> set us \<and> snd ` set (queryOutOps s) \<subseteq> set us \<and>
     length (sourceOps s) \<le> MAX_TABLES \<and> length (baseTableSources s) \<le> MAX_TABLES \<and>
     length (queryOutOps s) \<le> MAX_QUERIES \<and> length (queryOutputs s) \<le> P_MAX_OUTPUT \<and>
     numExprs s \<le> P_MAX_EXPRS \<and> numBExprs s \<le> P_MAX_EXPRS"

lemma layered_cong: "(\<And>p. p \<in> set us \<Longrightarrow> pinputs (h' p) = pinputs (h p)) \<Longrightarrow> layered h' us = layered h us"
  by (induction us) auto

lemma layered_inputs: "layered h us \<Longrightarrow> p \<in> set us \<Longrightarrow> set (pinputs (h p)) \<subseteq> set us"
  by (induction us) auto

lemma layered_append: "layered h (as @ bs) \<Longrightarrow> layered h bs"
  by (induction as) auto

section \<open>Calls that leave the links alone\<close>

definition same_links :: "plan_manager \<Rightarrow> plan_manager \<Rightarrow> bool" where
  "same_links s s' \<longleftrightarrow> opNext s' = opNext s \<and> opPrev s' = opPrev s \<and> freeOps s' = freeOps s \<and>
     usedOps s' = usedOps s \<and> (\<forall>a. pid (ops s' a) = pid (ops s a)) \<and>
     (\<forall>a. pinputs (ops s' a) = pinputs (ops s a)) \<and> (\<forall>a. poutputs (ops s' a) = poutputs (ops s a)) \<and>
     keeps_rest s s' \<and> (numExprs s \<le> P_MAX_EXPRS \<longrightarrow> numExprs s' \<le> P_MAX_EXPRS) \<and>
     (numBExprs s \<le> P_MAX_EXPRS \<longrightarrow> numBExprs s' \<le> P_MAX_EXPRS)"

abbreviation quiet :: "(plan_manager, 'a) comp \<Rightarrow> bool" where
  "quiet m \<equiv> within same_links m"

interpretation quiet: step_relation same_links
  by unfold_locales (auto simp: same_links_def intro: keeps_rest_trans)

lemma plan_inv_same:
  assumes "plan_inv us s" and "same_links s s'"
  shows "plan_inv us s'"
proof -
  have "pool s' fs us = pool s fs us" for fs by (rule pool_update) (use assms(2) in \<open>auto simp: same_links_def\<close>)
  moreover have "layered (ops s') us = layered (ops s) us"
    by (rule layered_cong) (use assms(2) in \<open>simp add: same_links_def\<close>)
  ultimately show ?thesis
    using assms by (auto simp: plan_inv_def same_links_def keeps_rest_def backed_def)
qed

lemma quiet_pset [steps]:
  assumes "\<And>x. pid (f x) = pid x \<and> pinputs (f x) = pinputs x \<and> poutputs (f x) = poutputs x"
  shows "quiet (pset p f)"
  by (rule withinI) (use assms in \<open>simp add: pset_def same_links_def keeps_rest_def\<close>)

lemma quiet_basic [steps]: "quiet (pget p)" "quiet (setUnion u p)" "quiet (phy_copy_schema d p)"
    "quiet (phy_append_schema d p)" "quiet (phyAttrType a c)" "quiet (phyAttrLen a c)"
  unfolding pget_def setUnion_def phy_copy_schema_def phy_append_schema_def phyAttrType_def phyAttrLen_def
  by (intro steps; simp)+

lemma quiet_exprs [steps]: "quiet new_pexpr" "quiet new_pbexpr"
  by (rule withinI, simp add: new_pexpr_def new_pbexpr_def same_links_def keeps_rest_def split: if_split)+

lemma quiet_attr [steps]: "quiet (phyTransformAttr h l a)"
  unfolding phyTransformAttr_def by (intro steps)

lemma quiet_expr [steps]: "quiet (phyTransformExpr h l e)"
  by (induction e) (simp_all, (intro steps; assumption?)+)

lemma quiet_expr_ptr [steps]: "quiet (phyTransformExprPtr h l e)"
  unfolding phyTransformExprPtr_def by (intro steps)

lemma quiet_bexpr [steps]: "quiet (phyTransformBExpr h l b)"
  unfolding phyTransformBExpr_def by (rule quiet.within_bindM, rule steps)+ (auto split: option.splits intro!: steps)

lemma quiet_union [steps]:
  assumes "quiet m" and "\<And>a b. quiet (f1 a b)" and "\<And>a b. quiet (f2 a b)" and "\<And>a b. quiet (f3 a b)"
    and "\<And>a. quiet (f4 a)" and "\<And>a. quiet (f5 a)" and "\<And>a b c. quiet (f6 a b c)" and "\<And>a b c. quiet (f7 a b c)"
    and "\<And>a b. quiet (f8 a b)" and "\<And>a b. quiet (f9 a b)" and "\<And>a b. quiet (f10 a b)" and "\<And>a. quiet (f11 a)"
    and "\<And>a. quiet (f12 a)" and "\<And>a b. quiet (f13 a b)" and "\<And>a. quiet (f14 a)" and "\<And>a. quiet (f15 a)"
  shows "quiet (case_punion m f1 f2 f3 f4 f5 f6 f7 f8 f9 f10 f11 f12 f13 f14 f15 u)"
  by (cases u) (simp_all add: assms)

lemma quiet_project [steps]: "quiet (addProj p e)" "quiet (proj_column cs e)"
  unfolding addProj_def proj_column_def
   by (intro steps) (cases "pexpr_type e"; cases e; simp; intro steps)

lemma quiet_aggr [steps]: "quiet (aggr_attr_pos h l af)" "quiet (aggr_column c pa)" "quiet (binary_column cs i col)"
  unfolding aggr_attr_pos_def aggr_column_def binary_column_def by (intro steps)+

section \<open>Calls that add operators\<close>

text \<open>Operators were added in front of the used ones; the tables and queries are as before.\<close>

definition more :: "nat list \<Rightarrow> plan_manager \<Rightarrow> nat list \<Rightarrow> plan_manager \<Rightarrow> bool" where
  "more us s us' s' \<longleftrightarrow> plan_inv us' s' \<and> suffix us us' \<and> keeps_rest s s'"

abbreviation adds :: "(plan_manager, nat) comp \<Rightarrow> nat list \<Rightarrow> plan_manager \<Rightarrow> bool" where
  "adds m us s \<equiv> wlp m (\<lambda>p s'. \<exists>us'. more us s us' s' \<and> p \<in> set us') (\<lambda>_ s'. \<exists>us'. more us s us' s') s"

lemma more_refl: "plan_inv us s \<Longrightarrow> more us s us s"
  by (simp add: more_def)

lemma more_trans: "more us s us1 s1 \<Longrightarrow> more us1 s1 us2 s2 \<Longrightarrow> more us s us2 s2"
  by (auto simp: more_def intro: keeps_rest_trans suffix_order.trans)

lemma more_quiet: "more us s us' s' \<Longrightarrow> same_links s' s'' \<Longrightarrow> more us s us' s''"
  by (auto simp: more_def same_links_def intro: keeps_rest_trans plan_inv_same)

lemma more_mem: "more us s us' s' \<Longrightarrow> p \<in> set us \<Longrightarrow> p \<in> set us'"
  by (auto simp: more_def dest: set_mono_suffix)

lemma more_inv: "more us s us' s' \<Longrightarrow> plan_inv us' s'"
  by (simp add: more_def)

text \<open>A new operator has no links.\<close>

lemma new_op_adds:
  assumes "plan_inv us s"
  shows "wlp (new_op k) (\<lambda>r s'. r = None \<and> s' = s \<or> (\<exists>a. r = Some a \<and> a \<notin> set us \<and> more us s (a # us) s' \<and>
     pinputs (ops s' a) = [] \<and> poutputs (ops s' a) = [] \<and> pid (ops s' a) = a)) (\<lambda>_ _. False) s"
proof -
  obtain fs where fs: "pool s fs us" using assms by (auto simp: plan_inv_def)
  show ?thesis
  proof (cases fs)
    case Nil
    then show ?thesis using fs by (simp add: new_op_def pool_def wlp_def comp_defs)
  next
    case (Cons a gs)
    note a = this
    show ?thesis
    proof (cases gs)
      case Nil
      then show ?thesis using fs a new_op_last by (simp add: wlp_def)
    next
      case (Cons b hs)
      have pool: "pool s (a # b # hs) us" using fs a Cons by simp
      then have a_new: "a \<notin> set us" by (auto simp: pool_def)
      show ?thesis
      proof (rule wlp_mono [OF wp_wlp [OF new_op_wp [OF pool, of k]]])
        fix r :: "nat option" and s'
        assume r: "r = Some a \<and> pool s' (b # hs) (a # us) \<and> linked (s\<lparr>ops := (ops s)(a := blank_op k (ops s a))\<rparr>) s'"
        then have "linked (s\<lparr>ops := (ops s)(a := blank_op k (ops s a))\<rparr>) s'" by blast
        note l = linked_sel [OF this]
        have "layered (ops s') us = layered (ops s) us" by (rule layered_cong) (use l a_new in auto)
        moreover have "backed (ops s') (a # us)" using assms l a_new by (auto simp: plan_inv_def backed_def)
        ultimately have "plan_inv (a # us) s'"
          using assms l r a_new by (auto simp: plan_inv_def)
        moreover have "keeps_rest s s'" using l by (simp add: keeps_rest_def)
        ultimately have "more us s (a # us) s'" by (simp add: more_def suffix_ConsI)
        moreover have "pid (ops s' a) = a" using r pool_pid by force
        ultimately show "r = None \<and> s' = s \<or> (\<exists>a. r = Some a \<and> a \<notin> set us \<and> more us s (a # us) s' \<and>
            pinputs (ops s' a) = [] \<and> poutputs (ops s' a) = [] \<and> pid (ops s' a) = a)"
          using r a_new l by simp
      qed simp
    qed
  qed
qed

text \<open>The new operator \<open>a\<close> before it is linked.\<close>

definition unlinked :: "nat \<Rightarrow> nat list \<Rightarrow> plan_manager \<Rightarrow> plan_manager \<Rightarrow> bool" where
  "unlinked a us s0 s \<longleftrightarrow> more us s0 (a # us) s \<and> a \<notin> set us \<and> pinputs (ops s a) = [] \<and> poutputs (ops s a) = []"

lemma unlinked_quiet: "unlinked a us s0 s \<Longrightarrow> same_links s s' \<Longrightarrow> unlinked a us s0 s'"
  using more_quiet by (auto simp: unlinked_def same_links_def)

lemma backed_output:
  assumes "backed h us" and "a \<in> set us" and "c \<in> set (pinputs (h a))"
    and "length (poutputs (h c)) < MAX_OUT_BRANCHING"
  shows "backed (h(c := (h c)\<lparr>poutputs := poutputs (h c) @ [a]\<rparr>)) us"
  using assms by (auto simp: backed_def)

lemma addOutput_keeps:
  assumes "plan_inv us s" and "a \<in> set us" and "c \<in> set (pinputs (ops s a))"
  shows "wlp (addOutput c a) (\<lambda>_ s'. plan_inv us s' \<and> keeps_rest s s' \<and> (\<forall>p. pinputs (ops s' p) = pinputs (ops s p)))
    (\<lambda>_ s'. plan_inv us s' \<and> keeps_rest s s') s"
proof (cases "length (poutputs (ops s c)) \<ge> MAX_OUT_BRANCHING")
  case True
  then show ?thesis using assms by (simp add: addOutput_def pget_def)
next
  case False
  let ?h = "(ops s)(c := (ops s c)\<lparr>poutputs := poutputs (ops s c) @ [a]\<rparr>)"
  have "backed ?h us" using assms False by (intro backed_output) (auto simp: plan_inv_def)
  moreover have "layered ?h us = layered (ops s) us" by (rule layered_cong) simp
  moreover have "pool (s\<lparr>ops := ?h\<rparr>) fs us = pool s fs us" for fs by (rule pool_update) simp_all
  ultimately have "plan_inv us (s\<lparr>ops := ?h\<rparr>)" using assms(1) by (simp add: plan_inv_def)
  then show ?thesis using False by (simp add: addOutput_def pget_def pset_def keeps_rest_def)
qed

lemma addOutputs_keep:
  assumes "plan_inv us s" and "a \<in> set us" and "set cs \<subseteq> set (pinputs (ops s a))"
  shows "wlp (forM cs (\<lambda>c. addOutput c a)) (\<lambda>_ s'. plan_inv us s' \<and> keeps_rest s s')
    (\<lambda>_ s'. plan_inv us s' \<and> keeps_rest s s') s"
  using assms
proof (induction cs arbitrary: s)
  case (Cons c cs)
  have "c \<in> set (pinputs (ops s a))" using Cons.prems(3) by simp
  from addOutput_keeps [OF Cons.prems(1,2) this] show ?case
    unfolding forM.simps
  proof (rule wlp_seqI)
    fix x s1
    assume s1: "plan_inv us s1 \<and> keeps_rest s s1 \<and> (\<forall>p. pinputs (ops s1 p) = pinputs (ops s p))"
    show "wlp (forM cs (\<lambda>c. addOutput c a)) (\<lambda>_ s'. plan_inv us s' \<and> keeps_rest s s')
        (\<lambda>_ s'. plan_inv us s' \<and> keeps_rest s s') s1"
      by (rule wlp_mono [OF Cons.IH]) (use Cons.prems s1 in \<open>auto intro: keeps_rest_trans\<close>)
  qed
qed simp

lemma link_keeps:
  assumes "unlinked a us s0 s" and "set cs \<subseteq> set us"
  shows "wlp (link a st cs) (\<lambda>_ s'. more us s0 (a # us) s') (\<lambda>_ s'. more us s0 (a # us) s') s"
proof -
  let ?h = "(ops s)(a := (ops s a)\<lparr>pbStream := st, poutputs := [], pinputs := cs\<rparr>)" and ?s = "s\<lparr>ops := (ops s)(a := (ops s a)\<lparr>pbStream := st, poutputs := [], pinputs := cs\<rparr>)\<rparr>"
  have inv: "plan_inv (a # us) s" and a: "a \<notin> set us" "pinputs (ops s a) = []" and r: "keeps_rest s0 s"
    using assms(1) by (auto simp: unlinked_def more_def)
  have "layered ?h us = layered (ops s) us" by (rule layered_cong) (use a in auto)
  moreover have "backed ?h (a # us)" using inv a by (fastforce simp: plan_inv_def backed_def)
  moreover have "pool ?s fs (a # us) = pool s fs (a # us)" for fs by (rule pool_update) simp_all
  ultimately have "plan_inv (a # us) ?s" using inv assms(2) a by (simp add: plan_inv_def)
  then have "wlp (forM cs (\<lambda>c. addOutput c a)) (\<lambda>_ s'. plan_inv (a # us) s' \<and> keeps_rest ?s s')
    (\<lambda>_ s'. plan_inv (a # us) s' \<and> keeps_rest ?s s') ?s" by (intro addOutputs_keep) simp_all
  then have "wlp (forM cs (\<lambda>c. addOutput c a)) (\<lambda>_ s'. more us s0 (a # us) s') (\<lambda>_ s'. more us s0 (a # us) s') ?s"
    by (rule wlp_mono) (use r in \<open>auto simp: more_def keeps_rest_def suffix_ConsI\<close>)
  then show ?thesis by (simp add: link_def pset_def)
qed

text \<open>The rest of a constructor, once it has its operator: quiet calls around one linking.\<close>

definition body_ok :: "nat \<Rightarrow> nat list \<Rightarrow> plan_manager \<Rightarrow> (plan_manager, unit) comp \<Rightarrow> bool" where
  "body_ok a us s0 m \<longleftrightarrow> (\<forall>s. unlinked a us s0 s \<longrightarrow>
     wlp m (\<lambda>_ s'. more us s0 (a # us) s') (\<lambda>_ s'. more us s0 (a # us) s') s)"

named_theorems bodies "bodies of constructors"

lemma unlinked_more: "unlinked a us s0 s \<Longrightarrow> more us s0 (a # us) s"
  by (simp add: unlinked_def)

lemma body_bindM [bodies]:
  assumes "quiet m" and "\<And>r. body_ok a us s0 (f r)"
  shows "body_ok a us s0 (bindM m f)"
  unfolding body_ok_def
proof (intro allI impI)
  fix s assume u: "unlinked a us s0 s"
  show "wlp (bindM m f) (\<lambda>_ s'. more us s0 (a # us) s') (\<lambda>_ s'. more us s0 (a # us) s') s"
    unfolding wlp_bindM
  proof (rule within_wlp [OF assms(1)])
    fix r s' assume "same_links s s'"
    from unlinked_quiet [OF u this]
    show "wlp (f r) (\<lambda>_ s'. more us s0 (a # us) s') (\<lambda>_ s'. more us s0 (a # us) s') s'"
      using assms(2) by (simp add: body_ok_def)
  qed (use unlinked_quiet [OF u] unlinked_more in blast)
qed

lemma body_seqM [bodies]: "quiet m \<Longrightarrow> body_ok a us s0 n \<Longrightarrow> body_ok a us s0 (seqM m n)"
  unfolding seqM_def by (rule body_bindM)

lemma body_undefM [bodies]: "body_ok a us s0 undefM"
  by (simp add: body_ok_def)

lemma body_link [bodies]: "set cs \<subseteq> set us \<Longrightarrow> body_ok a us s0 (link a st cs)"
  using link_keeps by (simp add: body_ok_def)

lemma body_link_seq [bodies]:
  assumes "set cs \<subseteq> set us" and "quiet n"
  shows "body_ok a us s0 (seqM (link a st cs) n)"
  unfolding body_ok_def
proof (intro allI impI)
  fix s assume u: "unlinked a us s0 s"
  from link_keeps [OF this assms(1)]
  show "wlp (seqM (link a st cs) n) (\<lambda>_ s'. more us s0 (a # us) s') (\<lambda>_ s'. more us s0 (a # us) s') s"
    by (rule wlp_seqI) (rule within_wlp [OF assms(2)], auto intro: more_quiet)
qed

lemma withOp_adds:
  assumes "plan_inv us s" and "\<And>a s0. body_ok a us s0 (body a)"
  shows "adds (withOp k body) us s"
  unfolding withOp_def
proof (rule wlp_bindI [OF new_op_adds [OF assms(1)]])
  fix r s1
  assume r: "r = None \<and> s1 = s \<or> (\<exists>a. r = Some a \<and> a \<notin> set us \<and> more us s (a # us) s1 \<and>
     pinputs (ops s1 a) = [] \<and> poutputs (ops s1 a) = [] \<and> pid (ops s1 a) = a)"
  show "wlp (case r of None \<Rightarrow> failM (- 1) | Some op \<Rightarrow> seqM (body op) (retM op))
     (\<lambda>p s'. \<exists>us'. more us s us' s' \<and> p \<in> set us') (\<lambda>_ s'. \<exists>us'. more us s us' s') s1"
  proof (cases r)
    case None
    then show ?thesis using r more_refl [OF assms(1)] by auto
  next
    case (Some a)
    then have "unlinked a us s s1" using r by (auto simp: unlinked_def)
    then have "wlp (body a) (\<lambda>_ s'. more us s (a # us) s') (\<lambda>_ s'. more us s (a # us) s') s1"
      using assms(2) by (simp add: body_ok_def)
    then have "wlp (seqM (body a) (retM a)) (\<lambda>p s'. \<exists>us'. more us s us' s' \<and> p \<in> set us')
       (\<lambda>_ s'. \<exists>us'. more us s us' s') s1"
      by (rule wlp_seqI) (auto intro: exI [of _ "a # us"])
    then show ?thesis using Some by simp
  qed
qed simp

section \<open>The constructors\<close>

lemma phy_unary_adds:
  assumes "plan_inv us s" and "c \<in> set us" and "\<And>a. quiet (fill a)"
  shows "adds (phy_unary k c g fill) us s"
  unfolding phy_unary_def using assms by (intro withOp_adds bodies steps) auto

lemma phy_join_adds:
  assumes "plan_inv us s" and "c \<in> set us" and "d \<in> set us"
  shows "adds (phy_join k st u c d) us s"
  unfolding phy_join_def using assms by (intro withOp_adds bodies steps) auto

lemma phy_binary_adds:
  assumes "plan_inv us s" and "c \<in> set us" and "d \<in> set us"
  shows "adds (phy_binary k st c d) us s"
  unfolding phy_binary_def using assms by (intro withOp_adds bodies steps) auto

lemma body_project [bodies]:
  assumes "\<And>es. body_ok a us s0 (f es)"
  shows "body_ok a us s0 (case u of U_PROJECT es \<Rightarrow> f es | _ \<Rightarrow> undefM)"
  using assms by (cases u) (simp_all add: body_undefM)

lemma phy_mk_project_adds:
  assumes "plan_inv us s" and "c \<in> set us"
  shows "adds (phy_mk_project h l es c) us s"
  unfolding phy_mk_project_def using assms by (intro withOp_adds bodies steps) auto

lemma phy_mk_group_aggr_adds:
  assumes "plan_inv us s" and "c \<in> set us"
  shows "adds (phy_mk_group_aggr h l gs ags c) us s"
  unfolding phy_mk_group_aggr_def using assms by (intro withOp_adds bodies steps) auto

lemma quiet_adds:
  assumes "plan_inv us s" and "quiet m"
  shows "wlp m (\<lambda>_ s'. more us s us s') (\<lambda>_ s'. more us s us s') s"
  by (rule within_wlp [OF assms(2)]) (auto intro: more_quiet [OF more_refl [OF assms(1)]])

lemma phy_mk_select_adds:
  assumes "plan_inv us s" and "c \<in> set us"
  shows "adds (phy_mk_select h l b c) us s"
  unfolding phy_mk_select_def
proof (rule wlp_bindI [OF quiet_adds [OF assms(1) quiet_bexpr]])
  fix r s1 assume m: "more us s us s1"
  have old: "adds (seqM (setUnion (U_SELECT bs) c) (retM c)) us s1" for bs
    by (rule wlp_seqI [OF quiet_adds [OF more_inv [OF m]]]) (use assms(2) in \<open>auto intro: steps\<close>)
  have new: "adds (phy_unary PO_SELECT c pbStream (setUnion (U_SELECT [pred]))) us s1" for pred
    using more_inv [OF m] assms(2) by (intro phy_unary_adds steps)
  have "adds (case pu x of U_SELECT bs \<Rightarrow> seqM (setUnion (U_SELECT (pred # bs)) c) (retM c) | _ \<Rightarrow> undefM) us s1"
      for x pred using old by (cases "pu x") simp_all
  then have "adds (case r of None \<Rightarrow> failM (- 1) | Some pred \<Rightarrow> bindM (pget c) (\<lambda>x.
      if pkind x = PO_SELECT then
        (case pu x of U_SELECT bs \<Rightarrow> seqM (setUnion (U_SELECT (pred # bs)) c) (retM c) | _ \<Rightarrow> undefM)
      else phy_unary PO_SELECT c pbStream (setUnion (U_SELECT [pred])))) us s1"
    using new more_refl [OF more_inv [OF m]] by (cases r) (auto simp: pget_def)
  then show "wlp (case r of None \<Rightarrow> failM (- 1) | Some pred \<Rightarrow> bindM (pget c) (\<lambda>x.
      if pkind x = PO_SELECT then
        (case pu x of U_SELECT bs \<Rightarrow> seqM (setUnion (U_SELECT (pred # bs)) c) (retM c) | _ \<Rightarrow> undefM)
      else phy_unary PO_SELECT c pbStream (setUnion (U_SELECT [pred]))))
      (\<lambda>p s'. \<exists>us'. more us s us' s' \<and> p \<in> set us') (\<lambda>_ s'. \<exists>us'. more us s us' s') s1"
    by (rule wlp_mono) (use more_trans [OF m] in blast)+
qed blast

lemma find_source_mem: "plan_inv us s \<Longrightarrow> find_source t (sourceOps s) \<in> set us"
  by (auto simp: plan_inv_def find_source_def split: option.splits dest!: find_first_bound nth_mem)

lemmas unary_defs = mk_row_win_def mk_range_win_def mk_now_win_def mk_partn_win_def phy_mk_distinct_def
  phy_mk_istream_def phy_mk_dstream_def phy_mk_rstream_def mk_qry_src_def mk_output_def mk_sink_def

lemma unary_adds:
  assumes "plan_inv us s" and "c \<in> set us"
  shows "adds (mk_row_win n c) us s" "adds (mk_range_win n c) us s" "adds (mk_now_win c) us s"
    "adds (mk_partn_win h l as n c) us s" "adds (phy_mk_distinct c) us s" "adds (phy_mk_istream c) us s"
    "adds (phy_mk_dstream c) us s" "adds (phy_mk_rstream c) us s" "adds (mk_qry_src c) us s"
    "adds (mk_output c) us s" "adds (mk_sink c) us s"
  unfolding unary_defs by (intro phy_unary_adds assms steps)+

lemma phy_root_adds:
  assumes inv: "plan_inv us s" and "set cs \<subseteq> set us"
  shows "adds (phy_root h l cs) us s"
proof -
  have c: "cs ! i \<in> set us" if "i < length cs" for i using assms(2) that by auto
  have "adds m us s" if "m = readM (\<lambda>s. find_source t (sourceOps s))" for m t
    using that find_source_mem [OF inv] more_refl [OF inv] by auto
  then show ?thesis
    using c more_refl [OF inv]
    by (cases "lkind (h l)")
      (auto simp: phy_root_def phy_mk_stream_source_def phy_mk_reln_source_def mk_join_def mk_str_join_def
        phy_mk_union_def phy_mk_except_def
        intro!: unary_adds phy_join_adds phy_binary_adds phy_mk_project_adds phy_mk_select_adds phy_mk_group_aggr_adds inv)
qed

lemma mapM_adds:
  assumes "plan_inv us s" and "\<And>x us s. plan_inv us s \<Longrightarrow> adds (f x) us s"
  shows "wlp (mapM f xs) (\<lambda>ps s'. \<exists>us'. more us s us' s' \<and> set ps \<subseteq> set us') (\<lambda>_ s'. \<exists>us'. more us s us' s') s"
  using assms(1)
proof (induction xs arbitrary: us s)
  case Nil
  then show ?case using more_refl by auto
next
  case (Cons x xs)
  show ?case
    unfolding mapM.simps
  proof (rule wlp_bindI [OF assms(2) [OF Cons.prems]])
    fix p s1 assume "\<exists>us'. more us s us' s1 \<and> p \<in> set us'"
    then obtain us1 where 1: "more us s us1 s1" "p \<in> set us1" by blast
    show "wlp (bindM (mapM f xs) (\<lambda>ps. retM (p # ps)))
        (\<lambda>ps s'. \<exists>us'. more us s us' s' \<and> set ps \<subseteq> set us') (\<lambda>_ s'. \<exists>us'. more us s us' s') s1"
    proof (rule wlp_bindI [OF Cons.IH [OF more_inv [OF 1(1)]]])
      fix ps s2 assume "\<exists>us'. more us1 s1 us' s2 \<and> set ps \<subseteq> set us'"
      then obtain us2 where 2: "more us1 s1 us2 s2" "set ps \<subseteq> set us2" by blast
      then show "wlp (retM (p # ps)) (\<lambda>ps s'. \<exists>us'. more us s us' s' \<and> set ps \<subseteq> set us')
          (\<lambda>_ s'. \<exists>us'. more us s us' s') s2"
        using more_trans [OF 1(1) 2(1)] more_mem [OF 2(1) 1(2)] by auto
    qed (use more_trans [OF 1(1)] in blast)
  qed blast
qed

lemma genPhysical_adds: "plan_inv us s \<Longrightarrow> adds (genPhysical fuel h l) us s"
proof (induction fuel arbitrary: l us s)
  case (Suc fuel)
  show ?case
    unfolding genPhysical.simps
  proof (rule wlp_bindI [OF mapM_adds [OF Suc.prems Suc.IH]])
    fix cs s1 assume "\<exists>us'. more us s us' s1 \<and> set cs \<subseteq> set us'"
    then obtain us1 where 1: "more us s us1 s1" "set cs \<subseteq> set us1" by blast
    show "wlp (phy_root h l cs) (\<lambda>p s'. \<exists>us'. more us s us' s' \<and> p \<in> set us') (\<lambda>_ s'. \<exists>us'. more us s us' s') s1"
      by (rule wlp_mono [OF phy_root_adds [OF more_inv [OF 1(1)] 1(2)]]) (use more_trans [OF 1(1)] in blast)+
  qed blast
qed simp

end
