(* ===== verification/Plan_Query.thy ===== *)
theory Plan_Query
  imports Plan_Facts Phy_Graph
begin

text \<open>
  Queries in the plan manager: the marking of the operators of a query with its class, and what
  \<open>addLogicalQueryPlan\<close> and \<open>map\<close> do to the graph of operators.
\<close>

section \<open>Query classes\<close>

text \<open>An operator that has not been met by a query of the class \<open>c\<close> or a more important one.\<close>

definition stale :: "int \<Rightarrow> phyop \<Rightarrow> bool" where
  "stale c x \<longleftrightarrow> query_class_id x = 0 \<or> query_class_id x > c"

inductive stale_path :: "(nat \<Rightarrow> phyop) \<Rightarrow> int \<Rightarrow> nat \<Rightarrow> nat \<Rightarrow> bool" for h c q where
  stale_start: "stale c (h q) \<Longrightarrow> stale_path h c q q"
| stale_step: "stale_path h c q p \<Longrightarrow> i \<in> set (pinputs (h p)) \<Longrightarrow> stale c (h i) \<Longrightarrow> stale_path h c q i"

definition mark :: "int \<Rightarrow> nat set \<Rightarrow> (nat \<Rightarrow> phyop) \<Rightarrow> nat \<Rightarrow> phyop" where
  "mark c N h = (\<lambda>p. if p \<in> N then (h p)\<lparr>query_class_id := c\<rparr> else h p)"

lemma mark_sel [simp]: "pinputs (mark c N h p) = pinputs (h p)" "poutputs (mark c N h p) = poutputs (h p)"
    "pid (mark c N h p) = pid (h p)" "node_of (mark c N h p) = node_of (h p)" "pkind (mark c N h p) = pkind (h p)"
    "pschema (mark c N h p) = pschema (h p)" "pbStream (mark c N h p) = pbStream (h p)" "pu (mark c N h p) = pu (h p)"
  by (simp_all add: mark_def)

lemma mark_mark: "mark c B (mark c A h) = mark c (A \<union> B) h"
  by (auto simp: mark_def fun_eq_iff)

lemma mark_empty [simp]: "mark c {} h = h"
  by (simp add: mark_def)

lemma stale_mark: "0 < c \<Longrightarrow> stale c (mark c N h p) \<longleftrightarrow> p \<notin> N \<and> stale c (h p)"
  by (simp add: mark_def stale_def)

lemma stale_path_stale: "stale_path h c q p \<Longrightarrow> stale c (h p)"
  by (induction rule: stale_path.induct) auto

lemma stale_path_start: "stale_path h c q p \<Longrightarrow> stale c (h q)"
  by (induction rule: stale_path.induct) auto

lemma stale_path_unmark: "stale_path (mark c N h) c q p \<Longrightarrow> 0 < c \<Longrightarrow> stale_path h c q p"
  by (induction rule: stale_path.induct) (auto simp: stale_mark intro: stale_path.intros)

lemma stale_path_trans: "stale_path h c p r \<Longrightarrow> stale_path h c q p \<Longrightarrow> stale_path h c q r"
  by (induction rule: stale_path.induct) (auto intro: stale_path.intros)

lemma stale_path_mark:
  assumes "0 < c" and "\<And>p i. p \<in> N \<Longrightarrow> i \<in> set (pinputs (h p)) \<Longrightarrow> stale c (h i) \<Longrightarrow> i \<in> N"
    and "stale_path h c q p"
  shows "p \<in> N \<or> stale_path (mark c N h) c q p"
  using assms(3)
proof (induction rule: stale_path.induct)
  case stale_start
  then show ?case using assms(1) by (auto simp: stale_mark intro: stale_path.stale_start)
next
  case (stale_step p i)
  then show ?case using assms(1,2) stale_path.stale_step [of "mark c N h" c q p i] by (auto simp: stale_mark)
qed

text \<open>The marking of the first of several operators leaves the rest to the others.\<close>

lemma stale_paths_Cons:
  assumes "0 < c"
  shows "{p. \<exists>i\<in>set (q # qs). stale_path h c i p} = {p. stale_path h c q p} \<union>
    {p. \<exists>i\<in>set qs. stale_path (mark c {p. stale_path h c q p} h) c i p}"
proof -
  have closed: "i \<in> {p. stale_path h c q p}"
    if "p \<in> {p. stale_path h c q p}" "i \<in> set (pinputs (h p))" "stale c (h i)" for p i
    using that stale_path.stale_step by auto
  have "stale_path h c q p \<or> stale_path (mark c {p. stale_path h c q p} h) c i p" if "stale_path h c i p" for i p
    using stale_path_mark [OF assms closed that] by simp
  moreover have "stale_path h c i p" if "stale_path (mark c {p. stale_path h c q p} h) c i p" for i p
    using stale_path_unmark [OF that assms] .
  ultimately have "(\<exists>i\<in>set (q # qs). stale_path h c i p) \<longleftrightarrow> stale_path h c q p \<or>
      (\<exists>i\<in>set qs. stale_path (mark c {p. stale_path h c q p} h) c i p)" for p by (simp, blast)
  then show ?thesis by (simp add: set_eq_iff)
qed

lemma stale_paths_inputs:
  assumes "0 < c" and "stale c (h q)"
  shows "{p. stale_path h c q p} = {q} \<union> {p. \<exists>i\<in>set (pinputs (h q)). stale_path (mark c {q} h) c i p}"
proof -
  have "p = q \<or> (\<exists>i\<in>set (pinputs (h q)). stale_path (mark c {q} h) c i p)" if "stale_path h c q p" for p
    using that
  proof (induction rule: stale_path.induct)
    case (stale_step p i)
    show ?case
    proof (cases "i = q")
      case False
      then have i: "stale c (mark c {q} h i)" using stale_step.hyps assms(1) by (simp add: stale_mark)
      show ?thesis
      proof (cases "p = q")
        case True
        then show ?thesis using i stale_step.hyps stale_path.stale_start by blast
      next
        case False
        then obtain j where "j \<in> set (pinputs (h q))" "stale_path (mark c {q} h) c j p" using stale_step.IH by blast
        then show ?thesis using i stale_step.hyps stale_path.stale_step [of "mark c {q} h" c j p i] by auto
      qed
    qed simp
  qed simp
  moreover have "stale_path h c q p" if "i \<in> set (pinputs (h q))" "stale_path (mark c {q} h) c i p" for i p
  proof -
    have i: "stale_path h c i p" by (rule stale_path_unmark [OF that(2) assms(1)])
    have "stale_path h c q q" by (rule stale_path.stale_start) (rule assms(2))
    then have "stale_path h c q i" by (rule stale_path.stale_step) (rule that(1), rule stale_path_start [OF i])
    then show ?thesis by (rule stale_path_trans [OF i])
  qed
  ultimately show ?thesis using stale_path.stale_start [of c h q] assms(2) by blast
qed

lemma layered_mark [simp]: "layered (mark c N h) us = layered h us"
  by (rule layered_cong) simp

lemma addQueryClasses_wp:
  assumes "layered (ops s) us" and "q \<in> set us" and "length us \<le> fuel" and "0 < current_query_class s"
  shows "wp (addQueryClasses fuel q) (\<lambda>_ s'. s' = s\<lparr>ops := mark (current_query_class s)
    {p. stale_path (ops s) (current_query_class s) q p} (ops s)\<rparr>) (\<lambda>_ _. False) s"
  using assms
proof (induction us arbitrary: q fuel s)
  case (Cons u us)
  show ?case
  proof (cases "q = u")
    case False
    then show ?thesis using Cons by simp
  next
    case True
    obtain f where f: "fuel = Suc f" "length us \<le> f" using Cons.prems(3) by (cases fuel) auto
    let ?c = "current_query_class s"
    have many: "wp (forM ps (addQueryClasses f)) (\<lambda>_ s'. s' = s1\<lparr>ops := mark ?c
        {p. \<exists>i\<in>set ps. stale_path (ops s1) ?c i p} (ops s1)\<rparr>) (\<lambda>_ _. False) s1"
      if "set ps \<subseteq> set us" "layered (ops s1) us" "current_query_class s1 = ?c" for ps s1
      using that
    proof (induction ps arbitrary: s1)
      case (Cons p ps)
      have "p \<in> set us" using Cons.prems(1) by simp
      from \<open>\<And>q fuel s. \<lbrakk>layered (ops s) us; q \<in> set us; length us \<le> fuel; 0 < current_query_class s\<rbrakk>
          \<Longrightarrow> wp (addQueryClasses fuel q) (\<lambda>_ s'. s' = s\<lparr>ops := mark (current_query_class s)
            {p. stale_path (ops s) (current_query_class s) q p} (ops s)\<rparr>) (\<lambda>_ _. False) s\<close>
        [OF Cons.prems(2) this f(2)] Cons.prems(3) \<open>0 < ?c\<close>
      have w: "wp (addQueryClasses f p) (\<lambda>_ s'. s' = s1\<lparr>ops := mark ?c {r. stale_path (ops s1) ?c p r} (ops s1)\<rparr>)
          (\<lambda>_ _. False) s1" by simp
      show ?case
        unfolding forM.simps
      proof (rule wp_seqI [OF w])
        fix x s2 assume s2: "s2 = s1\<lparr>ops := mark ?c {r. stale_path (ops s1) ?c p r} (ops s1)\<rparr>"
        have "wp (forM ps (addQueryClasses f)) (\<lambda>_ s'. s' = s2\<lparr>ops := mark ?c
            {p. \<exists>i\<in>set ps. stale_path (ops s2) ?c i p} (ops s2)\<rparr>) (\<lambda>_ _. False) s2"
          using Cons.prems s2 by (intro Cons.IH) simp_all
        then show "wp (forM ps (addQueryClasses f)) (\<lambda>_ s'. s' = s1\<lparr>ops := mark ?c
            {r. \<exists>i\<in>set (p # ps). stale_path (ops s1) ?c i r} (ops s1)\<rparr>) (\<lambda>_ _. False) s2"
          unfolding stale_paths_Cons [OF \<open>0 < ?c\<close>] by (simp add: s2 mark_mark)
      qed simp
    qed simp
    show ?thesis
    proof (cases "stale ?c (ops s q)")
      case False
      then have "{p. stale_path (ops s) ?c q p} = {}" using stale_path_start by blast
      then show ?thesis using False f(1) by (simp add: stale_def)
    next
      case stale: True
      let ?s1 = "s\<lparr>ops := mark ?c {q} (ops s)\<rparr>"
      have "layered (ops ?s1) us" "set (pinputs (ops s q)) \<subseteq> set us" using Cons.prems(1) True by simp_all
      from many [OF this(2,1)]
      have "wp (forM (pinputs (ops s q)) (addQueryClasses f)) (\<lambda>_ s'. s' = s\<lparr>ops := mark ?c
            {p. stale_path (ops s) ?c q p} (ops s)\<rparr>) (\<lambda>_ _. False) ?s1"
        unfolding stale_paths_inputs [where h = "ops s" and q = q, OF \<open>0 < ?c\<close> stale] by (simp add: mark_mark)
      moreover have "?s1 = s\<lparr>ops := (ops s)(q := (ops s q)\<lparr>query_class_id := ?c\<rparr>)\<rparr>"
        by (simp add: mark_def fun_upd_def cong: if_cong)
      ultimately show ?thesis using stale f(1) by (simp add: stale_def)
    qed
  qed
qed simp

section \<open>The list of used operators is unique\<close>

lemma dll_unique: "dll nx pv p q as \<Longrightarrow> dll nx pv p q bs \<Longrightarrow> as = bs"
  by (induction as arbitrary: p q bs) (auto elim: dll.elims(2) dest: dll_head split: list.splits)

lemma pool_unique: "pool s fs us \<Longrightarrow> pool s fs' us' \<Longrightarrow> us = us' \<and> fs = fs'"
  unfolding pool_def using dll_unique by blast

section \<open>Readers of a plan\<close>

lemma tree_at_reader:
  assumes "tree_at h rs t" and "distinct (own t)" and "set (own t) \<inter> set (srcs t) = {}"
    and "a \<notin> set (own t)" and "a \<notin> set (srcs t)"
  shows "tree_at (addOuts a [troot t] (h(a := X))) (rs @ [a]) t"
proof (cases t)
  case (TSrc b cs st)
  then show ?thesis using assms(1,5) by auto
next
  case (TOp c i us)
  have "c \<noteq> a" using assms(4) TOp by simp
  moreover have "tree_at (addOuts a [troot t] (h(a := X))) [c] u" if u: "u \<in> set us" for u
  proof (rule tree_at_frame [of h])
    show "tree_at h [c] u" using assms(1) TOp u by simp
  next
    fix x assume x: "x \<in> set (own u)"
    then have "x \<noteq> c" "x \<noteq> a" using assms(2,4) TOp u by auto
    then show "addOuts a [troot t] (h(a := X)) x = h x" using TOp by (simp add: addOuts_other)
  next
    fix x assume "x \<in> set (srcs u)"
    then have "x \<noteq> a" using assms(5) TOp u by auto
    then show "same_src (h x) (addOuts a [troot t] (h(a := X)) x)"
      using same_src_addOuts [of "h(a := X)" x a "[troot t]"] by simp
  qed
  ultimately show ?thesis using assms(1) TOp by simp
qed

lemma root_mem: "troot t \<in> set (own t) \<union> set (srcs t)"
  by (cases t) auto

text \<open>The operator for the root of a plan and for the operator that reads it.\<close>

definition reader :: "pkind \<Rightarrow> punion \<Rightarrow> ptr \<Rightarrow> phyop \<Rightarrow> bool" where
  "reader k u t x \<longleftrightarrow> node_of x = \<lparr>nkind = k, nunion = u, ncols = pcols (erase t), nstream = pstream (erase t)\<rparr> \<and>
     pinputs x = [troot t] \<and> poutputs x = []"

text \<open>A plan in the pool: its own operators and its sources are in use, and apart.\<close>

definition plan_in :: "plan_manager \<Rightarrow> nat list \<Rightarrow> nat list \<Rightarrow> ptr \<Rightarrow> bool" where
  "plan_in s us rs t \<longleftrightarrow> tree_at (ops s) rs t \<and> distinct (own t) \<and> set (own t) \<inter> set (srcs t) = {} \<and>
     set (own t) \<union> set (srcs t) \<subseteq> set us"

lemma plan_in_frame:
  assumes "plan_in s us rs t" and "set us \<subseteq> set us'" and "\<And>a. a \<in> set us \<Longrightarrow> ops s' a = ops s a"
  shows "plan_in s' us' rs t"
proof -
  have "tree_at (ops s') rs t" by (rule tree_at_frame [of "ops s"]) (use assms in \<open>auto simp: plan_in_def\<close>)
  then show ?thesis using assms(1,2) by (auto simp: plan_in_def)
qed

lemma add_reader:
  assumes pool: "pool s (a # b # fs) us" and t: "plan_in s us rs t" and n: "numExprs s \<le> P_MAX_EXPRS"
  shows "wp (phy_unary k (troot t) pbStream (\<lambda>_. retM ()))
    (\<lambda>p s'. p = a \<and> grows (b # fs) us s s' [a] [troot t] \<and> plan_in s' (a # us) (rs @ [a]) t \<and> reader k U_NONE t (ops s' a))
    (\<lambda>rc s'. rc = - 1 \<and> MAX_OUT_BRANCHING \<le> length (poutputs (ops s (troot t)))) s"
proof -
  have a: "a \<notin> set us" using pool by (auto simp: pool_def)
  then have ne: "a \<notin> set (own t)" "a \<notin> set (srcs t)" "troot t \<noteq> a"
    using t root_mem [of t] by (auto simp: plan_in_def)
  have "wp (phy_unary k (troot t) pbStream (\<lambda>_. retM ()))
    (node_done 0 s a (b # fs) us \<lparr>nkind = k, nunion = U_NONE, ncols = pschema (ops s (troot t)),
       nstream = pbStream (ops s (troot t))\<rparr> [troot t])
    (node_fails 0 s a (b # fs) us [troot t]) s"
  proof (rule phy_unary_wp [OF pool ne(3)])
    fix s1 :: plan_manager assume "pu (ops s1 a) = U_NONE"
    then show "wp (retM ()) (\<lambda>_ s2. s2 = s1\<lparr>ops := (ops s1)(a := (ops s1 a)\<lparr>pu := U_NONE\<rparr>)\<rparr>) (\<lambda>_ _. False) s1"
      by (simp add: fun_upd_idem)
  qed
  then show ?thesis
  proof (rule wp_mono)
    fix p s'
    assume "node_done 0 s a (b # fs) us \<lparr>nkind = k, nunion = U_NONE, ncols = pschema (ops s (troot t)),
       nstream = pbStream (ops s (troot t))\<rparr> [troot t] p s'"
    then obtain X where p: "p = a" and m: "made s a (b # fs) us X [troot t] s'"
        and X: "node_of X = \<lparr>nkind = k, nunion = U_NONE, ncols = pschema (ops s (troot t)), nstream = pbStream (ops s (troot t))\<rparr>"
          "pinputs X = [troot t]" "poutputs X = []" by (auto simp: node_done_def)
    have o: "ops s' = addOuts a [troot t] ((ops s)(a := X))" using m by (simp add: made_def)
    have "tree_at (ops s') (rs @ [a]) t"
      unfolding o using t ne by (intro tree_at_reader) (auto simp: plan_in_def)
    moreover have "ops s' a = X" using ne(3) by (simp add: o addOuts_other)
    ultimately show "p = a \<and> grows (b # fs) us s s' [a] [troot t] \<and> plan_in s' (a # us) (rs @ [a]) t \<and> reader k U_NONE t (ops s' a)"
      using p grows_made [OF m pool] X t tree_at_cols [of "ops s" rs t] tree_at_stream [of "ops s" rs t]
      by (auto simp: plan_in_def reader_def)
  next
    fix rc s' assume "node_fails 0 s a (b # fs) us [troot t] rc s'"
    then show "rc = - 1 \<and> MAX_OUT_BRANCHING \<le> length (poutputs (ops s (troot t)))"
      using n by (auto simp: node_fails_def)
  qed
qed

section \<open>The stages of a new query\<close>

definition query_output :: "nat \<Rightarrow> nat \<Rightarrow> nat \<Rightarrow> (plan_manager, unit) comp" where
  "query_output q p out =
    bindM (readM queryOutputs) (\<lambda>outs.
    if length outs \<ge> P_MAX_OUTPUT then failM (- 1)
    else
      bindM (mk_output p) (\<lambda>outputOp.
      seqM (modM (\<lambda>s. s\<lparr>queryOutputs := outs @ [out]\<rparr>))
      (seqM (setUnion (U_OUTPUT (length outs) q) outputOp)
       (addQueryClasses P_MAX_OPS outputOp))))"

definition query_file :: "nat \<Rightarrow> nat option \<Rightarrow> nat \<Rightarrow> nat \<Rightarrow> (plan_manager, unit) comp" where
  "query_file q out p querySource =
    bindM (readM queryOutOps) (\<lambda>qs.
    if length qs \<ge> MAX_QUERIES then failM (- 1)
    else
      bindM (pget querySource) (\<lambda>x.
      seqM (modM (\<lambda>s. s\<lparr>queryOutOps := qs @ [(q, pid x)]\<rparr>))
      (case out of None \<Rightarrow> retM () | Some x \<Rightarrow> query_output q p x)))"

lemma addLogicalQueryPlan_stages:
  "addLogicalQueryPlan q h l out = bindM (genPhysicalPlan h l) (\<lambda>p. bindM (mk_qry_src p) (query_file q out p))"
  unfolding addLogicalQueryPlan_def query_file_def [abs_def] query_output_def ..

section \<open>The invariant of the graph\<close>

lemma quiet_addQueryClasses [steps]: "quiet (addQueryClasses fuel p)"
  by (induction fuel arbitrary: p) (simp_all, (intro steps; simp?)+)

lemma plan_inv_pid: "plan_inv us s \<Longrightarrow> p \<in> set us \<Longrightarrow> pid (ops s p) = p"
  by (auto simp: plan_inv_def pool_pid)

text \<open>Only the tables of the manager change.\<close>

lemma plan_inv_tables:
  assumes "plan_inv us s" and "opNext s' = opNext s" and "opPrev s' = opPrev s" and "freeOps s' = freeOps s"
    and "usedOps s' = usedOps s" and "ops s' = ops s" and "numExprs s' = numExprs s" and "numBExprs s' = numBExprs s"
    and "snd ` set (sourceOps s') \<subseteq> set us" and "snd ` set (queryOutOps s') \<subseteq> set us"
    and "length (sourceOps s') \<le> MAX_TABLES" and "length (baseTableSources s') \<le> MAX_TABLES"
    and "length (queryOutOps s') \<le> MAX_QUERIES" and "length (queryOutputs s') \<le> P_MAX_OUTPUT"
  shows "plan_inv us s'"
proof -
  have "pool s' fs us = pool s fs us" for fs by (rule pool_update) (simp_all add: assms)
  then show ?thesis using assms by (simp add: plan_inv_def)
qed

abbreviation keeps_inv :: "(plan_manager, 'a) comp \<Rightarrow> nat list \<Rightarrow> plan_manager \<Rightarrow> bool" where
  "keeps_inv m us s \<equiv> wlp m (\<lambda>_ s'. \<exists>us'. plan_inv us' s') (\<lambda>_ s'. \<exists>us'. plan_inv us' s') s"

lemma quiet_keeps_inv: "plan_inv us s \<Longrightarrow> quiet m \<Longrightarrow> keeps_inv m us s"
  by (rule within_wlp [where R = same_links]) (auto intro: plan_inv_same)

lemma adds_keeps_inv: "adds m us s \<Longrightarrow> keeps_inv m us s"
  by (rule wlp_mono, assumption) (auto dest: more_inv)

lemma adds_bind:
  assumes "adds m us s" and "\<And>p us' s'. plan_inv us' s' \<Longrightarrow> p \<in> set us' \<Longrightarrow> more us s us' s' \<Longrightarrow> keeps_inv (f p) us' s'"
  shows "keeps_inv (bindM m f) us s"
proof (rule wlp_bindI [OF assms(1)])
  fix p s' assume "\<exists>us'. more us s us' s' \<and> p \<in> set us'"
  then obtain us' where "more us s us' s'" "p \<in> set us'" by blast
  then show "wlp (f p) (\<lambda>_ s'. \<exists>us'. plan_inv us' s') (\<lambda>_ s'. \<exists>us'. plan_inv us' s') s'"
    using assms(2) more_inv by blast
qed (auto dest: more_inv)

lemma query_output_keeps:
  assumes inv: "plan_inv us s" and p: "p \<in> set us"
  shows "keeps_inv (query_output q p out) us s"
proof -
  have "keeps_inv (bindM (mk_output p) (\<lambda>outputOp.
      seqM (modM (\<lambda>s. s\<lparr>queryOutputs := outs @ [out]\<rparr>))
      (seqM (setUnion (U_OUTPUT (length outs) q) outputOp) (addQueryClasses P_MAX_OPS outputOp)))) us s"
    if n: "length outs < P_MAX_OUTPUT" for outs
  proof (rule adds_bind [OF unary_adds(10) [OF inv p]])
    fix op us1 s1 assume op: "plan_inv us1 s1"
    have "plan_inv us1 (s1\<lparr>queryOutputs := outs @ [out]\<rparr>)"
      by (rule plan_inv_tables [OF op]) (use op n in \<open>auto simp: plan_inv_def\<close>)
    then have "keeps_inv (seqM (setUnion (U_OUTPUT (length outs) q) op) (addQueryClasses P_MAX_OPS op)) us1
        (s1\<lparr>queryOutputs := outs @ [out]\<rparr>)"
      by (rule quiet_keeps_inv) (intro steps)
    then show "keeps_inv (seqM (modM (\<lambda>s. s\<lparr>queryOutputs := outs @ [out]\<rparr>))
        (seqM (setUnion (U_OUTPUT (length outs) q) op) (addQueryClasses P_MAX_OPS op))) us1 s1" by simp
  qed
  then show ?thesis using inv by (auto simp: query_output_def)
qed

lemma addLogicalQueryPlan_keeps:
  assumes "plan_inv us s"
  shows "keeps_inv (addLogicalQueryPlan q h l out) us s"
  unfolding addLogicalQueryPlan_stages genPhysicalPlan_def
proof (rule adds_bind [OF genPhysical_adds [OF assms]])
  fix p us1 s1 assume p: "plan_inv us1 s1" "p \<in> set us1"
  show "keeps_inv (bindM (mk_qry_src p) (query_file q out p)) us1 s1"
  proof (rule adds_bind [OF unary_adds(9) [OF p]])
    fix qs us2 s2 assume qs: "plan_inv us2 s2" "qs \<in> set us2" and m: "more us1 s1 us2 s2"
    let ?s3 = "s2\<lparr>queryOutOps := queryOutOps s2 @ [(q, qs)]\<rparr>"
    have "plan_inv us2 ?s3" if "length (queryOutOps s2) < MAX_QUERIES"
      by (rule plan_inv_tables [OF qs(1)]) (use qs that in \<open>auto simp: plan_inv_def\<close>)
    then show "keeps_inv (query_file q out p qs) us2 s2"
      using qs query_output_keeps more_mem [OF m p(2)]
      by (auto simp: query_file_def pget_def plan_inv_pid split: option.splits)
  qed
qed

lemma quiet_bind_keeps:
  assumes "plan_inv us s" and "quiet m" and "\<And>r s'. plan_inv us s' \<Longrightarrow> keeps_inv (f r) us s'"
  shows "keeps_inv (bindM m f) us s"
  unfolding wlp_bindM by (rule within_wlp [OF assms(2)]) (use plan_inv_same [OF assms(1)] assms(3) in blast)+

lemma if_keeps: "(b \<Longrightarrow> keeps_inv m us s) \<Longrightarrow> (\<not> b \<Longrightarrow> keeps_inv n us s) \<Longrightarrow> keeps_inv (if b then m else n) us s"
  by simp

lemma quiet_seq_keeps:
  "plan_inv us s \<Longrightarrow> quiet m \<Longrightarrow> (\<And>s'. plan_inv us s' \<Longrightarrow> keeps_inv n us s') \<Longrightarrow> keeps_inv (seqM m n) us s"
  unfolding seqM_def by (rule quiet_bind_keeps)

lemma quiet_tables [steps]: "quiet (getNumAttrs tm t)" "quiet (tableColumn tm t a)" "quiet (isStream tm t)"
    "quiet (getAttrType tm t a)" "quiet (getAttrLen tm t a)" "quiet (mapColumn tm t cols a)"
  unfolding tableColumn_def getNumAttrs_def getAttrType_def getAttrLen_def isStream_def mapColumn_def
  by (intro steps)+

lemma addBaseTable_keeps:
  assumes "plan_inv us s"
  shows "keeps_inv (addBaseTable tm t src) us s"
  unfolding addBaseTable_def
proof (rule quiet_bind_keeps [OF assms], goal_cases)
  case 1
  show ?case by (rule steps)
next
  case (2 stream s1)
  let ?rest = "\<lambda>op. bindM (readM baseTableSources) (\<lambda>srcs.
        seqM (pset op (\<lambda>x. x\<lparr>
          pu := (if stream then U_STREAM_SOURCE t (length srcs) else U_RELN_SOURCE t (length srcs)),
          pbStream := stream\<rparr>))
        (bindM (getNumAttrs tm t) (\<lambda>n.
         if n > MAX_ATTRS then failM (- 1)
         else
           bindM (mapM (tableColumn tm t) [0 ..< n]) (\<lambda>cols.
           seqM (pset op (\<lambda>x. x\<lparr>pschema := cols\<rparr>))
           (if length srcs \<ge> MAX_TABLES then failM (- 1)
            else
              seqM (modM (\<lambda>s. s\<lparr>baseTableSources := srcs @ [src]\<rparr>))
              (bindM (readM sourceOps) (\<lambda>tabs.
               if length tabs \<ge> MAX_TABLES then failM (- 1)
               else
                 bindM (pget op) (\<lambda>x.
                 modM (\<lambda>s. s\<lparr>sourceOps := tabs @ [(t, pid x)]\<rparr>)))))))))"
  have rest: "keeps_inv (?rest a) (a # us) s2" if s2: "plan_inv (a # us) s2" for a s2
  proof -
    have "keeps_inv (if length (baseTableSources s2) \<ge> MAX_TABLES then failM (- 1)
            else
              seqM (modM (\<lambda>s. s\<lparr>baseTableSources := baseTableSources s2 @ [src]\<rparr>))
              (bindM (readM sourceOps) (\<lambda>tabs.
               if length tabs \<ge> MAX_TABLES then failM (- 1)
               else
                 bindM (pget a) (\<lambda>x.
                 modM (\<lambda>s. s\<lparr>sourceOps := tabs @ [(t, pid x)]\<rparr>))))) (a # us) s3" if s3: "plan_inv (a # us) s3" for s3
    proof (cases "length (baseTableSources s2) < MAX_TABLES")
      case True
      let ?s4 = "s3\<lparr>baseTableSources := baseTableSources s2 @ [src]\<rparr>"
      have "plan_inv (a # us) ?s4"
        by (rule plan_inv_tables [OF s3]) (use s3 True in \<open>simp_all add: plan_inv_def\<close>)
      moreover have "plan_inv (a # us) (?s4\<lparr>sourceOps := sourceOps s3 @ [(t, a)]\<rparr>)"
          if "length (sourceOps s3) < MAX_TABLES"
        by (rule plan_inv_tables [OF s3]) (use s3 True that in \<open>auto simp: plan_inv_def\<close>)
      ultimately show ?thesis using True plan_inv_pid [OF s3, of a] by (auto simp: pget_def)
    qed (use s3 in auto)
    note last = this
    show ?thesis
      apply (subst wlp_bindM, subst wlp_readM)
      apply (rule quiet_seq_keeps [OF s2], intro steps, simp)
      apply (rule quiet_bind_keeps, assumption, intro steps)
      apply (rule if_keeps, simp, blast)
      apply (rule quiet_bind_keeps, assumption, intro steps)
      apply (rule quiet_seq_keeps, assumption, intro steps, simp)
      apply (rule last, assumption)
      done
  qed
  show ?case
  proof (rule wlp_bindI [OF new_op_adds [OF 2]])
    fix r s2
    assume r: "r = None \<and> s2 = s1 \<or> (\<exists>a. r = Some a \<and> a \<notin> set us \<and> more us s1 (a # us) s2 \<and>
     pinputs (ops s2 a) = [] \<and> poutputs (ops s2 a) = [] \<and> pid (ops s2 a) = a)"
    show "keeps_inv (case r of None \<Rightarrow> failM (- 1) | Some op \<Rightarrow> ?rest op) us s2"
    proof (cases r)
      case None
      then show ?thesis using r 2 by auto
    next
      case (Some a)
      then have "plan_inv (a # us) s2" using r by (auto dest: more_inv)
      then show ?thesis using Some rest by simp
    qed
  qed simp
qed

lemma mapQuery_keeps:
  assumes "plan_inv us s"
  shows "keeps_inv (mapQuery tm q t) us s"
proof -
  have "keeps_inv (bindM (readM sourceOps) (\<lambda>tabs.
           if length tabs \<ge> MAX_TABLES then failM (- 1)
           else modM (\<lambda>s. s\<lparr>sourceOps := tabs @ [(t, pid x)]\<rparr>))) us s1"
    if "plan_inv us s1" "pid x \<in> set us" for x s1
  proof (cases "length (sourceOps s1) < MAX_TABLES")
    case True
    have "plan_inv us (s1\<lparr>sourceOps := sourceOps s1 @ [(t, pid x)]\<rparr>)"
      by (rule plan_inv_tables [OF that(1)]) (use that True in \<open>auto simp: plan_inv_def\<close>)
    then show ?thesis using True by auto
  qed (use that in auto)
  note last = this
  have "pid (ops s (snd (queryOutOps s ! i))) \<in> set us" if "i < length (queryOutOps s)" for i
  proof -
    have "snd ` set (queryOutOps s) \<subseteq> set us" using assms by (simp add: plan_inv_def)
    then have "snd (queryOutOps s ! i) \<in> set us" using nth_mem [OF that] by blast
    then show ?thesis using plan_inv_pid [OF assms] by simp
  qed
  note pids = this
  have map: "keeps_inv (seqM (forM [0 ..< n] (mapColumn tm t (pschema x))) (bindM (readM sourceOps) (\<lambda>tabs.
           if length tabs \<ge> MAX_TABLES then failM (- 1)
           else modM (\<lambda>s. s\<lparr>sourceOps := tabs @ [(t, pid x)]\<rparr>)))) us s1"
    if "plan_inv us s1" "pid x \<in> set us" for x s1 n
    by (rule quiet_seq_keeps [OF that(1)]) (intro steps, rule last [OF _ that(2)])
  show ?thesis
  proof (cases "find_first (\<lambda>e. fst e = q) (queryOutOps s)")
    case None
    then show ?thesis using assms by (auto simp: mapQuery_def)
  next
    case (Some i)
    then have p: "pid (ops s (snd (queryOutOps s ! i))) \<in> set us" using pids find_first_bound by blast
    show ?thesis
      unfolding mapQuery_def pget_def
      apply (subst wlp_bindM, subst wlp_readM)
      apply (simp only: Some option.case)
      apply (subst wlp_bindM, subst wlp_readM)
      apply (rule quiet_bind_keeps [OF assms], rule steps)
      apply (rule if_keeps, simp, blast)
      apply (rule map, assumption, rule p)
      done
  qed
qed

lemma new_manager_inv: "new_manager s \<Longrightarrow> plan_inv [0] s"
  by (auto simp: new_manager_def plan_inv_def backed_def SS_ID_def MAX_TABLES_def)

section \<open>A new query\<close>

text \<open>
  The plan \<open>t\<close> of a query with its readers: the query source operator, on which other queries can
  build, and the output operator, if the answers go anywhere.
\<close>

definition query_planned ::
    "table_manager \<Rightarrow> kplan \<Rightarrow> nat \<Rightarrow> nat option \<Rightarrow> nat list \<Rightarrow> nat list \<Rightarrow> plan_manager \<Rightarrow> plan_manager \<Rightarrow> bool" where
  "query_planned tm K q out fs us s s' \<longleftrightarrow> (\<exists>new qs os rest t.
     fs = new @ qs # os @ rest \<and> length new \<le> nodes K \<and> length os = (case out of None \<Rightarrow> 0 | Some _ \<Rightarrow> 1) \<and>
     pool s' rest (os @ qs # rev new @ us) \<and>
     plan_in s' (os @ qs # rev new @ us) (qs # os) t \<and> erase t = phy_of tm (src_of s) K \<and>
     srcs t = leaves (src_of s) K \<and> reader PO_QUERY_SOURCE U_NONE t (ops s' qs) \<and>
     (\<forall>x\<in>set os. reader PO_OUTPUT (U_OUTPUT (length (queryOutputs s)) q) t (ops s' x)) \<and>
     queryOutOps s' = queryOutOps s @ [(q, qs)] \<and>
     queryOutputs s' = queryOutputs s @ (case out of None \<Rightarrow> [] | Some x \<Rightarrow> [x]) \<and>
     sourceOps s' = sourceOps s \<and> baseTableSources s' = baseTableSources s \<and>
     current_query_class s' = current_query_class s \<and> sharingAmongClasses s' = sharingAmongClasses s \<and>
     (\<forall>a\<in>set us. node_of (ops s' a) = node_of (ops s a) \<and> pinputs (ops s' a) = pinputs (ops s a) \<and>
        prefix (poutputs (ops s a)) (poutputs (ops s' a))))"

text \<open>What a query needs: a plan that is a source alone gets its readers as outputs of the source.\<close>

definition query_room :: "(nat \<Rightarrow> nat \<times> bool) \<Rightarrow> kplan \<Rightarrow> nat option \<Rightarrow> plan_manager \<Rightarrow> bool" where
  "query_room src K out s \<longleftrightarrow>
     room (exprs K) (bexprs K) (if is_source (kroot K) then (case out of None \<Rightarrow> leaves src K | Some _ \<Rightarrow> leaves src K @ leaves src K)
       else leaves src K) s \<and>
     length (queryOutOps s) < MAX_QUERIES \<and> (out \<noteq> None \<longrightarrow> length (queryOutputs s) < P_MAX_OUTPUT)"

lemma genPhysicalPlan_wp:
  assumes "kplan_at tm ls l K" and "kplan_ok tm K" and "phys_ok tm K" and "operator_ptr ls \<le> MAXOPERATOR"
    and "pool s fs us" and "nodes K < length fs" and "\<forall>t\<in>set (tables K). serves tm s us t"
  shows "wp (genPhysicalPlan (opHeap ls) l)
    (\<lambda>p s'. \<exists>new rest t. fs = new @ rest \<and> length new \<le> nodes K \<and> grows rest us s s' new (pend (src_of s) K) \<and>
       plan_in s' (rev new @ us) [] t \<and> troot t = p \<and> erase t = phy_of tm (src_of s) K \<and> srcs t = leaves (src_of s) K \<and>
       numExprs s' \<le> numExprs s + exprs K \<and> (\<forall>c i ts. t = TOp c i ts \<longrightarrow> poutputs (ops s' c) = []))
    (\<lambda>rc s'. rc = - 1 \<and> \<not> room (exprs K) (bexprs K) (pend (src_of s) K) s) s"
proof -
  obtain T where T: "plan_at ls l T" "shape T = annot tm K" using assms(1) by (auto simp: kplan_at_def)
  have "gen_spec tm (src_of s) (genPhysical MAXOPERATOR (opHeap ls) (paddr T)) K"
    using T assms(2-4) placed_depth [OF T(1)] by (intro genPhysical_spec) (auto simp: placed_def)
  then have "wp (genPhysicalPlan (opHeap ls) l) (\<lambda>p. built tm (src_of s) [K] fs us s [p])
      (gen_fails (exprs K) (bexprs K) (pend (src_of s) K) fs us s) s"
    using T(1) assms(5-7) by (simp add: genPhysicalPlan_def gen_spec_def placed_def)
  then show ?thesis
  proof (rule wp_mono)
    fix p s' assume "built tm (src_of s) [K] fs us s [p] s'"
    then obtain new rest t where b: "fs = new @ rest" "length new \<le> nodes K"
        "gen_done (exprs K) (bexprs K) (pend (src_of s) K) new rest us s [t] s'" "p = troot t"
        "erase t = phy_of tm (src_of s) K" "srcs t = leaves (src_of s) K" by (auto simp: built_def)
    then have g: "grows rest us s s' new (pend (src_of s) K)" by (simp add: gen_done_def)
    have "set new \<inter> set us = {}" using grows_disjoint [OF g] by simp
    then have "plan_in s' (rev new @ us) [] t" using b(3) by (auto simp: plan_in_def gen_done_def)
    moreover have "\<forall>c i ts. t = TOp c i ts \<longrightarrow> poutputs (ops s' c) = []" using b(3) by (auto simp: gen_done_def)
    moreover have "numExprs s' \<le> numExprs s + exprs K" using b(3) by (simp add: gen_done_def)
    ultimately show "\<exists>new rest t. fs = new @ rest \<and> length new \<le> nodes K \<and> grows rest us s s' new (pend (src_of s) K) \<and>
       plan_in s' (rev new @ us) [] t \<and> troot t = p \<and> erase t = phy_of tm (src_of s) K \<and> srcs t = leaves (src_of s) K \<and>
       numExprs s' \<le> numExprs s + exprs K \<and> (\<forall>c i ts. t = TOp c i ts \<longrightarrow> poutputs (ops s' c) = [])" using b g by blast
  qed (auto simp: gen_fails_def)
qed

text \<open>An operator that was there before: at most new readers.\<close>

definition older :: "phyop \<Rightarrow> phyop \<Rightarrow> bool" where
  "older x y \<longleftrightarrow> node_of y = node_of x \<and> pinputs y = pinputs x \<and> prefix (poutputs x) (poutputs y)"

lemma older_refl [simp]: "older x x"
  by (simp add: older_def)

lemma older_trans: "older x y \<Longrightarrow> older y z \<Longrightarrow> older x z"
  by (auto simp: older_def)

lemma older_mark [simp]: "older x (mark c N h p) = older x (h p)"
  by (simp add: older_def)

lemma grows_older:
  assumes "grows fs us s s' new L" and "a \<in> set us"
  shows "older (ops s a) (ops s' a)" and "a \<notin> set L \<Longrightarrow> poutputs (ops s' a) = poutputs (ops s a)"
proof -
  have "a \<notin> set new" using grows_disjoint [OF assms(1)] assms(2) by auto
  from grows_old [OF assms(1) this] obtain qs where
    q: "ops s' a = (ops s a)\<lparr>poutputs := poutputs (ops s a) @ qs\<rparr>" "length qs \<le> count_list L a" by metis
  then show "older (ops s a) (ops s' a)" by (simp add: older_def)
  show "poutputs (ops s' a) = poutputs (ops s a)" if "a \<notin> set L" using q that by (simp add: count_list_0_iff)
qed

lemma tree_at_mark [simp]: "tree_at (mark c N h) rs t = tree_at h rs t"
  by (induction t arbitrary: rs) simp_all

lemma reader_mark [simp]: "reader k u t (mark c N h p) = reader k u t (h p)"
  by (simp add: reader_def)

lemma pool_mark [simp]: "pool (s\<lparr>ops := mark c N h\<rparr>) fs us = pool (s\<lparr>ops := h\<rparr>) fs us"
  by (rule pool_update) simp_all

lemma add_output:
  assumes inv: "plan_inv us s" and pool: "pool s (a # b # fs) us" and t: "plan_in s us rs t" and c: "0 < current_query_class s"
  shows "wp (query_output q (troot t) x)
    (\<lambda>_ s'. pool s' (b # fs) (a # us) \<and> plan_in s' (a # us) (rs @ [a]) t \<and>
       reader PO_OUTPUT (U_OUTPUT (length (queryOutputs s)) q) t (ops s' a) \<and>
       queryOutputs s' = queryOutputs s @ [x] \<and> queryOutOps s' = queryOutOps s \<and> sourceOps s' = sourceOps s \<and>
       baseTableSources s' = baseTableSources s \<and> current_query_class s' = current_query_class s \<and>
       sharingAmongClasses s' = sharingAmongClasses s \<and>
       (\<forall>p\<in>set us. older (ops s p) (ops s' p) \<and> (p \<noteq> troot t \<longrightarrow> poutputs (ops s' p) = poutputs (ops s p))))
    (\<lambda>rc s'. rc = - 1 \<and> (P_MAX_OUTPUT \<le> length (queryOutputs s) \<or>
       MAX_OUT_BRANCHING \<le> length (poutputs (ops s (troot t))))) s"
    (is "wp _ ?Q ?E s")
proof (cases "length (queryOutputs s) < P_MAX_OUTPUT")
  case True
  have a: "a \<notin> set us" using pool by (auto simp: pool_def)
  have root: "troot t \<in> set us" using t root_mem [of t] by (auto simp: plan_in_def)
  have "numExprs s \<le> P_MAX_EXPRS" using inv by (simp add: plan_inv_def)
  note r = wp_wlp_conj [OF add_reader [OF pool t this, of PO_OUTPUT] unary_adds(10) [OF inv root, unfolded mk_output_def]]
  have "wp (bindM (mk_output (troot t)) (\<lambda>outputOp. seqM (modM (\<lambda>s'. s'\<lparr>queryOutputs := queryOutputs s @ [x]\<rparr>))
        (seqM (setUnion (U_OUTPUT (length (queryOutputs s)) q) outputOp) (addQueryClasses P_MAX_OPS outputOp)))) ?Q ?E s"
    unfolding mk_output_def
  proof (rule wp_bindI [OF r])
    fix p s1
    assume "(p = a \<and> grows (b # fs) us s s1 [a] [troot t] \<and> plan_in s1 (a # us) (rs @ [a]) t \<and> reader PO_OUTPUT U_NONE t (ops s1 a)) \<and>
      (\<exists>us'. more us s us' s1 \<and> p \<in> set us')"
    then obtain us' where p: "p = a" and g: "grows (b # fs) us s s1 [a] [troot t]" and t1: "plan_in s1 (a # us) (rs @ [a]) t"
      and rd: "reader PO_OUTPUT U_NONE t (ops s1 a)" and us': "plan_inv us' s1" using more_inv by blast
    have pool1: "pool s1 (b # fs) (a # us)" and rest: "keeps_rest s s1" using g by (simp_all add: grows_def)
    obtain gs where "pool s1 gs us'" using us' by (auto simp: plan_inv_def)
    then have "us' = a # us" using pool1 pool_unique by blast
    then have lay: "layered (ops s1) (a # us)" and inv1: "plan_inv (a # us) s1" using us' by (simp_all add: plan_inv_def)
    let ?h = "(ops s1)(a := (ops s1 a)\<lparr>pu := U_OUTPUT (length (queryOutputs s)) q\<rparr>)"
    let ?s2 = "s1\<lparr>queryOutputs := queryOutputs s @ [x], ops := ?h\<rparr>"
    have "layered (ops ?s2) (a # us) = layered (ops s1) (a # us)" by (rule layered_cong) simp
    then have lay2: "layered (ops ?s2) (a # us)" using lay by simp
    have len: "length (a # us) \<le> P_MAX_OPS" using pool_length [OF pool1] by simp
    have c1: "0 < current_query_class ?s2" using rest c by (simp add: keeps_rest_def)
    have pool2: "pool ?s2 (b # fs) (a # us)" using pool1 pool_update [of ?s2 s1] by simp
    have na: "a \<notin> set (own t)" "a \<notin> set (srcs t)" using t a by (auto simp: plan_in_def)
    have "tree_at (ops s1) (rs @ [a]) t" using t1 by (simp add: plan_in_def)
    then have "tree_at ?h (rs @ [a]) t"
    proof (rule tree_at_frame)
      show "?h p = ops s1 p" if "p \<in> set (own t)" for p using that na by auto
      show "same_src (ops s1 p) (?h p)" if "p \<in> set (srcs t)" for p using that na by auto
    qed
    then have t2: "plan_in (s1\<lparr>queryOutputs := qo, ops := mark d N ?h\<rparr>) (a # us) (rs @ [a]) t" for qo d N
      using t1 unfolding plan_in_def by simp
    have old: "older (ops s p) (?h p) \<and> (p \<noteq> troot t \<longrightarrow> poutputs (?h p) = poutputs (ops s p))" if "p \<in> set us" for p
    proof -
      have "p \<noteq> a" using that a by auto
      then show ?thesis using grows_older [OF g that] by simp
    qed
    have "wp (addQueryClasses P_MAX_OPS a) ?Q (\<lambda>_ _. False) ?s2"
      by (rule wp_mono [OF addQueryClasses_wp [OF lay2 list.set_intros(1) len c1]])
        (use pool2 t2 old rd rest in \<open>auto simp: keeps_rest_def reader_def node_of_def\<close>)
    then show "wp (seqM (modM (\<lambda>s'. s'\<lparr>queryOutputs := queryOutputs s @ [x]\<rparr>))
        (seqM (setUnion (U_OUTPUT (length (queryOutputs s)) q) p) (addQueryClasses P_MAX_OPS p))) ?Q ?E s1"
      by (simp add: p) (erule wp_mono, simp_all)
  qed simp
  then show ?thesis using True by (simp add: query_output_def)
qed (simp add: query_output_def)

text \<open>The readers of a plan that is a source alone are outputs of the source.\<close>

lemma room_root:
  assumes g: "grows fs us s s1 new (pend (src_of s) K)" and e: "erase t = phy_of tm (src_of s) K"
    and l: "srcs t = leaves (src_of s) K" and n: "\<forall>c i ts. t = TOp c i ts \<longrightarrow> poutputs (ops s1 c) = []"
    and us: "set (leaves (src_of s) K) \<subseteq> set us"
  shows "if is_source (kroot K) then leaves (src_of s) K = [troot t] \<and> poutputs (ops s1 (troot t)) = poutputs (ops s (troot t))
    else poutputs (ops s1 (troot t)) = []"
proof (cases "is_source (kroot K)")
  case True
  then obtain c cs st where t: "t = TSrc c cs st" using erase_source [OF e] by blast
  then have "leaves (src_of s) K = [c]" using l by simp
  moreover have "poutputs (ops s1 c) = poutputs (ops s c)"
    using grows_older(2) [OF g] us True calculation by (simp add: pend_def)
  ultimately show ?thesis using True t by simp
next
  case False
  then obtain c i ts where "t = TOp c i ts" using erase_op [OF e] by blast
  then show ?thesis using n False by simp
qed

lemma room_gen: "query_room src K out s \<Longrightarrow> room (exprs K) (bexprs K) (pend src K) s"
  by (auto simp: query_room_def room_def pend_def split: if_splits option.splits)

lemma addLogicalQueryPlan_wp:
  assumes K: "kplan_at tm ls l K" "kplan_ok tm K" "phys_ok tm K" "operator_ptr ls \<le> MAXOPERATOR"
    and inv: "plan_inv us s" and pool: "pool s fs us" and n: "nodes K + 2 < length fs"
    and tabs: "\<forall>t\<in>set (tables K). serves tm s us t" and c: "0 < current_query_class s"
  shows "wp (addLogicalQueryPlan q (opHeap ls) l out) (\<lambda>_. query_planned tm K q out fs us s)
    (\<lambda>rc s'. rc = - 1 \<and> \<not> query_room (src_of s) K out s) s"
    (is "wp _ ?Q ?E s")
proof -
  have "nodes K < length fs" using n by simp
  note gen = wp_wlp_conj [OF genPhysicalPlan_wp [OF K pool this tabs] genPhysical_adds [OF inv, of MAXOPERATOR "opHeap ls" l, folded genPhysicalPlan_def]]
  show ?thesis
    unfolding addLogicalQueryPlan_stages
  proof (rule wp_bindI [OF gen])
    fix p s1
    assume "(\<exists>new rest t. fs = new @ rest \<and> length new \<le> nodes K \<and> grows rest us s s1 new (pend (src_of s) K) \<and>
       plan_in s1 (rev new @ us) [] t \<and> troot t = p \<and> erase t = phy_of tm (src_of s) K \<and> srcs t = leaves (src_of s) K \<and>
       numExprs s1 \<le> numExprs s + exprs K \<and> (\<forall>c i ts. t = TOp c i ts \<longrightarrow> poutputs (ops s1 c) = [])) \<and>
      (\<exists>us'. more us s us' s1 \<and> p \<in> set us')"
    then obtain new rest1 t us1 where fs: "fs = new @ rest1" "length new \<le> nodes K"
        and g: "grows rest1 us s s1 new (pend (src_of s) K)" and t: "plan_in s1 (rev new @ us) [] t" "troot t = p"
          "erase t = phy_of tm (src_of s) K" "srcs t = leaves (src_of s) K" "\<forall>c i ts. t = TOp c i ts \<longrightarrow> poutputs (ops s1 c) = []"
        and us1: "plan_inv us1 s1" using more_inv by blast
    have pool1: "pool s1 rest1 (rev new @ us)" and rest: "keeps_rest s s1" using g by (simp_all add: grows_def)
    obtain gs where "pool s1 gs us1" using us1 by (auto simp: plan_inv_def)
    then have inv1: "plan_inv (rev new @ us) s1" using pool1 pool_unique us1 by blast
    have "3 \<le> length rest1" using fs n by simp
    then obtain a b d fs' where rest1: "rest1 = a # b # d # fs'"
      by (metis Suc_le_length_iff numeral_3_eq_3)
    have leaves: "set (leaves (src_of s) K) \<subseteq> set us" by (rule leaves_used [OF tabs])
    note root = room_root [OF g t(3,4,5) leaves]
    have p: "p \<in> set (rev new @ us)" using t(1,2) root_mem [of t] by (auto simp: plan_in_def)
    have pool1': "pool s1 (a # b # d # fs') (rev new @ us)" using pool1 rest1 by simp
    have "numExprs s1 \<le> P_MAX_EXPRS" using inv1 by (simp add: plan_inv_def)
    note r = wp_wlp_conj [OF add_reader [OF pool1' t(1) this, of PO_QUERY_SOURCE, unfolded t(2)] unary_adds(9) [OF inv1 p, unfolded mk_qry_src_def]]
    have old1: "older (ops s x) (ops s1 x)" if "x \<in> set us" for x using grows_older(1) [OF g that] .
    show "wp (bindM (mk_qry_src p) (query_file q out p)) ?Q ?E s1"
      unfolding mk_qry_src_def
    proof (rule wp_bindI [OF r])
      fix qs s2
      assume "(qs = a \<and> grows (b # d # fs') (rev new @ us) s1 s2 [a] [p] \<and> plan_in s2 (a # rev new @ us) ([] @ [a]) t \<and>
          reader PO_QUERY_SOURCE U_NONE t (ops s2 a)) \<and> (\<exists>us'. more (rev new @ us) s1 us' s2 \<and> qs \<in> set us')"
      then obtain us2 where qs: "qs = a" and g2: "grows (b # d # fs') (rev new @ us) s1 s2 [a] [p]"
        and t2: "plan_in s2 (a # rev new @ us) [a] t" and rd: "reader PO_QUERY_SOURCE U_NONE t (ops s2 a)"
        and m2: "more (rev new @ us) s1 us2 s2" by auto
      have us2: "plan_inv us2 s2" by (rule more_inv [OF m2])
      have pool2: "pool s2 (b # d # fs') (a # rev new @ us)" and rest2: "keeps_rest s s2"
        using g2 keeps_rest_trans [OF rest] by (simp_all add: grows_def)
      obtain gs where "pool s2 gs us2" using us2 by (auto simp: plan_inv_def)
      then have inv2: "plan_inv (a # rev new @ us) s2" using pool2 pool_unique us2 by blast
      have pid: "pid (ops s2 a) = a" using plan_inv_pid [OF inv2] by simp
      have old2: "older (ops s x) (ops s2 x)" if "x \<in> set us" for x
        by (rule older_trans [OF old1 [OF that]]) (use grows_older(1) [OF g2] that in simp)
      have a: "a \<notin> set (rev new @ us)" using pool1' by (auto simp: pool_def)
      let ?s3 = "s2\<lparr>queryOutOps := queryOutOps s2 @ [(q, a)]\<rparr>"
      have pool3: "pool ?s3 (b # d # fs') (a # rev new @ us)" using pool2 pool_update [of ?s3 s2] by simp
      show "wp (query_file q out p qs) ?Q ?E s2"
      proof (cases "length (queryOutOps s2) < MAX_QUERIES")
        case False
        then show ?thesis using rest2 by (simp add: query_room_def keeps_rest_def query_file_def)
      next
        case qn: True
        show ?thesis
        proof (cases out)
          case None
          have "query_planned tm K q out fs us s ?s3"
            unfolding query_planned_def
            by (rule exI [of _ new], rule exI [of _ a], rule exI [of _ "[]"], rule exI [of _ "b # d # fs'"], rule exI [of _ t])
              (use fs rest1 pool3 t2 t rd rest2 old2 None in \<open>simp add: keeps_rest_def plan_in_def older_def\<close>)
          then show ?thesis using qn None by (simp add: qs pid query_file_def)
        next
          case (Some x)
          have inv3: "plan_inv (a # rev new @ us) ?s3"
            by (rule plan_inv_tables [OF inv2]) (use inv2 qn in \<open>auto simp: plan_inv_def\<close>)
          have t3: "plan_in ?s3 (a # rev new @ us) [a] t" using t2 by (simp add: plan_in_def)
          have c3: "0 < current_query_class ?s3" using c rest2 by (simp add: keeps_rest_def)
          have ap: "a \<noteq> p" using a p by auto
          note out = add_output [OF inv3 pool3 t3 c3, unfolded t(2), where x = x and q = q]
          have planned: "query_planned tm K q out fs us s s'"
            if w: "pool s' (d # fs') (b # a # rev new @ us) \<and> plan_in s' (b # a # rev new @ us) ([a] @ [b]) t \<and>
       reader PO_OUTPUT (U_OUTPUT (length (queryOutputs ?s3)) q) t (ops s' b) \<and>
       queryOutputs s' = queryOutputs ?s3 @ [x] \<and> queryOutOps s' = queryOutOps ?s3 \<and> sourceOps s' = sourceOps ?s3 \<and>
       baseTableSources s' = baseTableSources ?s3 \<and> current_query_class s' = current_query_class ?s3 \<and>
       sharingAmongClasses s' = sharingAmongClasses ?s3 \<and>
       (\<forall>y\<in>set (a # rev new @ us). older (ops ?s3 y) (ops s' y) \<and> (y \<noteq> p \<longrightarrow> poutputs (ops s' y) = poutputs (ops ?s3 y)))" for s'
          proof -
            have rd': "reader PO_QUERY_SOURCE U_NONE t (ops s' a)"
              using w rd ap by (simp add: reader_def older_def)
            have "older (ops s y) (ops s' y)" if y: "y \<in> set us" for y
              by (rule older_trans [OF old2 [OF y]]) (use w y in simp)
            then show ?thesis
              unfolding query_planned_def
              by (intro exI [of _ new] exI [of _ a] exI [of _ "[b]"] exI [of _ "d # fs'"] exI [of _ t])
                (use fs rest1 t w rd' rest2 Some in \<open>simp add: keeps_rest_def older_def\<close>)
          qed
          have fails: "\<not> query_room (src_of s) K out s"
            if w: "P_MAX_OUTPUT \<le> length (queryOutputs ?s3) \<or> MAX_OUT_BRANCHING \<le> length (poutputs (ops ?s3 p))"
          proof (cases "P_MAX_OUTPUT \<le> length (queryOutputs ?s3)")
            case True
            then show ?thesis using rest2 Some by (simp add: query_room_def keeps_rest_def)
          next
            case False
            have len: "MAX_OUT_BRANCHING \<le> length (poutputs (ops s2 p))" using w False by simp
            then have len: "MAX_OUT_BRANCHING \<le> length (poutputs (ops s1 p)) + 1"
              using grows_outputs [OF g2 p] by simp
            then have "is_source (kroot K)" "MAX_OUT_BRANCHING < length (poutputs (ops s p)) + 2" "leaves (src_of s) K = [p]"
              using root t(2) by (auto simp: MAX_OUT_BRANCHING_def split: if_splits)
            then show ?thesis using Some by (simp add: query_room_def room_def)
          qed
          have "wp (query_output q p x) ?Q ?E ?s3"
            by (rule wp_mono [OF out], rule planned, assumption, use fails in blast)
          then show ?thesis using qn by (simp add: qs pid query_file_def Some)
        qed
      qed
    next
      fix rc :: int and s'
      assume "(rc = - 1 \<and> MAX_OUT_BRANCHING \<le> length (poutputs (ops s1 p))) \<and> (\<exists>us'. more (rev new @ us) s1 us' s')"
      then show "?E rc s'"
        using root t(2) by (auto simp: MAX_OUT_BRANCHING_def query_room_def room_def split: if_splits option.splits)
    qed
  qed (use room_gen in blast)
qed

section \<open>Views\<close>

text \<open>The first operator that is filed for a query.\<close>

definition query_op :: "nat \<Rightarrow> plan_manager \<Rightarrow> nat option" where
  "query_op q s = map_option (\<lambda>i. snd (queryOutOps s ! i)) (find_first (\<lambda>e. fst e = q) (queryOutOps s))"

lemma mapColumn_wp:
  assumes "attr_valid tm t a" and "a < length cols" and "snd (cols ! a) \<noteq> None"
  shows "wp (mapColumn tm t cols a)
    (\<lambda>_ s'. s' = s \<and> cols ! a = (attrType (attrList (tableList tm ! t) ! a), Some (attrLen (attrList (tableList tm ! t) ! a))))
    (\<lambda>rc s'. s' = s \<and> rc = - 1 \<and>
       cols ! a \<noteq> (attrType (attrList (tableList tm ! t) ! a), Some (attrLen (attrList (tableList tm ! t) ! a)))) s"
  using assms by (cases "cols ! a") (auto simp: mapColumn_def)

lemma mapColumns_wp:
  assumes "t < length (tableList tm)" and "length cols = length (attrList (tableList tm ! t))"
    and "\<forall>c\<in>set cols. snd c \<noteq> None"
  shows "wp (forM [0 ..< length cols] (mapColumn tm t cols)) (\<lambda>_ s'. s' = s \<and> cols = table_cols tm t)
    (\<lambda>rc s'. s' = s \<and> rc = - 1 \<and> cols \<noteq> table_cols tm t) s"
proof -
  let ?as = "attrList (tableList tm ! t)"
  let ?col = "\<lambda>a. (attrType (?as ! a), Some (attrLen (?as ! a)))"
  show ?thesis
  proof (rule wp_forM [where I = "\<lambda>i s'. s' = s \<and> (\<forall>a<i. cols ! a = ?col a)"])
    fix i s' assume i: "i < length [0 ..< length cols]" and I: "s' = s \<and> (\<forall>a<i. cols ! a = ?col a)"
    have "attr_valid tm t ([0 ..< length cols] ! i)" "[0 ..< length cols] ! i < length cols"
      using i assms(1,2) by (simp_all add: attr_valid_def)
    moreover have "snd (cols ! ([0 ..< length cols] ! i)) \<noteq> None" using i assms(3) by simp
    ultimately have w: "wp (mapColumn tm t cols ([0 ..< length cols] ! i)) (\<lambda>_ s2. s2 = s' \<and> cols ! i = ?col i)
        (\<lambda>rc s2. s2 = s' \<and> rc = - 1 \<and> cols ! i \<noteq> ?col i) s'"
      using mapColumn_wp [of tm t "[0 ..< length cols] ! i" cols s'] i by simp
    show "wp (mapColumn tm t cols ([0 ..< length cols] ! i)) (\<lambda>_ s'. s' = s \<and> (\<forall>a<Suc i. cols ! a = ?col a))
        (\<lambda>rc s'. s' = s \<and> rc = - 1 \<and> cols \<noteq> table_cols tm t) s'"
      by (rule wp_mono [OF w]) (use i I assms(2) in \<open>auto simp: less_Suc_eq table_cols_def\<close>)
  next
    fix s' assume "s' = s \<and> (\<forall>a<length [0 ..< length cols]. cols ! a = ?col a)"
    then show "s' = s \<and> cols = table_cols tm t"
      using assms(2) by (auto simp: table_cols_def intro: nth_equalityI)
  qed simp
qed

lemma mapQuery_wp:
  assumes inv: "plan_inv us s" and t: "t < length (tableList tm)"
    and lens: "\<And>p. query_op q s = Some p \<Longrightarrow> \<forall>c\<in>set (pschema (ops s p)). snd c \<noteq> None"
  shows "wp (mapQuery tm q t)
    (\<lambda>_ s'. \<exists>p. query_op q s = Some p \<and> pschema (ops s p) = table_cols tm t \<and>
       s' = s\<lparr>sourceOps := sourceOps s @ [(t, p)]\<rparr>)
    (\<lambda>rc s'. rc = - 1 \<and> s' = s \<and> (query_op q s = None \<or> length (sourceOps s) = MAX_TABLES \<or>
       (\<exists>p. query_op q s = Some p \<and> pschema (ops s p) \<noteq> table_cols tm t))) s"
proof (cases "find_first (\<lambda>e. fst e = q) (queryOutOps s)")
  case None
  then show ?thesis by (simp add: mapQuery_def query_op_def)
next
  case (Some i)
  let ?p = "snd (queryOutOps s ! i)"
  have op: "query_op q s = Some ?p" using Some by (simp add: query_op_def)
  have "?p \<in> snd ` set (queryOutOps s)" using find_first_bound [OF Some] by simp
  then have "?p \<in> set us" using inv by (auto simp: plan_inv_def)
  then have pid: "pid (ops s ?p) = ?p" by (rule plan_inv_pid [OF inv])
  have full: "length (sourceOps s) \<le> MAX_TABLES" using inv by (simp add: plan_inv_def)
  show ?thesis
  proof (cases "length (pschema (ops s ?p)) = length (attrList (tableList tm ! t))")
    case False
    then have "pschema (ops s ?p) \<noteq> table_cols tm t" by (auto simp: table_cols_def)
    then show ?thesis using False Some t op by (simp add: mapQuery_def)
  next
    case True
    show ?thesis
      using Some t op pid full True wp_mono [OF mapColumns_wp [OF t True lens [OF op], of s]]
      by (simp add: mapQuery_def)
  qed
qed

lemma view_served:
  assumes "query_op q s = Some p" and "p \<in> set us" and "pschema (ops s p) = table_cols tm t"
    and "pkind (ops s p) \<noteq> PO_SELECT" and "t \<notin> fst ` set (sourceOps s)"
  shows "serves tm (s\<lparr>sourceOps := sourceOps s @ [(t, p)]\<rparr>) us t"
    and "src_of (s\<lparr>sourceOps := sourceOps s @ [(t, p)]\<rparr>) t = (p, pbStream (ops s p))"
  using assms by (simp_all add: served_def src_of_def find_source_new)

end
