(* ===== verification/Plan_Spec.thy ===== *)
theory Plan_Spec
  imports Plan_Query Phy_Spec
begin

text \<open>
  What the plan manager promises of the query classes of operators.
\<close>

text \<open>C29: \<open>addQueryClasses\<close> marks, with the class that is current, exactly the operators that the given
  one reads from, directly or not, through operators without class or of a later class, and it
  changes nothing else.  Its recursion ends: it is never deeper than the pool is long.\<close>
theorem addQueryClasses_marks:
  assumes "plan_inv us s" and "q \<in> set us" and "0 < current_query_class s"
  shows "wp (addQueryClasses P_MAX_OPS q)
    (\<lambda>_ s'. s' = s\<lparr>ops := \<lambda>p. if stale_path (ops s) (current_query_class s) q p
       then (ops s p)\<lparr>query_class_id := current_query_class s\<rparr> else ops s p\<rparr>)
    (\<lambda>_ _. False) s"
proof -
  obtain fs where "pool s fs us" using assms(1) by (auto simp: plan_inv_def)
  then have "length us \<le> P_MAX_OPS" using pool_length [of s fs us] by simp
  moreover have "layered (ops s) us" using assms(1) by (simp add: plan_inv_def)
  ultimately show ?thesis using addQueryClasses_wp [OF _ assms(2) _ assms(3)] by (simp add: mark_def)
qed

theorem addQueryClasses_marks_witness:
  "\<exists>s. new_manager s \<and> wp (addQueryClasses P_MAX_OPS 0) (\<lambda>_ s'. query_class_id (ops s' 0) = 1)
    (\<lambda>_ _. False) (s\<lparr>ops := (ops s)(0 := (ops s 0)\<lparr>query_class_id := 5\<rparr>)\<rparr>)"
proof -
  obtain s where s: "new_manager s" using new_manager_exists by blast
  let ?s = "s\<lparr>ops := (ops s)(0 := (ops s 0)\<lparr>query_class_id := 5\<rparr>)\<rparr>"
  have inv: "plan_inv [0] ?s"
    by (rule plan_inv_same [OF new_manager_inv [OF s]]) (simp add: same_links_def keeps_rest_def)
  have c: "current_query_class ?s = 1" using s by (simp add: new_manager_def)
  have "stale_path (ops ?s) 1 0 0" by (rule stale_start) (simp add: stale_def)
  moreover have "0 \<in> set [0 :: nat]" "0 < current_query_class ?s" using c by simp_all
  ultimately have "wp (addQueryClasses P_MAX_OPS 0) (\<lambda>_ s'. query_class_id (ops s' 0) = 1) (\<lambda>_ _. False) ?s"
    using wp_mono [OF addQueryClasses_marks [OF inv], where Q' = "\<lambda>_ s'. query_class_id (ops s' 0) = 1"] c by simp
  then show ?thesis using s by blast
qed

end
