(* ===== verification/Server.thy ===== *)
theory Server
  imports Grammar Query_Manager Naive_Plan Log_Trans Plan_Manager
begin

text \<open>
  \<open>src/server/server_impl.cc\<close>: the server, which owns the managers and runs a command through all
  stages of the compilation.

  The automaton of the parser is a parameter \<open>derive\<close>: for a text, the command that it derives,
  or \<open>None\<close> for a syntax error.  The static variables of the parser, of the interpreter and of the
  generator of logical plans are part of the state.
\<close>

section \<open>State\<close>

datatype server_state = S_INIT | S_APP_SPEC | S_PLAN_GEN | S_EXEC | S_INT | S_END

record server =
  svState :: server_state
  tableMgr :: "table_manager option"
  qryMgr :: "query_manager option"
  planMgr :: "plan_manager option"
  svParser :: parser_state
  svSem :: sem_state
  svLog :: lstate
  svClass :: int                           \<comment> \<open>\<open>current_query_class\<close>\<close>
  svSharing :: bool                        \<comment> \<open>\<open>SHARING_AMONG_CLASSES\<close>\<close>

text \<open>The constructor; what it does not set are parameters of the configuration.\<close>

definition newServer :: "parser_state \<Rightarrow> sem_state \<Rightarrow> lstate \<Rightarrow> bool \<Rightarrow> server" where
  "newServer p se l sharing = \<lparr>svState = S_INIT, tableMgr = None, qryMgr = None, planMgr = None,
     svParser = p, svSem = se, svLog = l, svClass = 1, svSharing = sharing\<rparr>"

section \<open>Parts of the state\<close>

text \<open>A computation on a part of the state; the part of a null pointer cannot be used.\<close>

definition zoomM :: "('s \<Rightarrow> 'p option) \<Rightarrow> ('p \<Rightarrow> 's \<Rightarrow> 's) \<Rightarrow> ('p, 'a) comp \<Rightarrow> ('s, 'a) comp" where
  "zoomM part put m = (\<lambda>s. case part s of
      None \<Rightarrow> Undef
    | Some p \<Rightarrow> (case m p of
        Done a p' \<Rightarrow> Done a (put p' s)
      | Fail rc p' \<Rightarrow> Fail rc (put p' s)
      | Exit n \<Rightarrow> Exit n
      | Undef \<Rightarrow> Undef))"

definition onTables :: "(table_manager, 'a) comp \<Rightarrow> (server, 'a) comp" where
  "onTables = zoomM tableMgr (\<lambda>x s. s\<lparr>tableMgr := Some x\<rparr>)"

definition onQueries :: "(query_manager, 'a) comp \<Rightarrow> (server, 'a) comp" where
  "onQueries = zoomM qryMgr (\<lambda>x s. s\<lparr>qryMgr := Some x\<rparr>)"

definition onPlan :: "(plan_manager, 'a) comp \<Rightarrow> (server, 'a) comp" where
  "onPlan = zoomM planMgr (\<lambda>x s. s\<lparr>planMgr := Some x\<rparr>)"

definition onParser :: "(parser_state, 'a) comp \<Rightarrow> (server, 'a) comp" where
  "onParser = zoomM (\<lambda>s. Some (svParser s)) (\<lambda>x s. s\<lparr>svParser := x\<rparr>)"

definition onSem :: "(sem_state, 'a) comp \<Rightarrow> (server, 'a) comp" where
  "onSem = zoomM (\<lambda>s. Some (svSem s)) (\<lambda>x s. s\<lparr>svSem := x\<rparr>)"

definition onLog :: "(lstate, 'a) comp \<Rightarrow> (server, 'a) comp" where
  "onLog = zoomM (\<lambda>s. Some (svLog s)) (\<lambda>x s. s\<lparr>svLog := x\<rparr>)"

definition theTables :: "(server, table_manager) comp" where
  "theTables = bindM (readM tableMgr) derefM"

text \<open>\<open>if ((rc = m) != 0) { h; return rc; }\<close>\<close>

definition onFail :: "('s, 'a) comp \<Rightarrow> ('s, unit) comp \<Rightarrow> ('s, 'a) comp" where
  "onFail m h = (\<lambda>s. case m s of Fail rc s' \<Rightarrow> seqM h (failM rc) s' | r \<Rightarrow> r)"

section \<open>Starting\<close>

text \<open>
  The memory of the new managers is arbitrary: \<open>mem\<close> for the plan manager, \<open>buf\<close> for the buffer of
  query strings.
\<close>

definition beginAppSpecification :: "plan_manager \<Rightarrow> (nat \<Rightarrow> char) \<Rightarrow> (server, unit) comp" where
  "beginAppSpecification mem buf =
    bindM (readM svState) (\<lambda>st.
    if st \<noteq> S_INIT then failM INVALID_USE_ERR
    else
      seqM (modM (\<lambda>s. s\<lparr>svState := S_APP_SPEC\<rparr>))
      (seqM (modM (\<lambda>s. s\<lparr>tableMgr := Some empty_table_manager\<rparr>))
      (seqM (modM (\<lambda>s. s\<lparr>qryMgr := Some (init_query_manager buf)\<rparr>))
      (seqM (modM (\<lambda>s. s\<lparr>planMgr := Some mem\<rparr>))
      (seqM (onPlan newPlanManagerImpl)
      (bindM (readM svSharing) (\<lambda>sh.
       onPlan (modM (\<lambda>p. p\<lparr>sharingAmongClasses := sh\<rparr>)))))))))"

section \<open>Declarations of tables\<close>

text \<open>The parse tree of a text, or null for a syntax error.\<close>

definition parseText :: "(string \<Rightarrow> g_command option) \<Rightarrow> string \<Rightarrow> (server, node option) comp" where
  "parseText derive text =
    onParser
      (case derive text of
        None \<Rightarrow> seqM reset_charptr (seqM init_parser (retM None))
      | Some c \<Rightarrow> bindM (parseCommand c) (\<lambda>n. retM (Some n)))"

definition attr_spec_len :: "ctype \<Rightarrow> nat \<Rightarrow> nat" where
  "attr_spec_len ty len =
    (case ty of T_INT \<Rightarrow> INT_SIZE | T_FLOAT \<Rightarrow> FLOAT_SIZE | T_CHAR \<Rightarrow> len | T_BYTE \<Rightarrow> BYTE_SIZE)"

text \<open>The loop over the list of attributes: the first one that is refused takes the table with it.\<close>

fun addAttributes :: "nat \<Rightarrow> node option \<Rightarrow> (table_manager, unit) comp" where
  "addAttributes tableId None = retM ()"
| "addAttributes tableId (Some (N_LIST (N_ATTR_SPEC aName aType len) nxt)) =
    seqM (onFail (addTableAttribute tableId aName aType (attr_spec_len aType len)) (unregisterTable tableId))
    (addAttributes tableId nxt)"
| "addAttributes tableId (Some n) = undefM"

definition registerRelationSpec :: "string \<Rightarrow> node \<Rightarrow> (table_manager, nat) comp" where
  "registerRelationSpec relName attrs =
    bindM (registerRelation relName) (\<lambda>relId. seqM (addAttributes relId (Some attrs)) (retM relId))"

definition registerStreamSpec :: "string \<Rightarrow> node \<Rightarrow> (table_manager, nat) comp" where
  "registerStreamSpec strName attrs =
    bindM (registerStream strName) (\<lambda>strId. seqM (addAttributes strId (Some attrs)) (retM strId))"

definition declareNode :: "node \<Rightarrow> (table_manager, nat) comp" where
  "declareNode parseTree =
    (case parseTree of
      N_REL_SPEC r as \<Rightarrow> registerRelationSpec r as
    | N_STR_SPEC s as \<Rightarrow> registerStreamSpec s as
    | _ \<Rightarrow> failM PARSE_ERR)"

text \<open>What \<open>registerBaseTable\<close> and \<open>registerView\<close> have in common; a null pointer is \<open>None\<close>.\<close>

definition declareTable :: "(string \<Rightarrow> g_command option) \<Rightarrow> string option \<Rightarrow> (server, nat) comp" where
  "declareTable derive tableInfo =
    bindM (readM svState) (\<lambda>st.
    if st \<noteq> S_APP_SPEC then failM INVALID_USE_ERR
    else case tableInfo of
      None \<Rightarrow> failM INVALID_PARAM_ERR
    | Some text \<Rightarrow>
        bindM (parseText derive text) (\<lambda>t.
        case t of
          None \<Rightarrow> failM PARSE_ERR
        | Some parseTree \<Rightarrow> onTables (declareNode parseTree)))"

definition registerBaseTable ::
    "(string \<Rightarrow> g_command option) \<Rightarrow> string option \<Rightarrow> nat \<Rightarrow> (server, unit) comp" where
  "registerBaseTable derive tableInfo input =
    bindM (declareTable derive tableInfo) (\<lambda>tableId.
    bindM theTables (\<lambda>tm. onPlan (addBaseTable tm tableId input)))"

definition registerView ::
    "(string \<Rightarrow> g_command option) \<Rightarrow> nat \<Rightarrow> string option \<Rightarrow> (server, unit) comp" where
  "registerView derive queryId tableInfo =
    bindM (declareTable derive tableInfo) (\<lambda>tableId.
    bindM theTables (\<lambda>tm. onPlan (mapQuery tm queryId tableId)))"

section \<open>Queries\<close>

definition registerQuery ::
    "(string \<Rightarrow> g_command option) \<Rightarrow> string \<Rightarrow> nat option \<Rightarrow> (server, nat) comp" where
  "registerQuery derive querySpec output =
    bindM (readM svState) (\<lambda>st.
    if st \<noteq> S_APP_SPEC then failM INVALID_USE_ERR
    else
      bindM (parseText derive querySpec) (\<lambda>t.
      case t of
        None \<Rightarrow> failM PARSE_ERR
      | Some parseTree \<Rightarrow>
          bindM theTables (\<lambda>tm.
          seqM (onSem (interpretQuery tm parseTree))
          (bindM (readM (\<lambda>s. qry (svSem s))) (\<lambda>semQuery.
           bindM (onQueries (registerQueryStr querySpec (length querySpec))) (\<lambda>queryId.
           bindM (onLog (genLogPlan tm semQuery)) (\<lambda>logPlan.
           bindM (readM svClass) (\<lambda>c.
           seqM (onPlan (modM (\<lambda>p. p\<lparr>current_query_class := c\<rparr>)))
           (bindM (readM (\<lambda>s. opHeap (svLog s))) (\<lambda>h.
            seqM (onPlan (addLogicalQueryPlan queryId h logPlan output))
            (retM queryId)))))))))))"

section \<open>The end\<close>

definition endAppSpecification :: "(server, unit) comp" where
  "endAppSpecification =
    bindM (readM svState) (\<lambda>st.
    if st \<noteq> S_APP_SPEC then failM INVALID_USE_ERR
    else seqM (onPlan optimize_plan) (modM (\<lambda>s. s\<lparr>svState := S_PLAN_GEN\<rparr>)))"

section \<open>Commands\<close>

text \<open>The calls of the interface; the first one carries the memory of the managers it makes.\<close>

datatype command =
    CMD_BEGIN plan_manager "nat \<Rightarrow> char"
  | CMD_TABLE "string option" nat
  | CMD_QUERY string "nat option"
  | CMD_VIEW nat "string option"
  | CMD_END

fun runCommand :: "(string \<Rightarrow> g_command option) \<Rightarrow> command \<Rightarrow> (server, unit) comp" where
  "runCommand derive (CMD_BEGIN mem buf) = beginAppSpecification mem buf"
| "runCommand derive (CMD_TABLE info src) = registerBaseTable derive info src"
| "runCommand derive (CMD_QUERY spec out) = seqM (registerQuery derive spec out) (retM ())"
| "runCommand derive (CMD_VIEW q info) = registerView derive q info"
| "runCommand derive CMD_END = endAppSpecification"

text \<open>The class of the queries to come is a public member, which the coordinator sets at will.\<close>

definition setQueryClass :: "int \<Rightarrow> (server, unit) comp" where
  "setQueryClass c = modM (\<lambda>s. s\<lparr>svClass := c\<rparr>)"

text \<open>
  The states that a sequence of commands can lead to, any of which may fail.  The flag says whether an
  \<open>endAppSpecification\<close> was among them that failed after the specification had begun: then the
  optimizer may have stopped half-way.
\<close>

inductive reaches :: "(string \<Rightarrow> g_command option) \<Rightarrow> server \<Rightarrow> bool \<Rightarrow> server \<Rightarrow> bool" for derive s where
  reaches_start: "reaches derive s False s"
| reaches_done: "reaches derive s b s1 \<Longrightarrow> runCommand derive c s1 = Done () s2 \<Longrightarrow> reaches derive s b s2"
| reaches_failed: "reaches derive s b s1 \<Longrightarrow> runCommand derive c s1 = Fail rc s2 \<Longrightarrow>
    reaches derive s (b \<or> c = CMD_END \<and> svState s1 = S_APP_SPEC) s2"
| reaches_class: "reaches derive s b s1 \<Longrightarrow> setQueryClass c s1 = Done () s2 \<Longrightarrow> reaches derive s b s2"

text \<open>\<open>getPlan\<close>: the first operator of the plan.\<close>

definition svGetPlan :: "(server, nat option) comp" where
  "svGetPlan = bindM (readM planMgr) (\<lambda>p. bindM (derefM p) (\<lambda>pm. retM (getPlan pm)))"

end
