(* ===== verification/Server_Facts.thy ===== *)
theory Server_Facts
  imports Server Plan_Query Phy_Refs
begin

text \<open>
  The server: how the calls of the parts act on the whole state, and the invariant that every
  command keeps while the application is being specified.
\<close>

section \<open>Calls of the parts\<close>

lemma wp_zoomM [simp]:
  "wp (zoomM part put m) Q E s \<longleftrightarrow>
     (\<exists>p. part s = Some p \<and> wp m (\<lambda>a p'. Q a (put p' s)) (\<lambda>rc p'. E rc (put p' s)) p)"
  by (auto simp: wp_def zoomM_def split: option.splits outcome.splits)

lemma wlp_zoomM [simp]:
  "wlp (zoomM part put m) Q E s \<longleftrightarrow>
     (\<forall>p. part s = Some p \<longrightarrow> wlp m (\<lambda>a p'. Q a (put p' s)) (\<lambda>rc p'. E rc (put p' s)) p)"
  by (auto simp: wlp_def zoomM_def split: option.splits outcome.splits)

lemma wp_onFail [simp]: "wp (onFail m h) Q E s \<longleftrightarrow> wp m Q (\<lambda>rc s'. wp h (\<lambda>_. E rc) E s') s"
  by (auto simp: wp_def onFail_def seqM_def bindM_def failM_def split: outcome.splits)

lemma wlp_onFail [simp]: "wlp (onFail m h) Q E s \<longleftrightarrow> wlp m Q (\<lambda>rc s'. wlp h (\<lambda>_. E rc) E s') s"
  by (auto simp: wlp_def onFail_def seqM_def bindM_def failM_def split: outcome.splits)

lemmas on_defs = onTables_def onQueries_def onPlan_def onParser_def onSem_def onLog_def

section \<open>Declarations\<close>

text \<open>A declaration adds one table, or nothing at all.\<close>

definition tables_ok :: "table_manager \<Rightarrow> bool" where
  "tables_ok tm \<longleftrightarrow> tm_ok tm \<and> tm_nonempty tm"

definition declared :: "bool \<Rightarrow> string \<Rightarrow> attribute list \<Rightarrow> table_manager \<Rightarrow> table_manager \<Rightarrow> bool" where
  "declared st n as tm tm' \<longleftrightarrow> tables_ok tm' \<and>
     tableList tm' = tableList tm @ [\<lparr>tableName = n, tblIsStream = st, attrList = as\<rparr>]"

lemma addTableAttribute_last:
  assumes "tm_ok tm1" and "tableList tm1 = ts @ [t]"
  shows "wp (onFail (addTableAttribute (length ts) n ty len) (unregisterTable (length ts)))
    (\<lambda>_ tm'. tm_ok tm' \<and> tableList tm' = ts @ [t\<lparr>attrList := attrList t @ [\<lparr>attrName = n, attrType = ty, attrLen = len\<rparr>]\<rparr>])
    (\<lambda>_ tm'. tableList tm' = ts \<and> (length (attrList t) = MAX_ATTRS \<or> n \<in> attrName ` set (attrList t))) tm1"
proof -
  have "length ts < length (tableList tm1)" using assms(2) by simp
  from addTableAttribute_wp [OF assms(1) this, of n ty len] show ?thesis
    using assms(2) unfolding wp_onFail by (elim wp_mono) (auto simp: unregisterTable_def)
qed

fun spec_attr :: "node \<Rightarrow> attribute" where
  "spec_attr (N_ATTR_SPEC a ty len) = \<lparr>attrName = a, attrType = ty, attrLen = attr_spec_len ty len\<rparr>"
| "spec_attr _ = undefined"

definition attrs_fit :: "attribute list \<Rightarrow> bool" where
  "attrs_fit as \<longleftrightarrow> length as \<le> MAX_ATTRS \<and> distinct (map attrName as)"

lemma addAttributes_wp:
  assumes "is_list l" and "list_all is_attrspec (list_elems l)" and "tm_ok tm1" and "tableList tm1 = ts @ [t]"
  shows "wp (addAttributes (length ts) l)
    (\<lambda>_ tm'. tm_ok tm' \<and> tableList tm' = ts @ [t\<lparr>attrList := attrList t @ map spec_attr (list_elems l)\<rparr>])
    (\<lambda>_ tm'. tableList tm' = ts \<and> \<not> attrs_fit (attrList t @ map spec_attr (list_elems l))) tm1"
  using assms
proof (induction "length ts" l arbitrary: tm1 t rule: addAttributes.induct)
  case (2 a ty len nxt)
  show ?case
    unfolding addAttributes.simps
  proof (rule wp_seqI [OF addTableAttribute_last [OF "2.prems"(3,4)]])
    fix x tm2
    assume t2: "tm_ok tm2 \<and> tableList tm2 = ts @ [t\<lparr>attrList := attrList t @
        [\<lparr>attrName = a, attrType = ty, attrLen = attr_spec_len ty len\<rparr>]\<rparr>]"
    have "is_list nxt" "list_all is_attrspec (list_elems nxt)" using "2.prems"(1,2) by (cases nxt; simp)+
    from wp_mono [OF "2.hyps" [OF this conjunct1 [OF t2] conjunct2 [OF t2]]]
    show "wp (addAttributes (length ts) nxt)
       (\<lambda>_ tm'. tm_ok tm' \<and> tableList tm' = ts @ [t\<lparr>attrList := attrList t @ map spec_attr (list_elems (Some (N_LIST (N_ATTR_SPEC a ty len) nxt)))\<rparr>])
       (\<lambda>_ tm'. tableList tm' = ts \<and> \<not> attrs_fit (attrList t @ map spec_attr (list_elems (Some (N_LIST (N_ATTR_SPEC a ty len) nxt))))) tm2"
      by (auto split: option.splits)
  qed (auto simp: attrs_fit_def)
qed auto

lemma addAttributes_wlp:
  assumes "tm_ok tm1" and "tableList tm1 = ts @ [t]"
  shows "wlp (addAttributes (length ts) l)
    (\<lambda>_ tm'. tm_ok tm' \<and> (\<exists>as. tableList tm' = ts @ [t\<lparr>attrList := attrList t @ as\<rparr>] \<and> (l \<noteq> None \<longrightarrow> as \<noteq> [])))
    (\<lambda>_ tm'. tableList tm' = ts) tm1"
  using assms
proof (induction "length ts" l arbitrary: tm1 t rule: addAttributes.induct)
  case 1
  then show ?case by (auto intro: exI [of _ "[]"])
next
  case (2 a ty len nxt)
  let ?a = "\<lparr>attrName = a, attrType = ty, attrLen = attr_spec_len ty len\<rparr>"
  show ?case
    unfolding addAttributes.simps
  proof (rule wlp_seqI [OF wp_wlp [OF addTableAttribute_last [OF "2.prems"]]])
    fix x tm2
    assume t2: "tm_ok tm2 \<and> tableList tm2 = ts @ [t\<lparr>attrList := attrList t @ [?a]\<rparr>]"
    show "wlp (addAttributes (length ts) nxt)
       (\<lambda>_ tm'. tm_ok tm' \<and> (\<exists>as. tableList tm' = ts @ [t\<lparr>attrList := attrList t @ as\<rparr>] \<and>
          (Some (N_LIST (N_ATTR_SPEC a ty len) nxt) \<noteq> None \<longrightarrow> as \<noteq> [])))
       (\<lambda>_ tm'. tableList tm' = ts) tm2"
      by (rule wlp_mono [OF "2.hyps" [OF conjunct1 [OF t2] conjunct2 [OF t2]]]) auto
  qed simp
qed simp_all

lemma declared_intro:
  assumes "tables_ok tm" and "tm_ok tm'" and "as \<noteq> []"
    and "tableList tm' = tableList tm @ [\<lparr>tableName = n, tblIsStream = st, attrList = as\<rparr>]"
  shows "declared st n as tm tm'"
  using assms by (auto simp: declared_def tables_ok_def tm_nonempty_def)

text \<open>Both kinds of declarations register a table and then its attributes.\<close>

definition table_fits :: "table_manager \<Rightarrow> string \<Rightarrow> attribute list \<Rightarrow> bool" where
  "table_fits tm n as \<longleftrightarrow> length (tableList tm) < MAX_TABLES \<and> getTableId tm n = None \<and> attrs_fit as"

definition declaresM :: "bool \<Rightarrow> string \<Rightarrow> node \<Rightarrow> (table_manager, nat) comp" where
  "declaresM st n l = (if st then registerStreamSpec n l else registerRelationSpec n l)"

lemma declaresM_step:
  assumes "tables_ok tm"
    and "\<And>tm1. tm_ok tm1 \<Longrightarrow> tableList tm1 = tableList tm @ [\<lparr>tableName = n, tblIsStream = st, attrList = []\<rparr>] \<Longrightarrow>
      wp (addAttributes (length (tableList tm)) (Some l)) (\<lambda>_. Q (length (tableList tm))) E tm1"
    and "\<And>rc. length (tableList tm) = MAX_TABLES \<or> getTableId tm n \<noteq> None \<Longrightarrow> E rc tm"
  shows "wp (declaresM st n l) Q E tm"
proof -
  have ok: "tm_ok tm" using assms(1) by (simp add: tables_ok_def)
  show ?thesis
  proof (cases st)
    case True
    show ?thesis
      unfolding declaresM_def registerStreamSpec_def if_P [OF True]
      by (rule wp_bindI [OF registerStream_wp [OF ok]]) (use assms True in auto)
  next
    case False
    show ?thesis
      unfolding declaresM_def registerRelationSpec_def if_not_P [OF False]
      by (rule wp_bindI [OF registerRelation_wp [OF ok]]) (use assms False in auto)
  qed
qed

lemma declaresM_wp:
  assumes "tables_ok tm" and "is_list (Some l)" and "list_all is_attrspec (list_elems (Some l))"
  shows "wp (declaresM st n l)
    (\<lambda>i tm'. i = length (tableList tm) \<and> declared st n (map spec_attr (list_elems (Some l))) tm tm')
    (\<lambda>_ tm'. tm' = tm \<and> \<not> table_fits tm n (map spec_attr (list_elems (Some l)))) tm"
proof (rule declaresM_step [OF assms(1)])
  fix tm1 assume tm1: "tm_ok tm1" "tableList tm1 = tableList tm @ [\<lparr>tableName = n, tblIsStream = st, attrList = []\<rparr>]"
  have "list_elems (Some l) \<noteq> []" using assms(2) by (cases l) auto
  then show "wp (addAttributes (length (tableList tm)) (Some l))
      (\<lambda>_ tm'. length (tableList tm) = length (tableList tm) \<and> declared st n (map spec_attr (list_elems (Some l))) tm tm')
      (\<lambda>_ tm'. tm' = tm \<and> \<not> table_fits tm n (map spec_attr (list_elems (Some l)))) tm1"
    by (intro wp_mono [OF addAttributes_wp [OF assms(2,3) tm1]]) (use assms(1) in \<open>auto intro: declared_intro simp: table_fits_def\<close>)
qed (auto simp: table_fits_def)

lemma declaresM_wlp:
  assumes "tables_ok tm"
  shows "wlp (declaresM st n l) (\<lambda>i tm'. i = length (tableList tm) \<and> (\<exists>as. declared st n as tm tm'))
    (\<lambda>_ tm'. tm' = tm) tm"
proof -
  have ok: "tm_ok tm" using assms by (simp add: tables_ok_def)
  have step: "wlp (addAttributes (length (tableList tm)) (Some l))
      (\<lambda>_ tm'. length (tableList tm) = length (tableList tm) \<and> (\<exists>as. declared st n as tm tm')) (\<lambda>_ tm'. tm' = tm) tm1"
    if "tm_ok tm1" "tableList tm1 = tableList tm @ [\<lparr>tableName = n, tblIsStream = st, attrList = []\<rparr>]" for tm1
    by (rule wlp_mono [OF addAttributes_wlp [OF that]]) (use assms in \<open>auto intro: declared_intro\<close>)
  show ?thesis
  proof (cases st)
    case True
    show ?thesis
      unfolding declaresM_def registerStreamSpec_def if_P [OF True]
      by (rule wlp_bindI [OF wp_wlp [OF registerStream_wp [OF ok]]]) (use step True in auto)
  next
    case False
    show ?thesis
      unfolding declaresM_def registerRelationSpec_def if_not_P [OF False]
      by (rule wlp_bindI [OF wp_wlp [OF registerRelation_wp [OF ok]]]) (use step False in auto)
  qed
qed

lemma declareNode_wlp:
  assumes "tables_ok tm"
  shows "wlp (declareNode t) (\<lambda>i tm'. i = length (tableList tm) \<and> (\<exists>st n as. declared st n as tm tm'))
    (\<lambda>_ tm'. tm' = tm) tm"
proof -
  have "wlp (registerStreamSpec n l) (\<lambda>i tm'. i = length (tableList tm) \<and> (\<exists>st n as. declared st n as tm tm'))
      (\<lambda>_ tm'. tm' = tm) tm" for n l
    by (rule wlp_mono [OF declaresM_wlp [OF assms, of True, unfolded declaresM_def if_True]]) blast+
  moreover have "wlp (registerRelationSpec n l) (\<lambda>i tm'. i = length (tableList tm) \<and> (\<exists>st n as. declared st n as tm tm'))
      (\<lambda>_ tm'. tm' = tm) tm" for n l
    by (rule wlp_mono [OF declaresM_wlp [OF assms, of False, unfolded declaresM_def if_False]]) blast+
  ultimately show ?thesis by (cases t) (simp_all add: declareNode_def)
qed

lemma declareNode_wp:
  assumes "tables_ok tm" and "wf_command t"
  shows "wp (declareNode t) (\<lambda>i tm'. i = length (tableList tm) \<and> (\<exists>st n as. declared st n as tm tm'))
    (\<lambda>_ tm'. tm' = tm) tm"
proof (cases t)
  case (N_REL_SPEC n l)
  then have "is_list (Some l)" "list_all is_attrspec (list_elems (Some l))" using assms(2) by simp_all
  from declaresM_wp [OF assms(1) this, of False n] show ?thesis
    using N_REL_SPEC by (simp add: declareNode_def declaresM_def) (erule wp_mono, auto)
next
  case (N_STR_SPEC n l)
  then have "is_list (Some l)" "list_all is_attrspec (list_elems (Some l))" using assms(2) by simp_all
  from declaresM_wp [OF assms(1) this, of True n] show ?thesis
    using N_STR_SPEC by (simp add: declareNode_def declaresM_def) (erule wp_mono, auto)
qed (simp_all add: declareNode_def)

section \<open>Which tables have a source\<close>

text \<open>What each call of the plan manager does to the list of sources, whatever else happens.\<close>

lemma addBaseTable_sources:
  assumes "plan_inv us s" and "tm_ok tm" and "t < length (tableList tm)"
  shows "wlp (addBaseTable tm t src) (\<lambda>_ s'. \<exists>p. sourceOps s' = sourceOps s @ [(t, p)])
    (\<lambda>_ s'. sourceOps s' = sourceOps s) s"
proof -
  obtain fs where fs: "pool s fs us" using assms(1) by (auto simp: plan_inv_def)
  show ?thesis
  proof (cases "length fs \<le> 1")
    case True
    then consider "fs = []" | a where "fs = [a]" by (cases fs) auto
    then show ?thesis
    proof cases
      case 1
      then show ?thesis using fs assms(3)
        by (simp add: wlp_def addBaseTable_def isStream_def new_op_def pool_def comp_defs)
    next
      case 2
      then show ?thesis using fs assms(3) new_op_last
        by (simp add: wlp_def addBaseTable_def isStream_def comp_defs)
    qed
  next
    case False
    then obtain a b gs where "fs = a # b # gs" by (cases fs; cases "tl fs") auto
    then have "pool s (a # b # gs) us" using fs by simp
    from wp_wlp [OF addBaseTable_wp [OF this assms(2,3)]] show ?thesis by (rule wlp_mono) auto
  qed
qed

interpretation pure: step_relation "(=)"
  by unfold_locales auto

lemma pure_mapColumn: "within (=) (mapColumn tm t cols a)"
  unfolding mapColumn_def getAttrType_def getAttrLen_def by (intro pure.within_bindM pure.within_if pure.within_pure)

lemma mapQuery_sources:
  "wlp (mapQuery tm q t) (\<lambda>_ s'. \<exists>p. sourceOps s' = sourceOps s @ [(t, p)]) (\<lambda>_ s'. s' = s) s"
proof -
  have cols: "wlp (forM xs (mapColumn tm t cols)) (\<lambda>_ s'. s' = s) (\<lambda>_ s'. s' = s) s" for xs cols
    by (rule within_wlp [OF pure.within_forM [OF pure_mapColumn]]) simp_all
  have "wlp (seqM (forM xs (mapColumn tm t cols)) (bindM (readM sourceOps) (\<lambda>tabs.
           if length tabs \<ge> MAX_TABLES then failM (- 1)
           else modM (\<lambda>s. s\<lparr>sourceOps := tabs @ [(t, p)]\<rparr>))))
      (\<lambda>_ s'. \<exists>p. sourceOps s' = sourceOps s @ [(t, p)]) (\<lambda>_ s'. s' = s) s" for xs cols p
    by (rule wlp_seqI [OF cols]) auto
  then show ?thesis
    by (auto simp: mapQuery_def pget_def getNumAttrs_def split: option.splits simp del: wlp_seqM)
qed

lemma adds_sources:
  assumes "adds m us s"
  shows "wlp m (\<lambda>p s'. sourceOps s' = sourceOps s \<and> (\<exists>us'. plan_inv us' s' \<and> p \<in> set us' \<and> set us \<subseteq> set us'))
    (\<lambda>_ s'. sourceOps s' = sourceOps s) s"
  by (rule wlp_mono [OF assms]) (auto simp: more_def keeps_rest_def dest: set_mono_suffix)

lemma addLogicalQueryPlan_sources:
  assumes "plan_inv us s"
  shows "wlp (addLogicalQueryPlan q h l out) (\<lambda>_ s'. sourceOps s' = sourceOps s) (\<lambda>_ s'. sourceOps s' = sourceOps s) s"
  unfolding addLogicalQueryPlan_stages genPhysicalPlan_def
proof (rule wlp_bindI [OF adds_sources [OF genPhysical_adds [OF assms]]])
  fix p s1
  assume "sourceOps s1 = sourceOps s \<and> (\<exists>us'. plan_inv us' s1 \<and> p \<in> set us' \<and> set us \<subseteq> set us')"
  then obtain us1 where s1: "sourceOps s1 = sourceOps s" "plan_inv us1 s1" "p \<in> set us1" by blast
  show "wlp (bindM (mk_qry_src p) (query_file q out p)) (\<lambda>_ s'. sourceOps s' = sourceOps s)
      (\<lambda>_ s'. sourceOps s' = sourceOps s) s1"
  proof (rule wlp_bindI [OF adds_sources [OF unary_adds(9) [OF s1(2,3)]]])
    fix qs s2
    assume "sourceOps s2 = sourceOps s1 \<and> (\<exists>us'. plan_inv us' s2 \<and> qs \<in> set us' \<and> set us1 \<subseteq> set us')"
    then obtain us2 where s2: "sourceOps s2 = sourceOps s" "plan_inv us2 s2" "p \<in> set us2" "qs \<in> set us2"
      using s1 by auto
    let ?s3 = "s2\<lparr>queryOutOps := queryOutOps s2 @ [(q, qs)]\<rparr>"
    have "wlp (query_output q p x) (\<lambda>_ s'. sourceOps s' = sourceOps s) (\<lambda>_ s'. sourceOps s' = sourceOps s) ?s3"
      if n: "length (queryOutOps s2) < MAX_QUERIES" for x
    proof -
      have "plan_inv us2 ?s3" by (rule plan_inv_tables [OF s2(2)]) (use s2 n in \<open>auto simp: plan_inv_def\<close>)
      from adds_sources [OF unary_adds(10) [OF this s2(3)]]
      have "wlp (bindM (mk_output p) (\<lambda>outputOp.
          seqM (modM (\<lambda>s. s\<lparr>queryOutputs := outs @ [x]\<rparr>))
          (seqM (setUnion (U_OUTPUT (length outs) q) outputOp) (addQueryClasses P_MAX_OPS outputOp))))
        (\<lambda>_ s'. sourceOps s' = sourceOps s) (\<lambda>_ s'. sourceOps s' = sourceOps s) ?s3" for outs
      proof (rule wlp_bindI)
        fix op s4
        assume s4: "sourceOps s4 = sourceOps ?s3 \<and> (\<exists>us'. plan_inv us' s4 \<and> op \<in> set us' \<and> set us2 \<subseteq> set us')"
        have "quiet (seqM (setUnion (U_OUTPUT (length outs) q) op) (addQueryClasses P_MAX_OPS op))" by (intro steps)
        from within_wlp [OF this]
        show "wlp (seqM (modM (\<lambda>s. s\<lparr>queryOutputs := outs @ [x]\<rparr>))
            (seqM (setUnion (U_OUTPUT (length outs) q) op) (addQueryClasses P_MAX_OPS op)))
          (\<lambda>_ s'. sourceOps s' = sourceOps s) (\<lambda>_ s'. sourceOps s' = sourceOps s) s4"
          using s4 s2(1) by (simp add: same_links_def keeps_rest_def)
      qed (use s2 in auto)
      then show ?thesis using s2(1) by (simp add: query_output_def)
    qed
    then show "wlp (query_file q out p qs) (\<lambda>_ s'. sourceOps s' = sourceOps s) (\<lambda>_ s'. sourceOps s' = sourceOps s) s2"
      using s2 by (auto simp: query_file_def pget_def plan_inv_pid split: option.splits)
  qed (use s1 in auto)
qed simp

section \<open>The invariant of the server\<close>

definition catalogs_ok :: "server \<Rightarrow> bool" where
  "catalogs_ok sv \<longleftrightarrow> (\<exists>tm qm pm. tableMgr sv = Some tm \<and> qryMgr sv = Some qm \<and> planMgr sv = Some pm \<and>
     tables_ok tm \<and> nextFree qm \<le> QRY_BUF_LEN \<and> length (queries qm) \<le> MAX_QUERIES)"

text \<open>Every table that has a source is a table of the table manager, or the system stream.\<close>

definition sources_known :: "table_manager \<Rightarrow> plan_manager \<Rightarrow> bool" where
  "sources_known tm pm \<longleftrightarrow> (\<forall>e\<in>set (sourceOps pm). fst e = SS_ID \<or> fst e < length (tableList tm))"

definition spec_ok :: "server \<Rightarrow> bool" where
  "spec_ok sv \<longleftrightarrow> catalogs_ok sv \<and> sources_known (the (tableMgr sv)) (the (planMgr sv)) \<and>
     (\<exists>us. plan_inv us (the (planMgr sv)))"

definition server_ok :: "server \<Rightarrow> bool" where
  "server_ok sv \<longleftrightarrow>
     (case svState sv of
        S_INIT \<Rightarrow> tableMgr sv = None \<and> qryMgr sv = None \<and> planMgr sv = None
      | S_APP_SPEC \<Rightarrow> spec_ok sv
      | S_PLAN_GEN \<Rightarrow> catalogs_ok sv
      | _ \<Rightarrow> False)"

text \<open>A server between \<open>beginAppSpecification\<close> and \<open>endAppSpecification\<close>, with its parts.\<close>

definition specifying :: "server \<Rightarrow> table_manager \<Rightarrow> query_manager \<Rightarrow> plan_manager \<Rightarrow> nat list \<Rightarrow> bool" where
  "specifying sv tm qm pm us \<longleftrightarrow> svState sv = S_APP_SPEC \<and>
     tableMgr sv = Some tm \<and> qryMgr sv = Some qm \<and> planMgr sv = Some pm \<and>
     tables_ok tm \<and> nextFree qm \<le> QRY_BUF_LEN \<and> length (queries qm) \<le> MAX_QUERIES \<and>
     sources_known tm pm \<and> plan_inv us pm"

lemma server_ok_spec:
  "server_ok sv \<and> svState sv = S_APP_SPEC \<longleftrightarrow> (\<exists>tm qm pm us. specifying sv tm qm pm us)"
  by (auto simp: server_ok_def spec_ok_def catalogs_ok_def specifying_def; blast)

lemma specifyingD: "specifying sv tm qm pm us \<Longrightarrow> server_ok sv"
  using server_ok_spec by blast

lemma wlp_True [simp]: "wlp m (\<lambda>_ _. True) (\<lambda>_ _. True) s"
  by (simp add: wlp_def split: outcome.splits)

lemma parseText_wlp:
  assumes "\<And>t p. Q t (s\<lparr>svParser := p\<rparr>)" and "\<And>rc p. E rc (s\<lparr>svParser := p\<rparr>)"
  shows "wlp (parseText derive text) Q E s"
  unfolding parseText_def onParser_def wlp_zoomM using assms by (auto intro: wlp_mono [OF wlp_True])

lemma specifying_parser: "specifying (sv\<lparr>svParser := p\<rparr>) tm qm pm us = specifying sv tm qm pm us"
  by (simp add: specifying_def)

lemma sources_known_declared: "declared st n as tm tm' \<Longrightarrow> sources_known tm pm \<Longrightarrow> sources_known tm' pm"
  by (auto simp: sources_known_def declared_def)

lemma declareTable_wlp:
  assumes "specifying sv tm qm pm us"
  shows "wlp (declareTable derive info)
    (\<lambda>t sv'. \<exists>tm' st n as. t = length (tableList tm) \<and> declared st n as tm tm' \<and> specifying sv' tm' qm pm us)
    (\<lambda>_ sv'. specifying sv' tm qm pm us) sv"
proof -
  have tree: "wlp (onTables (declareNode n))
      (\<lambda>t sv'. \<exists>tm' st n as. t = length (tableList tm) \<and> declared st n as tm tm' \<and> specifying sv' tm' qm pm us)
      (\<lambda>_ sv'. specifying sv' tm qm pm us) (sv\<lparr>svParser := p\<rparr>)" for n p
  proof -
    have tm: "tables_ok tm" "tableMgr sv = Some tm" using assms by (simp_all add: specifying_def)
    have "specifying (sv\<lparr>svParser := p, tableMgr := Some tm'\<rparr>) tm' qm pm us" if "declared st m atts tm tm'" for tm' st m atts
      using assms that sources_known_declared [OF that] by (auto simp: specifying_def declared_def)
    then show ?thesis
      unfolding onTables_def wlp_zoomM
      using tm assms by (auto intro!: wlp_mono [OF declareNode_wlp [OF tm(1)]] simp: specifying_def)
  qed
  have "wlp (bindM (parseText derive str) (\<lambda>t. case t of None \<Rightarrow> failM PARSE_ERR
        | Some parseTree \<Rightarrow> onTables (declareNode parseTree)))
      (\<lambda>t sv'. \<exists>tm' st n as. t = length (tableList tm) \<and> declared st n as tm tm' \<and> specifying sv' tm' qm pm us)
      (\<lambda>_ sv'. specifying sv' tm qm pm us) sv" for str
    unfolding wlp_bindM by (rule parseText_wlp) (use assms tree in \<open>auto simp: specifying_parser split: option.splits\<close>)
  then show ?thesis
    using assms by (auto simp: declareTable_def specifying_def simp del: wlp_bindM split: option.splits) (simp_all)
qed

lemma specifying_tables: "specifying sv tm qm pm us \<Longrightarrow> tableMgr sv = Some tm"
  by (simp add: specifying_def)

lemma theTables_wlp [simp]: "wlp theTables Q E sv \<longleftrightarrow> (\<forall>tm. tableMgr sv = Some tm \<longrightarrow> Q tm sv)"
  by (simp add: theTables_def)

lemma theTables_wp [simp]: "wp theTables Q E sv \<longleftrightarrow> (\<exists>tm. tableMgr sv = Some tm \<and> Q tm sv)"
  by (simp add: theTables_def)

lemma onPlan_keeps:
  assumes sv: "specifying sv tm qm pm us"
    and m: "wlp m (\<lambda>_ pm'. \<exists>us'. plan_inv us' pm' \<and> sources_known tm pm') (\<lambda>_ pm'. \<exists>us'. plan_inv us' pm' \<and> sources_known tm pm') pm"
  shows "wlp (onPlan m) (\<lambda>_. server_ok) (\<lambda>_. server_ok) sv"
proof -
  have "server_ok (sv\<lparr>planMgr := Some pm'\<rparr>)" if "plan_inv us' pm'" "sources_known tm pm'" for pm' us'
    by (rule specifyingD [of _ tm qm pm' us']) (use sv that in \<open>simp add: specifying_def\<close>)
  then show ?thesis
    unfolding onPlan_def wlp_zoomM using sv by (auto simp: specifying_def intro!: wlp_mono [OF m])
qed

lemma registerBaseTable_keeps:
  assumes "specifying sv tm qm pm us"
  shows "wlp (registerBaseTable derive info src) (\<lambda>_. server_ok) (\<lambda>_. server_ok) sv"
  unfolding registerBaseTable_def
proof (rule wlp_bindI [OF declareTable_wlp [OF assms]])
  fix t sv1
  assume "\<exists>tm' st n as. t = length (tableList tm) \<and> declared st n as tm tm' \<and> specifying sv1 tm' qm pm us"
  then obtain tm' st n "as" where t: "t = length (tableList tm)" and d: "declared st n as tm tm'"
    and sv1: "specifying sv1 tm' qm pm us" by blast
  have inv: "plan_inv us pm" "sources_known tm' pm" using sv1 by (simp_all add: specifying_def)
  have tm': "tm_ok tm'" "t < length (tableList tm')" using d t by (simp_all add: declared_def tables_ok_def)
  have "wlp (onPlan (addBaseTable tm' t src)) (\<lambda>_. server_ok) (\<lambda>_. server_ok) sv1"
    by (rule onPlan_keeps [OF sv1], rule wlp_mono [OF wlp_conj [OF addBaseTable_keeps [OF inv(1)] addBaseTable_sources [OF inv(1) tm']]])
      (use inv(2) tm'(2) in \<open>auto simp: sources_known_def\<close>)
  then show "wlp (bindM theTables (\<lambda>tm. onPlan (addBaseTable tm t src))) (\<lambda>_. server_ok) (\<lambda>_. server_ok) sv1"
    using specifying_tables [OF sv1] by simp
qed (rule specifyingD)

lemma registerView_keeps:
  assumes "specifying sv tm qm pm us"
  shows "wlp (registerView derive q info) (\<lambda>_. server_ok) (\<lambda>_. server_ok) sv"
  unfolding registerView_def
proof (rule wlp_bindI [OF declareTable_wlp [OF assms]])
  fix t sv1
  assume "\<exists>tm' st n as. t = length (tableList tm) \<and> declared st n as tm tm' \<and> specifying sv1 tm' qm pm us"
  then obtain tm' st n "as" where t: "t = length (tableList tm)" and d: "declared st n as tm tm'"
    and sv1: "specifying sv1 tm' qm pm us" by blast
  have inv: "plan_inv us pm" "sources_known tm' pm" using sv1 by (simp_all add: specifying_def)
  have tm': "t < length (tableList tm')" using d t by (simp add: declared_def)
  have "wlp (onPlan (mapQuery tm' q t)) (\<lambda>_. server_ok) (\<lambda>_. server_ok) sv1"
    by (rule onPlan_keeps [OF sv1], rule wlp_mono [OF wlp_conj [OF mapQuery_keeps [OF inv(1)] mapQuery_sources]])
      (use inv(2) tm' in \<open>auto simp: sources_known_def\<close>)
  then show "wlp (bindM theTables (\<lambda>tm. onPlan (mapQuery tm q t))) (\<lambda>_. server_ok) (\<lambda>_. server_ok) sv1"
    using specifying_tables [OF sv1] by simp
qed (rule specifyingD)

lemma registerQueryStr_wlp:
  assumes "nextFree qm \<le> QRY_BUF_LEN" and "length (queries qm) \<le> MAX_QUERIES"
  shows "wlp (registerQueryStr s n) (\<lambda>_ qm'. nextFree qm' \<le> QRY_BUF_LEN \<and> length (queries qm') \<le> MAX_QUERIES)
    (\<lambda>_ qm'. qm' = qm) qm"
  using assms by (auto simp: registerQueryStr_def)

lemma specifying_statics:
  "specifying (sv\<lparr>svSem := a\<rparr>) tm qm pm us = specifying sv tm qm pm us"
  "specifying (sv\<lparr>svLog := l\<rparr>) tm qm pm us = specifying sv tm qm pm us"
  by (simp_all add: specifying_def)

lemma onSem_wlp: "(\<And>t p. Q t (s\<lparr>svSem := p\<rparr>)) \<Longrightarrow> (\<And>rc p. E rc (s\<lparr>svSem := p\<rparr>)) \<Longrightarrow> wlp (onSem m) Q E s"
  unfolding onSem_def wlp_zoomM by (auto intro: wlp_mono [OF wlp_True])

lemma onLog_wlp: "(\<And>t p. Q t (s\<lparr>svLog := p\<rparr>)) \<Longrightarrow> (\<And>rc p. E rc (s\<lparr>svLog := p\<rparr>)) \<Longrightarrow> wlp (onLog m) Q E s"
  unfolding onLog_def wlp_zoomM by (auto intro: wlp_mono [OF wlp_True])

lemma registerQuery_keeps:
  assumes sv: "specifying sv tm qm pm us"
  shows "wlp (registerQuery derive spec out) (\<lambda>_. server_ok) (\<lambda>_. server_ok) sv"
proof -
  let ?k = "\<lambda>_. server_ok"
  have plan: "wlp (bindM (readM svClass) (\<lambda>c.
           seqM (onPlan (modM (\<lambda>p. p\<lparr>current_query_class := c\<rparr>)))
           (bindM (readM (\<lambda>s. opHeap (svLog s))) (\<lambda>h.
            seqM (onPlan (addLogicalQueryPlan q h l out)) (retM q))))) ?k ?k sv'"
    if s: "specifying sv' tm qm' pm us" for sv' qm' q l
  proof -
    let ?pm = "pm\<lparr>current_query_class := svClass sv'\<rparr>"
    have inv: "plan_inv us ?pm" by (rule plan_inv_tables [of us pm]) (use s in \<open>auto simp: specifying_def plan_inv_def\<close>)
    have s': "specifying (sv'\<lparr>planMgr := Some ?pm\<rparr>) tm qm' ?pm us"
      using s inv by (simp add: specifying_def sources_known_def)
    have "wlp (onPlan (addLogicalQueryPlan q h l out)) ?k ?k (sv'\<lparr>planMgr := Some ?pm\<rparr>)" for h
      by (rule onPlan_keeps [OF s'], rule wlp_mono [OF wlp_conj [OF addLogicalQueryPlan_keeps [OF inv] addLogicalQueryPlan_sources [OF inv]]])
        (use s' in \<open>auto simp: specifying_def sources_known_def\<close>)
    moreover have "planMgr sv' = Some pm" using s by (simp add: specifying_def)
    ultimately show ?thesis by (simp add: onPlan_def)
  qed
  have log: "wlp (bindM (onLog (genLogPlan tm sq)) (\<lambda>logPlan.
           bindM (readM svClass) (\<lambda>c.
           seqM (onPlan (modM (\<lambda>p. p\<lparr>current_query_class := c\<rparr>)))
           (bindM (readM (\<lambda>s. opHeap (svLog s))) (\<lambda>h.
            seqM (onPlan (addLogicalQueryPlan q h logPlan out)) (retM q)))))) ?k ?k sv'"
    if "specifying sv' tm qm' pm us" for sv' qm' q sq
  proof (subst wlp_bindM, rule onLog_wlp, rule plan)
    show "specifying (sv'\<lparr>svLog := p\<rparr>) tm qm' pm us" for p using that by (simp add: specifying_statics)
    show "server_ok (sv'\<lparr>svLog := p\<rparr>)" for p
      by (rule specifyingD) (use that in \<open>simp add: specifying_statics\<close>)
  qed
  have store: "wlp (bindM (onQueries (registerQueryStr spec (length spec))) (\<lambda>queryId.
           bindM (onLog (genLogPlan tm sq)) (\<lambda>logPlan.
           bindM (readM svClass) (\<lambda>c.
           seqM (onPlan (modM (\<lambda>p. p\<lparr>current_query_class := c\<rparr>)))
           (bindM (readM (\<lambda>s. opHeap (svLog s))) (\<lambda>h.
            seqM (onPlan (addLogicalQueryPlan queryId h logPlan out)) (retM queryId))))))) ?k ?k sv'"
    if s: "specifying sv' tm qm pm us" for sv' sq
  proof -
    have q: "nextFree qm \<le> QRY_BUF_LEN" "length (queries qm) \<le> MAX_QUERIES" "qryMgr sv' = Some qm"
      using s by (simp_all add: specifying_def)
    have "specifying (sv'\<lparr>qryMgr := Some qm'\<rparr>) tm qm' pm us"
      if "nextFree qm' \<le> QRY_BUF_LEN \<and> length (queries qm') \<le> MAX_QUERIES" for qm'
      using s that by (simp add: specifying_def)
    note log' = log [OF this]
    have "server_ok (sv'\<lparr>qryMgr := Some qm\<rparr>)" by (rule specifyingD [of _ tm qm pm us]) (use s in \<open>simp add: specifying_def\<close>)
    then show ?thesis
      apply (subst wlp_bindM)
      unfolding onQueries_def wlp_zoomM
      using q by (auto intro!: wlp_mono [OF registerQueryStr_wlp [OF q(1,2)]] log' simp del: wlp_bindM)
  qed
  have sem: "wlp (seqM (onSem (interpretQuery tm n)) (bindM (readM (\<lambda>s. qry (svSem s))) (\<lambda>semQuery.
           bindM (onQueries (registerQueryStr spec (length spec))) (\<lambda>queryId.
           bindM (onLog (genLogPlan tm semQuery)) (\<lambda>logPlan.
           bindM (readM svClass) (\<lambda>c.
           seqM (onPlan (modM (\<lambda>p. p\<lparr>current_query_class := c\<rparr>)))
           (bindM (readM (\<lambda>s. opHeap (svLog s))) (\<lambda>h.
            seqM (onPlan (addLogicalQueryPlan queryId h logPlan out)) (retM queryId)))))))))
      ?k ?k sv'" if "specifying sv' tm qm pm us" for sv' n
  proof (subst wlp_seqM, rule onSem_wlp)
    have s: "specifying (sv'\<lparr>svSem := p\<rparr>) tm qm pm us" for p using that by (simp add: specifying_statics)
    show "server_ok (sv'\<lparr>svSem := p\<rparr>)" for p by (rule specifyingD [OF s])
    show "wlp (bindM (readM (\<lambda>s. qry (svSem s))) (\<lambda>semQuery.
           bindM (onQueries (registerQueryStr spec (length spec))) (\<lambda>queryId.
           bindM (onLog (genLogPlan tm semQuery)) (\<lambda>logPlan.
           bindM (readM svClass) (\<lambda>c.
           seqM (onPlan (modM (\<lambda>p. p\<lparr>current_query_class := c\<rparr>)))
           (bindM (readM (\<lambda>s. opHeap (svLog s))) (\<lambda>h.
            seqM (onPlan (addLogicalQueryPlan queryId h logPlan out)) (retM queryId))))))))
        ?k ?k (sv'\<lparr>svSem := p\<rparr>)" for p
      by (subst wlp_bindM, subst wlp_readM, rule store [OF s])
  qed
  have parse: "wlp (bindM (parseText derive spec) (\<lambda>t. case t of None \<Rightarrow> failM PARSE_ERR
      | Some n \<Rightarrow> f n)) ?k ?k sv" if "\<And>n sv'. specifying sv' tm qm pm us \<Longrightarrow> wlp (f n) ?k ?k sv'" for f
  proof (subst wlp_bindM, rule parseText_wlp)
    have s: "specifying (sv\<lparr>svParser := p\<rparr>) tm qm pm us" for p using sv by (simp add: specifying_parser)
    show "server_ok (sv\<lparr>svParser := p\<rparr>)" for p by (rule specifyingD [OF s])
    then show "wlp (case t of None \<Rightarrow> failM PARSE_ERR | Some n \<Rightarrow> f n) ?k ?k (sv\<lparr>svParser := p\<rparr>)" for t p
      using that [OF s] by (simp split: option.splits)
  qed
  have st: "svState sv = S_APP_SPEC" using sv by (simp add: specifying_def)
  show ?thesis
    unfolding registerQuery_def
    apply (subst wlp_bindM, subst wlp_readM)
    apply (simp only: st not_True_eq_False if_False simp_thms)
    apply (rule parse, subst wlp_bindM)
    using sem specifying_tables apply auto
    done
qed

text \<open>Every command keeps the invariant; after a failed \<open>endAppSpecification\<close> nothing is promised.\<close>

lemma runCommand_keeps:
  assumes "server_ok sv"
  shows "wlp (runCommand derive c) (\<lambda>_. server_ok) (\<lambda>_ sv'. c = CMD_END \<and> svState sv = S_APP_SPEC \<or> server_ok sv') sv"
proof -
  consider (init) "svState sv = S_INIT" | (spec) tm qm pm us where "specifying sv tm qm pm us" | (plan) "svState sv = S_PLAN_GEN"
  proof (cases "svState sv")
    case S_APP_SPEC
    then show ?thesis using assms server_ok_spec [of sv] that(2) by blast
  qed (use assms that in \<open>auto simp: server_ok_def\<close>)
  then show ?thesis
  proof cases
    case init
    have "wlp (beginAppSpecification mem buf) (\<lambda>_. server_ok) (\<lambda>_. server_ok) sv" for mem buf
    proof -
      have ok: "server_ok sv'" if "svState sv' = S_APP_SPEC" "svClass sv' = svClass sv" "tableMgr sv' = Some empty_table_manager"
          "qryMgr sv' = Some (init_query_manager buf)" "planMgr sv' = Some (pm\<lparr>sharingAmongClasses := sh\<rparr>)" "new_manager pm"
        for sv' pm sh
      proof -
        have "plan_inv [0] (pm\<lparr>sharingAmongClasses := sh\<rparr>)"
          by (rule plan_inv_tables [OF new_manager_inv [OF that(6)]]) (use that(6) in \<open>simp_all add: new_manager_def SS_ID_def MAX_TABLES_def\<close>)
        then show ?thesis
          using that assms
          by (intro specifyingD [of _ empty_table_manager "init_query_manager buf" "pm\<lparr>sharingAmongClasses := sh\<rparr>" "[0]"])
            (simp add: specifying_def server_ok_def tables_ok_def tm_nonempty_def empty_table_manager_def tm_ok_def
              init_query_manager_def sources_known_def new_manager_def)
      qed
      have "wlp newPlanManagerImpl (\<lambda>_. new_manager) (\<lambda>_ _. False) mem" by (rule wp_wlp [OF newPlanManagerImpl_wp])
      then show ?thesis
        using init by (simp add: beginAppSpecification_def onPlan_def) (erule wlp_mono, auto intro: ok)
    qed
    then show ?thesis
      using init assms
      by (cases c) (simp_all add: registerBaseTable_def registerView_def declareTable_def registerQuery_def endAppSpecification_def)
  next
    case (spec tm qm pm us)
    have st: "svState sv = S_APP_SPEC" using spec by (simp add: specifying_def)
    have "wlp endAppSpecification (\<lambda>_. server_ok) (\<lambda>_ _. True) sv"
      using spec by (auto simp: endAppSpecification_def onPlan_def server_ok_def catalogs_ok_def specifying_def intro: wlp_mono [OF wlp_True])
    moreover have "wlp (seqM (registerQuery derive x y) (retM ())) (\<lambda>_. server_ok) (\<lambda>_. server_ok) sv" for x y
      using registerQuery_keeps [OF spec] by simp
    ultimately show ?thesis
      using registerBaseTable_keeps [OF spec] registerView_keeps [OF spec] assms st
      by (cases c) (simp_all add: beginAppSpecification_def)
  next
    case plan
    then show ?thesis
      using assms
      by (cases c) (simp_all add: beginAppSpecification_def registerBaseTable_def registerView_def declareTable_def
        registerQuery_def endAppSpecification_def)
  qed
qed

section \<open>What declarations achieve\<close>

text \<open>The declaration in a parse tree: stream or relation, name, attributes.\<close>

fun spec_of :: "node \<Rightarrow> (bool \<times> string \<times> attribute list) option" where
  "spec_of (N_STR_SPEC n l) = Some (True, n, map spec_attr (list_elems (Some l)))"
| "spec_of (N_REL_SPEC n l) = Some (False, n, map spec_attr (list_elems (Some l)))"
| "spec_of _ = None"

lemma declareNode_spec:
  assumes "tables_ok tm" and "wf_command t" and "spec_of t = Some (st, n, as)"
  shows "wp (declareNode t) (\<lambda>i tm'. i = length (tableList tm) \<and> declared st n as tm tm')
    (\<lambda>_ tm'. tm' = tm \<and> \<not> table_fits tm n as) tm"
proof (cases t)
  case (N_REL_SPEC m l)
  then have "is_list (Some l)" "list_all is_attrspec (list_elems (Some l))" using assms(2) by simp_all
  from declaresM_wp [OF assms(1) this, of False m] show ?thesis
    using N_REL_SPEC assms(3) by (simp add: declareNode_def declaresM_def)
next
  case (N_STR_SPEC m l)
  then have "is_list (Some l)" "list_all is_attrspec (list_elems (Some l))" using assms(2) by simp_all
  from declaresM_wp [OF assms(1) this, of True m] show ?thesis
    using N_STR_SPEC assms(3) by (simp add: declareNode_def declaresM_def)
qed (use assms(3) in simp_all)

lemma parseText_done:
  assumes "derive str = Some c" and "parseCommand c (svParser sv) = Done t p"
  shows "wp (parseText derive str) Q E sv = Q (Some t) (sv\<lparr>svParser := p\<rparr>)"
  using assms by (simp add: parseText_def onParser_def wp_def zoomM_def bindM_def retM_def)

lemma declaration_query: "spec_of (tree_query q) = None"
  by (cases q) simp_all

text \<open>The interpreter gets its trees from the parser.\<close>

lemma tree_expr_plain: "plain_node (tree_expr e)"
proof (induction e)
  case (GE_ATTR a)
  then show ?case by (cases a) simp
qed simp_all

lemma parsed_query_from:
  assumes "g_query_ok g" and "ranges_fit g" and "parseCommand (GC_QUERY g) p = Done t p'"
    and "interpretQuery tm t s = Done () s'"
  shows "from_all (qry s')"
proof -
  have "t = tree_query g" using assms(1,3) by (auto simp: parseCommand_makes [of "GC_QUERY g"] split: if_split_asm)
  moreover have "plain_cond (tree_cond b)" for b by (cases b) (simp add: tree_expr_plain)
  then have "plain_query (tree_query g)" by (cases g) (simp_all add: tree_sfw_def list_all_iff)
  ultimately have "wlp (interpretQuery tm t) (\<lambda>_ s'. from_all (qry s')) (\<lambda>_ _. True) s"
    using parseQuery_wf [OF assms(1-3)] by (intro interpretQuery_from) simp_all
  from wlp_DoneD [OF this assms(4)] show ?thesis .
qed

text \<open>The text of a declaration, and what it declares.\<close>

definition declares ::
    "(string \<Rightarrow> g_command option) \<Rightarrow> string \<Rightarrow> parser_state \<Rightarrow> bool \<Rightarrow> string \<Rightarrow> attribute list \<Rightarrow> bool" where
  "declares derive str p st n as \<longleftrightarrow> (\<exists>c t p'. derive str = Some c \<and> g_command_ok c \<and>
     parseCommand c p = Done t p' \<and> spec_of t = Some (st, n, as))"

lemma declareTable_wp:
  assumes sv: "specifying sv tm qm pm us" and d: "declares derive str (svParser sv) st n as"
  shows "wp (declareTable derive (Some str))
    (\<lambda>t sv'. \<exists>tm'. t = length (tableList tm) \<and> declared st n as tm tm' \<and> specifying sv' tm' qm pm us \<and>
       svSem sv' = svSem sv \<and> svLog sv' = svLog sv)
    (\<lambda>_ sv'. specifying sv' tm qm pm us \<and> \<not> table_fits tm n as) sv"
proof -
  obtain c t p' where c: "derive str = Some c" "g_command_ok c" "parseCommand c (svParser sv) = Done t p'"
      "spec_of t = Some (st, n, as)" using d by (auto simp: declares_def)
  have "command_fits c" using c(2-4) by (cases c) (auto simp: parseCommand_makes declaration_query split: if_split_asm)
  then have wf: "wf_command t" using parseCommand_wf [OF c(2,3)] by simp
  have tm: "tables_ok tm" "tableMgr sv = Some tm" using sv by (simp_all add: specifying_def)
  have "specifying (sv\<lparr>svParser := p', tableMgr := Some tm'\<rparr>) tm' qm pm us" if "declared st n as tm tm'" for tm'
    using sv that sources_known_declared [OF that] by (auto simp: specifying_def declared_def)
  then have "wp (onTables (declareNode t))
    (\<lambda>t sv'. \<exists>tm'. t = length (tableList tm) \<and> declared st n as tm tm' \<and> specifying sv' tm' qm pm us \<and>
       svSem sv' = svSem sv \<and> svLog sv' = svLog sv)
    (\<lambda>_ sv'. specifying sv' tm qm pm us \<and> \<not> table_fits tm n as) (sv\<lparr>svParser := p'\<rparr>)"
    unfolding onTables_def wp_zoomM
    using tm sv by (auto intro!: wp_mono [OF declareNode_spec [OF tm(1) wf c(4)]] simp: specifying_def)
  then show ?thesis
    using sv by (simp add: declareTable_def specifying_def parseText_done [where derive = derive and str = str, OF c(1,3)])
qed

lemma served_declared:
  assumes "declared st n as tm tm'" and "u < length (tableList tm)"
  shows "serves tm' pm us u = serves tm pm us u"
  using assms by (simp add: served_def table_cols_def declared_def nth_append)

lemma onPlan_wp:
  assumes "specifying sv tm qm pm us"
  shows "wp (onPlan m) Q E sv = wp m (\<lambda>a pm'. Q a (sv\<lparr>planMgr := Some pm'\<rparr>)) (\<lambda>rc pm'. E rc (sv\<lparr>planMgr := Some pm'\<rparr>)) pm"
  using assms by (simp add: onPlan_def specifying_def)

lemma specifying_plan:
  "specifying sv tm qm pm us \<Longrightarrow> plan_inv us' pm' \<Longrightarrow> sources_known tm pm' \<Longrightarrow>
   specifying (sv\<lparr>planMgr := Some pm'\<rparr>) tm qm pm' us'"
  by (simp add: specifying_def)

lemma new_table_unknown:
  assumes "specifying sv tm qm pm us" and "tableList tm \<noteq> []"
  shows "length (tableList tm) \<notin> fst ` set (sourceOps pm)"
  using assms by (fastforce simp: specifying_def sources_known_def SS_ID_def)

text \<open>A table keeps its operator.\<close>

lemma serves_same:
  assumes "serves tm pm us u" and "find_source u (sourceOps pm') = find_source u (sourceOps pm)"
    and "set us \<subseteq> set us'" and "\<And>p. p \<in> set us \<Longrightarrow> node_of (ops pm' p) = node_of (ops pm p)"
  shows "serves tm pm' us' u \<and> src_of pm' u = src_of pm u"
proof -
  let ?p = "find_source u (sourceOps pm)"
  have "?p \<in> set us" using assms(1) by (simp add: served_def)
  then have "node_of (ops pm' ?p) = node_of (ops pm ?p)" by (rule assms(4))
  then have "pschema (ops pm' ?p) = pschema (ops pm ?p)" "pbStream (ops pm' ?p) = pbStream (ops pm ?p)"
      "pkind (ops pm' ?p) = pkind (ops pm ?p)" by (metis node_of_sel)+
  then show ?thesis using assms(1-3) by (auto simp: served_def src_of_def)
qed

text \<open>A new source operator \<open>a\<close> for the table \<open>t\<close>.\<close>

definition source_added :: "bool \<Rightarrow> nat \<Rightarrow> attribute list \<Rightarrow> nat \<Rightarrow> plan_manager \<Rightarrow> plan_manager \<Rightarrow> bool" where
  "source_added st t as a pm pm' \<longleftrightarrow>
     sourceOps pm' = sourceOps pm @ [(t, a)] \<and> (\<forall>x. x \<noteq> a \<longrightarrow> ops pm' x = ops pm x) \<and>
     node_of (ops pm' a) = \<lparr>nkind = (if st then PO_STREAM_SOURCE else PO_RELN_SOURCE),
       nunion = (if st then U_STREAM_SOURCE t (length (baseTableSources pm)) else U_RELN_SOURCE t (length (baseTableSources pm))),
       ncols = map (\<lambda>x. (attrType x, Some (attrLen x))) as, nstream = st\<rparr> \<and>
     poutputs (ops pm' a) = [] \<and> numExprs pm' = numExprs pm \<and> numBExprs pm' = numBExprs pm \<and>
     length (baseTableSources pm') = Suc (length (baseTableSources pm)) \<and> queryOutOps pm' = queryOutOps pm \<and>
     queryOutputs pm' = queryOutputs pm"

lemma registerBaseTable_wp:
  assumes sv: "specifying sv tm qm pm us" and d: "declares derive str (svParser sv) st n as"
    and pool: "pool pm (a # b # fs) us"
  shows "wp (registerBaseTable derive (Some str) src)
    (\<lambda>_ sv'. \<exists>tm' pm'. declared st n as tm tm' \<and> specifying sv' tm' qm pm' (a # us) \<and> pool pm' (b # fs) (a # us) \<and>
       source_added st (length (tableList tm)) as a pm pm' \<and>
       svSem sv' = svSem sv \<and> svLog sv' = svLog sv)
    (\<lambda>_ sv'. server_ok sv' \<and> (table_fits tm n as \<longrightarrow> length (baseTableSources pm) = MAX_TABLES \<or> length (sourceOps pm) = MAX_TABLES)) sv"
  unfolding registerBaseTable_def
proof (rule wp_bindI [OF declareTable_wp [OF sv d]])
  fix t sv1
  assume "\<exists>tm'. t = length (tableList tm) \<and> declared st n as tm tm' \<and> specifying sv1 tm' qm pm us \<and>
       svSem sv1 = svSem sv \<and> svLog sv1 = svLog sv"
  then obtain tm' where t: "t = length (tableList tm)" and dec: "declared st n as tm tm'"
    and sv1: "specifying sv1 tm' qm pm us" and stat: "svSem sv1 = svSem sv" "svLog sv1 = svLog sv" by blast
  have inv: "plan_inv us pm" "sources_known tm' pm" using sv1 by (simp_all add: specifying_def)
  have tm': "tm_ok tm'" "t < length (tableList tm')" "tableList tm' ! t = \<lparr>tableName = n, tblIsStream = st, attrList = as\<rparr>"
    using dec t by (simp_all add: declared_def tables_ok_def)
  note w = wp_wlp_conj [OF wp_wlp_conj [OF addBaseTable_wp [OF pool tm'(1,2), of src] addBaseTable_keeps [OF inv(1)]]
      addBaseTable_sources [OF inv(1) tm'(1,2)]]
  have "wp (addBaseTable tm' t src)
    (\<lambda>_ pm'. specifying (sv1\<lparr>planMgr := Some pm'\<rparr>) tm' qm pm' (a # us) \<and> pool pm' (b # fs) (a # us) \<and>
       source_added st (length (tableList tm)) as a pm pm')
    (\<lambda>_ pm'. server_ok (sv1\<lparr>planMgr := Some pm'\<rparr>) \<and> (length (baseTableSources pm) = MAX_TABLES \<or> length (sourceOps pm) = MAX_TABLES)) pm"
  proof (rule wp_mono [OF w], goal_cases)
    case (1 x pm')
    then obtain us' where us': "plan_inv us' pm'" by blast
    have p: "pool pm' (b # fs) (a # us)" using 1 by blast
    obtain gs where "pool pm' gs us'" using us' by (auto simp: plan_inv_def)
    then have "plan_inv (a # us) pm'" using pool_unique p us' by blast
    moreover have so: "sourceOps pm' = sourceOps pm @ [(t, a)]" using 1 by blast
    have "sources_known tm' pm'" using inv(2) tm'(2) unfolding so sources_known_def by auto
    ultimately have "specifying (sv1\<lparr>planMgr := Some pm'\<rparr>) tm' qm pm' (a # us)" by (rule specifying_plan [OF sv1])
    moreover have "source_added st (length (tableList tm)) as a pm pm'"
      using 1 tm'(3) t by (simp add: source_added_def node_of_def table_cols_def)
    ultimately show ?case using 1 t by blast
  next
    case (2 rc pm')
    then obtain us' where us': "plan_inv us' pm'" by blast
    have "sourceOps pm' = sourceOps pm" using 2 by blast
    then have "sources_known tm' pm'" using inv(2) by (simp add: sources_known_def)
    then have "server_ok (sv1\<lparr>planMgr := Some pm'\<rparr>)" using specifying_plan [OF sv1 us'] specifyingD by blast
    moreover have "length (baseTableSources pm) \<le> MAX_TABLES" "length (sourceOps pm) \<le> MAX_TABLES"
      using inv(1) by (simp_all add: plan_inv_def)
    ultimately show ?case using 2 by auto
  qed
  then show "wp (bindM theTables (\<lambda>tm. onPlan (addBaseTable tm t src)))
    (\<lambda>_ sv'. \<exists>tm' pm'. declared st n as tm tm' \<and> specifying sv' tm' qm pm' (a # us) \<and> pool pm' (b # fs) (a # us) \<and>
       source_added st (length (tableList tm)) as a pm pm' \<and>
       svSem sv' = svSem sv \<and> svLog sv' = svLog sv)
    (\<lambda>_ sv'. server_ok sv' \<and> (table_fits tm n as \<longrightarrow> length (baseTableSources pm) = MAX_TABLES \<or> length (sourceOps pm) = MAX_TABLES)) sv1"
    using dec specifying_tables [OF sv1] stat by (simp add: onPlan_wp [OF sv1] wp_mono) (erule wp_mono, auto)
qed (use specifyingD in blast)

end
