(* ===== verification/Server_Spec.thy ===== *)
theory Server_Spec
  imports Server_Facts Phy_Spec
begin

text \<open>
  What the server promises: the order of its commands, an invariant of every reachable state, and
  what the registration of tables, queries and views achieves, and when it goes wrong.
\<close>

section \<open>The order of the commands\<close>

text \<open>The state that a command needs, and the one in which it leaves the server.\<close>

fun needs :: "command \<Rightarrow> server_state" where
  "needs (CMD_BEGIN mem buf) = S_INIT" | "needs _ = S_APP_SPEC"

fun leaves_in :: "command \<Rightarrow> server_state" where
  "leaves_in CMD_END = S_PLAN_GEN" | "leaves_in _ = S_APP_SPEC"

lemma onPlan_state: "svState sv = st \<Longrightarrow> wlp (onPlan m) (\<lambda>_ sv'. svState sv' = st) (\<lambda>_ sv'. svState sv' = st) sv"
  by (auto simp: onPlan_def intro: wlp_mono [OF wlp_True])

definition same_state :: "server \<Rightarrow> server \<Rightarrow> bool" where
  "same_state s s' \<longleftrightarrow> svState s' = svState s"

interpretation same: step_relation same_state
  by unfold_locales (auto simp: same_state_def)

lemma same_parts [steps]: "within same_state (onTables m1)" "within same_state (onQueries m2)" "within same_state (onPlan m3)"
    "within same_state (onParser m4)" "within same_state (onSem m5)" "within same_state (onLog m6)"
  by (rule withinI, auto simp: on_defs same_state_def intro: wlp_mono [OF wlp_True])+

lemma same_commands:
  "within same_state (registerBaseTable derive info src)" "within same_state (registerView derive q info)"
  "within same_state (registerQuery derive spec out)"
proof -
  have t: "within same_state (declareTable derive x)" for x
    unfolding declareTable_def parseText_def by (intro same.within_bindM same.within_if same.within_option same.within_pure same_parts)
  have [steps]: "within same_state theTables" unfolding theTables_def by (intro same.within_bindM same.within_pure)
  show "within same_state (registerBaseTable derive info src)" "within same_state (registerView derive q info)"
    unfolding registerBaseTable_def registerView_def
    by (intro same.within_bindM t steps)+
  show "within same_state (registerQuery derive spec out)"
    unfolding registerQuery_def parseText_def
    by (intro same.within_bindM same.within_seqM same.within_if same.within_option same.within_pure steps)
qed

text \<open>C26: A command that comes out of order is refused and changes nothing.  One that succeeds takes the
  server from \<open>S_INIT\<close> to \<open>S_APP_SPEC\<close> (\<open>beginAppSpecification\<close>), from there to \<open>S_PLAN_GEN\<close>
  (\<open>endAppSpecification\<close>), or leaves it in \<open>S_APP_SPEC\<close> (all others); so does one that fails in its
  proper state.  No command leaves \<open>S_PLAN_GEN\<close>.\<close>
theorem commands_in_order:
  "(svState sv \<noteq> needs c \<longrightarrow> runCommand derive c sv = Fail INVALID_USE_ERR sv) \<and>
   wlp (runCommand derive c) (\<lambda>_ sv'. svState sv = needs c \<and> svState sv' = leaves_in c)
     (\<lambda>rc sv'. svState sv' = svState sv \<or> svState sv = S_INIT \<and> svState sv' = S_APP_SPEC) sv"
proof (cases "svState sv = needs c")
  case False
  then have "runCommand derive c sv = Fail INVALID_USE_ERR sv"
    by (cases c) (simp_all add: beginAppSpecification_def registerBaseTable_def registerView_def declareTable_def
      registerQuery_def endAppSpecification_def comp_defs)
  then show ?thesis using False by (simp add: wlp_def)
next
  case True
  have keeps: "wlp m (\<lambda>_ sv'. svState sv' = svState sv) (\<lambda>_ sv'. svState sv' = svState sv) sv"
    if "within same_state m" for m :: "(server, 'b) comp"
    by (rule within_wlp [OF that]) (simp_all add: same_state_def)
  show ?thesis
  proof (cases c)
    case (CMD_BEGIN mem buf)
    let ?rest = "seqM (modM (\<lambda>s. s\<lparr>tableMgr := Some empty_table_manager\<rparr>))
      (seqM (modM (\<lambda>s. s\<lparr>qryMgr := Some (init_query_manager buf)\<rparr>))
      (seqM (modM (\<lambda>s. s\<lparr>planMgr := Some mem\<rparr>))
      (seqM (onPlan newPlanManagerImpl)
      (bindM (readM svSharing) (\<lambda>sh. onPlan (modM (\<lambda>p. p\<lparr>sharingAmongClasses := sh\<rparr>)))))))"
    have "within same_state (modM f)" if "\<And>s. svState (f s) = svState s" for f
      by (rule withinI) (simp add: that same_state_def)
    then have "within same_state ?rest"
      by (intro same.within_seqM same.within_bindM same.within_pure same_parts) simp_all
    then have "wlp ?rest (\<lambda>_ sv'. svState sv' = S_APP_SPEC) (\<lambda>_ sv'. svState sv' = S_APP_SPEC) (sv\<lparr>svState := S_APP_SPEC\<rparr>)"
      by (rule within_wlp) (simp_all add: same_state_def)
    then have "wlp (seqM (modM (\<lambda>s. s\<lparr>svState := S_APP_SPEC\<rparr>)) ?rest) (\<lambda>_ sv'. svState sv' = S_APP_SPEC)
        (\<lambda>_ sv'. svState sv' = S_APP_SPEC) sv" by (subst wlp_seqM) (simp only: wlp_modM)
    moreover have "runCommand derive c sv = seqM (modM (\<lambda>s. s\<lparr>svState := S_APP_SPEC\<rparr>)) ?rest sv"
      using True CMD_BEGIN by (simp add: beginAppSpecification_def bindM_def readM_def)
    ultimately show ?thesis using True CMD_BEGIN unfolding wlp_def by (simp split: outcome.splits)
  next
    case (CMD_TABLE info src)
    then show ?thesis using True keeps [OF same_commands(1)] by (auto elim!: wlp_mono)
  next
    case (CMD_QUERY spec out)
    then show ?thesis using True keeps [OF same_commands(3)] by (auto elim!: wlp_mono)
  next
    case (CMD_VIEW q info)
    then show ?thesis using True keeps [OF same_commands(2)] by (auto elim!: wlp_mono)
  next
    case CMD_END
    have "wlp (onPlan optimize_plan) (\<lambda>_ sv'. svState sv' = svState sv) (\<lambda>_ sv'. svState sv' = svState sv) sv"
      by (rule keeps) (rule same_parts)
    then show ?thesis using True CMD_END
      by (simp add: endAppSpecification_def) (erule wlp_mono, simp_all)
  qed
qed

theorem commands_in_order_witness:
  "runCommand (\<lambda>_. None) (CMD_QUERY ''x'' None) (newServer \<lparr>nodeptr = 0, charptr = 0\<rparr> demo_state empty_pool False) =
    Fail INVALID_USE_ERR (newServer \<lparr>nodeptr = 0, charptr = 0\<rparr> demo_state empty_pool False)"
  using commands_in_order [of "newServer \<lparr>nodeptr = 0, charptr = 0\<rparr> demo_state empty_pool False" "CMD_QUERY ''x'' None" "\<lambda>_. None"]
  by (simp add: newServer_def)

section \<open>Reachable states\<close>

text \<open>The registries of tables and of query strings; an optimizer that fails does not touch them.\<close>

definition books_ok :: "server \<Rightarrow> bool" where
  "books_ok sv \<longleftrightarrow>
     (case svState sv of
        S_INIT \<Rightarrow> tableMgr sv = None \<and> qryMgr sv = None \<and> planMgr sv = None
      | S_APP_SPEC \<Rightarrow> catalogs_ok sv
      | S_PLAN_GEN \<Rightarrow> catalogs_ok sv
      | _ \<Rightarrow> False)"

lemma server_ok_books: "server_ok sv \<Longrightarrow> books_ok sv"
  by (simp add: server_ok_def books_ok_def spec_ok_def split: server_state.splits)

definition keeps_books :: "server \<Rightarrow> server \<Rightarrow> bool" where
  "keeps_books s s' \<longleftrightarrow> svState s' = svState s \<and> (catalogs_ok s \<longrightarrow> catalogs_ok s')"

interpretation books: step_relation keeps_books
  by unfold_locales (auto simp: keeps_books_def)

lemma books_parts: "within keeps_books (onPlan m1)" "within keeps_books (onParser m2)" "within keeps_books (onSem m3)"
    "within keeps_books (onLog m4)"
  by (rule withinI, auto simp: on_defs keeps_books_def catalogs_ok_def intro: wlp_mono [OF wlp_True])+

lemma books_tables: "within keeps_books (onTables (declareNode t))"
proof (rule withinI)
  fix s
  show "wlp (onTables (declareNode t)) (\<lambda>_. keeps_books s) (\<lambda>_. keeps_books s) s"
  proof (cases "catalogs_ok s")
    case True
    then obtain tm where tm: "tableMgr s = Some tm" "tables_ok tm" by (auto simp: catalogs_ok_def)
    have "keeps_books s (s\<lparr>tableMgr := Some tm'\<rparr>)" if "tables_ok tm'" for tm'
      using True that by (auto simp: keeps_books_def catalogs_ok_def)
    then show ?thesis using tm
      by (simp add: on_defs) (rule wlp_mono [OF declareNode_wlp [OF tm(2)]], auto simp: declared_def)
  next
    case False
    then show ?thesis by (auto simp: on_defs keeps_books_def intro: wlp_mono [OF wlp_True])
  qed
qed

lemma books_queries: "within keeps_books (onQueries (registerQueryStr spec n))"
proof (rule withinI)
  fix s
  show "wlp (onQueries (registerQueryStr spec n)) (\<lambda>_. keeps_books s) (\<lambda>_. keeps_books s) s"
  proof (cases "catalogs_ok s")
    case True
    then obtain qm where qm: "qryMgr s = Some qm" "nextFree qm \<le> QRY_BUF_LEN" "length (queries qm) \<le> MAX_QUERIES"
      by (auto simp: catalogs_ok_def)
    have "keeps_books s (s\<lparr>qryMgr := Some qm'\<rparr>)"
      if "nextFree qm' \<le> QRY_BUF_LEN \<and> length (queries qm') \<le> MAX_QUERIES" for qm'
      using True that by (auto simp: keeps_books_def catalogs_ok_def)
    then show ?thesis using qm
      by (simp add: on_defs) (rule wlp_mono [OF registerQueryStr_wlp [OF qm(2,3)]], auto)
  next
    case False
    then show ?thesis by (auto simp: on_defs keeps_books_def intro: wlp_mono [OF wlp_True])
  qed
qed

lemma books_commands:
  "within keeps_books (registerBaseTable derive info src)" "within keeps_books (registerView derive q info)"
  "within keeps_books (registerQuery derive spec out)" "within keeps_books (onPlan optimize_plan)"
proof -
  note books = books_parts books_tables books_queries
  have t: "within keeps_books (declareTable derive x)" for x
    unfolding declareTable_def parseText_def by (intro books.within_bindM books.within_if books.within_option books.within_pure books)
  have th: "within keeps_books theTables" unfolding theTables_def by (intro books.within_bindM books.within_pure)
  show "within keeps_books (registerBaseTable derive info src)" "within keeps_books (registerView derive q info)"
    unfolding registerBaseTable_def registerView_def by (intro books.within_bindM t th books)+
  show "within keeps_books (registerQuery derive spec out)"
    unfolding registerQuery_def parseText_def
    by (intro books.within_bindM books.within_seqM books.within_if books.within_option books.within_pure th books)
qed (rule books_parts)

lemma runCommand_books:
  assumes "books_ok sv"
  shows "wlp (runCommand derive c) (\<lambda>_. books_ok) (\<lambda>_. books_ok) sv"
proof (cases "svState sv = S_INIT")
  case True
  then have "server_ok sv" using assms by (simp add: books_ok_def server_ok_def)
  then show ?thesis using True
    by (intro wlp_mono [OF runCommand_keeps]) (auto intro: server_ok_books)
next
  case False
  have keeps: "wlp m (\<lambda>_. books_ok) (\<lambda>_. books_ok) sv" if "within keeps_books m" for m :: "(server, 'b) comp"
    by (rule within_wlp [OF that])
      (use assms False in \<open>auto simp: keeps_books_def books_ok_def split: server_state.splits\<close>)
  show ?thesis
  proof (cases c)
    case (CMD_BEGIN mem buf)
    then show ?thesis using False assms by (simp add: beginAppSpecification_def)
  next
    case (CMD_TABLE info src)
    then show ?thesis using keeps [OF books_commands(1)] by simp
  next
    case (CMD_QUERY spec out)
    then show ?thesis using keeps [OF books_commands(3)] by simp
  next
    case (CMD_VIEW q info)
    then show ?thesis using keeps [OF books_commands(2)] by simp
  next
    case CMD_END
    have "wlp (onPlan optimize_plan) (\<lambda>_ sv'. books_ok (sv'\<lparr>svState := S_PLAN_GEN\<rparr>)) (\<lambda>_. books_ok) sv"
      if "svState sv = S_APP_SPEC"
      by (rule within_wlp [OF books_commands(4)])
        (use assms that in \<open>auto simp: keeps_books_def books_ok_def catalogs_ok_def\<close>)
    then show ?thesis using CMD_END assms by (simp add: endAppSpecification_def)
  qed
qed

lemma reached_ok:
  assumes "reaches derive (newServer p se l sharing) b sv"
  shows "books_ok sv \<and> (\<not> b \<longrightarrow> server_ok sv)"
  using assms
proof (induction rule: reaches.induct)
  case reaches_start
  show ?case by (simp add: server_ok_def books_ok_def newServer_def)
next
  case (reaches_done b s1 c s2)
  then show ?case using wlp_DoneD [OF runCommand_keeps] wlp_DoneD [OF runCommand_books] by blast
next
  case (reaches_failed b s1 c rc s2)
  then show ?case using wlp_FailD [OF runCommand_keeps] wlp_FailD [OF runCommand_books] by blast
next
  case (reaches_class b s1 c s2)
  then show ?case
    by (auto simp: setQueryClass_def modM_def server_ok_def books_ok_def spec_ok_def catalogs_ok_def split: server_state.splits)
qed

text \<open>C25: In every state that a server reaches from its start, through any sequence of commands with any
  texts, successful or not, and any changes of the query class, the managers are there exactly if the specification of the
  application has begun, and then the tables have distinct names and at least one and at
  most \<open>MAX_ATTRS\<close> distinct attributes each, and the query strings fit into their buffer.  Unless an
  \<open>endAppSpecification\<close> has failed after the specification had begun, which may leave the optimizer
  half-way, while the specification is open the pool of operators is in order too: the graph of operators
  has no cycle, an operator is an output only of
  operators that it reads, no operator has more than \<open>MAX_OUT_BRANCHING\<close> outputs, every table and
  query is filed with an operator in use, and no array is over-full.\<close>
theorem server_invariant:
  assumes "reaches derive (newServer p se l sharing) b sv"
  shows "books_ok sv \<and> (\<not> b \<longrightarrow> server_ok sv)"
  by (rule reached_ok [OF assms])

text \<open>A server with the tables of the examples.\<close>

definition demo_derive :: "string \<Rightarrow> g_command option" where
  "demo_derive str =
    (if str = ''S'' then Some (GC_STREAM ''S'' [GAttrSpec ''a'' T_INT 0, GAttrSpec ''b'' T_FLOAT 0])
     else if str = ''T'' then Some (GC_STREAM ''T'' [GAttrSpec ''a'' T_INT 0, GAttrSpec ''c'' T_FLOAT 0])
     else if str = ''V'' then Some (GC_STREAM ''V'' [GAttrSpec ''c'' T_FLOAT 0])
     else if str = ''W'' then Some (GC_STREAM ''W'' [GAttrSpec ''c'' T_INT 0])
     else if str = ''Q'' then Some (GC_QUERY (GQ_SFW None \<lparr>gDistinct = False, gProj = [GP_EXPR (GE_ATTR (GAttr None ''c''))],
       gRels = [GRelVar ''T'' (Some (GW_ROWS 3)) None],
       gConds = [GCond C_GT (GE_ATTR (GAttr None ''a'')) (GE_CONST (IVal 5))], gGroups = []\<rparr>))
     else if str = ''U'' then Some (GC_QUERY (GQ_SFW None \<lparr>gDistinct = False,
       gProj = [GP_EXPR (GE_ATTR (GAttr None ''a'')), GP_AGGR F_MAX (GAttr None ''c'')],
       gRels = [GRelVar ''T'' (Some (GW_ROWS 3)) None], gConds = [], gGroups = []\<rparr>))
     else None)"

lemma demo_declares:
  "declares demo_derive ''S'' p True ''S'' [\<lparr>attrName = ''a'', attrType = T_INT, attrLen = 4\<rparr>, \<lparr>attrName = ''b'', attrType = T_FLOAT, attrLen = 4\<rparr>]"
  "declares demo_derive ''T'' p True ''T'' [\<lparr>attrName = ''a'', attrType = T_INT, attrLen = 4\<rparr>, \<lparr>attrName = ''c'', attrType = T_FLOAT, attrLen = 4\<rparr>]"
  "declares demo_derive ''V'' p True ''V'' [\<lparr>attrName = ''c'', attrType = T_FLOAT, attrLen = 4\<rparr>]"
  "declares demo_derive ''W'' p True ''W'' [\<lparr>attrName = ''c'', attrType = T_INT, attrLen = 4\<rparr>]"
  by (simp_all add: declares_def demo_derive_def parseCommand_def reset_charptr_def init_parser_def prepend_def list_node_def
      int_attr_spec_node_def float_attr_spec_node_def str_spec_node_def mk_node_def newnode_def comp_defs MAXNODE_def
      attr_spec_len_def INT_SIZE_def FLOAT_SIZE_def)

abbreviation demo_parser :: parser_state where
  "demo_parser \<equiv> \<lparr>nodeptr = 0, charptr = 0\<rparr>"

lemma demo_begin:
  obtains sv pm where "runCommand demo_derive (CMD_BEGIN mem buf) (newServer p demo_state empty_pool False) = Done () sv"
    and "specifying sv empty_table_manager (init_query_manager buf) pm [0]" and "new_manager pm"
    and "svSem sv = demo_state" and "svLog sv = empty_pool"
proof -
  obtain pm where pm: "newPlanManagerImpl mem = Done () pm" "new_manager pm"
    using wp_success [OF newPlanManagerImpl_wp] by auto
  let ?pm = "pm\<lparr>sharingAmongClasses := False\<rparr>"
  let ?sv = "(newServer p demo_state empty_pool False)\<lparr>svState := S_APP_SPEC, tableMgr := Some empty_table_manager,
      qryMgr := Some (init_query_manager buf), planMgr := Some ?pm\<rparr>"
  have nm: "new_manager ?pm" using pm(2) pool_update [of ?pm pm] by (simp add: new_manager_def)
  have "runCommand demo_derive (CMD_BEGIN mem buf) (newServer p demo_state empty_pool False) = Done () ?sv"
    using pm(1) by (simp add: beginAppSpecification_def newServer_def onPlan_def zoomM_def comp_defs)
  moreover have "specifying ?sv empty_table_manager (init_query_manager buf) ?pm [0]"
    using new_manager_inv [OF nm] nm
    by (simp add: specifying_def newServer_def tables_ok_def tm_nonempty_def empty_table_manager_def tm_ok_def
        init_query_manager_def sources_known_def new_manager_def SS_ID_def)
  ultimately show thesis using that nm by (simp add: newServer_def)
qed

lemma demo_server:
  obtains sv pm where "reaches demo_derive (newServer p demo_state empty_pool False) False sv"
    and "specifying sv demo_tables (init_query_manager buf) pm [2, 1, 0]" and "pool pm [3 ..< P_MAX_OPS] [2, 1, 0]"
    and "serves demo_tables pm [2, 1, 0] 1" and "src_of pm 1 = (2, True)" and "poutputs (ops pm 2) = []"
    and "numExprs pm = 0" and "numBExprs pm = 0" and "queryOutOps pm = []" and "queryOutputs pm = []"
    and "sourceOps pm = [(0, 0), (0, 1), (1, 2)]" and "svSem sv = demo_state" and "svLog sv = empty_pool" and "svClass sv = 1"
proof -
  let ?s = "newServer p demo_state empty_pool False"
  let ?ab = "[\<lparr>attrName = ''a'', attrType = T_INT, attrLen = 4\<rparr>, \<lparr>attrName = ''b'', attrType = T_FLOAT, attrLen = 4\<rparr>]"
  let ?ac = "[\<lparr>attrName = ''a'', attrType = T_INT, attrLen = 4\<rparr>, \<lparr>attrName = ''c'', attrType = T_FLOAT, attrLen = 4\<rparr>]"
  have lt: "1 < P_MAX_OPS" "2 < P_MAX_OPS" "3 < P_MAX_OPS" by (simp_all add: P_MAX_OPS_def)
  have "[2 ..< P_MAX_OPS] = 2 # [3 ..< P_MAX_OPS]" using upt_conv_Cons [OF lt(2)] by simp
  then have up: "[1 ..< P_MAX_OPS] = 1 # 2 # [3 ..< P_MAX_OPS]" "[3 ..< P_MAX_OPS] = 3 # [4 ..< P_MAX_OPS]"
    using pool_positions(2) upt_conv_Cons [OF lt(3)] by (simp_all only:) simp_all
  obtain sv0 pm0 where r0: "runCommand demo_derive (CMD_BEGIN undefined buf) ?s = Done () sv0"
      and s0: "specifying sv0 empty_table_manager (init_query_manager buf) pm0 [0]" and nm: "new_manager pm0"
      and st0: "svSem sv0 = demo_state" "svLog sv0 = empty_pool"
    using demo_begin [of undefined buf p] by metis
  have p0: "pool pm0 (1 # 2 # [3 ..< P_MAX_OPS]) [0]" using nm up(1) by (simp add: new_manager_def)
  have f0: "table_fits empty_table_manager ''S'' ?ab" "length (baseTableSources pm0) \<noteq> MAX_TABLES" "length (sourceOps pm0) \<noteq> MAX_TABLES"
    using nm by (simp_all add: table_fits_def attrs_fit_def empty_table_manager_def getTableId_def MAX_TABLES_def MAX_ATTRS_def new_manager_def)
  have "wp (registerBaseTable demo_derive (Some ''S'') 5)
    (\<lambda>_ sv'. \<exists>tm' pm'. declared True ''S'' ?ab empty_table_manager tm' \<and> specifying sv' tm' (init_query_manager buf) pm' [1, 0] \<and>
       pool pm' (2 # [3 ..< P_MAX_OPS]) [1, 0] \<and> source_added True 0 ?ab 1 pm0 pm' \<and>
       svSem sv' = svSem sv0 \<and> svLog sv' = svLog sv0) (\<lambda>_ _. False) sv0"
    by (rule wp_mono [OF registerBaseTable_wp [OF s0 demo_declares(1) p0]]) (use f0 in \<open>auto simp: empty_table_manager_def\<close>)
  then obtain sv1 tm1 pm1 where r1: "runCommand demo_derive (CMD_TABLE (Some ''S'') 5) sv0 = Done () sv1"
      and d1: "declared True ''S'' ?ab empty_table_manager tm1" and s1: "specifying sv1 tm1 (init_query_manager buf) pm1 [1, 0]"
      and p1: "pool pm1 (2 # [3 ..< P_MAX_OPS]) [1, 0]" and a1: "source_added True 0 ?ab 1 pm0 pm1"
      and st1: "svSem sv1 = svSem sv0" "svLog sv1 = svLog sv0" by (auto dest!: wp_success)
  have p1': "pool pm1 (2 # 3 # [4 ..< P_MAX_OPS]) [1, 0]" using p1 up(2) by simp
  have l1: "length (sourceOps pm1) = 2" using a1 nm by (simp add: source_added_def new_manager_def)
  have b1: "length (baseTableSources pm1) = 1" using a1 nm by (simp add: source_added_def new_manager_def)
  have t1: "tableList tm1 = [\<lparr>tableName = ''S'', tblIsStream = True, attrList = ?ab\<rparr>]"
    using d1 by (simp add: declared_def empty_table_manager_def)
  have f1: "table_fits tm1 ''T'' ?ac" "length (baseTableSources pm1) \<noteq> MAX_TABLES" "length (sourceOps pm1) \<noteq> MAX_TABLES"
    using l1 b1 t1 by (simp_all add: table_fits_def attrs_fit_def getTableId_def MAX_TABLES_def MAX_ATTRS_def)
  have "wp (registerBaseTable demo_derive (Some ''T'') 6)
    (\<lambda>_ sv'. \<exists>tm' pm'. declared True ''T'' ?ac tm1 tm' \<and> specifying sv' tm' (init_query_manager buf) pm' [2, 1, 0] \<and>
       pool pm' (3 # [4 ..< P_MAX_OPS]) [2, 1, 0] \<and> source_added True 1 ?ac 2 pm1 pm' \<and>
       svSem sv' = svSem sv1 \<and> svLog sv' = svLog sv1) (\<lambda>_ _. False) sv1"
    by (rule wp_mono [OF registerBaseTable_wp [OF s1 demo_declares(2) p1']]) (use f1 t1 in auto)
  then obtain sv tm pm where r2: "runCommand demo_derive (CMD_TABLE (Some ''T'') 6) sv1 = Done () sv"
      and d2: "declared True ''T'' ?ac tm1 tm" and s2: "specifying sv tm (init_query_manager buf) pm [2, 1, 0]"
      and p2: "pool pm (3 # [4 ..< P_MAX_OPS]) [2, 1, 0]" and a2: "source_added True 1 ?ac 2 pm1 pm"
      and st2: "svSem sv = svSem sv1" "svLog sv = svLog sv1" by (auto dest!: wp_success)
  have "tableList tm = tableList demo_tables" using d2 t1 by (simp add: declared_def demo_tables_def)
  then have tm: "tm = demo_tables" by simp
  have "reaches demo_derive ?s False sv"
    by (rule reaches_done [OF reaches_done [OF reaches_done [OF reaches_start r0] r1] r2])
  then have "reaches demo_derive ?s False (sv\<lparr>svClass := 1\<rparr>)"
    by (rule reaches_class) (simp add: setQueryClass_def modM_def)
  moreover have so: "sourceOps pm = [(0, 0), (0, 1), (1, 2)]"
    using a1 a2 nm by (simp add: source_added_def new_manager_def SS_ID_def)
  moreover have "node_of (ops pm 2) = \<lparr>nkind = PO_STREAM_SOURCE, nunion = U_STREAM_SOURCE 1 1,
      ncols = [(T_INT, Some 4), (T_FLOAT, Some 4)], nstream = True\<rparr>" using a2 b1 by (simp add: source_added_def)
  then have "pkind (ops pm 2) = PO_STREAM_SOURCE" "pschema (ops pm 2) = [(T_INT, Some 4), (T_FLOAT, Some 4)]" "pbStream (ops pm 2)"
    by (metis node_of_sel pnode.select_convs)+
  then have "serves demo_tables pm [2, 1, 0] 1" "src_of pm 1 = (2, True)"
    using so by (simp_all add: served_def src_of_def find_source_Cons table_cols_def demo_tables_def)
  moreover have "numExprs pm = 0" "numBExprs pm = 0" "queryOutOps pm = []" "queryOutputs pm = []" "poutputs (ops pm 2) = []"
    using a1 a2 nm by (simp_all add: source_added_def new_manager_def)
  moreover have "specifying (sv\<lparr>svClass := 1\<rparr>) demo_tables (init_query_manager buf) pm [2, 1, 0]"
    using s2 by (simp add: specifying_def tm)
  ultimately show thesis using that [of "sv\<lparr>svClass := 1\<rparr>" pm] p2 st0 st1 st2 up(2) by simp
qed

theorem server_invariant_witness:
  "\<exists>sv pm. svState sv = S_APP_SPEC \<and> tableMgr sv = Some demo_tables \<and> planMgr sv = Some pm \<and> server_ok sv"
proof -
  obtain sv pm where "reaches demo_derive (newServer demo_parser demo_state empty_pool False) False sv"
      "specifying sv demo_tables (init_query_manager undefined) pm [2, 1, 0]"
    using demo_server [of demo_parser undefined] by metis
  note sv = this
  show ?thesis using server_invariant [OF sv(1)] sv(2) by (auto simp: specifying_def)
qed

section \<open>Queries from the text to the plan\<close>

lemma registerQueryStr_next:
  assumes "nextFree qm \<le> QRY_BUF_LEN" and "length (queries qm) \<le> MAX_QUERIES"
  shows "wp (registerQueryStr s n) (\<lambda>q qm'. q = length (queries qm) \<and> nextFree qm' \<le> QRY_BUF_LEN \<and> length (queries qm') \<le> MAX_QUERIES)
    (\<lambda>rc qm'. rc = - 1 \<and> qm' = qm \<and> (QRY_BUF_LEN \<le> nextFree qm + n \<or> length (queries qm) = MAX_QUERIES)) qm"
  using assms by (auto simp: registerQueryStr_def)

lemma onPlan_modM: "wp (onPlan (modM f)) Q E sv \<longleftrightarrow> (\<exists>p. planMgr sv = Some p \<and> Q () (sv\<lparr>planMgr := Some (f p)\<rparr>))"
  by (simp add: onPlan_def)

text \<open>From the semantic query on: the two generators of plans.\<close>

lemma query_stages:
  assumes sv: "specifying sv tm qm pm us" and cls: "0 < svClass sv" and ok: "query_ok tm q" "qKind q = SFW_QUERY \<longrightarrow> plan_fits q"
    and phys: "(qKind q = SFW_QUERY \<longrightarrow> join_width tm q \<le> MAX_ATTRS) \<Longrightarrow> phys_ok tm (logical_kplan tm q)" and pool: "pool pm fs us" "nodes (logical_kplan tm q) + 2 < length fs"
    and served: "\<forall>t\<in>set (tables (logical_kplan tm q)). serves tm pm us t"
  shows "wp (bindM (onLog (genLogPlan tm q)) (\<lambda>logPlan.
      bindM (readM svClass) (\<lambda>c.
      seqM (onPlan (modM (\<lambda>p. p\<lparr>current_query_class := c\<rparr>)))
      (bindM (readM (\<lambda>s. opHeap (svLog s))) (\<lambda>h.
       seqM (onPlan (addLogicalQueryPlan qid h logPlan out)) (retM qid))))))
    (\<lambda>r sv'. r = qid \<and> (qKind q = SFW_QUERY \<longrightarrow> join_width tm q \<le> MAX_ATTRS) \<and>
       (\<exists>pm' us'. specifying sv' tm qm pm' us' \<and>
          query_planned tm (logical_kplan tm q) qid out fs us (pm\<lparr>current_query_class := svClass sv\<rparr>) pm'))
    (\<lambda>rc sv'. rc = - 1 \<and> server_ok sv' \<and>
       (qKind q = SFW_QUERY \<and> MAX_ATTRS < join_width tm q \<or> \<not> query_room (src_of pm) (logical_kplan tm q) out pm)) sv"
    (is "wp _ ?Q ?E sv")
proof -
  let ?K = "logical_kplan tm q" and ?pm = "pm\<lparr>current_query_class := svClass sv\<rparr>"
  have tm: "tm_ok tm" "tm_nonempty tm" and inv: "plan_inv us pm" and known: "sources_known tm pm"
    using sv by (simp_all add: specifying_def tables_ok_def)
  have inv': "plan_inv us ?pm" by (rule plan_inv_tables [OF inv]) (use inv in \<open>simp_all add: plan_inv_def\<close>)
  have pool': "pool ?pm fs us" using pool(1) pool_update [of ?pm pm] by simp
  have src: "src_of ?pm = src_of pm" by (simp add: src_of_def fun_eq_iff)
  have served': "\<forall>t\<in>set (tables ?K). serves tm ?pm us t"
    using served by (auto simp: served_def)
  have room: "query_room (src_of pm) ?K out ?pm = query_room (src_of pm) ?K out pm"
    by (simp add: query_room_def room_def)
  have sv1: "specifying (sv\<lparr>svLog := ls\<rparr>) tm qm pm us" for ls using sv by (simp add: specifying_statics)
  have ok1: "server_ok (sv\<lparr>svLog := ls\<rparr>)" for ls by (rule specifyingD [OF sv1])
  have sv2: "specifying (sv\<lparr>svLog := ls, planMgr := Some ?pm\<rparr>) tm qm ?pm us" for ls
    by (rule specifying_plan [OF sv1 inv']) (use known in \<open>simp add: sources_known_def\<close>)
  have plan: "wp (onPlan (addLogicalQueryPlan qid (opHeap ls) l out))
      (\<lambda>_ sv'. \<exists>pm' us'. specifying sv' tm qm pm' us' \<and> query_planned tm ?K qid out fs us ?pm pm')
      (\<lambda>rc sv'. rc = - 1 \<and> server_ok sv' \<and> \<not> query_room (src_of pm) ?K out pm) (sv\<lparr>svLog := ls, planMgr := Some ?pm\<rparr>)"
    if K: "kplan_at tm ls l ?K" "kplan_ok tm ?K" "operator_ptr ls \<le> 68" and width: "qKind q = SFW_QUERY \<longrightarrow> join_width tm q \<le> MAX_ATTRS" for ls l
  proof -
    have "operator_ptr ls \<le> MAXOPERATOR" "0 < current_query_class ?pm" using K(3) cls by (simp_all add: MAXOPERATOR_def)
    note w = wp_wlp_conj [OF wp_wlp_conj [OF addLogicalQueryPlan_wp [OF K(1,2) phys [OF width] this(1) inv' pool' pool(2) served' this(2)]
        addLogicalQueryPlan_keeps [OF inv', of qid "opHeap ls" l out]] addLogicalQueryPlan_sources [OF inv', of qid "opHeap ls" l out]]
    have sv3: "specifying (sv\<lparr>svLog := ls, planMgr := Some pm'\<rparr>) tm qm pm' us'"
      if "plan_inv us' pm'" "sourceOps pm' = sourceOps pm" for pm' us'
      using specifying_plan [OF sv1 that(1), of ls] known that(2) by (simp add: sources_known_def)
    show ?thesis
      unfolding onPlan_wp [OF sv2]
    proof (rule wp_mono [OF w], goal_cases)
      case (1 x pm')
      then obtain us' where "plan_inv us' pm'" by blast
      from sv3 [OF this] show ?case using 1 by auto
    next
      case (2 rc pm')
      then obtain us' where "plan_inv us' pm'" by blast
      from sv3 [OF this, THEN specifyingD] show ?case using 2 src room by auto
    qed
  qed
  have log: "wp (onLog (genLogPlan tm q)) (\<lambda>l sv'. \<exists>ls. sv' = sv\<lparr>svLog := ls\<rparr> \<and> kplan_at tm ls l ?K \<and> kplan_ok tm ?K \<and> operator_ptr ls \<le> 68 \<and>
      (qKind q = SFW_QUERY \<longrightarrow> join_width tm q \<le> MAX_ATTRS)) ?E sv"
    unfolding onLog_def wp_zoomM
    using ok1 by (auto intro!: wp_mono [OF genLogPlan_wp [OF tm ok]])
  show ?thesis
  proof (rule wp_bindI [OF log])
    fix l sv'
    assume "\<exists>ls. sv' = sv\<lparr>svLog := ls\<rparr> \<and> kplan_at tm ls l ?K \<and> kplan_ok tm ?K \<and> operator_ptr ls \<le> 68 \<and>
      (qKind q = SFW_QUERY \<longrightarrow> join_width tm q \<le> MAX_ATTRS)"
    then obtain ls where ls: "sv' = sv\<lparr>svLog := ls\<rparr>" "kplan_at tm ls l ?K" "kplan_ok tm ?K" "operator_ptr ls \<le> 68"
      "qKind q = SFW_QUERY \<longrightarrow> join_width tm q \<le> MAX_ATTRS" by blast
    have "planMgr sv = Some pm" using sv by (simp add: specifying_def)
    then show "wp (bindM (readM svClass) (\<lambda>c.
      seqM (onPlan (modM (\<lambda>p. p\<lparr>current_query_class := c\<rparr>)))
      (bindM (readM (\<lambda>s. opHeap (svLog s))) (\<lambda>h.
       seqM (onPlan (addLogicalQueryPlan qid h l out)) (retM qid))))) ?Q ?E sv'"
      using wp_mono [OF plan [OF ls(2-5)]] ls(5) by (simp add: ls(1) onPlan_modM)
  qed simp
qed

text \<open>C23: A query that is parsed and accepted by the interpreter goes through all stages: it gets the next
  query identifier, the pool holds the physical plan of its optimised logical plan over the
  operators of its tables, with a query source operator and, if its answers go anywhere, an output
  operator on top, and all other operators keep their inputs and outputs but for the sources, which
  get new readers.  The only failures are a full buffer of query strings, a join that is too wide, or
  no room in the pools.  This holds for the queries that the code can translate and does not check:
  the range windows fit into an \<open>int\<close>, there are at most \<open>MAX_ATTRS\<close> projected expressions and as many group
  attributes and aggregations, windows are partitioned by attributes of their own stream, in an
  aggregation only group attributes are projected, and projected strings are attributes or
  aggregations.  Of the server it needs that an operator delivers each table, that the query class is
  positive, and that there are more free operators than the plan takes.\<close>
theorem registerQuery_plans:
  assumes "specifying sv tm qm pm us" and "pool pm fs us"
    and "derive str = Some (GC_QUERY g)" and "g_query_ok g" and "ranges_fit g"
    and "parseCommand (GC_QUERY g) (svParser sv) = Done t p" and "interpretQuery tm t (svSem sv) = Done () se"
    and "qKind (qry se) = SFW_QUERY \<longrightarrow> plan_fits (qry se)" and "grounded (qry se)"
    and "nodes (logical_kplan tm (qry se)) + 2 < length fs"
    and "\<forall>u\<in>set (tables (logical_kplan tm (qry se))). serves tm pm us u" and "0 < svClass sv"
  shows "wp (registerQuery derive str out)
    (\<lambda>qid sv'. qid = length (queries qm) \<and>
       (\<exists>qm' pm' us'. specifying sv' tm qm' pm' us' \<and> query_planned tm (logical_kplan tm (qry se)) qid out fs us
          (pm\<lparr>current_query_class := svClass sv\<rparr>) pm'))
    (\<lambda>rc sv'. rc = - 1 \<and> server_ok sv' \<and>
       (QRY_BUF_LEN \<le> nextFree qm + length str \<or> length (queries qm) = MAX_QUERIES \<or>
        qKind (qry se) = SFW_QUERY \<and> MAX_ATTRS < join_width tm (qry se) \<or>
        \<not> query_room (src_of pm) (logical_kplan tm (qry se)) out pm)) sv"
    (is "wp _ ?Q ?E sv")
proof -
  let ?q = "qry se" and ?sv = "sv\<lparr>svParser := p, svSem := se\<rparr>"
  have st: "svState sv = S_APP_SPEC" "tableMgr sv = Some tm" "qryMgr sv = Some qm" "planMgr sv = Some pm"
      and tm: "tm_ok tm" "tm_nonempty tm" and qm: "nextFree qm \<le> QRY_BUF_LEN" "length (queries qm) \<le> MAX_QUERIES"
    using assms(1) by (simp_all add: specifying_def tables_ok_def)
  have "wf_query t" "node_count t \<le> MAXNODE" using parseQuery_wf [OF assms(4-6)] by simp_all
  from wp_DoneD [OF interpretQuery_wp [OF tm this] assms(7)] have ok: "query_ok tm ?q" .
  have phys: "phys_ok tm (logical_kplan tm ?q)" if "qKind ?q = SFW_QUERY \<longrightarrow> join_width tm ?q \<le> MAX_ATTRS"
    using assms(8) that by (intro grounded_phys [OF tm ok assms(9) parsed_query_from [OF assms(4-7)]]) simp
  have sv': "specifying (?sv\<lparr>qryMgr := Some qm'\<rparr>) tm qm' pm us"
    if "nextFree qm' \<le> QRY_BUF_LEN" "length (queries qm') \<le> MAX_QUERIES" for qm'
    using assms(1) that by (simp add: specifying_def)
  have "wp (registerQueryStr str (length str)) (\<lambda>qid qm'. wp (bindM (onLog (genLogPlan tm ?q)) (\<lambda>logPlan.
      bindM (readM svClass) (\<lambda>c.
      seqM (onPlan (modM (\<lambda>p. p\<lparr>current_query_class := c\<rparr>)))
      (bindM (readM (\<lambda>s. opHeap (svLog s))) (\<lambda>h.
       seqM (onPlan (addLogicalQueryPlan qid h logPlan out)) (retM qid)))))) ?Q ?E (?sv\<lparr>qryMgr := Some qm'\<rparr>))
    (\<lambda>rc qm'. ?E rc (?sv\<lparr>qryMgr := Some qm'\<rparr>)) qm"
  proof (rule wp_mono [OF registerQueryStr_next [OF qm]], goal_cases)
    case (1 qid qm')
    then have s: "specifying (?sv\<lparr>qryMgr := Some qm'\<rparr>) tm qm' pm us" using sv' by blast
    show ?case
      by (rule wp_mono [OF query_stages [OF s _ ok assms(8) phys assms(2,10,11)]]) (use 1 assms(12) in auto)
  next
    case (2 rc qm')
    then show ?case using specifyingD [OF sv'] qm by auto
  qed
  then show ?thesis
    using st assms(7)
    by (simp add: registerQuery_def parseText_done [where derive = derive and str = str, OF assms(3,6)] onSem_def onQueries_def
        wp_def [of "interpretQuery tm t"] del: wp_bindM [of "onLog _"])
qed

lemma demo_query: "parseCommand (GC_QUERY (GQ_SFW None \<lparr>gDistinct = False, gProj = [GP_EXPR (GE_ATTR (GAttr None ''c''))],
       gRels = [GRelVar ''T'' (Some (GW_ROWS 3)) None],
       gConds = [GCond C_GT (GE_ATTR (GAttr None ''a'')) (GE_CONST (IVal 5))], gGroups = []\<rparr>)) p =
   Done (N_CONT_QUERY (Some (N_SFW_BLOCK (N_SELECT_CLAUSE False (Some (N_LIST (N_ATTR_REF None ''c'') None)))
     (N_LIST (N_REL_VAR ''T'' None (Some (N_WINDOW_SPEC W_ROW 3 None None))) None)
     (Some (N_LIST (N_CONDN C_GT (N_ATTR_REF None ''a'') (N_CONST_VAL (IVal 5))) None)) None)) None None)
     (p\<lparr>nodeptr := 12, charptr := 0\<rparr>)"
proof (cases p)
  case (fields m k)
  show ?thesis unfolding fields by code_simp
qed

lemma demo_interpreted: "interpretQuery demo_tables
   (N_CONT_QUERY (Some (N_SFW_BLOCK (N_SELECT_CLAUSE False (Some (N_LIST (N_ATTR_REF None ''c'') None)))
     (N_LIST (N_REL_VAR ''T'' None (Some (N_WINDOW_SPEC W_ROW 3 None None))) None)
     (Some (N_LIST (N_CONDN C_GT (N_ATTR_REF None ''a'') (N_CONST_VAL (IVal 5))) None)) None)) None None) demo_state =
   Done () \<lparr>symbolTable = [(''T'', 1)], semNumExprs = 3, qry = demo_select\<rparr>"
  by code_simp

theorem registerQuery_plans_witness:
  "\<exists>sv pm. reaches demo_derive (newServer demo_parser demo_state empty_pool False) False sv \<and> src_of pm 1 = (2, True) \<and>
     wp (registerQuery demo_derive ''Q'' (Some 9))
       (\<lambda>qid sv'. qid = 0 \<and> (\<exists>qm' pm' us'. specifying sv' demo_tables qm' pm' us' \<and>
          query_planned demo_tables demo_select_kplan 0 (Some 9) [3 ..< P_MAX_OPS] [2, 1, 0]
            (pm\<lparr>current_query_class := svClass sv\<rparr>) pm'))
       (\<lambda>_ _. False) sv"
proof -
  obtain sv pm where sv: "reaches demo_derive (newServer demo_parser demo_state empty_pool False) False sv"
      "specifying sv demo_tables (init_query_manager undefined) pm [2, 1, 0]" "pool pm [3 ..< P_MAX_OPS] [2, 1, 0]"
      "serves demo_tables pm [2, 1, 0] 1" "src_of pm 1 = (2, True)" "poutputs (ops pm 2) = []"
      "numExprs pm = 0" "numBExprs pm = 0" "queryOutOps pm = []" "queryOutputs pm = []" "svSem sv = demo_state"
      "svClass sv = 1"
    using demo_server [of demo_parser undefined] by metis
  let ?se = "\<lparr>symbolTable = [(''T'', 1)], semNumExprs = 3, qry = demo_select\<rparr>"
  let ?g = "GQ_SFW None \<lparr>gDistinct = False, gProj = [GP_EXPR (GE_ATTR (GAttr None ''c''))],
       gRels = [GRelVar ''T'' (Some (GW_ROWS 3)) None],
       gConds = [GCond C_GT (GE_ATTR (GAttr None ''a'')) (GE_CONST (IVal 5))], gGroups = []\<rparr>"
  have d: "demo_derive ''Q'' = Some (GC_QUERY ?g)" "g_query_ok ?g" "ranges_fit ?g" by (simp_all add: demo_derive_def g_sfw_ok_def)
  have K: "qKind (qry ?se) = SFW_QUERY \<longrightarrow> plan_fits (qry ?se)" "grounded (qry ?se)"
      "nodes (logical_kplan demo_tables (qry ?se)) + 2 < length [3 ..< P_MAX_OPS]"
      "\<forall>u\<in>set (tables (logical_kplan demo_tables (qry ?se))). serves demo_tables pm [2, 1, 0] u"
  proof -
    show "qKind (qry ?se) = SFW_QUERY \<longrightarrow> plan_fits (qry ?se)" using demo_select_ok(2) by simp
    show "grounded (qry ?se)" using demo_select_grounded by simp
    show "nodes (logical_kplan demo_tables (qry ?se)) + 2 < length [3 ..< P_MAX_OPS]"
      unfolding sem_state.select_convs demo_select_logical demo_select_phys(2) length_upt by (simp add: P_MAX_OPS_def)
    show "\<forall>u\<in>set (tables (logical_kplan demo_tables (qry ?se))). serves demo_tables pm [2, 1, 0] u"
      unfolding sem_state.select_convs demo_select_logical demo_select_phys(3) using sv(4) by simp
  qed
  have i: "interpretQuery demo_tables
   (N_CONT_QUERY (Some (N_SFW_BLOCK (N_SELECT_CLAUSE False (Some (N_LIST (N_ATTR_REF None ''c'') None)))
     (N_LIST (N_REL_VAR ''T'' None (Some (N_WINDOW_SPEC W_ROW 3 None None))) None)
     (Some (N_LIST (N_CONDN C_GT (N_ATTR_REF None ''a'') (N_CONST_VAL (IVal 5))) None)) None)) None None) (svSem sv) = Done () ?se"
    using demo_interpreted sv(11) by simp
  have room: "query_room (src_of pm) demo_select_kplan (Some 9) pm"
    unfolding query_room_def room_def demo_select_phys using sv(5-10)
    by (simp add: P_MAX_EXPRS_def MAX_OUT_BRANCHING_def MAX_QUERIES_def P_MAX_OUTPUT_def)
  have buf: "\<not> QRY_BUF_LEN \<le> nextFree (init_query_manager undefined) + length ''Q''"
      "length (queries (init_query_manager undefined)) \<noteq> MAX_QUERIES"
    by (simp_all add: init_query_manager_def QRY_BUF_LEN_def MAX_QUERIES_def)
  have cls: "0 < svClass sv" using sv(12) by simp
  note w = registerQuery_plans [where out = "Some 9" and derive = demo_derive and str = "''Q''" and se = ?se, OF sv(2,3) d demo_query i K cls]
  have "wp (registerQuery demo_derive ''Q'' (Some 9))
       (\<lambda>qid sv'. qid = 0 \<and> (\<exists>qm' pm' us'. specifying sv' demo_tables qm' pm' us' \<and>
          query_planned demo_tables demo_select_kplan 0 (Some 9) [3 ..< P_MAX_OPS] [2, 1, 0]
            (pm\<lparr>current_query_class := svClass sv\<rparr>) pm'))
       (\<lambda>_ _. False) sv"
    by (rule wp_mono [OF w]) (use buf room demo_select_ok(3) in \<open>auto simp: demo_select_logical init_query_manager_def\<close>)
  then show ?thesis using sv(1,5) by blast
qed

section \<open>Views\<close>

lemma registerView_wp:
  assumes sv: "specifying sv tm qm pm us" and d: "declares derive str (svParser sv) st n as"
    and lens: "\<And>p. query_op q pm = Some p \<Longrightarrow> \<forall>c\<in>set (pschema (ops pm p)). snd c \<noteq> None"
  shows "wp (registerView derive q (Some str))
    (\<lambda>_ sv'. \<exists>tm' p. declared st n as tm tm' \<and> query_op q pm = Some p \<and>
       pschema (ops pm p) = map (\<lambda>x. (attrType x, Some (attrLen x))) as \<and>
       specifying sv' tm' qm (pm\<lparr>sourceOps := sourceOps pm @ [(length (tableList tm), p)]\<rparr>) us)
    (\<lambda>rc sv'. specifying sv' tm qm pm us \<and> \<not> table_fits tm n as \<or>
       rc = - 1 \<and> (\<exists>tm'. declared st n as tm tm' \<and> specifying sv' tm' qm pm us \<and>
         (query_op q pm = None \<or> length (sourceOps pm) = MAX_TABLES \<or>
          (\<exists>p. query_op q pm = Some p \<and> pschema (ops pm p) \<noteq> map (\<lambda>x. (attrType x, Some (attrLen x))) as)))) sv"
    (is "wp _ ?Q ?E sv")
  unfolding registerView_def
proof (rule wp_bindI [OF declareTable_wp [OF sv d]])
  fix t sv1
  assume "\<exists>tm'. t = length (tableList tm) \<and> declared st n as tm tm' \<and> specifying sv1 tm' qm pm us \<and>
       svSem sv1 = svSem sv \<and> svLog sv1 = svLog sv"
  then obtain tm' where t: "t = length (tableList tm)" and dec: "declared st n as tm tm'"
    and sv1: "specifying sv1 tm' qm pm us" by blast
  have inv: "plan_inv us pm" "sources_known tm' pm" using sv1 by (simp_all add: specifying_def)
  have tm': "t < length (tableList tm')" "table_cols tm' t = map (\<lambda>x. (attrType x, Some (attrLen x))) as"
    using dec t by (simp_all add: declared_def table_cols_def)
  have "wp (mapQuery tm' q t) (\<lambda>_ pm'. ?Q () (sv1\<lparr>planMgr := Some pm'\<rparr>)) (\<lambda>rc pm'. ?E rc (sv1\<lparr>planMgr := Some pm'\<rparr>)) pm"
  proof (rule wp_mono [OF wp_wlp_conj [OF mapQuery_wp [OF inv(1) tm'(1) lens] mapQuery_keeps [OF inv(1)]]], assumption, goal_cases)
    case (1 x pm')
    then obtain p where p: "query_op q pm = Some p" "pschema (ops pm p) = table_cols tm' t"
        "pm' = pm\<lparr>sourceOps := sourceOps pm @ [(t, p)]\<rparr>" and inv': "\<exists>us'. plan_inv us' pm'" by blast
    obtain us' fs' where us': "plan_inv us' pm'" "pool pm' fs' us'" using inv' by (auto simp: plan_inv_def)
    obtain fs where "pool pm fs us" using inv(1) by (auto simp: plan_inv_def)
    then have "pool pm' fs us" using p(3) pool_update [of pm' pm] by simp
    then have "plan_inv us pm'" using us' pool_unique by blast
    moreover have "sources_known tm' pm'" using inv(2) tm'(1) p(3) by (auto simp: sources_known_def)
    ultimately have "specifying (sv1\<lparr>planMgr := Some pm'\<rparr>) tm' qm pm' us" by (rule specifying_plan [OF sv1])
    then show ?case using p t dec tm'(2) by auto
  next
    case (2 rc pm')
    then have pm': "pm' = pm" "rc = - 1" by blast+
    have "specifying (sv1\<lparr>planMgr := Some pm\<rparr>) tm' qm pm us" by (rule specifying_plan [OF sv1 inv])
    then show ?case using 2 dec tm'(2) by (auto simp: pm')
  qed
  then show "wp (bindM theTables (\<lambda>tm. onPlan (mapQuery tm q t))) ?Q ?E sv1"
    using specifying_tables [OF sv1] by (simp add: onPlan_wp [OF sv1])
qed (use sv in auto)

abbreviation columns_of :: "attribute list \<Rightarrow> pcolumn list" where
  "columns_of as \<equiv> map (\<lambda>x. (attrType x, Some (attrLen x))) as"

lemma declared_id: "declared st n as tm tm' \<Longrightarrow> getTableId tm' n = Some (length (tableList tm))"
  using getTableId_nth [of tm' "length (tableList tm)"] by (auto simp: declared_def tables_ok_def)

lemma demo_fits: "table_fits demo_tables ''V'' [\<lparr>attrName = ''c'', attrType = T_FLOAT, attrLen = 4\<rparr>]"
  by (simp add: table_fits_def attrs_fit_def demo_tables_def getTableId_def MAX_TABLES_def MAX_ATTRS_def)

text \<open>The demo server after the query.\<close>

lemma demo_answered:
  obtains sv pm us p where "specifying sv demo_tables (init_query_manager buf) pm us" and "query_op 0 pm = Some p"
    and "pkind (ops pm p) = PO_QUERY_SOURCE" and "pschema (ops pm p) = [(T_FLOAT, Some 4)]"
    and "sourceOps pm = [(0, 0), (0, 1), (1, 2)]"
proof -
  obtain sv pm where sv: "specifying sv demo_tables (init_query_manager buf) pm [2, 1, 0]"
      "pool pm [3 ..< P_MAX_OPS] [2, 1, 0]" "serves demo_tables pm [2, 1, 0] 1" "src_of pm 1 = (2, True)"
      "poutputs (ops pm 2) = []" "numExprs pm = 0" "numBExprs pm = 0" "queryOutOps pm = []"
      "sourceOps pm = [(0, 0), (0, 1), (1, 2)]" "svClass sv = 1"
    using demo_server [of undefined buf] by metis
  have K: "query_ok demo_tables demo_select" "qKind demo_select = SFW_QUERY \<longrightarrow> plan_fits demo_select"
      "phys_ok demo_tables (logical_kplan demo_tables demo_select)"
      "nodes (logical_kplan demo_tables demo_select) + 2 < length [3 ..< P_MAX_OPS]"
      "\<forall>u\<in>set (tables (logical_kplan demo_tables demo_select)). serves demo_tables pm [2, 1, 0] u"
  proof -
    show "query_ok demo_tables demo_select" "qKind demo_select = SFW_QUERY \<longrightarrow> plan_fits demo_select"
      using demo_select_ok by simp_all
    show "phys_ok demo_tables (logical_kplan demo_tables demo_select)" unfolding demo_select_logical by (rule demo_select_phys(1))
    show "nodes (logical_kplan demo_tables demo_select) + 2 < length [3 ..< P_MAX_OPS]"
      unfolding demo_select_logical demo_select_phys(2) length_upt by (simp add: P_MAX_OPS_def)
    show "\<forall>u\<in>set (tables (logical_kplan demo_tables demo_select)). serves demo_tables pm [2, 1, 0] u"
      unfolding demo_select_logical demo_select_phys(3) using sv(3) by simp
  qed
  have room: "query_room (src_of pm) demo_select_kplan None pm"
    unfolding query_room_def room_def demo_select_phys using sv(4-8)
    by (simp add: P_MAX_EXPRS_def MAX_OUT_BRANCHING_def MAX_QUERIES_def)
  have "\<exists>sv' pm' us'. specifying sv' demo_tables (init_query_manager buf) pm' us' \<and> query_planned demo_tables demo_select_kplan 0 None
      [3 ..< P_MAX_OPS] [2, 1, 0] (pm\<lparr>current_query_class := svClass sv\<rparr>) pm'"
  proof -
    have cls: "0 < svClass sv" using sv(10) by simp
    note q = query_stages [OF sv(1) cls K(1,2,3) sv(2) K(4,5), of 0 None, unfolded demo_select_logical]
    have "\<not> (qKind demo_select = SFW_QUERY \<and> MAX_ATTRS < join_width demo_tables demo_select \<or>
        \<not> query_room (src_of pm) demo_select_kplan None pm)" using room demo_select_ok(3) by simp
    then have "wp (bindM (onLog (genLogPlan demo_tables demo_select)) (\<lambda>logPlan.
      bindM (readM svClass) (\<lambda>c.
      seqM (onPlan (modM (\<lambda>p. p\<lparr>current_query_class := c\<rparr>)))
      (bindM (readM (\<lambda>s. opHeap (svLog s))) (\<lambda>h.
       seqM (onPlan (addLogicalQueryPlan 0 h logPlan None)) (retM (0 :: nat)))))))
      (\<lambda>r sv'. \<exists>pm' us'. specifying sv' demo_tables (init_query_manager buf) pm' us' \<and>
        query_planned demo_tables demo_select_kplan 0 None [3 ..< P_MAX_OPS] [2, 1, 0] (pm\<lparr>current_query_class := svClass sv\<rparr>) pm')
      (\<lambda>_ _. False) sv" by (intro wp_mono [OF q]) blast+
    from wp_success [OF this] show ?thesis by blast
  qed
  then obtain sv' pm' us' where s: "specifying sv' demo_tables (init_query_manager buf) pm' us'"
      and q: "query_planned demo_tables demo_select_kplan 0 None [3 ..< P_MAX_OPS] [2, 1, 0] (pm\<lparr>current_query_class := svClass sv\<rparr>) pm'"
    by blast
  from q obtain p t where p: "reader PO_QUERY_SOURCE U_NONE t (ops pm' p)"
      "erase t = phy_of demo_tables (src_of (pm\<lparr>current_query_class := svClass sv\<rparr>)) demo_select_kplan"
      "queryOutOps pm' = [(0, p)]" "sourceOps pm' = sourceOps pm"
    using sv(8) by (auto simp: query_planned_def)
  have "node_of (ops pm' p) = \<lparr>nkind = PO_QUERY_SOURCE, nunion = U_NONE, ncols = [(T_FLOAT, Some 4)], nstream = pstream (erase t)\<rparr>"
    using p(1,2) by (simp add: reader_def p_unary_def FLOAT_SIZE_def)
  then have "pkind (ops pm' p) = PO_QUERY_SOURCE" "pschema (ops pm' p) = [(T_FLOAT, Some 4)]"
    by (metis node_of_sel pnode.select_convs)+
  moreover have "query_op 0 pm' = Some p" using p(3) by (simp add: query_op_def)
  ultimately show thesis using that s p(4) sv(9) by simp
qed

text \<open>C27: A view is a table whose tuples are the answers of a query: if it is registered, its name is
  known, its columns are those of the query in types and lengths, and a query that reads the table
  is connected to the query source operator of the query; no operator is made and no other table
  changes its operator.\<close>
theorem registerView_serves:
  assumes "specifying sv tm qm pm us" and "tableList tm \<noteq> []" and "declares derive str (svParser sv) st n as"
    and "query_op q pm = Some p" and "pkind (ops pm p) = PO_QUERY_SOURCE" and "\<forall>c\<in>set (pschema (ops pm p)). snd c \<noteq> None"
  shows "wp (registerView derive q (Some str))
    (\<lambda>_ sv'. pschema (ops pm p) = columns_of as \<and> (\<exists>tm' pm'. specifying sv' tm' qm pm' us \<and> ops pm' = ops pm \<and>
       getTableId tm' n = Some (length (tableList tm)) \<and> serves tm' pm' us (length (tableList tm)) \<and>
       fst (src_of pm' (length (tableList tm))) = p \<and>
       (\<forall>u<length (tableList tm). serves tm pm us u \<longrightarrow> u \<in> fst ` set (sourceOps pm) \<longrightarrow>
          serves tm' pm' us u \<and> src_of pm' u = src_of pm u)))
    (\<lambda>rc sv'. server_ok sv' \<and>
       (\<not> table_fits tm n as \<or> length (sourceOps pm) = MAX_TABLES \<or> pschema (ops pm p) \<noteq> columns_of as)) sv"
proof (rule wp_mono [OF registerView_wp [OF assms(1,3)]])
  show "\<forall>c\<in>set (pschema (ops pm p')). snd c \<noteq> None" if "query_op q pm = Some p'" for p'
    using that assms(4,6) by simp
next
  fix x sv'
  let ?t = "length (tableList tm)"
  assume "\<exists>tm' p'. declared st n as tm tm' \<and> query_op q pm = Some p' \<and> pschema (ops pm p') = columns_of as \<and>
       specifying sv' tm' qm (pm\<lparr>sourceOps := sourceOps pm @ [(?t, p')]\<rparr>) us"
  then obtain tm' where d: "declared st n as tm tm'" and cols: "pschema (ops pm p) = columns_of as"
      and sv': "specifying sv' tm' qm (pm\<lparr>sourceOps := sourceOps pm @ [(?t, p)]\<rparr>) us" (is "specifying _ _ _ ?pm _")
    using assms(4) by auto
  have new: "?t \<notin> fst ` set (sourceOps pm)" by (rule new_table_unknown [OF assms(1,2)])
  have "p \<in> set us" using sv' by (simp add: specifying_def plan_inv_def)
  moreover have "table_cols tm' ?t = columns_of as" using d by (simp add: declared_def table_cols_def)
  ultimately have "serves tm' ?pm us ?t" "src_of ?pm ?t = (p, pbStream (ops pm p))"
    using view_served [OF assms(4) _ _ _ new, of us tm'] assms(5) cols by simp_all
  moreover have "serves tm' ?pm us u \<and> src_of ?pm u = src_of pm u"
    if "u < ?t" "serves tm pm us u" "u \<in> fst ` set (sourceOps pm)" for u
  proof -
    have "serves tm ?pm us u \<and> src_of ?pm u = src_of pm u"
      by (rule serves_same [OF that(2)]) (use that(3) in \<open>simp_all add: find_source_append\<close>)
    then show ?thesis using served_declared [OF d that(1)] by simp
  qed
  moreover have "ops ?pm = ops pm" by simp
  ultimately show "pschema (ops pm p) = columns_of as \<and> (\<exists>tm' pm'. specifying sv' tm' qm pm' us \<and> ops pm' = ops pm \<and>
       getTableId tm' n = Some ?t \<and> serves tm' pm' us ?t \<and> fst (src_of pm' ?t) = p \<and>
       (\<forall>u<?t. serves tm pm us u \<longrightarrow> u \<in> fst ` set (sourceOps pm) \<longrightarrow> serves tm' pm' us u \<and> src_of pm' u = src_of pm u))"
    using cols sv' declared_id [OF d] by (intro conjI exI [of _ tm'] exI [of _ ?pm]) simp_all
next
  fix rc sv'
  assume "specifying sv' tm qm pm us \<and> \<not> table_fits tm n as \<or>
       rc = - 1 \<and> (\<exists>tm'. declared st n as tm tm' \<and> specifying sv' tm' qm pm us \<and>
         (query_op q pm = None \<or> length (sourceOps pm) = MAX_TABLES \<or>
          (\<exists>p. query_op q pm = Some p \<and> pschema (ops pm p) \<noteq> columns_of as)))"
  then show "server_ok sv' \<and> (\<not> table_fits tm n as \<or> length (sourceOps pm) = MAX_TABLES \<or> pschema (ops pm p) \<noteq> columns_of as)"
    using assms(4) specifyingD by auto
qed

theorem registerView_serves_witness:
  "\<exists>sv pm us p. specifying sv demo_tables (init_query_manager undefined) pm us \<and>
     wp (registerView demo_derive 0 (Some ''V''))
       (\<lambda>_ sv'. \<exists>tm' pm'. specifying sv' tm' (init_query_manager undefined) pm' us \<and> getTableId tm' ''V'' = Some 2 \<and>
          serves tm' pm' us 2 \<and> fst (src_of pm' 2) = p) (\<lambda>_ _. False) sv"
proof -
  obtain sv pm us p where sv: "specifying sv demo_tables (init_query_manager undefined) pm us" "query_op 0 pm = Some p"
      "pkind (ops pm p) = PO_QUERY_SOURCE" "pschema (ops pm p) = [(T_FLOAT, Some 4)]"
      "sourceOps pm = [(0, 0), (0, 1), (1, 2)]" using demo_answered by metis
  have t: "tableList demo_tables \<noteq> []" "length (tableList demo_tables) = 2" by (simp_all add: demo_tables_def)
  have lens: "\<forall>c\<in>set (pschema (ops pm p)). snd c \<noteq> None" using sv(4) by simp
  note w = registerView_serves [OF sv(1) t(1) demo_declares(3) sv(2,3) lens]
  have "wp (registerView demo_derive 0 (Some ''V''))
       (\<lambda>_ sv'. \<exists>tm' pm'. specifying sv' tm' (init_query_manager undefined) pm' us \<and> getTableId tm' ''V'' = Some 2 \<and>
          serves tm' pm' us 2 \<and> fst (src_of pm' 2) = p) (\<lambda>_ _. False) sv"
  proof (rule wp_mono [OF w [unfolded t(2)]], goal_cases)
    case (1 x sv')
    then show ?case by blast
  next
    case (2 rc sv')
    then show ?case using demo_fits sv(4,5) by (simp add: MAX_TABLES_def)
  qed
  then show ?thesis using sv(1) by blast
qed

text \<open>C28: A view whose declaration does not fit its query, or that names an unknown query, is refused
  with -1, but its table stays behind: the name is taken, and a query that reads the table is
  connected to operator 0, the generator of the system stream.\<close>
theorem refused_view_remains:
  assumes "specifying sv tm qm pm us" and "tableList tm \<noteq> []" and "declares derive str (svParser sv) st n as"
    and "table_fits tm n as" and "\<forall>p. query_op q pm = Some p \<longrightarrow> (\<forall>c\<in>set (pschema (ops pm p)). snd c \<noteq> None) \<and>
      pschema (ops pm p) \<noteq> columns_of as"
  shows "wp (registerView derive q (Some str)) (\<lambda>_ _. False)
    (\<lambda>rc sv'. rc = - 1 \<and> (\<exists>tm'. specifying sv' tm' qm pm us \<and> getTableId tm' n = Some (length (tableList tm)) \<and>
       phy_mk_stream_source (length (tableList tm)) pm = Done 0 pm)) sv"
proof (rule wp_mono [OF registerView_wp [OF assms(1,3)]])
  show "\<forall>c\<in>set (pschema (ops pm p')). snd c \<noteq> None" if "query_op q pm = Some p'" for p'
    using that assms(5) by blast
next
  fix rc sv'
  let ?t = "length (tableList tm)"
  assume "specifying sv' tm qm pm us \<and> \<not> table_fits tm n as \<or>
       rc = - 1 \<and> (\<exists>tm'. declared st n as tm tm' \<and> specifying sv' tm' qm pm us \<and>
         (query_op q pm = None \<or> length (sourceOps pm) = MAX_TABLES \<or>
          (\<exists>p. query_op q pm = Some p \<and> pschema (ops pm p) \<noteq> columns_of as)))"
  then obtain tm' where d: "rc = - 1" "declared st n as tm tm'" "specifying sv' tm' qm pm us" using assms(4) by blast
  have "?t \<notin> fst ` set (sourceOps pm)" by (rule new_table_unknown [OF assms(1,2)])
  then have "find_first (\<lambda>e. fst e = ?t) (sourceOps pm) = None" unfolding find_first_None by force
  then have "phy_mk_stream_source ?t pm = Done 0 pm"
    by (simp add: phy_mk_stream_source_def find_source_def readM_def)
  then show "rc = - 1 \<and> (\<exists>tm'. specifying sv' tm' qm pm us \<and> getTableId tm' n = Some ?t \<and> phy_mk_stream_source ?t pm = Done 0 pm)"
    using d declared_id by blast
qed (use assms(5) in blast)

theorem refused_view_remains_witness:
  "\<exists>sv pm. reaches demo_derive (newServer demo_parser demo_state empty_pool False) False sv \<and>
     wp (registerView demo_derive 7 (Some ''V'')) (\<lambda>_ _. False)
       (\<lambda>rc sv'. rc = - 1 \<and> (\<exists>tm'. specifying sv' tm' (init_query_manager undefined) pm [2, 1, 0] \<and>
          getTableId tm' ''V'' = Some 2 \<and> phy_mk_stream_source 2 pm = Done 0 pm)) sv"
proof -
  obtain sv pm where sv: "reaches demo_derive (newServer demo_parser demo_state empty_pool False) False sv"
      "specifying sv demo_tables (init_query_manager undefined) pm [2, 1, 0]" "queryOutOps pm = []"
    using demo_server [of demo_parser undefined] by metis
  have t: "tableList demo_tables \<noteq> []" "length (tableList demo_tables) = 2" by (simp_all add: demo_tables_def)
  have q: "\<forall>q. query_op 7 pm = Some q \<longrightarrow> (\<forall>c\<in>set (pschema (ops pm q)). snd c \<noteq> None) \<and>
      pschema (ops pm q) \<noteq> columns_of [\<lparr>attrName = ''c'', attrType = T_FLOAT, attrLen = 4\<rparr>]"
    using sv(3) by (simp add: query_op_def)
  note w = refused_view_remains [OF sv(2) t(1) demo_declares(3) demo_fits q]
  show ?thesis by (intro exI [of _ sv] exI [of _ pm] conjI sv(1) w [unfolded t(2)])
qed

section \<open>A query that is accepted\<close>

text \<open>The query \<open>SELECT a, MAX(c) FROM T [ROWS 3]\<close>, with \<open>T(a integer, c float)\<close>.\<close>

definition demo_ungrouped :: query where
  "demo_ungrouped = blank_query\<lparr>qKind := SFW_QUERY, refTables := [1], fromClauseTables := [0], winSpec := [Some (WS_ROW 3)],
     projExprs := [SE_ATTR T_INT \<lparr>sVarId = 0, sAttrId = 0\<rparr>, SE_AGGR T_FLOAT F_MAX \<lparr>sVarId = 0, sAttrId = 1\<rparr>]\<rparr>"

abbreviation demo_ungrouped_input :: kplan where
  "demo_ungrouped_input \<equiv> KP (LO_GROUP_AGGR [] [(A_NAMED 0 1 1, F_MAX)]) [KP (LO_ROW_WIN 3) [KP (LO_STREAM_SOURCE 0 1) []]]"

abbreviation demo_ungrouped_kplan :: kplan where
  "demo_ungrouped_kplan \<equiv> KP (LO_PROJECT [LE_ATTR T_INT (A_NAMED 0 1 0), LE_ATTR T_FLOAT (A_AGGR 0 1 1 F_MAX)]) [demo_ungrouped_input]"

lemma demo_ungrouped_plan: "naive_kplan demo_tables demo_ungrouped = demo_ungrouped_kplan"
  by (simp add: naive_kplan_def kp_r2s_def kp_sfw_def kp_distinct_def kp_aggr_def kp_selects_def kp_join_def
      kp_table_def kp_source_def demo_ungrouped_def demo_tables_def blank_query_def np_aggrs_def nattr_def Let_def)

lemma demo_ungrouped_logical: "logical_kplan demo_tables demo_ungrouped = demo_ungrouped_kplan"
  unfolding logical_kplan_def demo_ungrouped_plan
  by (simp add: kp_rstreamNow_def below_def is_now_def pass_now_def kp_streamCross_def is_cross_def pass_scross_def
      now_index_def to_scross_def kp_removeProject_def pass_project_def drop_useless_def is_xstream_def
      kp_crossBinary_def above_cross_def kp_streamCrossBinary_def is_scross_def kp_pushSelect_def pass_push_def
      brefs_in_def source_attrs_def demo_tables_def upt_conv_Cons)

lemma demo_ungrouped_ok: "query_ok demo_tables demo_ungrouped" "plan_fits demo_ungrouped" "join_width demo_tables demo_ungrouped \<le> MAX_ATTRS"
  by (simp_all add: query_ok_def demo_ungrouped_def blank_query_def refs_ok_def from_ok_def sattr_ok_def sattr_type_def attr_valid_def
      query_size_def demo_tables_def MAX_PRED_def MAX_GROUP_ATTRS_def MAX_PROJ_def MAXNODE_def MAX_ATTRS_def getOutputType_def
      plan_fits_def np_aggrs_def nattr_def join_width_def table_width_def)

lemma demo_ungrouped_phys: "phys_ok demo_tables demo_ungrouped_input" "nodes demo_ungrouped_input = 2" "tables demo_ungrouped_input = [1]"
    "exprs demo_ungrouped_input = 0" "bexprs demo_ungrouped_input = 0" "pend src demo_ungrouped_input = [fst (src 1)]"
    "\<not> list_ex (attr_eq (A_NAMED 0 1 0)) (kattrs demo_tables demo_ungrouped_input)"
  by (simp_all add: char_ok_def source_attrs_def demo_tables_def LOP_GROUP_ATTRS_def MAX_AGGR_ATTRS_def pend_def leaves_def attr_in_def)

lemma demo_ungrouped_parsed: "parseCommand (GC_QUERY (GQ_SFW None \<lparr>gDistinct = False,
       gProj = [GP_EXPR (GE_ATTR (GAttr None ''a'')), GP_AGGR F_MAX (GAttr None ''c'')],
       gRels = [GRelVar ''T'' (Some (GW_ROWS 3)) None], gConds = [], gGroups = []\<rparr>)) p =
   Done (N_CONT_QUERY (Some (N_SFW_BLOCK (N_SELECT_CLAUSE False (Some (N_LIST (N_ATTR_REF None ''a'')
     (Some (N_LIST (N_AGGR_EXPR F_MAX (Some (N_ATTR_REF None ''c''))) None)))))
     (N_LIST (N_REL_VAR ''T'' None (Some (N_WINDOW_SPEC W_ROW 3 None None))) None) None None)) None None)
     (p\<lparr>nodeptr := 11, charptr := 0\<rparr>)"
proof (cases p)
  case (fields m k)
  show ?thesis unfolding fields by code_simp
qed

lemma demo_ungrouped_interpreted: "interpretQuery demo_tables
   (N_CONT_QUERY (Some (N_SFW_BLOCK (N_SELECT_CLAUSE False (Some (N_LIST (N_ATTR_REF None ''a'')
     (Some (N_LIST (N_AGGR_EXPR F_MAX (Some (N_ATTR_REF None ''c''))) None)))))
     (N_LIST (N_REL_VAR ''T'' None (Some (N_WINDOW_SPEC W_ROW 3 None None))) None) None None)) None None) demo_state =
   Done () \<lparr>symbolTable = [(''T'', 1)], semNumExprs = 2, qry = demo_ungrouped\<rparr>"
  by code_simp

text \<open>C24: A query that is accepted and cannot be translated.  For \<open>SELECT a, MAX(c) FROM T [ROWS 3]\<close>, where
  \<open>a\<close> is not a group attribute, the parser builds a tree, the interpreter accepts it and returns a well-formed
  query, and the logical plan projects \<open>a\<close> from an aggregation that delivers only the maximum.  When
  the query is registered at a server that has the table and room for the plan, \<open>transformAttr\<close> finds no position for \<open>a\<close> and
  returns a structure that it has not initialised: the server has undefined behaviour.\<close>
theorem ungrouped_undefined:
  "\<exists>sv g t p se. reaches demo_derive (newServer demo_parser demo_state empty_pool False) False sv \<and>
     tableMgr sv = Some demo_tables \<and> demo_derive ''U'' = Some (GC_QUERY g) \<and> g_query_ok g \<and>
     parseCommand (GC_QUERY g) (svParser sv) = Done t p \<and> interpretQuery demo_tables t (svSem sv) = Done () se \<and>
     query_ok demo_tables (qry se) \<and> logical_kplan demo_tables (qry se) = demo_ungrouped_kplan \<and>
     (\<forall>out. registerQuery demo_derive ''U'' out sv = Undef)"
proof -
  obtain sv pm where sv: "reaches demo_derive (newServer demo_parser demo_state empty_pool False) False sv"
      "specifying sv demo_tables (init_query_manager undefined) pm [2, 1, 0]" "pool pm [3 ..< P_MAX_OPS] [2, 1, 0]"
      "serves demo_tables pm [2, 1, 0] 1" "src_of pm 1 = (2, True)" "poutputs (ops pm 2) = []"
      "numExprs pm = 0" "numBExprs pm = 0" "svSem sv = demo_state" "svClass sv = 1"
    using demo_server [of demo_parser undefined] by metis
  let ?g = "GQ_SFW None \<lparr>gDistinct = False, gProj = [GP_EXPR (GE_ATTR (GAttr None ''a'')), GP_AGGR F_MAX (GAttr None ''c'')],
       gRels = [GRelVar ''T'' (Some (GW_ROWS 3)) None], gConds = [], gGroups = []\<rparr>"
  let ?se = "\<lparr>symbolTable = [(''T'', 1)], semNumExprs = 2, qry = demo_ungrouped\<rparr>"
  have d: "demo_derive ''U'' = Some (GC_QUERY ?g)" "g_query_ok ?g" by (simp_all add: demo_derive_def g_sfw_ok_def)
  note t = demo_ungrouped_parsed [of "svParser sv"] and i = demo_ungrouped_interpreted [folded sv(9)]
  have st: "svState sv = S_APP_SPEC" "tableMgr sv = Some demo_tables" "qryMgr sv = Some (init_query_manager undefined)"
      "planMgr sv = Some pm" using sv(2) by (simp_all add: specifying_def)
  obtain qid qm where q: "registerQueryStr ''U'' (Suc 0) (init_query_manager undefined) = Done qid qm"
    by (simp add: registerQueryStr_def init_query_manager_def QRY_BUF_LEN_def MAX_QUERIES_def comp_defs)
  have "wp (genLogPlan demo_tables demo_ungrouped) (\<lambda>p s'. kplan_at demo_tables s' p demo_ungrouped_kplan \<and> operator_ptr s' \<le> 68)
      (\<lambda>_ _. False) (svLog sv)"
    by (rule wp_mono [OF genLogPlan_wp [OF demo_ok(1,3) demo_ungrouped_ok(1)]])
      (use demo_ungrouped_ok demo_ungrouped_logical in auto)
  then obtain l ls where l: "genLogPlan demo_tables demo_ungrouped (svLog sv) = Done l ls" "kplan_at demo_tables ls l demo_ungrouped_kplan"
      "operator_ptr ls \<le> MAXOPERATOR" by (auto dest!: wp_success simp: MAXOPERATOR_def)
  let ?pm = "pm\<lparr>current_query_class := 1\<rparr>"
  have "genPhysicalPlan (opHeap ls) l ?pm = Undef"
  proof (rule project_undefined [OF l(2) _ demo_ungrouped_phys(1) l(3)])
    show "kplan_ok demo_tables demo_ungrouped_input"
      using naive_kplan_ok [OF demo_ok(1,3) demo_ungrouped_ok(1)] demo_ungrouped_ok(2,3) unfolding demo_ungrouped_plan by simp
    show "pool ?pm [3 ..< P_MAX_OPS] [2, 1, 0]" using sv(3) pool_update [of ?pm pm] by simp
    show "nodes demo_ungrouped_input + 1 < length [3 ..< P_MAX_OPS]"
      unfolding demo_ungrouped_phys length_upt by (simp add: P_MAX_OPS_def)
    show "\<forall>t\<in>set (tables demo_ungrouped_input). serves demo_tables ?pm [2, 1, 0] t"
      unfolding demo_ungrouped_phys using sv(4) by (simp add: served_def)
    have "src_of ?pm = src_of pm" by (simp add: src_of_def fun_eq_iff)
    then show "room (exprs demo_ungrouped_input + 1) (bexprs demo_ungrouped_input) (pend (src_of ?pm) demo_ungrouped_input) ?pm"
      unfolding demo_ungrouped_phys room_def using sv(5-8) by (simp add: P_MAX_EXPRS_def MAX_OUT_BRANCHING_def)
  qed (rule demo_ungrouped_phys(7))
  then have "registerQuery demo_derive ''U'' out sv = Undef" for out
    using st sv(10) t i q l(1)
    by (simp add: registerQuery_def parseText_def d(1) theTables_def on_defs zoomM_def addLogicalQueryPlan_def comp_defs)
  then show ?thesis
    using sv(1) st(2) d t i demo_ungrouped_ok(1) demo_ungrouped_logical by fastforce
qed

end
