(* ===== verification/Phy_Types.thy ===== *)
theory Phy_Types
  imports Phy_Spec Plan_Query
begin

text \<open>
  The types of physical plans: every expression of an operator reads columns that its inputs have,
  with the types it was compiled for.
\<close>

section \<open>Well-typed physical plans\<close>

definition pattr_in :: "pcolumn list list \<Rightarrow> pattr \<Rightarrow> bool" where
  "pattr_in css a \<longleftrightarrow> attrInput a < length css \<and> attrPos a < length (css ! attrInput a)"

definition pattr_type :: "pcolumn list list \<Rightarrow> pattr \<Rightarrow> ctype" where
  "pattr_type css a = fst (css ! attrInput a ! attrPos a)"

fun pexpr_typed :: "pcolumn list list \<Rightarrow> pexpr \<Rightarrow> bool" where
  "pexpr_typed css (PE_CONST c) \<longleftrightarrow> True"
| "pexpr_typed css (PE_ATTR t a) \<longleftrightarrow> pattr_in css a \<and> pattr_type css a = t"
| "pexpr_typed css (PE_COMP t op l r) \<longleftrightarrow>
     pexpr_typed css l \<and> pexpr_typed css r \<and> pexpr_type l = t \<and> pexpr_type r = t"

definition pbexpr_typed :: "pcolumn list list \<Rightarrow> pbexpr \<Rightarrow> bool" where
  "pbexpr_typed css b \<longleftrightarrow> pexpr_typed css (pbLeft b) \<and> pexpr_typed css (pbRight b) \<and>
     pexpr_type (pbLeft b) = pexpr_type (pbRight b)"

definition op_typed :: "pnode \<Rightarrow> pcolumn list list \<Rightarrow> bool" where
  "op_typed i css \<longleftrightarrow> (case nunion i of
      U_SELECT bs \<Rightarrow> css = [ncols i] \<and> (\<forall>b\<in>set bs. pbexpr_typed css b)
    | U_PROJECT es \<Rightarrow> (\<forall>e\<in>set es. pexpr_typed css e) \<and> map fst (ncols i) = map pexpr_type es
    | U_GROUP_AGGR gs as \<Rightarrow> (\<forall>g\<in>set gs. pattr_in css g) \<and> (\<forall>a\<in>set as. pattr_in css (fst a)) \<and>
        map fst (ncols i) = map (pattr_type css) gs @ map (\<lambda>a. getOutputType (snd a) (pattr_type css (fst a))) as
    | U_PARTN_WIN as n \<Rightarrow> css = [ncols i] \<and> (\<forall>a\<in>set as. pattr_in css a)
    | U_JOIN m n bs \<Rightarrow> ncols i = concat css \<and> map length css = [m, n]
    | U_STR_JOIN m n bs \<Rightarrow> ncols i = concat css \<and> map length css = [m, n]
    | _ \<Rightarrow> True)"

fun pplan_typed :: "pplan \<Rightarrow> bool" where
  "pplan_typed (PSrc a cs b) \<longleftrightarrow> True"
| "pplan_typed (POp i ps) \<longleftrightarrow> op_typed i (map pcols ps) \<and> (\<forall>p\<in>set ps. pplan_typed p)"

section \<open>Well-typed logical operators\<close>

fun lexpr_typed :: "table_manager \<Rightarrow> lexpr \<Rightarrow> bool" where
  "lexpr_typed tm (LE_CONST c) \<longleftrightarrow> True"
| "lexpr_typed tm (LE_ATTR t a) \<longleftrightarrow> attr_type tm a = t"
| "lexpr_typed tm (LE_COMP t op l r) \<longleftrightarrow>
     lexpr_typed tm l \<and> lexpr_typed tm r \<and> lexpr_type l = t \<and> lexpr_type r = t"

text \<open>An aggregation is typed if it aggregates attributes of tables, and counts nothing.\<close>

fun kind_typed :: "table_manager \<Rightarrow> lkind \<Rightarrow> bool" where
  "kind_typed tm (LO_SELECT b) \<longleftrightarrow> (\<exists>l r. lbLeft b = Some l \<and> lbRight b = Some r \<and>
     lexpr_typed tm l \<and> lexpr_typed tm r \<and> lexpr_type l = lexpr_type r)"
| "kind_typed tm (LO_PROJECT es) \<longleftrightarrow> (\<forall>e\<in>set es. lexpr_typed tm e)"
| "kind_typed tm (LO_GROUP_AGGR gs as) \<longleftrightarrow> (\<forall>a\<in>set as. snd a \<noteq> F_COUNT \<and> (\<exists>v t c. fst a = A_NAMED v t c))"
| "kind_typed tm k \<longleftrightarrow> True"

fun ktyped :: "table_manager \<Rightarrow> kplan \<Rightarrow> bool" where
  "ktyped tm (KP k ts) \<longleftrightarrow> kind_typed tm k \<and> (\<forall>t\<in>set ts. ktyped tm t)"

section \<open>From logical to physical plans\<close>

text \<open>The columns of an operator have the types of its attributes.\<close>

abbreviation col_types :: "table_manager \<Rightarrow> lattr list \<Rightarrow> pcolumn list \<Rightarrow> bool" where
  "col_types tm as cs \<equiv> map fst cs = map (attr_type tm) as"

lemma pos_typed:
  assumes "list_all2 (col_types tm) ass css" and "list_ex (attr_eq a) (concat ass)"
  shows "pattr_in css (pos ass a) \<and> pattr_type css (pos ass a) = attr_type tm a"
proof -
  obtain n where n: "n < length ass" "attrInput (pos ass a) = n" "attrPos (pos ass a) < length (ass ! n)"
      "attr_eq a (ass ! n ! attrPos (pos ass a))"
    using find_attr_Some [OF find_attr_pos [OF assms(2)]] by auto
  have c: "map fst (css ! n) = map (attr_type tm) (ass ! n)" and len: "length css = length ass"
    using assms(1) n(1) by (auto simp: list_all2_conv_all_nth)
  have l: "length (css ! n) = length (ass ! n)" using c by (metis length_map)
  have "map fst (css ! n) ! attrPos (pos ass a) = map (attr_type tm) (ass ! n) ! attrPos (pos ass a)" using c by simp
  then show ?thesis using n l len attr_eq_eq [OF n(4)] by (simp add: pattr_in_def pattr_type_def)
qed

lemma pe_typed:
  assumes "list_all2 (col_types tm) ass css"
  shows "lexpr_typed tm e \<Longrightarrow> refs_in (concat ass) e \<Longrightarrow> pexpr_typed css (pe ass e)"
  by (induction e) (use pos_typed [OF assms] in auto)

lemma pb_typed:
  assumes "list_all2 (col_types tm) ass css" and "kind_typed tm (LO_SELECT b)" and "bexpr_ok ass b"
  shows "pbexpr_typed css (pb ass b)"
  using assms pe_typed [OF assms(1)] by (auto simp: pbexpr_typed_def pb_def bexpr_ok_def)

lemma p_select_typed:
  assumes "pplan_typed p" and "pbexpr_typed [pcols p] b"
    and "\<And>i ps. p = POp i ps \<Longrightarrow> nkind i = PO_SELECT \<Longrightarrow> \<exists>bs. nunion i = U_SELECT bs"
  shows "pplan_typed (p_select b p)"
proof (cases p)
  case (POp i ps)
  then show ?thesis using assms by (auto simp: p_unary_def op_typed_def)
qed (use assms in \<open>auto simp: p_unary_def op_typed_def\<close>)

lemma phy_typed:
  assumes "kplan_ok tm K" and "phys_ok tm K" and "ktyped tm K"
  shows "pplan_typed (phy_of tm src K) \<and> col_types tm (kattrs tm K) (pcols (phy_of tm src K))"
  using assms
proof (induction K)
  case (KP k ts)
  have IH: "pplan_typed (phy_of tm src t)" "col_types tm (kattrs tm t) (pcols (phy_of tm src t))" if "t \<in> set ts" for t
    using KP that by auto
  have kt: "kind_typed tm k" using KP.prems by simp
  show ?case
  proof (cases "is_source k")
    case True
    then show ?thesis by (cases k) (auto simp: table_cols_def source_attrs_def comp_def map_nth intro: nth_equalityI)
  next
    case no_src: False
    show ?thesis
    proof (cases "length ts = 1")
      case True
      then obtain t where t: "ts = [t]" by (cases ts) auto
      let ?p = "phy_of tm src t" and ?ass = "[kattrs tm t]"
      have p: "pplan_typed ?p" "col_types tm (kattrs tm t) (pcols ?p)" using IH t by simp_all
      then have css: "list_all2 (col_types tm) ?ass [pcols ?p]" by simp
      have one: "out_attrs tm k ?ass = kattrs tm t \<Longrightarrow> pcols (phy_node k ?ass [?p]) = pcols ?p \<Longrightarrow>
          col_types tm (out_attrs tm k ?ass) (pcols (phy_node k ?ass [?p]))" using p by simp
      show ?thesis
      proof (cases k)
        case (LO_SELECT b)
        have "pplan_typed (p_select (pb ?ass b) ?p)"
        proof (rule p_select_typed [OF p(1)])
          show "pbexpr_typed [pcols ?p] (pb ?ass b)"
            by (rule pb_typed [OF css]) (use kt KP.prems LO_SELECT t in auto)
          show "\<exists>bs. nunion i = U_SELECT bs" if "?p = POp i ps" "nkind i = PO_SELECT" for i ps
            using phy_of_op [of t tm src] that by (cases t) (auto split: if_splits)
        qed
        then show ?thesis using LO_SELECT t p by simp
      next
        case (LO_PROJECT es)
        have e: "pexpr_typed [pcols ?p] (pe ?ass e)" if "e \<in> set es" for e
          by (rule pe_typed [OF css]) (use kt KP.prems LO_PROJECT t that in auto)
        have c: "fst (proj_col (pcols ?p) (pe ?ass e)) = lexpr_type e" for e by (cases e) simp_all
        have a: "attr_type tm (project_attr e) = lexpr_type e" if "e \<in> set es" for e
          using kt LO_PROJECT that by (cases e) auto
        show ?thesis using LO_PROJECT t p e c a by (auto simp: op_typed_def comp_def)
      next
        case (LO_GROUP_AGGR gs as)
        have g: "pattr_in [pcols ?p] (pos ?ass g) \<and> pattr_type [pcols ?p] (pos ?ass g) = attr_type tm g"
            "attrInput (pos ?ass g) = 0" if "g \<in> set gs" for g
          using pos_typed [OF css] pos_single KP.prems LO_GROUP_AGGR t that by (auto simp: attr_in_def)
        have a: "aggr_pos ?ass x = (pos ?ass (fst x), snd x)" "pattr_in [pcols ?p] (pos ?ass (fst x))"
            "pattr_type [pcols ?p] (pos ?ass (fst x)) = attr_type tm (fst x)" "attrInput (pos ?ass (fst x)) = 0"
            "attr_type tm (case x of (a, fn) \<Rightarrow> aggr_attr fn a) = getOutputType (snd x) (attr_type tm (fst x))" if "x \<in> set as" for x
        proof -
          have x: "snd x \<noteq> F_COUNT" "\<exists>v t c. fst x = A_NAMED v t c" "attr_in ?ass (fst x)"
            using kt KP.prems LO_GROUP_AGGR t that by auto
          then show "aggr_pos ?ass x = (pos ?ass (fst x), snd x)" by (simp add: aggr_pos_def)
          show "pattr_in [pcols ?p] (pos ?ass (fst x))" "pattr_type [pcols ?p] (pos ?ass (fst x)) = attr_type tm (fst x)"
              "attrInput (pos ?ass (fst x)) = 0"
            using pos_typed [OF css] pos_single x(3) by (auto simp: attr_in_def)
          show "attr_type tm (case x of (a, fn) \<Rightarrow> aggr_attr fn a) = getOutputType (snd x) (attr_type tm (fst x))"
            using x(2) by (cases x) auto
        qed
        show ?thesis using LO_GROUP_AGGR t p g a
          by (auto simp: op_typed_def comp_def aggr_col_def pattr_type_def Let_def)
      next
        case (LO_PARTN_WIN as n)
        have "pattr_in [pcols ?p] (pos ?ass a)" if "a \<in> set as" for a
          using pos_typed [OF css] KP.prems LO_PARTN_WIN t that by (auto simp: attr_in_def)
        then show ?thesis using LO_PARTN_WIN t p by (auto simp: p_unary_def op_typed_def)
      qed (use t p no_src KP.prems in \<open>auto simp: p_unary_def op_typed_def\<close>)
    next
      case n1: False
      then have "length ts = 2" and k: "k = LO_CROSS \<or> k = LO_STREAM_CROSS \<or> k = LO_UNION \<or> k = LO_EXCEPT"
        using KP.prems no_src by (cases k; auto)+
      then obtain t u where tu: "ts = [t, u]" by (auto simp: length_Suc_conv numeral_2_eq_2)
      have len: "length (pcols (phy_of tm src t)) = length (kattrs tm t)" "length (pcols (phy_of tm src u)) = length (kattrs tm u)"
        using phy_width KP.prems tu by auto
      have b: "map fst (binary_cols cs ds) = map fst cs" if "length cs = length ds" for cs ds
        using that by (induction rule: list_induct2) (auto simp: binary_cols_def)
      show ?thesis using k tu IH KP.prems len b
        by (elim disjE) (simp_all add: p_join_def p_binary_def op_typed_def)
    qed
  qed
qed

section \<open>The passes keep the types\<close>

text \<open>A well-formed and well-typed plan.\<close>

definition kwell :: "table_manager \<Rightarrow> kplan \<Rightarrow> bool" where
  "kwell tm t \<longleftrightarrow> kplan_ok tm t \<and> ktyped tm t"

lemma ktyped_at:
  assumes "\<And>t. kwell tm t \<Longrightarrow> tg (kroot t) \<Longrightarrow> ktyped tm (f t)" and "kwell tm t"
  shows "ktyped tm (kp_at tg ps f t)"
  using assms(2)
proof (induction t)
  case (KP k ts)
  then show ?case using assms(1) [of "KP k ts"] by (cases ts) (auto simp: kwell_def)
qed

lemma ktyped_subs: "ktyped tm t \<Longrightarrow> u \<in> set (ksubs t) \<Longrightarrow> ktyped tm u"
  by (cases t) auto

lemma ktyped_below: "ktyped tm t \<Longrightarrow> ksubs t \<noteq> [] \<Longrightarrow> ktyped tm (below t)"
  by (simp add: below_def ktyped_subs)

lemma ktyped_nest: "ktyped tm t \<Longrightarrow> ktyped tm (nest t)"
proof (induction t rule: nest.induct)
  case (1 k t u us)
  have "ktyped tm (foldl (\<lambda>acc x. KP k [acc, x]) a us)" if "ktyped tm a" "\<forall>x\<in>set us. ktyped tm x" for a
    using that 1 by (induction us arbitrary: a) auto
  then show ?case using 1 by simp
qed simp_all

lemma ktyped_push:
  assumes "kind_typed tm (LO_SELECT b)"
  shows "ktyped tm t \<Longrightarrow> ktyped tm (kp_push tm b t)"
    and "\<forall>t\<in>set ts. ktyped tm t \<Longrightarrow> \<forall>t\<in>set (kp_push_at tm b ts). ktyped tm t"
  using assms
proof (induction tm b t and tm b ts rule: kp_push_kp_push_at.induct)
  case (1 tm b k ts)
  have top: "ktyped tm (KP (LO_SELECT b) [KP k ts])" using "1.prems" by simp
  show ?case
  proof (cases "is_select k")
    case True
    show ?thesis
    proof (cases ts)
      case (Cons t us)
      then have "ktyped tm (kp_push tm b t)" using "1.IH"(1) [OF True Cons] "1.prems" by simp
      then show ?thesis using True Cons "1.prems"(1) by simp
    qed (use True top in simp)
  next
    case False
    show ?thesis
    proof (cases "(k = LO_CROSS \<or> k = LO_STREAM_CROSS) \<and> (\<exists>t\<in>set ts. brefs_in (kattrs tm t) b)")
      case True
      then have "\<forall>t\<in>set (kp_push_at tm b ts). ktyped tm t" using "1.IH"(2) [OF False True] "1.prems" by simp
      moreover have "kp_push tm b (KP k ts) = KP k (kp_push_at tm b ts)"
        unfolding kp_push.simps using True False by simp
      ultimately show ?thesis using "1.prems"(1) by simp
    next
      case other: False
      have "kp_push tm b (KP k ts) = KP (LO_SELECT b) [KP k ts]"
        unfolding kp_push.simps using False other by auto
      then show ?thesis using top by simp
    qed
  qed
qed simp_all

lemma ktyped_pushAll: "ktyped tm t \<Longrightarrow> ktyped tm (kp_pushAll tm t)"
proof (induction tm t rule: kp_pushAll.induct)
  case (1 tm k ts)
  show ?case
  proof (cases "is_select k \<and> ts \<noteq> []")
    case True
    then obtain b t us where k: "k = LO_SELECT b" "ts = t # us" by (cases k; cases ts) auto
    have step: "kp_pushAll tm (KP k ts) = (if passes_cross tm b t then kp_pushAll tm (kp_push tm b t) else KP k (kp_pushAll tm t # us))"
      unfolding kp_pushAll.simps [of tm k ts] using k by simp
    have typed: "ktyped tm t" "kind_typed tm k" "\<forall>u\<in>set us. ktyped tm u" using "1.prems" k by simp_all
    show ?thesis
    proof (cases "passes_cross tm b t")
      case True
      have "ktyped tm (kp_push tm b t)" using ktyped_push(1) typed k by simp
      then have "ktyped tm (kp_pushAll tm (kp_push tm b t))" using "1.IH"(1) [OF _ k(2)] k True by simp
      then show ?thesis using step True by simp
    next
      case False
      have "ktyped tm (kp_pushAll tm t)" using "1.IH"(2) [OF _ k(2)] k False typed(1) by simp
      then show ?thesis using step False typed by simp
    qed
  next
    case False
    then have "kp_pushAll tm (KP k ts) = KP k ts"
      unfolding kp_pushAll.simps [of tm k ts] by (cases ts) auto
    then show ?thesis using "1.prems" by simp
  qed
qed

lemma kwell_below:
  assumes "kwell tm t" and "arity_ok (kroot t) 1"
  shows "ktyped tm (below t)"
  using assms by (cases t; cases "ksubs t"; cases "kroot t") (auto simp: kwell_def below_def)

lemma ktyped_rstreamNow:
  assumes "kwell tm K"
  shows "ktyped tm (kp_rstreamNow K)"
proof (cases "kroot K = LO_RSTREAM")
  case True
  then have b: "ktyped tm (below K)" using kwell_below [OF assms] by simp
  have "kplan_ok tm (below K)"
    using assms True by (cases K; cases "ksubs K") (auto simp: kwell_def below_def)
  then have "ktyped tm (kp_at is_now pass_now below (below K))"
    by (intro ktyped_at) (use b kwell_below in \<open>auto simp: kwell_def is_now_def\<close>)
  then show ?thesis using assms by (simp add: kp_rstreamNow_def kwell_def)
qed (use assms in \<open>simp add: kp_rstreamNow_def kwell_def\<close>)

lemma ktyped_removeProject: "kwell tm K \<Longrightarrow> ktyped tm (kp_removeProject tm K)"
  unfolding kp_removeProject_def
  by (rule ktyped_at) (use kwell_below in \<open>auto simp: drop_useless_def kwell_def is_kind_cases\<close>)

lemma ktyped_binary: "kwell tm K \<Longrightarrow> ktyped tm (kp_crossBinary K)" "kwell tm K \<Longrightarrow> ktyped tm (kp_streamCrossBinary K)"
  unfolding kp_crossBinary_def kp_streamCrossBinary_def by (auto intro!: ktyped_at ktyped_nest simp: kwell_def)

lemma ktyped_to_scross:
  assumes "kwell tm t"
  shows "ktyped tm (to_scross t)"
proof (cases "now_index t")
  case (Some n)
  then have n: "n < length (ksubs t)" "kroot (ksubs t ! n) = LO_NOW_WIN"
    using find_first_bound find_first_sat unfolding now_index_def by fastforce+
  have sub: "kwell tm u" if "u \<in> set (ksubs t)" for u
    using assms that by (cases t) (auto simp: kwell_def)
  have "ktyped tm (below (ksubs t ! n))" using kwell_below [OF sub] n by simp
  moreover have "ktyped tm u" if "u \<in> set (take n (ksubs t) @ drop (Suc n) (ksubs t))" for u
    using sub [of u] that by (auto simp: kwell_def dest: in_set_takeD in_set_dropD)
  ultimately show ?thesis using Some by (auto simp: to_scross_def)
qed (use assms in \<open>simp add: to_scross_def kwell_def\<close>)

lemma ktyped_streamCross:
  assumes "kwell tm K"
  shows "ktyped tm (kp_streamCross K)"
proof (cases "kroot K = LO_RSTREAM")
  case True
  then have b: "ktyped tm (below K)" using kwell_below [OF assms] by simp
  have "kplan_ok tm (below K)"
    using assms True by (cases K; cases "ksubs K") (auto simp: kwell_def below_def)
  then have "ktyped tm (kp_at is_cross pass_scross to_scross (below K))"
    by (intro ktyped_at ktyped_to_scross) (use b in \<open>auto simp: kwell_def\<close>)
  then show ?thesis using assms by (simp add: kp_streamCross_def kwell_def)
qed (use assms in \<open>simp add: kp_streamCross_def kwell_def\<close>)

lemma ktyped_logical:
  assumes "kplan_ok tm (naive_kplan tm q)" and "ktyped tm (naive_kplan tm q)"
  shows "ktyped tm (logical_kplan tm q)"
proof -
  have "kwell tm (naive_kplan tm q)" using assms by (simp add: kwell_def)
  from this have 1: "kwell tm (kp_rstreamNow (naive_kplan tm q))" (is "kwell tm ?K1")
    using ktyped_rstreamNow rstreamNow.pass_ok by (simp add: kwell_def)
  then have 2: "kwell tm (kp_streamCross ?K1)" (is "kwell tm ?K2")
    using ktyped_streamCross streamCross.pass_ok by (simp add: kwell_def)
  then have 3: "kwell tm (kp_removeProject tm ?K2)" (is "kwell tm ?K3")
    using ktyped_removeProject removeProject.pass_ok by (simp add: kwell_def)
  then have 4: "kwell tm (kp_crossBinary ?K3)" (is "kwell tm ?K4")
    using ktyped_binary crossBinary.pass_ok by (simp add: kwell_def)
  then have 5: "kwell tm (kp_streamCrossBinary ?K4)" (is "kwell tm ?K5")
    using ktyped_binary streamCrossBinary.pass_ok by (simp add: kwell_def)
  then show ?thesis
    unfolding logical_kplan_def kp_pushSelect_def by (intro ktyped_at ktyped_pushAll) (auto simp: kwell_def)
qed

section \<open>The types of a query\<close>

fun counts :: "sem_expr \<Rightarrow> bool" where
  "counts (SE_AGGR t fn a) \<longleftrightarrow> fn = F_COUNT"
| "counts (SE_COMP t op l r) \<longleftrightarrow> counts l \<or> counts r"
| "counts _ \<longleftrightarrow> False"

lemma np_expr_typed:
  "sem_wt tm (refTables q) e \<Longrightarrow> lexpr_typed tm (np_expr q e) \<and> lexpr_type (np_expr q e) = sem_type e"
  by (induction e) (auto simp: nattr_def sattr_type_def)

lemma np_bexpr_typed:
  "bexpr_wt tm (refTables q) b \<Longrightarrow> kind_typed tm (LO_SELECT (np_bexpr q b))"
  using np_expr_typed by (auto simp: bexpr_wt_def np_bexpr_def)

definition aggrs_typed :: "(lattr \<times> aggr_fn) list \<Rightarrow> bool" where
  "aggrs_typed as \<longleftrightarrow> (\<forall>a\<in>set as. snd a \<noteq> F_COUNT \<and> (\<exists>v t c. fst a = A_NAMED v t c))"

lemma np_collect_typed: "aggrs_typed acc \<Longrightarrow> \<not> counts e \<Longrightarrow> aggrs_typed (np_collect q e acc)"
  by (induction e arbitrary: acc) (simp_all, simp add: aggrs_typed_def nattr_def)

lemma np_aggrs_typed:
  assumes "\<forall>e\<in>set (projExprs q). \<not> counts e"
  shows "kind_typed tm (LO_GROUP_AGGR gs (np_aggrs q))"
proof -
  have "aggrs_typed (fold (np_collect q) es acc)" if "\<forall>e\<in>set es. \<not> counts e" "aggrs_typed acc" for es acc
    using that by (induction es arbitrary: acc) (simp_all add: np_collect_typed)
  from this [OF assms, of "[]"] have "aggrs_typed (np_aggrs q)" unfolding np_aggrs_def by (simp add: aggrs_typed_def)
  then show ?thesis by (simp add: aggrs_typed_def)
qed

lemma ktyped_table: "ktyped tm (kp_table tm q i)"
proof -
  have "ktyped tm (kp_window q w (kp_source tm v t))" "ktyped tm (kp_source tm v t)" for w v t
    by (cases w; simp add: kp_source_def)+
  then show ?thesis by (auto simp: kp_table_def Let_def split: option.splits)
qed

lemma ktyped_selects:
  "ktyped tm p \<Longrightarrow> \<forall>b\<in>set bs. kind_typed tm (LO_SELECT b) \<Longrightarrow> ktyped tm (kp_selects bs p)"
  by (induction bs arbitrary: p) (simp_all add: kp_selects_def)

lemma ktyped_naive:
  assumes "query_ok tm q" and "\<forall>e\<in>set (projExprs q). \<not> counts e"
  shows "ktyped tm (naive_kplan tm q)"
proof -
  have "ktyped tm (kp_sfw tm q)" if "qKind q = SFW_QUERY"
  proof -
    have "ktyped tm (kp_join tm q)" using ktyped_table by (simp add: kp_join_def Let_def)
    then have "ktyped tm (kp_selects (map (np_bexpr q) (preds q)) (kp_join tm q))"
      using assms(1) that np_bexpr_typed by (intro ktyped_selects) (auto simp: query_ok_def)
    then have "ktyped tm (kp_aggr q (kp_selects (map (np_bexpr q) (preds q)) (kp_join tm q)))"
      using np_aggrs_typed [OF assms(2)] by (simp add: kp_aggr_def del: kind_typed.simps(3))
    moreover have "\<forall>e\<in>set (projExprs q). lexpr_typed tm (np_expr q e)"
      using assms(1) that np_expr_typed by (auto simp: query_ok_def)
    ultimately show ?thesis by (simp add: kp_sfw_def kp_distinct_def)
  qed
  moreover have "ktyped tm (kp_binop tm q)" by (simp add: kp_binop_def kp_source_def split: option.splits binary_op.splits)
  ultimately show ?thesis
    by (auto simp: naive_kplan_def kp_r2s_def intro: query_type.exhaust split: option.splits r2s_op.splits)
qed

text \<open>C33: The physical plan of a query is well-typed: in the plan that the generator makes of the
  logical plan, every expression reads columns that the inputs of its operator have, with the types
  it was compiled for, both sides of every comparison and of every arithmetic operation have the
  same type, and the schema of every operator is that of its expressions, of its aggregations, or of
  its inputs.  The hypotheses are about the query that the interpreter has accepted: it has no \<open>COUNT\<close>, keeps to
  \<open>MAX_ATTRS\<close> attributes in its projection, its aggregation and its join, partitions windows by
  attributes of their own stream, projects in an aggregation only group attributes beside the
  aggregations, and projects of the strings only attributes and aggregations; every variable is of a
  table of the FROM clause and predicates have no aggregations (\<open>from_all\<close>), as in every query that
  was parsed.  Every table is delivered by an operator, and a free operator remains.\<close>
theorem plan_well_typed:
  assumes "tm_ok tm" and "tm_nonempty tm" and "query_ok tm q" and "\<forall>e\<in>set (projExprs q). \<not> counts e"
    and "qKind q = SFW_QUERY \<longrightarrow> plan_fits q \<and> join_width tm q \<le> MAX_ATTRS" and "grounded q" and "from_all q"
    and "kplan_at tm ls l (logical_kplan tm q)" and "operator_ptr ls \<le> MAXOPERATOR" and "pool s fs us"
    and "nodes (logical_kplan tm q) < length fs" and "\<forall>t\<in>set (tables (logical_kplan tm q)). serves tm s us t"
  shows "wp (genPhysicalPlan (opHeap ls) l) (\<lambda>p s'. \<exists>t. tree_at (ops s') [] t \<and> troot t = p \<and> pplan_typed (erase t))
    (\<lambda>rc s'. rc = - 1) s"
proof -
  have naive: "kplan_ok tm (naive_kplan tm q)" by (rule naive_kplan_ok [OF assms(1-3,5)])
  then have ok: "kplan_ok tm (logical_kplan tm q)" by (rule logical_kplan_ok)
  have phys: "phys_ok tm (logical_kplan tm q)" by (rule grounded_phys [OF assms(1-3,6,7,5)])
  have "pplan_typed (phy_of tm src (logical_kplan tm q))" for src
    using phy_typed [OF ok phys ktyped_logical [OF naive ktyped_naive [OF assms(3,4)]]] by blast
  then show ?thesis
    by (intro wp_mono [OF genPhysicalPlan_wp [OF assms(8) ok phys assms(9-12)]]) (auto simp: plan_in_def)
qed

theorem plan_well_typed_witness:
  "\<exists>(ls :: lstate) l s. wp (genPhysicalPlan (opHeap ls) l) (\<lambda>p s'. \<exists>t. tree_at (ops s') [] t \<and> troot t = p \<and> pplan_typed (erase t))
    (\<lambda>rc s'. rc = - 1) s"
proof -
  obtain ls l where ls: "kplan_at demo_tables ls l demo_select_kplan" "operator_ptr ls \<le> 37"
    using demo_plans [OF demo_select_ok] unfolding demo_select_plan by blast
  obtain s where s: "pool s [2 ..< P_MAX_OPS] [1, 0]" "serves demo_tables s [1, 0] 1" using demo_manager by metis
  have n: "nodes demo_select_kplan < length [2 ..< P_MAX_OPS]" "\<forall>t\<in>set (tables demo_select_kplan). serves demo_tables s [1, 0] t"
    "operator_ptr ls \<le> MAXOPERATOR"
    using s(2) ls(2) demo_select_phys by (simp_all add: P_MAX_OPS_def MAXOPERATOR_def)
  have c: "\<forall>e\<in>set (projExprs demo_select). \<not> counts e" by (simp add: demo_select_def)
  have f: "qKind demo_select = SFW_QUERY \<longrightarrow> plan_fits demo_select \<and> join_width demo_tables demo_select \<le> MAX_ATTRS"
    using demo_select_ok by simp
  show ?thesis
    using plan_well_typed [OF demo_ok(1,3) demo_select_ok(1) c f demo_select_grounded, unfolded demo_select_logical,
        OF ls(1) n(3) s(1) n(1,2)] by blast
qed

section \<open>Counting\<close>

text \<open>The query \<open>SELECT COUNT(c) + COUNT(c) FROM T [ROWS 3]\<close>, with \<open>T(a integer, c float)\<close>.\<close>

definition demo_count :: query where
  "demo_count = blank_query\<lparr>qKind := SFW_QUERY, refTables := [1], fromClauseTables := [0], winSpec := [Some (WS_ROW 3)],
     projExprs := [SE_COMP T_FLOAT O_ADD (SE_AGGR T_FLOAT F_COUNT \<lparr>sVarId = 0, sAttrId = 1\<rparr>)
       (SE_AGGR T_FLOAT F_COUNT \<lparr>sVarId = 0, sAttrId = 1\<rparr>)]\<rparr>"

abbreviation demo_count_kplan :: kplan where
  "demo_count_kplan \<equiv> KP (LO_PROJECT [LE_COMP T_FLOAT O_ADD (LE_ATTR T_FLOAT (A_AGGR 0 1 1 F_COUNT)) (LE_ATTR T_FLOAT (A_AGGR 0 1 1 F_COUNT))])
     [KP (LO_GROUP_AGGR [] [(A_NAMED 0 1 1, F_COUNT)]) [KP (LO_ROW_WIN 3) [KP (LO_STREAM_SOURCE 0 1) []]]]"

lemma demo_count_plan: "naive_kplan demo_tables demo_count = demo_count_kplan"
  by (simp add: naive_kplan_def kp_r2s_def kp_sfw_def kp_distinct_def kp_aggr_def kp_selects_def kp_join_def
      kp_table_def kp_source_def demo_count_def demo_tables_def blank_query_def np_aggrs_def nattr_def Let_def)

lemma demo_count_logical: "logical_kplan demo_tables demo_count = demo_count_kplan"
  unfolding logical_kplan_def demo_count_plan
  by (simp add: kp_rstreamNow_def below_def is_now_def pass_now_def kp_streamCross_def is_cross_def pass_scross_def
      now_index_def to_scross_def kp_removeProject_def pass_project_def drop_useless_def is_xstream_def
      kp_crossBinary_def above_cross_def kp_streamCrossBinary_def is_scross_def kp_pushSelect_def pass_push_def
      brefs_in_def source_attrs_def demo_tables_def upt_conv_Cons)

lemma demo_count_ok: "query_ok demo_tables demo_count" "plan_fits demo_count" "join_width demo_tables demo_count \<le> MAX_ATTRS"
  by (simp_all add: query_ok_def demo_count_def blank_query_def refs_ok_def from_ok_def sattr_ok_def sattr_type_def attr_valid_def
      query_size_def demo_tables_def MAX_PRED_def MAX_GROUP_ATTRS_def MAX_PROJ_def MAXNODE_def MAX_ATTRS_def getOutputType_def
      plan_fits_def np_aggrs_def nattr_def join_width_def table_width_def)

lemma demo_count_phys: "phys_ok demo_tables demo_count_kplan" "nodes demo_count_kplan = 3" "tables demo_count_kplan = [1]"
    "exprs demo_count_kplan = 3" "bexprs demo_count_kplan = 0" "pend src demo_count_kplan = [fst (src 1)]"
  by (simp_all add: char_ok_def source_attrs_def demo_tables_def LOP_GROUP_ATTRS_def MAX_AGGR_ATTRS_def pend_def leaves_def)

lemma demo_count_phy_of: "src 1 = (1, True) \<Longrightarrow> phy_of demo_tables src demo_count_kplan =
   POp \<lparr>nkind = PO_PROJECT, nunion = U_PROJECT [PE_COMP T_FLOAT O_ADD (PE_ATTR T_FLOAT \<lparr>attrInput = 0, attrPos = 0\<rparr>)
       (PE_ATTR T_FLOAT \<lparr>attrInput = 0, attrPos = 0\<rparr>)], ncols = [(T_FLOAT, Some 4)], nstream = False\<rparr>
     [POp \<lparr>nkind = PO_GROUP_AGGR, nunion = U_GROUP_AGGR [] [(\<lparr>attrInput = 0, attrPos = 0\<rparr>, F_COUNT)], ncols = [(T_INT, Some 4)], nstream = False\<rparr>
       [POp \<lparr>nkind = PO_ROW_WIN, nunion = U_ROW_WIN 3, ncols = [(T_INT, Some 4), (T_FLOAT, Some 4)], nstream = False\<rparr>
         [PSrc 1 [(T_INT, Some 4), (T_FLOAT, Some 4)] True]]]"
  by (simp add: p_unary_def pos_def source_attrs_def demo_tables_def table_cols_def FLOAT_SIZE_def INT_SIZE_def
      aggr_pos_def aggr_col_def Let_def getOutputType_def)

text \<open>C34: \<open>COUNT\<close> breaks the types: the logical plan gives the count the type of the counted attribute,
  \<open>mk_group_aggr\<close> that of the first column of the input.  For the query above, which the interpreter
  accepts, the generator makes a sum that is compiled to read \<open>FLOAT\<close>s over an aggregation
  that delivers an \<open>INT\<close>: the plan is not well-typed.\<close>
theorem count_mistyped:
  "query_ok demo_tables demo_count \<and> (\<exists>(ls :: lstate) l s p s' t.
     kplan_at demo_tables ls l (logical_kplan demo_tables demo_count) \<and> genPhysicalPlan (opHeap ls) l s = Done p s' \<and>
     tree_at (ops s') [] t \<and> troot t = p \<and> \<not> pplan_typed (erase t) \<and>
     (\<exists>i ts j us. erase t = POp i [POp j us] \<and> ncols j = [(T_INT, Some 4)] \<and>
        nunion i = U_PROJECT [PE_COMP T_FLOAT O_ADD (PE_ATTR T_FLOAT \<lparr>attrInput = 0, attrPos = 0\<rparr>)
          (PE_ATTR T_FLOAT \<lparr>attrInput = 0, attrPos = 0\<rparr>)]))"
proof -
  obtain ls l where ls: "kplan_at demo_tables ls l demo_count_kplan" "operator_ptr ls \<le> 37" "kplan_ok demo_tables demo_count_kplan"
    using demo_plans [OF demo_count_ok] unfolding demo_count_plan by blast
  obtain s where s: "pool s [2 ..< P_MAX_OPS] [1, 0]" "serves demo_tables s [1, 0] 1" "src_of s 1 = (1, True)"
      "numExprs s = 0" "numBExprs s = 0" "poutputs (ops s 1) = []" using demo_manager by metis
  have n: "nodes demo_count_kplan < length [2 ..< P_MAX_OPS]" "\<forall>t\<in>set (tables demo_count_kplan). serves demo_tables s [1, 0] t"
    "operator_ptr ls \<le> MAXOPERATOR"
    using s(2) ls(2) demo_count_phys by (simp_all add: P_MAX_OPS_def MAXOPERATOR_def)
  have room: "room (exprs demo_count_kplan) (bexprs demo_count_kplan) (pend (src_of s) demo_count_kplan) s"
    unfolding room_def demo_count_phys using s(3-6) by (simp add: P_MAX_EXPRS_def MAX_OUT_BRANCHING_def)
  have "wp (genPhysicalPlan (opHeap ls) l) (\<lambda>p s'. \<exists>t. tree_at (ops s') [] t \<and> troot t = p \<and>
      erase t = phy_of demo_tables (src_of s) demo_count_kplan) (\<lambda>_ _. False) s"
    by (rule wp_mono [OF genPhysicalPlan_wp [OF ls(1,3) demo_count_phys(1) n(3) s(1) n(1,2)]])
      (use room in \<open>auto simp: plan_in_def\<close>)
  then obtain p s' t where t: "genPhysicalPlan (opHeap ls) l s = Done p s'" "tree_at (ops s') [] t" "troot t = p"
      "erase t = phy_of demo_tables (src_of s) demo_count_kplan" by (auto dest!: wp_success)
  note e = t(4) [unfolded demo_count_phy_of [where src = "src_of s", OF s(3)]]
  have "\<not> pplan_typed (erase t)" unfolding e by (simp add: op_typed_def pattr_type_def)
  then show ?thesis
    unfolding demo_count_logical using demo_count_ok(1) ls(1) t(1-3) e by fastforce
qed

end
