(* ===== verification/Coordinator.thy ===== *)
theory Coordinator
  imports Script_Reader Server
begin

text \<open>
  \<open>src/AQSIOSCoordinator.cpp\<close>: loading the global query network from a script.

  A source and an output object are known to the server by their positions in the arrays
  \<open>sources\<close> and \<open>outputs\<close>; the model keeps the names of their files.  A pointer into the plan is the
  position of its operator.
\<close>

definition MAX_TABLE_SPEC :: nat where "MAX_TABLE_SPEC = 1024"
definition MAX_QUERY :: nat where "MAX_QUERY = 1024"
definition MAX_OUTPUT :: nat where "MAX_OUTPUT = 5000"
definition MAX_SOURCES :: nat where "MAX_SOURCES = 500"

record coordinator =
  coServer :: server
  coReader :: script_reader
  tableSpecBuf :: string
  queryBuf :: string                \<comment> \<open>\<open>query\<close>\<close>
  outputFiles :: "string list"      \<comment> \<open>\<open>outputs\<close>, \<open>numOutput\<close>\<close>
  sourceFiles :: "string list"      \<comment> \<open>\<open>sources\<close>, \<open>numSources\<close>\<close>
  regOps :: "nat option"

text \<open>The local variables of \<open>register_appln\<close> that live across its loop.\<close>

record appln_locals =
  loQueryId :: "nat option"         \<comment> \<open>not initialised at first\<close>
  bQueryValid :: bool
  bQueryIdValid :: bool
  bTableSpecValid :: bool

definition start_locals :: appln_locals where
  "start_locals = \<lparr>loQueryId = None, bQueryValid = False, bQueryIdValid = False, bTableSpecValid = False\<rparr>"

definition onServer :: "(server, 'a) comp \<Rightarrow> (coordinator, 'a) comp" where
  "onServer = zoomM (\<lambda>c. Some (coServer c)) (\<lambda>x c. c\<lparr>coServer := x\<rparr>)"

definition onReader :: "(script_reader, 'a) comp \<Rightarrow> (coordinator, 'a) comp" where
  "onReader = zoomM (\<lambda>c. Some (coReader c)) (\<lambda>x c. c\<lparr>coReader := x\<rparr>)"

section \<open>The commands of a script\<close>

text \<open>One case of the \<open>switch\<close> per command.\<close>

definition applnTable :: "string \<Rightarrow> appln_locals \<Rightarrow> (coordinator, appln_locals) comp" where
  "applnTable desc l =
    (if length desc > MAX_TABLE_SPEC then failM (- 1)
     else seqM (modM (\<lambda>c. c\<lparr>tableSpecBuf := desc\<rparr>)) (retM (l\<lparr>bTableSpecValid := True\<rparr>)))"

definition applnSource ::
    "(string \<Rightarrow> g_command option) \<Rightarrow> string \<Rightarrow> appln_locals \<Rightarrow> (coordinator, appln_locals) comp" where
  "applnSource derive desc l =
    (if \<not> bTableSpecValid l then failM (- 1)
     else
       bindM (readM sourceFiles) (\<lambda>srcs.
       if length srcs \<ge> MAX_SOURCES then failM (- 1)
       else
         seqM (modM (\<lambda>c. c\<lparr>sourceFiles := srcs @ [desc]\<rparr>))
         (bindM (readM tableSpecBuf) (\<lambda>spec.
          seqM (onServer (registerBaseTable derive (Some spec) (length srcs)))
          (retM (l\<lparr>bTableSpecValid := False\<rparr>))))))"

definition applnQuery :: "string \<Rightarrow> appln_locals \<Rightarrow> (coordinator, appln_locals) comp" where
  "applnQuery desc l =
    (if length desc > MAX_QUERY then failM (- 1)
     else seqM (modM (\<lambda>c. c\<lparr>queryBuf := desc\<rparr>)) (retM (l\<lparr>bQueryValid := True\<rparr>)))"

definition applnDest ::
    "(string \<Rightarrow> g_command option) \<Rightarrow> string \<Rightarrow> appln_locals \<Rightarrow> (coordinator, appln_locals) comp" where
  "applnDest derive desc l =
    (if \<not> bQueryValid l then failM (- 1)
     else
       bindM (readM outputFiles) (\<lambda>outs.
       if length outs \<ge> MAX_OUTPUT then failM (- 1)
       else
         seqM (modM (\<lambda>c. c\<lparr>outputFiles := outs @ [desc]\<rparr>))
         (bindM (readM queryBuf) (\<lambda>q.
          bindM (onServer (registerQuery derive q (Some (length outs)))) (\<lambda>queryId.
          retM (l\<lparr>loQueryId := Some queryId, bQueryValid := False\<rparr>))))))"

definition applnClass :: "string \<Rightarrow> appln_locals \<Rightarrow> (coordinator, appln_locals) comp" where
  "applnClass desc l = bindM (onServer (bindM (atoi desc) setQueryClass)) (\<lambda>_. retM l)"

definition applnVQuery ::
    "(string \<Rightarrow> g_command option) \<Rightarrow> string \<Rightarrow> appln_locals \<Rightarrow> (coordinator, appln_locals) comp" where
  "applnVQuery derive desc l =
    bindM (onServer (registerQuery derive desc None)) (\<lambda>queryId.
    retM (l\<lparr>loQueryId := Some queryId, bQueryIdValid := True\<rparr>))"

definition applnVTable ::
    "(string \<Rightarrow> g_command option) \<Rightarrow> string \<Rightarrow> appln_locals \<Rightarrow> (coordinator, appln_locals) comp" where
  "applnVTable derive desc l =
    (if \<not> bQueryIdValid l then failM (- 1)
     else
       bindM (derefM (loQueryId l)) (\<lambda>queryId.
       seqM (onServer (registerView derive queryId (Some desc)))
       (retM (l\<lparr>bQueryIdValid := False\<rparr>))))"

definition applnCommand ::
    "(string \<Rightarrow> g_command option) \<Rightarrow> script_command \<Rightarrow> appln_locals \<Rightarrow> (coordinator, appln_locals) comp" where
  "applnCommand derive command l =
    (case cmdType command of
      CT_TABLE \<Rightarrow> applnTable (cmdDesc command) l
    | CT_SOURCE \<Rightarrow> applnSource derive (cmdDesc command) l
    | CT_QUERY \<Rightarrow> applnQuery (cmdDesc command) l
    | CT_DEST \<Rightarrow> applnDest derive (cmdDesc command) l
    | CT_QCLASS \<Rightarrow> applnClass (cmdDesc command) l
    | CT_VQUERY \<Rightarrow> applnVQuery derive (cmdDesc command) l
    | CT_VTABLE \<Rightarrow> applnVTable derive (cmdDesc command) l)"

text \<open>
  \<open>while (true)\<close>, with fuel: every command but the last call takes a line of the script.
\<close>

primrec applnLoop ::
    "(string \<Rightarrow> g_command option) \<Rightarrow> nat \<Rightarrow> appln_locals \<Rightarrow> (coordinator, appln_locals) comp" where
  "applnLoop derive 0 l = undefM"
| "applnLoop derive (Suc fuel) l =
    bindM (onReader getNextCommand) (\<lambda>c.
    case c of
      None \<Rightarrow> retM l
    | Some command \<Rightarrow> bindM (applnCommand derive command l) (\<lambda>l'. applnLoop derive fuel l'))"

definition register_appln ::
    "(string \<Rightarrow> g_command option) \<Rightarrow> plan_manager \<Rightarrow> (nat \<Rightarrow> char) \<Rightarrow> string option \<Rightarrow> (coordinator, unit) comp" where
  "register_appln derive mem buf script =
    seqM (modM (\<lambda>c. c\<lparr>coReader := openScript script\<rparr>))
    (seqM (onServer (beginAppSpecification mem buf))
    (seqM (modM (\<lambda>c. c\<lparr>outputFiles := [], sourceFiles := []\<rparr>))
    (bindM (readM (\<lambda>c. length (rdInput (coReader c)))) (\<lambda>n.
     bindM (applnLoop derive (n + 2) start_locals) (\<lambda>l.
     if bQueryValid l \<or> bQueryIdValid l \<or> bTableSpecValid l then failM (- 1)
     else
       seqM (onServer endAppSpecification)
       (bindM (onServer svGetPlan) (\<lambda>p.
        modM (\<lambda>c. c\<lparr>regOps := p\<rparr>))))))))"

text \<open>The new server starts with the static variables \<open>p\<close>, \<open>se\<close>, \<open>l\<close> and the option \<open>sharing\<close>.\<close>

definition loadQueryNetwork ::
    "(string \<Rightarrow> g_command option) \<Rightarrow> parser_state \<Rightarrow> sem_state \<Rightarrow> lstate \<Rightarrow> bool \<Rightarrow> plan_manager \<Rightarrow> (nat \<Rightarrow> char) \<Rightarrow>
     string option \<Rightarrow> (coordinator, unit) comp" where
  "loadQueryNetwork derive p se l sharing mem buf script =
    seqM (modM (\<lambda>c. c\<lparr>coServer := newServer p se l sharing\<rparr>))
    (\<lambda>c. case register_appln derive mem buf script c of
       Fail rc c' \<Rightarrow> Fail (- 1) c'
     | r \<Rightarrow> r)"

end
