(* ===== verification/Script_Facts.thy ===== *)
theory Script_Facts
  imports Script_Reader "HOL-Library.Sublist"
begin

text \<open>
  What the script reader makes of a text: the text is a list of lines, every line has a command of
  its own or is ignored, and the reader goes through them one by one.
\<close>

section \<open>The lines of a text\<close>

fun lines_of :: "string \<Rightarrow> string list" where
  "lines_of [] = [[]]"
| "lines_of (c # cs) = (if c = NEWLINE then [] # lines_of cs
     else (case lines_of cs of [] \<Rightarrow> [[c]] | l # ls \<Rightarrow> (c # l) # ls))"

lemma lines_of_nonempty [simp]: "lines_of t \<noteq> []"
  by (induction t) (auto split: list.splits)

lemma lines_of_length: "length (lines_of t) \<le> length t + 1"
  by (induction t) (auto split: list.splits)

lemma take_line_lines:
  assumes "lines_of t = l # ls" and "length l \<le> k"
  shows "\<exists>rest. take_line k t = (l, rest, ls = [], False) \<and> (ls \<noteq> [] \<longrightarrow> lines_of rest = ls)"
  using assms
proof (induction t arbitrary: l k)
  case (Cons c t)
  show ?case
  proof (cases "c = NEWLINE")
    case False
    obtain l' where l: "lines_of t = l' # ls" "l = c # l'"
      using Cons.prems(1) False lines_of_nonempty [of t] by (auto split: list.splits)
    have "length l' \<le> k - 1" "k \<noteq> 0" using Cons.prems(2) l(2) by auto
    from Cons.IH [OF l(1) this(1)] show ?thesis using False l(2) \<open>k \<noteq> 0\<close> by auto
  qed (use Cons.prems in auto)
qed auto

text \<open>A line that is too long is cut, and the stream is no longer good.\<close>

lemma take_line_long:
  assumes "lines_of t = l # ls" and "k < length l"
  shows "\<exists>rest. take_line k t = (take k l, rest, False, True)"
  using assms
proof (induction t arbitrary: l k)
  case (Cons c t)
  have c: "c \<noteq> NEWLINE" using Cons.prems by auto
  obtain l' where l: "lines_of t = l' # ls" "l = c # l'"
    using Cons.prems(1) c lines_of_nonempty [of t] by (auto split: list.splits)
  show ?case
  proof (cases k)
    case (Suc j)
    then have "j < length l'" using Cons.prems(2) l(2) by simp
    from Cons.IH [OF l(1) this] show ?thesis using c l(2) Suc by auto
  qed (use c in simp)
qed auto

section \<open>The command of a line\<close>

definition command_keywords :: "(string \<times> command_type) list" where
  "command_keywords = [(''table'', CT_TABLE), (''source'', CT_SOURCE), (''query'', CT_QUERY), (''vquery'', CT_VQUERY),
     (''vtable'', CT_VTABLE), (''dest'', CT_DEST), (''qclass'', CT_QCLASS)]"

text \<open>The word before the colon may be any beginning of a keyword that is not empty; the first keyword in
  the list with that beginning is meant.\<close>

definition line_command :: "string \<Rightarrow> (command_type \<times> string) option" where
  "line_command line =
    (let s = dropWhile isspace line;
         word = takeWhile isalpha s;
         rest = dropWhile isspace (dropWhile isalpha s)
     in if word = [] \<or> rest = [] \<or> hd rest \<noteq> CHR '':'' then None
        else map_option (\<lambda>k. (snd k, dropWhile isspace (tl rest))) (find (\<lambda>k. prefix word (fst k)) command_keywords))"

lemma strncmp_eq_prefix: "NUL \<notin> set w \<Longrightarrow> strncmp_eq (w @ r) t (length w) = prefix w t"
proof (induction w arbitrary: t)
  case (Cons c w)
  then show ?case by (cases t) auto
qed simp

lemma drop_takeWhile: "drop (length (takeWhile P xs)) xs = dropWhile P xs"
  by (induction xs) auto

lemma case_found: "(case (if b then Some x else y) of None \<Rightarrow> n | Some k \<Rightarrow> f k) = (if b then f x else (case y of None \<Rightarrow> n | Some k \<Rightarrow> f k))"
  by simp

lemma parseLine_command:
  "parseLine line r = (case line_command line of
     None \<Rightarrow> Fail (- 1) r
   | Some (ty, d) \<Rightarrow> Done \<lparr>cmdLineNo = rdLineNo r, cmdType = ty, cmdDesc = d\<rparr> r)"
proof -
  define s where "s = dropWhile isspace line"
  define w where "w = takeWhile isalpha s"
  define rest where "rest = dropWhile isspace (dropWhile isalpha s)"
  have "NUL \<notin> set w" by (auto simp: w_def NUL_def isalpha_def dest: set_takeWhileD)
  then have cmp: "strncmp_eq s t (length w) = prefix w t" for t
    using strncmp_eq_prefix [of w "dropWhile isalpha s" t] by (simp add: w_def)
  let ?word = "\<lambda>k. prefix w (fst k)"
  have words: "(if prefix w TABLE_COMMAND then retM CT_TABLE else if prefix w SOURCE_COMMAND then retM CT_SOURCE
      else if prefix w QUERY_COMMAND then retM CT_QUERY else if prefix w VQUERY_COMMAND then retM CT_VQUERY
      else if prefix w VTABLE_COMMAND then retM CT_VTABLE else if prefix w DEST_COMMAND then retM CT_DEST
      else if prefix w Q_CLASSES_COMMAND then retM CT_QCLASS else failM (- 1)) =
    (case find ?word command_keywords of None \<Rightarrow> failM (- 1) | Some k \<Rightarrow> retM (snd k))" (is "?type = _")
    by (simp only: command_words command_keywords_def find.simps fst_conv snd_conv case_found option.case)
  have "drop (length w) s = dropWhile isalpha s" unfolding w_def by (rule drop_takeWhile)
  then have "parseLine line = (if w = [] then failM (- 1) else bindM ?type (\<lambda>ty.
      if rest = [] \<or> hd rest \<noteq> CHR '':'' then failM (- 1)
      else bindM (readM rdLineNo) (\<lambda>n. retM \<lparr>cmdLineNo = n, cmdType = ty, cmdDesc = dropWhile isspace (tl rest)\<rparr>)))"
    unfolding parseLine_def Let_def s_def [symmetric] w_def [symmetric] cmp rest_def by simp
  moreover have "line_command line = (if w = [] \<or> rest = [] \<or> hd rest \<noteq> CHR '':'' then None
      else map_option (\<lambda>k. (snd k, dropWhile isspace (tl rest))) (find ?word command_keywords))"
    unfolding line_command_def Let_def s_def [symmetric] w_def [symmetric] rest_def [symmetric] by simp
  ultimately show ?thesis
    unfolding words by (cases "find ?word command_keywords") (simp_all add: comp_defs)
qed

section \<open>Reading\<close>

definition ignored :: "string \<Rightarrow> bool" where
  "ignored l \<longleftrightarrow> isEmptyLine l \<or> isCommentLine l"

text \<open>The lines with a command, numbered from \<open>n\<close>.\<close>

definition command_lines :: "nat \<Rightarrow> string list \<Rightarrow> (nat \<times> string) list" where
  "command_lines n ls = filter (\<lambda>(i, l). \<not> ignored l) (enumerate n (map cstring ls))"

lemma command_lines_simps [simp]:
  "command_lines n [] = []"
  "command_lines n (l # ls) = (if ignored (cstring l) then command_lines (Suc n) ls else (n, cstring l) # command_lines (Suc n) ls)"
  by (simp_all add: command_lines_def)

text \<open>\<open>n\<close> lines are read, \<open>ls\<close> are left.\<close>

definition reading :: "nat \<Rightarrow> string list \<Rightarrow> script_reader \<Rightarrow> bool" where
  "reading n ls r \<longleftrightarrow> rdLineNo r = of_nat n \<and> (\<forall>l\<in>set ls. length l < LINE_BUFFER_SIZE) \<and>
     (if ls = [] then rdEof r else rdGood r \<and> lines_of (rdInput r) = ls)"

lemma reading_line:
  assumes "reading n (l # ls) r"
  obtains r' where "getline LINE_BUFFER_SIZE r = Done () r'" and "lineBuffer r' = cstring l"
    and "reading (Suc n) ls (r'\<lparr>rdLineNo := rdLineNo r' + 1\<rparr>)"
proof -
  have r: "rdGood r" "lines_of (rdInput r) = l # ls" "length l \<le> LINE_BUFFER_SIZE - 1"
    using assms by (auto simp: reading_def)
  from take_line_lines [OF r(2,3)] obtain rest where
    "take_line (LINE_BUFFER_SIZE - 1) (rdInput r) = (l, rest, ls = [], False)" "ls \<noteq> [] \<longrightarrow> lines_of rest = ls" by blast
  then show thesis
    using that assms by (simp add: getline_def modM_def reading_def rdGood_def)
qed

lemma readLoop_next:
  assumes "reading n ls r" and "length ls < fuel"
  shows "case command_lines (Suc n) ls of
      [] \<Rightarrow> \<exists>r' m. readLoop fuel r = Done None r' \<and> reading m [] r'
    | (i, l) # cs \<Rightarrow> (case line_command l of
        None \<Rightarrow> \<exists>r'. readLoop fuel r = Fail (- 1) r'
      | Some (ty, d) \<Rightarrow> \<exists>r' ls'. readLoop fuel r = Done (Some \<lparr>cmdLineNo = of_nat i, cmdType = ty, cmdDesc = d\<rparr>) r' \<and>
          reading i ls' r' \<and> command_lines (Suc i) ls' = cs)"
  using assms
proof (induction ls arbitrary: n r fuel)
  case Nil
  obtain f where "fuel = Suc f" using Nil.prems(2) by (cases fuel) auto
  then show ?case using Nil.prems(1) by (auto simp: reading_def rdGood_def bindM_def readM_def retM_def)
next
  case (Cons l ls)
  obtain f where f: "fuel = Suc f" "length ls < f" using Cons.prems(2) by (cases fuel) auto
  obtain r' where r': "getline LINE_BUFFER_SIZE r = Done () r'" "lineBuffer r' = cstring l"
      "reading (Suc n) ls (r'\<lparr>rdLineNo := rdLineNo r' + 1\<rparr>)"
    using reading_line [OF Cons.prems(1)] by blast
  let ?r = "r'\<lparr>rdLineNo := rdLineNo r' + 1\<rparr>"
  have step: "readLoop fuel r = (if ignored (cstring l) then readLoop f ?r
      else bindM (parseLine (cstring l)) (\<lambda>c. retM (Some c)) ?r)"
    using Cons.prems(1) f(1) r' by (simp add: reading_def ignored_def bindM_def seqM_def readM_def modM_def)
  show ?case
  proof (cases "ignored (cstring l)")
    case True
    from Cons.IH [OF r'(3) f(2)] show ?thesis
      unfolding step using True by (auto split: list.splits option.splits)
  next
    case False
    have "rdLineNo ?r = of_nat (Suc n)" using r'(3) by (simp add: reading_def)
    then show ?thesis
      unfolding step using False r'(3)
      by (auto simp: parseLine_command bindM_def retM_def split: option.splits)
  qed
qed

lemma getNextCommand_next:
  assumes "reading n ls r"
  shows "case command_lines (Suc n) ls of
      [] \<Rightarrow> \<exists>r' m. getNextCommand r = Done None r' \<and> reading m [] r'
    | (i, l) # cs \<Rightarrow> (case line_command l of
        None \<Rightarrow> \<exists>r'. getNextCommand r = Fail (- 1) r'
      | Some (ty, d) \<Rightarrow> \<exists>r' ls'. getNextCommand r = Done (Some \<lparr>cmdLineNo = of_nat i, cmdType = ty, cmdDesc = d\<rparr>) r' \<and>
          reading i ls' r' \<and> command_lines (Suc i) ls' = cs)"
proof -
  have "length ls < length (rdInput r) + 2"
    using assms lines_of_length [of "rdInput r"] by (auto simp: reading_def split: if_splits)
  moreover have "getNextCommand r = readLoop (length (rdInput r) + 2) r"
    by (simp only: getNextCommand_def bindM_def readM_def outcome.case)
  ultimately show ?thesis using readLoop_next [OF assms] by (simp only:)
qed

lemma reading_start:
  assumes "\<forall>l\<in>set (lines_of t). length l < LINE_BUFFER_SIZE"
  shows "reading 0 (lines_of t) (openScript (Some t))"
  using assms by (simp add: reading_def openScript_def rdGood_def)

end
