(* ===== verification/Coordinator_Spec.thy ===== *)
theory Coordinator_Spec
  imports Coordinator Script_Facts Server_Spec
begin

text \<open>
  What the reader of scripts and the loader of the query network promise: every command of a script
  is delivered, in order, and a script registers exactly the tables, queries and views that it
  describes, or those before the first line that is out of order.
\<close>

section \<open>Reading a script\<close>

text \<open>The commands of a list of lines, each with the number of its line; \<open>None\<close> if a line has none.\<close>

definition script_commands :: "nat \<Rightarrow> string list \<Rightarrow> script_command list option" where
  "script_commands n ls = those (map (\<lambda>(i, l). map_option (\<lambda>(ty, d). \<lparr>cmdLineNo = of_nat i, cmdType = ty, cmdDesc = d\<rparr>)
     (line_command l)) (command_lines n ls))"

lemma those_length: "those xs = Some ys \<Longrightarrow> length ys = length xs"
  by (induction xs arbitrary: ys) (auto split: option.splits)

lemma script_commands_length: "script_commands n ls = Some cs \<Longrightarrow> length cs \<le> length ls"
  using length_filter_le [of "\<lambda>(i, l). \<not> ignored l" "enumerate n (map cstring ls)"]
  by (auto simp: script_commands_def command_lines_def dest!: those_length)

lemma reading_commands:
  assumes "reading n ls r" and "script_commands (Suc n) ls = Some cs"
  shows "case cs of
      [] \<Rightarrow> \<exists>r' m. getNextCommand r = Done None r' \<and> reading m [] r'
    | c # cs' \<Rightarrow> \<exists>r' i ls'. getNextCommand r = Done (Some c) r' \<and> reading i ls' r' \<and> script_commands (Suc i) ls' = Some cs'"
proof (cases "command_lines (Suc n) ls")
  case Nil
  then show ?thesis using getNextCommand_next [OF assms(1)] assms(2) by (simp add: script_commands_def)
next
  case (Cons x rest)
  obtain i l where x: "x = (i, l)" by (cases x)
  obtain ty d cs' where c: "line_command l = Some (ty, d)" "cs = \<lparr>cmdLineNo = of_nat i, cmdType = ty, cmdDesc = d\<rparr> # cs'"
      "those (map (\<lambda>(i, l). map_option (\<lambda>(ty, d). \<lparr>cmdLineNo = of_nat i, cmdType = ty, cmdDesc = d\<rparr>)
         (line_command l)) rest) = Some cs'"
    using assms(2) Cons x by (auto simp: script_commands_def split: option.splits)
  then show ?thesis
    using getNextCommand_next [OF assms(1)] Cons x by (fastforce simp: script_commands_def)
qed

lemma reading_end: "reading n [] r \<Longrightarrow> \<exists>r'. mapM (\<lambda>_. getNextCommand) xs r = Done (replicate (length xs) None) r'"
proof (induction xs arbitrary: n r)
  case (Cons x xs)
  have "script_commands (Suc n) [] = Some []" by (simp add: script_commands_def)
  from reading_commands [OF Cons.prems this] obtain r' m where
    "getNextCommand r = Done None r'" "reading m [] r'" by auto
  then show ?case using Cons.IH [of m r'] by (auto simp: bindM_def retM_def)
qed (simp add: retM_def)

lemma reading_all:
  assumes "reading n ls r" and "script_commands (Suc n) ls = Some cs"
  shows "\<exists>r'. mapM (\<lambda>_. getNextCommand) (replicate (length cs + k) ()) r = Done (map Some cs @ replicate k None) r'"
  using assms
proof (induction cs arbitrary: n ls r)
  case Nil
  show ?case
  proof (cases k)
    case (Suc j)
    obtain r' m where "getNextCommand r = Done None r'" "reading m [] r'" using reading_commands [OF Nil] by auto
    then show ?thesis using reading_end [of m r' "replicate j ()"] Suc by (auto simp: bindM_def retM_def)
  qed (simp add: retM_def)
next
  case (Cons c cs)
  obtain r' i ls' where "getNextCommand r = Done (Some c) r'" "reading i ls' r'" "script_commands (Suc i) ls' = Some cs"
    using reading_commands [OF Cons.prems] by auto
  then show ?case using Cons.IH [of i ls' r'] by (auto simp: bindM_def retM_def)
qed

text \<open>C30: Every command of a script is delivered: if the lines fit into the line buffer and each
  line that is neither empty nor a comment has a command, then the successive calls of
  \<open>getNextCommand\<close> return all commands in the order of their lines, each with its type, its line
  number and its description, and every later call reports the end.\<close>
theorem script_delivered:
  assumes "\<forall>l\<in>set (lines_of script). length l < LINE_BUFFER_SIZE" and "script_commands 1 (lines_of script) = Some cs"
  shows "\<exists>r. mapM (\<lambda>_. getNextCommand) (replicate (length cs + k) ()) (openScript (Some script)) =
    Done (map Some cs @ replicate k None) r"
  using reading_all [OF reading_start [OF assms(1)]] assms(2) by simp

definition demo_script :: string where
  "demo_script = ''# demo'' @ [NEWLINE] @ ''table : S'' @ [NEWLINE] @ ''source: s.dat'' @ [NEWLINE] @
     ''table:T'' @ [NEWLINE] @ ''  s : t.dat'' @ [NEWLINE, NEWLINE] @
     ''vquery : Q'' @ [NEWLINE] @ ''vtable : V'' @ [NEWLINE]"

lemma demo_script_lines: "lines_of demo_script =
   [''# demo'', ''table : S'', ''source: s.dat'', ''table:T'', ''  s : t.dat'', '''', ''vquery : Q'', ''vtable : V'', '''']"
  by code_simp

lemma demo_script_commands: "script_commands 1 (lines_of demo_script) = Some
   [\<lparr>cmdLineNo = 2, cmdType = CT_TABLE, cmdDesc = ''S''\<rparr>, \<lparr>cmdLineNo = 3, cmdType = CT_SOURCE, cmdDesc = ''s.dat''\<rparr>,
    \<lparr>cmdLineNo = 4, cmdType = CT_TABLE, cmdDesc = ''T''\<rparr>, \<lparr>cmdLineNo = 5, cmdType = CT_SOURCE, cmdDesc = ''t.dat''\<rparr>,
    \<lparr>cmdLineNo = 7, cmdType = CT_VQUERY, cmdDesc = ''Q''\<rparr>, \<lparr>cmdLineNo = 8, cmdType = CT_VTABLE, cmdDesc = ''V''\<rparr>]"
  unfolding demo_script_lines by code_simp

theorem script_delivered_witness:
  "\<exists>r. mapM (\<lambda>_. getNextCommand) (replicate 8 ()) (openScript (Some demo_script)) = Done
    [Some \<lparr>cmdLineNo = 2, cmdType = CT_TABLE, cmdDesc = ''S''\<rparr>, Some \<lparr>cmdLineNo = 3, cmdType = CT_SOURCE, cmdDesc = ''s.dat''\<rparr>,
     Some \<lparr>cmdLineNo = 4, cmdType = CT_TABLE, cmdDesc = ''T''\<rparr>, Some \<lparr>cmdLineNo = 5, cmdType = CT_SOURCE, cmdDesc = ''t.dat''\<rparr>,
     Some \<lparr>cmdLineNo = 7, cmdType = CT_VQUERY, cmdDesc = ''Q''\<rparr>, Some \<lparr>cmdLineNo = 8, cmdType = CT_VTABLE, cmdDesc = ''V''\<rparr>,
     None, None] r"
proof -
  have "\<forall>l\<in>set (lines_of demo_script). length l < LINE_BUFFER_SIZE"
    unfolding demo_script_lines by (simp add: LINE_BUFFER_SIZE_def)
  from script_delivered [OF this demo_script_commands, of 2] show ?thesis
    by (simp add: numeral_2_eq_2 numeral_eq_Suc)
qed

section \<open>Loading the query network\<close>

text \<open>
  What a script describes: base tables with the files of their tuples, queries with the files of their
  answers, views with the queries that define them, and changes of the query class.
\<close>

datatype item = I_TABLE string string | I_QUERY string string | I_VIEW string string | I_CLASS string

fun item_commands :: "item \<Rightarrow> (command_type \<times> string) list" where
  "item_commands (I_TABLE spec dat) = [(CT_TABLE, spec), (CT_SOURCE, dat)]"
| "item_commands (I_QUERY q dat) = [(CT_QUERY, q), (CT_DEST, dat)]"
| "item_commands (I_VIEW q spec) = [(CT_VQUERY, q), (CT_VTABLE, spec)]"
| "item_commands (I_CLASS n) = [(CT_QCLASS, n)]"

fun item_fits :: "item \<Rightarrow> bool" where
  "item_fits (I_TABLE spec dat) \<longleftrightarrow> length spec \<le> MAX_TABLE_SPEC"
| "item_fits (I_QUERY q dat) \<longleftrightarrow> length q \<le> MAX_QUERY"
| "item_fits _ \<longleftrightarrow> True"

fun is_table :: "item \<Rightarrow> bool" where
  "is_table (I_TABLE spec dat) \<longleftrightarrow> True" | "is_table _ \<longleftrightarrow> False"

fun is_query :: "item \<Rightarrow> bool" where
  "is_query (I_QUERY q dat) \<longleftrightarrow> True" | "is_query _ \<longleftrightarrow> False"

text \<open>The calls of the server for a list of items, after \<open>ns\<close> sources and \<open>no\<close> outputs.\<close>

fun registerItems :: "(string \<Rightarrow> g_command option) \<Rightarrow> nat \<Rightarrow> nat \<Rightarrow> item list \<Rightarrow> (server, unit) comp" where
  "registerItems derive ns no [] = retM ()"
| "registerItems derive ns no (I_TABLE spec dat # its) =
    seqM (registerBaseTable derive (Some spec) ns) (registerItems derive (Suc ns) no its)"
| "registerItems derive ns no (I_QUERY q dat # its) =
    seqM (registerQuery derive q (Some no)) (registerItems derive ns (Suc no) its)"
| "registerItems derive ns no (I_VIEW q spec # its) =
    bindM (registerQuery derive q None) (\<lambda>queryId.
    seqM (registerView derive queryId (Some spec)) (registerItems derive ns no its))"
| "registerItems derive ns no (I_CLASS n # its) =
    seqM (bindM (atoi n) setQueryClass) (registerItems derive ns no its)"

text \<open>The server at the end of a computation of the coordinator.\<close>

definition serverEnd :: "(coordinator, 'a) outcome \<Rightarrow> (server, unit) outcome" where
  "serverEnd r = (case r of Done a c \<Rightarrow> Done () (coServer c) | Fail rc c \<Rightarrow> Fail rc (coServer c) | Exit n \<Rightarrow> Exit n | Undef \<Rightarrow> Undef)"

lemma serverEnd_simps [simp]:
  "serverEnd (Done a c) = Done () (coServer c)" "serverEnd (Fail rc c) = Fail rc (coServer c)"
  "serverEnd (Exit n) = Exit n" "serverEnd Undef = Undef"
  by (simp_all add: serverEnd_def)

lemma bind_onServer: "bindM (onServer m) f c = (case m (coServer c) of
    Done a s \<Rightarrow> f a (c\<lparr>coServer := s\<rparr>) | Fail rc s \<Rightarrow> Fail rc (c\<lparr>coServer := s\<rparr>) | Exit n \<Rightarrow> Exit n | Undef \<Rightarrow> Undef)"
  by (simp add: onServer_def zoomM_def bindM_def split: outcome.splits)

lemma applnLoop_command:
  assumes "reading n ls (coReader c)" and "script_commands (Suc n) ls = Some (k # cs)"
  obtains r i ls' where "reading i ls' r" and "script_commands (Suc i) ls' = Some cs"
    and "\<And>f l. applnLoop derive (Suc f) l c = bindM (applnCommand derive k l) (applnLoop derive f) (c\<lparr>coReader := r\<rparr>)"
proof -
  obtain r i ls' where r: "getNextCommand (coReader c) = Done (Some k) r" "reading i ls' r" "script_commands (Suc i) ls' = Some cs"
    using reading_commands [OF assms] by auto
  then show thesis using that by (simp add: onReader_def zoomM_def bindM_def)
qed

lemma applnLoop_end:
  assumes "reading n ls (coReader c)" and "script_commands (Suc n) ls = Some []"
  obtains r where "\<And>f l. applnLoop derive (Suc f) l c = Done l (c\<lparr>coReader := r\<rparr>)"
proof -
  obtain r where "getNextCommand (coReader c) = Done None r" using reading_commands [OF assms] by auto
  then show thesis using that by (simp add: onReader_def zoomM_def bindM_def retM_def)
qed

definition no_flags :: "appln_locals \<Rightarrow> bool" where
  "no_flags l \<longleftrightarrow> \<not> bQueryValid l \<and> \<not> bQueryIdValid l \<and> \<not> bTableSpecValid l"

text \<open>The loop over the commands of the items, from a state in which \<open>n\<close> lines are read.\<close>

definition items_left :: "nat \<Rightarrow> item list \<Rightarrow> coordinator \<Rightarrow> bool" where
  "items_left fuel its c \<longleftrightarrow> (\<exists>n ls cs. reading n ls (coReader c) \<and> script_commands (Suc n) ls = Some cs \<and>
     map (\<lambda>k. (cmdType k, cmdDesc k)) cs = concat (map item_commands its) \<and> length cs < fuel) \<and>
     list_all item_fits its \<and> length (sourceFiles c) + length (filter is_table its) \<le> MAX_SOURCES \<and>
     length (outputFiles c) + length (filter is_query its) \<le> MAX_OUTPUT"

lemma items_left_cong:
  assumes "reading n ls (coReader c)" and "script_commands (Suc n) ls = Some cs"
    and "map (\<lambda>k. (cmdType k, cmdDesc k)) cs = concat (map item_commands its)" and "length cs < fuel" and "list_all item_fits its"
    and "length (sourceFiles c) + length (filter is_table its) \<le> MAX_SOURCES"
    and "length (outputFiles c) + length (filter is_query its) \<le> MAX_OUTPUT"
  shows "items_left fuel its c"
  unfolding items_left_def using assms by blast

text \<open>An item of two commands takes two iterations.\<close>

lemma item_two:
  assumes left: "items_left fuel (it # its) c" and it: "item_commands it = [(ty1, d1), (ty2, d2)]"
  obtains k1 k2 r1 r2 f n ls cs where "cmdType k1 = ty1" and "cmdDesc k1 = d1" and "cmdType k2 = ty2" and "cmdDesc k2 = d2"
    and "\<And>l. applnLoop derive fuel l c = bindM (applnCommand derive k1 l) (applnLoop derive (Suc f)) (c\<lparr>coReader := r1\<rparr>)"
    and "\<And>l c'. coReader c' = r1 \<Longrightarrow> applnLoop derive (Suc f) l c' = bindM (applnCommand derive k2 l) (applnLoop derive f) (c'\<lparr>coReader := r2\<rparr>)"
    and "reading n ls r2" and "script_commands (Suc n) ls = Some cs"
    and "map (\<lambda>k. (cmdType k, cmdDesc k)) cs = concat (map item_commands its)" and "length cs < f"
proof -
  obtain n ls cs where c: "reading n ls (coReader c)" "script_commands (Suc n) ls = Some cs" "length cs < fuel"
      "map (\<lambda>k. (cmdType k, cmdDesc k)) cs = (ty1, d1) # (ty2, d2) # concat (map item_commands its)"
    using left it by (auto simp: items_left_def)
  then obtain k1 k2 cs' where k: "cs = k1 # k2 # cs'" by auto
  then obtain f where f: "fuel = Suc (Suc f)" "length cs' < f" using c(3) by (cases fuel; cases "fuel - 1") auto
  obtain r1 n1 ls1 where r1: "reading n1 ls1 r1" "script_commands (Suc n1) ls1 = Some (k2 # cs')"
      "\<And>f l. applnLoop derive (Suc f) l c = bindM (applnCommand derive k1 l) (applnLoop derive f) (c\<lparr>coReader := r1\<rparr>)"
    using applnLoop_command [OF c(1) c(2) [unfolded k], of derive] by metis
  obtain r2 n2 ls2 where r2: "reading n2 ls2 r2" "script_commands (Suc n2) ls2 = Some cs'" "getNextCommand r1 = Done (Some k2) r2"
    using reading_commands [OF r1(1,2)] by auto
  have step: "applnLoop derive (Suc f) l c' = bindM (applnCommand derive k2 l) (applnLoop derive f) (c'\<lparr>coReader := r2\<rparr>)"
    if "coReader c' = r1" for l c'
    using r2(3) that by (simp add: onReader_def zoomM_def bindM_def)
  show thesis
    by (rule that [where ?k1.0 = k1 and ?k2.0 = k2 and ?r1.0 = r1 and ?r2.0 = r2 and f = f and n = n2 and ls = ls2 and cs = cs']) (use c(4) k f r1(3) r2(1,2) step in auto)
qed

lemma applnLoop_items:
  assumes "items_left fuel its c" and "no_flags l"
  shows "serverEnd (applnLoop derive fuel l c) =
      registerItems derive (length (sourceFiles c)) (length (outputFiles c)) its (coServer c) \<and>
    (\<forall>l' c'. applnLoop derive fuel l c = Done l' c' \<longrightarrow> no_flags l')"
  using assms
proof (induction its arbitrary: fuel c l)
  case Nil
  obtain n ls where c: "reading n ls (coReader c)" "script_commands (Suc n) ls = Some []" "0 < fuel"
    using Nil(1) by (auto simp: items_left_def)
  then obtain f where f: "fuel = Suc f" by (cases fuel) auto
  obtain r where "\<And>f l. applnLoop derive (Suc f) l c = Done l (c\<lparr>coReader := r\<rparr>)"
    using applnLoop_end [OF c(1,2), of derive] by metis
  then show ?case using f Nil(2) by (simp add: retM_def)
next
  case (Cons it its)
  have fits: "item_fits it" "list_all item_fits its"
      "length (sourceFiles c) + length (filter is_table (it # its)) \<le> MAX_SOURCES"
      "length (outputFiles c) + length (filter is_query (it # its)) \<le> MAX_OUTPUT"
    using Cons.prems(1) by (simp_all add: items_left_def)
  show ?case
  proof (cases it)
    case (I_TABLE spec dat)
    obtain k1 k2 r1 r2 f n ls cs where k: "cmdType k1 = CT_TABLE" "cmdDesc k1 = spec" "cmdType k2 = CT_SOURCE" "cmdDesc k2 = dat"
      and loop: "\<And>l. applnLoop derive fuel l c = bindM (applnCommand derive k1 l) (applnLoop derive (Suc f)) (c\<lparr>coReader := r1\<rparr>)"
        "\<And>l c'. coReader c' = r1 \<Longrightarrow> applnLoop derive (Suc f) l c' = bindM (applnCommand derive k2 l) (applnLoop derive f) (c'\<lparr>coReader := r2\<rparr>)"
      and rest: "reading n ls r2" "script_commands (Suc n) ls = Some cs"
        "map (\<lambda>k. (cmdType k, cmdDesc k)) cs = concat (map item_commands its)" "length cs < f"
      by (rule item_two [OF Cons.prems(1), of CT_TABLE spec CT_SOURCE dat derive]) (use I_TABLE in auto)
    let ?l = "l\<lparr>bTableSpecValid := False\<rparr>"
    let ?c = "\<lambda>s. c\<lparr>tableSpecBuf := spec, coReader := r2, sourceFiles := sourceFiles c @ [dat], coServer := s\<rparr>"
    have run: "applnLoop derive fuel l c = bindM (onServer (registerBaseTable derive (Some spec) (length (sourceFiles c))))
        (\<lambda>_. applnLoop derive f ?l) (?c (coServer c))"
      using fits I_TABLE by (simp add: loop applnCommand_def k applnTable_def applnSource_def comp_defs split: outcome.splits del: applnLoop.simps)
    have left: "items_left f its (?c s)" for s
      by (rule items_left_cong) (use rest fits I_TABLE in auto)
    have "no_flags ?l" using Cons.prems(2) by (simp add: no_flags_def)
    note IH = Cons.IH [OF left this]
    show ?thesis
      unfolding run bind_onServer using IH I_TABLE
      by (auto simp: seqM_def bindM_def split: outcome.splits)
  next
    case (I_QUERY q dat)
    obtain k1 k2 r1 r2 f n ls cs where k: "cmdType k1 = CT_QUERY" "cmdDesc k1 = q" "cmdType k2 = CT_DEST" "cmdDesc k2 = dat"
      and loop: "\<And>l. applnLoop derive fuel l c = bindM (applnCommand derive k1 l) (applnLoop derive (Suc f)) (c\<lparr>coReader := r1\<rparr>)"
        "\<And>l c'. coReader c' = r1 \<Longrightarrow> applnLoop derive (Suc f) l c' = bindM (applnCommand derive k2 l) (applnLoop derive f) (c'\<lparr>coReader := r2\<rparr>)"
      and rest: "reading n ls r2" "script_commands (Suc n) ls = Some cs"
        "map (\<lambda>k. (cmdType k, cmdDesc k)) cs = concat (map item_commands its)" "length cs < f"
      by (rule item_two [OF Cons.prems(1), of CT_QUERY q CT_DEST dat derive]) (use I_QUERY in auto)
    let ?l = "\<lambda>i. l\<lparr>loQueryId := Some i, bQueryValid := False\<rparr>"
    let ?c = "\<lambda>s. c\<lparr>queryBuf := q, coReader := r2, outputFiles := outputFiles c @ [dat], coServer := s\<rparr>"
    have run: "applnLoop derive fuel l c = bindM (onServer (registerQuery derive q (Some (length (outputFiles c)))))
        (\<lambda>i. applnLoop derive f (?l i)) (?c (coServer c))"
      using fits I_QUERY by (simp add: loop applnCommand_def k applnQuery_def applnDest_def comp_defs split: outcome.splits del: applnLoop.simps)
    have left: "items_left f its (?c s)" for s
      by (rule items_left_cong) (use rest fits I_QUERY in auto)
    have "no_flags (?l i)" for i using Cons.prems(2) by (simp add: no_flags_def)
    note IH = Cons.IH [OF left this]
    show ?thesis
      unfolding run bind_onServer using IH I_QUERY
      by (auto simp: seqM_def bindM_def split: outcome.splits)
  next
    case (I_VIEW q spec)
    obtain k1 k2 r1 r2 f n ls cs where k: "cmdType k1 = CT_VQUERY" "cmdDesc k1 = q" "cmdType k2 = CT_VTABLE" "cmdDesc k2 = spec"
      and loop: "\<And>l. applnLoop derive fuel l c = bindM (applnCommand derive k1 l) (applnLoop derive (Suc f)) (c\<lparr>coReader := r1\<rparr>)"
        "\<And>l c'. coReader c' = r1 \<Longrightarrow> applnLoop derive (Suc f) l c' = bindM (applnCommand derive k2 l) (applnLoop derive f) (c'\<lparr>coReader := r2\<rparr>)"
      and rest: "reading n ls r2" "script_commands (Suc n) ls = Some cs"
        "map (\<lambda>k. (cmdType k, cmdDesc k)) cs = concat (map item_commands its)" "length cs < f"
      by (rule item_two [OF Cons.prems(1), of CT_VQUERY q CT_VTABLE spec derive]) (use I_VIEW in auto)
    let ?l = "\<lambda>i. l\<lparr>loQueryId := Some i, bQueryIdValid := False\<rparr>"
    let ?c = "\<lambda>s. c\<lparr>coReader := r2, coServer := s\<rparr>"
    have run: "applnLoop derive fuel l c = bindM (onServer (registerQuery derive q None))
        (\<lambda>i. bindM (onServer (registerView derive i (Some spec))) (\<lambda>_. applnLoop derive f (?l i)) \<circ> (\<lambda>c. c\<lparr>coReader := r2\<rparr>)) (c\<lparr>coReader := r1\<rparr>)"
      by (simp add: loop applnCommand_def k applnVQuery_def applnVTable_def bindM_assoc bind_onServer comp_defs onServer_def zoomM_def split: outcome.splits del: applnLoop.simps)
    have left: "items_left f its (?c s)" for s
      by (rule items_left_cong) (use rest fits I_VIEW in auto)
    have "no_flags (?l i)" for i using Cons.prems(2) by (simp add: no_flags_def)
    note IH = Cons.IH [OF left this]
    show ?thesis
      unfolding run bind_onServer using IH I_VIEW
      by (auto simp: seqM_def bindM_def bind_onServer split: outcome.splits)
  next
    case (I_CLASS d)
    obtain n ls k cs where c: "reading n ls (coReader c)" "script_commands (Suc n) ls = Some (k # cs)" "length cs < fuel - 1" "0 < fuel"
        "cmdType k = CT_QCLASS" "cmdDesc k = d" "map (\<lambda>k. (cmdType k, cmdDesc k)) cs = concat (map item_commands its)"
      using Cons.prems(1) I_CLASS by (auto simp: items_left_def)
    then obtain f where f: "fuel = Suc f" "length cs < f" by (cases fuel) auto
    obtain r i ls' where r: "reading i ls' r" "script_commands (Suc i) ls' = Some cs"
        "\<And>f l. applnLoop derive (Suc f) l c = bindM (applnCommand derive k l) (applnLoop derive f) (c\<lparr>coReader := r\<rparr>)"
      using applnLoop_command [OF c(1,2), of derive] by metis
    let ?c = "\<lambda>s. c\<lparr>coReader := r, coServer := s\<rparr>"
    have run: "applnLoop derive fuel l c = bindM (onServer (bindM (atoi d) setQueryClass)) (\<lambda>_. applnLoop derive f l) (?c (coServer c))"
      unfolding f(1) r(3) by (simp add: applnCommand_def c applnClass_def bindM_assoc)
    have left: "items_left f its (?c s)" for s
      by (rule items_left_cong) (use r(1,2) c f(2) fits I_CLASS in auto)
    note IH = Cons.IH [OF left Cons.prems(2)]
    show ?thesis
      unfolding run bind_onServer using IH I_CLASS
      by (auto simp: seqM_def bindM_def split: outcome.splits)
  qed
qed

lemma end_has_plan:
  assumes "endAppSpecification sv = Done () sv'"
  shows "svState sv' = S_PLAN_GEN \<and> (\<exists>pm. planMgr sv' = Some pm)"
  using assms
  by (auto simp: endAppSpecification_def onPlan_def zoomM_def comp_defs split: if_splits option.splits outcome.splits)

lemma register_appln_tail:
  "serverEnd (seqM (onServer endAppSpecification) (bindM (onServer svGetPlan) (\<lambda>p. modM (\<lambda>c. c\<lparr>regOps := p\<rparr>))) c) =
     runCommand derive CMD_END (coServer c) \<and>
   (\<forall>c'. seqM (onServer endAppSpecification) (bindM (onServer svGetPlan) (\<lambda>p. modM (\<lambda>c. c\<lparr>regOps := p\<rparr>))) c = Done () c' \<longrightarrow>
     svState (coServer c') = S_PLAN_GEN \<and> regOps c' = getPlan (the (planMgr (coServer c'))))"
proof (cases "endAppSpecification (coServer c)")
  case (Done u sv)
  with end_has_plan obtain pm where "planMgr sv = Some pm" "svState sv = S_PLAN_GEN" by auto
  then show ?thesis using Done
    by (simp add: seqM_def bind_onServer svGetPlan_def) (simp add: comp_defs)
qed (simp_all add: seqM_def bind_onServer)

text \<open>The end of the loader: nothing may be left pending.\<close>

definition finished :: "('s, 'a) comp \<Rightarrow> appln_locals \<Rightarrow> ('s, 'a) comp" where
  "finished k l = (if bQueryValid l \<or> bQueryIdValid l \<or> bTableSpecValid l then failM (- 1) else k)"

lemma register_appln_split:
  "register_appln derive mem buf script c =
    (case beginAppSpecification mem buf (coServer c) of
       Done u sv \<Rightarrow> bindM (applnLoop derive (length (rdInput (openScript script)) + 2) start_locals)
         (finished (seqM (onServer endAppSpecification) (bindM (onServer svGetPlan) (\<lambda>p. modM (\<lambda>c. c\<lparr>regOps := p\<rparr>)))))
         (c\<lparr>coReader := openScript script, coServer := sv, outputFiles := [], sourceFiles := []\<rparr>)
     | Fail rc sv \<Rightarrow> Fail rc (c\<lparr>coReader := openScript script, coServer := sv\<rparr>) | Exit n \<Rightarrow> Exit n | Undef \<Rightarrow> Undef)"
proof -
  define rest where "rest = (\<lambda>n. bindM (applnLoop derive (n + 2) start_locals)
      (finished (seqM (onServer endAppSpecification) (bindM (onServer svGetPlan) (\<lambda>p. modM (\<lambda>c. c\<lparr>regOps := p\<rparr>))))))"
  have "register_appln derive mem buf script =
    seqM (modM (\<lambda>c. c\<lparr>coReader := openScript script\<rparr>))
    (seqM (onServer (beginAppSpecification mem buf))
    (seqM (modM (\<lambda>c. c\<lparr>outputFiles := [], sourceFiles := []\<rparr>))
    (bindM (readM (\<lambda>c. length (rdInput (coReader c)))) rest)))"
    unfolding register_appln_def rest_def finished_def ..
  then have "register_appln derive mem buf script c = (case beginAppSpecification mem buf (coServer c) of
      Done u sv \<Rightarrow> rest (length (rdInput (openScript script)))
        (c\<lparr>coReader := openScript script, coServer := sv, outputFiles := [], sourceFiles := []\<rparr>)
    | Fail rc sv \<Rightarrow> Fail rc (c\<lparr>coReader := openScript script, coServer := sv\<rparr>) | Exit n \<Rightarrow> Exit n | Undef \<Rightarrow> Undef)"
    by (simp add: seqM_def bind_onServer modM_def readM_def bindM_def onServer_def zoomM_def split: outcome.splits)
  then show ?thesis by (simp only: rest_def)
qed

text \<open>C31: A script registers exactly what it describes: if its commands are, in order, those of a list of
  tables, queries, views and query classes, each within the limits, then the server ends as
  if it had been called for these alone, each once and in order, between
  \<open>beginAppSpecification\<close> and \<open>endAppSpecification\<close>, or as the first of these calls that failed
  left it; and on success \<open>regOps\<close> is the first operator of the plan.\<close>
theorem script_registered:
  assumes "\<forall>l\<in>set (lines_of script). length l < LINE_BUFFER_SIZE" and "script_commands 1 (lines_of script) = Some cs"
    and "map (\<lambda>k. (cmdType k, cmdDesc k)) cs = concat (map item_commands its)" and "list_all item_fits its"
    and "length (filter is_table its) \<le> MAX_SOURCES" and "length (filter is_query its) \<le> MAX_OUTPUT"
  shows "serverEnd (register_appln derive mem buf (Some script) c) =
      seqM (runCommand derive (CMD_BEGIN mem buf)) (seqM (registerItems derive 0 0 its) (runCommand derive CMD_END)) (coServer c) \<and>
    (\<forall>c'. register_appln derive mem buf (Some script) c = Done () c' \<longrightarrow>
      svState (coServer c') = S_PLAN_GEN \<and> regOps c' = getPlan (the (planMgr (coServer c'))))"
proof -
  let ?c = "\<lambda>s. c\<lparr>coReader := openScript (Some script), coServer := s, outputFiles := [], sourceFiles := []\<rparr>"
  let ?n = "length (rdInput (openScript (Some script)))"
  let ?tail = "seqM (onServer endAppSpecification) (bindM (onServer svGetPlan) (\<lambda>p. modM (\<lambda>c. c\<lparr>regOps := p\<rparr>)))"
  have "length cs < ?n + 2"
    using script_commands_length [OF assms(2)] lines_of_length [of script] by (simp add: openScript_def)
  then have "items_left (?n + 2) its (?c sv)" for sv
    by (intro items_left_cong [OF _ _ assms(3)]) (use reading_start [OF assms(1)] assms in auto)
  note loop = applnLoop_items [OF this, of start_locals, unfolded no_flags_def, where derive = derive]
  note run = register_appln_split [of derive mem buf "Some script" c]
  show ?thesis
  proof (cases "beginAppSpecification mem buf (coServer c)")
    case (Done u sv)
    let ?r = "applnLoop derive (?n + 2) start_locals (?c sv)"
    have r: "register_appln derive mem buf (Some script) c = (case ?r of
        Done l c' \<Rightarrow> (if bQueryValid l \<or> bQueryIdValid l \<or> bTableSpecValid l then failM (- 1) else ?tail) c'
      | Fail rc c' \<Rightarrow> Fail rc c' | Exit n \<Rightarrow> Exit n | Undef \<Rightarrow> Undef)"
      unfolding run Done outcome.case bindM_def finished_def ..
    have spec: "serverEnd ?r = registerItems derive 0 0 its sv" "\<forall>l' c'. ?r = Done l' c' \<longrightarrow> \<not> bQueryValid l' \<and> \<not> bQueryIdValid l' \<and> \<not> bTableSpecValid l'"
      using loop [of sv] by (simp_all add: start_locals_def)
    show ?thesis
    proof (cases ?r)
      case (Done l' c')
      then have "register_appln derive mem buf (Some script) c = ?tail c'"
        using spec(2) unfolding r by simp
      moreover have "registerItems derive 0 0 its sv = Done () (coServer c')" using spec(1) Done by simp
      ultimately show ?thesis
        using register_appln_tail [of c'] \<open>beginAppSpecification mem buf (coServer c) = Done u sv\<close>
        by (simp add: seqM_def bindM_def)
    qed (use spec(1) [symmetric] Done in \<open>simp_all add: r seqM_def bindM_def del: applnLoop.simps\<close>)
  qed (simp_all add: run seqM_def bindM_def)
qed

definition demo_coordinator :: coordinator where
  "demo_coordinator = \<lparr>coServer = newServer demo_parser demo_state empty_pool False, coReader = openScript None, tableSpecBuf = [],
    queryBuf = [], outputFiles = [], sourceFiles = [], regOps = None\<rparr>"

theorem script_registered_witness:
  "\<forall>mem buf. serverEnd (register_appln demo_derive mem buf (Some demo_script) demo_coordinator) =
    seqM (beginAppSpecification mem buf)
    (seqM (seqM (registerBaseTable demo_derive (Some ''S'') 0)
      (seqM (registerBaseTable demo_derive (Some ''T'') 1)
      (bindM (registerQuery demo_derive ''Q'' None) (\<lambda>q.
       seqM (registerView demo_derive q (Some ''V'')) (retM ())))))
    endAppSpecification) (newServer demo_parser demo_state empty_pool False)"
proof (intro allI)
  fix mem buf
  let ?its = "[I_TABLE ''S'' ''s.dat'', I_TABLE ''T'' ''t.dat'', I_VIEW ''Q'' ''V'']"
  have "\<forall>l\<in>set (lines_of demo_script). length l < LINE_BUFFER_SIZE"
    unfolding demo_script_lines by (simp add: LINE_BUFFER_SIZE_def)
  note r = script_registered [OF this demo_script_commands, of ?its demo_derive mem buf demo_coordinator]
  have "serverEnd (register_appln demo_derive mem buf (Some demo_script) demo_coordinator) =
      seqM (runCommand demo_derive (CMD_BEGIN mem buf)) (seqM (registerItems demo_derive 0 0 ?its) (runCommand demo_derive CMD_END))
        (coServer demo_coordinator)"
    by (rule conjunct1 [OF r]) (simp_all add: MAX_TABLE_SPEC_def MAX_SOURCES_def)
  then show "serverEnd (register_appln demo_derive mem buf (Some demo_script) demo_coordinator) =
    seqM (beginAppSpecification mem buf)
    (seqM (seqM (registerBaseTable demo_derive (Some ''S'') 0)
      (seqM (registerBaseTable demo_derive (Some ''T'') 1)
      (bindM (registerQuery demo_derive ''Q'' None) (\<lambda>q.
       seqM (registerView demo_derive q (Some ''V'')) (retM ())))))
    endAppSpecification) (newServer demo_parser demo_state empty_pool False)" by (simp add: demo_coordinator_def)
qed

section \<open>Any script\<close>

text \<open>What the lines of a script say: a command with its description, or nothing that can be understood.\<close>

definition entries :: "nat \<Rightarrow> string list \<Rightarrow> (command_type \<times> string) option list" where
  "entries n ls = map (\<lambda>(i, l). line_command l) (command_lines n ls)"

text \<open>Every command \<open>b\<close> needs a command \<open>a\<close> before it, after the last \<open>b\<close>, and no \<open>a\<close> is left without \<open>b\<close>.\<close>

fun paired :: "command_type \<Rightarrow> command_type \<Rightarrow> bool \<Rightarrow> (command_type \<times> string) option list \<Rightarrow> bool" where
  "paired a b pending [] \<longleftrightarrow> \<not> pending"
| "paired a b pending (e # es) \<longleftrightarrow>
    (if map_option fst e = Some a then paired a b True es
     else if map_option fst e = Some b then pending \<and> paired a b False es
     else paired a b pending es)"

definition occurs :: "command_type \<Rightarrow> (command_type \<times> string) option list \<Rightarrow> nat" where
  "occurs ty es = length (filter (\<lambda>e. map_option fst e = Some ty) es)"

text \<open>The scripts that are accepted, as far as the loader can tell, after \<open>ns\<close> sources and \<open>no\<close> outputs
  and with what is pending.\<close>

definition orderly :: "bool \<Rightarrow> bool \<Rightarrow> bool \<Rightarrow> nat \<Rightarrow> nat \<Rightarrow> (command_type \<times> string) option list \<Rightarrow> bool" where
  "orderly t q v ns no es \<longleftrightarrow> None \<notin> set es \<and>
     paired CT_TABLE CT_SOURCE t es \<and> paired CT_QUERY CT_DEST q es \<and> paired CT_VQUERY CT_VTABLE v es \<and>
     (\<forall>d. Some (CT_TABLE, d) \<in> set es \<longrightarrow> length d \<le> MAX_TABLE_SPEC) \<and>
     (\<forall>d. Some (CT_QUERY, d) \<in> set es \<longrightarrow> length d \<le> MAX_QUERY) \<and>
     (occurs CT_SOURCE es = 0 \<or> ns + occurs CT_SOURCE es \<le> MAX_SOURCES) \<and>
     (occurs CT_DEST es = 0 \<or> no + occurs CT_DEST es \<le> MAX_OUTPUT)"

text \<open>The calls of the server that the lines ask for, up to the first line that is out of order.\<close>

datatype call = K_TABLE string nat | K_QUERY string "nat option" | K_VIEW string | K_CLASS string

fun calls :: "string option \<Rightarrow> string option \<Rightarrow> bool \<Rightarrow> nat \<Rightarrow> nat \<Rightarrow> (command_type \<times> string) option list \<Rightarrow> call list" where
  "calls t q v ns no [] = []"
| "calls t q v ns no (None # es) = []"
| "calls t q v ns no (Some (CT_TABLE, d) # es) =
    (if length d \<le> MAX_TABLE_SPEC then calls (Some d) q v ns no es else [])"
| "calls t q v ns no (Some (CT_SOURCE, d) # es) =
    (case t of None \<Rightarrow> [] | Some spec \<Rightarrow>
       if ns < MAX_SOURCES then K_TABLE spec ns # calls None q v (Suc ns) no es else [])"
| "calls t q v ns no (Some (CT_QUERY, d) # es) =
    (if length d \<le> MAX_QUERY then calls t (Some d) v ns no es else [])"
| "calls t q v ns no (Some (CT_DEST, d) # es) =
    (case q of None \<Rightarrow> [] | Some spec \<Rightarrow>
       if no < MAX_OUTPUT then K_QUERY spec (Some no) # calls t None v ns (Suc no) es else [])"
| "calls t q v ns no (Some (CT_QCLASS, d) # es) = K_CLASS d # calls t q v ns no es"
| "calls t q v ns no (Some (CT_VQUERY, d) # es) = K_QUERY d None # calls t q True ns no es"
| "calls t q v ns no (Some (CT_VTABLE, d) # es) = (if v then K_VIEW d # calls t q False ns no es else [])"

text \<open>A view is made of the query that was registered last.\<close>

fun performCalls :: "(string \<Rightarrow> g_command option) \<Rightarrow> nat option \<Rightarrow> call list \<Rightarrow> (server, unit) comp" where
  "performCalls derive i [] = retM ()"
| "performCalls derive i (K_TABLE spec n # ks) =
    seqM (registerBaseTable derive (Some spec) n) (performCalls derive i ks)"
| "performCalls derive i (K_QUERY q out # ks) =
    bindM (registerQuery derive q out) (\<lambda>j. performCalls derive (Some j) ks)"
| "performCalls derive i (K_VIEW spec # ks) =
    bindM (derefM i) (\<lambda>j. seqM (registerView derive j (Some spec)) (performCalls derive i ks))"
| "performCalls derive i (K_CLASS d # ks) =
    seqM (bindM (atoi d) setQueryClass) (performCalls derive i ks)"

lemma orderly_Nil: "orderly t q v ns no [] \<longleftrightarrow> \<not> t \<and> \<not> q \<and> \<not> v"
  by (simp add: orderly_def occurs_def)

lemma orderly_None: "\<not> orderly t q v ns no (None # es)"
  by (simp add: orderly_def)

lemma orderly_Some:
  "orderly t q v ns no (Some (ty, d) # es) \<longleftrightarrow> (case ty of
      CT_TABLE \<Rightarrow> length d \<le> MAX_TABLE_SPEC \<and> orderly True q v ns no es
    | CT_SOURCE \<Rightarrow> t \<and> ns < MAX_SOURCES \<and> orderly False q v (Suc ns) no es
    | CT_QUERY \<Rightarrow> length d \<le> MAX_QUERY \<and> orderly t True v ns no es
    | CT_DEST \<Rightarrow> q \<and> no < MAX_OUTPUT \<and> orderly t False v ns (Suc no) es
    | CT_QCLASS \<Rightarrow> orderly t q v ns no es
    | CT_VQUERY \<Rightarrow> orderly t q True ns no es
    | CT_VTABLE \<Rightarrow> v \<and> orderly t q False ns no es)"
  by (cases ty) (auto simp: orderly_def occurs_def)

lemmas orderly_simps = orderly_Nil orderly_None orderly_Some

text \<open>One round of the loop, for the next line that is not ignored.\<close>

lemma applnLoop_entry:
  assumes "reading n ls (coReader c)" and "entries (Suc n) ls = e # es"
  shows "case e of
      None \<Rightarrow> \<exists>r. \<forall>f l. applnLoop derive (Suc f) l c = Fail (- 1) (c\<lparr>coReader := r\<rparr>)
    | Some (ty, d) \<Rightarrow> \<exists>r i ls' k. reading i ls' r \<and> entries (Suc i) ls' = es \<and> cmdType k = ty \<and> cmdDesc k = d \<and>
        (\<forall>f l. applnLoop derive (Suc f) l c = bindM (applnCommand derive k l) (applnLoop derive f) (c\<lparr>coReader := r\<rparr>))"
proof -
  obtain i l rest where c: "command_lines (Suc n) ls = (i, l) # rest" and e: "e = line_command l"
      and es: "es = map (\<lambda>(i, l). line_command l) rest"
    using assms(2) by (auto simp: entries_def)
  note nxt = getNextCommand_next [OF assms(1), unfolded c, simplified]
  show ?thesis
  proof (cases e)
    case None
    then show ?thesis using nxt e by (auto simp: onReader_def zoomM_def bindM_def)
  next
    case (Some x)
    obtain ty d where x: "x = (ty, d)" by (cases x)
    let ?k = "\<lparr>cmdLineNo = of_nat i, cmdType = ty, cmdDesc = d\<rparr>"
    obtain r ls' where r: "getNextCommand (coReader c) = Done (Some ?k) r" "reading i ls' r" "command_lines (Suc i) ls' = rest"
      using nxt unfolding e [symmetric] Some x by auto
    have "applnLoop derive (Suc f) l c = bindM (applnCommand derive ?k l) (applnLoop derive f) (c\<lparr>coReader := r\<rparr>)" for f l
      using r(1) by (simp add: onReader_def zoomM_def bindM_def)
    then show ?thesis unfolding Some x option.case prod.case
      using r(2,3) es by (intro exI [of _ r] exI [of _ i] exI [of _ ls'] exI [of _ ?k]) (auto simp: entries_def)
  qed
qed

text \<open>The flags and buffers of the loader against what is pending.\<close>

definition pending :: "appln_locals \<Rightarrow> coordinator \<Rightarrow> string option \<Rightarrow> string option \<Rightarrow> bool \<Rightarrow> bool" where
  "pending l c t q v \<longleftrightarrow> bTableSpecValid l = (t \<noteq> None) \<and> (\<forall>d. t = Some d \<longrightarrow> tableSpecBuf c = d) \<and>
     bQueryValid l = (q \<noteq> None) \<and> (\<forall>d. q = Some d \<longrightarrow> queryBuf c = d) \<and> bQueryIdValid l = v"

lemma applnLoop_calls:
  assumes "reading n ls (coReader c)" and "entries (Suc n) ls = es" and "length es < fuel" and "pending l c t q v"
    and "\<And>c'. serverEnd (k c') = K (coServer c')"
  shows "serverEnd (bindM (applnLoop derive fuel l) (finished k) c) =
    seqM (performCalls derive (loQueryId l) (calls t q v (length (sourceFiles c)) (length (outputFiles c)) es))
      (if orderly (t \<noteq> None) (q \<noteq> None) v (length (sourceFiles c)) (length (outputFiles c)) es then K else failM (- 1)) (coServer c)"
  using assms(1-4)
proof (induction es arbitrary: n ls c fuel l t q v)
  case Nil
  then obtain f where f: "fuel = Suc f" by (cases fuel) auto
  have "command_lines (Suc n) ls = []" using Nil(2) by (simp add: entries_def)
  with getNextCommand_next [OF Nil(1)] obtain r where "getNextCommand (coReader c) = Done None r" by auto
  then show ?case using f Nil(4) assms(5)
    by (auto simp: onReader_def zoomM_def finished_def pending_def orderly_simps comp_defs)
next
  case (Cons e es)
  then obtain f where f: "fuel = Suc f" "length es < f" by (cases fuel) auto
  note round = applnLoop_entry [OF Cons.prems(1,2), of derive]
  show ?case
  proof (cases e)
    case None
    with round obtain r where "applnLoop derive (Suc f) l c = Fail (- 1) (c\<lparr>coReader := r\<rparr>)" by auto
    then show ?thesis using f(1) None by (simp add: orderly_simps comp_defs del: applnLoop.simps)
  next
    case (Some x)
    obtain ty d where e: "e = Some (ty, d)" using Some by (cases x) auto
    with round obtain r i ls' cmd where r: "reading i ls' r" "entries (Suc i) ls' = es" "cmdType cmd = ty" "cmdDesc cmd = d"
        "applnLoop derive (Suc f) l c = bindM (applnCommand derive cmd l) (applnLoop derive f) (c\<lparr>coReader := r\<rparr>)"
      by auto
    define rest where "rest = (\<lambda>l'. bindM (applnLoop derive f l') (finished k))"
    have IH: "serverEnd (rest l' c') =
        seqM (performCalls derive (loQueryId l') (calls t' q' v' (length (sourceFiles c')) (length (outputFiles c')) es))
          (if orderly (t' \<noteq> None) (q' \<noteq> None) v' (length (sourceFiles c')) (length (outputFiles c')) es then K else failM (- 1)) (coServer c')"
      if "coReader c' = r" "pending l' c' t' q' v'" for l' c' t' q' v'
      unfolding rest_def by (rule Cons.IH) (use that r f in simp_all)
    have run: "bindM (applnLoop derive fuel l) (finished k) c = bindM (applnCommand derive cmd l) rest (c\<lparr>coReader := r\<rparr>)"
      using r(5) f(1) by (simp add: rest_def bindM_def split: outcome.splits del: applnLoop.simps)
    note here = run e orderly_simps applnCommand_def r(3,4)
    note now = Cons.prems(4) [unfolded pending_def]
    show ?thesis
    proof (cases ty)
      case CT_TABLE
      have "pending (l\<lparr>bTableSpecValid := True\<rparr>) (c\<lparr>coReader := r, tableSpecBuf := d\<rparr>) (Some d) q v"
        using now by (simp add: pending_def)
      from IH [OF _ this] show ?thesis
        using CT_TABLE by (simp add: here applnTable_def) (simp add: comp_defs split: outcome.splits)
    next
      case CT_SOURCE
      show ?thesis
      proof (cases "t = None \<or> length (sourceFiles c) \<ge> MAX_SOURCES")
        case True
        then show ?thesis unfolding run using now CT_SOURCE
          by (auto simp: here applnSource_def comp_defs split: option.splits)
      next
        case False
        then obtain spec where t: "t = Some spec" "length (sourceFiles c) < MAX_SOURCES" by auto
        have "pending (l\<lparr>bTableSpecValid := False\<rparr>) (c\<lparr>coReader := r, sourceFiles := sourceFiles c @ [d], coServer := sv\<rparr>) None q v"
          for sv using now by (simp add: pending_def)
        note IH = IH [OF _ this]
        show ?thesis
          unfolding run using IH t now CT_SOURCE
          by (simp add: here applnSource_def) (simp add: comp_defs onServer_def zoomM_def split: outcome.splits)
      qed
    next
      case CT_QUERY
      have "pending (l\<lparr>bQueryValid := True\<rparr>) (c\<lparr>coReader := r, queryBuf := d\<rparr>) t (Some d) v"
        using now by (simp add: pending_def)
      from IH [OF _ this] show ?thesis
        using CT_QUERY by (simp add: here applnQuery_def) (simp add: comp_defs split: outcome.splits)
    next
      case CT_DEST
      show ?thesis
      proof (cases "q = None \<or> length (outputFiles c) \<ge> MAX_OUTPUT")
        case True
        then show ?thesis unfolding run using now CT_DEST
          by (auto simp: here applnDest_def comp_defs split: option.splits)
      next
        case False
        then obtain spec where q: "q = Some spec" "length (outputFiles c) < MAX_OUTPUT" by auto
        have "pending (l\<lparr>loQueryId := Some i, bQueryValid := False\<rparr>)
            (c\<lparr>coReader := r, outputFiles := outputFiles c @ [d], coServer := sv\<rparr>) t None v"
          for i sv using now by (simp add: pending_def)
        note IH = IH [OF _ this]
        show ?thesis
          unfolding run using IH q now CT_DEST
          by (simp add: here applnDest_def) (simp add: comp_defs onServer_def zoomM_def split: outcome.splits)
      qed
    next
      case CT_QCLASS
      have "pending l (c\<lparr>coReader := r, coServer := sv\<rparr>) t q v" for sv using now by (simp add: pending_def)
      note IH = IH [OF _ this]
      show ?thesis
        unfolding run using IH CT_QCLASS
        by (simp add: here applnClass_def) (simp add: comp_defs onServer_def zoomM_def split: outcome.splits)
    next
      case CT_VQUERY
      have "pending (l\<lparr>loQueryId := Some i, bQueryIdValid := True\<rparr>) (c\<lparr>coReader := r, coServer := sv\<rparr>) t q True" for i sv
        using now by (simp add: pending_def)
      note IH = IH [OF _ this]
      show ?thesis
        unfolding run using IH CT_VQUERY
        by (simp add: here applnVQuery_def) (simp add: comp_defs onServer_def zoomM_def split: outcome.splits)
    next
      case CT_VTABLE
      have "pending (l\<lparr>bQueryIdValid := False\<rparr>) (c\<lparr>coReader := r, coServer := sv\<rparr>) t q False" for sv
        using now by (simp add: pending_def)
      note IH = IH [OF _ this]
      show ?thesis
        unfolding run using IH CT_VTABLE now
        by (cases v; cases "loQueryId l"; simp add: here applnVTable_def)
          (simp_all add: comp_defs onServer_def zoomM_def split: outcome.splits)
    qed
  qed
qed

text \<open>C32: What becomes of any script whose lines fit into the line buffer, in order or not: the server ends as
  if it had been called for the tables, queries, views and classes that its lines complete,
  in order, up to the first line that is out of order, and then for \<open>endAppSpecification\<close>
  exactly if the script is orderly, that is, if every line that is neither empty nor a comment has a command, every source
  follows a table of its own, every destination a query and every view table a view query, none
  of these is left over, the texts fit into the buffers and there are not too many sources and
  outputs; the loader fails if it is not.  A view is made of the query that was registered last,
  whether by \<open>vquery\<close> or by \<open>dest\<close>.\<close>
theorem any_script:
  assumes "\<forall>l\<in>set (lines_of script). length l < LINE_BUFFER_SIZE"
  shows "serverEnd (register_appln derive mem buf (Some script) c) =
    seqM (runCommand derive (CMD_BEGIN mem buf))
    (seqM (performCalls derive None (calls None None False 0 0 (entries 1 (lines_of script))))
      (if orderly False False False 0 0 (entries 1 (lines_of script)) then runCommand derive CMD_END else failM (- 1)))
    (coServer c)"
proof -
  let ?tail = "seqM (onServer endAppSpecification) (bindM (onServer svGetPlan) (\<lambda>p. modM (\<lambda>c. c\<lparr>regOps := p\<rparr>)))"
  let ?es = "entries 1 (lines_of script)"
  let ?c = "\<lambda>sv. c\<lparr>coReader := openScript (Some script), coServer := sv, outputFiles := [], sourceFiles := []\<rparr>"
  have tail: "serverEnd (?tail c') = runCommand derive CMD_END (coServer c')" for c'
    using register_appln_tail [of c' derive] by blast
  have "length ?es \<le> length (lines_of script)"
    using length_filter_le [of "\<lambda>(i, l). \<not> ignored l" "enumerate 1 (map cstring (lines_of script))"]
    by (simp add: entries_def command_lines_def)
  then have fuel: "length ?es < length (rdInput (openScript (Some script))) + 2"
    using lines_of_length [of script] by (simp add: openScript_def)
  have "pending start_locals (?c sv) None None False" for sv by (simp add: pending_def start_locals_def)
  note loop = applnLoop_calls [where k = ?tail and K = "runCommand derive CMD_END", OF _ _ fuel this tail, of 0 "lines_of script", where derive = derive]
  have "serverEnd (bindM (applnLoop derive (length (rdInput (openScript (Some script))) + 2) start_locals) (finished ?tail) (?c sv)) =
      seqM (performCalls derive None (calls None None False 0 0 ?es))
        (if orderly False False False 0 0 ?es then runCommand derive CMD_END else failM (- 1)) sv" for sv
    using loop reading_start [OF assms] by (simp add: start_locals_def del: runCommand.simps)
  then show ?thesis
    unfolding register_appln_split [of derive mem buf "Some script" c]
    by (cases "beginAppSpecification mem buf (coServer c)") (simp_all add: seqM_def bindM_def del: applnLoop.simps)
qed

text \<open>A table without a source is not registered.  A query with a destination between the two lines of a view
  takes the place of the query of the view.\<close>

definition mixed_script :: string where
  "mixed_script = ''table : S'' @ [NEWLINE] @ ''source: s.dat'' @ [NEWLINE] @ ''vquery : Q'' @ [NEWLINE] @
     ''query : P'' @ [NEWLINE] @ ''dest : p.out'' @ [NEWLINE] @ ''vtable : V'' @ [NEWLINE]"

definition broken_script :: string where
  "broken_script = ''table : S'' @ [NEWLINE] @ ''query : P'' @ [NEWLINE] @ ''vquery : Q'' @ [NEWLINE] @
     ''vtable : V'' @ [NEWLINE] @ ''vtable : W''"

theorem any_script_witness:
  "\<forall>derive mem buf c.
    serverEnd (register_appln derive mem buf (Some mixed_script) c) =
      seqM (beginAppSpecification mem buf)
      (seqM (seqM (registerBaseTable derive (Some ''S'') 0)
         (bindM (registerQuery derive ''Q'' None) (\<lambda>q.
          bindM (registerQuery derive ''P'' (Some 0)) (\<lambda>p.
          seqM (registerView derive p (Some ''V'')) (retM ())))))
       endAppSpecification) (coServer c) \<and>
    serverEnd (register_appln derive mem buf (Some broken_script) c) =
      seqM (beginAppSpecification mem buf)
      (seqM (bindM (registerQuery derive ''Q'' None) (\<lambda>q. seqM (registerView derive q (Some ''V'')) (retM ())))
       (failM (- 1))) (coServer c)"
proof (intro allI conjI)
  fix derive mem buf c
  have l: "lines_of mixed_script = [''table : S'', ''source: s.dat'', ''vquery : Q'', ''query : P'', ''dest : p.out'', ''vtable : V'', []]"
    by code_simp
  have "entries 1 (lines_of mixed_script) = [Some (CT_TABLE, ''S''), Some (CT_SOURCE, ''s.dat''), Some (CT_VQUERY, ''Q''),
      Some (CT_QUERY, ''P''), Some (CT_DEST, ''p.out''), Some (CT_VTABLE, ''V'')]"
    unfolding l by code_simp
  moreover have "\<forall>x\<in>set (lines_of mixed_script). length x < LINE_BUFFER_SIZE"
    unfolding l by (simp add: LINE_BUFFER_SIZE_def)
  note any_script [OF this, of derive mem buf c]
  ultimately show "serverEnd (register_appln derive mem buf (Some mixed_script) c) =
      seqM (beginAppSpecification mem buf)
      (seqM (seqM (registerBaseTable derive (Some ''S'') 0)
         (bindM (registerQuery derive ''Q'' None) (\<lambda>q.
          bindM (registerQuery derive ''P'' (Some 0)) (\<lambda>p.
          seqM (registerView derive p (Some ''V'')) (retM ())))))
       endAppSpecification) (coServer c)"
    by (simp add: orderly_simps MAX_TABLE_SPEC_def MAX_SOURCES_def MAX_QUERY_def MAX_OUTPUT_def derefM_def del: One_nat_def)
next
  fix derive mem buf c
  have l: "lines_of broken_script = [''table : S'', ''query : P'', ''vquery : Q'', ''vtable : V'', ''vtable : W'']"
    by code_simp
  have "entries 1 (lines_of broken_script) = [Some (CT_TABLE, ''S''), Some (CT_QUERY, ''P''), Some (CT_VQUERY, ''Q''),
      Some (CT_VTABLE, ''V''), Some (CT_VTABLE, ''W'')]"
    unfolding l by code_simp
  moreover have "\<forall>x\<in>set (lines_of broken_script). length x < LINE_BUFFER_SIZE"
    unfolding l by (simp add: LINE_BUFFER_SIZE_def)
  note any_script [OF this, of derive mem buf c]
  ultimately show "serverEnd (register_appln derive mem buf (Some broken_script) c) =
      seqM (beginAppSpecification mem buf)
      (seqM (bindM (registerQuery derive ''Q'' None) (\<lambda>q. seqM (registerView derive q (Some ''V'')) (retM ())))
       (failM (- 1))) (coServer c)"
    by (simp add: orderly_simps MAX_TABLE_SPEC_def MAX_QUERY_def derefM_def del: One_nat_def)
qed

end
