(* ===== verification/Load_Manager.thy ===== *)
theory Load_Manager
  imports Decimal_Text
begin

text \<open>
  \<open>src/node_info.cc\<close> and \<open>src/load_manager.cpp\<close>: what the coordinator knows of the nodes that
  execute the query network, and its decisions to migrate queries between them.

  Messages arrive in a byte buffer of fixed size; a pointer into the buffer is the rest of the buffer
  from there on.  The functions of the C library on strings are undefined on memory that has no NUL.
  The arithmetic of the type \<open>double\<close> is a parameter: the value of a numeral, the conversion to
  \<open>int\<close> (\<open>None\<close> when the value does not fit, which is undefined), the operations and the comparison.
  All methods of the load manager hold its mutex from beginning to end: each is one atomic step.
\<close>

record 'd arith =
  fpNumeral :: "string \<Rightarrow> 'd"
  fpInt :: "'d \<Rightarrow> int option"
  fpAdd :: "'d \<Rightarrow> 'd \<Rightarrow> 'd"
  fpSub :: "'d \<Rightarrow> 'd \<Rightarrow> 'd"
  fpMul :: "'d \<Rightarrow> 'd \<Rightarrow> 'd"
  fpLess :: "'d \<Rightarrow> 'd \<Rightarrow> bool"

section \<open>Numbers in messages\<close>

definition isxdigit :: "char \<Rightarrow> bool" where
  "isxdigit c \<longleftrightarrow> isdigit c \<or> c \<in> set ''abcdefABCDEF''"

definition is_word_char :: "char \<Rightarrow> bool" where
  "is_word_char c \<longleftrightarrow> isalpha c \<or> isdigit c \<or> c = CHR ''_''"

definition run_len :: "(char \<Rightarrow> bool) \<Rightarrow> string \<Rightarrow> nat" where
  "run_len P s = length (takeWhile P s)"

text \<open>An exponent counts only with at least one digit.\<close>

definition exponent_len :: "string \<Rightarrow> string \<Rightarrow> nat" where
  "exponent_len letters s =
    (if s \<noteq> [] \<and> hd s \<in> set letters then
       let n = sign_len (tl s); d = run_len isdigit (drop n (tl s)) in if d = 0 then 0 else 1 + n + d
     else 0)"

definition mantissa_len :: "(char \<Rightarrow> bool) \<Rightarrow> string \<Rightarrow> nat" where
  "mantissa_len P s =
    (let n = run_len P s; r = drop n s in
     if r \<noteq> [] \<and> hd r = CHR ''.'' then
       let m = run_len P (tl r) in if n + m = 0 then 0 else n + 1 + m
     else n)"

definition floating_len :: "(char \<Rightarrow> bool) \<Rightarrow> string \<Rightarrow> string \<Rightarrow> nat" where
  "floating_len P letters s =
    (let k = mantissa_len P s in if k = 0 then 0 else k + exponent_len letters (drop k s))"

definition has_word :: "string \<Rightarrow> string \<Rightarrow> bool" where
  "has_word w s \<longleftrightarrow> map lower_char (take (length w) s) = w"

text \<open>The subject sequence of \<open>strtod\<close> after white space and sign.\<close>

definition number_len :: "string \<Rightarrow> nat" where
  "number_len s =
    (if has_word ''infinity'' s then 8
     else if has_word ''inf'' s then 3
     else if has_word ''nan'' s then
       let n = run_len is_word_char (drop 4 s) in
       if take 1 (drop 3 s) = ''('' \<and> take 1 (drop (4 + n) s) = '')'' then 5 + n else 3
     else if has_word ''0x'' s \<and> floating_len isxdigit ''pP'' (drop 2 s) > 0 then
       2 + floating_len isxdigit ''pP'' (drop 2 s)
     else floating_len isdigit ''eE'' s)"

text \<open>The value and the end pointer.\<close>

definition strtod :: "'d arith \<Rightarrow> string \<Rightarrow> 'd \<times> string" where
  "strtod A s =
    (let t = dropWhile isspace s; n = sign_len t; k = number_len (drop n t) in
     if k = 0 then (fpNumeral A ''0'', s) else (fpNumeral A (take (n + k) t), drop (n + k) t))"

definition terminated :: "string \<Rightarrow> bool" where
  "terminated s \<longleftrightarrow> NUL \<in> set s"

lemma run_len_le: "run_len P s \<le> length s"
  by (simp add: run_len_def length_takeWhile_le)

lemma strtod_length: "length (snd (strtod A s)) \<le> length s"
  by (simp add: strtod_def Let_def le_diff_conv trans_le_add1 length_dropWhile_le)

section \<open>Nodes\<close>

record 'd query_info =
  qiQueryID :: int
  qiQueryLoad :: 'd

record 'd node_info =
  number_of_classes :: int
  capacities :: "'d list"
  capacity_usages :: "'d list"
  local_priorities :: "'d list"
  activeQueries :: "'d query_info list"
  isReady :: bool
  nodeID :: int
  listeningPort :: int

definition newNodeInfo :: "'d arith \<Rightarrow> int \<Rightarrow> 'd node_info" where
  "newNodeInfo A n =
    (let zeros = replicate (nat n) (fpNumeral A ''0.0'') in
     \<lparr>number_of_classes = n, capacities = zeros, capacity_usages = zeros, local_priorities = zeros,
      activeQueries = [], isReady = False, nodeID = 0, listeningPort = 0\<rparr>)"

definition set_capacity :: "int \<Rightarrow> 'd \<Rightarrow> ('d node_info, unit) comp" where
  "set_capacity class_id x =
    bindM (readM number_of_classes) (\<lambda>n.
    if class_id < 0 \<or> class_id > n then failM (- 1)
    else
      bindM (readM (length \<circ> capacities)) (\<lambda>k.
      seqM (ensureM (nat class_id < k))
      (modM (\<lambda>s. s\<lparr>capacities := (capacities s)[nat class_id := x]\<rparr>))))"

definition set_capacity_usage :: "int \<Rightarrow> 'd \<Rightarrow> ('d node_info, unit) comp" where
  "set_capacity_usage class_id x =
    bindM (readM number_of_classes) (\<lambda>n.
    if class_id < 0 \<or> class_id > n then failM (- 1)
    else
      bindM (readM (length \<circ> capacity_usages)) (\<lambda>k.
      seqM (ensureM (nat class_id < k))
      (modM (\<lambda>s. s\<lparr>capacity_usages := (capacity_usages s)[nat class_id := x]\<rparr>))))"

definition set_local_priority :: "int \<Rightarrow> 'd \<Rightarrow> ('d node_info, unit) comp" where
  "set_local_priority class_id x =
    bindM (readM number_of_classes) (\<lambda>n.
    if class_id < 0 \<or> class_id > n then failM (- 1)
    else
      bindM (readM (length \<circ> local_priorities)) (\<lambda>k.
      seqM (ensureM (nat class_id < k))
      (modM (\<lambda>s. s\<lparr>local_priorities := (local_priorities s)[nat class_id := x]\<rparr>))))"

text \<open>The moving average with \<open>aging_factor\<close> 0.2.\<close>

definition aged :: "'d arith \<Rightarrow> 'd \<Rightarrow> 'd \<Rightarrow> 'd" where
  "aged A old new =
    (if fpLess A old (fpNumeral A ''0.01'') then new
     else fpAdd A (fpMul A old (fpSub A (fpNumeral A ''1'') (fpNumeral A ''0.2'')))
       (fpMul A (fpNumeral A ''0.2'') new))"

text \<open>One round of the three loops over the classes: a number, the character after it, an assignment.\<close>

definition takeDouble :: "'d arith \<Rightarrow> ('d \<Rightarrow> ('d node_info, unit) comp) \<Rightarrow> string \<Rightarrow> ('d node_info, string) comp" where
  "takeDouble A assign msg =
    seqM (ensureM (terminated msg))
    (case strtod A msg of (x, p) \<Rightarrow> seqM (assign x) (retM (tl p)))"

definition takeCapacity :: "'d arith \<Rightarrow> string \<Rightarrow> nat \<Rightarrow> ('d node_info, string) comp" where
  "takeCapacity A msg i =
    takeDouble A (\<lambda>x.
      bindM (readM capacities) (\<lambda>xs. bindM (nthM xs i) (\<lambda>old.
      modM (\<lambda>s. s\<lparr>capacities := xs[i := aged A old x]\<rparr>)))) msg"

definition takeUsage :: "'d arith \<Rightarrow> string \<Rightarrow> nat \<Rightarrow> ('d node_info, string) comp" where
  "takeUsage A msg i =
    takeDouble A (\<lambda>x.
      bindM (readM capacity_usages) (\<lambda>xs. bindM (nthM xs i) (\<lambda>old.
      modM (\<lambda>s. s\<lparr>capacity_usages := xs[i := aged A old x]\<rparr>)))) msg"

definition takePriority :: "'d arith \<Rightarrow> string \<Rightarrow> nat \<Rightarrow> ('d node_info, string) comp" where
  "takePriority A msg i =
    takeDouble A (\<lambda>x.
      bindM (readM local_priorities) (\<lambda>xs. bindM (nthM xs i) (\<lambda>_.
      modM (\<lambda>s. s\<lparr>local_priorities := xs[i := x]\<rparr>)))) msg"

definition takeClasses :: "'d arith \<Rightarrow> string \<Rightarrow> ('d node_info, string) comp" where
  "takeClasses A msg =
    bindM (readM number_of_classes) (\<lambda>n.
    bindM (foldM (takeCapacity A) msg [0 ..< nat n]) (\<lambda>msg.
    bindM (foldM (takeUsage A) msg [0 ..< nat n]) (\<lambda>msg.
    foldM (takePriority A) msg [0 ..< nat n])))"

fun add_load :: "'d arith \<Rightarrow> int \<Rightarrow> 'd \<Rightarrow> 'd query_info list \<Rightarrow> 'd query_info list" where
  "add_load A qid load [] = [\<lparr>qiQueryID = qid, qiQueryLoad = load\<rparr>]"
| "add_load A qid load (q # qs) =
    (if qiQueryID q = qid then q\<lparr>qiQueryLoad := aged A (qiQueryLoad q) load\<rparr> # qs
     else q # add_load A qid load qs)"

text \<open>
  The loop over the active queries: it ends, because every round moves on by two characters at
  least, but nothing stops it at the end of the string or of the buffer.
\<close>

function takeQueries :: "'d arith \<Rightarrow> string \<Rightarrow> ('d node_info, unit) comp" where
  "takeQueries A msg =
    (if \<not> terminated msg then undefM
     else if cstring msg = ''E'' then retM ()
     else
       case strtol msg of (qid, p) \<Rightarrow>
       if \<not> terminated (tl p) then undefM
       else
         case strtod A (tl p) of (load, p') \<Rightarrow>
         seqM (modM (\<lambda>s. s\<lparr>activeQueries := add_load A (int_of_long qid) load (activeQueries s)\<rparr>))
         (takeQueries A (tl p')))"
  by auto

termination
proof (relation "measure (length \<circ> snd)", simp, goal_cases)
  case (1 A msg qid p load p')
  have "length p \<le> length msg" using strtol_length [of msg] 1(3) by (metis snd_conv)
  moreover have "length p' \<le> length (tl p)" using strtod_length [of A "tl p"] 1(5) by (metis snd_conv)
  moreover have "tl p \<noteq> []" using 1(4) by (auto simp: terminated_def)
  ultimately show ?case by (cases p; cases p') (auto simp: Suc_le_eq)
qed

definition updateLoadInfo :: "'d arith \<Rightarrow> string \<Rightarrow> ('d node_info, unit) comp" where
  "updateLoadInfo A msg =
    seqM (ensureM (terminated msg \<and> CHR '','' \<in> set (cstring msg)))
    (case strtod A (tl (dropWhile (\<lambda>c. c \<noteq> CHR '','') msg)) of (x, p) \<Rightarrow>
     bindM (derefM (fpInt A x)) (\<lambda>msgType.
     bindM (if msgType = 0 \<or> msgType = 1 then takeClasses A (tl p) else retM (tl p)) (\<lambda>msg.
     whenM (msgType = 0 \<or> msgType = 2) (takeQueries A msg))))"

definition updateListeningPortNo :: "'d arith \<Rightarrow> string \<Rightarrow> ('d node_info, unit) comp" where
  "updateListeningPortNo A msg =
    seqM (ensureM (terminated msg \<and> CHR '','' \<in> set (cstring msg)))
    (case strtod A (tl (dropWhile (\<lambda>c. c \<noteq> CHR '','') msg)) of (x, p) \<Rightarrow>
     bindM (derefM (fpInt A x)) (\<lambda>port.
     modM (\<lambda>s. s\<lparr>listeningPort := port\<rparr>)))"

definition update :: "'d arith \<Rightarrow> string \<Rightarrow> ('d node_info, unit) comp" where
  "update A msg =
    (if strncmp_eq msg ''NI'' 2 then updateLoadInfo A msg
     else if strncmp_eq msg ''P'' 1 then updateListeningPortNo A msg
     else failM (- 1))"

definition getTotalCapacityUsage :: "'d arith \<Rightarrow> 'd node_info \<Rightarrow> 'd" where
  "getTotalCapacityUsage A node = foldl (fpAdd A) (fpNumeral A ''0'') (take (nat (number_of_classes node)) (capacity_usages node))"

section \<open>The load manager\<close>

record 'd load_manager =
  nodes :: "'d node_info list"
  num_of_classes :: int

definition newLoadManager :: "int \<Rightarrow> 'd load_manager" where
  "newLoadManager n = \<lparr>nodes = [], num_of_classes = n\<rparr>"

definition find_node :: "int \<Rightarrow> 'd load_manager \<Rightarrow> nat option" where
  "find_node node_id m = find_first (\<lambda>x. nodeID x = node_id) (nodes m)"

definition addNode :: "'d arith \<Rightarrow> int \<Rightarrow> ('d load_manager, unit) comp" where
  "addNode A node_id =
    bindM (readM (find_node node_id)) (\<lambda>i.
    if i \<noteq> None then failM (- 1)
    else modM (\<lambda>m. m\<lparr>nodes := nodes m @ [(newNodeInfo A (num_of_classes m))\<lparr>nodeID := node_id\<rparr>]\<rparr>))"

definition removeNode :: "int \<Rightarrow> ('d load_manager, unit) comp" where
  "removeNode node_id =
    bindM (readM (find_node node_id)) (\<lambda>i.
    case i of
      None \<Rightarrow> failM (- 1)
    | Some i \<Rightarrow> modM (\<lambda>m. m\<lparr>nodes := take i (nodes m) @ drop (Suc i) (nodes m)\<rparr>))"

definition updateNodeInfo :: "'d arith \<Rightarrow> int \<Rightarrow> string \<Rightarrow> ('d load_manager, unit) comp" where
  "updateNodeInfo A node_id msg =
    bindM (readM (find_node node_id)) (\<lambda>i.
    case i of
      None \<Rightarrow> failM (- 1)
    | Some i \<Rightarrow>
        (\<lambda>m. case update A msg (nodes m ! i) of
            Done x n \<Rightarrow> Done () (m\<lparr>nodes := (nodes m)[i := n]\<rparr>)
          | Fail rc n \<Rightarrow> Fail (- 1) (m\<lparr>nodes := (nodes m)[i := n]\<rparr>)
          | Exit k \<Rightarrow> Exit k
          | Undef \<Rightarrow> Undef))"

definition isAllNodesReady :: "'d load_manager \<Rightarrow> bool" where
  "isAllNodesReady m \<longleftrightarrow> list_all isReady (nodes m)"

text \<open>The message that asks a node to move all its queries to another one.\<close>

definition migration_message :: "(int \<Rightarrow> string) \<Rightarrow> 'd node_info \<Rightarrow> 'd node_info \<Rightarrow> string" where
  "migration_message address from to_node =
    ''QM,'' @ address (nodeID to_node) @ '','' @ decimal (listeningPort to_node) @ '','' @
    concat (map (\<lambda>q. decimal (qiQueryID q) @ '','') (activeQueries from)) @ ''E''"

definition extreme :: "'d arith \<Rightarrow> 'd node_info list \<Rightarrow> nat \<times> nat \<Rightarrow> nat \<Rightarrow> nat \<times> nat" where
  "extreme A ns mm it =
    (let load = (\<lambda>i. getTotalCapacityUsage A (ns ! i));
         itMax = (if fpLess A (load (fst mm)) (load it) then it else fst mm);
         itMin = (if fpLess A (load it) (load (snd mm)) then it else snd mm)
     in (itMax, itMin))"

text \<open>\<open>std::map\<close>: pairs in the order of the keys; \<open>insert\<close> keeps an entry that is there.\<close>

fun insert_pair :: "int \<times> string \<Rightarrow> (int \<times> string) list \<Rightarrow> (int \<times> string) list" where
  "insert_pair p [] = [p]"
| "insert_pair p (q # qs) =
    (if fst p < fst q then p # q # qs else if fst p = fst q then q # qs else q # insert_pair p qs)"

text \<open>
  The decision: from the node with the greatest total usage to the one with the least.  The
  iterators are positions; \<open>address\<close> is what \<open>getNodeAddress\<close> learns from the operating system.
\<close>

definition redistributeLoad ::
    "'d arith \<Rightarrow> (int \<Rightarrow> string) \<Rightarrow> (int \<times> string) list \<Rightarrow> ('d load_manager, (int \<times> string) list) comp" where
  "redistributeLoad A address migrationDecision =
    bindM (readM nodes) (\<lambda>ns.
    seqM (ensureM (ns \<noteq> []))
    (case foldl (extreme A ns) (0, 0) [1 ..< length ns] of (itMax, itMin) \<Rightarrow>
     retM
       (if itMax \<noteq> itMin then
          insert_pair (nodeID (ns ! itMax), migration_message address (ns ! itMax) (ns ! itMin)) migrationDecision
        else migrationDecision)))"

end
