(* ===== verification/Clients.thy ===== *)
theory Clients
  imports Load_Manager
begin

text \<open>
  \<open>src/AQSIOSCoordinator.cpp\<close>: the connections to the nodes and the two threads of the coordinator.

  The main thread waits for connections and reports, the other one makes the decisions to migrate
  queries.  They share the load manager and the flag \<open>isUpdateReady\<close>; each critical section is one
  atomic step.  The operating system is modelled by what its calls return: a descriptor that
  \<open>accept\<close> returns is positive and not open yet, \<open>select\<close> reports any set of the descriptors asked for
  (also when it was interrupted, because \<open>EINTR\<close> is ignored), \<open>read\<close> returns a count and fills the
  buffer, of which the part beyond the count has arbitrary contents.  \<open>pthread_cond_wait\<close> may return
  without a signal.
\<close>

definition MAX_NUM_CLIENTS :: nat where "MAX_NUM_CLIENTS = 10"
definition MSG_SIZE :: nat where "MSG_SIZE = 512"

text \<open>Where the main thread stands: in \<open>select\<close>, in \<open>acceptingConn\<close> between the two critical sections, in the
  loop over the sockets, after the loop.\<close>

datatype main_pc =
    M_SELECT
  | M_ADD int "int list" "int set"
  | M_SCAN nat "int list" "int set"
  | M_END

text \<open>And the other thread: waiting, woken with the mutex, asleep before its decision, sending, finished.\<close>

datatype migration_pc = T_WAIT | T_WOKEN | T_SLEEP | T_SEND "(int \<times> string) list" | T_EXIT

record 'd network =
  sockfds :: "int list"
  serverfd :: int
  loadMgr :: "'d load_manager"
  isUpdateReady :: bool
  bStop :: bool
  sendCount :: int                    \<comment> \<open>\<open>count\<close> of \<open>manageMigration\<close>\<close>
  openFds :: "int set"                \<comment> \<open>the descriptors of the process\<close>
  sentMessages :: "(int \<times> string) list"
  mainAt :: main_pc
  migrationAt :: migration_pc

definition insert_fd :: "int \<Rightarrow> int list \<Rightarrow> int list" where
  "insert_fd fd fds = (case find_first (\<lambda>x. x = 0) fds of None \<Rightarrow> fds | Some i \<Rightarrow> fds[i := fd])"

text \<open>\<open>main\<close> up to the creation of the other thread, which starts by waiting.\<close>

definition startNetwork :: "int \<Rightarrow> int \<Rightarrow> 'd network" where
  "startNetwork server classes =
    \<lparr>sockfds = insert_fd server (replicate MAX_NUM_CLIENTS 0), serverfd = server,
     loadMgr = newLoadManager classes, isUpdateReady = False, bStop = False, sendCount = 0,
     openFds = {0, 1, 2, server}, sentMessages = [], mainAt = M_SELECT, migrationAt = T_WAIT\<rparr>"

definition onLoadMgr :: "('d load_manager, 'a) comp \<Rightarrow> ('d network, 'a) comp" where
  "onLoadMgr m = (\<lambda>s. case m (loadMgr s) of
      Done a l \<Rightarrow> Done a (s\<lparr>loadMgr := l\<rparr>)
    | Fail rc l \<Rightarrow> Fail rc (s\<lparr>loadMgr := l\<rparr>)
    | Exit n \<Rightarrow> Exit n
    | Undef \<Rightarrow> Undef)"

text \<open>A call whose status the caller ignores.\<close>

definition ignoreM :: "('s, unit) comp \<Rightarrow> ('s, unit) comp" where
  "ignoreM m = (\<lambda>s. case m s of Fail rc s' \<Rightarrow> Done () s' | r \<Rightarrow> r)"

definition signalUpdate :: "('d network, unit) comp" where
  "signalUpdate = modM (\<lambda>s. s\<lparr>migrationAt := (if migrationAt s = T_WAIT then T_WOKEN else migrationAt s)\<rparr>)"

section \<open>The main thread\<close>

text \<open>The two critical sections of \<open>acceptingConn\<close> after \<open>accept\<close> has returned \<open>fd\<close>.\<close>

definition addSocket :: "int \<Rightarrow> ('d network, unit) comp" where
  "addSocket fd = modM (\<lambda>s. s\<lparr>sockfds := insert_fd fd (sockfds s)\<rparr>)"

definition addClient :: "'d arith \<Rightarrow> int \<Rightarrow> ('d network, unit) comp" where
  "addClient A fd = ignoreM (onLoadMgr (addNode A fd))"

definition acceptingConn :: "'d arith \<Rightarrow> int \<Rightarrow> ('d network, unit) comp" where
  "acceptingConn A newsockfd =
    (if newsockfd < 0 then failM (- 1) else seqM (addSocket newsockfd) (addClient A newsockfd))"

text \<open>\<open>result\<close> is what \<open>read\<close> returns and \<open>msg\<close> the buffer after the call.\<close>

definition handleClientReport :: "'d arith \<Rightarrow> int \<Rightarrow> int \<Rightarrow> string \<Rightarrow> ('d network, unit) comp" where
  "handleClientReport A clientfd result msg =
    (if result = 0 then failM (- 1)
     else
       seqM (ignoreM (onLoadMgr (updateNodeInfo A clientfd msg)))
       (seqM (modM (\<lambda>s. s\<lparr>isUpdateReady := True\<rparr>)) signalUpdate))"

definition closeClient :: "nat \<Rightarrow> int \<Rightarrow> ('d network, unit) comp" where
  "closeClient i fd =
    bindM (readM sockfds) (\<lambda>fds.
    bindM (nthM fds i) (\<lambda>x.
    whenM (x = fd)
      (modM (\<lambda>s. s\<lparr>sockfds := fds[i := 0], openFds := openFds s - {fd}\<rparr>))))"

text \<open>One round of the loop over the sockets, for a socket that is readable.\<close>

definition serveSocket :: "'d arith \<Rightarrow> nat \<Rightarrow> int \<Rightarrow> int \<Rightarrow> string \<Rightarrow> ('d network, unit) comp" where
  "serveSocket A i fd result msg =
    (\<lambda>s. case handleClientReport A fd result msg s of
        Fail rc s' \<Rightarrow> closeClient i fd s'
      | r \<Rightarrow> r)"

definition stopServer :: "('d network, unit) comp" where
  "stopServer = seqM (modM (\<lambda>s. s\<lparr>bStop := True\<rparr>)) signalUpdate"

section \<open>The thread that manages the migration\<close>

definition loopHead :: "('d network, unit) comp" where
  "loopHead = modM (\<lambda>s. s\<lparr>migrationAt := (if bStop s then T_EXIT else T_WAIT)\<rparr>)"

definition afterWait :: "('d network, unit) comp" where
  "afterWait =
    bindM (readM isUpdateReady) (\<lambda>ready.
    if ready then modM (\<lambda>s. s\<lparr>isUpdateReady := False, migrationAt := T_SLEEP\<rparr>) else loopHead)"

definition decide :: "'d arith \<Rightarrow> (int \<Rightarrow> string) \<Rightarrow> ('d network, unit) comp" where
  "decide A address =
    bindM (onLoadMgr (redistributeLoad A address [])) (\<lambda>migrationDecision.
    modM (\<lambda>s. s\<lparr>migrationAt := T_SEND migrationDecision\<rparr>))"

text \<open>Only the first message of all is sent.\<close>

definition sendOne :: "int \<times> string \<Rightarrow> ('d network, unit) comp" where
  "sendOne m =
    bindM (readM sendCount) (\<lambda>count.
    whenM (count = 0) (modM (\<lambda>s. s\<lparr>sendCount := count + 1, sentMessages := sentMessages s @ [m]\<rparr>)))"

definition sendDecision :: "(int \<times> string) list \<Rightarrow> ('d network, unit) comp" where
  "sendDecision ms = seqM (forM ms sendOne) loopHead"

section \<open>Steps\<close>

text \<open>The descriptors that \<open>receivingClientReport\<close> waits for.\<close>

definition watched :: "int list \<Rightarrow> int set" where
  "watched fds = {fd \<in> set fds. fd > 0}"

definition goMain :: "main_pc \<Rightarrow> 'd network \<Rightarrow> 'd network" where
  "goMain pc s = s\<lparr>mainAt := pc\<rparr>"

inductive net_step :: "'d arith \<Rightarrow> (int \<Rightarrow> string) \<Rightarrow> 'd network \<Rightarrow> 'd network \<Rightarrow> bool"
  for A :: "'d arith" and address :: "int \<Rightarrow> string" where
  net_select: "mainAt s = M_SELECT \<Longrightarrow> ready \<subseteq> watched (sockfds s) \<Longrightarrow>
     net_step A address s (goMain (M_SCAN 0 (sockfds s) ready) s)"
| net_select_fails: "mainAt s = M_SELECT \<Longrightarrow> net_step A address s (goMain M_END s)"
| net_accept: "mainAt s = M_SELECT \<Longrightarrow> ready \<subseteq> watched (sockfds s) \<Longrightarrow> serverfd s \<in> ready \<Longrightarrow>
     0 < fd \<Longrightarrow> fd \<notin> openFds s \<Longrightarrow> addSocket fd (s\<lparr>openFds := insert fd (openFds s)\<rparr>) = Done () s' \<Longrightarrow>
     net_step A address s (goMain (M_ADD fd (sockfds s) ready) s')"
| net_add: "mainAt s = M_ADD fd temp ready \<Longrightarrow> addClient A fd s = Done () s' \<Longrightarrow>
     net_step A address s (goMain (M_SCAN 0 temp ready) s')"
| net_skip: "mainAt s = M_SCAN i temp ready \<Longrightarrow> i < MAX_NUM_CLIENTS \<Longrightarrow>
     temp ! i \<notin> ready \<or> temp ! i = serverfd s \<Longrightarrow>
     net_step A address s (goMain (M_SCAN (Suc i) temp ready) s)"
| net_serve: "mainAt s = M_SCAN i temp ready \<Longrightarrow> i < MAX_NUM_CLIENTS \<Longrightarrow>
     temp ! i \<in> ready \<Longrightarrow> temp ! i \<noteq> serverfd s \<Longrightarrow> length msg = MSG_SIZE \<Longrightarrow>
     serveSocket A i (temp ! i) result msg s = Done () s' \<Longrightarrow>
     net_step A address s (goMain (M_SCAN (Suc i) temp ready) s')"
| net_round: "mainAt s = M_SCAN MAX_NUM_CLIENTS temp ready \<Longrightarrow> net_step A address s (goMain M_SELECT s)"
| net_stop: "mainAt s = M_END \<Longrightarrow> stopServer s = Done () s' \<Longrightarrow> net_step A address s s'"
| net_wake: "migrationAt s = T_WAIT \<Longrightarrow> net_step A address s (s\<lparr>migrationAt := T_WOKEN\<rparr>)"
| net_woken: "migrationAt s = T_WOKEN \<Longrightarrow> afterWait s = Done () s' \<Longrightarrow> net_step A address s s'"
| net_decide: "migrationAt s = T_SLEEP \<Longrightarrow> decide A address s = Done () s' \<Longrightarrow> net_step A address s s'"
| net_send: "migrationAt s = T_SEND ms \<Longrightarrow> sendDecision ms s = Done () s' \<Longrightarrow> net_step A address s s'"

inductive_cases net_stepE: "net_step A address s s'"

definition net_reach :: "'d arith \<Rightarrow> (int \<Rightarrow> string) \<Rightarrow> 'd network \<Rightarrow> 'd network \<Rightarrow> bool" where
  "net_reach A address = (net_step A address)\<^sup>*\<^sup>*"

end
