(* ===== verification/Load_Facts.thy ===== *)
theory Load_Facts
  imports Clients P3_Partial
begin

text \<open>
  Facts about nodes and the load manager: no message changes the identifier of a node or the sizes of
  its vectors, the identifiers of the nodes are distinct, the decision is between the extremes of the
  load, and numbers are read back from messages.
\<close>

declare takeQueries.simps [simp del]

section \<open>Nodes\<close>

definition node_ok :: "int \<Rightarrow> 'd node_info \<Rightarrow> bool" where
  "node_ok n x \<longleftrightarrow> number_of_classes x = n \<and> length (capacities x) = nat n \<and>
     length (capacity_usages x) = nat n \<and> length (local_priorities x) = nat n"

definition same_node :: "'d node_info \<Rightarrow> 'd node_info \<Rightarrow> bool" where
  "same_node x y \<longleftrightarrow> nodeID y = nodeID x \<and> number_of_classes y = number_of_classes x \<and>
     length (capacities y) = length (capacities x) \<and> length (capacity_usages y) = length (capacity_usages x) \<and>
     length (local_priorities y) = length (local_priorities x)"

interpretation updating: step_relation same_node
  by unfold_locales (auto simp: same_node_def)

lemma takeX_within [steps]:
  "within same_node (takeCapacity A msg i)" "within same_node (takeUsage A msg i)" "within same_node (takePriority A msg i)"
  by (rule withinI, auto simp: takeCapacity_def takeUsage_def takePriority_def takeDouble_def same_node_def split: prod.splits)+

lemma foldM_within: "(\<And>b x. within same_node (f b x)) \<Longrightarrow> within same_node (foldM f b xs)"
  by (induction xs arbitrary: b) (simp_all add: updating.within_pure updating.within_bindM)

lemma takeQueries_within [steps]: "within same_node (takeQueries A msg)"
proof (induction A msg rule: takeQueries.induct)
  case (1 A msg)
  have m: "within same_node (modM (\<lambda>s. s\<lparr>activeQueries := f s\<rparr>))" for f :: "'a node_info \<Rightarrow> 'a query_info list"
    by (rule withinI) (simp add: same_node_def)
  show ?case
    by (subst takeQueries.simps)
      (auto intro!: updating.within_pure updating.within_seqM m 1 split: prod.splits)
qed

lemma update_within: "within same_node (update A msg)"
proof -
  have p: "within same_node (modM (\<lambda>s. s\<lparr>listeningPort := x\<rparr>))" for x
    by (rule withinI) (simp add: same_node_def)
  show ?thesis
    unfolding update_def updateLoadInfo_def updateListeningPortNo_def takeClasses_def whenM_def
    by (intro updating.within_if updating.within_seqM updating.within_bindM updating.within_prod updating.within_pure
        foldM_within steps p)
qed

lemma same_node_ok: "same_node x y \<Longrightarrow> node_ok n x \<Longrightarrow> node_ok n y"
  by (simp add: same_node_def node_ok_def)

section \<open>The load manager\<close>

abbreviation node_ids :: "'d load_manager \<Rightarrow> int list" where
  "node_ids m \<equiv> map nodeID (nodes m)"

definition mgr_ok :: "'d load_manager \<Rightarrow> bool" where
  "mgr_ok m \<longleftrightarrow> distinct (node_ids m) \<and> list_all (node_ok (num_of_classes m)) (nodes m)"

lemma find_node_None: "find_node fd m = None \<longleftrightarrow> fd \<notin> set (node_ids m)"
  by (auto simp: find_node_def find_first_None)

lemma find_node_Some: "find_node fd m = Some i \<Longrightarrow> i < length (nodes m) \<and> nodeID (nodes m ! i) = fd"
  by (simp add: find_node_def find_first_Some)

lemma newNodeInfo_ok: "node_ok n ((newNodeInfo A n)\<lparr>nodeID := fd\<rparr>)"
  by (simp add: node_ok_def newNodeInfo_def Let_def)

lemma addNode_outcome:
  "addNode A fd m =
    (if fd \<in> set (node_ids m) then Fail (- 1) m
     else Done () (m\<lparr>nodes := nodes m @ [(newNodeInfo A (num_of_classes m))\<lparr>nodeID := fd\<rparr>]\<rparr>))"
  using find_node_None [of fd m] by (cases "find_node fd m") (simp_all add: addNode_def comp_defs)

text \<open>What a report does to the nodes, whatever it says.\<close>

definition reported :: "int \<Rightarrow> 'd load_manager \<Rightarrow> 'd load_manager \<Rightarrow> bool" where
  "reported fd m m' \<longleftrightarrow> num_of_classes m' = num_of_classes m \<and> list_all2 same_node (nodes m) (nodes m') \<and>
     (\<forall>i<length (nodes m). nodeID (nodes m ! i) \<noteq> fd \<longrightarrow> nodes m' ! i = nodes m ! i)"

lemma same_node_refl: "same_node x x" by (rule updating.step_refl)

lemma reported_refl: "reported fd m m"
  by (simp add: reported_def list_all2_same same_node_refl)

lemma updateNodeInfo_reported: "wlp (updateNodeInfo A fd msg) (\<lambda>_. reported fd m) (\<lambda>_. reported fd m) m"
proof (cases "find_node fd m")
  case None
  then show ?thesis by (simp add: updateNodeInfo_def reported_refl)
next
  case (Some i)
  note i = find_node_Some [OF Some]
  have w: "wlp (update A msg) (\<lambda>_. same_node (nodes m ! i)) (\<lambda>_. same_node (nodes m ! i)) (nodes m ! i)"
    by (rule within_wlp [OF update_within])
  have r: "reported fd m (m\<lparr>nodes := (nodes m)[i := n]\<rparr>)" if "same_node (nodes m ! i) n" for n
    using that i by (auto simp: reported_def list_all2_conv_all_nth nth_list_update same_node_refl)
  show ?thesis using w Some r
    by (auto simp: updateNodeInfo_def wlp_def bindM_def readM_def split: outcome.splits)
qed

lemma reported_ids: "reported fd m m' \<Longrightarrow> node_ids m' = node_ids m"
  by (auto simp: reported_def list_all2_conv_all_nth same_node_def intro!: nth_equalityI)

lemma reported_ok:
  assumes "reported fd m m'" and "mgr_ok m"
  shows "mgr_ok m'"
proof -
  have "node_ok (num_of_classes m) (nodes m' ! i)" if "i < length (nodes m')" for i
  proof (rule same_node_ok)
    show "same_node (nodes m ! i) (nodes m' ! i)" "node_ok (num_of_classes m) (nodes m ! i)"
      using assms that by (auto simp: reported_def mgr_ok_def list_all_length list_all2_conv_all_nth)
  qed
  then show ?thesis
    using assms reported_ids [OF assms(1)] by (simp add: mgr_ok_def reported_def list_all_length)
qed

lemma addNode_ok: "mgr_ok m \<Longrightarrow> fd \<notin> set (node_ids m) \<Longrightarrow>
   mgr_ok (m\<lparr>nodes := nodes m @ [(newNodeInfo A (num_of_classes m))\<lparr>nodeID := fd\<rparr>]\<rparr>)"
  using newNodeInfo_ok by (simp add: mgr_ok_def)

lemma node_ids_upd: "node_ids (m\<lparr>nodes := nodes m @ [x\<lparr>nodeID := fd\<rparr>]\<rparr>) = node_ids m @ [fd]"
  by simp

section \<open>The decision\<close>

text \<open>The comparison of the loads is a strict weak order.\<close>

definition loads_ordered :: "'d arith \<Rightarrow> 'd set \<Rightarrow> bool" where
  "loads_ordered A L \<longleftrightarrow> (\<forall>a\<in>L. \<not> fpLess A a a) \<and> (\<forall>a\<in>L. \<forall>b\<in>L. fpLess A a b \<longrightarrow> \<not> fpLess A b a) \<and>
     (\<forall>a\<in>L. \<forall>b\<in>L. \<forall>c\<in>L. \<not> fpLess A a b \<longrightarrow> \<not> fpLess A b c \<longrightarrow> \<not> fpLess A a c)"

lemma extremes_loop:
  fixes A :: "'d arith" and ns :: "'d node_info list"
  defines "load \<equiv> \<lambda>i. getTotalCapacityUsage A (ns ! i)"
  assumes ord: "loads_ordered A (load ` {..<length ns})" and "k < length ns"
    and "foldl (extreme A ns) (0, 0) [1 ..< Suc k] = (x, n)"
  shows "x \<le> k \<and> n \<le> k \<and> (\<forall>j\<le>k. \<not> fpLess A (load x) (load j) \<and> \<not> fpLess A (load j) (load n)) \<and>
    (if x = n then x = 0 else fpLess A (load n) (load x))"
  using assms(3,4)
proof (induction k arbitrary: x n)
  case 0
  then show ?case using ord by (auto simp: loads_ordered_def)
next
  case (Suc k)
  obtain x' n' where xn: "foldl (extreme A ns) (0, 0) [1 ..< Suc k] = (x', n')" by fastforce
  have len: "k < length ns" using Suc.prems(1) by simp
  note ih = Suc.IH [OF len xn]
  have "[1 ..< Suc (Suc k)] = [1 ..< Suc k] @ [Suc k]" by simp
  then have "extreme A ns (x', n') (Suc k) = (x, n)" using Suc.prems(2) xn by simp
  then have e: "x = (if fpLess A (load x') (load (Suc k)) then Suc k else x')"
      "n = (if fpLess A (load (Suc k)) (load n') then Suc k else n')"
    by (auto simp: extreme_def load_def Let_def)
  define lt where "lt i j = fpLess A (load i) (load j)" for i j
  have L: "j \<le> Suc k \<Longrightarrow> load j \<in> load ` {..<length ns}" for j using Suc.prems(1) by simp
  have irr: "\<not> lt i i" and asym: "lt i j \<Longrightarrow> \<not> lt j i" and neg: "\<not> lt i j \<Longrightarrow> \<not> lt j l \<Longrightarrow> \<not> lt i l"
    if "i \<le> Suc k" "j \<le> Suc k" "l \<le> Suc k" for i j l
    using ord L [OF that(1)] L [OF that(2)] L [OF that(3)] unfolding loads_ordered_def lt_def by blast+
  have e': "x = (if lt x' (Suc k) then Suc k else x')" "n = (if lt (Suc k) n' then Suc k else n')"
    using e by (simp_all add: lt_def)
  have ih': "x' \<le> Suc k" "n' \<le> Suc k" "\<And>j. j \<le> k \<Longrightarrow> \<not> lt x' j" "\<And>j. j \<le> k \<Longrightarrow> \<not> lt j n'" "n' \<le> k" "x' \<le> k"
    using ih by (auto simp: lt_def)
  have "\<not> lt x j \<and> \<not> lt j n" if j: "j \<le> Suc k" for j
  proof (cases "j = Suc k")
    case True
    then show ?thesis using e' irr [of "Suc k" 0 0] by simp
  next
    case False
    then have jk: "j \<le> k" using j by simp
    have "\<not> lt (Suc k) j" if "lt x' (Suc k)"
      using neg [of "Suc k" x' j] asym [of x' "Suc k" 0] that ih'(1) ih'(3) [OF jk] j by simp
    moreover have "\<not> lt j (Suc k)" if "lt (Suc k) n'"
      using neg [of j n' "Suc k"] asym [of "Suc k" n' 0] that ih'(2) ih'(4) [OF jk] j by simp
    ultimately show ?thesis using e' ih'(3) [OF jk] ih'(4) [OF jk] by simp
  qed
  moreover have "if x = n then x = 0 else lt n x"
  proof (cases "lt x' (Suc k)")
    case True
    have "\<not> lt (Suc k) n'"
      using neg [of "Suc k" x' n'] asym [of x' "Suc k" 0] True ih'(1,2) ih'(3) [OF ih'(5)] by simp
    moreover have "lt n' (Suc k)"
      using neg [of x' n' "Suc k"] True ih'(1,2) ih'(3) [OF ih'(5)] by auto
    ultimately show ?thesis using e' True ih'(5) by auto
  next
    case False
    have "lt (Suc k) x'" if "lt (Suc k) n'"
      using neg [of "Suc k" x' n'] that ih'(1,2) ih'(3) [OF ih'(5)] by auto
    then show ?thesis using e' False ih ih'(6) by (auto simp: lt_def split: if_splits)
  qed
  ultimately show ?case using e' ih'(5,6) by (auto simp: lt_def)
qed

abbreviation load_of :: "'d arith \<Rightarrow> 'd node_info \<Rightarrow> 'd" where
  "load_of A x \<equiv> getTotalCapacityUsage A x"

lemma redistributeLoad_wp:
  assumes "nodes m \<noteq> []"
  shows "wp (redistributeLoad A address []) (\<lambda>d m'. m' = m \<and>
    (d = [] \<or> (\<exists>from\<in>set (nodes m). \<exists>to_node\<in>set (nodes m).
       d = [(nodeID from, migration_message address from to_node)]))) E m"
proof -
  obtain x n where xn: "foldl (extreme A (nodes m)) (0, 0) [1 ..< length (nodes m)] = (x, n)" by fastforce
  have "fst (foldl (extreme A (nodes m)) (i, j) is) < length (nodes m) \<and>
      snd (foldl (extreme A (nodes m)) (i, j) is) < length (nodes m)"
    if "i < length (nodes m)" "j < length (nodes m)" "\<forall>l\<in>set is. l < length (nodes m)" for i j "is"
    using that by (induction "is" arbitrary: i j) (auto simp: extreme_def Let_def)
  from this [of 0 0 "[1 ..< length (nodes m)]"] have "x < length (nodes m)" "n < length (nodes m)"
    using xn assms by auto
  then have "nodes m ! x \<in> set (nodes m)" "nodes m ! n \<in> set (nodes m)" by simp_all
  then show ?thesis using xn assms by (simp add: redistributeLoad_def) blast
qed

end
