(* ===== verification/Load_Report.thy ===== *)
theory Load_Report
  imports Load_Facts
begin

text \<open>
  The texts of the reports: how a node's report of its load reads, and that the scanning of numbers
  and fields takes it apart again.
\<close>

definition field :: "string \<Rightarrow> string" where
  "field x = x @ '',''"

text \<open>A number as \<open>printf\<close> writes it with \<open>%d\<close> or \<open>%0.2f\<close>, without a sign.\<close>

definition plain_number :: "string \<Rightarrow> bool" where
  "plain_number x \<longleftrightarrow>
    (let r = dropWhile isdigit x in
     x \<noteq> [] \<and> isdigit (hd x) \<and> (r = [] \<or> hd r = CHR ''.'' \<and> tl r \<noteq> [] \<and> list_all isdigit (tl r)))"

definition report_text :: "string list \<Rightarrow> string list \<Rightarrow> string list \<Rightarrow> (int \<times> string) list \<Rightarrow> string" where
  "report_text caps usages prios queries =
    ''NI,0,'' @ concat (map field caps) @ concat (map field usages) @ concat (map field prios) @
    concat (map (\<lambda>(q, l). field (decimal q) @ field l) queries) @ ''E''"

section \<open>Numbers\<close>

lemma plain_number_cases:
  assumes "plain_number x"
  obtains i where "x = i" and "i \<noteq> []" and "list_all isdigit i"
  | i f where "x = i @ CHR ''.'' # f" and "i \<noteq> []" and "list_all isdigit i" and "f \<noteq> []" and "list_all isdigit f"
proof -
  let ?i = "takeWhile isdigit x" and ?r = "dropWhile isdigit x"
  have x: "x = ?i @ ?r" by simp
  have i: "?i \<noteq> []" "list_all isdigit ?i"
    using assms by (cases x, auto simp: plain_number_def Let_def list_all_iff dest: set_takeWhileD)
  show thesis
  proof (cases ?r)
    case Nil
    then have "x = ?i" using x by (metis append_Nil2)
    then show ?thesis using that(1) [of ?i] i by blast
  next
    case (Cons c f)
    then have "c = CHR ''.''" "f \<noteq> []" "list_all isdigit f" using assms by (auto simp: plain_number_def Let_def)
    then show ?thesis using that(2) [of ?i f] x i Cons by metis
  qed
qed

lemma number_len_digit:
  assumes "isdigit c" and "s \<noteq> [] \<Longrightarrow> lower_char (hd s) \<noteq> CHR ''x''"
  shows "number_len (c # s) = floating_len isdigit ''eE'' (c # s)"
  using assms digit_chars [OF assms(1)]
  by (cases s) (auto simp: number_len_def has_word_def)

lemma strtod_plain:
  assumes "plain_number x"
  shows "strtod A (x @ CHR '','' # rest) = (fpNumeral A x, CHR '','' # rest)"
proof -
  have nd: "\<not> isdigit (CHR '','')" "\<not> isdigit (CHR ''.'')" by (simp_all add: isdigit_def)
  obtain c y where c: "x = c # y" "isdigit c" "y \<noteq> [] \<Longrightarrow> isdigit (hd y) \<or> hd y = CHR ''.''"
  proof -
    from assms have "x \<noteq> [] \<and> isdigit (hd x) \<and> (tl x \<noteq> [] \<longrightarrow> isdigit (hd (tl x)) \<or> hd (tl x) = CHR ''.'')"
    proof (cases rule: plain_number_cases)
      case (1 i)
      then show ?thesis by (cases i; cases "tl i") auto
    next
      case (2 i f)
      then show ?thesis by (cases i; cases "tl i") auto
    qed
    then show thesis using that [of "hd x" "tl x"] by simp
  qed
  have "floating_len isdigit ''eE'' (x @ CHR '','' # rest) = length x"
    using assms
  proof (cases rule: plain_number_cases)
    case (1 i)
    then show ?thesis
      by (simp add: floating_len_def mantissa_len_def run_len_def takeWhile_stop [where P = isdigit, OF _ nd(1)] exponent_len_def Let_def)
  next
    case (2 i f)
    have "takeWhile isdigit (x @ CHR '','' # rest) = i" using takeWhile_stop [OF 2(3) nd(2)] 2(1) by simp
    moreover have "takeWhile isdigit (f @ CHR '','' # rest) = f" by (rule takeWhile_stop [OF 2(5) nd(1)])
    ultimately show ?thesis using 2
      by (simp add: floating_len_def mantissa_len_def run_len_def exponent_len_def Let_def)
  qed
  moreover have "lower_char (hd (y @ CHR '','' # rest)) \<noteq> CHR ''x''"
    using c(3) digit_chars [of "hd y"] by (cases y) (auto simp: lower_char_def)
  ultimately have "number_len (x @ CHR '','' # rest) = length x"
    using number_len_digit [OF c(2), of "y @ CHR '','' # rest"] c(1) by simp
  then show ?thesis using c(1) digit_chars [OF c(2)] by (simp add: strtod_def sign_len_def Let_def)
qed

section \<open>Fields\<close>

text \<open>
  The three loops over the classes do the same to different vectors of a node.  The locale states
  what they need: reading and writing the vector.
\<close>

locale node_vector =
  fixes get :: "'d node_info \<Rightarrow> 'd list" and put :: "'d list \<Rightarrow> 'd node_info \<Rightarrow> 'd node_info"
    and new :: "'d \<Rightarrow> 'd \<Rightarrow> 'd" and A :: "'d arith" and step :: "string \<Rightarrow> nat \<Rightarrow> ('d node_info, string) comp"
  assumes get_put: "get (put xs s) = xs" and put_put: "put ys (put xs s) = put ys s" and put_get: "put (get s) s = s"
    and step: "step msg i = takeDouble A (\<lambda>x. bindM (readM get) (\<lambda>xs. bindM (nthM xs i) (\<lambda>old.
      modM (put (xs[i := new old x]))))) msg"
begin

lemma one_field:
  assumes "plain_number x" and "terminated rest" and "i < length (get s)"
  shows "step (field x @ rest) i s = Done rest (put ((get s)[i := new (get s ! i) (fpNumeral A x)]) s)"
proof -
  have "terminated (x @ CHR '','' # rest)" using assms(2) by (simp add: terminated_def)
  then show ?thesis using assms(3) by (simp add: step field_def takeDouble_def strtod_plain [OF assms(1)] comp_defs)
qed

lemma all_fields:
  assumes "list_all plain_number xs" and "terminated rest" and "length pre + length xs = length (get s)"
    and "take (length pre) (get s) = pre"
  shows "foldM step (concat (map field xs) @ rest) [length pre ..< length (get s)] s =
    Done rest (put (pre @ map2 (\<lambda>old x. new old (fpNumeral A x)) (drop (length pre) (get s)) xs) s)"
  using assms
proof (induction xs arbitrary: s pre)
  case Nil
  then have "get s = pre" by simp
  then show ?case using put_get [of s] by (simp add: retM_def)
next
  case (Cons x xs)
  let ?i = "length pre"
  let ?v = "new (get s ! ?i) (fpNumeral A x)"
  let ?s = "put ((get s)[?i := ?v]) s"
  have i: "?i < length (get s)" using Cons.prems(3) by simp
  have t: "terminated (concat (map field xs) @ rest)" using Cons.prems(2) by (simp add: terminated_def)
  have one: "step (field x @ concat (map field xs) @ rest) ?i s = Done (concat (map field xs) @ rest) ?s"
    by (rule one_field [OF _ t i]) (use Cons.prems(1) in simp)
  have l: "length (get ?s) = length (get s)" by (simp add: get_put)
  have p: "take (length (pre @ [?v])) (get ?s) = pre @ [?v]"
    using i Cons.prems(4) by (simp add: get_put take_Suc_conv_app_nth)
  have ih: "foldM step (concat (map field xs) @ rest) [length (pre @ [?v]) ..< length (get ?s)] ?s =
      Done rest (put ((pre @ [?v]) @ map2 (\<lambda>old x. new old (fpNumeral A x)) (drop (length (pre @ [?v])) (get ?s)) xs) ?s)"
    by (rule Cons.IH) (use Cons.prems l p in \<open>simp_all\<close>)
  have d: "drop ?i (get s) = get s ! ?i # drop (Suc ?i) (get s)" using i by (simp add: Cons_nth_drop_Suc)
  have u: "[?i ..< length (get s)] = ?i # [Suc ?i ..< length (get s)]" using i by (rule upt_conv_Cons)
  show ?case
    using one ih by (simp add: u d get_put put_put bindM_def del: upt_Suc)
qed

end

interpretation capacity_vector: node_vector capacities "\<lambda>xs s. s\<lparr>capacities := xs\<rparr>" "aged A" A "takeCapacity A" for A
  by unfold_locales (simp_all add: takeCapacity_def)

interpretation usage_vector: node_vector capacity_usages "\<lambda>xs s. s\<lparr>capacity_usages := xs\<rparr>" "aged A" A "takeUsage A" for A
  by unfold_locales (simp_all add: takeUsage_def)

interpretation priority_vector: node_vector local_priorities "\<lambda>xs s. s\<lparr>local_priorities := xs\<rparr>" "\<lambda>_ x. x" A "takePriority A" for A
  by unfold_locales (simp_all add: takePriority_def)

definition aged_by :: "'d arith \<Rightarrow> 'd list \<Rightarrow> string list \<Rightarrow> 'd list" where
  "aged_by A old xs = map2 (\<lambda>o' x. aged A o' (fpNumeral A x)) old xs"

lemma takeClasses_fields:
  assumes "node_ok n s" and "length caps = nat n" and "length usages = nat n" and "length prios = nat n"
    and "list_all plain_number (caps @ usages @ prios)" and "terminated rest"
  shows "takeClasses A (concat (map field caps) @ concat (map field usages) @ concat (map field prios) @ rest) s =
    Done rest (s\<lparr>capacities := aged_by A (capacities s) caps, capacity_usages := aged_by A (capacity_usages s) usages,
      local_priorities := map (fpNumeral A) prios\<rparr>)"
proof -
  have n: "number_of_classes s = n" "length (capacities s) = nat n" "length (capacity_usages s) = nat n"
      "length (local_priorities s) = nat n"
    using assms(1) by (simp_all add: node_ok_def)
  have t: "terminated (xs @ rest)" for xs using assms(6) by (simp add: terminated_def)
  have t2: "terminated (xs @ ys @ rest)" for xs ys using assms(6) by (simp add: terminated_def)
  let ?s1 = "s\<lparr>capacities := aged_by A (capacities s) caps\<rparr>"
  let ?s2 = "?s1\<lparr>capacity_usages := aged_by A (capacity_usages s) usages\<rparr>"
  have 1: "foldM (takeCapacity A) (concat (map field caps) @ concat (map field usages) @ concat (map field prios) @ rest)
      [0 ..< nat n] s = Done (concat (map field usages) @ concat (map field prios) @ rest) ?s1"
    using capacity_vector.all_fields [of caps "concat (map field usages) @ concat (map field prios) @ rest" "[]" s A] assms n t2
    by (simp add: aged_by_def)
  have 2: "foldM (takeUsage A) (concat (map field usages) @ concat (map field prios) @ rest) [0 ..< nat n] ?s1 =
      Done (concat (map field prios) @ rest) ?s2"
    using usage_vector.all_fields [of usages "concat (map field prios) @ rest" "[]" ?s1 A] assms n t
    by (simp add: aged_by_def)
  have m: "map2 (\<lambda>_. fpNumeral A) (local_priorities s) prios = map (fpNumeral A) prios"
    using assms(4) n(4) by (intro nth_equalityI) auto
  have 3: "foldM (takePriority A) (concat (map field prios) @ rest) [0 ..< nat n] ?s2 =
      Done rest (?s2\<lparr>local_priorities := map (fpNumeral A) prios\<rparr>)"
    using priority_vector.all_fields [of prios rest "[]" ?s2 A] assms n m by simp
  show ?thesis using 1 2 3 n by (simp add: takeClasses_def bindM_def readM_def)
qed

lemma takeQueries_fields:
  assumes "\<forall>(q, l)\<in>set qs. - (2 ^ 31) \<le> q \<and> q < 2 ^ 31 \<and> plain_number l"
  shows "takeQueries A (concat (map (\<lambda>(q, l). field (decimal q) @ field l) qs) @ ''E'' @ NUL # rest) s =
    Done () (s\<lparr>activeQueries := fold (\<lambda>(q, l). add_load A q (fpNumeral A l)) qs (activeQueries s)\<rparr>)"
  using assms
proof (induction qs arbitrary: s)
  case Nil
  then show ?case by (subst takeQueries.simps) (simp add: terminated_def cstring_def retM_def NUL_def)
next
  case (Cons p qs)
  obtain q l where p: "p = (q, l)" by fastforce
  let ?rest = "concat (map (\<lambda>(q, l). field (decimal q) @ field l) qs) @ ''E'' @ NUL # rest"
  let ?msg = "decimal q @ CHR '','' # l @ CHR '','' # ?rest"
  have q: "- (2 ^ 31) \<le> q" "q < 2 ^ 31" "plain_number l" using Cons.prems p by simp_all
  have t: "terminated (xs @ ?rest)" for xs by (simp add: terminated_def)
  have e: "cstring ?msg \<noteq> ''E''"
  proof -
    have "decimal q \<noteq> []" "hd (decimal q) = CHR ''-'' \<or> isdigit (hd (decimal q))"
      using digits_only [of "nat \<bar>q\<bar>"] digits_nonempty [of "nat \<bar>q\<bar>"]
      by (auto simp: decimal_def list_all_iff simp del: digits_nonempty digits_only)
    then obtain c ds where "decimal q = c # ds" "c \<noteq> CHR ''E''" "c \<noteq> NUL"
      using digit_chars by (cases "decimal q") (auto simp: NUL_def)
    then show ?thesis by (simp add: cstring_def)
  qed
  have "takeQueries A ?msg s =
      seqM (modM (\<lambda>s. s\<lparr>activeQueries := add_load A q (fpNumeral A l) (activeQueries s)\<rparr>)) (takeQueries A ?rest) s"
    using e t [of "decimal q @ CHR '','' # l @ '',''"] t [of "l @ '',''"] strtol_decimal [OF q(1,2), of "l @ CHR '','' # ?rest"]
      strtod_plain [OF q(3), of A ?rest] int_of_long_small [OF q(1,2)]
    by (subst takeQueries.simps) simp
  also have "\<dots> = takeQueries A ?rest (s\<lparr>activeQueries := add_load A q (fpNumeral A l) (activeQueries s)\<rparr>)"
    by (simp add: comp_defs)
  finally show ?case using Cons p by (simp add: field_def)
qed

end
