(* ===== verification/Load_Spec.thy ===== *)
theory Load_Spec
  imports Load_Report
begin

text \<open>
  The properties of the load management: the decisions, the reports of the nodes, and the two threads
  of the coordinator.
\<close>

section \<open>The decision\<close>

text \<open>C38: If the loads of the nodes are comparable, the decision moves the queries of a node with the greatest
  total load to one with the least, which is strictly smaller; there is no decision exactly when all
  loads are equal.  With at least one node the computation is defined.\<close>
theorem redistributeLoad_extremes:
  assumes "nodes m \<noteq> []" and "loads_ordered A (load_of A ` set (nodes m))"
  shows "wp (redistributeLoad A address []) (\<lambda>d m'. m' = m \<and>
    (if \<forall>x\<in>set (nodes m). \<forall>y\<in>set (nodes m). \<not> fpLess A (load_of A x) (load_of A y) then d = []
     else \<exists>from\<in>set (nodes m). \<exists>to_node\<in>set (nodes m).
       d = [(nodeID from, migration_message address from to_node)] \<and> fpLess A (load_of A to_node) (load_of A from) \<and>
       (\<forall>x\<in>set (nodes m). \<not> fpLess A (load_of A from) (load_of A x) \<and> \<not> fpLess A (load_of A x) (load_of A to_node)))) E m"
proof -
  obtain k where k: "length (nodes m) = Suc k" using assms(1) by (cases "nodes m") auto
  have im: "(\<lambda>i. load_of A (nodes m ! i)) ` {..<length (nodes m)} = load_of A ` set (nodes m)"
    by (auto simp: set_conv_nth)
  obtain x n where xn: "foldl (extreme A (nodes m)) (0, 0) [1 ..< Suc k] = (x, n)" by fastforce
  have len: "k < length (nodes m)" using k by simp
  have ord: "loads_ordered A ((\<lambda>i. load_of A (nodes m ! i)) ` {..<length (nodes m)})" using assms(2) im by simp
  note ex = extremes_loop [OF ord len xn]
  have mem: "nodes m ! x \<in> set (nodes m)" "nodes m ! n \<in> set (nodes m)" using ex k by auto
  have all: "\<forall>z\<in>set (nodes m). \<not> fpLess A (load_of A (nodes m ! x)) (load_of A z) \<and>
      \<not> fpLess A (load_of A z) (load_of A (nodes m ! n))"
    using ex k by (auto simp: in_set_conv_nth less_Suc_eq_le)
  show ?thesis
  proof (cases "x = n")
    case True
    have "\<not> fpLess A (load_of A a) (load_of A b)" if "a \<in> set (nodes m)" "b \<in> set (nodes m)" for a b
      using assms(2) all that mem True unfolding loads_ordered_def by blast
    then show ?thesis using xn k True assms(1) by (simp add: redistributeLoad_def)
  next
    case False
    then have lt: "fpLess A (load_of A (nodes m ! n)) (load_of A (nodes m ! x))" using ex by simp
    show ?thesis using xn k False assms(1) lt mem all by (auto simp: redistributeLoad_def)
  qed
qed

section \<open>The threads\<close>

text \<open>The state of the network in every interleaving of the two threads and the clients.\<close>

definition clients_known :: "int list \<Rightarrow> 'd network \<Rightarrow> bool" where
  "clients_known fds s \<longleftrightarrow> (\<forall>fd\<in>set fds. fd = 0 \<or> fd = serverfd s \<or> fd \<in> set (node_ids (loadMgr s)))"

definition scan_ok :: "int list \<Rightarrow> int set \<Rightarrow> 'd network \<Rightarrow> bool" where
  "scan_ok temp ready s \<longleftrightarrow> length temp = MAX_NUM_CLIENTS \<and> ready \<subseteq> watched temp \<and> clients_known temp s"

definition main_ok :: "'d network \<Rightarrow> bool" where
  "main_ok s = (case mainAt s of
      M_SELECT \<Rightarrow> clients_known (sockfds s) s
    | M_ADD fd temp ready \<Rightarrow> scan_ok temp ready s \<and> clients_known (filter (\<lambda>x. x \<noteq> fd) (sockfds s)) s
    | M_SCAN i temp ready \<Rightarrow> scan_ok temp ready s \<and> i \<le> MAX_NUM_CLIENTS \<and> clients_known (sockfds s) s
    | M_END \<Rightarrow> True)"

definition fds_ok :: "'d network \<Rightarrow> bool" where
  "fds_ok s \<longleftrightarrow> length (sockfds s) = MAX_NUM_CLIENTS \<and> 
     (\<forall>i<MAX_NUM_CLIENTS. \<forall>j<MAX_NUM_CLIENTS. sockfds s ! i = sockfds s ! j \<longrightarrow> i = j \<or> sockfds s ! i = 0) \<and>
     {0, serverfd s} \<union> set (sockfds s) \<subseteq> openFds s"

definition thread_ok :: "'d network \<Rightarrow> bool" where
  "thread_ok s \<longleftrightarrow> (isUpdateReady s \<or> migrationAt s = T_SLEEP \<longrightarrow> nodes (loadMgr s) \<noteq> []) \<and>
     (\<forall>ms. migrationAt s = T_SEND ms \<longrightarrow> fst ` set ms \<subseteq> set (node_ids (loadMgr s))) \<and>
     fst ` set (sentMessages s) \<subseteq> set (node_ids (loadMgr s)) \<and>
     length (sentMessages s) \<le> 1 \<and> sendCount s = int (length (sentMessages s))"

definition net_inv :: "'d network \<Rightarrow> bool" where
  "net_inv s \<longleftrightarrow> mgr_ok (loadMgr s) \<and> fds_ok s \<and> main_ok s \<and> thread_ok s"

lemma insert_fd_cases:
  obtains "insert_fd fd fds = fds" | i where "i < length fds" and "fds ! i = 0" and "insert_fd fd fds = fds[i := fd]"
  by (cases "find_first (\<lambda>x. x = 0) fds") (auto simp: insert_fd_def find_first_Some)

lemma insert_fd_set: "set (insert_fd fd fds) \<subseteq> insert fd (set fds)"
  by (rule insert_fd_cases [of fd fds]) (use set_update_subset_insert in fastforce)+

lemma insert_fd_length [simp]: "length (insert_fd fd fds) = length fds"
  by (simp add: insert_fd_def split: option.splits)

lemma start_inv:
  assumes "0 < server"
  shows "net_inv (startNetwork server classes)"
proof -
  have i: "insert_fd server (replicate MAX_NUM_CLIENTS 0) = server # replicate 9 0"
    by (simp add: insert_fd_def MAX_NUM_CLIENTS_def numeral_eq_Suc)
  show ?thesis
    unfolding net_inv_def startNetwork_def i
    by (auto simp: mgr_ok_def newLoadManager_def fds_ok_def main_ok_def clients_known_def
        thread_ok_def MAX_NUM_CLIENTS_def nth_Cons split: nat.splits)
qed

text \<open>The parts of the invariant carry over to states with at least the same nodes.\<close>

lemma inv_grows:
  assumes "set (node_ids (loadMgr s)) \<subseteq> set (node_ids (loadMgr s'))" and "serverfd s' = serverfd s"
  shows "clients_known fds s \<Longrightarrow> clients_known fds s'" and "scan_ok temp ready s \<Longrightarrow> scan_ok temp ready s'"
proof -
  show known: "clients_known fds s \<Longrightarrow> clients_known fds s'" for fds
    using assms unfolding clients_known_def by (metis subsetD)
  show "scan_ok temp ready s \<Longrightarrow> scan_ok temp ready s'"
    using known by (simp add: scan_ok_def)
qed

lemma inv_same:
  "sockfds s' = sockfds s \<Longrightarrow> serverfd s' = serverfd s \<Longrightarrow> openFds s' = openFds s \<Longrightarrow> fds_ok s' = fds_ok s"
  "loadMgr s' = loadMgr s \<Longrightarrow> serverfd s' = serverfd s \<Longrightarrow> clients_known fds s' = clients_known fds s"
  "loadMgr s' = loadMgr s \<Longrightarrow> serverfd s' = serverfd s \<Longrightarrow> scan_ok temp ready s' = scan_ok temp ready s"
  by (simp_all add: fds_ok_def clients_known_def scan_ok_def)

section \<open>The effects of the handlers\<close>

lemma serveSocket_effect:
  assumes "serveSocket A i fd result msg s = Done () s'"
  obtains m' where "reported fd (loadMgr s) m'"
      and "s' = s\<lparr>loadMgr := m', isUpdateReady := True, migrationAt := if migrationAt s = T_WAIT then T_WOKEN else migrationAt s\<rparr>"
  | "i < length (sockfds s)" and "sockfds s ! i \<noteq> fd" and "s' = s"
  | "i < length (sockfds s)" and "sockfds s ! i = fd"
    and "s' = s\<lparr>sockfds := (sockfds s)[i := 0], openFds := openFds s - {fd}\<rparr>"
proof (cases "result = 0")
  case True
  then show ?thesis using assms that(2,3)
    by (auto simp: serveSocket_def handleClientReport_def closeClient_def comp_defs split: if_splits)
next
  case False
  have "wlp (updateNodeInfo A fd msg) (\<lambda>_. reported fd (loadMgr s)) (\<lambda>_. reported fd (loadMgr s)) (loadMgr s)"
    by (rule updateNodeInfo_reported)
  then show ?thesis using assms False that(1)
    by (auto simp: serveSocket_def handleClientReport_def ignoreM_def onLoadMgr_def signalUpdate_def wlp_def comp_defs
        split: outcome.splits)
qed

lemma addClient_effect:
  "addClient A fd s = Done () (if fd \<in> set (node_ids (loadMgr s)) then s
     else s\<lparr>loadMgr := (loadMgr s)\<lparr>nodes := nodes (loadMgr s) @
       [(newNodeInfo A (num_of_classes (loadMgr s)))\<lparr>nodeID := fd\<rparr>]\<rparr>\<rparr>)"
  by (simp add: addClient_def ignoreM_def onLoadMgr_def addNode_outcome)

lemma addSocket_effect: "addSocket fd s = Done () (s\<lparr>sockfds := insert_fd fd (sockfds s)\<rparr>)"
  by (simp add: addSocket_def modM_def)

lemma stopServer_effect:
  "stopServer s = Done () (s\<lparr>bStop := True, migrationAt := if migrationAt s = T_WAIT then T_WOKEN else migrationAt s\<rparr>)"
  by (simp add: stopServer_def signalUpdate_def comp_defs)

lemma afterWait_effect:
  "afterWait s = Done () (if isUpdateReady s then s\<lparr>isUpdateReady := False, migrationAt := T_SLEEP\<rparr>
     else s\<lparr>migrationAt := if bStop s then T_EXIT else T_WAIT\<rparr>)"
  by (simp add: afterWait_def loopHead_def comp_defs)

lemma decide_effect:
  assumes "nodes (loadMgr s) \<noteq> []"
  obtains ms where "decide A address s = Done () (s\<lparr>migrationAt := T_SEND ms\<rparr>)"
    and "fst ` set ms \<subseteq> set (node_ids (loadMgr s))"
proof -
  obtain d m' where "redistributeLoad A address [] (loadMgr s) = Done d m'" "m' = loadMgr s"
      "fst ` set d \<subseteq> set (node_ids (loadMgr s))"
    using wp_success [OF redistributeLoad_wp [OF assms, of A address "\<lambda>_ _. False"]] by force
  then show thesis using that by (simp add: decide_def onLoadMgr_def comp_defs)
qed

lemma sendDecision_effect:
  assumes "sendCount s = int (length (sentMessages s))"
  shows "sendDecision ms s =
    (let out = (if sentMessages s = [] then take 1 ms else []) in
     Done () (s\<lparr>sendCount := sendCount s + int (length out), sentMessages := sentMessages s @ out,
       migrationAt := if bStop s then T_EXIT else T_WAIT\<rparr>))"
proof -
  have later: "sendCount s \<noteq> 0 \<Longrightarrow> forM ms sendOne s = Done () s" for s :: "'b network" and ms
    by (induction ms) (simp_all add: sendOne_def comp_defs)
  show ?thesis
  proof (cases "sentMessages s = [] \<and> ms \<noteq> []")
    case True
    then obtain m ms' where ms: "ms = m # ms'" by (cases ms) auto
    let ?s = "s\<lparr>sendCount := 1, sentMessages := sentMessages s @ [m]\<rparr>"
    have "sendOne m s = Done () ?s" using True assms by (simp add: sendOne_def comp_defs)
    then have "forM ms sendOne s = Done () ?s" using later [of ?s ms'] ms by (simp add: comp_defs)
    then show ?thesis using True ms assms by (simp add: sendDecision_def loopHead_def comp_defs)
  next
    case False
    then have "forM ms sendOne s = Done () s" using later [of s ms] assms by (cases ms) (auto simp: comp_defs)
    moreover have "(if sentMessages s = [] then take 1 ms else []) = []" using False by auto
    ultimately show ?thesis by (simp add: sendDecision_def loopHead_def comp_defs)
  qed
qed

section \<open>The invariant\<close>

lemma closed_fds_ok:
  assumes "fds_ok s" and "i < MAX_NUM_CLIENTS" and "sockfds s ! i = fd" and "fd \<noteq> 0" and "fd \<noteq> serverfd s"
  shows "fds_ok (s\<lparr>sockfds := (sockfds s)[i := 0], openFds := openFds s - {fd}\<rparr>)"
proof -
  have "fd \<notin> set ((sockfds s)[i := 0])"
    using assms by (auto simp: fds_ok_def in_set_conv_nth nth_list_update split: if_splits)
  moreover have "set ((sockfds s)[i := 0]) \<subseteq> insert 0 (set (sockfds s))" by (rule set_update_subset_insert)
  ultimately show ?thesis
    using assms by (auto simp: fds_ok_def nth_list_update)
qed

lemma opened_fds_ok:
  assumes "fds_ok s" and "0 < fd" and "fd \<notin> openFds s"
  shows "fds_ok (s\<lparr>openFds := insert fd (openFds s), sockfds := insert_fd fd (sockfds s)\<rparr>)"
proof (rule insert_fd_cases [of fd "sockfds s"])
  assume "insert_fd fd (sockfds s) = sockfds s"
  then show ?thesis using assms by (auto simp: fds_ok_def)
next
  fix i assume i: "i < length (sockfds s)" "sockfds s ! i = 0" "insert_fd fd (sockfds s) = (sockfds s)[i := fd]"
  have "fd \<notin> set (sockfds s)" using assms by (auto simp: fds_ok_def)
  then have "sockfds s ! j \<noteq> fd" if "j < MAX_NUM_CLIENTS" for j
    using that assms(1) by (auto simp: fds_ok_def)
  moreover have "set ((sockfds s)[i := fd]) \<subseteq> insert fd (set (sockfds s))" by (rule set_update_subset_insert)
  ultimately show ?thesis
    using assms i by (auto simp: fds_ok_def nth_list_update)
qed

lemma clients_known_sub: "clients_known fds s \<Longrightarrow> set fds' \<subseteq> insert 0 (set fds) \<Longrightarrow> clients_known fds' s"
  unfolding clients_known_def by blast

lemma main_ok_grows:
  assumes "main_ok s" and "set (node_ids (loadMgr s)) \<subseteq> set (node_ids (loadMgr s'))" and "serverfd s' = serverfd s"
    and "sockfds s' = sockfds s" and "mainAt s' = mainAt s"
  shows "main_ok s'"
  using assms inv_grows [OF assms(2,3)] by (auto simp: main_ok_def split: main_pc.splits)

lemma inv_thread:
  assumes "net_inv s" and "r \<or> p = T_SLEEP \<Longrightarrow> isUpdateReady s \<or> migrationAt s = T_SLEEP"
    and "\<And>ms. p = T_SEND ms \<Longrightarrow> migrationAt s = T_SEND ms"
  shows "net_inv (s\<lparr>isUpdateReady := r, bStop := b, migrationAt := p\<rparr>)"
proof -
  let ?s = "s\<lparr>isUpdateReady := r, bStop := b, migrationAt := p\<rparr>"
  have "main_ok ?s" by (rule main_ok_grows [of s]) (use assms(1) in \<open>simp_all add: net_inv_def\<close>)
  moreover have "thread_ok ?s" using assms by (auto simp: net_inv_def thread_ok_def)
  ultimately show ?thesis using assms(1) by (simp add: net_inv_def fds_ok_def)
qed

lemma net_step_inv:
  assumes "net_step A address s s'" and "net_inv s"
  shows "net_inv s'"
  using assms(1)
proof (cases rule: net_step.cases)
  case (net_select ready)
  then show ?thesis using assms(2)
    by (auto simp: net_inv_def goMain_def inv_same main_ok_def scan_ok_def thread_ok_def fds_ok_def clients_known_def)
next
  case net_select_fails
  then show ?thesis using assms(2)
    by (auto simp: net_inv_def goMain_def main_ok_def thread_ok_def fds_ok_def)
next
  case (net_accept ready fd t)
  let ?t = "s\<lparr>openFds := insert fd (openFds s), sockfds := insert_fd fd (sockfds s)\<rparr>"
  have t: "s' = goMain (M_ADD fd (sockfds s) ready) ?t"
    using net_accept(1,7) by (simp add: addSocket_effect)
  have "fds_ok ?t" by (rule opened_fds_ok) (use assms(2) net_accept in \<open>simp_all add: net_inv_def\<close>)
  then have f: "fds_ok s'" using t by (simp add: goMain_def fds_ok_def)
  have k: "clients_known (sockfds s) s" using assms(2) net_accept(2) by (simp add: net_inv_def main_ok_def)
  have "clients_known (filter (\<lambda>x. x \<noteq> fd) (insert_fd fd (sockfds s))) s"
    by (rule clients_known_sub [OF k]) (use insert_fd_set in fastforce)
  then show ?thesis using assms(2) f k net_accept(3) t
    by (auto simp: net_inv_def goMain_def main_ok_def scan_ok_def thread_ok_def clients_known_def fds_ok_def)
next
  case (net_add fd temp ready t)
  then have t: "s' = goMain (M_SCAN 0 temp ready) (if fd \<in> set (node_ids (loadMgr s)) then s
     else s\<lparr>loadMgr := (loadMgr s)\<lparr>nodes := nodes (loadMgr s) @
       [(newNodeInfo A (num_of_classes (loadMgr s)))\<lparr>nodeID := fd\<rparr>]\<rparr>\<rparr>)"
    by (simp add: addClient_effect)
  have m: "main_ok s" "mgr_ok (loadMgr s)" "fds_ok s" "thread_ok s" using assms(2) by (simp_all add: net_inv_def)
  have ids: "set (node_ids (loadMgr s')) = insert fd (set (node_ids (loadMgr s)))" "serverfd s' = serverfd s"
      "sockfds s' = sockfds s"
    using t by (auto simp: goMain_def)
  have "clients_known (sockfds s) s'"
    using m(1) net_add(2) ids unfolding main_ok_def clients_known_def by auto
  moreover have "scan_ok temp ready s'"
    by (rule inv_grows) (use m(1) net_add(2) ids in \<open>auto simp: main_ok_def\<close>)
  ultimately have "main_ok s'" using t ids(3) by (simp add: main_ok_def goMain_def)
  moreover have "mgr_ok (loadMgr s')" using t addNode_ok [OF m(2)] m(2) by (simp add: goMain_def)
  moreover have "thread_ok s'" using t m(4) by (auto simp: thread_ok_def goMain_def)
  ultimately show ?thesis using m(3) t by (simp add: net_inv_def fds_ok_def goMain_def)
next
  case (net_skip i temp ready)
  then show ?thesis using assms(2)
    by (auto simp: net_inv_def goMain_def main_ok_def scan_ok_def thread_ok_def fds_ok_def clients_known_def)
next
  case (net_serve i temp ready msg result t)
  have m: "main_ok s" "mgr_ok (loadMgr s)" "fds_ok s" "thread_ok s" using assms(2) by (simp_all add: net_inv_def)
  have sc: "scan_ok temp ready s" "clients_known (sockfds s) s" using m(1) net_serve(2) by (simp_all add: main_ok_def)
  then have "temp ! i \<in> watched temp" "clients_known temp s" using net_serve(4) by (auto simp: scan_ok_def)
  then have fd: "0 < temp ! i" "temp ! i \<in> set (node_ids (loadMgr s))"
    using net_serve(5) by (auto simp: watched_def clients_known_def)
  have i: "Suc i \<le> MAX_NUM_CLIENTS" using net_serve(3) by simp
  from net_serve(7) show ?thesis
  proof (cases rule: serveSocket_effect)
    case (1 m')
    have ids: "set (node_ids (loadMgr t)) = set (node_ids (loadMgr s))" using 1 by (simp add: reported_ids)
    have "nodes m' \<noteq> []" using reported_ids [OF 1(1)] fd(2) by auto
    then have "thread_ok t" using m(4) 1(2) reported_ids [OF 1(1)] by (auto simp: thread_ok_def)
    moreover have "scan_ok temp ready t" "clients_known (sockfds s) t"
      using inv_grows [of s t] sc ids 1(2) by simp_all
    ultimately show ?thesis
      using net_serve(1) m 1(2) reported_ok [OF 1(1)] i
      by (simp add: net_inv_def goMain_def main_ok_def fds_ok_def thread_ok_def scan_ok_def clients_known_def)
  next
    case 2
    then show ?thesis using net_serve(1) m sc i
      by (simp add: net_inv_def goMain_def main_ok_def fds_ok_def thread_ok_def scan_ok_def clients_known_def)
  next
    case 3
    have "fds_ok t" unfolding 3(3) by (rule closed_fds_ok) (use m 3 net_serve fd in simp_all)
    moreover have "clients_known ((sockfds s)[i := 0]) s"
      by (rule clients_known_sub [OF sc(2)]) (rule set_update_subset_insert)
    ultimately show ?thesis using net_serve(1) m sc i 3(3)
      by (simp add: net_inv_def goMain_def main_ok_def fds_ok_def thread_ok_def scan_ok_def clients_known_def)
  qed
next
  case (net_round temp ready)
  then show ?thesis using assms(2)
    by (auto simp: net_inv_def goMain_def main_ok_def scan_ok_def thread_ok_def fds_ok_def clients_known_def)
next
  case net_stop
  show ?thesis
    using inv_thread [OF assms(2), of "isUpdateReady s" "if migrationAt s = T_WAIT then T_WOKEN else migrationAt s" True] net_stop(2)
    by (simp add: stopServer_effect split: if_splits)
next
  case net_wake
  then show ?thesis using inv_thread [OF assms(2), of "isUpdateReady s" T_WOKEN "bStop s"] by simp
next
  case net_woken
  have "s' = s\<lparr>isUpdateReady := False, bStop := bStop s,
      migrationAt := if isUpdateReady s then T_SLEEP else if bStop s then T_EXIT else T_WAIT\<rparr>"
    using net_woken(2) by (auto simp: afterWait_effect)
  then show ?thesis
    using inv_thread [OF assms(2), of False "if isUpdateReady s then T_SLEEP else if bStop s then T_EXIT else T_WAIT" "bStop s"]
    by (simp split: if_splits)
next
  case net_decide
  have ne: "nodes (loadMgr s) \<noteq> []" using assms(2) net_decide(1) by (simp add: net_inv_def thread_ok_def)
  obtain ms where ms: "s' = s\<lparr>migrationAt := T_SEND ms\<rparr>" "fst ` set ms \<subseteq> set (node_ids (loadMgr s))"
    using decide_effect [OF ne, of A address] net_decide(2) by (metis outcome.inject(1))
  then show ?thesis using assms(2) ne
    by (auto simp: net_inv_def main_ok_def scan_ok_def thread_ok_def fds_ok_def clients_known_def split: main_pc.splits)
next
  case (net_send ms)
  have th: "thread_ok s" using assms(2) by (simp add: net_inv_def)
  then have c: "sendCount s = int (length (sentMessages s))" by (simp add: thread_ok_def)
  define out where "out = (if sentMessages s = [] then take 1 ms else [])"
  have t: "s' = s\<lparr>sendCount := sendCount s + int (length out), sentMessages := sentMessages s @ out,
      migrationAt := if bStop s then T_EXIT else T_WAIT\<rparr>"
    using net_send(2) sendDecision_effect [OF c, of ms] by (simp add: out_def Let_def)
  have "thread_ok s'" using th net_send(1) set_take_subset [of 1 ms] by (auto simp: t thread_ok_def out_def)
  then show ?thesis using assms(2)
    by (auto simp: t net_inv_def main_ok_def scan_ok_def fds_ok_def clients_known_def split: main_pc.splits)
qed

lemma net_reach_inv: "net_reach A address s s' \<Longrightarrow> net_inv s \<Longrightarrow> net_inv s'"
  unfolding net_reach_def by (induction rule: rtranclp_induct) (auto intro: net_step_inv)

text \<open>C35: In every interleaving of the threads and of the clients' doings: the load manager knows every node
  once, with vectors of the right size; no descriptor is filed twice; a client whose socket is read is
  known to the load manager, whose only failure is a message of unknown kind; the decision is computed
  only when there is a node, so it is defined; at most one message is ever sent, and to a known node.\<close>
theorem coordination_safe:
  assumes "0 < server" and "net_reach A address (startNetwork server classes) s"
  shows "mgr_ok (loadMgr s) \<and>
    (\<forall>i<MAX_NUM_CLIENTS. \<forall>j<MAX_NUM_CLIENTS. sockfds s ! i = sockfds s ! j \<longrightarrow> i = j \<or> sockfds s ! i = 0) \<and>
    (\<forall>i temp ready. mainAt s = M_SCAN i temp ready \<longrightarrow> i < MAX_NUM_CLIENTS \<longrightarrow> temp ! i \<in> ready \<longrightarrow>
       temp ! i \<noteq> serverfd s \<longrightarrow> find_node (temp ! i) (loadMgr s) \<noteq> None) \<and>
    (migrationAt s = T_SLEEP \<longrightarrow> wp (decide A address) (\<lambda>_ _. True) (\<lambda>_ _. False) s) \<and>
    length (sentMessages s) \<le> 1 \<and> (\<forall>m\<in>set (sentMessages s). find_node (fst m) (loadMgr s) \<noteq> None)"
proof -
  have inv: "net_inv s" by (rule net_reach_inv [OF assms(2) start_inv [OF assms(1)]])
  have known: "find_node (temp ! i) (loadMgr s) \<noteq> None"
    if "mainAt s = M_SCAN i temp ready" "temp ! i \<in> ready" "temp ! i \<noteq> serverfd s" for i temp ready
  proof -
    have "scan_ok temp ready s" using inv that(1) by (simp add: net_inv_def main_ok_def)
    then have "temp ! i \<in> watched temp" "clients_known temp s" using that(2) by (auto simp: scan_ok_def)
    then show ?thesis using that(3) find_node_None [of "temp ! i" "loadMgr s"] by (auto simp: watched_def clients_known_def)
  qed
  have "wp (decide A address) (\<lambda>_ _. True) (\<lambda>_ _. False) s" if "migrationAt s = T_SLEEP"
  proof -
    have "nodes (loadMgr s) \<noteq> []" using inv that by (simp add: net_inv_def thread_ok_def)
    then show ?thesis by (rule decide_effect [where A = A and address = address]) (rule wp_DoneI, simp_all)
  qed
  moreover have "find_node (fst m) (loadMgr s) \<noteq> None" if "m \<in> set (sentMessages s)" for m
    using inv that find_node_None [of "fst m" "loadMgr s"] unfolding net_inv_def thread_ok_def by blast
  ultimately show ?thesis using inv known by (auto simp: net_inv_def fds_ok_def thread_ok_def)
qed

section \<open>A run\<close>

text \<open>One client has connected with descriptor 4 to a coordinator that listens on descriptor 3.\<close>

definition one_client :: "'d arith \<Rightarrow> int \<Rightarrow> main_pc \<Rightarrow> bool \<Rightarrow> migration_pc \<Rightarrow> 'd network" where
  "one_client A classes pc ready at =
    \<lparr>sockfds = [3, 4, 0, 0, 0, 0, 0, 0, 0, 0], serverfd = 3,
     loadMgr = \<lparr>nodes = [(newNodeInfo A classes)\<lparr>nodeID := 4\<rparr>], num_of_classes = classes\<rparr>, isUpdateReady = ready,
     bStop = False, sendCount = 0, openFds = insert 4 {0, 1, 2, 3}, sentMessages = [], mainAt = pc, migrationAt = at\<rparr>"

lemma net_reach_refl [simp]: "net_reach A address s s"
  by (simp add: net_reach_def)

lemma net_reach_step: "net_step A address s s' \<Longrightarrow> net_reach A address s' s'' \<Longrightarrow> net_reach A address s s''"
  unfolding net_reach_def by (rule converse_rtranclp_into_rtranclp)

lemma net_reach_trans: "net_reach A address s s' \<Longrightarrow> net_reach A address s' s'' \<Longrightarrow> net_reach A address s s''"
  unfolding net_reach_def by (rule rtranclp_trans)

text \<open>Sockets that are not ready are passed over.\<close>

lemma skip_rest:
  assumes "mainAt s = M_SCAN i temp ready" and "i \<le> MAX_NUM_CLIENTS"
    and "\<And>j. i \<le> j \<Longrightarrow> j < MAX_NUM_CLIENTS \<Longrightarrow> temp ! j \<notin> ready \<or> temp ! j = serverfd s"
  shows "net_reach A address s (goMain M_SELECT s)"
  using assms
proof (induction "MAX_NUM_CLIENTS - i" arbitrary: i s)
  case 0
  then have "net_step A address s (goMain M_SELECT s)" by (auto intro: net_round)
  then show ?case by (rule net_reach_step) simp
next
  case (Suc n)
  let ?s = "goMain (M_SCAN (Suc i) temp ready) s"
  have lt: "i < MAX_NUM_CLIENTS" using Suc.hyps(2) by simp
  have "net_step A address s ?s" by (rule net_skip [OF Suc.prems(1) lt]) (use Suc.prems(3) lt in simp)
  moreover have "net_reach A address ?s (goMain M_SELECT ?s)"
  proof (rule Suc.hyps(1))
    show "n = MAX_NUM_CLIENTS - Suc i" "Suc i \<le> MAX_NUM_CLIENTS" using Suc.hyps(2) lt by simp_all
    show "mainAt ?s = M_SCAN (Suc i) temp ready" by (simp add: goMain_def)
    fix j assume "Suc i \<le> j" "j < MAX_NUM_CLIENTS"
    then show "temp ! j \<notin> ready \<or> temp ! j = serverfd ?s" using Suc.prems(3) [of j] by (simp add: goMain_def)
  qed
  moreover have "goMain M_SELECT ?s = goMain M_SELECT s" by (simp add: goMain_def)
  ultimately show ?case using net_reach_step by metis
qed

lemma one_client_connects:
  "net_reach A address (startNetwork 3 classes) (one_client A classes M_SELECT False T_WAIT)"
proof -
  let ?t = "[3, 0, 0, 0, 0, 0, 0, 0, 0, 0] :: int list"
  let ?s0 = "startNetwork 3 classes :: 'a network"
  let ?s1 = "goMain (M_ADD 4 ?t {3}) (?s0\<lparr>openFds := insert 4 {0, 1, 2, 3}, sockfds := [3, 4, 0, 0, 0, 0, 0, 0, 0, 0]\<rparr>)"
  let ?s2 = "one_client A classes (M_SCAN 0 ?t {3}) False T_WAIT"
  have t: "sockfds ?s0 = ?t" by (simp add: startNetwork_def MAX_NUM_CLIENTS_def insert_fd_def numeral_eq_Suc)
  have "net_step A address ?s0 (goMain (M_ADD 4 (sockfds ?s0) {3})
      (?s0\<lparr>openFds := insert 4 (openFds ?s0), sockfds := insert_fd 4 (sockfds ?s0)\<rparr>))"
    by (rule net_accept) (simp_all add: t addSocket_effect, simp_all add: startNetwork_def watched_def)
  then have 1: "net_step A address ?s0 ?s1" unfolding t by (simp add: insert_fd_def startNetwork_def)
  have "?s2 = goMain (M_SCAN 0 ?t {3}) (one_client A classes (M_ADD 4 ?t {3}) False T_WAIT)"
    by (simp add: goMain_def one_client_def)
  moreover have "addClient A 4 ?s1 = Done () (one_client A classes (M_ADD 4 ?t {3}) False T_WAIT)"
    by (simp add: addClient_effect goMain_def one_client_def startNetwork_def newLoadManager_def)
  ultimately have 2: "net_step A address ?s1 ?s2"
    using net_add [of ?s1 4 ?t "{3}" A] by (simp add: goMain_def)
  have "goMain M_SELECT ?s2 = one_client A classes M_SELECT False T_WAIT" by (simp add: goMain_def one_client_def)
  moreover have "net_reach A address ?s2 (goMain M_SELECT ?s2)"
    by (rule skip_rest [of _ 0 ?t "{3}"]) (auto simp: one_client_def nth_Cons MAX_NUM_CLIENTS_def split: nat.splits)
  ultimately show ?thesis using net_reach_step [OF 1 net_reach_step [OF 2]] by simp
qed

lemma one_client_scans:
  "net_reach A address (one_client A classes M_SELECT ready at)
     (one_client A classes (M_SCAN 1 [3, 4, 0, 0, 0, 0, 0, 0, 0, 0] {4}) ready at)"
proof -
  let ?t = "[3, 4, 0, 0, 0, 0, 0, 0, 0, 0] :: int list"
  let ?s0 = "one_client A classes M_SELECT ready at"
  let ?s1 = "one_client A classes (M_SCAN 0 ?t {4}) ready at"
  let ?s2 = "one_client A classes (M_SCAN 1 ?t {4}) ready at"
  have "net_step A address ?s0 (goMain (M_SCAN 0 (sockfds ?s0) {4}) ?s0)"
    by (rule net_select) (simp_all add: one_client_def watched_def)
  then have 1: "net_step A address ?s0 ?s1" by (simp add: goMain_def one_client_def)
  have "net_step A address ?s1 (goMain (M_SCAN (Suc 0) ?t {4}) ?s1)"
    by (rule net_skip) (simp_all add: one_client_def MAX_NUM_CLIENTS_def)
  then have 2: "net_step A address ?s1 ?s2" by (simp add: goMain_def one_client_def)
  show ?thesis by (rule net_reach_step [OF 1 net_reach_step [OF 2 net_reach_refl]])
qed

text \<open>A message of unknown kind counts as an update.\<close>

lemma one_client_reports:
  "net_reach A address (one_client A classes M_SELECT ready at)
     (one_client A classes M_SELECT True (if at = T_WAIT then T_WOKEN else at))"
proof -
  let ?t = "[3, 4, 0, 0, 0, 0, 0, 0, 0, 0] :: int list" and ?msg = "replicate MSG_SIZE NUL"
  let ?s0 = "one_client A classes M_SELECT ready at"
  let ?s2 = "one_client A classes (M_SCAN 1 ?t {4}) ready at"
  let ?s3 = "one_client A classes (M_SCAN 2 ?t {4}) True (if at = T_WAIT then T_WOKEN else at)"
  have "update A ?msg x = Fail (- 1) x" for x
    by (simp add: update_def MSG_SIZE_def NUL_def failM_def numeral_2_eq_2 numeral_eq_Suc)
  then have "serveSocket A 1 4 1 ?msg ?s2 =
      Done () (one_client A classes (M_SCAN 1 ?t {4}) True (if at = T_WAIT then T_WOKEN else at))"
    by (simp add: serveSocket_def handleClientReport_def ignoreM_def onLoadMgr_def updateNodeInfo_def find_node_def
        one_client_def signalUpdate_def comp_defs)
  then have "net_step A address ?s2 (goMain (M_SCAN (Suc 1) ?t {4})
      (one_client A classes (M_SCAN 1 ?t {4}) True (if at = T_WAIT then T_WOKEN else at)))"
    by (intro net_serve [where msg = ?msg]) (simp_all add: one_client_def MAX_NUM_CLIENTS_def)
  then have 3: "net_step A address ?s2 ?s3" by (simp add: goMain_def one_client_def numeral_2_eq_2)
  have "net_reach A address ?s3 (goMain M_SELECT ?s3)"
    by (rule skip_rest [of _ 2 ?t "{4}"])
      (auto simp: one_client_def nth_Cons MAX_NUM_CLIENTS_def split: nat.splits)
  moreover have "goMain M_SELECT ?s3 = one_client A classes M_SELECT True (if at = T_WAIT then T_WOKEN else at)"
    by (simp add: goMain_def one_client_def)
  ultimately show ?thesis using net_reach_trans [OF one_client_scans net_reach_step [OF 3]] by simp
qed

lemma one_client_woken:
  "net_reach A address (one_client A classes M_SELECT True T_WOKEN) (one_client A classes M_SELECT False T_SLEEP)"
proof -
  have "net_step A address (one_client A classes M_SELECT True T_WOKEN) (one_client A classes M_SELECT False T_SLEEP)"
    by (rule net_woken) (simp_all add: one_client_def afterWait_effect)
  then show ?thesis by (rule net_reach_step) simp
qed

lemma one_client_sleeps:
  "net_reach A address (startNetwork 3 classes) (one_client A classes M_SELECT False T_SLEEP)"
proof (rule net_reach_trans)
  show "net_reach A address (startNetwork 3 classes) (one_client A classes M_SELECT True T_WOKEN)"
    using net_reach_trans [OF one_client_connects one_client_reports, of A address classes] by simp
qed (rule one_client_woken)

lemma one_client_decides:
  "net_step A address (one_client A classes M_SELECT ready T_SLEEP) (one_client A classes M_SELECT ready (T_SEND []))"
proof (rule net_decide)
  show "decide A address (one_client A classes M_SELECT ready T_SLEEP) =
      Done () (one_client A classes M_SELECT ready (T_SEND []))"
    by (simp add: decide_def onLoadMgr_def redistributeLoad_def one_client_def comp_defs)
qed (simp add: one_client_def)

theorem coordination_safe_witness:
  "\<forall>(A :: int arith) address.
     find_node 4 (loadMgr (one_client A 2 M_SELECT False T_SLEEP)) \<noteq> None \<and>
     wp (decide A address) (\<lambda>_ _. True) (\<lambda>_ _. False) (one_client A 2 M_SELECT False T_SLEEP)"
proof (intro allI conjI)
  fix A :: "int arith" and address
  show "find_node 4 (loadMgr (one_client A 2 M_SELECT False T_SLEEP)) \<noteq> None"
    by (simp add: one_client_def find_node_def)
  have "0 < (3 :: int)" by simp
  from coordination_safe [OF this one_client_sleeps [of A address 2]]
  show "wp (decide A address) (\<lambda>_ _. True) (\<lambda>_ _. False) (one_client A 2 M_SELECT False T_SLEEP)"
    by (simp add: one_client_def)
qed

text \<open>Steps that wake nobody: no client is served, the server does not stop, and the waiting thread does not
  return from \<open>pthread_cond_wait\<close> without a signal.\<close>

definition serving :: "'d network \<Rightarrow> bool" where
  "serving s = (case mainAt s of
      M_SCAN i temp ready \<Rightarrow> i < MAX_NUM_CLIENTS \<and> temp ! i \<in> ready \<and> temp ! i \<noteq> serverfd s
    | _ \<Rightarrow> False)"

definition quiet_step :: "'d arith \<Rightarrow> (int \<Rightarrow> string) \<Rightarrow> 'd network \<Rightarrow> 'd network \<Rightarrow> bool" where
  "quiet_step A address s s' \<longleftrightarrow> net_step A address s s' \<and> \<not> serving s \<and> mainAt s \<noteq> M_END \<and>
     s' \<noteq> s\<lparr>migrationAt := T_WOKEN\<rparr>"

lemma quiet_step_waits:
  assumes "quiet_step A address s s'" and "migrationAt s = T_WAIT"
  shows "migrationAt s' = T_WAIT \<and> isUpdateReady s' = isUpdateReady s \<and> sentMessages s' = sentMessages s"
proof -
  have st: "net_step A address s s'" using assms(1) by (simp add: quiet_step_def)
  from st show ?thesis
    by (cases rule: net_step.cases)
      (use assms in \<open>auto simp: quiet_step_def serving_def goMain_def addSocket_effect addClient_effect split: if_splits\<close>)
qed

lemma quiet_run_waits:
  assumes "(quiet_step A address)\<^sup>*\<^sup>* s s'" and "migrationAt s = T_WAIT"
  shows "migrationAt s' = T_WAIT \<and> isUpdateReady s' = isUpdateReady s \<and> sentMessages s' = sentMessages s"
  using assms by (induction rule: rtranclp_induct) (auto dest: quiet_step_waits)

text \<open>C40: A report that arrives after the other thread has made its decision and before it waits again is taken
  into the load manager, but no decision looks at it: the thread sends the messages of the decision that
  it has made, and waits although \<open>isUpdateReady\<close> is set; the signal has woken nobody.  It goes on waiting,
  with the flag set and without another message, until another client is served, the server stops or
  the wait returns without a signal.\<close>
theorem update_lost:
  assumes "0 < server" and "net_reach A address (startNetwork server classes) s"
    and "migrationAt s = T_SEND ms" and "\<not> bStop s"
    and "mainAt s = M_SCAN i temp ready" and "serving s" and "length msg = MSG_SIZE" and "result \<noteq> 0"
    and "serveSocket A i (temp ! i) result msg s = Done () t"
  shows "net_step A address s (goMain (M_SCAN (Suc i) temp ready) t) \<and>
    (\<exists>m. ignoreM (updateNodeInfo A (temp ! i) msg) (loadMgr s) = Done () m \<and> loadMgr t = m) \<and>
    (\<exists>s'. net_step A address (goMain (M_SCAN (Suc i) temp ready) t) s' \<and>
      sentMessages s' = sentMessages s @ (if sentMessages s = [] then take 1 ms else []) \<and>
      loadMgr s' = loadMgr t \<and> isUpdateReady s' \<and> migrationAt s' = T_WAIT \<and>
      (\<forall>s''. (quiet_step A address)\<^sup>*\<^sup>* s' s'' \<longrightarrow>
        migrationAt s'' = T_WAIT \<and> isUpdateReady s'' \<and> sentMessages s'' = sentMessages s'))"
proof -
  let ?s1 = "goMain (M_SCAN (Suc i) temp ready) t"
  obtain m where m: "ignoreM (updateNodeInfo A (temp ! i) msg) (loadMgr s) = Done () m"
      and t: "t = s\<lparr>loadMgr := m, isUpdateReady := True\<rparr>"
    using assms(3,8,9) by (auto simp: serveSocket_def handleClientReport_def signalUpdate_def ignoreM_def onLoadMgr_def
        comp_defs closeClient_def split: outcome.splits if_splits)
  have 1: "net_step A address s ?s1"
    using net_serve [OF assms(5), of msg A result t address] assms(6,7,9) by (simp add: serving_def assms(5))
  have "net_inv s" by (rule net_reach_inv [OF assms(2) start_inv [OF assms(1)]])
  then have "sendCount ?s1 = int (length (sentMessages ?s1))" by (simp add: net_inv_def thread_ok_def t goMain_def)
  from sendDecision_effect [OF this, of ms] obtain s' where s': "sendDecision ms ?s1 = Done () s'"
      "sentMessages s' = sentMessages s @ (if sentMessages s = [] then take 1 ms else [])"
      "loadMgr s' = loadMgr t" "isUpdateReady s'" "migrationAt s' = T_WAIT"
    using assms(4) by (simp add: t goMain_def Let_def)
  have "net_step A address ?s1 s'" by (rule net_send [OF _ s'(1)]) (simp add: t goMain_def assms(3))
  moreover have "\<forall>s''. (quiet_step A address)\<^sup>*\<^sup>* s' s'' \<longrightarrow>
      migrationAt s'' = T_WAIT \<and> isUpdateReady s'' \<and> sentMessages s'' = sentMessages s'"
    using quiet_run_waits [OF _ s'(5)] s'(4) by blast
  moreover have "loadMgr t = m" by (simp add: t)
  ultimately show ?thesis using 1 m s'(2-5) by blast
qed

lemma net_step_nodes:
  assumes "net_step A address s s'"
  shows "\<exists>k. node_ids (loadMgr s') = node_ids (loadMgr s) @ k"
  using assms
proof (cases rule: net_step.cases)
  case (net_accept ready fd t)
  then show ?thesis by (auto simp: addSocket_effect goMain_def)
next
  case (net_add fd temp ready t)
  then show ?thesis by (auto simp: addClient_effect goMain_def split: if_splits)
next
  case (net_serve i temp ready msg result t)
  from net_serve(7) show ?thesis
  proof (cases rule: serveSocket_effect)
    case (1 m')
    then show ?thesis using net_serve(1) reported_ids [OF 1(1)] by (simp add: goMain_def)
  qed (use net_serve(1) in \<open>simp_all add: goMain_def\<close>)
next
  case net_decide
  then show ?thesis
    by (auto simp: decide_def onLoadMgr_def redistributeLoad_def comp_defs split: outcome.splits if_splits prod.splits)
next
  case (net_send ms)
  have "wlp (forM ms sendOne) (\<lambda>_ t. loadMgr t = loadMgr s) (\<lambda>_ t. loadMgr t = loadMgr s) u" if "loadMgr u = loadMgr s" for u
    using that by (induction ms arbitrary: u) (auto simp: sendOne_def whenM_def intro: wlp_mono)
  from wlp_DoneD [OF this [OF refl]] show ?thesis
    using net_send(2) by (auto simp: sendDecision_def loopHead_def comp_defs split: outcome.splits)
qed (auto simp: goMain_def stopServer_effect afterWait_effect)

text \<open>C39: A node is never forgotten: whatever the clients and the threads do, the nodes of the load manager
  stay and new ones come after them.  So when a client leaves, its node stays with load and queries and
  may be chosen for a migration, and a client that is given the same descriptor is taken for it.\<close>
theorem nodes_never_leave:
  assumes "net_reach A address s s'"
  shows "(\<exists>k. node_ids (loadMgr s') = node_ids (loadMgr s) @ k) \<and>
    (fd \<in> set (node_ids (loadMgr s)) \<longrightarrow>
       seqM (serveSocket A i fd 0 msg) (acceptingConn A fd) s' = Done () t \<longrightarrow> loadMgr t = loadMgr s')"
proof
  show k: "\<exists>k. node_ids (loadMgr s') = node_ids (loadMgr s) @ k"
    using assms unfolding net_reach_def
  proof (induction rule: rtranclp_induct)
    case base
    then show ?case by simp
  next
    case (step y z)
    then show ?case using net_step_nodes [OF step(2)] by auto
  qed
  have "loadMgr t = loadMgr s'"
    if fd: "fd \<in> set (node_ids (loadMgr s))" and run: "seqM (serveSocket A i fd 0 msg) (acceptingConn A fd) s' = Done () t"
  proof -
    obtain u where u: "serveSocket A i fd 0 msg s' = Done () u" "acceptingConn A fd u = Done () t"
      using run by (auto simp: comp_defs split: outcome.splits)
    have lu: "loadMgr u = loadMgr s'"
      using u(1) by (auto simp: serveSocket_def handleClientReport_def closeClient_def comp_defs split: if_splits)
    have "fd \<in> set (node_ids (loadMgr u))" using fd k lu by (metis Un_iff set_append)
    then show ?thesis using u(2) lu
      by (auto simp: acceptingConn_def addSocket_effect addClient_effect comp_defs split: if_splits)
  qed
  then show "fd \<in> set (node_ids (loadMgr s)) \<longrightarrow>
       seqM (serveSocket A i fd 0 msg) (acceptingConn A fd) s' = Done () t \<longrightarrow> loadMgr t = loadMgr s'"
    by blast
qed

text \<open>A fixed-point arithmetic with two decimals.\<close>

definition cents :: "int arith" where
  "cents = \<lparr>fpNumeral = (\<lambda>x. 100 * digits_value (takeWhile isdigit x) +
       digits_value (take 2 (tl (dropWhile isdigit x) @ ''00''))),
     fpInt = (\<lambda>x. Some (x div 100)), fpAdd = (+), fpSub = (-), fpMul = (\<lambda>x y. x * y div 100), fpLess = (<)\<rparr>"

text \<open>The client reports its port while the thread sends.\<close>

theorem update_lost_witness:
  "\<exists>s t s'. net_reach cents (\<lambda>_. []) (startNetwork 3 1) s \<and> migrationAt s = T_SEND [] \<and>
     serveSocket cents 1 4 5 (''P,7,'' @ replicate (MSG_SIZE - 4) NUL) s = Done () t \<and>
     map listeningPort (nodes (loadMgr s)) = [0] \<and> map listeningPort (nodes (loadMgr t)) = [7] \<and>
     net_reach cents (\<lambda>_. []) s s' \<and> isUpdateReady s' \<and> migrationAt s' = T_WAIT \<and> loadMgr s' = loadMgr t"
proof -
  let ?t = "[3, 4, 0, 0, 0, 0, 0, 0, 0, 0] :: int list" and ?msg = "''P,7,'' @ replicate (MSG_SIZE - 4) NUL"
  let ?s = "one_client cents 1 (M_SCAN 1 ?t {4}) False (T_SEND [])"
  have r: "net_reach cents (\<lambda>_. []) (startNetwork 3 1) ?s"
    by (rule net_reach_trans [OF one_client_sleeps net_reach_step [OF one_client_decides one_client_scans]])
  let ?n = "(newNodeInfo cents 1)\<lparr>nodeID := 4, listeningPort := 7\<rparr>"
  have "plain_number ''7''" by (simp add: plain_number_def isdigit_def)
  from strtod_plain [OF this, of cents "replicate (MSG_SIZE - 4) NUL"]
  have z: "strtod cents (CHR ''7'' # CHR '','' # replicate (MSG_SIZE - 4) NUL) = (700, CHR '','' # replicate (MSG_SIZE - 4) NUL)"
    by (simp add: cents_def digits_value_def isdigit_def)
  have n: "terminated ?msg" "CHR '','' \<in> set (cstring ?msg)" by (simp_all add: terminated_def MSG_SIZE_def cstring_def NUL_def)
  have i: "fpInt cents 700 = Some 7" by (simp add: cents_def)
  have "update cents ?msg ((newNodeInfo cents 1)\<lparr>nodeID := 4\<rparr>) = Done () ?n"
    using n by (simp add: update_def updateListeningPortNo_def z i comp_defs numeral_2_eq_2)
  then obtain t where t: "serveSocket cents 1 (?t ! 1) 5 ?msg ?s = Done () t"
      "map listeningPort (nodes (loadMgr t)) = [7]"
    by (simp add: serveSocket_def handleClientReport_def ignoreM_def onLoadMgr_def updateNodeInfo_def find_node_def
        one_client_def signalUpdate_def comp_defs)
  have srv: "serving ?s" by (simp add: serving_def one_client_def MAX_NUM_CLIENTS_def)
  have k: "(0 :: int) < 3" "migrationAt ?s = T_SEND []" "\<not> bStop ?s" "mainAt ?s = M_SCAN 1 ?t {4}" "length ?msg = MSG_SIZE"
      "(5 :: int) \<noteq> 0" "map listeningPort (nodes (loadMgr ?s)) = [0]"
    by (simp_all add: one_client_def MSG_SIZE_def newNodeInfo_def Let_def)
  from update_lost [OF k(1) r k(2,3,4) srv k(5,6) t(1)] obtain s' where
      "net_step cents (\<lambda>_. []) ?s (goMain (M_SCAN (Suc 1) ?t {4}) t)"
      "net_step cents (\<lambda>_. []) (goMain (M_SCAN (Suc 1) ?t {4}) t) s'"
      "isUpdateReady s'" "migrationAt s' = T_WAIT" "loadMgr s' = loadMgr t"
    by blast
  then show ?thesis using r k(2,7) t net_reach_step [OF _ net_reach_step [OF _ net_reach_refl]] by fastforce
qed

theorem nodes_never_leave_witness:
  "\<exists>t. seqM (serveSocket cents 1 4 0 []) (acceptingConn cents 4) (one_client cents 2 M_SELECT False T_WAIT) = Done () t \<and>
     sockfds t = [3, 4, 0, 0, 0, 0, 0, 0, 0, 0] \<and>
     loadMgr t = loadMgr (one_client cents 2 M_SELECT False T_WAIT)"
proof -
  let ?s = "one_client cents 2 M_SELECT False T_WAIT"
  have fd: "4 \<in> set (node_ids (loadMgr ?s))" by (simp add: one_client_def)
  obtain t where t: "seqM (serveSocket cents 1 4 0 []) (acceptingConn cents 4) ?s = Done () t"
      "sockfds t = [3, 4, 0, 0, 0, 0, 0, 0, 0, 0]"
    by (simp add: serveSocket_def handleClientReport_def closeClient_def acceptingConn_def addSocket_effect addClient_effect
        one_client_def insert_fd_def comp_defs)
  have "net_reach cents (\<lambda>_. []) ?s ?s" by simp
  from nodes_never_leave [OF this, of 4 1 "[]" t] show ?thesis using fd t by blast
qed

section \<open>Reports\<close>

text \<open>C37: A report in the format that the coordinator expects is taken in as it was meant: every class gets its
  capacity and usage aged by the new values and the new priority, and every query its load, aged or as
  it is for a query that was not known.\<close>
theorem report_applied:
  assumes "node_ok n x" and "length caps = nat n" and "length usages = nat n" and "length prios = nat n"
    and "list_all plain_number (caps @ usages @ prios)"
    and "\<forall>(q, l)\<in>set queries. - (2 ^ 31) \<le> q \<and> q < 2 ^ 31 \<and> plain_number l"
    and "fpInt A (fpNumeral A ''0'') = Some 0"
  shows "update A (report_text caps usages prios queries @ NUL # rest) x = Done ()
    (x\<lparr>capacities := aged_by A (capacities x) caps, capacity_usages := aged_by A (capacity_usages x) usages,
       local_priorities := map (fpNumeral A) prios,
       activeQueries := fold (\<lambda>(q, l). add_load A q (fpNumeral A l)) queries (activeQueries x)\<rparr>)"
proof -
  let ?qs = "concat (map (\<lambda>(q, l). field (decimal q) @ field l) queries) @ ''E'' @ NUL # rest"
  let ?cs = "concat (map field caps) @ concat (map field usages) @ concat (map field prios) @ ?qs"
  let ?msg = "report_text caps usages prios queries @ NUL # rest"
  have m: "?msg = ''NI,'' @ ''0'' @ CHR '','' # ?cs" by (simp add: report_text_def)
  have t: "terminated ?qs" by (simp add: terminated_def)
  have "plain_number ''0''" by (simp add: plain_number_def isdigit_def)
  note z = strtod_plain [OF this, of A ?cs]
  have c: "CHR '','' \<in> set (cstring ?msg)" unfolding m by (simp add: cstring_def NUL_def)
  have d: "tl (dropWhile (\<lambda>c. c \<noteq> CHR '','') ?msg) = ''0'' @ CHR '','' # ?cs" unfolding m by simp
  have n: "strncmp_eq ?msg ''NI'' 2" unfolding m by (simp add: numeral_2_eq_2)
  have "terminated ?msg" by (simp add: terminated_def)
  then show ?thesis
    using takeClasses_fields [OF assms(1-5) t, of A] takeQueries_fields [OF assms(6), of A rest] c n
    by (simp add: update_def updateLoadInfo_def d z [simplified] assms(7) comp_defs)
qed

theorem report_applied_witness:
  "\<forall>rest. update cents (''NI,0,5.00,2.50,1,7,1.25,E'' @ NUL # rest) (newNodeInfo cents 1) = Done ()
     ((newNodeInfo cents 1)\<lparr>capacities := [500], capacity_usages := [250], local_priorities := [100],
       activeQueries := [\<lparr>qiQueryID = 7, qiQueryLoad = 125\<rparr>]\<rparr>)"
proof
  fix rest
  let ?q = "[(7, ''1.25'')] :: (int \<times> string) list"
  have p: "list_all plain_number ([''5.00''] @ [''2.50''] @ [''1''])"
      "\<forall>(q, l)\<in>set ?q. - (2 ^ 31) \<le> q \<and> q < 2 ^ 31 \<and> plain_number l"
    by (simp_all add: plain_number_def isdigit_def Let_def)
  have z: "fpInt cents (fpNumeral cents ''0'') = Some 0" by (simp add: cents_def digits_value_def isdigit_def)
  have ok: "node_ok 1 (newNodeInfo cents 1)" by (simp add: node_ok_def newNodeInfo_def Let_def)
  have c: "char_of (55 :: nat) = CHR ''7''" by code_simp
  have r: "report_text [''5.00''] [''2.50''] [''1''] ?q = ''NI,0,5.00,2.50,1,7,1.25,E''"
    by (simp add: report_text_def field_def decimal_def digits.simps c)
  show "update cents (''NI,0,5.00,2.50,1,7,1.25,E'' @ NUL # rest) (newNodeInfo cents 1) = Done ()
     ((newNodeInfo cents 1)\<lparr>capacities := [500], capacity_usages := [250], local_priorities := [100],
       activeQueries := [\<lparr>qiQueryID = 7, qiQueryLoad = 125\<rparr>]\<rparr>)"
    using report_applied [OF ok _ _ _ p z, of rest] unfolding r
    by (simp add: aged_by_def aged_def newNodeInfo_def Let_def cents_def digits_value_def isdigit_def)
qed

theorem redistributeLoad_extremes_witness:
  "wp (redistributeLoad cents (\<lambda>_. ''10.0.0.1'') [])
    (\<lambda>d m'. \<exists>from to_node. d = [(nodeID from, migration_message (\<lambda>_. ''10.0.0.1'') from to_node)] \<and>
      load_of cents to_node < load_of cents from) (\<lambda>_ _. False)
    \<lparr>nodes = [(newNodeInfo cents 1)\<lparr>nodeID := 4\<rparr>, (newNodeInfo cents 1)\<lparr>nodeID := 5, capacity_usages := [250]\<rparr>],
     num_of_classes = 1\<rparr>"
proof -
  let ?m = "\<lparr>nodes = [(newNodeInfo cents 1)\<lparr>nodeID := 4\<rparr>, (newNodeInfo cents 1)\<lparr>nodeID := 5, capacity_usages := [250]\<rparr>],
     num_of_classes = 1\<rparr>"
  have l: "load_of cents (nodes ?m ! 0) = 0" "load_of cents (nodes ?m ! 1) = 250"
    by (simp_all add: getTotalCapacityUsage_def newNodeInfo_def Let_def cents_def digits_value_def isdigit_def)
  have ne: "nodes ?m \<noteq> []" by simp
  have ord: "loads_ordered cents (load_of cents ` set (nodes ?m))"
    by (auto simp: loads_ordered_def cents_def)
  have "\<not> (\<forall>x\<in>set (nodes ?m). \<forall>y\<in>set (nodes ?m). \<not> fpLess cents (load_of cents x) (load_of cents y))"
    using l by (simp add: cents_def)
  note w = redistributeLoad_extremes [OF ne ord, of "\<lambda>_. ''10.0.0.1''" "\<lambda>_ _. False", unfolded if_not_P [OF this]]
  show ?thesis
    by (rule wp_mono [OF w]) (elim conjE bexE, simp only: cents_def arith.simps, blast, assumption)
qed

end
