(* ===== verification/File_Source.thy ===== *)
theory File_Source
  imports Decimal_Text P3_Types
begin

text \<open>
  \<open>src/file_source.cc\<close>: a source of tuples that are lines of a file.

  The first line is the schema; every other line is a tuple, whose attributes are separated by commas
  and are encoded in a buffer of \<open>MAX_TUPLE_SIZE\<close> bytes.  The file stream is modelled by what is left to
  read and its flags; \<open>seekg\<close> to an earlier position is the text from there on, with \<open>eofbit\<close> cleared.
  Integers are stored least significant byte first.  The value of a text as a \<open>float\<close> is the parameter
  \<open>atof\<close>; a \<open>float\<close> is its bit pattern.  \<open>lineBuffer\<close> is kept as the C string that it holds.
\<close>

definition MAX_LINE_SIZE :: nat where "MAX_LINE_SIZE = 1024"
definition MAX_TUPLE_SIZE :: nat where "MAX_TUPLE_SIZE = 256"

record file_source =
  fsInput :: string
  fsEof :: bool
  fsFail :: bool
  fsOpen :: bool
  tupleBuf :: string                \<comment> \<open>\<open>MAX_TUPLE_SIZE\<close> bytes\<close>
  attrTypes :: "ctype list"         \<comment> \<open>\<open>numAttrs\<close> of them are set\<close>
  attrLens :: "int list"            \<comment> \<open>\<open>attrLen\<close>; only the entries of type \<open>CHAR\<close> are meaningful\<close>
  offsets :: "int list"
  tupleLen :: int
  rawDataBuf :: "string list"       \<comment> \<open>the front of the queue first\<close>

text \<open>The constructor opens the file: \<open>None\<close> is a file that cannot be opened; \<open>mem\<close> is the memory of the buffer.\<close>

definition newFileSource :: "string option \<Rightarrow> string \<Rightarrow> file_source" where
  "newFileSource file mem = \<lparr>fsInput = (case file of None \<Rightarrow> [] | Some t \<Rightarrow> t), fsEof = False, fsFail = (file = None),
     fsOpen = (file \<noteq> None), tupleBuf = mem, attrTypes = [], attrLens = [], offsets = [], tupleLen = 0, rawDataBuf = []\<rparr>"

definition fsGood :: "file_source \<Rightarrow> bool" where
  "fsGood s \<longleftrightarrow> \<not> fsEof s \<and> \<not> fsFail s"

text \<open>\<open>input.getline(buf, n)\<close> on a good stream.\<close>

definition fsGetline :: "nat \<Rightarrow> (file_source, string) comp" where
  "fsGetline n =
    bindM (readM (\<lambda>s. take_line (n - 1) (fsInput s))) (\<lambda>(line, rest, eof, full).
    seqM (modM (\<lambda>s. s\<lparr>fsInput := rest, fsEof := eof, fsFail := full \<or> (eof \<and> line = [])\<rparr>))
    (retM (cstring line)))"

section \<open>Schema\<close>

text \<open>One letter of the schema, with the length that follows a \<open>c\<close>; the result is the rest of the text.\<close>

definition addAttr :: "ctype \<Rightarrow> int \<Rightarrow> (file_source, unit) comp" where
  "addAttr ty len = modM (\<lambda>s. s\<lparr>attrTypes := attrTypes s @ [ty], attrLens := attrLens s @ [len]\<rparr>)"

definition parseAttr :: "char \<Rightarrow> string \<Rightarrow> (file_source, string) comp" where
  "parseAttr c ptr =
    (if c = CHR ''i'' then seqM (addAttr T_INT 0) (retM ptr)
     else if c = CHR ''f'' then seqM (addAttr T_FLOAT 0) (retM ptr)
     else if c = CHR ''b'' then seqM (addAttr T_BYTE 0) (retM ptr)
     else if c = CHR ''c'' then
       (case strtol ptr of (v, p) \<Rightarrow>
        let len = int_of_long v in
        if len \<le> 0 then failM (- 1) else seqM (addAttr T_CHAR len) (retM p))
     else failM (- 1))"

text \<open>The loop ends at the end of the text or after \<open>MAX_ATTRS\<close> attributes: \<open>room\<close> is \<open>MAX_ATTRS - numAttrs\<close>.\<close>

primrec parseSchemaLoop :: "nat \<Rightarrow> string \<Rightarrow> (file_source, unit) comp" where
  "parseSchemaLoop 0 ptr = retM ()"
| "parseSchemaLoop (Suc room) ptr =
    (if ptr = [] then retM ()
     else
       bindM (parseAttr (hd ptr) (tl ptr)) (\<lambda>p.
       if p \<noteq> [] \<and> hd p \<noteq> CHR '','' then failM (- 1)
       else parseSchemaLoop room (tl p)))"

definition parseSchema :: "string \<Rightarrow> (file_source, unit) comp" where
  "parseSchema ptr = seqM (modM (\<lambda>s. s\<lparr>attrTypes := [], attrLens := []\<rparr>)) (parseSchemaLoop MAX_ATTRS ptr)"

definition attr_size :: "ctype \<Rightarrow> int \<Rightarrow> int" where
  "attr_size ty len =
    (case ty of T_INT \<Rightarrow> int INT_SIZE | T_FLOAT \<Rightarrow> int FLOAT_SIZE | T_CHAR \<Rightarrow> len | T_BYTE \<Rightarrow> 1)"

text \<open>The sum of the sizes is an \<open>int\<close>.\<close>

definition addOffset :: "int list \<times> int \<Rightarrow> ctype \<times> int \<Rightarrow> ('s, int list \<times> int) comp" where
  "addOffset acc attr =
    (case acc of (offs, offset) \<Rightarrow>
     let offset' = offset + attr_size (fst attr) (snd attr) in
     seqM (ensureM (offset' < 2 ^ 31)) (retM (offs @ [offset], offset')))"

definition computeOffsets :: "(file_source, unit) comp" where
  "computeOffsets =
    bindM (readM (\<lambda>s. zip (attrTypes s) (attrLens s))) (\<lambda>attrs.
    bindM (foldM addOffset ([], 0) attrs) (\<lambda>(offs, offset).
    modM (\<lambda>s. s\<lparr>offsets := offs, tupleLen := offset\<rparr>)))"

definition fs_start :: "(file_source, unit) comp" where
  "fs_start =
    bindM (readM fsOpen) (\<lambda>opened.
    if \<not> opened then failM (- 1)
    else
      bindM (fsGetline MAX_LINE_SIZE) (\<lambda>line.
      seqM (parseSchema line) computeOffsets))"

section \<open>Tuples\<close>

definition isEmptyText :: "string \<Rightarrow> bool" where
  "isEmptyText line \<longleftrightarrow> list_all isspace line"

text \<open>Bytes of a 32-bit value.\<close>

definition word_bytes :: "32 word \<Rightarrow> string" where
  "word_bytes w = map (\<lambda>k. char_of (unat (drop_bit (8 * k) w) mod 256)) [0, 1, 2, 3]"

text \<open>\<open>strncpy\<close> pads with NUL; the last byte is made a NUL.\<close>

definition char_bytes :: "nat \<Rightarrow> string \<Rightarrow> string" where
  "char_bytes n x = take (n - 1) (x @ replicate n NUL) @ [NUL]"

text \<open>Writing \<open>bs\<close> at \<open>off\<close>.\<close>

definition poke :: "int \<Rightarrow> string \<Rightarrow> (file_source, unit) comp" where
  "poke off bs =
    bindM (readM tupleBuf) (\<lambda>buf.
    seqM (ensureM (0 \<le> off \<and> nat off + length bs \<le> length buf))
    (modM (\<lambda>s. s\<lparr>tupleBuf := take (nat off) buf @ bs @ drop (nat off + length bs) buf\<rparr>)))"

definition storeField :: "(string \<Rightarrow> 32 word) \<Rightarrow> ctype \<times> int \<times> int \<Rightarrow> string \<Rightarrow> (file_source, unit) comp" where
  "storeField atof attr begin_ptr =
    (case attr of (ty, len, off) \<Rightarrow>
     case ty of
       T_INT \<Rightarrow> bindM (atoi begin_ptr) (\<lambda>ival. poke off (word_bytes (word_of_int ival)))
     | T_FLOAT \<Rightarrow> poke off (word_bytes (atof begin_ptr))
     | T_CHAR \<Rightarrow> poke off (char_bytes (nat len) begin_ptr)
     | T_BYTE \<Rightarrow> poke off [hd begin_ptr])"

text \<open>
  The loop over the attributes, over what is left of the line.  A field reaches up to the next comma, so
  the last one ends there as well, and the rest of the line is not looked at.
\<close>

fun parseFields :: "(string \<Rightarrow> 32 word) \<Rightarrow> (ctype \<times> int \<times> int) list \<Rightarrow> string \<Rightarrow> (file_source, unit) comp" where
  "parseFields atof [] line = retM ()"
| "parseFields atof (attr # attrs) line =
    (let begin_ptr = takeWhile (\<lambda>c. c \<noteq> CHR '','') line;
         end_ptr = dropWhile (\<lambda>c. c \<noteq> CHR '','') line in
     if begin_ptr = [] then failM (- 1)
     else if end_ptr = [] \<and> attrs \<noteq> [] then failM (- 1)
     else seqM (storeField atof attr begin_ptr) (parseFields atof attrs (tl end_ptr)))"

definition parseTuple :: "(string \<Rightarrow> 32 word) \<Rightarrow> string \<Rightarrow> (file_source, unit) comp" where
  "parseTuple atof line =
    bindM (readM (\<lambda>s. zip (attrTypes s) (zip (attrLens s) (offsets s)))) (\<lambda>attrs. parseFields atof attrs line)"

text \<open>A tuple that \<open>getNext\<close> returns; \<open>None\<close> is a null pointer.\<close>

definition theTuple :: "(file_source, string option) comp" where
  "theTuple = readM (\<lambda>s. Some (take (nat (tupleLen s)) (tupleBuf s)))"

definition getNext :: "(string \<Rightarrow> 32 word) \<Rightarrow> (file_source, string option) comp" where
  "getNext atof =
    bindM (readM fsGood) (\<lambda>good.
    if good then
      bindM (fsGetline MAX_LINE_SIZE) (\<lambda>line.
      if isEmptyText line then retM None
      else seqM (parseTuple atof line) theTuple)
    else
      bindM (readM fsEof) (\<lambda>eof. if eof then retM None else failM (- 1)))"

text \<open>
  The time stamp of a line: at most \<open>len\<close> characters of its first field, in a buffer of 15 characters.
  The value is converted to \<open>unsigned long long\<close>.
\<close>

definition line_time :: "string \<Rightarrow> ('s \<Rightarrow> int) \<Rightarrow> ('s, 64 word) comp" where
  "line_time line len =
    bindM (readM len) (\<lambda>n.
    let tsstr = take (nat n) (takeWhile (\<lambda>c. c \<noteq> CHR '','') line) in
    seqM (ensureM (length tsstr < 15)) (bindM (atoi tsstr) (\<lambda>v. retM (word_of_int v))))"

text \<open>With the current time: a tuple of the future stays in the file.\<close>

definition getNextUntil :: "(string \<Rightarrow> 32 word) \<Rightarrow> 64 word \<Rightarrow> (file_source, string option) comp" where
  "getNextUntil atof cursysTime =
    bindM (readM fsGood) (\<lambda>good.
    if good then
      bindM (readM fsInput) (\<lambda>here.
      bindM (fsGetline MAX_LINE_SIZE) (\<lambda>line.
      if isEmptyText line then retM None
      else
        seqM (parseTuple atof line)
        (if hd line = CHR ''i'' then theTuple
         else
           bindM (line_time line tupleLen) (\<lambda>ts.
           if ts > cursysTime then
             seqM (modM (\<lambda>s. if fsFail s then s else s\<lparr>fsInput := here, fsEof := False\<rparr>)) (retM None)
           else theTuple))))
    else
      bindM (readM fsEof) (\<lambda>eof. if eof then retM None else failM (- 1)))"

text \<open>The same from the lines in memory.\<close>

definition getNextBuffered :: "(string \<Rightarrow> 32 word) \<Rightarrow> 64 word \<Rightarrow> (file_source, string option) comp" where
  "getNextBuffered atof cursysTime =
    bindM (readM rawDataBuf) (\<lambda>lines.
    case lines of
      [] \<Rightarrow> retM None
    | line # rest \<Rightarrow>
        if isEmptyText line then retM None
        else
          seqM (parseTuple atof line)
          (if hd line = CHR ''i'' then theTuple
           else
             bindM (line_time line tupleLen) (\<lambda>ts.
             if ts > cursysTime then retM None
             else seqM (modM (\<lambda>s. s\<lparr>rawDataBuf := rest\<rparr>)) theTuple)))"

text \<open>
  Reading the whole file, with fuel: every line takes a character or meets the end of the file.
\<close>

primrec loadLoop :: "nat \<Rightarrow> (file_source, unit) comp" where
  "loadLoop 0 = undefM"
| "loadLoop (Suc fuel) =
    bindM (readM fsGood) (\<lambda>good.
    if good then
      bindM (fsGetline MAX_LINE_SIZE) (\<lambda>line.
      seqM (whenM (\<not> isEmptyText line) (modM (\<lambda>s. s\<lparr>rawDataBuf := rawDataBuf s @ [line]\<rparr>))) (loadLoop fuel))
    else retM ())"

definition loadSourceData :: "(file_source, unit) comp" where
  "loadSourceData =
    bindM (readM (\<lambda>s. length (fsInput s))) (\<lambda>n.
    seqM (loadLoop (n + 2))
    (bindM (readM fsEof) (\<lambda>eof.
     if \<not> eof then failM (- 1) else modM (\<lambda>s. s\<lparr>fsOpen := False\<rparr>))))"

text \<open>\<open>input.ignore(n, '\n')\<close>: up to \<open>n\<close> characters, or up to the end of the line.\<close>

fun ignore_line :: "nat \<Rightarrow> string \<Rightarrow> string \<times> bool" where
  "ignore_line 0 cs = (cs, False)"
| "ignore_line (Suc n) [] = ([], True)"
| "ignore_line (Suc n) (c # cs) = (if c = NEWLINE then (cs, False) else ignore_line n cs)"

primrec skip_tuples :: "nat \<Rightarrow> (file_source, unit) comp" where
  "skip_tuples 0 = retM ()"
| "skip_tuples (Suc n) =
    bindM (readM fsGood) (\<lambda>good.
    whenM good
      (seqM (modM (\<lambda>s. case ignore_line MAX_LINE_SIZE (fsInput s) of (rest, eof) \<Rightarrow> s\<lparr>fsInput := rest, fsEof := eof\<rparr>))
       (skip_tuples n)))"

definition fs_skip :: "int \<Rightarrow> (file_source, unit) comp" where
  "fs_skip num_of_tuples = skip_tuples (nat num_of_tuples)"

definition fs_end :: "file_source \<Rightarrow> int" where
  "fs_end s = (if fsEof s then 1 else 0)"

end
