(* ===== verification/Gen_Output.thy ===== *)
theory Gen_Output
  imports Decimal_Text P3_Types
begin

text \<open>
  \<open>src/gen_output.cc\<close>: printing the tuples of a query.

  A tuple is a time stamp, a sign and the attributes.  The stream \<open>out\<close> is the text printed so far; how it
  prints a \<open>float\<close>, given by its bit pattern, is the parameter \<open>ftext\<close>.  Integers are stored least
  significant byte first.
\<close>

record gen_output =
  goOut :: string
  goNumAttrs :: int
  goTypes :: "ctype option list"     \<comment> \<open>\<open>attrTypes\<close>, \<open>MAX_ATTRS\<close> of them, unset at first\<close>
  goLens :: "int list"
  goOffsets :: "int list"
  goTupleLen :: int
  tstampOffset :: int
  signOffset :: int

definition newGenOutput :: gen_output where
  "newGenOutput = \<lparr>goOut = [], goNumAttrs = 0, goTypes = replicate MAX_ATTRS None, goLens = replicate MAX_ATTRS 0,
     goOffsets = [], goTupleLen = 0, tstampOffset = 0, signOffset = 0\<rparr>"

definition setNumAttrs :: "nat \<Rightarrow> (gen_output, unit) comp" where
  "setNumAttrs n = (if n > MAX_ATTRS then failM (- 1) else modM (\<lambda>s. s\<lparr>goNumAttrs := int n\<rparr>))"

text \<open>The position and the length are unsigned; they are compared and stored as \<open>int\<close>.\<close>

definition setAttrInfo :: "32 word \<Rightarrow> ctype \<Rightarrow> 32 word \<Rightarrow> (gen_output, unit) comp" where
  "setAttrInfo attrPos ty len =
    bindM (readM goNumAttrs) (\<lambda>n.
    if sint attrPos \<ge> n then failM (- 1)
    else
      seqM (ensureM (unat attrPos < MAX_ATTRS))
      (modM (\<lambda>s. s\<lparr>goTypes := (goTypes s)[unat attrPos := Some ty], goLens := (goLens s)[unat attrPos := sint len]\<rparr>)))"

definition goSize :: "ctype \<Rightarrow> int \<Rightarrow> int" where
  "goSize ty len =
    (case ty of T_INT \<Rightarrow> int INT_SIZE | T_FLOAT \<Rightarrow> int FLOAT_SIZE | T_CHAR \<Rightarrow> len | T_BYTE \<Rightarrow> 1)"

text \<open>One round of the loop of \<open>start\<close>; a type that was never set is undefined.\<close>

definition goOffset :: "int list \<times> int \<Rightarrow> ctype option \<times> int \<Rightarrow> (gen_output, int list \<times> int) comp" where
  "goOffset acc attr =
    (case acc of (offs, offset) \<Rightarrow>
     bindM (derefM (fst attr)) (\<lambda>ty.
     let offset' = offset + goSize ty (snd attr) in
     seqM (ensureM (- (2 ^ 31) \<le> offset' \<and> offset' < 2 ^ 31)) (retM (offs @ [offset], offset'))))"

definition go_start :: "(gen_output, unit) comp" where
  "go_start =
    bindM (readM goNumAttrs) (\<lambda>n.
    if n = 0 then failM (- 1)
    else
      seqM (modM (\<lambda>s. s\<lparr>tstampOffset := 0, signOffset := int TIMESTAMP_SIZE\<rparr>))
      (bindM (readM (\<lambda>s. take (nat n) (zip (goTypes s) (goLens s)))) (\<lambda>attrs.
       bindM (foldM goOffset ([], int TIMESTAMP_SIZE + 1) attrs) (\<lambda>(offs, offset).
       modM (\<lambda>s. s\<lparr>goOffsets := offs, goTupleLen := offset\<rparr>)))))"

section \<open>Printing\<close>

text \<open>Bytes of a tuple.\<close>

definition peek :: "string \<Rightarrow> int \<Rightarrow> nat \<Rightarrow> ('s, string) comp" where
  "peek tuple off n =
    seqM (ensureM (0 \<le> off \<and> nat off + n \<le> length tuple)) (retM (take n (drop (nat off) tuple)))"

definition bytes_word :: "string \<Rightarrow> 32 word" where
  "bytes_word bs = (\<Sum>k\<leftarrow>[0 ..< length bs]. push_bit (8 * k) (of_nat (of_char (bs ! k))))"

definition print_text :: "string \<Rightarrow> (gen_output, unit) comp" where
  "print_text x = modM (\<lambda>s. s\<lparr>goOut := goOut s @ x\<rparr>)"

definition printAttr :: "(32 word \<Rightarrow> string) \<Rightarrow> string \<Rightarrow> ctype option \<times> int \<Rightarrow> (gen_output, unit) comp" where
  "printAttr ftext tuple attr =
    (case attr of (ty, off) \<Rightarrow>
     bindM (derefM ty) (\<lambda>ty.
     case ty of
       T_INT \<Rightarrow> bindM (peek tuple off INT_SIZE) (\<lambda>bs. print_text (decimal (sint (bytes_word bs))))
     | T_FLOAT \<Rightarrow> bindM (peek tuple off FLOAT_SIZE) (\<lambda>bs. print_text (ftext (bytes_word bs)))
     | T_CHAR \<Rightarrow>
         seqM (ensureM (0 \<le> off \<and> NUL \<in> set (drop (nat off) tuple))) (print_text (cstring (drop (nat off) tuple)))
     | T_BYTE \<Rightarrow> bindM (peek tuple off 1) print_text))"

fun printAttrs :: "(32 word \<Rightarrow> string) \<Rightarrow> string \<Rightarrow> (ctype option \<times> int) list \<Rightarrow> (gen_output, unit) comp" where
  "printAttrs ftext tuple [] = retM ()"
| "printAttrs ftext tuple (attr # attrs) =
    seqM (printAttr ftext tuple attr)
    (seqM (whenM (attrs \<noteq> []) (print_text '', ''))
    (printAttrs ftext tuple attrs))"

text \<open>What both versions of \<open>putNext\<close> print after the time stamp.\<close>

definition printBody :: "(32 word \<Rightarrow> string) \<Rightarrow> string \<Rightarrow> (gen_output, unit) comp" where
  "printBody ftext tuple =
    bindM (readM signOffset) (\<lambda>so.
    bindM (peek tuple so 1) (\<lambda>sign.
    seqM (print_text ('':'' @ sign @ '':''))
    (bindM (readM (\<lambda>s. zip (take (nat (goNumAttrs s)) (goTypes s)) (goOffsets s))) (\<lambda>attrs.
     printAttrs ftext tuple attrs))))"

definition putNext :: "(32 word \<Rightarrow> string) \<Rightarrow> string \<Rightarrow> int \<Rightarrow> (gen_output, unit) comp" where
  "putNext ftext tuple len =
    bindM (readM goTupleLen) (\<lambda>n.
    if len < n then failM (- 1)
    else
      bindM (readM tstampOffset) (\<lambda>off.
      bindM (peek tuple off TIMESTAMP_SIZE) (\<lambda>bs.
      seqM (print_text (''['' @ decimal (uint (bytes_word bs)) @ '']''))
      (seqM (printBody ftext tuple) (print_text [NEWLINE])))))"

text \<open>The version that adjusts the time stamp by the time unit and adds the response time.\<close>

definition putNextTimed :: "(32 word \<Rightarrow> string) \<Rightarrow> string \<Rightarrow> int \<Rightarrow> 64 word \<Rightarrow> 32 word \<Rightarrow> (gen_output, unit) comp" where
  "putNextTimed ftext tuple len responseTime time_unit =
    bindM (readM goTupleLen) (\<lambda>n.
    if len < n then failM (- 1)
    else
      bindM (readM tstampOffset) (\<lambda>off.
      bindM (peek tuple off TIMESTAMP_SIZE) (\<lambda>bs.
      let adjusted_ts = (ucast (bytes_word bs) :: 64 word) * scast time_unit in
      seqM (print_text (''['' @ decimal (uint adjusted_ts) @ '']''))
      (seqM (printBody ftext tuple)
      (seqM (print_text ('' : ['' @ decimal (uint responseTime) @ '']''))
       (print_text [NEWLINE]))))))"

end
