(* ===== verification/Tuple_Spec.thy ===== *)
theory Tuple_Spec
  imports File_Source Gen_Output
begin

text \<open>
  The way of a tuple through the system: what \<open>FileSource\<close> encodes from a line of text, \<open>GenOutput\<close> prints
  again.
\<close>

section \<open>Bytes\<close>

lemma bytes_word_bytes: "bytes_word (word_bytes w) = w"
proof -
  define n where "n = unat w"
  have n: "n < 2 ^ 32" unfolding n_def by (rule order.strict_trans2 [OF unsigned_less]) simp
  have b: "unat (drop_bit k w) = n div 2 ^ k" for k
    unfolding n_def unat_drop_bit_eq by (simp only: drop_bit_eq_div)
  have c: "(of_char (char_of (m mod 256 :: nat)) :: nat) = m mod 256" for m by simp
  have "bytes_word (word_bytes w) = of_nat (n mod 256 + n div 2 ^ 8 mod 256 * 2 ^ 8 + n div 2 ^ 16 mod 256 * 2 ^ 16 +
      n div 2 ^ 24 mod 256 * 2 ^ 24)"
    by (simp add: bytes_word_def word_bytes_def b c push_bit_eq_mult n_def upt_rec ac_simps)
  also have "n mod 256 + n div 2 ^ 8 mod 256 * 2 ^ 8 + n div 2 ^ 16 mod 256 * 2 ^ 16 + n div 2 ^ 24 mod 256 * 2 ^ 24 = n"
  proof -
    have "n div 65536 = n div 256 div 256" "n div 16777216 = n div 256 div 256 div 256"
      by (simp_all add: div_mult2_eq [symmetric])
    moreover have "n div 256 div 256 div 256 mod 256 = n div 256 div 256 div 256"
      using n by (simp add: div_mult2_eq [symmetric] less_mult_imp_div_less)
    moreover have "(2 :: nat) ^ 8 = 256" "(2 :: nat) ^ 16 = 65536" "(2 :: nat) ^ 24 = 16777216" by simp_all
    moreover have "r0 + r1 * 256 + r2 * 65536 + d * 16777216 = n"
      if "a * 256 + r0 = n" "b * 256 + r1 = a" "d * 256 + r2 = b" for a b d r0 r1 r2
      using that by linarith
    from this [OF div_mult_mod_eq div_mult_mod_eq div_mult_mod_eq]
    have "n mod 256 + n div 256 mod 256 * 256 + n div 256 div 256 mod 256 * 65536 + n div 256 div 256 div 256 * 16777216 = n" .
    ultimately show ?thesis by (simp only:)
  qed
  finally show ?thesis by (simp add: n_def)
qed

lemma word_bytes_length [simp]: "length (word_bytes w) = 4"
  by (simp add: word_bytes_def)

lemma char_bytes_length [simp]: "0 < n \<Longrightarrow> length (char_bytes n x) = n"
  by (simp add: char_bytes_def)

lemma char_bytes_cstring:
  assumes "NUL \<notin> set x" and "length x < n"
  shows "NUL \<in> set (char_bytes n x)" and "cstring (char_bytes n x @ rest) = x"
proof -
  have b: "char_bytes n x = x @ replicate (n - length x) NUL"
  proof -
    obtain k where k: "n = length x + Suc k" using assms(2) less_iff_Suc_add by fastforce
    show ?thesis by (simp add: char_bytes_def k replicate_append_same flip: replicate_Suc)
  qed
  show "NUL \<in> set (char_bytes n x)" using assms(2) by (simp add: b)
  have "replicate (n - length x) NUL = NUL # replicate (n - length x - 1) NUL"
    using assms(2) by (cases "n - length x") auto
  then show "cstring (char_bytes n x @ rest) = x"
    using assms(1) by (simp add: b cstring_def takeWhile_append)
qed

section \<open>The layout\<close>

type_synonym attr = "ctype \<times> int"

definition sizes :: "attr list \<Rightarrow> int" where
  "sizes attrs = sum_list (map (\<lambda>(ty, len). attr_size ty len) attrs)"

fun layout :: "int \<Rightarrow> attr list \<Rightarrow> int list" where
  "layout off [] = []"
| "layout off ((ty, len) # attrs) = off # layout (off + attr_size ty len) attrs"

definition attr_ok :: "attr \<Rightarrow> bool" where
  "attr_ok a \<longleftrightarrow> (fst a = T_CHAR \<longrightarrow> 0 < snd a)"

lemma attr_size_pos: "attr_ok (ty, len) \<Longrightarrow> 0 < attr_size ty len"
  by (cases ty) (simp_all add: attr_ok_def attr_size_def INT_SIZE_def FLOAT_SIZE_def)

lemma sizes_simps [simp]: "sizes [] = 0" "sizes ((ty, len) # attrs) = attr_size ty len + sizes attrs"
  by (simp_all add: sizes_def)

lemma sizes_nonneg: "list_all attr_ok attrs \<Longrightarrow> 0 \<le> sizes attrs"
  by (induction attrs) (auto dest: attr_size_pos)

lemma layout_length [simp]: "length (layout off attrs) = length attrs"
  by (induction off attrs rule: layout.induct) auto

lemma goSize_eq: "goSize = attr_size"
  by (auto simp: goSize_def attr_size_def fun_eq_iff split: ctype.splits)

lemma addOffset_loop:
  "list_all attr_ok attrs \<Longrightarrow> off + sizes attrs < 2 ^ 31 \<Longrightarrow>
   foldM addOffset (offs, off) attrs s = Done (offs @ layout off attrs, off + sizes attrs) s"
proof (induction attrs arbitrary: offs off)
  case (Cons a attrs)
  obtain ty len where a: "a = (ty, len)" by fastforce
  have "0 \<le> sizes attrs" using Cons.prems(1) sizes_nonneg by simp
  then show ?case using Cons a by (simp add: addOffset_def comp_defs Let_def)
qed (simp add: retM_def)

lemma goOffset_loop:
  "list_all attr_ok attrs \<Longrightarrow> 0 \<le> off \<Longrightarrow> off + sizes attrs < 2 ^ 31 \<Longrightarrow>
   foldM goOffset (offs, off) (zip (map (\<lambda>a. Some (fst a)) attrs) (map snd attrs)) s =
     Done (offs @ layout off attrs, off + sizes attrs) s"
proof (induction attrs arbitrary: offs off)
  case (Cons a attrs)
  obtain ty len where a: "a = (ty, len)" by fastforce
  have "0 \<le> sizes attrs" "0 < attr_size ty len"
    using Cons.prems(1) sizes_nonneg a attr_size_pos by simp_all
  then show ?case using Cons a by (simp add: goOffset_def goSize_eq comp_defs Let_def)
qed (simp add: retM_def)

section \<open>Fields\<close>

text \<open>A field in the form in which it is printed.\<close>

definition field_ok :: "(string \<Rightarrow> 32 word) \<Rightarrow> (32 word \<Rightarrow> string) \<Rightarrow> attr \<Rightarrow> string \<Rightarrow> bool" where
  "field_ok atof ftext a x \<longleftrightarrow> x \<noteq> [] \<and> CHR '','' \<notin> set x \<and> NUL \<notin> set x \<and>
    (case fst a of
       T_INT \<Rightarrow> (case atoi x () of Done v _ \<Rightarrow> decimal v = x | _ \<Rightarrow> False)
     | T_FLOAT \<Rightarrow> ftext (atof x) = x
     | T_CHAR \<Rightarrow> int (length x) < snd a
     | T_BYTE \<Rightarrow> length x = 1)"

definition encode :: "(string \<Rightarrow> 32 word) \<Rightarrow> attr \<Rightarrow> string \<Rightarrow> string" where
  "encode atof a x =
    (case fst a of
       T_INT \<Rightarrow> (case atoi x () of Done v _ \<Rightarrow> word_bytes (word_of_int v) | _ \<Rightarrow> [])
     | T_FLOAT \<Rightarrow> word_bytes (atof x)
     | T_CHAR \<Rightarrow> char_bytes (nat (snd a)) x
     | T_BYTE \<Rightarrow> [hd x])"

lemma atoi_Done:
  assumes "atoi x () = Done v u"
  shows "(atoi x :: ('s, int) comp) = retM v" and "- (2 ^ 31) \<le> v" and "v < 2 ^ 31"
  using assms by (auto simp: atoi_def Let_def comp_defs fun_eq_iff split: if_splits)

lemma encode_length: "attr_ok a \<Longrightarrow> field_ok atof ftext a x \<Longrightarrow> int (length (encode atof a x)) = attr_size (fst a) (snd a)"
  by (auto simp: encode_def field_ok_def attr_ok_def attr_size_def INT_SIZE_def FLOAT_SIZE_def
      split: ctype.splits outcome.splits)

lemma encode_all_length:
  "list_all attr_ok attrs \<Longrightarrow> list_all2 (field_ok atof ftext) attrs xs \<Longrightarrow>
   int (length (concat (map2 (encode atof) attrs xs))) = sizes attrs"
proof (induction attrs arbitrary: xs)
  case (Cons a attrs)
  then show ?case using encode_length [of a atof ftext] by (cases a) (auto simp: list_all2_Cons1)
qed simp

lemma poke_at:
  assumes "tupleBuf s = pre @ old @ post" and "length old = length bs"
  shows "poke (int (length pre)) bs s = Done () (s\<lparr>tupleBuf := pre @ bs @ post\<rparr>)"
  using assms by (simp add: poke_def comp_defs)

lemma storeField_at:
  assumes "attr_ok (ty, len)" and "field_ok atof ftext (ty, len) x" and "tupleBuf s = pre @ old @ post"
    and "length old = length (encode atof (ty, len) x)"
  shows "storeField atof (ty, len, int (length pre)) x s = Done () (s\<lparr>tupleBuf := pre @ encode atof (ty, len) x @ post\<rparr>)"
proof (cases ty)
  case T_INT
  then obtain v u where v: "atoi x () = Done v u" using assms(2) by (auto simp: field_ok_def split: outcome.splits)
  then show ?thesis using poke_at [OF assms(3,4)] T_INT v by (simp add: storeField_def encode_def atoi_Done(1) [OF v])
qed (use poke_at [OF assms(3,4)] in \<open>simp_all add: storeField_def encode_def\<close>)

fun join_with :: "string \<Rightarrow> string list \<Rightarrow> string" where
  "join_with sep [] = []"
| "join_with sep [x] = x"
| "join_with sep (x # y # xs) = x @ sep @ join_with sep (y # xs)"

lemma join_with_Cons: "xs \<noteq> [] \<Longrightarrow> join_with sep (x # xs) = x @ sep @ join_with sep xs"
  by (cases xs) auto

lemma join_first:
  assumes "CHR '','' \<notin> set x"
  shows "takeWhile (\<lambda>c. c \<noteq> CHR '','') (join_with '','' (x # ys)) = x"
    and "tl (dropWhile (\<lambda>c. c \<noteq> CHR '','') (join_with '','' (x # ys))) = join_with '','' ys"
    and "ys \<noteq> [] \<Longrightarrow> dropWhile (\<lambda>c. c \<noteq> CHR '','') (join_with '','' (x # ys)) \<noteq> []"
proof -
  have all: "list_all (\<lambda>c. c \<noteq> CHR '','') x" using assms by (auto simp: list_all_iff)
  have one: "takeWhile (\<lambda>c. c \<noteq> CHR '','') x = x" "dropWhile (\<lambda>c. c \<noteq> CHR '','') x = []"
    using all by (simp_all add: list_all_iff)
  have more: "join_with '','' (x # ys) = x @ CHR '','' # join_with '','' ys" if "ys \<noteq> []"
    using that by (simp add: join_with_Cons)
  have s: "takeWhile (\<lambda>c. c \<noteq> CHR '','') (x @ CHR '','' # z) = x"
      "dropWhile (\<lambda>c. c \<noteq> CHR '','') (x @ CHR '','' # z) = CHR '','' # z" for z
    by (rule takeWhile_stop [OF all] dropWhile_stop [OF all], simp)+
  show "takeWhile (\<lambda>c. c \<noteq> CHR '','') (join_with '','' (x # ys)) = x"
    using one s by (cases "ys = []") (simp_all only: more join_with.simps not_False_eq_True)
  show "tl (dropWhile (\<lambda>c. c \<noteq> CHR '','') (join_with '','' (x # ys))) = join_with '','' ys"
    using one s by (cases "ys = []") (simp_all only: more join_with.simps not_False_eq_True list.sel)
  show "dropWhile (\<lambda>c. c \<noteq> CHR '','') (join_with '','' (x # ys)) \<noteq> []" if "ys \<noteq> []"
    unfolding more [OF that] s by simp
qed

text \<open>The loop of \<open>parseTuple\<close> fills the buffer from the left.\<close>

lemma parseFields_at:
  assumes "list_all attr_ok attrs" and "list_all2 (field_ok atof ftext) attrs xs"
    and "tupleBuf s = pre @ post" and "sizes attrs \<le> int (length post)"
  shows "parseFields atof (zip (map fst attrs) (zip (map snd attrs) (layout (int (length pre)) attrs))) (join_with '','' xs) s =
    Done () (s\<lparr>tupleBuf := pre @ concat (map2 (encode atof) attrs xs) @ drop (nat (sizes attrs)) post\<rparr>)"
  using assms
proof (induction attrs arbitrary: xs pre post s)
  case Nil
  then show ?case by (simp add: retM_def)
next
  case (Cons a attrs)
  obtain ty len where a: "a = (ty, len)" by fastforce
  obtain x ys where xs: "xs = x # ys" and x: "field_ok atof ftext (ty, len) x" and ys: "list_all2 (field_ok atof ftext) attrs ys"
    using Cons.prems(2) a by (auto simp: list_all2_Cons1)
  let ?e = "encode atof (ty, len) x"
  let ?n = "length ?e"
  let ?s = "s\<lparr>tupleBuf := (pre @ ?e) @ drop ?n post\<rparr>"
  have ok: "attr_ok (ty, len)" "list_all attr_ok attrs" using Cons.prems(1) a by simp_all
  have n: "int ?n = attr_size ty len" using encode_length [OF ok(1) x] by simp
  have nn: "0 \<le> sizes attrs" by (rule sizes_nonneg [OF ok(2)])
  have fits: "?n \<le> length post" using Cons.prems(4) a n nn by simp
  have nx: "x \<noteq> []" "CHR '','' \<notin> set x" using x by (simp_all add: field_ok_def)
  have len: "length ys = length attrs" using ys by (simp add: list_all2_lengthD)
  have t: "takeWhile (\<lambda>c. c \<noteq> CHR '','') (join_with '','' xs) = x"
    and d: "tl (dropWhile (\<lambda>c. c \<noteq> CHR '','') (join_with '','' xs)) = join_with '','' ys"
    unfolding xs by (rule join_first(1,2) [OF nx(2)])+
  have e: "attrs \<noteq> [] \<Longrightarrow> dropWhile (\<lambda>c. c \<noteq> CHR '','') (join_with '','' xs) \<noteq> []"
    unfolding xs by (rule join_first(3) [OF nx(2)]) (use len in auto)
  have st: "storeField atof (ty, len, int (length pre)) x s = Done () ?s"
    using storeField_at [OF ok(1) x, of s pre "take ?n post" "drop ?n post"] Cons.prems(3) fits by simp
  have ih: "parseFields atof (zip (map fst attrs) (zip (map snd attrs) (layout (int (length pre) + attr_size ty len) attrs)))
      (join_with '','' ys) ?s =
      Done () (?s\<lparr>tupleBuf := (pre @ ?e) @ concat (map2 (encode atof) attrs ys) @ drop (nat (sizes attrs)) (drop ?n post)\<rparr>)"
    using Cons.IH [OF ok(2) ys, of ?s "pre @ ?e" "drop ?n post"] Cons.prems(4) a n fits by simp
  have dr: "drop (nat (sizes attrs)) (drop ?n post) = drop (nat (attr_size ty len + sizes attrs)) post"
    using n nn by (simp add: nat_add_distrib add.commute flip: n)
  have c: "\<not> (dropWhile (\<lambda>c. c \<noteq> CHR '','') (join_with '','' xs) = [] \<and> zip (map fst attrs) (zip (map snd attrs)
      (layout (int (length pre) + attr_size ty len) attrs)) \<noteq> [])"
    using e by (cases attrs) simp_all
  have "parseFields atof ((ty, len, int (length pre)) # zip (map fst attrs) (zip (map snd attrs)
      (layout (int (length pre) + attr_size ty len) attrs))) (join_with '','' xs) s =
    seqM (storeField atof (ty, len, int (length pre)) x)
      (parseFields atof (zip (map fst attrs) (zip (map snd attrs) (layout (int (length pre) + attr_size ty len) attrs)))
       (join_with '','' ys)) s"
    using c nx(1) by (simp only: parseFields.simps Let_def t d if_False simp_thms)
  also have "\<dots> = Done () (s\<lparr>tupleBuf := pre @ (?e @ concat (map2 (encode atof) attrs ys)) @
      drop (nat (attr_size ty len + sizes attrs)) post\<rparr>)"
    using st ih dr by (simp add: seqM_def bindM_def)
  finally show ?case by (simp add: a xs)
qed

section \<open>Printing\<close>

lemma peek_at: "peek (pre @ bs @ post) (int (length pre)) (length bs) s = Done bs s"
  by (simp add: peek_def comp_defs)

lemma printAttr_at:
  assumes "attr_ok (ty, len)" and "field_ok atof ftext (ty, len) x"
  shows "printAttr ftext (pre @ encode atof (ty, len) x @ post) (Some ty, int (length pre)) s =
    Done () (s\<lparr>goOut := goOut s @ x\<rparr>)"
proof (cases ty)
  case T_INT
  then obtain v u where v: "atoi x () = Done v u" "decimal v = x" using assms(2) by (auto simp: field_ok_def split: outcome.splits)
  have "sint (word_of_int v :: 32 word) = v"
    using int_of_long_small [OF atoi_Done(2,3) [OF v(1)]] by (simp add: int_of_long_def)
  then show ?thesis using T_INT v peek_at [of pre "word_bytes (word_of_int v)" post s]
    by (simp add: printAttr_def encode_def INT_SIZE_def bytes_word_bytes print_text_def comp_defs)
next
  case T_FLOAT
  then show ?thesis using assms peek_at [of pre "word_bytes (atof x)" post s]
    by (simp add: printAttr_def encode_def FLOAT_SIZE_def bytes_word_bytes print_text_def field_ok_def comp_defs)
next
  case T_CHAR
  have "length x < nat len" "NUL \<notin> set x" using assms T_CHAR by (auto simp: field_ok_def)
  from char_bytes_cstring [OF this(2,1)] T_CHAR show ?thesis
    by (simp add: printAttr_def encode_def print_text_def comp_defs)
next
  case T_BYTE
  then obtain c where "x = [c]" using assms(2) by (auto simp: field_ok_def length_Suc_conv)
  then show ?thesis using T_BYTE peek_at [of pre "[c]" post s]
    by (simp add: printAttr_def encode_def print_text_def comp_defs)
qed

lemma printAttrs_at:
  assumes "list_all attr_ok attrs" and "list_all2 (field_ok atof ftext) attrs xs"
  shows "printAttrs ftext (pre @ concat (map2 (encode atof) attrs xs) @ post)
      (zip (map (\<lambda>a. Some (fst a)) attrs) (layout (int (length pre)) attrs)) s =
    Done () (s\<lparr>goOut := goOut s @ join_with '', '' xs\<rparr>)"
  using assms
proof (induction attrs arbitrary: xs pre s)
  case Nil
  then show ?case by (simp add: retM_def)
next
  case (Cons a attrs)
  obtain ty len where a: "a = (ty, len)" by fastforce
  obtain x ys where xs: "xs = x # ys" and x: "field_ok atof ftext (ty, len) x" and ys: "list_all2 (field_ok atof ftext) attrs ys"
    using Cons.prems(2) a by (auto simp: list_all2_Cons1)
  let ?e = "encode atof (ty, len) x" and ?es = "concat (map2 (encode atof) attrs ys)"
  let ?s = "s\<lparr>goOut := goOut s @ x\<rparr>"
  have ok: "attr_ok (ty, len)" "list_all attr_ok attrs" using Cons.prems(1) a by simp_all
  have n: "int (length ?e) = attr_size ty len" using encode_length [OF ok(1) x] by simp
  let ?z = "zip (map (\<lambda>a. Some (fst a)) attrs) (layout (int (length pre) + attr_size ty len) attrs)"
  have len: "length ys = length attrs" using ys by (simp add: list_all2_lengthD)
  have one: "printAttr ftext (pre @ ?e @ ?es @ post) (Some ty, int (length pre)) s = Done () ?s"
    by (rule printAttr_at [OF ok(1) x])
  have ih: "printAttrs ftext (pre @ ?e @ ?es @ post) ?z t = Done () (t\<lparr>goOut := goOut t @ join_with '', '' ys\<rparr>)" for t
    using Cons.IH [OF ok(2) ys, of "pre @ ?e" t] n by simp
  have "length ?z = length attrs" by simp
  then have z: "?z = [] \<longleftrightarrow> ys = []" using len by (metis length_0_conv)
  have "printAttrs ftext (pre @ ?e @ ?es @ post) ((Some ty, int (length pre)) # ?z) s =
      Done () (s\<lparr>goOut := goOut s @ join_with '', '' (x # ys)\<rparr>)"
    using one ih z by (cases "ys = []") (simp_all add: join_with_Cons print_text_def seqM_def bindM_def whenM_def modM_def retM_def)
  then show ?case by (simp add: a xs)
qed

section \<open>Round trip\<close>

text \<open>The text of a schema.\<close>

definition attr_text :: "attr \<Rightarrow> string" where
  "attr_text a =
    (case fst a of T_INT \<Rightarrow> ''i'' | T_FLOAT \<Rightarrow> ''f'' | T_BYTE \<Rightarrow> ''b'' | T_CHAR \<Rightarrow> ''c'' @ decimal (snd a))"

definition schema_ok :: "attr list \<Rightarrow> bool" where
  "schema_ok attrs \<longleftrightarrow> attrs \<noteq> [] \<and> length attrs \<le> MAX_ATTRS \<and> list_all attr_ok attrs \<and>
     list_all (\<lambda>a. fst a \<noteq> T_CHAR \<longrightarrow> snd a = 0) attrs \<and> sizes attrs \<le> int MAX_TUPLE_SIZE"

definition schema_text :: "attr list \<Rightarrow> string" where
  "schema_text attrs = join_with '','' (map attr_text attrs)"

lemma strtol_decimal_end:
  assumes "- (2 ^ 31) \<le> v" and "v < 2 ^ 31"
  shows "strtol (decimal v) = (v, [])"
proof -
  have tw: "takeWhile isdigit (digits n) = digits n" for n by simp
  show ?thesis
  proof (cases "v < 0")
    case True
    then have q: "decimal v = CHR ''-'' # digits (nat (- v))" by (simp add: decimal_def)
    show ?thesis using assms True
      by (simp add: strtol_def q sign_len_def isspace_def Let_def digits_value_digits)
  next
    case False
    then have q: "decimal v = digits (nat v)" by (simp add: decimal_def)
    obtain c y where c: "digits (nat v) = c # y" "isdigit c" using digits_only [of "nat v"] by (cases "digits (nat v)") auto
    have ty: "takeWhile isdigit y = y" using tw [of "nat v"] c by simp
    have "digits_value (c # y) = v" using False c digits_value_digits [of "nat v"] by simp
    then show ?thesis using assms False c digit_chars [OF c(2)]
      by (simp add: strtol_def q sign_len_def Let_def ty)
  qed
qed

lemma parseAttr_text:
  assumes "attr_ok (ty, len)" and "ty \<noteq> T_CHAR \<longrightarrow> len = 0" and "len < 2 ^ 31" and "rest = [] \<or> hd rest = CHR '',''"
  shows "parseAttr (hd (attr_text (ty, len) @ rest)) (tl (attr_text (ty, len) @ rest)) s =
    Done rest (s\<lparr>attrTypes := attrTypes s @ [ty], attrLens := attrLens s @ [len]\<rparr>)"
proof (cases ty)
  case T_CHAR
  have l: "- (2 ^ 31) \<le> len" "0 < len" using assms(1) T_CHAR by (simp_all add: attr_ok_def)
  have "strtol (decimal len @ rest) = (len, rest)"
    using assms(4) strtol_decimal [OF l(1) assms(3), of "tl rest"] strtol_decimal_end [OF l(1) assms(3)]
    by (cases rest) auto
  then show ?thesis using T_CHAR l(2) int_of_long_small [OF l(1) assms(3)]
    by (simp add: parseAttr_def attr_text_def addAttr_def comp_defs)
qed (use assms(2) in \<open>simp_all add: parseAttr_def attr_text_def addAttr_def comp_defs\<close>)

lemma parseSchemaLoop_text:
  assumes "length attrs \<le> room" and "list_all attr_ok attrs" and "list_all (\<lambda>a. fst a \<noteq> T_CHAR \<longrightarrow> snd a = 0) attrs"
    and "sizes attrs < 2 ^ 31"
  shows "parseSchemaLoop room (schema_text attrs) s =
    Done () (s\<lparr>attrTypes := attrTypes s @ map fst attrs, attrLens := attrLens s @ map snd attrs\<rparr>)"
  using assms
proof (induction attrs arbitrary: room s)
  case Nil
  then show ?case by (cases room) (simp_all add: schema_text_def retM_def)
next
  case (Cons a attrs)
  obtain ty len where a: "a = (ty, len)" by fastforce
  obtain r where r: "room = Suc r" "length attrs \<le> r" using Cons.prems(1) by (cases room) auto
  define rest where "rest = (if attrs = [] then [] else CHR '','' # schema_text attrs)"
  have ok: "attr_ok (ty, len)" "list_all attr_ok attrs" using Cons.prems(2) a by simp_all
  have nn: "0 \<le> sizes attrs" by (rule sizes_nonneg [OF ok(2)])
  have len: "len < 2 ^ 31" "ty \<noteq> T_CHAR \<longrightarrow> len = 0"
    using Cons.prems(3,4) a nn ok(1) by (cases ty; simp add: attr_size_def attr_ok_def)+
  have tx: "schema_text (a # attrs) = attr_text (ty, len) @ rest"
    by (simp add: schema_text_def a join_with_Cons rest_def)
  have ne: "attr_text (ty, len) \<noteq> []" by (simp add: attr_text_def split: ctype.splits)
  have p: "parseAttr (hd (attr_text (ty, len) @ rest)) (tl (attr_text (ty, len) @ rest)) s =
      Done rest (s\<lparr>attrTypes := attrTypes s @ [ty], attrLens := attrLens s @ [len]\<rparr>)"
    by (rule parseAttr_text [OF ok(1) len(2,1)]) (simp add: rest_def)
  have t: "tl rest = schema_text attrs" by (simp add: schema_text_def rest_def)
  have "\<not> (rest \<noteq> [] \<and> hd rest \<noteq> CHR '','')" by (simp add: rest_def)
  then have "parseSchemaLoop room (schema_text (a # attrs)) s =
      parseSchemaLoop r (schema_text attrs) (s\<lparr>attrTypes := attrTypes s @ [ty], attrLens := attrLens s @ [len]\<rparr>)"
    using ne p t unfolding tx r(1) parseSchemaLoop.simps by (auto simp: bindM_def)
  also have "\<dots> = Done () (s\<lparr>attrTypes := attrTypes s @ map fst (a # attrs), attrLens := attrLens s @ map snd (a # attrs)\<rparr>)"
    using Cons.IH [OF r(2) ok(2)] Cons.prems(3,4) nn a attr_size_pos [OF ok(1)] by simp
  finally show ?case .
qed

text \<open>How the columns of a query are announced to its output.\<close>

definition describe :: "attr list \<Rightarrow> (gen_output, unit) comp" where
  "describe attrs =
    seqM (setNumAttrs (length attrs))
    (forM (zip [0 ..< length attrs] attrs) (\<lambda>(i, ty, len). setAttrInfo (of_nat i) ty (word_of_int len)))"

lemma describe_loop:
  assumes "length pre + length attrs \<le> MAX_ATTRS" and "goNumAttrs s = int (length pre + length attrs)"
    and "goTypes s = map (\<lambda>a. Some (fst a)) pre @ types" and "goLens s = map snd pre @ lens"
    and "length types = MAX_ATTRS - length pre" and "length lens = MAX_ATTRS - length pre"
    and "\<forall>a\<in>set attrs. 0 \<le> snd a \<and> snd a < 2 ^ 31"
  shows "forM (zip [length pre ..< length pre + length attrs] attrs)
      (\<lambda>(i, ty, len). setAttrInfo (of_nat i) ty (word_of_int len)) s =
    Done () (s\<lparr>goTypes := map (\<lambda>a. Some (fst a)) (pre @ attrs) @ drop (length attrs) types,
      goLens := map snd (pre @ attrs) @ drop (length attrs) lens\<rparr>)"
  using assms
proof (induction attrs arbitrary: pre types lens s)
  case Nil
  then show ?case by (simp add: retM_def)
next
  case (Cons a attrs)
  obtain ty len where a: "a = (ty, len)" by fastforce
  obtain t0 types' where ty: "types = t0 # types'" using Cons.prems(1,5) by (cases types) auto
  obtain l0 lens' where le: "lens = l0 # lens'" using Cons.prems(1,6) by (cases lens) auto
  have i: "length pre < 10" using Cons.prems(1) by (simp add: MAX_ATTRS_def)
  have w: "sint (of_nat (length pre) :: 32 word) = int (length pre)" "unat (of_nat (length pre) :: 32 word) = length pre"
    using i by (simp_all add: unat_of_nat signed_of_nat signed_take_bit_int_eq_self)
  have sl: "sint (word_of_int len :: 32 word) = len"
    using Cons.prems(7) a int_of_long_small [of len] by (simp add: int_of_long_def)
  let ?s = "s\<lparr>goTypes := map (\<lambda>a. Some (fst a)) (pre @ [a]) @ types', goLens := map snd (pre @ [a]) @ lens'\<rparr>"
  have one: "setAttrInfo (of_nat (length pre)) ty (word_of_int len) s = Done () ?s"
    using Cons.prems(1-4) ty le i
    by (simp add: setAttrInfo_def w sl comp_defs MAX_ATTRS_def a list_update_append)
  have u: "[length pre ..< length pre + length (a # attrs)] = length pre # [length (pre @ [a]) ..< length (pre @ [a]) + length attrs]"
    using upt_conv_Cons [of "length pre" "length pre + length (a # attrs)"] by (simp del: upt_Suc)
  have "forM (zip [length (pre @ [a]) ..< length (pre @ [a]) + length attrs] attrs)
      (\<lambda>(i, ty, len). setAttrInfo (of_nat i) ty (word_of_int len)) ?s =
    Done () (?s\<lparr>goTypes := map (\<lambda>a. Some (fst a)) ((pre @ [a]) @ attrs) @ drop (length attrs) types',
      goLens := map snd ((pre @ [a]) @ attrs) @ drop (length attrs) lens'\<rparr>)"
    by (rule Cons.IH) (use Cons.prems ty le in simp_all)
  then show ?case using one unfolding u by (simp add: a ty le seqM_def bindM_def)
qed

lemma describe_outcome:
  assumes "length attrs \<le> MAX_ATTRS" and "\<forall>a\<in>set attrs. 0 \<le> snd a \<and> snd a < 2 ^ 31"
  shows "\<exists>types lens. describe attrs newGenOutput = Done () (newGenOutput\<lparr>goNumAttrs := int (length attrs),
    goTypes := map (\<lambda>a. Some (fst a)) attrs @ types, goLens := map snd attrs @ lens\<rparr>)"
proof -
  let ?s = "newGenOutput\<lparr>goNumAttrs := int (length attrs)\<rparr>"
  have "setNumAttrs (length attrs) newGenOutput = Done () ?s" using assms(1) by (simp add: setNumAttrs_def modM_def)
  then show ?thesis
    using describe_loop [of "[]" attrs ?s "replicate MAX_ATTRS None" "replicate MAX_ATTRS 0"] assms
    by (auto simp: describe_def newGenOutput_def seqM_def bindM_def)
qed

lemma take_line_full:
  "NEWLINE \<notin> set l \<Longrightarrow> length l \<le> k \<Longrightarrow> take_line k (l @ NEWLINE # rest) = (l, rest, False, False)"
  by (induction k l rule: take_line.induct) auto

lemma schema_chars: "c \<in> set (schema_text attrs) \<Longrightarrow> c \<noteq> NEWLINE \<and> c \<noteq> NUL"
proof -
  have d: "c \<noteq> NEWLINE \<and> c \<noteq> NUL" if "c \<in> set (decimal v)" for c v
    using decimal_chars [OF that] digit_chars(11) [of c] by (auto simp: NUL_def NEWLINE_def isdigit_def)
  have t: "c \<noteq> NEWLINE \<and> c \<noteq> NUL" if "c \<in> set (attr_text a)" for c a
    using that d by (auto simp: attr_text_def NUL_def NEWLINE_def split: ctype.splits)
  show "c \<in> set (schema_text attrs) \<Longrightarrow> c \<noteq> NEWLINE \<and> c \<noteq> NUL"
  proof (induction attrs)
    case (Cons a attrs)
    then show ?case using t [of c a]
      by (cases "attrs = []") (auto simp: schema_text_def join_with_Cons NUL_def NEWLINE_def)
  qed (simp add: schema_text_def)
qed

lemma cstring_id: "NUL \<notin> set x \<Longrightarrow> cstring x = x"
  by (auto simp: cstring_def)

lemma join_chars: "c \<in> set (join_with sep xs) \<Longrightarrow> c \<in> set sep \<or> (\<exists>x\<in>set xs. c \<in> set x)"
  by (induction sep xs rule: join_with.induct) auto

lemma fsGetline_line:
  assumes "fsInput s = l @ NEWLINE # rest" and "NEWLINE \<notin> set l" and "NUL \<notin> set l" and "length l < MAX_LINE_SIZE"
  shows "fsGetline MAX_LINE_SIZE s = Done l (s\<lparr>fsInput := rest, fsEof := False, fsFail := False\<rparr>)"
  using assms take_line_full [of l "MAX_LINE_SIZE - 1" rest] by (simp add: fsGetline_def comp_defs cstring_id)

lemma fs_start_schema:
  assumes "schema_ok attrs" and "fsOpen s" and "fsInput s = schema_text attrs @ NEWLINE # rest"
    and "length (schema_text attrs) < MAX_LINE_SIZE"
  shows "fs_start s = Done () (s\<lparr>fsInput := rest, fsEof := False, fsFail := False, attrTypes := map fst attrs,
    attrLens := map snd attrs, offsets := layout 0 attrs, tupleLen := sizes attrs\<rparr>)"
proof -
  let ?s = "s\<lparr>fsInput := rest, fsEof := False, fsFail := False\<rparr>"
  let ?t = "?s\<lparr>attrTypes := map fst attrs, attrLens := map snd attrs\<rparr>"
  have ok: "length attrs \<le> MAX_ATTRS" "list_all attr_ok attrs" "list_all (\<lambda>a. fst a \<noteq> T_CHAR \<longrightarrow> snd a = 0) attrs"
      "sizes attrs < 2 ^ 31"
    using assms(1) by (simp_all add: schema_ok_def MAX_TUPLE_SIZE_def)
  have g: "fsGetline MAX_LINE_SIZE s = Done (schema_text attrs) ?s"
    by (rule fsGetline_line [OF assms(3)]) (use schema_chars assms(4) in auto)
  have p: "parseSchema (schema_text attrs) ?s = Done () ?t"
    using parseSchemaLoop_text [OF ok, of "?s\<lparr>attrTypes := [], attrLens := []\<rparr>"] by (simp add: parseSchema_def comp_defs)
  have z: "zip (map fst attrs) (map snd attrs) = attrs" by (simp add: zip_map_fst_snd)
  have c: "computeOffsets ?t = Done () (?t\<lparr>offsets := layout 0 attrs, tupleLen := sizes attrs\<rparr>)"
    using addOffset_loop [of attrs 0 "[]" ?t] ok(2,4) by (simp add: computeOffsets_def z comp_defs)
  show ?thesis using g p c assms(2) by (simp add: fs_start_def seqM_def bindM_def readM_def)
qed

lemma getNext_fields:
  assumes "schema_ok attrs" and "list_all2 (field_ok atof ftext) attrs xs" and "\<not> isEmptyText (join_with '','' xs)"
    and "\<forall>x\<in>set xs. NEWLINE \<notin> set x" and "length (join_with '','' xs) < MAX_LINE_SIZE" and "length (tupleBuf s) = MAX_TUPLE_SIZE"
    and "fsGood s" and "fsInput s = join_with '','' xs @ NEWLINE # rest" and "attrTypes s = map fst attrs"
    and "attrLens s = map snd attrs" and "offsets s = layout 0 attrs" and "tupleLen s = sizes attrs"
  shows "\<exists>s'. getNext atof s = Done (Some (concat (map2 (encode atof) attrs xs))) s' \<and> fsInput s' = rest \<and> fsGood s'"
proof -
  let ?s = "s\<lparr>fsInput := rest, fsEof := False, fsFail := False\<rparr>"
  let ?bs = "concat (map2 (encode atof) attrs xs)"
  have ok: "list_all attr_ok attrs" "sizes attrs \<le> int MAX_TUPLE_SIZE" using assms(1) by (simp_all add: schema_ok_def)
  have nul: "\<forall>x\<in>set xs. NUL \<notin> set x" using assms(2) by (auto simp: list_all2_conv_all_nth in_set_conv_nth field_ok_def)
  have g: "fsGetline MAX_LINE_SIZE s = Done (join_with '','' xs) ?s"
    by (rule fsGetline_line [OF assms(8)])
      (use join_chars [of _ "'',''" xs] assms(4,5) nul in \<open>auto simp: NEWLINE_def NUL_def\<close>)
  let ?t = "?s\<lparr>tupleBuf := ?bs @ drop (nat (sizes attrs)) (tupleBuf s)\<rparr>"
  have p: "parseTuple atof (join_with '','' xs) ?s = Done () ?t"
    using parseFields_at [OF ok(1) assms(2), of ?s "[]" "tupleBuf s"] assms(6,9-11) ok(2) by (simp add: parseTuple_def comp_defs)
  have "nat (sizes attrs) = length ?bs" using encode_all_length [OF ok(1) assms(2)] by simp
  then have "theTuple ?t = Done (Some ?bs) ?t" using assms(12) by (simp add: theTuple_def readM_def)
  then have "getNext atof s = Done (Some ?bs) ?t"
    using g p assms(3,7) by (simp add: getNext_def seqM_def bindM_def readM_def)
  then show ?thesis by (simp add: fsGood_def)
qed

lemma putNext_fields:
  assumes "schema_ok attrs" and "list_all2 (field_ok atof ftext) attrs xs"
  shows "\<exists>g. seqM (describe attrs) (seqM go_start
      (putNext ftext (word_bytes ts @ [sign] @ concat (map2 (encode atof) attrs xs)) (sizes attrs + 5))) newGenOutput = Done () g \<and>
    goOut g = ''['' @ decimal (uint ts) @ '']:'' @ [sign] @ '':'' @ join_with '', '' xs @ [NEWLINE]"
proof -
  let ?tuple = "word_bytes ts @ [sign] @ concat (map2 (encode atof) attrs xs)"
  have ok: "length attrs \<le> MAX_ATTRS" "list_all attr_ok attrs" "sizes attrs \<le> 256" "attrs \<noteq> []"
    using assms(1) by (simp_all add: schema_ok_def MAX_TUPLE_SIZE_def)
  have range: "\<forall>a\<in>set attrs. 0 \<le> snd a \<and> snd a < 2 ^ 31"
  proof
    fix a assume a: "a \<in> set attrs"
    have "attr_size (fst a) (snd a) \<le> sizes attrs" using a ok(2)
    proof (induction attrs)
      case (Cons b attrs)
      then show ?case using sizes_nonneg [of attrs] attr_size_pos [of "fst b" "snd b"] by (cases b) auto
    qed simp
    moreover have "attr_ok a" "fst a \<noteq> T_CHAR \<longrightarrow> snd a = 0" using a assms(1) by (auto simp: schema_ok_def list_all_iff)
    ultimately show "0 \<le> snd a \<and> snd a < 2 ^ 31" using ok(3) by (cases "fst a") (auto simp: attr_size_def attr_ok_def)
  qed
  obtain types lens where d: "describe attrs newGenOutput = Done () (newGenOutput\<lparr>goNumAttrs := int (length attrs),
      goTypes := map (\<lambda>a. Some (fst a)) attrs @ types, goLens := map snd attrs @ lens\<rparr>)"
    using describe_outcome [OF ok(1) range] by blast
  let ?g = "newGenOutput\<lparr>goNumAttrs := int (length attrs), goTypes := map (\<lambda>a. Some (fst a)) attrs @ types,
      goLens := map snd attrs @ lens\<rparr>"
  let ?h = "?g\<lparr>tstampOffset := 0, signOffset := 4, goOffsets := layout 5 attrs, goTupleLen := 5 + sizes attrs\<rparr>"
  have z: "take (length attrs) (zip (map (\<lambda>a. Some (fst a)) attrs @ types) (map snd attrs @ lens)) =
      zip (map (\<lambda>a. Some (fst a)) attrs) (map snd attrs)"
    by simp
  have st: "go_start ?g = Done () ?h"
    using goOffset_loop [OF ok(2), of 5 "[]" "?g\<lparr>tstampOffset := 0, signOffset := 4\<rparr>"] ok(3,4)
    by (simp add: go_start_def TIMESTAMP_SIZE_def z comp_defs newGenOutput_def)
  have b: "goOut ?h = []" by (simp add: newGenOutput_def)
  let ?k = "?h\<lparr>goOut := ''['' @ decimal (uint ts) @ '']:'' @ [sign] @ '':''\<rparr>"
  have at: "printAttrs ftext ?tuple (zip (map (\<lambda>a. Some (fst a)) attrs) (layout 5 attrs)) ?k =
      Done () (?k\<lparr>goOut := goOut ?k @ join_with '', '' xs\<rparr>)"
    using printAttrs_at [OF ok(2) assms(2), of "word_bytes ts @ [sign]" "[]" ?k] by simp
  have pk: "peek ?tuple 0 4 s = Done (word_bytes ts) s" "peek ?tuple 4 1 s = Done [sign] s" for s :: gen_output
    using peek_at [of "[]" "word_bytes ts"] peek_at [of "word_bytes ts" "[sign]"] by simp_all
  have "putNext ftext ?tuple (sizes attrs + 5) ?h =
      Done () (?k\<lparr>goOut := goOut ?k @ join_with '', '' xs @ [NEWLINE]\<rparr>)"
    using at b pk by (simp add: putNext_def printBody_def TIMESTAMP_SIZE_def print_text_def bytes_word_bytes
        seqM_def bindM_def readM_def modM_def)
  then show ?thesis using d st by (simp add: seqM_def bindM_def)
qed

text \<open>C36: A line of a source file whose fields are written the way they are printed comes back: the schema of
  the first line, the encoding of the second in the buffer, and the printing of the encoded tuple, with
  a time stamp and a sign before it, give the same fields in the same order.\<close>
theorem tuple_round_trip:
  assumes "schema_ok attrs" and "list_all2 (field_ok atof ftext) attrs xs" and "\<not> isEmptyText (join_with '','' xs)"
    and "\<forall>x\<in>set xs. NEWLINE \<notin> set x" and "length (join_with '','' xs) < MAX_LINE_SIZE"
    and "length (schema_text attrs) < MAX_LINE_SIZE" and "length mem = MAX_TUPLE_SIZE"
  shows "\<exists>tuple s g.
    seqM fs_start (getNext atof)
      (newFileSource (Some (schema_text attrs @ NEWLINE # join_with '','' xs @ NEWLINE # rest)) mem) = Done (Some tuple) s \<and>
    fsInput s = rest \<and> length tuple \<le> MAX_TUPLE_SIZE \<and>
    seqM (describe attrs) (seqM go_start (putNext ftext (word_bytes ts @ [sign] @ tuple) (int (length tuple) + 5)))
      newGenOutput = Done () g \<and>
    goOut g = ''['' @ decimal (uint ts) @ '']:'' @ [sign] @ '':'' @ join_with '', '' xs @ [NEWLINE]"
proof -
  let ?f = "newFileSource (Some (schema_text attrs @ NEWLINE # join_with '','' xs @ NEWLINE # rest)) mem"
  let ?l = "join_with '','' xs @ NEWLINE # rest"
  let ?s = "?f\<lparr>fsInput := ?l, fsEof := False, fsFail := False, attrTypes := map fst attrs,
    attrLens := map snd attrs, offsets := layout 0 attrs, tupleLen := sizes attrs\<rparr>"
  let ?t = "concat (map2 (encode atof) attrs xs)"
  have 1: "fs_start ?f = Done () ?s"
    by (rule fs_start_schema [OF assms(1)]) (simp_all add: newFileSource_def assms(6))
  obtain s where 2: "getNext atof ?s = Done (Some ?t) s" "fsInput s = rest"
    using getNext_fields [OF assms(1-5), of ?s rest] assms(7) by (auto simp: newFileSource_def fsGood_def)
  have len: "int (length ?t) = sizes attrs" by (rule encode_all_length) (use assms(1,2) in \<open>simp_all add: schema_ok_def\<close>)
  have "length ?t \<le> MAX_TUPLE_SIZE" using len assms(1) by (simp add: schema_ok_def)
  moreover obtain g where "seqM (describe attrs) (seqM go_start (putNext ftext (word_bytes ts @ [sign] @ ?t) (int (length ?t) + 5)))
      newGenOutput = Done () g"
    "goOut g = ''['' @ decimal (uint ts) @ '']:'' @ [sign] @ '':'' @ join_with '', '' xs @ [NEWLINE]"
    using putNext_fields [OF assms(1,2), of ts sign] unfolding len by blast
  moreover have "seqM fs_start (getNext atof) ?f = Done (Some ?t) s" using 1 2(1) by (simp add: seqM_def bindM_def)
  ultimately show ?thesis using 2(2) by blast
qed

definition demo_attrs :: "attr list" where
  "demo_attrs = [(T_INT, 0), (T_FLOAT, 0), (T_CHAR, 5), (T_BYTE, 0)]"

text \<open>One number and its bit pattern.\<close>

definition demo_atof :: "string \<Rightarrow> 32 word" where
  "demo_atof x = (if x = ''1.5'' then 0x3FC00000 else 0)"

definition demo_ftext :: "32 word \<Rightarrow> string" where
  "demo_ftext w = (if w = 0x3FC00000 then ''1.5'' else ''0'')"

theorem tuple_round_trip_witness:
  "\<exists>tuple s g.
    seqM fs_start (getNext demo_atof) (newFileSource (Some (''i,f,c5,b'' @ NEWLINE # ''-17,1.5,abc,x'' @ NEWLINE # [])) (replicate 256 NUL)) =
      Done (Some tuple) s \<and> length tuple \<le> MAX_TUPLE_SIZE \<and>
    seqM (describe demo_attrs) (seqM go_start (putNext demo_ftext (word_bytes 42 @ ''+'' @ tuple) (int (length tuple) + 5)))
      newGenOutput = Done () g \<and>
    goOut g = ''[42]:+:-17, 1.5, abc, x'' @ [NEWLINE]"
proof -
  let ?xs = "[''-17'', ''1.5'', ''abc'', ''x'']"
  have c: "char_of (49 :: nat) = CHR ''1''" "char_of (55 :: nat) = CHR ''7''" "char_of (52 :: nat) = CHR ''4''"
      "char_of (50 :: nat) = CHR ''2''" "char_of (53 :: nat) = CHR ''5''" by code_simp+
  have dec: "decimal (- 17) = ''-17''" "decimal 42 = ''42''" "decimal 5 = ''5''"
    by (simp_all add: decimal_def digits.simps c)
  have "atoi (decimal (- 17)) () = Done (- 17) ()" by (subst atoi_decimal) (simp_all add: retM_def)
  then have at: "atoi ''-17'' () = Done (- 17) ()" unfolding dec .
  have ok: "schema_ok demo_attrs"
    by (simp add: schema_ok_def demo_attrs_def attr_ok_def attr_size_def INT_SIZE_def FLOAT_SIZE_def MAX_ATTRS_def MAX_TUPLE_SIZE_def)
  have f: "list_all2 (field_ok demo_atof demo_ftext) demo_attrs ?xs"
    using at by (simp add: demo_attrs_def field_ok_def dec NUL_def demo_atof_def demo_ftext_def)
  have t: "schema_text demo_attrs = ''i,f,c5,b''" by (simp add: schema_text_def demo_attrs_def attr_text_def dec)
  have e: "\<not> isEmptyText (join_with '','' ?xs)" by (simp add: isEmptyText_def isspace_def)
  have n: "\<forall>x\<in>set ?xs. NEWLINE \<notin> set x" by (simp add: NEWLINE_def)
  have l: "length (join_with '','' ?xs) < MAX_LINE_SIZE" "length (schema_text demo_attrs) < MAX_LINE_SIZE"
      "length (replicate 256 NUL) = MAX_TUPLE_SIZE"
    by (simp_all add: MAX_LINE_SIZE_def MAX_TUPLE_SIZE_def t)
  show ?thesis
    using tuple_round_trip [OF ok f e n l, of "[]" 42 "CHR ''+''"] unfolding t by (simp add: dec) blast
qed

end
