(* ===== verification/Spec2Isabelle.thy ===== *)
theory Spec2Isabelle
  imports Catalog_Spec Parser_Spec Scanner_Spec Sem_Spec Naive_Spec Log_Spec Phy_Spec Plan_Spec Server_Spec Phy_Types Coordinator_Spec Load_Spec Tuple_Spec
begin

text \<open>
  A verification development for the AQSIOS coordinator (\<open>src/AQSIOSCoordinator\<close>): it loads a network
  of continuous queries from a script, compiles every query into operators of one global plan, and
  distributes the load between the nodes that execute the plan.

  \<^bold>\<open>How the parts interact.\<close>  The coordinator (\<open>src/AQSIOSCoordinator.cpp\<close>) reads the commands of a
  script (\<open>script_file_reader.cc\<close>) and passes them to the server (\<open>server/server_impl.cc\<close>), which owns
  all other parts of the compilation.  The text of a command is scanned and parsed into a tree
  (\<open>src/parser\<close>).  The declaration of a table goes to the table manager, the text of a query to the
  query manager (\<open>src/metadata\<close>).  The semantic interpreter (\<open>src/querygen/sem_interp.cc\<close>) resolves the
  names of a query against the table manager and turns its tree into a \<open>query\<close>.  The generator of
  logical plans builds a naive plan (\<open>log_naive_plan_gen.cc\<close>) from the operators of a pool
  (\<open>logop.cc\<close>, \<open>logexpr.cc\<close>) and transforms it in place (\<open>log_plan_gen.cc\<close>).  The plan manager
  (\<open>metadata/plan_mgr_impl.cc\<close>) keeps the operator that serves each table; it translates the logical
  plan into physical operators (\<open>gen_phy_plan.cc\<close>), puts them on top of the operators of the tables
  of the query, and transforms the global plan at the end (\<open>plan_trans.cc\<close>).  After that the
  coordinator waits for the nodes: one thread takes connections and reports, another decides on
  migrations; they share the load manager (\<open>load_manager.cpp\<close>, \<open>node_info.cc\<close>).  The objects
  \<open>FileSource\<close> and \<open>GenOutput\<close> (\<open>file_source.cc\<close>, \<open>gen_output.cc\<close>) belong to the tables and queries of a
  script; they encode lines of text as tuples and print tuples.

  \<^bold>\<open>How the code is modelled\<close> (\<open>P3_Base\<close>).  A function is a computation in a state monad with
  three abnormal endings: a status code (the state keeps the effects made so far), \<open>exit\<close>, and
  undefined behaviour (null dereference, access outside an array, signed overflow, wrong member of
  a union).  Arrays with a counter are lists with an explicit capacity, pointers into a pool are
  natural numbers, null pointers are \<open>None\<close>, loops over lists are recursive, and loops that follow
  pointers carry a fuel of the size of the pool, with undefined behaviour when it is used up: such
  a run would visit an operator twice and never end.  The theorems show that it does not happen.
  The predicate \<open>wp\<close> is the weakest precondition; a theorem \<open>wp m Q E s\<close> says that \<open>m\<close> ends without
  undefined behaviour and without \<open>exit\<close>, in \<open>Q\<close> when it succeeds and in \<open>E\<close> when it fails.  The
  liberal variant \<open>wlp\<close> and relations that every run keeps (\<open>P3_Partial\<close>) serve for invariants.

  \<^bold>\<open>Models of the code.\<close>
  \<^item> \<open>P3_Types\<close>: types, limits and status codes (\<open>include/common\<close>, \<open>include/interface/error.h\<close>).
  \<^item> \<open>Table_Manager\<close>, \<open>Query_Manager\<close>: \<open>table_mgr.cc\<close>, \<open>query_mgr.cc\<close>.
  \<^item> \<open>Parse_Nodes\<close>, \<open>Scan_Help\<close>, \<open>Grammar\<close>: the nodes of parse trees and their pool (\<open>nodes.cc\<close>), the
    identifiers and the string space of the scanner (\<open>scanhelp.cc\<close>), and the semantic actions of
    the grammar (\<open>parse.yy\<close>), as functions on the derivations that the grammar allows.
  \<^item> \<open>Scanner\<close>: the lexical rules (\<open>scan.ll\<close>) and their actions (\<open>scan.cc\<close>); the automaton between
    them is represented by what it decides, the longest match and the first rule.
  \<^item> \<open>Sem_Query\<close>, \<open>Sem_Interp\<close>: \<open>query.h\<close>, \<open>sem_interp.cc\<close>.
  \<^item> \<open>Log_Op\<close>, \<open>Naive_Plan\<close>, \<open>Log_Trans\<close>: operators and expressions of logical plans with their pools
    (\<open>logop.cc\<close>, \<open>logexpr.cc\<close>), the generator of the naive plan, the transformations.
  \<^item> \<open>Phy_Op\<close>, \<open>Phy_Gen\<close>: physical operators and expressions with their pools, and the translation of
    logical plans (\<open>phy_op.h\<close>, \<open>gen_phy_plan.cc\<close>); the state is that of the plan manager.
  \<^item> \<open>Plan_Trans\<close>, \<open>Plan_Manager\<close>: \<open>plan_trans.cc\<close> and \<open>plan_mgr_impl.cc\<close>.
  \<^item> \<open>Server\<close>: \<open>server_impl.cc\<close>.  The parser is the parameter \<open>derive\<close>, which gives the derivation of a
    text, or none for a syntax error; the actions of the derivation are those of \<open>Grammar\<close>.
  \<^item> \<open>Script_Reader\<close>, \<open>Coordinator\<close>: the commands of a script, and \<open>register_appln\<close> with one definition
    per case of its \<open>switch\<close>.
  \<^item> \<open>Load_Manager\<close>, \<open>Clients\<close>: nodes, reports, decisions; the two threads as the step relation
    \<open>net_step\<close>, one step per critical section.  The arithmetic of \<open>double\<close> is a parameter.
  \<^item> \<open>File_Source\<close>, \<open>Gen_Output\<close>: \<open>file_source.cc\<close>, \<open>gen_output.cc\<close>, with the conversions between text and
    \<open>float\<close> as parameters.  \<open>Decimal_Text\<close> has the conversions of integers.

  \<^bold>\<open>Abstract specifications and proofs.\<close>
  \<^item> \<open>Catalog_Spec\<close>: tables and query strings as registries: names are unique, identifiers last, a
    failed registration is undone completely, the text of every query stays in the buffer.
  \<^item> \<open>Parser_Spec\<close>: every derivable command builds the tree of its derivation, if the pool of nodes
    suffices, which is well-formed if its numbers fit; reserved words, and the one word that overflows
    a buffer.  \<open>Scanner_Spec\<close>: the scanner finds the lexemes of a text and keeps to its string space.
  \<^item> \<open>Sem_Facts\<close>, \<open>Sem_Spec\<close>: the interpreter is safe on well-formed trees and produces well-typed
    queries (\<open>query_ok\<close>); how names, \<open>SELECT *\<close>, windows and schemas are resolved.  \<open>Sem_From\<close>: which
    variables occur in the queries that were parsed.
  \<^item> \<open>Log_Facts\<close>, \<open>Log_Ctx\<close>, \<open>Log_Kplan\<close>: the plan that a heap of operators represents (\<open>rep\<close>,
    \<open>placed\<close>), contexts in a plan, and plans of kinds alone (\<open>kplan\<close>) from which schemas and stream
    flags follow.
  \<^item> \<open>Naive_Facts\<close>, \<open>Naive_Spec\<close>: the generator builds the plan \<open>naive_plan\<close>.
  \<^item> \<open>Log_Rewrite\<close>: the transformations as functions on \<open>kplan\<close>; \<open>Log_Trans_Facts\<close>, \<open>Log_Join\<close>,
    \<open>Log_Stream\<close>, \<open>Log_Push\<close>: the code of each transformation does what its function says;
    \<open>Log_Gen\<close>: their composition (the locales \<open>pass\<close> and \<open>two_passes\<close>).
  \<^item> \<open>Log_Spec\<close>: the theorems about the logical plan and each transformation.
  \<^item> \<open>Phy_Pool\<close>, \<open>Phy_Facts\<close>: the pool of physical operators as a list of free and a list of used ones.
    \<open>Phy_Tree\<close>: the physical plan as a function of the logical one (\<open>phy_of\<close>), and when operators
    represent it; \<open>Phy_Build\<close>, \<open>Phy_Plan\<close>: the generator builds it; \<open>Phy_Refs\<close>: the conditions on a
    query (\<open>grounded\<close>), not checked by the code, under which its plan can be translated;
    \<open>Phy_Spec\<close>: the theorems.
  \<^item> \<open>Phy_Graph\<close>: the invariant \<open>plan_inv\<close> of the graph of operators, kept by successes and failures;
    \<open>Plan_Facts\<close>, \<open>Plan_Query\<close>, \<open>Plan_Spec\<close>: tables, queries, views and query classes.
  \<^item> \<open>Phy_Types\<close>: the generated operators read columns that exist, with the types they were compiled
    for, except above \<open>COUNT\<close>.
  \<^item> \<open>Server_Facts\<close>, \<open>Server_Spec\<close>: the commands of the server as a transition system with an
    invariant of all reachable states, the order of commands, the stages of a query, and a query that
    is accepted and has undefined behaviour later.
  \<^item> \<open>Script_Facts\<close>, \<open>Coordinator_Spec\<close>: what a script says (\<open>script_commands\<close>, \<open>item\<close>), and that the
    coordinator does just that with the server; what it does with a script that is not in order
    (\<open>calls\<close>, \<open>orderly\<close>).
  \<^item> \<open>Load_Facts\<close>, \<open>Load_Report\<close>, \<open>Load_Spec\<close>: an invariant of all interleavings, the format of the
    reports, the choice of the nodes, and two runs that go wrong.
  \<^item> \<open>Tuple_Spec\<close>: a line that is encoded and printed again keeps its fields.

  The locales state the interfaces: \<open>bump_pool\<close> (the pools of nodes, expressions and operators),
  \<open>free_list_pool\<close> (the physical operators), \<open>registry\<close> (tables and query strings), \<open>joiner\<close> (the two
  kinds of cross products), \<open>pass\<close> and \<open>two_passes\<close> (the transformations), \<open>step_relation\<close> (relations
  that all constructs of the language keep), \<open>node_vector\<close> (the vectors of a node that a report
  fills).  Each is interpreted on the model of the code.

  \<^bold>\<open>Bounds and fuel.\<close>  A query has at most 37 operators in its naive plan and 68 in the pool after the
  transformations, of 500; its expressions fit into the pool of 500 because the parser has at most
  100 nodes.  There are \<open>P_MAX_OPS\<close> = 5000 physical operators and as many expressions of each kind; the
  walks over the used operators and down the graph have that fuel, which is enough because the list
  and the paths of the graph have no repetition.  The translation of a logical plan has the size of
  its pool as fuel.  The loops of the script reader and of \<open>register_appln\<close> have the number of characters left
  plus two: a line takes a character or meets the end of the file.

  \<^bold>\<open>Not modelled\<close>: the automata that flex and bison generate (the tables of \<open>scan.cc\<close> and
  \<open>parse.cc\<close>) and the buffer of the scanner; output for debugging and logging (\<open>printPlan\<close>, \<open>printStat\<close>, the stream operators of
  \<open>phy_op.cc\<close>, messages to the console); the members of operators that only the executing nodes use;
  the destructors; the calls of the operating system themselves, of which only the results matter,
  and the signal handler.  The transformations of \<open>plan_trans.cc\<close> are modelled completely, but their
  effect on the rows of a query is not specified: the operators are executed by other programs.
\<close>

section \<open>From the text of a query to its meaning\<close>

text \<open>C1: Whatever query is parsed, with tables that have attributes and range windows whose length
  fits into an \<open>int\<close>, the interpreter has no undefined behaviour and does not end the process: it
  rejects the query with one of its status codes, or builds a query in which every variable,
  table and attribute identifier is in range, every expression carries its type and every array is
  within its bounds.\<close>
theorem parsed_queries_interpreted:
  assumes "g_query_ok g" and "ranges_fit g" and "parseCommand (GC_QUERY g) p = Done t p'"
    and "tm_ok tm" and "tm_nonempty tm"
  shows "wp (interpretQuery tm t) (\<lambda>_ s'. query_ok tm (qry s')) (\<lambda>rc s'. rc \<in> sem_errs) s"
proof -
  have "wf_query t" "node_count t \<le> MAXNODE" using parseQuery_wf [OF assms(1,2,3)] by simp_all
  then show ?thesis using assms(4,5) by (intro interpretQuery_wp)
qed

theorem parsed_queries_interpreted_witness:
  "\<exists>t q. parseCommand (GC_QUERY (GQ_SFW (Some PX_RSTREAM) \<lparr>gDistinct = False,
       gProj = [GP_EXPR (GE_ATTR (GAttr None ''b''))], gRels = [GRelVar ''S'' (Some GW_NOW) None],
       gConds = [], gGroups = []\<rparr>)) \<lparr>nodeptr = 0, charptr = 0\<rparr> = Done t q \<and>
     wp (interpretQuery demo_tables t) (\<lambda>_ s'. query_ok demo_tables (qry s'))
       (\<lambda>rc s'. rc \<in> sem_errs) demo_state"
proof -
  let ?g = "GQ_SFW (Some PX_RSTREAM) \<lparr>gDistinct = False,
       gProj = [GP_EXPR (GE_ATTR (GAttr None ''b''))], gRels = [GRelVar ''S'' (Some GW_NOW) None],
       gConds = [], gGroups = []\<rparr>"
  have ok: "g_query_ok ?g" "ranges_fit ?g" by (simp_all add: g_sfw_ok_def)
  then have "g_command_ok (GC_QUERY ?g)" by simp
  then obtain t q where "parseCommand (GC_QUERY ?g) \<lparr>nodeptr = 0, charptr = 0\<rparr> = Done t q"
    by (simp add: parseCommand_makes tree_sfw_def MAXNODE_def)
  then show ?thesis using parsed_queries_interpreted [OF ok _ demo_ok(1,3)] by blast
qed

end
